(* ===== verification/Prelude.thy ===== *)
theory Prelude
  imports Main "HOL-Library.Multiset"
begin

text \<open>
  Shared vocabulary of the development: the collections the component theories
  fill, the numeric limits of the JavaScript runtime, the lexical classes that the
  source tests with regular expressions, and generic facts on lists and options
  that several components need.
\<close>

named_theorems js_simps "evaluation of JavaScript value accessors and tests"
named_theorems wf_simps "unfolding of component well-formedness predicates"
named_theorems frame_simps "state components an operation leaves alone"

subsection \<open>Numbers\<close>

text \<open>\<open>Number.MAX_SAFE_INTEGER\<close> and \<open>Number.isSafeInteger\<close> on integral values.\<close>

definition max_safe_integer :: int where
  "max_safe_integer = 9007199254740991"

definition is_safe_integer :: "int \<Rightarrow> bool" where
  "is_safe_integer n \<longleftrightarrow> - max_safe_integer \<le> n \<and> n \<le> max_safe_integer"

lemma is_safe_integer_bounds [intro]:
  "0 \<le> n \<Longrightarrow> n \<le> max_safe_integer \<Longrightarrow> is_safe_integer n"
  by (simp add: is_safe_integer_def max_safe_integer_def)

subsection \<open>Lexical classes\<close>

text \<open>
  The character classes \<open>[0-9]\<close>, \<open>[0-9a-f]\<close> and the patterns
  \<open>/^[0-9a-f]{n}$/\<close>. Without the \<open>m\<close> flag the anchors of a JavaScript pattern
  are the two ends of the string.
\<close>

definition is_digit :: "char \<Rightarrow> bool" where
  "is_digit c \<longleftrightarrow> c \<in> set ''0123456789''"

definition is_hex_digit :: "char \<Rightarrow> bool" where
  "is_hex_digit c \<longleftrightarrow> c \<in> set ''0123456789abcdef''"

definition is_hex :: "nat \<Rightarrow> string \<Rightarrow> bool" where
  "is_hex n s \<longleftrightarrow> length s = n \<and> list_all is_hex_digit s"

abbreviation is_hex64 :: "string \<Rightarrow> bool" where
  "is_hex64 \<equiv> is_hex 64"

abbreviation is_hex32 :: "string \<Rightarrow> bool" where
  "is_hex32 \<equiv> is_hex 32"

lemma is_hex_length: "is_hex n s \<Longrightarrow> length s = n"
  by (simp add: is_hex_def)

lemma is_hex_replicate [simp]: "is_hex n (replicate m c) \<longleftrightarrow> m = n \<and> (n = 0 \<or> is_hex_digit c)"
  by (auto simp: is_hex_def list_all_iff)

subsection \<open>Lists\<close>

lemma map_option_some_list:
  "those (map Some xs) = Some xs"
  by (induction xs) auto

lemma filter_length_eq_iff: "length (filter P xs) = length xs \<longleftrightarrow> (\<forall>x\<in>set xs. P x)"
  by (metis filter_True length_filter_less less_irrefl)

lemma distinct_map_filterI: "distinct (map f xs) \<Longrightarrow> distinct (map f (filter P xs))"
  by (rule distinct_map_filter)

text \<open>
  Replacing the first element that satisfies a test, as the source does when it
  mutates the object that \<open>Array.prototype.find\<close> returned.
\<close>

fun update_first :: "('a \<Rightarrow> bool) \<Rightarrow> ('a \<Rightarrow> 'a) \<Rightarrow> 'a list \<Rightarrow> 'a list" where
  "update_first P f [] = []"
| "update_first P f (x # xs) = (if P x then f x # xs else x # update_first P f xs)"

lemma length_update_first [simp]: "length (update_first P f xs) = length xs"
  by (induction xs) auto

lemma map_update_first_same:
  "(\<And>x. P x \<Longrightarrow> g (f x) = g x) \<Longrightarrow> map g (update_first P f xs) = map g xs"
  by (induction xs) auto

lemma set_update_first:
  "set (update_first P f xs) \<subseteq> set xs \<union> f ` {x \<in> set xs. P x}"
  by (induction xs) auto

lemma list_all_update_first:
  "list_all Q xs \<Longrightarrow> (\<And>x. Q x \<Longrightarrow> P x \<Longrightarrow> Q (f x)) \<Longrightarrow> list_all Q (update_first P f xs)"
  by (induction xs) auto

lemma update_first_none: "find P xs = None \<Longrightarrow> update_first P f xs = xs"
  by (induction xs) (auto split: if_splits)

subsection \<open>Sorting with a comparator\<close>

text \<open>
  \<open>Array.prototype.sort\<close> with a comparator: a stable sort. The comparator's result
  is an integer, negative when its left argument comes first. The laws of a
  comparator are an interface; every comparator of the source is an instance.
\<close>

fun insert_by :: "('a \<Rightarrow> 'a \<Rightarrow> int) \<Rightarrow> 'a \<Rightarrow> 'a list \<Rightarrow> 'a list" where
  "insert_by cmp x [] = [x]"
| "insert_by cmp x (y # ys) = (if cmp x y \<le> 0 then x # y # ys else y # insert_by cmp x ys)"

definition js_sort :: "('a \<Rightarrow> 'a \<Rightarrow> int) \<Rightarrow> 'a list \<Rightarrow> 'a list" where
  "js_sort cmp xs = foldr (insert_by cmp) xs []"

lemma js_sort_Nil [simp]: "js_sort cmp [] = []"
  by (simp add: js_sort_def)

lemma js_sort_Cons: "js_sort cmp (x # xs) = insert_by cmp x (js_sort cmp xs)"
  by (simp add: js_sort_def)

lemma mset_insert_by [simp]: "mset (insert_by cmp x xs) = add_mset x (mset xs)"
  by (induction xs) auto

lemma mset_js_sort [simp]: "mset (js_sort cmp xs) = mset xs"
  by (induction xs) (simp_all add: js_sort_Cons)

lemma set_js_sort [simp]: "set (js_sort cmp xs) = set xs"
  by (metis mset_js_sort set_mset_mset)

lemma length_js_sort [simp]: "length (js_sort cmp xs) = length xs"
  by (metis mset_js_sort size_mset)

locale comparator =
  fixes cmp :: "'a \<Rightarrow> 'a \<Rightarrow> int"
  assumes antisymmetric: "cmp x y > 0 \<Longrightarrow> cmp y x \<le> 0"
    and transitive: "cmp x y \<le> 0 \<Longrightarrow> cmp y z \<le> 0 \<Longrightarrow> cmp x z \<le> 0"
begin

abbreviation ordered :: "'a list \<Rightarrow> bool" where
  "ordered \<equiv> sorted_wrt (\<lambda>x y. cmp x y \<le> 0)"

lemma ordered_insert_by: "ordered xs \<Longrightarrow> ordered (insert_by cmp x xs)"
proof (induction xs)
  case (Cons y ys)
  have set_ins: "set (insert_by cmp x zs) = insert x (set zs)" for zs
    by (metis mset_insert_by set_mset_mset set_mset_add_mset_insert)
  show ?case
  proof (cases "cmp x y \<le> 0")
    case True
    with Cons.prems show ?thesis by (auto intro: transitive)
  next
    case False
    then have "cmp y x \<le> 0" using antisymmetric by simp
    with Cons False show ?thesis by (auto simp: set_ins)
  qed
qed simp

lemma ordered_js_sort: "ordered (js_sort cmp xs)"
  by (induction xs) (simp_all add: js_sort_Cons ordered_insert_by)

lemma js_sort_first:
  assumes "js_sort cmp xs = y # ys" "x \<in> set xs" shows "cmp y x \<le> 0"
proof (cases "x = y")
  case True
  then show ?thesis using antisymmetric[of y y] by fastforce
next
  case False
  with assms ordered_js_sort[of xs] show ?thesis
    by (metis set_ConsD set_js_sort sorted_wrt.simps(2))
qed

end

end
