(* ===== verification/JsValue.thy ===== *)
theory JsValue
  imports Prelude
begin

text \<open>
  The untrusted JavaScript values that the decoders read: results of
  \<open>JSON.parse\<close> and structured clones. A number is an integer or some other number
  (a fraction, an infinity or NaN, which every test of the source rejects in the
  same way). An object is its own enumerable properties in order; an array is
  dense. Strings are lists of code units below 256, which is all the patterns of
  the modelled decoders distinguish.
\<close>

datatype jsval =
    JUndefined
  | JNull
  | JBool bool
  | JInt int
  | JNonInteger
  | JStr string
  | JArr "jsval list"
  | JObj "(string \<times> jsval) list"

text \<open>Property access \<open>value.k\<close>: a missing property reads as \<open>undefined\<close>.\<close>

fun jprop :: "jsval \<Rightarrow> string \<Rightarrow> jsval" where
  "jprop (JObj kvs) k = (case map_of kvs k of None \<Rightarrow> JUndefined | Some v \<Rightarrow> v)"
| "jprop _ k = JUndefined"

text \<open>\<open>isRecord\<close>: an object that is neither \<open>null\<close> nor an array.\<close>

fun isRecord :: "jsval \<Rightarrow> bool" where
  "isRecord (JObj kvs) = True"
| "isRecord _ = False"

text \<open>\<open>Object.keys\<close> and \<open>hasExactKeys\<close>.\<close>

fun jkeys :: "jsval \<Rightarrow> string list" where
  "jkeys (JObj kvs) = remdups (map fst kvs)"
| "jkeys _ = []"

definition hasExactKeys :: "jsval \<Rightarrow> string list \<Rightarrow> bool" where
  "hasExactKeys v expected \<longleftrightarrow>
     length (jkeys v) = length expected \<and> list_all (\<lambda>k. k \<in> set (jkeys v)) expected"

text \<open>Type tests with the bounds the decoders use.\<close>

fun isBoundedInteger :: "jsval \<Rightarrow> int \<Rightarrow> int \<Rightarrow> bool" where
  "isBoundedInteger (JInt n) lo hi = (is_safe_integer n \<and> lo \<le> n \<and> n \<le> hi)"
| "isBoundedInteger _ lo hi = False"

fun isTimestamp :: "jsval \<Rightarrow> bool" where
  "isTimestamp (JInt n) = (is_safe_integer n \<and> 0 \<le> n)"
| "isTimestamp _ = False"

fun isPositiveInteger :: "jsval \<Rightarrow> bool" where
  "isPositiveInteger (JInt n) = (is_safe_integer n \<and> 1 \<le> n)"
| "isPositiveInteger _ = False"

fun isHex64 :: "jsval \<Rightarrow> bool" where
  "isHex64 (JStr s) = is_hex64 s"
| "isHex64 _ = False"

fun isBoolean :: "jsval \<Rightarrow> bool" where
  "isBoolean (JBool b) = True"
| "isBoolean _ = False"

text \<open>
  Reading a tested value. The source narrows a value by a test and then uses it at
  its narrowed type; the defaults below are never reached behind the tests.
\<close>

fun jint :: "jsval \<Rightarrow> int" where
  "jint (JInt n) = n"
| "jint _ = 0"

fun jstr :: "jsval \<Rightarrow> string" where
  "jstr (JStr s) = s"
| "jstr _ = []"

fun jbool :: "jsval \<Rightarrow> bool" where
  "jbool (JBool b) = b"
| "jbool _ = False"

text \<open>\<open>T | null\<close> as an option, and its stored form.\<close>

fun jstr_or_null :: "jsval \<Rightarrow> string option" where
  "jstr_or_null (JStr s) = Some s"
| "jstr_or_null _ = None"

fun jint_or_null :: "jsval \<Rightarrow> int option" where
  "jint_or_null (JInt n) = Some n"
| "jint_or_null _ = None"

definition str_or_null :: "string option \<Rightarrow> jsval" where
  "str_or_null x = (case x of None \<Rightarrow> JNull | Some s \<Rightarrow> JStr s)"

definition int_or_null :: "int option \<Rightarrow> jsval" where
  "int_or_null x = (case x of None \<Rightarrow> JNull | Some n \<Rightarrow> JInt n)"

lemma str_or_null_simps [simp, js_simps]:
  "str_or_null None = JNull" "str_or_null (Some s) = JStr s"
  "jstr_or_null (str_or_null x) = x"
  by (simp_all add: str_or_null_def split: option.splits)

lemma int_or_null_simps [simp, js_simps]:
  "int_or_null None = JNull" "int_or_null (Some n) = JInt n"
  "jint_or_null (int_or_null y) = y"
  by (simp_all add: int_or_null_def split: option.splits)

lemma str_or_null_eq_null [simp, js_simps]: "str_or_null x = JNull \<longleftrightarrow> x = None"
  by (cases x) auto

lemma int_or_null_eq_null [simp, js_simps]: "int_or_null y = JNull \<longleftrightarrow> y = None"
  by (cases y) auto

lemma isHex64_iff: "isHex64 v \<longleftrightarrow> (\<exists>s. v = JStr s \<and> is_hex64 s)"
  by (cases v) auto

lemma isTimestamp_iff: "isTimestamp v \<longleftrightarrow> (\<exists>n. v = JInt n \<and> is_safe_integer n \<and> 0 \<le> n)"
  by (cases v) auto

lemma isPositiveInteger_iff:
  "isPositiveInteger v \<longleftrightarrow> (\<exists>n. v = JInt n \<and> is_safe_integer n \<and> 1 \<le> n)"
  by (cases v) auto

lemma isBoundedInteger_iff:
  "isBoundedInteger v lo hi \<longleftrightarrow> (\<exists>n. v = JInt n \<and> is_safe_integer n \<and> lo \<le> n \<and> n \<le> hi)"
  by (cases v) auto

lemma isBoolean_iff: "isBoolean v \<longleftrightarrow> (\<exists>b. v = JBool b)"
  by (cases v) auto

lemmas js_type_iffs =
  isHex64_iff isTimestamp_iff isPositiveInteger_iff isBoundedInteger_iff isBoolean_iff

lemma hasExactKeys_self:
  "distinct (map fst kvs) \<Longrightarrow> hasExactKeys (JObj kvs) (map fst kvs)"
  by (simp add: hasExactKeys_def list_all_iff distinct_remdups_id)

text \<open>An object with exactly some keys reads as \<open>undefined\<close> at every other key.\<close>

lemma hasExactKeys_set:
  assumes "hasExactKeys v ks" "distinct ks" shows "set (jkeys v) = set ks"
proof -
  have "set ks \<subseteq> set (jkeys v)" using assms(1) by (auto simp: hasExactKeys_def list_all_iff)
  moreover have "card (set (jkeys v)) = card (set ks)"
    using assms by (cases v) (auto simp: hasExactKeys_def length_remdups_card_conv distinct_card)
  ultimately show ?thesis by (metis List.finite_set card_subset_eq)
qed

lemma jprop_undefined: "k \<notin> set (jkeys v) \<Longrightarrow> jprop v k = JUndefined"
  by (cases v) (auto split: option.splits dest!: map_of_SomeD intro: rev_image_eqI)

lemma jprop_agree:
  assumes "hasExactKeys v ks" "hasExactKeys w ks" "distinct ks"
    and "\<And>k. k \<in> set ks \<Longrightarrow> jprop v k = jprop w k"
  shows "jprop v k = jprop w k"
  using assms hasExactKeys_set jprop_undefined by metis

subsection \<open>Codecs\<close>

text \<open>
  What the users of a stored format rely on: the strict decoder accepts exactly the
  encodings of well-formed records among all encodings, and whatever it accepts is
  well formed.
\<close>

locale codec =
  fixes enc :: "'a \<Rightarrow> 'b" and dec :: "'b \<Rightarrow> 'a option" and wf :: "'a \<Rightarrow> bool"
  assumes dec_enc: "dec (enc a) = (if wf a then Some a else None)"
    and dec_wf: "dec v = Some a \<Longrightarrow> wf a"
begin

lemma reads_back: "wf a \<Longrightarrow> dec (enc a) = Some a"
  by (simp add: dec_enc)

lemma enc_inj:
  assumes "wf a" "enc a = enc b" shows "a = b"
proof -
  have "dec (enc b) = Some a" using assms by (simp flip: assms(2) add: reads_back)
  then show ?thesis by (cases "wf b") (simp_all add: dec_enc)
qed

lemma stable: "dec v = Some a \<Longrightarrow> dec (enc a) = Some a"
  by (frule dec_wf) (simp add: dec_enc)

lemma accepted_iff: "(\<exists>v. dec v = Some a) \<longleftrightarrow> wf a"
  using dec_wf reads_back by blast

end

end
