(* ===== verification/Attachments.thy ===== *)
theory Attachments
  imports JsValue
begin

text \<open>
  The hibernation attachments of the rendezvous room
  (\<open>src/src/rendezvous-attachments.ts\<close>, with its bounds from
  \<open>src/src/rendezvous-contract.ts\<close> and \<open>src/src/config.ts\<close>): the live records of
  a client and of a server control, the stored structured-clone values, the strict
  decoder, the encoder, and the well-formedness that the two agree on.
\<close>

subsection \<open>Bounds\<close>

definition ATTACHMENT_VERSION :: int where "ATTACHMENT_VERSION = 4"
definition MAX_RETAINED_TICKETS :: nat where "MAX_RETAINED_TICKETS = 50"
definition MAX_SESSION_MS :: int where "MAX_SESSION_MS = 15000"

definition MAX_SIGNAL_BYTES :: int where "MAX_SIGNAL_BYTES = 512"
definition MAX_CLIENT_CANDIDATES :: int where "MAX_CLIENT_CANDIDATES = 1"
definition MAX_SERVER_CANDIDATES :: int where "MAX_SERVER_CANDIDATES = 12"
definition MAX_COMPLETIONS :: int where "MAX_COMPLETIONS = 1"
definition MAX_CLIENT_AUTHORIZATION_FRAMES :: int where "MAX_CLIENT_AUTHORIZATION_FRAMES = 2"
definition MAX_SERVER_AUTHORIZATION_FRAMES :: int where "MAX_SERVER_AUTHORIZATION_FRAMES = 2"

definition MAX_AUTHORIZATION_SIGNAL_BYTES :: int where
  "MAX_AUTHORIZATION_SIGNAL_BYTES = MAX_SIGNAL_BYTES *
     (MAX_CLIENT_AUTHORIZATION_FRAMES + MAX_SERVER_AUTHORIZATION_FRAMES)"

definition MAX_RENDEZVOUS_SESSION_SIGNAL_BYTES :: int where
  "MAX_RENDEZVOUS_SESSION_SIGNAL_BYTES = MAX_AUTHORIZATION_SIGNAL_BYTES +
     MAX_SIGNAL_BYTES * (MAX_CLIENT_CANDIDATES + MAX_SERVER_CANDIDATES + MAX_COMPLETIONS)"

definition TERMINAL_CLOSE_RETRY_OFFSETS_MS :: "int list" where
  "TERMINAL_CLOSE_RETRY_OFFSETS_MS = [0, 1000, 3000, 7000]"

definition MAX_TERMINAL_CLOSE_ATTEMPTS :: int where
  "MAX_TERMINAL_CLOSE_ATTEMPTS = int (length TERMINAL_CLOSE_RETRY_OFFSETS_MS)"

definition TERMINAL_CLOSE_RETRY_HORIZON_MS :: int where
  "TERMINAL_CLOSE_RETRY_HORIZON_MS = last TERMINAL_CLOSE_RETRY_OFFSETS_MS"

lemmas attachment_bounds =
  ATTACHMENT_VERSION_def MAX_RETAINED_TICKETS_def MAX_SESSION_MS_def MAX_SIGNAL_BYTES_def
  MAX_CLIENT_CANDIDATES_def MAX_SERVER_CANDIDATES_def MAX_COMPLETIONS_def
  MAX_CLIENT_AUTHORIZATION_FRAMES_def MAX_SERVER_AUTHORIZATION_FRAMES_def
  MAX_AUTHORIZATION_SIGNAL_BYTES_def MAX_RENDEZVOUS_SESSION_SIGNAL_BYTES_def
  TERMINAL_CLOSE_RETRY_OFFSETS_MS_def MAX_TERMINAL_CLOSE_ATTEMPTS_def
  TERMINAL_CLOSE_RETRY_HORIZON_MS_def

subsection \<open>Records and enumerations\<close>

text \<open>\<open>RENDEZVOUS_TERMINAL_OUTCOMES\<close>, in the order whose index is stored.\<close>

datatype outcome =
    Completed | ClientDisconnected | SessionExpired | ProtocolError
  | ServerUnavailable | ServerReplaced | AuthorizationFailed | InternalError

definition RENDEZVOUS_TERMINAL_OUTCOMES :: "outcome list" where
  "RENDEZVOUS_TERMINAL_OUTCOMES =
     [Completed, ClientDisconnected, SessionExpired, ProtocolError,
      ServerUnavailable, ServerReplaced, AuthorizationFailed, InternalError]"

datatype client_stage = AwaitingCandidate | CandidateExchange | Terminal
datatype ticket_stage = TicketActive | TicketTerminal
datatype authorization_state = NotRequired | AwaitingInit | AuthTerminal
datatype ticket_authorization_state = TicketNotRequired

text \<open>
  \<open>accessGrant?: string | null\<close> and its siblings: an absent field is read through
  \<open>?? null\<close> and so is the same value as \<open>null\<close>.
\<close>

record client_attachment =
  controlId :: string
  generation :: string
  connectionId :: string
  admissionId :: int
  openedAt :: int
  expiresAt :: int
  boundTicketHash :: "string option"
  accessClientNonce :: "string option"
  accessExpiresAt :: "int option"
  accessGrant :: "string option"
  accessRedemption :: "string option"
  ticket :: "string option"
  ticketDigest :: "string option"
  stage :: client_stage
  authorization :: authorization_state
  clientAuthorizationFrames :: int
  serverAuthorizationFrames :: int
  clientCandidates :: int
  serverCandidates :: int
  completionCount :: int
  signalBytes :: int
  framesForwarded :: int
  summaryEmitted :: bool
  terminalOutcome :: "outcome option"
  terminalCloseAttempts :: int

record ticket_state =
  tk_digest :: string
  tk_clientConnectionId :: string
  tk_openedAt :: int
  tk_expiresAt :: int
  tk_stage :: ticket_stage
  tk_authorization :: ticket_authorization_state
  tk_clientAuthorizationFrames :: int
  tk_serverAuthorizationFrames :: int
  tk_serverCandidates :: int
  tk_completionCount :: int
  tk_signalBytes :: int

record server_attachment =
  sv_current :: bool
  sv_accessProtocol :: bool
  sv_controlId :: string
  sv_generation :: string
  sv_openedAt :: int
  sv_tickets :: "ticket_state list"

datatype attachment = ClientA client_attachment | ServerA server_attachment

subsection \<open>Codes of the enumerations\<close>

definition connection_id_pattern :: "(char \<Rightarrow> bool) list" where
  "connection_id_pattern =
     replicate 8 is_hex_digit @ [\<lambda>c. c = CHR ''-''] @
     replicate 4 is_hex_digit @ [\<lambda>c. c = CHR ''-''] @
     [\<lambda>c. c = CHR ''4''] @ replicate 3 is_hex_digit @ [\<lambda>c. c = CHR ''-''] @
     [\<lambda>c. c \<in> set ''89ab''] @ replicate 3 is_hex_digit @ [\<lambda>c. c = CHR ''-''] @
     replicate 12 is_hex_digit"

definition is_connection_id :: "string \<Rightarrow> bool" where
  "is_connection_id s \<longleftrightarrow> list_all2 (\<lambda>p c. p c) connection_id_pattern s"

fun isConnectionId :: "jsval \<Rightarrow> bool" where
  "isConnectionId (JStr s) = is_connection_id s"
| "isConnectionId _ = False"

lemma isConnectionId_iff: "isConnectionId v \<longleftrightarrow> (\<exists>s. v = JStr s \<and> is_connection_id s)"
  by (cases v) auto

fun encodeClientStage :: "client_stage \<Rightarrow> int" where
  "encodeClientStage AwaitingCandidate = 0"
| "encodeClientStage CandidateExchange = 1"
| "encodeClientStage Terminal = 2"

definition decodeClientStage :: "int \<Rightarrow> client_stage" where
  "decodeClientStage n =
     (if n = 0 then AwaitingCandidate else if n = 1 then CandidateExchange else Terminal)"

fun encodeAuthorizationState :: "authorization_state \<Rightarrow> int" where
  "encodeAuthorizationState NotRequired = 0"
| "encodeAuthorizationState AwaitingInit = 1"
| "encodeAuthorizationState AuthTerminal = 6"

definition decodeAuthorizationState :: "jsval \<Rightarrow> authorization_state option" where
  "decodeAuthorizationState v =
     (if v = JInt 0 then Some NotRequired
      else if v = JInt 1 then Some AwaitingInit
      else if v = JInt 6 then Some AuthTerminal else None)"

fun encodeTicketAuthorizationState :: "ticket_authorization_state \<Rightarrow> int" where
  "encodeTicketAuthorizationState _ = 0"

definition decodeTicketAuthorizationState :: "jsval \<Rightarrow> ticket_authorization_state option" where
  "decodeTicketAuthorizationState v = (if v = JInt 0 then Some TicketNotRequired else None)"

text \<open>\<open>authorizationFrameCountsAreValid\<close> and its ticket form ignore the state's value.\<close>

definition authorizationFrameCountsAreValid ::
  "authorization_state \<Rightarrow> jsval \<Rightarrow> jsval \<Rightarrow> bool" where
  "authorizationFrameCountsAreValid st clientFrames serverFrames \<longleftrightarrow>
     clientFrames = JInt 0 \<and> serverFrames = JInt 0"

definition ticketAuthorizationFrameCountsAreValid ::
  "ticket_authorization_state option \<Rightarrow> jsval \<Rightarrow> jsval \<Rightarrow> bool" where
  "ticketAuthorizationFrameCountsAreValid st clientFrames serverFrames \<longleftrightarrow>
     st \<noteq> None \<and> clientFrames = JInt 0 \<and> serverFrames = JInt 0"

text \<open>
  \<open>encodeTerminalOutcome\<close> is the index in the outcome table (every outcome is in it,
  so the \<open>code < 0\<close> exception has no case here); \<open>decodeTerminalOutcome\<close> reads it.
\<close>

fun index_of :: "'a \<Rightarrow> 'a list \<Rightarrow> nat" where
  "index_of x [] = 0"
| "index_of x (y # ys) = (if x = y then 0 else Suc (index_of x ys))"

definition encodeTerminalOutcome :: "outcome \<Rightarrow> int" where
  "encodeTerminalOutcome o1 = int (index_of o1 RENDEZVOUS_TERMINAL_OUTCOMES)"

fun decodeTerminalOutcome :: "jsval \<Rightarrow> outcome option" where
  "decodeTerminalOutcome (JInt n) =
     (if \<not> is_safe_integer n \<or> n < 0 \<or> int (length RENDEZVOUS_TERMINAL_OUTCOMES) \<le> n then None
      else Some (RENDEZVOUS_TERMINAL_OUTCOMES ! nat n))"
| "decodeTerminalOutcome _ = None"

fun isClientStage :: "jsval \<Rightarrow> bool" where
  "isClientStage v = (v = JInt 0 \<or> v = JInt 1 \<or> v = JInt 2)"

fun isAuthorizationState :: "jsval \<Rightarrow> bool" where
  "isAuthorizationState v = (v = JInt 0 \<or> v = JInt 1 \<or> v = JInt 6)"

fun isTicketStage :: "jsval \<Rightarrow> bool" where
  "isTicketStage v = (v = JInt 0 \<or> v = JInt 1)"

declare isClientStage.simps [simp del] isAuthorizationState.simps [simp del]
  isTicketStage.simps [simp del] isTimestamp.simps [simp del]
  isPositiveInteger.simps [simp del] isBoundedInteger.simps [simp del]

subsection \<open>The strict decoder\<close>

definition client_keys :: "string list" where
  "client_keys =
     [''v'', ''r'', ''c'', ''g'', ''i'', ''a'', ''o'', ''x'', ''t'', ''d'', ''s'', ''p'', ''h'',
      ''j'', ''n'', ''q'', ''z'', ''b'', ''f'', ''m'', ''y'', ''k'', ''u'', ''e'', ''l'', ''w'', ''ae'']"

definition server_keys :: "string list" where
  "server_keys = [''v'', ''r'', ''u'', ''p'', ''c'', ''g'', ''o'', ''t'']"

text \<open>
  The first guard of \<open>decodeClientAttachment\<close>: shape and ranges of the single fields.
\<close>

definition clientFieldsValid :: "jsval \<Rightarrow> bool" where
  "clientFieldsValid v \<longleftrightarrow>
     hasExactKeys v client_keys \<and>
     jprop v ''v'' = JInt ATTACHMENT_VERSION \<and>
     jprop v ''r'' = JStr ''c'' \<and>
     ((jprop v ''u'' = JNull \<and> jprop v ''e'' = JNull \<and> jprop v ''w'' = JNull \<and> jprop v ''ae'' = JNull) \<or>
      (isHex64 (jprop v ''u'') \<and> isHex64 (jprop v ''e'') \<and> isHex64 (jprop v ''w'') \<and>
       isTimestamp (jprop v ''ae'') \<and> isTimestamp (jprop v ''o'') \<and>
       jint (jprop v ''ae'') > jint (jprop v ''o'') \<and>
       jint (jprop v ''ae'') - jint (jprop v ''o'') \<le> MAX_SESSION_MS)) \<and>
     \<not> (jprop v ''s'' = JInt 2 \<and>
        (jprop v ''u'' \<noteq> JNull \<or> jprop v ''e'' \<noteq> JNull \<or> jprop v ''w'' \<noteq> JNull)) \<and>
     (if jprop v ''s'' = JInt 2 then jprop v ''l'' = JNull else isHex64 (jprop v ''l'')) \<and>
     isConnectionId (jprop v ''c'') \<and>
     isHex64 (jprop v ''g'') \<and>
     isConnectionId (jprop v ''i'') \<and>
     isPositiveInteger (jprop v ''a'') \<and>
     isTimestamp (jprop v ''o'') \<and>
     isTimestamp (jprop v ''x'') \<and>
     jint (jprop v ''x'') > jint (jprop v ''o'') \<and>
     jint (jprop v ''x'') - jint (jprop v ''o'') \<le> MAX_SESSION_MS \<and>
     isClientStage (jprop v ''s'') \<and>
     isAuthorizationState (jprop v ''p'') \<and>
     isBoundedInteger (jprop v ''h'') 0 MAX_CLIENT_AUTHORIZATION_FRAMES \<and>
     isBoundedInteger (jprop v ''j'') 0 MAX_SERVER_AUTHORIZATION_FRAMES \<and>
     isBoundedInteger (jprop v ''n'') 0 MAX_CLIENT_CANDIDATES \<and>
     isBoundedInteger (jprop v ''q'') 0 MAX_SERVER_CANDIDATES \<and>
     isBoundedInteger (jprop v ''z'') 0 MAX_COMPLETIONS \<and>
     isBoundedInteger (jprop v ''b'') 0 MAX_RENDEZVOUS_SESSION_SIGNAL_BYTES \<and>
     isBoundedInteger (jprop v ''f'') 0
       (MAX_CLIENT_AUTHORIZATION_FRAMES + MAX_SERVER_AUTHORIZATION_FRAMES +
        MAX_CLIENT_CANDIDATES + MAX_SERVER_CANDIDATES + MAX_COMPLETIONS) \<and>
     isBoolean (jprop v ''m'') \<and>
     isBoundedInteger (jprop v ''k'') 0 MAX_TERMINAL_CLOSE_ATTEMPTS \<and>
     jint (jprop v ''x'') \<le> max_safe_integer - TERMINAL_CLOSE_RETRY_HORIZON_MS"

text \<open>The last guard: relations between the fields, over the decoded pair of ticket fields.\<close>

definition clientRelationsValid :: "jsval \<Rightarrow> authorization_state \<Rightarrow> bool \<Rightarrow> bool" where
  "clientRelationsValid v auth ticketIsNull =
     (let s = jprop v ''s''; n = jint (jprop v ''n''); q = jint (jprop v ''q'');
          z = jint (jprop v ''z''); b = jint (jprop v ''b'');
          acceptedFrames = jint (jprop v ''h'') + jint (jprop v ''j'') + n + q + z in
      \<not> (\<not> authorizationFrameCountsAreValid auth (jprop v ''h'') (jprop v ''j'') \<or>
         jint (jprop v ''f'') > acceptedFrames \<or>
         (acceptedFrames = 0) \<noteq> (b = 0) \<or>
         (z = MAX_COMPLETIONS \<and> s \<noteq> JInt 2) \<or>
         (s = JInt 0 \<and> (n \<noteq> 0 \<or> q \<noteq> 0 \<or> z \<noteq> 0)) \<or>
         (s = JInt 1 \<and> (ticketIsNull \<or> n \<noteq> MAX_CLIENT_CANDIDATES \<or> z \<noteq> 0)) \<or>
         (s = JInt 2 \<and> \<not> ticketIsNull) \<or>
         (s = JInt 2) \<noteq> (auth = AuthTerminal) \<or>
         (s \<noteq> JInt 2 \<and> jint (jprop v ''k'') \<noteq> 0) \<or>
         (auth = AwaitingInit \<and> (s \<noteq> JInt 0 \<or> \<not> ticketIsNull \<or> acceptedFrames \<noteq> 0)) \<or>
         (auth = NotRequired \<and>
           ((s = JInt 0 \<and> \<not> ticketIsNull) \<or> (s = JInt 1 \<and> ticketIsNull))) \<or>
         (s = JInt 1 \<and> auth \<noteq> NotRequired)))"

definition client_of_fields ::
  "jsval \<Rightarrow> authorization_state \<Rightarrow> outcome option \<Rightarrow> client_attachment" where
  "client_of_fields v auth out =
     \<lparr> controlId = jstr (jprop v ''c''), generation = jstr (jprop v ''g''),
       connectionId = jstr (jprop v ''i''), admissionId = jint (jprop v ''a''),
       openedAt = jint (jprop v ''o''), expiresAt = jint (jprop v ''x''),
       boundTicketHash = jstr_or_null (jprop v ''l''),
       accessClientNonce = jstr_or_null (jprop v ''w''),
       accessExpiresAt = jint_or_null (jprop v ''ae''),
       accessGrant = jstr_or_null (jprop v ''u''),
       accessRedemption = jstr_or_null (jprop v ''e''),
       ticket = jstr_or_null (jprop v ''t''), ticketDigest = jstr_or_null (jprop v ''d''),
       stage = decodeClientStage (jint (jprop v ''s'')), authorization = auth,
       clientAuthorizationFrames = jint (jprop v ''h''),
       serverAuthorizationFrames = jint (jprop v ''j''),
       clientCandidates = jint (jprop v ''n''), serverCandidates = jint (jprop v ''q''),
       completionCount = jint (jprop v ''z''), signalBytes = jint (jprop v ''b''),
       framesForwarded = jint (jprop v ''f''), summaryEmitted = jbool (jprop v ''m''),
       terminalOutcome = out, terminalCloseAttempts = jint (jprop v ''k'') \<rparr>"

definition decodeClientAttachment :: "jsval \<Rightarrow> client_attachment option" where
  "decodeClientAttachment v =
     (if \<not> clientFieldsValid v then None
      else
        let out = decodeTerminalOutcome (jprop v ''y'') in
        case decodeAuthorizationState (jprop v ''p'') of
          None \<Rightarrow> None
        | Some auth \<Rightarrow>
          if (jprop v ''y'' \<noteq> JNull \<and> out = None) \<or> (jprop v ''s'' = JInt 2) \<noteq> (out \<noteq> None)
          then None
          else if jprop v ''t'' = JNull \<and> jprop v ''d'' = JNull then
            (if clientRelationsValid v auth True then Some (client_of_fields v auth out) else None)
          else if isHex64 (jprop v ''t'') \<and> isHex64 (jprop v ''d'') then
            (if clientRelationsValid v auth False then Some (client_of_fields v auth out) else None)
          else None)"

text \<open>\<open>isStoredTicketState\<close>: a dense array has exactly the keys of its indices.\<close>

fun isStoredTicketState :: "jsval \<Rightarrow> bool" where
  "isStoredTicketState (JArr xs) =
     (length xs = 11 \<and>
      isHex64 (xs ! 0) \<and> isConnectionId (xs ! 1) \<and>
      isTimestamp (xs ! 2) \<and> isTimestamp (xs ! 3) \<and>
      jint (xs ! 3) > jint (xs ! 2) \<and>
      jint (xs ! 3) - jint (xs ! 2) \<le> MAX_SESSION_MS \<and>
      isTicketStage (xs ! 4) \<and>
      isBoundedInteger (xs ! 5) 0 MAX_SERVER_CANDIDATES \<and>
      isBoundedInteger (xs ! 6) 0 MAX_COMPLETIONS \<and>
      \<not> (xs ! 4 = JInt 0 \<and> xs ! 6 \<noteq> JInt 0) \<and>
      decodeTicketAuthorizationState (xs ! 8) \<noteq> None \<and>
      ticketAuthorizationFrameCountsAreValid
        (decodeTicketAuthorizationState (xs ! 8)) (xs ! 9) (xs ! 10) \<and>
      isBoundedInteger (xs ! 7) 1 MAX_RENDEZVOUS_SESSION_SIGNAL_BYTES)"
| "isStoredTicketState _ = False"

text \<open>
  \<open>decodeTicketState\<close>, after \<open>isStoredTicketState\<close>; its exception for an unknown
  authorization code is the first guard failing, so it has no case of its own.
\<close>

fun decodeTicketState :: "jsval \<Rightarrow> ticket_state" where
  "decodeTicketState (JArr xs) =
     \<lparr> tk_digest = jstr (xs ! 0), tk_clientConnectionId = jstr (xs ! 1),
       tk_openedAt = jint (xs ! 2), tk_expiresAt = jint (xs ! 3),
       tk_stage = (if xs ! 4 = JInt 0 then TicketActive else TicketTerminal),
       tk_authorization = TicketNotRequired,
       tk_clientAuthorizationFrames = jint (xs ! 9),
       tk_serverAuthorizationFrames = jint (xs ! 10),
       tk_serverCandidates = jint (xs ! 5), tk_completionCount = jint (xs ! 6),
       tk_signalBytes = jint (xs ! 7) \<rparr>"
| "decodeTicketState _ =
     \<lparr> tk_digest = [], tk_clientConnectionId = [], tk_openedAt = 0, tk_expiresAt = 0,
       tk_stage = TicketTerminal, tk_authorization = TicketNotRequired,
       tk_clientAuthorizationFrames = 0, tk_serverAuthorizationFrames = 0,
       tk_serverCandidates = 0, tk_completionCount = 0, tk_signalBytes = 0 \<rparr>"

fun jelems :: "jsval \<Rightarrow> jsval list option" where
  "jelems (JArr xs) = Some xs"
| "jelems _ = None"

definition decodeServerAttachment :: "jsval \<Rightarrow> server_attachment option" where
  "decodeServerAttachment v =
     (if hasExactKeys v server_keys \<and>
         jprop v ''v'' = JInt ATTACHMENT_VERSION \<and>
         jprop v ''r'' = JStr ''s'' \<and>
         isBoolean (jprop v ''u'') \<and> isBoolean (jprop v ''p'') \<and>
         isConnectionId (jprop v ''c'') \<and> isHex64 (jprop v ''g'') \<and>
         isTimestamp (jprop v ''o'')
      then
        (case jelems (jprop v ''t'') of
           None \<Rightarrow> None
         | Some xs \<Rightarrow>
           if length xs > MAX_RETAINED_TICKETS \<or> \<not> list_all isStoredTicketState xs then None
           else
             let tickets = map decodeTicketState xs in
             if \<not> distinct (map tk_digest tickets) \<or>
                \<not> distinct (map tk_clientConnectionId tickets) then None
             else Some \<lparr> sv_current = jbool (jprop v ''u''),
                         sv_accessProtocol = jbool (jprop v ''p''),
                         sv_controlId = jstr (jprop v ''c''),
                         sv_generation = jstr (jprop v ''g''),
                         sv_openedAt = jint (jprop v ''o''),
                         sv_tickets = tickets \<rparr>)
      else None)"

definition decodeRendezvousAttachment :: "jsval \<Rightarrow> attachment option" where
  "decodeRendezvousAttachment v =
     (if \<not> isRecord v \<or> jprop v ''v'' \<noteq> JInt ATTACHMENT_VERSION then None
      else if jprop v ''r'' = JStr ''c'' then map_option ClientA (decodeClientAttachment v)
      else if jprop v ''r'' = JStr ''s'' then map_option ServerA (decodeServerAttachment v)
      else None)"

subsection \<open>The encoder\<close>

definition encodeClientAttachment :: "client_attachment \<Rightarrow> jsval" where
  "encodeClientAttachment a = JObj
     [ (''v'', JInt ATTACHMENT_VERSION), (''r'', JStr ''c''),
       (''l'', str_or_null (boundTicketHash a)), (''w'', str_or_null (accessClientNonce a)),
       (''ae'', int_or_null (accessExpiresAt a)), (''u'', str_or_null (accessGrant a)),
       (''e'', str_or_null (accessRedemption a)), (''c'', JStr (controlId a)),
       (''g'', JStr (generation a)), (''i'', JStr (connectionId a)),
       (''a'', JInt (admissionId a)), (''o'', JInt (openedAt a)), (''x'', JInt (expiresAt a)),
       (''t'', str_or_null (ticket a)), (''d'', str_or_null (ticketDigest a)),
       (''s'', JInt (encodeClientStage (stage a))),
       (''p'', JInt (encodeAuthorizationState (authorization a))),
       (''h'', JInt (clientAuthorizationFrames a)), (''j'', JInt (serverAuthorizationFrames a)),
       (''n'', JInt (clientCandidates a)), (''q'', JInt (serverCandidates a)),
       (''z'', JInt (completionCount a)), (''b'', JInt (signalBytes a)),
       (''f'', JInt (framesForwarded a)), (''m'', JBool (summaryEmitted a)),
       (''y'', int_or_null (map_option encodeTerminalOutcome (terminalOutcome a))),
       (''k'', JInt (terminalCloseAttempts a)) ]"

definition encodeTicketState :: "ticket_state \<Rightarrow> jsval" where
  "encodeTicketState t = JArr
     [ JStr (tk_digest t), JStr (tk_clientConnectionId t), JInt (tk_openedAt t),
       JInt (tk_expiresAt t), JInt (if tk_stage t = TicketActive then 0 else 1),
       JInt (tk_serverCandidates t), JInt (tk_completionCount t), JInt (tk_signalBytes t),
       JInt (encodeTicketAuthorizationState (tk_authorization t)),
       JInt (tk_clientAuthorizationFrames t), JInt (tk_serverAuthorizationFrames t) ]"

definition encodeServerAttachment :: "server_attachment \<Rightarrow> jsval" where
  "encodeServerAttachment a = JObj
     [ (''v'', JInt ATTACHMENT_VERSION), (''r'', JStr ''s''), (''u'', JBool (sv_current a)),
       (''p'', JBool (sv_accessProtocol a)), (''c'', JStr (sv_controlId a)),
       (''g'', JStr (sv_generation a)), (''o'', JInt (sv_openedAt a)),
       (''t'', JArr (map encodeTicketState (sv_tickets a))) ]"

fun encodeRendezvousAttachment :: "attachment \<Rightarrow> jsval" where
  "encodeRendezvousAttachment (ClientA a) = encodeClientAttachment a"
| "encodeRendezvousAttachment (ServerA a) = encodeServerAttachment a"

subsection \<open>Well-formedness\<close>

text \<open>
  What the decoder's guards say of a decoded record, stated on the record: the
  attachments a room may hold.
\<close>

definition access_wf :: "client_attachment \<Rightarrow> bool" where
  "access_wf a \<longleftrightarrow>
     (case (accessGrant a, accessRedemption a, accessClientNonce a, accessExpiresAt a) of
        (None, None, None, None) \<Rightarrow> True
      | (Some g, Some r, Some n, Some e) \<Rightarrow>
          is_hex64 g \<and> is_hex64 r \<and> is_hex64 n \<and> is_safe_integer e \<and>
          openedAt a < e \<and> e \<le> openedAt a + MAX_SESSION_MS
      | _ \<Rightarrow> False)"

definition stage_wf :: "client_attachment \<Rightarrow> bool" where
  "stage_wf a \<longleftrightarrow>
     (case stage a of
        AwaitingCandidate \<Rightarrow>
          ticket a = None \<and> ticketDigest a = None \<and> pred_option is_hex64 (boundTicketHash a) \<and>
          boundTicketHash a \<noteq> None \<and> terminalOutcome a = None \<and>
          authorization a \<noteq> AuthTerminal \<and> clientCandidates a = 0 \<and> serverCandidates a = 0 \<and>
          completionCount a = 0 \<and> terminalCloseAttempts a = 0
      | CandidateExchange \<Rightarrow>
          ticket a \<noteq> None \<and> ticketDigest a \<noteq> None \<and> boundTicketHash a \<noteq> None \<and>
          pred_option is_hex64 (ticket a) \<and> pred_option is_hex64 (ticketDigest a) \<and>
          pred_option is_hex64 (boundTicketHash a) \<and> terminalOutcome a = None \<and>
          authorization a = NotRequired \<and> clientCandidates a = MAX_CLIENT_CANDIDATES \<and>
          completionCount a = 0 \<and> terminalCloseAttempts a = 0
      | Terminal \<Rightarrow>
          ticket a = None \<and> ticketDigest a = None \<and> boundTicketHash a = None \<and>
          accessGrant a = None \<and> terminalOutcome a \<noteq> None \<and> authorization a = AuthTerminal)"

definition client_wf :: "client_attachment \<Rightarrow> bool" where
  "client_wf a \<longleftrightarrow>
     access_wf a \<and> stage_wf a \<and>
     is_connection_id (controlId a) \<and> is_hex64 (generation a) \<and>
     is_connection_id (connectionId a) \<and>
     1 \<le> admissionId a \<and> admissionId a \<le> max_safe_integer \<and>
     0 \<le> openedAt a \<and> openedAt a < expiresAt a \<and> expiresAt a \<le> openedAt a + MAX_SESSION_MS \<and>
     expiresAt a \<le> max_safe_integer - TERMINAL_CLOSE_RETRY_HORIZON_MS \<and>
     clientAuthorizationFrames a = 0 \<and> serverAuthorizationFrames a = 0 \<and>
     0 \<le> clientCandidates a \<and> clientCandidates a \<le> MAX_CLIENT_CANDIDATES \<and>
     0 \<le> serverCandidates a \<and> serverCandidates a \<le> MAX_SERVER_CANDIDATES \<and>
     0 \<le> completionCount a \<and> completionCount a \<le> MAX_COMPLETIONS \<and>
     0 \<le> signalBytes a \<and> signalBytes a \<le> MAX_RENDEZVOUS_SESSION_SIGNAL_BYTES \<and>
     (signalBytes a = 0 \<longleftrightarrow> clientCandidates a + serverCandidates a + completionCount a = 0) \<and>
     0 \<le> framesForwarded a \<and>
     framesForwarded a \<le> clientCandidates a + serverCandidates a + completionCount a \<and>
     0 \<le> terminalCloseAttempts a \<and> terminalCloseAttempts a \<le> MAX_TERMINAL_CLOSE_ATTEMPTS"

definition ticket_wf :: "ticket_state \<Rightarrow> bool" where
  "ticket_wf t \<longleftrightarrow>
     is_hex64 (tk_digest t) \<and> is_connection_id (tk_clientConnectionId t) \<and>
     0 \<le> tk_openedAt t \<and> tk_openedAt t < tk_expiresAt t \<and>
     tk_expiresAt t \<le> tk_openedAt t + MAX_SESSION_MS \<and> tk_expiresAt t \<le> max_safe_integer \<and>
     tk_clientAuthorizationFrames t = 0 \<and> tk_serverAuthorizationFrames t = 0 \<and>
     0 \<le> tk_serverCandidates t \<and> tk_serverCandidates t \<le> MAX_SERVER_CANDIDATES \<and>
     0 \<le> tk_completionCount t \<and> tk_completionCount t \<le> MAX_COMPLETIONS \<and>
     (tk_stage t = TicketActive \<longrightarrow> tk_completionCount t = 0) \<and>
     1 \<le> tk_signalBytes t \<and> tk_signalBytes t \<le> MAX_RENDEZVOUS_SESSION_SIGNAL_BYTES"

definition server_wf :: "server_attachment \<Rightarrow> bool" where
  "server_wf a \<longleftrightarrow>
     is_connection_id (sv_controlId a) \<and> is_hex64 (sv_generation a) \<and>
     0 \<le> sv_openedAt a \<and> sv_openedAt a \<le> max_safe_integer \<and>
     length (sv_tickets a) \<le> MAX_RETAINED_TICKETS \<and>
     list_all ticket_wf (sv_tickets a) \<and>
     distinct (map tk_digest (sv_tickets a)) \<and>
     distinct (map tk_clientConnectionId (sv_tickets a))"

fun attachment_wf :: "attachment \<Rightarrow> bool" where
  "attachment_wf (ClientA a) = client_wf a"
| "attachment_wf (ServerA a) = server_wf a"

subsection \<open>Codes round-trip\<close>

lemma decode_encode_stage [js_simps]: "decodeClientStage (encodeClientStage s) = s"
  by (cases s) (simp_all add: decodeClientStage_def)

lemma encodeClientStage_eqs [js_simps]:
  "encodeClientStage s = 0 \<longleftrightarrow> s = AwaitingCandidate"
  "encodeClientStage s = 1 \<longleftrightarrow> s = CandidateExchange"
  "encodeClientStage s = 2 \<longleftrightarrow> s = Terminal"
  "encodeClientStage s \<in> {0, 1, 2}"
  by (cases s; simp)+

lemma decode_encode_authorization [js_simps]:
  "decodeAuthorizationState (JInt (encodeAuthorizationState s)) = Some s"
  by (cases s) (simp_all add: decodeAuthorizationState_def)

lemma encodeAuthorizationState_range [js_simps]:
  "isAuthorizationState (JInt (encodeAuthorizationState s))"
  by (cases s) (simp_all add: isAuthorizationState.simps)

lemma decodeAuthorizationState_Some:
  "decodeAuthorizationState v = Some s \<Longrightarrow> v = JInt (encodeAuthorizationState s)"
  by (auto simp: decodeAuthorizationState_def split: if_splits)

lemma decode_encode_outcome [js_simps]:
  "decodeTerminalOutcome (JInt (encodeTerminalOutcome x)) = Some x"
  by (cases x) (simp_all add: encodeTerminalOutcome_def RENDEZVOUS_TERMINAL_OUTCOMES_def
      is_safe_integer_def max_safe_integer_def)

lemma decode_encode_outcome_option [js_simps]:
  "decodeTerminalOutcome (int_or_null (map_option encodeTerminalOutcome x)) = x"
  by (cases x) (simp_all add: decode_encode_outcome del: decodeTerminalOutcome.simps(1))

lemma decodeTerminalOutcome_Some:
  assumes "decodeTerminalOutcome v = Some x"
  shows "v = JInt (encodeTerminalOutcome x)"
proof (cases v)
  case (JInt n)
  with assms have n: "0 \<le> n" "n < 8" and x: "x = RENDEZVOUS_TERMINAL_OUTCOMES ! nat n"
    by (auto simp: RENDEZVOUS_TERMINAL_OUTCOMES_def split: if_splits)
  from n have "n = 0 \<or> n = 1 \<or> n = 2 \<or> n = 3 \<or> n = 4 \<or> n = 5 \<or> n = 6 \<or> n = 7" by arith
  then show ?thesis
    using JInt x by (auto simp: encodeTerminalOutcome_def RENDEZVOUS_TERMINAL_OUTCOMES_def
        eval_nat_numeral)
qed (use assms in auto)

lemma all_keys_conv [simp]: "hasExactKeys (encodeClientAttachment a) client_keys"
  by (simp add: hasExactKeys_def encodeClientAttachment_def client_keys_def)

lemma server_keys_conv [simp]: "hasExactKeys (encodeServerAttachment a) server_keys"
  by (simp add: hasExactKeys_def encodeServerAttachment_def server_keys_def)

text \<open>The properties of an encoded client, by key.\<close>

lemma encodeClient_props [simp, js_simps]:
  "jprop (encodeClientAttachment a) ''v'' = JInt ATTACHMENT_VERSION"
  "jprop (encodeClientAttachment a) ''r'' = JStr ''c''"
  "jprop (encodeClientAttachment a) ''l'' = str_or_null (boundTicketHash a)"
  "jprop (encodeClientAttachment a) ''w'' = str_or_null (accessClientNonce a)"
  "jprop (encodeClientAttachment a) ''ae'' = int_or_null (accessExpiresAt a)"
  "jprop (encodeClientAttachment a) ''u'' = str_or_null (accessGrant a)"
  "jprop (encodeClientAttachment a) ''e'' = str_or_null (accessRedemption a)"
  "jprop (encodeClientAttachment a) ''c'' = JStr (controlId a)"
  "jprop (encodeClientAttachment a) ''g'' = JStr (generation a)"
  "jprop (encodeClientAttachment a) ''i'' = JStr (connectionId a)"
  "jprop (encodeClientAttachment a) ''a'' = JInt (admissionId a)"
  "jprop (encodeClientAttachment a) ''o'' = JInt (openedAt a)"
  "jprop (encodeClientAttachment a) ''x'' = JInt (expiresAt a)"
  "jprop (encodeClientAttachment a) ''t'' = str_or_null (ticket a)"
  "jprop (encodeClientAttachment a) ''d'' = str_or_null (ticketDigest a)"
  "jprop (encodeClientAttachment a) ''s'' = JInt (encodeClientStage (stage a))"
  "jprop (encodeClientAttachment a) ''p'' = JInt (encodeAuthorizationState (authorization a))"
  "jprop (encodeClientAttachment a) ''h'' = JInt (clientAuthorizationFrames a)"
  "jprop (encodeClientAttachment a) ''j'' = JInt (serverAuthorizationFrames a)"
  "jprop (encodeClientAttachment a) ''n'' = JInt (clientCandidates a)"
  "jprop (encodeClientAttachment a) ''q'' = JInt (serverCandidates a)"
  "jprop (encodeClientAttachment a) ''z'' = JInt (completionCount a)"
  "jprop (encodeClientAttachment a) ''b'' = JInt (signalBytes a)"
  "jprop (encodeClientAttachment a) ''f'' = JInt (framesForwarded a)"
  "jprop (encodeClientAttachment a) ''m'' = JBool (summaryEmitted a)"
  "jprop (encodeClientAttachment a) ''y'' = int_or_null (map_option encodeTerminalOutcome (terminalOutcome a))"
  "jprop (encodeClientAttachment a) ''k'' = JInt (terminalCloseAttempts a)"
  by (simp_all add: encodeClientAttachment_def)

lemma encodeServer_props [simp, js_simps]:
  "jprop (encodeServerAttachment b) ''v'' = JInt ATTACHMENT_VERSION"
  "jprop (encodeServerAttachment b) ''r'' = JStr ''s''"
  "jprop (encodeServerAttachment b) ''u'' = JBool (sv_current b)"
  "jprop (encodeServerAttachment b) ''p'' = JBool (sv_accessProtocol b)"
  "jprop (encodeServerAttachment b) ''c'' = JStr (sv_controlId b)"
  "jprop (encodeServerAttachment b) ''g'' = JStr (sv_generation b)"
  "jprop (encodeServerAttachment b) ''o'' = JInt (sv_openedAt b)"
  "jprop (encodeServerAttachment b) ''t'' = JArr (map encodeTicketState (sv_tickets b))"
  by (simp_all add: encodeServerAttachment_def)

subsection \<open>The client decoder and encoder agree\<close>

lemma client_of_fields_encode:
  "client_of_fields (encodeClientAttachment a) (authorization a) (terminalOutcome a) = a"
  by (simp add: client_of_fields_def js_simps)

lemma isHex64_str_or_null: "isHex64 (str_or_null x) \<longleftrightarrow> x \<noteq> None \<and> pred_option is_hex64 x"
  by (cases x) auto
lemma isTimestamp_int_or_null: "isTimestamp (int_or_null y) \<longleftrightarrow> (\<exists>n. y = Some n \<and> is_safe_integer n \<and> 0 \<le> n)"
  by (cases y) (auto simp: isTimestamp.simps)

lemma access_fields_iff:
  "isTimestamp (JInt (openedAt a)) \<Longrightarrow>
   ((str_or_null (accessGrant a) = JNull \<and> str_or_null (accessRedemption a) = JNull \<and>
     str_or_null (accessClientNonce a) = JNull \<and> int_or_null (accessExpiresAt a) = JNull) \<or>
    (isHex64 (str_or_null (accessGrant a)) \<and> isHex64 (str_or_null (accessRedemption a)) \<and>
     isHex64 (str_or_null (accessClientNonce a)) \<and>
     isTimestamp (int_or_null (accessExpiresAt a)) \<and> isTimestamp (JInt (openedAt a)) \<and>
     jint (int_or_null (accessExpiresAt a)) > openedAt a \<and>
     jint (int_or_null (accessExpiresAt a)) - openedAt a \<le> MAX_SESSION_MS)) = access_wf a"
  by (cases "accessGrant a"; cases "accessRedemption a"; cases "accessClientNonce a"; cases "accessExpiresAt a")
     (auto simp: access_wf_def isTimestamp.simps is_safe_integer_def algebra_simps)

lemma is_safe_nonneg: "0 \<le> n \<Longrightarrow> is_safe_integer n \<longleftrightarrow> n \<le> max_safe_integer"
  by (auto simp: is_safe_integer_def max_safe_integer_def)

lemma bounded_nonneg: "0 \<le> lo \<Longrightarrow> hi \<le> max_safe_integer \<Longrightarrow>
  isBoundedInteger (JInt n) lo hi \<longleftrightarrow> lo \<le> n \<and> n \<le> hi"
  by (auto simp: isBoundedInteger.simps is_safe_integer_def max_safe_integer_def)

lemma isAuthorizationState_encode [simp]: "isAuthorizationState (JInt (encodeAuthorizationState s))"
  by (cases s) (simp_all add: isAuthorizationState.simps)
lemma isClientStage_encode [simp]: "isClientStage (JInt (encodeClientStage s))"
  by (cases s) (simp_all add: isClientStage.simps)

lemma clientFieldsValid_encode:
  "clientFieldsValid (encodeClientAttachment a) \<longleftrightarrow>
     access_wf a \<and> 
     (stage a = Terminal \<longrightarrow> accessGrant a = None) \<and>
     (if stage a = Terminal then boundTicketHash a = None
      else boundTicketHash a \<noteq> None \<and> pred_option is_hex64 (boundTicketHash a)) \<and>
     is_connection_id (controlId a) \<and> is_hex64 (generation a) \<and>
     is_connection_id (connectionId a) \<and>
     1 \<le> admissionId a \<and> admissionId a \<le> max_safe_integer \<and>
     0 \<le> openedAt a \<and> openedAt a < expiresAt a \<and> expiresAt a \<le> openedAt a + MAX_SESSION_MS \<and>
     expiresAt a \<le> max_safe_integer - TERMINAL_CLOSE_RETRY_HORIZON_MS \<and>
     0 \<le> clientAuthorizationFrames a \<and> clientAuthorizationFrames a \<le> 2 \<and> 
     0 \<le> serverAuthorizationFrames a \<and> serverAuthorizationFrames a \<le> 2 \<and> 
     0 \<le> clientCandidates a \<and> clientCandidates a \<le> MAX_CLIENT_CANDIDATES \<and>
     0 \<le> serverCandidates a \<and> serverCandidates a \<le> MAX_SERVER_CANDIDATES \<and>
     0 \<le> completionCount a \<and> completionCount a \<le> MAX_COMPLETIONS \<and>
     0 \<le> signalBytes a \<and> signalBytes a \<le> MAX_RENDEZVOUS_SESSION_SIGNAL_BYTES \<and>
     0 \<le> framesForwarded a \<and> framesForwarded a \<le> 18 \<and>
     0 \<le> terminalCloseAttempts a \<and> terminalCloseAttempts a \<le> MAX_TERMINAL_CLOSE_ATTEMPTS"
  (is "?L \<longleftrightarrow> ?R")
proof (cases "isTimestamp (JInt (openedAt a))")
  case True
  have acc: "access_wf a \<Longrightarrow> accessGrant a = None \<Longrightarrow>
      accessRedemption a = None \<and> accessClientNonce a = None"
    by (auto simp: access_wf_def split: option.splits)
  show ?thesis
    unfolding clientFieldsValid_def encodeClient_props jint.simps access_fields_iff[OF True]
    using acc True
    by (auto simp: encodeClientStage_eqs isHex64_str_or_null isTimestamp.simps isPositiveInteger.simps
        bounded_nonneg attachment_bounds is_safe_integer_def max_safe_integer_def)
next
  case False
  then show ?thesis
    by (auto simp: clientFieldsValid_def isTimestamp.simps is_safe_integer_def max_safe_integer_def
        attachment_bounds)
qed

lemma client_wf_iff:
  "client_wf a \<longleftrightarrow> clientFieldsValid (encodeClientAttachment a) \<and> 
   clientRelationsValid (encodeClientAttachment a) (authorization a) (ticket a = None) \<and>
   (stage a = Terminal) = (terminalOutcome a \<noteq> None) \<and>
   ((ticket a = None \<and> ticketDigest a = None) \<or> (isHex64 (str_or_null (ticket a)) \<and> isHex64 (str_or_null (ticketDigest a))))"
  unfolding clientFieldsValid_encode clientRelationsValid_def Let_def encodeClient_props jint.simps authorizationFrameCountsAreValid_def
    jsval.inject encodeClientStage_eqs client_wf_def stage_wf_def isHex64_str_or_null
  by (cases "stage a"; cases "authorization a"; simp add: attachment_bounds; safe; simp; linarith?)

lemma decode_encode_client:
  "decodeClientAttachment (encodeClientAttachment a) = (if client_wf a then Some a else None)"
  unfolding decodeClientAttachment_def client_wf_iff encodeClient_props Let_def option.case
    decode_encode_outcome_option decode_encode_authorization client_of_fields_encode
    str_or_null_eq_null int_or_null_eq_null jsval.inject encodeClientStage_eqs
  by (cases "ticket a") auto

lemma read_back:
  "isHex64 x \<Longrightarrow> JStr (jstr x) = x"
  "isConnectionId x \<Longrightarrow> JStr (jstr x) = x"
  "isTimestamp x \<Longrightarrow> JInt (jint x) = x"
  "isPositiveInteger x \<Longrightarrow> JInt (jint x) = x"
  "isBoundedInteger x lo hi \<Longrightarrow> JInt (jint x) = x"
  "isBoolean x \<Longrightarrow> JBool (jbool x) = x"
  "isClientStage x \<Longrightarrow> JInt (encodeClientStage (decodeClientStage (jint x))) = x"
  "decodeAuthorizationState x = Some auth \<Longrightarrow> JInt (encodeAuthorizationState auth) = x"
  by (auto simp: js_type_iffs isConnectionId_iff isClientStage.simps decodeClientStage_def
        dest: decodeAuthorizationState_Some)

lemma read_back_null:
  "isHex64 x \<or> x = JNull \<Longrightarrow> str_or_null (jstr_or_null x) = x"
  "isTimestamp x \<or> x = JNull \<Longrightarrow> int_or_null (jint_or_null x) = x"
  by (auto simp: js_type_iffs)

lemma read_back_outcome:
  "x = JNull \<or> decodeTerminalOutcome x \<noteq> None \<Longrightarrow>
   int_or_null (map_option encodeTerminalOutcome (decodeTerminalOutcome x)) = x"
  using decodeTerminalOutcome_Some by (cases "decodeTerminalOutcome x") auto

lemma client_of_fields_agree:
  assumes f: "clientFieldsValid v"
    and p: "decodeAuthorizationState (jprop v ''p'') = Some auth"
    and y: "jprop v ''y'' = JNull \<or> decodeTerminalOutcome (jprop v ''y'') \<noteq> None"
    and t: "isHex64 (jprop v ''t'') \<or> jprop v ''t'' = JNull"
    and d: "isHex64 (jprop v ''d'') \<or> jprop v ''d'' = JNull"
    and k: "k \<in> set client_keys"
  shows "jprop (encodeClientAttachment (client_of_fields v auth (decodeTerminalOutcome (jprop v ''y'')))) k
         = jprop v k"
proof -
  have l: "isHex64 (jprop v ''l'') \<or> jprop v ''l'' = JNull"
    using f by (auto simp: clientFieldsValid_def split: if_splits)
  have uew: "isHex64 (jprop v ''u'') \<or> jprop v ''u'' = JNull" 
    "isHex64 (jprop v ''e'') \<or> jprop v ''e'' = JNull"
    "isHex64 (jprop v ''w'') \<or> jprop v ''w'' = JNull"
    "isTimestamp (jprop v ''ae'') \<or> jprop v ''ae'' = JNull"
    using f by (auto simp: clientFieldsValid_def)
  note bounded = read_back(5)[where lo = 0 and hi = MAX_CLIENT_AUTHORIZATION_FRAMES]
    read_back(5)[where lo = 0 and hi = MAX_SERVER_AUTHORIZATION_FRAMES]
    read_back(5)[where lo = 0 and hi = MAX_CLIENT_CANDIDATES]
    read_back(5)[where lo = 0 and hi = MAX_SERVER_CANDIDATES]
    read_back(5)[where lo = 0 and hi = MAX_COMPLETIONS]
    read_back(5)[where lo = 0 and hi = MAX_RENDEZVOUS_SESSION_SIGNAL_BYTES]
    read_back(5)[where lo = 0 and hi = MAX_TERMINAL_CLOSE_ATTEMPTS]
    read_back(5)[where lo = 0 and hi = "MAX_CLIENT_AUTHORIZATION_FRAMES +
      MAX_SERVER_AUTHORIZATION_FRAMES + MAX_CLIENT_CANDIDATES + MAX_SERVER_CANDIDATES + MAX_COMPLETIONS"]
  have "list_all (\<lambda>k. jprop (encodeClientAttachment
           (client_of_fields v auth (decodeTerminalOutcome (jprop v ''y'')))) k = jprop v k) client_keys"
    using f p uew l y t d
    by (simp add: client_keys_def client_of_fields_def clientFieldsValid_def read_back read_back_null
       read_back_outcome bounded split del: if_split)
  with k show ?thesis by (simp add: list_all_iff)
qed

lemma decodeClient_cong:
  assumes "hasExactKeys v client_keys" "hasExactKeys w client_keys"
    and "\<And>k. k \<in> set client_keys \<Longrightarrow> jprop v k = jprop w k"
  shows "decodeClientAttachment v = decodeClientAttachment w"
proof -
  have "list_all (\<lambda>k. jprop v k = jprop w k) client_keys"
    using assms(3) by (simp add: list_all_iff)
  note eqs = this[unfolded client_keys_def list.pred_inject, simplified]
  show ?thesis
    unfolding decodeClientAttachment_def clientFieldsValid_def clientRelationsValid_def client_of_fields_def
    by (simp only: eqs assms(1,2))
qed

lemma decodeClient_Some:
  assumes "decodeClientAttachment v = Some a"
  shows "client_wf a \<and> hasExactKeys v client_keys \<and>
    (\<forall>k \<in> set client_keys. jprop (encodeClientAttachment a) k = jprop v k)"
proof -
  obtain auth where f: "clientFieldsValid v"
    and p: "decodeAuthorizationState (jprop v ''p'') = Some auth"
    and y: "jprop v ''y'' = JNull \<or> decodeTerminalOutcome (jprop v ''y'') \<noteq> None"
    and t: "isHex64 (jprop v ''t'') \<or> jprop v ''t'' = JNull"
    and d: "isHex64 (jprop v ''d'') \<or> jprop v ''d'' = JNull"
    and a: "a = client_of_fields v auth (decodeTerminalOutcome (jprop v ''y''))"
    using assms unfolding decodeClientAttachment_def Let_def
    by (auto split: if_splits option.splits)
  have k: "hasExactKeys v client_keys" using f by (simp add: clientFieldsValid_def)
  have agree: "jprop (encodeClientAttachment a) k = jprop v k" if "k \<in> set client_keys" for k
    using client_of_fields_agree[OF f p y t d that] a by simp
  have "decodeClientAttachment (encodeClientAttachment a) = Some a"
    using decodeClient_cong[OF all_keys_conv k agree] assms by simp
  then show ?thesis
    using k agree by (auto simp: decode_encode_client split: if_splits)
qed

subsection \<open>Tickets and servers\<close>

lemma ticket_read_back:
  "isTicketStage x \<Longrightarrow> JInt (if x = JInt 0 then 0 else 1) = x"
  by (auto simp: isTicketStage.simps)

lemma stored_ticket_encode: "isStoredTicketState (encodeTicketState t) \<longleftrightarrow> ticket_wf t"
  by (cases "tk_stage t"; cases "tk_authorization t")
     (auto simp: encodeTicketState_def ticket_wf_def isTimestamp.simps isTicketStage.simps bounded_nonneg
       decodeTicketAuthorizationState_def ticketAuthorizationFrameCountsAreValid_def
       attachment_bounds is_safe_integer_def max_safe_integer_def)

lemma decode_encode_ticket: "decodeTicketState (encodeTicketState t) = t"
  by (cases t; cases "tk_stage t"; cases "tk_authorization t") (simp_all add: encodeTicketState_def)

lemma encode_decode_ticket:
  assumes "isStoredTicketState v" shows "encodeTicketState (decodeTicketState v) = v"
proof (cases v)
  case (JArr xs)
  with assms have len: "length xs = 11" by simp
  then have xs: "xs = [xs!0, xs!1, xs!2, xs!3, xs!4, xs!5, xs!6, xs!7, xs!8, xs!9, xs!10]"
    by (intro nth_equalityI) (auto simp: less_Suc_eq nth_Cons' eval_nat_numeral)
  obtain x0 x1 x2 x3 x4 x5 x6 x7 x8 x9 x10 where v: "v = JArr [x0,x1,x2,x3,x4,x5,x6,x7,x8,x9,x10]"
    using xs JArr by blast
  show ?thesis
    using assms unfolding v
    by (auto simp: encodeTicketState_def read_back ticket_read_back isTimestamp_iff isBoundedInteger_iff
       isConnectionId_iff isHex64_iff isTicketStage.simps
        decodeTicketAuthorizationState_def ticketAuthorizationFrameCountsAreValid_def split: if_splits)
qed (use assms in auto)

lemma decode_encode_server:
  "decodeServerAttachment (encodeServerAttachment a) = (if server_wf a then Some a else None)"
proof -
  have m: "map decodeTicketState (map encodeTicketState ts) = ts" for ts
    by (simp add: decode_encode_ticket comp_def)
  have l: "list_all isStoredTicketState (map encodeTicketState ts) = list_all ticket_wf ts" for ts
    by (simp add: stored_ticket_encode list_all_iff)
  show ?thesis
    unfolding decodeServerAttachment_def encodeServer_props jelems.simps option.case m l server_wf_def Let_def
    by (auto simp: isTimestamp.simps is_safe_integer_def max_safe_integer_def)
qed

lemma distinct_client_keys: "distinct client_keys" by (simp add: client_keys_def)
lemma distinct_server_keys: "distinct server_keys" by (simp add: server_keys_def)

lemma decodeServer_cong:
  assumes "hasExactKeys v server_keys" "hasExactKeys w server_keys"
    and "list_all (\<lambda>k. jprop v k = jprop w k) server_keys"
  shows "decodeServerAttachment v = decodeServerAttachment w"
proof -
  note eqs = assms(3)[unfolded server_keys_def list.pred_inject, simplified]
  show ?thesis
    unfolding decodeServerAttachment_def by (simp only: eqs assms(1,2))
qed

lemma decodeServer_Some:
  assumes "decodeServerAttachment v = Some a"
  shows "server_wf a \<and> hasExactKeys v server_keys \<and>
    (\<forall>k \<in> set server_keys. jprop (encodeServerAttachment a) k = jprop v k)"
proof -
  obtain xs where k: "hasExactKeys v server_keys" and t: "jprop v ''t'' = JArr xs"
    and g: "jprop v ''v'' = JInt ATTACHMENT_VERSION" "jprop v ''r'' = JStr ''s''"
      "isBoolean (jprop v ''u'')" "isBoolean (jprop v ''p'')" "isConnectionId (jprop v ''c'')"
      "isHex64 (jprop v ''g'')" "isTimestamp (jprop v ''o'')"
    and st: "list_all isStoredTicketState xs"
    and a: "a = \<lparr> sv_current = jbool (jprop v ''u''), sv_accessProtocol = jbool (jprop v ''p''),
                   sv_controlId = jstr (jprop v ''c''), sv_generation = jstr (jprop v ''g''),
                   sv_openedAt = jint (jprop v ''o''), sv_tickets = map decodeTicketState xs \<rparr>"
    using assms unfolding decodeServerAttachment_def Let_def
    by (cases "jprop v ''t''") (auto split: if_splits)
  have stored: "map encodeTicketState (sv_tickets a) = xs"
    using st by (simp add: a map_idI list_all_iff encode_decode_ticket)
  have agree: "list_all (\<lambda>k. jprop (encodeServerAttachment a) k = jprop v k) server_keys"
    using stored g t by (simp add: server_keys_def a read_back)
  have "decodeServerAttachment (encodeServerAttachment a) = decodeServerAttachment v"
    by (rule decodeServer_cong[OF server_keys_conv k agree])
  then show ?thesis
    using assms agree k by (auto simp: decode_encode_server list_all_iff split: if_splits)
qed

interpretation client_codec: codec encodeClientAttachment decodeClientAttachment client_wf
  by unfold_locales (auto simp: decode_encode_client dest: decodeClient_Some)

interpretation server_codec: codec encodeServerAttachment decodeServerAttachment server_wf
  by unfold_locales (auto simp: decode_encode_server dest: decodeServer_Some)

lemma encode_isRecord [simp]:
  "isRecord (encodeClientAttachment a)" "isRecord (encodeServerAttachment b)"
  by (simp_all add: encodeClientAttachment_def encodeServerAttachment_def)

lemma decodeRendezvous_encode:
  "decodeRendezvousAttachment (encodeRendezvousAttachment x) = (if attachment_wf x then Some x else None)"
  by (cases x) (auto simp: decodeRendezvousAttachment_def decode_encode_client decode_encode_server)

lemma decodeRendezvous_Some:
  assumes "decodeRendezvousAttachment v = Some x"
  shows "attachment_wf x \<and> jprop v k = jprop (encodeRendezvousAttachment x) k"
proof (cases x)
  case (ClientA a)
  with assms have "decodeClientAttachment v = Some a"
    by (auto simp: decodeRendezvousAttachment_def split: if_splits)
  from decodeClient_Some[OF this] show ?thesis
    using jprop_agree[of v client_keys "encodeClientAttachment a"] ClientA distinct_client_keys
    by auto
next
  case (ServerA a)
  with assms have "decodeServerAttachment v = Some a"
    by (auto simp: decodeRendezvousAttachment_def split: if_splits)
  from decodeServer_Some[OF this] show ?thesis
    using jprop_agree[of v server_keys "encodeServerAttachment a"] ServerA distinct_server_keys
    by auto
qed

interpretation attachment_codec:
  codec encodeRendezvousAttachment decodeRendezvousAttachment attachment_wf
  by unfold_locales (auto simp: decodeRendezvous_encode dest: decodeRendezvous_Some)

subsection \<open>Properties\<close>

text \<open>A client awaiting its candidate, as the room writes it at admission.\<close>

definition example_connection_id :: string where
  "example_connection_id = ''aaaaaaaa-aaaa-4aaa-8aaa-aaaaaaaaaaaa''"

definition example_client :: client_attachment where
  "example_client =
     \<lparr> controlId = example_connection_id, generation = replicate 64 CHR ''0'',
       connectionId = example_connection_id, admissionId = 1, openedAt = 1000, expiresAt = 16000,
       boundTicketHash = Some (replicate 64 CHR ''1''), accessClientNonce = None,
       accessExpiresAt = None, accessGrant = None, accessRedemption = None, ticket = None,
       ticketDigest = None, stage = AwaitingCandidate, authorization = NotRequired,
       clientAuthorizationFrames = 0, serverAuthorizationFrames = 0, clientCandidates = 0,
       serverCandidates = 0, completionCount = 0, signalBytes = 0, framesForwarded = 0,
       summaryEmitted = False, terminalOutcome = None, terminalCloseAttempts = 0 \<rparr>"

lemma example_connection_id_ok [simp]: "is_connection_id example_connection_id"
  by (simp add: is_connection_id_def connection_id_pattern_def example_connection_id_def
      is_hex_digit_def eval_nat_numeral)

lemma example_client_wf [simp]: "client_wf example_client"
  by (simp add: client_wf_def example_client_def access_wf_def stage_wf_def is_hex_digit_def
      attachment_bounds max_safe_integer_def)

text \<open>
  C5: Decoding an encoded attachment gives the attachment back exactly when it is well
  formed and rejects it otherwise: \<open>decodeRendezvousAttachment\<close> and
  \<open>encodeRendezvousAttachment\<close> agree on what a room may store.
\<close>

theorem decode_encode_attachment:
  "decodeRendezvousAttachment (encodeRendezvousAttachment x) = (if attachment_wf x then Some x else None)"
  by (rule attachment_codec.dec_enc)

text \<open>
  The decoder is strict: an accepted stored value yields a well-formed attachment,
  and every property of the value, present or absent, is the one that encoding the
  attachment would store.
\<close>

theorem decode_attachment_strict:
  assumes "decodeRendezvousAttachment v = Some x"
  shows "attachment_wf x \<and> (\<forall>k. jprop v k = jprop (encodeRendezvousAttachment x) k)"
  using decodeRendezvous_Some[OF assms] by blast

theorem decode_attachment_strict_witness:
  "attachment_wf (ClientA example_client) \<and>
   (\<forall>k. jprop (encodeClientAttachment example_client) k =
        jprop (encodeRendezvousAttachment (ClientA example_client)) k)"
  using decode_attachment_strict[of "encodeClientAttachment example_client" "ClientA example_client"]
    attachment_codec.reads_back[of "ClientA example_client"]
  by simp

end
