(* ===== verification/RoomState.thy ===== *)
theory RoomState
  imports Attachments "HOL-Library.List_Lexorder" "HOL-Library.Char_ord"
begin

text \<open>
  The state of one rendezvous room (\<open>RendezvousRoom\<close> of
  \<open>src/src/rendezvous-room.ts\<close>) and the helpers its handlers are built from.

  A room owns hibernatable WebSockets. A socket is a number; the platform keeps for it
  the tag it was accepted with, whether it is open, whether \<open>getWebSockets\<close> still lists
  it, and the stored attachment. Everything else is instance memory or Durable Object
  storage. A platform call that may throw (\<open>serializeAttachment\<close>, \<open>close\<close>, \<open>send\<close>) asks
  the schedule \<open>platform\<close> whether its next call succeeds, so a theorem about all rooms
  holds for every pattern of platform faults.
\<close>

subsection \<open>Closes\<close>

type_synonym close = "int \<times> string"

definition NORMAL_RENDEZVOUS_CLOSE :: close where
  "NORMAL_RENDEZVOUS_CLOSE = (1000, ''Rendezvous complete'')"
definition close_protocolError :: close where
  "close_protocolError = (4000, ''Invalid rendezvous message'')"
definition close_sessionExpired :: close where
  "close_sessionExpired = (4001, ''Rendezvous session expired'')"
definition close_serverUnavailable :: close where
  "close_serverUnavailable = (4002, ''Rendezvous server unavailable'')"
definition close_internalError :: close where
  "close_internalError = (4003, ''Rendezvous internal error'')"
definition close_serverReplaced :: close where
  "close_serverReplaced = (4004, ''Rendezvous server replaced'')"
definition close_authorizationFailed :: close where
  "close_authorizationFailed = (4005, ''Rendezvous authorization failed'')"

definition MAX_WEBSOCKET_CLOSE_REASON_BYTES :: nat where
  "MAX_WEBSOCKET_CLOSE_REASON_BYTES = 123"

lemmas close_defs =
  NORMAL_RENDEZVOUS_CLOSE_def close_protocolError_def close_sessionExpired_def
  close_serverUnavailable_def close_internalError_def close_serverReplaced_def
  close_authorizationFailed_def

fun rendezvousCloseForOutcome :: "outcome \<Rightarrow> close" where
  "rendezvousCloseForOutcome Completed = NORMAL_RENDEZVOUS_CLOSE"
| "rendezvousCloseForOutcome ClientDisconnected = NORMAL_RENDEZVOUS_CLOSE"
| "rendezvousCloseForOutcome SessionExpired = close_sessionExpired"
| "rendezvousCloseForOutcome ProtocolError = close_protocolError"
| "rendezvousCloseForOutcome ServerUnavailable = close_serverUnavailable"
| "rendezvousCloseForOutcome ServerReplaced = close_serverReplaced"
| "rendezvousCloseForOutcome AuthorizationFailed = close_authorizationFailed"
| "rendezvousCloseForOutcome InternalError = close_internalError"

definition rendezvousOutcomeForClose :: "int \<Rightarrow> string \<Rightarrow> outcome option" where
  "rendezvousOutcomeForClose code reason =
     find (\<lambda>o1. rendezvousCloseForOutcome o1 = (code, reason))
       [Completed, SessionExpired, ProtocolError, ServerUnavailable, ServerReplaced,
        AuthorizationFailed, InternalError]"

subsection \<open>Limits\<close>

definition MAX_RENDEZVOUS_CLIENT_SOCKETS :: nat where "MAX_RENDEZVOUS_CLIENT_SOCKETS = 64"
definition MAX_RENDEZVOUS_ACTIVE_CLIENTS :: nat where "MAX_RENDEZVOUS_ACTIVE_CLIENTS = 16"

definition MAX_CLIENT_PENDING_MESSAGES :: int where
  "MAX_CLIENT_PENDING_MESSAGES = MAX_CLIENT_AUTHORIZATION_FRAMES + MAX_CLIENT_CANDIDATES + 1"

definition MAX_SERVER_PENDING_MESSAGES :: int where
  "MAX_SERVER_PENDING_MESSAGES = int MAX_RENDEZVOUS_ACTIVE_CLIENTS *
     (MAX_SERVER_AUTHORIZATION_FRAMES + MAX_SERVER_CANDIDATES + MAX_COMPLETIONS) + 1"

definition MAX_EPHEMERAL_CONNECTION_IDS :: nat where
  "MAX_EPHEMERAL_CONNECTION_IDS = (MAX_RENDEZVOUS_CLIENT_SOCKETS + 1) * 2"

subsection \<open>Sockets and the room\<close>

datatype role = ClientRole | ServerRole

record socket =
  so_role :: role
  so_open :: bool
  so_listed :: bool
  so_stored :: jsval

record metric =
  mt_outcome :: outcome
  mt_clientFramesAccepted :: int
  mt_serverFramesMatched :: int
  mt_framesForwarded :: int
  mt_signalBytes :: int
  mt_durationMs :: int

record room =
  sock :: "nat \<Rightarrow> socket"
  sock_count :: nat
  finalizedConnections :: "string list"
  inactiveControls :: "string list"
  observedControlFailures :: "nat list"
  pendingClientOutcomes :: "nat \<Rightarrow> outcome option"
  pendingServerOutcomes :: "nat \<Rightarrow> outcome option"
  currentGeneration :: "string option"
  initializationFailed :: bool
  teardownRecoveryPersisted :: bool
  teardownRecoveryRequired :: bool
  stored_generation :: "string option"
  stored_recovery :: bool
  stored_alarm :: "int option"
  metric_log :: "(nat \<times> metric) list"
  frame_log :: "(nat \<times> string) list"
  close_log :: "(nat \<times> close) list"
  failure_log :: "nat list"
  platform :: "nat \<Rightarrow> bool"
  platform_calls :: nat

datatype failure = TeardownIntegrity | PlatformFault

type_synonym 'a result = "failure + 'a"

text \<open>
  A \<open>for\<close> loop over a snapshot of sockets that runs its body for every one and only
  reports at the end whether some body failed.
\<close>

primrec for_each :: "(nat \<Rightarrow> room \<Rightarrow> bool \<times> room) \<Rightarrow> nat list \<Rightarrow> room \<Rightarrow> bool \<times> room" where
  "for_each f [] r = (True, r)"
| "for_each f (i # is) r =
     (let (ok, r1) = f i r; (oks, r2) = for_each f is r1 in (ok \<and> oks, r2))"

definition getWebSockets :: "role \<Rightarrow> room \<Rightarrow> nat list" where
  "getWebSockets tag r =
     filter (\<lambda>i. so_listed (sock r i) \<and> so_role (sock r i) = tag) [0..<sock_count r]"

definition all_webSockets :: "room \<Rightarrow> nat list" where
  "all_webSockets r = filter (\<lambda>i. so_listed (sock r i)) [0..<sock_count r]"

definition is_open :: "room \<Rightarrow> nat \<Rightarrow> bool" where
  "is_open r i \<longleftrightarrow> so_open (sock r i)"

subsection \<open>Platform calls\<close>

definition platform_call :: "room \<Rightarrow> bool \<times> room" where
  "platform_call r = (platform r (platform_calls r), r\<lparr>platform_calls := platform_calls r + 1\<rparr>)"

definition readAttachment :: "room \<Rightarrow> nat \<Rightarrow> attachment option" where
  "readAttachment r i = decodeRendezvousAttachment (so_stored (sock r i))"

definition readClientAttachment :: "room \<Rightarrow> nat \<Rightarrow> client_attachment option" where
  "readClientAttachment r i =
     (case readAttachment r i of Some (ClientA a) \<Rightarrow> Some a | _ \<Rightarrow> None)"

definition readServerAttachment :: "room \<Rightarrow> nat \<Rightarrow> server_attachment option" where
  "readServerAttachment r i =
     (case readAttachment r i of Some (ServerA a) \<Rightarrow> Some a | _ \<Rightarrow> None)"

fun attachment_role :: "attachment \<Rightarrow> role" where
  "attachment_role (ClientA _) = ClientRole"
| "attachment_role (ServerA _) = ServerRole"

text \<open>\<open>acceptWebSocket\<close> gives every socket exactly one tag, so the tag is the role.\<close>

definition readTaggedAttachment :: "room \<Rightarrow> nat \<Rightarrow> attachment option" where
  "readTaggedAttachment r i =
     (case readAttachment r i of
        None \<Rightarrow> None
      | Some a \<Rightarrow> if attachment_role a = so_role (sock r i) then Some a else None)"

text \<open>
  \<open>writeAttachment\<close> throws when the platform call does, and then leaves the stored value
  as it was; \<open>tryWriteAttachment\<close> reports the same as a boolean.
\<close>

definition tryWriteAttachment :: "nat \<Rightarrow> attachment \<Rightarrow> room \<Rightarrow> bool \<times> room" where
  "tryWriteAttachment i a r =
     (let (ok, r1) = platform_call r in
      if ok
      then (True, r1\<lparr>sock := (sock r1)(i := (sock r1 i)\<lparr>so_stored := encodeRendezvousAttachment a\<rparr>)\<rparr>)
      else (False, r1))"

definition writeAttachment :: "nat \<Rightarrow> attachment \<Rightarrow> room \<Rightarrow> unit result \<times> room" where
  "writeAttachment i a r =
     (let (ok, r1) = tryWriteAttachment i a r in (if ok then Inr () else Inl PlatformFault, r1))"

definition closeSocket :: "nat \<Rightarrow> close \<Rightarrow> room \<Rightarrow> bool \<times> room" where
  "closeSocket i c r =
     (if is_open r i then
        let (ok, r1) = platform_call r in
        if ok
        then (True, r1\<lparr>sock := (sock r1)(i := (sock r1 i)\<lparr>so_open := False\<rparr>),
                       close_log := close_log r1 @ [(i, c)]\<rparr>)
        else (False, r1)
      else (True, r))"

definition sendFrame :: "nat \<Rightarrow> string \<Rightarrow> room \<Rightarrow> bool \<times> room" where
  "sendFrame i frame r =
     (let (ok, r1) = platform_call r in
      if ok then (True, r1\<lparr>frame_log := frame_log r1 @ [(i, frame)]\<rparr>) else (False, r1))"

subsection \<open>Pure helpers\<close>

text \<open>\<open>rememberBounded\<close> on a set in insertion order: the oldest members leave first.\<close>

definition rememberBounded :: "string list \<Rightarrow> string \<Rightarrow> nat \<Rightarrow> string list" where
  "rememberBounded values v maximum =
     (if v \<in> set values then values
      else (if length values < maximum then values
            else drop (length values + 1 - maximum) values) @ [v])"

fun earlier :: "int option \<Rightarrow> int \<Rightarrow> int option" where
  "earlier None candidate = Some candidate"
| "earlier (Some current) candidate = Some (min current candidate)"

definition comparePublishSequences :: "string \<Rightarrow> string \<Rightarrow> int" where
  "comparePublishSequences left right =
     (if length left \<noteq> length right then (if length left > length right then 1 else -1)
      else if left = right then 0
      else if left > right then 1 else -1)"

datatype frame_kind = ServerCandidateFrame | CompleteFrame

definition applyServerFrameBudget ::
  "ticket_state \<Rightarrow> frame_kind \<Rightarrow> int \<Rightarrow> ticket_state option" where
  "applyServerFrameBudget t kind bytes =
     (if tk_signalBytes t + bytes > MAX_RENDEZVOUS_SESSION_SIGNAL_BYTES then None
      else if kind = ServerCandidateFrame then
        (if tk_serverCandidates t \<ge> MAX_SERVER_CANDIDATES then None
         else Some (t\<lparr>tk_serverCandidates := tk_serverCandidates t + 1,
                      tk_signalBytes := tk_signalBytes t + bytes\<rparr>))
      else
        (if tk_completionCount t \<ge> MAX_COMPLETIONS then None
         else Some (t\<lparr>tk_completionCount := tk_completionCount t + 1,
                      tk_signalBytes := tk_signalBytes t + bytes\<rparr>)))"

definition copyTicketBudgetToClient :: "client_attachment \<Rightarrow> ticket_state \<Rightarrow> client_attachment" where
  "copyTicketBudgetToClient c t =
     c\<lparr>clientAuthorizationFrames := tk_clientAuthorizationFrames t,
       serverAuthorizationFrames := tk_serverAuthorizationFrames t,
       serverCandidates := tk_serverCandidates t,
       completionCount := tk_completionCount t,
       signalBytes := tk_signalBytes t\<rparr>"

text \<open>\<open>pruneTicketList\<close> mutates the list and reports whether it changed.\<close>

definition pruneTicketList :: "server_attachment \<Rightarrow> int \<Rightarrow> bool \<times> server_attachment" where
  "pruneTicketList s now =
     (let retained = filter (\<lambda>t. tk_expiresAt t > now) (sv_tickets s) in
      if length retained = length (sv_tickets s) then (False, s)
      else (True, s\<lparr>sv_tickets := retained\<rparr>))"

type_synonym active_server = "nat \<times> server_attachment"

definition compareActiveServersNewestFirst :: "active_server \<Rightarrow> active_server \<Rightarrow> int" where
  "compareActiveServersNewestFirst left right =
     (if sv_openedAt (snd left) \<noteq> sv_openedAt (snd right)
      then (if sv_openedAt (snd left) > sv_openedAt (snd right) then -1 else 1)
      else if sv_controlId (snd left) = sv_controlId (snd right) then 0
      else if sv_controlId (snd left) > sv_controlId (snd right) then -1 else 1)"

definition terminalCloseAttemptAt :: "client_attachment \<Rightarrow> int option" where
  "terminalCloseAttemptAt c =
     (if terminalCloseAttempts c \<ge> MAX_TERMINAL_CLOSE_ATTEMPTS then None
      else Some (expiresAt c + TERMINAL_CLOSE_RETRY_OFFSETS_MS ! nat (terminalCloseAttempts c)))"

definition client_is_active :: "room \<Rightarrow> string \<Rightarrow> string \<Rightarrow> int \<Rightarrow> nat \<Rightarrow> bool" where
  "client_is_active r cid gen now i \<longleftrightarrow>
     is_open r i \<and>
     (case readClientAttachment r i of
        None \<Rightarrow> False
      | Some a \<Rightarrow> controlId a = cid \<and> generation a = gen \<and> stage a \<noteq> Terminal \<and> expiresAt a > now)"

definition countActiveClients :: "room \<Rightarrow> nat list \<Rightarrow> string \<Rightarrow> string \<Rightarrow> int \<Rightarrow> nat" where
  "countActiveClients r sockets cid gen now =
     length (filter (client_is_active r cid gen now) sockets)"

subsection \<open>The orders of the room are comparators\<close>

interpretation newest_first: comparator compareActiveServersNewestFirst
  by unfold_locales (auto simp: compareActiveServersNewestFirst_def split: if_splits)

interpretation publish_order: comparator comparePublishSequences
  by unfold_locales (auto simp: comparePublishSequences_def split: if_splits)

end
