(* ===== verification/RoomTeardown.thy ===== *)
theory RoomTeardown
  imports RoomState
begin

text \<open>
  Teardown in the rendezvous room: failing a client or a server control, sweeping all
  clients, retrying interrupted teardowns, choosing the one active server after an
  interrupted replacement, and the alarm's sweeps (\<open>src/src/rendezvous-room.ts\<close>).
  A \<open>bool\<close> result is \<open>False\<close> where the source throws or reports a teardown failure.
\<close>

subsection \<open>Failing a client\<close>

definition same_ticket :: "string \<Rightarrow> string \<Rightarrow> ticket_state \<Rightarrow> bool" where
  "same_ticket digest conn t \<longleftrightarrow> tk_digest t = digest \<and> tk_clientConnectionId t = conn"

definition markTicketOn :: "client_attachment \<Rightarrow> string \<Rightarrow> nat \<Rightarrow> room \<Rightarrow> room" where
  "markTicketOn c digest i r =
     (case readServerAttachment r i of
        None \<Rightarrow> r
      | Some s \<Rightarrow>
          if sv_controlId s \<noteq> controlId c \<or> sv_generation s \<noteq> generation c then r
          else
            (case find (same_ticket digest (connectionId c)) (sv_tickets s) of
               None \<Rightarrow> r
             | Some t \<Rightarrow>
                 if tk_stage t = TicketTerminal then r
                 else snd (tryWriteAttachment i
                        (ServerA (s\<lparr>sv_tickets := update_first (same_ticket digest (connectionId c))
                                     (\<lambda>t. t\<lparr>tk_stage := TicketTerminal\<rparr>) (sv_tickets s)\<rparr>)) r)))"

definition markTicketTerminal :: "client_attachment \<Rightarrow> room \<Rightarrow> room" where
  "markTicketTerminal c r =
     (case ticketDigest c of
        None \<Rightarrow> r
      | Some digest \<Rightarrow> fold (markTicketOn c digest) (getWebSockets ServerRole r) r)"

definition scrubClient :: "client_attachment \<Rightarrow> outcome \<Rightarrow> client_attachment" where
  "scrubClient a out =
     a\<lparr>stage := Terminal, authorization := AuthTerminal, ticket := None, ticketDigest := None,
       boundTicketHash := None, accessClientNonce := None, accessExpiresAt := None,
       accessGrant := None, accessRedemption := None, terminalOutcome := Some out,
       terminalCloseAttempts := 0\<rparr>"

definition transitionClientTerminal ::
  "client_attachment \<Rightarrow> outcome \<Rightarrow> room \<Rightarrow> client_attachment \<times> room" where
  "transitionClientTerminal a out r =
     (if stage a = Terminal then (a, r) else (scrubClient a out, markTicketTerminal a r))"

definition terminal_metric :: "int \<Rightarrow> client_attachment \<Rightarrow> outcome \<Rightarrow> metric" where
  "terminal_metric now a out =
     \<lparr> mt_outcome = out,
       mt_clientFramesAccepted = clientAuthorizationFrames a + clientCandidates a,
       mt_serverFramesMatched =
         serverAuthorizationFrames a + serverCandidates a + completionCount a,
       mt_framesForwarded = framesForwarded a,
       mt_signalBytes = signalBytes a,
       mt_durationMs = now - openedAt a \<rparr>"

text \<open>
  \<open>emitTerminalMetric\<close>. The metric and health writers are best effort and cannot throw
  out of it; the log holds the metrics handed to them.
\<close>

definition emitTerminalMetric ::
  "int \<Rightarrow> nat \<Rightarrow> client_attachment \<Rightarrow> outcome \<Rightarrow> room \<Rightarrow> bool \<times> room" where
  "emitTerminalMetric now i a out r =
     (if summaryEmitted a \<or> connectionId a \<in> set (finalizedConnections r) then (True, r)
      else
        let (ok, r1) = tryWriteAttachment i (ClientA (a\<lparr>summaryEmitted := True\<rparr>)) r in
        if \<not> ok then (False, r1)
        else (True, r1\<lparr>finalizedConnections := rememberBounded (finalizedConnections r1)
                         (connectionId a) MAX_EPHEMERAL_CONNECTION_IDS,
                       metric_log := metric_log r1 @ [(i, terminal_metric now a out)]\<rparr>))"

definition failClient ::
  "int \<Rightarrow> nat \<Rightarrow> client_attachment \<Rightarrow> outcome \<Rightarrow> close \<Rightarrow> room \<Rightarrow> bool \<times> room" where
  "failClient now i a0 out cl r0 =
     (let pendingOutcome = pendingClientOutcomes r0 i;
          canonicalOutcome =
            (case terminalOutcome a0 of
               Some x \<Rightarrow> x
             | None \<Rightarrow> (case pendingOutcome of Some x \<Rightarrow> x | None \<Rightarrow> out));
          canonicalClose =
            (if pendingOutcome = None then cl else rendezvousCloseForOutcome canonicalOutcome);
          r1 = r0\<lparr>pendingClientOutcomes := (pendingClientOutcomes r0)(i := Some canonicalOutcome)\<rparr>;
          alreadyPersisted = (stage a0 = Terminal \<and> pendingOutcome = None);
          (a, r2) = transitionClientTerminal a0 canonicalOutcome r1;
          (terminalPersisted, r3) =
            (if alreadyPersisted then (True, r2) else tryWriteAttachment i (ClientA a) r2);
          (summaryPersisted, r4) =
            (case terminalOutcome a of
               None \<Rightarrow> (False, r3)
             | Some x \<Rightarrow> emitTerminalMetric now i a x r3);
          r5 = (if terminalPersisted \<or> summaryPersisted
                then r4\<lparr>pendingClientOutcomes := (pendingClientOutcomes r4)(i := None)\<rparr>
                else r4);
          (closed, r6) = closeSocket i canonicalClose r5
      in (terminalPersisted \<or> summaryPersisted \<or> closed, r6))"

definition closeClientStep :: "int \<Rightarrow> outcome \<Rightarrow> close \<Rightarrow> nat \<Rightarrow> room \<Rightarrow> bool \<times> room" where
  "closeClientStep now out cl i r =
     (case readClientAttachment r i of
        Some a \<Rightarrow> failClient now i a out cl r
      | None \<Rightarrow> closeSocket i close_internalError r)"

definition closeAllClients :: "int \<Rightarrow> outcome \<Rightarrow> close \<Rightarrow> room \<Rightarrow> bool \<times> room" where
  "closeAllClients now out cl r =
     for_each (closeClientStep now out cl) (getWebSockets ClientRole r) r"

subsection \<open>Failing and retiring server controls\<close>

definition setPendingServer :: "nat \<Rightarrow> outcome option \<Rightarrow> room \<Rightarrow> room" where
  "setPendingServer i x r = r\<lparr>pendingServerOutcomes := (pendingServerOutcomes r)(i := x)\<rparr>"

definition rememberInactive :: "string \<Rightarrow> room \<Rightarrow> room" where
  "rememberInactive cid r =
     r\<lparr>inactiveControls := rememberBounded (inactiveControls r) cid MAX_EPHEMERAL_CONNECTION_IDS\<rparr>"

definition forgetInactive :: "string \<Rightarrow> room \<Rightarrow> room" where
  "forgetInactive cid r = r\<lparr>inactiveControls := removeAll cid (inactiveControls r)\<rparr>"

definition failServer ::
  "int \<Rightarrow> nat \<Rightarrow> server_attachment \<Rightarrow> outcome \<Rightarrow> close \<Rightarrow> room \<Rightarrow> bool \<times> room" where
  "failServer now i s out cl r0 =
     (let pendingOutcome = pendingServerOutcomes r0 i;
          canonicalOutcome = (case pendingOutcome of Some x \<Rightarrow> x | None \<Rightarrow> out);
          canonicalClose =
            (if pendingOutcome = None then cl else rendezvousCloseForOutcome canonicalOutcome);
          r1 = setPendingServer i (Some canonicalOutcome) r0;
          ownsClients = (sv_current s \<or> pendingOutcome \<noteq> None);
          alreadyPersisted = (\<not> sv_current s \<and> pendingOutcome = None);
          r2 = (if sv_current s then rememberInactive (sv_controlId s) r1 else r1);
          (retirementPersisted, r3) =
            (if alreadyPersisted then (True, r2)
             else tryWriteAttachment i (ServerA (s\<lparr>sv_current := False\<rparr>)) r2);
          (clientsRetired, r4) =
            (if ownsClients then closeAllClients now canonicalOutcome canonicalClose r3
             else (True, r3));
          (closed, r5) = closeSocket i canonicalClose r4;
          r6 = (if retirementPersisted \<or> closed then setPendingServer i None r5 else r5)
      in (clientsRetired \<and> (retirementPersisted \<or> closed), r6))"

definition retryServerStep :: "int \<Rightarrow> nat \<Rightarrow> room \<Rightarrow> bool \<times> room" where
  "retryServerStep now i r =
     (case pendingServerOutcomes r i of
        None \<Rightarrow> (True, r)
      | Some out \<Rightarrow>
          (case readServerAttachment r i of
             None \<Rightarrow>
               (let (closed, r1) = closeSocket i close_internalError r in
                if closed then (True, setPendingServer i None r1) else (False, r1))
           | Some s \<Rightarrow> failServer now i s out (rendezvousCloseForOutcome out) r))"

definition retryPendingServerTeardowns :: "int \<Rightarrow> room \<Rightarrow> bool \<times> room" where
  "retryPendingServerTeardowns now r =
     for_each (retryServerStep now) (getWebSockets ServerRole r) r"

record retirement =
  rt_socket :: nat
  rt_attachment :: server_attachment
  rt_durablyDemoted :: bool
  rt_transportRetired :: bool

definition prepareServerRetirement ::
  "active_server \<Rightarrow> close \<Rightarrow> room \<Rightarrow> retirement option \<times> room" where
  "prepareServerRetirement server cl r0 =
     (let (i, s) = server;
          (written, r1) = tryWriteAttachment i (ServerA (s\<lparr>sv_current := False\<rparr>)) r0
      in if written
         then (Some \<lparr> rt_socket = i, rt_attachment = s\<lparr>sv_current := False\<rparr>,
                      rt_durablyDemoted = True, rt_transportRetired = False \<rparr>,
               setPendingServer i None r1)
         else
           let r2 = rememberInactive (sv_controlId s) r1;
               (closed, r3) = closeSocket i cl r2
           in if closed
              then (Some \<lparr> rt_socket = i, rt_attachment = s\<lparr>sv_current := True\<rparr>,
                           rt_durablyDemoted = False, rt_transportRetired = True \<rparr>,
                    setPendingServer i None r3)
              else (None, forgetInactive (sv_controlId s) r3))"

definition finishServerRetirement :: "close \<Rightarrow> retirement \<Rightarrow> room \<Rightarrow> room" where
  "finishServerRetirement cl rt r =
     (if rt_durablyDemoted rt \<and> \<not> rt_transportRetired rt
      then snd (closeSocket (rt_socket rt) cl r) else r)"

fun restorePrevious_loop :: "bool \<Rightarrow> retirement list \<Rightarrow> room \<Rightarrow> bool \<times> room" where
  "restorePrevious_loop restored [] r = (restored, r)"
| "restorePrevious_loop restored (rt # rts) r =
     (if \<not> restored \<and> rt_durablyDemoted rt \<and> is_open r (rt_socket rt) then
        (let (written, r1) = tryWriteAttachment (rt_socket rt)
               (ServerA ((rt_attachment rt)\<lparr>sv_current := True\<rparr>)) r
         in if written then restorePrevious_loop True rts r1
            else restorePrevious_loop False rts (finishServerRetirement close_internalError rt r1))
      else restorePrevious_loop restored rts (finishServerRetirement close_internalError rt r))"

definition restorePreviousServer :: "retirement list \<Rightarrow> room \<Rightarrow> bool \<times> room" where
  "restorePreviousServer = restorePrevious_loop False"

definition retireServerImmediately :: "active_server \<Rightarrow> close \<Rightarrow> room \<Rightarrow> bool \<times> room" where
  "retireServerImmediately server cl r =
     (case prepareServerRetirement server cl r of
        (None, r1) \<Rightarrow> (False, r1)
      | (Some rt, r1) \<Rightarrow> (True, finishServerRetirement cl rt r1))"

subsection \<open>The one active server\<close>

definition currentOpenServers :: "nat option \<Rightarrow> room \<Rightarrow> active_server list" where
  "currentOpenServers ignored r =
     List.map_filter
       (\<lambda>i. if Some i = ignored \<or> \<not> is_open r i then None
            else case readServerAttachment r i of
                   None \<Rightarrow> None
                 | Some s \<Rightarrow> if sv_current s \<and> Some (sv_generation s) = currentGeneration r
                             then Some (i, s) else None)
       (getWebSockets ServerRole r)"

text \<open>The duplicate-identity sweep of \<open>reconcileActiveServer\<close>: retire every control.\<close>

fun retireDuplicates :: "active_server list \<Rightarrow> room \<Rightarrow> bool \<times> room" where
  "retireDuplicates [] r = (True, r)"
| "retireDuplicates (server # rest) r =
     (let (retired, r1) = retireServerImmediately server close_internalError r;
          r2 = (if retired then r1 else setPendingServer (fst server) (Some InternalError) r1);
          (oks, r3) = retireDuplicates rest r2
      in (retired \<and> oks, r3))"

text \<open>
  The winner loop: retire every older control, or the winner so far when the older one
  resists; \<open>Inl\<close> is the thrown ownership error.
\<close>

fun chooseWinner ::
  "int \<Rightarrow> active_server \<Rightarrow> active_server list \<Rightarrow> room \<Rightarrow> active_server result \<times> room" where
  "chooseWinner now winner [] r = (Inr winner, r)"
| "chooseWinner now winner (previous # rest) r =
     (let (retired, r1) = retireServerImmediately previous close_serverReplaced r in
      if retired then chooseWinner now winner rest r1
      else
        let (winnerRetired, r2) = retireServerImmediately winner close_serverReplaced r1 in
        if winnerRetired then chooseWinner now previous rest r2
        else
          let r3 = rememberInactive (sv_controlId (snd previous))
                     (rememberInactive (sv_controlId (snd winner)) r2);
              r4 = setPendingServer (fst previous) (Some InternalError)
                     (setPendingServer (fst winner) (Some InternalError) r3);
              (_, r5) = closeAllClients now InternalError close_internalError r4
          in (Inl TeardownIntegrity, r5))"

text \<open>
  The two repairs of \<open>reconcileActiveServer\<close>: several current controls that share an
  identity cannot be ordered and are all retired; otherwise the newest wins.
\<close>

definition reconcileDuplicates ::
  "int \<Rightarrow> active_server list \<Rightarrow> room \<Rightarrow> active_server option result \<times> room" where
  "reconcileDuplicates now active r1 =
     (let (clientsRetired, r2) = closeAllClients now InternalError close_internalError r1;
          (allRetired, r3) = retireDuplicates active r2;
          r4 = (if allRetired then r3
                else rememberInactive (sv_controlId (snd (hd active))) r3)
      in (if \<not> allRetired \<or> \<not> clientsRetired then Inl TeardownIntegrity else Inr None, r4))"

definition reconcileReplacement ::
  "int \<Rightarrow> active_server list \<Rightarrow> room \<Rightarrow> active_server option result \<times> room" where
  "reconcileReplacement now active r1 =
     (case js_sort compareActiveServersNewestFirst active of
        [] \<Rightarrow> (Inr None, r1)
      | winner # older \<Rightarrow>
          (case chooseWinner now winner older r1 of
             (Inl e, r2) \<Rightarrow> (Inl e, r2)
           | (Inr w, r2) \<Rightarrow>
               let (clientsRetired, r3) =
                     closeAllClients now ServerReplaced close_serverReplaced r2
               in (if clientsRetired then Inr (Some w) else Inl TeardownIntegrity, r3)))"

definition reconcileActiveServer ::
  "int \<Rightarrow> nat option \<Rightarrow> room \<Rightarrow> active_server option result \<times> room" where
  "reconcileActiveServer now ignored r0 =
     (let (retried, r1) = retryPendingServerTeardowns now r0 in
      if \<not> retried then (Inl TeardownIntegrity, r1)
      else
        let active = currentOpenServers ignored r1 in
        if length active \<le> 1 then (Inr (case active of [] \<Rightarrow> None | server # _ \<Rightarrow> Some server), r1)
        else if \<not> distinct (map (\<lambda>s. sv_controlId (snd s)) active)
        then reconcileDuplicates now active r1
        else reconcileReplacement now active r1)"

subsection \<open>Sweeps of the alarm\<close>

definition expireClientStep :: "int \<Rightarrow> nat \<Rightarrow> room \<Rightarrow> bool \<times> room" where
  "expireClientStep now i r =
     (case readClientAttachment r i of
        None \<Rightarrow> closeSocket i close_internalError r
      | Some a \<Rightarrow>
          (case pendingClientOutcomes r i of
             Some pending \<Rightarrow> failClient now i a pending (rendezvousCloseForOutcome pending) r
           | None \<Rightarrow>
               if expiresAt a \<le> now then
                 (if stage a = Terminal then
                    (case terminalCloseAttemptAt a of
                       None \<Rightarrow> (True, r)
                     | Some attemptAt \<Rightarrow>
                         if attemptAt \<le> now then
                           (let (persisted, r1) = tryWriteAttachment i
                                  (ClientA (a\<lparr>terminalCloseAttempts := terminalCloseAttempts a + 1\<rparr>)) r;
                                (closed, r2) = closeSocket i close_internalError r1
                            in (persisted \<or> closed, r2))
                         else (True, r))
                  else failClient now i a SessionExpired close_sessionExpired r)
               else (True, r)))"

definition expireClients :: "int \<Rightarrow> room \<Rightarrow> bool \<times> room" where
  "expireClients now r = for_each (expireClientStep now) (getWebSockets ClientRole r) r"

text \<open>
  \<open>pruneServerTickets\<close>: the loop keeps the two flags of the source; a throwing
  \<open>writeAttachment\<close> leaves it.
\<close>

fun pruneServers_loop ::
  "int \<Rightarrow> bool \<Rightarrow> bool \<Rightarrow> bool \<Rightarrow> nat list \<Rightarrow> room \<Rightarrow> unit result \<times> room" where
  "pruneServers_loop now hasActive invalidated failed [] r =
     (if failed then Inl TeardownIntegrity else Inr (), r)"
| "pruneServers_loop now hasActive invalidated failed (i # is) r =
     (case readServerAttachment r i of
        None \<Rightarrow>
          (let (clientsRetired, r1) =
                 (if \<not> hasActive \<and> \<not> invalidated
                  then closeAllClients now InternalError close_internalError r else (True, r));
               (closed, r2) = closeSocket i close_internalError r1
           in pruneServers_loop now hasActive (invalidated \<or> \<not> hasActive)
                (failed \<or> \<not> clientsRetired \<or> \<not> closed) is r2)
      | Some s \<Rightarrow>
          (case pruneTicketList s now of
             (False, _) \<Rightarrow> pruneServers_loop now hasActive invalidated failed is r
           | (True, s1) \<Rightarrow>
               (case writeAttachment i (ServerA s1) r of
                  (Inl e, r1) \<Rightarrow> (Inl e, r1)
                | (Inr _, r1) \<Rightarrow> pruneServers_loop now hasActive invalidated failed is r1)))"

definition pruneServerTickets :: "int \<Rightarrow> room \<Rightarrow> unit result \<times> room" where
  "pruneServerTickets now r0 =
     (case reconcileActiveServer now None r0 of
        (Inl e, r1) \<Rightarrow> (Inl e, r1)
      | (Inr active, r1) \<Rightarrow>
          pruneServers_loop now (active \<noteq> None) False False (getWebSockets ServerRole r1) r1)"

text \<open>\<open>failProtocolViolation\<close> and the same dispatch with another outcome.\<close>

definition failTagged :: "int \<Rightarrow> nat \<Rightarrow> outcome \<Rightarrow> close \<Rightarrow> room \<Rightarrow> bool \<times> room" where
  "failTagged now i out cl r =
     (case readTaggedAttachment r i of
        Some (ServerA s) \<Rightarrow> failServer now i s out cl r
      | Some (ClientA a) \<Rightarrow> failClient now i a out cl r
      | None \<Rightarrow>
          let (clientsRetired, r1) =
                (if so_role (sock r i) = ServerRole
                 then closeAllClients now InternalError close_internalError r else (True, r))
          in if \<not> clientsRetired then (False, r1)
             else (True, snd (closeSocket i close_internalError r1)))"

definition failProtocolViolation :: "int \<Rightarrow> nat \<Rightarrow> room \<Rightarrow> bool \<times> room" where
  "failProtocolViolation now i r = failTagged now i ProtocolError close_protocolError r"

subsection \<open>Constructor cleanup\<close>

definition sanitizeStep :: "bool \<Rightarrow> nat \<Rightarrow> room \<Rightarrow> bool \<times> room" where
  "sanitizeStep suppressTelemetry i r =
     (let (persisted, r1) =
            (case readAttachment r i of
               Some (ClientA a) \<Rightarrow>
                 if suppressTelemetry then
                   tryWriteAttachment i (ClientA
                     ((if stage a = Terminal then a else scrubClient a InternalError)
                        \<lparr>summaryEmitted := True\<rparr>)) r
                 else if stage a = Terminal then (True, r)
                 else tryWriteAttachment i (ClientA (scrubClient a InternalError)) r
             | Some (ServerA s) \<Rightarrow>
                 tryWriteAttachment i (ServerA (s\<lparr>sv_current := False, sv_tickets := []\<rparr>)) r
             | None \<Rightarrow> (False, r));
          (closed, r2) = closeSocket i close_internalError r1
      in (persisted \<or> closed, r2))"

definition closeSocketsForInitializationFailure :: "room \<Rightarrow> bool \<times> room" where
  "closeSocketsForInitializationFailure r = for_each (sanitizeStep False) (all_webSockets r) r"

definition closeSocketsForTeardownRecovery :: "room \<Rightarrow> bool \<times> room" where
  "closeSocketsForTeardownRecovery r = for_each (sanitizeStep True) (all_webSockets r) r"

end
