(* ===== verification/RoomProgress.thy ===== *)
theory RoomProgress
  imports RoomTeardown
begin

text \<open>
  What teardown may do to a room, as one relation: \<open>tears r r'\<close> says that no socket
  opened, changed its role or its readability, that every client attachment is either
  as it was or terminal with its identity kept, that every server control kept its
  identity, was not made current, and gained no ticket and revived none. Every teardown
  operation is shown to stay inside this relation, from any earlier snapshot of an
  attachment; the invariants of the room follow from it.
\<close>

definition client_torn :: "client_attachment \<Rightarrow> client_attachment \<Rightarrow> bool" where
  "client_torn a a' \<longleftrightarrow>
     a' = a \<or>
     (stage a' = Terminal \<and> client_wf a' \<and> connectionId a' = connectionId a \<and>
      controlId a' = controlId a \<and> generation a' = generation a \<and>
      admissionId a' = admissionId a \<and> openedAt a' = openedAt a \<and> expiresAt a' = expiresAt a)"

definition ticket_torn :: "ticket_state \<Rightarrow> ticket_state \<Rightarrow> bool" where
  "ticket_torn t t' \<longleftrightarrow> t' = t \<or> t' = t\<lparr>tk_stage := TicketTerminal\<rparr>"

definition server_torn :: "server_attachment \<Rightarrow> server_attachment \<Rightarrow> bool" where
  "server_torn s s' \<longleftrightarrow>
     sv_accessProtocol s' = sv_accessProtocol s \<and> sv_controlId s' = sv_controlId s \<and>
     sv_generation s' = sv_generation s \<and> sv_openedAt s' = sv_openedAt s \<and>
     (sv_current s' \<longrightarrow> sv_current s) \<and> server_wf s' \<and>
     (\<forall>t' \<in> set (sv_tickets s'). \<exists>t \<in> set (sv_tickets s). ticket_torn t t')"

fun att_torn :: "attachment option \<Rightarrow> attachment option \<Rightarrow> bool" where
  "att_torn None x = (x = None)"
| "att_torn (Some (ClientA a)) x = (\<exists>a'. x = Some (ClientA a') \<and> client_torn a a')"
| "att_torn (Some (ServerA s)) x = (\<exists>s'. x = Some (ServerA s') \<and> server_torn s s')"

definition storage_of :: "room \<Rightarrow> _" where
  "storage_of r = (stored_generation r, stored_recovery r, stored_alarm r, initializationFailed r,
     teardownRecoveryPersisted r, teardownRecoveryRequired r, failure_log r)"

definition tears :: "room \<Rightarrow> room \<Rightarrow> bool" where
  "tears r r' \<longleftrightarrow>
     sock_count r' = sock_count r \<and> currentGeneration r' = currentGeneration r \<and>
     frame_log r' = frame_log r \<and> storage_of r' = storage_of r \<and>
     (\<forall>i. readAttachment r i = None \<longrightarrow> so_stored (sock r' i) = so_stored (sock r i)) \<and>
     (\<forall>i. so_role (sock r' i) = so_role (sock r i) \<and> so_listed (sock r' i) = so_listed (sock r i) \<and>
          (is_open r' i \<longrightarrow> is_open r i) \<and> att_torn (readAttachment r i) (readAttachment r' i))"

subsection \<open>Reading\<close>

lemma readAttachment_wf: "readAttachment r i = Some a \<Longrightarrow> attachment_wf a"
  unfolding readAttachment_def by (rule attachment_codec.dec_wf)

lemma readClient_iff:
  "readClientAttachment r i = Some a \<longleftrightarrow> readAttachment r i = Some (ClientA a)"
  by (auto simp: readClientAttachment_def split: option.splits attachment.splits)

lemma readServer_iff:
  "readServerAttachment r i = Some s \<longleftrightarrow> readAttachment r i = Some (ServerA s)"
  by (auto simp: readServerAttachment_def split: option.splits attachment.splits)

lemma readClient_wf: "readClientAttachment r i = Some a \<Longrightarrow> client_wf a"
  using readAttachment_wf by (fastforce simp: readClient_iff)

lemma readServer_wf: "readServerAttachment r i = Some s \<Longrightarrow> server_wf s"
  using readAttachment_wf by (fastforce simp: readServer_iff)

subsection \<open>Order\<close>

lemma ticket_torn_refl [simp]: "ticket_torn t t"
  by (simp add: ticket_torn_def)

lemma ticket_torn_trans: "ticket_torn t u \<Longrightarrow> ticket_torn u v \<Longrightarrow> ticket_torn t v"
  by (auto simp: ticket_torn_def)

lemma client_torn_refl [simp]: "client_torn a a"
  by (simp add: client_torn_def)

lemma client_torn_trans: "client_torn a b \<Longrightarrow> client_torn b c \<Longrightarrow> client_torn a c"
  by (auto simp: client_torn_def)

lemma server_torn_refl: "server_wf s \<Longrightarrow> server_torn s s"
  unfolding server_torn_def using ticket_torn_refl by blast

lemma server_torn_trans: "server_torn s t \<Longrightarrow> server_torn t u \<Longrightarrow> server_torn s u"
  unfolding server_torn_def by (metis ticket_torn_trans)

lemma att_torn_refl: "(\<And>a. x = Some a \<Longrightarrow> attachment_wf a) \<Longrightarrow> att_torn x x"
proof (cases "(x, x)" rule: att_torn.cases)
  case (3 s z)
  assume "\<And>a. x = Some a \<Longrightarrow> attachment_wf a"
  with 3 show ?thesis by (auto intro: server_torn_refl)
qed auto

lemma att_torn_trans: "att_torn x y \<Longrightarrow> att_torn y z \<Longrightarrow> att_torn x z"
  by (cases "(x, y)" rule: att_torn.cases)
    (auto, (metis client_torn_trans server_torn_trans)+)

lemma tears_refl [simp, intro]: "tears r r"
  by (auto simp: tears_def intro: att_torn_refl readAttachment_wf)

lemma tears_trans: "tears r s \<Longrightarrow> tears s t \<Longrightarrow> tears r t"
  unfolding tears_def by (metis att_torn.simps(1) att_torn_trans)

lemma tears_att: "tears r r' \<Longrightarrow> att_torn (readAttachment r i) (readAttachment r' i)"
  by (simp add: tears_def)

subsection \<open>Components outside the relation\<close>

lemma read_frame:
  assumes "sock r' = sock r"
  shows "readAttachment r' = readAttachment r" "readClientAttachment r' = readClientAttachment r"
    "readServerAttachment r' = readServerAttachment r" "is_open r' = is_open r"
proof -
  show att: "readAttachment r' = readAttachment r" "is_open r' = is_open r"
    using assms by (simp_all add: fun_eq_iff readAttachment_def is_open_def)
  show "readClientAttachment r' = readClientAttachment r"
    "readServerAttachment r' = readServerAttachment r"
    by (simp_all add: fun_eq_iff readClientAttachment_def readServerAttachment_def att)
qed

lemma sock_frame [simp]:
  "sock (setPendingServer i x r) = sock r" "sock (rememberInactive c r) = sock r"
  "sock (forgetInactive c r) = sock r"
  by (simp_all add: setPendingServer_def rememberInactive_def forgetInactive_def)

lemmas read_frames [simp] =
  read_frame[where r' = "setPendingServer i x r" and r = r for i x r, OF sock_frame(1)]
  read_frame[where r' = "rememberInactive c r" and r = r for c r, OF sock_frame(2)]
  read_frame[where r' = "forgetInactive c r" and r = r for c r, OF sock_frame(3)]
  read_frame[where r' = "r\<lparr>pendingClientOutcomes := f\<rparr>" and r = r for f r, simplified]
  read_frame[where r' = "r\<lparr>finalizedConnections := fs, metric_log := ms\<rparr>" and r = r for fs ms r, simplified]
  read_frame[where r' = "r\<lparr>platform_calls := n\<rparr>" and r = r for n r, simplified]

lemma tears_frame:
  assumes "sock r' = sock r" "sock_count r' = sock_count r"
    "currentGeneration r' = currentGeneration r" "frame_log r' = frame_log r"
    "storage_of r' = storage_of r"
  shows "tears r0 r' \<longleftrightarrow> tears r0 r"
  using assms by (simp add: tears_def read_frame[OF assms(1)])

lemma tears_setPendingServer [simp]: "tears r0 (setPendingServer i x r) = tears r0 r"
  by (rule tears_frame) (simp_all add: setPendingServer_def storage_of_def)

lemma tears_rememberInactive [simp]: "tears r0 (rememberInactive c r) = tears r0 r"
  by (rule tears_frame) (simp_all add: rememberInactive_def storage_of_def)

lemma tears_forgetInactive [simp]: "tears r0 (forgetInactive c r) = tears r0 r"
  by (rule tears_frame) (simp_all add: forgetInactive_def storage_of_def)

lemma tears_pendingClients [simp]: "tears r0 (r\<lparr>pendingClientOutcomes := f\<rparr>) = tears r0 r"
  by (rule tears_frame) (simp_all add: storage_of_def)

lemma tears_finalized [simp]:
  "tears r0 (r\<lparr>finalizedConnections := fs, metric_log := ms\<rparr>) = tears r0 r"
  by (rule tears_frame) (simp_all add: storage_of_def)

lemma getWebSockets_tears: "tears r r' \<Longrightarrow> getWebSockets tag r' = getWebSockets tag r"
  by (auto simp: tears_def getWebSockets_def)

subsection \<open>Writing and closing\<close>

lemma tryWrite_read:
  assumes "attachment_wf a"
  shows "readAttachment (snd (tryWriteAttachment i a r)) =
    (if fst (tryWriteAttachment i a r) then (readAttachment r)(i := Some a) else readAttachment r)"
  using attachment_codec.reads_back[OF assms]
  by (auto simp: tryWriteAttachment_def platform_call_def readAttachment_def fun_eq_iff)

lemma tears_write:
  assumes "tears r0 r" "att_torn (readAttachment r0 i) (Some a)" "attachment_wf a"
  shows "tears r0 (snd (tryWriteAttachment i a r))"
proof -
  have "readAttachment (snd (tryWriteAttachment i a r)) j =
      (if fst (tryWriteAttachment i a r) \<and> j = i then Some a else readAttachment r j)" for j
    by (simp add: tryWrite_read[OF assms(3)])
  moreover have "\<And>j. att_torn (readAttachment r0 j) (readAttachment r j)"
    using tears_att[OF assms(1)] .
  moreover have "is_open (snd (tryWriteAttachment i a r)) j = is_open r j"
    "so_role (sock (snd (tryWriteAttachment i a r)) j) = so_role (sock r j)"
    "so_listed (sock (snd (tryWriteAttachment i a r)) j) = so_listed (sock r j)" for j
    by (auto simp: tryWriteAttachment_def platform_call_def is_open_def)
  moreover have "sock_count (snd (tryWriteAttachment i a r)) = sock_count r"
    "currentGeneration (snd (tryWriteAttachment i a r)) = currentGeneration r"
    "frame_log (snd (tryWriteAttachment i a r)) = frame_log r"
    "storage_of (snd (tryWriteAttachment i a r)) = storage_of r"
    by (auto simp: tryWriteAttachment_def platform_call_def storage_of_def)
  moreover have "readAttachment r0 j = None \<Longrightarrow>
      so_stored (sock (snd (tryWriteAttachment i a r)) j) = so_stored (sock r j)" for j
    using assms(2) by (auto simp: tryWriteAttachment_def platform_call_def)
  ultimately show ?thesis
    using assms(1,2) unfolding tears_def by simp
qed

lemma closeSocket_read: "readAttachment (snd (closeSocket i c r)) j = readAttachment r j"
  by (auto simp: closeSocket_def platform_call_def readAttachment_def)

lemma tears_close:
  assumes "tears r0 r" shows "tears r0 (snd (closeSocket i c r))"
proof -
  have "is_open (snd (closeSocket i c r)) j \<Longrightarrow> is_open r j"
    "so_role (sock (snd (closeSocket i c r)) j) = so_role (sock r j)"
    "so_listed (sock (snd (closeSocket i c r)) j) = so_listed (sock r j)"
    "so_stored (sock (snd (closeSocket i c r)) j) = so_stored (sock r j)" for j
    by (auto simp: closeSocket_def platform_call_def is_open_def split: if_splits)
  moreover have "sock_count (snd (closeSocket i c r)) = sock_count r"
    "currentGeneration (snd (closeSocket i c r)) = currentGeneration r"
    "frame_log (snd (closeSocket i c r)) = frame_log r"
    "storage_of (snd (closeSocket i c r)) = storage_of r"
    by (auto simp: closeSocket_def platform_call_def storage_of_def)
  ultimately show ?thesis
    using assms unfolding tears_def by (auto simp: closeSocket_read)
qed

lemma closeSocket_closed: "fst (closeSocket i c r) \<longleftrightarrow> \<not> is_open (snd (closeSocket i c r)) i"
  by (auto simp: closeSocket_def platform_call_def is_open_def)

subsection \<open>Loops\<close>

lemma tears_for_each:
  assumes "\<And>i r. tears r0 r \<Longrightarrow> i \<in> set is \<Longrightarrow> tears r0 (snd (f i r))" "tears r0 r"
  shows "tears r0 (snd (for_each f is r))"
  using assms
proof (induction "is" arbitrary: r)
  case (Cons i "is")
  have "tears r0 (snd (f i r))" using Cons.prems by simp
  then have "tears r0 (snd (for_each f is (snd (f i r))))"
    using Cons by simp
  then show ?case by (simp add: case_prod_unfold Let_def)
qed simp

subsection \<open>Failing a client stays in the relation\<close>

lemma client_wf_scrub [wf_simps]: "client_wf a \<Longrightarrow> client_wf (scrubClient a out)"
  by (auto simp: client_wf_def scrubClient_def access_wf_def stage_wf_def attachment_bounds)

lemma client_wf_summary [wf_simps]: "client_wf (a\<lparr>summaryEmitted := b\<rparr>) = client_wf a"
  by (simp add: client_wf_def access_wf_def stage_wf_def
      cong: client_stage.case_cong option.case_cong)

lemma scrubClient_simps [simp]:
  "stage (scrubClient a out) = Terminal" "connectionId (scrubClient a out) = connectionId a"
  "controlId (scrubClient a out) = controlId a" "generation (scrubClient a out) = generation a"
  "admissionId (scrubClient a out) = admissionId a" "openedAt (scrubClient a out) = openedAt a"
  "expiresAt (scrubClient a out) = expiresAt a" "terminalOutcome (scrubClient a out) = Some out"
  "summaryEmitted (scrubClient a out) = summaryEmitted a" "ticket (scrubClient a out) = None"
  "ticketDigest (scrubClient a out) = None" "accessGrant (scrubClient a out) = None"
  by (simp_all add: scrubClient_def)

lemma client_torn_scrub: "client_torn b a \<Longrightarrow> client_wf a \<Longrightarrow> client_torn b (scrubClient a out)"
  by (auto simp: client_torn_def client_wf_scrub)

lemma client_torn_summary:
  "client_torn b a \<Longrightarrow> client_wf a \<Longrightarrow> stage a = Terminal \<Longrightarrow> client_torn b (a\<lparr>summaryEmitted := x\<rparr>)"
  by (auto simp: client_torn_def client_wf_summary)

lemma tk_terminal_fields [simp]:
  "tk_digest (t\<lparr>tk_stage := x\<rparr>) = tk_digest t"
  by simp

lemma server_torn_mark:
  assumes "server_wf s"
  shows "server_torn s (s\<lparr>sv_tickets := update_first P (\<lambda>t. t\<lparr>tk_stage := TicketTerminal\<rparr>) (sv_tickets s)\<rparr>)"
proof -
  let ?ts = "update_first P (\<lambda>t. t\<lparr>tk_stage := TicketTerminal\<rparr>) (sv_tickets s)"
  have "map tk_digest ?ts = map tk_digest (sv_tickets s)"
    "map tk_clientConnectionId ?ts = map tk_clientConnectionId (sv_tickets s)"
    by (rule map_update_first_same, simp)+
  moreover have "list_all ticket_wf ?ts"
    using assms by (intro list_all_update_first) (auto simp: server_wf_def ticket_wf_def)
  ultimately have "server_wf (s\<lparr>sv_tickets := ?ts\<rparr>)"
    using assms by (simp add: server_wf_def)
  moreover have "\<exists>t \<in> set (sv_tickets s). ticket_torn t t'" if "t' \<in> set ?ts" for t'
    using that set_update_first[of P "\<lambda>t. t\<lparr>tk_stage := TicketTerminal\<rparr>" "sv_tickets s"]
    by (auto simp: ticket_torn_def)
  ultimately show ?thesis by (simp add: server_torn_def)
qed

lemma tears_markTicketOn: "tears r (markTicketOn c d i r)"
proof (cases "readServerAttachment r i")
  case (Some s)
  then have "server_wf s" and rd: "readAttachment r i = Some (ServerA s)"
    by (simp_all add: readServer_wf readServer_iff)
  note torn = server_torn_mark[OF \<open>server_wf s\<close>, of "same_ticket d (connectionId c)"]
  have wf: "server_wf (s\<lparr>sv_tickets := update_first (same_ticket d (connectionId c))
              (\<lambda>t. t\<lparr>tk_stage := TicketTerminal\<rparr>) (sv_tickets s)\<rparr>)"
    using torn by (simp add: server_torn_def)
  show ?thesis
    using tears_write[OF tears_refl, of r i "ServerA _"] torn wf rd
    by (auto simp: markTicketOn_def Some split: option.splits)
qed (simp add: markTicketOn_def)

lemma tears_markTicketTerminal: "tears r0 r \<Longrightarrow> tears r0 (markTicketTerminal c r)"
proof (cases "ticketDigest c")
  case (Some d)
  assume "tears r0 r"
  then have "tears r0 (fold (markTicketOn c d) is r)" for "is"
    by (induction "is" arbitrary: r) (auto intro: tears_trans[OF _ tears_markTicketOn])
  with Some show ?thesis by (simp add: markTicketTerminal_def)
qed (simp add: markTicketTerminal_def)

lemma tears_emit:
  assumes "tears r0 r" "readAttachment r0 i = Some (ClientA b)" "client_torn b a" "client_wf a"
    "stage a = Terminal"
  shows "tears r0 (snd (emitTerminalMetric now i a out r))"
  using assms tears_write[OF assms(1), of i "ClientA (a\<lparr>summaryEmitted := True\<rparr>)"]
  by (auto simp: emitTerminalMetric_def case_prod_unfold Let_def client_torn_summary client_wf_summary)

text \<open>
  The attachment handed over may be ahead of the stored one in its counters: only its
  identity and the well-formedness of its terminal form matter.
\<close>

definition client_same :: "client_attachment \<Rightarrow> client_attachment \<Rightarrow> bool" where
  "client_same a a' \<longleftrightarrow> connectionId a' = connectionId a \<and> controlId a' = controlId a \<and>
     generation a' = generation a \<and> admissionId a' = admissionId a \<and>
     openedAt a' = openedAt a \<and> expiresAt a' = expiresAt a"

definition terminal_form :: "client_attachment \<Rightarrow> outcome \<Rightarrow> client_attachment" where
  "terminal_form a out = (if stage a = Terminal then a else scrubClient a out)"

lemma terminal_form_stage [simp]: "stage (terminal_form a out) = Terminal"
  by (simp add: terminal_form_def)

lemma client_torn_terminal:
  "client_same b a \<Longrightarrow> client_wf (terminal_form a out) \<Longrightarrow> client_torn b (terminal_form a out)"
  by (auto simp: client_torn_def client_same_def terminal_form_def)

lemma tears_failClient:
  assumes "tears r0 r" "readAttachment r0 i = Some (ClientA b)" "client_same b a"
    "\<And>x. client_wf (terminal_form a x)"
  shows "tears r0 (snd (failClient now i a out cl r))"
proof -
  define canonical where "canonical = (case terminalOutcome a of Some x \<Rightarrow> x
    | None \<Rightarrow> (case pendingClientOutcomes r i of Some x \<Rightarrow> x | None \<Rightarrow> out))"
  define r1 where "r1 = r\<lparr>pendingClientOutcomes := (pendingClientOutcomes r)(i := Some canonical)\<rparr>"
  define a' where "a' = fst (transitionClientTerminal a canonical r1)"
  define r2 where "r2 = snd (transitionClientTerminal a canonical r1)"
  have r2: "tears r0 r2"
    using assms(1) by (simp add: r2_def r1_def transitionClientTerminal_def tears_markTicketTerminal)
  have a': "client_torn b a'" "client_wf a'" "stage a' = Terminal"
    using assms(3,4) client_torn_terminal[OF assms(3,4)]
    by (auto simp: a'_def transitionClientTerminal_def terminal_form_def split: if_splits)
  define w where "w = (if stage a = Terminal \<and> pendingClientOutcomes r i = None then (True, r2)
    else tryWriteAttachment i (ClientA a') r2)"
  have w: "tears r0 (snd w)"
    using tears_write[OF r2, of i "ClientA a'"] r2 a' assms(2) by (simp add: w_def)
  define e where "e = (case terminalOutcome a' of None \<Rightarrow> (False, snd w)
    | Some x \<Rightarrow> emitTerminalMetric now i a' x (snd w))"
  have e: "tears r0 (snd e)"
    using tears_emit[OF w assms(2) a'] w by (simp add: e_def split: option.splits)
  show ?thesis
    unfolding failClient_def Let_def case_prod_unfold
    unfolding canonical_def[symmetric] r1_def[symmetric] a'_def[symmetric] r2_def[symmetric]
    unfolding w_def[symmetric] e_def[symmetric]
    using e by (auto intro: tears_close)
qed

lemma tears_failClient_read:
  assumes "tears r0 r" "readClientAttachment r i = Some a"
  shows "tears r0 (snd (failClient now i a out cl r))"
  using tears_trans[OF assms(1)] tears_failClient[OF tears_refl, of r i a a] assms(2)
    readClient_wf[OF assms(2)]
  by (simp add: readClient_iff client_same_def terminal_form_def client_wf_scrub)

lemma tears_closeAllClients: "tears r0 r \<Longrightarrow> tears r0 (snd (closeAllClients now out cl r))"
  unfolding closeAllClients_def
  by (rule tears_for_each)
    (auto simp: closeClientStep_def tears_close tears_failClient_read split: option.splits)

subsection \<open>Server teardown stays in the relation\<close>

lemma server_wf_current [wf_simps]: "server_wf (s\<lparr>sv_current := b\<rparr>) = server_wf s"
  by (simp add: server_wf_def)

lemma server_torn_demote: "server_torn b s \<Longrightarrow> server_torn b (s\<lparr>sv_current := False\<rparr>)"
  by (simp add: server_torn_def server_wf_current)

lemma server_torn_wf: "server_torn b s \<Longrightarrow> server_wf s"
  by (simp add: server_torn_def)

lemma readServer_torn: "readServerAttachment r i = Some s \<Longrightarrow>
    readAttachment r i = Some (ServerA s) \<and> server_torn s s"
  using readServer_wf by (auto simp: readServer_iff server_torn_refl)

lemma tears_writeServer:
  assumes "tears r0 r" "readAttachment r0 i = Some (ServerA b)" "server_torn b s"
  shows "tears r0 (snd (tryWriteAttachment i (ServerA s) r))"
  using assms by (intro tears_write) (auto dest: server_torn_wf)

lemma tears_failServer:
  assumes "tears r0 r" "readAttachment r0 i = Some (ServerA b)" "server_torn b s"
  shows "tears r0 (snd (failServer now i s out cl r))"
proof -
  define r2 where "r2 = (if sv_current s
    then rememberInactive (sv_controlId s) (setPendingServer i (Some (case pendingServerOutcomes r i of
        Some x \<Rightarrow> x | None \<Rightarrow> out)) r)
    else setPendingServer i (Some (case pendingServerOutcomes r i of
        Some x \<Rightarrow> x | None \<Rightarrow> out)) r)"
  define w where "w = (if \<not> sv_current s \<and> pendingServerOutcomes r i = None then (True, r2)
    else tryWriteAttachment i (ServerA (s\<lparr>sv_current := False\<rparr>)) r2)"
  have r2: "tears r0 r2" using assms(1) by (simp add: r2_def)
  have w: "tears r0 (snd w)"
    using r2 tears_writeServer[OF r2 assms(2) server_torn_demote[OF assms(3)]] by (simp add: w_def)
  show ?thesis
    unfolding failServer_def Let_def case_prod_unfold
    unfolding r2_def[symmetric] w_def[symmetric]
    using w by (simp add: tears_close tears_closeAllClients)
qed

lemma tears_failServer_read:
  assumes "tears r0 r" "readServerAttachment r i = Some s"
  shows "tears r0 (snd (failServer now i s out cl r))"
  using tears_trans[OF assms(1)] tears_failServer[OF tears_refl] readServer_torn[OF assms(2)] by blast

lemma tears_retryServerStep: "tears r0 r \<Longrightarrow> tears r0 (snd (retryServerStep now i r))"
  by (auto simp: retryServerStep_def Let_def case_prod_unfold tears_close tears_failServer_read
      split: option.splits)

lemma tears_retryPending: "tears r0 r \<Longrightarrow> tears r0 (snd (retryPendingServerTeardowns now r))"
  unfolding retryPendingServerTeardowns_def by (intro tears_for_each tears_retryServerStep)

lemma tears_prepare:
  assumes "tears r0 r" "readAttachment r0 i = Some (ServerA b)" "server_torn b s"
  shows "tears r0 (snd (prepareServerRetirement (i, s) cl r))"
  using assms(1) tears_writeServer[OF assms(1,2) server_torn_demote[OF assms(3)]]
  by (auto simp: prepareServerRetirement_def Let_def case_prod_unfold intro!: tears_close)

lemma tears_finish: "tears r0 r \<Longrightarrow> tears r0 (finishServerRetirement cl rt r)"
  by (simp add: finishServerRetirement_def tears_close)

lemma tears_retire:
  assumes "tears r0 r" "readAttachment r0 i = Some (ServerA b)" "server_torn b s"
  shows "tears r0 (snd (retireServerImmediately (i, s) cl r))"
  using tears_prepare[OF assms, of cl]
  by (cases "prepareServerRetirement (i, s) cl r")
    (auto simp: retireServerImmediately_def tears_finish split: option.splits)

text \<open>A server snapshot of \<open>r0\<close>: what \<open>r0\<close> stored, or a torn form of it.\<close>

definition snapshot_of :: "room \<Rightarrow> active_server \<Rightarrow> bool" where
  "snapshot_of r0 x \<longleftrightarrow> (\<exists>b. readAttachment r0 (fst x) = Some (ServerA b) \<and> server_torn b (snd x))"

lemma tears_retire_snapshot:
  "tears r0 r \<Longrightarrow> snapshot_of r0 x \<Longrightarrow> tears r0 (snd (retireServerImmediately x cl r))"
  by (cases x) (auto simp: snapshot_of_def intro: tears_retire)

lemma snapshot_of_read: "readServerAttachment r i = Some s \<Longrightarrow> snapshot_of r (i, s)"
  using readServer_torn by (auto simp: snapshot_of_def)

lemma snapshot_of_tears: "tears r0 r \<Longrightarrow> snapshot_of r x \<Longrightarrow> snapshot_of r0 x"
proof -
  assume "tears r0 r" "snapshot_of r x"
  then obtain b where b: "readAttachment r (fst x) = Some (ServerA b)" "server_torn b (snd x)"
    by (auto simp: snapshot_of_def)
  with tears_att[OF \<open>tears r0 r\<close>, of "fst x"] obtain a where
    "readAttachment r0 (fst x) = Some (ServerA a)" "server_torn a b"
    by (cases "(readAttachment r0 (fst x), readAttachment r (fst x))" rule: att_torn.cases) auto
  with b show ?thesis using server_torn_trans by (auto simp: snapshot_of_def)
qed

lemma map_filter_set: "x \<in> set (List.map_filter f xs) \<longleftrightarrow> (\<exists>y \<in> set xs. f y = Some x)"
  by (induction xs) (auto simp: List.map_filter_simps split: option.splits)

lemma currentOpenServers_iff:
  "x \<in> set (currentOpenServers ign r) \<longleftrightarrow>
     fst x \<in> set (getWebSockets ServerRole r) \<and> Some (fst x) \<noteq> ign \<and> is_open r (fst x) \<and>
     readServerAttachment r (fst x) = Some (snd x) \<and> sv_current (snd x) \<and>
     Some (sv_generation (snd x)) = currentGeneration r"
proof -
  have test: "(if Some i = ign \<or> \<not> is_open r i then None
      else case readServerAttachment r i of None \<Rightarrow> None
        | Some s \<Rightarrow> if sv_current s \<and> Some (sv_generation s) = currentGeneration r
                    then Some (i, s) else None) = Some x \<longleftrightarrow>
      i = fst x \<and> Some (fst x) \<noteq> ign \<and> is_open r (fst x) \<and>
      readServerAttachment r (fst x) = Some (snd x) \<and> sv_current (snd x) \<and>
      Some (sv_generation (snd x)) = currentGeneration r" for i
  proof (cases "i = fst x")
    case True
    show ?thesis unfolding True
      by (cases "readServerAttachment r (fst x)") (auto simp: prod_eq_iff split: if_splits)
  next
    case False
    then show ?thesis by (cases "readServerAttachment r i") (auto split: if_splits)
  qed
  show ?thesis
    unfolding currentOpenServers_def map_filter_set test by blast
qed

lemma snapshot_of_current: "x \<in> set (currentOpenServers ign r) \<Longrightarrow> snapshot_of r x"
  using snapshot_of_read[of r "fst x" "snd x"] by (simp add: currentOpenServers_iff)

lemma tears_retireDuplicates:
  "tears r0 r \<Longrightarrow> \<forall>x \<in> set xs. snapshot_of r0 x \<Longrightarrow> tears r0 (snd (retireDuplicates xs r))"
  by (induction xs arbitrary: r) (simp_all add: Let_def case_prod_unfold tears_retire_snapshot)

lemma tears_chooseWinner:
  "tears r0 r \<Longrightarrow> snapshot_of r0 w \<Longrightarrow> \<forall>x \<in> set xs. snapshot_of r0 x \<Longrightarrow>
   tears r0 (snd (chooseWinner now w xs r))"
  by (induction xs arbitrary: w r)
    (simp_all add: Let_def case_prod_unfold tears_retire_snapshot tears_closeAllClients)

lemma tears_reconcileDuplicates:
  "tears r0 r \<Longrightarrow> \<forall>x \<in> set xs. snapshot_of r0 x \<Longrightarrow> tears r0 (snd (reconcileDuplicates now xs r))"
  by (simp add: reconcileDuplicates_def Let_def case_prod_unfold tears_retireDuplicates
      tears_closeAllClients)

lemma tears_reconcileReplacement:
  assumes "tears r0 r" "\<forall>x \<in> set xs. snapshot_of r0 x"
  shows "tears r0 (snd (reconcileReplacement now xs r))"
proof (cases "js_sort compareActiveServersNewestFirst xs")
  case (Cons w older)
  then have "\<forall>x \<in> set (w # older). snapshot_of r0 x"
    using assms(2) by (metis set_js_sort)
  then have "tears r0 (snd (chooseWinner now w older r))"
    using tears_chooseWinner[OF assms(1)] by simp
  then show ?thesis
    by (cases "chooseWinner now w older r")
      (simp add: reconcileReplacement_def Cons case_prod_unfold Let_def tears_closeAllClients
        split: sum.splits)
qed (simp add: reconcileReplacement_def assms)

lemma tears_reconcile:
  assumes "tears r0 r" shows "tears r0 (snd (reconcileActiveServer now ign r))"
proof -
  define r1 where "r1 = snd (retryPendingServerTeardowns now r)"
  have r1: "tears r0 r1" using assms by (simp add: r1_def tears_retryPending)
  have snap: "\<forall>x \<in> set (currentOpenServers ign r1). snapshot_of r0 x"
    using snapshot_of_tears[OF r1] snapshot_of_current by blast
  show ?thesis
    using r1 tears_reconcileDuplicates[OF r1 snap] tears_reconcileReplacement[OF r1 snap]
    by (simp add: reconcileActiveServer_def Let_def case_prod_unfold r1_def[symmetric])
qed

subsection \<open>The sweeps stay in the relation\<close>

lemma client_torn_attempt:
  assumes "client_wf a" "stage a = Terminal" "terminalCloseAttemptAt a = Some t"
  shows "client_torn a (a\<lparr>terminalCloseAttempts := terminalCloseAttempts a + 1\<rparr>)"
    and "client_wf (a\<lparr>terminalCloseAttempts := terminalCloseAttempts a + 1\<rparr>)"
proof -
  have "terminalCloseAttempts a < MAX_TERMINAL_CLOSE_ATTEMPTS"
    using assms(3) by (simp add: terminalCloseAttemptAt_def split: if_splits)
  then show wf: "client_wf (a\<lparr>terminalCloseAttempts := terminalCloseAttempts a + 1\<rparr>)"
    using assms(1,2)
    by (auto simp: client_wf_def access_wf_def stage_wf_def cong: option.case_cong)
  then show "client_torn a (a\<lparr>terminalCloseAttempts := terminalCloseAttempts a + 1\<rparr>)"
    using assms(2) by (simp add: client_torn_def)
qed

lemma tears_expireClientStep:
  assumes "tears r0 r" shows "tears r0 (snd (expireClientStep now i r))"
proof (cases "readClientAttachment r i")
  case (Some a)
  have wf: "client_wf a" and rd: "readAttachment r i = Some (ClientA a)"
    using Some by (simp_all add: readClient_wf readClient_iff)
  have attempt: "tears r0 (snd (tryWriteAttachment i
      (ClientA (a\<lparr>terminalCloseAttempts := terminalCloseAttempts a + 1\<rparr>)) r))"
    if "stage a = Terminal" "terminalCloseAttemptAt a = Some t" for t
    using client_torn_attempt[OF wf that] rd by (intro tears_trans[OF assms] tears_write) auto
  show ?thesis
    using assms attempt tears_failClient_read[OF assms Some]
    by (auto simp: expireClientStep_def Some Let_def case_prod_unfold intro: tears_close split: option.split)
qed (simp add: expireClientStep_def tears_close assms)

lemma tears_expireClients: "tears r0 r \<Longrightarrow> tears r0 (snd (expireClients now r))"
  unfolding expireClients_def by (intro tears_for_each tears_expireClientStep)

lemma prune_torn:
  assumes "server_wf s" "pruneTicketList s now = (b, s')"
  shows "server_torn s s' \<and> (\<forall>t \<in> set (sv_tickets s'). t \<in> set (sv_tickets s) \<and> tk_expiresAt t > now)"
proof -
  have s': "s' = s\<lparr>sv_tickets := filter (\<lambda>t. tk_expiresAt t > now) (sv_tickets s)\<rparr>"
    using assms(2) by (auto simp: pruneTicketList_def Let_def filter_length_eq_iff split: if_splits
        cong: filter_cong)
  have "server_wf s'"
    using assms(1) by (auto simp: s' server_wf_def list_all_iff distinct_map_filterI
        intro: le_trans[OF length_filter_le])
  then show ?thesis
    unfolding s' server_torn_def using ticket_torn_refl by (simp, blast)
qed

lemma tears_writeServer_read:
  assumes "tears r0 r" "readServerAttachment r i = Some s" "server_torn s s'"
  shows "tears r0 (snd (writeAttachment i (ServerA s') r))"
  using assms readServer_torn[OF assms(2)]
  by (auto simp: writeAttachment_def case_prod_unfold Let_def intro: tears_trans tears_writeServer)

lemma tears_pruneServers_loop:
  "tears r0 r \<Longrightarrow> tears r0 (snd (pruneServers_loop now act inval failed is r))"
proof (induction "is" arbitrary: inval failed r)
  case (Cons i "is")
  show ?case
  proof (cases "readServerAttachment r i")
    case None
    then show ?thesis
      using Cons by (simp add: Let_def case_prod_unfold tears_close tears_closeAllClients)
  next
    case (Some s)
    obtain b s' where p: "pruneTicketList s now = (b, s')" by fastforce
    have "tears r0 (snd (writeAttachment i (ServerA s') r))"
      using tears_writeServer_read[OF Cons.prems Some] prune_torn[OF readServer_wf[OF Some] p] by simp
    then show ?thesis
      using Cons Some p by (auto split: bool.split prod.split sum.split)
  qed
qed simp

lemma tears_pruneServerTickets:
  assumes "tears r0 r" shows "tears r0 (snd (pruneServerTickets now r))"
  using tears_reconcile[OF assms, of now None]
  by (auto simp: pruneServerTickets_def tears_pruneServers_loop split: prod.split sum.split)

lemma readTagged_Some:
  "readTaggedAttachment r i = Some a \<longleftrightarrow> readAttachment r i = Some a \<and> attachment_role a = so_role (sock r i)"
  by (auto simp: readTaggedAttachment_def split: option.splits)

lemma tears_failTagged:
  assumes "tears r0 r" shows "tears r0 (snd (failTagged now i out cl r))"
proof (cases "readTaggedAttachment r i")
  case None
  with assms show ?thesis
    by (simp add: failTagged_def Let_def case_prod_unfold tears_close tears_closeAllClients)
next
  case (Some a)
  then have rd: "readAttachment r i = Some a" by (simp add: readTagged_Some)
  show ?thesis
  proof (cases a)
    case (ClientA c)
    then show ?thesis
      using Some rd tears_failClient_read[OF assms, of i c] by (simp add: failTagged_def readClient_iff)
  next
    case (ServerA s)
    then show ?thesis
      using Some rd tears_failServer_read[OF assms, of i s] by (simp add: failTagged_def readServer_iff)
  qed
qed

lemma server_torn_sanitize: "server_wf s \<Longrightarrow> server_torn s (s\<lparr>sv_current := False, sv_tickets := []\<rparr>)"
  by (simp add: server_torn_def server_wf_def)

lemma tears_sanitizeStep:
  assumes "tears r0 r" shows "tears r0 (snd (sanitizeStep b i r))"
proof (cases "readAttachment r i")
  case None
  with assms show ?thesis by (simp add: sanitizeStep_def Let_def case_prod_unfold tears_close)
next
  case (Some x)
  have w: "tears r0 (snd (tryWriteAttachment i y r))"
    if "att_torn (Some x) (Some y)" "attachment_wf y" for y
    using tears_trans[OF assms tears_write[OF tears_refl]] that Some by metis
  show ?thesis
  proof (cases x)
    case (ClientA a)
    then have wf: "client_wf a" using readAttachment_wf[OF Some] by simp
    show ?thesis
      using assms w wf client_torn_scrub[OF client_torn_refl wf]
        client_torn_summary[of a a] client_torn_summary[of a "scrubClient a InternalError"]
      by (auto simp: sanitizeStep_def Some ClientA Let_def case_prod_unfold client_wf_summary
          client_wf_scrub intro!: tears_close)
  next
    case (ServerA s)
    then show ?thesis
      using w readAttachment_wf[OF Some] server_torn_sanitize[of s]
      by (auto simp: sanitizeStep_def Some Let_def case_prod_unfold server_torn_wf intro!: tears_close)
  qed
qed

lemma tears_sanitize:
  assumes "tears r0 r"
  shows "tears r0 (snd (closeSocketsForInitializationFailure r))"
    and "tears r0 (snd (closeSocketsForTeardownRecovery r))"
  unfolding closeSocketsForInitializationFailure_def closeSocketsForTeardownRecovery_def
  using tears_for_each[OF tears_sanitizeStep assms] by simp_all

end
