(* ===== verification/RoomOutcomes.thy ===== *)
theory RoomOutcomes
  imports RoomProgress
begin

text \<open>
  What teardown guarantees: the invariants of the room survive it, a client's first
  terminal outcome is the one that stays stored, at most one terminal metric is handed
  out per client socket, a teardown that reports success has closed the socket or
  stored a terminal attachment, and reconciliation leaves one active server.
\<close>

subsection \<open>The room's invariant\<close>

text \<open>
  A socket has no stored attachment yet, or a readable one of the role of its tag; a ticket
  retained by a control belongs to a client that has begun its exchange and whose
  counters do not run ahead of the ticket's, no two clients share a connection and no
  two controls an identity.
\<close>

definition readable :: "room \<Rightarrow> bool" where
  "readable r \<longleftrightarrow>
     (\<forall>i < sock_count r. so_stored (sock r i) = JUndefined \<or> readTaggedAttachment r i \<noteq> None)"

definition linked :: "string \<Rightarrow> ticket_state \<Rightarrow> client_attachment \<Rightarrow> bool" where
  "linked cid t c \<longleftrightarrow>
     (tk_clientConnectionId t = connectionId c \<longrightarrow>
      stage c \<noteq> AwaitingCandidate \<and>
      (tk_stage t = TicketActive \<and> stage c = CandidateExchange \<and> cid = controlId c \<longrightarrow>
       serverCandidates c \<le> tk_serverCandidates t))"

definition all_linked :: "room \<Rightarrow> bool" where
  "all_linked r \<longleftrightarrow>
     (\<forall>i s j c. readAttachment r i = Some (ServerA s) \<longrightarrow> readAttachment r j = Some (ClientA c) \<longrightarrow>
        (\<forall>t \<in> set (sv_tickets s). linked (sv_controlId s) t c))"

definition distinct_connections :: "room \<Rightarrow> bool" where
  "distinct_connections r \<longleftrightarrow>
     (\<forall>i j c d. readAttachment r i = Some (ClientA c) \<longrightarrow> readAttachment r j = Some (ClientA d) \<longrightarrow>
        connectionId c = connectionId d \<longrightarrow> i = j)"

definition distinct_controls :: "room \<Rightarrow> bool" where
  "distinct_controls r \<longleftrightarrow>
     (\<forall>i j s u. readAttachment r i = Some (ServerA s) \<longrightarrow> readAttachment r j = Some (ServerA u) \<longrightarrow>
        sv_controlId s = sv_controlId u \<longrightarrow> i = j)"

definition room_inv :: "room \<Rightarrow> bool" where
  "room_inv r \<longleftrightarrow> readable r \<and> all_linked r \<and> distinct_connections r \<and> distinct_controls r"

lemma linked_torn: "linked cid t c \<Longrightarrow> ticket_torn t t' \<Longrightarrow> client_torn c c' \<Longrightarrow> linked cid t' c'"
  by (auto simp: linked_def ticket_torn_def client_torn_def)

lemma tears_client_back:
  "tears r r' \<Longrightarrow> readAttachment r' j = Some (ClientA c') \<Longrightarrow>
   \<exists>c. readAttachment r j = Some (ClientA c) \<and> client_torn c c'"
  using tears_att[of r r' j]
  by (cases "(readAttachment r j, readAttachment r' j)" rule: att_torn.cases) auto

lemma tears_server_back:
  "tears r r' \<Longrightarrow> readAttachment r' j = Some (ServerA s') \<Longrightarrow>
   \<exists>s. readAttachment r j = Some (ServerA s) \<and> server_torn s s'"
  using tears_att[of r r' j]
  by (cases "(readAttachment r j, readAttachment r' j)" rule: att_torn.cases) auto

lemma tears_readTagged:
  assumes "tears r r'" "readTaggedAttachment r i \<noteq> None"
  shows "readTaggedAttachment r' i \<noteq> None"
proof -
  obtain a where a: "readAttachment r i = Some a" "attachment_role a = so_role (sock r i)"
    using assms(2) readTagged_Some by fastforce
  moreover have "so_role (sock r' i) = so_role (sock r i)" using assms(1) by (simp add: tears_def)
  ultimately show ?thesis
    using tears_att[OF assms(1), of i] readTagged_Some[of r' i] by (cases a) auto
qed

lemma read_undefined: "so_stored (sock r i) = JUndefined \<Longrightarrow> readAttachment r i = None"
  by (simp add: readAttachment_def decodeRendezvousAttachment_def)

lemma room_inv_tears:
  assumes "room_inv r" "tears r r'" shows "room_inv r'"
proof -
  have "so_stored (sock r' i) = JUndefined" if "so_stored (sock r i) = JUndefined" for i
    using assms(2) that by (simp add: tears_def read_undefined)
  then have "readable r'"
    using assms tears_readTagged[OF assms(2)] unfolding room_inv_def readable_def
    by (metis tears_def)
  moreover have "all_linked r'"
    unfolding all_linked_def
  proof (intro allI impI ballI)
    fix i s' j c' t'
    assume s': "readAttachment r' i = Some (ServerA s')"
      and c': "readAttachment r' j = Some (ClientA c')" and t': "t' \<in> set (sv_tickets s')"
    obtain s where s: "readAttachment r i = Some (ServerA s)" "server_torn s s'"
      using tears_server_back[OF assms(2) s'] by blast
    obtain c where c: "readAttachment r j = Some (ClientA c)" "client_torn c c'"
      using tears_client_back[OF assms(2) c'] by blast
    obtain t where t: "t \<in> set (sv_tickets s)" "ticket_torn t t'"
      using s(2) t' by (auto simp: server_torn_def)
    have "linked (sv_controlId s) t c"
      using assms(1) s(1) c(1) t(1) by (auto simp: room_inv_def all_linked_def)
    moreover have "sv_controlId s' = sv_controlId s" using s(2) by (simp add: server_torn_def)
    ultimately show "linked (sv_controlId s') t' c'" using linked_torn[OF _ t(2) c(2)] by simp
  qed
  moreover have "distinct_connections r'"
    unfolding distinct_connections_def
  proof (intro allI impI)
    fix i j c d
    assume "readAttachment r' i = Some (ClientA c)" "readAttachment r' j = Some (ClientA d)"
      and eq: "connectionId c = connectionId d"
    then obtain c0 d0 where "readAttachment r i = Some (ClientA c0)" "client_torn c0 c"
      "readAttachment r j = Some (ClientA d0)" "client_torn d0 d"
      using tears_client_back[OF assms(2)] by metis
    then show "i = j"
      using assms(1) eq unfolding room_inv_def distinct_connections_def
      by (auto simp: client_torn_def)
  qed
  moreover have "distinct_controls r'"
    unfolding distinct_controls_def
  proof (intro allI impI)
    fix i j s u
    assume "readAttachment r' i = Some (ServerA s)" "readAttachment r' j = Some (ServerA u)"
      and eq: "sv_controlId s = sv_controlId u"
    then obtain s0 u0 where "readAttachment r i = Some (ServerA s0)" "server_torn s0 s"
      "readAttachment r j = Some (ServerA u0)" "server_torn u0 u"
      using tears_server_back[OF assms(2)] by metis
    then show "i = j"
      using assms(1) eq unfolding room_inv_def distinct_controls_def
      by (auto simp: server_torn_def)
  qed
  ultimately show ?thesis by (simp add: room_inv_def)
qed

text \<open>Every teardown operation keeps the invariant.\<close>

lemmas teardown_inv =
  room_inv_tears[OF _ tears_closeAllClients[OF tears_refl]]
  room_inv_tears[OF _ tears_failServer_read[OF tears_refl]]
  room_inv_tears[OF _ tears_failClient_read[OF tears_refl]]
  room_inv_tears[OF _ tears_retryPending[OF tears_refl]]
  room_inv_tears[OF _ tears_reconcile[OF tears_refl]]
  room_inv_tears[OF _ tears_expireClients[OF tears_refl]]
  room_inv_tears[OF _ tears_pruneServerTickets[OF tears_refl]]
  room_inv_tears[OF _ tears_failTagged[OF tears_refl]]

subsection \<open>First outcome, one metric\<close>

definition metrics_of :: "room \<Rightarrow> nat \<Rightarrow> nat" where
  "metrics_of r i = length (filter (\<lambda>m. fst m = i) (metric_log r))"

definition settles_at :: "room \<Rightarrow> room \<Rightarrow> nat \<Rightarrow> bool" where
  "settles_at r r' i \<longleftrightarrow>
     (case readClientAttachment r i of
        None \<Rightarrow> readClientAttachment r' i = None \<and> metrics_of r' i = metrics_of r i
      | Some a \<Rightarrow>
          (\<exists>a'. readClientAttachment r' i = Some a' \<and>
             (summaryEmitted a \<longrightarrow> summaryEmitted a') \<and>
             (stage a = Terminal \<longrightarrow> stage a' = Terminal \<and> terminalOutcome a' = terminalOutcome a) \<and>
             (metrics_of r' i = metrics_of r i \<or>
              metrics_of r' i = Suc (metrics_of r i) \<and> \<not> summaryEmitted a \<and>
              summaryEmitted a' \<and> stage a' = Terminal)))"

definition settles :: "room \<Rightarrow> room \<Rightarrow> bool" where
  "settles r r' \<longleftrightarrow> (\<forall>i. settles_at r r' i)"

lemma settles_refl [simp]: "settles r r"
  by (auto simp: settles_def settles_at_def split: option.splits)

lemma settles_trans:
  assumes "settles r s" "settles s t" shows "settles r t"
  unfolding settles_def
proof
  fix i
  have 1: "settles_at r s i" and 2: "settles_at s t i" using assms by (auto simp: settles_def)
  show "settles_at r t i"
  proof (cases "readClientAttachment r i")
    case None
    with 1 2 show ?thesis by (simp add: settles_at_def)
  next
    case (Some a)
    then obtain b where b: "readClientAttachment s i = Some b"
      using 1 by (auto simp: settles_at_def)
    then obtain c where "readClientAttachment t i = Some c"
      using 2 by (auto simp: settles_at_def)
    with 1 2 Some b show ?thesis by (auto simp: settles_at_def)
  qed
qed

lemma settles_cong:
  assumes "\<And>j. readClientAttachment r' j = readClientAttachment r j"
    and "\<And>j. metrics_of r' j = metrics_of r j"
  shows "settles r0 r' \<longleftrightarrow> settles r0 r"
proof -
  have eqs: "readClientAttachment r' = readClientAttachment r" "metrics_of r' = metrics_of r"
    using assms by auto
  show ?thesis unfolding settles_def settles_at_def eqs ..
qed

lemma settles_frame:
  assumes "sock r' = sock r" "metric_log r' = metric_log r"
  shows "settles r0 r' \<longleftrightarrow> settles r0 r"
  by (rule settles_cong) (simp_all add: read_frame[OF assms(1)] metrics_of_def assms(2))

lemma settles_setPendingServer [simp]: "settles r0 (setPendingServer i x r) = settles r0 r"
  by (rule settles_frame) (simp_all add: setPendingServer_def)
lemma settles_rememberInactive [simp]: "settles r0 (rememberInactive c r) = settles r0 r"
  by (rule settles_frame) (simp_all add: rememberInactive_def)
lemma settles_forgetInactive [simp]: "settles r0 (forgetInactive c r) = settles r0 r"
  by (rule settles_frame) (simp_all add: forgetInactive_def)
lemma settles_pendingClients [simp]: "settles r0 (r\<lparr>pendingClientOutcomes := f\<rparr>) = settles r0 r"
  by (rule settles_frame) simp_all

lemma metric_log_write [simp]: "metric_log (snd (tryWriteAttachment i a r)) = metric_log r"
  by (simp add: tryWriteAttachment_def platform_call_def)

lemma metrics_of_write [simp]: "metrics_of (snd (tryWriteAttachment i a r)) j = metrics_of r j"
  by (simp add: metrics_of_def)

lemma settles_close: "settles r0 r \<Longrightarrow> settles r0 (snd (closeSocket i c r))"
proof -
  have "metric_log (snd (closeSocket i c r)) = metric_log r"
    by (auto simp: closeSocket_def platform_call_def)
  then have "settles r0 (snd (closeSocket i c r)) \<longleftrightarrow> settles r0 r"
    by (intro settles_cong) (simp_all add: metrics_of_def readClientAttachment_def closeSocket_read)
  then show "settles r0 r \<Longrightarrow> settles r0 (snd (closeSocket i c r))" by simp
qed

lemma tryWrite_other:
  "j \<noteq> i \<Longrightarrow> readAttachment (snd (tryWriteAttachment i a r)) j = readAttachment r j"
  by (simp add: tryWriteAttachment_def platform_call_def readAttachment_def)

lemma tryWrite_failed:
  "\<not> fst (tryWriteAttachment i a r) \<Longrightarrow> readAttachment (snd (tryWriteAttachment i a r)) = readAttachment r"
  by (auto simp: tryWriteAttachment_def platform_call_def readAttachment_def fun_eq_iff split: if_splits)

text \<open>Writing a server attachment where a server attachment is stored.\<close>

lemma settles_writeServer:
  assumes "settles r0 r" "readClientAttachment r i = None" "server_wf s"
  shows "settles r0 (snd (tryWriteAttachment i (ServerA s) r))"
proof -
  have "readClientAttachment (snd (tryWriteAttachment i (ServerA s) r)) j = readClientAttachment r j" for j
    using assms(2,3) by (auto simp: readClientAttachment_def tryWrite_read split: if_splits)
  then have "settles r0 (snd (tryWriteAttachment i (ServerA s) r)) \<longleftrightarrow> settles r0 r"
    by (intro settles_cong) simp_all
  with assms(1) show ?thesis by simp
qed

lemma settles_none: "settles r0 r \<Longrightarrow> readClientAttachment r0 i = None \<Longrightarrow> readClientAttachment r i = None"
proof -
  assume "settles r0 r" "readClientAttachment r0 i = None"
  then have "settles_at r0 r i" by (simp add: settles_def)
  with \<open>readClientAttachment r0 i = None\<close> show ?thesis by (simp add: settles_at_def)
qed

lemma readServer_not_client: "readServerAttachment r i = Some s \<Longrightarrow> readClientAttachment r i = None"
  by (auto simp: readServer_iff readClientAttachment_def)

text \<open>Writing a client attachment that is the stored one, scrubbed or marked.\<close>

lemma settles_writeClient:
  assumes "readClientAttachment r i = Some a" "client_wf a'"
    "summaryEmitted a \<longrightarrow> summaryEmitted a'"
    "stage a = Terminal \<longrightarrow> stage a' = Terminal \<and> terminalOutcome a' = terminalOutcome a"
  shows "settles r (snd (tryWriteAttachment i (ClientA a') r))"
  unfolding settles_def
proof
  fix j
  show "settles_at r (snd (tryWriteAttachment i (ClientA a') r)) j"
    using assms
    by (cases "j = i") (auto simp: settles_at_def readClientAttachment_def tryWrite_read
        split: option.splits attachment.splits)
qed

lemma server_torn_mark_wf: "server_wf s \<Longrightarrow>
   server_wf (s\<lparr>sv_tickets := update_first P (\<lambda>t. t\<lparr>tk_stage := TicketTerminal\<rparr>) (sv_tickets s)\<rparr>)"
  using server_torn_mark server_torn_wf by blast

text \<open>Marking tickets writes only where a server attachment is stored.\<close>

lemma markTicketOn_client:
  "readClientAttachment (markTicketOn c d j r) i = readClientAttachment r i"
  "metrics_of (markTicketOn c d j r) i = metrics_of r i"
proof -
  have "readClientAttachment (snd (tryWriteAttachment j (ServerA s') r)) i = readClientAttachment r i"
    if "readServerAttachment r j = Some s" "server_wf s'" for s s'
    using that by (auto simp: readClientAttachment_def readServer_iff tryWrite_read)
  then show "readClientAttachment (markTicketOn c d j r) i = readClientAttachment r i"
    using server_torn_mark_wf readServer_wf by (auto simp: markTicketOn_def split: option.split)
  show "metrics_of (markTicketOn c d j r) i = metrics_of r i"
    by (auto simp: markTicketOn_def split: option.split)
qed

lemma markTicketTerminal_client [simp]:
  "readClientAttachment (markTicketTerminal c r) i = readClientAttachment r i"
  "metrics_of (markTicketTerminal c r) i = metrics_of r i"
proof -
  have "readClientAttachment (fold (markTicketOn c d) is r) i = readClientAttachment r i \<and>
      metrics_of (fold (markTicketOn c d) is r) i = metrics_of r i" for d "is"
    by (induction "is" arbitrary: r) (simp_all add: markTicketOn_client)
  then show "readClientAttachment (markTicketTerminal c r) i = readClientAttachment r i"
    "metrics_of (markTicketTerminal c r) i = metrics_of r i"
    by (simp_all add: markTicketTerminal_def split: option.split)
qed

lemma settles_markTicketTerminal [simp]: "settles r0 (markTicketTerminal c r) = settles r0 r"
  by (rule settles_cong) simp_all

lemma read_tryWriteClient:
  "client_wf a \<Longrightarrow> readClientAttachment (snd (tryWriteAttachment i (ClientA a) r)) j =
     (if fst (tryWriteAttachment i (ClientA a) r) \<and> j = i then Some a else readClientAttachment r j)"
  by (simp add: readClientAttachment_def tryWrite_read)

text \<open>The metric: only with the marker stored, and only for an unmarked client.\<close>

lemma settles_emit:
  assumes "readClientAttachment r i = Some b" "stage b = Terminal \<longrightarrow> a = b"
    "summaryEmitted b \<longrightarrow> summaryEmitted a" "client_wf a" "stage a = Terminal"
  shows "settles r (snd (emitTerminalMetric now i a out r))"
proof (cases "summaryEmitted a \<or> connectionId a \<in> set (finalizedConnections r)
    \<or> \<not> fst (tryWriteAttachment i (ClientA (a\<lparr>summaryEmitted := True\<rparr>)) r)")
  case True
  have "settles r (snd (tryWriteAttachment i (ClientA (a\<lparr>summaryEmitted := True\<rparr>)) r))"
    using assms by (intro settles_writeClient[of _ _ b]) (auto simp: client_wf_summary)
  with True show ?thesis
    by (auto simp: emitTerminalMetric_def case_prod_unfold Let_def)
next
  case False
  define a' where "a' = a\<lparr>summaryEmitted := True\<rparr>"
  define w where "w = snd (tryWriteAttachment i (ClientA a') r)"
  define r' where "r' = snd (emitTerminalMetric now i a out r)"
  have r': "sock r' = sock w" "metric_log r' = metric_log r @ [(i, terminal_metric now a out)]"
    using False by (auto simp: r'_def w_def a'_def emitTerminalMetric_def case_prod_unfold Let_def)
  have wf: "attachment_wf (ClientA a')" using assms(4) by (simp add: a'_def client_wf_summary)
  have rd: "readClientAttachment r' j = (if j = i then Some a' else readClientAttachment r j)" for j
    using tryWrite_read[OF wf] False
    by (simp add: read_frame[OF r'(1)] w_def readClientAttachment_def a'_def)
  have mt: "metrics_of r' j = (if j = i then Suc (metrics_of r j) else metrics_of r j)" for j
    by (simp add: metrics_of_def r'(2))
  have "settles_at r r' j" for j
    using assms False
    by (cases "j = i") (auto simp: settles_at_def rd mt a'_def split: option.splits)
  then show ?thesis by (simp add: settles_def r'_def)
qed

subsection \<open>The steps of failing a client\<close>

definition canonical_outcome :: "room \<Rightarrow> nat \<Rightarrow> client_attachment \<Rightarrow> outcome \<Rightarrow> outcome" where
  "canonical_outcome r i a out =
     (case terminalOutcome a of
        Some x \<Rightarrow> x
      | None \<Rightarrow> (case pendingClientOutcomes r i of Some x \<Rightarrow> x | None \<Rightarrow> out))"

lemma terminal_outcome_iff: "client_wf a \<Longrightarrow> stage a = Terminal \<longleftrightarrow> terminalOutcome a \<noteq> None"
  by (cases "stage a") (auto simp: client_wf_def stage_wf_def)

lemma terminal_form_props:
  assumes "client_wf a"
  shows "client_wf (terminal_form a out)" "stage (terminal_form a out) = Terminal"
    "summaryEmitted (terminal_form a out) = summaryEmitted a"
    "connectionId (terminal_form a out) = connectionId a"
    "stage a = Terminal \<Longrightarrow> terminal_form a out = a"
  using assms by (auto simp: terminal_form_def client_wf_scrub)

lemma terminal_form_outcome:
  "client_wf a \<Longrightarrow> terminalOutcome (terminal_form a (canonical_outcome r i a out)) =
     Some (canonical_outcome r i a out)"
  using terminal_outcome_iff[of a]
  by (auto simp: terminal_form_def canonical_outcome_def split: option.splits)

lemma mark_memory:
  "finalizedConnections (markTicketTerminal c r) = finalizedConnections r"
  "pendingClientOutcomes (markTicketTerminal c r) = pendingClientOutcomes r"
proof -
  have on: "finalizedConnections (markTicketOn c d j r) = finalizedConnections r \<and>
      pendingClientOutcomes (markTicketOn c d j r) = pendingClientOutcomes r" for d j r
    by (auto simp: markTicketOn_def tryWriteAttachment_def platform_call_def split: option.split)
  have "finalizedConnections (fold (markTicketOn c d) is r) = finalizedConnections r \<and>
      pendingClientOutcomes (fold (markTicketOn c d) is r) = pendingClientOutcomes r" for d "is"
    by (induction "is" arbitrary: r) (simp_all add: on)
  then show "finalizedConnections (markTicketTerminal c r) = finalizedConnections r"
    "pendingClientOutcomes (markTicketTerminal c r) = pendingClientOutcomes r"
    by (simp_all add: markTicketTerminal_def split: option.split)
qed

lemma failClient_steps:
  assumes "client_wf a"
  obtains r2 w e c where
    "\<And>j. readClientAttachment r2 j = readClientAttachment r j"
    "\<And>j. metrics_of r2 j = metrics_of r j"
    "finalizedConnections r2 = finalizedConnections r"
    "pendingClientOutcomes r2 i = Some (canonical_outcome r i a out)"
    "w = (if stage a = Terminal \<and> pendingClientOutcomes r i = None then (True, r2)
          else tryWriteAttachment i (ClientA (terminal_form a (canonical_outcome r i a out))) r2)"
    "e = emitTerminalMetric now i (terminal_form a (canonical_outcome r i a out))
           (canonical_outcome r i a out) (snd w)"
    "c = closeSocket i (if pendingClientOutcomes r i = None then cl
             else rendezvousCloseForOutcome (canonical_outcome r i a out))
           (if fst w \<or> fst e
            then (snd e)\<lparr>pendingClientOutcomes := (pendingClientOutcomes (snd e))(i := None)\<rparr>
            else snd e)"
    "failClient now i a out cl r = (fst w \<or> fst e \<or> fst c, snd c)"
proof -
  define out' where "out' = canonical_outcome r i a out"
  define r1 where "r1 = r\<lparr>pendingClientOutcomes := (pendingClientOutcomes r)(i := Some out')\<rparr>"
  define r2 where "r2 = snd (transitionClientTerminal a out' r1)"
  have form: "fst (transitionClientTerminal a out' r1) = terminal_form a out'"
    by (simp add: transitionClientTerminal_def terminal_form_def)
  define w where "w = (if stage a = Terminal \<and> pendingClientOutcomes r i = None then (True, r2)
          else tryWriteAttachment i (ClientA (terminal_form a out')) r2)"
  define e where "e = emitTerminalMetric now i (terminal_form a out') out' (snd w)"
  have mt: "metrics_of r1 j = metrics_of r j" for j by (simp add: r1_def metrics_of_def)
  have outcome: "terminalOutcome (terminal_form a out') = Some out'"
    using terminal_form_outcome[OF assms] by (simp add: out'_def)
  have eq: "failClient now i a out cl r = (let c = closeSocket i (if pendingClientOutcomes r i = None then cl
             else rendezvousCloseForOutcome out')
           (if fst w \<or> fst e
            then (snd e)\<lparr>pendingClientOutcomes := (pendingClientOutcomes (snd e))(i := None)\<rparr>
            else snd e) in (fst w \<or> fst e \<or> fst c, snd c))"
    unfolding failClient_def Let_def case_prod_unfold
    unfolding canonical_outcome_def[symmetric] out'_def[symmetric] r1_def[symmetric] form
      r2_def[symmetric] w_def[symmetric] outcome option.case e_def[symmetric]
    by simp
  show ?thesis
  proof (rule that[of r2 w e])
    show "readClientAttachment r2 j = readClientAttachment r j" for j
      by (simp add: r2_def r1_def transitionClientTerminal_def)
    show "metrics_of r2 j = metrics_of r j" for j
      by (simp add: r2_def transitionClientTerminal_def mt)
    show "finalizedConnections r2 = finalizedConnections r"
      "pendingClientOutcomes r2 i = Some (canonical_outcome r i a out)"
      by (simp_all add: r2_def r1_def transitionClientTerminal_def mark_memory out'_def)
  qed (simp_all add: w_def e_def eq out'_def[symmetric] Let_def)
qed

lemma settles_failClient:
  assumes "settles r0 r" "readClientAttachment r i = Some a"
  shows "settles r0 (snd (failClient now i a out cl r))"
proof -
  have wf: "client_wf a" by (rule readClient_wf[OF assms(2)])
  define a' where "a' = terminal_form a (canonical_outcome r i a out)"
  note form = terminal_form_props[OF wf, of "canonical_outcome r i a out", folded a'_def]
  obtain r2 w e c where
    rd: "\<And>j. readClientAttachment r2 j = readClientAttachment r j" and
    mt: "\<And>j. metrics_of r2 j = metrics_of r j" and
    "finalizedConnections r2 = finalizedConnections r" and
    "pendingClientOutcomes r2 i = Some (canonical_outcome r i a out)" and
    w: "w = (if stage a = Terminal \<and> pendingClientOutcomes r i = None then (True, r2)
          else tryWriteAttachment i (ClientA a') r2)" and
    e: "e = emitTerminalMetric now i a' (canonical_outcome r i a out) (snd w)" and
    c: "c = closeSocket i (if pendingClientOutcomes r i = None then cl
             else rendezvousCloseForOutcome (canonical_outcome r i a out))
           (if fst w \<or> fst e
            then (snd e)\<lparr>pendingClientOutcomes := (pendingClientOutcomes (snd e))(i := None)\<rparr>
            else snd e)" and
    res: "failClient now i a out cl r = (fst w \<or> fst e \<or> fst c, snd c)"
    by (rule failClient_steps[OF wf, of r i out now cl, folded a'_def]) (rule that)
  have s2: "settles r0 r2" using settles_cong[OF rd mt] assms(1) by simp
  have rd2: "readClientAttachment r2 i = Some a" using rd assms(2) by simp
  have sw: "settles r2 (snd w)"
    using settles_writeClient[OF rd2 form(1)] form by (auto simp: w)
  have "readClientAttachment (snd w) i = Some a \<or> readClientAttachment (snd w) i = Some a'"
    using rd2 by (simp add: w read_tryWriteClient[OF form(1)])
  then obtain b where b: "readClientAttachment (snd w) i = Some b" "b = a \<or> b = a'"
    by blast
  have "settles (snd w) (snd e)"
    unfolding e by (rule settles_emit[OF b(1)]) (use b(2) form in auto)
  then have "settles r0 (snd e)"
    using settles_trans[OF s2 settles_trans[OF sw]] by blast
  then show ?thesis
    unfolding res c snd_conv by (intro settles_close) simp
qed

subsection \<open>Every teardown operation settles\<close>

lemma settles_for_each:
  assumes "\<And>i r. settles r0 r \<Longrightarrow> settles r0 (snd (f i r))" "settles r0 r"
  shows "settles r0 (snd (for_each f is r))"
  using assms(2)
  by (induction "is" arbitrary: r) (simp_all add: case_prod_unfold Let_def assms(1))

lemma settles_closeAllClients: "settles r0 r \<Longrightarrow> settles r0 (snd (closeAllClients now out cl r))"
  unfolding closeAllClients_def
  by (rule settles_for_each)
    (auto simp: closeClientStep_def settles_close settles_failClient split: option.split)

lemma settles_failServer:
  assumes "settles r0 r" "readClientAttachment r0 i = None" "server_wf s"
  shows "settles r0 (snd (failServer now i s out cl r))"
proof -
  define r2 where "r2 = (if sv_current s
    then rememberInactive (sv_controlId s) (setPendingServer i (Some (case pendingServerOutcomes r i of
        Some x \<Rightarrow> x | None \<Rightarrow> out)) r)
    else setPendingServer i (Some (case pendingServerOutcomes r i of
        Some x \<Rightarrow> x | None \<Rightarrow> out)) r)"
  define w where "w = (if \<not> sv_current s \<and> pendingServerOutcomes r i = None then (True, r2)
    else tryWriteAttachment i (ServerA (s\<lparr>sv_current := False\<rparr>)) r2)"
  have r2: "settles r0 r2" using assms(1) by (simp add: r2_def)
  have w: "settles r0 (snd w)"
    using r2 settles_writeServer[OF r2 settles_none[OF r2 assms(2)]] assms(3)
    by (simp add: w_def server_wf_current)
  show ?thesis
    unfolding failServer_def Let_def case_prod_unfold
    unfolding r2_def[symmetric] w_def[symmetric]
    using w by (simp add: settles_close settles_closeAllClients)
qed

lemma settles_failServer_read:
  assumes "settles r0 r" "readServerAttachment r i = Some s"
  shows "settles r0 (snd (failServer now i s out cl r))"
  using settles_trans[OF assms(1)] settles_failServer[OF settles_refl readServer_not_client[OF assms(2)]]
    readServer_wf[OF assms(2)] by blast

lemma settles_retryPending: "settles r0 r \<Longrightarrow> settles r0 (snd (retryPendingServerTeardowns now r))"
  unfolding retryPendingServerTeardowns_def
  by (rule settles_for_each)
    (auto simp: retryServerStep_def Let_def case_prod_unfold settles_close settles_failServer_read
      split: option.splits)

definition server_slot :: "room \<Rightarrow> active_server \<Rightarrow> bool" where
  "server_slot r0 x \<longleftrightarrow> readClientAttachment r0 (fst x) = None \<and> server_wf (snd x)"

lemma settles_retire:
  assumes "settles r0 r" "server_slot r0 x"
  shows "settles r0 (snd (retireServerImmediately x cl r))"
proof -
  have w: "settles r0 (snd (tryWriteAttachment (fst x) (ServerA ((snd x)\<lparr>sv_current := False\<rparr>)) r))"
    using assms settles_none[OF assms(1)]
    by (intro settles_writeServer) (auto simp: server_slot_def server_wf_current)
  then have "settles r0 (snd (prepareServerRetirement x cl r))"
    by (cases x) (auto simp: prepareServerRetirement_def Let_def case_prod_unfold intro!: settles_close)
  then show ?thesis
    by (cases "prepareServerRetirement x cl r")
      (auto simp: retireServerImmediately_def finishServerRetirement_def settles_close split: option.split)
qed

lemma settles_retireDuplicates:
  "settles r0 r \<Longrightarrow> \<forall>x \<in> set xs. server_slot r0 x \<Longrightarrow> settles r0 (snd (retireDuplicates xs r))"
  by (induction xs arbitrary: r) (simp_all add: Let_def case_prod_unfold settles_retire)

lemma settles_chooseWinner:
  "settles r0 r \<Longrightarrow> server_slot r0 w \<Longrightarrow> \<forall>x \<in> set xs. server_slot r0 x \<Longrightarrow>
   settles r0 (snd (chooseWinner now w xs r))"
  by (induction xs arbitrary: w r)
    (simp_all add: Let_def case_prod_unfold settles_retire settles_closeAllClients)

lemma server_slot_current: "x \<in> set (currentOpenServers ign r) \<Longrightarrow> server_slot r x"
  using readServer_not_client readServer_wf by (auto simp: currentOpenServers_iff server_slot_def)

lemma settles_reconcile:
  assumes "settles r0 r" shows "settles r0 (snd (reconcileActiveServer now ign r))"
proof -
  define r1 where "r1 = snd (retryPendingServerTeardowns now r)"
  define xs where "xs = currentOpenServers ign r1"
  have r1: "settles r0 r1" using assms by (simp add: r1_def settles_retryPending)
  have slots: "\<forall>x \<in> set xs. server_slot r1 x" using server_slot_current by (auto simp: xs_def)
  have dup: "settles r1 (snd (reconcileDuplicates now xs r1))"
    using slots by (simp add: reconcileDuplicates_def Let_def case_prod_unfold
        settles_retireDuplicates settles_closeAllClients)
  have rep: "settles r1 (snd (reconcileReplacement now xs r1))"
  proof (cases "js_sort compareActiveServersNewestFirst xs")
    case (Cons w older)
    then have "\<forall>x \<in> set (w # older). server_slot r1 x" using slots by (metis set_js_sort)
    then have "settles r1 (snd (chooseWinner now w older r1))"
      using settles_chooseWinner[OF settles_refl] by simp
    then show ?thesis
      by (cases "chooseWinner now w older r1")
        (simp add: reconcileReplacement_def Cons case_prod_unfold Let_def settles_closeAllClients
          split: sum.splits)
  qed (simp add: reconcileReplacement_def)
  show ?thesis
    using r1 settles_trans[OF r1 dup] settles_trans[OF r1 rep]
    by (simp add: reconcileActiveServer_def Let_def case_prod_unfold r1_def[symmetric] xs_def[symmetric])
qed

lemma settles_expireClients: "settles r0 r \<Longrightarrow> settles r0 (snd (expireClients now r))"
proof -
  have step: "settles r0 (snd (expireClientStep now i r))" if "settles r0 r" for i r
  proof (cases "readClientAttachment r i")
    case (Some a)
    have "settles r0 (snd (tryWriteAttachment i
        (ClientA (a\<lparr>terminalCloseAttempts := terminalCloseAttempts a + 1\<rparr>)) r))"
      if "stage a = Terminal" "terminalCloseAttemptAt a = Some t" for t
      using settles_writeClient[OF Some client_torn_attempt(2)[OF readClient_wf[OF Some] that]]
      by (intro settles_trans[OF \<open>settles r0 r\<close>]) simp
    then show ?thesis
      using that settles_failClient[OF that Some]
      by (auto simp: expireClientStep_def Some Let_def case_prod_unfold intro: settles_close
          split: option.split)
  qed (simp add: expireClientStep_def settles_close that)
  assume "settles r0 r"
  with step show ?thesis unfolding expireClients_def by (rule settles_for_each)
qed

lemma settles_pruneServers_loop:
  "settles r0 r \<Longrightarrow> settles r0 (snd (pruneServers_loop now act inval failed is r))"
proof (induction "is" arbitrary: inval failed r)
  case (Cons i "is")
  show ?case
  proof (cases "readServerAttachment r i")
    case None
    then show ?thesis
      using Cons by (simp add: Let_def case_prod_unfold settles_close settles_closeAllClients)
  next
    case (Some s)
    obtain b s' where p: "pruneTicketList s now = (b, s')" by fastforce
    have "settles r0 (snd (writeAttachment i (ServerA s') r))"
      using settles_writeServer[OF Cons.prems readServer_not_client[OF Some]]
        server_torn_wf[OF conjunct1[OF prune_torn[OF readServer_wf[OF Some] p]]]
      by (simp add: writeAttachment_def case_prod_unfold Let_def)
    then show ?thesis
      using Cons Some p by (auto split: bool.split prod.split sum.split)
  qed
qed simp

lemma settles_pruneServerTickets: "settles r0 r \<Longrightarrow> settles r0 (snd (pruneServerTickets now r))"
  using settles_reconcile[of r0 r now None]
  by (auto simp: pruneServerTickets_def settles_pruneServers_loop split: prod.split sum.split)

lemma settles_failTagged:
  assumes "settles r0 r" shows "settles r0 (snd (failTagged now i out cl r))"
proof (cases "readTaggedAttachment r i")
  case None
  with assms show ?thesis
    by (simp add: failTagged_def Let_def case_prod_unfold settles_close settles_closeAllClients)
next
  case (Some a)
  then have rd: "readAttachment r i = Some a" by (simp add: readTagged_Some)
  show ?thesis
  proof (cases a)
    case (ClientA c)
    then show ?thesis
      using Some rd settles_failClient[OF assms, of i c] by (simp add: failTagged_def readClient_iff)
  next
    case (ServerA s)
    then show ?thesis
      using Some rd settles_failServer_read[OF assms, of i s]
      by (simp add: failTagged_def readServer_iff)
  qed
qed

lemmas teardown_settles =
  settles_closeAllClients[OF settles_refl] settles_failServer_read[OF settles_refl]
  settles_failClient[OF settles_refl] settles_retryPending[OF settles_refl]
  settles_reconcile[OF settles_refl] settles_expireClients[OF settles_refl]
  settles_pruneServerTickets[OF settles_refl] settles_failTagged[OF settles_refl]

subsection \<open>What success of a teardown means\<close>

definition torn_down :: "room \<Rightarrow> nat \<Rightarrow> bool" where
  "torn_down r i \<longleftrightarrow>
     \<not> is_open r i \<or> (\<exists>a. readClientAttachment r i = Some a \<and> stage a = Terminal)"

lemma torn_down_mono: "torn_down r i \<Longrightarrow> tears r r' \<Longrightarrow> settles r r' \<Longrightarrow> torn_down r' i"
proof -
  assume t: "torn_down r i" "tears r r'" "settles r r'"
  from t(3) have "settles_at r r' i" by (simp add: settles_def)
  with t(1,2) show ?thesis by (auto simp: torn_down_def tears_def settles_at_def)
qed

lemma emit_fresh:
  assumes "\<not> summaryEmitted a" "connectionId a \<notin> set (finalizedConnections r)"
  shows "fst (emitTerminalMetric now i a out r) =
    fst (tryWriteAttachment i (ClientA (a\<lparr>summaryEmitted := True\<rparr>)) r)"
    and "readAttachment (snd (emitTerminalMetric now i a out r)) =
    readAttachment (snd (tryWriteAttachment i (ClientA (a\<lparr>summaryEmitted := True\<rparr>)) r))"
    and "is_open (snd (emitTerminalMetric now i a out r)) = is_open r"
    and "pendingClientOutcomes (snd (emitTerminalMetric now i a out r)) = pendingClientOutcomes r"
  using assms
  by (auto simp: emitTerminalMetric_def case_prod_unfold Let_def tryWriteAttachment_def
      platform_call_def is_open_def fun_eq_iff readAttachment_def)

lemma tryWrite_memory [simp]:
  "finalizedConnections (snd (tryWriteAttachment i a r)) = finalizedConnections r"
  "pendingClientOutcomes (snd (tryWriteAttachment i a r)) = pendingClientOutcomes r"
  by (simp_all add: tryWriteAttachment_def platform_call_def)

lemma closeSocket_memory [simp]:
  "pendingClientOutcomes (snd (closeSocket i c r)) = pendingClientOutcomes r"
  by (simp add: closeSocket_def platform_call_def)

lemma failClient_contract:
  assumes rd: "readClientAttachment r i = Some a" and fresh: "\<not> summaryEmitted a"
    "connectionId a \<notin> set (finalizedConnections r)"
    and res: "failClient now i a out cl r = (ok, r')"
  shows "(ok \<longrightarrow> \<not> is_open r' i \<or> (\<exists>a'. readClientAttachment r' i = Some a' \<and> stage a' = Terminal \<and>
                terminalOutcome a' = Some (canonical_outcome r i a out)))"
    and "(\<not> ok \<longrightarrow> is_open r' i \<and> readClientAttachment r' i = Some a \<and>
            pendingClientOutcomes r' i = Some (canonical_outcome r i a out))"
proof -
  have wf: "client_wf a" by (rule readClient_wf[OF rd])
  define a' where "a' = terminal_form a (canonical_outcome r i a out)"
  note form = terminal_form_props[OF wf, of "canonical_outcome r i a out", folded a'_def]
  have outcome: "terminalOutcome a' = Some (canonical_outcome r i a out)"
    using terminal_form_outcome[OF wf, of r i out] by (simp add: a'_def)
  obtain r2 w e c where
    rd2: "\<And>j. readClientAttachment r2 j = readClientAttachment r j" and
    "\<And>j. metrics_of r2 j = metrics_of r j" and
    fin: "finalizedConnections r2 = finalizedConnections r" and
    pend: "pendingClientOutcomes r2 i = Some (canonical_outcome r i a out)" and
    w: "w = (if stage a = Terminal \<and> pendingClientOutcomes r i = None then (True, r2)
          else tryWriteAttachment i (ClientA a') r2)" and
    e: "e = emitTerminalMetric now i a' (canonical_outcome r i a out) (snd w)" and
    c: "c = closeSocket i (if pendingClientOutcomes r i = None then cl
             else rendezvousCloseForOutcome (canonical_outcome r i a out))
           (if fst w \<or> fst e
            then (snd e)\<lparr>pendingClientOutcomes := (pendingClientOutcomes (snd e))(i := None)\<rparr>
            else snd e)" and
    res': "failClient now i a out cl r = (fst w \<or> fst e \<or> fst c, snd c)"
    by (rule failClient_steps[OF wf, of r i out now cl, folded a'_def]) (rule that)
  have ok: "ok \<longleftrightarrow> fst w \<or> fst e \<or> fst c" and r': "r' = snd c" using res res' by auto
  have e': "\<not> summaryEmitted a'" "connectionId a' \<notin> set (finalizedConnections (snd w))"
    using fresh form fin by (auto simp: w)
  have wfe: "client_wf (a'\<lparr>summaryEmitted := True\<rparr>)" using form(1) by (simp add: client_wf_summary)
  have rdw: "readClientAttachment (snd w) i = (if fst w then Some a' else Some a)"
    using rd2[of i] rd form(5) by (auto simp: w read_tryWriteClient[OF form(1)])
  have rde: "readClientAttachment (snd e) i =
      (if fst e then Some (a'\<lparr>summaryEmitted := True\<rparr>) else readClientAttachment (snd w) i)"
    using emit_fresh[OF e'] read_tryWriteClient[OF wfe, of i "snd w" i]
    by (simp add: e readClientAttachment_def)
  have rdc: "readClientAttachment r' i = readClientAttachment (snd e) i"
    by (simp add: r' c readClientAttachment_def closeSocket_read)
  show "ok \<longrightarrow> \<not> is_open r' i \<or> (\<exists>a'. readClientAttachment r' i = Some a' \<and> stage a' = Terminal \<and>
                terminalOutcome a' = Some (canonical_outcome r i a out))"
  proof
    assume ok
    with ok consider "fst c" | "fst w \<or> fst e" by blast
    then show "\<not> is_open r' i \<or> (\<exists>a'. readClientAttachment r' i = Some a' \<and> stage a' = Terminal \<and>
                terminalOutcome a' = Some (canonical_outcome r i a out))"
    proof cases
      case 1
      then show ?thesis by (simp add: r' c closeSocket_closed)
    next
      case 2
      then show ?thesis using rdc rde rdw form(2) outcome by auto
    qed
  qed
  show "\<not> ok \<longrightarrow> is_open r' i \<and> readClientAttachment r' i = Some a \<and>
            pendingClientOutcomes r' i = Some (canonical_outcome r i a out)"
  proof
    assume "\<not> ok"
    then have n: "\<not> fst w" "\<not> fst e" "\<not> fst c" using ok by auto
    have "pendingClientOutcomes (snd e) i = Some (canonical_outcome r i a out)"
      using emit_fresh(4)[OF e'] pend by (simp add: e w)
    then have "pendingClientOutcomes r' i = Some (canonical_outcome r i a out)"
      using n by (simp add: r' c)
    then show "is_open r' i \<and> readClientAttachment r' i = Some a \<and>
            pendingClientOutcomes r' i = Some (canonical_outcome r i a out)"
      using n rdc rde rdw by (auto simp: r' c closeSocket_closed)
  qed
qed

subsection \<open>One active server\<close>

definition retired :: "room \<Rightarrow> nat \<Rightarrow> bool" where
  "retired r i \<longleftrightarrow> \<not> is_open r i \<or> (\<forall>s. readServerAttachment r i = Some s \<longrightarrow> \<not> sv_current s)"

lemma retired_mono: "retired r i \<Longrightarrow> tears r r' \<Longrightarrow> retired r' i"
  unfolding retired_def
proof (elim disjE)
  assume t: "tears r r'"
  show "\<not> is_open r i \<Longrightarrow> \<not> is_open r' i \<or> (\<forall>s. readServerAttachment r' i = Some s \<longrightarrow> \<not> sv_current s)"
    using t by (auto simp: tears_def)
  assume n: "\<forall>s. readServerAttachment r i = Some s \<longrightarrow> \<not> sv_current s"
  have "\<not> sv_current s'" if s': "readServerAttachment r' i = Some s'" for s'
  proof -
    obtain s where "readAttachment r i = Some (ServerA s)" "server_torn s s'"
      using tears_server_back[OF t] s' by (auto simp: readServer_iff)
    with n show ?thesis by (auto simp: readServer_iff server_torn_def)
  qed
  then show "\<not> is_open r' i \<or> (\<forall>s. readServerAttachment r' i = Some s \<longrightarrow> \<not> sv_current s)" by blast
qed

lemma read_tryWriteServer:
  "server_wf s \<Longrightarrow> readServerAttachment (snd (tryWriteAttachment i (ServerA s) r)) j =
     (if fst (tryWriteAttachment i (ServerA s) r) \<and> j = i then Some s else readServerAttachment r j)"
  by (simp add: readServerAttachment_def tryWrite_read)

lemma is_open_write [simp]: "is_open (snd (tryWriteAttachment i a r)) = is_open r"
  by (auto simp: tryWriteAttachment_def platform_call_def is_open_def fun_eq_iff)

lemma retired_demote:
  assumes "server_wf s" "retired r j \<or> (j = i \<and> fst (tryWriteAttachment i (ServerA (s\<lparr>sv_current := False\<rparr>)) r))"
  shows "retired (snd (tryWriteAttachment i (ServerA (s\<lparr>sv_current := False\<rparr>)) r)) j"
  using assms by (auto simp: retired_def read_tryWriteServer server_wf_current)

lemma retired_close:
  assumes "retired r j \<or> (j = i \<and> fst (closeSocket i c r))"
  shows "retired (snd (closeSocket i c r)) j"
proof (cases "retired r j")
  case True
  then show ?thesis by (rule retired_mono[OF _ tears_close[OF tears_refl]])
next
  case False
  with assms have "j = i" "\<not> is_open (snd (closeSocket i c r)) i" using closeSocket_closed by auto
  then show ?thesis by (simp add: retired_def)
qed

lemma retired_frame [simp]:
  "retired (setPendingServer i x r) j = retired r j"
  "retired (rememberInactive c r) j = retired r j"
  "retired (forgetInactive c r) j = retired r j"
  by (simp_all add: retired_def)

text \<open>Retiring one control succeeds only when it is retired, and undoes no retirement.\<close>

lemma retire_retired:
  assumes "server_wf (snd x)"
    and "retired r j \<or> (j = fst x \<and> fst (retireServerImmediately x cl r))"
  shows "retired (snd (retireServerImmediately x cl r)) j"
proof -
  obtain i s where x: "x = (i, s)" by fastforce
  define w where "w = tryWriteAttachment i (ServerA (s\<lparr>sv_current := False\<rparr>)) r"
  show ?thesis
  proof (cases "fst w")
    case True
    then have "retired (snd w) j"
      using retired_demote[of s r j i] assms x by (auto simp: w_def)
    then show ?thesis
      using True by (auto simp: retireServerImmediately_def prepareServerRetirement_def x Let_def
          case_prod_unfold w_def finishServerRetirement_def intro!: retired_close)
  next
    case False
    define c where "c = closeSocket i cl (rememberInactive (sv_controlId s) (snd w))"
    have rt: "retireServerImmediately x cl r =
        (if fst c then (True, setPendingServer i None (snd c))
         else (False, forgetInactive (sv_controlId s) (snd c)))"
      using False by (auto simp: retireServerImmediately_def prepareServerRetirement_def x Let_def
          case_prod_unfold w_def c_def finishServerRetirement_def)
    have "retired (snd w) j" if "retired r j"
      using retired_demote[of s r j i] that assms(1) x by (simp add: w_def)
    then have "retired (snd c) j" if "retired r j \<or> (j = i \<and> fst c)"
      using that retired_close[of "rememberInactive (sv_controlId s) (snd w)" j i cl] by (auto simp: c_def)
    then show ?thesis using assms(2) unfolding rt by (cases "fst c") (auto simp: x)
  qed
qed

lemma retireDuplicates_retired:
  assumes "\<forall>x \<in> set xs. server_wf (snd x)"
    and "retired r j \<or> (fst (retireDuplicates xs r) \<and> j \<in> fst ` set xs)"
  shows "retired (snd (retireDuplicates xs r)) j"
  using assms
proof (induction xs arbitrary: r)
  case (Cons x xs)
  define r1 where "r1 = snd (retireServerImmediately x close_internalError r)"
  define r2 where "r2 = (if fst (retireServerImmediately x close_internalError r) then r1
    else setPendingServer (fst x) (Some InternalError) r1)"
  have step: "retired r2 j" if "retired r j \<or> (j = fst x \<and> fst (retireServerImmediately x close_internalError r))"
    using retire_retired[OF _ that] Cons.prems(1) by (simp add: r2_def r1_def)
  have eq: "retireDuplicates (x # xs) r =
      (fst (retireServerImmediately x close_internalError r) \<and> fst (retireDuplicates xs r2),
       snd (retireDuplicates xs r2))"
    by (simp add: Let_def case_prod_unfold r2_def r1_def)
  show ?case
    using Cons.IH[of r2] Cons.prems step unfolding eq by auto
qed auto

lemma chooseWinner_retired:
  assumes "\<forall>x \<in> set (w # xs). server_wf (snd x)" "fst (chooseWinner now w xs r) = Inr v"
    and "retired r j \<or> (j \<in> fst ` set (w # xs) \<and> j \<noteq> fst v)"
  shows "retired (snd (chooseWinner now w xs r)) j \<and> v \<in> set (w # xs)"
  using assms
proof (induction xs arbitrary: w r)
  case (Cons x xs)
  define a where "a = retireServerImmediately x close_serverReplaced r"
  define b where "b = retireServerImmediately w close_serverReplaced (snd a)"
  have a: "retired (snd a) j" if "retired r j \<or> (j = fst x \<and> fst a)"
    using retire_retired[OF _ that[unfolded a_def]] Cons.prems(1) by (simp add: a_def)
  have b: "retired (snd b) j" if "retired r j \<or> (j = fst w \<and> fst b)"
    using that a retire_retired[of w "snd a" j close_serverReplaced] Cons.prems(1) by (auto simp: b_def)
  show ?case
  proof (cases "fst a")
    case True
    then have eq: "chooseWinner now w (x # xs) r = chooseWinner now w xs (snd a)"
      by (simp add: a_def case_prod_unfold Let_def)
    show ?thesis using Cons.IH[of w "snd a"] Cons.prems a True unfolding eq by auto
  next
    case False
    show ?thesis
    proof (cases "fst b")
      case True
      then have eq: "chooseWinner now w (x # xs) r = chooseWinner now x xs (snd b)"
        using False by (simp add: a_def b_def case_prod_unfold Let_def)
      show ?thesis using Cons.IH[of x "snd b"] Cons.prems b True unfolding eq by auto
    next
      case fb: False
      then show ?thesis
        using False Cons.prems(2) by (simp add: a_def b_def case_prod_unfold Let_def)
    qed
  qed
qed auto

lemma currentOpenServers_tears_back:
  assumes "tears r r'" "x \<in> set (currentOpenServers ign r')"
  shows "fst x \<in> fst ` set (currentOpenServers ign r)"
proof -
  from assms(2) have x: "fst x \<in> set (getWebSockets ServerRole r')" "Some (fst x) \<noteq> ign"
    "is_open r' (fst x)" "readServerAttachment r' (fst x) = Some (snd x)" "sv_current (snd x)"
    "Some (sv_generation (snd x)) = currentGeneration r'"
    by (auto simp: currentOpenServers_iff)
  obtain s where s: "readAttachment r (fst x) = Some (ServerA s)" "server_torn s (snd x)"
    using tears_server_back[OF assms(1)] x(4) by (auto simp: readServer_iff)
  have "(fst x, s) \<in> set (currentOpenServers ign r)"
    using x s assms(1) getWebSockets_tears[OF assms(1)]
    by (auto simp: currentOpenServers_iff readServer_iff server_torn_def tears_def)
  then show ?thesis by (rule rev_image_eqI) simp
qed

lemma not_retired_current: "x \<in> set (currentOpenServers ign r) \<Longrightarrow> \<not> retired r (fst x)"
  by (auto simp: currentOpenServers_iff retired_def)

lemma reconcile_unique:
  assumes "reconcileActiveServer now ign r = (Inr w, r')" "x \<in> set (currentOpenServers ign r')"
  shows "\<exists>v. w = Some v \<and> fst v = fst x"
proof -
  define r1 where "r1 = snd (retryPendingServerTeardowns now r)"
  define act where "act = currentOpenServers ign r1"
  have snap: "\<forall>y \<in> set act. snapshot_of r1 y" using snapshot_of_current by (auto simp: act_def)
  have wf: "\<forall>y \<in> set act. server_wf (snd y)"
    using readServer_wf by (auto simp: act_def currentOpenServers_iff)
  have res: "(if length act \<le> 1 then (Inr (case act of [] \<Rightarrow> None | s # _ \<Rightarrow> Some s), r1)
      else if \<not> distinct (map (\<lambda>s. sv_controlId (snd s)) act) then reconcileDuplicates now act r1
      else reconcileReplacement now act r1) = (Inr w, r')"
    using assms(1) unfolding reconcileActiveServer_def Let_def case_prod_unfold
      r1_def[symmetric] act_def[symmetric] by (simp split: if_split_asm)
  then consider "length act \<le> 1" "r' = r1" "w = (case act of [] \<Rightarrow> None | s # _ \<Rightarrow> Some s)"
    | "reconcileDuplicates now act r1 = (Inr w, r')"
    | "reconcileReplacement now act r1 = (Inr w, r')"
    by (cases "length act \<le> 1"; cases "distinct (map (\<lambda>s. sv_controlId (snd s)) act)") simp_all
  then show ?thesis
  proof cases
    case 1
    have "x \<in> set act" using assms(2) 1(2) by (simp add: act_def)
    with 1 show ?thesis by (cases act) auto
  next
    case 2
    define r2 where "r2 = snd (closeAllClients now InternalError close_internalError r1)"
    from 2 have ok: "fst (retireDuplicates act r2)" and r': "r' = snd (retireDuplicates act r2)"
      by (auto simp: reconcileDuplicates_def Let_def case_prod_unfold r2_def split: if_splits)
    have "tears r1 r'"
      using tears_retireDuplicates[OF tears_closeAllClients[OF tears_refl] snap] by (simp add: r' r2_def)
    from currentOpenServers_tears_back[OF this assms(2)] have "fst x \<in> fst ` set act"
      by (simp add: act_def)
    then have "retired r' (fst x)"
      using retireDuplicates_retired[OF wf, of r2 "fst x"] ok by (simp add: r')
    with not_retired_current[OF assms(2)] show ?thesis by blast
  next
    case 3
    show ?thesis
    proof (cases "js_sort compareActiveServersNewestFirst act")
      case Nil
      then have "act = []" "r' = r1"
        using 3 length_js_sort[of compareActiveServersNewestFirst act]
        by (auto simp: reconcileReplacement_def)
      with assms(2) show ?thesis by (simp add: act_def)
    next
      case (Cons v older)
      define cw where "cw = chooseWinner now v older r1"
      from 3 obtain u where u: "fst cw = Inr u" "w = Some u"
        and r': "r' = snd (closeAllClients now ServerReplaced close_serverReplaced (snd cw))"
        unfolding reconcileReplacement_def Cons list.case cw_def[symmetric]
        by (cases cw) (auto simp: Let_def case_prod_unfold split: sum.splits if_split_asm)
      have members: "set (v # older) = set act" using Cons by (metis set_js_sort)
      have "tears r1 (snd cw)"
        unfolding cw_def using snap members by (intro tears_chooseWinner) auto
      then have "tears r1 r'" unfolding r' by (rule tears_closeAllClients)
      from currentOpenServers_tears_back[OF this assms(2)] have x: "fst x \<in> fst ` set (v # older)"
        unfolding members by (simp add: act_def)
      have "retired r' (fst x)" if "fst x \<noteq> fst u"
      proof -
        have "retired (snd cw) (fst x)"
          unfolding cw_def
          using chooseWinner_retired[OF wf[folded members] u(1)[unfolded cw_def], of "fst x"] x that
          by blast
        then show ?thesis
          unfolding r' by (rule retired_mono[OF _ tears_closeAllClients[OF tears_refl]])
      qed
      with not_retired_current[OF assms(2)] u(2) show ?thesis by metis
    qed
  qed
qed

subsection \<open>Teardown without platform faults\<close>

definition no_faults :: "room \<Rightarrow> bool" where
  "no_faults r \<longleftrightarrow> (\<forall>n. platform r n)"

lemma no_faults_frame:
  "no_faults (snd (tryWriteAttachment i a r)) = no_faults r"
  "no_faults (snd (closeSocket i c r)) = no_faults r"
  by (simp_all add: no_faults_def tryWriteAttachment_def closeSocket_def platform_call_def)

lemma no_faults_write: "no_faults r \<Longrightarrow> fst (tryWriteAttachment i a r)"
  by (simp add: no_faults_def tryWriteAttachment_def platform_call_def)

lemma no_faults_close: "no_faults r \<Longrightarrow> fst (closeSocket i c r)"
  by (simp add: no_faults_def closeSocket_def platform_call_def)

lemma platform_mark [simp]: "platform (markTicketTerminal c r) = platform r"
proof -
  have on: "platform (markTicketOn c d j r) = platform r" for d j r
    by (auto simp: markTicketOn_def tryWriteAttachment_def platform_call_def split: option.split)
  have "platform (fold (markTicketOn c d) is r) = platform r" for d "is"
    by (induction "is" arbitrary: r) (simp_all add: on)
  then show ?thesis by (simp add: markTicketTerminal_def split: option.split)
qed

lemma platform_frames [simp]:
  "platform (snd (tryWriteAttachment i a r)) = platform r"
  "platform (snd (closeSocket i c r)) = platform r"
  "platform (snd (emitTerminalMetric now i att out r)) = platform r"
  by (simp_all add: tryWriteAttachment_def closeSocket_def platform_call_def emitTerminalMetric_def
      case_prod_unfold Let_def)

lemma platform_failClient [simp]: "platform (snd (failClient now i a out cl r)) = platform r"
  by (simp add: failClient_def Let_def case_prod_unfold transitionClientTerminal_def split: option.split)

lemma closeClientStep_clean:
  assumes "no_faults r"
  shows "fst (closeClientStep now out cl i r)" "\<not> is_open (snd (closeClientStep now out cl i r)) i"
    "no_faults (snd (closeClientStep now out cl i r))"
proof -
  have "fst (failClient now i a out cl r) \<and> \<not> is_open (snd (failClient now i a out cl r)) i" for a
  proof -
    define r5 where "r5 = snd (failClient now i a out cl r)"
    have pl: "fst (closeSocket i c s) \<and> \<not> is_open (snd (closeSocket i c s)) i"
      if "platform s = platform r" for s c
      using that assms no_faults_close closeSocket_closed by (auto simp: no_faults_def)
    show ?thesis
      unfolding failClient_def Let_def case_prod_unfold fst_conv snd_conv
      using pl by (simp add: transitionClientTerminal_def split: option.split)
  qed
  then show "fst (closeClientStep now out cl i r)" "\<not> is_open (snd (closeClientStep now out cl i r)) i"
    using no_faults_close[OF assms] closeSocket_closed
    by (auto simp: closeClientStep_def split: option.split)
  show "no_faults (snd (closeClientStep now out cl i r))"
    using assms by (auto simp: closeClientStep_def no_faults_def split: option.split)
qed

lemma closeAll_clean_loop:
  "no_faults r \<Longrightarrow> fst (for_each (closeClientStep now out cl) is r) \<and>
   (\<forall>i \<in> set is. \<not> is_open (snd (for_each (closeClientStep now out cl) is r)) i)"
proof (induction "is" arbitrary: r)
  case (Cons i "is")
  define r1 where "r1 = snd (closeClientStep now out cl i r)"
  have step: "fst (closeClientStep now out cl i r)" "\<not> is_open r1 i" "no_faults r1"
    using closeClientStep_clean[OF Cons.prems] by (simp_all add: r1_def)
  have mono: "tears s (snd (closeClientStep now out cl j s))" for j s
    by (auto simp: closeClientStep_def tears_close tears_failClient_read split: option.split)
  have "tears r1 (snd (for_each (closeClientStep now out cl) is r1))"
    by (rule tears_for_each) (use mono tears_trans in blast)+
  then have "\<not> is_open (snd (for_each (closeClientStep now out cl) is r1)) i"
    using step(2) by (auto simp: tears_def)
  then show ?case
    using Cons.IH[OF step(3)] step(1) by (simp add: Let_def case_prod_unfold r1_def)
qed simp

lemma closeAllClients_clean:
  assumes "no_faults r"
  shows "fst (closeAllClients now out cl r)"
    and "i \<in> set (getWebSockets ClientRole r) \<Longrightarrow> \<not> is_open (snd (closeAllClients now out cl r)) i"
  using closeAll_clean_loop[OF assms] by (auto simp: closeAllClients_def)

subsection \<open>A concrete room\<close>

text \<open>One control and one client that awaits its candidate; used by the witnesses.\<close>

definition example_server :: server_attachment where
  "example_server = \<lparr> sv_current = True, sv_accessProtocol = False,
     sv_controlId = example_connection_id, sv_generation = replicate 64 CHR ''0'',
     sv_openedAt = 500, sv_tickets = [] \<rparr>"

definition example_socket :: "role \<Rightarrow> attachment \<Rightarrow> socket" where
  "example_socket tag a = \<lparr> so_role = tag, so_open = True, so_listed = True,
     so_stored = encodeRendezvousAttachment a \<rparr>"

definition empty_socket :: socket where
  "empty_socket = \<lparr> so_role = ClientRole, so_open = False, so_listed = False, so_stored = JUndefined \<rparr>"

definition example_room :: "(nat \<Rightarrow> bool) \<Rightarrow> room" where
  "example_room plat =
     \<lparr> sock = (\<lambda>i. if i = 0 then example_socket ServerRole (ServerA example_server)
                   else if i = 1 then example_socket ClientRole (ClientA example_client)
                   else empty_socket),
       sock_count = 2, finalizedConnections = [], inactiveControls = [],
       observedControlFailures = [], pendingClientOutcomes = (\<lambda>_. None),
       pendingServerOutcomes = (\<lambda>_. None), currentGeneration = Some (replicate 64 CHR ''0''),
       initializationFailed = False, teardownRecoveryPersisted = False,
       teardownRecoveryRequired = False, stored_generation = Some (replicate 64 CHR ''0''),
       stored_recovery = False, stored_alarm = None, metric_log = [], frame_log = [],
       close_log = [], failure_log = [], platform = plat, platform_calls = 0 \<rparr>"

lemma example_room_simps [simp]:
  "sock_count (example_room plat) = 2" "finalizedConnections (example_room plat) = []"
  "pendingClientOutcomes (example_room plat) = (\<lambda>_. None)"
  "pendingServerOutcomes (example_room plat) = (\<lambda>_. None)"
  "currentGeneration (example_room plat) = Some (replicate 64 CHR ''0'')"
  "platform (example_room plat) = plat"
  "is_open (example_room plat) i \<longleftrightarrow> i < 2"
  "getWebSockets ServerRole (example_room plat) = [0]"
  "getWebSockets ClientRole (example_room plat) = [1]"
  by (auto simp: example_room_def is_open_def example_socket_def empty_socket_def getWebSockets_def upt_rec)

lemma example_server_wf [simp]: "server_wf example_server"
  by (simp add: server_wf_def example_server_def is_hex_digit_def max_safe_integer_def)

lemma example_room_read:
  "readAttachment (example_room plat) i =
     (if i = 0 then Some (ServerA example_server)
      else if i = 1 then Some (ClientA example_client) else None)"
proof -
  have "decodeRendezvousAttachment JUndefined = None"
    by (simp add: decodeRendezvousAttachment_def)
  then show ?thesis
    using attachment_codec.reads_back[of "ServerA example_server"]
      attachment_codec.reads_back[of "ClientA example_client"]
    by (simp add: readAttachment_def example_room_def example_socket_def empty_socket_def)
qed

lemma example_room_client:
  "readClientAttachment (example_room plat) i = (if i = 1 then Some example_client else None)"
  by (simp add: readClientAttachment_def example_room_read)

lemma example_room_server:
  "readServerAttachment (example_room plat) i = (if i = 0 then Some example_server else None)"
  by (simp add: readServerAttachment_def example_room_read)

lemma example_room_inv: "room_inv (example_room plat)"
proof -
  have "readTaggedAttachment (example_room plat) i \<noteq> None" if "i < sock_count (example_room plat)" for i
    using that by (simp add: readTaggedAttachment_def example_room_read)
      (auto simp: example_room_def example_socket_def less_2_cases_iff)
  then have "readable (example_room plat)" by (auto simp: readable_def)
  moreover have "all_linked (example_room plat)" "distinct_connections (example_room plat)"
    "distinct_controls (example_room plat)"
    by (auto simp: all_linked_def distinct_connections_def distinct_controls_def example_room_read
        example_server_def split: if_splits)
  ultimately show ?thesis by (simp add: room_inv_def)
qed

subsection \<open>Properties\<close>

text \<open>
  Whatever the platform does, the sweeps and teardowns of a room keep its invariant:
  every stored attachment stays readable and of its socket's role, tickets stay linked
  to clients that have begun their exchange, and identities stay distinct.
\<close>

theorem teardown_keeps_invariant:
  assumes "room_inv r"
  shows "room_inv (snd (closeAllClients now out cl r)) \<and>
    room_inv (snd (retryPendingServerTeardowns now r)) \<and>
    room_inv (snd (reconcileActiveServer now ign r)) \<and>
    room_inv (snd (expireClients now r)) \<and>
    room_inv (snd (pruneServerTickets now r)) \<and>
    room_inv (snd (failTagged now i out cl r)) \<and>
    room_inv (snd (closeSocketsForTeardownRecovery r))"
  using teardown_inv assms room_inv_tears[OF assms tears_sanitize(2)[OF tears_refl]] by auto

theorem teardown_keeps_invariant_witness:
  "room_inv (snd (closeAllClients 5 SessionExpired close_sessionExpired (example_room (\<lambda>n. n \<noteq> 1))))"
  using teardown_keeps_invariant[OF example_room_inv] by blast

text \<open>
  Teardown only takes away: after reconciling, expiring, pruning, or closing every
  client, no socket has been opened, no attachment that was unreadable has become
  readable, a client attachment is as it was or terminal with the same identity, and a
  control keeps its identity, is not made current, and has no new or revived ticket.
\<close>

theorem teardown_only_tears:
  "tears r (snd (reconcileActiveServer now ign r)) \<and> tears r (snd (expireClients now r)) \<and>
   tears r (snd (pruneServerTickets now r)) \<and> tears r (snd (closeAllClients now out cl r)) \<and>
   tears r (snd (failTagged now i out cl r))"
  by (intro conjI tears_reconcile tears_expireClients tears_pruneServerTickets
      tears_closeAllClients tears_failTagged tears_refl)

text \<open>
  The teardown operations of a room as its handlers call them: one client from the
  attachment as it is stored, or a sweep over the room's sockets.
\<close>

datatype teardown_call =
    FailStoredClient nat outcome close
  | CloseClients outcome close
  | RetryServers
  | Reconcile "nat option"
  | ExpireClients
  | PruneTickets
  | FailSocket nat outcome close

fun teardown_run :: "int \<Rightarrow> teardown_call \<Rightarrow> room \<Rightarrow> room" where
  "teardown_run now (FailStoredClient i out cl) r =
     (case readClientAttachment r i of None \<Rightarrow> r | Some a \<Rightarrow> snd (failClient now i a out cl r))"
| "teardown_run now (CloseClients out cl) r = snd (closeAllClients now out cl r)"
| "teardown_run now RetryServers r = snd (retryPendingServerTeardowns now r)"
| "teardown_run now (Reconcile ign) r = snd (reconcileActiveServer now ign r)"
| "teardown_run now ExpireClients r = snd (expireClients now r)"
| "teardown_run now PruneTickets r = snd (pruneServerTickets now r)"
| "teardown_run now (FailSocket i out cl) r = snd (failTagged now i out cl r)"

definition teardown_calls :: "(int \<times> teardown_call) list \<Rightarrow> room \<Rightarrow> room" where
  "teardown_calls calls r = fold (\<lambda>(now, c). teardown_run now c) calls r"

lemma settles_run: "settles r0 r \<Longrightarrow> settles r0 (teardown_run now c r)"
proof (cases c)
  case (FailStoredClient i out cl)
  assume s: "settles r0 r"
  with settles_trans[OF s] settles_failClient[OF settles_refl] FailStoredClient show ?thesis
    by (auto split: option.split)
qed (simp_all add: settles_closeAllClients settles_retryPending settles_reconcile settles_expireClients
    settles_pruneServerTickets settles_failTagged)

lemma settles_calls: "settles r0 r \<Longrightarrow> settles r0 (teardown_calls calls r)"
proof (induction calls arbitrary: r)
  case (Cons x calls)
  obtain now c where "x = (now, c)" by fastforce
  with Cons.IH[OF settles_run[OF Cons.prems, of now c]] show ?case by (simp add: teardown_calls_def)
qed (simp add: teardown_calls_def)

text \<open>
  C3: Through any sequence of teardown operations, at any times and under any pattern of
  faults, the outcome a client ended with first is the one that stays stored, and at most
  one terminal metric is handed out for its socket: a terminal attachment keeps its
  outcome, an emitted mark stays and nothing is counted behind it, and a metric is added
  only where the mark was absent, setting it. The operations act on the attachment as it
  is stored; a handler that fails a client from the copy it read before a reconciliation
  is not one of them.
\<close>

theorem first_outcome_one_metric:
  assumes "readClientAttachment r i = Some a" and "r' = teardown_calls calls r"
  shows "\<exists>a'. readClientAttachment r' i = Some a' \<and>
    (stage a = Terminal \<longrightarrow> stage a' = Terminal \<and> terminalOutcome a' = terminalOutcome a) \<and>
    (summaryEmitted a \<longrightarrow> summaryEmitted a' \<and> metrics_of r' i = metrics_of r i) \<and>
    metrics_of r i \<le> metrics_of r' i \<and> metrics_of r' i \<le> metrics_of r i + 1 \<and>
    (metrics_of r' i \<noteq> metrics_of r i \<longrightarrow> summaryEmitted a' \<and> stage a' = Terminal)"
proof -
  have "settles r r'" unfolding assms(2) by (rule settles_calls[OF settles_refl])
  then have "settles_at r r' i" by (simp add: settles_def)
  with assms(1) show ?thesis by (auto simp: settles_at_def)
qed

text \<open>The client expires, and is failed and swept again while it is terminal.\<close>

theorem first_outcome_one_metric_witness:
  "let r = example_room (\<lambda>_. True);
       r' = teardown_calls [(20000, ExpireClients), (20001, FailStoredClient 1 InternalError close_internalError),
              (20002, CloseClients ServerReplaced close_serverReplaced)] r
   in \<exists>a'. readClientAttachment r' 1 = Some a' \<and> metrics_of r' 1 \<le> metrics_of r 1 + 1"
  using first_outcome_one_metric[of "example_room (\<lambda>_. True)" 1 example_client _
      "[(20000, ExpireClients), (20001, FailStoredClient 1 InternalError close_internalError),
        (20002, CloseClients ServerReplaced close_serverReplaced)]"]
  by (auto simp: example_room_client Let_def)

text \<open>
  C4: \<open>failClient\<close> on a client whose summary is still due, that is without the stored mark
  and with a connection the instance has not finalized, either returns, and then the
  socket is closed or a terminal attachment with the canonical outcome is stored, or it
  throws, and then the socket is still open, its attachment unchanged, and the outcome
  is remembered so that a later event retries the teardown.
\<close>

theorem failClient_all_or_pending:
  assumes "readClientAttachment r i = Some a" "\<not> summaryEmitted a"
    "connectionId a \<notin> set (finalizedConnections r)"
    "failClient now i a out cl r = (ok, r')"
  shows "if ok
    then \<not> is_open r' i \<or> (\<exists>a'. readClientAttachment r' i = Some a' \<and> stage a' = Terminal \<and>
           ticket a' = None \<and> terminalOutcome a' = Some (canonical_outcome r i a out))
    else is_open r' i \<and> readClientAttachment r' i = Some a \<and>
         pendingClientOutcomes r' i = Some (canonical_outcome r i a out)"
proof -
  have "ticket a' = None" if "readClientAttachment r' i = Some a'" "stage a' = Terminal" for a'
    using readClient_wf[OF that(1)] that(2) by (simp add: client_wf_def stage_wf_def)
  then show ?thesis using failClient_contract[OF assms] by auto
qed

theorem failClient_all_or_pending_witness:
  "let x = failClient 5 1 example_client ProtocolError close_protocolError (example_room (\<lambda>_. False))
   in is_open (snd x) 1 \<and> readClientAttachment (snd x) 1 = Some example_client \<and>
      pendingClientOutcomes (snd x) 1 = Some ProtocolError"
proof -
  let ?x = "failClient 5 1 example_client ProtocolError close_protocolError (example_room (\<lambda>_. False))"
  have "\<not> fst ?x" by code_simp
  moreover have "canonical_outcome (example_room (\<lambda>_. False)) 1 example_client ProtocolError = ProtocolError"
    by code_simp
  moreover have "readClientAttachment (example_room (\<lambda>_. False)) 1 = Some example_client"
    "\<not> summaryEmitted example_client"
    "connectionId example_client \<notin> set (finalizedConnections (example_room (\<lambda>_. False)))"
    by (simp_all add: example_room_client) (simp add: example_client_def)
  ultimately show ?thesis
    using failClient_all_or_pending[of "example_room (\<lambda>_. False)" 1 example_client 5 ProtocolError
        close_protocolError "fst ?x" "snd ?x"]
    unfolding Let_def by (metis prod.collapse)
qed

text \<open>
  C6: Reconciliation leaves one active server: when \<open>reconcileActiveServer\<close> returns, every
  control that is still open, current and of the room's generation is the one it
  returned; when it returns none, there is none.
\<close>

theorem reconcile_leaves_one_server:
  assumes "reconcileActiveServer now ign r = (Inr w, r')"
  shows "\<forall>x \<in> set (currentOpenServers ign r'). \<exists>v. w = Some v \<and> fst v = fst x"
  using reconcile_unique[OF assms] by blast

theorem reconcile_leaves_one_server_witness:
  "fst ` set (currentOpenServers None (snd (reconcileActiveServer 5 None (example_room (\<lambda>_. True))))) = {0}"
proof -
  have "currentOpenServers None (example_room (\<lambda>_. True)) = [(0, example_server)]"
    by (simp add: currentOpenServers_def example_room_server List.map_filter_simps example_server_def)
  moreover have "retryPendingServerTeardowns 5 (example_room (\<lambda>_. True)) = (True, example_room (\<lambda>_. True))"
    by (simp add: retryPendingServerTeardowns_def retryServerStep_def)
  ultimately have run: "reconcileActiveServer 5 None (example_room (\<lambda>_. True)) =
      (Inr (Some (0, example_server)), example_room (\<lambda>_. True))"
    and one: "currentOpenServers None (example_room (\<lambda>_. True)) \<noteq> []"
    by (simp_all add: reconcileActiveServer_def Let_def)
  from reconcile_leaves_one_server[OF run] one show ?thesis
    unfolding run snd_conv by (cases "currentOpenServers None (example_room (\<lambda>_. True))") force+
qed

text \<open>
  Without platform faults the sweep of all clients succeeds and leaves no listed
  client socket open.
\<close>

theorem closeAllClients_complete:
  assumes "no_faults r"
  shows "fst (closeAllClients now out cl r) \<and>
    (\<forall>i \<in> set (getWebSockets ClientRole r). \<not> is_open (snd (closeAllClients now out cl r)) i)"
  using closeAllClients_clean[OF assms] by blast

theorem closeAllClients_complete_witness:
  "fst (closeAllClients 5 ServerReplaced close_serverReplaced (example_room (\<lambda>_. True)))"
  using closeAllClients_complete[of "example_room (\<lambda>_. True)"]
  by (simp add: no_faults_def)

subsection \<open>Replacement without platform faults\<close>

lemma platform_setPending [simp]: "platform (setPendingServer i x r) = platform r"
  by (simp add: setPendingServer_def)

lemma platform_rememberInactive [simp]: "platform (rememberInactive c r) = platform r"
  by (simp add: rememberInactive_def)

lemma platform_for_each:
  assumes "\<And>i r. platform (snd (f i r)) = platform r"
  shows "platform (snd (for_each f is r)) = platform r"
  by (induction "is" arbitrary: r) (simp_all add: assms Let_def case_prod_unfold)

lemma for_each_ok:
  assumes "\<And>i r. no_faults r \<Longrightarrow> fst (f i r)" "\<And>i r. platform (snd (f i r)) = platform r"
  shows "no_faults r \<Longrightarrow> fst (for_each f is r)"
  by (induction "is" arbitrary: r)
    (auto simp: assms Let_def case_prod_unfold no_faults_def)

lemma platform_closeAllClients [simp]: "platform (snd (closeAllClients now out cl r)) = platform r"
  unfolding closeAllClients_def
  by (rule platform_for_each) (simp add: closeClientStep_def split: option.split)

lemma platform_failServer [simp]: "platform (snd (failServer now i s out cl r)) = platform r"
  by (simp add: failServer_def Let_def case_prod_unfold)

lemma failServer_clean: "no_faults r \<Longrightarrow> fst (failServer now i s out cl r)"
proof -
  assume nf: "no_faults r"
  have cl: "fst (closeSocket j c t)" "fst (closeAllClients n o2 c t)" if "platform t = platform r" for j c t n o2
    using that nf no_faults_close closeAllClients_clean by (simp_all add: no_faults_def)
  show "fst (failServer now i s out cl r)"
    unfolding failServer_def Let_def case_prod_unfold fst_conv snd_conv using cl by simp
qed

lemma platform_retryPending [simp]: "platform (snd (retryPendingServerTeardowns now r)) = platform r"
  unfolding retryPendingServerTeardowns_def
  by (rule platform_for_each)
    (simp add: retryServerStep_def Let_def case_prod_unfold split: option.split)

lemma retryPending_clean: "no_faults r \<Longrightarrow> fst (retryPendingServerTeardowns now r)"
  unfolding retryPendingServerTeardowns_def
  by (rule for_each_ok)
    (simp_all add: retryServerStep_def Let_def case_prod_unfold failServer_clean no_faults_close
      split: option.split)

lemma retireServerImmediately_clean:
  assumes "no_faults r"
  shows "fst (retireServerImmediately server cl r)"
    and "no_faults (snd (retireServerImmediately server cl r))"
  using no_faults_write[OF assms] assms
  by (auto simp: retireServerImmediately_def prepareServerRetirement_def finishServerRetirement_def
      Let_def case_prod_unfold no_faults_def)

lemma chooseWinner_clean:
  "no_faults r \<Longrightarrow> fst (chooseWinner now w older r) = Inr w \<and> no_faults (snd (chooseWinner now w older r))"
proof (induction older arbitrary: r)
  case (Cons p rest)
  show ?case
    using retireServerImmediately_clean[OF Cons.prems, of p close_serverReplaced]
      Cons.IH[of "snd (retireServerImmediately p close_serverReplaced r)"]
    by (simp add: Let_def case_prod_unfold)
qed simp

lemma reconcile_newest:
  fixes now ign r
  defines "act \<equiv> currentOpenServers ign (snd (retryPendingServerTeardowns now r))"
  assumes nf: "no_faults r" and ids: "distinct (map (\<lambda>s. sv_controlId (snd s)) act)"
  shows "case fst (reconcileActiveServer now ign r) of
      Inl _ \<Rightarrow> False
    | Inr None \<Rightarrow> act = []
    | Inr (Some w) \<Rightarrow> w \<in> set act \<and> (\<forall>x \<in> set act. compareActiveServersNewestFirst w x \<le> 0)"
proof -
  define r1 where "r1 = snd (retryPendingServerTeardowns now r)"
  have nf1: "no_faults r1" using nf by (simp add: no_faults_def r1_def)
  show ?thesis
  proof (cases "length act \<le> 1")
    case True
    have self: "compareActiveServersNewestFirst w w \<le> 0" for w
      by (simp add: compareActiveServersNewestFirst_def)
    from True show ?thesis
      using retryPending_clean[OF nf, of now] self
      unfolding reconcileActiveServer_def Let_def case_prod_unfold act_def[symmetric]
      by (cases act) auto
  next
    case False
    then obtain w older where sorted: "js_sort compareActiveServersNewestFirst act = w # older"
      using length_js_sort[of compareActiveServersNewestFirst act]
      by (cases "js_sort compareActiveServersNewestFirst act") auto
    have "fst (reconcileActiveServer now ign r) = fst (reconcileReplacement now act r1)"
      using False ids retryPending_clean[OF nf, of now]
      unfolding reconcileActiveServer_def Let_def case_prod_unfold act_def[symmetric] r1_def
      by simp
    also have "\<dots> = Inr (Some w)"
      using chooseWinner_clean[OF nf1, of now w older] closeAllClients_clean(1)
      by (auto simp: reconcileReplacement_def sorted Let_def case_prod_unfold split: prod.split sum.split)
    finally have result: "fst (reconcileActiveServer now ign r) = Inr (Some w)" .
    have "w \<in> set act"
      using set_js_sort[of compareActiveServersNewestFirst act] unfolding sorted by auto
    with result newest_first.js_sort_first[OF sorted] show ?thesis by simp
  qed
qed


text \<open>
  C7: When no platform call fails and the current controls have distinct identities, an
  interrupted replacement ends with the newest of them: \<open>reconcileActiveServer\<close> does not
  throw, returns none only when there is none, and otherwise returns a control that no
  other current control of the room's generation precedes.
\<close>

theorem reconcile_picks_newest:
  assumes "no_faults r"
    "distinct (map (\<lambda>s. sv_controlId (snd s))
       (currentOpenServers ign (snd (retryPendingServerTeardowns now r))))"
  shows "case fst (reconcileActiveServer now ign r) of
      Inl _ \<Rightarrow> False
    | Inr None \<Rightarrow> currentOpenServers ign (snd (retryPendingServerTeardowns now r)) = []
    | Inr (Some w) \<Rightarrow> w \<in> set (currentOpenServers ign (snd (retryPendingServerTeardowns now r))) \<and>
        (\<forall>x \<in> set (currentOpenServers ign (snd (retryPendingServerTeardowns now r))).
           compareActiveServersNewestFirst w x \<le> 0)"
  using reconcile_newest[OF assms] .

definition replaced_room :: room where
  "replaced_room = (example_room (\<lambda>_. True))
     \<lparr> sock := (sock (example_room (\<lambda>_. True)))
         (2 := example_socket ServerRole (ServerA (example_server
            \<lparr> sv_controlId := ''22222222-2222-4222-8222-222222222222'', sv_openedAt := 900 \<rparr>))),
       sock_count := 3 \<rparr>"

theorem reconcile_picks_newest_witness:
  "case fst (reconcileActiveServer 5 None replaced_room) of
      Inl _ \<Rightarrow> False | Inr None \<Rightarrow> False
    | Inr (Some w) \<Rightarrow> fst w = 2"
proof -
  have "no_faults replaced_room" by (simp add: no_faults_def replaced_room_def example_room_def)
  moreover have "map (\<lambda>s. (fst s, sv_openedAt (snd s), sv_controlId (snd s)))
      (currentOpenServers None (snd (retryPendingServerTeardowns 5 replaced_room))) =
    [(0, 500, example_connection_id), (2, 900, ''22222222-2222-4222-8222-222222222222'')]"
    by code_simp
  ultimately show ?thesis
    using reconcile_picks_newest[of replaced_room None 5]
    by (auto simp: map_eq_Cons_conv compareActiveServersNewestFirst_def example_connection_id_def
      split: sum.splits option.splits if_splits)
qed

end
