(* ===== verification/RoomSessions.thy ===== *)
theory RoomSessions
  imports RoomTeardown
begin

text \<open>
  The event handlers of the rendezvous room (\<open>src/src/rendezvous-room.ts\<close>). A handler
  that awaits is split at its awaits into segments; between two segments any other
  event may run, so a segment takes the room as it finds it and, as arguments, what the
  source keeps in local variables and what the awaited call answered (digests, whether
  the access grant is still live, the admission decision).
\<close>

subsection \<open>Signals\<close>

datatype signal =
    ClientCandidate string int string
  | ServerCandidate string int string string
  | Complete string

fun signal_ticket :: "signal \<Rightarrow> string" where
  "signal_ticket (ClientCandidate host port t) = t"
| "signal_ticket (ServerCandidate host port kind t) = t"
| "signal_ticket (Complete t) = t"

record parsed_signal =
  ps_signal :: signal
  ps_serialized :: string
  ps_bytes :: int

fun is_client_candidate :: "signal \<Rightarrow> bool" where
  "is_client_candidate (ClientCandidate _ _ _) = True"
| "is_client_candidate _ = False"

fun frame_kind_of :: "signal \<Rightarrow> frame_kind" where
  "frame_kind_of (Complete _) = CompleteFrame"
| "frame_kind_of _ = ServerCandidateFrame"

datatype room_error =
  Forbidden | ServerUnavailableError | RoomFull | RoomUnavailable | PublicationConflict

fun room_error_status :: "room_error \<Rightarrow> int \<times> int option" where
  "room_error_status Forbidden = (403, None)"
| "room_error_status ServerUnavailableError = (503, Some 5)"
| "room_error_status RoomFull = (503, Some 15)"
| "room_error_status RoomUnavailable = (503, Some 60)"
| "room_error_status PublicationConflict = (409, None)"

text \<open>\<open>true\<close> of a teardown step as normal return, \<open>false\<close> as the thrown error.\<close>

definition torn_result :: "bool \<times> room \<Rightarrow> unit result \<times> room" where
  "torn_result x = (if fst x then Inr () else Inl TeardownIntegrity, snd x)"

subsection \<open>Client messages\<close>

text \<open>\<open>handleClientMessage\<close>: fail, or go on to \<open>beginClientTicket\<close> (\<open>Inr True\<close>).\<close>

definition handleClientMessage ::
  "int \<Rightarrow> nat \<Rightarrow> client_attachment \<Rightarrow> parsed_signal \<Rightarrow> room \<Rightarrow> bool result \<times> room" where
  "handleClientMessage now i a p r =
     (let stop = (\<lambda>x. (if fst x then Inr False else Inl TeardownIntegrity, snd x)) in
      if expiresAt a \<le> now then stop (failClient now i a SessionExpired close_sessionExpired r)
      else if is_client_candidate (ps_signal p) \<and> stage a = AwaitingCandidate \<and>
              authorization a = NotRequired then
        (if accessGrant a \<noteq> None \<and> Some (signal_ticket (ps_signal p)) \<noteq> accessGrant a
         then stop (failClient now i a AuthorizationFailed close_authorizationFailed r)
         else (Inr True, r))
      else stop (failClient now i a ProtocolError close_protocolError r))"

definition new_ticket :: "client_attachment \<Rightarrow> string \<Rightarrow> int \<Rightarrow> ticket_state" where
  "new_ticket c digest bytes =
     \<lparr> tk_digest = digest, tk_clientConnectionId = connectionId c, tk_openedAt = openedAt c,
       tk_expiresAt = expiresAt c, tk_stage = TicketActive, tk_authorization = TicketNotRequired,
       tk_clientAuthorizationFrames = 0, tk_serverAuthorizationFrames = 0,
       tk_serverCandidates = 0, tk_completionCount = 0, tk_signalBytes = bytes \<rparr>"

definition begin_exchange :: "client_attachment \<Rightarrow> string \<Rightarrow> string \<Rightarrow> int \<Rightarrow> client_attachment" where
  "begin_exchange c t digest bytes =
     c\<lparr>ticket := Some t, ticketDigest := Some digest, authorization := NotRequired,
       clientAuthorizationFrames := 0, stage := CandidateExchange,
       clientCandidates := MAX_CLIENT_CANDIDATES, signalBytes := bytes\<rparr>"

text \<open>
  \<open>beginClientTicket\<close> after its awaits. \<open>a\<close> is the attachment the event began with;
  \<open>digest\<close> and \<open>bound\<close> are the digests of the frame's ticket, \<open>accessLive\<close> the answer of
  the access check. The client attachment is read before the active server is
  reconciled, as in the source.
\<close>

definition relayClientCandidate ::
  "int \<Rightarrow> nat \<Rightarrow> client_attachment \<Rightarrow> active_server \<Rightarrow> string \<Rightarrow> parsed_signal \<Rightarrow> room \<Rightarrow>
   unit result \<times> room" where
  "relayClientCandidate now i current server digest p r0 =
     (let c1 = begin_exchange current (signal_ticket (ps_signal p)) digest (ps_bytes p);
          s1 = (snd server)\<lparr>sv_tickets := sv_tickets (snd server) @
                   [new_ticket current digest (ps_bytes p)]\<rparr>
      in case writeAttachment i (ClientA c1) r0 of
           (Inl e, r1) \<Rightarrow> (Inl e, r1)
         | (Inr _, r1) \<Rightarrow>
             (case writeAttachment (fst server) (ServerA s1) r1 of
                (Inl e, r2) \<Rightarrow> (Inl e, r2)
              | (Inr _, r2) \<Rightarrow>
                  (case sendFrame (fst server) (ps_serialized p) r2 of
                     (False, r3) \<Rightarrow>
                       torn_result (failServer now (fst server) s1 ServerUnavailable
                         close_serverUnavailable r3)
                   | (True, r3) \<Rightarrow>
                       let c2 = c1\<lparr>framesForwarded := framesForwarded c1 + 1\<rparr> in
                       (case tryWriteAttachment i (ClientA c2) r3 of
                          (True, r4) \<Rightarrow> (Inr (), r4)
                        | (False, r4) \<Rightarrow>
                            torn_result (failClient now i c2 InternalError close_internalError r4)))))"

definition beginClientTicket ::
  "int \<Rightarrow> nat \<Rightarrow> client_attachment \<Rightarrow> string \<Rightarrow> string \<Rightarrow> bool \<Rightarrow> parsed_signal \<Rightarrow> room \<Rightarrow>
   unit result \<times> room" where
  "beginClientTicket now i a digest bound accessLive p r0 =
     (if \<not> is_client_candidate (ps_signal p)
      then torn_result (failClient now i a ProtocolError close_protocolError r0)
      else
        let read = readClientAttachment r0 i in
        case reconcileActiveServer now None r0 of
          (Inl e, r1) \<Rightarrow> (Inl e, r1)
        | (Inr server, r1) \<Rightarrow>
          (case read of
             None \<Rightarrow> (Inr (), snd (closeSocket i close_internalError r1))
           | Some current \<Rightarrow>
             if boundTicketHash current \<noteq> Some bound \<or> \<not> accessLive \<or>
                (accessRedemption a \<noteq> None \<and>
                 (accessRedemption current \<noteq> accessRedemption a \<or>
                  accessGrant current \<noteq> Some (signal_ticket (ps_signal p))))
             then torn_result (failClient now i current AuthorizationFailed close_authorizationFailed r1)
             else if \<not> is_open r1 i
             then torn_result (failClient now i current ClientDisconnected NORMAL_RENDEZVOUS_CLOSE r1)
             else if connectionId current \<noteq> connectionId a
             then torn_result (failClient now i current InternalError close_internalError r1)
             else if stage current \<noteq> AwaitingCandidate \<or> authorization current \<noteq> NotRequired
             then torn_result (failClient now i current ProtocolError close_protocolError r1)
             else if expiresAt current \<le> now
             then torn_result (failClient now i current SessionExpired close_sessionExpired r1)
             else
               (case server of
                  None \<Rightarrow>
                    torn_result (failClient now i current ServerUnavailable close_serverUnavailable r1)
                | Some (j, s) \<Rightarrow>
                    if sv_controlId s \<noteq> controlId current \<or> sv_generation s \<noteq> generation current \<or>
                       Some (generation current) \<noteq> currentGeneration r1
                    then torn_result
                           (failClient now i current ServerUnavailable close_serverUnavailable r1)
                    else
                      let s' = snd (pruneTicketList s now) in
                      if digest \<in> set (map tk_digest (sv_tickets s')) \<or>
                         length (sv_tickets s') \<ge> MAX_RETAINED_TICKETS
                      then torn_result (failClient now i current ProtocolError close_protocolError r1)
                      else relayClientCandidate now i current (j, s') digest p r1)))"

subsection \<open>Access confirmation\<close>

definition acceptAccessInit_check ::
  "int \<Rightarrow> client_attachment \<Rightarrow> string \<Rightarrow> string \<Rightarrow> bool" where
  "acceptAccessInit_check now a grant nonce \<longleftrightarrow>
     authorization a = AwaitingInit \<and> stage a = AwaitingCandidate \<and> expiresAt a > now \<and>
     accessRedemption a \<noteq> None \<and> accessGrant a = Some grant \<and> accessClientNonce a = Some nonce"

text \<open>The segment after the access check; \<open>sessionSeconds\<close> is the policy's session length.\<close>

definition acceptAccessInit ::
  "int \<Rightarrow> nat \<Rightarrow> client_attachment \<Rightarrow> string \<Rightarrow> string \<Rightarrow> bool \<Rightarrow> int \<Rightarrow> room \<Rightarrow> unit result \<times> room" where
  "acceptAccessInit now i a grant nonce live sessionSeconds r0 =
     (let read = readClientAttachment r0 i in
      case reconcileActiveServer now None r0 of
        (Inl e, r1) \<Rightarrow> (Inl e, r1)
      | (Inr server, r1) \<Rightarrow>
        (case read of
           None \<Rightarrow> (Inr (), snd (closeSocket i close_authorizationFailed r1))
         | Some current \<Rightarrow>
           if \<not> live \<or> authorization current \<noteq> AwaitingInit \<or>
              accessGrant current \<noteq> Some grant \<or> accessClientNonce current \<noteq> Some nonce \<or>
              accessRedemption current \<noteq> accessRedemption a \<or> expiresAt current \<le> now \<or>
              connectionId current \<noteq> connectionId a \<or> \<not> is_open r1 i \<or>
              (case server of
                 None \<Rightarrow> True
               | Some (_, s) \<Rightarrow> sv_controlId s \<noteq> controlId current \<or>
                              sv_generation s \<noteq> generation current) \<or>
              currentGeneration r1 \<noteq> Some (generation current)
           then torn_result (failClient now i current AuthorizationFailed close_authorizationFailed r1)
           else
             let c1 = current\<lparr>authorization := NotRequired,
                        expiresAt := min (openedAt current + sessionSeconds * 1000)
                                         (the (accessExpiresAt current))\<rparr>
             in case writeAttachment i (ClientA c1) r1 of
                  (Inl e, r2) \<Rightarrow> (Inl e, r2)
                | (Inr _, r2) \<Rightarrow>
                    (case sendFrame i ''{\"type\":\"access_ready\",\"version\":1}'' r2 of
                       (True, r3) \<Rightarrow> (Inr (), r3)
                     | (False, r3) \<Rightarrow> (Inl PlatformFault, r3))))"

subsection \<open>Server messages\<close>

definition ticket_client_matches ::
  "server_attachment \<Rightarrow> ticket_state \<Rightarrow> string \<Rightarrow> int \<Rightarrow> client_attachment \<Rightarrow> bool" where
  "ticket_client_matches s t rawTicket now a \<longleftrightarrow>
     controlId a = sv_controlId s \<and> generation a = sv_generation s \<and>
     connectionId a = tk_clientConnectionId t \<and> stage a \<noteq> Terminal \<and> expiresAt a > now \<and>
     ticketDigest a = Some (tk_digest t) \<and> ticket a = Some rawTicket"

definition findTicketClient ::
  "server_attachment \<Rightarrow> ticket_state \<Rightarrow> string \<Rightarrow> int \<Rightarrow> room \<Rightarrow> (nat \<times> client_attachment) option" where
  "findTicketClient s t rawTicket now r =
     (if tk_stage t \<noteq> TicketActive \<or> tk_expiresAt t \<le> now then None
      else
        case find (\<lambda>i. is_open r i \<and>
                (case readClientAttachment r i of
                   None \<Rightarrow> False | Some a \<Rightarrow> ticket_client_matches s t rawTicket now a))
              (getWebSockets ClientRole r) of
          None \<Rightarrow> None
        | Some i \<Rightarrow> map_option (\<lambda>a. (i, a)) (readClientAttachment r i))"

text \<open>The update of the ticket object that \<open>find\<close> returned, inside the control's list.\<close>

definition put_ticket :: "server_attachment \<Rightarrow> ticket_state \<Rightarrow> server_attachment" where
  "put_ticket s t =
     s\<lparr>sv_tickets := update_first (\<lambda>u. tk_digest u = tk_digest t) (\<lambda>_. t) (sv_tickets s)\<rparr>"

text \<open>
  \<open>handleServerMessage\<close> up to its target: the handler may be done, have a target that
  needs no further check, or await the access check of the target.
\<close>

datatype located =
    Handled "unit result"
  | RelayTo server_attachment ticket_state nat client_attachment
  | CheckAccess server_attachment ticket_state nat client_attachment

definition locateServerTarget ::
  "int \<Rightarrow> nat \<Rightarrow> server_attachment \<Rightarrow> string \<Rightarrow> parsed_signal \<Rightarrow> room \<Rightarrow> located \<times> room" where
  "locateServerTarget now i s0 digest p r0 =
     (let read = readServerAttachment r0 i in
      case reconcileActiveServer now None r0 of
        (Inl e, r1) \<Rightarrow> (Handled (Inl e), r1)
      | (Inr active, r1) \<Rightarrow>
        (case (read, active) of
           (Some current, Some (j, act)) \<Rightarrow>
             if \<not> is_open r1 i \<or> \<not> sv_current current \<or> sv_controlId current \<noteq> sv_controlId s0 \<or>
                sv_generation current \<noteq> sv_generation s0 \<or> j \<noteq> i \<or>
                sv_controlId act \<noteq> sv_controlId current \<or> sv_generation act \<noteq> sv_generation current
             then (Handled (Inr ()), snd (closeSocket i close_internalError r1))
             else
               let s = snd (pruneTicketList current now) in
               (case find (\<lambda>t. tk_digest t = digest) (sv_tickets s) of
                  None \<Rightarrow>
                    let x = torn_result (failServer now i s ProtocolError close_protocolError r1)
                    in (Handled (fst x), snd x)
                | Some t \<Rightarrow>
                  (case findTicketClient s t (signal_ticket (ps_signal p)) now r1 of
                     Some (k, a) \<Rightarrow>
                       (if accessRedemption a \<noteq> None then CheckAccess s t k a else RelayTo s t k a, r1)
                   | None \<Rightarrow>
                     (case applyServerFrameBudget t (frame_kind_of (ps_signal p)) (ps_bytes p) of
                        None \<Rightarrow>
                          let x = torn_result (failServer now i s ProtocolError close_protocolError r1)
                          in (Handled (fst x), snd x)
                      | Some t1 \<Rightarrow>
                          let x = writeAttachment i
                                (ServerA (put_ticket s (t1\<lparr>tk_stage := TicketTerminal\<rparr>))) r1
                          in (Handled (fst x), snd x))))
         | _ \<Rightarrow> (Handled (Inr ()), snd (closeSocket i close_internalError r1))))"

text \<open>The re-reads after the target's access check.\<close>

definition recheckTarget ::
  "int \<Rightarrow> nat \<Rightarrow> server_attachment \<Rightarrow> string \<Rightarrow> nat \<Rightarrow> client_attachment \<Rightarrow> bool \<Rightarrow> room \<Rightarrow>
   located \<times> room" where
  "recheckTarget now i s digest k a live r0 =
     (let read = readClientAttachment r0 k in
      case reconcileActiveServer now None r0 of
        (Inl e, r1) \<Rightarrow> (Handled (Inl e), r1)
      | (Inr latestServer, r1) \<Rightarrow>
        (case read of
           None \<Rightarrow> (Handled (Inr ()), r1)
         | Some latest \<Rightarrow>
           let failed = (let x = torn_result (failClient now k latest AuthorizationFailed
                                   close_authorizationFailed r1)
                         in (Handled (fst x), snd x)) in
           (case latestServer of
              None \<Rightarrow> failed
            | Some (j, current) \<Rightarrow>
              if \<not> live \<or> stage latest = Terminal \<or> expiresAt latest \<le> now \<or>
                 connectionId latest \<noteq> connectionId a \<or>
                 Some (generation latest) \<noteq> currentGeneration r1 \<or> \<not> is_open r1 k \<or> j \<noteq> i \<or>
                 sv_controlId current \<noteq> sv_controlId s
              then failed
              else
                (case find (\<lambda>t. tk_digest t = digest \<and> tk_clientConnectionId t = connectionId latest)
                        (sv_tickets current) of
                   None \<Rightarrow> failed
                 | Some t \<Rightarrow>
                     if tk_stage t \<noteq> TicketActive \<or> tk_expiresAt t \<le> now then failed
                     else (RelayTo current t k latest, r1)))))"

text \<open>The rest of \<open>handleServerMessage\<close>: budget, writes, the frame, and completion.\<close>

definition relayServerFrame ::
  "int \<Rightarrow> nat \<Rightarrow> server_attachment \<Rightarrow> ticket_state \<Rightarrow> nat \<Rightarrow> client_attachment \<Rightarrow> parsed_signal \<Rightarrow>
   room \<Rightarrow> unit result \<times> room" where
  "relayServerFrame now i s t k a p r0 =
     (let kind = frame_kind_of (ps_signal p) in
      case (if tk_authorization t \<noteq> TicketNotRequired then None
            else applyServerFrameBudget t kind (ps_bytes p)) of
        None \<Rightarrow> torn_result (failServer now i s ProtocolError close_protocolError r0)
      | Some t1 \<Rightarrow>
        if stage a \<noteq> CandidateExchange
        then torn_result (failServer now i (put_ticket s t1) ProtocolError close_protocolError r0)
        else
          let t2 = (if kind = CompleteFrame then t1\<lparr>tk_stage := TicketTerminal\<rparr> else t1);
              a1 = copyTicketBudgetToClient a t2
          in case writeAttachment i (ServerA (put_ticket s t2)) r0 of
               (Inl e, r1) \<Rightarrow> (Inl e, r1)
             | (Inr _, r1) \<Rightarrow>
               (case (if kind = CompleteFrame then (Inr (), r1) else writeAttachment k (ClientA a1) r1) of
                  (Inl e, r2) \<Rightarrow> (Inl e, r2)
                | (Inr _, r2) \<Rightarrow>
                  (case sendFrame k (ps_serialized p) r2 of
                     (False, r3) \<Rightarrow>
                       torn_result (failClient now k a1 InternalError close_internalError r3)
                   | (True, r3) \<Rightarrow>
                       let a2 = a1\<lparr>framesForwarded := framesForwarded a1 + 1\<rparr> in
                       if kind = CompleteFrame
                       then torn_result (failClient now k a2 Completed NORMAL_RENDEZVOUS_CLOSE r3)
                       else writeAttachment k (ClientA a2) r3)))"

definition handleServerMessage_first ::
  "int \<Rightarrow> nat \<Rightarrow> server_attachment \<Rightarrow> parsed_signal \<Rightarrow> room \<Rightarrow> bool result \<times> room" where
  "handleServerMessage_first now i s p r =
     (if is_client_candidate (ps_signal p)
      then (let x = failServer now i s ProtocolError close_protocolError r
            in (if fst x then Inr False else Inl TeardownIntegrity, snd x))
      else (Inr True, r))"

text \<open>A target found without an access check is served in the same segment.\<close>

definition handleServerMessage ::
  "int \<Rightarrow> nat \<Rightarrow> server_attachment \<Rightarrow> string \<Rightarrow> parsed_signal \<Rightarrow> room \<Rightarrow>
   (located option \<times> unit result) \<times> room" where
  "handleServerMessage now i s0 digest p r0 =
     (case locateServerTarget now i s0 digest p r0 of
        (Handled x, r1) \<Rightarrow> ((None, x), r1)
      | (RelayTo s t k a, r1) \<Rightarrow>
          let y = relayServerFrame now i s t k a p r1 in ((None, fst y), snd y)
      | (CheckAccess s t k a, r1) \<Rightarrow> ((Some (CheckAccess s t k a), Inr ()), r1))"

end
