(* ===== verification/RoomInvariant.thy ===== *)
theory RoomInvariant
  imports RoomOutcomes RoomSessions
begin

text \<open>
  The message handlers keep the invariant of the room, whatever the platform does and
  whatever happened at their awaits; the budget of a control's frames; and a teardown that
  fails without notice.
\<close>

subsection \<open>Single writes\<close>

lemma inv_frame: "sock r' = sock r \<Longrightarrow> sock_count r' = sock_count r \<Longrightarrow> room_inv r' = room_inv r"
proof -
  assume s: "sock r' = sock r" "sock_count r' = sock_count r"
  have "readTaggedAttachment r' = readTaggedAttachment r"
    by (simp add: fun_eq_iff readTaggedAttachment_def read_frame[OF s(1)] s(1) cong: option.case_cong)
  then show ?thesis
    unfolding room_inv_def readable_def all_linked_def distinct_connections_def distinct_controls_def
    by (simp add: read_frame[OF s(1)] s)
qed

lemma write_fields [simp]:
  "so_role (sock (snd (tryWriteAttachment i a r)) j) = so_role (sock r j)"
  "so_listed (sock (snd (tryWriteAttachment i a r)) j) = so_listed (sock r j)"
  "sock_count (snd (tryWriteAttachment i a r)) = sock_count r"
  "currentGeneration (snd (tryWriteAttachment i a r)) = currentGeneration r"
  "frame_log (snd (tryWriteAttachment i a r)) = frame_log r"
  by (auto simp: tryWriteAttachment_def platform_call_def)

lemma readable_write:
  assumes "readable r" "attachment_wf a" "i < sock_count r \<longrightarrow> attachment_role a = so_role (sock r i)"
  shows "readable (snd (tryWriteAttachment i a r))"
proof -
  have "so_stored (sock (snd (tryWriteAttachment i a r)) j) = so_stored (sock r j)"
    if "\<not> (fst (tryWriteAttachment i a r) \<and> j = i)" for j
    using that by (auto simp: tryWriteAttachment_def platform_call_def split: if_splits)
  then show ?thesis
    using assms by (auto simp: readable_def readTaggedAttachment_def tryWrite_read split: option.splits)
qed

lemma readable_role:
  assumes "readable r" "i < sock_count r" "readAttachment r i = Some a"
  shows "attachment_role a = so_role (sock r i)"
proof -
  have "so_stored (sock r i) \<noteq> JUndefined" using read_undefined[of r i] assms(3) by auto
  with assms readTagged_Some[of r i] show ?thesis unfolding readable_def by fastforce
qed

text \<open>A client attachment over a client attachment of the same connection.\<close>

lemma inv_writeClient:
  assumes inv: "room_inv r" and rd: "readAttachment r i = Some (ClientA b)"
    and wf: "client_wf c" and conn: "connectionId c = connectionId b"
    and link: "\<And>j s t. readAttachment r j = Some (ServerA s) \<Longrightarrow> t \<in> set (sv_tickets s) \<Longrightarrow>
        linked (sv_controlId s) t c"
  shows "room_inv (snd (tryWriteAttachment i (ClientA c) r))"
proof -
  let ?r = "snd (tryWriteAttachment i (ClientA c) r)"
  have wf': "attachment_wf (ClientA c)" using wf by simp
  have read: "readAttachment ?r j = Some (ClientA d) \<Longrightarrow>
      readAttachment r j = Some (ClientA d) \<or> (j = i \<and> d = c)" for j d
    by (auto simp: tryWrite_read[OF wf'] split: if_splits)
  have srv: "readAttachment ?r j = Some (ServerA s) \<Longrightarrow> readAttachment r j = Some (ServerA s)" for j s
    by (auto simp: tryWrite_read[OF wf'] split: if_splits)
  have "readable ?r"
    using inv rd readable_role[of r i "ClientA b"] wf' by (intro readable_write) (auto simp: room_inv_def)
  moreover have "all_linked ?r"
    unfolding all_linked_def
  proof (intro allI impI ballI)
    fix j s k d t
    assume "readAttachment ?r j = Some (ServerA s)" "readAttachment ?r k = Some (ClientA d)"
      "t \<in> set (sv_tickets s)"
    then show "linked (sv_controlId s) t d"
      using read[of k d] srv[of j s] link[of j s t] inv unfolding room_inv_def all_linked_def by blast
  qed
  moreover have "distinct_connections ?r"
    unfolding distinct_connections_def
  proof (intro allI impI)
    fix j k d e
    assume "readAttachment ?r j = Some (ClientA d)" "readAttachment ?r k = Some (ClientA e)"
      "connectionId d = connectionId e"
    then show "j = k"
      using read[of j d] read[of k e] rd conn inv unfolding room_inv_def distinct_connections_def by metis
  qed
  moreover have "distinct_controls ?r"
    using srv inv unfolding room_inv_def distinct_controls_def by metis
  ultimately show ?thesis by (simp add: room_inv_def)
qed

text \<open>A server attachment over a server attachment.\<close>

lemma inv_writeServer:
  assumes inv: "room_inv r" and rd: "readAttachment r i = Some (ServerA b)" and wf: "server_wf s"
    and cid: "sv_controlId s = sv_controlId b"
    and link: "\<And>j c t. readAttachment r j = Some (ClientA c) \<Longrightarrow> t \<in> set (sv_tickets s) \<Longrightarrow>
        linked (sv_controlId s) t c"
  shows "room_inv (snd (tryWriteAttachment i (ServerA s) r))"
proof -
  let ?r = "snd (tryWriteAttachment i (ServerA s) r)"
  have wf': "attachment_wf (ServerA s)" using wf by simp
  have read: "readAttachment ?r j = Some (ClientA d) \<Longrightarrow> readAttachment r j = Some (ClientA d)" for j d
    by (auto simp: tryWrite_read[OF wf'] split: if_splits)
  have srv: "readAttachment ?r j = Some (ServerA u) \<Longrightarrow>
      readAttachment r j = Some (ServerA u) \<or> (j = i \<and> u = s)" for j u
    by (auto simp: tryWrite_read[OF wf'] split: if_splits)
  have "readable ?r"
    using inv rd readable_role[of r i "ServerA b"] wf' by (intro readable_write) (auto simp: room_inv_def)
  moreover have "all_linked ?r"
    unfolding all_linked_def
  proof (intro allI impI ballI)
    fix j u k d t
    assume "readAttachment ?r j = Some (ServerA u)" "readAttachment ?r k = Some (ClientA d)"
      "t \<in> set (sv_tickets u)"
    then show "linked (sv_controlId u) t d"
      using read[of k d] srv[of j u] link[of k d t] inv unfolding room_inv_def all_linked_def by blast
  qed
  moreover have "distinct_connections ?r"
    using read inv unfolding room_inv_def distinct_connections_def by metis
  moreover have "distinct_controls ?r"
    unfolding distinct_controls_def
  proof (intro allI impI)
    fix j k u v
    assume "readAttachment ?r j = Some (ServerA u)" "readAttachment ?r k = Some (ServerA v)"
      "sv_controlId u = sv_controlId v"
    then show "j = k"
      using srv[of j u] srv[of k v] rd cid inv unfolding room_inv_def distinct_controls_def by metis
  qed
  ultimately show ?thesis by (simp add: room_inv_def)
qed

lemma writeAttachment_snd [simp]: "snd (writeAttachment i a r) = snd (tryWriteAttachment i a r)"
  by (simp add: writeAttachment_def case_prod_unfold Let_def)

lemma writeAttachment_Inr: "writeAttachment i a r = (Inr u, r') \<longleftrightarrow> tryWriteAttachment i a r = (True, r')"
  by (auto simp: writeAttachment_def case_prod_unfold Let_def prod_eq_iff)

lemma writeAttachment_Inl: "writeAttachment i a r = (Inl e, r') \<Longrightarrow>
    r' = snd (tryWriteAttachment i a r) \<and> e = PlatformFault"
  by (auto simp: writeAttachment_def case_prod_unfold Let_def split: if_splits)

lemma send_frame: "sock (snd (sendFrame i f r)) = sock r" "sock_count (snd (sendFrame i f r)) = sock_count r"
  by (simp_all add: sendFrame_def platform_call_def)

lemma inv_send [simp]: "room_inv (snd (sendFrame i f r)) = room_inv r"
  by (rule inv_frame) (simp_all add: send_frame)

lemma inv_close: "room_inv r \<Longrightarrow> room_inv (snd (closeSocket i c r))"
  by (rule room_inv_tears[OF _ tears_close[OF tears_refl]])

lemma snd_torn_result [simp]: "snd (torn_result x) = snd x"
  by (simp add: torn_result_def)

lemma inv_failClient:
  assumes "room_inv r" "readAttachment r i = Some (ClientA b)" "client_same b a"
    "\<And>x. client_wf (terminal_form a x)"
  shows "room_inv (snd (failClient now i a out cl r))"
  by (rule room_inv_tears[OF assms(1) tears_failClient[OF tears_refl assms(2,3,4)]])

lemma inv_failServer:
  assumes "room_inv r" "readAttachment r i = Some (ServerA b)" "server_torn b s"
  shows "room_inv (snd (failServer now i s out cl r))"
  by (rule room_inv_tears[OF assms(1) tears_failServer[OF tears_refl assms(2,3)]])

subsection \<open>What reconciliation hands back\<close>

lemma chooseWinner_member: "fst (chooseWinner now w xs r) = Inr v \<Longrightarrow> v \<in> set (w # xs)"
proof (induction xs arbitrary: w r)
  case (Cons x xs)
  then show ?case
    by (simp add: case_prod_unfold Let_def split: if_split_asm) blast+
qed simp

lemma reconcile_snapshot:
  assumes "reconcileActiveServer now ign r = (Inr (Some x), r')"
  shows "snapshot_of r x \<and> sv_current (snd x) \<and> Some (sv_generation (snd x)) = currentGeneration r"
proof -
  define r1 where "r1 = snd (retryPendingServerTeardowns now r)"
  define act where "act = currentOpenServers ign r1"
  have res: "(if length act \<le> 1 then (Inr (case act of [] \<Rightarrow> None | s # _ \<Rightarrow> Some s), r1)
      else if \<not> distinct (map (\<lambda>s. sv_controlId (snd s)) act) then reconcileDuplicates now act r1
      else reconcileReplacement now act r1) = (Inr (Some x), r')"
    using assms(1) unfolding reconcileActiveServer_def Let_def case_prod_unfold
      r1_def[symmetric] act_def[symmetric] by (simp split: if_split_asm)
  have "x \<in> set act"
  proof (cases "length act \<le> 1")
    case True
    with res show ?thesis by (cases act) auto
  next
    case False
    have "reconcileDuplicates now act r1 \<noteq> (Inr (Some x), r')"
      by (auto simp: reconcileDuplicates_def Let_def case_prod_unfold)
    with False res have rep: "reconcileReplacement now act r1 = (Inr (Some x), r')"
      by (simp split: if_split_asm)
    then obtain v older where srt: "js_sort compareActiveServersNewestFirst act = v # older"
      by (cases "js_sort compareActiveServersNewestFirst act") (auto simp: reconcileReplacement_def)
    have members: "set (v # older) = set act" using srt by (metis set_js_sort)
    from rep have "fst (chooseWinner now v older r1) = Inr x"
      unfolding reconcileReplacement_def srt list.case
      by (cases "chooseWinner now v older r1")
        (auto simp: Let_def case_prod_unfold split: sum.splits if_split_asm)
    from chooseWinner_member[OF this] show ?thesis unfolding members .
  qed
  moreover have "tears r r1" by (simp add: r1_def tears_retryPending)
  ultimately show ?thesis
    using snapshot_of_tears[OF _ snapshot_of_current] currentOpenServers_iff[of x ign r1]
    by (auto simp: act_def tears_def)
qed

subsection \<open>Beginning an exchange\<close>

text \<open>What the parser guarantees of an accepted frame, and the digest functions of theirs.\<close>

definition frame_ok :: "parsed_signal \<Rightarrow> bool" where
  "frame_ok p \<longleftrightarrow> is_hex64 (signal_ticket (ps_signal p)) \<and> 1 \<le> ps_bytes p \<and> ps_bytes p \<le> MAX_SIGNAL_BYTES"

lemma begin_exchange_wf:
  assumes "client_wf c" "stage c = AwaitingCandidate" "is_hex64 t" "is_hex64 d"
    "1 \<le> b" "b \<le> MAX_SIGNAL_BYTES"
  shows "client_wf (begin_exchange c t d b)"
    and "client_wf ((begin_exchange c t d b)\<lparr>framesForwarded := framesForwarded (begin_exchange c t d b) + 1\<rparr>)"
proof -
  have "access_wf (begin_exchange c t d b) = access_wf c"
    "access_wf ((begin_exchange c t d b)\<lparr>framesForwarded := x\<rparr>) = access_wf c" for x
    by (simp_all add: access_wf_def begin_exchange_def cong: option.case_cong)
  then show "client_wf (begin_exchange c t d b)"
    "client_wf ((begin_exchange c t d b)\<lparr>framesForwarded := framesForwarded (begin_exchange c t d b) + 1\<rparr>)"
    using assms by (auto simp: client_wf_def stage_wf_def begin_exchange_def attachment_bounds)
qed

lemma terminal_form_wf: "client_wf a \<Longrightarrow> client_wf (terminal_form a x)"
  by (simp add: terminal_form_def client_wf_scrub)

lemma new_ticket_wf:
  assumes "client_wf c" "is_hex64 d" "1 \<le> b" "b \<le> MAX_SIGNAL_BYTES"
  shows "ticket_wf (new_ticket c d b)"
  using assms by (auto simp: client_wf_def ticket_wf_def new_ticket_def attachment_bounds)

lemma begin_exchange_fields [simp]:
  "connectionId (begin_exchange c t d b) = connectionId c"
  "stage (begin_exchange c t d b) = CandidateExchange"
  "serverCandidates (begin_exchange c t d b) = serverCandidates c"
  by (simp_all add: begin_exchange_def)

lemma client_same_begin: "client_same (begin_exchange c t d b)
    ((begin_exchange c t d b)\<lparr>framesForwarded := x\<rparr>)"
  "client_same c (begin_exchange c t d b)"
  by (simp_all add: client_same_def begin_exchange_def)

lemma append_ticket_wf:
  assumes "server_wf s" "ticket_wf t" "tk_digest t \<notin> set (map tk_digest (sv_tickets s))"
    "tk_clientConnectionId t \<notin> set (map tk_clientConnectionId (sv_tickets s))"
    "length (sv_tickets s) < MAX_RETAINED_TICKETS"
  shows "server_wf (s\<lparr>sv_tickets := sv_tickets s @ [t]\<rparr>)"
  using assms by (auto simp: server_wf_def)

text \<open>
  The relay segment. \<open>current\<close> is the awaiting attachment as it was read; by now the
  stored one may have become terminal.
\<close>

lemma inv_relayClientCandidate:
  assumes inv: "room_inv r" and rd: "readAttachment r i = Some (ClientA b)"
    and torn: "client_torn current b" and cur: "client_wf current" "stage current = AwaitingCandidate"
    and srv: "readAttachment r j = Some (ServerA u)" and s: "server_wf s"
    and cid: "sv_controlId s = sv_controlId u"
    and old: "\<And>k c t. readAttachment r k = Some (ClientA c) \<Longrightarrow> t \<in> set (sv_tickets s) \<Longrightarrow>
        linked (sv_controlId s) t c"
    and none: "\<And>k v t. readAttachment r k = Some (ServerA v) \<Longrightarrow> t \<in> set (sv_tickets v) \<Longrightarrow>
        tk_clientConnectionId t \<noteq> connectionId current"
    and none': "\<And>t. t \<in> set (sv_tickets s) \<Longrightarrow> tk_clientConnectionId t \<noteq> connectionId current"
    and fresh: "digest \<notin> set (map tk_digest (sv_tickets s))"
      "length (sv_tickets s) < MAX_RETAINED_TICKETS"
    and p: "frame_ok p" "is_hex64 digest"
  shows "room_inv (snd (relayClientCandidate now i current (j, s) digest p r))"
proof -
  define c1 where "c1 = begin_exchange current (signal_ticket (ps_signal p)) digest (ps_bytes p)"
  define c2 where "c2 = c1\<lparr>framesForwarded := framesForwarded c1 + 1\<rparr>"
  define s1 where "s1 = s\<lparr>sv_tickets := sv_tickets s @ [new_ticket current digest (ps_bytes p)]\<rparr>"
  have p': "is_hex64 (signal_ticket (ps_signal p))" "1 \<le> ps_bytes p" "ps_bytes p \<le> MAX_SIGNAL_BYTES"
    using p(1) by (auto simp: frame_ok_def)
  have wf: "client_wf c1" "client_wf c2"
    using begin_exchange_wf[OF cur p'(1) p(2) p'(2,3)] by (simp_all add: c1_def c2_def)
  have s1: "server_wf s1"
    unfolding s1_def using new_ticket_wf[OF cur(1) p(2) p'(2,3)] fresh none'
    by (intro append_ticket_wf[OF s]) (fastforce simp: new_ticket_def)+
  have conn: "connectionId c1 = connectionId b" "connectionId c1 = connectionId current"
    using torn by (auto simp: c1_def client_torn_def)
  have c2: "linked x t c2 \<longleftrightarrow> linked x t c1" for x t by (simp add: linked_def c2_def)
  have zero: "serverCandidates c1 = 0"
    using cur by (simp add: c1_def client_wf_def stage_wf_def)
  define r1 where "r1 = snd (tryWriteAttachment i (ClientA c1) r)"
  have inv1: "room_inv r1"
    unfolding r1_def using none conn
    by (intro inv_writeClient[OF inv rd wf(1) conn(1)]) (auto simp: linked_def)
  show ?thesis
  proof (cases "fst (tryWriteAttachment i (ClientA c1) r)")
    case False
    then have "snd (relayClientCandidate now i current (j, s) digest p r) = r1"
      by (simp add: relayClientCandidate_def Let_def c1_def[symmetric] writeAttachment_def
          case_prod_unfold r1_def)
    then show ?thesis using inv1 by simp
  next
    case True
    then have w1: "writeAttachment i (ClientA c1) r = (Inr (), r1)"
      by (simp add: writeAttachment_def case_prod_unfold r1_def)
    have rd1: "readAttachment r1 = (readAttachment r)(i := Some (ClientA c1))"
      using wf(1) True by (simp add: r1_def tryWrite_read)
    have link2: "linked (sv_controlId s1) t d" if "readAttachment r1 k = Some (ClientA d)" "t \<in> set (sv_tickets s1)" for k d t
    proof (cases "t \<in> set (sv_tickets s)")
      case True
      then show ?thesis
        using that(1) none'[OF True] old[of k d t] conn
        by (auto simp: rd1 linked_def s1_def split: if_splits)
    next
      case False
      then have t: "t = new_ticket current digest (ps_bytes p)" using that(2) by (auto simp: s1_def)
      show ?thesis
      proof (cases "k = i")
        case True
        then show ?thesis
          using that(1) zero by (auto simp: t rd1 linked_def new_ticket_def c1_def)
      next
        case False
        then have "connectionId d \<noteq> connectionId b"
          using inv rd that(1) unfolding rd1 room_inv_def distinct_connections_def
          by (auto simp: fun_upd_def)
        then show ?thesis using conn by (simp add: t linked_def new_ticket_def)
      qed
    qed
    define r2 where "r2 = snd (tryWriteAttachment j (ServerA s1) r1)"
    have ji: "j \<noteq> i" using srv rd by auto
    then have srv1: "readAttachment r1 j = Some (ServerA u)" using srv by (simp add: rd1)
    have inv2: "room_inv r2"
      unfolding r2_def by (rule inv_writeServer[OF inv1 srv1 s1 _ link2]) (simp add: s1_def cid)
    show ?thesis
    proof (cases "fst (tryWriteAttachment j (ServerA s1) r1)")
      case False
      then have w2: "writeAttachment j (ServerA s1) r1 = (Inl PlatformFault, r2)"
        by (simp add: writeAttachment_def case_prod_unfold r2_def)
      show ?thesis
        using inv2 by (simp add: relayClientCandidate_def Let_def c1_def[symmetric] s1_def[symmetric] w1 w2)
    next
      case True
      then have w2: "writeAttachment j (ServerA s1) r1 = (Inr (), r2)"
        by (simp add: writeAttachment_def case_prod_unfold r2_def)
      have rd2: "readAttachment r2 = (readAttachment r1)(j := Some (ServerA s1))"
        using s1 True by (simp add: r2_def tryWrite_read)
      define r3 where "r3 = snd (sendFrame j (ps_serialized p) r2)"
      have rd3: "readAttachment r3 i = Some (ClientA c1)" "readAttachment r3 j = Some (ServerA s1)"
        using ji read_frame(1)[OF send_frame(1)[of j "ps_serialized p" r2]] by (simp_all add: r3_def rd2 rd1)
      have inv3: "room_inv r3" using inv2 by (simp add: r3_def)
      have fs: "room_inv (snd (failServer now j s1 out cl r3))" for out cl
        by (rule inv_failServer[OF inv3 rd3(2) server_torn_refl[OF s1]])
      define r4 where "r4 = snd (tryWriteAttachment i (ClientA c2) r3)"
      have lnk: "linked (sv_controlId v) t c2" if "readAttachment r3 k = Some (ServerA v)" "t \<in> set (sv_tickets v)" for k v t
        using inv3 rd3(1) that c2 unfolding room_inv_def all_linked_def by blast
      have inv4: "room_inv r4"
        unfolding r4_def by (rule inv_writeClient[OF inv3 rd3(1) wf(2) _ lnk]) (simp add: c2_def)
      have rd4: "\<exists>b. readAttachment r4 i = Some (ClientA b) \<and> client_same b c2"
        using rd3(1) wf(2) by (auto simp: r4_def tryWrite_read c2_def client_same_def)
      have fc: "room_inv (snd (failClient now i c2 out cl r4))" for out cl
        using rd4 inv_failClient[OF inv4 _ _ terminal_form_wf[OF wf(2)]] by blast
      obtain sent written where w34: "sendFrame j (ps_serialized p) r2 = (sent, r3)"
        "tryWriteAttachment i (ClientA c2) r3 = (written, r4)"
        by (simp add: r3_def r4_def prod_eq_iff)
      show ?thesis
        using inv3 inv4 fs fc
        by (cases sent; cases written)
          (simp_all add: relayClientCandidate_def Let_def c1_def[symmetric] s1_def[symmetric] w1 w2
            c2_def[symmetric] w34)
    qed
  qed
qed

text \<open>Tickets of a control as \<open>r\<close> had them, whatever was torn down since.\<close>

lemma snapshot_linked:
  assumes "room_inv r" "snapshot_of r x" "server_torn (snd x) s" "t \<in> set (sv_tickets s)"
    "readAttachment r k = Some (ClientA c)" "client_torn c c'"
  shows "linked (sv_controlId s) t c'"
proof -
  obtain b where b: "readAttachment r (fst x) = Some (ServerA b)" "server_torn b (snd x)"
    using assms(2) by (auto simp: snapshot_of_def)
  then obtain t0 where "t0 \<in> set (sv_tickets b)" "ticket_torn t0 t"
    using server_torn_trans[OF b(2) assms(3)] assms(4) by (auto simp: server_torn_def)
  moreover have "linked (sv_controlId b) t0 c"
    using assms(1,5) b(1) \<open>t0 \<in> set (sv_tickets b)\<close> by (auto simp: room_inv_def all_linked_def)
  moreover have "sv_controlId s = sv_controlId b"
    using b(2) assms(3) by (simp add: server_torn_def)
  ultimately show ?thesis using linked_torn[of "sv_controlId b" t0 c t c'] assms(6) by simp
qed

lemma awaiting_no_ticket:
  "linked x t c \<Longrightarrow> stage c = AwaitingCandidate \<Longrightarrow> tk_clientConnectionId t \<noteq> connectionId c"
  by (auto simp: linked_def)

lemma inv_failStale:
  assumes "room_inv r" "tears r r1" "readClientAttachment r i = Some current"
  shows "room_inv (snd (failClient now i current out cl r1))"
proof -
  have rd: "readAttachment r i = Some (ClientA current)" using assms(3) by (simp add: readClient_iff)
  show ?thesis
    by (rule room_inv_tears[OF assms(1) tears_failClient[OF assms(2) rd]])
      (simp_all add: client_same_def terminal_form_wf readClient_wf[OF assms(3)])
qed

lemma inv_beginClientTicket:
  assumes inv: "room_inv r" and p: "frame_ok p" "is_hex64 digest" "is_client_candidate (ps_signal p)"
  shows "room_inv (snd (beginClientTicket now i a digest bound live p r))"
proof -
  obtain res r1 where rec: "reconcileActiveServer now None r = (res, r1)" by fastforce
  have torn: "tears r r1" using tears_reconcile[OF tears_refl, of r now None] rec by simp
  have inv1: "room_inv r1" by (rule room_inv_tears[OF inv torn])
  show ?thesis
  proof (cases "readClientAttachment r i")
    case None
    then show ?thesis
      using p(3) rec inv1 by (auto simp: beginClientTicket_def Let_def inv_close split: sum.split)
  next
    case (Some current)
    note fail = inv_failStale[OF inv torn Some]
    show ?thesis
    proof (cases res)
      case (Inl e)
      then show ?thesis using p(3) rec inv1 by (simp add: beginClientTicket_def Let_def)
    next
      case (Inr server)
      have relay: "room_inv (snd (relayClientCandidate now i current
            (j, snd (pruneTicketList s now)) digest p r1))"
        if srv: "server = Some (j, s)" and st: "stage current = AwaitingCandidate"
          and fresh: "digest \<notin> set (map tk_digest (sv_tickets (snd (pruneTicketList s now))))"
            "length (sv_tickets (snd (pruneTicketList s now))) < MAX_RETAINED_TICKETS" for j s
      proof -
        define s' where "s' = snd (pruneTicketList s now)"
        have snap: "snapshot_of r (j, s)"
          using reconcile_snapshot[of now None r "(j, s)" r1] rec Inr srv by simp
        have wf: "server_wf s" using snap by (auto simp: snapshot_of_def dest: server_torn_wf)
        have pr: "server_torn s s'"
          using prune_torn[OF wf, of now "fst (pruneTicketList s now)" s'] by (simp add: s'_def)
        have rd: "readAttachment r i = Some (ClientA current)" using Some by (simp add: readClient_iff)
        obtain b where b: "readAttachment r1 i = Some (ClientA b)" "client_torn current b"
          using tears_att[OF torn, of i] rd by auto
        obtain u where u: "readAttachment r1 j = Some (ServerA u)"
          using snap tears_att[OF torn, of j] by (auto simp: snapshot_of_def)
        show ?thesis
          unfolding s'_def[symmetric]
        proof (rule inv_relayClientCandidate[OF inv1 b readClient_wf[OF Some] st u server_torn_wf[OF pr]])
          show "sv_controlId s' = sv_controlId u"
            using snap u pr tears_server_back[OF torn u] by (auto simp: snapshot_of_def server_torn_def)
          show "linked (sv_controlId s') t c" if "readAttachment r1 k = Some (ClientA c)" "t \<in> set (sv_tickets s')" for k c t
            using tears_client_back[OF torn that(1)] snapshot_linked[OF inv snap _ that(2)] pr by auto
          show "tk_clientConnectionId t \<noteq> connectionId current"
            if v: "readAttachment r1 k = Some (ServerA v)" and t: "t \<in> set (sv_tickets v)" for k v t
          proof -
            obtain v0 where "readAttachment r k = Some (ServerA v0)" "server_torn v0 v"
              using tears_server_back[OF torn v] by blast
            then have "snapshot_of r (k, v)" by (auto simp: snapshot_of_def)
            then show ?thesis
              using snapshot_linked[OF inv _ _ t rd client_torn_refl, of "(k, v)"] st
                server_torn_refl[OF server_torn_wf[OF \<open>server_torn v0 v\<close>]] awaiting_no_ticket by auto
          qed
          show "tk_clientConnectionId t \<noteq> connectionId current" if "t \<in> set (sv_tickets s')" for t
            using snapshot_linked[OF inv snap _ that rd client_torn_refl] pr st awaiting_no_ticket by auto
        qed (use fresh p in \<open>auto simp: s'_def\<close>)
      qed
      show ?thesis
        using p(3) rec fail relay Inr
        by (auto simp: beginClientTicket_def Let_def Some split: option.split)
    qed
  qed
qed

subsection \<open>Relaying a server's frame\<close>

lemma budget_wf:
  assumes "ticket_wf t" "tk_stage t = TicketActive" "applyServerFrameBudget t kind b = Some t1" "1 \<le> b"
    "t2 = (if kind = CompleteFrame then t1\<lparr>tk_stage := TicketTerminal\<rparr> else t1)"
  shows "ticket_wf t2" "tk_digest t2 = tk_digest t" "tk_clientConnectionId t2 = tk_clientConnectionId t"
    "tk_serverCandidates t \<le> tk_serverCandidates t2"
    "kind = ServerCandidateFrame \<Longrightarrow>
       tk_serverCandidates t2 = tk_serverCandidates t + 1 \<and> tk_completionCount t2 = 0"
    "kind = CompleteFrame \<Longrightarrow>
       tk_serverCandidates t2 = tk_serverCandidates t \<and> tk_completionCount t2 = 1"
proof -
  show "ticket_wf t2" "tk_digest t2 = tk_digest t" "tk_clientConnectionId t2 = tk_clientConnectionId t"
    "tk_serverCandidates t \<le> tk_serverCandidates t2"
    using assms by (cases kind; auto simp: applyServerFrameBudget_def ticket_wf_def split: if_splits)+
  show "kind = ServerCandidateFrame \<Longrightarrow>
       tk_serverCandidates t2 = tk_serverCandidates t + 1 \<and> tk_completionCount t2 = 0"
    "kind = CompleteFrame \<Longrightarrow>
       tk_serverCandidates t2 = tk_serverCandidates t \<and> tk_completionCount t2 = 1"
    using assms by (auto simp: applyServerFrameBudget_def ticket_wf_def split: if_splits)
qed

text \<open>Replacing one ticket, found by its digest, keeps the rest of the list.\<close>

lemma put_ticket_wf:
  assumes "server_wf s" "t \<in> set (sv_tickets s)" "ticket_wf t2" "tk_digest t2 = tk_digest t"
    "tk_clientConnectionId t2 = tk_clientConnectionId t"
  shows "server_wf (put_ticket s t2)"
    and "u \<in> set (sv_tickets (put_ticket s t2)) \<Longrightarrow>
      u = t2 \<or> (u \<in> set (sv_tickets s) \<and> tk_clientConnectionId u \<noteq> tk_clientConnectionId t)"
proof -
  let ?ts = "sv_tickets s" and ?us = "sv_tickets (put_ticket s t2)"
  have same: "u = t" if "u \<in> set ?ts" "tk_digest u = tk_digest t" for u
    using assms(1,2) that by (auto simp: server_wf_def distinct_map inj_on_def)
  have upd: "?us = map (\<lambda>u. if tk_digest u = tk_digest t then t2 else u) ?ts"
  proof -
    have "update_first (\<lambda>u. tk_digest u = d) (\<lambda>_. t2) ts =
        map (\<lambda>u. if tk_digest u = d then t2 else u) ts" if "distinct (map tk_digest ts)" for ts d
      using that by (induction ts) (auto simp: image_iff intro!: map_idI[symmetric])
    then show ?thesis using assms(1,4) by (simp add: put_ticket_def server_wf_def)
  qed
  have maps: "map tk_digest ?us = map tk_digest ?ts"
    "map tk_clientConnectionId ?us = map tk_clientConnectionId ?ts"
    unfolding upd using same assms(4,5) by auto
  have "list_all ticket_wf ?us"
    using assms(1,3) by (auto simp: upd list_all_iff server_wf_def)
  then show "server_wf (put_ticket s t2)"
    using assms(1) maps arg_cong[OF maps(1), of length]
    by (auto simp: server_wf_def put_ticket_def)
  show "u \<in> set ?us \<Longrightarrow> u = t2 \<or> (u \<in> set ?ts \<and> tk_clientConnectionId u \<noteq> tk_clientConnectionId t)"
    using same assms(1,2) by (auto simp: upd server_wf_def distinct_map inj_on_def)
qed

lemma put_ticket_fields [simp]:
  "sv_controlId (put_ticket s t) = sv_controlId s" "sv_generation (put_ticket s t) = sv_generation s"
  "sv_current (put_ticket s t) = sv_current s"
  by (simp_all add: put_ticket_def)

lemma copy_fields [simp]:
  "connectionId (copyTicketBudgetToClient a t) = connectionId a"
  "controlId (copyTicketBudgetToClient a t) = controlId a"
  "stage (copyTicketBudgetToClient a t) = stage a"
  "serverCandidates (copyTicketBudgetToClient a t) = tk_serverCandidates t"
  "framesForwarded (copyTicketBudgetToClient a t) = framesForwarded a"
  by (simp_all add: copyTicketBudgetToClient_def)

lemma copy_wf:
  assumes "client_wf a" "stage a = CandidateExchange" "ticket_wf t2"
    "framesForwarded a + x \<le> 1 + tk_serverCandidates t2 + tk_completionCount t2" "x = 0 \<or> x = 1"
  shows "tk_completionCount t2 = 0 \<Longrightarrow>
      client_wf ((copyTicketBudgetToClient a t2)\<lparr>framesForwarded := framesForwarded a + x\<rparr>)"
    and "client_wf (terminal_form ((copyTicketBudgetToClient a t2)\<lparr>framesForwarded := framesForwarded a + x\<rparr>) out)"
proof -
  let ?c = "(copyTicketBudgetToClient a t2)\<lparr>framesForwarded := framesForwarded a + x\<rparr>"
  have acc: "access_wf ?c = access_wf a"
    by (simp add: access_wf_def copyTicketBudgetToClient_def cong: option.case_cong)
  show "client_wf ?c" if "tk_completionCount t2 = 0"
    using assms that acc
    by (auto simp: client_wf_def stage_wf_def ticket_wf_def copyTicketBudgetToClient_def attachment_bounds)
  show "client_wf (terminal_form ?c out)"
    using assms
    by (auto simp: terminal_form_def scrubClient_def client_wf_def stage_wf_def access_wf_def
        ticket_wf_def copyTicketBudgetToClient_def attachment_bounds)
qed

lemma client_same_copy:
  "client_same a ((copyTicketBudgetToClient a t2)\<lparr>framesForwarded := x\<rparr>)"
  "client_same a (copyTicketBudgetToClient a t2)"
  by (simp_all add: client_same_def copyTicketBudgetToClient_def)

text \<open>
  \<open>r\<close> is the room in which the control's list and the client were read, \<open>r1\<close> the one
  the relay runs in, with only teardown in between.
\<close>

lemma inv_relayServerFrame:
  assumes inv: "room_inv r" and torn: "tears r r1" and snap: "snapshot_of r (i, s)"
    and t: "t \<in> set (sv_tickets s)" "tk_stage t = TicketActive"
    and rd: "readAttachment r k = Some (ClientA a)" and st: "stage a = CandidateExchange"
    and own: "controlId a = sv_controlId s" "tk_clientConnectionId t = connectionId a"
    and p: "frame_ok p"
  shows "room_inv (snd (relayServerFrame now i s t k a p r1))"
proof -
  define kind where "kind = frame_kind_of (ps_signal p)"
  have s: "server_wf s" using snap by (auto simp: snapshot_of_def dest: server_torn_wf)
  have wf: "client_wf a" using readAttachment_wf[OF rd] by simp
  have tw: "ticket_wf t" using s t(1) by (auto simp: server_wf_def list_all_iff)
  have inv1: "room_inv r1" by (rule room_inv_tears[OF inv torn])
  have auth: "tk_authorization t = TicketNotRequired" by (cases "tk_authorization t") simp
  have bytes: "1 \<le> ps_bytes p" using p by (simp add: frame_ok_def)
  obtain v where "readAttachment r i = Some (ServerA v)" "server_torn v s"
    using snap by (auto simp: snapshot_of_def)
  note fs = room_inv_tears[OF inv tears_failServer[OF torn this]]
  obtain u where u: "readAttachment r1 i = Some (ServerA u)" "sv_controlId u = sv_controlId s"
    using snap tears_att[OF torn, of i] by (auto simp: snapshot_of_def server_torn_def)
  obtain b where b: "readAttachment r1 k = Some (ClientA b)" "client_torn a b"
    using tears_att[OF torn, of k] rd by auto
  have same: "client_same a b" using b(2) by (auto simp: client_torn_def client_same_def)
  have ik: "i \<noteq> k" using u(1) b(1) by auto
  have old: "linked (sv_controlId s) x c"
    if "readAttachment r1 j = Some (ClientA c)" "x \<in> set (sv_tickets s)" for j c x
    using tears_client_back[OF torn that(1)] snapshot_linked[OF inv snap _ that(2)] s
    by (auto simp: server_torn_refl)
  have cand: "serverCandidates a \<le> tk_serverCandidates t"
    using snapshot_linked[OF inv snap _ t(1) rd client_torn_refl] s t(2) st own
    by (auto simp: server_torn_refl linked_def)
  show ?thesis
  proof (cases "applyServerFrameBudget t kind (ps_bytes p)")
    case None
    then show ?thesis
      using fs auth by (simp add: relayServerFrame_def Let_def kind_def[symmetric])
  next
    case (Some t1)
    define t2 where "t2 = (if kind = CompleteFrame then t1\<lparr>tk_stage := TicketTerminal\<rparr> else t1)"
    note bud = budget_wf[OF tw t(2) Some bytes t2_def]
    define a1 where "a1 = copyTicketBudgetToClient a t2"
    define a2 where "a2 = a1\<lparr>framesForwarded := framesForwarded a1 + 1\<rparr>"
    define s2 where "s2 = put_ticket s t2"
    have s2: "server_wf s2" "x \<in> set (sv_tickets s2) \<Longrightarrow> x = t2 \<or>
        (x \<in> set (sv_tickets s) \<and> tk_clientConnectionId x \<noteq> tk_clientConnectionId t)" for x
      using put_ticket_wf[OF s t(1) bud(1,2,3)] by (simp_all add: s2_def)
    have comp: "tk_completionCount t2 \<ge> 0" "kind = CompleteFrame \<longrightarrow> tk_completionCount t2 = 1"
      "kind \<noteq> CompleteFrame \<longrightarrow> tk_completionCount t2 = 0 \<and> tk_serverCandidates t2 = tk_serverCandidates t + 1"
      using bud(5,6) by (cases kind; simp)+
    have ffw: "framesForwarded a \<le> 1 + serverCandidates a"
      using wf st by (simp add: client_wf_def stage_wf_def attachment_bounds)
    have ff: "framesForwarded a + 1 \<le> 1 + tk_serverCandidates t2 + tk_completionCount t2"
      using ffw cand comp bud(4) by (cases kind) auto
    have a1: "kind \<noteq> CompleteFrame \<Longrightarrow> client_wf a1" "client_wf (terminal_form a1 x)" for x
      using copy_wf[OF wf st bud(1), of 0] ff comp by (simp_all add: a1_def copyTicketBudgetToClient_def)
    have a2: "kind \<noteq> CompleteFrame \<Longrightarrow> client_wf a2" "client_wf (terminal_form a2 x)" for x
      using copy_wf[OF wf st bud(1), of 1] ff comp by (simp_all add: a1_def a2_def)
    define r2 where "r2 = snd (tryWriteAttachment i (ServerA s2) r1)"
    have l2: "linked (sv_controlId s2) x c"
      if "readAttachment r1 j = Some (ClientA c)" "x \<in> set (sv_tickets s2)" for j c x
      using s2(2)[OF that(2)] old[OF that(1)] old[OF that(1) t(1)] bud(3,4) t(2)
      by (auto simp: linked_def s2_def)
    have inv2: "room_inv r2"
      unfolding r2_def by (rule inv_writeServer[OF inv1 u(1) s2(1) _ l2]) (simp add: s2_def u(2))
    show ?thesis
    proof (cases "fst (tryWriteAttachment i (ServerA s2) r1)")
      case False
      then have "writeAttachment i (ServerA s2) r1 = (Inl PlatformFault, r2)"
        by (simp add: writeAttachment_def case_prod_unfold r2_def)
      then show ?thesis
        using inv2 auth Some st by (simp add: relayServerFrame_def Let_def kind_def[symmetric]
            t2_def[symmetric] a1_def[symmetric] s2_def[symmetric])
    next
      case True
      then have w1: "writeAttachment i (ServerA s2) r1 = (Inr (), r2)"
        by (simp add: writeAttachment_def case_prod_unfold r2_def)
      have rd2: "readAttachment r2 = (readAttachment r1)(i := Some (ServerA s2))"
        using s2(1) True by (simp add: r2_def tryWrite_read)
      have link: "linked (sv_controlId v) x c"
        if c: "connectionId c = connectionId a" "controlId c = controlId a" "stage c = CandidateExchange"
          "serverCandidates c = tk_serverCandidates t2"
          and v: "readAttachment r2 j = Some (ServerA v)" "x \<in> set (sv_tickets v)" for j v x c
      proof (cases "j = i")
        case True
        then have "v = s2" using v(1) by (simp add: rd2)
        then show ?thesis using s2(2) v(2) c own by (auto simp: linked_def)
      next
        case False
        then have v1: "readAttachment r1 j = Some (ServerA v)" using v(1) by (simp add: rd2)
        have "sv_controlId v \<noteq> sv_controlId s"
          using inv1 v1 u False unfolding room_inv_def distinct_controls_def by metis
        moreover have "\<exists>v0. readAttachment r j = Some (ServerA v0) \<and> server_torn v0 v"
          using tears_server_back[OF torn v1] .
        then have "linked (sv_controlId v) x a"
          using snapshot_linked[OF inv, of "(j, v)" v x k a a] rd v(2)
          by (auto simp: snapshot_of_def server_torn_refl server_torn_wf)
        ultimately show ?thesis using c own by (auto simp: linked_def)
      qed
      have rdk: "readAttachment r2 k = Some (ClientA b)" using b(1) ik by (simp add: rd2)
      have same1: "client_same b a1" "client_same b a2" "client_same a1 a1" "client_same a1 a2"
        using same by (auto simp: client_same_def a1_def a2_def copyTicketBudgetToClient_def)
      have fields: "connectionId a1 = connectionId a" "controlId a1 = controlId a"
        "stage a1 = CandidateExchange" "serverCandidates a1 = tk_serverCandidates t2"
        "connectionId a2 = connectionId a" "controlId a2 = controlId a"
        "stage a2 = CandidateExchange" "serverCandidates a2 = tk_serverCandidates t2"
        using st by (simp_all add: a1_def a2_def)
      have conn: "connectionId b = connectionId a" using same by (simp add: client_same_def)
      have eq: "relayServerFrame now i s t k a p r1 =
        (case (if kind = CompleteFrame then (Inr (), r2) else writeAttachment k (ClientA a1) r2) of
           (Inl e, r3) \<Rightarrow> (Inl e, r3)
         | (Inr _, r3) \<Rightarrow>
             (case sendFrame k (ps_serialized p) r3 of
                (False, r4) \<Rightarrow> torn_result (failClient now k a1 InternalError close_internalError r4)
              | (True, r4) \<Rightarrow>
                  if kind = CompleteFrame
                  then torn_result (failClient now k a2 Completed NORMAL_RENDEZVOUS_CLOSE r4)
                  else writeAttachment k (ClientA a2) r4))"
        unfolding relayServerFrame_def Let_def kind_def[symmetric] auth Some st simp_thms if_False
          option.case t2_def[symmetric] a1_def[symmetric] a2_def[symmetric] s2_def[symmetric] w1
          prod.case sum.case ..
      show ?thesis
      proof (cases "kind = CompleteFrame")
        case True
        obtain sent r3 where w3: "sendFrame k (ps_serialized p) r2 = (sent, r3)" by fastforce
        have inv3: "room_inv r3" using inv2 inv_send[of k "ps_serialized p" r2] w3 by simp
        have rd3: "readAttachment r3 k = Some (ClientA b)"
          using rdk read_frame(1)[OF send_frame(1)[of k "ps_serialized p" r2]] w3 by simp
        show ?thesis
          using True w3 inv_failClient[OF inv3 rd3 same1(1) a1(2)]
            inv_failClient[OF inv3 rd3 same1(2) a2(2)]
          by (cases sent) (simp_all add: eq)
      next
        case False
        define r3 where "r3 = snd (tryWriteAttachment k (ClientA a1) r2)"
        have inv3: "room_inv r3"
          unfolding r3_def
          by (rule inv_writeClient[OF inv2 rdk a1(1)[OF False]]) (use fields conn link in auto)
        show ?thesis
        proof (cases "fst (tryWriteAttachment k (ClientA a1) r2)")
          case w: False
          then have "writeAttachment k (ClientA a1) r2 = (Inl PlatformFault, r3)"
            by (simp add: writeAttachment_def case_prod_unfold r3_def)
          then show ?thesis
            using inv3 False by (simp add: eq)
        next
          case w: True
          then have w3: "writeAttachment k (ClientA a1) r2 = (Inr (), r3)"
            by (simp add: writeAttachment_def case_prod_unfold r3_def)
          obtain sent r4 where w4: "sendFrame k (ps_serialized p) r3 = (sent, r4)" by fastforce
          have inv4: "room_inv r4" using inv3 inv_send[of k "ps_serialized p" r3] w4 by simp
          have rd4: "readAttachment r4 = (readAttachment r2)(k := Some (ClientA a1))"
            using read_frame(1)[OF send_frame(1)[of k "ps_serialized p" r3]] w4 w a1(1)[OF False]
            by (simp add: r3_def tryWrite_read)
          then have rdk4: "readAttachment r4 k = Some (ClientA a1)" by simp
          have lnk: "linked (sv_controlId v) x a2"
            if "readAttachment r4 j = Some (ServerA v)" "x \<in> set (sv_tickets v)" for j v x
            using that link[OF fields(5-8)] by (auto simp: rd4 split: if_splits)
          have "room_inv (snd (tryWriteAttachment k (ClientA a2) r4))"
            by (rule inv_writeClient[OF inv4 rdk4 a2(1)[OF False] _ lnk]) (simp add: fields)
          then show ?thesis
            using False w3 w4 inv_failClient[OF inv4 rdk4 same1(3) a1(2)]
            by (cases sent) (simp_all add: eq)
        qed
      qed
    qed
  qed
qed

lemma findTicketClient_Some:
  assumes "findTicketClient s t raw now r = Some (k, a)"
  shows "tk_stage t = TicketActive \<and> tk_expiresAt t > now \<and> is_open r k \<and>
    readClientAttachment r k = Some a \<and> ticket_client_matches s t raw now a"
proof -
  have gate: "\<not> (tk_stage t \<noteq> TicketActive \<or> tk_expiresAt t \<le> now)"
    using assms by (auto simp: findTicketClient_def split: if_split_asm)
  with assms obtain i where i: "find (\<lambda>i. is_open r i \<and>
        (case readClientAttachment r i of None \<Rightarrow> False | Some a \<Rightarrow> ticket_client_matches s t raw now a))
      (getWebSockets ClientRole r) = Some i" "map_option (\<lambda>a. (i, a)) (readClientAttachment r i) = Some (k, a)"
    by (auto simp: findTicketClient_def split: option.splits)
  with gate show ?thesis by (auto simp: find_Some_iff)
qed

lemma active_stage:
  "client_wf a \<Longrightarrow> stage a \<noteq> Terminal \<Longrightarrow> ticket a \<noteq> None \<Longrightarrow> stage a = CandidateExchange"
  by (cases "stage a") (auto simp: client_wf_def stage_wf_def)

text \<open>A target that needs no access check satisfies the hypotheses of the relay.\<close>

lemma locate_target:
  assumes inv: "room_inv r"
    and loc: "locateServerTarget now i s0 digest p r = (x, r1)"
    and x: "x = RelayTo s t k a \<or> x = CheckAccess s t k a"
  shows "tears r r1 \<and> snapshot_of r (i, s) \<and> t \<in> set (sv_tickets s) \<and> tk_stage t = TicketActive \<and>
    tk_expiresAt t > now \<and> tk_digest t = digest \<and> is_open r1 k \<and>
    readAttachment r k = Some (ClientA a) \<and> stage a = CandidateExchange \<and>
    ticket_client_matches s t (signal_ticket (ps_signal p)) now a"
proof -
  obtain res r2 where rec: "reconcileActiveServer now None r = (res, r2)" by fastforce
  have torn: "tears r r2" using tears_reconcile[OF tears_refl, of r now None] rec by simp
  obtain current act where res: "res = Inr (Some act)" "readServerAttachment r i = Some current"
    using loc x rec by (auto simp: locateServerTarget_def Let_def split: sum.splits option.splits)
  have s: "s = snd (pruneTicketList current now)" "r1 = r2"
    "find (\<lambda>t. tk_digest t = digest) (sv_tickets s) = Some t"
    "findTicketClient s t (signal_ticket (ps_signal p)) now r2 = Some (k, a)"
    using loc x rec res
    by (auto simp: locateServerTarget_def Let_def split: option.splits if_splits prod.splits)
  have wf: "server_wf current" by (rule readServer_wf[OF res(2)])
  have "server_torn current s"
    using prune_torn[OF wf, of now "fst (pruneTicketList current now)" s] by (simp add: s(1))
  then have snap: "snapshot_of r (i, s)" using res(2) by (auto simp: snapshot_of_def readServer_iff)
  note f = findTicketClient_Some[OF s(4)]
  have a: "readAttachment r2 k = Some (ClientA a)" using f by (simp add: readClient_iff)
  then obtain a0 where a0: "readAttachment r k = Some (ClientA a0)" "client_torn a0 a"
    using tears_client_back[OF torn a] by blast
  moreover have "stage a \<noteq> Terminal" using f by (simp add: ticket_client_matches_def)
  ultimately have "a0 = a" by (auto simp: client_torn_def)
  moreover have "stage a = CandidateExchange"
    using f readAttachment_wf[OF a] by (intro active_stage) (auto simp: ticket_client_matches_def)
  ultimately show ?thesis
    using torn snap f a0(1) s by (auto simp: find_Some_iff)
qed

lemma inv_locate:
  assumes inv: "room_inv r" and p: "frame_ok p"
  shows "room_inv (snd (locateServerTarget now i s0 digest p r))"
proof -
  obtain res r1 where rec: "reconcileActiveServer now None r = (res, r1)" by fastforce
  have torn: "tears r r1" using tears_reconcile[OF tears_refl, of r now None] rec by simp
  have inv1: "room_inv r1" by (rule room_inv_tears[OF inv torn])
  show ?thesis
  proof (cases "readServerAttachment r i")
    case None
    then show ?thesis
      using rec inv1 by (auto simp: locateServerTarget_def Let_def inv_close split: sum.split)
  next
    case (Some current)
    define s where "s = snd (pruneTicketList current now)"
    have wf: "server_wf current" by (rule readServer_wf[OF Some])
    have rd: "readAttachment r i = Some (ServerA current)" using Some by (simp add: readServer_iff)
    have pr: "server_torn current s"
      using prune_torn[OF wf, of now "fst (pruneTicketList current now)" s] by (simp add: s_def)
    note fs = room_inv_tears[OF inv tears_failServer[OF torn rd pr]]
    obtain u where u: "readAttachment r1 i = Some (ServerA u)" "sv_controlId u = sv_controlId s"
      using tears_att[OF torn, of i] rd pr by (auto simp: server_torn_def)
    have w: "room_inv (snd (tryWriteAttachment i (ServerA (put_ticket s (t1\<lparr>tk_stage := TicketTerminal\<rparr>))) r1))"
      if t: "find (\<lambda>t. tk_digest t = digest) (sv_tickets s) = Some t"
        and b: "applyServerFrameBudget t (frame_kind_of (ps_signal p)) (ps_bytes p) = Some t1" for t t1
    proof -
      have mem: "t \<in> set (sv_tickets s)" using t by (auto simp: find_Some_iff)
      have tw: "ticket_wf t" using server_torn_wf[OF pr] mem by (auto simp: server_wf_def list_all_iff)
      let ?t2 = "t1\<lparr>tk_stage := TicketTerminal\<rparr>"
      have t2: "ticket_wf ?t2" "tk_digest ?t2 = tk_digest t"
        "tk_clientConnectionId ?t2 = tk_clientConnectionId t"
        using tw b p by (auto simp: applyServerFrameBudget_def ticket_wf_def frame_ok_def split: if_splits)
      note put = put_ticket_wf[OF server_torn_wf[OF pr] mem t2]
      have old: "linked (sv_controlId s) x c"
        if "readAttachment r1 j = Some (ClientA c)" "x \<in> set (sv_tickets s)" for j c x
        using tears_client_back[OF torn that(1)] snapshot_linked[OF inv snapshot_of_read[OF Some] _ that(2)] pr
        by auto
      show ?thesis
      proof (rule inv_writeServer[OF inv1 u(1) put(1)])
        fix j c x
        assume c: "readAttachment r1 j = Some (ClientA c)" and "x \<in> set (sv_tickets (put_ticket s ?t2))"
        then show "linked (sv_controlId (put_ticket s ?t2)) x c"
          using put(2)[of x] old[OF c] old[OF c mem] t2(3) by (auto simp: linked_def)
      qed (simp add: u(2))
    qed
    show ?thesis
      using rec inv1 fs w
      by (auto simp: locateServerTarget_def Let_def Some s_def[symmetric] inv_close
          split: sum.split option.split)
  qed
qed

lemma inv_handleServerMessage:
  assumes inv: "room_inv r" and p: "frame_ok p"
  shows "room_inv (snd (handleServerMessage now i s0 digest p r))"
proof -
  obtain x r1 where loc: "locateServerTarget now i s0 digest p r = (x, r1)" by fastforce
  have inv1: "room_inv r1" using inv_locate[OF inv p, of now i s0 digest] loc by simp
  show ?thesis
  proof (cases x)
    case (RelayTo s t k a)
    with locate_target[OF inv loc] have "room_inv (snd (relayServerFrame now i s t k a p r1))"
      by (intro inv_relayServerFrame[OF inv _ _ _ _ _ _ _ _ p]) (auto simp: ticket_client_matches_def)
    then show ?thesis by (simp add: handleServerMessage_def loc RelayTo Let_def)
  qed (simp_all add: handleServerMessage_def loc inv1)
qed

subsection \<open>The segments after an access check\<close>

lemma inv_recheckTarget:
  assumes inv: "room_inv r"
    and same: "\<And>c. readClientAttachment r k = Some c \<Longrightarrow> connectionId c = connectionId a \<Longrightarrow>
        controlId c = sv_controlId s"
    and rc: "recheckTarget now i s digest k a live r = (x, r1)"
  shows "room_inv r1"
    and "frame_ok p \<Longrightarrow> x = RelayTo s' t k' c \<Longrightarrow> room_inv (snd (relayServerFrame now i s' t k' c p r1))"
proof -
  obtain res r2 where rec: "reconcileActiveServer now None r = (res, r2)" by fastforce
  have torn: "tears r r2" using tears_reconcile[OF tears_refl, of r now None] rec by simp
  have inv2: "room_inv r2" by (rule room_inv_tears[OF inv torn])
  show "room_inv r1"
  proof (cases "readClientAttachment r k")
    case None
    then show ?thesis
      using rc rec inv2 by (auto simp: recheckTarget_def Let_def split: sum.splits)
  next
    case (Some latest)
    show ?thesis
      using rc rec inv2 inv_failStale[OF inv torn Some, of now AuthorizationFailed close_authorizationFailed]
      by (auto simp: recheckTarget_def Let_def Some
          split: sum.splits option.splits if_splits prod.splits)
  qed
  show "room_inv (snd (relayServerFrame now i s' t k' c p r1))"
    if p: "frame_ok p" and x: "x = RelayTo s' t k' c"
  proof -
    obtain j where res: "res = Inr (Some (j, s'))" and latest: "readClientAttachment r k = Some c"
      using rc rec x by (auto simp: recheckTarget_def Let_def
          split: sum.splits option.splits if_splits prod.splits)
    have g: "k' = k" "r1 = r2" "stage c \<noteq> Terminal" "connectionId c = connectionId a" "j = i"
      "sv_controlId s' = sv_controlId s" "tk_stage t = TicketActive"
      "find (\<lambda>t. tk_digest t = digest \<and> tk_clientConnectionId t = connectionId c) (sv_tickets s') = Some t"
      using rc rec x res latest by (auto simp: recheckTarget_def Let_def
          split: option.splits if_splits prod.splits)
    have snap: "snapshot_of r (i, s')"
      using reconcile_snapshot[of now None r "(j, s')" r2] rec res g(5) by simp
    have mem: "t \<in> set (sv_tickets s')" "tk_clientConnectionId t = connectionId c"
      using g(8) by (auto simp: find_Some_iff)
    have rd: "readAttachment r k = Some (ClientA c)" using latest by (simp add: readClient_iff)
    have "server_wf s'" using snap by (auto simp: snapshot_of_def dest: server_torn_wf)
    then have "linked (sv_controlId s') t c"
      using snapshot_linked[OF inv snap _ mem(1) rd client_torn_refl] by (simp add: server_torn_refl)
    then have "stage c = CandidateExchange"
      using mem(2) g(3) by (cases "stage c") (auto simp: linked_def)
    then show ?thesis
      using inv_relayServerFrame[OF inv torn snap mem(1) g(7) rd _ _ mem(2) p] same[OF latest g(4)] g
      by simp
  qed
qed

definition max_date :: int where
  "max_date = 8640000000000000"

lemma confirmed_wf:
  assumes "client_wf c" "authorization c = AwaitingInit" "accessGrant c \<noteq> None"
    "1 \<le> secs" "secs * 1000 \<le> MAX_SESSION_MS" "openedAt c \<le> max_date"
  shows "client_wf (c\<lparr>authorization := NotRequired,
      expiresAt := min (openedAt c + secs * 1000) (the (accessExpiresAt c))\<rparr>)"
proof -
  have st: "stage c = AwaitingCandidate"
    using assms(1,2) by (cases "stage c") (auto simp: client_wf_def stage_wf_def)
  obtain e where e: "accessExpiresAt c = Some e" "openedAt c < e" "e \<le> openedAt c + MAX_SESSION_MS"
    using assms(1,3) by (auto simp: client_wf_def access_wf_def split: option.splits)
  have "access_wf (c\<lparr>authorization := NotRequired,
      expiresAt := min (openedAt c + secs * 1000) (the (accessExpiresAt c))\<rparr>) = access_wf c"
    by (simp add: access_wf_def cong: option.case_cong)
  then show ?thesis
    using assms st e
    by (auto simp: client_wf_def stage_wf_def attachment_bounds max_date_def max_safe_integer_def)
qed

lemma no_ticket_after:
  assumes "room_inv r" "tears r r1" "readAttachment r i = Some (ClientA c)" "stage c = AwaitingCandidate"
    "readAttachment r1 k = Some (ServerA v)" "t \<in> set (sv_tickets v)"
  shows "tk_clientConnectionId t \<noteq> connectionId c"
proof -
  obtain v0 where v0: "readAttachment r k = Some (ServerA v0)" "server_torn v0 v"
    using tears_server_back[OF assms(2,5)] by blast
  then have "snapshot_of r (k, v)" by (auto simp: snapshot_of_def)
  then show ?thesis
    using snapshot_linked[OF assms(1) _ _ assms(6,3) client_torn_refl, of "(k, v)"] assms(4)
      server_torn_refl[OF server_torn_wf[OF v0(2)]] awaiting_no_ticket by auto
qed

lemma inv_acceptAccessInit:
  assumes inv: "room_inv r" and secs: "1 \<le> secs" "secs * 1000 \<le> MAX_SESSION_MS"
    and date: "\<And>c. readClientAttachment r i = Some c \<Longrightarrow> openedAt c \<le> max_date"
  shows "room_inv (snd (acceptAccessInit now i a grant nonce live secs r))"
proof -
  obtain res r1 where rec: "reconcileActiveServer now None r = (res, r1)" by fastforce
  have torn: "tears r r1" using tears_reconcile[OF tears_refl, of r now None] rec by simp
  have inv1: "room_inv r1" by (rule room_inv_tears[OF inv torn])
  show ?thesis
  proof (cases "readClientAttachment r i")
    case None
    then show ?thesis
      using rec inv1 by (auto simp: acceptAccessInit_def Let_def inv_close split: sum.split)
  next
    case (Some c)
    define c1 where "c1 = c\<lparr>authorization := NotRequired,
      expiresAt := min (openedAt c + secs * 1000) (the (accessExpiresAt c))\<rparr>"
    have rd: "readAttachment r i = Some (ClientA c)" using Some by (simp add: readClient_iff)
    obtain b where b: "readAttachment r1 i = Some (ClientA b)" "client_torn c b"
      using tears_att[OF torn, of i] rd by auto
    have w: "room_inv (snd (tryWriteAttachment i (ClientA c1) r1))"
      if g: "authorization c = AwaitingInit" "accessGrant c = Some grant"
    proof -
      have wf: "client_wf c1"
        unfolding c1_def using confirmed_wf[OF readClient_wf[OF Some] g(1) _ secs date[OF Some]] g by simp
      have st: "stage c = AwaitingCandidate"
        using readClient_wf[OF Some] g(1) by (cases "stage c") (auto simp: client_wf_def stage_wf_def)
      show ?thesis
      proof (rule inv_writeClient[OF inv1 b(1) wf])
        show "connectionId c1 = connectionId b" using b(2) by (auto simp: c1_def client_torn_def)
        show "linked (sv_controlId v) t c1"
          if "readAttachment r1 j = Some (ServerA v)" "t \<in> set (sv_tickets v)" for j v t
          using no_ticket_after[OF inv torn rd st that] by (simp add: linked_def c1_def)
      qed
    qed
    have w': "room_inv r2" if "writeAttachment i (ClientA c1) r1 = (x, r2)"
      "authorization c = AwaitingInit" "accessGrant c = Some grant" for x r2
      using w that writeAttachment_snd[of i "ClientA c1" r1] by simp
    have sent: "room_inv r3" if "sendFrame i f r2 = (x, r3)" "room_inv r2" for f x r2 r3
      using that inv_send[of i f r2] by simp
    show ?thesis
      using rec inv1 w' sent
        inv_failStale[OF inv torn Some, of now AuthorizationFailed close_authorizationFailed]
      by (auto simp: acceptAccessInit_def Let_def Some c1_def[symmetric]
          split: sum.split option.split prod.split bool.split)
  qed
qed

subsection \<open>Properties\<close>

text \<open>
  The message handlers keep the room's invariant for every accepted frame, every
  pattern of platform faults and every state the awaits left: in particular every
  attachment they store is one the strict decoder accepts.
\<close>

theorem messages_keep_invariant:
  assumes "room_inv r" "frame_ok p" "is_hex64 digest"
  shows "room_inv (snd (handleServerMessage now i s0 digest p r)) \<and>
    (is_client_candidate (ps_signal p) \<longrightarrow>
     room_inv (snd (beginClientTicket now i a digest bound live p r)))"
  using inv_handleServerMessage[OF assms(1,2)] inv_beginClientTicket[OF assms(1,2,3)] by blast

definition example_frame :: parsed_signal where
  "example_frame = \<lparr> ps_signal = ClientCandidate ''192.0.2.1'' 13327 (replicate 64 CHR ''2''),
     ps_serialized = ''frame'', ps_bytes = 160 \<rparr>"

lemma example_frame_ok [simp]: "frame_ok example_frame" "is_client_candidate (ps_signal example_frame)"
  by (simp_all add: frame_ok_def example_frame_def is_hex_digit_def MAX_SIGNAL_BYTES_def)

theorem messages_keep_invariant_witness:
  "room_inv (snd (beginClientTicket 2000 1 example_client (replicate 64 CHR ''3'')
     (replicate 64 CHR ''1'') True example_frame (example_room (\<lambda>n. n \<noteq> 1))))"
  using messages_keep_invariant[OF example_room_inv example_frame_ok(1),
      of "replicate 64 CHR ''3''"] by (simp add: is_hex_digit_def)

lemma example_reconcile:
  "reconcileActiveServer now None (example_room plat) = (Inr (Some (0, example_server)), example_room plat)"
proof -
  have "currentOpenServers None (example_room plat) = [(0, example_server)]"
    by (simp add: currentOpenServers_def example_room_server List.map_filter_simps example_server_def)
  moreover have "retryPendingServerTeardowns now (example_room plat) = (True, example_room plat)"
    by (simp add: retryPendingServerTeardowns_def retryServerStep_def)
  ultimately show ?thesis by (simp add: reconcileActiveServer_def Let_def)
qed

text \<open>
  The per-ticket budget of a control's frames: an accepted frame raises the bytes by
  its size and one counter by one, and never past the session's limits; a refused one
  would have crossed a limit.
\<close>

theorem frame_budget_bounds:
  assumes "ticket_wf t" "1 \<le> bytes"
  shows "case applyServerFrameBudget t kind bytes of
      None \<Rightarrow> tk_signalBytes t + bytes > MAX_RENDEZVOUS_SESSION_SIGNAL_BYTES \<or>
              (kind = ServerCandidateFrame \<and> tk_serverCandidates t = MAX_SERVER_CANDIDATES) \<or>
              (kind = CompleteFrame \<and> tk_completionCount t = MAX_COMPLETIONS)
    | Some t' \<Rightarrow> tk_signalBytes t' = tk_signalBytes t + bytes \<and>
              tk_signalBytes t' \<le> MAX_RENDEZVOUS_SESSION_SIGNAL_BYTES \<and>
              tk_serverCandidates t' + tk_completionCount t' =
                tk_serverCandidates t + tk_completionCount t + 1 \<and>
              tk_serverCandidates t' \<le> MAX_SERVER_CANDIDATES \<and> tk_completionCount t' \<le> MAX_COMPLETIONS"
  using assms by (cases kind) (auto simp: applyServerFrameBudget_def ticket_wf_def)

theorem frame_budget_bounds_witness:
  "applyServerFrameBudget (new_ticket example_client (replicate 64 CHR ''3'') 160) CompleteFrame 100 \<noteq> None"
  using frame_budget_bounds[OF new_ticket_wf[OF example_client_wf, of "replicate 64 CHR ''3''" 160],
      of 100 CompleteFrame]
  by (auto simp: is_hex_digit_def new_ticket_def attachment_bounds split: option.splits)

subsection \<open>A double fault\<close>

text \<open>
  While an admission is in flight its summary is suppressed by the stored mark, so
  \<open>emitTerminalMetric\<close> answers \<open>true\<close> without writing: \<open>failClient\<close> then returns and forgets
  the pending outcome although neither the write nor the close took place.
\<close>

definition suppressed_client :: client_attachment where
  "suppressed_client = example_client\<lparr>summaryEmitted := True\<rparr>"

text \<open>
  C9: \<open>failClient\<close> on a client whose admission is still in flight can fail silently: when
  the write and the close both fail it returns normally, the socket stays open with its
  live attachment, and no pending outcome is kept for a retry.
\<close>

theorem suppressed_failure_unnoticed:
  assumes "platform r = (\<lambda>_. False)" "is_open r i"
    "readClientAttachment r i = Some suppressed_client"
    "failClient now i suppressed_client InternalError close_internalError r = (ok, r')"
  shows "ok \<and> is_open r' i \<and> readClientAttachment r' i = Some suppressed_client \<and>
    pendingClientOutcomes r' i = None"
  using assms
  by (auto simp: failClient_def Let_def case_prod_unfold transitionClientTerminal_def
      suppressed_client_def example_client_def scrubClient_def emitTerminalMetric_def
      markTicketTerminal_def tryWriteAttachment_def platform_call_def closeSocket_def is_open_def
      readClientAttachment_def readAttachment_def)

theorem suppressed_failure_unnoticed_witness:
  "let r = (example_room (\<lambda>_. False))
     \<lparr>sock := (sock (example_room (\<lambda>_. False)))(1 := example_socket ClientRole (ClientA suppressed_client))\<rparr>
   in fst (failClient 5 1 suppressed_client InternalError close_internalError r) \<and>
      is_open (snd (failClient 5 1 suppressed_client InternalError close_internalError r)) 1"
proof -
  let ?r = "(example_room (\<lambda>_. False))
     \<lparr>sock := (sock (example_room (\<lambda>_. False)))(1 := example_socket ClientRole (ClientA suppressed_client))\<rparr>"
  have "attachment_wf (ClientA suppressed_client)"
    using example_client_wf
    by (simp add: suppressed_client_def client_wf_summary)
  then have "readClientAttachment ?r 1 = Some suppressed_client"
    using attachment_codec.reads_back[of "ClientA suppressed_client"]
    by (simp add: readClientAttachment_def readAttachment_def example_socket_def)
  moreover have "platform ?r = (\<lambda>_. False)" "is_open ?r 1"
    by (simp_all add: is_open_def example_socket_def)
  ultimately show ?thesis
    using suppressed_failure_unnoticed[of ?r 1 5] unfolding Let_def by (metis prod.collapse)
qed

end
