(* ===== verification/Admission.thy ===== *)
theory Admission
  imports Prelude
begin

text \<open>
  The replay ledger of a room: \<open>RendezvousAdmissionStore\<close> of
  \<open>src/src/rendezvous-admission.ts\<close>, a SQLite table with one row per admission. The
  statements the store issues are modelled on the list of rows, with the table's CHECK
  constraints and unique indexes written out; \<open>transactionSync\<close> undoes everything when its
  body throws.
\<close>

subsection \<open>Rows and limits\<close>

definition MAX_RENDEZVOUS_REPLAY_ADMISSIONS :: int where
  "MAX_RENDEZVOUS_REPLAY_ADMISSIONS = 100000"
definition RENDEZVOUS_ROLLING_WINDOW_MS :: int where "RENDEZVOUS_ROLLING_WINDOW_MS = 86400000"
definition CURRENT_SCHEMA_VERSION :: int where "CURRENT_SCHEMA_VERSION = 1"
definition REPLAY_PRUNE_BATCH_SIZE :: nat where "REPLAY_PRUNE_BATCH_SIZE = 256"
definition MAX_ACCEPTED_AT_MS :: int where
  "MAX_ACCEPTED_AT_MS = max_safe_integer - RENDEZVOUS_ROLLING_WINDOW_MS"

record admission_row =
  ar_id :: int
  ar_accepted_at_ms :: int
  ar_current :: "string option"
  ar_previous :: "string option"

type_synonym ledger = "admission_row list"

datatype admission_error = UnsupportedSchema | CorruptSchema | InvalidArgument | ConstraintFailed
datatype refusal = MaintenanceBacklog | StorageCapacity | Replayed
datatype consume_result = Accepted int | Refused refusal
datatype claim_result = Claimed | Missing | AlreadyClaimed | ClaimReplay

type_synonym 'a ledger_result = "(admission_error + 'a) \<times> ledger"

subsection \<open>Replay tags\<close>

definition is_tag_char :: "char \<Rightarrow> bool" where
  "is_tag_char c \<longleftrightarrow>
     c \<in> set ''ABCDEFGHIJKLMNOPQRSTUVWXYZabcdefghijklmnopqrstuvwxyz0123456789_-''"

definition is_tag_last :: "char \<Rightarrow> bool" where
  "is_tag_last c \<longleftrightarrow> c \<in> set ''AEIMQUYcgkosw048''"

text \<open>
  \<open>REPLAY_TAG_PATTERN\<close>: the result is the captured key identifier. The separator is not a
  tag character, so the identifier is the longest run of tag characters.
\<close>

definition replay_tag_key :: "string \<Rightarrow> string option" where
  "replay_tag_key s =
     (let key = takeWhile is_tag_char (drop 3 s); rest = dropWhile is_tag_char (drop 3 s) in
      if take 3 s = ''v1.'' \<and> 1 \<le> length key \<and> length key \<le> 32 \<and>
         length rest = 44 \<and> hd rest = CHR ''.'' \<and> list_all is_tag_char (take 42 (tl rest)) \<and>
         is_tag_last (last rest)
      then Some key else None)"

definition isReplayTagPair :: "string option \<Rightarrow> string option \<Rightarrow> bool" where
  "isReplayTagPair current previous =
     (case (current, previous) of
        (Some c, Some p) \<Rightarrow>
          c \<noteq> p \<and> replay_tag_key c \<noteq> None \<and> replay_tag_key p \<noteq> None \<and>
          replay_tag_key c \<noteq> replay_tag_key p
      | _ \<Rightarrow> False)"

text \<open>The CHECK constraints of the table, with SQLite's one-based \<open>instr\<close> and \<open>substr\<close>.\<close>

definition sql_instr :: "string \<Rightarrow> char \<Rightarrow> nat" where
  "sql_instr s c = (if c \<in> set s then length (takeWhile (\<lambda>d. d \<noteq> c) s) + 1 else 0)"

definition sql_tag_key :: "string \<Rightarrow> string" where
  "sql_tag_key s = take (sql_instr (drop 3 s) (CHR ''.'') - 1) (drop 3 s)"

definition sql_tag_ok :: "string \<Rightarrow> bool" where
  "sql_tag_ok s \<longleftrightarrow>
     48 \<le> length s \<and> length s \<le> 79 \<and> take 3 s = ''v1.'' \<and>
     2 \<le> sql_instr (drop 3 s) (CHR ''.'') \<and> sql_instr (drop 3 s) (CHR ''.'') \<le> 33 \<and>
     list_all is_tag_char (sql_tag_key s) \<and>
     length (drop (3 + sql_instr (drop 3 s) (CHR ''.'')) s) = 43 \<and>
     list_all is_tag_char (drop (3 + sql_instr (drop 3 s) (CHR ''.'')) s) \<and>
     is_tag_last (last s)"

definition sql_row_ok :: "admission_row \<Rightarrow> bool" where
  "sql_row_ok r \<longleftrightarrow>
     ar_id r \<ge> 1 \<and> 0 \<le> ar_accepted_at_ms r \<and> ar_accepted_at_ms r \<le> 9007199168340991 \<and>
     (case (ar_current r, ar_previous r) of
        (None, None) \<Rightarrow> True
      | (Some c, Some p) \<Rightarrow>
          sql_tag_ok c \<and> sql_tag_ok p \<and> c \<noteq> p \<and> sql_tag_key c \<noteq> sql_tag_key p
      | _ \<Rightarrow> False)"

text \<open>The primary key and the two partial unique indexes.\<close>

definition sql_unique :: "ledger \<Rightarrow> bool" where
  "sql_unique rows \<longleftrightarrow>
     distinct (map ar_id rows) \<and>
     distinct (List.map_filter ar_current rows) \<and> distinct (List.map_filter ar_previous rows)"

subsection \<open>Assertions of the store\<close>

definition isAdmissionId :: "int \<Rightarrow> bool" where
  "isAdmissionId i \<longleftrightarrow> is_safe_integer i \<and> i \<ge> 1"

definition assertNow :: "int \<Rightarrow> bool" where
  "assertNow n \<longleftrightarrow> is_safe_integer n \<and> 0 \<le> n \<and> n \<le> MAX_ACCEPTED_AT_MS"

definition assertAcceptedAt :: "int \<Rightarrow> bool" where
  "assertAcceptedAt n \<longleftrightarrow> is_safe_integer n \<and> 0 \<le> n \<and> n \<le> MAX_ACCEPTED_AT_MS"

definition assertRetainedCount :: "int \<Rightarrow> bool" where
  "assertRetainedCount n \<longleftrightarrow>
     is_safe_integer n \<and> 0 \<le> n \<and> n \<le> MAX_RENDEZVOUS_REPLAY_ADMISSIONS"

definition assertStoredRow :: "admission_row \<Rightarrow> bool" where
  "assertStoredRow r \<longleftrightarrow>
     isAdmissionId (ar_id r) \<and> assertAcceptedAt (ar_accepted_at_ms r) \<and>
     ((ar_current r = None \<and> ar_previous r = None) \<or> isReplayTagPair (ar_current r) (ar_previous r))"

subsection \<open>Operations\<close>

definition transactionSync :: "(ledger \<Rightarrow> 'a ledger_result) \<Rightarrow> ledger \<Rightarrow> 'a ledger_result" where
  "transactionSync body rows =
     (case body rows of (Inl e, _) \<Rightarrow> (Inl e, rows) | (Inr x, rows') \<Rightarrow> (Inr x, rows'))"

definition compareAdmissions :: "admission_row \<Rightarrow> admission_row \<Rightarrow> int" where
  "compareAdmissions a b =
     (if ar_accepted_at_ms a \<noteq> ar_accepted_at_ms b then ar_accepted_at_ms a - ar_accepted_at_ms b
      else ar_id a - ar_id b)"

definition expired_batch :: "int \<Rightarrow> ledger \<Rightarrow> ledger" where
  "expired_batch cutoff rows =
     take REPLAY_PRUNE_BATCH_SIZE
       (js_sort compareAdmissions (filter (\<lambda>r. ar_accepted_at_ms r \<le> cutoff) rows))"

definition pruneBefore :: "int \<Rightarrow> ledger \<Rightarrow> (bool \<times> int) ledger_result" where
  "pruneBefore cutoff rows =
     (let batch = expired_batch cutoff rows;
          deleted = int (length batch);
          rows1 = filter (\<lambda>r. ar_id r \<notin> set (map ar_id batch)) rows in
      if \<not> is_safe_integer deleted \<or> deleted < 0 \<or> deleted > int REPLAY_PRUNE_BATCH_SIZE
      then (Inl CorruptSchema, rows)
      else (Inr (list_ex (\<lambda>r. ar_accepted_at_ms r \<le> cutoff) rows1, deleted), rows1))"

definition prune :: "int \<Rightarrow> ledger \<Rightarrow> int ledger_result" where
  "prune now rows =
     (if \<not> assertNow now then (Inl InvalidArgument, rows)
      else transactionSync (\<lambda>rows.
        case pruneBefore (now - RENDEZVOUS_ROLLING_WINDOW_MS) rows of
          (Inl e, rows1) \<Rightarrow> (Inl e, rows1)
        | (Inr (_, deleted), rows1) \<Rightarrow> (Inr deleted, rows1)) rows)"

text \<open>A rowid that is not given is one more than the largest in use.\<close>

definition next_rowid :: "ledger \<Rightarrow> int" where
  "next_rowid rows = foldr max (map ar_id rows) 0 + 1"

definition insert_admission :: "int \<Rightarrow> ledger \<Rightarrow> int ledger_result" where
  "insert_admission now rows =
     (let row = \<lparr> ar_id = next_rowid rows, ar_accepted_at_ms = now, ar_current = None,
                  ar_previous = None \<rparr>;
          rows1 = rows @ [row] in
      if \<not> sql_row_ok row \<or> \<not> sql_unique rows1 then (Inl ConstraintFailed, rows)
      else if \<not> isAdmissionId (ar_id row) then (Inl CorruptSchema, rows1)
      else (Inr (ar_id row), rows1))"

definition consume :: "int \<Rightarrow> int \<Rightarrow> ledger \<Rightarrow> consume_result ledger_result" where
  "consume maximumRetained now rows =
     (if \<not> assertNow now then (Inl InvalidArgument, rows)
      else transactionSync (\<lambda>rows.
        case pruneBefore (now - RENDEZVOUS_ROLLING_WINDOW_MS) rows of
          (Inl e, rows1) \<Rightarrow> (Inl e, rows1)
        | (Inr (backlog, _), rows1) \<Rightarrow>
            if backlog then (Inr (Refused MaintenanceBacklog), rows1)
            else if \<not> assertRetainedCount (int (length rows1)) then (Inl CorruptSchema, rows1)
            else if int (length rows1) \<ge> maximumRetained then (Inr (Refused StorageCapacity), rows1)
            else
              (case insert_admission now rows1 of
                 (Inl e, rows2) \<Rightarrow> (Inl e, rows2)
               | (Inr i, rows2) \<Rightarrow> (Inr (Accepted i), rows2))) rows)"

definition unclaimed :: "int \<Rightarrow> admission_row \<Rightarrow> bool" where
  "unclaimed i r \<longleftrightarrow> ar_id r = i \<and> ar_current r = None \<and> ar_previous r = None"

definition release :: "int \<Rightarrow> ledger \<Rightarrow> bool ledger_result" where
  "release i rows =
     (if \<not> isAdmissionId i then (Inl InvalidArgument, rows)
      else transactionSync (\<lambda>rows.
        (Inr (length (filter (unclaimed i) rows) = 1), filter (\<lambda>r. \<not> unclaimed i r) rows)) rows)"

definition tag_collides :: "string \<Rightarrow> string \<Rightarrow> admission_row \<Rightarrow> bool" where
  "tag_collides current previous r \<longleftrightarrow>
     ar_current r \<in> {Some current, Some previous} \<or> ar_previous r \<in> {Some current, Some previous}"

definition set_tags :: "int \<Rightarrow> string \<Rightarrow> string \<Rightarrow> ledger \<Rightarrow> ledger" where
  "set_tags i current previous rows =
     map (\<lambda>r. if unclaimed i r then r\<lparr>ar_current := Some current, ar_previous := Some previous\<rparr> else r)
       rows"

definition claimReplayTags ::
  "int \<Rightarrow> string \<Rightarrow> string \<Rightarrow> ledger \<Rightarrow> claim_result ledger_result" where
  "claimReplayTags i current previous rows =
     (if \<not> isAdmissionId i \<or> \<not> isReplayTagPair (Some current) (Some previous)
      then (Inl InvalidArgument, rows)
      else transactionSync (\<lambda>rows.
        case filter (\<lambda>r. ar_id r = i) rows of
          [] \<Rightarrow> (Inr Missing, rows)
        | row # others \<Rightarrow>
            if others \<noteq> [] \<or> \<not> assertStoredRow row then (Inl CorruptSchema, rows)
            else if ar_current row \<noteq> None then (Inr AlreadyClaimed, rows)
            else if list_ex (tag_collides current previous) rows then (Inr ClaimReplay, rows)
            else
              let rows1 = set_tags i current previous rows in
              if \<not> list_all sql_row_ok (filter (\<lambda>r. ar_id r = i) rows1) \<or> \<not> sql_unique rows1 then (Inl ConstraintFailed, rows)
              else if length (filter (unclaimed i) rows) \<noteq> 1 then (Inl CorruptSchema, rows1)
              else (Inr Claimed, rows1)) rows)"

definition consumeAndClaim ::
  "int \<Rightarrow> int \<Rightarrow> string \<Rightarrow> string \<Rightarrow> ledger \<Rightarrow> consume_result ledger_result" where
  "consumeAndClaim maximumRetained now current previous rows =
     transactionSync (\<lambda>rows.
       case consume maximumRetained now rows of
         (Inl e, rows1) \<Rightarrow> (Inl e, rows1)
       | (Inr (Refused reason), rows1) \<Rightarrow> (Inr (Refused reason), rows1)
       | (Inr (Accepted i), rows1) \<Rightarrow>
           (case claimReplayTags i current previous rows1 of
              (Inl e, rows2) \<Rightarrow> (Inl e, rows2)
            | (Inr Claimed, rows2) \<Rightarrow> (Inr (Accepted i), rows2)
            | (Inr ClaimReplay, rows2) \<Rightarrow>
                (case release i rows2 of
                   (Inl e, rows3) \<Rightarrow> (Inl e, rows3)
                 | (Inr _, rows3) \<Rightarrow> (Inr (Refused Replayed), rows3))
            | (Inr _, rows2) \<Rightarrow> (Inl CorruptSchema, rows2))) rows"

definition earliestRetainedExpiryMs :: "ledger \<Rightarrow> admission_error + int option" where
  "earliestRetainedExpiryMs rows =
     (case js_sort compareAdmissions rows of
        [] \<Rightarrow> Inr None
      | row # _ \<Rightarrow>
          if \<not> assertAcceptedAt (ar_accepted_at_ms row) then Inl CorruptSchema
          else Inr (Some (ar_accepted_at_ms row + RENDEZVOUS_ROLLING_WINDOW_MS)))"

text \<open>
  \<open>initialize\<close>. The database holds the migration table and the admission table, each
  possibly absent; \<open>quick_check\<close> is what SQLite's integrity pragma answered.
\<close>

record admission_db =
  db_versions :: "int list option"
  db_rows :: "ledger option"

definition assertMigrationHistory :: "int list \<Rightarrow> admission_error option" where
  "assertMigrationHistory versions =
     (case find (\<lambda>v. \<not> is_safe_integer v \<or> v < 1 \<or> v > CURRENT_SCHEMA_VERSION) versions of
        Some v \<Rightarrow>
          Some (if \<not> is_safe_integer v \<or> v < 1 then CorruptSchema else UnsupportedSchema)
      | None \<Rightarrow>
          if versions \<noteq> map int [1..<length versions + 1] then Some CorruptSchema else None)"

text \<open>\<open>SCHEMA_MIGRATIONS\<close> has one entry, which creates the admission table.\<close>

definition applyMigrations :: "admission_db \<Rightarrow> admission_error + admission_db" where
  "applyMigrations db =
     (let versions = (case db_versions db of None \<Rightarrow> [] | Some vs \<Rightarrow> sort vs) in
      case assertMigrationHistory versions of
        Some e \<Rightarrow> Inl e
      | None \<Rightarrow>
          if versions = [] then
            (if db_rows db \<noteq> None then Inl ConstraintFailed
             else Inr \<lparr> db_versions = Some [1], db_rows = Some [] \<rparr>)
          else Inr db)"

definition row_tags :: "admission_row \<Rightarrow> string list" where
  "row_tags r = List.map_filter id [ar_current r, ar_previous r]"

definition assertStoredRows :: "string list \<Rightarrow> ledger \<Rightarrow> bool" where
  "assertStoredRows quick_check rows \<longleftrightarrow>
     assertRetainedCount (int (length rows)) \<and> quick_check = [''ok''] \<and>
     distinct (concat (map row_tags rows))"

definition initialize ::
  "string list \<Rightarrow> admission_db \<Rightarrow> (admission_error + unit) \<times> admission_db" where
  "initialize quick_check db =
     (case applyMigrations db of
        Inl e \<Rightarrow> (Inl e, db)
      | Inr db1 \<Rightarrow>
          (case db_rows db1 of
             None \<Rightarrow> (Inl ConstraintFailed, db)
           | Some rows \<Rightarrow>
               if assertStoredRows quick_check rows then (Inr (), db1) else (Inl CorruptSchema, db)))"

subsection \<open>The invariant\<close>

definition ledger_ok :: "ledger \<Rightarrow> bool" where
  "ledger_ok rows \<longleftrightarrow>
     distinct (map ar_id rows) \<and> list_all assertStoredRow rows \<and>
     distinct (concat (map row_tags rows))"

interpretation admission_order: comparator compareAdmissions
  by unfold_locales (auto simp: compareAdmissions_def split: if_splits)

lemma row_tags_simps:
  "ar_current r = None \<Longrightarrow> ar_previous r = None \<Longrightarrow> row_tags r = []"
  "ar_current r = Some c \<Longrightarrow> ar_previous r = Some p \<Longrightarrow> row_tags r = [c, p]"
  by (simp_all add: row_tags_def List.map_filter_simps)

lemma stored_row_cases:
  assumes "assertStoredRow r"
  obtains "ar_current r = None" "ar_previous r = None" "row_tags r = []"
  | c p where "ar_current r = Some c" "ar_previous r = Some p" "row_tags r = [c, p]"
      "isReplayTagPair (Some c) (Some p)"
  using assms row_tags_simps[of r]
  by (cases "ar_current r"; cases "ar_previous r") (auto simp: assertStoredRow_def isReplayTagPair_def)

lemma distinct_concat_filter:
  "distinct (concat (map f xs)) \<Longrightarrow> distinct (concat (map f (filter P xs)))"
  by (induction xs) auto

lemma ledger_ok_filter: "ledger_ok rows \<Longrightarrow> ledger_ok (filter P rows)"
  by (simp add: ledger_ok_def distinct_map_filter distinct_concat_filter list_all_iff)

subsection \<open>Tags and the table's constraints\<close>

lemma tag_chars: "is_tag_last c \<Longrightarrow> is_tag_char c" "\<not> is_tag_char (CHR ''.'')"
  by (auto simp: is_tag_last_def is_tag_char_def)

lemma replay_tag_shape:
  assumes "replay_tag_key s = Some key"
  obtains body where "s = ''v1.'' @ key @ CHR ''.'' # body" "length body = 43"
    "1 \<le> length key" "length key \<le> 32" "list_all is_tag_char key" "list_all is_tag_char body"
    "is_tag_last (last body)"
proof -
  define r where "r = drop 3 s"
  from assms have k: "key = takeWhile is_tag_char r" and t3: "take 3 s = ''v1.''"
    and len: "1 \<le> length key" "length key \<le> 32" "length (dropWhile is_tag_char r) = 44"
    and hd: "hd (dropWhile is_tag_char r) = CHR ''.''"
    and body: "list_all is_tag_char (take 42 (tl (dropWhile is_tag_char r)))"
    and lst: "is_tag_last (last (dropWhile is_tag_char r))"
    by (auto simp: replay_tag_key_def Let_def r_def split: if_splits)
  define b where "b = tl (dropWhile is_tag_char r)"
  have rest: "dropWhile is_tag_char r = CHR ''.'' # b"
    using len(3) hd by (cases "dropWhile is_tag_char r") (auto simp: b_def)
  have lb: "length b = 43" using len(3) rest by simp
  have s: "s = ''v1.'' @ key @ CHR ''.'' # b"
    using append_take_drop_id[of 3 s] takeWhile_dropWhile_id[of is_tag_char r]
    unfolding t3 rest k r_def[symmetric] by (metis append.assoc)
  have lastb: "is_tag_last (last b)" using lst rest lb by (cases b) auto
  have "b = take 42 b @ [last b]"
    using lb append_butlast_last_id[of b] by (cases "b = []") (auto simp: butlast_conv_take)
  moreover have "list_all is_tag_char (take 42 b @ [last b])"
    using body lastb tag_chars(1) unfolding b_def[symmetric] by simp
  ultimately have "list_all is_tag_char b" by simp
  moreover have "list_all is_tag_char key"
    using set_takeWhileD k by (fastforce simp: list_all_iff)
  ultimately show ?thesis using that s lb len lastb by blast
qed

lemma tag_satisfies_check:
  assumes "replay_tag_key s = Some key"
  shows "sql_tag_ok s \<and> sql_tag_key s = key"
proof -
  obtain body where s: "s = ''v1.'' @ key @ CHR ''.'' # body" "length body = 43"
    "1 \<le> length key" "length key \<le> 32" "list_all is_tag_char key" "list_all is_tag_char body"
    "is_tag_last (last body)"
    by (rule replay_tag_shape[OF assms])
  have d3: "drop 3 s = key @ CHR ''.'' # body" using s(1) by (simp add: numeral_3_eq_3)
  have tw: "takeWhile (\<lambda>d. d \<noteq> CHR ''.'') (key @ CHR ''.'' # body) = key"
    using s(5) tag_chars(2) by (subst takeWhile_append2) (auto simp: list_all_iff)
  have ins: "sql_instr (drop 3 s) (CHR ''.'') = length key + 1"
    by (simp add: sql_instr_def d3 tw)
  have key: "sql_tag_key s = key" unfolding sql_tag_key_def ins unfolding d3 by simp
  have "drop (3 + (length key + 1)) s = body" 
    using drop_drop[of "length key + 1" 3 s] unfolding d3 by (simp add: ac_simps)
  moreover have "last s = last body" using s(1,2) by (cases body) auto
  moreover have "length s = length key + 47" using s(1,2) by simp
  moreover have "take 3 s = ''v1.''" using s(1) by (simp add: numeral_3_eq_3)
  ultimately show ?thesis using s(2-7) key unfolding sql_tag_ok_def ins by simp
qed

lemma stored_row_check: "assertStoredRow r \<Longrightarrow> sql_row_ok r"
proof -
  assume stored: "assertStoredRow r"
  then have base: "ar_id r \<ge> 1 \<and> 0 \<le> ar_accepted_at_ms r \<and> ar_accepted_at_ms r \<le> 9007199168340991"
    by (auto simp: assertStoredRow_def isAdmissionId_def assertAcceptedAt_def MAX_ACCEPTED_AT_MS_def
        max_safe_integer_def RENDEZVOUS_ROLLING_WINDOW_MS_def)
  from stored show ?thesis
  proof (cases rule: stored_row_cases)
    case (2 c p)
    then obtain k l where "replay_tag_key c = Some k" "replay_tag_key p = Some l" "c \<noteq> p" "k \<noteq> l"
      by (auto simp: isReplayTagPair_def)
    with 2 base tag_satisfies_check show ?thesis by (fastforce simp: sql_row_ok_def)
  qed (use base in \<open>simp add: sql_row_ok_def\<close>)
qed

lemma map_filter_tags:
  assumes "list_all assertStoredRow rows" "distinct (concat (map row_tags rows))"
  shows "distinct (List.map_filter ar_current rows)" "distinct (List.map_filter ar_previous rows)"
proof -
  have sub: "set (List.map_filter ar_current rows) \<subseteq> set (concat (map row_tags rows))"
    "set (List.map_filter ar_previous rows) \<subseteq> set (concat (map row_tags rows))" for rows
    by (auto simp: List.map_filter_def row_tags_def)
  from assms have "distinct (List.map_filter ar_current rows) \<and> distinct (List.map_filter ar_previous rows)"
  proof (induction rows)
    case (Cons r rows)
    then have ih: "distinct (List.map_filter ar_current rows)" "distinct (List.map_filter ar_previous rows)"
      by simp_all
    from Cons.prems(1) have "assertStoredRow r" by simp
    then show ?case
      by (cases rule: stored_row_cases) (use ih Cons.prems(2) sub[of rows] in \<open>auto simp: List.map_filter_simps\<close>)
  qed (simp add: List.map_filter_simps)
  then show "distinct (List.map_filter ar_current rows)" "distinct (List.map_filter ar_previous rows)"
    by simp_all
qed

lemma ledger_ok_unique: "ledger_ok rows \<Longrightarrow> sql_unique rows"
  by (simp add: ledger_ok_def sql_unique_def map_filter_tags)


subsection \<open>Effect of the operations\<close>

lemma transactionSync_simps [simp]:
  "body rows = (Inr x, rows') \<Longrightarrow> transactionSync body rows = (Inr x, rows')"
  "body rows = (Inl e, rows') \<Longrightarrow> transactionSync body rows = (Inl e, rows)"
  by (simp_all add: transactionSync_def)

definition expired :: "int \<Rightarrow> admission_row \<Rightarrow> bool" where
  "expired now r \<longleftrightarrow> ar_accepted_at_ms r + RENDEZVOUS_ROLLING_WINDOW_MS \<le> now"

definition pruned :: "int \<Rightarrow> ledger \<Rightarrow> ledger" where
  "pruned now rows = filter (\<lambda>r. ar_id r \<notin> set (map ar_id
     (expired_batch (now - RENDEZVOUS_ROLLING_WINDOW_MS) rows))) rows"

lemma expired_batch_sub:
  "set (expired_batch (now - RENDEZVOUS_ROLLING_WINDOW_MS) rows) \<subseteq> {r \<in> set rows. expired now r}"
  using set_take_subset[of REPLAY_PRUNE_BATCH_SIZE "js_sort compareAdmissions
    (filter (\<lambda>r. ar_accepted_at_ms r \<le> now - RENDEZVOUS_ROLLING_WINDOW_MS) rows)"]
  by (auto simp: expired_batch_def expired_def)

lemma length_expired_batch:
  "length (expired_batch (now - RENDEZVOUS_ROLLING_WINDOW_MS) rows) =
     min REPLAY_PRUNE_BATCH_SIZE (length (filter (expired now) rows))"
proof -
  have "(\<lambda>r. ar_accepted_at_ms r \<le> now - RENDEZVOUS_ROLLING_WINDOW_MS) = expired now"
    by (auto simp: expired_def)
  then show ?thesis by (simp add: expired_batch_def min.commute)
qed

lemma pruneBefore_eq:
  "pruneBefore (now - RENDEZVOUS_ROLLING_WINDOW_MS) rows =
     (Inr (list_ex (expired now) (pruned now rows),
           int (min REPLAY_PRUNE_BATCH_SIZE (length (filter (expired now) rows)))), pruned now rows)"
proof -
  have ex: "(\<lambda>r. ar_accepted_at_ms r \<le> now - RENDEZVOUS_ROLLING_WINDOW_MS) = expired now"
    by (auto simp: expired_def)
  show ?thesis
    unfolding pruneBefore_def Let_def length_expired_batch ex pruned_def[symmetric]
    by (auto simp: is_safe_integer_def max_safe_integer_def REPLAY_PRUNE_BATCH_SIZE_def)
qed

lemma live_not_pruned:
  assumes "distinct (map ar_id rows)" "r \<in> set rows" "\<not> expired now r"
  shows "r \<in> set (pruned now rows)"
proof -
  have "ar_id r \<notin> ar_id ` set (expired_batch (now - RENDEZVOUS_ROLLING_WINDOW_MS) rows)"
    using assms expired_batch_sub[of now rows] by (auto dest: inj_onD simp: distinct_map) 
  with assms(2) show ?thesis by (simp add: pruned_def)
qed

lemma pruned_sub: "set (pruned now rows) \<subseteq> set rows"
  by (auto simp: pruned_def)

lemma ledger_ok_pruned: "ledger_ok rows \<Longrightarrow> ledger_ok (pruned now rows)"
  by (simp add: pruned_def ledger_ok_filter)

lemma prune_eq:
  "prune now rows =
     (if assertNow now
      then (Inr (int (min REPLAY_PRUNE_BATCH_SIZE (length (filter (expired now) rows)))), pruned now rows)
      else (Inl InvalidArgument, rows))"
  by (simp add: prune_def pruneBefore_eq)

lemma next_rowid_fresh: "r \<in> set rows \<Longrightarrow> ar_id r < next_rowid rows"
  unfolding next_rowid_def by (induction rows) auto

lemma next_rowid_pos: "next_rowid rows \<ge> 1"
  unfolding next_rowid_def by (induction rows) auto

definition fresh_row :: "int \<Rightarrow> ledger \<Rightarrow> admission_row" where
  "fresh_row now rows = \<lparr> ar_id = next_rowid rows, ar_accepted_at_ms = now,
     ar_current = None, ar_previous = None \<rparr>"

lemma fresh_row_simps [simp]:
  "ar_id (fresh_row now rows) = next_rowid rows" "ar_accepted_at_ms (fresh_row now rows) = now"
  "ar_current (fresh_row now rows) = None" "ar_previous (fresh_row now rows) = None"
  by (simp_all add: fresh_row_def)

lemma ledger_ok_append:
  assumes "ledger_ok rows" "assertNow now" "isAdmissionId (next_rowid rows)"
  shows "ledger_ok (rows @ [fresh_row now rows])"
  using assms next_rowid_fresh[of _ rows]
  by (fastforce simp: ledger_ok_def assertStoredRow_def assertNow_def assertAcceptedAt_def row_tags_simps)

lemma insert_admission_eq:
  assumes "ledger_ok rows" "assertNow now"
  shows "insert_admission now rows =
     (if isAdmissionId (next_rowid rows) then (Inr (next_rowid rows), rows @ [fresh_row now rows])
      else (Inl CorruptSchema, rows @ [fresh_row now rows]))"
proof -
  have "sql_unique (rows @ [fresh_row now rows])"
    using ledger_ok_unique[OF assms(1)] next_rowid_fresh[of _ rows]
    by (fastforce simp: sql_unique_def List.map_filter_def)
  moreover have "sql_row_ok (fresh_row now rows)"
    using assms(2) next_rowid_pos[of rows]
    by (auto simp: sql_row_ok_def assertNow_def MAX_ACCEPTED_AT_MS_def max_safe_integer_def
        RENDEZVOUS_ROLLING_WINDOW_MS_def)
  ultimately show ?thesis
    unfolding insert_admission_def Let_def fresh_row_def[symmetric] by simp
qed

lemma consume_eq:
  assumes "ledger_ok rows"
  shows "consume m now rows =
     (if \<not> assertNow now then (Inl InvalidArgument, rows)
      else if list_ex (expired now) (pruned now rows)
        then (Inr (Refused MaintenanceBacklog), pruned now rows)
      else if int (length (pruned now rows)) > MAX_RENDEZVOUS_REPLAY_ADMISSIONS
        then (Inl CorruptSchema, rows)
      else if int (length (pruned now rows)) \<ge> m
        then (Inr (Refused StorageCapacity), pruned now rows)
      else if \<not> isAdmissionId (next_rowid (pruned now rows)) then (Inl CorruptSchema, rows)
      else (Inr (Accepted (next_rowid (pruned now rows))),
            pruned now rows @ [fresh_row now (pruned now rows)]))"
proof (cases "assertNow now")
  case True
  have "assertRetainedCount (int n) \<longleftrightarrow> \<not> int n > MAX_RENDEZVOUS_REPLAY_ADMISSIONS" for n
    by (auto simp: assertRetainedCount_def is_safe_integer_def max_safe_integer_def
        MAX_RENDEZVOUS_REPLAY_ADMISSIONS_def)
  then show ?thesis
    using True insert_admission_eq[OF ledger_ok_pruned[OF assms], of now now]
    by (simp add: consume_def pruneBefore_eq transactionSync_def)
qed (simp add: consume_def)

lemma release_eq:
  "release i rows = (if isAdmissionId i
     then (Inr (length (filter (unclaimed i) rows) = 1), filter (\<lambda>r. \<not> unclaimed i r) rows)
     else (Inl InvalidArgument, rows))"
  by (simp add: release_def transactionSync_def)


lemma set_tags_split:
  assumes "distinct (map ar_id rows)" "r \<in> set rows" "ar_id r = i"
    "ar_current r = None" "ar_previous r = None"
  obtains xs ys where "rows = xs @ r # ys"
    "set_tags i c p rows = xs @ r\<lparr>ar_current := Some c, ar_previous := Some p\<rparr> # ys"
    "filter (unclaimed i) rows = [r]" "filter (\<lambda>x. ar_id x = i) rows = [r]"
proof -
  obtain xs ys where rows: "rows = xs @ r # ys" using split_list[OF assms(2)] by blast
  have "ar_id r \<notin> ar_id ` (set xs \<union> set ys)" using assms(1) unfolding rows by auto
  then have "ar_id x \<noteq> i" if "x \<in> set xs \<union> set ys" for x
    using assms(3) that by (metis imageI)
  then have off: "\<forall>x \<in> set xs \<union> set ys. \<not> unclaimed i x \<and> ar_id x \<noteq> i" by (auto simp: unclaimed_def)
  then have "map (\<lambda>x. if unclaimed i x then x\<lparr>ar_current := Some c, ar_previous := Some p\<rparr> else x) zs = zs"
    if "set zs \<subseteq> set xs \<union> set ys" for zs
    using that by (intro map_idI) auto
  then have "set_tags i c p rows = xs @ r\<lparr>ar_current := Some c, ar_previous := Some p\<rparr> # ys"
    using assms(3-5) unfolding set_tags_def rows by (simp add: unclaimed_def)
  moreover have "filter (unclaimed i) rows = [r]" "filter (\<lambda>x. ar_id x = i) rows = [r]"
    using off assms(3-5) unfolding rows by (auto simp: unclaimed_def filter_empty_conv)
  ultimately show ?thesis using that rows by blast
qed

lemma ledger_ok_set_tags:
  assumes "ledger_ok rows" "isReplayTagPair (Some c) (Some p)" "\<not> list_ex (tag_collides c p) rows"
    "r \<in> set rows" "ar_id r = i" "ar_current r = None"
  shows "ledger_ok (set_tags i c p rows)"
proof -
  from assms(1,4) have "assertStoredRow r" by (auto simp: ledger_ok_def list_all_iff)
  with assms(6) have prev: "ar_previous r = None" by (auto elim: stored_row_cases)
  obtain xs ys where sp: "rows = xs @ r # ys"
    "set_tags i c p rows = xs @ r\<lparr>ar_current := Some c, ar_previous := Some p\<rparr> # ys"
    using set_tags_split[of rows r i c p] assms prev by (metis ledger_ok_def)
  have no: "{c, p} \<inter> set (row_tags x) = {}" if "x \<in> set rows" for x
    using assms(3) that by (auto simp: list_ex_iff tag_collides_def row_tags_def List.map_filter_def)
  have "c \<noteq> p" using assms(2) by (simp add: isReplayTagPair_def)
  have off: "c \<notin> set (concat (map row_tags xs))" "p \<notin> set (concat (map row_tags xs))"
    "c \<notin> set (concat (map row_tags ys))" "p \<notin> set (concat (map row_tags ys))"
    using no unfolding sp(1) by auto
  have tags: "row_tags r = []" "row_tags (r\<lparr>ar_current := Some c, ar_previous := Some p\<rparr>) = [c, p]"
    using assms(6) prev by (simp_all add: row_tags_simps)
  have "list_all assertStoredRow (set_tags i c p rows)"
    using assms(1,2) unfolding sp(2) unfolding sp(1) by (simp add: ledger_ok_def assertStoredRow_def)
  moreover have "distinct (concat (map row_tags (set_tags i c p rows)))"
    using assms(1) off \<open>c \<noteq> p\<close> unfolding sp(2) unfolding sp(1) ledger_ok_def by (simp add: tags)
  moreover have "map ar_id (set_tags i c p rows) = map ar_id rows"
    unfolding sp(2) unfolding sp(1) by simp
  ultimately show ?thesis using assms(1) by (simp add: ledger_ok_def)
qed

lemma claimReplayTags_eq:
  assumes "ledger_ok rows"
  shows "claimReplayTags i c p rows =
     (if \<not> isAdmissionId i \<or> \<not> isReplayTagPair (Some c) (Some p) then (Inl InvalidArgument, rows)
      else case find (\<lambda>r. ar_id r = i) rows of
          None \<Rightarrow> (Inr Missing, rows)
        | Some row \<Rightarrow>
            if ar_current row \<noteq> None then (Inr AlreadyClaimed, rows)
            else if list_ex (tag_collides c p) rows then (Inr ClaimReplay, rows)
            else (Inr Claimed, set_tags i c p rows))"
proof (cases "find (\<lambda>r. ar_id r = i) rows")
  case None
  then have "filter (\<lambda>r. ar_id r = i) rows = []" by (auto simp: find_None_iff filter_empty_conv)
  with None show ?thesis by (simp add: claimReplayTags_def transactionSync_def)
next
  case (Some row)
  then have row: "row \<in> set rows" "ar_id row = i" by (auto simp: find_Some_iff)
  obtain xs ys where "rows = xs @ row # ys" using split_list[OF row(1)] by blast
  moreover from calculation assms have "ar_id row \<notin> ar_id ` (set xs \<union> set ys)"
    by (auto simp: ledger_ok_def)
  then have "\<forall>x \<in> set xs \<union> set ys. ar_id x \<noteq> i" using row(2) by (metis imageI)
  ultimately have only: "filter (\<lambda>r. ar_id r = i) rows = [row]"
    using row(2) by (auto simp: filter_empty_conv)
  have stored: "assertStoredRow row" using assms row by (auto simp: ledger_ok_def list_all_iff)
  show ?thesis
  proof (cases "isReplayTagPair (Some c) (Some p) \<and> ar_current row = None \<and> \<not> list_ex (tag_collides c p) rows")
    case True
    with stored have prev: "ar_previous row = None" by (auto elim: stored_row_cases)
    have ok: "ledger_ok (set_tags i c p rows)"
      using ledger_ok_set_tags[OF assms _ _ row] True by blast
    have one: "length (filter (unclaimed i) rows) = 1"
      using set_tags_split[of rows row i c p] assms row True prev by (metis ledger_ok_def One_nat_def length_Cons list.size(3))
    have "list_all sql_row_ok (filter (\<lambda>r. ar_id r = i) (set_tags i c p rows))"
      using ok stored_row_check by (auto simp: ledger_ok_def list_all_iff)
    then show ?thesis
      using True Some only stored ledger_ok_unique[OF ok] one
      by (simp add: claimReplayTags_def transactionSync_def)
  next
    case False
    then show ?thesis
      using Some only stored by (auto simp: claimReplayTags_def transactionSync_def)
  qed
qed

lemma find_Some_in: "find P xs = Some x \<Longrightarrow> x \<in> set xs \<and> P x"
  by (auto simp: find_Some_iff)

lemma ledger_ok_claim: "ledger_ok rows \<Longrightarrow> ledger_ok (snd (claimReplayTags i c p rows))"
  by (cases "find (\<lambda>r. ar_id r = i) rows")
    (use ledger_ok_set_tags[of rows c p] find_Some_in in \<open>fastforce simp: claimReplayTags_eq\<close>)+

lemma ledger_ok_consume: "ledger_ok rows \<Longrightarrow> ledger_ok (snd (consume m now rows))"
  using ledger_ok_append[of "pruned now rows" now] by (simp add: consume_eq ledger_ok_pruned)

lemma ledger_ok_release: "ledger_ok rows \<Longrightarrow> ledger_ok (snd (release i rows))"
  by (simp add: release_eq ledger_ok_filter)

lemma ledger_ok_prune: "ledger_ok rows \<Longrightarrow> ledger_ok (snd (prune now rows))"
  by (simp add: prune_eq ledger_ok_pruned)

lemma filter_unclaimed_fresh [simp]:
  "filter (\<lambda>r. \<not> unclaimed (next_rowid rows) r) rows = rows"
  "unclaimed (next_rowid rows) (fresh_row now rows)"
  using next_rowid_fresh[of _ rows] by (fastforce simp: unclaimed_def filter_id_conv)+

lemma find_append:
  "find P (xs @ ys) = (case find P xs of None \<Rightarrow> find P ys | Some x \<Rightarrow> Some x)"
  by (induction xs) auto

lemma find_fresh:
  "find (\<lambda>r. ar_id r = next_rowid rows) (rows @ [fresh_row now rows]) = Some (fresh_row now rows)"
proof -
  have "find (\<lambda>r. ar_id r = next_rowid rows) rows = None"
    using next_rowid_fresh[of _ rows] by (fastforce simp: find_None_iff)
  then show ?thesis by (simp add: find_append)
qed

lemma set_tags_fresh:
  "set_tags (next_rowid rows) c p (rows @ [fresh_row now rows]) =
     rows @ [(fresh_row now rows)\<lparr>ar_current := Some c, ar_previous := Some p\<rparr>]"
proof -
  have "map (\<lambda>r. if unclaimed (next_rowid rows) r then r\<lparr>ar_current := Some c, ar_previous := Some p\<rparr> else r)
      rows = rows"
    using next_rowid_fresh[of _ rows] by (intro map_idI) (fastforce simp: unclaimed_def)
  then show ?thesis by (simp add: set_tags_def unclaimed_def)
qed

lemma consumeAndClaim_eq:
  assumes "ledger_ok rows"
  shows "consumeAndClaim m now c p rows =
     (if \<not> assertNow now then (Inl InvalidArgument, rows)
      else if list_ex (expired now) (pruned now rows)
        then (Inr (Refused MaintenanceBacklog), pruned now rows)
      else if int (length (pruned now rows)) > MAX_RENDEZVOUS_REPLAY_ADMISSIONS
        then (Inl CorruptSchema, rows)
      else if int (length (pruned now rows)) \<ge> m
        then (Inr (Refused StorageCapacity), pruned now rows)
      else if \<not> isAdmissionId (next_rowid (pruned now rows)) then (Inl CorruptSchema, rows)
      else if \<not> isReplayTagPair (Some c) (Some p) then (Inl InvalidArgument, rows)
      else if list_ex (tag_collides c p) (pruned now rows)
        then (Inr (Refused Replayed), pruned now rows)
      else (Inr (Accepted (next_rowid (pruned now rows))), pruned now rows @
              [(fresh_row now (pruned now rows))\<lparr>ar_current := Some c, ar_previous := Some p\<rparr>]))"
proof -
  have ok: "ledger_ok (pruned now rows @ [fresh_row now (pruned now rows)])"
    if "assertNow now" "isAdmissionId (next_rowid (pruned now rows))"
    using ledger_ok_append[OF ledger_ok_pruned[OF assms]] that by blast
  have "tag_collides c p (fresh_row now rs) = False" for rs
    by (simp add: tag_collides_def)
  then show ?thesis
    by (auto simp: consumeAndClaim_def consume_eq[OF assms] claimReplayTags_eq[OF ok] find_fresh
        release_eq filter_unclaimed_fresh set_tags_fresh transactionSync_def)
qed

lemma ledger_ok_consumeAndClaim:
  assumes "ledger_ok rows" shows "ledger_ok (snd (consumeAndClaim m now c p rows))"
proof -
  let ?rows = "pruned now rows"
  have "ledger_ok (?rows @ [(fresh_row now ?rows)\<lparr>ar_current := Some c, ar_previous := Some p\<rparr>])"
    if "assertNow now" "isAdmissionId (next_rowid ?rows)" "isReplayTagPair (Some c) (Some p)"
      "\<not> list_ex (tag_collides c p) ?rows"
    using ledger_ok_set_tags[OF ledger_ok_append[OF ledger_ok_pruned[OF assms] that(1,2)] that(3),
        of "fresh_row now ?rows" "next_rowid ?rows"] that(4)
    by (simp add: set_tags_fresh tag_collides_def)
  then show ?thesis using assms by (simp add: consumeAndClaim_eq ledger_ok_pruned)
qed


subsection \<open>Replay protection over time\<close>

text \<open>
  The interface the room relies on: a store whose steps keep what it holds inside the
  window, and never admit what it holds. Whatever provides it never admits one tag twice
  within the window.
\<close>

locale replay_window =
  fixes store_ok :: "'s \<Rightarrow> bool"
    and step :: "'op \<Rightarrow> 's \<Rightarrow> 's"
    and clock :: "'op \<Rightarrow> int"
    and admits :: "'op \<Rightarrow> 's \<Rightarrow> 'tag set"
    and holds :: "'s \<Rightarrow> 'tag \<Rightarrow> int \<Rightarrow> bool"
    and window :: int
  assumes step_ok: "store_ok s \<Longrightarrow> store_ok (step x s)"
    and holds_admitted: "store_ok s \<Longrightarrow> t \<in> admits x s \<Longrightarrow> holds (step x s) t (clock x)"
    and holds_kept: "store_ok s \<Longrightarrow> holds s t a \<Longrightarrow> clock x < a + window \<Longrightarrow> holds (step x s) t a"
    and held_refused: "store_ok s \<Longrightarrow> holds s t a \<Longrightarrow> clock x < a + window \<Longrightarrow> t \<notin> admits x s"
begin

lemma run_ok: "store_ok s \<Longrightarrow> store_ok (fold step xs s)"
  by (induction xs arbitrary: s) (simp_all add: step_ok)

lemma run_holds:
  "store_ok s \<Longrightarrow> holds s t a \<Longrightarrow> \<forall>x \<in> set xs. clock x < a + window \<Longrightarrow> holds (fold step xs s) t a"
  by (induction xs arbitrary: s) (simp_all add: step_ok holds_kept)

lemma admitted_once:
  assumes "store_ok s" "t \<in> admits x s" "\<forall>y \<in> set (ys @ [z]). clock y < clock x + window"
  shows "t \<notin> admits z (fold step ys (step x s))"
  using assms held_refused[OF run_ok[OF step_ok[OF assms(1)]] run_holds[OF step_ok[OF assms(1)]
      holds_admitted[OF assms(1,2)]]] by simp

end

datatype ledger_op =
    OpConsume int
  | OpAdmit int string string
  | OpRelease int int
  | OpPrune int
  | OpClaim int int string string

fun ledger_clock :: "ledger_op \<Rightarrow> int" where
  "ledger_clock (OpConsume now) = now"
| "ledger_clock (OpAdmit now _ _) = now"
| "ledger_clock (OpRelease now _) = now"
| "ledger_clock (OpPrune now) = now"
| "ledger_clock (OpClaim now _ _ _) = now"

fun ledger_step :: "int \<Rightarrow> ledger_op \<Rightarrow> ledger \<Rightarrow> ledger" where
  "ledger_step m (OpConsume now) rows = snd (consume m now rows)"
| "ledger_step m (OpAdmit now c p) rows = snd (consumeAndClaim m now c p rows)"
| "ledger_step m (OpRelease _ i) rows = snd (release i rows)"
| "ledger_step m (OpPrune now) rows = snd (prune now rows)"
| "ledger_step m (OpClaim _ i c p) rows = snd (claimReplayTags i c p rows)"

fun ledger_admits :: "int \<Rightarrow> ledger_op \<Rightarrow> ledger \<Rightarrow> string set" where
  "ledger_admits m (OpAdmit now c p) rows =
     (case fst (consumeAndClaim m now c p rows) of Inr (Accepted _) \<Rightarrow> {c, p} | _ \<Rightarrow> {})"
| "ledger_admits m _ rows = {}"

definition ledger_holds :: "ledger \<Rightarrow> string \<Rightarrow> int \<Rightarrow> bool" where
  "ledger_holds rows t a \<longleftrightarrow>
     (\<exists>r \<in> set rows. t \<in> set (row_tags r) \<and> ar_accepted_at_ms r = a)"

lemma holds_pruned:
  "ledger_ok rows \<Longrightarrow> ledger_holds rows t a \<Longrightarrow> now < a + RENDEZVOUS_ROLLING_WINDOW_MS \<Longrightarrow>
   ledger_holds (pruned now rows) t a"
  using live_not_pruned[of rows _ now] by (fastforce simp: ledger_holds_def ledger_ok_def expired_def)

lemma row_tags_mem: "t \<in> set (row_tags r) \<longleftrightarrow> ar_current r = Some t \<or> ar_previous r = Some t"
  by (cases "ar_current r"; cases "ar_previous r") (auto simp: row_tags_def List.map_filter_simps)

lemma holds_filter_claimed:
  "ledger_holds rows t a \<Longrightarrow> ledger_holds (filter (\<lambda>r. \<not> unclaimed i r) rows) t a"
  by (fastforce simp: ledger_holds_def unclaimed_def row_tags_mem)

lemma holds_set_tags: "ledger_holds rows t a \<Longrightarrow> ledger_holds (set_tags i c p rows) t a"
proof -
  assume "ledger_holds rows t a"
  then obtain r where r: "r \<in> set rows" "t \<in> set (row_tags r)" "ar_accepted_at_ms r = a"
    by (auto simp: ledger_holds_def)
  then have "\<not> unclaimed i r" by (auto simp: unclaimed_def row_tags_mem)
  with r(1) have "r \<in> set (set_tags i c p rows)" by (force simp: set_tags_def)
  with r show ?thesis by (auto simp: ledger_holds_def)
qed

lemma holds_append: "ledger_holds rows t a \<Longrightarrow> ledger_holds (rows @ rows') t a"
  by (auto simp: ledger_holds_def)

lemma holds_collides: "ledger_holds rows t a \<Longrightarrow> t \<in> {c, p} \<Longrightarrow> list_ex (tag_collides c p) rows"
  by (auto simp: ledger_holds_def list_ex_iff tag_collides_def row_tags_mem)

interpretation ledger: replay_window ledger_ok "ledger_step m" ledger_clock "ledger_admits m"
  ledger_holds RENDEZVOUS_ROLLING_WINDOW_MS for m
proof
  fix s x assume ok: "ledger_ok s"
  show "ledger_ok (ledger_step m x s)"
    using ok by (cases x) (simp_all add: ledger_ok_consume ledger_ok_consumeAndClaim ledger_ok_release
        ledger_ok_prune ledger_ok_claim)
next
  fix s t x assume ok: "ledger_ok s" and adm: "t \<in> ledger_admits m x s"
  then obtain now c p i where x: "x = OpAdmit now c p" "fst (consumeAndClaim m now c p s) = Inr (Accepted i)"
    "t \<in> {c, p}"
    by (cases x) (auto split: sum.splits consume_result.splits)
  then show "ledger_holds (ledger_step m x s) t (ledger_clock x)"
    using ok by (auto simp: consumeAndClaim_eq ledger_holds_def row_tags_simps split: if_splits)
next
  fix s t a x assume "ledger_ok s" "ledger_holds s t a"
    "ledger_clock x < a + RENDEZVOUS_ROLLING_WINDOW_MS"
  then show "ledger_holds (ledger_step m x s) t a"
    by (cases x) (auto simp: consume_eq consumeAndClaim_eq release_eq prune_eq claimReplayTags_eq
        holds_pruned holds_filter_claimed holds_set_tags holds_append split: option.split)
next
  fix s t a x assume *: "ledger_ok s" "ledger_holds s t a"
    "ledger_clock x < a + RENDEZVOUS_ROLLING_WINDOW_MS"
  show "t \<notin> ledger_admits m x s"
  proof
    assume "t \<in> ledger_admits m x s"
    then obtain now c p i where x: "x = OpAdmit now c p"
      "fst (consumeAndClaim m now c p s) = Inr (Accepted i)" "t \<in> {c, p}"
      by (cases x) (auto split: sum.splits consume_result.splits)
    then show False
      using * holds_collides[OF holds_pruned[OF *(1,2), of now] x(3)]
      by (auto simp: consumeAndClaim_eq split: if_splits)
  qed
qed

subsection \<open>Pruning and expiry\<close>

lemma ledger_distinct: "ledger_ok rows \<Longrightarrow> distinct rows"
  by (simp add: ledger_ok_def distinct_map)

lemma pruned_expired:
  assumes "ledger_ok rows"
  shows "filter (expired now) (pruned now rows) =
      filter (\<lambda>r. r \<notin> set (expired_batch (now - RENDEZVOUS_ROLLING_WINDOW_MS) rows))
        (filter (expired now) rows)"
    and "filter (\<lambda>r. \<not> expired now r) (pruned now rows) = filter (\<lambda>r. \<not> expired now r) rows"
proof -
  let ?B = "expired_batch (now - RENDEZVOUS_ROLLING_WINDOW_MS) rows"
  have id: "ar_id r \<in> set (map ar_id ?B) \<longleftrightarrow> r \<in> set ?B" if "r \<in> set rows" for r
    using that assms expired_batch_sub[of now rows] by (auto simp: ledger_ok_def distinct_map dest: inj_onD)
  show "filter (expired now) (pruned now rows) =
      filter (\<lambda>r. r \<notin> set ?B) (filter (expired now) rows)"
    unfolding pruned_def filter_filter using id by (auto intro!: filter_cong)
  show "filter (\<lambda>r. \<not> expired now r) (pruned now rows) = filter (\<lambda>r. \<not> expired now r) rows"
    unfolding pruned_def filter_filter using id expired_batch_sub[of now rows] by (auto intro!: filter_cong)
qed

lemma expired_batch_eq:
  "expired_batch (now - RENDEZVOUS_ROLLING_WINDOW_MS) rows =
     take REPLAY_PRUNE_BATCH_SIZE (js_sort compareAdmissions (filter (expired now) rows))"
proof -
  have "(\<lambda>r. ar_accepted_at_ms r \<le> now - RENDEZVOUS_ROLLING_WINDOW_MS) = expired now"
    by (auto simp: expired_def)
  then show ?thesis by (simp add: expired_batch_def)
qed

lemma batch_split:
  assumes "ledger_ok rows"
  shows "mset (filter (expired now) rows) =
      mset (expired_batch (now - RENDEZVOUS_ROLLING_WINDOW_MS) rows) +
      mset (filter (expired now) (pruned now rows))"
proof -
  let ?E = "filter (expired now) rows" and ?B = "expired_batch (now - RENDEZVOUS_ROLLING_WINDOW_MS) rows"
  have B: "?B = take REPLAY_PRUNE_BATCH_SIZE (js_sort compareAdmissions ?E)" by (rule expired_batch_eq)
  have "distinct (js_sort compareAdmissions ?E)"
    using ledger_distinct[OF assms] by (metis distinct_filter mset_js_sort mset_eq_imp_distinct_iff)
  then have "distinct ?B" unfolding B by (rule distinct_take)
  moreover have "set ?B \<subseteq> set ?E" using expired_batch_sub[of now rows] by auto
  ultimately have "mset ?B = mset (filter (\<lambda>r. r \<in> set ?B) ?E)"
    using ledger_distinct[OF assms]
    by (intro set_eq_iff_mset_eq_distinct[THEN iffD1]) auto
  then show ?thesis
    unfolding pruned_expired[OF assms]
    using multiset_partition[of "mset ?E" "\<lambda>r. r \<in> set ?B"] by (metis mset_filter)
qed

lemma pruned_expired_count:
  "ledger_ok rows \<Longrightarrow> length (filter (expired now) (pruned now rows)) =
     length (filter (expired now) rows) - REPLAY_PRUNE_BATCH_SIZE"
  using arg_cong[OF batch_split[of rows now], of size] length_expired_batch[of now rows]
  unfolding size_union size_mset by simp

lemma pruned_oldest_first:
  assumes "ledger_ok rows" "r \<in> set rows" "r \<notin> set (pruned now rows)"
    "s \<in> set (pruned now rows)" "expired now s"
  shows "compareAdmissions r s \<le> 0"
proof -
  let ?E = "js_sort compareAdmissions (filter (expired now) rows)"
  have B: "expired_batch (now - RENDEZVOUS_ROLLING_WINDOW_MS) rows = take REPLAY_PRUNE_BATCH_SIZE ?E" by (rule expired_batch_eq)
  have "ar_id r \<in> ar_id ` set (take REPLAY_PRUNE_BATCH_SIZE ?E)"
    using assms(2,3) by (auto simp: pruned_def B)
  then have r: "r \<in> set (take REPLAY_PRUNE_BATCH_SIZE ?E)"
    using assms(1,2) expired_batch_sub[of now rows] unfolding B
    by (auto simp: ledger_ok_def distinct_map dest!: inj_onD)
  have "s \<in> set ?E" "s \<notin> set (take REPLAY_PRUNE_BATCH_SIZE ?E)"
    using assms(4,5) by (auto simp: pruned_def B)
  then have "s \<in> set (drop REPLAY_PRUNE_BATCH_SIZE ?E)"
    by (metis append_take_drop_id Un_iff set_append)
  with r show ?thesis
    using admission_order.ordered_js_sort[of "filter (expired now) rows"]
      sorted_wrt_append[of "\<lambda>x y. compareAdmissions x y \<le> 0" "take REPLAY_PRUNE_BATCH_SIZE ?E"
        "drop REPLAY_PRUNE_BATCH_SIZE ?E"] by simp
qed

lemma iterated_prune:
  assumes "ledger_ok rows" "assertNow now"
  shows "ledger_ok (((\<lambda>rs. snd (prune now rs)) ^^ n) rows) \<and>
    length (filter (expired now) (((\<lambda>rs. snd (prune now rs)) ^^ n) rows)) =
      length (filter (expired now) rows) - n * REPLAY_PRUNE_BATCH_SIZE \<and>
    filter (\<lambda>r. \<not> expired now r) (((\<lambda>rs. snd (prune now rs)) ^^ n) rows) =
      filter (\<lambda>r. \<not> expired now r) rows"
proof (induction n)
  case (Suc n)
  then show ?case
    using assms(2) by (simp add: prune_eq ledger_ok_pruned pruned_expired_count pruned_expired(2))
qed (use assms in simp)

lemma earliest_eq:
  assumes "ledger_ok rows" "rows \<noteq> []"
  obtains r where "r \<in> set rows" "earliestRetainedExpiryMs rows =
      Inr (Some (ar_accepted_at_ms r + RENDEZVOUS_ROLLING_WINDOW_MS))"
    "\<forall>s \<in> set rows. ar_accepted_at_ms r \<le> ar_accepted_at_ms s"
proof -
  obtain r rest where sorted: "js_sort compareAdmissions rows = r # rest"
    using assms(2) length_js_sort[of compareAdmissions rows] by (cases "js_sort compareAdmissions rows") auto
  then have mem: "r \<in> set rows" by (metis list.set_intros(1) set_js_sort)
  have "ar_accepted_at_ms r \<le> ar_accepted_at_ms s" if "s \<in> set rows" for s
    using admission_order.js_sort_first[OF sorted that] by (auto simp: compareAdmissions_def split: if_splits)
  with that mem assms(1) sorted show ?thesis
    by (auto simp: earliestRetainedExpiryMs_def ledger_ok_def list_all_iff assertStoredRow_def)
qed

subsection \<open>Properties\<close>

definition example_tag :: "string \<Rightarrow> string" where
  "example_tag key = ''v1.'' @ key @ ''.'' @ replicate 43 CHR ''A''"

text \<open>
  C10: A ticket is admitted at most once in the rolling window: after an accepted
  \<open>consumeAndClaim\<close>, whatever sequence of consumptions, admissions, releases, prunes and
  claims follows within 24 hours, no admission that shares one of the two replay tags is
  accepted.
\<close>

theorem ticket_admitted_once:
  assumes "ledger_ok rows" "fst (consumeAndClaim m now c p rows) = Inr (Accepted i)"
    "\<forall>x \<in> set ops. ledger_clock x < now + RENDEZVOUS_ROLLING_WINDOW_MS"
    "now' < now + RENDEZVOUS_ROLLING_WINDOW_MS" "{c, p} \<inter> {c', p'} \<noteq> {}"
  shows "fst (consumeAndClaim m now' c' p'
      (fold (ledger_step m) ops (snd (consumeAndClaim m now c p rows)))) \<noteq> Inr (Accepted j)"
proof
  assume acc: "fst (consumeAndClaim m now' c' p'
      (fold (ledger_step m) ops (snd (consumeAndClaim m now c p rows)))) = Inr (Accepted j)"
  obtain t where t: "t \<in> {c, p}" "t \<in> {c', p'}" using assms(5) by blast
  have "t \<in> ledger_admits m (OpAdmit now c p) rows" using assms(2) t(1) by simp
  from ledger.admitted_once[OF assms(1) this, of ops "OpAdmit now' c' p'"] assms(3,4) t(2) acc
  show False by simp
qed

theorem ticket_admitted_once_witness:
  "fst (consumeAndClaim 10 90000 (example_tag ''k2'') (example_tag ''k3'')
     (fold (ledger_step 10) [OpPrune 50000, OpRelease 60000 1]
       (snd (consumeAndClaim 10 1000 (example_tag ''k1'') (example_tag ''k2'') [])))) \<noteq> Inr (Accepted 1)"
proof (rule ticket_admitted_once)
  show "fst (consumeAndClaim 10 1000 (example_tag ''k1'') (example_tag ''k2'') []) = Inr (Accepted 1)"
    by code_simp
qed (simp_all add: ledger_ok_def RENDEZVOUS_ROLLING_WINDOW_MS_def)

text \<open>
  C11: What \<open>consumeAndClaim\<close> does on every branch of a sound ledger: the SQL constraints never
  fire, a replay or a refusal leaves exactly the pruned rows (no reservation stays
  behind), an error leaves the ledger as it was, and an acceptance adds one claimed row.
\<close>

theorem consumeAndClaim_behaviour:
  assumes "ledger_ok rows" "assertNow now" "isReplayTagPair (Some c) (Some p)"
    "isAdmissionId (next_rowid (pruned now rows))" "m \<le> MAX_RENDEZVOUS_REPLAY_ADMISSIONS"
  shows "case consumeAndClaim m now c p rows of
      (Inl e, rows') \<Rightarrow> e = CorruptSchema \<and> rows' = rows \<and>
        MAX_RENDEZVOUS_REPLAY_ADMISSIONS < int (length (pruned now rows))
    | (Inr (Refused why), rows') \<Rightarrow> rows' = pruned now rows \<and>
        (case why of
           MaintenanceBacklog \<Rightarrow> \<exists>r \<in> set rows'. expired now r
         | StorageCapacity \<Rightarrow> m \<le> int (length rows')
         | Replayed \<Rightarrow> \<exists>r \<in> set rows'. tag_collides c p r)
    | (Inr (Accepted i), rows') \<Rightarrow>
        rows' = pruned now rows @ [\<lparr> ar_id = i, ar_accepted_at_ms = now, ar_current = Some c,
                                     ar_previous = Some p \<rparr>] \<and>
        i \<notin> ar_id ` set (pruned now rows) \<and> int (length rows') \<le> m \<and> ledger_ok rows'"
proof -
  have "ledger_ok (snd (consumeAndClaim m now c p rows))" by (rule ledger_ok_consumeAndClaim[OF assms(1)])
  moreover have "next_rowid (pruned now rows) \<notin> ar_id ` set (pruned now rows)"
    using next_rowid_fresh by fastforce
  ultimately show ?thesis
    using assms(2-5) by (auto simp: consumeAndClaim_eq[OF assms(1)] fresh_row_def list_ex_iff)
qed

theorem consumeAndClaim_behaviour_witness:
  "consumeAndClaim 10 1000 (example_tag ''k1'') (example_tag ''k2'') [] =
     (Inr (Accepted 1), [\<lparr> ar_id = 1, ar_accepted_at_ms = 1000,
        ar_current = Some (example_tag ''k1''), ar_previous = Some (example_tag ''k2'') \<rparr>])"
proof -
  have fst: "fst (consumeAndClaim 10 1000 (example_tag ''k1'') (example_tag ''k2'') []) = Inr (Accepted 1)"
    by code_simp
  have empty: "pruned 1000 [] = []" by (simp add: pruned_def)
  have tags: "isReplayTagPair (Some (example_tag ''k1'')) (Some (example_tag ''k2''))" by code_simp
  show ?thesis
    using consumeAndClaim_behaviour[of "[]" 1000, OF _ _ tags, of 10] fst
    by (cases "consumeAndClaim 10 1000 (example_tag ''k1'') (example_tag ''k2'') []")
      (simp add: ledger_ok_def assertNow_def is_safe_integer_def max_safe_integer_def empty
        MAX_ACCEPTED_AT_MS_def RENDEZVOUS_ROLLING_WINDOW_MS_def next_rowid_def isAdmissionId_def
        MAX_RENDEZVOUS_REPLAY_ADMISSIONS_def)
qed


definition example_rows :: ledger where
  "example_rows =
     [ \<lparr> ar_id = 1, ar_accepted_at_ms = 1000, ar_current = Some (example_tag ''k1''),
         ar_previous = Some (example_tag ''k2'') \<rparr>,
       \<lparr> ar_id = 2, ar_accepted_at_ms = 5000, ar_current = None, ar_previous = None \<rparr> ]"

lemma example_rows_ok: "ledger_ok example_rows"
  by code_simp


text \<open>
  C13: \<open>earliestRetainedExpiryMs\<close> is the right time for the alarm: it is none exactly for an
  empty ledger, pruning before it deletes nothing, and pruning at it or later makes
  progress.
\<close>

theorem earliest_expiry_is_next_prune:
  assumes "ledger_ok rows" "assertNow now"
  shows "case earliestRetainedExpiryMs rows of
      Inl _ \<Rightarrow> False
    | Inr None \<Rightarrow> rows = []
    | Inr (Some e) \<Rightarrow> if now < e then prune now rows = (Inr 0, rows)
                     else \<exists>k \<ge> 1. fst (prune now rows) = Inr k \<and>
                            int (length (snd (prune now rows))) = int (length rows) - k"
proof (cases "rows = []")
  case False
  obtain r where r: "r \<in> set rows" "earliestRetainedExpiryMs rows =
      Inr (Some (ar_accepted_at_ms r + RENDEZVOUS_ROLLING_WINDOW_MS))"
    "\<forall>s \<in> set rows. ar_accepted_at_ms r \<le> ar_accepted_at_ms s"
    by (rule earliest_eq[OF assms(1) False])
  have count: "length (pruned now rows) = length rows -
      min REPLAY_PRUNE_BATCH_SIZE (length (filter (expired now) rows))"
    using sum_length_filter_compl[of "expired now" rows] sum_length_filter_compl[of "expired now" "pruned now rows"]
      pruned_expired_count[OF assms(1), of now] pruned_expired(2)[OF assms(1), of now] by simp
  have le: "length (filter (expired now) rows) \<le> length rows" by simp
  show ?thesis
  proof (cases "now < ar_accepted_at_ms r + RENDEZVOUS_ROLLING_WINDOW_MS")
    case True
    with r(3) have none: "filter (expired now) rows = []" by (fastforce simp: filter_empty_conv expired_def)
    with count have "pruned now rows = rows"
      unfolding pruned_def by (metis diff_zero filter_length_eq_iff filter_True list.size(3) min_0R)
    with r(2) True none assms(2) show ?thesis by (simp add: prune_eq)
  next
    case False
    with r(1) have "filter (expired now) rows \<noteq> []" by (force simp: filter_empty_conv expired_def)
    then have "1 \<le> min REPLAY_PRUNE_BATCH_SIZE (length (filter (expired now) rows))"
      by (simp add: REPLAY_PRUNE_BATCH_SIZE_def Suc_le_eq)
    moreover have "min REPLAY_PRUNE_BATCH_SIZE (length (filter (expired now) rows)) \<le> length rows"
      using le by linarith
    ultimately show ?thesis
      using r(2) False assms(2) count by (simp add: prune_eq of_nat_diff)
  qed
qed (simp add: earliestRetainedExpiryMs_def)

theorem earliest_expiry_is_next_prune_witness:
  "earliestRetainedExpiryMs example_rows = Inr (Some 86401000) \<and>
   prune 86400999 example_rows = (Inr 0, example_rows)"
proof -
  have e: "earliestRetainedExpiryMs example_rows = Inr (Some 86401000)" by code_simp
  have "assertNow 86400999" by code_simp
  from earliest_expiry_is_next_prune[OF example_rows_ok this] e show ?thesis by simp
qed

text \<open>
  \<open>initialize\<close> is atomic and idempotent: when it throws the database is as it was; when
  it succeeds the rows fit the ceiling and share no tag, a new database starts empty,
  an old one keeps its rows, and initializing again changes nothing.
\<close>

theorem initialize_idempotent:
  "case initialize quick db of
      (Inl e, db') \<Rightarrow> db' = db
    | (Inr _, db') \<Rightarrow>
        (case db_rows db' of
           None \<Rightarrow> False
         | Some rows \<Rightarrow> int (length rows) \<le> MAX_RENDEZVOUS_REPLAY_ADMISSIONS \<and>
             distinct (concat (map row_tags rows)) \<and>
             (if db_versions db \<in> {None, Some []} then db_rows db = None \<and> rows = []
              else db_rows db = Some rows)) \<and>
        initialize quick db' = (Inr (), db')"
proof -
  let ?v = "case db_versions db of None \<Rightarrow> [] | Some vs \<Rightarrow> sort vs"
  have new: "?v = [] \<longleftrightarrow> db_versions db \<in> {None, Some []}"
    by (auto split: option.splits) (metis length_0_conv length_sort)
  have hist: "assertMigrationHistory [] = None" "assertMigrationHistory [1] = None"
    by (simp_all add: assertMigrationHistory_def CURRENT_SCHEMA_VERSION_def is_safe_integer_def
        max_safe_integer_def)
  have zero: "0 \<le> MAX_RENDEZVOUS_REPLAY_ADMISSIONS" by (simp add: MAX_RENDEZVOUS_REPLAY_ADMISSIONS_def)
  have stored: "assertStoredRows quick rows \<Longrightarrow>
      int (length rows) \<le> MAX_RENDEZVOUS_REPLAY_ADMISSIONS \<and> distinct (concat (map row_tags rows))" for rows
    by (simp add: assertStoredRows_def assertRetainedCount_def)
  show ?thesis
  proof (cases "?v = []")
    case True
    with new hist stored zero show ?thesis
      by (cases "db_rows db")
        (auto simp: initialize_def applyMigrations_def split: option.splits)
  next
    case False
    with new stored show ?thesis
      by (cases "assertMigrationHistory ?v"; cases "db_rows db")
        (auto simp: initialize_def applyMigrations_def)
  qed
qed

end
