(* ===== verification/RoomLifecycle.thy ===== *)
theory RoomLifecycle
  imports RoomSessions Admission
begin

text \<open>
  The life of a rendezvous room around its messages (\<open>src/src/rendezvous-room.ts\<close>):
  construction, the upgrades of controls and clients, token rotation, the alarm, the end
  of a socket, and the per-socket message queues. Durable Object storage (\<open>get\<close>, \<open>put\<close>,
  \<open>delete\<close>, alarms) is part of the room's record; a storage call asks the fault schedule
  like any platform call, and no other event runs while one is awaited (the input gate).
  Awaits of Web Crypto and of the database do let other events run, so they end a
  segment.
\<close>

subsection \<open>Storage and alarms\<close>

definition storage_call :: "(room \<Rightarrow> room) \<Rightarrow> room \<Rightarrow> bool \<times> room" where
  "storage_call f r = (let (ok, r1) = platform_call r in (ok, if ok then f r1 else r1))"

definition storage_result :: "bool \<times> room \<Rightarrow> unit result \<times> room" where
  "storage_result x = (if fst x then Inr () else Inl PlatformFault, snd x)"

definition client_alarm :: "int \<Rightarrow> room \<Rightarrow> nat \<Rightarrow> int option" where
  "client_alarm now r i =
     (if \<not> is_open r i then None
      else case readClientAttachment r i of
        None \<Rightarrow> None
      | Some a \<Rightarrow> map_option (max (now + 1))
                   (if stage a = Terminal then terminalCloseAttemptAt a else Some (expiresAt a)))"

definition server_alarms :: "int \<Rightarrow> room \<Rightarrow> nat \<Rightarrow> int list" where
  "server_alarms now r i =
     (case readServerAttachment r i of
        None \<Rightarrow> []
      | Some s \<Rightarrow> if \<not> sv_current s \<or> \<not> is_open r i then []
                  else map (\<lambda>t. max (now + 1) (tk_expiresAt t)) (sv_tickets s))"

definition socket_alarms :: "int \<Rightarrow> room \<Rightarrow> int list" where
  "socket_alarms now r =
     List.map_filter (client_alarm now r) (getWebSockets ClientRole r) @
     concat (map (server_alarms now r) (getWebSockets ServerRole r))"

definition nextAlarm :: "int \<Rightarrow> ledger \<Rightarrow> room \<Rightarrow> admission_error + int option" where
  "nextAlarm now rows r =
     (let next = fold (\<lambda>t n. earlier n t) (socket_alarms now r) None in
      case earliestRetainedExpiryMs rows of
        Inl e \<Rightarrow> Inl e
      | Inr None \<Rightarrow> Inr next
      | Inr (Some e) \<Rightarrow> Inr (earlier next (max (now + 1) e)))"

definition scheduleNextAlarm :: "int \<Rightarrow> ledger \<Rightarrow> room \<Rightarrow> unit result \<times> room" where
  "scheduleNextAlarm now rows r =
     (case nextAlarm now rows r of
        Inl _ \<Rightarrow> (Inl PlatformFault, r)
      | Inr next \<Rightarrow> storage_result (storage_call (\<lambda>r. r\<lparr>stored_alarm := next\<rparr>) r))"

definition scheduleAdmissionAlarm :: "int \<Rightarrow> ledger \<Rightarrow> room \<Rightarrow> unit result \<times> room" where
  "scheduleAdmissionAlarm now rows r =
     (case earliestRetainedExpiryMs rows of
        Inl _ \<Rightarrow> (Inl PlatformFault, r)
      | Inr e \<Rightarrow> storage_result
          (storage_call (\<lambda>r. r\<lparr>stored_alarm := map_option (max (now + 1)) e\<rparr>) r))"

definition scheduleTeardownRetryAlarm :: "int \<Rightarrow> room \<Rightarrow> room" where
  "scheduleTeardownRetryAlarm now r =
     (let retryAt = now + 1; (got, r1) = platform_call r in
      if got \<and> (case stored_alarm r1 of None \<Rightarrow> True | Some t \<Rightarrow> t > retryAt)
      then snd (storage_call (\<lambda>r. r\<lparr>stored_alarm := Some retryAt\<rparr>) r1)
      else r1)"

definition persistTeardownRecoveryRequired :: "int \<Rightarrow> room \<Rightarrow> room" where
  "persistTeardownRecoveryRequired now r =
     scheduleTeardownRetryAlarm now
       (snd (storage_call (\<lambda>r. r\<lparr>stored_recovery := True, teardownRecoveryPersisted := True\<rparr>) r))"

text \<open>An integrity error is persisted before it is thrown on.\<close>

definition rethrowTeardownFailure :: "int \<Rightarrow> 'a result \<times> room \<Rightarrow> 'a result \<times> room" where
  "rethrowTeardownFailure now x =
     (case x of
        (Inl TeardownIntegrity, r) \<Rightarrow> (Inl TeardownIntegrity, persistTeardownRecoveryRequired now r)
      | _ \<Rightarrow> x)"

definition ensureInitialized :: "room \<Rightarrow> bool" where
  "ensureInitialized r \<longleftrightarrow> \<not> initializationFailed r \<and> \<not> teardownRecoveryRequired r"

subsection \<open>Construction\<close>

text \<open>
  The constructor's callback. \<open>generation_ok\<close> is the token pattern on the stored
  generation; \<open>quick\<close> the integrity answer of the ledger; \<open>keys\<close> whether the tag keys could
  be read. A new instance has empty memory (\<open>fresh_instance\<close>).
\<close>

definition fresh_instance :: "room \<Rightarrow> room" where
  "fresh_instance r =
     r\<lparr>finalizedConnections := [], inactiveControls := [], observedControlFailures := [],
       pendingClientOutcomes := (\<lambda>_. None), pendingServerOutcomes := (\<lambda>_. None),
       currentGeneration := None, initializationFailed := False,
       teardownRecoveryPersisted := False, teardownRecoveryRequired := False\<rparr>"

definition construct_recovery :: "int \<Rightarrow> room \<Rightarrow> bool \<times> room" where
  "construct_recovery now r =
     (let (got, r1) = platform_call r in
      if \<not> got then (False, r1)
      else if \<not> stored_recovery r1 then (True, r1)
      else
        let r2 = r1\<lparr>teardownRecoveryPersisted := True, teardownRecoveryRequired := True\<rparr>;
            (sanitized, r3) = closeSocketsForTeardownRecovery r2 in
        if sanitized then
          storage_call (\<lambda>r. r\<lparr>stored_recovery := False, teardownRecoveryPersisted := False,
                               teardownRecoveryRequired := False\<rparr>) r3
        else (True, scheduleTeardownRetryAlarm now r3))"

definition construct_state ::
  "string list \<Rightarrow> bool \<Rightarrow> admission_db \<Rightarrow> room \<Rightarrow> (bool \<times> bool) \<times> admission_db \<times> room" where
  "construct_state quick keys db r =
     (let (got, r1) = platform_call r in
      if \<not> got \<or> \<not> pred_option is_hex64 (stored_generation r1) then ((False, False), db, r1)
      else
        let r2 = r1\<lparr>currentGeneration := stored_generation r1\<rparr> in
        case initialize quick db of
          (Inl _, db1) \<Rightarrow> ((False, False), db1, r2)
        | (Inr _, db1) \<Rightarrow> ((keys, True), db1, r2))"

definition construct ::
  "int \<Rightarrow> string list \<Rightarrow> bool \<Rightarrow> admission_db \<Rightarrow> room \<Rightarrow> bool \<times> admission_db \<times> room" where
  "construct now quick keys db r0 =
     (let (recovered, r1) = construct_recovery now (fresh_instance r0);
          ((ok, admissionsInitialized), db1, r2) =
            (if recovered then construct_state quick keys db r1 else ((False, False), db, r1)) in
      if ok then (admissionsInitialized, db1, r2)
      else
        let (sanitized, r3) =
              closeSocketsForInitializationFailure (r2\<lparr>initializationFailed := True\<rparr>) in
        if sanitized \<and> admissionsInitialized then
          (case db_rows db1 of
             None \<Rightarrow> (admissionsInitialized, db1, r3)
           | Some rows \<Rightarrow>
               (case prune now rows of
                  (Inl _, _) \<Rightarrow> (admissionsInitialized, db1, r3)
                | (Inr _, rows1) \<Rightarrow> (admissionsInitialized, db1\<lparr>db_rows := Some rows1\<rparr>,
                                     snd (scheduleAdmissionAlarm now rows1 r3))))
        else (admissionsInitialized, db1, r3))"

subsection \<open>A new control\<close>

definition previousServers :: "room \<Rightarrow> active_server list" where
  "previousServers r =
     js_sort compareActiveServersNewestFirst
       (List.map_filter
         (\<lambda>i. case readServerAttachment r i of
                None \<Rightarrow> None | Some s \<Rightarrow> if sv_current s then Some (i, s) else None)
         (getWebSockets ServerRole r))"

fun prepareAll :: "active_server list \<Rightarrow> room \<Rightarrow> (bool \<times> retirement list) \<times> room" where
  "prepareAll [] r = ((False, []), r)"
| "prepareAll (previous # rest) r =
     (let (retirement, r1) = prepareServerRetirement previous close_serverReplaced r;
          ((unsafe, retirements), r2) = prepareAll rest r1
      in ((retirement = None \<or> unsafe,
           (case retirement of None \<Rightarrow> retirements | Some x \<Rightarrow> x # retirements)), r2))"

definition finishAll :: "close \<Rightarrow> retirement list \<Rightarrow> room \<Rightarrow> room" where
  "finishAll cl = fold (finishServerRetirement cl)"

definition closeMalformed :: "nat \<Rightarrow> room \<Rightarrow> bool \<times> room" where
  "closeMalformed i r =
     (if readServerAttachment r i = None then closeSocket i close_internalError r else (True, r))"

text \<open>The way back after a failed replacement: the previous control, or no clients at all.\<close>

definition abandonReplacement :: "int \<Rightarrow> retirement list \<Rightarrow> room \<Rightarrow> room" where
  "abandonReplacement now retirements r =
     (let (restored, r1) = restorePreviousServer retirements r in
      if restored then r1
      else
        let (retired, r2) = closeAllClients now ServerUnavailable close_serverUnavailable r1 in
        if retired then r2 else persistTeardownRecoveryRequired now r2)"

definition new_socket :: "role \<Rightarrow> room \<Rightarrow> room" where
  "new_socket tag r =
     r\<lparr>sock := (sock r)(sock_count r := \<lparr> so_role = tag, so_open = True, so_listed = False,
                                          so_stored = JUndefined \<rparr>),
       sock_count := sock_count r + 1\<rparr>"

definition list_socket :: "nat \<Rightarrow> room \<Rightarrow> room" where
  "list_socket i r = r\<lparr>sock := (sock r)(i := (sock r i)\<lparr>so_listed := True\<rparr>)\<rparr>"

text \<open>\<open>new WebSocketPair()\<close>: \<open>None\<close> when it throws.\<close>

definition open_pair :: "role \<Rightarrow> room \<Rightarrow> nat option \<times> room" where
  "open_pair tag r =
     (let (ok, r1) = platform_call r in
      if ok then (Some (sock_count r1), new_socket tag r1) else (None, r1))"

definition acceptWebSocket :: "nat \<Rightarrow> room \<Rightarrow> bool \<times> room" where
  "acceptWebSocket i r =
     (let (ok, r1) = platform_call r in (ok, if ok then list_socket i r1 else r1))"

definition new_server :: "int \<Rightarrow> bool \<Rightarrow> string \<Rightarrow> string \<Rightarrow> server_attachment" where
  "new_server now accessProtocol gen uuid =
     \<lparr> sv_current = False, sv_accessProtocol = accessProtocol, sv_controlId = uuid,
       sv_generation = gen, sv_openedAt = now, sv_tickets = [] \<rparr>"

definition install_server :: "nat \<Rightarrow> server_attachment \<Rightarrow> room \<Rightarrow> bool \<times> room" where
  "install_server i s r0 =
     (let (accepted, r1) = acceptWebSocket i r0 in
      if \<not> accepted then (False, r1)
      else
        let (written, r2) = tryWriteAttachment i (ServerA s) r1 in
        if \<not> written then (False, r2)
        else
          let (current, r3) = tryWriteAttachment i (ServerA (s\<lparr>sv_current := True\<rparr>)) r2 in
          (current \<and> is_open r3 i, r3))"

definition createServer ::
  "int \<Rightarrow> bool \<Rightarrow> string \<Rightarrow> string \<Rightarrow> room \<Rightarrow> nat option \<times> room" where
  "createServer now accessProtocol gen uuid r0 =
     (case open_pair ServerRole r0 of
        (None, r1) \<Rightarrow> (None, r1)
      | (Some i, r1) \<Rightarrow>
          let s = new_server now accessProtocol gen uuid;
              (installed, r2) = install_server i s r1 in
          if installed then (Some i, r2)
          else (None, snd (closeSocket i close_internalError
                        (snd (tryWriteAttachment i (ServerA s) r2)))))"

definition closeOthers :: "nat \<Rightarrow> active_server list \<Rightarrow> nat \<Rightarrow> room \<Rightarrow> bool \<times> room" where
  "closeOthers new previous i r =
     (if i = new \<or> i \<in> set (map fst previous) then (True, r)
      else (True, snd (closeSocket i close_serverReplaced r)))"

text \<open>The synchronous part of \<open>acceptServer\<close>: retire, create, hand over.\<close>

definition replaceServer ::
  "int \<Rightarrow> bool \<Rightarrow> string \<Rightarrow> string \<Rightarrow> room \<Rightarrow> (room_error + nat) \<times> room" where
  "replaceServer now accessProtocol gen uuid r0 =
     (let previous = previousServers r0;
          ((unsafe, retirements), r1) = prepareAll previous r0 in
      if unsafe then (Inl RoomUnavailable, finishAll close_internalError retirements r1)
      else
        let (malformedClosed, r2) = for_each closeMalformed (getWebSockets ServerRole r1) r1 in
        if \<not> malformedClosed then (Inl RoomUnavailable, abandonReplacement now retirements r2)
        else
          case createServer now accessProtocol gen uuid r2 of
            (None, r3) \<Rightarrow> (Inl RoomUnavailable, abandonReplacement now retirements r3)
          | (Some i, r3) \<Rightarrow>
              let (clientsRetired, r4) = closeAllClients now ServerReplaced close_serverReplaced r3;
                  r5 = finishAll close_serverReplaced retirements r4;
                  (_, r6) = for_each (closeOthers i previous) (getWebSockets ServerRole r5) r5
              in (Inr i, if clientsRetired then r6 else persistTeardownRecoveryRequired now r6))"

definition acceptServer ::
  "int \<Rightarrow> bool \<Rightarrow> string \<Rightarrow> string \<Rightarrow> ledger \<Rightarrow> room \<Rightarrow> (room_error + nat) \<times> room" where
  "acceptServer now accessProtocol gen uuid rows r0 =
     (let (adopted, r1) =
            (case currentGeneration r0 of
               None \<Rightarrow>
                 (let (ok, r) = storage_call (\<lambda>r. r\<lparr>stored_generation := Some gen\<rparr>) r0
                  in (ok, if ok then r\<lparr>currentGeneration := Some gen\<rparr> else r))
             | Some g \<Rightarrow> (g = gen, r0)) in
      if \<not> adopted then (Inl RoomUnavailable, r1)
      else
        case scheduleNextAlarm now rows r1 of
          (Inl _, r2) \<Rightarrow> (Inl RoomUnavailable, r2)
        | (Inr _, r2) \<Rightarrow> replaceServer now accessProtocol gen uuid r2)"

subsection \<open>Token rotation\<close>

definition rotateServerStep :: "int \<Rightarrow> string option \<Rightarrow> nat \<Rightarrow> room \<Rightarrow> bool \<times> room" where
  "rotateServerStep now gen i r =
     (case readServerAttachment r i of
        None \<Rightarrow> closeSocket i close_internalError r
      | Some s \<Rightarrow>
          if Some (sv_generation s) \<noteq> gen
          then failServer now i s ServerReplaced close_serverReplaced r else (True, r))"

definition rotateClientStep :: "int \<Rightarrow> string option \<Rightarrow> nat \<Rightarrow> room \<Rightarrow> bool \<times> room" where
  "rotateClientStep now gen i r =
     (case readClientAttachment r i of
        None \<Rightarrow> closeSocket i close_internalError r
      | Some a \<Rightarrow>
          if Some (generation a) \<noteq> gen
          then failClient now i a ServerReplaced close_serverReplaced r else (True, r))"

definition rotateTokenGeneration ::
  "int \<Rightarrow> string option \<Rightarrow> ledger \<Rightarrow> room \<Rightarrow> unit result \<times> room" where
  "rotateTokenGeneration now gen rows r0 =
     (if currentGeneration r0 = gen then (Inr (), r0)
      else
        let (stored, r1) = storage_call (\<lambda>r. r\<lparr>stored_generation := gen\<rparr>) r0 in
        if \<not> stored then (Inl PlatformFault, r1)
        else
          let r2 = r1\<lparr>currentGeneration := gen\<rparr>;
              (servers, r3) = for_each (rotateServerStep now gen) (getWebSockets ServerRole r2) r2;
              (clients, r4) = for_each (rotateClientStep now gen) (getWebSockets ClientRole r3) r3 in
          if \<not> servers \<or> \<not> clients then (Inl TeardownIntegrity, r4)
          else scheduleNextAlarm now rows r4)"

text \<open>\<open>reconcilePublishedGeneration\<close>; \<open>published\<close> is what the database answered.\<close>

definition reconcilePublishedGeneration ::
  "int \<Rightarrow> string option \<Rightarrow> ledger \<Rightarrow> room \<Rightarrow> string option result \<times> room" where
  "reconcilePublishedGeneration now published rows r =
     (case rotateTokenGeneration now published rows r of
        (Inl e, r1) \<Rightarrow> (Inl e, r1)
      | (Inr _, r1) \<Rightarrow> (Inr published, r1))"

subsection \<open>A new client\<close>

definition client_room_full :: "nat \<Rightarrow> server_attachment \<Rightarrow> string \<Rightarrow> int \<Rightarrow> room \<Rightarrow> bool" where
  "client_room_full limit s gen now r \<longleftrightarrow>
     length (getWebSockets ClientRole r) \<ge> MAX_RENDEZVOUS_CLIENT_SOCKETS \<or>
     countActiveClients r (getWebSockets ClientRole r) (sv_controlId s) gen now \<ge> limit"

text \<open>\<open>acceptClient\<close> up to its first await.\<close>

definition acceptClient_precheck ::
  "int \<Rightarrow> nat \<Rightarrow> bool \<Rightarrow> string \<Rightarrow> int \<Rightarrow> room \<Rightarrow> (room_error + active_server) result \<times> room" where
  "acceptClient_precheck now limit authorizationRequired gen proofExpiresAt r0 =
     (if proofExpiresAt * 1000 \<le> now then (Inr (Inl Forbidden), r0)
      else if currentGeneration r0 \<noteq> Some gen then (Inr (Inl ServerUnavailableError), r0)
      else
        case reconcileActiveServer now None r0 of
          (Inl e, r1) \<Rightarrow> (Inl e, r1)
        | (Inr None, r1) \<Rightarrow> (Inr (Inl ServerUnavailableError), r1)
        | (Inr (Some (j, s)), r1) \<Rightarrow>
            if authorizationRequired \<and> \<not> sv_accessProtocol s
            then (Inr (Inl ServerUnavailableError), r1)
            else if sv_generation s \<noteq> gen then (Inr (Inl ServerUnavailableError), r1)
            else if client_room_full limit s (sv_generation s) now r1
            then (Inr (Inl RoomFull), r1)
            else (Inr (Inr (j, s)), r1))"

text \<open>
  What the awaits of \<open>acceptClient\<close> produced: the hash the client is bound to, the replay
  tags, and for an access room the redemption with its expiry in seconds.
\<close>

record admission_proof =
  ap_ticket :: string
  ap_expiresAt :: int
  ap_clientNonce :: "string option"
  ap_boundTicketHash :: string
  ap_tagCurrent :: string
  ap_tagPrevious :: string
  ap_receipt :: "(string \<times> int) option"

definition new_client ::
  "int \<Rightarrow> int \<Rightarrow> bool \<Rightarrow> string \<Rightarrow> string \<Rightarrow> string \<Rightarrow> int \<Rightarrow> admission_proof \<Rightarrow> client_attachment" where
  "new_client now sessionSeconds authorizationRequired gen cid uuid admission p =
     \<lparr> controlId = cid, generation = gen, connectionId = uuid, admissionId = admission,
       openedAt = now,
       expiresAt = min (now + (if authorizationRequired then 2000 else sessionSeconds * 1000))
         (case ap_receipt p of None \<Rightarrow> max_safe_integer | Some (_, e) \<Rightarrow> e * 1000),
       boundTicketHash = Some (ap_boundTicketHash p),
       accessClientNonce = ap_clientNonce p,
       accessExpiresAt = map_option (\<lambda>(_, e). e * 1000) (ap_receipt p),
       accessGrant = (if authorizationRequired then Some (ap_ticket p) else None),
       accessRedemption = map_option fst (ap_receipt p),
       ticket = None, ticketDigest = None, stage = AwaitingCandidate,
       authorization = (if authorizationRequired then AwaitingInit else NotRequired),
       clientAuthorizationFrames = 0, serverAuthorizationFrames = 0, clientCandidates = 0,
       serverCandidates = 0, completionCount = 0, signalBytes = 0, framesForwarded = 0,
       summaryEmitted = True, terminalOutcome = None, terminalCloseAttempts = 0 \<rparr>"

text \<open>The catch block of \<open>acceptClient\<close>; \<open>e\<close> is the error it caught.\<close>

definition acceptClient_abort ::
  "int \<Rightarrow> ledger \<Rightarrow> nat option \<Rightarrow> failure \<Rightarrow> room \<Rightarrow> (room_error + 'a) result \<times> room" where
  "acceptClient_abort now rows new e r0 =
     (let (torn, r1) =
            (case new of
               None \<Rightarrow> (True, r0)
             | Some i \<Rightarrow>
                 (case readClientAttachment r0 i of
                    Some a \<Rightarrow> failClient now i a ServerUnavailable close_serverUnavailable r0
                  | None \<Rightarrow> (True, snd (closeSocket i close_serverUnavailable r0)))) in
      if \<not> torn then (Inl TeardownIntegrity, r1)
      else
        case scheduleAdmissionAlarm now rows r1 of
          (Inl f, r2) \<Rightarrow> (Inl f, r2)
        | (Inr _, r2) \<Rightarrow>
            if e = TeardownIntegrity then rethrowTeardownFailure now (Inl TeardownIntegrity, r2)
            else (Inr (Inl ServerUnavailableError), r2))"

text \<open>The allocation: the socket, its stored record and the alarm, or the catch block.\<close>

definition allocateClient ::
  "int \<Rightarrow> ledger \<Rightarrow> client_attachment \<Rightarrow> room \<Rightarrow> (room_error + nat \<times> client_attachment) result \<times> room" where
  "allocateClient now rows a r1 =
     (case open_pair ClientRole r1 of
        (None, r2) \<Rightarrow> acceptClient_abort now rows None PlatformFault r2
      | (Some i, r2) \<Rightarrow>
          (case acceptWebSocket i r2 of
             (False, r3) \<Rightarrow> acceptClient_abort now rows (Some i) PlatformFault r3
           | (True, r3) \<Rightarrow>
             (case tryWriteAttachment i (ClientA a) r3 of
                (False, r4) \<Rightarrow> acceptClient_abort now rows (Some i) PlatformFault r4
              | (True, r4) \<Rightarrow>
                (case scheduleNextAlarm now rows r4 of
                   (Inl _, r5) \<Rightarrow> acceptClient_abort now rows (Some i) PlatformFault r5
                 | (Inr _, r5) \<Rightarrow> (Inr (Inr (i, a)), r5)))))"

text \<open>The claim and the allocation: from the last await before them to the next one.\<close>

definition acceptClient_admit ::
  "int \<Rightarrow> nat \<Rightarrow> int \<Rightarrow> bool \<Rightarrow> string \<Rightarrow> active_server \<Rightarrow> admission_proof \<Rightarrow> string \<Rightarrow>
   ledger \<times> room \<Rightarrow> (room_error + nat \<times> client_attachment) result \<times> ledger \<times> room" where
  "acceptClient_admit now limit sessionSeconds authorizationRequired gen server p uuid state =
     (let (rows0, r0) = state; (j, s) = server in
      case reconcileActiveServer now None r0 of
        (Inl e, r1) \<Rightarrow> (Inl e, rows0, r1)
      | (Inr latest, r1) \<Rightarrow>
        if ap_expiresAt p * 1000 \<le> now \<or>
           (case ap_receipt p of None \<Rightarrow> False | Some (_, e) \<Rightarrow> e * 1000 \<le> now)
        then (Inr (Inl Forbidden), rows0, r1)
        else if currentGeneration r1 \<noteq> Some gen \<or>
           (case latest of
              None \<Rightarrow> True
            | Some (k, u) \<Rightarrow> k \<noteq> j \<or> sv_controlId u \<noteq> sv_controlId s \<or> sv_generation u \<noteq> gen) \<or>
           \<not> is_open r1 j
        then (Inr (Inl ServerUnavailableError), rows0, r1)
        else if client_room_full limit s gen now r1 then (Inr (Inl RoomFull), rows0, r1)
        else
          case consumeAndClaim MAX_RENDEZVOUS_REPLAY_ADMISSIONS now (ap_tagCurrent p)
                 (ap_tagPrevious p) rows0 of
            (Inl _, rows1) \<Rightarrow> (Inl PlatformFault, rows1, r1)
          | (Inr (Refused Replayed), rows1) \<Rightarrow> (Inr (Inl Forbidden), rows1, r1)
          | (Inr (Refused _), rows1) \<Rightarrow>
              (Inr (Inl RoomUnavailable), rows1, snd (scheduleAdmissionAlarm now rows1 r1))
          | (Inr (Accepted admission), rows1) \<Rightarrow>
              let x = allocateClient now rows1 (new_client now sessionSeconds authorizationRequired
                        gen (sv_controlId s) uuid admission p) r1
              in (fst x, rows1, snd x))"

text \<open>After the last access check: the fences once more, then the upgrade is delivered.\<close>

definition acceptClient_deliver ::
  "int \<Rightarrow> bool \<Rightarrow> active_server \<Rightarrow> admission_proof \<Rightarrow> nat \<Rightarrow> client_attachment \<Rightarrow> ledger \<Rightarrow> room \<Rightarrow>
   (room_error + nat) result \<times> room" where
  "acceptClient_deliver now live server p i a rows r0 =
     (case reconcileActiveServer now None r0 of
        (Inl e, r1) \<Rightarrow> acceptClient_abort now rows (Some i) e r1
      | (Inr active, r1) \<Rightarrow>
        let current = readClientAttachment r1 i in
        if \<not> live \<or> ap_expiresAt p * 1000 \<le> now \<or> expiresAt a \<le> now \<or>
           (case ap_receipt p of None \<Rightarrow> False | Some (_, e) \<Rightarrow> e * 1000 \<le> now) \<or>
           (case current of
              None \<Rightarrow> True
            | Some c \<Rightarrow> stage c = Terminal \<or> connectionId c \<noteq> connectionId a) \<or>
           (case active of
              None \<Rightarrow> True
            | Some (k, u) \<Rightarrow> k \<noteq> fst server \<or> \<not> is_open r1 k \<or> sv_controlId u \<noteq> controlId a \<or>
                             sv_generation u \<noteq> generation a) \<or>
           currentGeneration r1 \<noteq> Some (generation a) \<or> \<not> is_open r1 i
        then acceptClient_abort now rows (Some i) PlatformFault r1
        else
          case platform_call r1 of
            (False, r2) \<Rightarrow> acceptClient_abort now rows (Some i) PlatformFault r2
          | (True, r2) \<Rightarrow>
              (case tryWriteAttachment i (ClientA (a\<lparr>summaryEmitted := False\<rparr>)) r2 of
                 (False, r3) \<Rightarrow> acceptClient_abort now rows (Some i) PlatformFault r3
               | (True, r3) \<Rightarrow> (Inr (Inr i), r3)))"

subsection \<open>The end of a socket\<close>

definition observeControlFailure :: "nat \<Rightarrow> server_attachment \<Rightarrow> room \<Rightarrow> room" where
  "observeControlFailure i s r =
     (if \<not> sv_current s \<or> Some (sv_generation s) \<noteq> currentGeneration r \<or>
         sv_controlId s \<in> set (inactiveControls r) \<or> pendingServerOutcomes r i \<noteq> None \<or>
         i \<in> set (observedControlFailures r) \<or>
         list_ex (\<lambda>x. compareActiveServersNewestFirst x (i, s) < 0) (currentOpenServers (Some i) r)
      then r
      else r\<lparr>observedControlFailures := i # observedControlFailures r,
              failure_log := failure_log r @ [i]\<rparr>)"

fun retireFallbacks :: "active_server list \<Rightarrow> room \<Rightarrow> bool \<times> room" where
  "retireFallbacks [] r = (True, r)"
| "retireFallbacks (previous # rest) r =
     (let (retired, r1) = retireServerImmediately previous close_serverUnavailable r;
          r2 = (if retired then r1
                else rememberInactive (sv_controlId (snd previous))
                       (setPendingServer (fst previous) (Some ServerUnavailable) r1));
          (oks, r3) = retireFallbacks rest r2
      in (retired \<and> oks, r3))"

text \<open>\<open>handleSocketGone\<close> of a control that was current and not retired on purpose.\<close>

definition controlGone :: "int \<Rightarrow> nat \<Rightarrow> server_attachment \<Rightarrow> room \<Rightarrow> bool \<times> room" where
  "controlGone now i s r =
     (case js_sort compareActiveServersNewestFirst (currentOpenServers (Some i) r) of
        [] \<Rightarrow> closeAllClients now ServerUnavailable close_serverUnavailable r
      | newest # others \<Rightarrow>
          if compareActiveServersNewestFirst (i, s) newest \<le> 0 then
            (let (retired, r1) = retireFallbacks (newest # others) r;
                 (clients, r2) = closeAllClients now ServerUnavailable close_serverUnavailable r1
             in (retired \<and> clients, r2))
          else
            (case reconcileActiveServer now (Some i) r of
               (Inl e, r1) \<Rightarrow> (False, r1)
             | (Inr replacement, r1) \<Rightarrow>
                 let (clients, r2) = closeAllClients now ServerReplaced close_serverReplaced r1
                 in (replacement \<noteq> None \<and> clients, r2)))"

definition serverGone :: "int \<Rightarrow> nat \<Rightarrow> server_attachment \<Rightarrow> bool \<Rightarrow> room \<Rightarrow> bool \<times> room" where
  "serverGone now i s wasClean r0 =
     (let r1 = (if wasClean then r0 else observeControlFailure i s r0);
          r2 = setPendingServer i None r1;
          deliberatelyRetired = (sv_controlId s \<in> set (inactiveControls r2));
          r3 = forgetInactive (sv_controlId s) r2 in
      if sv_current s \<and> \<not> deliberatelyRetired then controlGone now i s r3 else (True, r3))"

definition clientGone ::
  "int \<Rightarrow> nat \<Rightarrow> client_attachment \<Rightarrow> int \<Rightarrow> string \<Rightarrow> room \<Rightarrow> bool \<times> room" where
  "clientGone now i a code reason r =
     (let (ok, r1) =
        (case pendingClientOutcomes r i of
           Some pending \<Rightarrow> failClient now i a pending (rendezvousCloseForOutcome pending) r
         | None \<Rightarrow>
             if stage a \<noteq> Terminal then
               (case rendezvousOutcomeForClose code reason of
                  None \<Rightarrow> failClient now i a ClientDisconnected NORMAL_RENDEZVOUS_CLOSE r
                | Some out \<Rightarrow>
                    let (a1, r1) = transitionClientTerminal a out r in
                    (True, snd (tryWriteAttachment i (ClientA (a1\<lparr>summaryEmitted := True\<rparr>)) r1)))
             else if \<not> summaryEmitted a \<and> terminalOutcome a \<noteq> None then
               (True, snd (emitTerminalMetric now i a (the (terminalOutcome a)) r))
             else (True, r))
      in (ok, r1\<lparr>pendingClientOutcomes := (pendingClientOutcomes r1)(i := None)\<rparr>))"

definition handleSocketGone ::
  "int \<Rightarrow> nat \<Rightarrow> int \<Rightarrow> string \<Rightarrow> bool \<Rightarrow> ledger \<Rightarrow> room \<Rightarrow> unit result \<times> room" where
  "handleSocketGone now i code reason wasClean rows r0 =
     (if \<not> ensureInitialized r0 then (Inl PlatformFault, r0)
      else
        let (ok, r1) =
          (case readTaggedAttachment r0 i of
             Some (ServerA s) \<Rightarrow> serverGone now i s wasClean r0
           | Some (ClientA a) \<Rightarrow> clientGone now i a code reason r0
           | None \<Rightarrow>
               if so_role (sock r0 i) = ServerRole
               then closeAllClients now InternalError close_internalError r0 else (True, r0)) in
        if \<not> ok then (Inl TeardownIntegrity, r1) else scheduleNextAlarm now rows r1)"

definition webSocketClose ::
  "int \<Rightarrow> nat \<Rightarrow> int \<Rightarrow> string \<Rightarrow> bool \<Rightarrow> ledger \<Rightarrow> room \<Rightarrow> unit result \<times> room" where
  "webSocketClose now i code reason wasClean rows r =
     (case handleSocketGone now i code reason wasClean rows r of
        (Inr _, r1) \<Rightarrow> (Inr (), r1)
      | (Inl TeardownIntegrity, r1) \<Rightarrow> rethrowTeardownFailure now (Inl TeardownIntegrity, r1)
      | (Inl PlatformFault, r1) \<Rightarrow> (Inr (), snd (closeSocket i close_internalError r1)))"

definition webSocketError :: "int \<Rightarrow> nat \<Rightarrow> ledger \<Rightarrow> room \<Rightarrow> unit result \<times> room" where
  "webSocketError now i rows r0 =
     (if \<not> ensureInitialized r0 then (Inr (), snd (closeSocket i close_internalError r0))
      else
        let r1 = (case readTaggedAttachment r0 i of
                    Some (ServerA s) \<Rightarrow> observeControlFailure i s r0 | _ \<Rightarrow> r0);
            (ok, r2) = failTagged now i InternalError close_internalError r1 in
        if \<not> ok then rethrowTeardownFailure now (Inl TeardownIntegrity, r2)
        else
          case scheduleNextAlarm now rows r2 of
            (Inr _, r3) \<Rightarrow> (Inr (), r3)
          | (Inl _, r3) \<Rightarrow> (Inr (), snd (closeSocket i close_internalError r3)))"

subsection \<open>The alarm\<close>

definition alarm_recovery :: "room \<Rightarrow> unit result \<times> room" where
  "alarm_recovery r0 =
     (if \<not> teardownRecoveryRequired r0 then (Inr (), r0)
      else
        let (sanitized, r1) = closeSocketsForTeardownRecovery r0 in
        if \<not> sanitized then (Inl TeardownIntegrity, r1)
        else storage_result (storage_call (\<lambda>r. r\<lparr>stored_recovery := False,
               teardownRecoveryPersisted := False, teardownRecoveryRequired := False\<rparr>) r1))"

definition alarm_failed_instance ::
  "int \<Rightarrow> bool \<Rightarrow> ledger \<Rightarrow> room \<Rightarrow> unit result \<times> ledger \<times> room" where
  "alarm_failed_instance now admissionsInitialized rows r0 =
     (let (sanitized, r1) = closeSocketsForInitializationFailure r0 in
      if \<not> sanitized then (Inl TeardownIntegrity, rows, r1)
      else if \<not> admissionsInitialized then (Inr (), rows, r1)
      else
        case prune now rows of
          (Inl _, _) \<Rightarrow> (Inl PlatformFault, rows, r1)
        | (Inr _, rows1) \<Rightarrow>
            let x = scheduleAdmissionAlarm now rows1 r1 in (fst x, rows1, snd x))"

text \<open>The three sweeps; an integrity failure of one does not stop the others.\<close>

definition alarm_sweeps :: "int \<Rightarrow> room \<Rightarrow> bool result \<times> room" where
  "alarm_sweeps now r0 =
     (let (retried, r1) = retryPendingServerTeardowns now r0;
          (expired, r2) = expireClients now r1 in
      case pruneServerTickets now r2 of
        (Inl PlatformFault, r3) \<Rightarrow> (Inl PlatformFault, r3)
      | (Inl TeardownIntegrity, r3) \<Rightarrow> (Inr False, r3)
      | (Inr _, r3) \<Rightarrow> (Inr (retried \<and> expired), r3))"

definition alarm_settle :: "int \<Rightarrow> ledger \<Rightarrow> room \<Rightarrow> unit result \<times> room" where
  "alarm_settle now rows r0 =
     (let (cleared, r1) =
        (if teardownRecoveryPersisted r0
         then storage_call (\<lambda>r. r\<lparr>stored_recovery := False, teardownRecoveryPersisted := False\<rparr>) r0
         else (True, r0)) in
      if \<not> cleared then (Inl PlatformFault, r1) else scheduleNextAlarm now rows r1)"

definition alarm ::
  "int \<Rightarrow> bool \<Rightarrow> ledger \<Rightarrow> room \<Rightarrow> unit result \<times> ledger \<times> room" where
  "alarm now admissionsInitialized rows r0 =
     (case alarm_recovery r0 of
        (Inl e, r1) \<Rightarrow> (Inl e, rows, r1)
      | (Inr _, r1) \<Rightarrow>
        if initializationFailed r1 then alarm_failed_instance now admissionsInitialized rows r1
        else
          (case alarm_sweeps now r1 of
             (Inl e, r2) \<Rightarrow> (Inl e, rows, r2)
           | (Inr swept, r2) \<Rightarrow>
               (case prune now rows of
                  (Inl _, _) \<Rightarrow> (Inl PlatformFault, rows, r2)
                | (Inr _, rows1) \<Rightarrow>
                    if \<not> swept then (Inl TeardownIntegrity, rows1, r2)
                    else let x = alarm_settle now rows1 r2 in (fst x, rows1, snd x))))"

subsection \<open>Messages\<close>

datatype dispatch =
    Settled
  | ConfirmAccess client_attachment
  | ClientFrame client_attachment
  | ServerFrame server_attachment

definition settled :: "bool \<times> room \<Rightarrow> dispatch result \<times> room" where
  "settled x = (if fst x then Inr Settled else Inl TeardownIntegrity, snd x)"

text \<open>\<open>processWebSocketMessage\<close> up to the handler of the frame's sender.\<close>

definition processMessage_dispatch :: "int \<Rightarrow> nat \<Rightarrow> bool \<Rightarrow> room \<Rightarrow> dispatch result \<times> room" where
  "processMessage_dispatch now i isAccess r =
     (if \<not> is_open r i then (Inr Settled, r)
      else if \<not> ensureInitialized r then (Inl PlatformFault, r)
      else
        case readTaggedAttachment r i of
          None \<Rightarrow> settled (failTagged now i InternalError close_internalError r)
        | Some (ServerA s) \<Rightarrow>
            if Some (sv_generation s) \<noteq> currentGeneration r
            then settled (failServer now i s ServerReplaced close_serverReplaced r)
            else if isAccess then settled (failProtocolViolation now i r)
            else (Inr (ServerFrame s), r)
        | Some (ClientA a) \<Rightarrow>
            if Some (generation a) \<noteq> currentGeneration r
            then settled (failClient now i a ServerReplaced close_serverReplaced r)
            else (Inr (if isAccess then ConfirmAccess a else ClientFrame a), r))"

text \<open>The re-read after the access check of a redeemed client.\<close>

definition processMessage_recheck ::
  "int \<Rightarrow> nat \<Rightarrow> client_attachment \<Rightarrow> bool \<Rightarrow> room \<Rightarrow> dispatch result \<times> room" where
  "processMessage_recheck now i a live r =
     (case readClientAttachment r i of
        None \<Rightarrow> (Inr Settled, r)
      | Some current \<Rightarrow>
          if \<not> live \<or> stage current = Terminal \<or> expiresAt current \<le> now \<or>
             connectionId current \<noteq> connectionId a \<or>
             Some (generation current) \<noteq> currentGeneration r
          then settled (failClient now i current AuthorizationFailed close_authorizationFailed r)
          else (Inr (ClientFrame current), r))"

text \<open>The catch block around the handlers.\<close>

definition processMessage_catch :: "int \<Rightarrow> nat \<Rightarrow> 'a result \<times> room \<Rightarrow> unit result \<times> room" where
  "processMessage_catch now i x =
     (case x of
        (Inr _, r) \<Rightarrow> (Inr (), r)
      | (Inl TeardownIntegrity, r) \<Rightarrow> rethrowTeardownFailure now (Inl TeardownIntegrity, r)
      | (Inl PlatformFault, r) \<Rightarrow>
          let y = (case readTaggedAttachment r i of
                     Some (ServerA s) \<Rightarrow> failServer now i s InternalError close_internalError r
                   | Some (ClientA a) \<Rightarrow> failClient now i a InternalError close_internalError r
                   | None \<Rightarrow> (True, snd (closeSocket i close_internalError r)))
          in rethrowTeardownFailure now (if fst y then Inr () else Inl TeardownIntegrity, snd y))"

subsection \<open>Message queues\<close>

text \<open>
  \<open>messageQueues\<close>: which queue a socket has, and how many frames each queue still holds. A
  queue that was dropped keeps its own count.
\<close>

record queues =
  mq_of :: "nat \<Rightarrow> nat option"
  mq_pending :: "nat \<Rightarrow> int"
  mq_count :: nat

definition maximumPending :: "room \<Rightarrow> nat \<Rightarrow> int" where
  "maximumPending r i =
     (if so_role (sock r i) = ServerRole then MAX_SERVER_PENDING_MESSAGES
      else MAX_CLIENT_PENDING_MESSAGES)"

definition socket_pending :: "queues \<Rightarrow> nat \<Rightarrow> int" where
  "socket_pending q i = (case mq_of q i of None \<Rightarrow> 0 | Some k \<Rightarrow> mq_pending q k)"

definition enqueue :: "nat \<Rightarrow> queues \<Rightarrow> nat \<times> queues" where
  "enqueue i q =
     (case mq_of q i of
        Some k \<Rightarrow> (k, q\<lparr>mq_pending := (mq_pending q)(k := mq_pending q k + 1)\<rparr>)
      | None \<Rightarrow>
          let k = mq_count q in
          (k, q\<lparr>mq_of := (mq_of q)(i := Some k), mq_pending := (mq_pending q)(k := 1),
                mq_count := k + 1\<rparr>))"

text \<open>A frame of queue \<open>k\<close> settled; the last one removes the socket's entry.\<close>

definition dequeue :: "nat \<Rightarrow> nat \<Rightarrow> queues \<Rightarrow> queues" where
  "dequeue i k q =
     (let q1 = q\<lparr>mq_pending := (mq_pending q)(k := mq_pending q k - 1)\<rparr> in
      if mq_pending q1 k = 0 then q1\<lparr>mq_of := (mq_of q1)(i := None)\<rparr> else q1)"

text \<open>\<open>webSocketMessage\<close>: \<open>Inr (Some k)\<close> queues the frame, \<open>Inr None\<close> drops it.\<close>

definition webSocketMessage ::
  "int \<Rightarrow> nat \<Rightarrow> bool \<Rightarrow> queues \<times> room \<Rightarrow> nat option result \<times> queues \<times> room" where
  "webSocketMessage now i parsedOk state =
     (let (q, r) = state;
          violation = (let (ok, r1) = failProtocolViolation now i r in
                       if ok then (Inr None, q, r1)
                       else (Inl TeardownIntegrity, q, persistTeardownRecoveryRequired now r1)) in
      if \<not> is_open r i then (Inr None, q, r)
      else if initializationFailed r \<or> teardownRecoveryRequired r then (Inr None, q, r)
      else if \<not> parsedOk then violation
      else if socket_pending q i \<ge> maximumPending r i then violation
      else let (k, q1) = enqueue i q in (Inr (Some k), q1, r))"

subsection \<open>Access notifications\<close>

text \<open>
  The private access requests of \<open>fetch\<close>: both need the active control of the named
  generation to speak the access protocol; a revocation then fails every redeemed client
  that is no longer live. The client is read before its access check is awaited.
\<close>

definition access_probe :: "int \<Rightarrow> string \<Rightarrow> room \<Rightarrow> (room_error + unit) result \<times> room" where
  "access_probe now gen r0 =
     (if \<not> ensureInitialized r0 then (Inl PlatformFault, r0)
      else
        case reconcileActiveServer now None r0 of
          (Inl e, r1) \<Rightarrow> (Inl e, r1)
        | (Inr server, r1) \<Rightarrow>
            if currentGeneration r1 \<noteq> Some gen \<or>
               (case server of
                  None \<Rightarrow> True
                | Some (_, s) \<Rightarrow> sv_generation s \<noteq> gen \<or> \<not> sv_accessProtocol s)
            then (Inr (Inl ServerUnavailableError), r1)
            else (Inr (Inr ()), r1))"

definition revoke_step :: "int \<Rightarrow> nat \<Rightarrow> client_attachment \<Rightarrow> bool \<Rightarrow> room \<Rightarrow> unit result \<times> room" where
  "revoke_step now i a live r =
     (if accessRedemption a \<noteq> None \<and> \<not> live
      then torn_result (failClient now i a AuthorizationFailed close_authorizationFailed r)
      else (Inr (), r))"

end
