(* ===== verification/RoomControls.thy ===== *)
theory RoomControls
  imports RoomInvariant RoomLifecycle
begin

text \<open>
  The upgrade of a control (\<open>acceptServer\<close> of \<open>src/src/rendezvous-room.ts\<close>): the room after
  storage calls, after a step that may add one socket (\<open>tears_off\<close>), and what a new control
  leaves behind when it is installed and when some platform call fails.
\<close>

subsection \<open>Storage calls leave the sockets alone\<close>

lemma platform_call_frame [simp]:
  "sock (snd (platform_call r)) = sock r" "sock_count (snd (platform_call r)) = sock_count r"
  "currentGeneration (snd (platform_call r)) = currentGeneration r"
  "frame_log (snd (platform_call r)) = frame_log r"
  "storage_of (snd (platform_call r)) = storage_of r"
  by (simp_all add: platform_call_def storage_of_def)

definition same_sockets :: "room \<Rightarrow> room \<Rightarrow> bool" where
  "same_sockets r r' \<longleftrightarrow> sock r' = sock r \<and> sock_count r' = sock_count r \<and>
     currentGeneration r' = currentGeneration r \<and> frame_log r' = frame_log r \<and>
     metric_log r' = metric_log r"

lemma same_sockets_refl [simp]: "same_sockets r r"
  by (simp add: same_sockets_def)

lemma same_sockets_trans: "same_sockets r s \<Longrightarrow> same_sockets s t \<Longrightarrow> same_sockets r t"
  by (simp add: same_sockets_def)

lemma same_platform [simp]: "same_sockets r0 (snd (platform_call r)) = same_sockets r0 r"
  by (simp add: same_sockets_def) (simp add: platform_call_def)

lemma same_storage:
  "(\<And>r. same_sockets r (f r)) \<Longrightarrow> same_sockets r0 r \<Longrightarrow> same_sockets r0 (snd (storage_call f r))"
  using same_platform[of r0 r] same_sockets_trans
  by (fastforce simp: storage_call_def Let_def case_prod_unfold)

lemma same_storage_fields [simp]:
  "same_sockets r (r\<lparr>stored_alarm := x\<rparr>)" "same_sockets r (r\<lparr>stored_generation := g\<rparr>)"
  "same_sockets r (r\<lparr>stored_recovery := b\<rparr>)"
  "same_sockets r (r\<lparr>stored_recovery := b, teardownRecoveryPersisted := c\<rparr>)"
  "same_sockets r (r\<lparr>stored_recovery := b, teardownRecoveryPersisted := c, teardownRecoveryRequired := d\<rparr>)"
  by (simp_all add: same_sockets_def)

lemma same_scheduleTeardownRetryAlarm: "same_sockets r (scheduleTeardownRetryAlarm now r)"
  by (auto simp: scheduleTeardownRetryAlarm_def Let_def case_prod_unfold intro!: same_storage)

lemma same_persist: "same_sockets r (persistTeardownRecoveryRequired now r)"
  unfolding persistTeardownRecoveryRequired_def
  by (rule same_sockets_trans[OF same_storage same_scheduleTeardownRetryAlarm]) simp_all

lemma same_scheduleNextAlarm: "same_sockets r (snd (scheduleNextAlarm now rows r))"
  by (auto simp: scheduleNextAlarm_def storage_result_def intro!: same_storage split: sum.split)

lemma same_scheduleAdmissionAlarm: "same_sockets r (snd (scheduleAdmissionAlarm now rows r))"
  by (auto simp: scheduleAdmissionAlarm_def storage_result_def intro!: same_storage split: sum.split)

lemma same_rethrow: "same_sockets r0 (snd x) \<Longrightarrow> same_sockets r0 (snd (rethrowTeardownFailure now x))"
  using same_sockets_trans[OF _ same_persist]
  by (auto simp: rethrowTeardownFailure_def split: prod.split sum.split failure.split)

lemma inv_same: "same_sockets r r' \<Longrightarrow> room_inv r' = room_inv r"
  by (rule inv_frame) (simp_all add: same_sockets_def)

lemma read_same:
  assumes "same_sockets r r'"
  shows "readAttachment r' = readAttachment r" "readClientAttachment r' = readClientAttachment r"
    "readServerAttachment r' = readServerAttachment r" "is_open r' = is_open r"
    "getWebSockets tag r' = getWebSockets tag r" "currentGeneration r' = currentGeneration r"
  using assms read_frame[of r' r] by (simp_all add: same_sockets_def getWebSockets_def)

subsection \<open>Progress apart from one new socket\<close>

text \<open>
  \<open>tears_off i r r'\<close>: every socket but \<open>i\<close> is torn down as \<open>tears\<close> allows, and \<open>i\<close> is the
  only index that may be new.
\<close>

definition tears_off :: "nat \<Rightarrow> room \<Rightarrow> room \<Rightarrow> bool" where
  "tears_off i r r' \<longleftrightarrow>
     (\<forall>j < sock_count r'. j < sock_count r \<or> j = i) \<and> currentGeneration r' = currentGeneration r \<and>
     frame_log r' = frame_log r \<and>
     (\<forall>j. j \<noteq> i \<longrightarrow>
        so_role (sock r' j) = so_role (sock r j) \<and> so_listed (sock r' j) = so_listed (sock r j) \<and>
        (is_open r' j \<longrightarrow> is_open r j) \<and>
        (readAttachment r j = None \<longrightarrow> so_stored (sock r' j) = so_stored (sock r j)) \<and>
        att_torn (readAttachment r j) (readAttachment r' j))"

lemma tears_off_tears: "tears r r' \<Longrightarrow> tears_off i r r'"
  by (simp add: tears_def tears_off_def)

lemma tears_off_refl [simp]: "tears_off i r r"
  by (simp add: tears_off_tears)

lemma tears_off_trans:
  assumes "tears_off i r s" "tears_off i s t" shows "tears_off i r t"
proof -
  have "(readAttachment r j = None \<longrightarrow> so_stored (sock t j) = so_stored (sock r j)) \<and>
      att_torn (readAttachment r j) (readAttachment t j)" if "j \<noteq> i" for j
    using assms that unfolding tears_off_def by (metis att_torn.simps(1) att_torn_trans)
  with assms show ?thesis unfolding tears_off_def by auto
qed

lemma tears_off_step: "tears_off i r s \<Longrightarrow> tears s t \<Longrightarrow> tears_off i r t"
  using tears_off_trans tears_off_tears by blast

lemma tears_off_same: "same_sockets r s \<Longrightarrow> tears_off i r0 s = tears_off i r0 r"
  using read_frame[of s r] by (simp add: tears_off_def same_sockets_def)

lemma tears_off_write:
  assumes "tears_off i r0 r" "j \<noteq> i \<Longrightarrow> att_torn (readAttachment r0 j) (Some a)" "attachment_wf a"
  shows "tears_off i r0 (snd (tryWriteAttachment j a r))"
proof -
  have "is_open (snd (tryWriteAttachment j a r)) k = is_open r k" for k by simp
  moreover have "readAttachment r0 k = None \<Longrightarrow> k \<noteq> i \<Longrightarrow>
      so_stored (sock (snd (tryWriteAttachment j a r)) k) = so_stored (sock r k)" for k
    using assms(2) by (auto simp: tryWriteAttachment_def platform_call_def)
  ultimately show ?thesis
    using assms by (simp add: tears_off_def tryWrite_read[OF assms(3)])
qed

lemma tears_off_close: "tears_off i r0 r \<Longrightarrow> tears_off i r0 (snd (closeSocket j c r))"
  by (rule tears_off_step[OF _ tears_close[OF tears_refl]])

lemma att_torn_back:
  "att_torn x (Some (ClientA c)) \<Longrightarrow> \<exists>c0. x = Some (ClientA c0) \<and> client_torn c0 c"
  "att_torn x (Some (ServerA s)) \<Longrightarrow> \<exists>s0. x = Some (ServerA s0) \<and> server_torn s0 s"
  by (cases "(x, Some (ClientA c))" rule: att_torn.cases; simp)
    (cases "(x, Some (ServerA s))" rule: att_torn.cases; simp)

lemma room_inv_off:
  assumes inv: "room_inv r" and off: "tears_off i r r'"
    and role: "so_stored (sock r' i) = JUndefined \<or> readTaggedAttachment r' i \<noteq> None"
    and client: "\<And>c. readAttachment r' i = Some (ClientA c) \<Longrightarrow>
        (\<forall>j d. j \<noteq> i \<longrightarrow> readAttachment r j = Some (ClientA d) \<longrightarrow> connectionId d \<noteq> connectionId c) \<and>
        (\<forall>j s. j \<noteq> i \<longrightarrow> readAttachment r j = Some (ServerA s) \<longrightarrow>
           (\<forall>t \<in> set (sv_tickets s). tk_clientConnectionId t \<noteq> connectionId c))"
    and server: "\<And>s. readAttachment r' i = Some (ServerA s) \<Longrightarrow> sv_tickets s = [] \<and>
        (\<forall>j u. j \<noteq> i \<longrightarrow> readAttachment r j = Some (ServerA u) \<longrightarrow> sv_controlId u \<noteq> sv_controlId s)"
  shows "room_inv r'"
proof -
  have cback: "\<exists>c0. readAttachment r j = Some (ClientA c0) \<and> client_torn c0 c"
    if "readAttachment r' j = Some (ClientA c)" "j \<noteq> i" for j c
    using off that att_torn_back unfolding tears_off_def by metis
  have sback: "\<exists>s0. readAttachment r j = Some (ServerA s0) \<and> server_torn s0 s"
    if "readAttachment r' j = Some (ServerA s)" "j \<noteq> i" for j s
    using off that att_torn_back unfolding tears_off_def by metis
  have "readable r'"
    unfolding readable_def
  proof (intro allI impI)
    fix j assume "j < sock_count r'"
    show "so_stored (sock r' j) = JUndefined \<or> readTaggedAttachment r' j \<noteq> None"
    proof (cases "j = i")
      case False
      with off \<open>j < sock_count r'\<close> have "j < sock_count r" by (auto simp: tears_off_def)
      with inv have "so_stored (sock r j) = JUndefined \<or> readTaggedAttachment r j \<noteq> None"
        by (simp add: room_inv_def readable_def)
      then show ?thesis
      proof
        assume "so_stored (sock r j) = JUndefined"
        with off False read_undefined[of r j] show ?thesis by (simp add: tears_off_def)
      next
        assume "readTaggedAttachment r j \<noteq> None"
        then obtain a where a: "readAttachment r j = Some a" "attachment_role a = so_role (sock r j)"
          using readTagged_Some by fastforce
        moreover have "att_torn (readAttachment r j) (readAttachment r' j)"
          "so_role (sock r' j) = so_role (sock r j)"
          using off False by (auto simp: tears_off_def)
        ultimately show ?thesis using readTagged_Some[of r' j] by (cases a) auto
      qed
    qed (use role in simp)
  qed
  moreover have "all_linked r'"
    unfolding all_linked_def
  proof (intro allI impI ballI)
    fix j s k c t
    assume s: "readAttachment r' j = Some (ServerA s)" and c: "readAttachment r' k = Some (ClientA c)"
      and t: "t \<in> set (sv_tickets s)"
    have ji: "j \<noteq> i" using server[of s] s t by auto
    obtain s0 where s0: "readAttachment r j = Some (ServerA s0)" "server_torn s0 s"
      using sback[OF s ji] by blast
    obtain t0 where t0: "t0 \<in> set (sv_tickets s0)" "ticket_torn t0 t"
      using s0(2) t by (auto simp: server_torn_def)
    show "linked (sv_controlId s) t c"
    proof (cases "k = i")
      case True
      then have "tk_clientConnectionId t0 \<noteq> connectionId c" using client[of c] c ji s0(1) t0(1) by auto
      with t0(2) show ?thesis by (auto simp: linked_def ticket_torn_def)
    next
      case False
      then obtain c0 where c0: "readAttachment r k = Some (ClientA c0)" "client_torn c0 c"
        using cback[OF c] by blast
      then have "linked (sv_controlId s0) t0 c0"
        using inv s0(1) t0(1) unfolding room_inv_def all_linked_def by blast
      from linked_torn[OF this t0(2) c0(2)] s0(2) show ?thesis by (simp add: server_torn_def)
    qed
  qed
  moreover have "distinct_connections r'"
    unfolding distinct_connections_def
  proof (intro allI impI)
    fix j k c d
    assume c: "readAttachment r' j = Some (ClientA c)" and d: "readAttachment r' k = Some (ClientA d)"
      and eq: "connectionId c = connectionId d"
    have "\<exists>c0. readAttachment r j = Some (ClientA c0) \<and> connectionId c0 = connectionId c" if "j \<noteq> i"
      using cback[OF c that] by (auto simp: client_torn_def)
    moreover have "\<exists>d0. readAttachment r k = Some (ClientA d0) \<and> connectionId d0 = connectionId d" if "k \<noteq> i"
      using cback[OF d that] by (auto simp: client_torn_def)
    moreover have "j' = k'" if "readAttachment r j' = Some (ClientA c')" "readAttachment r k' = Some (ClientA d')"
      "connectionId c' = connectionId d'" for j' k' c' d'
      using that inv unfolding room_inv_def distinct_connections_def by blast
    ultimately show "j = k"
      using client[of c] client[of d] c d eq by (cases "j = i"; cases "k = i") (metis, metis, metis, metis)
  qed
  moreover have "distinct_controls r'"
    unfolding distinct_controls_def
  proof (intro allI impI)
    fix j k s u
    assume s: "readAttachment r' j = Some (ServerA s)" and u: "readAttachment r' k = Some (ServerA u)"
      and eq: "sv_controlId s = sv_controlId u"
    have "\<exists>c0. readAttachment r j = Some (ServerA c0) \<and> sv_controlId c0 = sv_controlId s" if "j \<noteq> i"
      using sback[OF s that] by (auto simp: server_torn_def)
    moreover have "\<exists>d0. readAttachment r k = Some (ServerA d0) \<and> sv_controlId d0 = sv_controlId u" if "k \<noteq> i"
      using sback[OF u that] by (auto simp: server_torn_def)
    moreover have "j' = k'" if "readAttachment r j' = Some (ServerA c')" "readAttachment r k' = Some (ServerA d')"
      "sv_controlId c' = sv_controlId d'" for j' k' c' d'
      using that inv unfolding room_inv_def distinct_controls_def by blast
    ultimately show "j = k"
      using server[of s] server[of u] s u eq by (cases "j = i"; cases "k = i") (metis, metis, metis, metis)
  qed
  ultimately show ?thesis by (simp add: room_inv_def)
qed


subsection \<open>A new control\<close>

lemma previous_iff:
  "x \<in> set (previousServers r) \<longleftrightarrow>
     fst x \<in> set (getWebSockets ServerRole r) \<and> readServerAttachment r (fst x) = Some (snd x) \<and>
     sv_current (snd x)"
  by (cases x) (auto simp: previousServers_def map_filter_set split: option.splits if_splits)

text \<open>A retirement handed out for a snapshot of \<open>r0\<close> can be undone by writing the snapshot.\<close>

definition restorable :: "room \<Rightarrow> retirement \<Rightarrow> bool" where
  "restorable r0 rt \<longleftrightarrow>
     readServerAttachment r0 (rt_socket rt) = Some ((rt_attachment rt)\<lparr>sv_current := True\<rparr>)"

lemma prepare_cases:
  fixes s i cl r
  defines "w \<equiv> tryWriteAttachment i (ServerA (s\<lparr>sv_current := False\<rparr>)) r"
  defines "c \<equiv> closeSocket i cl (rememberInactive (sv_controlId s) (snd w))"
  shows "prepareServerRetirement (i, s) cl r =
      (if fst w then (Some \<lparr> rt_socket = i, rt_attachment = s\<lparr>sv_current := False\<rparr>,
           rt_durablyDemoted = True, rt_transportRetired = False \<rparr>, setPendingServer i None (snd w))
       else if fst c then (Some \<lparr> rt_socket = i, rt_attachment = s\<lparr>sv_current := True\<rparr>,
           rt_durablyDemoted = False, rt_transportRetired = True \<rparr>, setPendingServer i None (snd c))
       else (None, forgetInactive (sv_controlId s) (snd c)))"
  by (simp add: prepareServerRetirement_def Let_def case_prod_unfold w_def c_def)

lemma prepare_retired:
  assumes "server_wf (snd x)" "retired r j \<or> (j = fst x \<and> fst (prepareServerRetirement x cl r) \<noteq> None)"
  shows "retired (snd (prepareServerRetirement x cl r)) j"
proof -
  obtain i s where x: "x = (i, s)" by fastforce
  define w where "w = tryWriteAttachment i (ServerA (s\<lparr>sv_current := False\<rparr>)) r"
  have w: "retired (snd w) j" if "retired r j \<or> (j = i \<and> fst w)"
    using retired_demote[of s r j i] that assms(1) x by (simp add: w_def)
  define c where "c = closeSocket i cl (rememberInactive (sv_controlId s) (snd w))"
  have c: "retired (snd c) j" if "retired (snd w) j \<or> (j = i \<and> fst c)"
    unfolding c_def by (rule retired_close) (use that in \<open>simp add: c_def\<close>)
  show ?thesis
    using assms(2) w c unfolding x prepare_cases w_def[symmetric] c_def[symmetric]
    by (auto split: if_splits)
qed

lemma prepareAll_Cons:
  "prepareAll (x # xs) r =
     (let p = prepareServerRetirement x close_serverReplaced r; q = prepareAll xs (snd p) in
      ((fst p = None \<or> fst (fst q),
        case fst p of None \<Rightarrow> snd (fst q) | Some rt \<Rightarrow> rt # snd (fst q)), snd q))"
  by (simp add: Let_def case_prod_unfold split: option.split)

lemma prepareAll_retired:
  assumes "\<forall>x \<in> set xs. server_wf (snd x)"
    and "retired r j \<or> (\<not> fst (fst (prepareAll xs r)) \<and> j \<in> fst ` set xs)"
  shows "retired (snd (prepareAll xs r)) j"
  using assms
proof (induction xs arbitrary: r)
  case (Cons x xs)
  then show ?case
    using prepare_retired[of x r j close_serverReplaced]
      Cons.IH[of "snd (prepareServerRetirement x close_serverReplaced r)"]
    unfolding prepareAll_Cons Let_def by auto
qed simp

lemma prepareAll_tears:
  assumes "tears r0 r" "\<forall>x \<in> set xs. readServerAttachment r0 (fst x) = Some (snd x)"
  shows "tears r0 (snd (prepareAll xs r))"
  using assms
proof (induction xs arbitrary: r)
  case (Cons x xs)
  obtain i s where x: "x = (i, s)" by fastforce
  then have rd: "readServerAttachment r0 i = Some s" using Cons.prems(2) by simp
  then have "tears r0 (snd (prepareServerRetirement x close_serverReplaced r))"
    unfolding x using tears_prepare[OF Cons.prems(1), of i s s] server_torn_refl[OF readServer_wf[OF rd]]
    by (simp add: readServer_iff)
  with Cons show ?case unfolding prepareAll_Cons Let_def by simp
qed simp

lemma prepareAll_restorable:
  assumes "\<forall>x \<in> set xs. readServerAttachment r0 (fst x) = Some (snd x) \<and> sv_current (snd x)"
  shows "list_all (restorable r0) (snd (fst (prepareAll xs r)))"
  using assms
proof (induction xs arbitrary: r)
  case (Cons x xs)
  obtain i s where x: "x = (i, s)" by fastforce
  then have rd: "readServerAttachment r0 i = Some s" "sv_current s" using Cons.prems by auto
  have same: "s\<lparr>sv_current := True\<rparr> = s" using rd(2) by (cases s) simp
  have "restorable r0 rt" if "fst (prepareServerRetirement x close_serverReplaced r) = Some rt" for rt
    using that rd same unfolding x prepare_cases by (auto simp: restorable_def split: if_splits)
  with Cons show ?case unfolding prepareAll_Cons Let_def by (auto split: option.split)
qed simp

lemma finishAll_tears: "tears r0 r \<Longrightarrow> tears r0 (finishAll cl rts r)"
  unfolding finishAll_def by (induction rts arbitrary: r) (simp_all add: tears_finish)

text \<open>Restoring writes back what \<open>r0\<close> stored, so from \<open>r0\<close> nothing was gained.\<close>

lemma restore_off:
  assumes "tears_off n r0 r" "list_all (restorable r0) rts"
  shows "tears_off n r0 (snd (restorePrevious_loop b rts r))"
  using assms
proof (induction rts arbitrary: b r)
  case (Cons rt rts)
  let ?s = "(rt_attachment rt)\<lparr>sv_current := True\<rparr>"
  have rd: "readServerAttachment r0 (rt_socket rt) = Some ?s" using Cons.prems(2) by (simp add: restorable_def)
  have fin: "tears_off n r0 (finishServerRetirement close_internalError rt r')" if "tears_off n r0 r'" for r'
    by (rule tears_off_step[OF that tears_finish[OF tears_refl]])
  define w where "w = tryWriteAttachment (rt_socket rt) (ServerA ?s) r"
  have wrote: "tears_off n r0 (snd w)"
    unfolding w_def
    by (rule tears_off_write[OF Cons.prems(1)])
      (use rd readServer_wf[OF rd] server_torn_refl in \<open>auto simp: readServer_iff\<close>)
  have eq: "restorePrevious_loop b (rt # rts) r =
      (if \<not> b \<and> rt_durablyDemoted rt \<and> is_open r (rt_socket rt)
       then if fst w then restorePrevious_loop True rts (snd w)
            else restorePrevious_loop False rts (finishServerRetirement close_internalError rt (snd w))
       else restorePrevious_loop b rts (finishServerRetirement close_internalError rt r))"
    by (simp add: w_def case_prod_unfold Let_def)
  have ih: "tears_off n r0 (snd (restorePrevious_loop b' rts r'))" if "tears_off n r0 r'" for b' r'
    using Cons.IH[OF that] Cons.prems(2) by simp
  show ?case unfolding eq using ih[OF wrote] ih[OF fin[OF wrote]] ih[OF fin[OF Cons.prems(1)]] by simp
qed simp

lemma abandon_off:
  assumes "tears_off n r0 r" "list_all (restorable r0) rts"
  shows "tears_off n r0 (abandonReplacement now rts r)"
proof -
  have rest: "tears_off n r0 (snd (restorePreviousServer rts r))"
    unfolding restorePreviousServer_def by (rule restore_off[OF assms])
  then have "tears_off n r0 (snd (closeAllClients now ServerUnavailable close_serverUnavailable
      (snd (restorePreviousServer rts r))))"
    by (rule tears_off_step[OF _ tears_closeAllClients[OF tears_refl]])
  with rest show ?thesis
    by (simp add: abandonReplacement_def Let_def case_prod_unfold tears_off_same[OF same_persist])
qed

lemma closeMalformed_tears: "tears r0 r \<Longrightarrow> tears r0 (snd (for_each closeMalformed is r))"
  by (rule tears_for_each) (simp_all add: closeMalformed_def tears_close)

lemma closeMalformed_retired:
  "fst (for_each closeMalformed is r) \<Longrightarrow> i \<in> set is \<Longrightarrow> readServerAttachment r i = None \<Longrightarrow>
   retired (snd (for_each closeMalformed is r)) i"
proof (induction "is" arbitrary: r)
  case (Cons k ks)
  define r1 where "r1 = snd (closeMalformed k r)"
  have torn: "tears r r1" by (simp add: r1_def closeMalformed_def tears_close)
  have eq: "for_each closeMalformed (k # ks) r = (fst (closeMalformed k r) \<and> fst (for_each closeMalformed ks r1),
      snd (for_each closeMalformed ks r1))"
    by (simp add: Let_def case_prod_unfold r1_def)
  have none: "readServerAttachment r1 i = None"
    using Cons.prems(3) by (simp add: r1_def closeMalformed_def readServerAttachment_def closeSocket_read)
  show ?case
  proof (cases "i = k")
    case True
    then have "\<not> is_open r1 i"
      using Cons.prems(1,3) unfolding eq by (simp add: r1_def closeMalformed_def closeSocket_closed)
    then have "retired r1 i" by (simp add: retired_def)
    from retired_mono[OF this closeMalformed_tears[OF tears_refl]] show ?thesis unfolding eq by simp
  next
    case False
    with Cons.IH[of r1] Cons.prems none show ?thesis unfolding eq by simp
  qed
qed simp

subsection \<open>The new socket\<close>

lemma new_socket_off: "tears_off (sock_count r) r (new_socket tag r)"
  by (auto simp: tears_off_def new_socket_def is_open_def readAttachment_def
      intro!: att_torn_refl readAttachment_wf[unfolded readAttachment_def])

lemma list_socket_off: "tears_off i r (list_socket i r)"
  by (auto simp: tears_off_def list_socket_def is_open_def readAttachment_def
      intro!: att_torn_refl readAttachment_wf[unfolded readAttachment_def])

lemma same_tears: "same_sockets r r' \<Longrightarrow> storage_of r' = storage_of r \<Longrightarrow> tears r r'"
  using tears_frame[of r' r r] by (simp add: same_sockets_def)

lemma tears_platform: "tears r (snd (platform_call r))"
  by (rule same_tears) simp_all

lemma acceptWebSocket_off: "tears_off i r (snd (acceptWebSocket i r))"
  using tears_off_trans[OF tears_off_tears[OF tears_platform] list_socket_off]
  by (simp add: acceptWebSocket_def Let_def case_prod_unfold tears_off_tears[OF tears_platform])

lemma acceptWebSocket_new:
  "so_stored (sock (snd (acceptWebSocket i r)) j) = so_stored (sock r j)"
  "so_role (sock (snd (acceptWebSocket i r)) j) = so_role (sock r j)"
  "is_open (snd (acceptWebSocket i r)) j = is_open r j"
  "fst (acceptWebSocket i r) \<Longrightarrow> so_listed (sock (snd (acceptWebSocket i r)) i)"
  "sock_count (snd (acceptWebSocket i r)) = sock_count r"
  by (auto simp: acceptWebSocket_def Let_def case_prod_unfold list_socket_def is_open_def)


definition control_at :: "nat \<Rightarrow> server_attachment \<Rightarrow> room \<Rightarrow> bool" where
  "control_at n s r \<longleftrightarrow> so_role (sock r n) = ServerRole \<and>
     (so_stored (sock r n) = JUndefined \<or> readAttachment r n = Some (ServerA s) \<or>
      readAttachment r n = Some (ServerA (s\<lparr>sv_current := True\<rparr>)))"

lemma new_server_wf:
  "is_connection_id uuid \<Longrightarrow> is_hex64 gen \<Longrightarrow> is_safe_integer now \<Longrightarrow> 0 \<le> now \<Longrightarrow>
   server_wf (new_server now ap gen uuid)"
  by (simp add: server_wf_def new_server_def is_safe_integer_def)

lemma open_pair_eq:
  "open_pair tag r = (if platform r (platform_calls r)
     then (Some (sock_count r), new_socket tag (snd (platform_call r))) else (None, snd (platform_call r)))"
  by (simp add: open_pair_def platform_call_def Let_def)

lemma open_pair_facts:
  assumes "open_pair tag r = (Some i, r')"
  shows "i = sock_count r" "tears_off i r r'" "so_stored (sock r' i) = JUndefined"
    "so_role (sock r' i) = tag" "is_open r' i" "readAttachment r' i = None" "sock_count r' = sock_count r + 1"
proof -
  have r': "r' = new_socket tag (snd (platform_call r))" "i = sock_count r"
    using assms by (auto simp: open_pair_eq split: if_splits)
  then show "i = sock_count r" "so_stored (sock r' i) = JUndefined" "so_role (sock r' i) = tag"
    "is_open r' i" "sock_count r' = sock_count r + 1"
    by (simp_all add: new_socket_def is_open_def)
  then show "readAttachment r' i = None" by (intro read_undefined)
  show "tears_off i r r'"
    using tears_off_trans[OF tears_off_tears[OF tears_platform] new_socket_off, of r tag] r' by simp
qed

lemma open_pair_none: "open_pair tag r = (None, r') \<Longrightarrow> tears r r'"
  using tears_platform by (auto simp: open_pair_eq split: if_splits)

lemma control_at_write:
  assumes "control_at n s r" "server_wf s"
  shows "control_at n s (snd (tryWriteAttachment n (ServerA s) r))"
    and "control_at n s (snd (tryWriteAttachment n (ServerA (s\<lparr>sv_current := True\<rparr>)) r))"
proof -
  have "control_at n s (snd (tryWriteAttachment n (ServerA u) r))"
    if "u = s \<or> u = s\<lparr>sv_current := True\<rparr>" for u
  proof (cases "fst (tryWriteAttachment n (ServerA u) r)")
    case True
    have "attachment_wf (ServerA u)" using that assms(2) by (auto simp: server_wf_current)
    then have "readAttachment (snd (tryWriteAttachment n (ServerA u) r)) n = Some (ServerA u)"
      using True by (simp add: tryWrite_read)
    moreover have "so_role (sock r n) = ServerRole" using assms(1) by (simp add: control_at_def)
    ultimately show ?thesis using that unfolding control_at_def write_fields by blast
  next
    case False
    then have "sock (snd (tryWriteAttachment n (ServerA u) r)) = sock r"
      by (auto simp: tryWriteAttachment_def platform_call_def split: if_splits)
    with assms(1) read_frame(1)[OF this] show ?thesis by (simp add: control_at_def)
  qed
  then show "control_at n s (snd (tryWriteAttachment n (ServerA s) r))"
    "control_at n s (snd (tryWriteAttachment n (ServerA (s\<lparr>sv_current := True\<rparr>)) r))" by blast+
qed

lemma closeSocket_stored [simp]:
  "so_stored (sock (snd (closeSocket i c r)) j) = so_stored (sock r j)"
  "so_role (sock (snd (closeSocket i c r)) j) = so_role (sock r j)"
  by (auto simp: closeSocket_def platform_call_def)

lemma control_at_close: "control_at n s (snd (closeSocket i c r)) = control_at n s r"
  by (simp add: control_at_def closeSocket_read)


subsection \<open>Installing a control\<close>

lemma install_cases:
  fixes n s r
  defines "acc \<equiv> acceptWebSocket n r"
  defines "w1 \<equiv> tryWriteAttachment n (ServerA s) (snd acc)"
  defines "w2 \<equiv> tryWriteAttachment n (ServerA (s\<lparr>sv_current := True\<rparr>)) (snd w1)"
  shows "install_server n s r = (if \<not> fst acc then (False, snd acc) else if \<not> fst w1 then (False, snd w1)
        else (fst w2 \<and> is_open (snd w2) n, snd w2))"
  by (simp add: install_server_def acc_def w1_def w2_def Let_def case_prod_unfold)

lemma install_server_off:
  assumes wf: "server_wf s" and off: "tears_off n r0 r" and at: "control_at n s r"
  shows "tears_off n r0 (snd (install_server n s r))" "control_at n s (snd (install_server n s r))"
    "sock_count (snd (install_server n s r)) = sock_count r"
proof -
  define acc where "acc = acceptWebSocket n r"
  define w1 where "w1 = tryWriteAttachment n (ServerA s) (snd acc)"
  define w2 where "w2 = tryWriteAttachment n (ServerA (s\<lparr>sv_current := True\<rparr>)) (snd w1)"
  have wfs: "attachment_wf (ServerA s)" "attachment_wf (ServerA (s\<lparr>sv_current := True\<rparr>))"
    using wf by (simp_all add: server_wf_current)
  have "readAttachment (snd acc) n = readAttachment r n"
    by (simp add: readAttachment_def acc_def acceptWebSocket_new)
  then have a: "tears_off n r0 (snd acc)" "control_at n s (snd acc)" "sock_count (snd acc) = sock_count r"
    using tears_off_trans[OF off acceptWebSocket_off] at
    by (simp_all add: acc_def acceptWebSocket_new control_at_def)
  have b: "tears_off n r0 (snd w1)" "control_at n s (snd w1)" "sock_count (snd w1) = sock_count r"
    using tears_off_write[OF a(1) _ wfs(1)] control_at_write(1)[OF a(2) wf] a(3) by (simp_all add: w1_def)
  have c: "tears_off n r0 (snd w2)" "control_at n s (snd w2)" "sock_count (snd w2) = sock_count r"
    using tears_off_write[OF b(1) _ wfs(2)] control_at_write(2)[OF b(2) wf] b(3) by (simp_all add: w2_def)
  show "tears_off n r0 (snd (install_server n s r))" "control_at n s (snd (install_server n s r))"
    "sock_count (snd (install_server n s r)) = sock_count r"
    unfolding install_cases acc_def[symmetric] w1_def[symmetric] w2_def[symmetric]
    using a b c by simp_all
qed

lemma install_server_done:
  assumes wf: "server_wf s" and run: "install_server n s r = (True, r')"
  shows "so_listed (sock r' n)" "is_open r' n" "readServerAttachment r' n = Some (s\<lparr>sv_current := True\<rparr>)"
proof -
  define acc where "acc = acceptWebSocket n r"
  define w1 where "w1 = tryWriteAttachment n (ServerA s) (snd acc)"
  define w2 where "w2 = tryWriteAttachment n (ServerA (s\<lparr>sv_current := True\<rparr>)) (snd w1)"
  note run' = run[unfolded install_cases, folded acc_def, folded w1_def, folded w2_def]
  have ok: "fst acc" "fst w1" "fst w2" "is_open (snd w2) n" "r' = snd w2"
    using run' by (auto split: if_splits)
  have "so_listed (sock (snd acc) n)" using acceptWebSocket_new(4)[of n r] ok(1) by (simp add: acc_def)
  with ok show "so_listed (sock r' n)" by (simp add: w2_def w1_def)
  show "is_open r' n" using ok by simp
  have "server_wf (s\<lparr>sv_current := True\<rparr>)" using wf by (simp add: server_wf_current)
  then show "readServerAttachment r' n = Some (s\<lparr>sv_current := True\<rparr>)"
    using ok(3,5) by (simp add: w2_def read_tryWriteServer)
qed

lemma install_server_failed:
  assumes wf: "server_wf s" and cur: "\<not> sv_current s" and und: "so_stored (sock r n) = JUndefined"
    and run: "install_server n s r = (False, r')"
  shows "retired r' n"
proof -
  define acc where "acc = acceptWebSocket n r"
  define w1 where "w1 = tryWriteAttachment n (ServerA s) (snd acc)"
  define w2 where "w2 = tryWriteAttachment n (ServerA (s\<lparr>sv_current := True\<rparr>)) (snd w1)"
  note run' = run[unfolded install_cases, folded acc_def, folded w1_def, folded w2_def]
  have "readAttachment (snd acc) n = None"
    by (rule read_undefined) (use und in \<open>simp add: acc_def acceptWebSocket_new\<close>)
  then have none: "readServerAttachment (snd acc) n = None" by (simp add: readServerAttachment_def)
  have wf': "server_wf (s\<lparr>sv_current := True\<rparr>)" using wf by (simp add: server_wf_current)
  have w1: "readServerAttachment (snd w1) n = (if fst w1 then Some s else None)"
    using none wf by (simp add: w1_def read_tryWriteServer)
  then have w2: "\<not> fst w2 \<Longrightarrow> readServerAttachment (snd w2) n = (if fst w1 then Some s else None)"
    using wf' by (simp add: w2_def read_tryWriteServer)
  show ?thesis
    using run' none w1 w2 cur by (auto simp: retired_def split: if_splits)
qed

lemma createServer_none:
  assumes "open_pair ServerRole r = (None, r')"
  shows "createServer now ap gen uuid r = (None, r')" "tears_off n r r'" "sock_count r' = sock_count r"
  using assms open_pair_none[OF assms] tears_off_tears[OF open_pair_none[OF assms]]
  by (simp_all add: createServer_def tears_def)

lemma createServer_some:
  fixes now ap gen uuid r
  defines "s \<equiv> new_server now ap gen uuid" and "n \<equiv> sock_count r"
  assumes wf: "server_wf s" and pair: "open_pair ServerRole r = (Some i, r1)"
    and run: "createServer now ap gen uuid r = (new, r')"
  shows "tears_off n r r'" "sock_count r' = Suc n" "control_at n s r'"
    and "new = Some i \<and> i = n \<and> is_open r' n \<and> so_listed (sock r' n) \<and>
           readServerAttachment r' n = Some (s\<lparr>sv_current := True\<rparr>) \<or> new = None \<and> retired r' n"
proof -
  have cur: "\<not> sv_current s" by (simp add: s_def new_server_def)
  note p = open_pair_facts[OF pair]
  have i: "i = n" using p(1) by (simp add: n_def)
  have at: "control_at n s r1" using p(3,4) by (simp add: control_at_def i)
  obtain ok r2 where inst: "install_server n s r1 = (ok, r2)" by fastforce
  note off = install_server_off[OF wf p(2)[unfolded i] at, unfolded inst snd_conv]
  define u where "u = snd (tryWriteAttachment n (ServerA s) r2)"
  have run': "(new, r') = (if ok then (Some n, r2) else (None, snd (closeSocket n close_internalError u)))"
    using run[symmetric] pair inst
    by (auto simp: createServer_def i u_def s_def[symmetric] Let_def case_prod_unfold)
  have offu: "tears_off n r u" "control_at n s u" "sock_count u = sock_count r2"
    using tears_off_write[OF off(1)] control_at_write(1)[OF off(2) wf] wf by (simp_all add: u_def)
  have close_count: "sock_count (snd (closeSocket n c t)) = sock_count t" for c t
    by (simp add: closeSocket_def platform_call_def)
  show "tears_off n r r'" using run' off(1) tears_off_close[OF offu(1)] by (auto split: if_splits)
  show "sock_count r' = Suc n"
    using run' off(3) offu(3) p(7) close_count by (auto simp: n_def split: if_splits)
  show "control_at n s r'" using run' off(2) offu(2) by (auto simp: control_at_close split: if_splits)
  show "new = Some i \<and> i = n \<and> is_open r' n \<and> so_listed (sock r' n) \<and>
        readServerAttachment r' n = Some (s\<lparr>sv_current := True\<rparr>) \<or> new = None \<and> retired r' n"
  proof (cases ok)
    case True
    then have "install_server n s r1 = (True, r2)" using inst by simp
    from install_server_done[OF wf this] True run' i show ?thesis by simp
  next
    case False
    then have "install_server n s r1 = (False, r2)" using inst by simp
    from install_server_failed[OF wf cur p(3)[unfolded i] this] have "retired r2 n" .
    have "s\<lparr>sv_current := False\<rparr> = s" using cur by (cases s) simp
    then have "retired u n"
      using \<open>retired r2 n\<close> retired_demote[OF wf, of r2 n n] by (simp add: u_def)
    then have "retired (snd (closeSocket n close_internalError u)) n" by (intro retired_close) simp
    with run' False show ?thesis by simp
  qed
qed


subsection \<open>The new control survives the hand-over\<close>

definition idle_control :: "nat \<Rightarrow> server_attachment \<Rightarrow> room \<Rightarrow> bool" where
  "idle_control n s r \<longleftrightarrow>
     readServerAttachment r n = Some s \<and> sv_tickets s = [] \<and> is_open r n \<and>
     so_role (sock r n) = ServerRole \<and> so_listed (sock r n)"

lemma idle_frame:
  "sock r' = sock r \<Longrightarrow> idle_control n s r' = idle_control n s r"
  using read_frame[of r' r] by (simp add: idle_control_def)

lemma closeSocket_other:
  "j \<noteq> i \<Longrightarrow> sock (snd (closeSocket i c r)) j = sock r j"
  by (auto simp: closeSocket_def platform_call_def)

lemma idle_close: "i \<noteq> n \<Longrightarrow> idle_control n s r \<Longrightarrow> idle_control n s (snd (closeSocket i c r))"
  using closeSocket_other[of n i c r]
  by (simp add: idle_control_def is_open_def readServerAttachment_def readAttachment_def)

lemma idle_write: "i \<noteq> n \<Longrightarrow> idle_control n s r \<Longrightarrow> idle_control n s (snd (tryWriteAttachment i a r))"
  using tryWrite_other[of n i a r]
  by (simp add: idle_control_def is_open_def readServerAttachment_def readAttachment_def)

lemma idle_mark: "idle_control n s r \<Longrightarrow> idle_control n s (markTicketTerminal c r)"
proof -
  have on: "idle_control n s (markTicketOn c d i r)" if "idle_control n s r" for d i r
  proof (cases "i = n")
    case True
    have "markTicketOn c d i r = r"
      using that by (auto simp: True markTicketOn_def idle_control_def)
    with that show ?thesis by simp
  next
    case False
    with that idle_write[OF False that] show ?thesis
      by (simp add: markTicketOn_def split: option.split)
  qed
  have "idle_control n s (fold (markTicketOn c d) is r)" if "idle_control n s r" for d "is" r
    using that by (induction "is" arbitrary: r) (simp_all add: on)
  then show "idle_control n s r \<Longrightarrow> ?thesis"
    by (simp add: markTicketTerminal_def split: option.split)
qed

lemma idle_emit:
  "i \<noteq> n \<Longrightarrow> idle_control n s r \<Longrightarrow> idle_control n s (snd (emitTerminalMetric now i a out r))"
  using idle_write[of i n s r] idle_frame[of _ "snd (tryWriteAttachment i (ClientA (a\<lparr>summaryEmitted := True\<rparr>)) r)" n s]
  by (auto simp: emitTerminalMetric_def Let_def case_prod_unfold)

lemma idle_pending [simp]:
  "idle_control n s (r\<lparr>pendingClientOutcomes := f\<rparr>) = idle_control n s r"
  "idle_control n s (setPendingServer i x r) = idle_control n s r"
  "idle_control n s (rememberInactive cid r) = idle_control n s r"
  by (rule idle_frame; simp add: setPendingServer_def rememberInactive_def)+

lemma idle_failClient:
  assumes "i \<noteq> n" "idle_control n s r" shows "idle_control n s (snd (failClient now i a out cl r))"
proof -
  have step: "idle_control n s (snd (transitionClientTerminal a x r'))" if "idle_control n s r'" for x r'
    using that by (simp add: transitionClientTerminal_def idle_mark)
  show ?thesis
    using assms(2)
    by (auto simp: failClient_def Let_def case_prod_unfold split: option.split
        intro!: idle_close[OF assms(1)] idle_emit[OF assms(1)] idle_write[OF assms(1)] step)
qed

lemma idle_for_each:
  assumes "\<And>i r. i \<in> set is \<Longrightarrow> idle_control n s r \<Longrightarrow> idle_control n s (snd (f i r))" "idle_control n s r"
  shows "idle_control n s (snd (for_each f is r))"
  using assms by (induction "is" arbitrary: r) (simp_all add: Let_def case_prod_unfold)

lemma idle_closeAllClients:
  assumes "idle_control n s r" shows "idle_control n s (snd (closeAllClients now out cl r))"
  unfolding closeAllClients_def
proof (rule idle_for_each[OF _ assms])
  fix i r' assume "i \<in> set (getWebSockets ClientRole r)" and r': "idle_control n s r'"
  then have "i \<noteq> n" using assms by (auto simp: getWebSockets_def idle_control_def)
  then show "idle_control n s (snd (closeClientStep now out cl i r'))"
    using r' idle_failClient idle_close by (simp add: closeClientStep_def split: option.split)
qed

lemma idle_finishAll:
  "\<forall>rt \<in> set rts. rt_socket rt \<noteq> n \<Longrightarrow> idle_control n s r \<Longrightarrow> idle_control n s (finishAll cl rts r)"
  unfolding finishAll_def
  by (induction rts arbitrary: r) (simp_all add: finishServerRetirement_def idle_close)

lemma idle_closeOthers:
  "idle_control n s r \<Longrightarrow> idle_control n s (snd (for_each (closeOthers n previous) is r))"
  by (rule idle_for_each) (simp_all add: closeOthers_def idle_close)

lemma closeOthers_tears: "tears r0 r \<Longrightarrow> tears r0 (snd (for_each (closeOthers n previous) is r))"
  by (rule tears_for_each) (simp_all add: closeOthers_def tears_close)

lemma retired_off:
  assumes "tears_off n r r'" "j \<noteq> n" "retired r j" shows "retired r' j"
proof -
  have t: "is_open r' j \<Longrightarrow> is_open r j" "att_torn (readAttachment r j) (readAttachment r' j)"
    using assms(1,2) by (auto simp: tears_off_def)
  have "\<exists>s0. readServerAttachment r j = Some s0 \<and> server_torn s0 s"
    if "readServerAttachment r' j = Some s" for s
    using t(2) that att_torn_back(2) by (metis readServer_iff)
  with assms(3) t(1) show ?thesis by (force simp: retired_def server_torn_def)
qed


lemma retired_write_other: "i \<noteq> n \<Longrightarrow> retired r n \<Longrightarrow> retired (snd (tryWriteAttachment i a r)) n"
  using tryWrite_other[of n i a r]
  by (simp add: retired_def readServerAttachment_def readAttachment_def)

text \<open>What is left of a new control, whatever happened to it.\<close>

definition control_like :: "nat \<Rightarrow> string \<Rightarrow> room \<Rightarrow> bool" where
  "control_like n cid r \<longleftrightarrow> so_role (sock r n) = ServerRole \<and>
     (so_stored (sock r n) = JUndefined \<or>
      (\<exists>s. readAttachment r n = Some (ServerA s) \<and> sv_tickets s = [] \<and> sv_controlId s = cid))"

lemma control_like_at: "control_at n s r \<Longrightarrow> sv_tickets s = [] \<Longrightarrow> control_like n (sv_controlId s) r"
  by (auto simp: control_at_def control_like_def)

lemma control_like_tears:
  assumes "control_like n cid r" "tears r r'" shows "control_like n cid r'"
proof -
  have role: "so_role (sock r' n) = ServerRole" using assms by (simp add: control_like_def tears_def)
  consider "so_stored (sock r n) = JUndefined" | s where "readAttachment r n = Some (ServerA s)"
    "sv_tickets s = []" "sv_controlId s = cid"
    using assms(1) by (auto simp: control_like_def)
  then show ?thesis
  proof cases
    case 1
    then have "so_stored (sock r' n) = JUndefined"
      using read_undefined[OF 1] assms(2) by (simp add: tears_def)
    with role show ?thesis by (simp add: control_like_def)
  next
    case 2
    with tears_att[OF assms(2), of n] role show ?thesis
      by (auto simp: control_like_def server_torn_def)
  qed
qed

lemma tryWrite_sock_other: "j \<noteq> i \<Longrightarrow> sock (snd (tryWriteAttachment i a r)) j = sock r j"
  by (auto simp: tryWriteAttachment_def platform_call_def)

lemma control_like_write_other:
  "i \<noteq> n \<Longrightarrow> control_like n cid r \<Longrightarrow> control_like n cid (snd (tryWriteAttachment i a r))"
  using tryWrite_sock_other[of n i a r] by (simp add: control_like_def readAttachment_def)

lemma control_like_same: "same_sockets r r' \<Longrightarrow> control_like n cid r' = control_like n cid r"
  using read_frame[of r' r] by (simp add: control_like_def same_sockets_def)

lemma retired_same: "same_sockets r r' \<Longrightarrow> retired r' n = retired r n"
  using read_same[of r r'] by (simp add: retired_def)

text \<open>The way back after a failure does not touch the new socket.\<close>

lemma abandon_keeps:
  assumes frame: "\<And>i a r. i \<noteq> n \<Longrightarrow> P r \<Longrightarrow> P (snd (tryWriteAttachment i a r))"
    and torn: "\<And>r r'. P r \<Longrightarrow> tears r r' \<Longrightarrow> P r'"
    and same: "\<And>r r'. same_sockets r r' \<Longrightarrow> P r' = P r"
    and rts: "\<forall>rt \<in> set rts. rt_socket rt \<noteq> n" and P: "P r"
  shows "P (abandonReplacement now rts r)"
proof -
  have fin: "P (finishServerRetirement cl rt r)" if "P r" for cl rt r
    by (rule torn[OF that tears_finish[OF tears_refl]])
  have loop: "P (snd (restorePrevious_loop b rts r))" if "P r" for b r
    using rts that
  proof (induction rts arbitrary: b r)
    case (Cons rt rts)
    define w where "w = tryWriteAttachment (rt_socket rt) (ServerA ((rt_attachment rt)\<lparr>sv_current := True\<rparr>)) r"
    have "P (snd w)" unfolding w_def by (rule frame) (use Cons.prems in auto)
    with Cons fin show ?case by (simp add: w_def[symmetric] case_prod_unfold Let_def)
  qed simp
  have "P (snd (restorePreviousServer rts r))"
    unfolding restorePreviousServer_def by (rule loop[OF P])
  then show ?thesis
    using torn[OF _ tears_closeAllClients[OF tears_refl]] same[OF same_persist]
    by (simp add: abandonReplacement_def Let_def case_prod_unfold)
qed

lemma abandon_control:
  assumes "\<forall>rt \<in> set rts. rt_socket rt \<noteq> n"
  shows "retired r n \<Longrightarrow> retired (abandonReplacement now rts r) n"
    "control_like n cid r \<Longrightarrow> control_like n cid (abandonReplacement now rts r)"
    "sock_count (abandonReplacement now rts r) = sock_count r"
proof -
  show "retired r n \<Longrightarrow> retired (abandonReplacement now rts r) n"
    by (rule abandon_keeps[where n = n]) (use assms retired_write_other retired_mono retired_same in auto)
  show "control_like n cid r \<Longrightarrow> control_like n cid (abandonReplacement now rts r)"
    by (rule abandon_keeps[where n = n])
      (use assms control_like_write_other control_like_tears control_like_same in auto)
  show "sock_count (abandonReplacement now rts r) = sock_count r"
    by (rule abandon_keeps[where n = n and P = "\<lambda>r'. sock_count r' = sock_count r"])
      (use assms in \<open>auto simp: tears_def same_sockets_def\<close>)
qed

lemma room_inv_all_off:
  assumes "room_inv r" "\<And>i. tears_off i r r'" "sock_count r' = sock_count r" shows "room_inv r'"
proof -
  define r'' where "r'' = r'\<lparr>stored_generation := stored_generation r, stored_recovery := stored_recovery r,
    stored_alarm := stored_alarm r, initializationFailed := initializationFailed r,
    teardownRecoveryPersisted := teardownRecoveryPersisted r,
    teardownRecoveryRequired := teardownRecoveryRequired r, failure_log := failure_log r\<rparr>"
  have fields: "sock r'' = sock r'" "sock_count r'' = sock_count r'" "currentGeneration r'' = currentGeneration r'"
    "frame_log r'' = frame_log r'" "storage_of r'' = storage_of r"
    by (simp_all add: r''_def storage_of_def)
  have at: "so_role (sock r' j) = so_role (sock r j) \<and> so_listed (sock r' j) = so_listed (sock r j) \<and>
      (is_open r' j \<longrightarrow> is_open r j) \<and>
      (readAttachment r j = None \<longrightarrow> so_stored (sock r' j) = so_stored (sock r j)) \<and>
      att_torn (readAttachment r j) (readAttachment r' j)" for j
    using assms(2)[of "Suc j"] by (simp add: tears_off_def)
  have "tears r r''"
    using at assms(2)[of 0] assms(3) fields read_frame[of r'' r', OF fields(1)]
    by (simp add: tears_def tears_off_def)
  then have "room_inv r''" by (rule room_inv_tears[OF assms(1)])
  then show ?thesis using inv_frame[of r'' r'] fields by simp
qed

lemma room_inv_control:
  assumes "room_inv r" "tears_off n r r'" "control_like n cid r'"
    and fresh: "\<And>j u. readAttachment r j = Some (ServerA u) \<Longrightarrow> sv_controlId u \<noteq> cid"
  shows "room_inv r'"
proof (rule room_inv_off[OF assms(1,2)])
  show "so_stored (sock r' n) = JUndefined \<or> readTaggedAttachment r' n \<noteq> None"
    using assms(3) readTagged_Some[of r' n] by (auto simp: control_like_def)
qed (use assms(3) fresh read_undefined[of r' n] in \<open>auto simp: control_like_def\<close>)


subsection \<open>Replacing the control\<close>

lemma prepareAll_sockets: "set (map rt_socket (snd (fst (prepareAll xs r)))) \<subseteq> fst ` set xs"
proof (induction xs arbitrary: r)
  case (Cons x xs)
  obtain i s where x: "x = (i, s)" by fastforce
  have "rt_socket rt = i" if "fst (prepareServerRetirement x close_serverReplaced r) = Some rt" for rt
    using that unfolding x prepare_cases by (auto split: if_splits)
  with Cons.IH show ?case unfolding prepareAll_Cons Let_def by (auto simp: x split: option.split)
qed simp

lemma current_off_back:
  assumes "tears_off n r r'" "sock_count r' \<le> Suc (sock_count r)" "n = sock_count r"
    and "n < sock_count r' \<Longrightarrow> retired r' n" "x \<in> set (currentOpenServers None r')"
  shows "fst x \<in> fst ` set (currentOpenServers None r)"
proof -
  from assms(5) have x: "fst x \<in> set (getWebSockets ServerRole r')" "is_open r' (fst x)"
    "readServerAttachment r' (fst x) = Some (snd x)" "sv_current (snd x)"
    "Some (sv_generation (snd x)) = currentGeneration r'"
    by (auto simp: currentOpenServers_iff)
  have ne: "fst x \<noteq> n" using assms(4) x by (auto simp: retired_def getWebSockets_def)
  with x(1) assms(2,3) have lt: "fst x < sock_count r" by (auto simp: getWebSockets_def)
  have off: "so_role (sock r' (fst x)) = so_role (sock r (fst x))"
    "so_listed (sock r' (fst x)) = so_listed (sock r (fst x))" "is_open r' (fst x) \<longrightarrow> is_open r (fst x)"
    "att_torn (readAttachment r (fst x)) (readAttachment r' (fst x))" "currentGeneration r' = currentGeneration r"
    using assms(1) ne by (auto simp: tears_off_def)
  obtain s where s: "readAttachment r (fst x) = Some (ServerA s)" "server_torn s (snd x)"
    using att_torn_back(2) off(4) x(3) by (metis readServer_iff)
  have "(fst x, s) \<in> set (currentOpenServers None r)"
    using x s off lt by (auto simp: currentOpenServers_iff readServer_iff server_torn_def getWebSockets_def)
  then show ?thesis by (rule rev_image_eqI) simp
qed

lemma unnamed_none: "tears r r' \<Longrightarrow> readServerAttachment r j = None \<Longrightarrow> readServerAttachment r' j = None"
  using tears_att[of r r' j]
  by (cases "(readAttachment r j, readAttachment r' j)" rule: att_torn.cases)
    (auto simp: readServerAttachment_def)

text \<open>Once every previous control is prepared and every malformed one closed, all are retired.\<close>

lemma previous_retired:
  assumes "\<not> fst (fst (prepareAll (previousServers r0) r0))" "j \<in> set (getWebSockets ServerRole r0)"
  defines "r1 \<equiv> snd (prepareAll (previousServers r0) r0)"
  assumes "fst (for_each closeMalformed (getWebSockets ServerRole r1) r1)"
  shows "retired (snd (for_each closeMalformed (getWebSockets ServerRole r1) r1)) j"
proof -
  let ?r2 = "snd (for_each closeMalformed (getWebSockets ServerRole r1) r1)"
  have t1: "tears r0 r1"
    unfolding r1_def by (rule prepareAll_tears[OF tears_refl]) (simp add: previous_iff)
  have t2: "tears r1 ?r2" by (rule closeMalformed_tears[OF tears_refl])
  show ?thesis
  proof (cases "readServerAttachment r0 j")
    case None
    with t1 have "readServerAttachment r1 j = None" by (rule unnamed_none)
    with assms(2,4) getWebSockets_tears[OF t1] show ?thesis by (intro closeMalformed_retired) simp_all
  next
    case (Some s)
    have "retired r1 j"
    proof (cases "sv_current s")
      case True
      then have "(j, s) \<in> set (previousServers r0)" using Some assms(2) by (simp add: previous_iff)
      then have "j \<in> fst ` set (previousServers r0)" by force
      moreover have "\<forall>x \<in> set (previousServers r0). server_wf (snd x)"
        using readServer_wf by (auto simp: previous_iff)
      ultimately show ?thesis unfolding r1_def using assms(1) by (intro prepareAll_retired) simp_all
    next
      case False
      with Some have "retired r0 j" by (simp add: retired_def)
      then show ?thesis by (rule retired_mono[OF _ t1])
    qed
    then show ?thesis by (rule retired_mono[OF _ t2])
  qed
qed

lemma createServer_off:
  assumes "server_wf (new_server now ap gen uuid)" "createServer now ap gen uuid r = (new, r')"
  shows "tears_off (sock_count r) r r'" "sock_count r' = sock_count r \<or> sock_count r' = Suc (sock_count r)"
    "sock_count r < sock_count r' \<Longrightarrow> control_like (sock_count r) uuid r'"
    "new = None \<Longrightarrow> sock_count r < sock_count r' \<Longrightarrow> retired r' (sock_count r)"
    "new = None \<Longrightarrow> sock_count r' = sock_count r \<Longrightarrow> tears r r'"
proof -
  let ?n = "sock_count r"
  have "tears_off ?n r r' \<and> (sock_count r' = ?n \<or> sock_count r' = Suc ?n) \<and>
      (?n < sock_count r' \<longrightarrow> control_like ?n uuid r') \<and>
      (new = None \<longrightarrow> ?n < sock_count r' \<longrightarrow> retired r' ?n) \<and>
      (new = None \<longrightarrow> sock_count r' = ?n \<longrightarrow> tears r r')"
  proof (cases "open_pair ServerRole r")
    case (Pair new' r1)
    show ?thesis
    proof (cases new')
      case None
      with Pair have none: "open_pair ServerRole r = (None, r1)" by simp
      from createServer_none[OF none] assms(2) open_pair_none[OF none] show ?thesis by simp
    next
      case (Some i)
      with Pair have some: "open_pair ServerRole r = (Some i, r1)" by simp
      from createServer_some[OF assms(1) some assms(2)]
      show ?thesis using control_like_at[of ?n "new_server now ap gen uuid" r']
        by (auto simp: new_server_def)
    qed
  qed
  then show "tears_off (sock_count r) r r'" "sock_count r' = sock_count r \<or> sock_count r' = Suc (sock_count r)"
    "sock_count r < sock_count r' \<Longrightarrow> control_like (sock_count r) uuid r'"
    "new = None \<Longrightarrow> sock_count r < sock_count r' \<Longrightarrow> retired r' (sock_count r)"
    "new = None \<Longrightarrow> sock_count r' = sock_count r \<Longrightarrow> tears r r'"
    by blast+
qed

lemma createServer_idle:
  assumes "server_wf (new_server now ap gen uuid)" "createServer now ap gen uuid r = (Some i, r')"
  shows "i = sock_count r" "sock_count r' = Suc i"
    "idle_control i ((new_server now ap gen uuid)\<lparr>sv_current := True\<rparr>) r'"
proof -
  obtain j r1 where some: "open_pair ServerRole r = (Some j, r1)"
    using assms(2) createServer_none(1)[of r _ now ap gen uuid]
    by (cases "open_pair ServerRole r"; cases "fst (open_pair ServerRole r)") auto
  from createServer_some[OF assms(1) some assms(2)]
  show "i = sock_count r" "sock_count r' = Suc i"
    "idle_control i ((new_server now ap gen uuid)\<lparr>sv_current := True\<rparr>) r'"
    by (auto simp: idle_control_def control_at_def new_server_def)
qed


lemma idle_same: "same_sockets r r' \<Longrightarrow> idle_control n s r' = idle_control n s r"
  by (rule idle_frame) (simp add: same_sockets_def)

lemma current_single:
  assumes "idle_control n s r" "sock_count r = Suc n" "sv_current s" "currentGeneration r = Some (sv_generation s)"
    and "\<And>j. j < n \<Longrightarrow> j \<in> set (getWebSockets ServerRole r) \<Longrightarrow> retired r j"
  shows "currentOpenServers None r = [(n, s)]"
proof -
  let ?f = "\<lambda>i. if Some i = None \<or> \<not> is_open r i then None
            else case readServerAttachment r i of
                   None \<Rightarrow> None
                 | Some s \<Rightarrow> if sv_current s \<and> Some (sv_generation s) = currentGeneration r
                             then Some (i, s) else None"
  have list: "getWebSockets ServerRole r =
      filter (\<lambda>i. so_listed (sock r i) \<and> so_role (sock r i) = ServerRole) [0..<n] @ [n]"
    using assms(1,2) by (simp add: getWebSockets_def idle_control_def)
  have none: "List.map_filter ?f is = []" if "\<forall>i \<in> set is. ?f i = None" for "is"
    using that by (induction "is") (auto simp: List.map_filter_simps)
  have old: "?f i = None" if "i < n" "so_listed (sock r i)" "so_role (sock r i) = ServerRole" for i
  proof -
    have "i \<in> set (getWebSockets ServerRole r)" using that assms(2) by (simp add: getWebSockets_def)
    then have "retired r i" using assms(5) that(1) by simp
    then show ?thesis by (auto simp: retired_def split: option.split)
  qed
  have new: "?f n = Some (n, s)" using assms(1,3,4) by (simp add: idle_control_def)
  have app: "List.map_filter ?f (xs @ ys) = List.map_filter ?f xs @ List.map_filter ?f ys" for xs ys
    by (induction xs) (auto simp: List.map_filter_simps split: option.split)
  show ?thesis
    unfolding currentOpenServers_def list app
    by (subst none) (use old new in \<open>auto simp: List.map_filter_simps\<close>)
qed

lemma replaceServer_failed:
  assumes inv: "room_inv r0" and off: "\<And>n. tears_off n r0 r" "sock_count r = sock_count r0"
    and rts: "list_all (restorable r0) rts"
  shows "room_inv (abandonReplacement now rts r)"
    "currentGeneration (abandonReplacement now rts r) = currentGeneration r0"
    "x \<in> set (currentOpenServers None (abandonReplacement now rts r)) \<Longrightarrow>
       fst x \<in> fst ` set (currentOpenServers None r0)"
proof -
  define r' where "r' = abandonReplacement now rts r"
  have off': "tears_off n r0 r'" for n unfolding r'_def by (rule abandon_off[OF off(1) rts])
  obtain m where "m \<notin> set (map rt_socket rts)"
    using ex_new_if_finite[OF infinite_UNIV_nat] by blast
  then have "sock_count r' = sock_count r"
    unfolding r'_def by (intro abandon_control(3)[where n = m]) auto
  then have count: "sock_count r' = sock_count r0" using off(2) by simp
  show "room_inv (abandonReplacement now rts r)"
    using room_inv_all_off[OF inv off' count] by (simp add: r'_def)
  show "currentGeneration (abandonReplacement now rts r) = currentGeneration r0"
    using off'[of 0] by (simp add: tears_off_def r'_def)
  show "x \<in> set (currentOpenServers None (abandonReplacement now rts r)) \<Longrightarrow>
       fst x \<in> fst ` set (currentOpenServers None r0)"
    using current_off_back[OF off'[of "sock_count r0"]] count by (simp add: r'_def[symmetric])
qed


lemma replaceServer_outcome:
  assumes inv: "room_inv r0" and wf: "server_wf (new_server now ap gen uuid)"
    and fresh: "\<And>j u. readAttachment r0 j = Some (ServerA u) \<Longrightarrow> sv_controlId u \<noteq> uuid"
    and adopted: "currentGeneration r0 = Some gen"
    and run: "replaceServer now ap gen uuid r0 = (res, r')"
  shows "room_inv r' \<and> currentGeneration r' = currentGeneration r0 \<and>
    (case res of
       Inr i \<Rightarrow> currentOpenServers None r' = [(i, (new_server now ap gen uuid)\<lparr>sv_current := True\<rparr>)] \<and>
                i = sock_count r0
     | Inl e \<Rightarrow> e = RoomUnavailable \<and>
                fst ` set (currentOpenServers None r') \<subseteq> fst ` set (currentOpenServers None r0))"
proof -
  define prev where "prev = previousServers r0"
  obtain unsafe rts r1 where p: "prepareAll prev r0 = ((unsafe, rts), r1)" by (metis prod.exhaust)
  obtain mc r2 where m: "for_each closeMalformed (getWebSockets ServerRole r1) r1 = (mc, r2)" by fastforce
  obtain new r3 where c: "createServer now ap gen uuid r2 = (new, r3)" by fastforce
  have prev: "\<forall>x \<in> set prev. readServerAttachment r0 (fst x) = Some (snd x) \<and> sv_current (snd x)"
    by (simp add: prev_def previous_iff)
  have t1: "tears r0 r1" using prepareAll_tears[OF tears_refl, of prev r0] prev p by simp
  have rts: "list_all (restorable r0) rts" using prepareAll_restorable[OF prev, of r0] p by simp
  have t2: "tears r0 r2" using closeMalformed_tears[OF t1, of "getWebSockets ServerRole r1"] m by simp
  let ?n = "sock_count r0"
  have n: "sock_count r2 = ?n" using t2 by (simp add: tears_def)
  have socks: "\<forall>rt \<in> set rts. rt_socket rt \<noteq> ?n"
  proof
    fix rt assume "rt \<in> set rts"
    then have "rt_socket rt \<in> fst ` set prev" using prepareAll_sockets[of prev r0] p by force
    then show "rt_socket rt \<noteq> ?n" by (auto simp: prev_def previous_iff getWebSockets_def)
  qed
  have t2': "tears_off ?n r0 r2" by (rule tears_off_tears[OF t2])
  note off = createServer_off[OF wf c, unfolded n]
  have t3: "tears_off ?n r0 r3" by (rule tears_off_trans[OF t2' off(1)])
  have run': "(res, r') =
      (if unsafe then (Inl RoomUnavailable, finishAll close_internalError rts r1)
       else if \<not> mc then (Inl RoomUnavailable, abandonReplacement now rts r2)
       else case new of None \<Rightarrow> (Inl RoomUnavailable, abandonReplacement now rts r3)
         | Some i \<Rightarrow>
             (let q = closeAllClients now ServerReplaced close_serverReplaced r3;
                  r5 = finishAll close_serverReplaced rts (snd q);
                  r6 = snd (for_each (closeOthers i prev) (getWebSockets ServerRole r5) r5)
              in (Inr i, if fst q then r6 else persistTeardownRecoveryRequired now r6)))"
    using run[symmetric] p m c
    by (simp add: replaceServer_def prev_def[symmetric] Let_def case_prod_unfold split: option.split)
  consider (unsafe) "unsafe" | (malformed) "\<not> unsafe" "\<not> mc" | (failed) "\<not> unsafe" "mc" "new = None"
    | (ok) i where "\<not> unsafe" "mc" "new = Some i" by (cases new) auto
  then show ?thesis
  proof cases
    case unsafe
    have t: "tears r0 r'" using run' unsafe finishAll_tears[OF t1] by (auto split: if_splits)
    have res: "res = Inl RoomUnavailable" using run' unsafe by (auto split: if_splits)
    show ?thesis using room_inv_tears[OF inv t] currentOpenServers_tears_back[OF t] res t by (auto simp: tears_def)
  next
    case malformed
    then have r': "res = Inl RoomUnavailable" "r' = abandonReplacement now rts r2"
      using run' by (auto split: if_splits)
    have "\<And>n. tears_off n r0 r2" by (rule tears_off_tears[OF t2])
    from replaceServer_failed[OF inv this n rts, where now = now] r' show ?thesis by auto
  next
    case failed
    then have r': "res = Inl RoomUnavailable" "r' = abandonReplacement now rts r3"
      using run' by (auto split: if_splits)
    show ?thesis
    proof (cases "sock_count r3 = ?n")
      case True
      then have "tears r0 r3" using tears_trans[OF t2 off(5)] failed by simp
      then have "\<And>n. tears_off n r0 r3" by (rule tears_off_tears)
      from replaceServer_failed[OF inv this True rts, where now = now] r' show ?thesis by auto
    next
      case False
      with off(2) have s: "?n < sock_count r3" "sock_count r3 = Suc ?n" by simp_all
      have t': "tears_off ?n r0 r'" unfolding r' by (rule abandon_off[OF t3 rts])
      note ab = abandon_control[OF socks, where r = r3 and now = now]
      have "retired r' ?n" unfolding r' using ab(1) off(4) failed s by simp
      moreover have "sock_count r' = Suc ?n" unfolding r' using ab(3) s by simp
      ultimately have sub: "fst ` set (currentOpenServers None r') \<subseteq> fst ` set (currentOpenServers None r0)"
        using current_off_back[OF t'] by auto
      have "control_like ?n uuid r'" unfolding r' using ab(2) off(3) s by simp
      from room_inv_control[OF inv t' this fresh] sub r' t' show ?thesis by (simp add: tears_off_def)
    qed
  next
    case ok
    define cc where "cc = closeAllClients now ServerReplaced close_serverReplaced r3"
    define r5 where "r5 = finishAll close_serverReplaced rts (snd cc)"
    define r6 where "r6 = snd (for_each (closeOthers i prev) (getWebSockets ServerRole r5) r5)"
    have res: "res = Inr i" "r' = (if fst cc then r6 else persistTeardownRecoveryRequired now r6)"
      using run' ok by (auto simp: cc_def r5_def r6_def Let_def split: if_splits)
    have same: "same_sockets r6 r'" using res(2) same_persist by simp
    have c': "createServer now ap gen uuid r2 = (Some i, r3)" using c ok by simp
    note idle = createServer_idle[OF wf c', unfolded n]
    let ?s = "(new_server now ap gen uuid)\<lparr>sv_current := True\<rparr>"
    have t6: "tears r3 r6"
      unfolding r6_def r5_def cc_def
      by (intro closeOthers_tears finishAll_tears tears_closeAllClients tears_refl)
    have t': "tears_off ?n r0 r'"
      using tears_off_step[OF t3 t6] tears_off_same[OF same] by simp
    have i6: "idle_control ?n ?s r6"
      using idle socks unfolding r6_def r5_def cc_def
      by (auto intro!: idle_closeOthers idle_finishAll idle_closeAllClients)
    then have i': "idle_control ?n ?s r'" by (simp add: idle_same[OF same])
    have like: "control_like ?n uuid r'"
      using control_like_tears[OF off(3) t6] idle(1,2) control_like_same[OF same] by simp
    have count: "sock_count r' = Suc ?n"
      using t6 idle(1,2) same by (simp add: tears_def same_sockets_def)
    have gone: "retired r' j" if j: "j < ?n" "j \<in> set (getWebSockets ServerRole r')" for j
    proof -
      have "j \<in> set (getWebSockets ServerRole r0)"
        using j t' by (auto simp: getWebSockets_def tears_off_def)
      then have "retired r2 j"
        using previous_retired[of r0 j] ok p m by (simp add: prev_def)
      then have "retired r3 j" using retired_off[OF off(1)] j(1) by simp
      then show ?thesis using retired_mono[OF _ t6] retired_same[OF same] by simp
    qed
    have gen': "currentGeneration r' = Some gen" using t' adopted by (simp add: tears_off_def)
    then have "currentOpenServers None r' = [(?n, ?s)]"
      by (intro current_single[OF i' count]) (use gone in \<open>simp_all add: new_server_def\<close>)
    with room_inv_control[OF inv t' like fresh] res idle(1) gen' adopted show ?thesis by simp
  qed
qed


subsection \<open>Without platform faults a control is always accepted\<close>

lemma no_faults_call: "no_faults r \<Longrightarrow> fst (platform_call r)"
  by (simp add: no_faults_def platform_call_def)

lemma no_faults_platform: "platform r' = platform r \<Longrightarrow> no_faults r' = no_faults r"
  by (simp add: no_faults_def)

lemma platform_call_platform [simp]: "platform (snd (platform_call r)) = platform r"
  by (simp add: platform_call_def)

lemma prepareAll_clean:
  assumes "no_faults r"
  shows "\<not> fst (fst (prepareAll xs r)) \<and> no_faults (snd (prepareAll xs r))"
  using assms
proof (induction xs arbitrary: r)
  case (Cons x xs)
  obtain i s where x: "x = (i, s)" by fastforce
  have "fst (prepareServerRetirement x close_serverReplaced r) \<noteq> None \<and>
      no_faults (snd (prepareServerRetirement x close_serverReplaced r))"
    using no_faults_write[OF Cons.prems] Cons.prems unfolding x prepare_cases
    by (simp add: no_faults_def)
  with Cons.IH show ?case unfolding prepareAll_Cons Let_def by simp
qed simp

lemma closeMalformed_clean:
  "no_faults r \<Longrightarrow> fst (for_each closeMalformed is r) \<and> no_faults (snd (for_each closeMalformed is r))"
proof (induction "is" arbitrary: r)
  case (Cons i "is")
  have "fst (closeMalformed i r) \<and> no_faults (snd (closeMalformed i r))"
    using Cons.prems no_faults_close by (simp add: closeMalformed_def no_faults_frame)
  with Cons.IH show ?case by (simp add: Let_def case_prod_unfold)
qed simp

lemma createServer_clean:
  assumes "no_faults r"
  shows "fst (createServer now ap gen uuid r) \<noteq> None \<and> no_faults (snd (createServer now ap gen uuid r))"
proof -
  have pair: "open_pair ServerRole r = (Some (sock_count r), new_socket ServerRole (snd (platform_call r)))"
    using assms by (simp add: open_pair_eq no_faults_def)
  define r1 where "r1 = new_socket ServerRole (snd (platform_call r))"
  have p1: "no_faults r1" "is_open r1 (sock_count r)"
    using assms by (simp_all add: r1_def new_socket_def no_faults_def is_open_def)
  let ?acc = "acceptWebSocket (sock_count r) r1"
  have acc: "fst ?acc" "no_faults (snd ?acc)"
    using p1(1) no_faults_call[OF p1(1)]
    by (simp_all add: acceptWebSocket_def Let_def case_prod_unfold list_socket_def no_faults_def)
  have "fst (install_server (sock_count r) s r1) \<and> no_faults (snd (install_server (sock_count r) s r1))" for s
    unfolding install_cases
    using acc p1(2) by (simp add: no_faults_frame no_faults_write acceptWebSocket_new)
  then show ?thesis
    by (simp add: createServer_def pair r1_def[symmetric] Let_def case_prod_unfold)
qed

lemma replaceServer_clean:
  assumes "no_faults r0" and wf: "server_wf (new_server now ap gen uuid)"
  shows "\<exists>i r'. replaceServer now ap gen uuid r0 = (Inr i, r') \<and>
    (\<forall>j \<in> set (getWebSockets ClientRole r0). \<not> is_open r' j)"
proof -
  define p where "p = prepareAll (previousServers r0) r0"
  define m where "m = for_each closeMalformed (getWebSockets ServerRole (snd p)) (snd p)"
  define c where "c = createServer now ap gen uuid (snd m)"
  have p: "\<not> fst (fst p)" "no_faults (snd p)" using prepareAll_clean[OF assms(1)] by (simp_all add: p_def)
  have m: "fst m" "no_faults (snd m)" using closeMalformed_clean[OF p(2)] by (simp_all add: m_def)
  obtain i where c: "fst c = Some i" "no_faults (snd c)"
    using createServer_clean[OF m(2), of now ap gen uuid] by (auto simp: c_def)
  define q where "q = closeAllClients now ServerReplaced close_serverReplaced (snd c)"
  define r5 where "r5 = finishAll close_serverReplaced (snd (fst p)) (snd q)"
  define r6 where "r6 = snd (for_each (closeOthers i (previousServers r0)) (getWebSockets ServerRole r5) r5)"
  have q: "fst q" unfolding q_def by (rule closeAllClients_clean(1)[OF c(2)])
  have run: "replaceServer now ap gen uuid r0 = (Inr i, r6)"
    using p m c q
    by (simp add: replaceServer_def p_def[symmetric] m_def[symmetric] c_def[symmetric] q_def[symmetric]
        r5_def[symmetric] r6_def[symmetric] Let_def case_prod_unfold)
  have "\<not> is_open r6 j" if j: "j \<in> set (getWebSockets ClientRole r0)" for j
  proof -
    have "tears r0 (snd p)"
      unfolding p_def by (rule prepareAll_tears[OF tears_refl]) (simp add: previous_iff)
    then have t: "tears r0 (snd m)" unfolding m_def by (rule closeMalformed_tears)
    have lt: "j < sock_count (snd m)" using j t by (simp add: getWebSockets_def tears_def)
    have "j \<in> set (getWebSockets ClientRole (snd m))" using j getWebSockets_tears[OF t] by simp
    then have "j \<in> set (getWebSockets ClientRole (snd c))"
      using createServer_off(1,2)[OF wf, of "snd m" "fst c" "snd c"] lt
      by (auto simp: c_def tears_off_def getWebSockets_def)
    then have "\<not> is_open (snd q) j" unfolding q_def by (rule closeAllClients_clean(2)[OF c(2)])
    moreover have "tears (snd q) r6"
      unfolding r6_def r5_def by (intro closeOthers_tears finishAll_tears tears_refl)
    ultimately show ?thesis by (auto simp: tears_def)
  qed
  with run show ?thesis by blast
qed

lemma acceptServer_clean:
  assumes "no_faults r0" "server_wf (new_server now ap gen uuid)"
    "currentGeneration r0 = None \<or> currentGeneration r0 = Some gen"
    "earliestRetainedExpiryMs rows = Inr e"
  shows "\<exists>i r'. acceptServer now ap gen uuid rows r0 = (Inr i, r') \<and>
    (\<forall>j \<in> set (getWebSockets ClientRole r0). \<not> is_open r' j)"
proof -
  have store: "fst (storage_call f r)" "platform (snd (storage_call f r)) = platform r"
    if "no_faults r" "\<And>r. platform (f r) = platform r" for f r
    using that no_faults_call by (simp_all add: storage_call_def Let_def case_prod_unfold)
  define adopt where "adopt = (case currentGeneration r0 of
      None \<Rightarrow> (let (ok, r) = storage_call (\<lambda>r. r\<lparr>stored_generation := Some gen\<rparr>) r0
               in (ok, if ok then r\<lparr>currentGeneration := Some gen\<rparr> else r))
    | Some g \<Rightarrow> (g = gen, r0))"
  have adopt: "fst adopt" "no_faults (snd adopt)" "sock (snd adopt) = sock r0"
    "sock_count (snd adopt) = sock_count r0"
    using assms(1,3) store[OF assms(1), of "\<lambda>r. r\<lparr>stored_generation := Some gen\<rparr>"]
    by (auto simp: adopt_def no_faults_def Let_def case_prod_unfold storage_call_def split: option.split)
  define sched where "sched = scheduleNextAlarm now rows (snd adopt)"
  obtain nx where "nextAlarm now rows (snd adopt) = Inr nx"
    using assms(4) by (cases e) (auto simp: nextAlarm_def Let_def)
  then have sched: "fst sched = Inr ()" "no_faults (snd sched)"
    using store[OF adopt(2), of "\<lambda>r. r\<lparr>stored_alarm := nx\<rparr>"] adopt(2)
    by (simp_all add: sched_def scheduleNextAlarm_def storage_result_def no_faults_def)
  have same: "same_sockets (snd adopt) (snd sched)" unfolding sched_def by (rule same_scheduleNextAlarm)
  have run: "acceptServer now ap gen uuid rows r0 = replaceServer now ap gen uuid (snd sched)"
    using adopt(1) sched(1)
    by (simp add: acceptServer_def adopt_def[symmetric] sched_def[symmetric] case_prod_unfold)
  have "getWebSockets ClientRole (snd sched) = getWebSockets ClientRole r0"
    using adopt(3,4) same by (simp add: getWebSockets_def same_sockets_def)
  with replaceServer_clean[OF sched(2) assms(2)] run show ?thesis by simp
qed


subsection \<open>Properties\<close>

text \<open>The generation the room works for after \<open>acceptServer\<close> has adopted one, or not.\<close>

lemma acceptServer_steps:
  assumes "acceptServer now ap gen uuid rows r0 = (res, r')"
  obtains (refused) "res = Inl RoomUnavailable" "sock r' = sock r0" "sock_count r' = sock_count r0"
  | (replaced) r2 where "sock r2 = sock r0" "sock_count r2 = sock_count r0" "currentGeneration r2 = Some gen"
      "replaceServer now ap gen uuid r2 = (res, r')"
proof -
  define adopt where "adopt = (case currentGeneration r0 of
      None \<Rightarrow> (let (ok, r) = storage_call (\<lambda>r. r\<lparr>stored_generation := Some gen\<rparr>) r0
               in (ok, if ok then r\<lparr>currentGeneration := Some gen\<rparr> else r))
    | Some g \<Rightarrow> (g = gen, r0))"
  define sched where "sched = scheduleNextAlarm now rows (snd adopt)"
  have run: "(res, r') = (if \<not> fst adopt then (Inl RoomUnavailable, snd adopt)
      else case fst sched of Inl _ \<Rightarrow> (Inl RoomUnavailable, snd sched)
        | Inr _ \<Rightarrow> replaceServer now ap gen uuid (snd sched))"
    using assms[symmetric]
    by (simp add: acceptServer_def adopt_def[symmetric] sched_def case_prod_unfold split: sum.split)
  have frame: "sock (snd adopt) = sock r0" "sock_count (snd adopt) = sock_count r0"
    "fst adopt \<Longrightarrow> currentGeneration (snd adopt) = Some gen"
    by (auto simp: adopt_def storage_call_def Let_def case_prod_unfold split: option.splits)
  have same: "same_sockets (snd adopt) (snd sched)" unfolding sched_def by (rule same_scheduleNextAlarm)
  show thesis
  proof (cases "fst adopt \<and> (\<exists>u. fst sched = Inr u)")
    case True
    with replaced[of "snd sched"] run frame same show ?thesis by (auto simp: same_sockets_def)
  next
    case False
    with refused run frame same show ?thesis
      by (cases "fst sched") (auto simp: same_sockets_def split: if_splits)
  qed
qed

lemma current_generation_frame:
  "sock r2 = sock r0 \<Longrightarrow> sock_count r2 = sock_count r0 \<Longrightarrow> currentGeneration r2 = g \<Longrightarrow>
   currentOpenServers ign r2 = currentOpenServers ign (r0\<lparr>currentGeneration := g\<rparr>)"
  using read_frame[of r2 r0] read_frame[of "r0\<lparr>currentGeneration := g\<rparr>" r0]
  by (simp add: currentOpenServers_def getWebSockets_def cong: if_cong option.case_cong)

text \<open>\<open>crypto.randomUUID\<close> does not repeat an identity the room still stores.\<close>

definition fresh_control :: "string \<Rightarrow> room \<Rightarrow> bool" where
  "fresh_control uuid r \<longleftrightarrow>
     (\<forall>j u. readAttachment r j = Some (ServerA u) \<longrightarrow> sv_controlId u \<noteq> uuid)"

text \<open>
  C14: Whatever platform calls fail, \<open>acceptServer\<close> keeps the invariant; when it returns an
  upgrade, the new control is the only current open control of the room and the room has
  adopted its generation; when it refuses, no socket is a current control that was not
  one before.
\<close>

theorem acceptServer_sole_control:
  assumes "room_inv r0" "is_connection_id uuid" "is_hex64 gen" "is_safe_integer now" "0 \<le> now"
    "fresh_control uuid r0"
  shows "case acceptServer now ap gen uuid rows r0 of
      (Inr i, r') \<Rightarrow> room_inv r' \<and> currentGeneration r' = Some gen \<and> i = sock_count r0 \<and>
        currentOpenServers None r' = [(i, (new_server now ap gen uuid)\<lparr>sv_current := True\<rparr>)]
    | (Inl e, r') \<Rightarrow> room_inv r' \<and> e = RoomUnavailable \<and>
        fst ` set (currentOpenServers None r') \<subseteq>
        fst ` set (currentOpenServers None (r0\<lparr>currentGeneration := currentGeneration r'\<rparr>))"
proof -
  obtain res r' where run: "acceptServer now ap gen uuid rows r0 = (res, r')" by fastforce
  have wf: "server_wf (new_server now ap gen uuid)" using assms(2-5) by (rule new_server_wf)
  show ?thesis
    using run
  proof (cases rule: acceptServer_steps)
    case refused
    with run inv_frame[of r' r0] assms(1) current_generation_frame[of r' r0, OF _ _ refl]
    show ?thesis by simp
  next
    case (replaced r2)
    have "room_inv r2" using inv_frame[OF replaced(1,2)] assms(1) by simp
    moreover have fresh: "\<And>j u. readAttachment r2 j = Some (ServerA u) \<Longrightarrow> sv_controlId u \<noteq> uuid"
      using assms(6) read_frame(1)[OF replaced(1)] by (simp add: fresh_control_def)
    ultimately have "room_inv r' \<and> currentGeneration r' = currentGeneration r2 \<and>
      (case res of
         Inr i \<Rightarrow> currentOpenServers None r' = [(i, (new_server now ap gen uuid)\<lparr>sv_current := True\<rparr>)] \<and>
                  i = sock_count r2
       | Inl e \<Rightarrow> e = RoomUnavailable \<and>
                  fst ` set (currentOpenServers None r') \<subseteq> fst ` set (currentOpenServers None r2))"
      by (rule replaceServer_outcome[OF _ wf _ replaced(3,4)])
    with run replaced current_generation_frame[OF replaced(1,2) refl]
    show ?thesis by (simp split: sum.splits)
  qed
qed


definition example_uuid :: string where
  "example_uuid = ''33333333-3333-4333-8333-333333333333''"

lemma example_uuid_id [simp]: "is_connection_id example_uuid"
  by code_simp

theorem acceptServer_sole_control_witness:
  "currentOpenServers None (snd (acceptServer 900 True (replicate 64 CHR ''0'') example_uuid []
      (example_room (\<lambda>_. True)))) =
    [(2, (new_server 900 True (replicate 64 CHR ''0'') example_uuid)\<lparr>sv_current := True\<rparr>)]"
proof -
  have other: "fresh_control example_uuid (example_room (\<lambda>_. True))"
    by (auto simp: fresh_control_def example_room_read example_server_def example_connection_id_def example_uuid_def
        split: if_splits)
  have hex: "is_hex64 (replicate 64 CHR ''0'')" by (simp add: is_hex_digit_def)
  have safe: "is_safe_integer 900" "(0::int) \<le> 900" by (simp_all add: is_safe_integer_def max_safe_integer_def)
  have "no_faults (example_room (\<lambda>_. True))" by (simp add: no_faults_def)
  moreover have "earliestRetainedExpiryMs [] = Inr None" by code_simp
  ultimately have "\<exists>i. fst (acceptServer 900 True (replicate 64 CHR ''0'') example_uuid []
      (example_room (\<lambda>_. True))) = Inr i"
    using acceptServer_clean[of "example_room (\<lambda>_. True)" 900 True "replicate 64 CHR ''0''" example_uuid "[]" None]
      new_server_wf[OF example_uuid_id hex safe] by fastforce
  then show ?thesis
    using acceptServer_sole_control[OF example_room_inv[of "\<lambda>_. True"] example_uuid_id hex safe other,
      where ap = True and rows = "[]"]
    by (auto split: prod.splits)
qed

text \<open>
  C15: When no platform call fails and the ledger is readable, a control of the room's
  generation is always accepted, and afterwards no client socket of the previous control
  is open.
\<close>

theorem acceptServer_available:
  assumes "no_faults r0" "is_connection_id uuid" "is_hex64 gen" "is_safe_integer now" "0 \<le> now"
    "currentGeneration r0 = None \<or> currentGeneration r0 = Some gen"
    "earliestRetainedExpiryMs rows = Inr e"
  shows "\<exists>i r'. acceptServer now ap gen uuid rows r0 = (Inr i, r') \<and>
    (\<forall>j \<in> set (getWebSockets ClientRole r0). \<not> is_open r' j)"
  using acceptServer_clean[OF assms(1) new_server_wf[OF assms(2-5)] assms(6,7)] .

theorem acceptServer_available_witness:
  "\<exists>i r'. acceptServer 900 True (replicate 64 CHR ''0'') example_uuid [] (example_room (\<lambda>_. True)) =
     (Inr i, r') \<and> \<not> is_open r' 1"
proof -
  have "no_faults (example_room (\<lambda>_. True))" by (simp add: no_faults_def)
  moreover have "is_hex64 (replicate 64 CHR ''0'')" by (simp add: is_hex_digit_def)
  moreover have "is_safe_integer 900" by (simp add: is_safe_integer_def max_safe_integer_def)
  moreover have "earliestRetainedExpiryMs [] = Inr None" by code_simp
  ultimately show ?thesis
    using acceptServer_available[of "example_room (\<lambda>_. True)" example_uuid _ 900 "[]" None True] by auto
qed

end
