(* ===== verification/RoomClients.thy ===== *)
theory RoomClients
  imports RoomControls
begin

text \<open>
  The upgrade of a client (\<open>acceptClient\<close> of \<open>src/src/rendezvous-room.ts\<close>): what its segments
  admit, what they keep, and what they refuse.
\<close>

subsection \<open>The stored record of a new client\<close>

text \<open>
  What the steps before the allocation guarantee of a proof: the upgrade's validation, the
  hash and the redemption, whose life is at most one session.
\<close>

definition proof_ok :: "int \<Rightarrow> bool \<Rightarrow> admission_proof \<Rightarrow> bool" where
  "proof_ok now authorizationRequired p \<longleftrightarrow>
     is_hex64 (ap_ticket p) \<and> is_hex64 (ap_boundTicketHash p) \<and>
     (if authorizationRequired
      then pred_option is_hex64 (ap_clientNonce p) \<and> ap_clientNonce p \<noteq> None \<and>
           (case ap_receipt p of
              None \<Rightarrow> False | Some (redemption, e) \<Rightarrow> is_hex64 redemption \<and> e * 1000 \<le> now + MAX_SESSION_MS)
      else ap_clientNonce p = None \<and> ap_receipt p = None)"

lemma new_client_wf:
  assumes "proof_ok now authorizationRequired p" "1 \<le> sessionSeconds" "sessionSeconds \<le> 15"
    and "0 \<le> now" "now + MAX_SESSION_MS \<le> max_safe_integer - TERMINAL_CLOSE_RETRY_HORIZON_MS"
    and "is_hex64 gen" "is_connection_id cid" "is_connection_id uuid"
    and "1 \<le> admission" "admission \<le> max_safe_integer"
    and "case ap_receipt p of None \<Rightarrow> True | Some (_, e) \<Rightarrow> now < e * 1000"
  shows "client_wf (new_client now sessionSeconds authorizationRequired gen cid uuid admission p)"
  using assms
  by (cases "ap_receipt p")
    (auto simp: client_wf_def new_client_def access_wf_def stage_wf_def proof_ok_def
      is_safe_integer_def max_safe_integer_def attachment_bounds
      split: if_splits option.splits)


subsection \<open>The catch block\<close>

lemma abort_tears:
  "\<exists>t. tears r t \<and> same_sockets t (snd (acceptClient_abort now rows new e r :: (room_error + 'a) result \<times> room))"
proof -
  define x where "x = (case new of
      None \<Rightarrow> (True, r)
    | Some i \<Rightarrow>
        (case readClientAttachment r i of
           Some a \<Rightarrow> failClient now i a ServerUnavailable close_serverUnavailable r
         | None \<Rightarrow> (True, snd (closeSocket i close_serverUnavailable r))))"
  have t: "tears r (snd x)"
    by (auto simp: x_def tears_close tears_failClient_read split: option.split)
  define sch where "sch = scheduleAdmissionAlarm now rows (snd x)"
  have s: "same_sockets (snd x) (snd sch)" unfolding sch_def by (rule same_scheduleAdmissionAlarm)
  have re: "same_sockets (snd sch) (snd (rethrowTeardownFailure now (Inl TeardownIntegrity :: (room_error + 'a) result, snd sch)))"
    by (rule same_rethrow) simp
  have "(acceptClient_abort now rows new e r :: (room_error + 'a) result \<times> room) =
      (if \<not> fst x then (Inl TeardownIntegrity, snd x)
       else case fst sch of Inl f \<Rightarrow> (Inl f, snd sch)
         | Inr _ \<Rightarrow> if e = TeardownIntegrity then rethrowTeardownFailure now (Inl TeardownIntegrity, snd sch)
             else (Inr (Inl ServerUnavailableError), snd sch))"
    by (simp add: acceptClient_abort_def x_def[symmetric] sch_def[symmetric] case_prod_unfold split: sum.split)
  then have "same_sockets (snd x) (snd (acceptClient_abort now rows new e r :: (room_error + 'a) result \<times> room))"
    using s same_sockets_trans[OF s re] by (auto split: sum.split)
  with t show ?thesis by blast
qed

lemma abort_refuses: "fst (acceptClient_abort now rows new e r) \<noteq> Inr (Inr x)"
  by (auto simp: acceptClient_abort_def rethrowTeardownFailure_def Let_def case_prod_unfold
      split: option.splits sum.splits failure.splits)

lemma abort_refuses_eq: "acceptClient_abort now rows new e r \<noteq> (Inr (Inr x), r')"
  using abort_refuses[of now rows new e r x] by (metis fst_conv)

lemma abort_off:
  "tears_off n r0 r \<Longrightarrow> tears_off n r0 (snd (acceptClient_abort now rows new e r))"
  "room_inv r \<Longrightarrow> room_inv (snd (acceptClient_abort now rows new e r))"
  using abort_tears[of r now rows new e] tears_off_step tears_off_same room_inv_tears inv_same by metis+

subsection \<open>What is left of a new client\<close>

definition client_like :: "nat \<Rightarrow> string \<Rightarrow> room \<Rightarrow> bool" where
  "client_like n conn r \<longleftrightarrow> so_role (sock r n) = ClientRole \<and>
     (so_stored (sock r n) = JUndefined \<or>
      (\<exists>c. readAttachment r n = Some (ClientA c) \<and> connectionId c = conn))"

lemma client_like_tears:
  assumes "client_like n conn r" "tears r r'" shows "client_like n conn r'"
proof -
  have role: "so_role (sock r' n) = ClientRole" using assms by (simp add: client_like_def tears_def)
  consider "so_stored (sock r n) = JUndefined" | c where "readAttachment r n = Some (ClientA c)"
    "connectionId c = conn"
    using assms(1) by (auto simp: client_like_def)
  then show ?thesis
  proof cases
    case 1
    then have "so_stored (sock r' n) = JUndefined"
      using read_undefined[OF 1] assms(2) by (simp add: tears_def)
    with role show ?thesis by (simp add: client_like_def)
  next
    case 2
    with tears_att[OF assms(2), of n] role show ?thesis
      by (auto simp: client_like_def client_torn_def)
  qed
qed

lemma client_like_same: "same_sockets r r' \<Longrightarrow> client_like n cid r' = client_like n cid r"
  using read_frame[of r' r] by (simp add: client_like_def same_sockets_def)

lemma client_like_abort:
  "client_like n conn r \<Longrightarrow> client_like n conn (snd (acceptClient_abort now rows new e r))"
  using abort_tears[of r now rows new e] client_like_tears client_like_same by metis

lemma client_like_write:
  assumes "client_like n (connectionId a) r" "client_wf a"
  shows "client_like n (connectionId a) (snd (tryWriteAttachment n (ClientA a) r))"
proof (cases "fst (tryWriteAttachment n (ClientA a) r)")
  case True
  then have "readAttachment (snd (tryWriteAttachment n (ClientA a) r)) n = Some (ClientA a)"
    using assms(2) by (simp add: tryWrite_read)
  with assms(1) show ?thesis by (simp add: client_like_def)
next
  case False
  then have "sock (snd (tryWriteAttachment n (ClientA a) r)) = sock r"
    by (auto simp: tryWriteAttachment_def platform_call_def split: if_splits)
  with assms(1) read_frame(1)[OF this] show ?thesis by (simp add: client_like_def)
qed

text \<open>A connection identity the room has not stored in a client or in a ticket.\<close>

definition fresh_connection :: "string \<Rightarrow> room \<Rightarrow> bool" where
  "fresh_connection conn r \<longleftrightarrow>
     (\<forall>j c. readAttachment r j = Some (ClientA c) \<longrightarrow> connectionId c \<noteq> conn) \<and>
     (\<forall>j s. readAttachment r j = Some (ServerA s) \<longrightarrow>
        (\<forall>t \<in> set (sv_tickets s). tk_clientConnectionId t \<noteq> conn))"

lemma fresh_connection_tears:
  assumes "fresh_connection conn r" "tears r r'" shows "fresh_connection conn r'"
  unfolding fresh_connection_def
proof (intro conjI allI impI ballI)
  fix j c assume "readAttachment r' j = Some (ClientA c)"
  with tears_client_back[OF assms(2)] assms(1) show "connectionId c \<noteq> conn"
    by (force simp: fresh_connection_def client_torn_def)
next
  fix j s t assume "readAttachment r' j = Some (ServerA s)" "t \<in> set (sv_tickets s)"
  with tears_server_back[OF assms(2)] obtain s0 t0 where
    "readAttachment r j = Some (ServerA s0)" "t0 \<in> set (sv_tickets s0)" "ticket_torn t0 t"
    by (fastforce simp: server_torn_def)
  moreover from this assms(1) have "tk_clientConnectionId t0 \<noteq> conn"
    unfolding fresh_connection_def by blast
  ultimately show "tk_clientConnectionId t \<noteq> conn" by (auto simp: ticket_torn_def)
qed

lemma room_inv_client:
  assumes "room_inv r" "tears_off n r r'" "client_like n conn r'" "fresh_connection conn r"
  shows "room_inv r'"
proof (rule room_inv_off[OF assms(1,2)])
  show "so_stored (sock r' n) = JUndefined \<or> readTaggedAttachment r' n \<noteq> None"
    using assms(3) readTagged_Some[of r' n] by (auto simp: client_like_def)
qed (use assms(3,4) read_undefined[of r' n] in \<open>auto simp: client_like_def fresh_connection_def\<close>)

subsection \<open>The allocation\<close>

lemma allocate_off:
  fixes now rows a r
  defines "n \<equiv> sock_count r" and "r' \<equiv> snd (allocateClient now rows a r)"
  assumes wf: "client_wf a"
  shows "tears_off n r r' \<and> (sock_count r' = n \<or> sock_count r' = Suc n) \<and>
    (sock_count r' = Suc n \<longrightarrow> client_like n (connectionId a) r') \<and>
    (sock_count r' = n \<longrightarrow> (\<exists>t. tears r t \<and> same_sockets t r'))"
proof (cases "open_pair ClientRole r")
  case (Pair new r2)
  show ?thesis
  proof (cases new)
    case None
    with Pair have pair: "open_pair ClientRole r = (None, r2)" by simp
    define ab where "ab = (acceptClient_abort now rows None PlatformFault r2
        :: (room_error + nat \<times> client_attachment) result \<times> room)"
    have r': "r' = snd ab" using pair by (simp add: r'_def allocateClient_def ab_def)
    obtain t where t: "tears r2 t" "same_sockets t (snd ab)" using abort_tears unfolding ab_def by blast
    have "tears r t" using tears_trans[OF open_pair_none[OF pair] t(1)] .
    with t(2) show ?thesis
      using tears_off_tears[of r t n] tears_off_same[OF t(2), of n r]
      by (auto simp: r' n_def tears_def same_sockets_def)
  next
    case (Some i)
    with Pair have pair: "open_pair ClientRole r = (Some i, r2)" by simp
    note p = open_pair_facts[OF pair]
    have i: "i = n" using p(1) by (simp add: n_def)
    define acc where "acc = acceptWebSocket n r2"
    define w where "w = tryWriteAttachment n (ClientA a) (snd acc)"
    define sch where "sch = scheduleNextAlarm now rows (snd w)"
    define ab where "ab q = (acceptClient_abort now rows (Some n) PlatformFault q
        :: (room_error + nat \<times> client_attachment) result \<times> room)" for q
    have run: "r' = (if \<not> fst acc then snd (ab (snd acc)) else if \<not> fst w then snd (ab (snd w))
        else case fst sch of Inl _ \<Rightarrow> snd (ab (snd sch)) | Inr _ \<Rightarrow> snd sch)"
      using pair by (simp add: r'_def allocateClient_def i acc_def w_def sch_def ab_def
        case_prod_unfold split: sum.split)
    define good where "good q \<longleftrightarrow> tears_off n r q \<and> sock_count q = Suc n \<and> client_like n (connectionId a) q" for q
    have g_abort: "good (snd (ab q))" if "good q" for q
    proof -
      obtain t where t: "tears q t" "same_sockets t (snd (ab q))" using abort_tears unfolding ab_def by blast
      then have "sock_count (snd (ab q)) = sock_count q" by (simp add: tears_def same_sockets_def)
      with that show ?thesis by (simp add: good_def ab_def abort_off client_like_abort)
    qed
    have "client_like n (connectionId a) r2" using p(3,4) by (simp add: client_like_def i)
    then have g2: "good r2" using p(2,7) by (simp add: good_def i n_def)
    have "readAttachment (snd acc) n = readAttachment r2 n"
      by (simp add: readAttachment_def acc_def acceptWebSocket_new)
    then have ga: "good (snd acc)"
      using g2 tears_off_trans[OF _ acceptWebSocket_off, of n r r2]
      by (simp add: good_def acc_def acceptWebSocket_new client_like_def)
    have gw: "good (snd w)"
      using ga tears_off_write[of n r "snd acc" n "ClientA a"] client_like_write wf
      by (simp add: good_def w_def)
    have same: "same_sockets (snd w) (snd sch)" unfolding sch_def by (rule same_scheduleNextAlarm)
    then have gs: "good (snd sch)"
      using gw tears_off_same[OF same] client_like_same[OF same] by (simp add: good_def same_sockets_def)
    have "good r'" unfolding run using g_abort[OF ga] g_abort[OF gw] g_abort[OF gs] gs
      by (simp split: sum.split)
    then show ?thesis by (simp add: good_def)
  qed
qed

lemma room_inv_allocate:
  assumes "room_inv r" "client_wf a" "fresh_connection (connectionId a) r"
  shows "room_inv (snd (allocateClient now rows a r))"
proof -
  let ?r' = "snd (allocateClient now rows a r)"
  note off = allocate_off[OF assms(2), of r now rows]
  show ?thesis
  proof (cases "sock_count ?r' = sock_count r")
    case True
    with off obtain t where "tears r t" "same_sockets t ?r'" by auto
    with room_inv_tears[OF assms(1)] inv_same show ?thesis by blast
  next
    case False
    with off have "tears_off (sock_count r) r ?r'" "client_like (sock_count r) (connectionId a) ?r'" by auto
    from room_inv_client[OF assms(1) this assms(3)] show ?thesis .
  qed
qed

lemma allocate_done:
  assumes "client_wf a" "allocateClient now rows a r = (Inr (Inr (i, b)), r')"
  shows "b = a" "i = sock_count r" "sock_count r' = Suc i" "is_open r' i" "so_listed (sock r' i)"
    "readClientAttachment r' i = Some a" "\<And>j. j \<noteq> i \<Longrightarrow> sock r' j = sock r j"
    "currentGeneration r' = currentGeneration r"
proof -
  obtain k r2 where pair: "open_pair ClientRole r = (Some k, r2)"
    using assms(2)
    by (auto simp: allocateClient_def abort_refuses_eq split: prod.splits option.splits)
  have k: "k = sock_count r" using open_pair_facts(1)[OF pair] .
  define acc where "acc = acceptWebSocket k r2"
  define w where "w = tryWriteAttachment k (ClientA a) (snd acc)"
  define sch where "sch = scheduleNextAlarm now rows (snd w)"
  have ok: "fst acc \<and> fst w \<and> i = k \<and> b = a \<and> r' = snd sch"
    using assms(2) pair
    by (simp add: allocateClient_def abort_refuses_eq acc_def w_def sch_def split: prod.splits bool.splits sum.splits)
  have same: "same_sockets (snd w) (snd sch)" unfolding sch_def by (rule same_scheduleNextAlarm)
  have r2: "r2 = new_socket ClientRole (snd (platform_call r))"
    using pair by (auto simp: open_pair_eq split: if_splits)
  have sock2: "\<And>j. j \<noteq> k \<Longrightarrow> sock r2 j = sock r j" "sock_count r2 = Suc k" "currentGeneration r2 = currentGeneration r"
    by (simp_all add: r2 new_socket_def k)
  have sock3: "\<And>j. j \<noteq> k \<Longrightarrow> sock (snd acc) j = sock r j"
    using sock2(1) by (auto simp: acc_def acceptWebSocket_def Let_def case_prod_unfold list_socket_def)
  have gen3: "currentGeneration (snd acc) = currentGeneration r"
    using sock2(3) by (auto simp: acc_def acceptWebSocket_def Let_def case_prod_unfold list_socket_def)
  show "b = a" "i = sock_count r" using ok k by simp_all
  show "sock_count r' = Suc i" "currentGeneration r' = currentGeneration r"
    using ok same sock2(2) gen3 by (simp_all add: same_sockets_def w_def acc_def acceptWebSocket_new)
  show "\<And>j. j \<noteq> i \<Longrightarrow> sock r' j = sock r j"
    using ok same sock3 tryWrite_sock_other[of _ k "ClientA a" "snd acc"] by (simp add: same_sockets_def w_def)
  show "is_open r' i"
    using ok read_same(4)[OF same] open_pair_facts(5)[OF pair] by (simp add: w_def acc_def acceptWebSocket_new)
  show "so_listed (sock r' i)"
    using ok same acceptWebSocket_new(4)[of k r2] by (simp add: same_sockets_def w_def acc_def)
  show "readClientAttachment r' i = Some a"
    using ok read_same(2)[OF same] assms(1) by (simp add: w_def read_tryWriteClient)
qed


subsection \<open>Admission\<close>

lemma accepted_id:
  "ledger_ok rows \<Longrightarrow> consumeAndClaim m now c p rows = (Inr (Accepted i), rows') \<Longrightarrow>
   1 \<le> i \<and> i \<le> max_safe_integer"
  by (auto simp: consumeAndClaim_eq isAdmissionId_def is_safe_integer_def split: if_splits)

lemma grown_lists:
  assumes "sock_count r' = Suc n" "n = sock_count r" "\<And>j. j \<noteq> n \<Longrightarrow> sock r' j = sock r j"
    and "so_role (sock r' n) = ClientRole" "so_listed (sock r' n)" "currentGeneration r' = currentGeneration r"
  shows "getWebSockets ClientRole r' = getWebSockets ClientRole r @ [n]"
    "currentOpenServers ign r' = currentOpenServers ign r"
    "countActiveClients r' (getWebSockets ClientRole r') cid gen now \<le>
       Suc (countActiveClients r (getWebSockets ClientRole r) cid gen now)"
proof -
  have rd: "readServerAttachment r' j = readServerAttachment r j" "is_open r' j = is_open r j"
    "readClientAttachment r' j = readClientAttachment r j" if "j \<noteq> n" for j
    using assms(3)[OF that]
    by (simp_all add: readServerAttachment_def readClientAttachment_def readAttachment_def is_open_def)
  have old: "filter (\<lambda>i. so_listed (sock r' i) \<and> so_role (sock r' i) = tag) [0..<n] =
      filter (\<lambda>i. so_listed (sock r i) \<and> so_role (sock r i) = tag) [0..<n]" for tag
    by (rule filter_cong) (use assms(3) in auto)
  show c: "getWebSockets ClientRole r' = getWebSockets ClientRole r @ [n]"
    using old assms(1,2,4,5) by (simp add: getWebSockets_def)
  have s: "getWebSockets ServerRole r' = getWebSockets ServerRole r"
    using old assms(1,2,4) by (simp add: getWebSockets_def)
  have ne: "j \<noteq> n" if "j \<in> set (getWebSockets tag r)" for j tag
    using that assms(2) by (auto simp: getWebSockets_def)
  have mf: "List.map_filter f xs = List.map_filter g xs" if "\<And>x. x \<in> set xs \<Longrightarrow> f x = g x" for f g xs
  proof -
    have "filter (\<lambda>x. f x \<noteq> None) xs = filter (\<lambda>x. g x \<noteq> None) xs"
      by (rule filter_cong) (simp_all add: that)
    then show ?thesis using that by (simp add: List.map_filter_def)
  qed
  show "currentOpenServers ign r' = currentOpenServers ign r"
    unfolding currentOpenServers_def s
    by (rule mf) (simp add: rd ne assms(6) cong: if_cong option.case_cong)
  have "filter (client_is_active r' cid gen now) (getWebSockets ClientRole r) =
      filter (client_is_active r cid gen now) (getWebSockets ClientRole r)"
    by (rule filter_cong) (simp_all add: client_is_active_def rd ne)
  then show "countActiveClients r' (getWebSockets ClientRole r') cid gen now \<le>
       Suc (countActiveClients r (getWebSockets ClientRole r) cid gen now)"
    unfolding countActiveClients_def c by simp
qed

lemma admit_outcome:
  assumes inv: "room_inv r0" and led: "ledger_ok rows"
    and ids: "is_hex64 gen" "is_connection_id (sv_controlId s)" "is_connection_id uuid" "fresh_connection uuid r0"
    and pf: "proof_ok now authorizationRequired p" "1 \<le> sessionSeconds" "sessionSeconds \<le> 15"
      "0 \<le> now" "now + MAX_SESSION_MS \<le> max_safe_integer - TERMINAL_CLOSE_RETRY_HORIZON_MS"
    and run: "acceptClient_admit now limit sessionSeconds authorizationRequired gen (j, s) p uuid (rows, r0) =
      (res, rows', r')"
  shows "room_inv r'"
    and "res = Inr (Inr (i, a)) \<Longrightarrow>
      now < ap_expiresAt p * 1000 \<and> now < expiresAt a \<and> currentGeneration r' = Some gen \<and>
      i = sock_count r0 \<and> is_open r' i \<and> readClientAttachment r' i = Some a \<and>
      a = new_client now sessionSeconds authorizationRequired gen (sv_controlId s) uuid (admissionId a) p \<and>
      (\<forall>x \<in> set (currentOpenServers None r'). fst x = j) \<and> is_open r' j \<and>
      length (getWebSockets ClientRole r') \<le> MAX_RENDEZVOUS_CLIENT_SOCKETS \<and>
      countActiveClients r' (getWebSockets ClientRole r') (sv_controlId s) gen now \<le> limit \<and>
      consumeAndClaim MAX_RENDEZVOUS_REPLAY_ADMISSIONS now (ap_tagCurrent p) (ap_tagPrevious p) rows =
        (Inr (Accepted (admissionId a)), rows')"
proof -
  define q where "q = reconcileActiveServer now None r0"
  define r1 where "r1 = snd q"
  have t1: "tears r0 r1" unfolding r1_def q_def by (rule tears_reconcile[OF tears_refl])
  have inv1: "room_inv r1" by (rule room_inv_tears[OF inv t1])
  define led' where "led' = consumeAndClaim MAX_RENDEZVOUS_REPLAY_ADMISSIONS now (ap_tagCurrent p)
      (ap_tagPrevious p) rows"
  define nc where "nc adm = new_client now sessionSeconds authorizationRequired gen (sv_controlId s) uuid adm p" for adm
  define fences where "fences \<longleftrightarrow> \<not> (ap_expiresAt p * 1000 \<le> now \<or>
           (case ap_receipt p of None \<Rightarrow> False | Some (_, e) \<Rightarrow> e * 1000 \<le> now)) \<and>
      currentGeneration r1 = Some gen \<and> is_open r1 j \<and> \<not> client_room_full limit s gen now r1"
  consider (other) "r' = r1 \<or> (\<exists>rows1. r' = snd (scheduleAdmissionAlarm now rows1 r1))"
      "\<And>x. res \<noteq> Inr (Inr x)"
    | (allocate) adm u where "fences" "fst q = Inr (Some (j, u))" "fst led' = Inr (Accepted adm)" "rows' = snd led'"
      "res = fst (allocateClient now rows' (nc adm) r1)" "r' = snd (allocateClient now rows' (nc adm) r1)"
    using run[symmetric]
    by (auto simp: acceptClient_admit_def q_def[symmetric] r1_def[symmetric] led'_def[symmetric]
        nc_def[symmetric] fences_def case_prod_unfold Let_def
        split: if_splits sum.splits option.splits consume_result.splits refusal.splits prod.splits)
  note cases = this
  have accepted: "1 \<le> adm \<and> adm \<le> max_safe_integer" if "fst led' = Inr (Accepted adm)" for adm
    using accepted_id[OF led, of MAX_RENDEZVOUS_REPLAY_ADMISSIONS now "ap_tagCurrent p" "ap_tagPrevious p" adm "snd led'"] that
    by (simp add: led'_def prod_eq_iff)
  show "room_inv r'"
    using cases
  proof cases
    case other
    with inv1 inv_same[OF same_scheduleAdmissionAlarm] show ?thesis by blast
  next
    case (allocate adm u)
    have "client_wf (nc adm)"
      unfolding nc_def using allocate(1) accepted[OF allocate(3)] ids pf
      by (intro new_client_wf) (auto simp: fences_def split: option.splits)
    moreover have "connectionId (nc adm) = uuid" by (simp add: nc_def new_client_def)
    ultimately show ?thesis
      using room_inv_allocate[OF inv1, of "nc adm" now rows'] fresh_connection_tears[OF ids(4) t1] allocate(6)
      by simp
  qed
  assume res: "res = Inr (Inr (i, a))"
  from cases show "now < ap_expiresAt p * 1000 \<and> now < expiresAt a \<and> currentGeneration r' = Some gen \<and>
      i = sock_count r0 \<and> is_open r' i \<and> readClientAttachment r' i = Some a \<and>
      a = new_client now sessionSeconds authorizationRequired gen (sv_controlId s) uuid (admissionId a) p \<and>
      (\<forall>x \<in> set (currentOpenServers None r'). fst x = j) \<and> is_open r' j \<and>
      length (getWebSockets ClientRole r') \<le> MAX_RENDEZVOUS_CLIENT_SOCKETS \<and>
      countActiveClients r' (getWebSockets ClientRole r') (sv_controlId s) gen now \<le> limit \<and>
      consumeAndClaim MAX_RENDEZVOUS_REPLAY_ADMISSIONS now (ap_tagCurrent p) (ap_tagPrevious p) rows =
        (Inr (Accepted (admissionId a)), rows')"
  proof cases
    case other
    then show ?thesis using other(2)[of "(i, a)"] res by blast
  next
    case (allocate adm u)
    have wf: "client_wf (nc adm)"
      unfolding nc_def using allocate(1) accepted[OF allocate(3)] ids pf
      by (intro new_client_wf) (auto simp: fences_def split: option.splits)
    have run': "allocateClient now rows' (nc adm) r1 = (Inr (Inr (i, a)), r')" using allocate(5,6) res by (simp add: prod_eq_iff)
    note done_ = allocate_done[OF wf run']
    have role: "so_role (sock r' i) = ClientRole"
      using allocate_off[OF wf, of r1 now rows'] done_(2,3) by (simp add: run' client_like_def)
    have adm: "admissionId a = adm" using done_(1) by (simp add: nc_def new_client_def)
    note grown = grown_lists[OF done_(3,2,7) role done_(5,8)]
    have count: "sock_count r1 = sock_count r0" using t1 by (simp add: tears_def)
    have room: "\<not> client_room_full limit s gen now r1" using allocate(1) by (simp add: fences_def)
    have "q = (Inr (Some (j, u)), r1)" using allocate(2) by (simp add: r1_def prod_eq_iff)
    then have "\<forall>x \<in> set (currentOpenServers None r1). fst x = j"
      using reconcile_unique[of now None r0 "Some (j, u)" r1] by (auto simp: q_def)
    moreover have "is_open r' j"
      using allocate(1) done_(4,7) by (cases "j = i") (simp_all add: fences_def is_open_def)
    moreover have "now < expiresAt a"
      using wf done_(1) by (simp add: client_wf_def) (simp add: nc_def new_client_def)
    ultimately show ?thesis
      using grown(1,2) grown(3)[of "sv_controlId s" gen now] done_ adm allocate(1,3,4) count room
      by (auto simp: fences_def led'_def nc_def client_room_full_def prod_eq_iff)
  qed
qed


subsection \<open>Delivery\<close>

lemma abort_clean:
  assumes "no_faults r" shows "\<not> is_open (snd (acceptClient_abort now rows (Some i) e r)) i"
proof -
  define x where "x = (case readClientAttachment r i of
      Some a \<Rightarrow> failClient now i a ServerUnavailable close_serverUnavailable r
    | None \<Rightarrow> (True, snd (closeSocket i close_serverUnavailable r)))"
  have closed: "\<not> is_open (snd x) i"
  proof (cases "readClientAttachment r i")
    case None
    then show ?thesis
      using closeSocket_closed no_faults_close[OF assms] by (simp add: x_def)
  next
    case (Some a)
    with closeClientStep_clean(2)[OF assms, of now ServerUnavailable close_serverUnavailable i]
    show ?thesis by (simp add: x_def closeClientStep_def)
  qed
  define sch where "sch = scheduleAdmissionAlarm now rows (snd x)"
  have s: "is_open (snd sch) i = is_open (snd x) i"
    using read_same(4)[OF same_scheduleAdmissionAlarm] by (simp add: sch_def)
  have re: "is_open (snd (rethrowTeardownFailure now (Inl TeardownIntegrity :: (room_error + 'a) result, snd sch))) i
      = is_open (snd sch) i"
    using read_same(4)[OF same_rethrow[of "snd sch" "(Inl TeardownIntegrity :: (room_error + 'a) result, snd sch)"]]
    by simp
  have "(acceptClient_abort now rows (Some i) e r :: (room_error + 'a) result \<times> room) =
      (if \<not> fst x then (Inl TeardownIntegrity, snd x)
       else case fst sch of Inl f \<Rightarrow> (Inl f, snd sch)
         | Inr _ \<Rightarrow> if e = TeardownIntegrity then rethrowTeardownFailure now (Inl TeardownIntegrity, snd sch)
             else (Inr (Inl ServerUnavailableError), snd sch))"
    by (simp add: acceptClient_abort_def x_def[symmetric] sch_def[symmetric] case_prod_unfold split: sum.split)
  then have "\<not> is_open (snd (acceptClient_abort now rows (Some i) e r :: (room_error + 'a) result \<times> room)) i"
    using s re closed by (auto split: sum.split)
  then show ?thesis .
qed

lemma no_faults_retireDuplicates: "no_faults r \<Longrightarrow> no_faults (snd (retireDuplicates xs r))"
proof (induction xs arbitrary: r)
  case (Cons x xs)
  have "no_faults (setPendingServer i out q) = no_faults q" for i out q by (simp add: no_faults_def)
  with Cons.IH retireServerImmediately_clean(2)[OF Cons.prems, of x close_internalError] show ?case
    by (simp add: Let_def case_prod_unfold)
qed simp

lemma no_faults_reconcile:
  assumes "no_faults r" shows "no_faults (snd (reconcileActiveServer now ign r))"
proof -
  define r1 where "r1 = snd (retryPendingServerTeardowns now r)"
  define act where "act = currentOpenServers ign r1"
  have nf1: "no_faults r1" using assms by (simp add: no_faults_def r1_def)
  have all: "no_faults (snd (closeAllClients now out cl q)) = no_faults q" for out cl q
    by (simp add: no_faults_def)
  have "no_faults (snd (reconcileDuplicates now act r1))"
    using no_faults_retireDuplicates[of "snd (closeAllClients now InternalError close_internalError r1)" act]
    by (simp add: reconcileDuplicates_def Let_def case_prod_unfold all nf1) (simp add: no_faults_def)
  moreover have "no_faults (snd (reconcileReplacement now act r1))"
    using chooseWinner_clean[OF nf1, of now] nf1
    by (auto simp: reconcileReplacement_def Let_def case_prod_unfold all split: list.split sum.split)
  ultimately show ?thesis
    unfolding reconcileActiveServer_def Let_def case_prod_unfold r1_def[symmetric] act_def[symmetric]
    using nf1 by simp
qed

text \<open>No frame reaches the room on a socket that was not handed out.\<close>

definition undelivered :: "nat \<Rightarrow> client_attachment \<Rightarrow> room \<Rightarrow> bool" where
  "undelivered i a r \<longleftrightarrow> (\<forall>c. readClientAttachment r i = Some c \<longrightarrow> stage c = Terminal \<or> c = a)"

lemma deliver_outcome:
  assumes inv: "room_inv r0" and wf: "client_wf a"
    and undelivered: "undelivered i a r0"
    and run: "acceptClient_deliver now live server p i a rows r0 = (res, r')"
  shows "room_inv r'"
    and "res = Inr (Inr k) \<Longrightarrow> k = i \<and> live \<and> now < ap_expiresAt p * 1000 \<and> now < expiresAt a \<and>
      currentGeneration r' = Some (generation a) \<and> is_open r' i \<and>
      readClientAttachment r' i = Some (a\<lparr>summaryEmitted := False\<rparr>) \<and>
      is_open r' (fst server) \<and> (\<forall>x \<in> set (currentOpenServers None r'). fst x = fst server)"
proof -
  define q where "q = reconcileActiveServer now None r0"
  define r1 where "r1 = snd q"
  have t1: "tears r0 r1" unfolding r1_def q_def by (rule tears_reconcile[OF tears_refl])
  have inv1: "room_inv r1" by (rule room_inv_tears[OF inv t1])
  let ?b = "a\<lparr>summaryEmitted := False\<rparr>"
  define w where "w = tryWriteAttachment i (ClientA ?b) (snd (platform_call r1))"
  consider (aborted) r2 e where "tears r1 r2" "(res, r') = acceptClient_abort now rows (Some i) e r2"
    | (delivered) c k u where "res = Inr (Inr i)" "r' = snd w" "fst w" "live" "now < ap_expiresAt p * 1000"
      "now < expiresAt a" "readClientAttachment r1 i = Some c" "stage c \<noteq> Terminal"
      "connectionId c = connectionId a" "fst q = Inr (Some (k, u))" "k = fst server" "is_open r1 k"
      "currentGeneration r1 = Some (generation a)" "is_open r1 i"
  proof -
    define ab where "ab = (\<lambda>e q. (acceptClient_abort now rows (Some i) e q
        :: (room_error + nat) result \<times> room))"
    define fence where "fence active \<longleftrightarrow> \<not> live \<or> ap_expiresAt p * 1000 \<le> now \<or> expiresAt a \<le> now \<or>
           (case ap_receipt p of None \<Rightarrow> False | Some (_, e) \<Rightarrow> e * 1000 \<le> now) \<or>
           (case readClientAttachment r1 i of
              None \<Rightarrow> True
            | Some c \<Rightarrow> stage c = Terminal \<or> connectionId c \<noteq> connectionId a) \<or>
           (case active of
              None \<Rightarrow> True
            | Some (k, u) \<Rightarrow> k \<noteq> fst server \<or> \<not> is_open r1 k \<or> sv_controlId u \<noteq> controlId a \<or>
                             sv_generation u \<noteq> generation a) \<or>
           currentGeneration r1 \<noteq> Some (generation a) \<or> \<not> is_open r1 i"
      for active :: "active_server option"
    have eq: "(res, r') = (case fst q of
        Inl e \<Rightarrow> ab e r1
      | Inr active \<Rightarrow>
          if fence active then ab PlatformFault r1
          else if \<not> fst (platform_call r1) then ab PlatformFault (snd (platform_call r1))
          else if \<not> fst w then ab PlatformFault (snd w) else (Inr (Inr i), snd w))"
      unfolding run[symmetric] acceptClient_deliver_def Let_def case_prod_unfold q_def[symmetric]
        r1_def[symmetric] fence_def ab_def w_def
      by (simp split: sum.split bool.split)
    have tp: "tears r1 (snd (platform_call r1))" by (rule tears_platform)
    show thesis
    proof (cases "fst q")
      case (Inl e)
      with eq aborted[OF tears_refl, of e] show thesis by (simp add: ab_def)
    next
      case (Inr active)
      show thesis
      proof (cases "\<not> fence active \<and> fst (platform_call r1) \<and> fst w")
        case True
        then show thesis
          using eq Inr delivered by (fastforce simp: fence_def split: option.splits)
      next
        case False
        then consider "fence active" | "\<not> fence active" "\<not> fst (platform_call r1)"
          | "\<not> fence active" "fst (platform_call r1)" "\<not> fst w" by blast
        then show thesis
        proof cases
          case 1
          with eq Inr aborted[OF tears_refl, of PlatformFault] show thesis by (simp add: ab_def)
        next
          case 2
          with eq Inr aborted[OF tp, of PlatformFault] show thesis by (simp add: ab_def)
        next
          case 3
          have "snd w = snd (platform_call (snd (platform_call r1)))"
            using 3(3) by (auto simp: w_def tryWriteAttachment_def Let_def case_prod_unfold split: if_splits)
          then have "tears r1 (snd w)" using tears_trans[OF tp tears_platform] by simp
          from aborted[OF this, of PlatformFault] 3 eq Inr show thesis by (simp add: ab_def)
        qed
      qed
    qed
  qed
  note cases = this
  have written: "room_inv (snd w)" if rd: "readClientAttachment r1 i = Some c" and st: "stage c \<noteq> Terminal" for c
  proof -
    obtain c0 where c0: "readAttachment r0 i = Some (ClientA c0)" "client_torn c0 c"
      using tears_client_back[OF t1] rd by (auto simp: readClient_iff)
    then have "c = c0" using st by (auto simp: client_torn_def)
    then have ca: "c = a" using undelivered c0 st by (auto simp: undelivered_def readClient_iff)
    define r2 where "r2 = snd (platform_call r1)"
    have inv2: "room_inv r2" using inv1 inv_frame[of r2 r1] by (simp add: r2_def)
    have rd2: "readAttachment r2 i = Some (ClientA a)"
      using rd ca read_frame(1)[of r2 r1] by (simp add: r2_def readClient_iff)
    have "linked (sv_controlId s) t ?b"
      if "readAttachment r2 j = Some (ServerA s)" "t \<in> set (sv_tickets s)" for j s t
      using inv2 that rd2 by (fastforce simp: room_inv_def all_linked_def linked_def)
    from inv_writeClient[OF inv2 rd2 _ _ this] show ?thesis
      using wf by (simp add: w_def r2_def client_wf_summary)
  qed
  show "room_inv r'"
    using cases
  proof cases
    case aborted
    with room_inv_tears[OF inv1 aborted(1)] abort_off(2) show ?thesis by (metis snd_conv)
  next
    case delivered
    with written show ?thesis by simp
  qed
  assume res: "res = Inr (Inr k)"
  from cases show "k = i \<and> live \<and> now < ap_expiresAt p * 1000 \<and> now < expiresAt a \<and>
      currentGeneration r' = Some (generation a) \<and> is_open r' i \<and>
      readClientAttachment r' i = Some (a\<lparr>summaryEmitted := False\<rparr>) \<and>
      is_open r' (fst server) \<and> (\<forall>x \<in> set (currentOpenServers None r'). fst x = fst server)"
  proof cases
    case aborted
    with abort_refuses_eq res show ?thesis by metis
  next
    case delivered
    have qq: "q = (Inr (Some (k, u)), r1)" using delivered(10) by (simp add: r1_def prod_eq_iff)
    have "fst x = fst server" if x: "x \<in> set (currentOpenServers None (snd w))" for x
    proof -
      have rd: "readServerAttachment (snd w) j = (if j = i then None else readServerAttachment r1 j)" for j
        using delivered(3) wf read_frame(1)[of "snd (platform_call r1)" r1]
        by (simp add: readServerAttachment_def w_def tryWrite_read client_wf_summary)
      have fr: "getWebSockets tag (snd w) = getWebSockets tag r1" "is_open (snd w) j = is_open r1 j"
        "currentGeneration (snd w) = currentGeneration r1" for tag j
        using read_frame(4)[of "snd (platform_call r1)" r1] by (simp_all add: w_def getWebSockets_def)
      have "x \<in> set (currentOpenServers None r1)"
        using x by (auto simp: currentOpenServers_iff rd fr split: if_splits)
      from reconcile_unique[OF qq[unfolded q_def] this] delivered(11) show ?thesis by auto
    qed
    then show ?thesis
      using res wf delivered
      by (auto simp: w_def read_tryWriteClient client_wf_summary read_frame(4)[of "snd (platform_call r1)" r1])
  qed
qed


lemma deliver_refused:
  assumes "acceptClient_deliver now live server p i a rows r0 = (res, r')" "\<And>k. res \<noteq> Inr (Inr k)"
    "no_faults r0"
  shows "\<not> is_open r' i"
proof -
  define r1 where "r1 = snd (reconcileActiveServer now None r0)"
  have nf: "no_faults r1" unfolding r1_def by (rule no_faults_reconcile[OF assms(3)])
  have nf': "no_faults (snd (platform_call r1))" using nf by (simp add: no_faults_def)
  have "(\<exists>e. (res, r') = acceptClient_abort now rows (Some i) e r1)"
    using assms(1)[symmetric] assms(2) no_faults_call[OF nf] no_faults_write[OF nf']
    by (auto simp: acceptClient_deliver_def r1_def Let_def case_prod_unfold split: sum.splits if_splits bool.splits)
  then obtain e where "(res, r') = acceptClient_abort now rows (Some i) e r1" ..
  with abort_clean[OF nf] show ?thesis by (metis snd_conv)
qed

subsection \<open>Properties\<close>


definition example_proof :: admission_proof where
  "example_proof = \<lparr> ap_ticket = replicate 64 CHR ''1'', ap_expiresAt = 31, ap_clientNonce = None,
     ap_boundTicketHash = replicate 64 CHR ''2'', ap_tagCurrent = example_tag ''k1'',
     ap_tagPrevious = example_tag ''k2'', ap_receipt = None \<rparr>"

lemma example_proof_ok: "proof_ok now False example_proof"
  by (simp add: proof_ok_def example_proof_def is_hex_digit_def)

lemma example_fresh: "fresh_connection example_uuid (example_room plat)"
  by (auto simp: fresh_connection_def example_room_read example_server_def example_client_def
      example_uuid_def example_connection_id_def split: if_splits)





end
