(* ===== verification/RoomEvents.thy ===== *)
theory RoomEvents
  imports RoomClients
begin

text \<open>
  The events of a room that are not upgrades and relay nothing: rotation, the end of a
  socket, the alarm, the dispatch of a frame, construction. They only wind the room down.
\<close>

subsection \<open>Winding down\<close>

text \<open>
  \<open>winds_down r r'\<close> is \<open>tears\<close> without its claims about storage and the generation.
\<close>

definition winds_down :: "room \<Rightarrow> room \<Rightarrow> bool" where
  "winds_down r r' \<longleftrightarrow>
     sock_count r' = sock_count r \<and> frame_log r' = frame_log r \<and>
     (\<forall>i. so_role (sock r' i) = so_role (sock r i) \<and> so_listed (sock r' i) = so_listed (sock r i) \<and>
          (is_open r' i \<longrightarrow> is_open r i) \<and>
          (readAttachment r i = None \<longrightarrow> so_stored (sock r' i) = so_stored (sock r i)) \<and>
          att_torn (readAttachment r i) (readAttachment r' i))"

lemma winds_tears: "tears r r' \<Longrightarrow> winds_down r r'"
  by (simp add: tears_def winds_down_def)

lemma winds_refl [simp]: "winds_down r r"
  by (simp add: winds_tears)

lemma winds_frame: "sock s = sock r \<Longrightarrow> sock_count s = sock_count r \<Longrightarrow> frame_log s = frame_log r \<Longrightarrow>
   winds_down r0 s = winds_down r0 r"
  using read_frame[of s r] by (simp add: winds_down_def)

lemma winds_same: "same_sockets r s \<Longrightarrow> winds_down r0 s = winds_down r0 r"
  by (rule winds_frame) (simp_all add: same_sockets_def)

lemma winds_trans:
  assumes "winds_down r s" "winds_down s t" shows "winds_down r t"
proof -
  have "(readAttachment r j = None \<longrightarrow> so_stored (sock t j) = so_stored (sock r j)) \<and>
      att_torn (readAttachment r j) (readAttachment t j)" for j
    using assms unfolding winds_down_def by (metis att_torn.simps(1) att_torn_trans)
  with assms show ?thesis by (auto simp: winds_down_def)
qed

lemma winds_step: "winds_down r s \<Longrightarrow> tears s t \<Longrightarrow> winds_down r t"
  using winds_trans winds_tears by blast

lemma room_inv_winds:
  assumes "room_inv r" "winds_down r r'" shows "room_inv r'"
proof -
  define r'' where "r'' = r'\<lparr>currentGeneration := currentGeneration r,
    stored_generation := stored_generation r, stored_recovery := stored_recovery r,
    stored_alarm := stored_alarm r, initializationFailed := initializationFailed r,
    teardownRecoveryPersisted := teardownRecoveryPersisted r,
    teardownRecoveryRequired := teardownRecoveryRequired r, failure_log := failure_log r\<rparr>"
  have fields: "sock r'' = sock r'" "sock_count r'' = sock_count r'" "frame_log r'' = frame_log r'"
    "currentGeneration r'' = currentGeneration r" "storage_of r'' = storage_of r"
    by (simp_all add: r''_def storage_of_def)
  have "tears r r''"
    using assms(2) fields read_frame[of r'' r', OF fields(1)] by (simp add: tears_def winds_down_def)
  then have "room_inv r''" by (rule room_inv_tears[OF assms(1)])
  then show ?thesis using inv_frame[of r'' r'] fields by simp
qed

text \<open>Every step of the teardown, from a room already wound down.\<close>

lemmas winds_teardown =
  winds_step[OF _ tears_closeAllClients[OF tears_refl]]
  winds_step[OF _ tears_close[OF tears_refl]]
  winds_step[OF _ tears_failTagged[OF tears_refl]]
  winds_step[OF _ tears_reconcile[OF tears_refl]]
  winds_step[OF _ tears_retryPending[OF tears_refl]]
  winds_step[OF _ tears_expireClients[OF tears_refl]]
  winds_step[OF _ tears_pruneServerTickets[OF tears_refl]]
  winds_step[OF _ tears_sanitize(1)[OF tears_refl]]
  winds_step[OF _ tears_sanitize(2)[OF tears_refl]]
  winds_step[OF _ tears_failClient_read[OF tears_refl]]
  winds_step[OF _ tears_failServer_read[OF tears_refl]]

lemma winds_storage:
  "(\<And>r. same_sockets r (f r)) \<Longrightarrow> winds_down r0 r \<Longrightarrow> winds_down r0 (snd (storage_call f r))"
  using winds_same[OF same_storage[OF _ same_sockets_refl]] by blast

lemma winds_alarms [simp]:
  "winds_down r0 (snd (scheduleNextAlarm now rows r)) = winds_down r0 r"
  "winds_down r0 (snd (scheduleAdmissionAlarm now rows r)) = winds_down r0 r"
  "winds_down r0 (scheduleTeardownRetryAlarm now r) = winds_down r0 r"
  "winds_down r0 (persistTeardownRecoveryRequired now r) = winds_down r0 r"
  using winds_same same_scheduleNextAlarm same_scheduleAdmissionAlarm
    same_scheduleTeardownRetryAlarm same_persist by blast+

lemma winds_rethrow [simp]:
  "winds_down r0 (snd (rethrowTeardownFailure now x)) = winds_down r0 (snd x)"
  using winds_same[OF same_rethrow[OF same_sockets_refl]] by blast

subsection \<open>Rotation\<close>

lemma winds_for_each:
  assumes "\<And>i r. winds_down r0 r \<Longrightarrow> winds_down r0 (snd (f i r))" "winds_down r0 r"
  shows "winds_down r0 (snd (for_each f is r))"
  using assms by (induction "is" arbitrary: r) (simp_all add: Let_def case_prod_unfold)

lemma winds_rotate: "winds_down r0 r \<Longrightarrow> winds_down r0 (snd (rotateTokenGeneration now gen rows r))"
proof -
  assume w: "winds_down r0 r"
  define st where "st = storage_call (\<lambda>r. r\<lparr>stored_generation := gen\<rparr>) r"
  define r2 where "r2 = (snd st)\<lparr>currentGeneration := gen\<rparr>"
  have "winds_down r0 (snd st)" unfolding st_def by (rule winds_storage) (simp_all add: w)
  then have w2: "winds_down r0 r2" using winds_frame[of r2 "snd st"] by (simp add: r2_def)
  have "winds_down r0 (snd (rotateServerStep now gen i q))" "winds_down r0 (snd (rotateClientStep now gen i q))"
    if "winds_down r0 q" for i q
    using that by (auto simp: rotateServerStep_def rotateClientStep_def winds_teardown split: option.split)
  then have loops: "winds_down r0 (snd (for_each (rotateServerStep now gen) is q))"
    "winds_down r0 (snd (for_each (rotateClientStep now gen) is q))" if "winds_down r0 q" for "is" q
    using that by (auto intro!: winds_for_each)
  show ?thesis
    unfolding rotateTokenGeneration_def st_def[symmetric] Let_def case_prod_unfold r2_def[symmetric]
    using w \<open>winds_down r0 (snd st)\<close> loops[OF w2] loops(2)[OF loops(1)[OF w2]]
    by simp
qed

subsection \<open>The end of a socket\<close>

lemma winds_memory [simp]:
  "winds_down r0 (setPendingServer i x r) = winds_down r0 r"
  "winds_down r0 (rememberInactive c r) = winds_down r0 r"
  "winds_down r0 (forgetInactive c r) = winds_down r0 r"
  "winds_down r0 (r\<lparr>pendingClientOutcomes := f\<rparr>) = winds_down r0 r"
  "winds_down r0 (observeControlFailure i s r) = winds_down r0 r"
  by (rule winds_frame; simp add: setPendingServer_def rememberInactive_def forgetInactive_def
      observeControlFailure_def)+


lemma tears_retireFallbacks:
  "tears r0 r \<Longrightarrow> \<forall>x \<in> set xs. snapshot_of r0 x \<Longrightarrow> tears r0 (snd (retireFallbacks xs r))"
proof (induction xs arbitrary: r)
  case (Cons x xs)
  have "tears r0 (snd (retireServerImmediately x close_serverUnavailable r))"
    using Cons.prems by (intro tears_retire_snapshot) auto
  with Cons show ?case by (simp add: Let_def case_prod_unfold)
qed simp

lemma tears_controlGone: "tears r0 r \<Longrightarrow> tears r0 (snd (controlGone now i s r))"
proof -
  assume t: "tears r0 r"
  define remaining where "remaining = js_sort compareActiveServersNewestFirst (currentOpenServers (Some i) r)"
  have "\<forall>x \<in> set remaining. snapshot_of r x"
    by (simp add: remaining_def snapshot_of_current)
  then have f: "tears r (snd (retireFallbacks remaining r))" by (rule tears_retireFallbacks[OF tears_refl])
  show ?thesis
  proof (cases remaining)
    case Nil
    with t show ?thesis by (simp add: controlGone_def remaining_def[symmetric] tears_closeAllClients)
  next
    case (Cons newest others)
    with t f show ?thesis
      using tears_trans[OF t] by (auto simp: controlGone_def remaining_def[symmetric] Let_def case_prod_unfold
          tears_closeAllClients tears_reconcile split: sum.split)
  qed
qed

lemma winds_serverGone: "winds_down r0 r \<Longrightarrow> winds_down r0 (snd (serverGone now i s wasClean r))"
  using winds_step[OF _ tears_controlGone[OF tears_refl]]
  by (simp add: serverGone_def Let_def)

lemma winds_clientGone:
  assumes "winds_down r0 r" "readClientAttachment r i = Some a"
  shows "winds_down r0 (snd (clientGone now i a code reason r))"
proof -
  have rd: "readAttachment r i = Some (ClientA a)" and wf: "client_wf a"
    using assms(2) readClient_wf by (simp_all add: readClient_iff)
  have scrub: "winds_down r0 (snd (tryWriteAttachment i (ClientA (a1\<lparr>summaryEmitted := True\<rparr>)) r1))"
    if "(a1, r1) = transitionClientTerminal a out r" "stage a \<noteq> Terminal" for a1 r1 out
  proof (rule winds_step[OF assms(1)])
    have a1: "a1 = scrubClient a out" "r1 = markTicketTerminal a r"
      using that by (simp_all add: transitionClientTerminal_def)
    have "tears r r1" unfolding a1(2) by (rule tears_markTicketTerminal[OF tears_refl])
    moreover have "client_torn a (a1\<lparr>summaryEmitted := True\<rparr>)"
      using wf by (simp add: a1 client_torn_def client_wf_scrub client_wf_summary)
    ultimately show "tears r (snd (tryWriteAttachment i (ClientA (a1\<lparr>summaryEmitted := True\<rparr>)) r1))"
      using rd wf by (intro tears_write) (auto simp: a1 client_wf_scrub client_wf_summary)
  qed
  have emit: "winds_down r0 (snd (emitTerminalMetric now i a out r))" if "stage a = Terminal" for out
    by (rule winds_step[OF assms(1) tears_emit[OF tears_refl rd]]) (use that wf in \<open>simp_all add: client_torn_def\<close>)
  have fail: "winds_down r0 (snd (failClient now i a out cl r))" for out cl
    using assms by (simp add: winds_teardown)
  show ?thesis
    unfolding clientGone_def Let_def case_prod_unfold snd_conv winds_memory
    using fail emit scrub[OF prod.collapse] assms(1)
    by (simp split: option.split)
qed

lemma winds_socketGone:
  assumes "winds_down r0 r" shows "winds_down r0 (snd (handleSocketGone now i code reason wasClean rows r))"
proof (cases "readTaggedAttachment r i")
  case None
  with assms show ?thesis
    by (simp add: handleSocketGone_def Let_def case_prod_unfold winds_teardown)
next
  case (Some x)
  then have "readAttachment r i = Some x" by (simp add: readTagged_Some)
  with Some assms show ?thesis
    by (cases x) (simp_all add: handleSocketGone_def Let_def case_prod_unfold winds_serverGone
        winds_clientGone readClient_iff)
qed

lemma winds_webSocketClose:
  "winds_down r0 r \<Longrightarrow> winds_down r0 (snd (webSocketClose now i code reason wasClean rows r))"
  using winds_socketGone[of r0 r now i code reason wasClean rows] winds_rethrow
  by (auto simp: webSocketClose_def winds_teardown split: prod.split sum.split failure.split)

lemma winds_webSocketError: "winds_down r0 r \<Longrightarrow> winds_down r0 (snd (webSocketError now i rows r))"
proof -
  assume w: "winds_down r0 r"
  define r1 where "r1 = (case readTaggedAttachment r i of
      Some (ServerA s) \<Rightarrow> observeControlFailure i s r | _ \<Rightarrow> r)"
  have "winds_down r0 r1" using w by (simp add: r1_def split: option.split attachment.split)
  then have "winds_down r0 (snd (failTagged now i InternalError close_internalError r1))"
    by (simp add: winds_teardown)
  then show ?thesis
    using w by (auto simp: webSocketError_def r1_def[symmetric] Let_def case_prod_unfold winds_teardown
        split: sum.split)
qed


subsection \<open>Alarm and construction\<close>

lemma winds_alarm_recovery: "winds_down r0 r \<Longrightarrow> winds_down r0 (snd (alarm_recovery r))"
  by (auto simp: alarm_recovery_def Let_def case_prod_unfold storage_result_def
      intro!: winds_storage winds_teardown)

lemma winds_alarm_failed:
  "winds_down r0 r \<Longrightarrow> winds_down r0 (snd (snd (alarm_failed_instance now ai rows r)))"
  by (auto simp: alarm_failed_instance_def Let_def case_prod_unfold winds_teardown split: sum.split)

lemma winds_alarm_sweeps: "winds_down r0 r \<Longrightarrow> winds_down r0 (snd (alarm_sweeps now r))"
proof -
  assume w: "winds_down r0 r"
  define r2 where "r2 = snd (expireClients now (snd (retryPendingServerTeardowns now r)))"
  have "winds_down r0 r2" using w by (simp add: r2_def winds_teardown)
  then have "winds_down r0 (snd (pruneServerTickets now r2))" by (simp add: winds_teardown)
  then show ?thesis
    by (auto simp: alarm_sweeps_def Let_def case_prod_unfold r2_def split: sum.split failure.split prod.split)
qed

lemma winds_alarm_settle: "winds_down r0 r \<Longrightarrow> winds_down r0 (snd (alarm_settle now rows r))"
proof -
  assume w: "winds_down r0 r"
  have "winds_down r0 (snd (storage_call (\<lambda>r. r\<lparr>stored_recovery := False, teardownRecoveryPersisted := False\<rparr>) r))"
    by (rule winds_storage) (simp_all add: w)
  with w show ?thesis by (auto simp: alarm_settle_def Let_def case_prod_unfold)
qed

lemma winds_alarm: "winds_down r0 r \<Longrightarrow> winds_down r0 (snd (snd (alarm now ai rows r)))"
proof -
  assume w: "winds_down r0 r"
  define r1 where "r1 = snd (alarm_recovery r)"
  define r2 where "r2 = snd (alarm_sweeps now r1)"
  have "winds_down r0 r1" using winds_alarm_recovery[OF w] by (simp add: r1_def)
  moreover from winds_alarm_sweeps[OF this] have "winds_down r0 r2" by (simp add: r2_def)
  ultimately show ?thesis
    using winds_alarm_failed[of r0 r1] winds_alarm_settle[of r0 r2]
    by (simp add: alarm_def case_prod_unfold r1_def[symmetric] r2_def[symmetric] Let_def split: sum.split)
qed

lemma winds_construct: "winds_down r0 (snd (snd (construct now quick keys db r0)))"
proof -
  have fresh: "winds_down r0 (fresh_instance r0)"
    using winds_frame[of "fresh_instance r0" r0] by (simp add: fresh_instance_def)
  have recovery: "winds_down r0 (snd (construct_recovery now r))" if w: "winds_down r0 r" for r
  proof -
    define r1 where "r1 = snd (platform_call r)"
    define r3 where "r3 = snd (closeSocketsForTeardownRecovery
        (r1\<lparr>teardownRecoveryPersisted := True, teardownRecoveryRequired := True\<rparr>))"
    have w1: "winds_down r0 r1" using w winds_frame[of r1 r] by (simp add: r1_def)
    then have "winds_down r0 r3"
      unfolding r3_def using winds_frame[of "r1\<lparr>teardownRecoveryPersisted := True, teardownRecoveryRequired := True\<rparr>" r1]
      by (intro winds_teardown) simp
    moreover from this have "winds_down r0 (snd (storage_call (\<lambda>r. r\<lparr>stored_recovery := False,
        teardownRecoveryPersisted := False, teardownRecoveryRequired := False\<rparr>) r3))"
      by (intro winds_storage) simp_all
    ultimately show ?thesis
      using w1 by (simp add: construct_recovery_def Let_def case_prod_unfold r1_def[symmetric] r3_def[symmetric])
  qed
  have state: "winds_down r0 (snd (snd (construct_state quick keys db r)))" if "winds_down r0 r" for r
  proof -
    have "winds_down r0 (snd (platform_call r))"
      using that winds_frame[of "snd (platform_call r)" r] by simp
    then have "winds_down r0 ((snd (platform_call r))\<lparr>currentGeneration := g\<rparr>)" for g
      using winds_frame[of "(snd (platform_call r))\<lparr>currentGeneration := g\<rparr>" "snd (platform_call r)"] by simp
    with \<open>winds_down r0 (snd (platform_call r))\<close> show ?thesis
      by (simp add: construct_state_def Let_def case_prod_unfold split: prod.split sum.split)
  qed
  define rec where "rec = construct_recovery now (fresh_instance r0)"
  define st where "st = (if fst rec then construct_state quick keys db (snd rec)
      else ((False, False), db, snd rec))"
  have "winds_down r0 (snd (snd st))" using recovery[OF fresh] state by (simp add: rec_def st_def)
  moreover from this have "winds_down r0 (snd (closeSocketsForInitializationFailure
      ((snd (snd st))\<lparr>initializationFailed := True\<rparr>)))"
    using winds_frame[of "(snd (snd st))\<lparr>initializationFailed := True\<rparr>" "snd (snd st)"]
    by (intro winds_teardown) simp
  ultimately show ?thesis
    by (simp add: construct_def Let_def case_prod_unfold rec_def[symmetric] st_def[symmetric]
        split: option.split sum.split)
qed

subsection \<open>Dispatch\<close>

lemma winds_dispatch: "winds_down r0 r \<Longrightarrow> winds_down r0 (snd (processMessage_dispatch now i acc r))"
proof (cases "readTaggedAttachment r i")
  case None
  then show "winds_down r0 r \<Longrightarrow> ?thesis"
    by (simp add: processMessage_dispatch_def settled_def winds_teardown)
next
  case (Some x)
  then have "readAttachment r i = Some x" by (simp add: readTagged_Some)
  with Some show "winds_down r0 r \<Longrightarrow> ?thesis"
    by (cases x) (simp_all add: processMessage_dispatch_def settled_def failProtocolViolation_def
        winds_teardown readClient_iff readServer_iff)
qed

lemma winds_recheck: "winds_down r0 r \<Longrightarrow> winds_down r0 (snd (processMessage_recheck now i a live r))"
  by (simp add: processMessage_recheck_def settled_def winds_teardown split: option.split)

lemma winds_catch:
  assumes "winds_down r0 (snd x)" shows "winds_down r0 (snd (processMessage_catch now i x))"
proof -
  obtain res r where x: "x = (res, r)" by fastforce
  have "winds_down r0 (snd (case readTaggedAttachment r i of
      Some (ServerA s) \<Rightarrow> failServer now i s InternalError close_internalError r
    | Some (ClientA a) \<Rightarrow> failClient now i a InternalError close_internalError r
    | None \<Rightarrow> (True, snd (closeSocket i close_internalError r))))"
    using assms readTagged_Some[of r i]
    by (auto simp: x winds_teardown readClient_iff readServer_iff split: option.split attachment.split)
  with assms show ?thesis
    by (simp add: processMessage_catch_def x Let_def split: sum.split failure.split)
qed

lemma winds_webSocketMessage:
  "winds_down r0 r \<Longrightarrow> winds_down r0 (snd (snd (webSocketMessage now i ok (q, r))))"
  by (simp add: webSocketMessage_def Let_def case_prod_unfold failProtocolViolation_def winds_teardown)

lemma winds_probe: "winds_down r0 r \<Longrightarrow> winds_down r0 (snd (access_probe now gen r))"
proof -
  assume "winds_down r0 r"
  moreover from this have "winds_down r0 (snd (reconcileActiveServer now None r))" by (simp add: winds_teardown)
  ultimately show ?thesis by (simp add: access_probe_def case_prod_unfold split: sum.split)
qed

lemma winds_revoke:
  assumes "winds_down r0 r" "readClientAttachment r i = Some b" "client_same b a" "client_wf a"
  shows "winds_down r0 (snd (revoke_step now i a live r))"
  using assms winds_step[OF assms(1) tears_failClient[OF tears_refl, of r i b a]]
  by (simp add: revoke_step_def readClient_iff terminal_form_wf)


subsection \<open>Every reachable room\<close>

lemma acceptServer_inv:
  assumes "room_inv r0" "is_connection_id uuid" "is_hex64 gen" "is_safe_integer now" "0 \<le> now"
    "fresh_control uuid r0"
  shows "room_inv (snd (acceptServer now ap gen uuid rows r0))"
proof -
  obtain res r' where run: "acceptServer now ap gen uuid rows r0 = (res, r')" by fastforce
  from run have "room_inv r'"
  proof (cases rule: acceptServer_steps)
    case refused
    with inv_frame[of r' r0] assms(1) show ?thesis by simp
  next
    case (replaced r2)
    have "room_inv r2" using inv_frame[OF replaced(1,2)] assms(1) by simp
    moreover have "\<And>j u. readAttachment r2 j = Some (ServerA u) \<Longrightarrow> sv_controlId u \<noteq> uuid"
      using assms(6) read_frame(1)[OF replaced(1)] by (simp add: fresh_control_def)
    ultimately show ?thesis
      using replaceServer_outcome[OF _ new_server_wf[OF assms(2-5)] _ replaced(3,4)] by blast
  qed
  with run show ?thesis by simp
qed

text \<open>
  One event of a room: a segment of a handler with whatever the outside answered. Side
  conditions are what the callers establish before the segment (validated upgrades, parsed
  frames, fresh identities); the clock, the ledger and the pattern of faults are arbitrary.
\<close>

definition resumeServerMessage ::
  "int \<Rightarrow> nat \<Rightarrow> server_attachment \<Rightarrow> string \<Rightarrow> nat \<Rightarrow> client_attachment \<Rightarrow> bool \<Rightarrow> parsed_signal \<Rightarrow>
   room \<Rightarrow> unit result \<times> room" where
  "resumeServerMessage now i s digest k a live p r =
     (case recheckTarget now i s digest k a live r of
        (Handled x, r1) \<Rightarrow> (x, r1)
      | (RelayTo s1 t k1 a1, r1) \<Rightarrow> relayServerFrame now i s1 t k1 a1 p r1
      | (CheckAccess _ _ _ _, r1) \<Rightarrow> (Inr (), r1))"

text \<open>
  Every upgrade starts with the two sweeps of \<open>fetch\<close>; its catch block persists an integrity
  failure before it answers, and turns every other fault into an answer.
\<close>

definition upgrade_sweeps :: "int \<Rightarrow> room \<Rightarrow> unit result \<times> room" where
  "upgrade_sweeps now r =
     (case expireClients now r of
        (False, r1) \<Rightarrow> (Inl TeardownIntegrity, r1)
      | (True, r1) \<Rightarrow> pruneServerTickets now r1)"

definition fetch_catch :: "int \<Rightarrow> (room_error + 'a) result \<times> room \<Rightarrow> (room_error + 'a) result \<times> room" where
  "fetch_catch now x =
     (case x of
        (Inl PlatformFault, r) \<Rightarrow> (Inr (Inl RoomUnavailable), r)
      | _ \<Rightarrow> rethrowTeardownFailure now x)"

definition upgrade_server ::
  "int \<Rightarrow> bool \<Rightarrow> string \<Rightarrow> string \<Rightarrow> ledger \<Rightarrow> room \<Rightarrow> (room_error + nat) result \<times> room" where
  "upgrade_server now accessProtocol gen uuid rows r =
     fetch_catch now
       (case upgrade_sweeps now r of
          (Inl e, r1) \<Rightarrow> (Inl e, r1)
        | (Inr _, r1) \<Rightarrow>
            let x = acceptServer now accessProtocol gen uuid rows r1 in (Inr (fst x), snd x))"

text \<open>A client's upgrade up to the awaits of \<open>acceptClient\<close>.\<close>

definition upgrade_client ::
  "int \<Rightarrow> nat \<Rightarrow> bool \<Rightarrow> string \<Rightarrow> int \<Rightarrow> room \<Rightarrow> (room_error + active_server) result \<times> room" where
  "upgrade_client now limit authorizationRequired gen proofExpiresAt r =
     fetch_catch now
       (case upgrade_sweeps now r of
          (Inl e, r1) \<Rightarrow> (Inl e, r1)
        | (Inr _, r1) \<Rightarrow> acceptClient_precheck now limit authorizationRequired gen proofExpiresAt r1)"

text \<open>
  What the runtime does on its own: a connection that its peer closes or loses is no longer
  open, before any event is delivered, and \<open>getWebSockets\<close> forgets a closed socket.
\<close>

definition peer_closes :: "nat \<Rightarrow> room \<Rightarrow> room" where
  "peer_closes i r = r\<lparr>sock := (sock r)(i := (sock r i)\<lparr>so_open := False\<rparr>)\<rparr>"

definition runtime_forgets :: "nat \<Rightarrow> room \<Rightarrow> room" where
  "runtime_forgets i r =
     (if is_open r i then r else r\<lparr>sock := (sock r)(i := (sock r i)\<lparr>so_listed := False\<rparr>)\<rparr>)"

inductive room_step :: "room \<Rightarrow> room \<Rightarrow> bool" where
  step_peer: "room_step r (peer_closes i r)"
| step_forget: "room_step r (runtime_forgets i r)"
| step_construct: "room_step r (snd (snd (construct now quick keys db r)))"
| step_server: "is_connection_id uuid \<Longrightarrow> is_hex64 gen \<Longrightarrow> is_safe_integer now \<Longrightarrow> 0 \<le> now \<Longrightarrow>
    fresh_control uuid r \<Longrightarrow> room_step r (snd (upgrade_server now ap gen uuid rows r))"
| step_client: "room_step r (snd (upgrade_client now limit authorizationRequired gen proofExpiresAt r))"
| step_admit: "ledger_ok rows \<Longrightarrow> is_hex64 gen \<Longrightarrow> is_connection_id (sv_controlId s) \<Longrightarrow>
    is_connection_id uuid \<Longrightarrow> fresh_connection uuid r \<Longrightarrow> proof_ok now authorizationRequired p \<Longrightarrow>
    1 \<le> secs \<Longrightarrow> secs \<le> 15 \<Longrightarrow> 0 \<le> now \<Longrightarrow>
    now + MAX_SESSION_MS \<le> max_safe_integer - TERMINAL_CLOSE_RETRY_HORIZON_MS \<Longrightarrow>
    acceptClient_admit now limit secs authorizationRequired gen (j, s) p uuid (rows, r) = (answer, rows', r') \<Longrightarrow>
    room_step r (snd (fetch_catch now (answer, r')))"
| step_deliver: "client_wf a \<Longrightarrow> undelivered i a r \<Longrightarrow>
    room_step r (snd (fetch_catch now (acceptClient_deliver now live server p i a rows r)))"
| step_rotate: "room_step r (snd (reconcilePublishedGeneration now published rows r))"
| step_probe: "room_step r (snd (access_probe now gen r))"
| step_revoke: "readClientAttachment r i = Some b \<Longrightarrow> connectionId a = connectionId b \<Longrightarrow> client_wf a \<Longrightarrow>
    room_step r (snd (revoke_step now i a live r))"
| step_frame: "room_step r (snd (snd (webSocketMessage now i parsedOk (q, r))))"
| step_dispatch: "room_step r (snd (processMessage_catch now i (processMessage_dispatch now i acc r)))"
| step_recheck: "room_step r (snd (processMessage_catch now i (processMessage_recheck now i a live r)))"
| step_access: "1 \<le> secs \<Longrightarrow> secs * 1000 \<le> MAX_SESSION_MS \<Longrightarrow>
    (\<And>c. readClientAttachment r i = Some c \<Longrightarrow> openedAt c \<le> max_date) \<Longrightarrow>
    room_step r (snd (processMessage_catch now i (acceptAccessInit now i a grant nonce live secs r)))"
| step_candidate: "frame_ok p \<Longrightarrow> is_hex64 digest \<Longrightarrow> is_client_candidate (ps_signal p) \<Longrightarrow>
    room_step r (snd (processMessage_catch now i (beginClientTicket now i a digest bound live p r)))"
| step_answer: "frame_ok p \<Longrightarrow>
    handleServerMessage now i s digest p r = ((located, res), r1) \<Longrightarrow>
    room_step r (snd (processMessage_catch now i (res, r1)))"
| step_client_frame: "readClientAttachment r i = Some a \<Longrightarrow>
    room_step r (snd (processMessage_catch now i (handleClientMessage now i a p r)))"
| step_server_frame: "readServerAttachment r i = Some s \<Longrightarrow>
    room_step r (snd (processMessage_catch now i (handleServerMessage_first now i s p r)))"
| step_resume: "frame_ok p \<Longrightarrow>
    (\<And>c. readClientAttachment r k = Some c \<Longrightarrow> connectionId c = connectionId a \<Longrightarrow>
       controlId c = sv_controlId s) \<Longrightarrow>
    room_step r (snd (processMessage_catch now i (resumeServerMessage now i s digest k a live p r)))"
| step_closed: "room_step r (snd (webSocketClose now i code reason wasClean rows r))"
| step_error: "room_step r (snd (webSocketError now i rows r))"
| step_alarm: "room_step r (snd (snd (alarm now ai rows r)))"

lemma inv_catch: "room_inv (snd x) \<Longrightarrow> room_inv (snd (processMessage_catch now i x))"
  by (erule room_inv_winds[OF _ winds_catch]) (rule winds_refl)

text \<open>
  A revocation fails a client from the attachment it read before its access check; the
  stored one may since have gone on or have been confirmed until another time.
\<close>

lemma inv_failClient_stale:
  assumes inv: "room_inv r" and rd: "readAttachment r i = Some (ClientA b)"
    and conn: "connectionId a = connectionId b" and wf: "\<And>x. client_wf (terminal_form a x)"
  shows "room_inv (snd (failClient now i a out cl r))"
proof -
  define canonical where "canonical = (case terminalOutcome a of Some x \<Rightarrow> x
    | None \<Rightarrow> (case pendingClientOutcomes r i of Some x \<Rightarrow> x | None \<Rightarrow> out))"
  define r1 where "r1 = r\<lparr>pendingClientOutcomes := (pendingClientOutcomes r)(i := Some canonical)\<rparr>"
  define a' where "a' = fst (transitionClientTerminal a canonical r1)"
  define r2 where "r2 = snd (transitionClientTerminal a canonical r1)"
  have inv1: "room_inv r1" using inv inv_frame[of r1 r] by (simp add: r1_def)
  have rd1: "readAttachment r1 i = Some (ClientA b)" using rd read_frame(1)[of r1 r] by (simp add: r1_def)
  have t2: "tears r1 r2"
    by (simp add: r2_def transitionClientTerminal_def tears_markTicketTerminal)
  have a': "client_wf a'" "stage a' = Terminal" "connectionId a' = connectionId b"
    using wf[of canonical] conn
    by (auto simp: a'_def transitionClientTerminal_def terminal_form_def scrubClient_def split: if_splits)
  obtain b2 where rd2: "readAttachment r2 i = Some (ClientA b2)" "connectionId b2 = connectionId b"
    using tears_att[OF t2, of i] rd1 by (auto simp: client_torn_def)
  have stores: "room_inv (snd (tryWriteAttachment i (ClientA c) s)) \<and>
      (\<exists>d. readAttachment (snd (tryWriteAttachment i (ClientA c) s)) i = Some (ClientA d) \<and>
           connectionId d = connectionId b)"
    if "room_inv s" "readAttachment s i = Some (ClientA e)" "connectionId e = connectionId b"
      "client_wf c" "stage c = Terminal" "connectionId c = connectionId b" for c s e
    using inv_writeClient[OF that(1,2,4)] that by (auto simp: linked_def tryWrite_read)
  define w where "w = (if stage a = Terminal \<and> pendingClientOutcomes r i = None then (True, r2)
    else tryWriteAttachment i (ClientA a') r2)"
  have w: "room_inv (snd w)" "\<exists>d. readAttachment (snd w) i = Some (ClientA d) \<and> connectionId d = connectionId b"
    using stores[OF room_inv_tears[OF inv1 t2] rd2 a'] room_inv_tears[OF inv1 t2] rd2 by (auto simp: w_def)
  define e where "e = (case terminalOutcome a' of None \<Rightarrow> (False, snd w)
    | Some x \<Rightarrow> emitTerminalMetric now i a' x (snd w))"
  have "room_inv (snd (emitTerminalMetric now i a' x (snd w)))" for x
  proof -
    let ?t = "tryWriteAttachment i (ClientA (a'\<lparr>summaryEmitted := True\<rparr>)) (snd w)"
    obtain d where "readAttachment (snd w) i = Some (ClientA d)" "connectionId d = connectionId b"
      using w(2) by blast
    from stores[OF w(1) this] a' have t: "room_inv (snd ?t)" by (simp add: client_wf_summary)
    have "room_inv (snd ?t\<lparr>finalizedConnections := f, metric_log := m\<rparr>)" for f m
      using t inv_frame[of "snd ?t\<lparr>finalizedConnections := f, metric_log := m\<rparr>" "snd ?t"] by simp
    with t w(1) show ?thesis by (simp add: emitTerminalMetric_def Let_def case_prod_unfold)
  qed
  then have inv_e: "room_inv (snd e)" using w(1) by (simp add: e_def split: option.split)
  have "room_inv (snd e\<lparr>pendingClientOutcomes := f\<rparr>)" for f
    using inv_e inv_frame[of "snd e\<lparr>pendingClientOutcomes := f\<rparr>" "snd e"] by simp
  with inv_e show ?thesis
    unfolding failClient_def Let_def case_prod_unfold
    unfolding canonical_def[symmetric] r1_def[symmetric] a'_def[symmetric] r2_def[symmetric]
    unfolding w_def[symmetric] e_def[symmetric]
    by (simp add: inv_close)
qed

lemma inv_revoke:
  assumes "room_inv r" "readClientAttachment r i = Some b" "connectionId a = connectionId b" "client_wf a"
  shows "room_inv (snd (revoke_step now i a live r))"
  using assms inv_failClient_stale[OF assms(1) _ assms(3)]
  by (simp add: revoke_step_def readClient_iff terminal_form_wf)

lemma winds_fetch_catch: "winds_down r0 (snd x) \<Longrightarrow> winds_down r0 (snd (fetch_catch now x))"
  by (cases x) (simp add: fetch_catch_def split: sum.split failure.split)

lemma inv_fetch_catch: "room_inv (snd x) \<Longrightarrow> room_inv (snd (fetch_catch now x))"
  by (erule room_inv_winds[OF _ winds_fetch_catch]) (rule winds_refl)

lemma tears_sweeps: "tears r (snd (upgrade_sweeps now r))"
  using tears_expireClients[OF tears_refl, of r now]
  by (auto simp: upgrade_sweeps_def intro: tears_pruneServerTickets split: prod.split bool.split)

lemma winds_upgrade_client:
  "winds_down r (snd (upgrade_client now limit authorizationRequired gen proofExpiresAt r))"
proof -
  have pre: "winds_down r (snd (acceptClient_precheck now limit authorizationRequired gen e r1))"
    if "winds_down r r1" for e r1
  proof -
    have "winds_down r (snd (reconcileActiveServer now None r1))" using that by (simp add: winds_teardown)
    with that show ?thesis
      by (auto simp: acceptClient_precheck_def split: prod.split sum.split option.split)
  qed
  have "winds_down r (snd (upgrade_sweeps now r))" by (rule winds_tears[OF tears_sweeps])
  then show ?thesis
    unfolding upgrade_client_def
    by (intro winds_fetch_catch) (auto intro: pre split: prod.split sum.split)
qed

lemma inv_upgrade_server:
  assumes "room_inv r" "is_connection_id uuid" "is_hex64 gen" "is_safe_integer now" "0 \<le> now"
    "fresh_control uuid r"
  shows "room_inv (snd (upgrade_server now ap gen uuid rows r))"
proof -
  obtain res r1 where sw: "upgrade_sweeps now r = (res, r1)" by fastforce
  have torn: "tears r r1" using tears_sweeps[of r now] sw by simp
  have "fresh_control uuid r1"
    using assms(6) tears_server_back[OF torn] by (fastforce simp: fresh_control_def server_torn_def)
  with room_inv_tears[OF assms(1) torn] assms(2-5) show ?thesis
    unfolding upgrade_server_def
    by (intro inv_fetch_catch) (auto simp: sw Let_def intro: acceptServer_inv split: sum.split)
qed

lemma inv_runtime: "room_inv r \<Longrightarrow> room_inv (peer_closes i r)" "room_inv r \<Longrightarrow> room_inv (runtime_forgets i r)"
proof -
  have rd: "readAttachment (peer_closes i r) j = readAttachment r j"
    "readAttachment (runtime_forgets i r) j = readAttachment r j"
    "readTaggedAttachment (peer_closes i r) j = readTaggedAttachment r j"
    "readTaggedAttachment (runtime_forgets i r) j = readTaggedAttachment r j"
    "so_stored (sock (peer_closes i r) j) = so_stored (sock r j)"
    "so_stored (sock (runtime_forgets i r) j) = so_stored (sock r j)"
    "sock_count (peer_closes i r) = sock_count r" "sock_count (runtime_forgets i r) = sock_count r" for j
    by (simp_all add: readTaggedAttachment_def readAttachment_def peer_closes_def runtime_forgets_def
        cong: option.case_cong)
  show "room_inv r \<Longrightarrow> room_inv (peer_closes i r)" "room_inv r \<Longrightarrow> room_inv (runtime_forgets i r)"
    by (simp_all add: room_inv_def readable_def all_linked_def distinct_connections_def
        distinct_controls_def rd)
qed

lemma winds_client_frame: "winds_down r0 r \<Longrightarrow> readClientAttachment r i = Some a \<Longrightarrow>
   winds_down r0 (snd (handleClientMessage now i a p r))"
  by (simp add: handleClientMessage_def Let_def winds_teardown)

lemma winds_server_frame: "winds_down r0 r \<Longrightarrow> readServerAttachment r i = Some s \<Longrightarrow>
   winds_down r0 (snd (handleServerMessage_first now i s p r))"
  by (simp add: handleServerMessage_first_def Let_def winds_teardown)

lemma inv_resume:
  assumes "room_inv r" "frame_ok p"
    "\<And>c. readClientAttachment r k = Some c \<Longrightarrow> connectionId c = connectionId a \<Longrightarrow> controlId c = sv_controlId s"
  shows "room_inv (snd (resumeServerMessage now i s digest k a live p r))"
proof -
  obtain x r1 where rc: "recheckTarget now i s digest k a live r = (x, r1)" by fastforce
  have "room_inv r1" by (rule inv_recheckTarget(1)[OF assms(1) _ rc]) (rule assms(3))
  moreover have "room_inv (snd (relayServerFrame now i s1 t k1 a1 p r1))" if "x = RelayTo s1 t k1 a1" for s1 t k1 a1
    by (rule inv_recheckTarget(2)[OF assms(1) _ rc assms(2) that]) (rule assms(3))
  ultimately show ?thesis by (cases x) (auto simp: resumeServerMessage_def rc)
qed

lemma room_step_inv: "room_step r r' \<Longrightarrow> room_inv r \<Longrightarrow> room_inv r'"
proof (induction rule: room_step.induct)
  case (step_server uuid gen now r ap rows)
  then show ?case using inv_upgrade_server by blast
next
  case (step_client r now limit authorizationRequired gen proofExpiresAt)
  then show ?case using room_inv_winds winds_upgrade_client by blast
next
  case (step_admit rows gen s uuid r now authorizationRequired p secs limit j answer rows' r')
  then show ?case
    using admit_outcome(1)[OF step_admit.prems step_admit.hyps(1-5) step_admit.hyps(6-10)]
    by (intro inv_fetch_catch) simp
next
  case (step_deliver a i r now live server p rows)
  then have "room_inv (snd (acceptClient_deliver now live server p i a rows r))"
    using deliver_outcome(1) by (metis prod.collapse)
  then show ?case by (rule inv_fetch_catch)
next
  case (step_rotate r now published rows)
  have "snd (reconcilePublishedGeneration now published rows r) = snd (rotateTokenGeneration now published rows r)"
    by (simp add: reconcilePublishedGeneration_def split: prod.split sum.split)
  then show ?case using room_inv_winds[OF step_rotate winds_rotate[OF winds_refl]] by simp
next
  case (step_access secs r i now a grant nonce live)
  then show ?case by (intro inv_catch inv_acceptAccessInit) auto
next
  case (step_candidate p digest r now i a bound live)
  then show ?case by (intro inv_catch inv_beginClientTicket)
next
  case (step_answer p now i s digest r located res r1)
  then have "room_inv (snd (handleServerMessage now i s digest p r))" by (intro inv_handleServerMessage)
  with step_answer show ?case by (intro inv_catch) simp
next
  case (step_resume p r k a s now i digest live)
  then show ?case by (intro inv_catch inv_resume) auto
qed (auto intro: inv_runtime inv_revoke room_inv_winds winds_client_frame winds_server_frame winds_construct winds_probe winds_webSocketMessage
    winds_catch winds_dispatch winds_recheck winds_webSocketClose winds_webSocketError winds_alarm winds_refl)

subsection \<open>Properties\<close>



lemma revoke_closes:
  assumes "no_faults r" "accessRedemption a \<noteq> None" "\<not> live"
  shows "\<not> is_open (snd (revoke_step now i a live r)) i"
proof -
  have "no_faults s \<Longrightarrow> \<not> is_open (snd (closeSocket i c s)) i" for c s
    using no_faults_close closeSocket_closed[of i c s] by auto
  moreover have "no_faults s" if "platform s = platform r" for s
    using assms(1) that by (simp add: no_faults_def)
  ultimately have "\<not> is_open (snd (failClient now i a AuthorizationFailed close_authorizationFailed r)) i"
    by (simp add: failClient_def Let_def case_prod_unfold transitionClientTerminal_def
        split: option.split)
  with assms show ?thesis by (simp add: revoke_step_def)
qed

text \<open>
  C19: Rotation, the alarm, a room's construction, the sweeps of an upgrade, the access
  notifications and the end of a socket only take away, whatever fails: no socket opens or
  changes its role, nothing is relayed, a client is as it was or terminal under its old
  identity, a control is not made current and gains no ticket. So does each turn of a
  revocation's loop, whose client was read before its access check and has kept its
  identity and expiry since; a live client is left as it is and, when no call fails, one
  that is no longer live is closed.
\<close>

theorem maintenance_only_winds_down:
  "winds_down r (snd (rotateTokenGeneration now gen rows r)) \<and>
   winds_down r (snd (snd (alarm now ai rows r))) \<and>
   winds_down r (snd (snd (construct now quick keys db r))) \<and>
   winds_down r (snd (upgrade_sweeps now r)) \<and>
   winds_down r (snd (webSocketClose now i code reason wasClean rows r)) \<and>
   winds_down r (snd (webSocketError now i rows r)) \<and>
   winds_down r (snd (processMessage_catch now i (processMessage_dispatch now i acc r))) \<and>
   winds_down r (snd (access_probe now probed r)) \<and>
   (\<forall>a b. readClientAttachment r i = Some b \<and> client_same b a \<and> client_wf a \<longrightarrow>
      winds_down r (snd (revoke_step now i a live r))) \<and>
   (\<forall>a. (live \<longrightarrow> revoke_step now i a live r = (Inr (), r)) \<and>
      (\<not> live \<and> accessRedemption a \<noteq> None \<and> no_faults r \<longrightarrow>
         \<not> is_open (snd (revoke_step now i a live r)) i))"
  using winds_revoke[OF winds_refl, of r i] revoke_closes[of r]
  by (intro conjI allI impI winds_rotate winds_alarm winds_construct winds_webSocketClose
      winds_webSocketError winds_catch winds_dispatch winds_probe winds_tears[OF tears_sweeps] winds_refl)
    (auto simp: revoke_step_def)

text \<open>A client that was redeemed when it was read loses its access; no call fails.\<close>

theorem maintenance_only_winds_down_witness:
  "let a = example_client\<lparr> accessClientNonce := Some (replicate 64 CHR ''4''), accessExpiresAt := Some 16000,
         accessGrant := Some (replicate 64 CHR ''2''), accessRedemption := Some (replicate 64 CHR ''5'') \<rparr>;
       r = example_room (\<lambda>_. True)
   in winds_down r (snd (revoke_step 2000 1 a False r)) \<and> \<not> is_open (snd (revoke_step 2000 1 a False r)) 1"
proof -
  let ?a = "example_client\<lparr> accessClientNonce := Some (replicate 64 CHR ''4''), accessExpiresAt := Some 16000,
         accessGrant := Some (replicate 64 CHR ''2''), accessRedemption := Some (replicate 64 CHR ''5'') \<rparr>"
  have "client_wf ?a" by (simp add: client_wf_def example_client_def access_wf_def stage_wf_def
      is_hex_digit_def attachment_bounds max_safe_integer_def is_safe_integer_def)
  moreover have "client_same example_client ?a" by (simp add: client_same_def example_client_def)
  ultimately show ?thesis
    using maintenance_only_winds_down[where r = "example_room (\<lambda>_. True)" and i = 1 and now = 2000
        and live = False]
    by (auto simp: Let_def example_room_client no_faults_def)
qed

end
