(* ===== verification/RoomRelay.thy ===== *)
theory RoomRelay
  imports RoomEvents
begin

text \<open>
  When a frame is relayed: the conditions of the source under which a client's candidate
  reaches a control and a control's frame reaches a client, in the segment that located
  the client or in the one after its access check; and a run of events in which a
  connection is counted twice.
\<close>

subsection \<open>What the handlers add to the frames sent\<close>

lemma tears_frame_log: "tears r r' \<Longrightarrow> frame_log r' = frame_log r"
  by (simp add: tears_def)

lemma frame_log_close [simp]: "frame_log (snd (closeSocket i c r)) = frame_log r"
  by (rule tears_frame_log[OF tears_close[OF tears_refl]])

lemma sendFrame_log:
  "sendFrame i f r = (b, r') \<Longrightarrow> frame_log r' = frame_log r @ (if b then [(i, f)] else [])"
  by (auto simp: sendFrame_def platform_call_def split: if_splits)

lemma frame_log_mark [simp]: "frame_log (markTicketTerminal c r) = frame_log r"
  by (rule tears_frame_log[OF tears_markTicketTerminal[OF tears_refl]])

lemma frame_log_failClient [simp]: "frame_log (snd (failClient now i a out cl r)) = frame_log r"
  by (simp add: failClient_def Let_def case_prod_unfold transitionClientTerminal_def
      emitTerminalMetric_def split: option.split)

lemma frame_log_failServer [simp]: "frame_log (snd (failServer now i s out cl r)) = frame_log r"
proof -
  have all: "frame_log (snd (closeAllClients now out' cl' r')) = frame_log r'" for out' cl' r'
    by (rule tears_frame_log[OF tears_closeAllClients[OF tears_refl]])
  show ?thesis
    by (simp add: failServer_def Let_def case_prod_unfold all setPendingServer_def rememberInactive_def)
qed

lemma relayClient_log:
  "frame_log (snd (relayClientCandidate now i c srv d p r)) = frame_log r \<or>
   frame_log (snd (relayClientCandidate now i c srv d p r)) = frame_log r @ [(fst srv, ps_serialized p)]"
proof -
  have w: "writeAttachment j x q = (y, q') \<Longrightarrow> frame_log q' = frame_log q" for j x q y q'
    using writeAttachment_snd[of j x q] by (metis snd_conv write_fields(5))
  have t: "tryWriteAttachment j x q = (y, q') \<Longrightarrow> frame_log q' = frame_log q" for j x q y q'
    by (metis snd_conv write_fields(5))
  show ?thesis
    by (auto simp: relayClientCandidate_def Let_def dest!: w t sendFrame_log
        split: prod.split sum.split bool.split)
qed

text \<open>Without faults the writes and the send succeed.\<close>

lemma relayClient_sends:
  "no_faults r \<Longrightarrow> frame_log (snd (relayClientCandidate now i c srv d p r)) =
     frame_log r @ [(fst srv, ps_serialized p)]"
  by (simp add: relayClientCandidate_def Let_def writeAttachment_def tryWriteAttachment_def
      platform_call_def sendFrame_def no_faults_def)

subsection \<open>A client's candidate\<close>

text \<open>
  Every condition of \<open>beginClientTicket\<close>, in its order. \<open>a\<close> is the attachment the message
  began with, \<open>r\<close> the room the awaits left and \<open>r1\<close> the one after the reconciliation.
\<close>

definition candidate_admitted ::
  "int \<Rightarrow> nat \<Rightarrow> client_attachment \<Rightarrow> string \<Rightarrow> string \<Rightarrow> bool \<Rightarrow> parsed_signal \<Rightarrow> room \<Rightarrow> room \<Rightarrow> nat \<Rightarrow> bool" where
  "candidate_admitted now i a digest bound live p r r1 j \<longleftrightarrow>
     (\<exists>c s. readClientAttachment r i = Some c \<and> boundTicketHash c = Some bound \<and> live \<and>
        (accessRedemption a \<noteq> None \<longrightarrow>
           accessRedemption c = accessRedemption a \<and>
           accessGrant c = Some (signal_ticket (ps_signal p))) \<and>
        is_open r1 i \<and> connectionId c = connectionId a \<and>
        stage c = AwaitingCandidate \<and> authorization c = NotRequired \<and> now < expiresAt c \<and>
        reconcileActiveServer now None r = (Inr (Some (j, s)), r1) \<and>
        sv_current s \<and> sv_controlId s = controlId c \<and> sv_generation s = generation c \<and>
        currentGeneration r = Some (generation c) \<and>
        (\<forall>t \<in> set (sv_tickets s). now < tk_expiresAt t \<longrightarrow> tk_digest t \<noteq> digest) \<and>
        length (filter (\<lambda>t. now < tk_expiresAt t) (sv_tickets s)) < MAX_RETAINED_TICKETS)"

lemma pruned_tickets:
  "sv_tickets (snd (pruneTicketList s now)) = filter (\<lambda>t. now < tk_expiresAt t) (sv_tickets s)"
  by (auto simp: pruneTicketList_def Let_def filter_length_eq_iff intro: filter_cong)

text \<open>Past the fences on the client itself, what is left of \<open>beginClientTicket\<close>.\<close>

lemma beginClient_tail:
  assumes "is_client_candidate (ps_signal p)" "readClientAttachment r i = Some c"
    "reconcileActiveServer now None r = (Inr (Some (j, s)), r1)"
    "boundTicketHash c = Some bound" "live"
    "accessRedemption a \<noteq> None \<Longrightarrow> accessRedemption c = accessRedemption a"
    "accessRedemption a \<noteq> None \<Longrightarrow> accessGrant c = Some (signal_ticket (ps_signal p))"
    "is_open r1 i" "connectionId c = connectionId a" "stage c = AwaitingCandidate"
    "authorization c = NotRequired" "now < expiresAt c"
  shows "beginClientTicket now i a digest bound live p r =
      (if sv_controlId s \<noteq> controlId c \<or> sv_generation s \<noteq> generation c \<or>
          Some (generation c) \<noteq> currentGeneration r1
       then torn_result (failClient now i c ServerUnavailable close_serverUnavailable r1)
       else if digest \<in> set (map tk_digest (sv_tickets (snd (pruneTicketList s now)))) \<or>
               length (sv_tickets (snd (pruneTicketList s now))) \<ge> MAX_RETAINED_TICKETS
       then torn_result (failClient now i c ProtocolError close_protocolError r1)
       else relayClientCandidate now i c (j, snd (pruneTicketList s now)) digest p r1)"
proof -
  have gates: "(boundTicketHash c \<noteq> Some bound \<or> \<not> live \<or> accessRedemption a \<noteq> None \<and>
      (accessRedemption c \<noteq> accessRedemption a \<or>
       accessGrant c \<noteq> Some (signal_ticket (ps_signal p)))) = False"
    "(\<not> is_client_candidate (ps_signal p)) = False" "(\<not> is_open r1 i) = False"
    "(connectionId c \<noteq> connectionId a) = False" "(expiresAt c \<le> now) = False"
    "(stage c \<noteq> AwaitingCandidate \<or> authorization c \<noteq> NotRequired) = False"
    using assms by auto
  show ?thesis
    unfolding beginClientTicket_def Let_def
    by (simp only: assms(2,3) gates if_False prod.case sum.case option.case)
qed

lemma candidate_relay:
  assumes "is_client_candidate (ps_signal p)"
    and "frame_log (snd (beginClientTicket now i a digest bound live p r)) \<noteq> frame_log r"
  shows "\<exists>j. candidate_admitted now i a digest bound live p r (snd (reconcileActiveServer now None r)) j \<and>
    frame_log (snd (beginClientTicket now i a digest bound live p r)) =
      frame_log r @ [(j, ps_serialized p)]"
proof -
  obtain res r1 where rec: "reconcileActiveServer now None r = (res, r1)" by fastforce
  have torn: "tears r r1" using tears_reconcile[OF tears_refl, of r now None] rec by simp
  note log = tears_frame_log[OF torn]
  obtain server where res: "res = Inr server"
    using assms rec log by (cases res) (auto simp: beginClientTicket_def Let_def)
  obtain c where c: "readClientAttachment r i = Some c"
    using assms rec log res by (cases "readClientAttachment r i") (auto simp: beginClientTicket_def Let_def)
  have gates: "boundTicketHash c = Some bound" "live" "is_open r1 i" "stage c = AwaitingCandidate"
    "authorization c = NotRequired" "now < expiresAt c" "connectionId c = connectionId a"
    "accessRedemption a \<noteq> None \<Longrightarrow> accessRedemption c = accessRedemption a"
    "accessRedemption a \<noteq> None \<Longrightarrow> accessGrant c = Some (signal_ticket (ps_signal p))"
    using assms rec log res c by (auto simp: beginClientTicket_def Let_def split: if_splits)
  obtain j s where srv: "server = Some (j, s)"
    using assms rec log res c gates
    by (cases server) (auto simp: beginClientTicket_def Let_def split: if_splits)
  let ?s = "snd (pruneTicketList s now)"
  let ?bad = "sv_controlId s \<noteq> controlId c \<or> sv_generation s \<noteq> generation c \<or>
      Some (generation c) \<noteq> currentGeneration r1"
  let ?used = "digest \<in> set (map tk_digest (sv_tickets ?s)) \<or> length (sv_tickets ?s) \<ge> MAX_RETAINED_TICKETS"
  have tail: "beginClientTicket now i a digest bound live p r =
      (if ?bad then torn_result (failClient now i c ServerUnavailable close_serverUnavailable r1)
       else if ?used then torn_result (failClient now i c ProtocolError close_protocolError r1)
       else relayClientCandidate now i c (j, ?s) digest p r1)"
    by (rule beginClient_tail) (use assms(1) c gates rec res srv in auto)
  have last: "\<not> ?bad" "\<not> ?used"
    using assms(2) log unfolding tail by (auto split: if_splits)
  have eq: "snd (beginClientTicket now i a digest bound live p r) =
      snd (relayClientCandidate now i c (j, ?s) digest p r1)"
    unfolding tail using last by (simp only: if_False)
  have cur: "sv_current s" "currentGeneration r = currentGeneration r1"
    using reconcile_snapshot[of now None r "(j, s)" r1] rec res srv torn by (auto simp: tears_def)
  have "candidate_admitted now i a digest bound live p r r1 j"
    unfolding candidate_admitted_def using c gates rec res srv last cur pruned_tickets[of s now] by auto
  moreover have "frame_log (snd (beginClientTicket now i a digest bound live p r)) =
      frame_log r @ [(j, ps_serialized p)]"
    using relayClient_log[of now i c "(j, snd (pruneTicketList s now))" digest p r1] assms(2) eq log by simp
  ultimately show ?thesis using rec by auto
qed

lemma candidate_relayed:
  assumes "is_client_candidate (ps_signal p)" "no_faults r"
    and "candidate_admitted now i a digest bound live p r (snd (reconcileActiveServer now None r)) j"
  shows "frame_log (snd (beginClientTicket now i a digest bound live p r)) =
      frame_log r @ [(j, ps_serialized p)]"
proof -
  define r1 where "r1 = snd (reconcileActiveServer now None r)"
  obtain c s where c: "readClientAttachment r i = Some c" "boundTicketHash c = Some bound" "live"
    "accessRedemption a \<noteq> None \<longrightarrow> accessRedemption c = accessRedemption a \<and>
       accessGrant c = Some (signal_ticket (ps_signal p))"
    "is_open r1 i" "connectionId c = connectionId a"
    "stage c = AwaitingCandidate" "authorization c = NotRequired" "now < expiresAt c"
    and s: "reconcileActiveServer now None r = (Inr (Some (j, s)), r1)"
      "sv_controlId s = controlId c" "sv_generation s = generation c"
      "currentGeneration r = Some (generation c)"
      "\<forall>t \<in> set (sv_tickets s). now < tk_expiresAt t \<longrightarrow> tk_digest t \<noteq> digest"
      "length (filter (\<lambda>t. now < tk_expiresAt t) (sv_tickets s)) < MAX_RETAINED_TICKETS"
    using assms(3) unfolding candidate_admitted_def r1_def[symmetric] by blast
  have torn: "tears r r1" using tears_reconcile[OF tears_refl, of r now None] by (simp add: r1_def)
  have nf: "no_faults r1" using no_faults_reconcile[OF assms(2)] by (simp add: r1_def)
  have "currentGeneration r1 = Some (generation c)" using torn s(4) by (simp add: tears_def)
  moreover have "digest \<notin> set (map tk_digest (sv_tickets (snd (pruneTicketList s now))))"
    using s(5) by (auto simp: pruned_tickets)
  moreover have "\<not> MAX_RETAINED_TICKETS \<le> length (sv_tickets (snd (pruneTicketList s now)))"
    using s(6) by (simp add: pruned_tickets)
  ultimately have "snd (beginClientTicket now i a digest bound live p r) =
      snd (relayClientCandidate now i c (j, snd (pruneTicketList s now)) digest p r1)"
    using s(2,3) by (subst beginClient_tail[OF assms(1) c(1) s(1) c(2,3)]) (use c(4-) in auto)
  then show ?thesis using relayClient_sends[OF nf] tears_frame_log[OF torn] by simp
qed

subsection \<open>A control's frame\<close>

text \<open>
  The conditions under which a control's frame reaches the client at socket \<open>k\<close>, over
  the ticket \<open>t\<close> of the control's attachment \<open>s\<close>. The first five are about the client,
  the next seven about the ticket, the last ones about the control.
\<close>

definition client_reached ::
  "int \<Rightarrow> nat \<Rightarrow> string \<Rightarrow> parsed_signal \<Rightarrow> room \<Rightarrow> server_attachment \<Rightarrow> ticket_state \<Rightarrow> nat \<Rightarrow>
   client_attachment \<Rightarrow> bool" where
  "client_reached now i digest p r s t k c \<longleftrightarrow>
     readClientAttachment r k = Some c \<and> is_open r k \<and> stage c = CandidateExchange \<and>
     now < expiresAt c \<and> tk_clientConnectionId t = connectionId c \<and>
     t \<in> set (sv_tickets s) \<and> tk_digest t = digest \<and> tk_stage t = TicketActive \<and>
     now < tk_expiresAt t \<and> tk_authorization t = TicketNotRequired \<and>
     applyServerFrameBudget t (frame_kind_of (ps_signal p)) (ps_bytes p) \<noteq> None \<and>
     snapshot_of r (i, s) \<and>
     (\<exists>act. fst (reconcileActiveServer now None r) = Inr (Some (i, act)) \<and> sv_current act \<and>
        sv_controlId act = sv_controlId s \<and> sv_generation act = sv_generation s \<and>
        Some (sv_generation act) = currentGeneration r)"

lemma relayServer_log:
  "frame_log (snd (relayServerFrame now i s t k a p r)) = frame_log r \<or>
   (frame_log (snd (relayServerFrame now i s t k a p r)) = frame_log r @ [(k, ps_serialized p)] \<and>
    applyServerFrameBudget t (frame_kind_of (ps_signal p)) (ps_bytes p) \<noteq> None \<and>
    tk_authorization t = TicketNotRequired \<and> stage a = CandidateExchange)"
proof -
  have w: "writeAttachment j x q = (y, q') \<Longrightarrow> frame_log q' = frame_log q" for j x q y q'
    using writeAttachment_snd[of j x q] by (metis snd_conv write_fields(5))
  show ?thesis
    by (auto simp: relayServerFrame_def Let_def dest!: w sendFrame_log
        split: prod.splits sum.splits bool.splits option.splits if_splits)
qed

text \<open>What \<open>handleServerMessage\<close> establishes about the control before it has a target.\<close>

lemma locate_control:
  assumes loc: "locateServerTarget now i s0 digest p r = (x, r1)"
    and x: "x = RelayTo s t k a \<or> x = CheckAccess s t k a"
  shows "\<exists>act. fst (reconcileActiveServer now None r) = Inr (Some (i, act)) \<and> sv_current act \<and>
     sv_controlId act = sv_controlId s \<and> sv_generation act = sv_generation s \<and>
     Some (sv_generation act) = currentGeneration r"
    and "sv_current s" "sv_controlId s = sv_controlId s0" "sv_generation s = sv_generation s0"
    and "x = RelayTo s t k a \<longleftrightarrow> accessRedemption a = None"
proof -
  obtain res r2 where rec: "reconcileActiveServer now None r = (res, r2)" by fastforce
  obtain current j act where res: "res = Inr (Some (j, act))" "readServerAttachment r i = Some current"
    using loc x rec by (auto simp: locateServerTarget_def Let_def split: sum.splits option.splits)
  have ctl: "\<not> (\<not> is_open r2 i \<or> \<not> sv_current current \<or> sv_controlId current \<noteq> sv_controlId s0 \<or>
      sv_generation current \<noteq> sv_generation s0 \<or> j \<noteq> i \<or>
      sv_controlId act \<noteq> sv_controlId current \<or> sv_generation act \<noteq> sv_generation current)"
    using loc x rec res by (auto simp: locateServerTarget_def Let_def split: if_splits)
  have s: "s = snd (pruneTicketList current now)"
    "x = (if accessRedemption a \<noteq> None then CheckAccess s t k a else RelayTo s t k a)"
    using loc x rec res
    by (auto simp: locateServerTarget_def Let_def split: option.splits if_splits prod.splits)
  have same: "sv_current s = sv_current current" "sv_controlId s = sv_controlId current"
    "sv_generation s = sv_generation current"
    by (simp_all add: s(1) pruneTicketList_def Let_def)
  show "\<exists>act. fst (reconcileActiveServer now None r) = Inr (Some (i, act)) \<and> sv_current act \<and>
     sv_controlId act = sv_controlId s \<and> sv_generation act = sv_generation s \<and>
     Some (sv_generation act) = currentGeneration r"
    using reconcile_snapshot[of now None r "(j, act)" r2] rec res ctl same by auto
  show "sv_current s" "sv_controlId s = sv_controlId s0" "sv_generation s = sv_generation s0"
    using ctl same by auto
  show "x = RelayTo s t k a \<longleftrightarrow> accessRedemption a = None" using s(2) by (simp split: if_splits)
qed

lemma server_relay:
  assumes inv: "room_inv r"
    and sent: "frame_log (snd (handleServerMessage now i s0 digest p r)) \<noteq> frame_log r"
  shows "\<exists>k c t s. frame_log (snd (handleServerMessage now i s0 digest p r)) =
      frame_log r @ [(k, ps_serialized p)] \<and> client_reached now i digest p r s t k c \<and>
      ticket_client_matches s t (signal_ticket (ps_signal p)) now c \<and> accessRedemption c = None \<and>
      sv_current s \<and> sv_controlId s = sv_controlId s0 \<and> sv_generation s = sv_generation s0"
proof -
  obtain x r1 where loc: "locateServerTarget now i s0 digest p r = (x, r1)" by fastforce
  have w: "frame_log (snd (writeAttachment j y q)) = frame_log q" for j y q by simp
  obtain res r2 where rec: "reconcileActiveServer now None r = (res, r2)" by fastforce
  have log2: "frame_log r2 = frame_log r"
    using tears_frame_log[OF tears_reconcile[OF tears_refl, of r now None]] rec by simp
  have handled: "frame_log r1 = frame_log r" if "x = Handled y" for y
    using loc rec that log2
    by (auto simp: locateServerTarget_def Let_def
        split: sum.splits option.splits if_splits prod.splits)
  show ?thesis
  proof (cases x)
    case (Handled y)
    with sent handled loc show ?thesis by (simp add: handleServerMessage_def)
  next
    case (CheckAccess s t k a)
    then have "frame_log r1 = frame_log r"
      using locate_target[OF inv loc] tears_frame_log by blast
    with sent CheckAccess loc show ?thesis by (simp add: handleServerMessage_def)
  next
    case (RelayTo s t k a)
    have tgt: "tears r r1 \<and> snapshot_of r (i, s) \<and> t \<in> set (sv_tickets s) \<and> tk_stage t = TicketActive \<and>
        tk_expiresAt t > now \<and> tk_digest t = digest \<and> is_open r1 k \<and>
        readAttachment r k = Some (ClientA a) \<and> stage a = CandidateExchange \<and>
        ticket_client_matches s t (signal_ticket (ps_signal p)) now a"
      by (rule locate_target[OF inv loc]) (simp add: RelayTo)
    note ctl = locate_control[OF loc disjI1[OF RelayTo]]
    have op: "is_open r k" using tgt by (auto simp: tears_def)
    have log1: "frame_log r1 = frame_log r" using tgt tears_frame_log by blast
    have eq: "snd (handleServerMessage now i s0 digest p r) = snd (relayServerFrame now i s t k a p r1)"
      by (simp add: handleServerMessage_def loc RelayTo Let_def)
    have sent': "frame_log (snd (handleServerMessage now i s0 digest p r)) = frame_log r @ [(k, ps_serialized p)] \<and>
        applyServerFrameBudget t (frame_kind_of (ps_signal p)) (ps_bytes p) \<noteq> None \<and>
        tk_authorization t = TicketNotRequired"
      using relayServer_log[of now i s t k a p r1] sent log1 by (auto simp: eq)
    have "client_reached now i digest p r s t k a"
      using tgt sent' op ctl(1) by (simp add: client_reached_def readClient_iff ticket_client_matches_def)
    then show ?thesis using sent' tgt ctl(2-5) RelayTo by blast
  qed
qed

text \<open>After the access check everything is read again before the frame leaves.\<close>

lemma resumed_relay:
  assumes "frame_log (snd (resumeServerMessage now i s digest k a live p r)) \<noteq> frame_log r"
  shows "\<exists>c t s'. frame_log (snd (resumeServerMessage now i s digest k a live p r)) =
      frame_log r @ [(k, ps_serialized p)] \<and> live \<and> client_reached now i digest p r s' t k c \<and>
      connectionId c = connectionId a \<and> Some (generation c) = currentGeneration r \<and>
      sv_current s' \<and> sv_controlId s' = sv_controlId s"
proof -
  obtain res r1 where rec: "reconcileActiveServer now None r = (res, r1)" by fastforce
  have torn: "tears r r1" using tears_reconcile[OF tears_refl, of r now None] rec by simp
  note log = tears_frame_log[OF torn]
  obtain x r2 where rc: "recheckTarget now i s digest k a live r = (x, r2)" by fastforce
  have handled: "frame_log r2 = frame_log r"
    using rc rec log by (auto simp: recheckTarget_def Let_def split: sum.splits option.splits if_splits)
  show ?thesis
  proof (cases x)
    case (RelayTo s' t k' c)
    obtain j where res: "res = Inr (Some (j, s'))" and latest: "readClientAttachment r k = Some c"
      using rc rec RelayTo by (auto simp: recheckTarget_def Let_def
          split: sum.splits option.splits if_splits prod.splits)
    have g: "k' = k" "r1 = r2" "live" "now < expiresAt c" "connectionId c = connectionId a"
      "Some (generation c) = currentGeneration r1" "is_open r1 k" "j = i" "sv_controlId s' = sv_controlId s"
      "tk_stage t = TicketActive" "now < tk_expiresAt t"
      "find (\<lambda>t. tk_digest t = digest \<and> tk_clientConnectionId t = connectionId c) (sv_tickets s') = Some t"
      using rc rec RelayTo res latest by (auto simp: recheckTarget_def Let_def
          split: option.splits if_splits prod.splits)
    have t: "t \<in> set (sv_tickets s')" "tk_digest t = digest" "tk_clientConnectionId t = connectionId c"
      using g(12) by (auto simp: find_Some_iff)
    have snap: "snapshot_of r (i, s')" "sv_current s'" "Some (sv_generation s') = currentGeneration r"
      using reconcile_snapshot[of now None r "(j, s')" r1] rec res g(8) by simp_all
    have eq: "snd (resumeServerMessage now i s digest k a live p r) = snd (relayServerFrame now i s' t k c p r1)"
      by (simp add: resumeServerMessage_def rc RelayTo g(1,2))
    have sent: "frame_log (snd (resumeServerMessage now i s digest k a live p r)) = frame_log r @ [(k, ps_serialized p)] \<and>
        applyServerFrameBudget t (frame_kind_of (ps_signal p)) (ps_bytes p) \<noteq> None \<and>
        tk_authorization t = TicketNotRequired \<and> stage c = CandidateExchange"
      using relayServer_log[of now i s' t k c p r1] assms log by (auto simp: eq)
    have "is_open r k" "currentGeneration r1 = currentGeneration r"
      using torn g(7) by (auto simp: tears_def)
    then have "client_reached now i digest p r s' t k c"
      using latest g t snap sent rec res by (simp add: client_reached_def)
    then show ?thesis using sent g snap \<open>currentGeneration r1 = currentGeneration r\<close> by auto
  qed (use assms handled rc in \<open>auto simp: resumeServerMessage_def\<close>)
qed

subsection \<open>Properties\<close>

text \<open>
  C1: A client's candidate is forwarded at most once per message, unchanged, to the one
  active control, and only past every fence of \<open>beginClientTicket\<close>: the client is the
  connection the message began with, open, awaiting its candidate and unexpired; its
  admission was bound to the hash of this very ticket; its access check answered live and,
  where it was redeemed, the redemption is still that of the message and its grant is this
  ticket; client, control and room are of one generation; no unexpired ticket of the
  control has the digest and there is room for another. Past these fences and without
  platform faults the candidate is forwarded.
\<close>

theorem candidate_relayed_only_if_admitted:
  assumes "is_client_candidate (ps_signal p)"
  shows "let r' = snd (beginClientTicket now i a digest bound live p r);
      admitted = candidate_admitted now i a digest bound live p r (snd (reconcileActiveServer now None r)) in
    (frame_log r' = frame_log r \<or> (\<exists>j. admitted j \<and> frame_log r' = frame_log r @ [(j, ps_serialized p)])) \<and>
    (no_faults r \<longrightarrow> (\<forall>j. admitted j \<longrightarrow> frame_log r' = frame_log r @ [(j, ps_serialized p)]))"
  using candidate_relay[OF assms] candidate_relayed[OF assms] unfolding Let_def by blast

theorem candidate_relayed_only_if_admitted_witness:
  "\<exists>j. candidate_admitted 2000 1 example_client (replicate 64 CHR ''3'') (replicate 64 CHR ''1'') True
         example_frame (example_room (\<lambda>_. True)) (example_room (\<lambda>_. True)) j"
proof -
  let ?r = "snd (beginClientTicket 2000 1 example_client (replicate 64 CHR ''3'')
     (replicate 64 CHR ''1'') True example_frame (example_room (\<lambda>_. True)))"
  have "frame_log ?r = [(0, ''frame'')]"
    by (simp add: beginClientTicket_def example_reconcile example_room_client)
      (simp add: example_client_def example_server_def example_room_def pruneTicketList_def
        MAX_RETAINED_TICKETS_def example_frame_def relayClientCandidate_def
        writeAttachment_def tryWriteAttachment_def platform_call_def sendFrame_def Let_def)
  moreover have "frame_log (example_room (\<lambda>_. True)) = []" by (simp add: example_room_def)
  ultimately show ?thesis
    using candidate_relayed_only_if_admitted[OF example_frame_ok(2), of 2000 1 example_client
        "replicate 64 CHR ''3''" "replicate 64 CHR ''1''" True "example_room (\<lambda>_. True)"]
    by (auto simp: Let_def example_reconcile)
qed

text \<open>
  A room whose client has sent its candidate, for a client without an access grant and
  for a redeemed one.
\<close>

definition redeemed_client :: client_attachment where
  "redeemed_client = example_client
     \<lparr> accessClientNonce := Some (replicate 64 CHR ''4''), accessExpiresAt := Some 16000,
       accessGrant := Some (replicate 64 CHR ''2''), accessRedemption := Some (replicate 64 CHR ''5'') \<rparr>"

definition exchanging_client :: "client_attachment \<Rightarrow> client_attachment" where
  "exchanging_client c = begin_exchange c (replicate 64 CHR ''2'') (replicate 64 CHR ''3'') 160"

definition exchanging_server :: server_attachment where
  "exchanging_server = example_server\<lparr>sv_tickets := [new_ticket example_client (replicate 64 CHR ''3'') 160]\<rparr>"

definition exchanging_room :: "client_attachment \<Rightarrow> room" where
  "exchanging_room c = (example_room (\<lambda>_. True))
     \<lparr> sock := (sock (example_room (\<lambda>_. True)))
         (0 := example_socket ServerRole (ServerA exchanging_server),
          1 := example_socket ClientRole (ClientA (exchanging_client c))) \<rparr>"

definition completing_frame :: parsed_signal where
  "completing_frame = example_frame\<lparr>ps_signal := Complete (replicate 64 CHR ''2''), ps_serialized := ''done''\<rparr>"

lemma redeemed_client_wf: "client_wf redeemed_client"
  by (simp add: client_wf_def redeemed_client_def example_client_def access_wf_def stage_wf_def
      is_hex_digit_def attachment_bounds max_safe_integer_def is_safe_integer_def)

text \<open>The two clients the example needs, a free one and a redeemed one.\<close>

lemma exchanging_wf:
  assumes "c \<in> {example_client, redeemed_client}"
  shows "client_wf (exchanging_client c)" "server_wf exchanging_server"
proof -
  show "client_wf (exchanging_client c)"
    using assms by (auto simp: client_wf_def exchanging_client_def begin_exchange_def redeemed_client_def
      example_client_def access_wf_def stage_wf_def is_hex_digit_def attachment_bounds
      max_safe_integer_def is_safe_integer_def)
  have "ticket_wf (new_ticket example_client (replicate 64 CHR ''3'') 160)"
    by (rule new_ticket_wf[OF example_client_wf]) (simp_all add: is_hex_digit_def attachment_bounds)
  then show "server_wf exchanging_server"
    using example_server_wf by (auto simp: server_wf_def exchanging_server_def example_server_def new_ticket_def
      MAX_RETAINED_TICKETS_def)
qed

lemma exchanging_reads:
  assumes "c \<in> {example_client, redeemed_client}"
  shows "readAttachment (exchanging_room c) i =
     (if i = 0 then Some (ServerA exchanging_server)
      else if i = 1 then Some (ClientA (exchanging_client c)) else None)"
    "readClientAttachment (exchanging_room c) i = (if i = 1 then Some (exchanging_client c) else None)"
    "readServerAttachment (exchanging_room c) i = (if i = 0 then Some exchanging_server else None)"
proof -
  show rd: "readAttachment (exchanging_room c) i =
     (if i = 0 then Some (ServerA exchanging_server)
      else if i = 1 then Some (ClientA (exchanging_client c)) else None)"
    using attachment_codec.reads_back[of "ServerA exchanging_server"]
      attachment_codec.reads_back[of "ClientA (exchanging_client c)"] exchanging_wf[OF assms]
      example_room_read[of "\<lambda>_. True" i]
    by (auto simp: readAttachment_def exchanging_room_def example_socket_def)
  show "readClientAttachment (exchanging_room c) i = (if i = 1 then Some (exchanging_client c) else None)"
    "readServerAttachment (exchanging_room c) i = (if i = 0 then Some exchanging_server else None)"
    by (simp_all add: readClientAttachment_def readServerAttachment_def rd)
qed

lemma exchanging_frame [simp]:
  "sock_count (exchanging_room c) = 2" "is_open (exchanging_room c) i \<longleftrightarrow> i < 2"
  "getWebSockets ServerRole (exchanging_room c) = [0]"
  "getWebSockets ClientRole (exchanging_room c) = [1]"
  "pendingServerOutcomes (exchanging_room c) = (\<lambda>_. None)"
  "currentGeneration (exchanging_room c) = Some (replicate 64 CHR ''0'')"
  "frame_log (exchanging_room c) = []" "platform (exchanging_room c) = (\<lambda>_. True)"
  by (auto simp: exchanging_room_def example_room_def is_open_def example_socket_def empty_socket_def
      getWebSockets_def upt_rec)

lemma exchanging_room_inv:
  assumes c: "c \<in> {example_client, redeemed_client}"
  shows "room_inv (exchanging_room c)"
proof -
  have "readTaggedAttachment (exchanging_room c) i \<noteq> None" if "i < sock_count (exchanging_room c)" for i
    using that by (simp add: readTaggedAttachment_def exchanging_reads[OF c])
      (auto simp: exchanging_room_def example_socket_def less_2_cases_iff)
  then have "readable (exchanging_room c)" by (auto simp: readable_def)
  moreover have "all_linked (exchanging_room c)" "distinct_connections (exchanging_room c)"
    "distinct_controls (exchanging_room c)"
    using c by (auto simp: all_linked_def distinct_connections_def distinct_controls_def exchanging_reads[OF c]
        exchanging_server_def exchanging_client_def begin_exchange_def new_ticket_def linked_def
        redeemed_client_def example_client_def split: if_splits)
  ultimately show ?thesis by (simp add: room_inv_def)
qed

lemma exchanging_reconcile:
  assumes "c \<in> {example_client, redeemed_client}"
  shows "reconcileActiveServer now None (exchanging_room c) = (Inr (Some (0, exchanging_server)), exchanging_room c)"
proof -
  have "currentOpenServers None (exchanging_room c) = [(0, exchanging_server)]"
    by (simp add: currentOpenServers_def exchanging_reads[OF assms] List.map_filter_simps
        exchanging_server_def example_server_def)
  moreover have "retryPendingServerTeardowns now (exchanging_room c) = (True, exchanging_room c)"
    by (simp add: retryPendingServerTeardowns_def retryServerStep_def)
  ultimately show ?thesis by (simp add: reconcileActiveServer_def Let_def)
qed

text \<open>
  C2: A control's frame reaches at most one client. Without an access grant it is the
  client that exchanges candidates on exactly the ticket the frame names, over an active,
  unexpired ticket of the sending control, which is the room's one active control, and
  within the budgets of the ticket. For a redeemed client the first segment sends nothing
  and hands on a target it found under the same conditions; the frame leaves in the second
  segment, whatever the room has become, only when the access is live and, read again, the
  client is the same connection, of the room's generation, open, unexpired and exchanging,
  the control is still the active one, and it still holds that client's active ticket.
\<close>

theorem server_frame_reaches_its_client:
  assumes "room_inv r"
  shows "(let r' = snd (handleServerMessage now i s0 digest p r) in
      frame_log r' = frame_log r \<or>
      (\<exists>k c t s. frame_log r' = frame_log r @ [(k, ps_serialized p)] \<and>
         client_reached now i digest p r s t k c \<and> accessRedemption c = None \<and>
         ticket_client_matches s t (signal_ticket (ps_signal p)) now c \<and>
         sv_current s \<and> sv_controlId s = sv_controlId s0 \<and> sv_generation s = sv_generation s0)) \<and>
    (\<forall>s t k c. fst (fst (handleServerMessage now i s0 digest p r)) = Some (CheckAccess s t k c) \<longrightarrow>
       frame_log (snd (handleServerMessage now i s0 digest p r)) = frame_log r \<and>
       accessRedemption c \<noteq> None \<and> readClientAttachment r k = Some c \<and> tk_digest t = digest \<and>
       ticket_client_matches s t (signal_ticket (ps_signal p)) now c) \<and>
    (let r'' = snd (resumeServerMessage later i s digest k a live p q) in
      frame_log r'' = frame_log q \<or>
      (\<exists>c t s'. frame_log r'' = frame_log q @ [(k, ps_serialized p)] \<and> live \<and>
         client_reached later i digest p q s' t k c \<and> connectionId c = connectionId a \<and>
         Some (generation c) = currentGeneration q \<and> sv_current s' \<and> sv_controlId s' = sv_controlId s))"
proof (intro conjI allI impI)
  show "let r' = snd (handleServerMessage now i s0 digest p r) in
      frame_log r' = frame_log r \<or>
      (\<exists>k c t s. frame_log r' = frame_log r @ [(k, ps_serialized p)] \<and>
         client_reached now i digest p r s t k c \<and> accessRedemption c = None \<and>
         ticket_client_matches s t (signal_ticket (ps_signal p)) now c \<and>
         sv_current s \<and> sv_controlId s = sv_controlId s0 \<and> sv_generation s = sv_generation s0)"
    using server_relay[OF assms, of now i s0 digest p] unfolding Let_def by blast
  show "let r'' = snd (resumeServerMessage later i s digest k a live p q) in
      frame_log r'' = frame_log q \<or>
      (\<exists>c t s'. frame_log r'' = frame_log q @ [(k, ps_serialized p)] \<and> live \<and>
         client_reached later i digest p q s' t k c \<and> connectionId c = connectionId a \<and>
         Some (generation c) = currentGeneration q \<and> sv_current s' \<and> sv_controlId s' = sv_controlId s)"
    using resumed_relay[of later i s digest k a live p q] unfolding Let_def by blast
next
  fix s t k c
  assume x: "fst (fst (handleServerMessage now i s0 digest p r)) = Some (CheckAccess s t k c)"
  then obtain r1 where loc: "locateServerTarget now i s0 digest p r = (CheckAccess s t k c, r1)"
    by (cases "locateServerTarget now i s0 digest p r")
      (auto simp: handleServerMessage_def Let_def split: located.splits)
  note tgt = locate_target[OF assms loc disjI2[OF refl]]
  show "frame_log (snd (handleServerMessage now i s0 digest p r)) = frame_log r"
    using tgt tears_frame_log by (auto simp: handleServerMessage_def loc)
  show "accessRedemption c \<noteq> None" using locate_control(5)[OF loc disjI2[OF refl]] by simp
  show "readClientAttachment r k = Some c" "tk_digest t = digest"
    "ticket_client_matches s t (signal_ticket (ps_signal p)) now c"
    using tgt by (simp_all add: readClient_iff)
qed

text \<open>The control completes both exchanges.\<close>

lemma exchanging_sends:
  assumes c: "c \<in> {example_client, redeemed_client}"
  shows "frame_log (snd (relayServerFrame 3000 0 exchanging_server
      (new_ticket example_client (replicate 64 CHR ''3'') 160) 1 (exchanging_client c) completing_frame
      (exchanging_room c))) = [(1, ''done'')]"
  using c by (auto simp: relayServerFrame_def completing_frame_def example_frame_def Let_def new_ticket_def
      applyServerFrameBudget_def attachment_bounds exchanging_client_def begin_exchange_def
      writeAttachment_def tryWriteAttachment_def platform_call_def sendFrame_def)

lemma exchanging_frames:
  "frame_log (snd (handleServerMessage 3000 0 example_server (replicate 64 CHR ''3'') completing_frame
     (exchanging_room example_client))) = [(1, ''done'')]"
proof -
  have "locateServerTarget 3000 0 example_server (replicate 64 CHR ''3'') completing_frame
      (exchanging_room example_client) =
    (RelayTo exchanging_server (new_ticket example_client (replicate 64 CHR ''3'') 160) 1
       (exchanging_client example_client), exchanging_room example_client)"
    by (simp add: locateServerTarget_def exchanging_reconcile exchanging_reads)
      (simp add: pruneTicketList_def exchanging_server_def example_server_def new_ticket_def example_client_def
        findTicketClient_def exchanging_reads ticket_client_matches_def exchanging_client_def
        begin_exchange_def completing_frame_def example_frame_def Let_def)
  then show ?thesis by (simp add: handleServerMessage_def exchanging_sends[unfolded One_nat_def] Let_def)
qed

lemma redeemed_frames:
  "frame_log (snd (resumeServerMessage 3000 0 example_server (replicate 64 CHR ''3'') 1 redeemed_client True
     completing_frame (exchanging_room redeemed_client))) = [(1, ''done'')]"
proof -
  have "recheckTarget 3000 0 example_server (replicate 64 CHR ''3'') 1 redeemed_client True
      (exchanging_room redeemed_client) =
    (RelayTo exchanging_server (new_ticket example_client (replicate 64 CHR ''3'') 160) 1
       (exchanging_client redeemed_client), exchanging_room redeemed_client)"
    by (simp add: recheckTarget_def exchanging_reconcile exchanging_reads)
      (simp add: exchanging_server_def example_server_def new_ticket_def example_client_def
        redeemed_client_def exchanging_client_def begin_exchange_def Let_def)
  then show ?thesis by (simp add: resumeServerMessage_def exchanging_sends[unfolded One_nat_def])
qed

theorem server_frame_reaches_its_client_witness:
  "(\<exists>c t s. client_reached 3000 0 (replicate 64 CHR ''3'') completing_frame
      (exchanging_room example_client) s t 1 c \<and> accessRedemption c = None) \<and>
   (\<exists>c t s. client_reached 3000 0 (replicate 64 CHR ''3'') completing_frame
      (exchanging_room redeemed_client) s t 1 c)"
proof
  note it = server_frame_reaches_its_client[OF exchanging_room_inv, of example_client 3000 0 example_server
      "replicate 64 CHR ''3''" completing_frame 3000 example_server 1 redeemed_client True
      "exchanging_room redeemed_client", OF insertI1,
      unfolded Let_def exchanging_frames redeemed_frames exchanging_frame]
  have one: "ps_serialized completing_frame = ''done''" by (simp add: completing_frame_def)
  from it obtain k c t s where "[(1::nat, ''done'')] = [] @ [(k, ps_serialized completing_frame)]"
    and r: "client_reached 3000 0 (replicate 64 CHR ''3'') completing_frame (exchanging_room example_client) s t k c"
    "accessRedemption c = None"
    by auto
  then show "\<exists>c t s. client_reached 3000 0 (replicate 64 CHR ''3'') completing_frame
      (exchanging_room example_client) s t 1 c \<and> accessRedemption c = None"
    by auto
  from it show "\<exists>c t s. client_reached 3000 0 (replicate 64 CHR ''3'') completing_frame
      (exchanging_room redeemed_client) s t 1 c"
    by auto
qed

subsection \<open>A connection that is counted twice\<close>

text \<open>
  \<open>beginClientTicket\<close> reads the client before it reconciles the controls. When the
  reconciliation retries an unfinished server teardown it fails this client as well; the
  handler then fails it again from its snapshot, which replaces the stored outcome and
  clears the stored summary mark. The run: the control errs while every platform call
  fails, the client's candidate comes back from its awaits, the instance is evicted, and
  the client's close event arrives.
\<close>

lemmas pred_option_code [code] = option.pred_inject

definition failing_room :: room where
  "failing_room = example_room (\<lambda>n. 7 \<le> n)"

definition erred_room :: room where
  "erred_room = snd (webSocketError 1500 0 [] failing_room)"

definition overwritten_room :: room where
  "overwritten_room = snd (processMessage_catch 2000 1 (beginClientTicket 2000 1 example_client
     (replicate 64 CHR ''3'') (replicate 64 CHR ''1'') True example_frame erred_room))"

definition evicted_room :: room where
  "evicted_room = snd (snd (construct 3000 [''ok''] True \<lparr> db_versions = Some [1], db_rows = Some [] \<rparr>
     overwritten_room))"

definition recounted_room :: room where
  "recounted_room = snd (webSocketClose 4000 1 1000 '''' True [] evicted_room)"

text \<open>
  From a sound room without metrics, four events of \<open>room_step\<close> reach a room in which the
  one client connection was counted with two outcomes.
\<close>

theorem stale_second_metric:
  "room_inv failing_room \<and> metric_log failing_room = [] \<and> room_step\<^sup>*\<^sup>* failing_room recounted_room \<and>
   map (\<lambda>(i, m). (i, mt_outcome m)) (metric_log recounted_room) =
     [(1, InternalError), (1, ClientDisconnected)]"
proof (intro conjI)
  show "room_inv failing_room" by (simp add: failing_room_def example_room_inv)
  show "metric_log failing_room = []" by (simp add: failing_room_def example_room_def)
  have "room_step failing_room erred_room" unfolding erred_room_def by (rule step_error)
  moreover have "room_step erred_room overwritten_room"
    unfolding overwritten_room_def by (rule step_candidate) (simp_all add: is_hex_digit_def)
  moreover have "room_step overwritten_room evicted_room" unfolding evicted_room_def by (rule step_construct)
  moreover have "room_step evicted_room recounted_room" unfolding recounted_room_def by (rule step_closed)
  ultimately show "room_step\<^sup>*\<^sup>* failing_room recounted_room"
    by (meson r_into_rtranclp rtranclp_trans)
  show "map (\<lambda>(i, m). (i, mt_outcome m)) (metric_log recounted_room) =
     [(1, InternalError), (1, ClientDisconnected)]"
    by code_simp
qed
end
