(* ===== verification/RoomAlarm.thy ===== *)
theory RoomAlarm
  imports RoomRelay
begin

text \<open>
  What an event leaves behind, in full. Rotation: without platform faults no socket of
  another generation stays open (\<open>rotate_outcome\<close>). Alarm: the time the room sets is the
  minimum of an abstract set of deadlines (\<open>deadlines\<close>, \<open>alarm_for\<close>), and an alarm settles
  what is overdue. Message queues (the \<open>WeakMap\<close> of \<open>webSocketMessage\<close>): a step relation over
  the frames that are still unsettled, whose invariant \<open>queues_ok\<close> bounds them.
\<close>

subsection \<open>Rotation retires every other generation\<close>

lemma failServer_closes: "no_faults r \<Longrightarrow> \<not> is_open (snd (failServer now i s out cl r)) i"
proof -
  assume nf: "no_faults r"
  have cl: "\<not> is_open (snd (closeSocket j c t)) j" if "platform t = platform r" for j c t
    using that nf no_faults_close closeSocket_closed[of j c t] by (simp add: no_faults_def)
  show ?thesis
    unfolding failServer_def Let_def case_prod_unfold snd_conv using cl by (simp add: is_open_def)
qed

text \<open>A socket that is closed or belongs to the generation.\<close>

definition of_generation :: "string option \<Rightarrow> room \<Rightarrow> nat \<Rightarrow> bool" where
  "of_generation gen r i \<longleftrightarrow> \<not> is_open r i \<or>
     (case readAttachment r i of
        None \<Rightarrow> False
      | Some (ClientA a) \<Rightarrow> Some (generation a) = gen
      | Some (ServerA s) \<Rightarrow> Some (sv_generation s) = gen)"

lemma of_generation_winds: "of_generation gen r i \<Longrightarrow> winds_down r r' \<Longrightarrow> of_generation gen r' i"
proof -
  assume a: "of_generation gen r i" and w: "winds_down r r'"
  have "is_open r' i \<longrightarrow> is_open r i" "att_torn (readAttachment r i) (readAttachment r' i)"
    using w by (auto simp: winds_down_def)
  with a show ?thesis
    by (cases "(readAttachment r i, readAttachment r' i)" rule: att_torn.cases)
      (auto simp: of_generation_def client_torn_def server_torn_def)
qed

lemma rotate_step_clean:
  assumes "no_faults r"
  shows "fst (rotateServerStep now gen i r) \<and> no_faults (snd (rotateServerStep now gen i r)) \<and>
      of_generation gen (snd (rotateServerStep now gen i r)) i"
    and "fst (rotateClientStep now gen i r) \<and> no_faults (snd (rotateClientStep now gen i r)) \<and>
      of_generation gen (snd (rotateClientStep now gen i r)) i"
proof -
  have c: "fst (closeSocket i close_internalError r)" "\<not> is_open (snd (closeSocket i close_internalError r)) i"
    using no_faults_close[OF assms] closeSocket_closed by auto
  show "fst (rotateServerStep now gen i r) \<and> no_faults (snd (rotateServerStep now gen i r)) \<and>
      of_generation gen (snd (rotateServerStep now gen i r)) i"
  proof (cases "readServerAttachment r i")
    case None
    with c assms show ?thesis by (simp add: rotateServerStep_def of_generation_def no_faults_frame)
  next
    case (Some s)
    then have "readAttachment r i = Some (ServerA s)" by (simp add: readServer_iff)
    with Some show ?thesis
      using failServer_closes[OF assms] failServer_clean[OF assms] assms
      by (simp add: rotateServerStep_def of_generation_def no_faults_def)
  qed
  show "fst (rotateClientStep now gen i r) \<and> no_faults (snd (rotateClientStep now gen i r)) \<and>
      of_generation gen (snd (rotateClientStep now gen i r)) i"
  proof (cases "readClientAttachment r i")
    case None
    with c assms show ?thesis by (simp add: rotateClientStep_def of_generation_def no_faults_frame)
  next
    case (Some a)
    then have "readAttachment r i = Some (ClientA a)" by (simp add: readClient_iff)
    with Some show ?thesis
      using closeClientStep_clean[OF assms, of now ServerReplaced close_serverReplaced i] assms
      by (simp add: rotateClientStep_def closeClientStep_def of_generation_def)
  qed
qed

lemma rotate_loops:
  assumes "no_faults r"
  shows "fst (for_each (rotateServerStep now gen) is r) \<and> no_faults (snd (for_each (rotateServerStep now gen) is r)) \<and>
      (\<forall>i \<in> set is. of_generation gen (snd (for_each (rotateServerStep now gen) is r)) i)"
    and "fst (for_each (rotateClientStep now gen) is r) \<and> no_faults (snd (for_each (rotateClientStep now gen) is r)) \<and>
      (\<forall>i \<in> set is. of_generation gen (snd (for_each (rotateClientStep now gen) is r)) i)"
proof -
  have loop: "fst (for_each f is r) \<and> no_faults (snd (for_each f is r)) \<and>
      (\<forall>i \<in> set is. of_generation gen (snd (for_each f is r)) i)"
    if step: "\<And>i r. no_faults r \<Longrightarrow> fst (f i r) \<and> no_faults (snd (f i r)) \<and> of_generation gen (snd (f i r)) i"
      and torn: "\<And>i r. winds_down r (snd (f i r))" and nf: "no_faults r" for f r
    using nf
  proof (induction "is" arbitrary: r)
    case (Cons k ks)
    let ?r1 = "snd (f k r)" and ?r2 = "snd (for_each f ks (snd (f k r)))"
    have "winds_down ?r1 ?r2"
      by (rule winds_for_each[OF winds_trans[OF _ torn]]) (assumption, rule winds_refl)
    moreover have one: "fst (f k r) \<and> no_faults ?r1 \<and> of_generation gen ?r1 k" by (rule step[OF Cons.prems])
    ultimately have "of_generation gen ?r2 k" using of_generation_winds by blast
    with one Cons.IH[of ?r1] show ?case by (simp add: Let_def case_prod_unfold)
  qed simp
  have torn: "winds_down r (snd (rotateServerStep now gen i r))" "winds_down r (snd (rotateClientStep now gen i r))" for i r
    using winds_refl[of r]
    by (auto simp: rotateServerStep_def rotateClientStep_def winds_teardown split: option.split)
  show "fst (for_each (rotateServerStep now gen) is r) \<and> no_faults (snd (for_each (rotateServerStep now gen) is r)) \<and>
      (\<forall>i \<in> set is. of_generation gen (snd (for_each (rotateServerStep now gen) is r)) i)"
    by (rule loop[OF rotate_step_clean(1) torn(1) assms])
  show "fst (for_each (rotateClientStep now gen) is r) \<and> no_faults (snd (for_each (rotateClientStep now gen) is r)) \<and>
      (\<forall>i \<in> set is. of_generation gen (snd (for_each (rotateClientStep now gen) is r)) i)"
    by (rule loop[OF rotate_step_clean(2) torn(2) assms])
qed

lemma storage_call_clean:
  "no_faults r \<Longrightarrow> fst (storage_call f r) \<and> snd (storage_call f r) = f (snd (platform_call r))"
  by (simp add: storage_call_def Let_def case_prod_unfold no_faults_call)

lemma scheduleNext_clean:
  assumes "no_faults r" "earliestRetainedExpiryMs rows = Inr e"
  shows "fst (scheduleNextAlarm now rows r) = Inr ()"
proof -
  have "\<exists>x. nextAlarm now rows r = Inr x" using assms(2) by (cases e) (auto simp: nextAlarm_def Let_def)
  then show ?thesis
    using storage_call_clean[OF assms(1)] by (auto simp: scheduleNextAlarm_def storage_result_def)
qed

lemma generation_frames:
  "tears r r' \<Longrightarrow> currentGeneration r' = currentGeneration r \<and> stored_generation r' = stored_generation r"
  by (simp add: tears_def storage_of_def)

lemma rotate_outcome:
  assumes "currentGeneration r0 \<noteq> gen" and run: "rotateTokenGeneration now gen rows r0 = (res, r')"
  shows "(currentGeneration r' = gen \<and> stored_generation r' = gen) \<or>
      (res = Inl PlatformFault \<and> same_sockets r0 r')"
    and "no_faults r0 \<Longrightarrow> earliestRetainedExpiryMs rows = Inr e \<Longrightarrow>
      res = Inr () \<and> (\<forall>i \<in> set (all_webSockets r0). of_generation gen r' i)"
proof -
  define st where "st = storage_call (\<lambda>r. r\<lparr>stored_generation := gen\<rparr>) r0"
  define r2 where "r2 = (snd st)\<lparr>currentGeneration := gen\<rparr>"
  define ss where "ss = for_each (rotateServerStep now gen) (getWebSockets ServerRole r2) r2"
  define cs where "cs = for_each (rotateClientStep now gen) (getWebSockets ClientRole (snd ss)) (snd ss)"
  have run': "(res, r') = (if \<not> fst st then (Inl PlatformFault, snd st)
      else if \<not> fst ss \<or> \<not> fst cs then (Inl TeardownIntegrity, snd cs)
      else scheduleNextAlarm now rows (snd cs))"
    using run[symmetric] assms(1)
    by (simp add: rotateTokenGeneration_def st_def[symmetric] r2_def[symmetric] ss_def[symmetric]
        cs_def[symmetric] Let_def case_prod_unfold)
  have t: "tears r2 (snd ss)" "tears (snd ss) (snd cs)"
    unfolding ss_def cs_def
    by (rule tears_for_each; auto simp: rotateServerStep_def rotateClientStep_def tears_close
        tears_failServer_read tears_failClient_read split: option.split)+
  have alarm_gen: "stored_generation (snd (scheduleNextAlarm now rows q)) = stored_generation q" for q
    by (auto simp: scheduleNextAlarm_def storage_result_def storage_call_def Let_def case_prod_unfold
        platform_call_def split: sum.split)
  show "(currentGeneration r' = gen \<and> stored_generation r' = gen) \<or> (res = Inl PlatformFault \<and> same_sockets r0 r')"
  proof (cases "fst st")
    case True
    then have "stored_generation r2 = gen" "currentGeneration r2 = gen"
      by (auto simp: r2_def st_def storage_call_def Let_def case_prod_unfold split: if_splits)
    then have "currentGeneration (snd cs) = gen" "stored_generation (snd cs) = gen"
      using generation_frames[OF t(1)] generation_frames[OF t(2)] by simp_all
    with run' True alarm_gen read_same(6)[OF same_scheduleNextAlarm[of "snd cs" now rows]] show ?thesis
      by (auto split: if_splits simp: prod_eq_iff)
  next
    case False
    have "same_sockets r0 (snd st)" unfolding st_def by (rule same_storage) simp_all
    with run' False show ?thesis by simp
  qed
  assume nf: "no_faults r0" and e: "earliestRetainedExpiryMs rows = Inr e"
  have st: "fst st" "no_faults r2"
    using storage_call_clean[OF nf] nf by (simp_all add: st_def r2_def no_faults_def platform_call_def)
  note servers = rotate_loops(1)[OF st(2), of now gen "getWebSockets ServerRole r2", folded ss_def]
  from servers have nf_s: "no_faults (snd ss)" by simp
  note clients = rotate_loops(2)[OF nf_s, of now gen "getWebSockets ClientRole (snd ss)", folded cs_def]
  have done_: "(res, r') = scheduleNextAlarm now rows (snd cs)" using run' st servers clients by simp
  have res: "res = Inr ()"
    using scheduleNext_clean[OF _ e, of "snd cs" now] clients done_ by (metis fst_conv)
  have same: "same_sockets (snd cs) r'" using same_scheduleNextAlarm[of "snd cs" now rows] done_ by (metis snd_conv)
  have "of_generation gen r' i" if i: "i \<in> set (all_webSockets r0)" for i
  proof -
    have sk: "sock r2 = sock r0" "sock_count r2 = sock_count r0"
      by (auto simp: r2_def st_def storage_call_def Let_def case_prod_unfold platform_call_def)
    have "i \<in> set (getWebSockets ServerRole r2) \<or> i \<in> set (getWebSockets ClientRole (snd ss))"
      using i sk getWebSockets_tears[OF t(1), of ClientRole]
      by (cases "so_role (sock r0 i)") (auto simp: all_webSockets_def getWebSockets_def)
    then have "of_generation gen (snd cs) i"
      using servers clients of_generation_winds[OF _ winds_tears[OF t(2)]] by blast
    with read_same(1,4)[OF same] show ?thesis by (simp add: of_generation_def)
  qed
  with res show "res = Inr () \<and> (\<forall>i \<in> set (all_webSockets r0). of_generation gen r' i)" by blast
qed


subsection \<open>The alarm is the earliest deadline\<close>

text \<open>Everything an open room waits for, without the alarm's clamping to the next millisecond.\<close>

definition client_deadlines :: "room \<Rightarrow> int set" where
  "client_deadlines r =
     {d. \<exists>i \<in> set (getWebSockets ClientRole r). \<exists>a. is_open r i \<and> readClientAttachment r i = Some a \<and>
        (if stage a = Terminal then terminalCloseAttemptAt a = Some d else d = expiresAt a)}"

definition ticket_deadlines :: "room \<Rightarrow> int set" where
  "ticket_deadlines r =
     {d. \<exists>i \<in> set (getWebSockets ServerRole r). \<exists>s. is_open r i \<and> readServerAttachment r i = Some s \<and>
        sv_current s \<and> d \<in> tk_expiresAt ` set (sv_tickets s)}"

definition deadlines :: "ledger \<Rightarrow> room \<Rightarrow> int set" where
  "deadlines rows r = client_deadlines r \<union> ticket_deadlines r \<union>
     (\<lambda>row. ar_accepted_at_ms row + RENDEZVOUS_ROLLING_WINDOW_MS) ` set rows"

definition alarm_for :: "int \<Rightarrow> int set \<Rightarrow> int option" where
  "alarm_for now ds = (if ds = {} then None else Some (max (now + 1) (Min ds)))"

lemma fold_earlier_Some: "fold (\<lambda>t n. earlier n t) xs (Some m) = Some (Min (insert m (set xs)))"
proof (induction xs arbitrary: m)
  case (Cons x xs)
  have "Min (insert m (insert x (set xs))) = Min (insert (min m x) (set xs))"
    by (cases xs) (simp_all add: min.assoc)
  with Cons.IH[of "min m x"] show ?case by simp
qed simp

lemma fold_earlier: "fold (\<lambda>t n. earlier n t) xs None = (if xs = [] then None else Some (Min (set xs)))"
  by (cases xs) (simp_all add: fold_earlier_Some)

lemma Min_max:
  assumes "finite A" "A \<noteq> {}" shows "Min (max c ` A) = max c (Min (A :: int set))"
proof -
  have "mono (max c :: int \<Rightarrow> int)" by (rule monoI) (rule max.mono, simp_all)
  from mono_Min_commute[OF this assms] show ?thesis by simp
qed

lemma client_alarm_iff:
  "client_alarm now r i = Some x \<longleftrightarrow>
     (\<exists>a d. is_open r i \<and> readClientAttachment r i = Some a \<and>
        (if stage a = Terminal then terminalCloseAttemptAt a = Some d else d = expiresAt a) \<and>
        x = max (now + 1) d)"
  by (cases "readClientAttachment r i") (auto simp: client_alarm_def)

lemma server_alarms_iff:
  "x \<in> set (server_alarms now r i) \<longleftrightarrow>
     (\<exists>s d. is_open r i \<and> readServerAttachment r i = Some s \<and> sv_current s \<and>
        d \<in> tk_expiresAt ` set (sv_tickets s) \<and> x = max (now + 1) d)"
  by (cases "readServerAttachment r i") (auto simp: server_alarms_def)

lemma socket_alarms_set:
  "set (socket_alarms now r) = max (now + 1) ` (client_deadlines r \<union> ticket_deadlines r)"
proof -
  have "x \<in> set (List.map_filter (client_alarm now r) (getWebSockets ClientRole r)) \<longleftrightarrow>
      x \<in> max (now + 1) ` client_deadlines r" for x
    unfolding map_filter_set client_alarm_iff client_deadlines_def image_def mem_Collect_eq by blast
  moreover have "x \<in> set (concat (map (server_alarms now r) (getWebSockets ServerRole r))) \<longleftrightarrow>
      x \<in> max (now + 1) ` ticket_deadlines r" for x
    unfolding set_concat set_map UN_iff bex_simps server_alarms_iff ticket_deadlines_def image_def[of "max (now + 1)"]
      mem_Collect_eq by blast
  ultimately show ?thesis unfolding socket_alarms_def set_append image_Un by blast
qed

lemma finite_deadlines: "finite (client_deadlines r)" "finite (ticket_deadlines r)"
proof -
  have "client_deadlines r \<subseteq> (\<lambda>i. case readClientAttachment r i of
      Some a \<Rightarrow> if stage a = Terminal then the (terminalCloseAttemptAt a) else expiresAt a | None \<Rightarrow> 0)
      ` set (getWebSockets ClientRole r)"
    by (force simp: client_deadlines_def image_iff split: if_splits)
  then show "finite (client_deadlines r)" by (rule finite_subset) simp
  have "ticket_deadlines r \<subseteq> (\<Union>i \<in> set (getWebSockets ServerRole r). case readServerAttachment r i of
      Some s \<Rightarrow> tk_expiresAt ` set (sv_tickets s) | None \<Rightarrow> {})"
    by (force simp: ticket_deadlines_def)
  then show "finite (ticket_deadlines r)" by (rule finite_subset) (auto split: option.split)
qed

lemma earliest_retained:
  assumes "earliestRetainedExpiryMs rows = Inr e"
  shows "e = (if rows = [] then None
    else Some (Min ((\<lambda>row. ar_accepted_at_ms row + RENDEZVOUS_ROLLING_WINDOW_MS) ` set rows)))"
proof (cases "js_sort compareAdmissions rows")
  case Nil
  then have "rows = []" using length_js_sort[of compareAdmissions rows] by simp
  with assms show ?thesis by (simp add: earliestRetainedExpiryMs_def)
next
  case (Cons row rest)
  let ?f = "\<lambda>row. ar_accepted_at_ms row + RENDEZVOUS_ROLLING_WINDOW_MS"
  have mem: "row \<in> set rows" using set_js_sort[of compareAdmissions rows] Cons by auto
  have "?f row \<le> ?f x" if "x \<in> set rows" for x
    using admission_order.js_sort_first[OF Cons that] by (auto simp: compareAdmissions_def split: if_splits)
  then have "Min (?f ` set rows) = ?f row" using mem by (intro Min_eqI) auto
  moreover have "rows \<noteq> []" using mem by auto
  ultimately show ?thesis using assms Cons by (auto simp: earliestRetainedExpiryMs_def split: if_splits)
qed

lemma nextAlarm_exact:
  assumes "nextAlarm now rows r = Inr nx"
  shows "nx = alarm_for now (deadlines rows r)"
proof -
  define S where "S = client_deadlines r \<union> ticket_deadlines r"
  define L where "L = (\<lambda>row. ar_accepted_at_ms row + RENDEZVOUS_ROLLING_WINDOW_MS) ` set rows"
  obtain e where e: "earliestRetainedExpiryMs rows = Inr e"
    using assms by (auto simp: nextAlarm_def Let_def split: sum.splits)
  have fin: "finite S" by (simp add: S_def finite_deadlines)
  have sock: "fold (\<lambda>t n. earlier n t) (socket_alarms now r) None =
      (if S = {} then None else Some (max (now + 1) (Min S)))"
    using socket_alarms_set[of now r] Min_max[OF fin, of "now + 1"]
    by (cases "S = {}") (auto simp: fold_earlier S_def[symmetric])
  have led: "e = (if L = {} then None else Some (Min L))" "finite L"
    using earliest_retained[OF e] by (auto simp: L_def)
  have "nx = (case e of None \<Rightarrow> fold (\<lambda>t n. earlier n t) (socket_alarms now r) None
      | Some m \<Rightarrow> earlier (fold (\<lambda>t n. earlier n t) (socket_alarms now r) None) (max (now + 1) m))"
    using assms by (simp add: nextAlarm_def e Let_def split: option.splits)
  note this[unfolded sock]
  moreover have "deadlines rows r = S \<union> L" by (simp add: deadlines_def S_def L_def)
  moreover have "S \<noteq> {} \<Longrightarrow> L \<noteq> {} \<Longrightarrow> Min (S \<union> L) = min (Min S) (Min L)"
    using fin led(2) by (simp add: Min_Un)
  ultimately show ?thesis
    by (cases "S = {}"; cases "L = {}") (simp_all add: alarm_for_def led(1) max_min_distrib2)
qed


lemma deadlines_same: "same_sockets r r' \<Longrightarrow> deadlines rows r' = deadlines rows r"
  by (simp add: deadlines_def client_deadlines_def ticket_deadlines_def read_same)

lemma scheduleNext_exact:
  assumes "scheduleNextAlarm now rows r = (Inr (), r')"
  shows "stored_alarm r' = alarm_for now (deadlines rows r')" "same_sockets r r'"
proof -
  show same: "same_sockets r r'" using same_scheduleNextAlarm[of r now rows] assms by simp
  obtain nx where nx: "nextAlarm now rows r = Inr nx"
    using assms by (auto simp: scheduleNextAlarm_def split: sum.splits)
  then have "stored_alarm r' = nx"
    using assms by (auto simp: scheduleNextAlarm_def storage_result_def storage_call_def Let_def case_prod_unfold
        split: if_splits)
  with nextAlarm_exact[OF nx] deadlines_same[OF same]
  show "stored_alarm r' = alarm_for now (deadlines rows r')" by simp
qed

subsection \<open>The alarm without platform faults\<close>

definition in_time :: "int \<Rightarrow> room \<Rightarrow> nat \<Rightarrow> bool" where
  "in_time now r i \<longleftrightarrow> \<not> is_open r i \<or>
     (\<exists>a. readClientAttachment r i = Some a \<and> (stage a = Terminal \<or> now < expiresAt a))"

lemma in_time_winds: "in_time now r i \<Longrightarrow> winds_down r r' \<Longrightarrow> in_time now r' i"
proof -
  assume t: "in_time now r i" and "winds_down r r'"
  then have w: "is_open r' i \<longrightarrow> is_open r i" "att_torn (readAttachment r i) (readAttachment r' i)"
    by (auto simp: winds_down_def)
  with t show ?thesis
    by (cases "(readAttachment r i, readAttachment r' i)" rule: att_torn.cases)
      (auto simp: in_time_def readClientAttachment_def client_torn_def)
qed

lemma expireStep_clean:
  assumes "no_faults r"
  shows "fst (expireClientStep now i r) \<and> no_faults (snd (expireClientStep now i r)) \<and>
    in_time now (snd (expireClientStep now i r)) i"
proof (cases "readClientAttachment r i")
  case None
  have "fst (closeSocket i close_internalError r)" "\<not> is_open (snd (closeSocket i close_internalError r)) i"
    using no_faults_close[OF assms] closeSocket_closed by auto
  with None assms show ?thesis by (simp add: expireClientStep_def in_time_def no_faults_frame)
next
  case (Some a)
  define w where "w = tryWriteAttachment i (ClientA (a\<lparr>terminalCloseAttempts := terminalCloseAttempts a + 1\<rparr>)) r"
  define c where "c = closeSocket i close_internalError (snd w)"
  define f where "f out cl = failClient now i a out cl r" for out cl
  have fail: "fst (f out cl) \<and> no_faults (snd (f out cl)) \<and> in_time now (snd (f out cl)) i" for out cl
    using closeClientStep_clean[OF assms, of now out cl i] Some by (simp add: closeClientStep_def f_def in_time_def)
  have w: "fst w" "no_faults (snd w)" using no_faults_write[OF assms] assms by (simp_all add: w_def no_faults_frame)
  have c: "no_faults (snd c)" "in_time now (snd c) i"
    using w no_faults_close[OF w(2)] closeSocket_closed[of i close_internalError "snd w"]
    by (simp_all add: c_def no_faults_frame in_time_def)
  have "expireClientStep now i r = (case pendingClientOutcomes r i of
      Some pending \<Rightarrow> f pending (rendezvousCloseForOutcome pending)
    | None \<Rightarrow> if expiresAt a \<le> now then
        (if stage a = Terminal then (case terminalCloseAttemptAt a of None \<Rightarrow> (True, r)
           | Some t \<Rightarrow> if t \<le> now then (fst w \<or> fst c, snd c) else (True, r))
         else f SessionExpired close_sessionExpired)
      else (True, r))"
    unfolding expireClientStep_def f_def w_def c_def Let_def case_prod_unfold using Some by simp
  then show ?thesis
    using fail w c assms Some by (simp add: in_time_def split: option.split)
qed

lemma expireClients_clean:
  assumes "no_faults r"
  shows "fst (expireClients now r)" "no_faults (snd (expireClients now r))"
    "\<forall>i \<in> set (getWebSockets ClientRole r). in_time now (snd (expireClients now r)) i"
proof -
  have loop: "fst (for_each (expireClientStep now) is r) \<and> no_faults (snd (for_each (expireClientStep now) is r)) \<and>
      (\<forall>i \<in> set is. in_time now (snd (for_each (expireClientStep now) is r)) i)" if "no_faults r" for "is" r
    using that
  proof (induction "is" arbitrary: r)
    case (Cons k ks)
    let ?r1 = "snd (expireClientStep now k r)"
    have "tears ?r1 (snd (for_each (expireClientStep now) ks ?r1))"
      by (rule tears_for_each[OF tears_expireClientStep tears_refl])
    note w = in_time_winds[OF _ winds_tears[OF this]]
    have one: "fst (expireClientStep now k r)" "no_faults ?r1" "in_time now ?r1 k"
      using expireStep_clean[OF Cons.prems] by auto
    with w[OF one(3)] Cons.IH[OF one(2)] show ?case by (simp add: Let_def case_prod_unfold)
  qed simp
  show "fst (expireClients now r)" "no_faults (snd (expireClients now r))"
    "\<forall>i \<in> set (getWebSockets ClientRole r). in_time now (snd (expireClients now r)) i"
    unfolding expireClients_def using loop[OF assms] by blast+
qed

lemma retireDuplicates_clean: "no_faults r \<Longrightarrow> fst (retireDuplicates xs r)"
proof (induction xs arbitrary: r)
  case (Cons x xs)
  with retireServerImmediately_clean[OF Cons.prems, of x close_internalError] show ?case
    by (simp add: Let_def case_prod_unfold)
qed simp

lemma reconcile_clean: "no_faults r \<Longrightarrow> \<exists>w. fst (reconcileActiveServer now ign r) = Inr w"
proof -
  assume nf: "no_faults r"
  define r1 where "r1 = snd (retryPendingServerTeardowns now r)"
  have nf1: "no_faults r1" using nf by (simp add: no_faults_def r1_def)
  have all: "fst (closeAllClients now out cl q)" "no_faults (snd (closeAllClients now out cl q))" if "no_faults q" for out cl q
    using that closeAllClients_clean(1) by (simp_all add: no_faults_def)
  have "\<exists>w. fst (reconcileDuplicates now act r1) = Inr w" for act
    using all[OF nf1] retireDuplicates_clean[OF all(2)[OF nf1]]
    by (simp add: reconcileDuplicates_def Let_def case_prod_unfold)
  moreover have "\<exists>w. fst (reconcileReplacement now act r1) = Inr w" for act
    using chooseWinner_clean[OF nf1, of now] all(1)
    by (auto simp: reconcileReplacement_def Let_def case_prod_unfold split: list.split sum.split)
  ultimately show ?thesis
    using retryPending_clean[OF nf, of now]
    unfolding reconcileActiveServer_def Let_def case_prod_unfold r1_def[symmetric] by simp
qed

lemma pruneLoop_clean:
  "no_faults r \<Longrightarrow> \<not> failed \<Longrightarrow> fst (pruneServers_loop now act inv' failed is r) = Inr () \<and>
   no_faults (snd (pruneServers_loop now act inv' failed is r))"
proof (induction "is" arbitrary: inv' failed r)
  case (Cons i "is")
  show ?case
  proof (cases "readServerAttachment r i")
    case None
    define cc where "cc = (if \<not> act \<and> \<not> inv' then closeAllClients now InternalError close_internalError r else (True, r))"
    have cc: "fst cc" "no_faults (snd cc)"
      using Cons.prems(1) closeAllClients_clean(1)[OF Cons.prems(1)] by (simp_all add: cc_def no_faults_def)
    define c where "c = closeSocket i close_internalError (snd cc)"
    have c: "fst c" "no_faults (snd c)"
      using no_faults_close[OF cc(2)] cc(2) by (simp_all add: c_def no_faults_frame)
    from None Cons.IH[OF c(2)] cc(1) c(1) Cons.prems(2) show ?thesis
      by (simp add: cc_def[symmetric] c_def[symmetric] case_prod_unfold Let_def)
  next
    case (Some s)
    obtain ch s1 where p: "pruneTicketList s now = (ch, s1)" by fastforce
    obtain ok r1 where w: "writeAttachment i (ServerA s1) r = (ok, r1)" by fastforce
    have "ok = Inr ()" "no_faults r1"
      using w no_faults_write[OF Cons.prems(1), of i "ServerA s1"] Cons.prems(1)
        no_faults_frame(1)[of i "ServerA s1" r]
      by (auto simp: writeAttachment_def Let_def case_prod_unfold)
    with Some p w Cons.IH Cons.prems show ?thesis by (cases ch) simp_all
  qed
qed simp

lemma pruneTickets_clean:
  assumes "no_faults r" shows "fst (pruneServerTickets now r) = Inr ()" "no_faults (snd (pruneServerTickets now r))"
proof -
  obtain w r1 where rec: "reconcileActiveServer now None r = (Inr w, r1)"
    using reconcile_clean[OF assms, of now None] by (metis prod.collapse)
  have "no_faults r1" using no_faults_reconcile[OF assms, of now None] rec by simp
  from pruneLoop_clean[OF this, where failed = False] rec
  show "fst (pruneServerTickets now r) = Inr ()" "no_faults (snd (pruneServerTickets now r))"
    by (simp_all add: pruneServerTickets_def)
qed

lemma alarm_outcome:
  assumes "no_faults r0" "ensureInitialized r0" "assertNow now" "earliestRetainedExpiryMs (pruned now rows) = Inr e"
  shows "\<exists>r'. alarm now ai rows r0 = (Inr (), pruned now rows, r') \<and>
    stored_alarm r' = alarm_for now (deadlines (pruned now rows) r') \<and>
    (\<forall>i \<in> set (getWebSockets ClientRole r0). in_time now r' i)"
proof -
  define a where "a = retryPendingServerTeardowns now r0"
  define b where "b = expireClients now (snd a)"
  define c where "c = pruneServerTickets now (snd b)"
  have a: "fst a" "no_faults (snd a)" using retryPending_clean[OF assms(1)] assms(1) by (simp_all add: a_def no_faults_def)
  note b = expireClients_clean[OF a(2), of now, folded b_def]
  note c = pruneTickets_clean[OF b(2), of now, folded c_def]
  have sweeps: "alarm_sweeps now r0 = (Inr True, snd c)"
    using a(1) b(1) c(1) by (simp add: alarm_sweeps_def a_def[symmetric] b_def[symmetric] c_def[symmetric]
      Let_def case_prod_unfold prod_eq_iff split: prod.split)
  define st where "st = (if teardownRecoveryPersisted (snd c)
      then storage_call (\<lambda>r. r\<lparr>stored_recovery := False, teardownRecoveryPersisted := False\<rparr>) (snd c)
      else (True, snd c))"
  have st: "fst st" "no_faults (snd st)" "same_sockets (snd c) (snd st)"
    using storage_call_clean[OF c(2)] c(2)
    by (auto simp: st_def no_faults_def platform_call_def same_sockets_def)
  obtain r' where sch: "scheduleNextAlarm now (pruned now rows) (snd st) = (Inr (), r')"
    using scheduleNext_clean[OF st(2) assms(4)] by (metis prod.collapse)
  note exact = scheduleNext_exact[OF sch]
  have flags: "\<not> initializationFailed r0" "\<not> teardownRecoveryRequired r0"
    using assms(2) by (simp_all add: ensureInitialized_def)
  have run: "alarm now ai rows r0 = (Inr (), pruned now rows, r')"
    using flags sweeps assms(3) st(1) sch
    by (simp add: alarm_def alarm_recovery_def prune_eq alarm_settle_def st_def[symmetric] Let_def case_prod_unfold)
  have same: "same_sockets (snd c) r'" by (rule same_sockets_trans[OF st(3) exact(2)])
  have "in_time now r' i" if i: "i \<in> set (getWebSockets ClientRole r0)" for i
  proof -
    have "tears r0 (snd a)" unfolding a_def by (rule tears_retryPending[OF tears_refl])
    with i have "i \<in> set (getWebSockets ClientRole (snd a))" using getWebSockets_tears by simp
    with b(3) have "in_time now (snd b) i" by blast
    moreover have "winds_down (snd b) (snd c)"
      unfolding c_def by (rule winds_tears[OF tears_pruneServerTickets[OF tears_refl]])
    ultimately have "in_time now (snd c) i" by (rule in_time_winds)
    with read_same[OF same] show ?thesis by (simp add: in_time_def)
  qed
  with run exact(1) show ?thesis by blast
qed


subsection \<open>The message queues\<close>

text \<open>
  One event of a socket's queue: a frame is queued, a queued frame settles, or the socket's
  end drops the queue. \<open>flights\<close> lists the frames that have not settled, each with its socket
  and its queue; a frame of a dropped queue may still settle. \<open>lim\<close> is the socket's limit.
\<close>

inductive queue_step :: "(nat \<Rightarrow> int) \<Rightarrow> queues \<times> (nat \<times> nat) multiset \<Rightarrow>
    queues \<times> (nat \<times> nat) multiset \<Rightarrow> bool" for lim where
  queue_frame: "socket_pending q i < lim i \<Longrightarrow> enqueue i q = (k, q1) \<Longrightarrow>
    queue_step lim (q, fl) (q1, add_mset (i, k) fl)"
| queue_settled: "(i, k) \<in># fl \<Longrightarrow> queue_step lim (q, fl) (dequeue i k q, fl - {#(i, k)#})"
| queue_gone: "queue_step lim (q, fl) (q\<lparr>mq_of := (mq_of q)(i := None)\<rparr>, fl)"

inductive_cases queue_step_cases: "queue_step lim (q, fl) (q', fl')"

definition no_queues :: queues where
  "no_queues = \<lparr> mq_of = (\<lambda>_. None), mq_pending = (\<lambda>_. 0), mq_count = 0 \<rparr>"

text \<open>
  A queue counts exactly its unsettled frames; only its own socket points to it; a socket's
  queue is not empty.
\<close>

definition queues_ok :: "(nat \<Rightarrow> int) \<Rightarrow> queues \<times> (nat \<times> nat) multiset \<Rightarrow> bool" where
  "queues_ok lim = (\<lambda>(q, fl).
     (\<forall>i k. (i, k) \<in># fl \<longrightarrow> k < mq_count q) \<and>
     (\<forall>k. mq_pending q k = int (size (filter_mset (\<lambda>x. snd x = k) fl))) \<and>
     (\<forall>i j k. (i, k) \<in># fl \<longrightarrow> (j, k) \<in># fl \<longrightarrow> i = j) \<and>
     (\<forall>i k. mq_of q i = Some k \<longrightarrow> (i, k) \<in># fl) \<and>
     (\<forall>i k. (i, k) \<in># fl \<longrightarrow> mq_pending q k \<le> lim i))"

lemma queue_step_ok:
  assumes "queue_step lim (q, fl) (q', fl')" "queues_ok lim (q, fl)"
  shows "queues_ok lim (q', fl')"
  using assms(1)
proof (cases rule: queue_step_cases[consumes 1, case_names queue_frame queue_settled queue_gone])
  case (queue_frame i k)
  show ?thesis
  proof (cases "mq_of q i")
    case None
    then have k: "k = mq_count q" "q' = q\<lparr>mq_of := (mq_of q)(i := Some k), mq_pending := (mq_pending q)(k := 1),
        mq_count := k + 1\<rparr>"
      using queue_frame by (auto simp: enqueue_def Let_def)
    have "filter_mset (\<lambda>x. snd x = k) fl = {#}"
      using assms(2) k(1) by (auto simp: queues_ok_def filter_mset_eq_mempty_iff)
    with k queue_frame None assms(2) show ?thesis
      by (auto simp: queues_ok_def less_Suc_eq socket_pending_def)
  next
    case (Some k')
    then have k: "k' = k" "q' = q\<lparr>mq_pending := (mq_pending q)(k := mq_pending q k + 1)\<rparr>"
      using queue_frame by (auto simp: enqueue_def)
    with Some queue_frame assms(2) show ?thesis
      by (fastforce simp: queues_ok_def socket_pending_def)
  qed
next
  case (queue_settled i k)
  then have mem: "(i, k) \<in># fl" by simp
  define fl1 where "fl1 = fl - {#(i, k)#}"
  have fl: "fl = add_mset (i, k) fl1" using mem by (simp add: fl1_def)
  define q1 where "q1 = q\<lparr>mq_pending := (mq_pending q)(k := mq_pending q k - 1)\<rparr>"
  have q': "q' = (if mq_pending q1 k = 0 then q1\<lparr>mq_of := (mq_of q1)(i := None)\<rparr> else q1)" "fl' = fl1"
    using queue_settled by (simp_all add: dequeue_def q1_def Let_def fl1_def)
  have count: "mq_pending q1 k' = int (size (filter_mset (\<lambda>x. snd x = k') fl1))" for k'
    using assms(2) by (simp add: queues_ok_def q1_def fl)
  have owner: "j = i" if "(j, k) \<in># fl" for j
    using assms(2) that mem by (auto simp: queues_ok_def)
  have left: "(i, k) \<in># fl1" if "mq_pending q1 k \<noteq> 0"
  proof -
    have "filter_mset (\<lambda>x. snd x = k) fl1 \<noteq> {#}" using that count by auto
    then obtain x where "x \<in># fl1" "snd x = k" by (auto simp: filter_mset_eq_mempty_iff)
    then show ?thesis using owner[of "fst x"] by (cases x) (simp add: fl)
  qed
  have mapped: "(j, k') \<in># fl1" if "mq_of q' j = Some k'" for j k'
  proof -
    have old: "mq_of q j = Some k'" "j = i \<longrightarrow> mq_pending q1 k \<noteq> 0"
      using that q'(1) by (auto simp: q1_def split: if_splits)
    from old(1) have fl_mem: "(j, k') \<in># fl" using assms(2) by (simp add: queues_ok_def)
    show ?thesis
    proof (cases "k' = k")
      case True
      with fl_mem owner have "j = i" by blast
      with left old(2) True show ?thesis by simp
    next
      case False
      with fl_mem show ?thesis by (simp add: fl)
    qed
  qed
  have sub: "x \<in># fl1 \<Longrightarrow> x \<in># fl" for x by (simp add: fl)
  have old: "\<And>j k'. (j, k') \<in># fl \<Longrightarrow> k' < mq_count q" "\<And>j j' k'. (j, k') \<in># fl \<Longrightarrow> (j', k') \<in># fl \<Longrightarrow> j = j'"
    "\<And>j k'. (j, k') \<in># fl \<Longrightarrow> mq_pending q k' \<le> lim j"
    using assms(2) unfolding queues_ok_def prod.case by blast+
  have bound: "mq_pending q1 k' \<le> lim j" if "(j, k') \<in># fl1" for j k'
    using old(3)[OF sub[OF that]] by (auto simp: q1_def)
  have "mq_pending q' = mq_pending q1" "mq_count q' = mq_count q" using q'(1) by (simp_all add: q1_def)
  then show ?thesis
    unfolding queues_ok_def q'(2) prod.case
    using mapped bound count old(1)[OF sub] old(2)[OF sub sub] by (intro conjI allI impI) simp_all
next
  case (queue_gone i)
  with assms(2) show ?thesis by (auto simp: queues_ok_def split: if_splits)
qed

lemma queues_reach:
  "(queue_step lim)\<^sup>*\<^sup>* (no_queues, {#}) s \<Longrightarrow> queues_ok lim s"
proof (induction rule: rtranclp_induct)
  case base
  show ?case by (simp add: queues_ok_def no_queues_def)
next
  case (step s s')
  then show ?case using queue_step_ok by (cases s; cases s') blast
qed

lemma webSocketMessage_step:
  "case webSocketMessage now i ok (q, r) of
     (Inr (Some k), q1, r1) \<Rightarrow> r1 = r \<and> queue_step (maximumPending r) (q, fl) (q1, add_mset (i, k) fl)
   | (_, q1, _) \<Rightarrow> q1 = q"
proof -
  obtain k q1 where e: "enqueue i q = (k, q1)" by fastforce
  show ?thesis
    using queue_frame[OF _ e, of "maximumPending r" fl]
    by (simp add: webSocketMessage_def e Let_def case_prod_unfold)
qed

lemma maximumPending_pos: "0 \<le> maximumPending r i"
  by (simp add: maximumPending_def MAX_CLIENT_PENDING_MESSAGES_def MAX_SERVER_PENDING_MESSAGES_def
      attachment_bounds MAX_RENDEZVOUS_ACTIVE_CLIENTS_def)

subsection \<open>Properties of the events\<close>

text \<open>
  C20: A rotation makes the new generation current and stored before it retires anything,
  so whatever fails afterwards the old generation is fenced; without faults it succeeds
  and every socket left open belongs to the new generation.
\<close>

theorem rotation_leaves_no_stale:
  assumes "currentGeneration r0 \<noteq> gen"
  shows "case rotateTokenGeneration now gen rows r0 of (res, r') \<Rightarrow>
      (currentGeneration r' = gen \<and> stored_generation r' = gen \<or>
       res = Inl PlatformFault \<and> same_sockets r0 r') \<and>
      (no_faults r0 \<and> earliestRetainedExpiryMs rows = Inr e \<longrightarrow>
       res = Inr () \<and> (\<forall>i \<in> set (all_webSockets r0). of_generation gen r' i))"
proof -
  obtain res r' where run: "rotateTokenGeneration now gen rows r0 = (res, r')" by fastforce
  from rotate_outcome[OF assms run] show ?thesis unfolding run prod.case by blast
qed

theorem rotation_leaves_no_stale_witness:
  "fst (rotateTokenGeneration 900 None [] (example_room (\<lambda>_. True))) = Inr () \<and>
   \<not> is_open (snd (rotateTokenGeneration 900 None [] (example_room (\<lambda>_. True)))) 0 \<and>
   \<not> is_open (snd (rotateTokenGeneration 900 None [] (example_room (\<lambda>_. True)))) 1"
proof -
  have "no_faults (example_room (\<lambda>_. True))" by (simp add: no_faults_def)
  moreover have "earliestRetainedExpiryMs [] = Inr None" by code_simp
  moreover have "all_webSockets (example_room (\<lambda>_. True)) = [0, 1]"
    by (simp add: all_webSockets_def upt_rec numeral_2_eq_2) (simp add: example_room_def example_socket_def)
  moreover have "of_generation None r i \<longleftrightarrow> \<not> is_open r i" for r i
    by (auto simp: of_generation_def split: option.split attachment.split)
  ultimately show ?thesis
    using rotation_leaves_no_stale[where ?r0.0 = "example_room (\<lambda>_. True)" and gen = None and now = 900 and rows = "[]" and e = None]
    by (auto split: prod.splits)
qed

text \<open>
  C21: The alarm is exactly the earliest thing an open room waits for: the sessions of its
  open clients, the close retries of terminal ones, the tickets of the open current
  control and the replay ledger, but never before the next millisecond; and there is no
  alarm when there is nothing to wait for.
\<close>

theorem alarm_is_earliest_deadline:
  assumes "scheduleNextAlarm now rows r = (Inr (), r')"
  shows "stored_alarm r' = alarm_for now (deadlines rows r') \<and> same_sockets r r'"
  using scheduleNext_exact[OF assms] by blast

theorem alarm_is_earliest_deadline_witness:
  "\<exists>r'. scheduleNextAlarm 900 [] (example_room (\<lambda>_. True)) = (Inr (), r') \<and>
     stored_alarm r' = alarm_for 900 {expiresAt example_client}"
proof -
  let ?r = "example_room (\<lambda>_. True)"
  have "fst (scheduleNextAlarm 900 [] ?r) = Inr ()"
    by (rule scheduleNext_clean) (simp add: no_faults_def, code_simp)
  then obtain r' where run: "scheduleNextAlarm 900 [] ?r = (Inr (), r')" by (metis prod.collapse)
  have "stage example_client \<noteq> Terminal" by (simp add: example_client_def)
  then have "deadlines [] ?r = {expiresAt example_client}"
    by (auto simp: deadlines_def client_deadlines_def ticket_deadlines_def example_room_client
        example_room_server example_server_def)
  with alarm_is_earliest_deadline[OF run] deadlines_same run show ?thesis by auto
qed

text \<open>
  C22: Without platform faults an alarm succeeds, prunes the replay ledger, leaves no open
  client socket that is unreadable or past its session without being terminal, and sets
  the next alarm for exactly what remains.
\<close>

theorem alarm_settles_overdue:
  assumes "no_faults r0" "ensureInitialized r0" "assertNow now" "earliestRetainedExpiryMs (pruned now rows) = Inr e"
  shows "\<exists>r'. alarm now ai rows r0 = (Inr (), pruned now rows, r') \<and>
    stored_alarm r' = alarm_for now (deadlines (pruned now rows) r') \<and>
    (\<forall>i \<in> set (getWebSockets ClientRole r0). in_time now r' i)"
  using alarm_outcome[OF assms] .

theorem alarm_settles_overdue_witness:
  "\<exists>r'. alarm 20000 True [] (example_room (\<lambda>_. True)) = (Inr (), [], r') \<and> in_time 20000 r' 1"
proof -
  have "no_faults (example_room (\<lambda>_. True))" by (simp add: no_faults_def)
  moreover have "ensureInitialized (example_room (\<lambda>_. True))" by (simp add: ensureInitialized_def example_room_def)
  moreover have "assertNow 20000" by code_simp
  moreover have p: "pruned 20000 [] = []" by (simp add: pruned_def)
  moreover have "earliestRetainedExpiryMs [] = Inr None" by code_simp
  ultimately show ?thesis
    using alarm_settles_overdue[where ?r0.0 = "example_room (\<lambda>_. True)" and now = 20000 and rows = "[]" and e = None and ai = True] by auto
qed

text \<open>
  C23: However frames arrive, settle and sockets end, a socket's queue never holds more
  unsettled frames than its role's limit and counts exactly the unsettled frames it holds;
  a frame the room accepts for processing is one such step and changes nothing else.
\<close>

theorem message_queues_bounded:
  assumes "(queue_step (maximumPending r))\<^sup>*\<^sup>* (no_queues, {#}) (q, fl)"
  shows "socket_pending q i \<le> maximumPending r i \<and>
    (case mq_of q i of
       None \<Rightarrow> True
     | Some k \<Rightarrow> socket_pending q i = int (size (filter_mset (\<lambda>x. snd x = k) fl))) \<and>
    (case webSocketMessage now i ok (q, r) of
       (Inr (Some k), q1, r1) \<Rightarrow> r1 = r \<and> queue_step (maximumPending r) (q, fl) (q1, add_mset (i, k) fl)
     | (_, q1, _) \<Rightarrow> q1 = q)"
  using queues_reach[OF assms] maximumPending_pos[of r i] webSocketMessage_step[where now = now and i = i and ok = ok and q = q and r = r and fl = fl]
  by (auto simp: queues_ok_def socket_pending_def split: option.split)

theorem message_queues_bounded_witness:
  "fst (webSocketMessage 900 1 True (no_queues, example_room (\<lambda>_. True))) = Inr (Some 0) \<and>
   socket_pending (fst (snd (webSocketMessage 900 1 True (no_queues, example_room (\<lambda>_. True))))) 1 \<le>
     maximumPending (example_room (\<lambda>_. True)) 1"
proof -
  let ?r = "example_room (\<lambda>_. True)"
  have one: "fst (webSocketMessage 900 1 True (no_queues, ?r)) = Inr (Some 0)" by code_simp
  obtain q1 r1 where run: "webSocketMessage 900 1 True (no_queues, ?r) = (Inr (Some 0), q1, r1)"
    using one by (metis prod.collapse)
  have "queue_step (maximumPending ?r) (no_queues, {#}) (q1, {#(1, 0)#})"
    using message_queues_bounded[where r = ?r and q = no_queues and fl = "{#}" and i = 1 and now = 900 and ok = True] run by simp
  then have "(queue_step (maximumPending ?r))\<^sup>*\<^sup>* (no_queues, {#}) (q1, {#(1, 0)#})" by simp
  from message_queues_bounded[OF this, where i = 1] run one show ?thesis by simp
qed

end
