(* ===== verification/Sequences.thy ===== *)
theory Sequences
  imports RoomState
begin

text \<open>
  Publisher sequence numbers. They are canonical decimal texts of unsigned 64-bit numbers,
  because SQLite integers are signed. \<open>comparePublishSequences\<close> and
  \<open>minimumNextPublishSequence\<close> of \<open>src/src/rendezvous-room.ts\<close>, and the predicate by which
  the SQL of \<open>rendezvous-publication.ts\<close> and \<open>access-route-state.ts\<close> compares two of them
  (length first, then text), against the numbers the texts denote.
\<close>

subsection \<open>Decimal texts\<close>

definition digit_value :: "char \<Rightarrow> nat" where
  "digit_value c = of_char c - 48"

definition digit_char :: "nat \<Rightarrow> char" where
  "digit_char d = ''0123456789'' ! d"

text \<open>\<open>BigInt(text)\<close> on a text of decimal digits, and \<open>toString()\<close> of what is not negative.\<close>

definition decimal_value :: "string \<Rightarrow> nat" where
  "decimal_value s = foldl (\<lambda>n c. n * 10 + digit_value c) 0 s"

fun to_decimal :: "nat \<Rightarrow> string" where
  "to_decimal n = (if n < 10 then [digit_char n] else to_decimal (n div 10) @ [digit_char (n mod 10)])"

declare to_decimal.simps [simp del]

definition UINT64_MAXIMUM_SEQUENCE :: string where
  "UINT64_MAXIMUM_SEQUENCE = ''18446744073709551615''"

text \<open>The pattern \<open>/^[1-9][0-9]{0,19}$/\<close>.\<close>

definition canonical_sequence :: "string \<Rightarrow> bool" where
  "canonical_sequence s \<longleftrightarrow>
     s \<noteq> '''' \<and> length s \<le> 20 \<and> list_all is_digit s \<and> hd s \<noteq> CHR ''0''"

definition uint64_sequence :: "string \<Rightarrow> bool" where
  "uint64_sequence s \<longleftrightarrow>
     canonical_sequence s \<and> decimal_value s \<le> decimal_value UINT64_MAXIMUM_SEQUENCE"

text \<open>\<open>length(a) > length(b) OR (length(a) = length(b) AND a > b)\<close> of the SQL texts.\<close>

definition sql_newer :: "string \<Rightarrow> string \<Rightarrow> bool" where
  "sql_newer a b \<longleftrightarrow> length a > length b \<or> (length a = length b \<and> a > b)"

definition minimumNextPublishSequence :: "string \<Rightarrow> string" where
  "minimumNextPublishSequence lastSequence =
     (let maximum = decimal_value UINT64_MAXIMUM_SEQUENCE; next = decimal_value lastSequence + 1 in
      to_decimal (if next > maximum then maximum else next))"

subsection \<open>Their values\<close>

lemma is_digit_cases: "is_digit c \<Longrightarrow> \<exists>d < 10. c = digit_char d"
proof -
  assume "is_digit c"
  then obtain i where "i < length ''0123456789''" "''0123456789'' ! i = c"
    unfolding is_digit_def in_set_conv_nth by blast
  then show ?thesis by (intro exI[of _ i]) (simp add: digit_char_def)
qed

lemma digit_value_char: "d < 10 \<Longrightarrow> digit_value (digit_char d) = d"
  by (auto simp: less_Suc_eq numeral_eq_Suc digit_value_def digit_char_def)

lemma is_digit_char: "d < 10 \<Longrightarrow> is_digit (digit_char d)"
  by (auto simp: less_Suc_eq numeral_eq_Suc is_digit_def digit_char_def)

lemma digit_char_less: "d < 10 \<Longrightarrow> e < 10 \<Longrightarrow> digit_char d < digit_char e \<longleftrightarrow> d < e"
  by (auto simp: less_Suc_eq numeral_eq_Suc digit_char_def less_char_def)

lemma digit_value_less: "is_digit c \<Longrightarrow> is_digit d \<Longrightarrow> c < d \<longleftrightarrow> digit_value c < digit_value d"
  using is_digit_cases digit_char_less digit_value_char by metis

lemma digit_value_bound: "is_digit c \<Longrightarrow> digit_value c < 10"
  using is_digit_cases digit_value_char by metis

lemma digit_value_zero: "is_digit c \<Longrightarrow> c \<noteq> CHR ''0'' \<Longrightarrow> 0 < digit_value c"
  by (auto simp: is_digit_def digit_value_def)

lemma decimal_value_foldl: "foldl (\<lambda>n c. n * 10 + digit_value c) k s = k * 10 ^ length s + decimal_value s"
proof (induction s arbitrary: k)
  case (Cons c s)
  show ?case
    by (simp add: decimal_value_def) (simp only: Cons, simp add: algebra_simps)
qed (simp add: decimal_value_def)

lemma decimal_value_simps [simp]:
  "decimal_value [] = 0"
  "decimal_value (c # s) = digit_value c * 10 ^ length s + decimal_value s"
  "decimal_value (s @ [c]) = decimal_value s * 10 + digit_value c"
  using decimal_value_foldl[of "digit_value c" s] by (simp_all add: decimal_value_def)

lemma decimal_value_bound: "list_all is_digit s \<Longrightarrow> decimal_value s < 10 ^ length s"
proof (induction s)
  case (Cons c s)
  then have "digit_value c * 10 ^ length s \<le> 9 * 10 ^ length s" "decimal_value s < 10 ^ length s"
    using digit_value_bound[of c] by (auto intro: mult_right_mono)
  then show ?case unfolding decimal_value_simps length_Cons power_Suc by linarith
qed simp

lemma canonical_value_lower: "canonical_sequence s \<Longrightarrow> 10 ^ (length s - 1) \<le> decimal_value s"
  by (cases s) (auto simp: canonical_sequence_def dest!: digit_value_zero intro: trans_le_add1)

lemma decimal_value_less:
  "length a = length b \<Longrightarrow> list_all is_digit a \<Longrightarrow> list_all is_digit b \<Longrightarrow>
   a < b \<longleftrightarrow> decimal_value a < decimal_value b"
proof (induction a b rule: list_induct2)
  case (Cons c a d b)
  have bounds: "decimal_value a < 10 ^ length a" "decimal_value b < 10 ^ length a"
    using Cons decimal_value_bound[of a] decimal_value_bound[of b] by simp_all
  have less: "x * 10 ^ length a + decimal_value a < y * 10 ^ length a + decimal_value b" if "x < y" for x y
  proof -
    have "(x + 1) * 10 ^ length a \<le> y * 10 ^ length a" using that by (intro mult_right_mono) auto
    with bounds show ?thesis by simp
  qed
  have less': "y * 10 ^ length a + decimal_value b < x * 10 ^ length a + decimal_value a" if "y < x" for x y
  proof -
    have "(y + 1) * 10 ^ length a \<le> x * 10 ^ length a" using that by (intro mult_right_mono) auto
    with bounds show ?thesis by simp
  qed
  have eq: "c = d \<longleftrightarrow> digit_value c = digit_value d"
    using Cons.prems is_digit_cases digit_value_char by (metis list_all_iff list.set_intros(1))
  consider "digit_value c < digit_value d" | "digit_value d < digit_value c" | "digit_value c = digit_value d"
    by linarith
  then show ?case
  proof cases
    case 1
    with less[OF 1] Cons.prems Cons.hyps eq show ?thesis by (auto simp: digit_value_less)
  next
    case 2
    with less'[OF 2] Cons.prems Cons.hyps eq show ?thesis by (auto simp: digit_value_less)
  next
    case 3
    with eq Cons show ?thesis by simp
  qed
qed simp

lemma canonical_longer:
  assumes "canonical_sequence a" "canonical_sequence b" "length b < length a"
  shows "decimal_value b < decimal_value a"
proof -
  have "decimal_value b < 10 ^ length b" using assms decimal_value_bound by (simp add: canonical_sequence_def)
  also have "\<dots> \<le> 10 ^ (length a - 1)" using assms(3) by (intro power_increasing) auto
  also have "\<dots> \<le> decimal_value a" using assms(1) by (rule canonical_value_lower)
  finally show ?thesis .
qed

lemma sql_newer_value:
  assumes "canonical_sequence a" "canonical_sequence b"
  shows "sql_newer a b \<longleftrightarrow> decimal_value b < decimal_value a"
proof (cases "length a = length b")
  case True
  with assms decimal_value_less[of b a] show ?thesis by (auto simp: sql_newer_def canonical_sequence_def)
next
  case False
  then consider "length a < length b" | "length b < length a" by linarith
  then show ?thesis
    using canonical_longer[of a b] canonical_longer[of b a] assms False
    by cases (auto simp: sql_newer_def)
qed

lemma decimal_value_inject:
  assumes "canonical_sequence a" "canonical_sequence b" "decimal_value a = decimal_value b"
  shows "a = b"
proof -
  have "\<not> sql_newer a b" "\<not> sql_newer b a" using sql_newer_value assms by simp_all
  then show ?thesis by (auto simp: sql_newer_def)
qed

lemma compare_sql_newer: "comparePublishSequences a b > 0 \<longleftrightarrow> sql_newer a b"
  by (auto simp: comparePublishSequences_def sql_newer_def)

lemma sql_newer_irrefl [simp]: "\<not> sql_newer a a"
  by (simp add: sql_newer_def)

lemma sql_newer_trans: "sql_newer a b \<Longrightarrow> sql_newer b c \<Longrightarrow> sql_newer a c"
  by (auto simp: sql_newer_def)

lemma sql_newer_linear: "a \<noteq> b \<Longrightarrow> \<not> sql_newer a b \<Longrightarrow> sql_newer b a"
  by (auto simp: sql_newer_def)

subsection \<open>Printing\<close>

lemma to_decimal_value [simp]: "decimal_value (to_decimal n) = n"
proof (induction n rule: to_decimal.induct)
  case (1 n)
  then show ?case by (subst to_decimal.simps) (auto simp: digit_value_char)
qed

lemma to_decimal_digits: "list_all is_digit (to_decimal n)"
proof (induction n rule: to_decimal.induct)
  case (1 n)
  then show ?case by (subst to_decimal.simps) (auto simp: is_digit_char)
qed

lemma to_decimal_head: "0 < n \<Longrightarrow> to_decimal n \<noteq> [] \<and> hd (to_decimal n) \<noteq> CHR ''0''"
proof (induction n rule: to_decimal.induct)
  case (1 n)
  have "0 < d \<Longrightarrow> d < 10 \<Longrightarrow> digit_char d \<noteq> CHR ''0''" for d
    by (auto simp: less_Suc_eq numeral_eq_Suc digit_char_def)
  with 1 show ?case by (subst (1 2) to_decimal.simps) auto
qed

lemma to_decimal_length: "n < 10 ^ Suc k \<Longrightarrow> length (to_decimal n) \<le> Suc k"
proof (induction k arbitrary: n)
  case 0
  then show ?case by (simp add: to_decimal.simps)
next
  case (Suc k)
  then have "n div 10 < 10 ^ Suc k" by (simp add: less_mult_imp_div_less)
  with Suc.IH show ?case by (subst to_decimal.simps) auto
qed

lemma canonical_to_decimal: "0 < n \<Longrightarrow> n < 10 ^ 20 \<Longrightarrow> canonical_sequence (to_decimal n)"
  using to_decimal_head[of n] to_decimal_digits[of n] to_decimal_length[of n 19]
  by (simp add: canonical_sequence_def)

lemma uint64_value: "decimal_value UINT64_MAXIMUM_SEQUENCE = 18446744073709551615"
  by (simp add: UINT64_MAXIMUM_SEQUENCE_def decimal_value_def digit_value_def)

lemma uint64_maximum: "uint64_sequence UINT64_MAXIMUM_SEQUENCE"
  by (simp add: uint64_sequence_def canonical_sequence_def UINT64_MAXIMUM_SEQUENCE_def is_digit_def)

subsection \<open>Properties\<close>

text \<open>
  C29: On canonical sequence texts the comparison of the room, the comparison of the SQL
  guards and the order of the 64-bit numbers are the same; equal numbers have equal texts.
\<close>

theorem sequences_compare_as_numbers:
  assumes "canonical_sequence a" "canonical_sequence b"
  shows "comparePublishSequences a b = sgn (int (decimal_value a) - int (decimal_value b)) \<and>
    sql_newer a b = (decimal_value b < decimal_value a)"
proof -
  have "a = b \<longleftrightarrow> decimal_value a = decimal_value b" using decimal_value_inject[OF assms] by blast
  moreover note sql_newer_value[OF assms] compare_sql_newer[of a b]
  moreover have "comparePublishSequences a b \<in> {-1, 0, 1}" "comparePublishSequences a b = 0 \<longleftrightarrow> a = b"
    by (auto simp: comparePublishSequences_def)
  ultimately show ?thesis by (auto simp: sgn_if)
qed

theorem sequences_compare_as_numbers_witness:
  "comparePublishSequences ''100'' ''99'' = sgn (100 - 99) \<and> sql_newer ''100'' ''99''"
  using sequences_compare_as_numbers[of "''100''" "''99''"]
  by (simp add: canonical_sequence_def is_digit_def digit_value_def)

text \<open>
  The sequence a refused publisher is told to use is the least one that would be
  accepted: it is canonical, newer than the stored one, and no newer one comes before it.
\<close>

theorem minimum_next_is_least:
  assumes "uint64_sequence s" "s \<noteq> UINT64_MAXIMUM_SEQUENCE"
  shows "uint64_sequence (minimumNextPublishSequence s) \<and>
    sql_newer (minimumNextPublishSequence s) s \<and>
    (\<forall>t. uint64_sequence t \<and> sql_newer t s \<longrightarrow> \<not> sql_newer (minimumNextPublishSequence s) t)"
proof -
  let ?m = "minimumNextPublishSequence s"
  have le: "decimal_value s \<noteq> 18446744073709551615"
    using assms decimal_value_inject[of s UINT64_MAXIMUM_SEQUENCE] uint64_maximum
    by (auto simp: uint64_sequence_def uint64_value)
  then have m: "?m = to_decimal (decimal_value s + 1)"
    using assms(1) by (simp add: minimumNextPublishSequence_def Let_def uint64_sequence_def uint64_value)
  have can: "canonical_sequence ?m"
    unfolding m using assms(1) le by (intro canonical_to_decimal) (simp_all add: uint64_sequence_def uint64_value)
  moreover have v: "decimal_value ?m = decimal_value s + 1" by (simp add: m)
  ultimately show ?thesis
    using assms(1) le by (auto simp: uint64_sequence_def uint64_value sql_newer_value)
qed

theorem minimum_next_is_least_witness:
  "uint64_sequence (minimumNextPublishSequence ''199'') \<and> minimumNextPublishSequence ''199'' = ''200''"
proof -
  have "uint64_sequence ''199''"
    by (simp add: uint64_sequence_def canonical_sequence_def is_digit_def uint64_value digit_value_def)
  then show ?thesis
    using minimum_next_is_least[of "''199''"]
    by (simp add: UINT64_MAXIMUM_SEQUENCE_def)
      (simp add: minimumNextPublishSequence_def uint64_value[unfolded UINT64_MAXIMUM_SEQUENCE_def]
        UINT64_MAXIMUM_SEQUENCE_def digit_value_def to_decimal.simps digit_char_def)
qed

end
