(* ===== verification/Database.thy ===== *)
theory Database
  imports Sequences
begin

text \<open>
  The D1 database behind publication and access tokens: the tables that
  \<open>access-route-state.ts\<close>, \<open>access-grants.ts\<close>, \<open>access-budget.ts\<close>, \<open>publisher-nonces.ts\<close> and
  \<open>rendezvous-publication.ts\<close> (all under \<open>src/src/\<close>) read and write, with the keys, CHECK
  constraints and triggers of \<open>src/migrations/\<close> that can make their statements abort.

  A table is the list of its rows. A statement returns its change count and the database,
  or \<open>None\<close> when a constraint or trigger aborts it; \<open>run_batch\<close> is \<open>db.batch\<close>: one
  transaction, undone when any of its statements aborts. \<open>LIMIT\<close> without \<open>ORDER BY\<close> takes
  rows in the order of the list, which stands for whatever order the index has.
\<close>

subsection \<open>Rows\<close>

datatype directory_profile = ClassicV1 | ClassicV2 | ClassicV3 | GameV1 | GameV2

datatype access_profile = ClassicAccess | GameAccess

fun directory_profile_of :: "access_profile \<Rightarrow> directory_profile" where
  "directory_profile_of ClassicAccess = ClassicV3"
| "directory_profile_of GameAccess = GameV2"

record replay_row =
  rp_server :: string
  rp_profile :: directory_profile
  rp_sequence :: string
  rp_nonce :: string
  rp_commit :: string
  rp_updated :: int

record nonce_row =
  nn_server :: string
  nn_profile :: directory_profile
  nn_nonce :: string
  nn_expires :: int
  nn_created :: int

datatype route_state = RouteReserved | RouteActive | RouteRevoked | RouteExpired

record route_row =
  rt_index :: string
  rt_profile :: access_profile
  rt_server :: string
  rt_token :: string
  rt_revision :: string
  rt_state :: route_state
  rt_expires :: "int option"
  rt_reservation :: "string option"
  rt_until :: int
  rt_created :: int
  rt_revoked :: "int option"

datatype route_operation = Reserve | Activate | Revoke | ResultOf

datatype route_outcome =
  OutReserved | OutActive | OutRevoked | OutConflict | OutExpired | OutNotFound | OutUnavailable

record receipt_row =
  rc_profile :: access_profile
  rc_server :: string
  rc_request :: string
  rc_digest :: string
  rc_tuple :: string
  rc_operation :: route_operation
  rc_token :: string
  rc_outcome :: route_outcome
  rc_reservation :: "string option"
  rc_until :: "int option"
  rc_revision :: string
  rc_commit :: string
  rc_created :: int
  rc_expires :: int

record grant_row =
  gr_current :: string
  gr_previous :: string
  gr_index :: string
  gr_profile :: access_profile
  gr_server :: string
  gr_revision :: string
  gr_generation :: string
  gr_nonce :: string
  gr_expires :: int
  gr_redemption :: "string option"

datatype budget_scope = RoutesScope | ResolveScope

record budget_row =
  bd_profile :: access_profile
  bd_server :: string
  bd_scope :: budget_scope
  bd_start :: int
  bd_expires :: int
  bd_count :: int

record presence_row =
  ps_profile :: directory_profile
  ps_server :: string
  ps_seen :: int
  ps_token_hash :: string
  ps_generation :: string
  ps_commit :: string
  ps_base :: int
  ps_visible :: "int option"
  ps_certificate :: "string option"
  ps_name :: "string option"
  ps_hostname :: "string option"
  ps_port :: "int option"
  ps_access :: "bool option"

record database =
  db_replay :: "replay_row list"
  db_nonces :: "nonce_row list"
  db_nonce_max :: nat
  db_routes :: "route_row list"
  db_receipts :: "receipt_row list"
  db_grants :: "grant_row list"
  db_budgets :: "budget_row list"
  db_presence :: "presence_row list"
  db_denials :: "string list"

subsection \<open>Batches\<close>

type_synonym 'd statement = "'d \<Rightarrow> (nat \<times> 'd) option"

fun run_batch :: "'d statement list \<Rightarrow> 'd \<Rightarrow> (nat list \<times> 'd) option" where
  "run_batch [] d = Some ([], d)"
| "run_batch (s # ss) d =
     (case s d of
        None \<Rightarrow> None
      | Some (n, d1) \<Rightarrow> (case run_batch ss d1 of None \<Rightarrow> None | Some (ns, d2) \<Rightarrow> Some (n # ns, d2)))"

definition count :: "('a \<Rightarrow> bool) \<Rightarrow> 'a list \<Rightarrow> nat" where
  "count P xs = length (filter P xs)"

lemma count_simps [simp]:
  "count P [] = 0"
  "count P (x # xs) = (if P x then 1 else 0) + count P xs"
  "count P (xs @ ys) = count P xs + count P ys"
  by (simp_all add: count_def)

lemma count_le_length: "count P xs \<le> length xs"
  by (simp add: count_def)

lemma count_filter_le: "count P (filter Q xs) \<le> count P xs"
  by (induction xs) auto

lemma count_mono: "(\<And>x. P x \<Longrightarrow> Q x) \<Longrightarrow> count P xs \<le> count Q xs"
  by (induction xs) auto

lemma count_map [simp]: "count P (map f xs) = count (P \<circ> f) xs"
  by (induction xs) auto

lemma count_zero_iff: "count P xs = 0 \<longleftrightarrow> (\<forall>x \<in> set xs. \<not> P x)"
  by (induction xs) auto

lemma count_pos: "x \<in> set xs \<Longrightarrow> P x \<Longrightarrow> 0 < count P xs"
  by (induction xs) auto

text \<open>A unique key selects at most one row; replacing the selected rows one by one.\<close>

lemma count_unique:
  assumes "distinct (map k xs)" "x \<in> set xs" "\<And>y. y \<in> set xs \<Longrightarrow> P y \<longleftrightarrow> k y = k x"
  shows "count P xs = 1"
  using assms
proof (induction xs)
  case (Cons a xs)
  show ?case
  proof (cases "x = a")
    case True
    have "\<not> P y" if "y \<in> set xs" for y
    proof -
      from that have "k y \<in> k ` set xs" by simp
      with Cons.prems(1) True have "k y \<noteq> k x" by auto
      with Cons.prems(3)[of y] that show ?thesis by simp
    qed
    then have "count P xs = 0" by (simp add: count_zero_iff)
    with Cons.prems True show ?thesis by simp
  next
    case False
    with Cons.prems have x: "x \<in> set xs" by simp
    then have "k x \<in> k ` set xs" by simp
    with Cons.prems(1) have "k a \<noteq> k x" by auto
    with Cons.prems have "\<not> P a" by simp
    moreover from Cons x have "count P xs = 1" by simp
    ultimately show ?thesis by simp
  qed
qed simp

definition update_where :: "('a \<Rightarrow> bool) \<Rightarrow> ('a \<Rightarrow> 'a) \<Rightarrow> 'a list \<Rightarrow> 'a list" where
  "update_where P f xs = map (\<lambda>x. if P x then f x else x) xs"

lemma update_where_simps [simp]:
  "update_where P f [] = []"
  "update_where P f (x # xs) = (if P x then f x else x) # update_where P f xs"
  "length (update_where P f xs) = length xs"
  by (simp_all add: update_where_def)

lemma set_update_where: "set (update_where P f xs) = (\<lambda>x. if P x then f x else x) ` set xs"
  by (simp add: update_where_def)

lemma map_update_where:
  "(\<And>x. x \<in> set xs \<Longrightarrow> P x \<Longrightarrow> k (f x) = k x) \<Longrightarrow> map k (update_where P f xs) = map k xs"
  by (induction xs) auto

lemma count_update_where_le:
  "(\<And>x. x \<in> set xs \<Longrightarrow> P x \<Longrightarrow> Q (f x) \<Longrightarrow> Q x) \<Longrightarrow> count Q (update_where P f xs) \<le> count Q xs"
  by (induction xs) (auto simp: le_SucI)

lemma count_update_where_eq:
  "(\<And>x. x \<in> set xs \<Longrightarrow> P x \<Longrightarrow> Q (f x) \<longleftrightarrow> Q x) \<Longrightarrow> count Q (update_where P f xs) = count Q xs"
  by (induction xs) auto

lemma update_where_none: "count P xs = 0 \<Longrightarrow> update_where P f xs = xs"
  by (induction xs) (auto split: if_splits)

subsection \<open>Constraints\<close>

definition route_live :: "route_row \<Rightarrow> bool" where
  "route_live r \<longleftrightarrow> rt_state r \<in> {RouteReserved, RouteActive}"

abbreviation owned_by :: "access_profile \<Rightarrow> string \<Rightarrow> route_row \<Rightarrow> bool" where
  "owned_by p s r \<equiv> rt_profile r = p \<and> rt_server r = s"

definition route_row_ok :: "route_row \<Rightarrow> bool" where
  "route_row_ok r \<longleftrightarrow>
     is_hex64 (rt_index r) \<and> is_hex64 (rt_server r) \<and> is_hex32 (rt_token r) \<and>
     uint64_sequence (rt_revision r) \<and>
     (case rt_expires r of None \<Rightarrow> True | Some e \<Rightarrow> 1 \<le> e \<and> e \<le> 253402300799) \<and>
     (case rt_reservation r of None \<Rightarrow> True | Some h \<Rightarrow> is_hex32 h) \<and>
     1 \<le> rt_until r \<and> rt_until r \<le> max_safe_integer \<and>
     0 \<le> rt_created r \<and> rt_created r \<le> max_safe_integer \<and>
     (case rt_revoked r of None \<Rightarrow> True | Some t \<Rightarrow> 0 \<le> t \<and> t \<le> max_safe_integer) \<and>
     (\<not> route_live r \<longleftrightarrow> rt_revoked r \<noteq> None)"

definition receipt_row_ok :: "receipt_row \<Rightarrow> bool" where
  "receipt_row_ok r \<longleftrightarrow>
     is_hex64 (rc_server r) \<and> is_hex32 (rc_request r) \<and> is_hex64 (rc_digest r) \<and> is_hex64 (rc_tuple r) \<and>
     rc_operation r \<noteq> ResultOf \<and> is_hex32 (rc_token r) \<and>
     (case rc_reservation r of None \<Rightarrow> True | Some h \<Rightarrow> is_hex32 h) \<and>
     uint64_sequence (rc_revision r) \<and> is_hex64 (rc_commit r) \<and>
     0 \<le> rc_created r \<and> rc_created r \<le> max_safe_integer \<and>
     rc_created r < rc_expires r \<and> rc_expires r \<le> max_safe_integer"

definition nonce_row_ok :: "nonce_row \<Rightarrow> bool" where
  "nonce_row_ok n \<longleftrightarrow> is_hex32 (nn_nonce n) \<and> nn_nonce n \<noteq> replicate 32 (CHR ''0'')"

definition replay_row_ok :: "replay_row \<Rightarrow> bool" where
  "replay_row_ok r \<longleftrightarrow>
     is_hex64 (rp_server r) \<and> uint64_sequence (rp_sequence r) \<and> is_hex32 (rp_nonce r) \<and>
     rp_nonce r \<noteq> replicate 32 (CHR ''0'') \<and> is_hex64 (rp_commit r)"

definition tag_length_ok :: "string \<Rightarrow> bool" where
  "tag_length_ok t \<longleftrightarrow> 48 \<le> length t \<and> length t \<le> 79"

definition grant_row_ok :: "grant_row \<Rightarrow> bool" where
  "grant_row_ok g \<longleftrightarrow>
     tag_length_ok (gr_current g) \<and> tag_length_ok (gr_previous g) \<and> gr_current g \<noteq> gr_previous g \<and>
     is_hex64 (gr_server g) \<and> uint64_sequence (gr_revision g) \<and> is_hex64 (gr_generation g) \<and>
     is_hex64 (gr_nonce g) \<and> 0 < gr_expires g \<and>
     (case gr_redemption g of None \<Rightarrow> True | Some x \<Rightarrow> is_hex64 x)"

text \<open>
  INSERT into \<open>access_routes\<close>: primary key, unique token of an owner, row constraints, and
  the trigger \<open>access_routes_capacity\<close>.
\<close>

definition route_key :: "route_row \<Rightarrow> access_profile \<times> string \<times> string" where
  "route_key r = (rt_profile r, rt_server r, rt_token r)"

definition insert_route :: "route_row \<Rightarrow> database statement" where
  "insert_route r d =
     (let rs = db_routes d; own = owned_by (rt_profile r) (rt_server r) in
      if rt_index r \<in> set (map rt_index rs) \<or> route_key r \<in> set (map route_key rs) \<or> \<not> route_row_ok r \<or>
         length rs \<ge> 65536 \<or> count own rs \<ge> 4096 \<or>
         route_live r \<and> count (\<lambda>x. own x \<and> route_live x) rs \<ge> 1024
      then None else Some (1, d\<lparr>db_routes := rs @ [r]\<rparr>))"

text \<open>
  UPDATE of \<open>access_routes\<close>: row constraints and the triggers
  \<open>access_routes_identity_immutable\<close> and \<open>access_routes_revocation_terminal\<close>.
\<close>

definition route_update_ok :: "route_row \<Rightarrow> route_row \<Rightarrow> bool" where
  "route_update_ok old new \<longleftrightarrow>
     route_row_ok new \<and> rt_index new = rt_index old \<and> route_key new = route_key old \<and>
     (route_live old \<or> \<not> route_live new \<and> rt_revoked new = rt_revoked old)"

definition update_routes :: "(route_row \<Rightarrow> bool) \<Rightarrow> (route_row \<Rightarrow> route_row) \<Rightarrow> database statement" where
  "update_routes P f d =
     (if list_ex (\<lambda>r. P r \<and> \<not> route_update_ok r (f r)) (db_routes d) then None
      else Some (count P (db_routes d), d\<lparr>db_routes := update_where P f (db_routes d)\<rparr>))"

text \<open>INSERT into \<open>access_route_receipts\<close>, with the trigger \<open>access_route_receipts_capacity\<close>.\<close>

definition receipt_key :: "receipt_row \<Rightarrow> access_profile \<times> string \<times> string" where
  "receipt_key r = (rc_profile r, rc_server r, rc_request r)"

abbreviation receipt_of :: "access_profile \<Rightarrow> string \<Rightarrow> receipt_row \<Rightarrow> bool" where
  "receipt_of p s r \<equiv> rc_profile r = p \<and> rc_server r = s"

definition insert_receipt :: "receipt_row \<Rightarrow> database statement" where
  "insert_receipt r d =
     (let rs = db_receipts d in
      if receipt_key r \<in> set (map receipt_key rs) \<or> \<not> receipt_row_ok r \<or>
         length rs \<ge> 65536 \<or> count (receipt_of (rc_profile r) (rc_server r)) rs \<ge> 4096
      then None else Some (1, d\<lparr>db_receipts := rs @ [r]\<rparr>))"

text \<open>INSERT into \<open>publisher_nonces\<close>: the key, the foreign key, and the trigger \<open>publisher_nonces_capacity\<close>.\<close>

definition nonce_key :: "nonce_row \<Rightarrow> string \<times> directory_profile \<times> string" where
  "nonce_key n = (nn_server n, nn_profile n, nn_nonce n)"

definition insert_nonce :: "nonce_row \<Rightarrow> database statement" where
  "insert_nonce n d =
     (let ns = db_nonces d in
      if nonce_key n \<in> set (map nonce_key ns) \<or> \<not> nonce_row_ok n \<or> length ns \<ge> db_nonce_max d \<or>
         \<not> list_ex (\<lambda>r. rp_server r = nn_server n \<and> rp_profile r = nn_profile n) (db_replay d)
      then None else Some (1, d\<lparr>db_nonces := ns @ [n]\<rparr>))"

text \<open>
  INSERT into \<open>access_grants\<close>: keys, foreign key, row constraints and the trigger
  \<open>access_grants_capacity\<close>; UPDATE of \<open>redemption_id\<close>, which is unique.
\<close>

definition redemptions :: "grant_row list \<Rightarrow> string list" where
  "redemptions gs = List.map_filter gr_redemption gs"

lemma redemptions_simps [simp]:
  "redemptions [] = []"
  "redemptions (g # gs) = (case gr_redemption g of None \<Rightarrow> redemptions gs | Some x \<Rightarrow> x # redemptions gs)"
  by (simp_all add: redemptions_def List.map_filter_def split: option.split)

lemma redemptions_append [simp]: "redemptions (xs @ ys) = redemptions xs @ redemptions ys"
  by (induction xs) (auto split: option.split)

lemma set_redemptions: "set (redemptions gs) = {x. \<exists>g \<in> set gs. gr_redemption g = Some x}"
  by (induction gs) (auto split: option.splits)

lemma distinct_redemptions_filter: "distinct (redemptions gs) \<Longrightarrow> distinct (redemptions (filter P gs))"
  by (induction gs) (auto simp: set_redemptions split: option.splits)

definition insert_grant :: "grant_row \<Rightarrow> database statement" where
  "insert_grant g d =
     (let gs = db_grants d in
      if gr_current g \<in> set (map gr_current gs) \<or> gr_previous g \<in> set (map gr_previous gs) \<or>
         \<not> grant_row_ok g \<or> gr_index g \<notin> set (map rt_index (db_routes d)) \<or>
         length gs \<ge> 32768 \<or>
         count (\<lambda>x. gr_profile x = gr_profile g \<and> gr_server x = gr_server g) gs \<ge> 32 \<or>
         (case gr_redemption g of None \<Rightarrow> False | Some x \<Rightarrow> x \<in> set (redemptions gs))
      then None else Some (1, d\<lparr>db_grants := gs @ [g]\<rparr>))"

definition update_grants :: "(grant_row \<Rightarrow> bool) \<Rightarrow> (grant_row \<Rightarrow> grant_row) \<Rightarrow> database statement" where
  "update_grants P f d =
     (let gs = update_where P f (db_grants d) in
      if \<not> list_all grant_row_ok gs \<or> \<not> distinct (redemptions gs) then None
      else Some (count P (db_grants d), d\<lparr>db_grants := gs\<rparr>))"

definition delete_grants :: "(grant_row \<Rightarrow> bool) \<Rightarrow> database statement" where
  "delete_grants P d =
     Some (count P (db_grants d), d\<lparr>db_grants := filter (\<lambda>g. \<not> P g) (db_grants d)\<rparr>)"

text \<open>DELETE from \<open>access_routes\<close> cascades to the grants of the deleted routes.\<close>

definition delete_routes :: "(route_row \<Rightarrow> bool) \<Rightarrow> database statement" where
  "delete_routes P d =
     (let gone = map rt_index (filter P (db_routes d)) in
      Some (length gone,
        d\<lparr>db_routes := filter (\<lambda>r. \<not> P r) (db_routes d),
          db_grants := filter (\<lambda>g. gr_index g \<notin> set gone) (db_grants d)\<rparr>))"

text \<open>\<open>column IN (SELECT column FROM table WHERE P LIMIT n)\<close> over a key of the table.\<close>

definition first_keys :: "nat \<Rightarrow> ('a \<Rightarrow> 'k) \<Rightarrow> ('a \<Rightarrow> bool) \<Rightarrow> 'a list \<Rightarrow> 'k list" where
  "first_keys n k P xs = map k (take n (filter P xs))"

lemma first_keys_selects:
  assumes "distinct (map k xs)" "x \<in> set xs" "k x \<in> set (first_keys n k P xs)" shows "P x"
proof -
  from assms(3) obtain y where y: "y \<in> set (filter P xs)" "k y = k x"
    by (auto simp: first_keys_def dest: in_set_takeD)
  with assms(1,2) have "y = x" by (auto simp: distinct_map inj_on_def)
  with y show ?thesis by simp
qed

subsection \<open>Publisher nonces (\<open>publisher-nonces.ts\<close>)\<close>

definition PUBLISHER_NONCE_CAPACITY :: nat where "PUBLISHER_NONCE_CAPACITY = 131072"
definition PUBLISHER_NONCE_CLEANUP_BATCH :: nat where "PUBLISHER_NONCE_CLEANUP_BATCH = 32"

definition live_routes :: "database \<Rightarrow> nat" where
  "live_routes d = count route_live (db_routes d)"

definition publisherNonceCapacity :: "nat \<Rightarrow> database \<Rightarrow> bool" where
  "publisherNonceCapacity growth d \<longleftrightarrow>
     growth = 0 \<or> length (db_nonces d) + live_routes d + growth \<le> PUBLISHER_NONCE_CAPACITY"

definition cleanupPublisherNonces :: "int \<Rightarrow> database statement" where
  "cleanupPublisherNonces now d =
     (let oldest = js_sort (\<lambda>a b. nn_expires a - nn_expires b) (filter (\<lambda>n. nn_expires n \<le> now) (db_nonces d));
          gone = map nonce_key (take PUBLISHER_NONCE_CLEANUP_BATCH oldest) in
      Some (count (\<lambda>n. nonce_key n \<in> set gone) (db_nonces d),
        d\<lparr>db_nonces := filter (\<lambda>n. nonce_key n \<notin> set gone) (db_nonces d)\<rparr>))"

text \<open>The fence of a batch: the commit token that this batch wrote into the replay row.\<close>

definition signedCommit :: "string \<Rightarrow> directory_profile \<Rightarrow> string \<Rightarrow> database \<Rightarrow> bool" where
  "signedCommit server profile commit d \<longleftrightarrow>
     list_ex (\<lambda>r. rp_server r = server \<and> rp_profile r = profile \<and> rp_commit r = commit) (db_replay d)"

definition presence_of :: "directory_profile \<Rightarrow> string \<Rightarrow> database \<Rightarrow> presence_row option" where
  "presence_of p s d = find (\<lambda>x. ps_profile x = p \<and> ps_server x = s) (db_presence d)"

end
