(* ===== verification/DirectoryTables.thy ===== *)
theory DirectoryTables
  imports Database
begin

text \<open>
  The directory tables of D1 that \<open>rendezvous-publication.ts\<close> writes and \<open>directory-state.ts\<close>
  reads: revisions, outbox, entries and activity, with the CHECK constraints and triggers of
  \<open>src/migrations/0013_access_token_profiles.sql\<close> for the profiles in use (\<open>classic-v3\<close>,
  \<open>game-v2\<close>). A text column holds the UTF-8 bytes of the text. The columns of retired profiles
  (\<open>password_required\<close>, \<open>access_code_required\<close>) are always \<open>NULL\<close> and left out.
\<close>

subsection \<open>Keyed tables\<close>

definition lookup :: "('r \<Rightarrow> 'k) \<Rightarrow> 'k \<Rightarrow> 'r list \<Rightarrow> 'r option" where
  "lookup key k rs = find (\<lambda>x. key x = k) rs"

text \<open>
  \<open>INSERT ... ON CONFLICT(key) DO UPDATE SET merge WHERE permits\<close> of one row, with its change
  count; \<open>permits\<close> and \<open>merge\<close> see the stored row and the proposed one.
\<close>

definition upsert_rows ::
  "('r \<Rightarrow> 'k) \<Rightarrow> ('r \<Rightarrow> 'r \<Rightarrow> bool) \<Rightarrow> ('r \<Rightarrow> 'r \<Rightarrow> 'r) \<Rightarrow> 'r \<Rightarrow> 'r list \<Rightarrow> nat \<times> 'r list" where
  "upsert_rows key permits merge r rs =
     (if key r \<in> set (map key rs)
      then (count (\<lambda>x. key x = key r \<and> permits x r) rs,
            update_where (\<lambda>x. key x = key r \<and> permits x r) (\<lambda>x. merge x r) rs)
      else (1, rs @ [r]))"

text \<open>The constraints on the proposed row are checked before the conflict is found, those on the merged row after.\<close>

definition upsert_ok ::
  "('r \<Rightarrow> bool) \<Rightarrow> ('r \<Rightarrow> 'k) \<Rightarrow> ('r \<Rightarrow> 'r \<Rightarrow> bool) \<Rightarrow> ('r \<Rightarrow> 'r \<Rightarrow> 'r) \<Rightarrow> 'r \<Rightarrow> 'r list \<Rightarrow> bool" where
  "upsert_ok ok key permits merge r rs \<longleftrightarrow>
     ok r \<and> list_all (\<lambda>x. key x = key r \<and> permits x r \<longrightarrow> ok (merge x r)) rs"

lemma lookup_Nil [simp]: "lookup key k [] = None"
  by (simp add: lookup_def)

lemma lookup_Cons [simp]: "lookup key k (x # xs) = (if key x = k then Some x else lookup key k xs)"
  by (simp add: lookup_def)

lemma lookup_append [simp]:
  "lookup key k (xs @ ys) = (case lookup key k xs of None \<Rightarrow> lookup key k ys | Some x \<Rightarrow> Some x)"
  by (induction xs) auto

lemma lookup_None: "lookup key k rs = None \<longleftrightarrow> k \<notin> key ` set rs"
  by (induction rs) auto

lemma lookup_Some: "lookup key k rs = Some x \<Longrightarrow> x \<in> set rs \<and> key x = k"
  by (induction rs) (auto split: if_splits)

lemma lookup_distinct: "distinct (map key rs) \<Longrightarrow> lookup key k rs = Some x \<longleftrightarrow> x \<in> set rs \<and> key x = k"
  by (induction rs) (auto simp: image_iff)

lemma lookup_filter_key:
  "distinct (map key rs) \<Longrightarrow>
   lookup key k (filter P rs) = (case lookup key k rs of None \<Rightarrow> None | Some x \<Rightarrow> if P x then Some x else None)"
proof (induction rs)
  case (Cons a rs)
  show ?case
  proof (cases "key a = k")
    case True
    with Cons.prems have "lookup key k rs = None" by (auto simp: lookup_None)
    moreover with True Cons have "lookup key k (filter P rs) = None" by simp
    ultimately show ?thesis using True by simp
  qed (use Cons in simp)
qed simp

lemma count_key:
  "distinct (map key rs) \<Longrightarrow>
   count (\<lambda>x. key x = k \<and> P x) rs = (case lookup key k rs of None \<Rightarrow> 0 | Some x \<Rightarrow> if P x then 1 else 0)"
proof (induction rs)
  case (Cons a rs)
  show ?case
  proof (cases "key a = k")
    case True
    have fresh: "key x \<noteq> k" if "x \<in> set rs" for x
    proof
      assume "key x = k"
      with True that have "key a \<in> key ` set rs" by (metis imageI)
      with Cons.prems show False by simp
    qed
    from fresh have "count (\<lambda>x. key x = k \<and> P x) rs = 0" "lookup key k rs = None"
      by (auto simp: count_zero_iff lookup_None)
    with True show ?thesis by simp
  qed (use Cons in simp)
qed simp

text \<open>The table operations with a fixed conflict clause; its law is that a merged row keeps its key.\<close>

locale keyed_table =
  fixes key :: "'r \<Rightarrow> 'k" and permits :: "'r \<Rightarrow> 'r \<Rightarrow> bool" and merge :: "'r \<Rightarrow> 'r \<Rightarrow> 'r"
  assumes merge_key: "key new = key old \<Longrightarrow> key (merge old new) = key old"
begin

lemma upsert_keys:
  "map key (snd (upsert_rows key permits merge r rs)) =
   (if key r \<in> key ` set rs then map key rs else map key rs @ [key r])"
proof -
  have "map key (update_where (\<lambda>x. key x = key r \<and> permits x r) (\<lambda>x. merge x r) rs) = map key rs"
    by (rule map_update_where) (simp add: merge_key)
  then show ?thesis by (simp add: upsert_rows_def)
qed

lemma upsert_distinct: "distinct (map key rs) \<Longrightarrow> distinct (map key (snd (upsert_rows key permits merge r rs)))"
  by (auto simp: upsert_keys)

lemma upsert_count:
  "distinct (map key rs) \<Longrightarrow> fst (upsert_rows key permits merge r rs) =
   (case lookup key (key r) rs of None \<Rightarrow> 1 | Some x \<Rightarrow> if permits x r then 1 else 0)"
  using lookup_None[of key "key r" rs] by (auto simp: upsert_rows_def count_key split: option.split)

lemma lookup_update:
  "lookup key k (update_where (\<lambda>x. key x = key r \<and> permits x r) (\<lambda>x. merge x r) rs) =
   map_option (\<lambda>x. if key x = key r \<and> permits x r then merge x r else x) (lookup key k rs)"
  by (induction rs) (auto simp: merge_key)

lemma upsert_lookup:
  "lookup key k (snd (upsert_rows key permits merge r rs)) =
   (if k = key r
    then Some (case lookup key k rs of None \<Rightarrow> r | Some x \<Rightarrow> if permits x r then merge x r else x)
    else lookup key k rs)"
proof (cases "key r \<in> key ` set rs")
  case True
  then have "lookup key (key r) rs \<noteq> None" by (simp add: lookup_None)
  with True show ?thesis
    by (cases "lookup key k rs") (auto simp: upsert_rows_def lookup_update dest: lookup_Some split: option.split)
next
  case False
  then have "lookup key (key r) rs = None" by (simp add: lookup_None)
  with False show ?thesis by (auto simp: upsert_rows_def split: option.split)
qed

lemma upsert_set:
  "set (snd (upsert_rows key permits merge r rs)) \<subseteq> insert r (set rs \<union> {merge x r | x. x \<in> set rs \<and> key x = key r \<and> permits x r})"
  by (auto simp: upsert_rows_def set_update_where split: if_splits)

lemma upsert_key_set: "key ` set (snd (upsert_rows key permits merge r rs)) = insert (key r) (key ` set rs)"
  using arg_cong[OF upsert_keys[of r rs], of set] by (auto split: if_splits)

lemma upsert_all:
  assumes "list_all ok rs" "ok r" "\<And>x. ok x \<Longrightarrow> key x = key r \<Longrightarrow> permits x r \<Longrightarrow> ok (merge x r)"
  shows "list_all ok (snd (upsert_rows key permits merge r rs))"
  using assms upsert_set[of r rs] by (auto simp: list_all_iff)

end

subsection \<open>Texts\<close>

definition has_part :: "string \<Rightarrow> string \<Rightarrow> bool" where
  "has_part p s \<longleftrightarrow> list_ex (\<lambda>i. take (length p) (drop i s) = p) [0..<Suc (length s)]"

definition lower_letters :: string where "lower_letters = ''abcdefghijklmnopqrstuvwxyz''"
definition upper_letters :: string where "upper_letters = ''ABCDEFGHIJKLMNOPQRSTUVWXYZ''"

definition is_lower :: "char \<Rightarrow> bool" where "is_lower c \<longleftrightarrow> c \<in> set lower_letters"

fun split_on :: "char \<Rightarrow> string \<Rightarrow> string list" where
  "split_on c [] = [[]]"
| "split_on c (x # xs) =
     (if x = c then [] # split_on c xs
      else case split_on c xs of [] \<Rightarrow> [[x]] | l # ls \<Rightarrow> (x # l) # ls)"

text \<open>A label that could be a part of a numeric address: decimal, or \<open>0x\<close> and hexadecimal digits.\<close>

definition numeric_label :: "string \<Rightarrow> bool" where
  "numeric_label l \<longleftrightarrow>
     list_all is_digit l \<or>
     (length l > 2 \<and> take 2 l = ''0x'' \<and> list_all is_hex_digit (drop 2 l))"

text \<open>The hostname CHECK and the triggers \<open>server_presence_hostname_*\<close>, \<open>directory_entries_hostname_*\<close>.\<close>

definition sql_hostname_ok :: "string \<Rightarrow> bool" where
  "sql_hostname_ok h \<longleftrightarrow>
     3 \<le> length h \<and> length h \<le> 253 \<and> CHR ''.'' \<in> set h \<and> list_ex is_lower h \<and>
     list_all (\<lambda>c. is_lower c \<or> is_digit c \<or> c = CHR ''.'' \<or> c = CHR ''-'') h \<and>
     hd h \<noteq> CHR ''.'' \<and> last h \<noteq> CHR ''.'' \<and> \<not> has_part ''..'' h \<and>
     hd h \<noteq> CHR ''-'' \<and> last h \<noteq> CHR ''-'' \<and> \<not> has_part ''.-'' h \<and> \<not> has_part ''-.'' h \<and>
     list_all (\<lambda>l. 1 \<le> length l \<and> length l \<le> 63) (split_on (CHR ''.'') h) \<and>
     list_ex (\<lambda>l. \<not> numeric_label l) (split_on (CHR ''.'') h)"

definition sql_endpoint_ok :: "string option \<Rightarrow> int option \<Rightarrow> bool" where
  "sql_endpoint_ok host port =
     (case (host, port) of
        (None, None) \<Rightarrow> True
      | (Some h, Some p) \<Rightarrow> sql_hostname_ok h \<and> 1 \<le> p \<and> p \<le> 65535
      | _ \<Rightarrow> False)"

definition base64_char :: "char \<Rightarrow> bool" where
  "base64_char c \<longleftrightarrow>
     is_lower c \<or> c \<in> set upper_letters \<or> is_digit c \<or> c = CHR ''+'' \<or> c = CHR ''/'' \<or> c = CHR ''=''"

definition sql_certificate_ok :: "string \<Rightarrow> bool" where
  "sql_certificate_ok c \<longleftrightarrow>
     4 \<le> length c \<and> length c \<le> 2732 \<and> length c mod 4 = 0 \<and> list_all base64_char c"

text \<open>The triggers \<open>directory_entries_text_*\<close>, on the bytes of the text.\<close>

definition byte :: "nat \<Rightarrow> char" where "byte n = char_of n"

definition sql_text_ok :: "bool \<Rightarrow> string \<Rightarrow> bool" where
  "sql_text_ok game s \<longleftrightarrow>
     list_all (\<lambda>c. 31 < (of_char c :: nat) \<and> (of_char c :: nat) \<noteq> 127) s \<and>
     \<not> has_part [byte 239, byte 191, byte 190] s \<and> \<not> has_part [byte 239, byte 191, byte 191] s \<and>
     (game \<longrightarrow> \<not> has_part [byte 226, byte 128, byte 168] s \<and> \<not> has_part [byte 226, byte 128, byte 169] s)"

subsection \<open>Rows\<close>

record revision_row =
  rv_profile :: directory_profile
  rv_revision :: int
  rv_updated :: int

record outbox_row =
  ob_profile :: directory_profile
  ob_revision :: int
  ob_created :: int

datatype game_status = StatusOnline | StatusFull | StatusMaintenance

record entry_row =
  en_profile :: directory_profile
  en_server :: string
  en_name :: string
  en_players :: "int option"
  en_version :: "string option"
  en_comment :: "string option"
  en_description :: "string option"
  en_region :: "string option"
  en_major :: "int option"
  en_minor :: "int option"
  en_content :: "string option"
  en_content_revision :: "string option"
  en_online :: "int option"
  en_capacity :: "int option"
  en_status :: "game_status option"
  en_json_bytes :: "int option"
  en_hostname :: "string option"
  en_port :: "int option"
  en_certificate :: string
  en_access :: "bool option"
  en_fingerprint :: string

record activity_row =
  ac_profile :: directory_profile
  ac_server :: string
  ac_observed :: int
  ac_positive :: "int option"
  ac_population :: int
  ac_count :: int

record bucket_row =
  bk_profile :: directory_profile
  bk_server :: string
  bk_start :: int
  bk_seconds :: int
  bk_minutes :: int
  bk_max :: int
  bk_positive :: int
  bk_zero :: int

record directory =
  dr_base :: database
  dr_revisions :: "revision_row list"
  dr_outbox :: "outbox_row list"
  dr_entries :: "entry_row list"
  dr_activity :: "activity_row list"
  dr_buckets :: "bucket_row list"

definition replay_key :: "replay_row \<Rightarrow> string \<times> directory_profile" where
  "replay_key r = (rp_server r, rp_profile r)"

definition presence_key :: "presence_row \<Rightarrow> directory_profile \<times> string" where
  "presence_key x = (ps_profile x, ps_server x)"

definition outbox_key :: "outbox_row \<Rightarrow> directory_profile \<times> int" where
  "outbox_key o1 = (ob_profile o1, ob_revision o1)"

definition entry_key :: "entry_row \<Rightarrow> directory_profile \<times> string" where
  "entry_key e = (en_profile e, en_server e)"

definition activity_key :: "activity_row \<Rightarrow> directory_profile \<times> string" where
  "activity_key a = (ac_profile a, ac_server a)"

definition bucket_key :: "bucket_row \<Rightarrow> directory_profile \<times> string \<times> int" where
  "bucket_key b = (bk_profile b, bk_server b, bk_start b)"

subsection \<open>Constraints\<close>

definition current_profile :: "directory_profile \<Rightarrow> bool" where
  "current_profile p \<longleftrightarrow> p = ClassicV3 \<or> p = GameV2"

definition stored_integer :: "int \<Rightarrow> bool" where
  "stored_integer n \<longleftrightarrow> 0 \<le> n \<and> n \<le> max_safe_integer"

definition sql_name_ok :: "string \<Rightarrow> bool" where
  "sql_name_ok s \<longleftrightarrow> 1 \<le> length s \<and> length s \<le> 80"

definition presence_row_ok :: "presence_row \<Rightarrow> bool" where
  "presence_row_ok x \<longleftrightarrow>
     is_hex64 (ps_server x) \<and> stored_integer (ps_seen x) \<and> is_hex64 (ps_token_hash x) \<and>
     is_hex64 (ps_generation x) \<and> is_hex64 (ps_commit x) \<and> stored_integer (ps_base x) \<and>
     (case ps_visible x of None \<Rightarrow> True | Some v \<Rightarrow> v = ps_base x + 1 \<and> 1 \<le> v \<and> v \<le> max_safe_integer) \<and>
     (if current_profile (ps_profile x)
      then (case ps_certificate x of None \<Rightarrow> False | Some c \<Rightarrow> sql_certificate_ok c) \<and>
           (case ps_name x of None \<Rightarrow> False | Some n \<Rightarrow> sql_name_ok n) \<and> ps_access x \<noteq> None
      else ps_certificate x = None \<and> ps_name x = None \<and> ps_hostname x = None \<and> ps_port x = None \<and>
           ps_access x = None) \<and>
     sql_endpoint_ok (ps_hostname x) (ps_port x)"

definition classic_columns_ok :: "entry_row \<Rightarrow> bool" where
  "classic_columns_ok e \<longleftrightarrow>
     (case en_players e of None \<Rightarrow> False | Some n \<Rightarrow> 0 \<le> n \<and> n \<le> 4294967295) \<and>
     (case en_version e of None \<Rightarrow> False | Some v \<Rightarrow> 1 \<le> length v \<and> length v \<le> 32) \<and>
     (case en_comment e of None \<Rightarrow> False | Some c \<Rightarrow> length c \<le> 256) \<and>
     en_description e = None \<and> en_region e = None \<and> en_major e = None \<and> en_minor e = None \<and>
     en_content e = None \<and> en_content_revision e = None \<and> en_online e = None \<and>
     en_capacity e = None \<and> en_status e = None \<and> en_json_bytes e = None"

definition region_char :: "char \<Rightarrow> bool" where
  "region_char c \<longleftrightarrow> is_lower c \<or> is_digit c \<or> c = CHR ''-''"

definition sql_region_ok :: "string \<Rightarrow> bool" where
  "sql_region_ok r \<longleftrightarrow>
     1 \<le> length r \<and> length r \<le> 32 \<and> list_all region_char r \<and> hd r \<noteq> CHR ''-'' \<and> last r \<noteq> CHR ''-''"

definition content_char :: "char \<Rightarrow> bool" where
  "content_char c \<longleftrightarrow> is_lower c \<or> is_digit c \<or> c = CHR ''.'' \<or> c = CHR ''_'' \<or> c = CHR ''-''"

definition alphanumeric :: "char \<Rightarrow> bool" where
  "alphanumeric c \<longleftrightarrow> is_lower c \<or> is_digit c"

definition sql_content_ok :: "string \<Rightarrow> bool" where
  "sql_content_ok c \<longleftrightarrow>
     1 \<le> length c \<and> length c \<le> 64 \<and> list_all content_char c \<and> alphanumeric (hd c) \<and> alphanumeric (last c)"

fun status_fits :: "game_status \<Rightarrow> int \<Rightarrow> int \<Rightarrow> bool" where
  "status_fits StatusOnline online capacity = (online < capacity)"
| "status_fits StatusFull online capacity = (online = capacity)"
| "status_fits StatusMaintenance online capacity = (online = 0)"

definition game_columns_ok :: "entry_row \<Rightarrow> bool" where
  "game_columns_ok e \<longleftrightarrow>
     en_players e = None \<and> en_version e = None \<and> en_comment e = None \<and>
     (case en_description e of None \<Rightarrow> False | Some t \<Rightarrow> length t \<le> 512) \<and>
     (case en_region e of None \<Rightarrow> True | Some r \<Rightarrow> sql_region_ok r) \<and>
     en_major e = Some 1 \<and> (case en_minor e of None \<Rightarrow> False | Some n \<Rightarrow> 0 \<le> n \<and> n \<le> 65535) \<and>
     (case en_content e of None \<Rightarrow> False | Some c \<Rightarrow> sql_content_ok c) \<and>
     (case en_content_revision e of None \<Rightarrow> False | Some h \<Rightarrow> is_hex64 h) \<and>
     (case en_json_bytes e of None \<Rightarrow> False | Some n \<Rightarrow> 1 \<le> n \<and> n \<le> 262005) \<and>
     (case (en_online e, en_capacity e, en_status e) of
        (Some n, Some m, Some s) \<Rightarrow>
          0 \<le> n \<and> n \<le> 100000 \<and> 1 \<le> m \<and> m \<le> 100000 \<and> n \<le> m \<and> status_fits s n m
      | _ \<Rightarrow> False)"

definition entry_text :: "entry_row \<Rightarrow> string" where
  "entry_text e = en_name e @ (case en_version e of None \<Rightarrow> [] | Some t \<Rightarrow> t) @
     (case en_comment e of None \<Rightarrow> [] | Some t \<Rightarrow> t) @ (case en_description e of None \<Rightarrow> [] | Some t \<Rightarrow> t)"

definition entry_row_ok :: "entry_row \<Rightarrow> bool" where
  "entry_row_ok e \<longleftrightarrow>
     is_hex64 (en_server e) \<and> sql_name_ok (en_name e) \<and> is_hex64 (en_certificate e) \<and>
     en_certificate e = en_server e \<and> is_hex64 (en_fingerprint e) \<and> en_access e \<noteq> None \<and>
     sql_endpoint_ok (en_hostname e) (en_port e) \<and> sql_text_ok (en_profile e = GameV2) (entry_text e) \<and>
     (en_profile e = ClassicV3 \<and> classic_columns_ok e \<or> en_profile e = GameV2 \<and> game_columns_ok e)"

definition activity_row_ok :: "activity_row \<Rightarrow> bool" where
  "activity_row_ok a \<longleftrightarrow>
     is_hex64 (ac_server a) \<and> stored_integer (ac_observed a) \<and>
     (case ac_positive a of None \<Rightarrow> True | Some t \<Rightarrow> stored_integer t) \<and>
     0 \<le> ac_population a \<and> ac_population a \<le> 100000 \<and> 1 \<le> ac_count a \<and> ac_count a \<le> 1000000"

definition bucket_row_ok :: "bucket_row \<Rightarrow> bool" where
  "bucket_row_ok b \<longleftrightarrow>
     is_hex64 (bk_server b) \<and> stored_integer (bk_start b) \<and> bk_start b mod 86400 = 0 \<and>
     0 \<le> bk_seconds b \<and> bk_seconds b \<le> 604800 \<and> 0 \<le> bk_minutes b \<and> bk_minutes b \<le> 1008000000 \<and>
     0 \<le> bk_max b \<and> bk_max b \<le> 100000 \<and> 0 \<le> bk_positive b \<and> bk_positive b \<le> 1000000 \<and>
     0 \<le> bk_zero b \<and> bk_zero b \<le> 1000000"

text \<open>The triggers \<open>server_presence_profile_capacity_insert\<close>, \<open>directory_entries_game_json_budget_*\<close>
  and \<open>directory_activity_bucket_capacity_insert\<close>.\<close>

definition presence_capacity_ok :: "presence_row \<Rightarrow> presence_row list \<Rightarrow> bool" where
  "presence_capacity_ok x rs \<longleftrightarrow>
     presence_key x \<in> set (map presence_key rs) \<or> count (\<lambda>y. ps_profile y = ps_profile x) rs < 512"

definition json_total :: "directory_profile \<Rightarrow> string \<Rightarrow> entry_row list \<Rightarrow> int" where
  "json_total p s es =
     (\<Sum>e \<leftarrow> filter (\<lambda>e. en_profile e = p \<and> en_server e \<noteq> s) es.
        (case en_json_bytes e of None \<Rightarrow> 0 | Some n \<Rightarrow> n) + 1)"

definition json_budget_ok :: "entry_row \<Rightarrow> entry_row list \<Rightarrow> bool" where
  "json_budget_ok e es \<longleftrightarrow>
     (en_profile e = GameV2 \<longrightarrow>
      (case en_json_bytes e of None \<Rightarrow> True
       | Some n \<Rightarrow> n + json_total GameV2 (en_server e) es \<le> 262000))"

definition bucket_capacity_ok :: "bucket_row \<Rightarrow> bucket_row list \<Rightarrow> bool" where
  "bucket_capacity_ok b bs \<longleftrightarrow>
     bucket_key b \<in> set (map bucket_key bs) \<or>
     count (\<lambda>x. bk_profile x = bk_profile b \<and> bk_server x = bk_server b) bs < 8"

end
