(* ===== verification/Publication.thy ===== *)
theory Publication
  imports DirectoryTables
begin

text \<open>
  Publication: \<open>persistRendezvousPublication\<close>, \<open>rendezvousPublicationMatches\<close>,
  \<open>readPublishedGeneration\<close> and \<open>readPublisherReplayState\<close> of
  \<open>src/src/rendezvous-publication.ts\<close>. One D1 batch of eleven statements, fenced by the commit
  token it writes into the replay row, advances the publisher's sequence and replaces its
  presence, its directory entry and its activity; a last statement aborts the batch when the
  tables do not say what was published.
\<close>

subsection \<open>Publications\<close>

text \<open>\<open>InternalRendezvousPublication\<close>; the profile is that of the body.\<close>

datatype publication_body =
    ClassicBody (cb_players: int) (cb_version: string) (cb_comment: string)
  | GameBody (gb_description: string) (gb_region: "string option") (gb_minor: int)
      (gb_content: string) (gb_content_revision: string) (gb_online: int) (gb_capacity: int)
      (gb_status: game_status)

record publication =
  pb_certificate :: string
  pb_server :: string
  pb_sequence :: string
  pb_nonce :: string
  pb_nonce_expires :: int
  pb_commit :: string
  pb_expected :: "string option"
  pb_generation :: string
  pb_token_hash :: string
  pb_now :: int
  pb_cutoff :: int
  pb_name :: string
  pb_public :: bool
  pb_host :: string
  pb_port :: int
  pb_cert :: string
  pb_auth :: bool
  pb_fingerprint :: string
  pb_body :: publication_body

definition pb_profile :: "publication \<Rightarrow> directory_profile" where
  "pb_profile p = (case pb_body p of ClassicBody _ _ _ \<Rightarrow> ClassicV3 | _ \<Rightarrow> GameV2)"

definition published_host :: "publication \<Rightarrow> string option" where
  "published_host p = (if pb_host p = '''' then None else Some (pb_host p))"

definition published_port :: "publication \<Rightarrow> int option" where
  "published_port p = (if pb_host p = '''' then None else Some (pb_port p))"

definition publicationPopulation :: "publication \<Rightarrow> int" where
  "publicationPopulation p = (case pb_body p of ClassicBody n _ _ \<Rightarrow> n | GameBody _ _ _ _ _ n _ _ \<Rightarrow> n)"

definition DIRECTORY_ACTIVITY_WINDOW_SECONDS :: int where "DIRECTORY_ACTIVITY_WINDOW_SECONDS = 7 * 24 * 60 * 60"
definition DIRECTORY_ACTIVITY_BUCKET_SECONDS :: int where "DIRECTORY_ACTIVITY_BUCKET_SECONDS = 24 * 60 * 60"
definition DIRECTORY_ACTIVITY_MAX_GAP_SECONDS :: int where "DIRECTORY_ACTIVITY_MAX_GAP_SECONDS = 15 * 60"
definition DIRECTORY_ACTIVITY_MAX_POPULATION :: int where "DIRECTORY_ACTIVITY_MAX_POPULATION = 100000"

definition population :: "publication \<Rightarrow> int" where
  "population p = min DIRECTORY_ACTIVITY_MAX_POPULATION (publicationPopulation p)"

definition bucketStart :: "publication \<Rightarrow> int" where
  "bucketStart p = (pb_now p div DIRECTORY_ACTIVITY_BUCKET_SECONDS) * DIRECTORY_ACTIVITY_BUCKET_SECONDS"

subsection \<open>The size of a game entry\<close>

text \<open>\<open>JSON.stringify\<close> of a text, on its UTF-8 bytes (bytes from 128 on are never escaped).\<close>

definition hex_char :: "nat \<Rightarrow> char" where
  "hex_char d = ''0123456789abcdef'' ! d"

definition json_escape :: "char \<Rightarrow> string" where
  "json_escape c =
     (let n = of_char c :: nat in
      if n = 34 then [byte 92, byte 34] else if n = 92 then [byte 92, byte 92]
      else if n = 8 then [byte 92, CHR ''b''] else if n = 9 then [byte 92, CHR ''t'']
      else if n = 10 then [byte 92, CHR ''n''] else if n = 12 then [byte 92, CHR ''f'']
      else if n = 13 then [byte 92, CHR ''r'']
      else if n < 32 then byte 92 # ''u00'' @ [hex_char (n div 16), hex_char (n mod 16)]
      else [c])"

definition json_string :: "string \<Rightarrow> string" where
  "json_string s = byte 34 # concat (map json_escape s) @ [byte 34]"

definition json_int :: "int \<Rightarrow> string" where
  "json_int n = (if n < 0 then CHR ''-'' # to_decimal (nat (- n)) else to_decimal (nat n))"

definition json_bool :: "bool \<Rightarrow> string" where
  "json_bool b = (if b then ''true'' else ''false'')"

definition json_join :: "string list \<Rightarrow> string" where
  "json_join xs = (case xs of [] \<Rightarrow> [] | x # ys \<Rightarrow> x @ concat (map (\<lambda>y. CHR '','' # y) ys))"

definition json_object :: "(string \<times> string) list \<Rightarrow> string" where
  "json_object ms = CHR ''{'' # json_join (map (\<lambda>(k, v). json_string k @ CHR '':'' # v) ms) @ ''}''"

definition status_name :: "game_status \<Rightarrow> string" where
  "status_name s = (case s of StatusOnline \<Rightarrow> ''online'' | StatusFull \<Rightarrow> ''full'' | StatusMaintenance \<Rightarrow> ''maintenance'')"

definition gameJsonServer :: "publication \<Rightarrow> string" where
  "gameJsonServer p =
     (case pb_body p of
        ClassicBody _ _ _ \<Rightarrow> ''''
      | GameBody description region minor content revision online capacity status \<Rightarrow>
          json_object (
            [(''serverId'', json_string (pb_server p)), (''certificateSha256'', json_string (pb_cert p)),
             (''name'', json_string (pb_name p)), (''description'', json_string description)] @
            (case region of None \<Rightarrow> [] | Some r \<Rightarrow> [(''region'', json_string r)]) @
            [(''protocol'', json_object [(''major'', json_int 1), (''minor'', json_int minor)]),
             (''content'', json_object [(''id'', json_string content), (''revisionSha256'', json_string revision)]),
             (''players'', json_object [(''online'', json_int online), (''capacity'', json_int capacity)]),
             (''status'', json_string (status_name status)), (''accessRequired'', json_bool (pb_auth p))] @
            (if pb_host p = '''' then []
             else [(''endpoint'', json_object [(''hostname'', json_string (pb_host p)), (''port'', json_int (pb_port p))])])))"

definition gamePublicationJsonByteLength :: "publication \<Rightarrow> int" where
  "gamePublicationJsonByteLength p = int (length (gameJsonServer p))"

subsection \<open>Statements\<close>

definition on_base :: "database statement \<Rightarrow> directory statement" where
  "on_base s w = map_option (\<lambda>(n, d). (n, w\<lparr>dr_base := d\<rparr>)) (s (dr_base w))"

definition only_if :: "(directory \<Rightarrow> bool) \<Rightarrow> directory statement \<Rightarrow> directory statement" where
  "only_if P s w = (if P w then s w else Some (0, w))"

text \<open>The profiles that share one sequence and one set of nonces.\<close>

definition lineage :: "directory_profile \<Rightarrow> directory_profile \<Rightarrow> bool" where
  "lineage p q \<longleftrightarrow> (if p = ClassicV3 then q \<in> {ClassicV1, ClassicV2, ClassicV3} else q \<in> {GameV1, GameV2})"

definition lineage_nonce :: "publication \<Rightarrow> database \<Rightarrow> bool" where
  "lineage_nonce p d \<longleftrightarrow>
     list_ex (\<lambda>n. nn_server n = pb_server p \<and> lineage (pb_profile p) (nn_profile n) \<and> nn_nonce n = pb_nonce p)
       (db_nonces d)"

definition lineage_reached :: "(directory_profile \<Rightarrow> bool) \<Rightarrow> publication \<Rightarrow> database \<Rightarrow> bool" where
  "lineage_reached P p d \<longleftrightarrow>
     list_ex (\<lambda>r. rp_server r = pb_server p \<and> lineage (pb_profile p) (rp_profile r) \<and> P (rp_profile r) \<and>
        (length (rp_sequence r) > length (pb_sequence p) \<or>
         length (rp_sequence r) = length (pb_sequence p) \<and> rp_sequence r \<ge> pb_sequence p)) (db_replay d)"

definition replay_row_of :: "publication \<Rightarrow> replay_row" where
  "replay_row_of p =
     \<lparr>rp_server = pb_server p, rp_profile = pb_profile p, rp_sequence = pb_sequence p,
      rp_nonce = pb_nonce p, rp_commit = pb_commit p, rp_updated = pb_now p\<rparr>"

definition replay_permits :: "publication \<Rightarrow> database \<Rightarrow> replay_row \<Rightarrow> replay_row \<Rightarrow> bool" where
  "replay_permits p d old new \<longleftrightarrow>
     sql_newer (rp_sequence new) (rp_sequence old) \<and> \<not> lineage_nonce p d \<and>
     \<not> lineage_reached (\<lambda>q. q \<noteq> rp_profile new) p d"

definition replay_merge :: "replay_row \<Rightarrow> replay_row \<Rightarrow> replay_row" where
  "replay_merge old new =
     old\<lparr>rp_sequence := rp_sequence new, rp_nonce := rp_nonce new, rp_commit := rp_commit new,
         rp_updated := rp_updated new\<rparr>"

definition insertReplay :: "publication \<Rightarrow> database statement" where
  "insertReplay p d =
     (if lineage_nonce p d \<or> lineage_reached (\<lambda>_. True) p d \<or> \<not> publisherNonceCapacity 1 d then Some (0, d)
      else
        let r = replay_row_of p; permits = replay_permits p d in
        if \<not> upsert_ok replay_row_ok replay_key permits replay_merge r (db_replay d) then None
        else
          let (n, rs) = upsert_rows replay_key permits replay_merge r (db_replay d) in
          Some (n, d\<lparr>db_replay := rs\<rparr>))"

definition committed_by :: "publication \<Rightarrow> directory \<Rightarrow> bool" where
  "committed_by p w \<longleftrightarrow> signedCommit (pb_server p) (pb_profile p) (pb_commit p) (dr_base w)"

definition nonce_row_of :: "publication \<Rightarrow> nonce_row" where
  "nonce_row_of p =
     \<lparr>nn_server = pb_server p, nn_profile = pb_profile p, nn_nonce = pb_nonce p,
      nn_expires = pb_nonce_expires p, nn_created = pb_now p\<rparr>"

definition insertNonce :: "publication \<Rightarrow> directory statement" where
  "insertNonce p = only_if (committed_by p) (on_base (insert_nonce (nonce_row_of p)))"

definition revision_of :: "directory_profile \<Rightarrow> directory \<Rightarrow> int option" where
  "revision_of p w = map_option rv_revision (lookup rv_profile p (dr_revisions w))"

definition entry_of :: "directory_profile \<Rightarrow> string \<Rightarrow> directory \<Rightarrow> entry_row option" where
  "entry_of p s w = lookup entry_key (p, s) (dr_entries w)"

definition presence_at :: "directory_profile \<Rightarrow> string \<Rightarrow> directory \<Rightarrow> presence_row option" where
  "presence_at p s w = lookup presence_key (p, s) (db_presence (dr_base w))"

definition visibleContentChanged :: "publication \<Rightarrow> directory \<Rightarrow> bool" where
  "visibleContentChanged p w \<longleftrightarrow>
     (pb_public p \<and>
        \<not> (case (entry_of (pb_profile p) (pb_server p) w, presence_at (pb_profile p) (pb_server p) w) of
             (Some e, Some x) \<Rightarrow> ps_seen x > pb_cutoff p \<and> en_fingerprint e = pb_fingerprint p
           | _ \<Rightarrow> False)) \<or>
     (\<not> pb_public p \<and> entry_of (pb_profile p) (pb_server p) w \<noteq> None)"

definition presence_row_of :: "publication \<Rightarrow> int \<Rightarrow> bool \<Rightarrow> presence_row" where
  "presence_row_of p base changed =
     \<lparr>ps_profile = pb_profile p, ps_server = pb_server p, ps_seen = pb_now p,
      ps_token_hash = pb_token_hash p, ps_generation = pb_generation p, ps_commit = pb_commit p,
      ps_base = base, ps_visible = (if changed then Some (base + 1) else None),
      ps_certificate = Some (pb_certificate p), ps_name = Some (pb_name p),
      ps_hostname = published_host p, ps_port = published_port p, ps_access = Some (pb_auth p)\<rparr>"

definition presence_merge :: "presence_row \<Rightarrow> presence_row \<Rightarrow> presence_row" where
  "presence_merge old new =
     old\<lparr>ps_name := ps_name new, ps_certificate := ps_certificate new, ps_hostname := ps_hostname new,
         ps_port := ps_port new, ps_access := ps_access new, ps_seen := ps_seen new,
         ps_token_hash := ps_token_hash new, ps_generation := ps_generation new, ps_commit := ps_commit new,
         ps_base := ps_base new, ps_visible := ps_visible new\<rparr>"

abbreviation always :: "'r \<Rightarrow> 'r \<Rightarrow> bool" where "always \<equiv> \<lambda>_ _. True"

definition insert_presence :: "presence_row \<Rightarrow> database statement" where
  "insert_presence x d =
     (if \<not> upsert_ok presence_row_ok presence_key always presence_merge x (db_presence d) \<or>
         \<not> presence_capacity_ok x (db_presence d) \<or>
         (ps_server x, ps_profile x) \<notin> set (map replay_key (db_replay d)) then None
      else
        let (n, rs) = upsert_rows presence_key always presence_merge x (db_presence d) in
        Some (n, d\<lparr>db_presence := rs\<rparr>))"

definition presenceMutation :: "publication \<Rightarrow> directory statement" where
  "presenceMutation p w =
     (case revision_of (pb_profile p) w of
        Some base \<Rightarrow>
          if committed_by p w
          then on_base (insert_presence (presence_row_of p base (visibleContentChanged p w))) w
          else Some (0, w)
      | None \<Rightarrow> Some (0, w))"

text \<open>The presence row that this publication wrote.\<close>

definition own_presence :: "publication \<Rightarrow> directory \<Rightarrow> presence_row option" where
  "own_presence p w =
     (case presence_at (pb_profile p) (pb_server p) w of
        None \<Rightarrow> None
      | Some x \<Rightarrow> if ps_commit x = pb_commit p then Some x else None)"

definition visible_next :: "publication \<Rightarrow> directory \<Rightarrow> revision_row \<Rightarrow> bool" where
  "visible_next p w r \<longleftrightarrow>
     rv_profile r = pb_profile p \<and>
     (case own_presence p w of None \<Rightarrow> False | Some x \<Rightarrow> ps_visible x = Some (rv_revision r + 1))"

definition visibleRevisionStatement :: "publication \<Rightarrow> directory statement" where
  "visibleRevisionStatement p w =
     (let bump = (\<lambda>r. r\<lparr>rv_revision := (case own_presence p w of
                      None \<Rightarrow> rv_revision r
                    | Some x \<Rightarrow> (case ps_visible x of None \<Rightarrow> rv_revision r | Some v \<Rightarrow> v)),
                  rv_updated := max (rv_updated r) (pb_now p)\<rparr>) in
      if list_ex (\<lambda>r. visible_next p w r \<and> rv_revision (bump r) < 0) (dr_revisions w) then None
      else Some (count (visible_next p w) (dr_revisions w),
                 w\<lparr>dr_revisions := update_where (visible_next p w) bump (dr_revisions w)\<rparr>))"

text \<open>
  INSERT into \<open>directory_outbox\<close> with the trigger \<open>directory_outbox_coalesce_after_insert\<close>;
  \<open>tc\<close> says whether the change count of D1 includes the rows that the trigger deletes.
\<close>

definition insert_outbox :: "bool \<Rightarrow> outbox_row \<Rightarrow> directory statement" where
  "insert_outbox tc o1 w =
     (let os = dr_outbox w;
          obsolete = (\<lambda>x. ob_profile x = ob_profile o1 \<and> ob_revision x < ob_revision o1) in
      if outbox_key o1 \<in> set (map outbox_key os) \<or> ob_revision o1 \<le> 0 \<or>
         ob_profile o1 \<notin> set (map rv_profile (dr_revisions w)) then None
      else Some (1 + (if tc then count obsolete os else 0),
                 w\<lparr>dr_outbox := filter (\<lambda>x. \<not> obsolete x) (os @ [o1])\<rparr>))"

definition visibleOutboxStatement :: "bool \<Rightarrow> publication \<Rightarrow> directory statement" where
  "visibleOutboxStatement tc p w =
     (case (revision_of (pb_profile p) w, own_presence p w) of
        (Some revision, Some x) \<Rightarrow>
          if ps_visible x = Some revision \<and> ps_visible x = Some (ps_base x + 1)
          then insert_outbox tc \<lparr>ob_profile = pb_profile p, ob_revision = revision, ob_created = pb_now p\<rparr> w
          else Some (0, w)
      | _ \<Rightarrow> Some (0, w))"

definition entry_row_of :: "publication \<Rightarrow> entry_row" where
  "entry_row_of p =
     (case pb_body p of
        ClassicBody players version comment \<Rightarrow>
          \<lparr>en_profile = pb_profile p, en_server = pb_server p, en_name = pb_name p, en_players = Some players,
           en_version = Some version, en_comment = Some comment, en_description = None, en_region = None,
           en_major = None, en_minor = None, en_content = None, en_content_revision = None, en_online = None,
           en_capacity = None, en_status = None, en_json_bytes = None, en_hostname = published_host p,
           en_port = published_port p, en_certificate = pb_cert p, en_access = Some (pb_auth p),
           en_fingerprint = pb_fingerprint p\<rparr>
      | GameBody description region minor content revision online capacity status \<Rightarrow>
          \<lparr>en_profile = pb_profile p, en_server = pb_server p, en_name = pb_name p, en_players = None,
           en_version = None, en_comment = None, en_description = Some description, en_region = region,
           en_major = Some 1, en_minor = Some minor, en_content = Some content,
           en_content_revision = Some revision, en_online = Some online, en_capacity = Some capacity,
           en_status = Some status, en_json_bytes = Some (gamePublicationJsonByteLength p),
           en_hostname = published_host p, en_port = published_port p, en_certificate = pb_cert p,
           en_access = Some (pb_auth p), en_fingerprint = pb_fingerprint p\<rparr>)"

text \<open>
  DO UPDATE of an entry. The game statement clears the classic columns; the classic one leaves the
  game columns alone, which the constraints keep \<open>NULL\<close> in a classic row.
\<close>

definition entry_merge :: "entry_row \<Rightarrow> entry_row \<Rightarrow> entry_row" where
  "entry_merge old new =
     (let both = old\<lparr>en_name := en_name new, en_players := en_players new, en_version := en_version new,
            en_comment := en_comment new, en_hostname := en_hostname new, en_port := en_port new,
            en_certificate := en_certificate new, en_access := en_access new,
            en_fingerprint := en_fingerprint new\<rparr> in
      if en_profile new = GameV2
      then both\<lparr>en_description := en_description new, en_region := en_region new, en_major := en_major new,
            en_minor := en_minor new, en_content := en_content new,
            en_content_revision := en_content_revision new, en_online := en_online new,
            en_capacity := en_capacity new, en_status := en_status new, en_json_bytes := en_json_bytes new\<rparr>
      else both)"

definition insert_entry :: "entry_row \<Rightarrow> directory statement" where
  "insert_entry e w =
     (if \<not> upsert_ok entry_row_ok entry_key always entry_merge e (dr_entries w) \<or>
         \<not> json_budget_ok e (dr_entries w) \<or>
         entry_key e \<notin> set (map presence_key (db_presence (dr_base w))) then None
      else
        let (n, es) = upsert_rows entry_key always entry_merge e (dr_entries w) in
        Some (n, w\<lparr>dr_entries := es\<rparr>))"

definition directoryEntryMutation :: "publication \<Rightarrow> directory statement" where
  "directoryEntryMutation p =
     only_if (\<lambda>w. own_presence p w \<noteq> None)
       (if pb_public p then insert_entry (entry_row_of p)
        else (\<lambda>w. Some (count (\<lambda>e. entry_key e = (pb_profile p, pb_server p)) (dr_entries w),
                w\<lparr>dr_entries := filter (\<lambda>e. entry_key e \<noteq> (pb_profile p, pb_server p)) (dr_entries w)\<rparr>)))"

subsection \<open>Activity\<close>

abbreviation bucket_of :: "publication \<Rightarrow> bucket_row \<Rightarrow> bool" where
  "bucket_of p b \<equiv> bk_profile b = pb_profile p \<and> bk_server b = pb_server p"

definition activity_of :: "publication \<Rightarrow> directory \<Rightarrow> activity_row option" where
  "activity_of p w = lookup activity_key (pb_profile p, pb_server p) (dr_activity w)"

definition delete_buckets :: "(bucket_row \<Rightarrow> bool) \<Rightarrow> directory statement" where
  "delete_buckets P w =
     Some (count P (dr_buckets w), w\<lparr>dr_buckets := filter (\<lambda>b. \<not> P b) (dr_buckets w)\<rparr>)"

definition delete_activity :: "(activity_row \<Rightarrow> bool) \<Rightarrow> directory statement" where
  "delete_activity P w =
     Some (count P (dr_activity w), w\<lparr>dr_activity := filter (\<lambda>a. \<not> P a) (dr_activity w)\<rparr>)"

text \<open>The interval that the previous observation covers, and its population.\<close>

definition positive_interval :: "publication \<Rightarrow> activity_row option \<Rightarrow> int" where
  "positive_interval p previous =
     (case previous of
        None \<Rightarrow> 0
      | Some a \<Rightarrow>
          if pb_now p > ac_observed a \<and> pb_now p - ac_observed a \<le> DIRECTORY_ACTIVITY_MAX_GAP_SECONDS \<and>
             ac_population a > 0
          then pb_now p - ac_observed a else 0)"

definition prior_population :: "activity_row option \<Rightarrow> int" where
  "prior_population previous =
     min (case previous of None \<Rightarrow> 0 | Some a \<Rightarrow> ac_population a) DIRECTORY_ACTIVITY_MAX_POPULATION"

definition bucket_row_of :: "publication \<Rightarrow> activity_row option \<Rightarrow> bucket_row" where
  "bucket_row_of p previous =
     \<lparr>bk_profile = pb_profile p, bk_server = pb_server p, bk_start = bucketStart p,
      bk_seconds = positive_interval p previous,
      bk_minutes = positive_interval p previous * prior_population previous div 60,
      bk_max = population p, bk_positive = (if population p > 0 then 1 else 0),
      bk_zero = (if population p = 0 then 1 else 0)\<rparr>"

definition bucket_merge :: "bucket_row \<Rightarrow> bucket_row \<Rightarrow> bucket_row" where
  "bucket_merge old new =
     old\<lparr>bk_seconds := min 604800 (bk_seconds old + bk_seconds new),
         bk_minutes := min 1008000000 (bk_minutes old + bk_minutes new),
         bk_max := max (bk_max old) (bk_max new),
         bk_positive := min 1000000 (bk_positive old + bk_positive new),
         bk_zero := min 1000000 (bk_zero old + bk_zero new)\<rparr>"

definition insert_bucket :: "bucket_row \<Rightarrow> directory statement" where
  "insert_bucket b w =
     (if \<not> upsert_ok bucket_row_ok bucket_key always bucket_merge b (dr_buckets w) \<or>
         \<not> bucket_capacity_ok b (dr_buckets w) \<or>
         (bk_profile b, bk_server b) \<notin> set (map presence_key (db_presence (dr_base w))) then None
      else
        let (n, bs) = upsert_rows bucket_key always bucket_merge b (dr_buckets w) in
        Some (n, w\<lparr>dr_buckets := bs\<rparr>))"

definition activity_row_of :: "publication \<Rightarrow> activity_row" where
  "activity_row_of p =
     \<lparr>ac_profile = pb_profile p, ac_server = pb_server p, ac_observed = pb_now p,
      ac_positive = (if population p > 0 then Some (pb_now p) else None),
      ac_population = population p, ac_count = 1\<rparr>"

definition activity_merge :: "activity_row \<Rightarrow> activity_row \<Rightarrow> activity_row" where
  "activity_merge old new =
     old\<lparr>ac_observed := ac_observed new,
         ac_positive := (if ac_population new > 0 then Some (ac_observed new) else ac_positive old),
         ac_population := ac_population new, ac_count := min 1000000 (ac_count old + 1)\<rparr>"

definition insert_activity :: "activity_row \<Rightarrow> directory statement" where
  "insert_activity a w =
     (if \<not> upsert_ok activity_row_ok activity_key always activity_merge a (dr_activity w) \<or>
         activity_key a \<notin> set (map presence_key (db_presence (dr_base w))) then None
      else
        let (n, rs) = upsert_rows activity_key always activity_merge a (dr_activity w) in
        Some (n, w\<lparr>dr_activity := rs\<rparr>))"

definition activityMutationStatements :: "publication \<Rightarrow> directory statement list" where
  "activityMutationStatements p =
     (let mine = committed_by p in
      if \<not> pb_public p
      then [only_if mine (delete_buckets (bucket_of p)),
            only_if mine (delete_activity (\<lambda>a. activity_key a = (pb_profile p, pb_server p))),
            (\<lambda>w. Some (0, w))]
      else [only_if mine (delete_buckets (\<lambda>b. bucket_of p b \<and>
                bk_start b < bucketStart p - DIRECTORY_ACTIVITY_WINDOW_SECONDS)),
            only_if mine (\<lambda>w. insert_bucket (bucket_row_of p (activity_of p w)) w),
            only_if mine (insert_activity (activity_row_of p))])"

subsection \<open>The assertion\<close>

definition publicationAuthenticationPredicate :: "publication \<Rightarrow> directory \<Rightarrow> bool" where
  "publicationAuthenticationPredicate p w \<longleftrightarrow>
     list_ex (\<lambda>n. nn_server n = pb_server p \<and> nn_profile n = pb_profile p \<and> nn_nonce n = pb_nonce p \<and>
        nn_expires n = pb_nonce_expires p) (db_nonces (dr_base w))"

definition publicationPresencePredicate :: "publication \<Rightarrow> directory \<Rightarrow> bool" where
  "publicationPresencePredicate p w \<longleftrightarrow>
     (case (presence_at (pb_profile p) (pb_server p) w, revision_of (pb_profile p) w) of
        (Some x, Some revision) \<Rightarrow>
          ps_name x = Some (pb_name p) \<and> ps_certificate x = Some (pb_certificate p) \<and>
          ps_hostname x = published_host p \<and> ps_port x = published_port p \<and>
          ps_access x = Some (pb_auth p) \<and> ps_seen x = pb_now p \<and> ps_token_hash x = pb_token_hash p \<and>
          ps_generation x = pb_generation p \<and> ps_commit x = pb_commit p \<and>
          (case ps_visible x of
             None \<Rightarrow> revision = ps_base x
           | Some v \<Rightarrow>
               v = ps_base x + 1 \<and> revision = v \<and>
               list_ex (\<lambda>o1. ob_profile o1 = pb_profile p \<and> ob_revision o1 = v \<and> ob_created o1 = pb_now p)
                 (dr_outbox w) \<and>
               \<not> list_ex (\<lambda>o1. ob_profile o1 = pb_profile p \<and> ob_revision o1 \<noteq> v) (dr_outbox w))
      | _ \<Rightarrow> False)"

definition publicationEntryPredicate :: "publication \<Rightarrow> directory \<Rightarrow> bool" where
  "publicationEntryPredicate p w \<longleftrightarrow>
     (case entry_of (pb_profile p) (pb_server p) w of
        None \<Rightarrow> \<not> pb_public p
      | Some e \<Rightarrow>
          pb_public p \<and> en_name e = pb_name p \<and> en_hostname e = published_host p \<and>
          en_port e = published_port p \<and> en_certificate e = pb_cert p \<and> en_access e = Some (pb_auth p) \<and>
          en_fingerprint e = pb_fingerprint p \<and>
          (case pb_body p of
             ClassicBody players version comment \<Rightarrow>
               en_players e = Some players \<and> en_version e = Some version \<and> en_comment e = Some comment
           | GameBody description region minor content revision online capacity status \<Rightarrow>
               en_players e = None \<and> en_version e = None \<and> en_comment e = None \<and>
               en_description e = Some description \<and> en_region e = region \<and> en_major e = Some 1 \<and>
               en_minor e = Some minor \<and> en_content e = Some content \<and>
               en_content_revision e = Some revision \<and> en_online e = Some online \<and>
               en_capacity e = Some capacity \<and> en_status e = Some status \<and>
               en_json_bytes e = Some (gamePublicationJsonByteLength p)))"

definition publicationActivityPredicate :: "publication \<Rightarrow> directory \<Rightarrow> bool" where
  "publicationActivityPredicate p w \<longleftrightarrow>
     (if \<not> pb_public p
      then activity_of p w = None \<and> \<not> list_ex (bucket_of p) (dr_buckets w)
      else
        (case activity_of p w of
           None \<Rightarrow> False
         | Some a \<Rightarrow>
             ac_observed a = pb_now p \<and>
             (if publicationPopulation p > 0 then ac_positive a = Some (pb_now p)
              else case ac_positive a of None \<Rightarrow> True | Some t \<Rightarrow> t \<le> pb_now p) \<and>
             ac_population a = population p \<and> ac_count a \<ge> 1) \<and>
        list_ex (\<lambda>b. bucket_of p b \<and> bk_start b = bucketStart p \<and> bk_max b \<ge> population p \<and>
            bk_positive b \<ge> (if publicationPopulation p > 0 then 1 else 0) \<and>
            bk_zero b \<ge> (if publicationPopulation p = 0 then 1 else 0)) (dr_buckets w) \<and>
        \<not> list_ex (\<lambda>b. bucket_of p b \<and> bk_start b < bucketStart p - DIRECTORY_ACTIVITY_WINDOW_SECONDS)
            (dr_buckets w))"

text \<open>\<open>INSERT INTO directory_transaction_assertions\<close> of a row that its CHECK refuses.\<close>

definition publicationAssertion :: "publication \<Rightarrow> directory statement" where
  "publicationAssertion p w =
     (if committed_by p w \<and>
         \<not> (publicationAuthenticationPredicate p w \<and> publicationPresencePredicate p w \<and>
            publicationEntryPredicate p w \<and> publicationActivityPredicate p w)
      then None else Some (0, w))"

subsection \<open>The batch\<close>

definition publication_batch :: "bool \<Rightarrow> publication \<Rightarrow> directory statement list" where
  "publication_batch tc p =
     [on_base (cleanupPublisherNonces (pb_now p)), on_base (insertReplay p), insertNonce p,
      presenceMutation p, visibleRevisionStatement p, visibleOutboxStatement tc p,
      directoryEntryMutation p] @ activityMutationStatements p @ [publicationAssertion p]"

datatype publication_error =
    BatchFailed | InvalidResult | RejectedMutated | NotPersisted | AssertionDurable
  | ActivityIncomplete | OutboxDiverged | DirectoryStateMissing

text \<open>\<open>publicationResult\<close> and \<open>requireDirectoryMutationResults\<close> on the change counts after the first.\<close>

definition publicationResult :: "nat list \<Rightarrow> nat \<Rightarrow> nat \<Rightarrow> publication_error + (bool \<times> bool)" where
  "publicationResult ns i j =
     (let revision = ns ! i; outbox = ns ! j in
      if revision > 1 \<or> revision = 0 \<and> outbox \<noteq> 0 \<or> revision = 1 \<and> (outbox < 1 \<or> outbox > 2)
      then Inl OutboxDiverged else Inr (True, revision = 1))"

definition requireDirectoryMutationResults :: "nat list \<Rightarrow> publication \<Rightarrow> nat \<Rightarrow> nat \<Rightarrow> bool" where
  "requireDirectoryMutationResults ns p entry presence \<longleftrightarrow>
     list_all (\<lambda>i. ns ! i \<le> 1 \<and> ((i = presence \<or> pb_public p) \<longrightarrow> ns ! i = 1)) [entry, presence]"

definition publication_outcome :: "nat list \<Rightarrow> publication \<Rightarrow> publication_error + (bool \<times> bool)" where
  "publication_outcome results p =
     (if length results \<noteq> 11 then Inl InvalidResult
      else
        let persisted = drop 1 results in
        if persisted ! 0 \<noteq> 1
        then (if list_ex (\<lambda>n. n \<noteq> 0) (drop 1 persisted) then Inl RejectedMutated else Inr (False, False))
        else if persisted ! 1 \<noteq> 1 then Inl NotPersisted
        else if persisted ! 9 \<noteq> 0 then Inl AssertionDurable
        else if pb_public p \<and> (persisted ! 7 \<noteq> 1 \<or> persisted ! 8 \<noteq> 1) then Inl ActivityIncomplete
        else if \<not> requireDirectoryMutationResults persisted p 5 2 then Inl DirectoryStateMissing
        else publicationResult persisted 3 4)"

definition persistRendezvousPublication ::
  "bool \<Rightarrow> publication \<Rightarrow> directory \<Rightarrow> (publication_error + (bool \<times> bool)) \<times> directory" where
  "persistRendezvousPublication tc p w =
     (case run_batch (publication_batch tc p) w of
        None \<Rightarrow> (Inl BatchFailed, w)
      | Some (results, w1) \<Rightarrow> (publication_outcome results p, w1))"

subsection \<open>Reads\<close>

definition rendezvousPublicationMatches :: "publication \<Rightarrow> directory \<Rightarrow> bool" where
  "rendezvousPublicationMatches p w \<longleftrightarrow>
     count (\<lambda>r. rp_server r = pb_server p \<and> rp_profile r = pb_profile p \<and> rp_sequence r = pb_sequence p \<and>
        rp_nonce r = pb_nonce p \<and> rp_commit r = pb_commit p \<and>
        list_ex (\<lambda>n. nn_server n = rp_server r \<and> nn_profile n = rp_profile r \<and> nn_nonce n = rp_nonce r)
          (db_nonces (dr_base w))) (db_replay (dr_base w)) = 1 \<and>
     publicationPresencePredicate p w \<and> publicationEntryPredicate p w \<and> publicationActivityPredicate p w"

definition readPublishedGeneration :: "directory_profile \<Rightarrow> string \<Rightarrow> directory \<Rightarrow> unit + string option" where
  "readPublishedGeneration profile server w =
     (case presence_at profile server w of
        None \<Rightarrow> Inr None
      | Some x \<Rightarrow> if is_hex64 (ps_generation x) then Inr (Some (ps_generation x)) else Inl ())"

definition newest_replay :: "replay_row list \<Rightarrow> replay_row option" where
  "newest_replay rs =
     (case js_sort (\<lambda>a b. if sql_newer (rp_sequence a) (rp_sequence b) then -1
                       else if sql_newer (rp_sequence b) (rp_sequence a) then 1 else 0) rs of
        [] \<Rightarrow> None | r # _ \<Rightarrow> Some r)"

definition readPublisherReplayState :: "publication \<Rightarrow> directory \<Rightarrow> (string \<times> bool) option" where
  "readPublisherReplayState p w =
     map_option (\<lambda>r. (rp_sequence r, lineage_nonce p (dr_base w)))
       (newest_replay (filter (\<lambda>r. rp_server r = pb_server p \<and> lineage (pb_profile p) (rp_profile r))
          (db_replay (dr_base w))))"

end
