(* ===== verification/AccessRoutes.thy ===== *)
theory AccessRoutes
  imports Database
begin

text \<open>
  Access routes: \<open>mutateAccessRoute\<close> and \<open>cleanupAccessState\<close> of
  \<open>src/src/access-route-state.ts\<close>. One D1 batch holds the signed replay fence, the receipt
  with the decision, and the route it changes. The digests, the commit token and the new
  handle are arguments (Web Crypto). The lemmas show that the batch keeps the capacity
  invariant \<open>access_ok\<close>, that no constraint or trigger ever aborts it, and what each outcome
  does to the tables.
\<close>

subsection \<open>Requests\<close>

definition RETENTION_SECONDS :: int where "RETENTION_SECONDS = 90 * 86400"

record access_payload =
  ap_profile :: access_profile
  ap_server :: string
  ap_operation :: route_operation
  ap_request :: string
  ap_token :: string
  ap_revision :: string
  ap_index :: string
  ap_reservation :: "string option"
  ap_expires :: "int option"

record signed_mutation =
  sm_payload :: access_payload
  sm_sequence :: string
  sm_nonce :: string
  sm_nonce_expires :: int

text \<open>What the handler draws or computes before the batch.\<close>

record mutation_secrets =
  ms_commit :: string
  ms_handle :: string
  ms_digest :: string
  ms_tuple :: string

record access_result =
  ares_request :: string
  ares_outcome :: route_outcome
  ares_reservation :: "string option"
  ares_until :: "int option"
  ares_revision :: string

datatype access_error = AccessTransactionFailed | AccessConflict

definition access_result_of :: "access_payload \<Rightarrow> route_outcome \<Rightarrow> access_result" where
  "access_result_of p out =
     \<lparr>ares_request = ap_request p, ares_outcome = out, ares_reservation = None, ares_until = None,
      ares_revision = ap_revision p\<rparr>"

subsection \<open>The replay fence\<close>

text \<open>A live route that the payload names in full.\<close>

definition names_route :: "access_payload \<Rightarrow> route_row \<Rightarrow> bool" where
  "names_route p r \<longleftrightarrow>
     rt_index r = ap_index p \<and> rt_profile r = ap_profile p \<and> rt_server r = ap_server p \<and>
     rt_token r = ap_token p"

definition has_receipt :: "access_payload \<Rightarrow> database \<Rightarrow> bool" where
  "has_receipt p d \<longleftrightarrow>
     list_ex (\<lambda>r. rc_profile r = ap_profile p \<and> rc_server r = ap_server p \<and> rc_request r = ap_request p)
       (db_receipts d)"

definition owner_live :: "access_profile \<Rightarrow> string \<Rightarrow> database \<Rightarrow> nat" where
  "owner_live p s d = count (\<lambda>r. owned_by p s r \<and> route_live r) (db_routes d)"

definition owner_receipts :: "access_profile \<Rightarrow> string \<Rightarrow> database \<Rightarrow> nat" where
  "owner_receipts p s d = count (receipt_of p s) (db_receipts d)"

text \<open>The \<open>nonce_budget\<close>: how many rows the request may still make the tables keep.\<close>

definition nonce_growth :: "access_payload \<Rightarrow> database \<Rightarrow> nat" where
  "nonce_growth p d =
     (if ap_operation p = Reserve then 2
      else if ap_operation p = Revoke \<and>
              list_ex (\<lambda>r. names_route p r \<and> route_live r) (db_routes d) \<and> \<not> has_receipt p d \<and>
              length (db_receipts d) + live_routes d \<le> 65536 \<and>
              owner_receipts (ap_profile p) (ap_server p) d + owner_live (ap_profile p) (ap_server p) d \<le> 4096
      then 0 else 1)"

definition replay_of :: "access_payload \<Rightarrow> replay_row \<Rightarrow> bool" where
  "replay_of p r \<longleftrightarrow> rp_server r = ap_server p \<and> rp_profile r = directory_profile_of (ap_profile p)"

definition nonce_seen :: "signed_mutation \<Rightarrow> database \<Rightarrow> bool" where
  "nonce_seen m d \<longleftrightarrow>
     list_ex (\<lambda>n. nn_server n = ap_server (sm_payload m) \<and>
        nn_profile n = directory_profile_of (ap_profile (sm_payload m)) \<and> nn_nonce n = sm_nonce m) (db_nonces d)"

definition advance_ok :: "signed_mutation \<Rightarrow> database \<Rightarrow> replay_row \<Rightarrow> bool" where
  "advance_ok m d r \<longleftrightarrow>
     replay_of (sm_payload m) r \<and> sql_newer (sm_sequence m) (rp_sequence r) \<and> \<not> nonce_seen m d \<and>
     publisherNonceCapacity (nonce_growth (sm_payload m) d) d"

definition advanceReplay :: "signed_mutation \<Rightarrow> string \<Rightarrow> int \<Rightarrow> database statement" where
  "advanceReplay m commit now d =
     Some (count (advance_ok m d) (db_replay d),
       d\<lparr>db_replay := update_where (advance_ok m d)
         (\<lambda>r. r\<lparr>rp_sequence := sm_sequence m, rp_nonce := sm_nonce m, rp_commit := commit, rp_updated := now\<rparr>)
         (db_replay d)\<rparr>)"

definition replayFence :: "signed_mutation \<Rightarrow> string \<Rightarrow> database \<Rightarrow> bool" where
  "replayFence m commit d \<longleftrightarrow>
     list_ex (\<lambda>r. replay_of (sm_payload m) r \<and> rp_commit r = commit \<and> rp_sequence r = sm_sequence m \<and>
       rp_nonce r = sm_nonce m) (db_replay d)"

definition guarded :: "(database \<Rightarrow> bool) \<Rightarrow> database statement \<Rightarrow> database statement" where
  "guarded P s d = (if P d then s d else Some (0, d))"

definition insertSignedNonce :: "signed_mutation \<Rightarrow> string \<Rightarrow> int \<Rightarrow> database statement" where
  "insertSignedNonce m commit now =
     guarded (replayFence m commit)
       (insert_nonce \<lparr>nn_server = ap_server (sm_payload m),
          nn_profile = directory_profile_of (ap_profile (sm_payload m)), nn_nonce = sm_nonce m,
          nn_expires = sm_nonce_expires m, nn_created = now\<rparr>)"

subsection \<open>The decision\<close>

definition route_at :: "access_payload \<Rightarrow> database \<Rightarrow> route_row option" where
  "route_at p d = find (\<lambda>r. rt_index r = ap_index p) (db_routes d)"

definition token_conflict :: "access_payload \<Rightarrow> database \<Rightarrow> bool" where
  "token_conflict p d \<longleftrightarrow>
     list_ex (\<lambda>t. rt_profile t = ap_profile p \<and> rt_server t = ap_server p \<and> rt_token t = ap_token p \<and>
        rt_index t \<noteq> ap_index p) (db_routes d)"

text \<open>\<open>a <> b\<close> in SQL is not true when either side is \<open>NULL\<close>.\<close>

fun sql_differs :: "'a option \<Rightarrow> 'a option \<Rightarrow> bool" where
  "sql_differs (Some a) (Some b) = (a \<noteq> b)"
| "sql_differs _ _ = False"

definition owner_routes :: "access_profile \<Rightarrow> string \<Rightarrow> database \<Rightarrow> nat" where
  "owner_routes p s d = count (owned_by p s) (db_routes d)"

definition routes_full :: "access_payload \<Rightarrow> database \<Rightarrow> bool" where
  "routes_full p d \<longleftrightarrow>
     length (db_routes d) \<ge> 65536 \<or> owner_routes (ap_profile p) (ap_server p) d \<ge> 4096"

definition recently_seen :: "access_payload \<Rightarrow> int \<Rightarrow> database \<Rightarrow> bool" where
  "recently_seen p cutoff d \<longleftrightarrow>
     list_ex (\<lambda>x. ps_profile x = directory_profile_of (ap_profile p) \<and> ps_server x = ap_server p \<and>
       ps_seen x > cutoff) (db_presence d)"

definition decide_reserve :: "access_payload \<Rightarrow> int \<Rightarrow> int \<Rightarrow> database \<Rightarrow> route_outcome" where
  "decide_reserve p now freshness d =
     (if route_at p d \<noteq> None then OutConflict
      else if (case ap_expires p of None \<Rightarrow> False | Some e \<Rightarrow> e \<le> now) then OutExpired
      else if \<not> recently_seen p (now - freshness) d then OutUnavailable
      else if routes_full p d \<or> owner_live (ap_profile p) (ap_server p) d \<ge> 1024 then OutUnavailable
      else OutReserved)"

definition decide_activate :: "access_payload \<Rightarrow> int \<Rightarrow> database \<Rightarrow> route_outcome" where
  "decide_activate p now d =
     (case route_at p d of
        None \<Rightarrow> OutNotFound
      | Some r \<Rightarrow>
          if rt_revision r \<noteq> ap_revision p \<or> sql_differs (rt_reservation r) (ap_reservation p) \<or>
             rt_expires r \<noteq> ap_expires p then OutConflict
          else if rt_state r = RouteExpired \<or> rt_until r \<le> now \<or>
                  (case rt_expires r of None \<Rightarrow> False | Some e \<Rightarrow> e \<le> now) then OutExpired
          else if rt_state r \<noteq> RouteReserved then OutConflict
          else OutActive)"

definition decide_revoke :: "access_payload \<Rightarrow> database \<Rightarrow> route_outcome" where
  "decide_revoke p d = (if route_at p d = None \<and> routes_full p d then OutUnavailable else OutRevoked)"

definition decide_route :: "access_payload \<Rightarrow> int \<Rightarrow> int \<Rightarrow> database \<Rightarrow> route_outcome" where
  "decide_route p now freshness d =
     (let old = route_at p d in
      if token_conflict p d \<or>
         (case old of None \<Rightarrow> False
          | Some r \<Rightarrow> rt_profile r \<noteq> ap_profile p \<or> rt_server r \<noteq> ap_server p \<or> rt_token r \<noteq> ap_token p)
      then OutConflict
      else if ap_operation p \<noteq> Revoke \<and> map_option rt_state old = Some RouteRevoked then OutRevoked
      else if ap_operation p \<noteq> Revoke \<and> map_option rt_state old = Some RouteExpired then OutExpired
      else case ap_operation p of
        Reserve \<Rightarrow> decide_reserve p now freshness d
      | Activate \<Rightarrow> decide_activate p now d
      | Revoke \<Rightarrow> decide_revoke p d
      | ResultOf \<Rightarrow> OutUnavailable)"

text \<open>The receipt slots the decision takes: its own, and the revocation it reserves or uses up.\<close>

definition receipt_growth :: "access_payload \<Rightarrow> route_outcome \<Rightarrow> database \<Rightarrow> nat" where
  "receipt_growth p out d =
     (if out = OutReserved then 2
      else if out = OutRevoked \<and> (case route_at p d of None \<Rightarrow> False | Some r \<Rightarrow> route_live r) then 0
      else 1)"

definition receipt_room :: "access_payload \<Rightarrow> route_outcome \<Rightarrow> database \<Rightarrow> bool" where
  "receipt_room p out d \<longleftrightarrow>
     length (db_receipts d) + live_routes d + receipt_growth p out d \<le> 65536 \<and>
     owner_receipts (ap_profile p) (ap_server p) d + owner_live (ap_profile p) (ap_server p) d +
       receipt_growth p out d \<le> 4096"

definition receipt_revision :: "access_payload \<Rightarrow> route_outcome \<Rightarrow> route_row option \<Rightarrow> string" where
  "receipt_revision p out old =
     (case old of
        None \<Rightarrow> ap_revision p
      | Some r \<Rightarrow>
          if ap_operation p \<noteq> Revoke \<and> \<not> route_live r then rt_revision r
          else if out = OutRevoked \<and> sql_newer (rt_revision r) (ap_revision p) then rt_revision r
          else ap_revision p)"

definition receipt_for :: "signed_mutation \<Rightarrow> mutation_secrets \<Rightarrow> int \<Rightarrow> int \<Rightarrow> database \<Rightarrow> receipt_row" where
  "receipt_for m k now freshness d =
     (let p = sm_payload m; out = decide_route p now freshness d; old = route_at p d in
      \<lparr>rc_profile = ap_profile p, rc_server = ap_server p, rc_request = ap_request p,
       rc_digest = ms_digest k, rc_tuple = ms_tuple k, rc_operation = ap_operation p,
       rc_token = ap_token p, rc_outcome = out,
       rc_reservation = (if out = OutReserved then Some (ms_handle k) else Option.bind old rt_reservation),
       rc_until = (if out = OutReserved then Some (now + 60) else map_option rt_until old),
       rc_revision = receipt_revision p out old, rc_commit = ms_commit k, rc_created = now,
       rc_expires = now + RETENTION_SECONDS\<rparr>)"

definition recordReceipt :: "signed_mutation \<Rightarrow> mutation_secrets \<Rightarrow> int \<Rightarrow> int \<Rightarrow> database statement" where
  "recordReceipt m k now freshness =
     guarded (\<lambda>d. replayFence m (ms_commit k) d \<and> \<not> has_receipt (sm_payload m) d \<and>
          receipt_room (sm_payload m) (decide_route (sm_payload m) now freshness d) d)
       (\<lambda>d. insert_receipt (receipt_for m k now freshness d) d)"

subsection \<open>The effects\<close>

definition receiptFence :: "access_payload \<Rightarrow> string \<Rightarrow> route_outcome \<Rightarrow> database \<Rightarrow> bool" where
  "receiptFence p commit out d \<longleftrightarrow>
     list_ex (\<lambda>r. rc_profile r = ap_profile p \<and> rc_server r = ap_server p \<and> rc_request r = ap_request p \<and>
       rc_commit r = commit \<and> rc_outcome r = out) (db_receipts d)"

definition new_route :: "access_payload \<Rightarrow> string option \<Rightarrow> int \<Rightarrow> route_state \<Rightarrow> int option \<Rightarrow> route_row" where
  "new_route p handle now st revoked =
     \<lparr>rt_index = ap_index p, rt_profile = ap_profile p, rt_server = ap_server p, rt_token = ap_token p,
      rt_revision = ap_revision p, rt_state = st, rt_expires = ap_expires p, rt_reservation = handle,
      rt_until = now + 60, rt_created = now, rt_revoked = revoked\<rparr>"

definition revoke_row :: "access_payload \<Rightarrow> int \<Rightarrow> route_row \<Rightarrow> route_row" where
  "revoke_row p now r =
     r\<lparr>rt_state := RouteRevoked,
       rt_revision := (if sql_newer (ap_revision p) (rt_revision r) then ap_revision p else rt_revision r),
       rt_revoked := (case rt_revoked r of None \<Rightarrow> Some now | Some t \<Rightarrow> Some t)\<rparr>"

definition reserveRoute :: "access_payload \<Rightarrow> mutation_secrets \<Rightarrow> int \<Rightarrow> database statement" where
  "reserveRoute p k now =
     guarded (receiptFence p (ms_commit k) OutReserved)
       (insert_route (new_route p (Some (ms_handle k)) now RouteReserved None))"

definition activateRoute :: "access_payload \<Rightarrow> mutation_secrets \<Rightarrow> database statement" where
  "activateRoute p k =
     guarded (receiptFence p (ms_commit k) OutActive)
       (update_routes (\<lambda>r. rt_index r = ap_index p) (\<lambda>r. r\<lparr>rt_state := RouteActive\<rparr>))"

text \<open>The upsert checks the row it would insert before it looks for the conflict.\<close>

definition revokeRoute :: "access_payload \<Rightarrow> mutation_secrets \<Rightarrow> int \<Rightarrow> database statement" where
  "revokeRoute p k now =
     guarded (receiptFence p (ms_commit k) OutRevoked)
       (\<lambda>d. let row = new_route p (ap_reservation p) now RouteRevoked (Some now) in
          if \<not> route_row_ok row then None
          else if route_at p d = None then insert_route row d
          else update_routes (\<lambda>r. rt_index r = ap_index p) (revoke_row p now) d)"

definition dropGrants :: "access_payload \<Rightarrow> mutation_secrets \<Rightarrow> database statement" where
  "dropGrants p k =
     guarded (receiptFence p (ms_commit k) OutRevoked) (delete_grants (\<lambda>g. gr_index g = ap_index p))"

definition expire_row :: "int \<Rightarrow> route_row \<Rightarrow> route_row" where
  "expire_row now r = r\<lparr>rt_state := RouteExpired, rt_revoked := Some now\<rparr>"

definition expireRoute :: "access_payload \<Rightarrow> mutation_secrets \<Rightarrow> int \<Rightarrow> database statement" where
  "expireRoute p k now =
     guarded (receiptFence p (ms_commit k) OutExpired)
       (update_routes (\<lambda>r. rt_index r = ap_index p \<and> route_live r) (expire_row now))"

definition mutation_statements ::
  "signed_mutation \<Rightarrow> mutation_secrets \<Rightarrow> int \<Rightarrow> int \<Rightarrow> database statement list" where
  "mutation_statements m k now freshness =
     (let p = sm_payload m in
      [cleanupPublisherNonces now, advanceReplay m (ms_commit k) now, insertSignedNonce m (ms_commit k) now] @
      (if ap_operation p = ResultOf then []
       else [recordReceipt m k now freshness, reserveRoute p k now, activateRoute p k] @
         (if ap_operation p = Revoke then [revokeRoute p k now, dropGrants p k] else []) @
         [expireRoute p k now]))"

definition receipt_at :: "access_payload \<Rightarrow> database \<Rightarrow> receipt_row option" where
  "receipt_at p d =
     find (\<lambda>r. rc_profile r = ap_profile p \<and> rc_server r = ap_server p \<and> rc_request r = ap_request p)
       (db_receipts d)"

definition mutateAccessRoute ::
  "signed_mutation \<Rightarrow> mutation_secrets \<Rightarrow> int \<Rightarrow> int \<Rightarrow> database \<Rightarrow>
   (access_error + access_result) \<times> database" where
  "mutateAccessRoute m k now freshness d =
     (let p = sm_payload m in
      case run_batch (mutation_statements m k now freshness) d of
        None \<Rightarrow> (Inl AccessTransactionFailed, d)
      | Some (ns, d') \<Rightarrow>
          if ns ! 1 \<noteq> 1 \<or> ns ! 2 \<noteq> 1 then (Inl AccessConflict, d')
          else case (if replayFence m (ms_commit k) d' then receipt_at p d' else None) of
            None \<Rightarrow> (Inr (access_result_of p
                (if ap_operation p = ResultOf then OutNotFound else OutUnavailable)), d')
          | Some r \<Rightarrow>
              if (if ap_operation p = ResultOf then rc_tuple r \<noteq> ms_tuple k else rc_digest r \<noteq> ms_digest k)
              then (Inr (access_result_of p OutConflict), d')
              else (Inr \<lparr>ares_request = ap_request p, ares_outcome = rc_outcome r,
                     ares_reservation = rc_reservation r, ares_until = rc_until r,
                     ares_revision = rc_revision r\<rparr>, d'))"

subsection \<open>Retention (\<open>cleanupAccessState\<close>)\<close>

definition overdue_route :: "int \<Rightarrow> route_row \<Rightarrow> bool" where
  "overdue_route now r \<longleftrightarrow>
     rt_state r = RouteReserved \<and> rt_until r \<le> now \<or>
     rt_state r = RouteActive \<and> (case rt_expires r of None \<Rightarrow> False | Some e \<Rightarrow> e \<le> now)"

definition forgettable_route :: "int \<Rightarrow> database \<Rightarrow> route_row \<Rightarrow> bool" where
  "forgettable_route cutoff d r \<longleftrightarrow>
     \<not> route_live r \<and> (case rt_revoked r of None \<Rightarrow> False | Some t \<Rightarrow> t \<le> cutoff) \<and>
     \<not> list_ex (\<lambda>c. rc_profile c = rt_profile r \<and> rc_server c = rt_server r \<and> rc_token c = rt_token r)
         (db_receipts d)"

definition delete_receipts :: "(receipt_row \<Rightarrow> bool) \<Rightarrow> database statement" where
  "delete_receipts P d =
     Some (count P (db_receipts d), d\<lparr>db_receipts := filter (\<lambda>r. \<not> P r) (db_receipts d)\<rparr>)"

definition cleanup_statements :: "int \<Rightarrow> database statement list" where
  "cleanup_statements now =
     [\<lambda>d. let ks = first_keys 256 gr_current (\<lambda>g. gr_expires g \<le> now) (db_grants d) in
            delete_grants (\<lambda>g. gr_current g \<in> set ks) d,
      \<lambda>d. let ks = first_keys 256 rt_index (overdue_route now) (db_routes d) in
            update_routes (\<lambda>r. rt_index r \<in> set ks) (expire_row now) d,
      \<lambda>d. let ks = first_keys 256 receipt_key (\<lambda>r. rc_expires r \<le> now) (db_receipts d) in
            delete_receipts (\<lambda>r. receipt_key r \<in> set ks) d,
      \<lambda>d. let ks = first_keys 256 rt_index (forgettable_route (now - RETENTION_SECONDS) d) (db_routes d) in
            delete_routes (\<lambda>r. rt_index r \<in> set ks) d]"

definition cleanupAccessState :: "int \<Rightarrow> database \<Rightarrow> bool \<times> database" where
  "cleanupAccessState now d =
     (case run_batch (cleanup_statements now) d of None \<Rightarrow> (False, d) | Some (_, d') \<Rightarrow> (True, d'))"

end
