(* ===== verification/AccessMutation.thy ===== *)
theory AccessMutation
  imports AccessRoutes
begin

text \<open>
  What \<open>mutateAccessRoute\<close> does, proved from its statements. \<open>access_ok\<close> is the invariant of
  the access tables: unique keys, the receipt slots that live routes reserve
  (\<open>receipts + live <= 65536\<close>, per owner \<open>4096\<close>), the nonce slots they reserve, and grants that
  refer to stored routes. \<open>decided\<close> is the specification of an accepted batch as one function of
  the tables; \<open>mutate_cases\<close> says that the batch either is refused at its signature or does
  exactly what \<open>decided\<close> says, and that no constraint or trigger aborts it.
\<close>

subsection \<open>The invariant\<close>

definition tables_ok :: "database \<Rightarrow> bool" where
  "tables_ok d \<longleftrightarrow>
     distinct (map rt_index (db_routes d)) \<and> distinct (map route_key (db_routes d)) \<and>
     list_all route_row_ok (db_routes d) \<and>
     distinct (map receipt_key (db_receipts d)) \<and>
     length (db_receipts d) + live_routes d \<le> 65536 \<and>
     (\<forall>p s. owner_receipts p s d + owner_live p s d \<le> 4096) \<and>
     (\<forall>g \<in> set (db_grants d). gr_index g \<in> rt_index ` set (db_routes d)) \<and>
     distinct (map gr_current (db_grants d)) \<and> distinct (redemptions (db_grants d)) \<and>
     list_all grant_row_ok (db_grants d)"

definition nonces_ok :: "database \<Rightarrow> bool" where
  "nonces_ok d \<longleftrightarrow>
     distinct (map nonce_key (db_nonces d)) \<and>
     length (db_nonces d) + live_routes d \<le> db_nonce_max d \<and> PUBLISHER_NONCE_CAPACITY \<le> db_nonce_max d \<and>
     distinct (map (\<lambda>r. (rp_server r, rp_profile r)) (db_replay d))"

definition access_ok :: "database \<Rightarrow> bool" where
  "access_ok d \<longleftrightarrow> tables_ok d \<and> nonces_ok d"

text \<open>What \<open>parseAccessRoutePayload\<close>, the signature check and the random source guarantee.\<close>

definition payload_ok :: "access_payload \<Rightarrow> bool" where
  "payload_ok p \<longleftrightarrow>
     is_hex64 (ap_server p) \<and> is_hex32 (ap_request p) \<and> is_hex32 (ap_token p) \<and>
     uint64_sequence (ap_revision p) \<and> is_hex64 (ap_index p) \<and>
     (case ap_reservation p of None \<Rightarrow> True | Some h \<Rightarrow> is_hex32 h) \<and>
     (case ap_expires p of None \<Rightarrow> True | Some e \<Rightarrow> 1 \<le> e \<and> e \<le> 253402300799)"

definition mutation_ok :: "signed_mutation \<Rightarrow> mutation_secrets \<Rightarrow> int \<Rightarrow> bool" where
  "mutation_ok m k now \<longleftrightarrow>
     payload_ok (sm_payload m) \<and> is_hex32 (sm_nonce m) \<and> sm_nonce m \<noteq> replicate 32 (CHR ''0'') \<and>
     is_hex64 (ms_commit k) \<and> is_hex32 (ms_handle k) \<and> is_hex64 (ms_digest k) \<and> is_hex64 (ms_tuple k) \<and>
     0 \<le> now \<and> now + RETENTION_SECONDS \<le> max_safe_integer"

text \<open>The commit token is new: 256 random bits that no row holds yet.\<close>

definition fresh_commit :: "string \<Rightarrow> database \<Rightarrow> bool" where
  "fresh_commit c d \<longleftrightarrow> c \<notin> set (map rp_commit (db_replay d)) \<and> c \<notin> set (map rc_commit (db_receipts d))"

text \<open>Databases that agree on everything but the replay rows and the nonces.\<close>

definition same_access :: "database \<Rightarrow> database \<Rightarrow> bool" where
  "same_access a b \<longleftrightarrow>
     db_routes b = db_routes a \<and> db_receipts b = db_receipts a \<and> db_grants b = db_grants a \<and>
     db_budgets b = db_budgets a \<and> db_presence b = db_presence a \<and> db_denials b = db_denials a \<and>
     db_nonce_max b = db_nonce_max a"

lemma same_access_frame:
  assumes "same_access a b"
  shows "route_at p b = route_at p a" "token_conflict p b = token_conflict p a"
    "routes_full p b = routes_full p a" "has_receipt p b = has_receipt p a"
    "decide_route p now fr b = decide_route p now fr a" "live_routes b = live_routes a"
    "owner_live q s b = owner_live q s a" "owner_receipts q s b = owner_receipts q s a"
    "receipt_growth p out b = receipt_growth p out a" "receipt_room p out b = receipt_room p out a"
    "receipt_at p b = receipt_at p a" "receiptFence p c out b = receiptFence p c out a"
    "nonce_growth p b = nonce_growth p a" "receipt_for m k now fr b = receipt_for m k now fr a"
proof -
  have e: "db_routes b = db_routes a" "db_receipts b = db_receipts a" "db_presence b = db_presence a"
    using assms by (simp_all add: same_access_def)
  note defs = route_at_def token_conflict_def routes_full_def owner_routes_def has_receipt_def
    decide_route_def decide_reserve_def decide_activate_def decide_revoke_def recently_seen_def
    live_routes_def owner_live_def owner_receipts_def receipt_growth_def receipt_room_def
    receipt_at_def receiptFence_def nonce_growth_def receipt_for_def
  show "route_at p b = route_at p a" "token_conflict p b = token_conflict p a"
    "routes_full p b = routes_full p a" "has_receipt p b = has_receipt p a"
    "decide_route p now fr b = decide_route p now fr a" "live_routes b = live_routes a"
    "owner_live q s b = owner_live q s a" "owner_receipts q s b = owner_receipts q s a"
    "receipt_growth p out b = receipt_growth p out a" "receipt_room p out b = receipt_room p out a"
    "receipt_at p b = receipt_at p a" "receiptFence p c out b = receiptFence p c out a"
    "nonce_growth p b = nonce_growth p a" "receipt_for m k now fr b = receipt_for m k now fr a"
    unfolding defs e by (rule refl)+
qed

subsection \<open>The signed fence\<close>

lemma cleanup_nonces_run:
  "\<exists>n d0. cleanupPublisherNonces now d = Some (n, d0) \<and> same_access d d0 \<and> db_replay d0 = db_replay d \<and>
     length (db_nonces d0) \<le> length (db_nonces d) \<and> set (db_nonces d0) \<subseteq> set (db_nonces d) \<and>
     (distinct (map nonce_key (db_nonces d)) \<longrightarrow> distinct (map nonce_key (db_nonces d0)))"
  by (auto simp: cleanupPublisherNonces_def Let_def same_access_def length_filter_le distinct_map_filter)

lemma fence_false:
  "c \<notin> set (map rp_commit (db_replay d)) \<Longrightarrow> \<not> replayFence m c d"
  by (auto simp: replayFence_def list_ex_iff)

text \<open>The batch up to the nonce: refused without a trace, or recorded with one new nonce.\<close>

lemma signed_prefix_refused:
  assumes "count (advance_ok m d) (db_replay d) = 0" "c \<notin> set (map rp_commit (db_replay d))"
  shows "advanceReplay m c now d = Some (0, d) \<and> insertSignedNonce m c now d = Some (0, d)"
  using assms(1) fence_false[OF assms(2)]
  by (simp add: advanceReplay_def update_where_none insertSignedNonce_def guarded_def)

lemma signed_prefix_accepted:
  assumes ok: "nonces_ok d" and m: "is_hex32 (sm_nonce m)" "sm_nonce m \<noteq> replicate 32 (CHR ''0'')"
    and adv: "count (advance_ok m d) (db_replay d) \<noteq> 0"
  shows "\<exists>d1 d2. advanceReplay m c now d = Some (1, d1) \<and> insertSignedNonce m c now d1 = Some (1, d2) \<and>
    same_access d d2 \<and> replayFence m c d2 \<and>
    length (db_nonces d2) = length (db_nonces d) + 1 \<and> distinct (map nonce_key (db_nonces d2)) \<and>
    map (\<lambda>r. (rp_server r, rp_profile r)) (db_replay d2) = map (\<lambda>r. (rp_server r, rp_profile r)) (db_replay d)"
proof -
  let ?p = "sm_payload m"
  let ?f = "\<lambda>r. r\<lparr>rp_sequence := sm_sequence m, rp_nonce := sm_nonce m, rp_commit := c, rp_updated := now\<rparr>"
  let ?key = "\<lambda>r. (rp_server r, rp_profile r)"
  from adv obtain r where r: "r \<in> set (db_replay d)" "advance_ok m d r" by (auto simp: count_zero_iff)
  have "count (advance_ok m d) (db_replay d) = 1"
    by (rule count_unique[OF _ r(1), where k = ?key])
      (use ok r(2) in \<open>auto simp: nonces_ok_def advance_ok_def replay_of_def\<close>,
       use ok r in \<open>auto simp: nonces_ok_def distinct_map inj_on_def\<close>)
  then obtain d1 where d1: "advanceReplay m c now d = Some (1, d1)"
      "d1 = d\<lparr>db_replay := update_where (advance_ok m d) ?f (db_replay d)\<rparr>"
    by (simp add: advanceReplay_def)
  have fence: "replayFence m c d1"
    unfolding replayFence_def list_ex_iff
    by (rule bexI[of _ "?f r"])
      (use r in \<open>auto simp: d1(2) set_update_where advance_ok_def replay_of_def intro!: image_eqI[of _ _ r]\<close>)
  have keys: "map ?key (db_replay d1) = map ?key (db_replay d)"
    by (simp add: d1(2) map_update_where)
  define n where "n = \<lparr>nn_server = ap_server ?p, nn_profile = directory_profile_of (ap_profile ?p),
      nn_nonce = sm_nonce m, nn_expires = sm_nonce_expires m, nn_created = now\<rparr>"
  have new: "nonce_key n \<notin> nonce_key ` set (db_nonces d)"
    using r(2) by (auto simp: advance_ok_def nonce_seen_def list_ex_iff nonce_key_def n_def)
  have room: "length (db_nonces d) < db_nonce_max d"
  proof (cases "nonce_growth ?p d = 0")
    case True
    then obtain x where "x \<in> set (db_routes d)" "route_live x"
      by (auto simp: nonce_growth_def list_ex_iff split: if_splits)
    then have "0 < live_routes d" by (auto simp: live_routes_def intro: count_pos)
    with ok show ?thesis by (simp add: nonces_ok_def)
  next
    case False
    with r(2) ok show ?thesis by (simp add: advance_ok_def publisherNonceCapacity_def nonces_ok_def)
  qed
  have "nonce_row_ok n" using m by (simp add: nonce_row_ok_def n_def)
  moreover have "list_ex (\<lambda>r. rp_server r = nn_server n \<and> rp_profile r = nn_profile n) (db_replay d1)"
    using fence by (auto simp: replayFence_def replay_of_def list_ex_iff n_def)
  ultimately have "insertSignedNonce m c now d1 = Some (1, d1\<lparr>db_nonces := db_nonces d1 @ [n]\<rparr>)"
    using fence new room by (simp add: insertSignedNonce_def guarded_def insert_nonce_def n_def[symmetric] d1(2))
  moreover have "replayFence m c (d1\<lparr>db_nonces := db_nonces d1 @ [n]\<rparr>)" using fence by (simp add: replayFence_def)
  ultimately show ?thesis
    using d1 keys new ok by (auto simp: same_access_def nonces_ok_def)
qed


subsection \<open>The receipt\<close>

lemma route_at_Some: "route_at p d = Some r \<Longrightarrow> r \<in> set (db_routes d) \<and> rt_index r = ap_index p"
  by (auto simp: route_at_def find_Some_iff)

lemma route_at_None: "route_at p d = None \<longleftrightarrow> ap_index p \<notin> rt_index ` set (db_routes d)"
  by (auto simp: route_at_def find_None_iff image_iff)

lemma route_at_update:
  assumes "distinct (map rt_index rs)" "r \<in> set rs" "rt_index r = i"
  shows "count P (update_where (\<lambda>x. rt_index x = i) f rs) + (if P r then 1 else 0) = count P rs + (if P (f r) then 1 else 0)"
  using assms
proof (induction rs)
  case (Cons a rs)
  show ?case
  proof (cases "a = r")
    case True
    with Cons.prems have "update_where (\<lambda>x. rt_index x = i) f rs = rs"
      by (intro update_where_none) (auto simp: count_zero_iff image_iff)
    with True Cons.prems show ?thesis by simp
  next
    case False
    with Cons.prems have "rt_index a \<noteq> i" by (metis image_eqI list.set_map distinct.simps(2) list.simps(9) set_ConsD)
    with Cons False show ?thesis by simp
  qed
qed simp

text \<open>Every route that a decision other than a conflict is about is the owner's own.\<close>

definition own_route :: "access_payload \<Rightarrow> database \<Rightarrow> bool" where
  "own_route p d \<longleftrightarrow>
     \<not> token_conflict p d \<and> (case route_at p d of None \<Rightarrow> True | Some r \<Rightarrow> names_route p r)"

lemma decide_own: "decide_route p now fr d \<noteq> OutConflict \<Longrightarrow> own_route p d"
  by (auto simp: decide_route_def own_route_def names_route_def Let_def route_at_Some split: option.splits if_splits)

lemma receipt_growth_zero:
  assumes "receipt_growth p (decide_route p now fr d) d = 0"
  obtains r where "route_at p d = Some r" "route_live r" "names_route p r" "decide_route p now fr d = OutRevoked"
  using assms decide_own[of p now fr d]
  by (auto simp: receipt_growth_def own_route_def split: if_splits option.splits)

lemma record_receipt_run:
  assumes "tables_ok d" "mutation_ok m k now" "ap_operation (sm_payload m) \<noteq> ResultOf"
    and "replayFence m (ms_commit k) d" "\<not> has_receipt (sm_payload m) d"
    and "receipt_room (sm_payload m) (decide_route (sm_payload m) now fr d) d"
  shows "recordReceipt m k now fr d = Some (1, d\<lparr>db_receipts := db_receipts d @ [receipt_for m k now fr d]\<rparr>)"
proof -
  let ?p = "sm_payload m" and ?out = "decide_route (sm_payload m) now fr d"
  let ?r = "receipt_for m k now fr d"
  have ident: "rc_profile ?r = ap_profile ?p" "rc_server ?r = ap_server ?p" "rc_request ?r = ap_request ?p"
    by (simp_all add: receipt_for_def Let_def)
  have key: "receipt_key ?r \<notin> receipt_key ` set (db_receipts d)"
    using assms(5) by (auto simp: has_receipt_def list_ex_iff receipt_key_def ident)
  have total: "length (db_receipts d) < 65536 \<and> owner_receipts (ap_profile ?p) (ap_server ?p) d < 4096"
  proof (cases "receipt_growth ?p ?out d = 0")
    case True
    then obtain r where r: "route_at ?p d = Some r" "route_live r" "names_route ?p r" by (rule receipt_growth_zero)
    then have mem: "r \<in> set (db_routes d)" using route_at_Some by blast
    have "0 < live_routes d" "0 < owner_live (ap_profile ?p) (ap_server ?p) d"
      using mem r by (auto simp: live_routes_def owner_live_def names_route_def intro!: count_pos)
    with assms(1,6) show ?thesis by (simp add: receipt_room_def)
  next
    case False
    with assms(6) show ?thesis by (simp add: receipt_room_def)
  qed
  have old: "route_row_ok r" if "route_at ?p d = Some r" for r
    using assms(1) route_at_Some[OF that] by (auto simp: tables_ok_def list_all_iff)
  have "receipt_row_ok ?r"
    using assms(2,3) old
    by (auto simp: receipt_row_ok_def receipt_for_def Let_def mutation_ok_def payload_ok_def RETENTION_SECONDS_def
        receipt_revision_def route_row_ok_def split: option.split)
  with assms(4,5,6) key total show ?thesis
    by (simp add: recordReceipt_def guarded_def insert_receipt_def ident owner_receipts_def Let_def)
qed

lemma record_receipt_skip:
  assumes "has_receipt (sm_payload m) d \<or> \<not> receipt_room (sm_payload m) (decide_route (sm_payload m) now fr d) d"
  shows "recordReceipt m k now fr d = Some (0, d)"
  using assms by (auto simp: recordReceipt_def guarded_def)

lemma receiptFence_new:
  assumes "c \<notin> set (map rc_commit rs)" "rc_profile r = ap_profile p" "rc_server r = ap_server p"
    "rc_request r = ap_request p" "rc_commit r = c" "db_receipts d = rs @ [r]"
  shows "receiptFence p c out d \<longleftrightarrow> rc_outcome r = out"
  using assms by (auto simp: receiptFence_def list_ex_iff image_iff)

lemma receiptFence_old: "c \<notin> set (map rc_commit (db_receipts d)) \<Longrightarrow> \<not> receiptFence p c out d"
  by (auto simp: receiptFence_def list_ex_iff)

subsection \<open>The effects of a decision\<close>

text \<open>What an outcome does to the routes and the grants: the specification of the last statements.\<close>

definition route_effect :: "access_payload \<Rightarrow> string \<Rightarrow> int \<Rightarrow> route_outcome \<Rightarrow> route_row list \<Rightarrow> route_row list" where
  "route_effect p handle now out rs =
     (case out of
        OutReserved \<Rightarrow> rs @ [new_route p (Some handle) now RouteReserved None]
      | OutActive \<Rightarrow> update_where (\<lambda>r. rt_index r = ap_index p) (\<lambda>r. r\<lparr>rt_state := RouteActive\<rparr>) rs
      | OutRevoked \<Rightarrow>
          if ap_operation p \<noteq> Revoke then rs
          else if ap_index p \<in> rt_index ` set rs
          then update_where (\<lambda>r. rt_index r = ap_index p) (revoke_row p now) rs
          else rs @ [new_route p (ap_reservation p) now RouteRevoked (Some now)]
      | OutExpired \<Rightarrow> update_where (\<lambda>r. rt_index r = ap_index p \<and> route_live r) (expire_row now) rs
      | _ \<Rightarrow> rs)"

definition grant_effect :: "access_payload \<Rightarrow> route_outcome \<Rightarrow> grant_row list \<Rightarrow> grant_row list" where
  "grant_effect p out gs =
     (if out = OutRevoked \<and> ap_operation p = Revoke then filter (\<lambda>g. gr_index g \<noteq> ap_index p) gs else gs)"

lemma decide_facts:
  assumes "decide_route p now fr d = out"
  shows "out = OutReserved \<Longrightarrow> ap_operation p = Reserve \<and> route_at p d = None \<and> \<not> token_conflict p d \<and>
      \<not> routes_full p d \<and> owner_live (ap_profile p) (ap_server p) d < 1024"
    and "out = OutActive \<Longrightarrow> \<exists>r. route_at p d = Some r \<and> rt_state r = RouteReserved \<and> ap_operation p = Activate"
    and "out = OutRevoked \<Longrightarrow> ap_operation p = Revoke \<Longrightarrow> route_at p d = None \<Longrightarrow>
      \<not> token_conflict p d \<and> \<not> routes_full p d"
    and "out = OutRevoked \<Longrightarrow> ap_operation p \<noteq> Revoke \<Longrightarrow> \<exists>r. route_at p d = Some r \<and> rt_state r = RouteRevoked"
  using assms
  by (auto simp: decide_route_def decide_reserve_def decide_activate_def decide_revoke_def Let_def
      split: if_splits route_operation.splits option.splits)

lemma new_key:
  assumes "route_at p d = None" "\<not> token_conflict p d"
  shows "rt_index (new_route p h now st rv) \<notin> rt_index ` set (db_routes d)"
    "route_key (new_route p h now st rv) \<notin> route_key ` set (db_routes d)"
proof -
  show one: "rt_index (new_route p h now st rv) \<notin> rt_index ` set (db_routes d)"
    using assms(1) by (simp add: route_at_None new_route_def)
  show "route_key (new_route p h now st rv) \<notin> route_key ` set (db_routes d)"
    using assms(2) one by (auto simp: token_conflict_def list_ex_iff route_key_def new_route_def image_iff)
qed

lemma new_route_ok:
  assumes "payload_ok p" "0 \<le> now" "now + RETENTION_SECONDS \<le> max_safe_integer"
    "case h of None \<Rightarrow> True | Some x \<Rightarrow> is_hex32 x"
    "st = RouteReserved \<and> rv = None \<or> st = RouteRevoked \<and> rv = Some now"
  shows "route_row_ok (new_route p h now st rv)"
  using assms
  by (auto simp: route_row_ok_def new_route_def payload_ok_def RETENTION_SECONDS_def route_live_def split: option.splits)

lemma update_rows_ok:
  assumes "route_row_ok r" "payload_ok p" "0 \<le> now" "now + RETENTION_SECONDS \<le> max_safe_integer"
  shows "rt_state r = RouteReserved \<Longrightarrow> route_update_ok r (r\<lparr>rt_state := RouteActive\<rparr>)"
    "route_update_ok r (revoke_row p now r)"
    "route_live r \<Longrightarrow> route_update_ok r (expire_row now r)"
  using assms
  by (auto simp: route_update_ok_def route_row_ok_def revoke_row_def expire_row_def route_key_def route_live_def
      payload_ok_def RETENTION_SECONDS_def split: option.splits)

lemma insert_route_run:
  assumes "rt_index r \<notin> rt_index ` set (db_routes d)" "route_key r \<notin> route_key ` set (db_routes d)" "route_row_ok r"
    "\<not> routes_full p d" "rt_profile r = ap_profile p" "rt_server r = ap_server p"
    "route_live r \<longrightarrow> owner_live (ap_profile p) (ap_server p) d < 1024"
  shows "insert_route r d = Some (1, d\<lparr>db_routes := db_routes d @ [r]\<rparr>)"
  using assms by (auto simp: insert_route_def Let_def routes_full_def owner_routes_def owner_live_def)

lemma update_routes_run:
  "(\<And>r. r \<in> set (db_routes d) \<Longrightarrow> P r \<Longrightarrow> route_update_ok r (f r)) \<Longrightarrow>
   update_routes P f d = Some (count P (db_routes d), d\<lparr>db_routes := update_where P f (db_routes d)\<rparr>)"
  by (auto simp: update_routes_def list_ex_iff)

lemma route_at_receipts [simp]: "route_at p (d\<lparr>db_receipts := rs\<rparr>) = route_at p d"
  by (simp add: route_at_def)

lemma receiptFence_frames [simp]:
  "receiptFence p c out (d\<lparr>db_routes := rs\<rparr>) = receiptFence p c out d"
  "receiptFence p c out (d\<lparr>db_grants := gs\<rparr>) = receiptFence p c out d"
  by (simp_all add: receiptFence_def)

lemma routes_frames [simp]:
  "routes_full p (d\<lparr>db_receipts := rs\<rparr>) = routes_full p d"
  "owner_live q s (d\<lparr>db_receipts := rs\<rparr>) = owner_live q s d"
  by (simp_all add: routes_full_def owner_routes_def owner_live_def)

abbreviation effect_statements :: "access_payload \<Rightarrow> mutation_secrets \<Rightarrow> int \<Rightarrow> database statement list" where
  "effect_statements p k now \<equiv>
     [reserveRoute p k now, activateRoute p k] @
     (if ap_operation p = Revoke then [revokeRoute p k now, dropGrants p k] else []) @ [expireRoute p k now]"

lemma effects_run:
  assumes ok: "tables_ok d" and m: "mutation_ok m k now" and p: "p = sm_payload m" and c: "c = ms_commit k"
    and out: "decide_route p now fr d = out"
    and fence: "\<And>o'. receiptFence p c o' d3 \<longleftrightarrow> o' = out" and d3: "d3 = d\<lparr>db_receipts := rcs\<rparr>"
  shows "\<exists>ns. run_batch (effect_statements p k now) d3 =
     Some (ns, d3\<lparr>db_routes := route_effect p (ms_handle k) now out (db_routes d),
                  db_grants := grant_effect p out (db_grants d)\<rparr>)"
proof -
  have pay: "payload_ok p" "0 \<le> now" "now + RETENTION_SECONDS \<le> max_safe_integer" "is_hex32 (ms_handle k)"
    using m by (simp_all add: mutation_ok_def p)
  have rows: "route_row_ok r" if "r \<in> set (db_routes d)" for r
    using ok that by (simp add: tables_ok_def list_all_iff)
  have at: "\<And>r. r \<in> set (db_routes d) \<Longrightarrow> rt_index r = ap_index p \<Longrightarrow> route_at p d = Some r"
  proof -
    fix r assume r: "r \<in> set (db_routes d)" "rt_index r = ap_index p"
    then obtain r' where r': "route_at p d = Some r'" using route_at_None[of p d] by (cases "route_at p d") (auto simp: image_iff)
    with route_at_Some[OF r'] r ok show "route_at p d = Some r"
      by (auto simp: tables_ok_def distinct_map inj_on_def)
  qed
  have at3: "route_at p d3 = route_at p d" by (simp add: d3)
  note fences = fence[unfolded c]
  have upd: "route_row_ok r \<and> payload_ok p \<and> 0 \<le> now \<and> now + RETENTION_SECONDS \<le> max_safe_integer"
    if "r \<in> set (db_routes d)" for r using rows[OF that] pay by simp
  show ?thesis
  proof (cases out)
    case OutReserved
    then have facts: "ap_operation p = Reserve" "route_at p d = None" "\<not> token_conflict p d" "\<not> routes_full p d"
        "owner_live (ap_profile p) (ap_server p) d < 1024"
      using decide_facts(1)[OF out] by auto
    have "insert_route (new_route p (Some (ms_handle k)) now RouteReserved None) d3 =
        Some (1, d3\<lparr>db_routes := db_routes d @ [new_route p (Some (ms_handle k)) now RouteReserved None]\<rparr>)"
      unfolding d3
      by (subst insert_route_run[where p = p])
        (use new_key[OF facts(2,3)] new_route_ok[OF pay(1-3)] pay(4) facts in \<open>auto simp: new_route_def\<close>)
    then show ?thesis
      using fences facts(1)
      by (simp add: OutReserved reserveRoute_def activateRoute_def expireRoute_def guarded_def route_effect_def
          grant_effect_def d3)
  next
    case OutActive
    then obtain r where r: "route_at p d = Some r" "rt_state r = RouteReserved" "ap_operation p = Activate"
      using decide_facts(2)[OF out] by auto
    have "update_routes (\<lambda>r. rt_index r = ap_index p) (\<lambda>r. r\<lparr>rt_state := RouteActive\<rparr>) d3 = Some (
        count (\<lambda>r. rt_index r = ap_index p) (db_routes d3),
        d3\<lparr>db_routes := update_where (\<lambda>r. rt_index r = ap_index p) (\<lambda>r. r\<lparr>rt_state := RouteActive\<rparr>) (db_routes d3)\<rparr>)"
    proof (rule update_routes_run)
      fix x assume x: "x \<in> set (db_routes d3)" "rt_index x = ap_index p"
      with at r have "x = r" by (auto simp: d3)
      with upd[of x] x r update_rows_ok(1)[of x p now] show "route_update_ok x (x\<lparr>rt_state := RouteActive\<rparr>)"
        by (simp add: d3)
    qed
    then show ?thesis
      using fences r(3)
      by (simp add: OutActive reserveRoute_def activateRoute_def expireRoute_def guarded_def route_effect_def
          grant_effect_def d3)
  next
    case OutExpired
    have "update_routes (\<lambda>r. rt_index r = ap_index p \<and> route_live r) (expire_row now) d3 = Some (
        count (\<lambda>r. rt_index r = ap_index p \<and> route_live r) (db_routes d3),
        d3\<lparr>db_routes := update_where (\<lambda>r. rt_index r = ap_index p \<and> route_live r) (expire_row now) (db_routes d3)\<rparr>)"
      by (rule update_routes_run) (use upd update_rows_ok(3) in \<open>auto simp: d3\<close>)
    then show ?thesis
      using fences
      by (simp add: OutExpired reserveRoute_def activateRoute_def expireRoute_def revokeRoute_def dropGrants_def
          guarded_def route_effect_def grant_effect_def d3)
  next
    case OutRevoked
    show ?thesis
    proof (cases "ap_operation p = Revoke")
      case True
      let ?row = "new_route p (ap_reservation p) now RouteRevoked (Some now)"
      have row: "route_row_ok ?row"
        using new_route_ok[OF pay(1-3)] pay(1) by (simp add: payload_ok_def)
      have "\<exists>n. (if route_at p d = None then insert_route ?row d3
            else update_routes (\<lambda>r. rt_index r = ap_index p) (revoke_row p now) d3) =
          Some (n, d3\<lparr>db_routes := route_effect p (ms_handle k) now out (db_routes d)\<rparr>)"
      proof (cases "route_at p d = None")
        case None: True
        with decide_facts(3)[OF out OutRevoked True] have facts: "\<not> token_conflict p d" "\<not> routes_full p d" by auto
        have "insert_route ?row d3 = Some (1, d3\<lparr>db_routes := db_routes d @ [?row]\<rparr>)"
          unfolding d3
          by (subst insert_route_run[where p = p])
            (use new_key[OF None facts(1)] row facts in \<open>auto simp: new_route_def route_live_def\<close>)
        with None True show ?thesis by (simp add: route_effect_def OutRevoked route_at_None)
      next
        case False
        have "update_routes (\<lambda>r. rt_index r = ap_index p) (revoke_row p now) d3 = Some (
            count (\<lambda>r. rt_index r = ap_index p) (db_routes d3),
            d3\<lparr>db_routes := update_where (\<lambda>r. rt_index r = ap_index p) (revoke_row p now) (db_routes d3)\<rparr>)"
          by (rule update_routes_run) (use upd update_rows_ok(2) in \<open>auto simp: d3\<close>)
        with False True show ?thesis by (simp add: route_effect_def OutRevoked route_at_None d3)
      qed
      then obtain n where "(if route_at p d = None then insert_route ?row d3
            else update_routes (\<lambda>r. rt_index r = ap_index p) (revoke_row p now) d3) =
          Some (n, d3\<lparr>db_routes := route_effect p (ms_handle k) now out (db_routes d)\<rparr>)" by blast
      then have "revokeRoute p k now d3 = Some (n, d3\<lparr>db_routes := route_effect p (ms_handle k) now out (db_routes d)\<rparr>)"
        using fences row at3 by (simp add: revokeRoute_def guarded_def OutRevoked Let_def)
      then show ?thesis
        using fences True
        by (simp add: OutRevoked reserveRoute_def activateRoute_def expireRoute_def dropGrants_def guarded_def
            grant_effect_def delete_grants_def d3)
    next
      case False
      then show ?thesis
        using fences
        by (simp add: OutRevoked reserveRoute_def activateRoute_def expireRoute_def guarded_def route_effect_def
            grant_effect_def d3)
    qed
  qed (use fences in \<open>simp_all add: reserveRoute_def activateRoute_def expireRoute_def revokeRoute_def dropGrants_def
          guarded_def route_effect_def grant_effect_def d3\<close>)
qed


text \<open>How the effects count.\<close>

lemma route_effect_keys:
  assumes ok: "tables_ok d" and m: "mutation_ok m k now" and p: "p = sm_payload m"
    and out: "decide_route p now fr d = out"
  defines "rs \<equiv> route_effect p (ms_handle k) now out (db_routes d)"
  shows "distinct (map rt_index rs) \<and> distinct (map route_key rs) \<and> list_all route_row_ok rs \<and>
    rt_index ` set (db_routes d) \<subseteq> rt_index ` set rs"
proof -
  have pay: "payload_ok p" "0 \<le> now" "now + RETENTION_SECONDS \<le> max_safe_integer" "is_hex32 (ms_handle k)"
    using m by (simp_all add: mutation_ok_def p)
  have base: "distinct (map rt_index (db_routes d))" "distinct (map route_key (db_routes d))"
      "list_all route_row_ok (db_routes d)" using ok by (simp_all add: tables_ok_def)
  have upd: "distinct (map rt_index (update_where P f (db_routes d))) \<and>
      distinct (map route_key (update_where P f (db_routes d))) \<and>
      list_all route_row_ok (update_where P f (db_routes d)) \<and>
      rt_index ` set (db_routes d) \<subseteq> rt_index ` set (update_where P f (db_routes d))"
    if "\<And>r. r \<in> set (db_routes d) \<Longrightarrow> P r \<Longrightarrow> route_update_ok r (f r)" for P f
  proof -
    have keys: "map rt_index (update_where P f (db_routes d)) = map rt_index (db_routes d)"
      "map route_key (update_where P f (db_routes d)) = map route_key (db_routes d)"
      using that by (auto intro!: map_update_where simp: route_update_ok_def)
    moreover have "rt_index ` set (update_where P f (db_routes d)) = rt_index ` set (db_routes d)"
      using arg_cong[OF keys(1), of set] by simp
    moreover have "list_all route_row_ok (update_where P f (db_routes d))"
      using base(3) that by (auto simp: list_all_iff set_update_where route_update_ok_def)
    ultimately show ?thesis using base by simp
  qed
  have app: "distinct (map rt_index (db_routes d @ [r])) \<and> distinct (map route_key (db_routes d @ [r])) \<and>
      list_all route_row_ok (db_routes d @ [r]) \<and> rt_index ` set (db_routes d) \<subseteq> rt_index ` set (db_routes d @ [r])"
    if "rt_index r \<notin> rt_index ` set (db_routes d)" "route_key r \<notin> route_key ` set (db_routes d)" "route_row_ok r" for r
    using base that by auto
  have at: "\<And>r. r \<in> set (db_routes d) \<Longrightarrow> rt_index r = ap_index p \<Longrightarrow> route_at p d = Some r"
  proof -
    fix r assume r: "r \<in> set (db_routes d)" "rt_index r = ap_index p"
    then obtain r' where r': "route_at p d = Some r'" using route_at_None[of p d] by (cases "route_at p d") (auto simp: image_iff)
    with route_at_Some[OF r'] r ok show "route_at p d = Some r"
      by (auto simp: tables_ok_def distinct_map inj_on_def)
  qed
  have row: "route_row_ok r" if "r \<in> set (db_routes d)" for r using base that by (simp add: list_all_iff)
  show ?thesis
  proof (cases out)
    case OutReserved
    from decide_facts(1)[OF out OutReserved] show ?thesis
      unfolding rs_def route_effect_def OutReserved route_outcome.case
      by (intro app new_key new_route_ok[OF pay(1-3)]) (auto simp: pay(4))
  next
    case OutActive
    then show ?thesis
      unfolding rs_def route_effect_def OutActive route_outcome.case
    proof (intro upd)
      fix x assume x: "x \<in> set (db_routes d)" "rt_index x = ap_index p"
      with at decide_facts(2)[OF out OutActive] have "rt_state x = RouteReserved" by fastforce
      with row[OF x(1)] show "route_update_ok x (x\<lparr>rt_state := RouteActive\<rparr>)"
        by (intro update_rows_ok(1)[OF _ pay(1-3)])
    qed
  next
    case OutExpired
    then show ?thesis
      unfolding rs_def route_effect_def OutExpired route_outcome.case
      by (intro upd) (simp add: row update_rows_ok(3)[OF _ pay(1-3)])
  next
    case OutRevoked
    consider "ap_operation p \<noteq> Revoke" | "ap_operation p = Revoke" "route_at p d \<noteq> None"
      | "ap_operation p = Revoke" "route_at p d = None" by blast
    then show ?thesis
    proof cases
      case 1
      then show ?thesis using base by (simp add: rs_def route_effect_def OutRevoked)
    next
      case 2
      then have "rs = update_where (\<lambda>r. rt_index r = ap_index p) (revoke_row p now) (db_routes d)"
        by (simp add: rs_def route_effect_def OutRevoked route_at_None)
      then show ?thesis using upd row update_rows_ok(2)[OF _ pay(1-3)] by simp
    next
      case 3
      then have "rs = db_routes d @ [new_route p (ap_reservation p) now RouteRevoked (Some now)]"
        by (simp add: rs_def route_effect_def OutRevoked route_at_None)
      moreover have "route_row_ok (new_route p (ap_reservation p) now RouteRevoked (Some now))"
        using new_route_ok[OF pay(1-3)] pay(1) by (simp add: payload_ok_def)
      ultimately show ?thesis
        using app new_key[OF 3(2)] decide_facts(3)[OF out OutRevoked 3] by blast
    qed
  qed (use base in \<open>auto simp: rs_def route_effect_def\<close>)
qed

lemma count_effect_step:
  "tables_ok d \<Longrightarrow> route_at p d = Some r \<Longrightarrow>
   count P (update_where (\<lambda>x. rt_index x = ap_index p) f (db_routes d)) + (if P r then 1 else 0) =
   count P (db_routes d) + (if P (f r) then 1 else 0)"
  using route_at_Some[of p d r] by (intro route_at_update) (auto simp: tables_ok_def)

text \<open>
  The live routes that satisfy \<open>Q\<close>, where \<open>Q\<close> looks at the owner only: a reservation adds the
  payload's, a revocation of a live one removes it, nothing else adds any.
\<close>

lemma live_effect:
  assumes ok: "tables_ok d" and out: "decide_route p now fr d = out"
    and q: "\<And>a b. route_key a = route_key b \<Longrightarrow> Q a \<longleftrightarrow> Q b"
    and mine: "\<And>r. owned_by (ap_profile p) (ap_server p) r \<Longrightarrow> Q r \<longleftrightarrow> b"
  shows "count (\<lambda>r. Q r \<and> route_live r) (route_effect p h now out (db_routes d)) +
      (if b \<and> receipt_growth p out d = 0 then 1 else 0) \<le>
    count (\<lambda>r. Q r \<and> route_live r) (db_routes d) + (if b \<and> out = OutReserved then 1 else 0) \<and>
    (receipt_growth p out d = 0 \<longrightarrow> out = OutRevoked \<and> ap_operation p = Revoke)"
proof (cases out)
  case OutReserved
  have "Q (new_route p (Some h) now RouteReserved None) \<longleftrightarrow> b" by (rule mine) (simp add: new_route_def)
  then show ?thesis by (simp add: OutReserved route_effect_def receipt_growth_def route_live_def new_route_def)
next
  case OutActive
  then obtain r where r: "route_at p d = Some r" "rt_state r = RouteReserved" using decide_facts(2)[OF out] by auto
  have "Q (r\<lparr>rt_state := RouteActive\<rparr>) \<longleftrightarrow> Q r" by (rule q) (simp add: route_key_def)
  with count_effect_step[OF ok r(1), of "\<lambda>r. Q r \<and> route_live r" "\<lambda>r. r\<lparr>rt_state := RouteActive\<rparr>"] r(2)
  show ?thesis by (simp add: OutActive route_effect_def receipt_growth_def route_live_def)
next
  case OutExpired
  have "count (\<lambda>r. Q r \<and> route_live r) (update_where (\<lambda>r. rt_index r = ap_index p \<and> route_live r) (expire_row now) (db_routes d)) \<le>
      count (\<lambda>r. Q r \<and> route_live r) (db_routes d)"
    by (rule count_update_where_le) (simp add: expire_row_def route_live_def)
  then show ?thesis by (simp add: OutExpired route_effect_def receipt_growth_def)
next
  case OutRevoked
  show ?thesis
  proof (cases "ap_operation p = Revoke")
    case False
    with decide_facts(4)[OF out OutRevoked] show ?thesis
      by (auto simp: OutRevoked route_effect_def receipt_growth_def route_live_def)
  next
    case rev: True
    show ?thesis
    proof (cases "route_at p d")
      case None
      then have "ap_index p \<notin> rt_index ` set (db_routes d)" by (simp add: route_at_None)
      with rev None show ?thesis
        by (simp add: OutRevoked route_effect_def receipt_growth_def route_live_def new_route_def)
    next
      case (Some r)
      then have idx: "ap_index p \<in> rt_index ` set (db_routes d)" using route_at_Some[OF Some] by (metis image_eqI)
      have "own_route p d" by (rule decide_own[of _ now fr]) (simp add: out OutRevoked)
      then have "Q r \<longleftrightarrow> b" using Some by (intro mine) (simp add: own_route_def names_route_def)
      moreover have "\<not> route_live (revoke_row p now r)" by (simp add: revoke_row_def route_live_def)
      ultimately show ?thesis
        using count_effect_step[OF ok Some, of "\<lambda>r. Q r \<and> route_live r" "revoke_row p now"] rev idx Some
        by (auto simp: OutRevoked route_effect_def receipt_growth_def)
    qed
  qed
qed (simp_all add: route_effect_def receipt_growth_def)

subsection \<open>The batch as a function of the tables\<close>

text \<open>
  The specification of an accepted batch: nothing when the request already has a receipt or
  there is no room for one, otherwise the receipt and the effect of its outcome.
\<close>

definition decided :: "signed_mutation \<Rightarrow> mutation_secrets \<Rightarrow> int \<Rightarrow> int \<Rightarrow> database \<Rightarrow> database" where
  "decided m k now fr d =
     (let p = sm_payload m; out = decide_route p now fr d in
      if ap_operation p = ResultOf \<or> has_receipt p d \<or> \<not> receipt_room p out d then d
      else d\<lparr>db_receipts := db_receipts d @ [receipt_for m k now fr d],
             db_routes := route_effect p (ms_handle k) now out (db_routes d),
             db_grants := grant_effect p out (db_grants d)\<rparr>)"

definition route_answer :: "signed_mutation \<Rightarrow> mutation_secrets \<Rightarrow> database \<Rightarrow> access_result" where
  "route_answer m k d =
     (let p = sm_payload m in
      case receipt_at p d of
        None \<Rightarrow> access_result_of p (if ap_operation p = ResultOf then OutNotFound else OutUnavailable)
      | Some r \<Rightarrow>
          if (if ap_operation p = ResultOf then rc_tuple r \<noteq> ms_tuple k else rc_digest r \<noteq> ms_digest k)
          then access_result_of p OutConflict
          else \<lparr>ares_request = ap_request p, ares_outcome = rc_outcome r, ares_reservation = rc_reservation r,
                ares_until = rc_until r, ares_revision = rc_revision r\<rparr>)"

lemma run_batch_append:
  "run_batch (xs @ ys) d =
     (case run_batch xs d of
        None \<Rightarrow> None
      | Some (ns, d1) \<Rightarrow> (case run_batch ys d1 of None \<Rightarrow> None | Some (ms, d2) \<Rightarrow> Some (ns @ ms, d2)))"
  by (induction xs arbitrary: d) (auto split: option.splits)

lemma effects_skip:
  assumes "\<And>o'. \<not> receiptFence p (ms_commit k) o' d"
  shows "\<exists>ns. run_batch (effect_statements p k now) d = Some (ns, d)"
  using assms
  by (simp add: reserveRoute_def activateRoute_def revokeRoute_def dropGrants_def expireRoute_def guarded_def)

lemma decided_run:
  assumes "tables_ok d" "mutation_ok m k now" "replayFence m (ms_commit k) d"
    "ms_commit k \<notin> set (map rc_commit (db_receipts d))"
  shows "\<exists>ns. run_batch (if ap_operation (sm_payload m) = ResultOf then []
      else recordReceipt m k now fr # effect_statements (sm_payload m) k now) d = Some (ns, decided m k now fr d)"
proof -
  let ?p = "sm_payload m" and ?out = "decide_route (sm_payload m) now fr d"
  consider "ap_operation ?p = ResultOf" | "ap_operation ?p \<noteq> ResultOf" "has_receipt ?p d \<or> \<not> receipt_room ?p ?out d"
    | "ap_operation ?p \<noteq> ResultOf" "\<not> has_receipt ?p d" "receipt_room ?p ?out d" by blast
  then show ?thesis
  proof cases
    case 1
    then show ?thesis by (simp add: decided_def)
  next
    case 2
    from effects_skip[of ?p k d now] receiptFence_old[OF assms(4)] obtain ns
      where "run_batch (effect_statements ?p k now) d = Some (ns, d)" by blast
    with 2 record_receipt_skip[OF 2(2)] show ?thesis by (auto simp: decided_def Let_def)
  next
    case 3
    let ?d3 = "d\<lparr>db_receipts := db_receipts d @ [receipt_for m k now fr d]\<rparr>"
    have fence: "receiptFence ?p (ms_commit k) o' ?d3 \<longleftrightarrow> o' = ?out" for o'
      by (subst receiptFence_new[OF assms(4), of "receipt_for m k now fr d"])
        (auto simp: receipt_for_def Let_def)
    from effects_run[OF assms(1,2) refl refl refl fence refl] obtain ns
      where "run_batch (effect_statements ?p k now) ?d3 = Some (ns, decided m k now fr d)"
      using 3 by (auto simp: decided_def Let_def)
    with 3 record_receipt_run[OF assms(1,2) 3(1) assms(3) 3(2,3)] show ?thesis by auto
  qed
qed

lemma decided_frame [simp]:
  "db_replay (decided m k now fr d) = db_replay d" "db_nonces (decided m k now fr d) = db_nonces d"
  "db_nonce_max (decided m k now fr d) = db_nonce_max d" "db_presence (decided m k now fr d) = db_presence d"
  "db_denials (decided m k now fr d) = db_denials d" "db_budgets (decided m k now fr d) = db_budgets d"
  by (simp_all add: decided_def Let_def)

lemma decided_live:
  assumes "tables_ok d" "mutation_ok m k now"
  shows "live_routes (decided m k now fr d) \<le> live_routes d + (if ap_operation (sm_payload m) = Reserve then 1 else 0)"
proof -
  let ?p = "sm_payload m" and ?out = "decide_route (sm_payload m) now fr d"
  have "count (\<lambda>r. True \<and> route_live r) (route_effect ?p (ms_handle k) now ?out (db_routes d)) \<le>
      count (\<lambda>r. True \<and> route_live r) (db_routes d) + (if ?out = OutReserved then 1 else 0)"
    using live_effect[OF assms(1) refl, where Q = "\<lambda>_. True" and b = True and h = "ms_handle k" and p = ?p and now = now and fr = fr]
    by (auto split: if_splits)
  then show ?thesis
    using decide_facts(1)[OF refl, of ?p now fr d]
    by (auto simp: decided_def Let_def live_routes_def split: if_splits)
qed

lemma decided_tables:
  assumes ok: "tables_ok d" and m: "mutation_ok m k now"
  shows "tables_ok (decided m k now fr d)"
proof (cases "ap_operation (sm_payload m) = ResultOf \<or> has_receipt (sm_payload m) d \<or>
    \<not> receipt_room (sm_payload m) (decide_route (sm_payload m) now fr d) d")
  case True
  with ok show ?thesis by (auto simp: decided_def Let_def)
next
  case False
  let ?p = "sm_payload m" and ?out = "decide_route (sm_payload m) now fr d"
  let ?r = "receipt_for m k now fr d" and ?rs = "route_effect (sm_payload m) (ms_handle k) now (decide_route (sm_payload m) now fr d) (db_routes d)"
  have d': "decided m k now fr d = d\<lparr>db_receipts := db_receipts d @ [?r], db_routes := ?rs,
      db_grants := grant_effect ?p ?out (db_grants d)\<rparr>"
    using False by (auto simp: decided_def Let_def)
  have ident: "rc_profile ?r = ap_profile ?p" "rc_server ?r = ap_server ?p" "rc_request ?r = ap_request ?p"
    by (simp_all add: receipt_for_def Let_def)
  note keys = route_effect_keys[OF ok m refl refl, of fr]
  have key: "receipt_key ?r \<notin> receipt_key ` set (db_receipts d)"
    using False by (auto simp: has_receipt_def list_ex_iff receipt_key_def ident)
  have room: "length (db_receipts d) + live_routes d + receipt_growth ?p ?out d \<le> 65536"
      "owner_receipts (ap_profile ?p) (ap_server ?p) d + owner_live (ap_profile ?p) (ap_server ?p) d +
        receipt_growth ?p ?out d \<le> 4096"
    using False by (simp_all add: receipt_room_def)
  have growth: "receipt_growth ?p ?out d = 2 \<and> ?out = OutReserved \<or> receipt_growth ?p ?out d \<le> 1 \<and> ?out \<noteq> OutReserved"
    by (auto simp: receipt_growth_def split: option.split)
  have step: "x + 1 + y' \<le> n" if "x + y + receipt_growth ?p ?out d \<le> n"
      "y' + (if True \<and> receipt_growth ?p ?out d = 0 then 1 else 0) \<le> y + (if True \<and> ?out = OutReserved then 1 else 0)"
    for x y y' n :: nat
    using that growth by (auto split: if_splits)
  have total: "length (db_receipts d) + 1 + count (\<lambda>r. True \<and> route_live r) ?rs \<le> 65536"
    by (rule step[OF room(1)[unfolded live_routes_def]])
      (use live_effect[OF ok refl, where Q = "\<lambda>_. True" and b = True and h = "ms_handle k" and p = ?p and now = now and fr = fr]
        in simp)
  have owner: "count (receipt_of q s) (db_receipts d @ [?r]) + count (\<lambda>r. owned_by q s r \<and> route_live r) ?rs \<le> 4096" for q s
  proof (cases "q = ap_profile ?p \<and> s = ap_server ?p")
    case True
    then have "count (receipt_of q s) (db_receipts d) + 1 + count (\<lambda>r. owned_by q s r \<and> route_live r) ?rs \<le> 4096"
      using live_effect[OF ok refl, where Q = "owned_by q s" and b = True and h = "ms_handle k" and p = ?p and now = now and fr = fr]
      by (intro step[OF room(2)[unfolded owner_receipts_def owner_live_def, folded True[THEN conjunct1] True[THEN conjunct2]]])
        (simp add: route_key_def)
    with True show ?thesis by (simp add: ident)
  next
    case other: False
    have "count (\<lambda>r. owned_by q s r \<and> route_live r) ?rs \<le> count (\<lambda>r. owned_by q s r \<and> route_live r) (db_routes d)"
      using live_effect[OF ok refl, where Q = "owned_by q s" and b = False and h = "ms_handle k" and p = ?p and now = now and fr = fr]
        other by (auto simp: route_key_def)
    moreover have "owner_receipts q s d + owner_live q s d \<le> 4096" using ok by (simp add: tables_ok_def)
    ultimately show ?thesis using other by (auto simp: ident owner_receipts_def owner_live_def)
  qed
  have grants: "set (grant_effect ?p ?out gs) \<subseteq> set gs" "distinct (map gr_current gs) \<Longrightarrow> distinct (map gr_current (grant_effect ?p ?out gs))"
      "distinct (redemptions gs) \<Longrightarrow> distinct (redemptions (grant_effect ?p ?out gs))" for gs
    by (auto simp: grant_effect_def distinct_map_filter distinct_redemptions_filter)
  show ?thesis
    using ok keys key total owner grants
    by (auto simp: tables_ok_def d' live_routes_def owner_receipts_def owner_live_def list_all_iff subset_iff)
qed

text \<open>The revocation of a live route is decided, and takes no new room.\<close>

lemma revoke_live_decided:
  assumes ok: "tables_ok d" and "ap_operation p = Revoke" and r: "r \<in> set (db_routes d)" "names_route p r" "route_live r"
  shows "decide_route p now fr d = OutRevoked \<and> receipt_growth p OutRevoked d = 0 \<and> route_at p d = Some r"
proof -
  obtain r' where r': "route_at p d = Some r'"
    using route_at_None[of p d] r by (cases "route_at p d") (auto simp: names_route_def image_iff)
  with route_at_Some[OF r'] r ok have at: "route_at p d = Some r"
    by (auto simp: tables_ok_def distinct_map inj_on_def names_route_def)
  have "\<not> token_conflict p d"
  proof
    assume "token_conflict p d"
    then obtain t where "t \<in> set (db_routes d)" "route_key t = route_key r" "rt_index t \<noteq> rt_index r"
      using r by (auto simp: token_conflict_def list_ex_iff route_key_def names_route_def)
    with ok r(1) show False by (auto simp: tables_ok_def distinct_map inj_on_def)
  qed
  with at r assms(2) show ?thesis
    by (simp add: decide_route_def Let_def decide_revoke_def receipt_growth_def names_route_def)
qed

lemma no_growth_decided:
  assumes ok: "tables_ok d" and m: "mutation_ok m k now" and "nonce_growth (sm_payload m) d = 0"
  shows "live_routes (decided m k now fr d) + 1 \<le> live_routes d"
proof -
  let ?p = "sm_payload m"
  from assms(3) obtain r where r: "ap_operation ?p = Revoke" "r \<in> set (db_routes d)" "names_route ?p r" "route_live r"
      "\<not> has_receipt ?p d" "length (db_receipts d) + live_routes d \<le> 65536"
      "owner_receipts (ap_profile ?p) (ap_server ?p) d + owner_live (ap_profile ?p) (ap_server ?p) d \<le> 4096"
    by (auto simp: nonce_growth_def list_ex_iff split: if_splits)
  note out = revoke_live_decided[OF ok r(1-4), of now fr]
  have "receipt_room ?p OutRevoked d" using r out by (simp add: receipt_room_def)
  then have "live_routes (decided m k now fr d) =
      count (\<lambda>r. True \<and> route_live r) (route_effect ?p (ms_handle k) now OutRevoked (db_routes d))"
    using out r by (simp add: decided_def Let_def live_routes_def)
  with live_effect[OF ok, of ?p now fr OutRevoked "\<lambda>_. True" True "ms_handle k"] out
  show ?thesis by (simp add: live_routes_def)
qed

text \<open>Either the signature is refused and only expired nonces left, or the batch did what it decided.\<close>

lemma mutate_cases [consumes 3, case_names refused accepted]:
  assumes ok: "access_ok d" and m: "mutation_ok m k now" and fresh: "fresh_commit (ms_commit k) d"
  obtains (refused) d' where "mutateAccessRoute m k now fr d = (Inl AccessConflict, d')" "same_access d d'"
      "db_replay d' = db_replay d" "set (db_nonces d') \<subseteq> set (db_nonces d)" "access_ok d'"
      "count (advance_ok m d') (db_replay d) = 0"
    | (accepted) d2 where "mutateAccessRoute m k now fr d = (Inr (route_answer m k (decided m k now fr d2)), decided m k now fr d2)"
      "same_access d d2" "access_ok (decided m k now fr d2)" "tables_ok d2" "replayFence m (ms_commit k) d2"
proof -
  let ?p = "sm_payload m"
  from ok have tab: "tables_ok d" and non: "nonces_ok d" by (simp_all add: access_ok_def)
  have same_tables: "tables_ok b" if "same_access d b" for b
    using tab that same_access_frame[OF that] by (simp add: tables_ok_def same_access_def)
  obtain n0 d0 where d0: "cleanupPublisherNonces now d = Some (n0, d0)" "same_access d d0" "db_replay d0 = db_replay d"
      "length (db_nonces d0) \<le> length (db_nonces d)" "set (db_nonces d0) \<subseteq> set (db_nonces d)"
      "distinct (map nonce_key (db_nonces d0))"
    using cleanup_nonces_run[of now d] non by (auto simp: nonces_ok_def)
  have live0: "live_routes d0 = live_routes d" using same_access_frame[OF d0(2)] by simp
  have max0: "db_nonce_max d0 = db_nonce_max d" using d0(2) by (simp add: same_access_def)
  have non0: "nonces_ok d0" using non d0 live0 max0 by (simp add: nonces_ok_def)
  have fresh0: "ms_commit k \<notin> set (map rp_commit (db_replay d0))" "ms_commit k \<notin> set (map rc_commit (db_receipts d0))"
    using fresh d0 by (simp_all add: fresh_commit_def same_access_def)
  let ?rest = "if ap_operation ?p = ResultOf then [] else recordReceipt m k now fr # effect_statements ?p k now"
  have stmts: "mutation_statements m k now fr =
      cleanupPublisherNonces now # advanceReplay m (ms_commit k) now # insertSignedNonce m (ms_commit k) now # ?rest"
    by (simp add: mutation_statements_def Let_def)
  show thesis
  proof (cases "count (advance_ok m d0) (db_replay d0) = 0")
    case True
    note pre = signed_prefix_refused[OF True fresh0(1), of now]
    have "\<exists>ns. run_batch ?rest d0 = Some (ns, d0)"
    proof (cases "ap_operation ?p = ResultOf")
      case False
      have "recordReceipt m k now fr d0 = Some (0, d0)"
        using fence_false[OF fresh0(1), of m] by (simp add: recordReceipt_def guarded_def)
      with False effects_skip[of ?p k d0 now] receiptFence_old[OF fresh0(2)] show ?thesis by fastforce
    qed simp
    then obtain ns where "run_batch ?rest d0 = Some (ns, d0)" by blast
    then have "run_batch (mutation_statements m k now fr) d = Some (n0 # 0 # 0 # ns, d0)"
      unfolding stmts run_batch.simps d0(1) option.case prod.case pre[THEN conjunct1] pre[THEN conjunct2] by simp
    then have "mutateAccessRoute m k now fr d = (Inl AccessConflict, d0)"
      by (simp add: mutateAccessRoute_def Let_def)
    with True d0 non0 same_tables[OF d0(2)] show thesis by (intro refused) (simp_all add: access_ok_def)
  next
    case False
    have "is_hex32 (sm_nonce m)" "sm_nonce m \<noteq> replicate 32 (CHR ''0'')" using m by (simp_all add: mutation_ok_def)
    from signed_prefix_accepted[OF non0 this False] obtain d1 d2 where pre:
      "advanceReplay m (ms_commit k) now d0 = Some (1, d1)" "insertSignedNonce m (ms_commit k) now d1 = Some (1, d2)"
      "same_access d0 d2" "replayFence m (ms_commit k) d2"
      "length (db_nonces d2) = length (db_nonces d0) + 1" "distinct (map nonce_key (db_nonces d2))"
      "map (\<lambda>r. (rp_server r, rp_profile r)) (db_replay d2) = map (\<lambda>r. (rp_server r, rp_profile r)) (db_replay d0)"
      by blast
    have same: "same_access d d2" using d0(2) pre(3) by (simp add: same_access_def)
    have tab2: "tables_ok d2" by (rule same_tables[OF same])
    have fresh2: "ms_commit k \<notin> set (map rc_commit (db_receipts d2))"
      using fresh0(2) pre(3) by (simp add: same_access_def)
    from decided_run[OF tab2 m pre(4) fresh2, of fr] obtain ns
      where "run_batch ?rest d2 = Some (ns, decided m k now fr d2)" by blast
    then have batch: "run_batch (mutation_statements m k now fr) d = Some (n0 # 1 # 1 # ns, decided m k now fr d2)"
      unfolding stmts run_batch.simps d0(1) option.case prod.case pre(1,2) by simp
    have "replayFence m (ms_commit k) (decided m k now fr d2)" using pre(4) by (simp add: replayFence_def)
    with batch have res: "mutateAccessRoute m k now fr d = (Inr (route_answer m k (decided m k now fr d2)), decided m k now fr d2)"
      by (simp add: mutateAccessRoute_def route_answer_def Let_def split: option.split)
    have live: "live_routes d2 = live_routes d0" "nonce_growth ?p d2 = nonce_growth ?p d0"
      using same_access_frame[OF pre(3)] by simp_all
    from False obtain r where "advance_ok m d0 r" by (auto simp: count_zero_iff)
    then have cap: "publisherNonceCapacity (nonce_growth ?p d0) d0" by (simp add: advance_ok_def)
    have "length (db_nonces d2) + live_routes (decided m k now fr d2) \<le> db_nonce_max d2"
    proof (cases "nonce_growth ?p d0 = 0")
      case True
      with no_growth_decided[OF tab2 m, of fr] live pre(3,5) non0 show ?thesis
        by (simp add: nonces_ok_def same_access_def)
    next
      case growth: False
      have "live_routes (decided m k now fr d2) + 1 \<le> live_routes d2 + nonce_growth ?p d0"
        using decided_live[OF tab2 m, of fr] growth by (auto simp: nonce_growth_def split: if_splits)
      with cap growth live pre(3,5) non0 show ?thesis
        by (auto simp: publisherNonceCapacity_def nonces_ok_def same_access_def)
    qed
    then have "nonces_ok (decided m k now fr d2)"
      using pre(3,6,7) non0 by (simp add: nonces_ok_def same_access_def)
    with decided_tables[OF tab2 m] have "access_ok (decided m k now fr d2)" by (simp add: access_ok_def)
    with res same tab2 pre(4) show thesis by (intro accepted)
  qed
qed

end
