(* ===== verification/PublicationBatch.thy ===== *)
theory PublicationBatch
  imports Publication AccessMutation
begin

text \<open>
  What the publication batch does, proved statement by statement. \<open>directory_ok\<close> is the invariant
  of the directory tables; \<open>accepts\<close> is the signature fence, \<open>publishable\<close> the capacity of the
  tables and \<open>published\<close> the effect of an accepted batch as one function of the tables.
  \<open>publication_cases\<close> says that a batch is refused without a trace, aborts at a capacity, or does
  exactly \<open>published\<close>, and that every check of the handler on the change counts then passes.
\<close>

interpretation replay_table: keyed_table replay_key permits replay_merge for permits
  by unfold_locales (simp add: replay_key_def replay_merge_def)

interpretation presence_table: keyed_table presence_key always presence_merge
  by unfold_locales (simp add: presence_key_def presence_merge_def)

interpretation entry_table: keyed_table entry_key always entry_merge
  by unfold_locales (simp add: entry_key_def entry_merge_def Let_def)

interpretation activity_table: keyed_table activity_key always activity_merge
  by unfold_locales (simp add: activity_key_def activity_merge_def)

interpretation bucket_table: keyed_table bucket_key always bucket_merge
  by unfold_locales (simp add: bucket_key_def bucket_merge_def)

subsection \<open>The invariant\<close>

definition revisions_ok :: "directory \<Rightarrow> bool" where
  "revisions_ok w \<longleftrightarrow>
     distinct (map rv_profile (dr_revisions w)) \<and> list_all (\<lambda>r. 0 \<le> rv_revision r) (dr_revisions w) \<and>
     distinct (map ob_profile (dr_outbox w)) \<and>
     list_all (\<lambda>o1. 0 < ob_revision o1 \<and>
        (case revision_of (ob_profile o1) w of None \<Rightarrow> False | Some v \<Rightarrow> ob_revision o1 \<le> v)) (dr_outbox w)"

definition listing_ok :: "directory \<Rightarrow> bool" where
  "listing_ok w \<longleftrightarrow>
     distinct (map presence_key (db_presence (dr_base w))) \<and>
     distinct (map entry_key (dr_entries w)) \<and> list_all entry_row_ok (dr_entries w) \<and>
     entry_key ` set (dr_entries w) \<subseteq> presence_key ` set (db_presence (dr_base w))"

definition activity_ok :: "directory \<Rightarrow> bool" where
  "activity_ok w \<longleftrightarrow>
     distinct (map activity_key (dr_activity w)) \<and> list_all activity_row_ok (dr_activity w) \<and>
     distinct (map bucket_key (dr_buckets w)) \<and> list_all bucket_row_ok (dr_buckets w)"

definition directory_ok :: "directory \<Rightarrow> bool" where
  "directory_ok w \<longleftrightarrow> nonces_ok (dr_base w) \<and> revisions_ok w \<and> listing_ok w \<and> activity_ok w"

text \<open>
  For a public publication, its clock is not behind what is stored of the publisher's own
  activity: the last positive observation and the starts of its buckets.
\<close>

definition observed_by :: "publication \<Rightarrow> directory \<Rightarrow> bool" where
  "observed_by p w \<longleftrightarrow>
     (pb_public p \<longrightarrow>
        (case activity_of p w of
           None \<Rightarrow> True
         | Some a \<Rightarrow> (case ac_positive a of None \<Rightarrow> True | Some u \<Rightarrow> u \<le> pb_now p)) \<and>
        list_all (\<lambda>b. bucket_of p b \<longrightarrow> bk_start b \<le> pb_now p) (dr_buckets w))"

text \<open>The rows that a publication proposes satisfy the constraints of their tables.\<close>

definition publication_ok :: "publication \<Rightarrow> bool" where
  "publication_ok p \<longleftrightarrow>
     replay_row_ok (replay_row_of p) \<and> nonce_row_ok (nonce_row_of p) \<and>
     presence_row_ok (presence_row_of p 0 False) \<and> (pb_public p \<longrightarrow> entry_row_ok (entry_row_of p)) \<and>
     0 \<le> publicationPopulation p"

definition fresh_publication :: "publication \<Rightarrow> directory \<Rightarrow> bool" where
  "fresh_publication p w \<longleftrightarrow>
     pb_commit p \<notin> rp_commit ` set (db_replay (dr_base w)) \<and>
     pb_commit p \<notin> ps_commit ` set (db_presence (dr_base w))"

subsection \<open>The specification\<close>

definition accepts :: "publication \<Rightarrow> database \<Rightarrow> bool" where
  "accepts p d \<longleftrightarrow> \<not> lineage_nonce p d \<and> \<not> lineage_reached (\<lambda>_. True) p d \<and> publisherNonceCapacity 1 d"

definition publishable :: "publication \<Rightarrow> directory \<Rightarrow> bool" where
  "publishable p w \<longleftrightarrow>
     (case revision_of (pb_profile p) w of
        None \<Rightarrow> False
      | Some base \<Rightarrow> (if visibleContentChanged p w then base + 1 else base) \<le> max_safe_integer) \<and>
     presence_capacity_ok (presence_row_of p 0 False) (db_presence (dr_base w)) \<and>
     (pb_public p \<longrightarrow> json_budget_ok (entry_row_of p) (dr_entries w))"

definition base_revision :: "publication \<Rightarrow> directory \<Rightarrow> int" where
  "base_revision p w = (case revision_of (pb_profile p) w of None \<Rightarrow> 0 | Some base \<Rightarrow> base)"

definition new_presence :: "publication \<Rightarrow> directory \<Rightarrow> presence_row" where
  "new_presence p w = presence_row_of p (base_revision p w) (visibleContentChanged p w)"

definition published_base :: "publication \<Rightarrow> directory \<Rightarrow> database" where
  "published_base p w =
     (let d = dr_base w in
      d\<lparr>db_replay := snd (upsert_rows replay_key (replay_permits p d) replay_merge (replay_row_of p) (db_replay d)),
        db_nonces := db_nonces d @ [nonce_row_of p],
        db_presence := snd (upsert_rows presence_key always presence_merge (new_presence p w) (db_presence d))\<rparr>)"

text \<open>A visible change: the revision of a profile advances by one and is queued as its only outbox row.\<close>

definition advanced_revisions :: "bool \<Rightarrow> directory_profile \<Rightarrow> int \<Rightarrow> revision_row list \<Rightarrow> revision_row list" where
  "advanced_revisions changed q now rs =
     (if changed
      then update_where (\<lambda>r. rv_profile r = q)
             (\<lambda>r. r\<lparr>rv_revision := rv_revision r + 1, rv_updated := max (rv_updated r) now\<rparr>) rs
      else rs)"

definition queued_outbox :: "bool \<Rightarrow> directory_profile \<Rightarrow> int \<Rightarrow> int \<Rightarrow> outbox_row list \<Rightarrow> outbox_row list" where
  "queued_outbox changed q revision now os =
     (if changed
      then filter (\<lambda>o1. ob_profile o1 \<noteq> q) os @ [\<lparr>ob_profile = q, ob_revision = revision, ob_created = now\<rparr>]
      else os)"

definition published_revisions :: "publication \<Rightarrow> directory \<Rightarrow> revision_row list" where
  "published_revisions p w =
     advanced_revisions (visibleContentChanged p w) (pb_profile p) (pb_now p) (dr_revisions w)"

definition published_outbox :: "publication \<Rightarrow> directory \<Rightarrow> outbox_row list" where
  "published_outbox p w =
     queued_outbox (visibleContentChanged p w) (pb_profile p) (base_revision p w + 1) (pb_now p) (dr_outbox w)"

definition published_entries :: "publication \<Rightarrow> directory \<Rightarrow> entry_row list" where
  "published_entries p w =
     (if pb_public p then snd (upsert_rows entry_key always entry_merge (entry_row_of p) (dr_entries w))
      else filter (\<lambda>e. entry_key e \<noteq> (pb_profile p, pb_server p)) (dr_entries w))"

definition kept_buckets :: "publication \<Rightarrow> directory \<Rightarrow> bucket_row list" where
  "kept_buckets p w = filter (\<lambda>b. \<not> (bucket_of p b \<and>
     bk_start b < bucketStart p - DIRECTORY_ACTIVITY_WINDOW_SECONDS)) (dr_buckets w)"

definition published_buckets :: "publication \<Rightarrow> directory \<Rightarrow> bucket_row list" where
  "published_buckets p w =
     (if pb_public p
      then snd (upsert_rows bucket_key always bucket_merge (bucket_row_of p (activity_of p w)) (kept_buckets p w))
      else filter (\<lambda>b. \<not> bucket_of p b) (dr_buckets w))"

definition published_activity :: "publication \<Rightarrow> directory \<Rightarrow> activity_row list" where
  "published_activity p w =
     (if pb_public p then snd (upsert_rows activity_key always activity_merge (activity_row_of p) (dr_activity w))
      else filter (\<lambda>a. activity_key a \<noteq> (pb_profile p, pb_server p)) (dr_activity w))"

definition published :: "publication \<Rightarrow> directory \<Rightarrow> directory" where
  "published p w =
     w\<lparr>dr_base := published_base p w, dr_revisions := published_revisions p w,
       dr_outbox := published_outbox p w, dr_entries := published_entries p w,
       dr_activity := published_activity p w, dr_buckets := published_buckets p w\<rparr>"

subsection \<open>Rows\<close>

lemma own_profile: "lineage (pb_profile p) (pb_profile p)" "current_profile (pb_profile p)"
  by (auto simp: pb_profile_def lineage_def current_profile_def split: publication_body.split)

lemma replay_merge_same: "replay_key new = replay_key old \<Longrightarrow> replay_merge old new = new"
  by (simp add: replay_key_def replay_merge_def)

lemma presence_merge_same: "presence_key new = presence_key old \<Longrightarrow> presence_merge old new = new"
  by (simp add: presence_key_def presence_merge_def)

lemma entry_merge_same:
  assumes "entry_key new = entry_key old" "entry_row_ok old" "entry_row_ok new"
  shows "entry_merge old new = new"
proof (cases "en_profile new = GameV2")
  case True
  with assms(1) show ?thesis by (simp add: entry_key_def entry_merge_def)
next
  case False
  with assms have "classic_columns_ok old" "classic_columns_ok new"
    by (auto simp: entry_row_ok_def entry_key_def)
  with False assms(1) show ?thesis by (simp add: classic_columns_ok_def entry_key_def entry_merge_def)
qed

lemma update_where_cong:
  "(\<And>x. x \<in> set xs \<Longrightarrow> P x = Q x \<and> (P x \<longrightarrow> f x = g x)) \<Longrightarrow> update_where P f xs = update_where Q g xs"
  by (induction xs) auto

lemma count_cong: "(\<And>x. x \<in> set xs \<Longrightarrow> P x = Q x) \<Longrightarrow> count P xs = count Q xs"
  by (induction xs) auto

lemma count_same_key:
  "distinct (map key rs) \<Longrightarrow> count (\<lambda>x. key x = k) rs = (case lookup key k rs of None \<Rightarrow> 0 | Some _ \<Rightarrow> 1)"
  using count_key[of key rs k "\<lambda>_. True"] by simp

lemma not_reached_newer:
  "\<not> lineage_reached P p d \<Longrightarrow> r \<in> set (db_replay d) \<Longrightarrow> rp_server r = pb_server p \<Longrightarrow>
   lineage (pb_profile p) (rp_profile r) \<Longrightarrow> P (rp_profile r) \<Longrightarrow> sql_newer (pb_sequence p) (rp_sequence r)"
  by (auto simp: lineage_reached_def list_ex_iff sql_newer_def)

lemma lineage_reached_mono: "\<not> lineage_reached (\<lambda>_. True) p d \<Longrightarrow> \<not> lineage_reached P p d"
  by (auto simp: lineage_reached_def list_ex_iff)

subsection \<open>The fence\<close>

lemma replay_key_row [simp]: "replay_key (replay_row_of p) = (pb_server p, pb_profile p)"
  by (simp add: replay_key_def replay_row_of_def)

lemma accepts_permits:
  assumes "accepts p d" "r \<in> set (db_replay d)" "replay_key r = (pb_server p, pb_profile p)"
  shows "replay_permits p d r (replay_row_of p)"
proof -
  have "rp_server r = pb_server p" "rp_profile r = pb_profile p" using assms(3) by (simp_all add: replay_key_def)
  then have "sql_newer (pb_sequence p) (rp_sequence r)"
    using assms(1,2) own_profile(1) not_reached_newer[of "\<lambda>_. True"] by (auto simp: accepts_def)
  with assms(1) show ?thesis
    by (simp add: replay_permits_def replay_row_of_def accepts_def lineage_reached_mono)
qed

lemma insertReplay_accepted:
  assumes "accepts p d" "replay_row_ok (replay_row_of p)" "distinct (map replay_key (db_replay d))"
  shows "insertReplay p d = Some (1, d\<lparr>db_replay :=
      snd (upsert_rows replay_key (replay_permits p d) replay_merge (replay_row_of p) (db_replay d))\<rparr>)"
    (is "_ = Some (1, d\<lparr>db_replay := snd ?u\<rparr>)")
    and "lookup replay_key (pb_server p, pb_profile p)
      (snd (upsert_rows replay_key (replay_permits p d) replay_merge (replay_row_of p) (db_replay d)))
      = Some (replay_row_of p)"
proof -
  have ok: "upsert_ok replay_row_ok replay_key (replay_permits p d) replay_merge (replay_row_of p) (db_replay d)"
    using assms(2) by (auto simp: upsert_ok_def list_all_iff replay_merge_same)
  have "fst ?u = 1"
    using assms(3) accepts_permits[OF assms(1)]
    by (auto simp: replay_table.upsert_count split: option.split dest: lookup_Some)
  then have u: "?u = (1, snd ?u)" by (metis prod.collapse)
  show "insertReplay p d = Some (1, d\<lparr>db_replay := snd ?u\<rparr>)"
    unfolding insertReplay_def Let_def using assms(1) ok
    by (subst u) (simp add: accepts_def)
  show "lookup replay_key (pb_server p, pb_profile p) (snd ?u) = Some (replay_row_of p)"
    using accepts_permits[OF assms(1)]
    by (auto simp: replay_table.upsert_lookup replay_merge_same split: option.split dest: lookup_Some)
qed

lemma insertReplay_refused: "\<not> accepts p d \<Longrightarrow> insertReplay p d = Some (0, d)"
  by (auto simp: insertReplay_def accepts_def)

lemma committed_from_lookup:
  "lookup replay_key (pb_server p, pb_profile p) (db_replay (dr_base w)) = Some (replay_row_of p) \<Longrightarrow> committed_by p w"
  by (auto simp: committed_by_def signedCommit_def list_ex_iff replay_row_of_def dest!: lookup_Some intro!: bexI)

lemma insertNonce_accepted:
  assumes "accepts p d" "nonces_ok d" "nonce_row_ok (nonce_row_of p)" "db_nonces (dr_base w) = db_nonces d"
    "db_nonce_max (dr_base w) = db_nonce_max d"
    "lookup replay_key (pb_server p, pb_profile p) (db_replay (dr_base w)) = Some (replay_row_of p)"
  shows "insertNonce p w = Some (1, w\<lparr>dr_base := (dr_base w)\<lparr>db_nonces := db_nonces d @ [nonce_row_of p]\<rparr>\<rparr>)"
proof -
  have "nonce_key (nonce_row_of p) \<notin> set (map nonce_key (db_nonces d))"
    using assms(1) own_profile(1)[of p] by (auto simp: accepts_def lineage_nonce_def list_ex_iff nonce_key_def nonce_row_of_def)
  moreover have "length (db_nonces d) < db_nonce_max d"
    using assms(1,2) by (auto simp: accepts_def publisherNonceCapacity_def nonces_ok_def)
  moreover have "list_ex (\<lambda>r. rp_server r = nn_server (nonce_row_of p) \<and> rp_profile r = nn_profile (nonce_row_of p))
      (db_replay (dr_base w))"
    using lookup_Some[OF assms(6)]
    by (auto simp: list_ex_iff nonce_row_of_def replay_row_of_def intro!: bexI[of _ "replay_row_of p"])
  ultimately show ?thesis
    using assms(3-5) committed_from_lookup[OF assms(6)]
    by (simp add: insertNonce_def only_if_def on_base_def insert_nonce_def Let_def)
qed

subsection \<open>Presence, revision and outbox\<close>

lemma presence_key_row [simp]: "presence_key (presence_row_of p base changed) = (pb_profile p, pb_server p)"
  by (simp add: presence_key_def presence_row_of_def)

lemma presence_row_of_ok:
  assumes "presence_row_ok (presence_row_of p 0 False)" "0 \<le> base"
    "(if changed then base + 1 else base) \<le> max_safe_integer"
  shows "presence_row_ok (presence_row_of p base changed)"
  using assms by (simp add: presence_row_ok_def presence_row_of_def stored_integer_def split: if_splits)

lemma presence_capacity_row:
  "presence_capacity_ok (presence_row_of p base changed) rs = presence_capacity_ok (presence_row_of p 0 False) rs"
  by (simp add: presence_capacity_ok_def) (simp add: presence_row_of_def)

lemma upsert_presence_lookup:
  "lookup presence_key k (snd (upsert_rows presence_key always presence_merge x rs)) =
   (if k = presence_key x then Some x else lookup presence_key k rs)"
  by (auto simp: presence_table.upsert_lookup presence_merge_same split: option.split dest!: lookup_Some)

lemma insert_presence_run:
  assumes "presence_row_ok x" "presence_capacity_ok x (db_presence d)" "distinct (map presence_key (db_presence d))"
    "(ps_server x, ps_profile x) \<in> replay_key ` set (db_replay d)"
  shows "insert_presence x d =
    Some (1, d\<lparr>db_presence := snd (upsert_rows presence_key always presence_merge x (db_presence d))\<rparr>)"
proof -
  let ?u = "upsert_rows presence_key always presence_merge x (db_presence d)"
  have "fst ?u = 1" using assms(3) by (simp add: presence_table.upsert_count split: option.split)
  then have u: "?u = (1, snd ?u)" by (metis prod.collapse)
  have "upsert_ok presence_row_ok presence_key always presence_merge x (db_presence d)"
    using assms(1) by (auto simp: upsert_ok_def list_all_iff presence_merge_same)
  then show ?thesis unfolding insert_presence_def using assms(2,4) by (subst u) simp
qed

lemma presenceMutation_run:
  assumes "revision_of (pb_profile p) w = Some base" "committed_by p w"
    "presence_row_ok (presence_row_of p base (visibleContentChanged p w))"
    "presence_capacity_ok (presence_row_of p 0 False) (db_presence (dr_base w))"
    "distinct (map presence_key (db_presence (dr_base w)))"
    "lookup replay_key (pb_server p, pb_profile p) (db_replay (dr_base w)) = Some (replay_row_of p)"
  shows "presenceMutation p w = Some (1, w\<lparr>dr_base := (dr_base w)\<lparr>db_presence :=
    snd (upsert_rows presence_key always presence_merge (presence_row_of p base (visibleContentChanged p w))
      (db_presence (dr_base w)))\<rparr>\<rparr>)"
proof -
  have fk: "(ps_server (presence_row_of p base c), ps_profile (presence_row_of p base c))
      \<in> replay_key ` set (db_replay (dr_base w))" for c
  proof -
    have "replay_key (replay_row_of p) \<in> replay_key ` set (db_replay (dr_base w))"
      using lookup_Some[OF assms(6)] by (blast intro: imageI)
    then show ?thesis by (simp add: presence_row_of_def)
  qed
  have cap: "presence_capacity_ok (presence_row_of p base (visibleContentChanged p w)) (db_presence (dr_base w))"
    using assms(4) by (rule iffD2[OF presence_capacity_row])
  show ?thesis
    using assms(1,2) insert_presence_run[OF assms(3) cap assms(5) fk]
    by (simp add: presenceMutation_def on_base_def)
qed

lemma own_presence_from_lookup:
  "presence_at (pb_profile p) (pb_server p) w = Some (presence_row_of p base c) \<Longrightarrow>
   own_presence p w = Some (presence_row_of p base c)"
  by (simp add: own_presence_def presence_row_of_def)

lemma advance_run:
  assumes rev: "lookup rv_profile q rs = Some row" and dist: "distinct (map rv_profile rs)"
    and hit: "\<And>r. r \<in> set rs \<Longrightarrow> rv_revision r = rv_revision row \<or> rv_profile r \<noteq> q \<Longrightarrow> hit r \<longleftrightarrow> changed \<and> rv_profile r = q"
    and bump: "\<And>r. changed \<Longrightarrow> rv_revision r = rv_revision row \<Longrightarrow>
      bump r = r\<lparr>rv_revision := rv_revision r + 1, rv_updated := max (rv_updated r) now\<rparr>"
  shows "count hit rs = (if changed then 1 else 0)" "update_where hit bump rs = advanced_revisions changed q now rs"
    "0 \<le> rv_revision row \<Longrightarrow> \<not> list_ex (\<lambda>r. hit r \<and> rv_revision (bump r) < 0) rs"
proof -
  have at: "rv_revision r = rv_revision row" if "r \<in> set rs" "rv_profile r = q" for r
    using rev that lookup_distinct[OF dist, of "rv_profile r" r] by auto
  then have hit_iff: "hit r \<longleftrightarrow> changed \<and> rv_profile r = q" if "r \<in> set rs" for r
    using hit that by blast
  show count: "count hit rs = (if changed then 1 else 0)"
  proof (cases changed)
    case True
    then have "count hit rs = count (\<lambda>r. rv_profile r = q) rs"
      by (intro count_cong) (simp add: hit_iff)
    with True rev show ?thesis by (simp add: count_same_key[OF dist])
  next
    case False
    then show ?thesis by (auto simp: count_zero_iff hit_iff)
  qed
  show "update_where hit bump rs = advanced_revisions changed q now rs"
  proof (cases changed)
    case True
    then show ?thesis unfolding advanced_revisions_def
      by (simp only: if_True) (rule update_where_cong, simp add: hit_iff bump at)
  next
    case False
    with count show ?thesis by (simp add: advanced_revisions_def update_where_none)
  qed
  show "0 \<le> rv_revision row \<Longrightarrow> \<not> list_ex (\<lambda>r. hit r \<and> rv_revision (bump r) < 0) rs"
    by (auto simp: list_ex_iff hit_iff bump at)
qed

lemma insert_outbox_run:
  assumes "0 \<le> base" and dist: "distinct (map ob_profile (dr_outbox w))"
    and prof: "q \<in> set (map rv_profile (dr_revisions w))"
    and old: "\<And>o1. o1 \<in> set (dr_outbox w) \<Longrightarrow> ob_profile o1 = q \<Longrightarrow> ob_revision o1 \<le> base"
  shows "\<exists>n. insert_outbox tc \<lparr>ob_profile = q, ob_revision = base + 1, ob_created = now\<rparr> w =
    Some (n, w\<lparr>dr_outbox := queued_outbox True q (base + 1) now (dr_outbox w)\<rparr>) \<and> (n = 1 \<or> n = 2)"
proof -
  define o1 where "o1 = \<lparr>ob_profile = q, ob_revision = base + 1, ob_created = now\<rparr>"
  have fresh: "outbox_key o1 \<notin> set (map outbox_key (dr_outbox w))"
    using old by (force simp: outbox_key_def o1_def)
  have obsolete: "(ob_profile x = q \<and> ob_revision x < base + 1) \<longleftrightarrow> ob_profile x = q" if "x \<in> set (dr_outbox w)" for x
    using old[OF that] by auto
  have "count (\<lambda>x. ob_profile x = q \<and> ob_revision x < base + 1) (dr_outbox w)
      = count (\<lambda>x. ob_profile x = q) (dr_outbox w)"
    by (rule count_cong) (rule obsolete)
  also have "\<dots> \<le> 1" by (simp add: count_same_key[OF dist] split: option.split)
  finally have le: "count (\<lambda>x. ob_profile x = q \<and> ob_revision x < base + 1) (dr_outbox w) \<le> 1" .
  have flt: "filter (\<lambda>x. \<not> (ob_profile x = q \<and> ob_revision x < base + 1)) (dr_outbox w) =
      filter (\<lambda>x. ob_profile x \<noteq> q) (dr_outbox w)"
    using obsolete by (intro filter_cong) auto
  show ?thesis
    using fresh prof \<open>0 \<le> base\<close> le flt
    by (auto simp: insert_outbox_def Let_def o1_def le_Suc_eq queued_outbox_def)
qed

lemma visibleRevision_run:
  assumes own: "own_presence p w = Some (presence_row_of p base changed)"
    and rev: "revision_of (pb_profile p) w = Some base" and "0 \<le> base"
    and dist: "distinct (map rv_profile (dr_revisions w))"
  shows "visibleRevisionStatement p w = Some (if changed then 1 else 0,
      w\<lparr>dr_revisions := advanced_revisions changed (pb_profile p) (pb_now p) (dr_revisions w)\<rparr>)"
proof -
  obtain row where row: "lookup rv_profile (pb_profile p) (dr_revisions w) = Some row" "rv_revision row = base"
    using rev by (auto simp: revision_of_def)
  define bump where "bump = (\<lambda>r :: revision_row. r\<lparr>rv_revision := (case own_presence p w of None \<Rightarrow> rv_revision r
      | Some x \<Rightarrow> (case ps_visible x of None \<Rightarrow> rv_revision r | Some v \<Rightarrow> v)),
      rv_updated := max (rv_updated r) (pb_now p)\<rparr>)"
  have hit: "visible_next p w r \<longleftrightarrow> changed \<and> rv_profile r = pb_profile p"
    if "rv_revision r = rv_revision row \<or> rv_profile r \<noteq> pb_profile p" for r
    using that row(2) by (auto simp: visible_next_def own presence_row_of_def)
  have bump: "bump r = r\<lparr>rv_revision := rv_revision r + 1, rv_updated := max (rv_updated r) (pb_now p)\<rparr>"
    if changed "rv_revision r = rv_revision row" for r
    using that row(2) by (simp add: bump_def own presence_row_of_def)
  note run = advance_run[OF row(1) dist, of "visible_next p w" changed bump "pb_now p", OF hit bump]
  show ?thesis
    unfolding visibleRevisionStatement_def bump_def[symmetric] Let_def
    using run row(2) \<open>0 \<le> base\<close> by simp
qed

lemma visibleOutbox_run:
  assumes own: "own_presence p w = Some (presence_row_of p base changed)"
    and rev: "revision_of (pb_profile p) w = Some (if changed then base + 1 else base)" and "0 \<le> base"
    and dist: "distinct (map ob_profile (dr_outbox w))"
    and old: "\<And>o1. o1 \<in> set (dr_outbox w) \<Longrightarrow> ob_profile o1 = pb_profile p \<Longrightarrow> ob_revision o1 \<le> base"
  shows "\<exists>n. visibleOutboxStatement tc p w = Some (n,
      w\<lparr>dr_outbox := queued_outbox changed (pb_profile p) (base + 1) (pb_now p) (dr_outbox w)\<rparr>) \<and>
    (if changed then n = 1 \<or> n = 2 else n = 0)"
proof (cases changed)
  case True
  have "pb_profile p \<in> set (map rv_profile (dr_revisions w))"
    using rev by (auto simp: revision_of_def dest!: lookup_Some intro: rev_image_eqI)
  with True own rev insert_outbox_run[where q = "pb_profile p" and tc = tc and now = "pb_now p", OF \<open>0 \<le> base\<close> dist _ old] show ?thesis
    by (simp add: visibleOutboxStatement_def presence_row_of_def)
next
  case False
  with own rev show ?thesis by (simp add: visibleOutboxStatement_def presence_row_of_def queued_outbox_def)
qed

subsection \<open>Entry and activity\<close>

lemma entry_key_row [simp]: "entry_key (entry_row_of p) = (pb_profile p, pb_server p)"
  by (simp add: entry_key_def entry_row_of_def split: publication_body.split)

lemma upsert_entry_lookup:
  assumes "list_all entry_row_ok es" "entry_row_ok e"
  shows "lookup entry_key k (snd (upsert_rows entry_key always entry_merge e es)) =
   (if k = entry_key e then Some e else lookup entry_key k es)"
  using assms
  by (auto simp: entry_table.upsert_lookup list_all_iff entry_merge_same split: option.split dest!: lookup_Some)

lemma insert_entry_run:
  assumes "list_all entry_row_ok (dr_entries w)" "entry_row_ok e" "json_budget_ok e (dr_entries w)"
    "distinct (map entry_key (dr_entries w))" "entry_key e \<in> presence_key ` set (db_presence (dr_base w))"
  shows "insert_entry e w =
    Some (1, w\<lparr>dr_entries := snd (upsert_rows entry_key always entry_merge e (dr_entries w))\<rparr>)"
proof -
  let ?u = "upsert_rows entry_key always entry_merge e (dr_entries w)"
  have "fst ?u = 1" using assms(4) by (simp add: entry_table.upsert_count split: option.split)
  then have u: "?u = (1, snd ?u)" by (metis prod.collapse)
  have "upsert_ok entry_row_ok entry_key always entry_merge e (dr_entries w)"
    using assms(1,2) by (auto simp: upsert_ok_def list_all_iff entry_merge_same)
  then show ?thesis unfolding insert_entry_def using assms(3,5) by (subst u) simp
qed

lemma directoryEntry_run:
  assumes "own_presence p w \<noteq> None" "list_all entry_row_ok (dr_entries w)"
    "distinct (map entry_key (dr_entries w))" "pb_public p \<longrightarrow> entry_row_ok (entry_row_of p)"
    "pb_public p \<longrightarrow> json_budget_ok (entry_row_of p) (dr_entries w)"
  shows "\<exists>n. directoryEntryMutation p w = Some (n, w\<lparr>dr_entries := published_entries p w\<rparr>) \<and>
    n \<le> 1 \<and> (pb_public p \<longrightarrow> n = 1)"
proof (cases "pb_public p")
  case True
  have "(pb_profile p, pb_server p) \<in> presence_key ` set (db_presence (dr_base w))"
    using assms(1) by (auto simp: own_presence_def presence_at_def split: option.splits dest!: lookup_Some intro: rev_image_eqI)
  with True assms show ?thesis
    by (simp add: directoryEntryMutation_def only_if_def published_entries_def insert_entry_run)
next
  case False
  then show ?thesis
    using assms(1) by (simp add: directoryEntryMutation_def only_if_def published_entries_def
        count_same_key[OF assms(3)] split: option.split)
qed

lemmas activity_limits = DIRECTORY_ACTIVITY_WINDOW_SECONDS_def DIRECTORY_ACTIVITY_BUCKET_SECONDS_def
  DIRECTORY_ACTIVITY_MAX_GAP_SECONDS_def DIRECTORY_ACTIVITY_MAX_POPULATION_def

lemma population_bounds: "0 \<le> publicationPopulation p \<Longrightarrow> 0 \<le> population p \<and> population p \<le> 100000"
  by (simp add: population_def activity_limits)

lemma population_positive: "0 \<le> publicationPopulation p \<Longrightarrow> (0 < population p) = (0 < publicationPopulation p)"
  "0 \<le> publicationPopulation p \<Longrightarrow> (population p = 0) = (publicationPopulation p = 0)"
  by (auto simp: population_def activity_limits)

lemma bucketStart_bounds: "bucketStart p \<le> pb_now p" "pb_now p < bucketStart p + 86400" "bucketStart p mod 86400 = 0"
  by (simp_all add: bucketStart_def activity_limits minus_mod_eq_div_mult [symmetric])

lemma bucketStart_greatest: "t \<le> pb_now p \<Longrightarrow> t mod 86400 = 0 \<Longrightarrow> t \<le> bucketStart p"
proof -
  assume t: "t \<le> pb_now p" "t mod 86400 = 0"
  then obtain k where k: "t = 86400 * k" by (auto simp: mod_eq_0_iff_dvd elim: dvdE)
  with t(1) have "86400 * k div 86400 \<le> pb_now p div 86400" by (intro zdiv_mono1) auto
  then have "k \<le> pb_now p div 86400" by simp
  with k show ?thesis by (simp add: bucketStart_def activity_limits)
qed

lemma bucket_row_of_ok:
  assumes "publication_ok p" "case previous of None \<Rightarrow> True | Some a \<Rightarrow> activity_row_ok a"
  shows "bucket_row_ok (bucket_row_of p previous)"
proof -
  have now: "0 \<le> pb_now p" "pb_now p \<le> max_safe_integer" "is_hex64 (pb_server p)"
    using assms(1) by (auto simp: publication_ok_def presence_row_ok_def presence_row_of_def stored_integer_def)
  have pop: "0 \<le> population p" "population p \<le> 100000"
    using assms(1) population_bounds by (simp_all add: publication_ok_def)
  have start: "0 \<le> bucketStart p" "bucketStart p \<le> max_safe_integer"
    using now bucketStart_bounds(1)[of p] by (simp_all add: bucketStart_def activity_limits)
  have seconds: "0 \<le> positive_interval p previous" "positive_interval p previous \<le> 900"
    by (auto simp: positive_interval_def activity_limits split: option.split)
  have prior: "0 \<le> prior_population previous" "prior_population previous \<le> 100000"
    using assms(2) by (auto simp: prior_population_def activity_limits activity_row_ok_def split: option.split)
  have "positive_interval p previous * prior_population previous \<le> 900 * 100000"
    using seconds prior by (intro mult_mono) auto
  then have "positive_interval p previous * prior_population previous div 60 \<le> 1500000"
    by (simp add: div_le_mono zdiv_mono1[of _ 90000000 60, simplified])
  with now pop start seconds prior bucketStart_bounds(3)[of p] show ?thesis
    by (simp add: bucket_row_ok_def bucket_row_of_def stored_integer_def zdiv_mono1 pos_imp_zdiv_nonneg_iff)
qed

lemma bucket_merge_ok: "bucket_row_ok old \<Longrightarrow> bucket_row_ok new \<Longrightarrow> bucket_row_ok (bucket_merge old new)"
  by (auto simp: bucket_row_ok_def bucket_merge_def)

lemma kept_buckets_facts:
  assumes "activity_ok w"
  shows "distinct (map bucket_key (kept_buckets p w))" "list_all bucket_row_ok (kept_buckets p w)"
  using assms by (auto simp: activity_ok_def kept_buckets_def list_all_iff intro: distinct_map_filterI)

lemma bucket_room:
  assumes "activity_ok w" "observed_by p w" "pb_public p"
    "(pb_profile p, pb_server p, bucketStart p) \<notin> bucket_key ` set (kept_buckets p w)"
  shows "count (bucket_of p) (kept_buckets p w) < 8"
proof -
  let ?own = "filter (bucket_of p) (kept_buckets p w)"
  have starts: "bk_start b \<in> (\<lambda>k. bucketStart p - int k * 86400) ` {1..7}" if "b \<in> set ?own" for b
  proof -
    have b: "bucket_of p b" "b \<in> set (kept_buckets p w)" "b \<in> set (dr_buckets w)"
      "bucketStart p - 604800 \<le> bk_start b"
      using that by (auto simp: kept_buckets_def activity_limits)
    then have "bk_start b \<noteq> bucketStart p" using assms(4) by (force simp: bucket_key_def)
    moreover have m: "bk_start b mod 86400 = 0" "bk_start b \<le> pb_now p"
      using b(1,3) assms(1-3) by (auto simp: activity_ok_def bucket_row_ok_def observed_by_def list_all_iff)
    ultimately have lt: "bk_start b < bucketStart p" using bucketStart_greatest[of "bk_start b" p] by simp
    obtain k where k: "bucketStart p - bk_start b = 86400 * k"
      using m(1) bucketStart_bounds(3)[of p] by (metis dvd_def mod_0_imp_dvd dvd_diff)
    with lt b(4) have "1 \<le> k" "k \<le> 7" by linarith+
    with k show ?thesis by (intro image_eqI[of _ _ "nat k"]) auto
  qed
  have inj: "inj_on bk_start (set ?own)"
    using kept_buckets_facts(1)[OF assms(1), of p] by (auto simp: inj_on_def distinct_map bucket_key_def)
  have "distinct ?own" using kept_buckets_facts(1)[OF assms(1), of p] by (simp add: distinct_map)
  then have "length ?own = card (set ?own)" by (rule distinct_card[symmetric])
  also have "\<dots> = card (bk_start ` set ?own)" using inj by (rule card_image[symmetric])
  also have "\<dots> \<le> card ((\<lambda>k. bucketStart p - int k * 86400) ` {1..7::nat})"
    using starts by (intro card_mono) auto
  also have "\<dots> \<le> 7" using card_image_le[of "{1..7::nat}" "\<lambda>k. bucketStart p - int k * 86400"] by simp
  finally show ?thesis by (simp add: count_def)
qed

lemma bucket_key_row [simp]: "bucket_key (bucket_row_of p a) = (pb_profile p, pb_server p, bucketStart p)"
  by (simp add: bucket_key_def bucket_row_of_def)

lemma insert_bucket_run:
  assumes "bucket_row_ok b" "list_all bucket_row_ok (dr_buckets w)" "distinct (map bucket_key (dr_buckets w))"
    "bucket_capacity_ok b (dr_buckets w)" "(bk_profile b, bk_server b) \<in> presence_key ` set (db_presence (dr_base w))"
  shows "insert_bucket b w =
    Some (1, w\<lparr>dr_buckets := snd (upsert_rows bucket_key always bucket_merge b (dr_buckets w))\<rparr>)"
proof -
  let ?u = "upsert_rows bucket_key always bucket_merge b (dr_buckets w)"
  have "fst ?u = 1" using assms(3) by (simp add: bucket_table.upsert_count split: option.split)
  then have u: "?u = (1, snd ?u)" by (metis prod.collapse)
  have "upsert_ok bucket_row_ok bucket_key always bucket_merge b (dr_buckets w)"
    using assms(1,2) by (auto simp: upsert_ok_def list_all_iff bucket_merge_ok)
  then show ?thesis unfolding insert_bucket_def using assms(4,5) by (subst u) simp
qed

lemma activity_row_of_ok: "publication_ok p \<Longrightarrow> activity_row_ok (activity_row_of p)"
  using population_bounds[of p]
  by (auto simp: publication_ok_def presence_row_ok_def presence_row_of_def activity_row_ok_def activity_row_of_def)

lemma activity_merge_ok: "activity_row_ok old \<Longrightarrow> activity_row_ok new \<Longrightarrow> activity_row_ok (activity_merge old new)"
  by (auto simp: activity_row_ok_def activity_merge_def)

lemma activity_key_row [simp]: "activity_key (activity_row_of p) = (pb_profile p, pb_server p)"
  by (simp add: activity_key_def activity_row_of_def)

lemma insert_activity_run:
  assumes "activity_row_ok a" "list_all activity_row_ok (dr_activity w)" "distinct (map activity_key (dr_activity w))"
    "activity_key a \<in> presence_key ` set (db_presence (dr_base w))"
  shows "insert_activity a w =
    Some (1, w\<lparr>dr_activity := snd (upsert_rows activity_key always activity_merge a (dr_activity w))\<rparr>)"
proof -
  let ?u = "upsert_rows activity_key always activity_merge a (dr_activity w)"
  have "fst ?u = 1" using assms(3) by (simp add: activity_table.upsert_count split: option.split)
  then have u: "?u = (1, snd ?u)" by (metis prod.collapse)
  have "upsert_ok activity_row_ok activity_key always activity_merge a (dr_activity w)"
    using assms(1,2) by (auto simp: upsert_ok_def list_all_iff activity_merge_ok)
  then show ?thesis unfolding insert_activity_def using assms(4) by (subst u) simp
qed

lemma activity_run:
  assumes "publication_ok p" "activity_ok w" "observed_by p w" "committed_by p w"
    "(pb_profile p, pb_server p) \<in> presence_key ` set (db_presence (dr_base w))"
  shows "\<exists>n1 n2 n3. run_batch (activityMutationStatements p) w =
      Some ([n1, n2, n3], w\<lparr>dr_activity := published_activity p w, dr_buckets := published_buckets p w\<rparr>) \<and>
    (pb_public p \<longrightarrow> n2 = 1 \<and> n3 = 1)"
proof (cases "pb_public p")
  case False
  then show ?thesis
    using assms(4)
    by (simp add: activityMutationStatements_def Let_def only_if_def delete_buckets_def delete_activity_def
        published_activity_def published_buckets_def committed_by_def)
next
  case True
  let ?w1 = "w\<lparr>dr_buckets := kept_buckets p w\<rparr>"
  let ?b = "bucket_row_of p (activity_of p w)"
  let ?w2 = "w\<lparr>dr_buckets := published_buckets p w\<rparr>"
  have prev: "case activity_of p w of None \<Rightarrow> True | Some a \<Rightarrow> activity_row_ok a"
    using assms(2) by (auto simp: activity_of_def activity_ok_def list_all_iff split: option.split dest!: lookup_Some)
  have capacity: "bucket_capacity_ok ?b (kept_buckets p w)"
  proof -
    have "bk_profile ?b = pb_profile p" "bk_server ?b = pb_server p" by (simp_all add: bucket_row_of_def)
    then show ?thesis using bucket_room[OF assms(2,3) True] by (auto simp: bucket_capacity_ok_def)
  qed
  have s2: "insert_bucket ?b ?w1 = Some (1, ?w2)"
    using insert_bucket_run[of ?b ?w1] bucket_row_of_ok[OF assms(1) prev] kept_buckets_facts[OF assms(2)] capacity assms(5) True
    by (simp add: published_buckets_def bucket_row_of_def)
  have s3: "insert_activity (activity_row_of p) ?w2 =
      Some (1, w\<lparr>dr_activity := published_activity p w, dr_buckets := published_buckets p w\<rparr>)"
    using insert_activity_run[of "activity_row_of p" ?w2] activity_row_of_ok[OF assms(1)] assms(2,5) True
    by (simp add: activity_ok_def published_activity_def)
  have frames: "committed_by p ?w1" "committed_by p ?w2" "activity_of p ?w1 = activity_of p w"
    using assms(4) by (simp_all add: committed_by_def activity_of_def)
  let ?old = "\<lambda>b. bucket_of p b \<and> bk_start b < bucketStart p - DIRECTORY_ACTIVITY_WINDOW_SECONDS"
  have "only_if (committed_by p) (delete_buckets ?old) w = Some (count ?old (dr_buckets w), ?w1)"
    using assms(4) by (simp only: only_if_def if_True delete_buckets_def kept_buckets_def)
  moreover have "only_if (committed_by p) (\<lambda>w. insert_bucket (bucket_row_of p (activity_of p w)) w) ?w1 = Some (1, ?w2)"
    using frames s2 by (simp only: only_if_def if_True)
  moreover have "only_if (committed_by p) (insert_activity (activity_row_of p)) ?w2 =
      Some (1, w\<lparr>dr_activity := published_activity p w, dr_buckets := published_buckets p w\<rparr>)"
    using frames s3 by (simp only: only_if_def if_True)
  ultimately show ?thesis
    using True by (simp only: activityMutationStatements_def Let_def not_True_eq_False if_False run_batch.simps
      option.case prod.case) blast
qed

subsection \<open>What was published\<close>

lemma published_presence:
  "presence_at q s (published p w) =
   (if q = pb_profile p \<and> s = pb_server p then Some (new_presence p w) else presence_at q s w)"
  by (auto simp: presence_at_def published_def published_base_def Let_def upsert_presence_lookup new_presence_def)

lemma entries_filter_lookup:
  "lookup entry_key k (filter (\<lambda>e. entry_key e \<noteq> k') es) = (if k = k' then None else lookup entry_key k es)"
  by (induction es) auto

lemma published_entry:
  assumes "listing_ok w" "publication_ok p"
  shows "entry_of q s (published p w) =
   (if q = pb_profile p \<and> s = pb_server p then (if pb_public p then Some (entry_row_of p) else None)
    else entry_of q s w)"
  using assms
  by (auto simp: entry_of_def published_def published_entries_def listing_ok_def publication_ok_def
      upsert_entry_lookup entries_filter_lookup)

lemma revision_update:
  "lookup rv_profile q (update_where (\<lambda>r. rv_profile r = p)
     (\<lambda>r. r\<lparr>rv_revision := rv_revision r + 1, rv_updated := max (rv_updated r) t\<rparr>) rs) =
   map_option (\<lambda>r. if rv_profile r = p
     then r\<lparr>rv_revision := rv_revision r + 1, rv_updated := max (rv_updated r) t\<rparr> else r) (lookup rv_profile q rs)"
  by (induction rs) auto

lemma published_revision:
  "revision_of q (published p w) =
   (if q = pb_profile p \<and> visibleContentChanged p w then map_option (\<lambda>v. v + 1) (revision_of q w)
    else revision_of q w)"
  by (auto simp: revision_of_def published_def published_revisions_def advanced_revisions_def revision_update option.map_comp o_def
      dest!: lookup_Some intro!: option.map_cong0)

lemma base_revision_Some: "revision_of (pb_profile p) w = Some v \<Longrightarrow> base_revision p w = v"
  by (simp add: base_revision_def)

lemma published_outbox_set:
  "o1 \<in> set (dr_outbox (published p w)) \<longleftrightarrow>
   (if visibleContentChanged p w
    then o1 \<in> set (dr_outbox w) \<and> ob_profile o1 \<noteq> pb_profile p \<or>
         o1 = \<lparr>ob_profile = pb_profile p, ob_revision = base_revision p w + 1, ob_created = pb_now p\<rparr>
    else o1 \<in> set (dr_outbox w))"
  by (auto simp: published_def published_outbox_def queued_outbox_def)

lemma presence_predicate_published:
  assumes "revision_of (pb_profile p) w = Some base"
  shows "publicationPresencePredicate p (published p w)"
  using assms
  by (auto simp: publicationPresencePredicate_def published_presence published_revision base_revision_Some
      new_presence_def presence_row_of_def list_ex_iff published_outbox_set Bex_def)

lemma entry_predicate_published:
  assumes "listing_ok w" "publication_ok p"
  shows "publicationEntryPredicate p (published p w)"
  unfolding publicationEntryPredicate_def published_entry[OF assms]
  by (auto simp: entry_row_of_def split: publication_body.split)

lemma activity_filter_lookup:
  "lookup activity_key k (filter (\<lambda>e. activity_key e \<noteq> k') es) = (if k = k' then None else lookup activity_key k es)"
  by (induction es) auto

lemma activity_predicate_published:
  assumes "activity_ok w" "observed_by p w" "publication_ok p"
  shows "publicationActivityPredicate p (published p w)"
proof (cases "pb_public p")
  case False
  then show ?thesis
    by (auto simp: publicationActivityPredicate_def activity_of_def published_def published_activity_def
        published_buckets_def activity_filter_lookup list_ex_iff)
next
  case True
  let ?a = "activity_row_of p" and ?b = "bucket_row_of p (activity_of p w)"
  have pop: "0 \<le> publicationPopulation p" using assms(3) by (simp add: publication_ok_def)
  note pos = population_positive[OF pop]
  have act: "activity_of p (published p w) =
      Some (case activity_of p w of None \<Rightarrow> ?a | Some x \<Rightarrow> activity_merge x ?a)"
    using True by (simp add: activity_of_def published_def published_activity_def activity_table.upsert_lookup cong: option.case_cong)
  have "case activity_of p w of None \<Rightarrow> True
      | Some x \<Rightarrow> activity_row_ok x \<and> (case ac_positive x of None \<Rightarrow> True | Some u \<Rightarrow> u \<le> pb_now p)"
    using assms(1,2) True
    by (auto simp: activity_of_def activity_ok_def observed_by_def list_all_iff split: option.splits dest!: lookup_Some)
  then have a: "case activity_of p (published p w) of None \<Rightarrow> False
     | Some a \<Rightarrow> ac_observed a = pb_now p \<and>
         (if publicationPopulation p > 0 then ac_positive a = Some (pb_now p)
          else case ac_positive a of None \<Rightarrow> True | Some t \<Rightarrow> t \<le> pb_now p) \<and>
         ac_population a = population p \<and> ac_count a \<ge> 1"
    using pos by (auto simp: act activity_row_of_def activity_merge_def activity_row_ok_def split: option.splits)
  let ?bs = "snd (upsert_rows bucket_key always bucket_merge ?b (kept_buckets p w))"
  have bs: "dr_buckets (published p w) = ?bs" using True by (simp add: published_def published_buckets_def)
  obtain b where b: "lookup bucket_key (bucket_key ?b) ?bs = Some b"
    "b = (case lookup bucket_key (bucket_key ?b) (kept_buckets p w) of None \<Rightarrow> ?b | Some x \<Rightarrow> bucket_merge x ?b)"
    by (simp add: bucket_table.upsert_lookup cong: option.case_cong)
  have old: "case lookup bucket_key (bucket_key ?b) (kept_buckets p w) of None \<Rightarrow> True | Some x \<Rightarrow> bucket_row_ok x"
    using kept_buckets_facts(2)[OF assms(1), of p]
    by (auto simp: list_all_iff split: option.split dest!: lookup_Some)
  have "bk_max b \<ge> population p \<and> bk_positive b \<ge> (if publicationPopulation p > 0 then 1 else 0) \<and>
      bk_zero b \<ge> (if publicationPopulation p = 0 then 1 else 0)"
    using old pos population_bounds[OF pop]
    by (auto simp: b(2) bucket_merge_def bucket_row_of_def bucket_row_ok_def split: option.splits)
  moreover have "b \<in> set ?bs" "bucket_of p b" "bk_start b = bucketStart p"
    using lookup_Some[OF b(1)] by (auto simp: bucket_key_def bucket_row_of_def)
  moreover have "bk_start x \<ge> bucketStart p - DIRECTORY_ACTIVITY_WINDOW_SECONDS"
    if "x \<in> set ?bs" "bucket_of p x" for x
    using that bucket_table.upsert_set[of ?b "kept_buckets p w"]
    by (auto simp: kept_buckets_def bucket_merge_def bucket_row_of_def activity_limits)
  ultimately show ?thesis
    using True a unfolding publicationActivityPredicate_def bs list_ex_iff
    by (auto simp: not_less)
qed

lemma authentication_published: "publicationAuthenticationPredicate p (published p w)"
  by (simp add: publicationAuthenticationPredicate_def published_def published_base_def Let_def nonce_row_of_def)

subsection \<open>The batch\<close>

lemma publication_ok_rows:
  "publication_ok p \<Longrightarrow> replay_row_ok (replay_row_of p)" "publication_ok p \<Longrightarrow> nonce_row_ok (nonce_row_of p)"
  "publication_ok p \<Longrightarrow> presence_row_ok (presence_row_of p 0 False)"
  "publication_ok p \<Longrightarrow> pb_public p \<longrightarrow> entry_row_ok (entry_row_of p)"
  by (simp_all add: publication_ok_def)

lemma replay_key_fun: "replay_key = (\<lambda>r. (rp_server r, rp_profile r))"
  by (rule ext) (simp add: replay_key_def)

lemma revisions_ok_base:
  assumes "revisions_ok w" "revision_of q w = Some base"
  shows "0 \<le> base" "o1 \<in> set (dr_outbox w) \<Longrightarrow> ob_profile o1 = q \<Longrightarrow> ob_revision o1 \<le> base"
proof -
  show "0 \<le> base"
    using assms by (auto simp: revisions_ok_def revision_of_def list_all_iff dest!: lookup_Some)
  show "ob_revision o1 \<le> base" if "o1 \<in> set (dr_outbox w)" "ob_profile o1 = q"
    using assms that by (auto simp: revisions_ok_def list_all_iff)
qed

text \<open>The fence writes the replay row and the nonce.\<close>

definition signed_base :: "publication \<Rightarrow> database \<Rightarrow> database" where
  "signed_base p d =
     d\<lparr>db_replay := snd (upsert_rows replay_key (replay_permits p d) replay_merge (replay_row_of p) (db_replay d)),
       db_nonces := db_nonces d @ [nonce_row_of p]\<rparr>"

lemma signed_run:
  assumes ok: "directory_ok w" "publication_ok p" and acc: "accepts p (dr_base w)"
  shows "run_batch [on_base (insertReplay p), insertNonce p] w = Some ([1, 1], w\<lparr>dr_base := signed_base p (dr_base w)\<rparr>)"
    "lookup replay_key (pb_server p, pb_profile p) (db_replay (signed_base p (dr_base w))) = Some (replay_row_of p)"
proof -
  let ?d = "dr_base w"
  let ?rp = "snd (upsert_rows replay_key (replay_permits p ?d) replay_merge (replay_row_of p) (db_replay ?d))"
  let ?w1 = "w\<lparr>dr_base := ?d\<lparr>db_replay := ?rp\<rparr>\<rparr>"
  have n: "nonces_ok ?d" using ok(1) by (simp add: directory_ok_def)
  then have dist: "distinct (map replay_key (db_replay ?d))" by (simp add: nonces_ok_def replay_key_fun)
  note run = insertReplay_accepted[OF acc publication_ok_rows(1)[OF ok(2)] dist]
  have s1: "on_base (insertReplay p) w = Some (1, ?w1)" using run(1) by (simp add: on_base_def)
  have "insertNonce p ?w1 = Some (1, w\<lparr>dr_base := signed_base p ?d\<rparr>)"
    using insertNonce_accepted[OF acc n publication_ok_rows(2)[OF ok(2)], of ?w1] run(2)
    by (simp add: signed_base_def)
  with s1 show "run_batch [on_base (insertReplay p), insertNonce p] w =
      Some ([1, 1], w\<lparr>dr_base := signed_base p ?d\<rparr>)" by simp
  show "lookup replay_key (pb_server p, pb_profile p) (db_replay (signed_base p ?d)) = Some (replay_row_of p)"
    using run(2) by (simp add: signed_base_def)
qed

lemma published_base_signed:
  "published_base p w = (signed_base p (dr_base w))\<lparr>db_presence :=
     snd (upsert_rows presence_key always presence_merge (new_presence p w) (db_presence (dr_base w)))\<rparr>"
  by (simp add: published_base_def signed_base_def Let_def)

lemma published_base_facts:
  assumes "directory_ok w" "publication_ok p" "accepts p (dr_base w)" "dr_base v = published_base p w"
  shows "committed_by p v" "own_presence p v = Some (new_presence p w)"
    "(pb_profile p, pb_server p) \<in> presence_key ` set (db_presence (dr_base v))"
proof -
  show "committed_by p v"
    using committed_from_lookup[of p v] signed_run(2)[OF assms(1-3)] assms(4) by (simp add: published_base_signed)
  have at: "presence_at (pb_profile p) (pb_server p) v = Some (new_presence p w)"
    using published_presence[of "pb_profile p" "pb_server p" p w] assms(4) by (simp add: presence_at_def published_def)
  then show "own_presence p v = Some (new_presence p w)"
    unfolding new_presence_def by (rule own_presence_from_lookup)
  from at show "(pb_profile p, pb_server p) \<in> presence_key ` set (db_presence (dr_base v))"
    by (force simp: presence_at_def dest!: lookup_Some)
qed

lemma signed_frames:
  assumes "v = w\<lparr>dr_base := signed_base p (dr_base w)\<rparr>"
  shows "revision_of q v = revision_of q w" "visibleContentChanged p v = visibleContentChanged p w"
    "db_presence (dr_base v) = db_presence (dr_base w)"
  using assms by (simp_all add: revision_of_def signed_base_def visibleContentChanged_def entry_of_def presence_at_def)

lemma prefix_run:
  assumes ok: "directory_ok w" "publication_ok p" and acc: "accepts p (dr_base w)"
    and base: "revision_of (pb_profile p) w = Some base"
      "(if visibleContentChanged p w then base + 1 else base) \<le> max_safe_integer"
      "presence_capacity_ok (presence_row_of p 0 False) (db_presence (dr_base w))"
  shows "\<exists>n. run_batch [presenceMutation p, visibleRevisionStatement p, visibleOutboxStatement tc p]
      (w\<lparr>dr_base := signed_base p (dr_base w)\<rparr>) =
    Some ([1, if visibleContentChanged p w then 1 else 0, n],
      w\<lparr>dr_base := published_base p w, dr_revisions := published_revisions p w, dr_outbox := published_outbox p w\<rparr>) \<and>
    (if visibleContentChanged p w then n = 1 \<or> n = 2 else n = 0)"
proof -
  note parts = ok(1)[unfolded directory_ok_def]
  have base_rev: "base_revision p w = base" using base(1) by (rule base_revision_Some)
  note base0 = revisions_ok_base[OF _ base(1)]
  have nonneg: "0 \<le> base" using base0(1) parts by blast
  define changed where "changed = visibleContentChanged p w"
  define w2 where "w2 = w\<lparr>dr_base := signed_base p (dr_base w)\<rparr>"
  define w3 where "w3 = w\<lparr>dr_base := published_base p w\<rparr>"
  note f2 = signed_frames[OF w2_def]
  have comm2: "committed_by p w2"
    using committed_from_lookup[of p w2] signed_run(2)[OF ok acc] by (simp add: w2_def)
  have own: "own_presence p v = Some (presence_row_of p base changed)" if "dr_base v = published_base p w" for v
    using published_base_facts(2)[OF ok acc that] by (simp add: new_presence_def base_rev changed_def)
  have s3: "presenceMutation p w2 = Some (1, w3)"
  proof -
    have row: "presence_row_ok (presence_row_of p base changed)"
      using presence_row_of_ok[OF publication_ok_rows(3)[OF ok(2)] nonneg, of changed] base(2)
      by (simp add: changed_def)
    then have "presenceMutation p w2 = Some (1, w2\<lparr>dr_base := (dr_base w2)\<lparr>db_presence :=
        snd (upsert_rows presence_key always presence_merge (presence_row_of p base changed) (db_presence (dr_base w)))\<rparr>\<rparr>)"
      using presenceMutation_run[of p w2 base] base(1,3) comm2 parts signed_run(2)[OF ok acc]
      by (simp add: f2 changed_def[symmetric] listing_ok_def) (simp add: w2_def)
    then show ?thesis
      by (simp add: w2_def w3_def published_base_signed new_presence_def base_rev changed_def)
  qed
  define w4 where "w4 = w3\<lparr>dr_revisions := published_revisions p w\<rparr>"
  have s4: "visibleRevisionStatement p w3 = Some (if changed then 1 else 0, w4)"
    using visibleRevision_run[OF own[of w3] _ nonneg] base(1) parts
    by (simp add: w3_def w4_def published_revisions_def changed_def revision_of_def revisions_ok_def)
  have rev4: "revision_of (pb_profile p) w4 = Some (if changed then base + 1 else base)"
    using published_revision[of "pb_profile p" p w] base(1)
    by (simp add: revision_of_def w4_def published_def changed_def)
  obtain n where "visibleOutboxStatement tc p w4 = Some (n, w4\<lparr>dr_outbox := published_outbox p w\<rparr>)"
      and "if changed then n = 1 \<or> n = 2 else n = 0"
    using visibleOutbox_run[OF own[of w4] rev4 nonneg, of tc] parts base0(2)
    by (auto simp: w3_def w4_def published_outbox_def base_rev changed_def revisions_ok_def)
  with s3 s4 show ?thesis
    unfolding w2_def[symmetric] changed_def[symmetric] by (auto simp: w3_def w4_def)
qed

text \<open>The batch after the cleanup of nonces, from tables on which the fence accepts.\<close>

lemma publication_batch_split:
  "tl (publication_batch tc p) = [on_base (insertReplay p), insertNonce p] @
     [presenceMutation p, visibleRevisionStatement p, visibleOutboxStatement tc p] @
     [directoryEntryMutation p] @ activityMutationStatements p @ [publicationAssertion p]"
  by (simp add: publication_batch_def)

lemma run_batch_chain:
  "run_batch xs w = Some (ns, v) \<Longrightarrow> run_batch ys v = Some (ms, u) \<Longrightarrow> run_batch (xs @ ys) w = Some (ns @ ms, u)"
  by (simp add: run_batch_append)

lemma batch_accepted:
  assumes ok: "directory_ok w" "publication_ok p" and seen: "observed_by p w"
    and acc: "accepts p (dr_base w)" and room: "publishable p w"
  shows "\<exists>n5 n6 n7 n8 n9.
    run_batch (tl (publication_batch tc p)) w =
      Some ([1, 1, 1, if visibleContentChanged p w then 1 else 0, n5, n6, n7, n8, n9, 0], published p w) \<and>
    (if visibleContentChanged p w then n5 = 1 \<or> n5 = 2 else n5 = 0) \<and>
    n6 \<le> 1 \<and> (pb_public p \<longrightarrow> n6 = 1 \<and> n8 = 1 \<and> n9 = 1)"
proof -
  note parts = ok(1)[unfolded directory_ok_def]
  from room obtain base where base: "revision_of (pb_profile p) w = Some base"
      "(if visibleContentChanged p w then base + 1 else base) \<le> max_safe_integer"
      "presence_capacity_ok (presence_row_of p 0 False) (db_presence (dr_base w))"
      "pb_public p \<longrightarrow> json_budget_ok (entry_row_of p) (dr_entries w)"
    by (auto simp: publishable_def split: option.splits)
  define w5 where "w5 = w\<lparr>dr_base := published_base p w, dr_revisions := published_revisions p w,
      dr_outbox := published_outbox p w\<rparr>"
  obtain n5 where s5: "run_batch [presenceMutation p, visibleRevisionStatement p, visibleOutboxStatement tc p]
        (w\<lparr>dr_base := signed_base p (dr_base w)\<rparr>) =
        Some ([1, if visibleContentChanged p w then 1 else 0, n5], w5)"
      and n5: "if visibleContentChanged p w then n5 = 1 \<or> n5 = 2 else n5 = 0"
    using prefix_run[OF ok acc base(1-3), of tc] unfolding w5_def by blast
  define w6 where "w6 = w5\<lparr>dr_entries := published_entries p w\<rparr>"
  obtain n6 where s6: "run_batch [directoryEntryMutation p] w5 = Some ([n6], w6)" and n6: "n6 \<le> 1" "pb_public p \<longrightarrow> n6 = 1"
    using directoryEntry_run[of p w5] published_base_facts(2)[OF ok acc, of w5] parts publication_ok_rows(4)[OF ok(2)] base(4)
    by (auto simp: w5_def w6_def published_entries_def listing_ok_def)
  have act: "activity_ok w6" "observed_by p w6"
    using parts seen by (simp_all add: activity_ok_def observed_by_def activity_of_def w5_def w6_def)
  have "w6\<lparr>dr_activity := published_activity p w6, dr_buckets := published_buckets p w6\<rparr> = published p w"
    by (simp add: w5_def w6_def published_def published_activity_def published_buckets_def
        kept_buckets_def activity_of_def)
  then obtain n7 n8 n9 where s7: "run_batch (activityMutationStatements p) w6 = Some ([n7, n8, n9], published p w)"
      and n8: "pb_public p \<longrightarrow> n8 = 1 \<and> n9 = 1"
    using activity_run[OF ok(2) act] published_base_facts(1,3)[OF ok acc, of w6] by (force simp: w5_def w6_def)
  have s8: "run_batch [publicationAssertion p] (published p w) = Some ([0], published p w)"
    using authentication_published presence_predicate_published[OF base(1)] parts
      entry_predicate_published[OF _ ok(2)] activity_predicate_published[OF _ seen ok(2)]
    by (simp add: publicationAssertion_def)
  have "run_batch (tl (publication_batch tc p)) w =
      Some ([1, 1] @ [1, if visibleContentChanged p w then 1 else 0, n5] @ [n6] @ [n7, n8, n9] @ [0], published p w)"
    unfolding publication_batch_split
    by (intro run_batch_chain[OF signed_run(1)[OF ok acc]] run_batch_chain[OF s5] run_batch_chain[OF s6]
        run_batch_chain[OF s7] s8)
  then show ?thesis using n5 n6 n8 by simp
qed

text \<open>A batch whose fence refuses changes nothing; its commit token is nowhere.\<close>

lemma batch_refused:
  assumes "\<not> accepts p (dr_base w)" "fresh_publication p w"
  shows "run_batch (tl (publication_batch tc p)) w = Some (replicate 10 0, w)"
proof -
  have comm: "\<not> committed_by p w"
    using assms(2) by (auto simp: committed_by_def signedCommit_def list_ex_iff fresh_publication_def image_iff)
  have own: "own_presence p w = None"
    using assms(2)
    by (auto simp: own_presence_def presence_at_def fresh_publication_def image_iff split: option.split dest!: lookup_Some)
  have "on_base (insertReplay p) w = Some (0, w)" using assms(1) by (simp add: on_base_def insertReplay_refused)
  moreover have "insertNonce p w = Some (0, w)" using comm by (simp add: insertNonce_def only_if_def)
  moreover have "presenceMutation p w = Some (0, w)" using comm by (simp add: presenceMutation_def split: option.split)
  moreover have "visibleRevisionStatement p w = Some (0, w)"
  proof -
    have "\<not> visible_next p w r" for r by (simp add: visible_next_def own)
    then have "count (visible_next p w) (dr_revisions w) = 0" "\<not> list_ex (\<lambda>r. visible_next p w r \<and> P r) rs" for P rs
      by (simp_all add: count_zero_iff list_ex_iff)
    then show ?thesis by (simp add: visibleRevisionStatement_def Let_def update_where_none)
  qed
  moreover have "visibleOutboxStatement tc p w = Some (0, w)" by (simp add: visibleOutboxStatement_def own split: option.split)
  moreover have "directoryEntryMutation p w = Some (0, w)" using own by (simp add: directoryEntryMutation_def only_if_def)
  moreover have "run_batch (activityMutationStatements p) w = Some ([0, 0, 0], w)"
    using comm by (simp add: activityMutationStatements_def Let_def only_if_def)
  moreover have "publicationAssertion p w = Some (0, w)" using comm by (simp add: publicationAssertion_def)
  ultimately show ?thesis
    by (simp add: publication_batch_split run_batch_append numeral_eq_Suc)
qed

text \<open>A batch that the fence accepts aborts when the tables have no room for it.\<close>

definition stuck :: "publication \<Rightarrow> directory \<Rightarrow> bool" where
  "stuck p w \<longleftrightarrow> revision_of (pb_profile p) w = None \<and> committed_by p w"

definition keeps_stuck :: "publication \<Rightarrow> directory statement \<Rightarrow> bool" where
  "keeps_stuck p s \<longleftrightarrow> (\<forall>w n w'. stuck p w \<longrightarrow> s w = Some (n, w') \<longrightarrow> stuck p w')"

lemma stuck_aborts: "stuck p w \<Longrightarrow> publicationAssertion p w = None"
  by (simp add: stuck_def publicationAssertion_def publicationPresencePredicate_def split: option.split)

lemma keeps_stuckI: "(\<And>w n w'. s w = Some (n, w') \<Longrightarrow> dr_base w' = dr_base w \<and> dr_revisions w' = dr_revisions w) \<Longrightarrow> keeps_stuck p s"
  by (metis (no_types, lifting) keeps_stuck_def stuck_def revision_of_def committed_by_def)

lemma stuck_batch:
  "list_all (keeps_stuck p) ss \<Longrightarrow> stuck p w \<Longrightarrow> run_batch (ss @ [publicationAssertion p]) w = None"
proof (induction ss arbitrary: w)
  case (Cons s ss)
  show ?case
  proof (cases "s w")
    case (Some r)
    then obtain n w' where "s w = Some (n, w')" by (cases r) simp
    with Cons show ?thesis by (auto simp: keeps_stuck_def)
  qed simp
qed (simp add: stuck_aborts)

lemma stuck_presence: "keeps_stuck p (presenceMutation p)"
  by (simp add: keeps_stuck_def stuck_def presenceMutation_def)

lemma stuck_revision: "keeps_stuck p (visibleRevisionStatement p)"
  unfolding keeps_stuck_def
proof (intro allI impI)
  fix w n w'
  assume w: "stuck p w" "visibleRevisionStatement p w = Some (n, w')"
  then have "dr_base w' = dr_base w" "map rv_profile (dr_revisions w') = map rv_profile (dr_revisions w)"
    by (auto simp: visibleRevisionStatement_def Let_def map_update_where split: if_splits)
  then have "dr_base w' = dr_base w" "rv_profile ` set (dr_revisions w') = rv_profile ` set (dr_revisions w)"
    by (simp_all flip: set_map)
  with w(1) show "stuck p w'"
    by (simp add: stuck_def revision_of_def committed_by_def lookup_None)
qed

lemma stuck_outbox: "keeps_stuck p (visibleOutboxStatement tc p)"
  by (simp add: keeps_stuck_def stuck_def visibleOutboxStatement_def)

lemma stuck_entry: "keeps_stuck p (directoryEntryMutation p)"
  by (rule keeps_stuckI)
    (auto simp: directoryEntryMutation_def only_if_def insert_entry_def split: if_splits prod.splits)

lemma stuck_activity: "list_all (keeps_stuck p) (activityMutationStatements p)"
  by (auto simp: activityMutationStatements_def Let_def only_if_def delete_buckets_def delete_activity_def
      insert_bucket_def insert_activity_def intro!: keeps_stuckI split: if_splits prod.splits)

lemma run_batch_abort: "run_batch xs w = Some (ns, v) \<Longrightarrow> run_batch ys v = None \<Longrightarrow> run_batch (xs @ ys) w = None"
  by (simp add: run_batch_append)

lemma batch_aborts:
  assumes ok: "directory_ok w" "publication_ok p" and acc: "accepts p (dr_base w)" and full: "\<not> publishable p w"
  shows "run_batch (tl (publication_batch tc p)) w = None"
proof -
  define w2 where "w2 = w\<lparr>dr_base := signed_base p (dr_base w)\<rparr>"
  note f2 = signed_frames[OF w2_def]
  have comm: "committed_by p w2"
    using committed_from_lookup[of p w2] signed_run(2)[OF ok acc] by (simp add: w2_def)
  note s2 = signed_run(1)[OF ok acc, folded w2_def]
  consider (none) "revision_of (pb_profile p) w = None"
    | (presence) base where "revision_of (pb_profile p) w = Some base"
        "\<not> (if visibleContentChanged p w then base + 1 else base) \<le> max_safe_integer \<or>
         \<not> presence_capacity_ok (presence_row_of p 0 False) (db_presence (dr_base w))"
    | (budget) base where "revision_of (pb_profile p) w = Some base"
        "(if visibleContentChanged p w then base + 1 else base) \<le> max_safe_integer"
        "presence_capacity_ok (presence_row_of p 0 False) (db_presence (dr_base w))"
        "pb_public p" "\<not> json_budget_ok (entry_row_of p) (dr_entries w)"
    using full by (cases "revision_of (pb_profile p) w") (auto simp: publishable_def)
  then show ?thesis
  proof cases
    case none
    then have st: "stuck p w2" using comm f2(1) by (simp add: stuck_def)
    have "run_batch (([presenceMutation p, visibleRevisionStatement p, visibleOutboxStatement tc p] @
        [directoryEntryMutation p] @ activityMutationStatements p) @ [publicationAssertion p]) w2 = None"
      by (rule stuck_batch[OF _ st])
        (simp add: stuck_presence stuck_revision stuck_outbox stuck_entry stuck_activity)
    then show ?thesis unfolding publication_batch_split by (intro run_batch_abort[OF s2]) simp
  next
    case presence
    have "\<not> (presence_row_ok (presence_row_of p base (visibleContentChanged p w)) \<and>
        presence_capacity_ok (presence_row_of p base (visibleContentChanged p w)) (db_presence (dr_base w)))"
      using presence(2) presence_capacity_row[of p base "visibleContentChanged p w"]
      by (auto simp: presence_row_ok_def presence_row_of_def stored_integer_def split: if_splits)
    then have "insert_presence (presence_row_of p base (visibleContentChanged p w2)) (dr_base w2) = None"
      by (auto simp: f2 insert_presence_def upsert_ok_def)
    then have "presenceMutation p w2 = None"
      using presence(1) comm by (simp add: presenceMutation_def f2(1) on_base_def)
    then show ?thesis unfolding publication_batch_split by (intro run_batch_abort[OF s2]) simp
  next
    case budget
    define w5 where "w5 = w\<lparr>dr_base := published_base p w, dr_revisions := published_revisions p w,
      dr_outbox := published_outbox p w\<rparr>"
    obtain ns where s5: "run_batch [presenceMutation p, visibleRevisionStatement p, visibleOutboxStatement tc p] w2
        = Some (ns, w5)"
      using prefix_run[OF ok acc budget(1-3), of tc] unfolding w2_def w5_def by blast
    have "insert_entry (entry_row_of p) w5 = None" using budget(5) by (simp add: insert_entry_def w5_def)
    then have "directoryEntryMutation p w5 = None"
      using budget(4) published_base_facts(2)[OF ok acc, of w5] by (simp add: directoryEntryMutation_def only_if_def w5_def)
    then show ?thesis
      unfolding publication_batch_split by (intro run_batch_abort[OF s2] run_batch_abort[OF s5]) simp
  qed
qed

subsection \<open>The operation\<close>

text \<open>The tables after the first statement, which reclaims expired nonces whatever comes after.\<close>

definition reclaimed :: "int \<Rightarrow> directory \<Rightarrow> directory" where
  "reclaimed now w = (case on_base (cleanupPublisherNonces now) w of None \<Rightarrow> w | Some (_, w0) \<Rightarrow> w0)"

lemma reclaimed_run: "\<exists>n. on_base (cleanupPublisherNonces now) w = Some (n, reclaimed now w)"
  using cleanup_nonces_run[of now "dr_base w"] by (auto simp: reclaimed_def on_base_def)

lemma reclaimed_base:
  "\<exists>d0. reclaimed now w = w\<lparr>dr_base := d0\<rparr> \<and> same_access (dr_base w) d0 \<and> db_replay d0 = db_replay (dr_base w) \<and>
     set (db_nonces d0) \<subseteq> set (db_nonces (dr_base w)) \<and> (nonces_ok (dr_base w) \<longrightarrow> nonces_ok d0)"
proof -
  obtain n d0 where run: "cleanupPublisherNonces now (dr_base w) = Some (n, d0)" and
      facts: "same_access (dr_base w) d0" "db_replay d0 = db_replay (dr_base w)"
      "length (db_nonces d0) \<le> length (db_nonces (dr_base w))" "set (db_nonces d0) \<subseteq> set (db_nonces (dr_base w))"
      "distinct (map nonce_key (db_nonces (dr_base w))) \<longrightarrow> distinct (map nonce_key (db_nonces d0))"
    using cleanup_nonces_run[of now "dr_base w"] by blast
  have "nonces_ok (dr_base w) \<longrightarrow> nonces_ok d0"
    using facts by (auto simp: nonces_ok_def same_access_def live_routes_def)
  with run facts show ?thesis by (auto simp: reclaimed_def on_base_def)
qed

lemma reclaimed_frames:
  "dr_revisions (reclaimed now w) = dr_revisions w" "dr_outbox (reclaimed now w) = dr_outbox w"
  "dr_entries (reclaimed now w) = dr_entries w" "dr_activity (reclaimed now w) = dr_activity w"
  "dr_buckets (reclaimed now w) = dr_buckets w" "db_presence (dr_base (reclaimed now w)) = db_presence (dr_base w)"
  "db_replay (dr_base (reclaimed now w)) = db_replay (dr_base w)"
  using reclaimed_base[of now w] by (auto simp: same_access_def)

lemma reclaimed_ok:
  "directory_ok w \<Longrightarrow> directory_ok (reclaimed now w)"
  "observed_by p (reclaimed now w) = observed_by p w"
  "fresh_publication p (reclaimed now w) = fresh_publication p w"
  "visibleContentChanged p (reclaimed now w) = visibleContentChanged p w"
  "publishable p (reclaimed now w) = publishable p w"
proof -
  note fr = reclaimed_frames[of now w]
  have rev: "revision_of q (reclaimed now w) = revision_of q w" for q by (simp add: revision_of_def fr)
  show "directory_ok w \<Longrightarrow> directory_ok (reclaimed now w)"
    using reclaimed_base[of now w]
    by (auto simp: directory_ok_def revisions_ok_def listing_ok_def activity_ok_def rev fr)
  show "observed_by p (reclaimed now w) = observed_by p w" "fresh_publication p (reclaimed now w) = fresh_publication p w"
    by (simp_all add: observed_by_def activity_of_def fresh_publication_def fr)
  show v: "visibleContentChanged p (reclaimed now w) = visibleContentChanged p w"
    by (simp add: visibleContentChanged_def entry_of_def presence_at_def fr)
  show "publishable p (reclaimed now w) = publishable p w"
    unfolding publishable_def rev v fr by (rule refl)
qed

lemma publication_cases:
  assumes "directory_ok w" "publication_ok p" "observed_by p w" "fresh_publication p w"
  shows "persistRendezvousPublication tc p w =
    (let w0 = reclaimed (pb_now p) w in
     if \<not> accepts p (dr_base w0) then (Inr (False, False), w0)
     else if \<not> publishable p w then (Inl BatchFailed, w)
     else (Inr (True, visibleContentChanged p w), published p w0))"
proof -
  let ?w0 = "reclaimed (pb_now p) w"
  obtain n where s0: "on_base (cleanupPublisherNonces (pb_now p)) w = Some (n, ?w0)" using reclaimed_run by blast
  have split: "publication_batch tc p = on_base (cleanupPublisherNonces (pb_now p)) # tl (publication_batch tc p)"
    by (simp add: publication_batch_def)
  note r0 = reclaimed_ok[where now = "pb_now p" and w = w]
  have ok0: "directory_ok ?w0" using r0(1) assms(1) by blast
  show ?thesis
  proof (cases "accepts p (dr_base ?w0)")
    case False
    then have "run_batch (tl (publication_batch tc p)) ?w0 = Some (replicate 10 0, ?w0)"
      using batch_refused assms(4) r0(3) by blast
    then have "run_batch (publication_batch tc p) w = Some (n # replicate 10 0, ?w0)"
      by (subst split) (simp add: s0)
    with False show ?thesis
      by (simp add: persistRendezvousPublication_def publication_outcome_def Let_def list_ex_iff)
  next
    case True
    show ?thesis
    proof (cases "publishable p w")
      case False
      then have "run_batch (tl (publication_batch tc p)) ?w0 = None"
        using batch_aborts[OF ok0 assms(2) True] r0(5) by blast
      then have "run_batch (publication_batch tc p) w = None" by (subst split) (simp add: s0)
      with True False show ?thesis by (simp add: persistRendezvousPublication_def Let_def)
    next
      case room: True
      obtain n5 n6 n7 n8 n9 where run: "run_batch (tl (publication_batch tc p)) ?w0 =
          Some ([1, 1, 1, if visibleContentChanged p w then 1 else 0, n5, n6, n7, n8, n9, 0], published p ?w0)"
        and n: "if visibleContentChanged p w then n5 = 1 \<or> n5 = 2 else n5 = 0"
          "n6 \<le> 1" "pb_public p \<longrightarrow> n6 = 1 \<and> n8 = 1 \<and> n9 = 1"
        using batch_accepted[OF ok0 assms(2) _ True, of tc] assms(3) room r0(2,4,5) by auto
      have "run_batch (publication_batch tc p) w =
          Some (n # [1, 1, 1, if visibleContentChanged p w then 1 else 0, n5, n6, n7, n8, n9, 0], published p ?w0)"
        by (subst split) (simp add: s0 run)
      with True room n show ?thesis
        by (auto simp: persistRendezvousPublication_def publication_outcome_def Let_def publicationResult_def
            requireDirectoryMutationResults_def split: if_splits)
    qed
  qed
qed

end
