(* ===== verification/AccessGrants.thy ===== *)
theory AccessGrants
  imports AccessMutation
begin

text \<open>
  Admission grants and the access endpoints: \<open>issueAccessGrant\<close>, \<open>redeemAccessGrant\<close> and
  \<open>isAccessRedemptionLive\<close> of \<open>src/src/access-grants.ts\<close>, \<open>consumeAccessBudget\<close> of
  \<open>access-budget.ts\<close>, and the two handlers of \<open>access-controller.ts\<close>. Grant tags, the
  capability index and random identifiers are arguments. \<open>access_step\<close> is any sequence of
  operations of the database, with the clock free to go backwards; the lemmas follow a route
  that ended and a redemption that died through it.
\<close>

subsection \<open>Grants\<close>

record resolved_target =
  tg_profile :: access_profile
  tg_server :: string
  tg_certificate :: "string option"
  tg_name :: "string option"
  tg_hostname :: "string option"
  tg_port :: "int option"
  tg_generation :: string
  tg_expires :: int

record grant_redemption =
  rd_index :: string
  rd_revision :: string
  rd_generation :: string
  rd_expires :: int
  rd_redemption :: string

text \<open>\<open>PROFILE_JOIN\<close>.\<close>

definition joins :: "route_row \<Rightarrow> presence_row \<Rightarrow> bool" where
  "joins r x \<longleftrightarrow> ps_profile x = directory_profile_of (rt_profile r) \<and> ps_server x = rt_server r"

definition unexpired_route :: "int \<Rightarrow> route_row \<Rightarrow> bool" where
  "unexpired_route now r \<longleftrightarrow>
     rt_state r = RouteActive \<and> (case rt_expires r of None \<Rightarrow> True | Some e \<Rightarrow> e > now)"

definition denied :: "database \<Rightarrow> route_row \<Rightarrow> bool" where
  "denied d r \<longleftrightarrow> rt_server r \<in> set (db_denials d)"

definition protected_presence :: "int \<Rightarrow> string \<Rightarrow> presence_row \<Rightarrow> bool" where
  "protected_presence cutoff gen x \<longleftrightarrow>
     ps_seen x > cutoff \<and> ps_access x = Some True \<and> ps_generation x = gen"

text \<open>A route whose server is a current protected signed target of that generation.\<close>

definition current_target :: "int \<Rightarrow> int \<Rightarrow> string \<Rightarrow> database \<Rightarrow> route_row \<Rightarrow> bool" where
  "current_target now fr gen d r \<longleftrightarrow>
     unexpired_route now r \<and> \<not> denied d r \<and>
     list_ex (\<lambda>x. joins r x \<and> protected_presence (now - fr) gen x) (db_presence d)"

definition tags_match :: "string \<times> string \<Rightarrow> grant_row \<Rightarrow> bool" where
  "tags_match tags g \<longleftrightarrow>
     gr_current g \<in> {fst tags, snd tags} \<or> gr_previous g \<in> {fst tags, snd tags}"

definition expire_observed :: "int \<Rightarrow> (route_row \<Rightarrow> bool) \<Rightarrow> database statement" where
  "expire_observed now P =
     update_routes (\<lambda>r. P r \<and> rt_state r = RouteActive \<and>
       (case rt_expires r of None \<Rightarrow> False | Some e \<Rightarrow> e \<le> now)) (expire_row now)"

definition delete_expired_grants :: "int \<Rightarrow> database statement" where
  "delete_expired_grants now d =
     (let ks = first_keys 256 gr_current (\<lambda>g. gr_expires g \<le> now) (db_grants d) in
      delete_grants (\<lambda>g. gr_current g \<in> set ks) d)"

definition issuable :: "int \<Rightarrow> int \<Rightarrow> string \<Rightarrow> string \<times> string \<Rightarrow> database \<Rightarrow> route_row \<Rightarrow> bool" where
  "issuable now fr gen tags d r \<longleftrightarrow>
     unexpired_route now r \<and> \<not> denied d r \<and>
     list_ex (\<lambda>x. joins r x \<and> protected_presence (now - fr) gen x \<and>
        ps_certificate x \<noteq> None \<and> ps_name x \<noteq> None) (db_presence d) \<and>
     length (db_grants d) < 32768 \<and>
     count (\<lambda>g. gr_profile g = rt_profile r \<and> gr_server g = rt_server r) (db_grants d) < 32 \<and>
     \<not> list_ex (tags_match tags) (db_grants d)"

definition new_grant :: "int \<Rightarrow> string \<Rightarrow> string \<Rightarrow> string \<times> string \<Rightarrow> route_row \<Rightarrow> grant_row" where
  "new_grant now gen nonce tags r =
     \<lparr>gr_current = fst tags, gr_previous = snd tags, gr_index = rt_index r, gr_profile = rt_profile r,
      gr_server = rt_server r, gr_revision = rt_revision r, gr_generation = gen, gr_nonce = nonce,
      gr_expires = now + 15, gr_redemption = None\<rparr>"

definition insert_issued ::
  "string \<Rightarrow> string \<Rightarrow> string \<times> string \<Rightarrow> string \<Rightarrow> int \<Rightarrow> int \<Rightarrow> database statement" where
  "insert_issued index nonce tags gen now fr d =
     (case find (\<lambda>r. rt_index r = index \<and> issuable now fr gen tags d r) (db_routes d) of
        None \<Rightarrow> Some (0, d)
      | Some r \<Rightarrow> insert_grant (new_grant now gen nonce tags r) d)"

definition resolved_target_of ::
  "string \<times> string \<Rightarrow> string \<Rightarrow> string \<Rightarrow> int \<Rightarrow> database \<Rightarrow> resolved_target option" where
  "resolved_target_of tags nonce gen now d =
     (case find (\<lambda>g. gr_current g = fst tags \<and> gr_previous g = snd tags \<and> gr_nonce g = nonce \<and>
            gr_generation g = gen \<and> gr_expires g = now + 15) (db_grants d) of
        None \<Rightarrow> None
      | Some g \<Rightarrow>
          (case find (\<lambda>r. rt_index r = gr_index g) (db_routes d) of
             None \<Rightarrow> None
           | Some r \<Rightarrow>
               map_option (\<lambda>x. \<lparr>tg_profile = rt_profile r, tg_server = rt_server r,
                   tg_certificate = ps_certificate x, tg_name = ps_name x, tg_hostname = ps_hostname x,
                   tg_port = ps_port x, tg_generation = gr_generation g, tg_expires = gr_expires g\<rparr>)
                 (find (joins r) (db_presence d))))"

definition issueAccessGrant ::
  "string \<Rightarrow> string \<Rightarrow> string \<times> string \<Rightarrow> string \<Rightarrow> int \<Rightarrow> int \<Rightarrow> database \<Rightarrow>
   (access_error + resolved_target option) \<times> database" where
  "issueAccessGrant index nonce tags gen now fr d =
     (case run_batch [delete_expired_grants now, expire_observed now (\<lambda>r. rt_index r = index),
         insert_issued index nonce tags gen now fr] d of
        None \<Rightarrow> (Inl AccessTransactionFailed, d)
      | Some (ns, d') \<Rightarrow>
          (Inr (if ns ! 2 \<noteq> 1 then None else resolved_target_of tags nonce gen now d'), d'))"

text \<open>The grants that one redemption may take.\<close>

definition redeemable ::
  "access_profile \<Rightarrow> string \<Rightarrow> string \<Rightarrow> string \<Rightarrow> string \<times> string \<Rightarrow> int \<Rightarrow> int \<Rightarrow> database \<Rightarrow>
   grant_row \<Rightarrow> bool" where
  "redeemable profile server gen nonce tags now fr d g \<longleftrightarrow>
     gr_profile g = profile \<and> gr_server g = server \<and> gr_generation g = gen \<and> gr_nonce g = nonce \<and>
     gr_expires g > now \<and> gr_redemption g = None \<and> tags_match tags g \<and>
     list_ex (\<lambda>r. rt_index r = gr_index g \<and> rt_revision r = gr_revision g \<and>
        current_target now fr (gr_generation g) d r) (db_routes d)"

definition redeem_statements ::
  "access_profile \<Rightarrow> string \<Rightarrow> string \<Rightarrow> string \<Rightarrow> string \<times> string \<Rightarrow> string \<Rightarrow> int \<Rightarrow> int \<Rightarrow>
   database statement list" where
  "redeem_statements profile server gen nonce tags x now fr =
     [\<lambda>d. expire_observed now (\<lambda>r. list_ex (\<lambda>g. gr_index g = rt_index r \<and> gr_profile g = profile \<and>
            gr_server g = server \<and> tags_match tags g) (db_grants d)) d,
      delete_grants (\<lambda>g. gr_expires g \<le> now \<and> tags_match tags g),
      \<lambda>d. update_grants (redeemable profile server gen nonce tags now fr d) (\<lambda>g. g\<lparr>gr_redemption := Some x\<rparr>) d]"

definition redemption_of :: "string \<Rightarrow> grant_row \<Rightarrow> grant_redemption" where
  "redemption_of x g =
     \<lparr>rd_index = gr_index g, rd_revision = gr_revision g, rd_generation = gr_generation g,
      rd_expires = gr_expires g, rd_redemption = x\<rparr>"

text \<open>\<open>RETURNING\<close> lists the updated rows; the redemption identifier names them in the new table.\<close>

definition redeemAccessGrant ::
  "access_profile \<Rightarrow> string \<Rightarrow> string \<Rightarrow> string \<Rightarrow> string \<times> string \<Rightarrow> string \<Rightarrow> int \<Rightarrow> int \<Rightarrow> database \<Rightarrow>
   (access_error + grant_redemption option) \<times> database" where
  "redeemAccessGrant profile server gen nonce tags x now fr d =
     (case run_batch (redeem_statements profile server gen nonce tags x now fr) d of
        None \<Rightarrow> (Inl AccessTransactionFailed, d)
      | Some (ns, d') \<Rightarrow>
          (Inr (if ns ! 2 = 0 then None
                else map_option (redemption_of x) (find (\<lambda>g. gr_redemption g = Some x) (db_grants d'))), d'))"

definition isAccessRedemptionLive :: "string \<Rightarrow> string \<Rightarrow> int \<Rightarrow> int \<Rightarrow> database \<Rightarrow> bool" where
  "isAccessRedemptionLive x gen now fr d \<longleftrightarrow>
     list_ex (\<lambda>g. gr_redemption g = Some x \<and> gr_generation g = gen \<and> gr_expires g > now \<and>
       list_ex (\<lambda>r. rt_index r = gr_index g \<and> rt_revision r = gr_revision g \<and>
          current_target now fr (gr_generation g) d r) (db_routes d)) (db_grants d)"

subsection \<open>Budgets\<close>

fun budget_duration :: "budget_scope \<Rightarrow> int" where
  "budget_duration RoutesScope = 3600" | "budget_duration ResolveScope = 60"

fun budget_limit :: "budget_scope \<Rightarrow> int" where
  "budget_limit RoutesScope = 64" | "budget_limit ResolveScope = 60"

definition budget_start :: "budget_scope \<Rightarrow> int \<Rightarrow> int" where
  "budget_start s now = now div budget_duration s * budget_duration s"

definition budget_key :: "budget_row \<Rightarrow> access_profile \<times> string \<times> budget_scope" where
  "budget_key b = (bd_profile b, bd_server b, bd_scope b)"

definition budget_row_ok :: "budget_row \<Rightarrow> bool" where
  "budget_row_ok b \<longleftrightarrow>
     is_hex64 (bd_server b) \<and> 0 \<le> bd_start b \<and> bd_start b < bd_expires b \<and>
     1 \<le> bd_count b \<and> bd_count b \<le> 64"

definition cleanup_budgets :: "int \<Rightarrow> database statement" where
  "cleanup_budgets now d =
     (let ks = first_keys 256 budget_key (\<lambda>b. bd_expires b \<le> now) (db_budgets d) in
      Some (count (\<lambda>b. budget_key b \<in> set ks) (db_budgets d),
        d\<lparr>db_budgets := filter (\<lambda>b. budget_key b \<notin> set ks) (db_budgets d)\<rparr>))"

definition count_request :: "int \<Rightarrow> int \<Rightarrow> budget_row \<Rightarrow> budget_row" where
  "count_request start duration b =
     b\<lparr>bd_start := start, bd_expires := start + duration,
       bd_count := (if bd_start b = start then bd_count b + 1 else 1)\<rparr>"

text \<open>The upsert, with the trigger \<open>access_request_budgets_capacity\<close>.\<close>

definition upsert_budget :: "access_profile \<Rightarrow> string \<Rightarrow> budget_scope \<Rightarrow> int \<Rightarrow> database statement" where
  "upsert_budget profile server s now d =
     (let start = budget_start s now;
          row = \<lparr>bd_profile = profile, bd_server = server, bd_scope = s, bd_start = start,
                 bd_expires = start + budget_duration s, bd_count = 1\<rparr>;
          mine = (\<lambda>b. budget_key b = (profile, server, s));
          counted = (\<lambda>b. mine b \<and> (bd_start b < start \<or> bd_start b = start \<and> bd_count b < budget_limit s)) in
      if \<not> budget_row_ok row then None
      else if \<not> list_ex mine (db_budgets d) then
        (if length (db_budgets d) \<ge> 2048 then None else Some (1, d\<lparr>db_budgets := db_budgets d @ [row]\<rparr>))
      else
        let rows = update_where counted (count_request start (budget_duration s)) (db_budgets d) in
        if \<not> list_all budget_row_ok rows then None
        else Some (count counted (db_budgets d), d\<lparr>db_budgets := rows\<rparr>))"

datatype budget_error = BudgetUnavailable | RateLimited int

definition consumeAccessBudget ::
  "access_profile \<Rightarrow> string \<Rightarrow> budget_scope \<Rightarrow> int \<Rightarrow> database \<Rightarrow> (budget_error + unit) \<times> database" where
  "consumeAccessBudget profile server s now d =
     (case run_batch [cleanup_budgets now, upsert_budget profile server s now] d of
        None \<Rightarrow> (Inl BudgetUnavailable, d)
      | Some (ns, d') \<Rightarrow>
          (if ns ! 1 \<noteq> 1 then Inl (RateLimited (budget_start s now + budget_duration s - now)) else Inr (), d'))"

end
