(* ===== verification/AccessRuns.thy ===== *)
theory AccessRuns
  imports AccessGrants
begin

text \<open>
  What runs of operations do to the access tables. \<open>quiet\<close> operations only take away;
  \<open>access_step\<close> is one operation of any kind; \<open>access_steps_keep\<close> carries the invariant, a dead
  redemption and a redeemed grant along every run. The last part follows the budgets of
  \<open>access-budget.ts\<close> along a sequence of calls.
\<close>

subsection \<open>Operations that only take away\<close>

text \<open>
  Every operation but \<open>mutateAccessRoute\<close> is quiet with respect to a redemption identifier
  \<open>x\<close> and a set \<open>t\<close> of tags: it keeps the invariant of the tables, makes no route live, takes
  no nonce, does not hand out \<open>x\<close>, and changes a grant with a tag of \<open>t\<close> only by redeeming it.
\<close>

definition quiet :: "string \<Rightarrow> string set \<Rightarrow> database \<Rightarrow> database \<Rightarrow> bool" where
  "quiet x t d d' \<longleftrightarrow>
     (tables_ok d \<longrightarrow> tables_ok d') \<and> live_routes d' \<le> live_routes d \<and>
     db_replay d' = db_replay d \<and> db_nonces d' = db_nonces d \<and> db_nonce_max d' = db_nonce_max d \<and>
     (\<forall>r' \<in> set (db_routes d'). route_live r' \<longrightarrow>
        (\<exists>r \<in> set (db_routes d). rt_index r = rt_index r' \<and> route_live r)) \<and>
     (\<forall>g' \<in> set (db_grants d'). gr_redemption g' = Some x \<longrightarrow>
        (\<exists>g \<in> set (db_grants d). gr_redemption g = Some x \<and> gr_index g = gr_index g')) \<and>
     (\<forall>g' \<in> set (db_grants d'). gr_current g' \<in> t \<longrightarrow> g' \<notin> set (db_grants d) \<longrightarrow>
        (\<exists>g \<in> set (db_grants d). gr_current g = gr_current g' \<and> gr_redemption g = None))"

lemma quiet_refl [simp]: "quiet x t d d"
  by (auto simp: quiet_def)

lemma quiet_trans:
  assumes "quiet x t a b" "quiet x t b c" shows "quiet x t a c"
proof -
  have "\<exists>r \<in> set (db_routes a). rt_index r = rt_index r' \<and> route_live r"
    if "r' \<in> set (db_routes c)" "route_live r'" for r'
    using assms that unfolding quiet_def by metis
  moreover have "\<exists>g \<in> set (db_grants a). gr_redemption g = Some x \<and> gr_index g = gr_index g'"
    if "g' \<in> set (db_grants c)" "gr_redemption g' = Some x" for g'
    using assms that unfolding quiet_def by metis
  moreover have "\<exists>g \<in> set (db_grants a). gr_current g = gr_current g' \<and> gr_redemption g = None"
    if "g' \<in> set (db_grants c)" "gr_current g' \<in> t" "g' \<notin> set (db_grants a)" for g'
    using assms that unfolding quiet_def by metis
  moreover have "live_routes c \<le> live_routes a" using assms le_trans unfolding quiet_def by blast
  moreover have "tables_ok a \<longrightarrow> tables_ok c" using assms unfolding quiet_def by blast
  moreover have "db_replay c = db_replay a" "db_nonces c = db_nonces a" "db_nonce_max c = db_nonce_max a"
    using assms by (simp_all add: quiet_def)
  ultimately show ?thesis unfolding quiet_def by blast
qed

definition quiet_statement :: "string \<Rightarrow> string set \<Rightarrow> database statement \<Rightarrow> bool" where
  "quiet_statement x t s \<longleftrightarrow> (\<forall>d n d'. s d = Some (n, d') \<longrightarrow> quiet x t d d')"

lemma quiet_statementI: "(\<And>d n d'. s d = Some (n, d') \<Longrightarrow> quiet x t d d') \<Longrightarrow> quiet_statement x t s"
  by (simp add: quiet_statement_def)

lemma quiet_batch: "list_all (quiet_statement x t) ss \<Longrightarrow> run_batch ss d = Some (ns, d') \<Longrightarrow> quiet x t d d'"
proof (induction ss arbitrary: d ns)
  case (Cons s ss)
  from Cons.prems(2) obtain n d1 ms where "s d = Some (n, d1)" "run_batch ss d1 = Some (ms, d')"
    by (auto split: option.splits)
  moreover from this Cons have "quiet x t d d1" "quiet x t d1 d'" by (auto simp: quiet_statement_def)
  ultimately show ?case using quiet_trans by blast
qed simp

text \<open>The invariant when rows leave a table or change without their keys.\<close>

lemma tables_grants:
  assumes "tables_ok d" "set gs \<subseteq> set (db_grants d)" "distinct (map gr_current gs)" "distinct (redemptions gs)"
  shows "tables_ok (d\<lparr>db_grants := gs\<rparr>)"
  using assms by (auto simp: tables_ok_def live_routes_def owner_receipts_def owner_live_def list_all_iff)

lemma quiet_delete_grants: "quiet_statement x t (delete_grants P)"
proof (rule quiet_statementI)
  fix d n d' assume "delete_grants P d = Some (n, d')"
  then have d': "d' = d\<lparr>db_grants := filter (\<lambda>g. \<not> P g) (db_grants d)\<rparr>" by (simp add: delete_grants_def)
  have "tables_ok d \<Longrightarrow> tables_ok d'"
    unfolding d' by (intro tables_grants) (auto simp: tables_ok_def distinct_map_filter distinct_redemptions_filter)
  then show "quiet x t d d'" by (auto simp: quiet_def d' live_routes_def)
qed

lemma quiet_update_routes:
  assumes "\<And>r. route_live (f r) \<Longrightarrow> P r \<Longrightarrow> route_live r"
  shows "quiet_statement x t (update_routes P f)"
proof (rule quiet_statementI)
  fix d n d' assume "update_routes P f d = Some (n, d')"
  then have d': "d' = d\<lparr>db_routes := update_where P f (db_routes d)\<rparr>"
    and upd: "\<And>r. r \<in> set (db_routes d) \<Longrightarrow> P r \<Longrightarrow> route_update_ok r (f r)"
    by (auto simp: update_routes_def list_ex_iff split: if_splits)
  have keys: "map rt_index (db_routes d') = map rt_index (db_routes d)" "map route_key (db_routes d') = map route_key (db_routes d)"
    unfolding d' using upd by (auto intro!: map_update_where simp: route_update_ok_def)
  have less: "count (\<lambda>r. Q r \<and> route_live r) (db_routes d') \<le> count (\<lambda>r. Q r \<and> route_live r) (db_routes d)"
    if "\<And>a b. route_key a = route_key b \<Longrightarrow> Q a \<longleftrightarrow> Q b" for Q
    unfolding d'
  proof (simp, rule count_update_where_le)
    fix r assume "r \<in> set (db_routes d)" "P r" "Q (f r) \<and> route_live (f r)"
    with upd[of r] assms[of r] that[of "f r" r] show "Q r \<and> route_live r" by (simp add: route_update_ok_def)
  qed
  have live: "live_routes d' \<le> live_routes d" using less[of "\<lambda>_. True"] by (simp add: live_routes_def)
  have owner: "owner_live p s d' \<le> owner_live p s d" for p s
    using less[of "owned_by p s"] by (simp add: owner_live_def route_key_def)
  have "tables_ok d'" if ok: "tables_ok d"
  proof -
    have "rt_index ` set (db_routes d') = rt_index ` set (db_routes d)" using arg_cong[OF keys(1), of set] by simp
    moreover have "list_all route_row_ok (db_routes d')"
      using ok upd by (auto simp: tables_ok_def d' list_all_iff set_update_where route_update_ok_def)
    moreover have "owner_receipts p s d + owner_live p s d' \<le> 4096" for p s
      using ok owner[of p s] by (metis (no_types, lifting) tables_ok_def add_left_mono le_trans)
    ultimately show ?thesis
      using ok keys live by (simp add: tables_ok_def) (simp add: d' owner_receipts_def)
  qed
  moreover have "\<exists>r \<in> set (db_routes d). rt_index r = rt_index r' \<and> route_live r"
    if "r' \<in> set (db_routes d')" "route_live r'" for r'
    using that assms upd by (auto simp: d' set_update_where route_update_ok_def split: if_splits)
  ultimately show "quiet x t d d'" using live by (auto simp: quiet_def d')
qed

lemma quiet_expire:
  "quiet_statement x t (update_routes P (expire_row now))" "quiet_statement x t (expire_observed now P)"
  "quiet_statement x t (\<lambda>d. expire_observed now (F d) d)"
  "quiet_statement x t (\<lambda>d. update_routes (G d) (expire_row now) d)"
proof -
  have q: "quiet_statement x t (update_routes P (expire_row now))" for P
    by (rule quiet_update_routes) (simp add: expire_row_def route_live_def)
  then show "quiet_statement x t (update_routes P (expire_row now))" .
  show "quiet_statement x t (expire_observed now P)" unfolding expire_observed_def by (rule q)
  show "quiet_statement x t (\<lambda>d. expire_observed now (F d) d)" "quiet_statement x t (\<lambda>d. update_routes (G d) (expire_row now) d)"
    using q by (simp_all add: quiet_statement_def expire_observed_def)
qed

lemma quiet_delete_receipts: "quiet_statement x t (delete_receipts P)"
proof (rule quiet_statementI)
  fix d n d' assume "delete_receipts P d = Some (n, d')"
  then have d': "d' = d\<lparr>db_receipts := filter (\<lambda>r. \<not> P r) (db_receipts d)\<rparr>" by (simp add: delete_receipts_def)
  have "tables_ok d'" if ok: "tables_ok d"
  proof -
    have "length (db_receipts d') \<le> length (db_receipts d)" by (simp add: d' length_filter_le)
    then have "length (db_receipts d') + live_routes d \<le> 65536" using ok by (simp add: tables_ok_def)
    moreover have "owner_receipts p s d' + owner_live p s d \<le> 4096" for p s
    proof -
      have "owner_receipts p s d' \<le> owner_receipts p s d" by (simp add: owner_receipts_def d' count_filter_le)
      with ok show ?thesis by (metis (no_types, lifting) tables_ok_def add_right_mono le_trans)
    qed
    moreover have "live_routes d' = live_routes d" "owner_live p s d' = owner_live p s d" for p s
      by (simp_all add: d' live_routes_def owner_live_def)
    ultimately show ?thesis
      using ok by (simp add: tables_ok_def) (simp add: d' distinct_map_filter)
  qed
  then show "quiet x t d d'" by (auto simp: quiet_def d' live_routes_def)
qed

lemma quiet_delete_routes: "quiet_statement x t (delete_routes P)"
proof (rule quiet_statementI)
  fix d n d' assume "delete_routes P d = Some (n, d')"
  then have d': "d' = d\<lparr>db_routes := filter (\<lambda>r. \<not> P r) (db_routes d),
      db_grants := filter (\<lambda>g. gr_index g \<notin> set (map rt_index (filter P (db_routes d)))) (db_grants d)\<rparr>"
    by (simp add: delete_routes_def Let_def)
  have live: "live_routes d' \<le> live_routes d" by (simp add: live_routes_def d' count_filter_le)
  have "tables_ok d'" if ok: "tables_ok d"
  proof -
    have "owner_receipts p s d + owner_live p s d' \<le> 4096" for p s
    proof -
      have "owner_live p s d' \<le> owner_live p s d" by (simp add: owner_live_def d' count_filter_le)
      with ok show ?thesis by (metis (no_types, lifting) tables_ok_def add_left_mono le_trans)
    qed
    moreover have "gr_index g \<in> rt_index ` set (db_routes d')" if g: "g \<in> set (db_grants d')" for g
    proof -
      from g ok obtain r where "r \<in> set (db_routes d)" "gr_index g = rt_index r" by (auto simp: d' tables_ok_def)
      with g show ?thesis by (auto simp: d')
    qed
    ultimately show ?thesis
      using ok live
      by (simp add: tables_ok_def)
        (simp add: d' owner_receipts_def distinct_map_filter distinct_redemptions_filter list_all_iff)
  qed
  then show "quiet x t d d'" using live by (auto simp: quiet_def d')
qed

lemma new_grant_unredeemed [simp]: "gr_redemption (new_grant now gen nonce tags r) = None"
  by (simp add: new_grant_def)

lemma new_grant_tag [simp]: "gr_current (new_grant now gen nonce tags r) = fst tags"
  by (simp add: new_grant_def)

lemma quiet_insert_grant: "gr_redemption g = None \<Longrightarrow> gr_current g \<notin> t \<Longrightarrow> insert_grant g d = Some (n, d') \<Longrightarrow> quiet x t d d'"
  by (auto simp: quiet_def insert_grant_def Let_def tables_ok_def live_routes_def owner_receipts_def owner_live_def
      split: if_splits)

lemma quiet_insert_issued: "fst tags \<notin> t \<Longrightarrow> quiet_statement x t (insert_issued index nonce tags gen now fr)"
  by (rule quiet_statementI)
    (auto simp: insert_issued_def intro!: quiet_insert_grant[of "new_grant now gen nonce tags r" for r] split: option.splits)

lemma quiet_redeem_update:
  assumes "y \<noteq> x" "\<And>d g. F d g \<Longrightarrow> gr_redemption g = None"
  shows "quiet_statement x t (\<lambda>d. update_grants (F d) (\<lambda>g. g\<lparr>gr_redemption := Some y\<rparr>) d)"
proof (rule quiet_statementI)
  fix d n d' assume "update_grants (F d) (\<lambda>g. g\<lparr>gr_redemption := Some y\<rparr>) d = Some (n, d')"
  then have d': "d' = d\<lparr>db_grants := update_where (F d) (\<lambda>g. g\<lparr>gr_redemption := Some y\<rparr>) (db_grants d)\<rparr>"
    and ok: "list_all grant_row_ok (db_grants d')" "distinct (redemptions (db_grants d'))"
    by (auto simp: update_grants_def Let_def split: if_splits)
  have "map gr_current (db_grants d') = map gr_current (db_grants d)" by (simp add: d' map_update_where)
  moreover have "gr_index ` set (db_grants d') = gr_index ` set (db_grants d)"
  proof -
    have "map gr_index (db_grants d') = map gr_index (db_grants d)" by (simp add: d' map_update_where)
    from arg_cong[OF this, of set] show ?thesis by simp
  qed
  then have "(\<forall>g \<in> set (db_grants d'). gr_index g \<in> I) \<longleftrightarrow> (\<forall>g \<in> set (db_grants d). gr_index g \<in> I)" for I
    by (metis (no_types, lifting) imageE imageI)
  ultimately have "tables_ok d \<Longrightarrow> tables_ok d'"
    using ok by (simp add: tables_ok_def) (simp add: d' live_routes_def owner_receipts_def owner_live_def)
  moreover have "\<exists>g \<in> set (db_grants d). gr_redemption g = Some x \<and> gr_index g = gr_index g'"
    if "g' \<in> set (db_grants d')" "gr_redemption g' = Some x" for g'
    using that assms by (auto simp: d' set_update_where split: if_splits)
  moreover have "\<exists>g \<in> set (db_grants d). gr_current g = gr_current g' \<and> gr_redemption g = None"
    if "g' \<in> set (db_grants d')" "g' \<notin> set (db_grants d)" for g'
    using that assms(2) by (auto simp: d' set_update_where split: if_splits)
  ultimately show "quiet x t d d'" by (auto simp: quiet_def d' live_routes_def)
qed

lemma quiet_batch_result:
  "list_all (quiet_statement x t) ss \<Longrightarrow> quiet x t d (case run_batch ss d of None \<Rightarrow> d | Some (ns, d') \<Rightarrow> d')"
  by (auto simp: quiet_batch split: option.split)

lemma quiet_cleanup: "quiet x t d (snd (cleanupAccessState now d))"
proof -
  have del: "quiet_statement x t (\<lambda>d. delete_grants (F d) d)" "quiet_statement x t (\<lambda>d. delete_receipts (G d) d)"
      "quiet_statement x t (\<lambda>d. delete_routes (H d) d)" for F G H
    using quiet_delete_grants quiet_delete_receipts quiet_delete_routes by (auto simp: quiet_statement_def)
  have "list_all (quiet_statement x t) (cleanup_statements now)"
    by (simp add: cleanup_statements_def Let_def quiet_expire(4) del)
  moreover have "snd (cleanupAccessState now d) =
      (case run_batch (cleanup_statements now) d of None \<Rightarrow> d | Some (ns, d') \<Rightarrow> d')"
    by (simp add: cleanupAccessState_def split: option.split)
  ultimately show ?thesis using quiet_batch_result by metis
qed

lemma quiet_issue: "fst tags \<notin> t \<Longrightarrow> quiet x t d (snd (issueAccessGrant index nonce tags gen now fr d))"
proof -
  assume tags: "fst tags \<notin> t"
  let ?ss = "[delete_expired_grants now, expire_observed now (\<lambda>r. rt_index r = index),
      insert_issued index nonce tags gen now fr]"
  have "quiet_statement x t (delete_expired_grants now)"
    using quiet_delete_grants by (auto simp: quiet_statement_def delete_expired_grants_def Let_def)
  then have "list_all (quiet_statement x t) ?ss" by (simp add: quiet_expire(2) quiet_insert_issued[OF tags])
  moreover have "snd (issueAccessGrant index nonce tags gen now fr d) =
      (case run_batch ?ss d of None \<Rightarrow> d | Some (ns, d') \<Rightarrow> d')"
    unfolding issueAccessGrant_def by (simp only: split: option.split prod.split) simp
  ultimately show ?thesis using quiet_batch_result by metis
qed

lemma quiet_redeem: "y \<noteq> x \<Longrightarrow> quiet x t d (snd (redeemAccessGrant profile server gen nonce tags y now fr d))"
proof -
  let ?ss = "redeem_statements profile server gen nonce tags y now fr"
  assume "y \<noteq> x"
  then have "list_all (quiet_statement x t) ?ss"
    by (auto simp: redeem_statements_def quiet_expire(3) quiet_delete_grants intro!: quiet_redeem_update)
        (simp add: redeemable_def)
  moreover have "snd (redeemAccessGrant profile server gen nonce tags y now fr d) =
      (case run_batch ?ss d of None \<Rightarrow> d | Some (ns, d') \<Rightarrow> d')"
    unfolding redeemAccessGrant_def by (simp split: option.split prod.split)
  ultimately show ?thesis using quiet_batch_result by metis
qed

lemma quiet_budget: "quiet x t d (snd (consumeAccessBudget profile server s now d))"
proof -
  let ?ss = "[cleanup_budgets now, upsert_budget profile server s now]"
  have frame: "quiet x t d (d\<lparr>db_budgets := b\<rparr>)" for d b
    by (auto simp: quiet_def tables_ok_def live_routes_def owner_receipts_def owner_live_def)
  have "list_all (quiet_statement x t) ?ss"
    by (auto simp: quiet_statement_def cleanup_budgets_def upsert_budget_def Let_def frame split: if_splits)
  moreover have "snd (consumeAccessBudget profile server s now d) =
      (case run_batch ?ss d of None \<Rightarrow> d | Some (ns, d') \<Rightarrow> d')"
    unfolding consumeAccessBudget_def by (simp only: split: option.split prod.split) simp
  ultimately show ?thesis using quiet_batch_result by metis
qed

subsection \<open>Runs of the database\<close>

text \<open>
  One operation on the database. The identifier \<open>x\<close> is not drawn again for a redemption and
  the tags \<open>t\<close> not for a grant: both stand for 256 random bits. \<open>elsewhere\<close> is any
  transaction that leaves the access tables alone (publication, maintenance, operators).
\<close>

inductive access_step :: "string \<Rightarrow> string set \<Rightarrow> database \<Rightarrow> database \<Rightarrow> bool" for x :: string and t :: "string set" where
  mutation: "mutation_ok m k now \<Longrightarrow> fresh_commit (ms_commit k) d \<Longrightarrow>
     access_step x t d (snd (mutateAccessRoute m k now fr d))"
| retention: "access_step x t d (snd (cleanupAccessState now d))"
| issue: "fst tags \<notin> t \<Longrightarrow> snd tags \<notin> t \<Longrightarrow>
     access_step x t d (snd (issueAccessGrant index nonce tags gen now fr d))"
| redeem: "y \<noteq> x \<Longrightarrow> access_step x t d (snd (redeemAccessGrant profile server gen nonce tags y now fr d))"
| observe: "expire_observed now P d = Some (n, d') \<Longrightarrow> access_step x t d d'"
| budget: "access_step x t d (snd (consumeAccessBudget profile server s now d))"
| elsewhere: "db_routes d' = db_routes d \<Longrightarrow> db_receipts d' = db_receipts d \<Longrightarrow> db_grants d' = db_grants d \<Longrightarrow>
     nonces_ok d' \<Longrightarrow> access_step x t d d'"

inductive_cases access_step_cases: "access_step x t d d'"

text \<open>A redemption that no live route backs.\<close>

definition dead :: "string \<Rightarrow> database \<Rightarrow> bool" where
  "dead x d \<longleftrightarrow>
     (\<forall>g \<in> set (db_grants d). \<forall>r \<in> set (db_routes d).
        gr_redemption g = Some x \<and> rt_index r = gr_index g \<longrightarrow> \<not> route_live r)"

lemma dead_not_live: "dead x d \<Longrightarrow> \<not> isAccessRedemptionLive x gen now fr d"
  by (auto simp: dead_def isAccessRedemptionLive_def list_ex_iff current_target_def unexpired_route_def route_live_def)

lemma quiet_access_ok: "quiet x t d d' \<Longrightarrow> access_ok d \<Longrightarrow> access_ok d'"
  by (auto simp: quiet_def access_ok_def nonces_ok_def)

text \<open>A grant that is still what it was, or gone.\<close>

definition sealed :: "grant_row \<Rightarrow> database \<Rightarrow> bool" where
  "sealed g d \<longleftrightarrow> (\<forall>g' \<in> set (db_grants d). gr_current g' = gr_current g \<longrightarrow> g' = g)"

lemma sealed_stored: "tables_ok d \<Longrightarrow> g \<in> set (db_grants d) \<Longrightarrow> sealed g d"
  by (auto simp: sealed_def tables_ok_def distinct_map inj_on_def)

lemma quiet_sealed:
  assumes "quiet x t d d'" "sealed g d" "gr_current g \<in> t" "gr_redemption g \<noteq> None" shows "sealed g d'"
  unfolding sealed_def
proof (intro ballI impI)
  fix g' assume a: "g' \<in> set (db_grants d')" "gr_current g' = gr_current g"
  with assms(3) have "gr_current g' \<in> t" by simp
  show "g' = g"
  proof (cases "g' \<in> set (db_grants d)")
    case True
    with a assms(2) show ?thesis by (simp add: sealed_def)
  next
    case False
    with assms(1) a \<open>gr_current g' \<in> t\<close> obtain g0 where
      "g0 \<in> set (db_grants d)" "gr_current g0 = gr_current g'" "gr_redemption g0 = None" unfolding quiet_def by metis
    with assms(2,4) a(2) show ?thesis by (auto simp: sealed_def)
  qed
qed

lemma quiet_dead:
  assumes "quiet x t d d'" "dead x d" shows "dead x d'"
  unfolding dead_def
proof (intro ballI impI notI)
  fix g r assume a: "g \<in> set (db_grants d')" "r \<in> set (db_routes d')"
    "gr_redemption g = Some x \<and> rt_index r = gr_index g" "route_live r"
  with assms(1) obtain g0 r0 where "g0 \<in> set (db_grants d)" "gr_redemption g0 = Some x" "gr_index g0 = gr_index g"
    "r0 \<in> set (db_routes d)" "rt_index r0 = rt_index r" "route_live r0"
    unfolding quiet_def by metis
  with assms(2) a(3) show False by (auto simp: dead_def)
qed

lemma route_effect_live:
  assumes ok: "tables_ok d" and out: "decide_route p now fr d = out"
    and r: "r' \<in> set (route_effect p h now out (db_routes d))" "route_live r'"
  shows "(\<exists>r \<in> set (db_routes d). rt_index r = rt_index r' \<and> route_live r) \<or> rt_index r' \<notin> rt_index ` set (db_routes d)"
proof (cases out)
  case OutReserved
  with decide_facts(1)[OF out OutReserved] r show ?thesis
    by (auto simp: route_effect_def new_route_def route_at_None)
next
  case OutActive
  obtain a where a: "route_at p d = Some a" "rt_state a = RouteReserved" using decide_facts(2)[OF out OutActive] by auto
  from r OutActive obtain b where b: "b \<in> set (db_routes d)" "rt_index r' = rt_index b" "r' = b \<or> rt_index b = ap_index p"
    by (auto simp: route_effect_def set_update_where split: if_splits)
  show ?thesis
  proof (cases "rt_index b = ap_index p")
    case True
    with route_at_Some[OF a(1)] a(2) b(2) show ?thesis by (metis insert_iff route_live_def)
  next
    case False
    with b r(2) show ?thesis by auto
  qed
next
  case OutRevoked
  with r show ?thesis
    by (auto simp: route_effect_def set_update_where revoke_row_def new_route_def route_live_def split: if_splits)
next
  case OutExpired
  with r show ?thesis
    by (auto simp: route_effect_def set_update_where expire_row_def route_live_def split: if_splits)
qed (use r in \<open>auto simp: route_effect_def\<close>)

lemma decided_routes:
  assumes "tables_ok d" "r' \<in> set (db_routes (decided m k now fr d))" "route_live r'"
  shows "(\<exists>r \<in> set (db_routes d). rt_index r = rt_index r' \<and> route_live r) \<or> rt_index r' \<notin> rt_index ` set (db_routes d)"
  using assms(2,3) route_effect_live[OF assms(1) refl, of r' "sm_payload m" "ms_handle k" now fr]
  by (auto simp: decided_def Let_def split: if_splits)

lemma decided_grants: "set (db_grants (decided m k now fr d)) \<subseteq> set (db_grants d)"
  by (auto simp: decided_def Let_def grant_effect_def)

lemma decided_dead:
  assumes ok: "tables_ok d" and "dead x d" shows "dead x (decided m k now fr d)"
  unfolding dead_def
proof (intro ballI impI notI)
  fix g r assume a: "g \<in> set (db_grants (decided m k now fr d))" "r \<in> set (db_routes (decided m k now fr d))"
    "gr_redemption g = Some x \<and> rt_index r = gr_index g" "route_live r"
  have g: "g \<in> set (db_grants d)" using a(1) decided_grants by blast
  with ok have "rt_index r \<in> rt_index ` set (db_routes d)" using a(3) by (auto simp: tables_ok_def)
  with decided_routes[OF ok a(2,4)] obtain r0 where "r0 \<in> set (db_routes d)" "rt_index r0 = rt_index r" "route_live r0" by blast
  with assms(2) g a(3) show False by (auto simp: dead_def)
qed

lemma same_access_dead: "same_access d d' \<Longrightarrow> dead x d' = dead x d"
  by (simp add: same_access_def dead_def)

lemma expire_observed_quiet: "expire_observed now P d = Some (n, d') \<Longrightarrow> quiet x t d d'"
  using quiet_expire(2) by (simp add: quiet_statement_def)

lemma access_step_keeps:
  assumes "access_step x t d d'" "access_ok d"
  shows "access_ok d'" "dead x d \<Longrightarrow> dead x d'"
    "gr_current g \<in> t \<Longrightarrow> gr_redemption g \<noteq> None \<Longrightarrow> sealed g d \<Longrightarrow> sealed g d'"
proof -
  let ?goal = "access_ok d' \<and> (dead x d \<longrightarrow> dead x d') \<and>
      (gr_current g \<in> t \<longrightarrow> gr_redemption g \<noteq> None \<longrightarrow> sealed g d \<longrightarrow> sealed g d')"
  have q: ?goal if "quiet x t d d'"
    using quiet_access_ok[OF that assms(2)] quiet_dead[OF that] quiet_sealed[OF that] by blast
  have ?goal
    using assms
  proof (cases rule: access_step.cases)
    case (mutation m k now fr)
    from assms(2) mutation(2,3) show ?thesis
    proof (cases rule: mutate_cases[where fr = fr])
      case (refused d1)
      have "d' = d1" using mutation(1) refused(1) by simp
      moreover have "sealed g d1 = sealed g d" using refused(2) by (simp add: same_access_def sealed_def)
      ultimately show ?thesis using same_access_dead[OF refused(2)] refused(5) by simp
    next
      case (accepted d2)
      have d': "d' = decided m k now fr d2" unfolding mutation(1) accepted(1) by (rule snd_conv)
      have "db_grants d2 = db_grants d" using accepted(2) by (simp add: same_access_def)
      then have "set (db_grants d') \<subseteq> set (db_grants d)"
        using decided_grants[of m k now fr d2] d' by metis
      then have "sealed g d \<longrightarrow> sealed g d'" unfolding sealed_def by blast
      moreover have "dead x d \<longrightarrow> dead x d'"
        unfolding d' using same_access_dead[OF accepted(2)] decided_dead[OF accepted(4)] by blast
      moreover have "access_ok d'" unfolding d' by (rule accepted(3))
      ultimately show ?thesis by blast
    qed
  next
    case (elsewhere)
    then show ?thesis
      using assms(2)
      by (auto simp: access_ok_def tables_ok_def live_routes_def owner_receipts_def owner_live_def dead_def sealed_def)
  next
    case retention
    then show ?thesis by (intro q) (simp add: quiet_cleanup)
  next
    case issue
    then show ?thesis by (intro q) (simp add: quiet_issue)
  next
    case redeem
    then show ?thesis by (intro q) (simp add: quiet_redeem)
  next
    case observe
    then show ?thesis by (intro q) (rule expire_observed_quiet)
  next
    case budget
    then show ?thesis by (intro q) (simp add: quiet_budget)
  qed
  then show "access_ok d'" "dead x d \<Longrightarrow> dead x d'"
    "gr_current g \<in> t \<Longrightarrow> gr_redemption g \<noteq> None \<Longrightarrow> sealed g d \<Longrightarrow> sealed g d'" by blast+
qed

lemma access_steps_keep:
  assumes "(access_step x t)\<^sup>*\<^sup>* d d'" "access_ok d"
  shows "access_ok d' \<and> (dead x d \<longrightarrow> dead x d') \<and>
    (gr_current g \<in> t \<longrightarrow> gr_redemption g \<noteq> None \<longrightarrow> sealed g d \<longrightarrow> sealed g d')"
  using assms by (induction rule: rtranclp_induct) (auto dest: access_step_keeps)

subsection \<open>Accepted mutations\<close>

lemma decided_revokes:
  assumes ok: "tables_ok d" and "ap_operation (sm_payload m) = Revoke" "\<not> has_receipt (sm_payload m) d"
    and "r \<in> set (db_routes d)" "names_route (sm_payload m) r" "route_live r"
  shows "decided m k now fr d = d\<lparr>db_receipts := db_receipts d @ [receipt_for m k now fr d],
      db_routes := update_where (\<lambda>r. rt_index r = ap_index (sm_payload m)) (revoke_row (sm_payload m) now) (db_routes d),
      db_grants := filter (\<lambda>g. gr_index g \<noteq> ap_index (sm_payload m)) (db_grants d)\<rparr> \<and>
    rc_outcome (receipt_for m k now fr d) = OutRevoked"
proof -
  note out = revoke_live_decided[OF ok assms(2,4-6), of now fr]
  have "receipt_room (sm_payload m) OutRevoked d" using ok out by (simp add: receipt_room_def tables_ok_def)
  moreover have "ap_index (sm_payload m) \<in> rt_index ` set (db_routes d)" using out route_at_None by (metis option.distinct(1))
  ultimately show ?thesis
    using out assms(2,3) by (simp add: decided_def Let_def route_effect_def grant_effect_def receipt_for_def)
qed

lemma receipt_at_new:
  assumes "\<not> has_receipt (sm_payload m) d" "db_receipts d' = db_receipts d @ [receipt_for m k now fr d]"
  shows "receipt_at (sm_payload m) d' = Some (receipt_for m k now fr d)"
proof -
  have "find P xs = None \<Longrightarrow> P y \<Longrightarrow> find P (xs @ [y]) = Some y" for P xs and y :: receipt_row
    by (induction xs) auto
  moreover have "find (\<lambda>r. rc_profile r = ap_profile (sm_payload m) \<and> rc_server r = ap_server (sm_payload m) \<and>
      rc_request r = ap_request (sm_payload m)) (db_receipts d) = None"
    using assms(1) by (auto simp: has_receipt_def list_ex_iff find_None_iff)
  ultimately show ?thesis by (simp add: receipt_at_def assms(2) receipt_for_def Let_def)
qed

lemma has_receipt_same: "same_access a b \<Longrightarrow> has_receipt p b = has_receipt p a"
  by (rule same_access_frame)

text \<open>A signature that advances the replay row is accepted unless the nonce tables are full.\<close>

lemma accepted_if:
  assumes ok: "access_ok d" and m: "mutation_ok m k now" and fresh: "fresh_commit (ms_commit k) d"
    and row: "q \<in> set (db_replay d)" "replay_of (sm_payload m) q" "sql_newer (sm_sequence m) (rp_sequence q)"
    and nonce: "\<not> nonce_seen m d" and cap: "nonce_growth (sm_payload m) d = 0"
  shows "\<exists>d2. mutateAccessRoute m k now fr d = (Inr (route_answer m k (decided m k now fr d2)), decided m k now fr d2) \<and>
      same_access d d2 \<and> access_ok (decided m k now fr d2) \<and> tables_ok d2"
  using ok m fresh
proof (cases rule: mutate_cases[where fr = fr])
  case (refused d')
  have "\<not> nonce_seen m d'" using nonce refused(4) by (auto simp: nonce_seen_def list_ex_iff)
  moreover have "nonce_growth (sm_payload m) d' = 0" using cap same_access_frame[OF refused(2)] by simp
  ultimately have "advance_ok m d' q" using row by (simp add: advance_ok_def publisherNonceCapacity_def)
  with refused(6) row(1) show ?thesis by (simp add: count_zero_iff)
qed blast


subsection \<open>Budgets over time\<close>

definition budgets_ok :: "database \<Rightarrow> bool" where
  "budgets_ok d \<longleftrightarrow>
     distinct (map budget_key (db_budgets d)) \<and>
     (\<forall>b \<in> set (db_budgets d). bd_expires b = bd_start b + budget_duration (bd_scope b) \<and>
        0 \<le> bd_count b \<and> bd_count b \<le> budget_limit (bd_scope b))"

type_synonym budget_call = "access_profile \<times> string \<times> budget_scope \<times> int"

text \<open>Which calls of a sequence are granted.\<close>

fun granted_calls :: "budget_call list \<Rightarrow> database \<Rightarrow> budget_call list" where
  "granted_calls [] d = []"
| "granted_calls ((p, sv, s, now) # cs) d =
     (case consumeAccessBudget p sv s now d of
        (Inr _, d') \<Rightarrow> (p, sv, s, now) # granted_calls cs d'
      | (Inl _, d') \<Rightarrow> granted_calls cs d')"

definition in_window :: "access_profile \<times> string \<times> budget_scope \<Rightarrow> int \<Rightarrow> budget_call \<Rightarrow> bool" where
  "in_window key w c \<longleftrightarrow> (case c of (p, sv, s, now) \<Rightarrow> (p, sv, s) = key \<and> budget_start s now = w)"

definition spent :: "access_profile \<times> string \<times> budget_scope \<Rightarrow> int \<Rightarrow> database \<Rightarrow> int" where
  "spent key w d =
     (case find (\<lambda>b. budget_key b = key) (db_budgets d) of
        None \<Rightarrow> 0
      | Some b \<Rightarrow> if bd_start b = w then bd_count b else if bd_start b > w then budget_limit (bd_scope b) else 0)"

lemma budget_duration_pos: "0 < budget_duration s"
  by (cases s) simp_all

lemma budget_start_bounds: "budget_start s now \<le> now" "now < budget_start s now + budget_duration s"
  using budget_duration_pos[of s] pos_mod_bound[of "budget_duration s" now]
  by (simp_all add: budget_start_def minus_mod_eq_div_mult[symmetric])

lemma find_filter_keys:
  "find (\<lambda>b. k b = key) (filter (\<lambda>b. k b \<notin> ks) xs) = (if key \<in> ks then None else find (\<lambda>b. k b = key) xs)"
  by (induction xs) auto

lemma find_update_where:
  "(\<And>b. k (f b) = k b) \<Longrightarrow>
   find (\<lambda>b. k b = key) (update_where P f xs) = map_option (\<lambda>b. if P b then f b else b) (find (\<lambda>b. k b = key) xs)"
  by (induction xs) auto

lemma find_append_one:
  "find P (xs @ [y]) = (case find P xs of None \<Rightarrow> if P y then Some y else None | Some x \<Rightarrow> Some x)"
  by (induction xs) auto

lemma spent_bounds:
  assumes "budgets_ok d" shows "0 \<le> spent (p, sv, s) w d" "spent (p, sv, s) w d \<le> budget_limit s"
proof -
  have "0 \<le> spent (p, sv, s) w d \<and> spent (p, sv, s) w d \<le> budget_limit s"
  proof (cases "find (\<lambda>b. budget_key b = (p, sv, s)) (db_budgets d)")
    case None
    then show ?thesis by (cases s) (simp_all add: spent_def)
  next
    case (Some b)
    then have "b \<in> set (db_budgets d)" "bd_scope b = s" by (auto simp: find_Some_iff budget_key_def)
    with assms Some show ?thesis by (cases s) (auto simp: spent_def budgets_ok_def)
  qed
  then show "0 \<le> spent (p, sv, s) w d" "spent (p, sv, s) w d \<le> budget_limit s" by blast+
qed

lemma cleanup_budgets_run:
  assumes ok: "budgets_ok d"
  shows "\<exists>n d1. cleanup_budgets now d = Some (n, d1) \<and> budgets_ok d1 \<and>
    (\<forall>p sv s w. now < w + budget_duration s \<longrightarrow> spent (p, sv, s) w d \<le> spent (p, sv, s) w d1)"
proof -
  let ?ks = "first_keys 256 budget_key (\<lambda>b. bd_expires b \<le> now) (db_budgets d)"
  let ?d1 = "d\<lparr>db_budgets := filter (\<lambda>b. budget_key b \<notin> set ?ks) (db_budgets d)\<rparr>"
  have ok1: "budgets_ok ?d1" using ok by (auto simp: budgets_ok_def distinct_map_filter)
  have "spent (p, sv, s) w d \<le> spent (p, sv, s) w ?d1" if "now < w + budget_duration s" for p sv s w
  proof (cases "(p, sv, s) \<in> set ?ks")
    case False
    then show ?thesis by (simp add: spent_def find_filter_keys)
  next
    case True
    have "spent (p, sv, s) w d = 0"
    proof (cases "find (\<lambda>b. budget_key b = (p, sv, s)) (db_budgets d)")
      case (Some b)
      then have b: "b \<in> set (db_budgets d)" "budget_key b = (p, sv, s)" by (auto simp: find_Some_iff)
      have "bd_expires b \<le> now"
        by (rule first_keys_selects[of budget_key "db_budgets d" b 256]) (use ok b True in \<open>auto simp: budgets_ok_def\<close>)
      with ok b that have "bd_start b < w" by (auto simp: budgets_ok_def budget_key_def)
      with Some show ?thesis by (simp add: spent_def)
    qed (simp add: spent_def)
    then show ?thesis using spent_bounds(1)[OF ok1] by simp
  qed
  with ok1 show ?thesis by (auto simp: cleanup_budgets_def Let_def)
qed

lemma upsert_budget_run:
  assumes ok: "budgets_ok d" and run: "upsert_budget p0 sv0 s0 now d = Some (n, d1)"
  shows "budgets_ok d1 \<and>
    spent (p, sv, s) w d + (if n = 1 \<and> in_window (p, sv, s) w (p0, sv0, s0, now) then 1 else 0) \<le> spent (p, sv, s) w d1"
proof -
  let ?start = "budget_start s0 now" and ?key = "(p0, sv0, s0)"
  let ?row = "\<lparr>bd_profile = p0, bd_server = sv0, bd_scope = s0, bd_start = ?start,
      bd_expires = ?start + budget_duration s0, bd_count = 1\<rparr>"
  let ?mine = "\<lambda>b. budget_key b = ?key"
  let ?counted = "\<lambda>b. ?mine b \<and> (bd_start b < ?start \<or> bd_start b = ?start \<and> bd_count b < budget_limit s0)"
  let ?f = "count_request ?start (budget_duration s0)"
  have lim: "1 \<le> budget_limit s0" by (cases s0) simp_all
  show ?thesis
  proof (cases "list_ex ?mine (db_budgets d)")
    case False
    then have none: "find ?mine (db_budgets d) = None" by (auto simp: list_ex_iff find_None_iff)
    from run False have d1: "d1 = d\<lparr>db_budgets := db_budgets d @ [?row]\<rparr>"
      by (auto simp: upsert_budget_def Let_def split: if_splits)
    have "budgets_ok d1"
      using ok False lim by (auto simp: budgets_ok_def d1 list_ex_iff budget_key_def)
    moreover have "spent (p, sv, s) w d + (if n = 1 \<and> in_window (p, sv, s) w (p0, sv0, s0, now) then 1 else 0) \<le> spent (p, sv, s) w d1"
    proof (cases "(p, sv, s) = ?key")
      case True
      with none lim show ?thesis
        by (auto simp: spent_def d1 find_append_one budget_key_def in_window_def)
    next
      case other: False
      then have "in_window (p, sv, s) w (p0, sv0, s0, now) = False" by (auto simp: in_window_def)
      moreover have "budget_key ?row \<noteq> (p, sv, s)" using other by (auto simp: budget_key_def)
      then have "spent (p, sv, s) w d1 = spent (p, sv, s) w d"
        by (simp add: spent_def d1 find_append_one split: option.split)
      ultimately show ?thesis by simp
    qed
    ultimately show ?thesis ..
  next
    case True
    let ?rows = "update_where ?counted ?f (db_budgets d)"
    from run True have d1: "d1 = d\<lparr>db_budgets := ?rows\<rparr>" and n: "n = count ?counted (db_budgets d)"
      by (auto simp: upsert_budget_def Let_def split: if_splits)
    have keyf: "budget_key (?f b) = budget_key b" for b by (simp add: count_request_def budget_key_def)
    have keys: "map budget_key ?rows = map budget_key (db_budgets d)" by (rule map_update_where) (simp add: keyf)
    have ok1: "budgets_ok d1"
      using ok keys lim
      by (auto simp: budgets_ok_def d1 set_update_where count_request_def budget_key_def)
    have look: "find (\<lambda>b. budget_key b = key) ?rows =
        map_option (\<lambda>b. if ?counted b then ?f b else b) (find (\<lambda>b. budget_key b = key) (db_budgets d))" for key
      by (rule find_update_where) (rule keyf)
    have "spent (p, sv, s) w d + (if n = 1 \<and> in_window (p, sv, s) w (p0, sv0, s0, now) then 1 else 0) \<le> spent (p, sv, s) w d1"
    proof (cases "(p, sv, s) = ?key")
      case False
      then have "in_window (p, sv, s) w (p0, sv0, s0, now) = False" by (auto simp: in_window_def)
      moreover have "find (\<lambda>b. budget_key b = (p, sv, s)) ?rows = find (\<lambda>b. budget_key b = (p, sv, s)) (db_budgets d)"
      proof (cases "find (\<lambda>b. budget_key b = (p, sv, s)) (db_budgets d)")
        case (Some b)
        then have "budget_key b = (p, sv, s)" by (auto simp: find_Some_iff)
        with Some False look[of "(p, sv, s)"] show ?thesis by auto
      qed (simp add: look)
      ultimately show ?thesis by (simp add: spent_def d1)
    next
      case same: True
      obtain b where b: "find ?mine (db_budgets d) = Some b"
        using True by (cases "find ?mine (db_budgets d)") (auto simp: list_ex_iff find_None_iff)
      then have mem: "b \<in> set (db_budgets d)" "budget_key b = ?key" by (auto simp: find_Some_iff)
      have scope: "bd_scope b = s0" using mem by (simp add: budget_key_def)
      have bound: "bd_count b \<le> budget_limit s0" "0 \<le> bd_count b" using ok mem scope by (auto simp: budgets_ok_def)
      have counted: "n = 1 \<Longrightarrow> ?counted b"
      proof (rule ccontr)
        assume "n = 1" "\<not> ?counted b"
        then have "\<forall>y \<in> set (db_budgets d). \<not> ?counted y"
          using ok mem by (auto simp: budgets_ok_def distinct_map inj_on_def)
        with n \<open>n = 1\<close> show False by (simp add: count_zero_iff[THEN iffD2])
      qed
      have s1: "spent (p, sv, s) w d1 = (let b' = if ?counted b then ?f b else b in
          if bd_start b' = w then bd_count b' else if bd_start b' > w then budget_limit s0 else 0)"
        using same b scope by (simp add: spent_def d1 look Let_def count_request_def)
      have s0: "spent (p, sv, s) w d = (if bd_start b = w then bd_count b else if bd_start b > w then budget_limit s0 else 0)"
        using same b scope by (simp add: spent_def)
      show ?thesis
        unfolding s0 s1 using counted bound lim same mem
        by (auto simp: Let_def count_request_def in_window_def)
    qed
    with ok1 show ?thesis ..
  qed
qed


lemma consume_step:
  assumes ok: "budgets_ok d" and run: "consumeAccessBudget p0 sv0 s0 now d = (res, d')" and early: "now < w + budget_duration s"
  shows "budgets_ok d' \<and>
    spent (p, sv, s) w d + (if res = Inr () \<and> in_window (p, sv, s) w (p0, sv0, s0, now) then 1 else 0) \<le> spent (p, sv, s) w d'"
proof -
  obtain n1 d1 where d1: "cleanup_budgets now d = Some (n1, d1)" "budgets_ok d1" "spent (p, sv, s) w d \<le> spent (p, sv, s) w d1"
    using cleanup_budgets_run[OF ok] early by blast
  show ?thesis
  proof (cases "upsert_budget p0 sv0 s0 now d1")
    case None
    with run d1(1) have "res = Inl BudgetUnavailable" "d' = d" by (auto simp: consumeAccessBudget_def)
    with ok show ?thesis by simp
  next
    case (Some r)
    then obtain n d2 where r: "upsert_budget p0 sv0 s0 now d1 = Some (n, d2)" by (cases r) auto
    with run d1(1) have res: "d' = d2" "res = Inr () \<longleftrightarrow> n = 1"
      by (auto simp: consumeAccessBudget_def split: if_splits)
    from upsert_budget_run[OF d1(2) r, of p sv s w] d1(3) show ?thesis unfolding res by auto
  qed
qed

lemma consume_keeps: "budgets_ok d \<Longrightarrow> budgets_ok (snd (consumeAccessBudget p sv s now d))"
  using consume_step[of d p sv s now "fst (consumeAccessBudget p sv s now d)" "snd (consumeAccessBudget p sv s now d)"
      "now + 1" s] budget_duration_pos[of s] by (simp add: add_pos_pos)

lemma granted_subset: "set (granted_calls cs d) \<subseteq> set cs"
proof (induction cs arbitrary: d)
  case (Cons c cs)
  obtain p sv s now where c: "c = (p, sv, s, now)" by (cases c)
  obtain res d' where run: "consumeAccessBudget p sv s now d = (res, d')" by fastforce
  with Cons[of d'] show ?case by (cases res) (auto simp: c)
qed simp

lemma granted_spent:
  "budgets_ok d \<Longrightarrow> sorted (map (\<lambda>(_, _, _, now). now) cs) \<Longrightarrow>
   int (count (in_window (p, sv, s) w) (granted_calls cs d)) + spent (p, sv, s) w d \<le> budget_limit s \<or>
   count (in_window (p, sv, s) w) (granted_calls cs d) = 0"
proof (induction cs arbitrary: d)
  case (Cons c cs)
  obtain p0 sv0 s0 now where c: "c = (p0, sv0, s0, now)" by (cases c)
  obtain res d' where run: "consumeAccessBudget p0 sv0 s0 now d = (res, d')" by fastforce
  show ?case
  proof (cases "now < w + budget_duration s")
    case True
    from consume_step[OF Cons.prems(1) run True, of p sv] have step: "budgets_ok d'"
      "spent (p, sv, s) w d + (if res = Inr () \<and> in_window (p, sv, s) w c then 1 else 0) \<le> spent (p, sv, s) w d'"
      by (simp_all add: c)
    have IH: "int (count (in_window (p, sv, s) w) (granted_calls cs d')) + spent (p, sv, s) w d' \<le> budget_limit s \<or>
        count (in_window (p, sv, s) w) (granted_calls cs d') = 0"
      using Cons.IH[OF step(1)] Cons.prems(2) by simp
    have split: "count (in_window (p, sv, s) w) (granted_calls (c # cs) d) =
        (if res = Inr () \<and> in_window (p, sv, s) w c then 1 else 0) + count (in_window (p, sv, s) w) (granted_calls cs d')"
      by (cases res) (simp_all add: c run)
    from IH step(2) spent_bounds(2)[OF step(1), where p = p and sv = sv and s = s and w = w] show ?thesis unfolding split by (auto split: if_splits)
  next
    case False
    have "\<not> in_window (p, sv, s) w x" if "x \<in> set (c # cs)" for x
    proof -
      obtain a b e t where x: "x = (a, b, e, t)" by (cases x)
      have "now \<le> t" using that Cons.prems(2) by (auto simp: c x)
      with False budget_start_bounds[where s = s and now = t] show ?thesis by (auto simp: in_window_def x)
    qed
    then have "count (in_window (p, sv, s) w) (granted_calls (c # cs) d) = 0"
      using granted_subset[of "c # cs" d] by (auto simp: count_zero_iff)
    then show ?thesis by blast
  qed
qed (simp add: spent_bounds)

end
