(* ===== verification/AccessProperties.thy ===== *)
theory AccessProperties
  imports AccessRuns
begin

text \<open>
  The properties of the access tables over all runs, with a small concrete database on
  which each is applied.
\<close>

subsection \<open>A concrete database\<close>

definition example_route :: route_row where
  "example_route =
     \<lparr>rt_index = replicate 64 (CHR ''b''), rt_profile = ClassicAccess, rt_server = replicate 64 (CHR ''a''),
      rt_token = replicate 32 (CHR ''c''), rt_revision = ''7'', rt_state = RouteActive, rt_expires = None,
      rt_reservation = Some (replicate 32 (CHR ''d'')), rt_until = 160, rt_created = 100, rt_revoked = None\<rparr>"

definition example_grant :: grant_row where
  "example_grant =
     \<lparr>gr_current = replicate 48 (CHR ''p''), gr_previous = replicate 48 (CHR ''q''),
      gr_index = replicate 64 (CHR ''b''), gr_profile = ClassicAccess, gr_server = replicate 64 (CHR ''a''),
      gr_revision = ''7'', gr_generation = replicate 64 (CHR ''e''), gr_nonce = replicate 64 (CHR ''f''),
      gr_expires = 1010, gr_redemption = None\<rparr>"

definition example_presence :: presence_row where
  "example_presence =
     \<lparr>ps_profile = ClassicV3, ps_server = replicate 64 (CHR ''a''), ps_seen = 900, ps_token_hash = replicate 64 (CHR ''3''),
      ps_generation = replicate 64 (CHR ''e''), ps_commit = replicate 64 (CHR ''2''), ps_base = 4, ps_visible = None,
      ps_certificate = Some ''AAAA'', ps_name = Some ''Server'', ps_hostname = None, ps_port = None, ps_access = Some True\<rparr>"

definition example_database :: database where
  "example_database =
     \<lparr>db_replay = [\<lparr>rp_server = replicate 64 (CHR ''a''), rp_profile = ClassicV3, rp_sequence = ''5'',
        rp_nonce = replicate 32 (CHR ''1''), rp_commit = replicate 64 (CHR ''2''), rp_updated = 900\<rparr>],
      db_nonces = [], db_nonce_max = 131072, db_routes = [example_route], db_receipts = [],
      db_grants = [example_grant], db_budgets = [], db_presence = [example_presence], db_denials = []\<rparr>"

definition example_revocation :: signed_mutation where
  "example_revocation =
     \<lparr>sm_payload = \<lparr>ap_profile = ClassicAccess, ap_server = replicate 64 (CHR ''a''), ap_operation = Revoke,
        ap_request = replicate 32 (CHR ''4''), ap_token = replicate 32 (CHR ''c''), ap_revision = ''7'',
        ap_index = replicate 64 (CHR ''b''), ap_reservation = None, ap_expires = None\<rparr>,
      sm_sequence = ''10'', sm_nonce = replicate 32 (CHR ''6''), sm_nonce_expires = 90000\<rparr>"

definition example_secrets :: mutation_secrets where
  "example_secrets =
     \<lparr>ms_commit = replicate 64 (CHR ''8''), ms_handle = replicate 32 (CHR ''8''), ms_digest = replicate 64 (CHR ''0''),
      ms_tuple = replicate 64 (CHR ''0'')\<rparr>"

lemmas example_access_defs = example_database_def example_route_def example_grant_def example_presence_def
  example_revocation_def example_secrets_def

lemma example_access_ok: "access_ok example_database"
proof -
  have "uint64_sequence ''7''"
    by (simp add: uint64_sequence_def canonical_sequence_def is_digit_def uint64_value digit_value_def)
  moreover have "owner_receipts p s example_database + owner_live p s example_database \<le> 4096" for p s
    by (simp add: owner_receipts_def owner_live_def example_access_defs)
  ultimately show ?thesis
    by (simp add: access_ok_def tables_ok_def nonces_ok_def live_routes_def example_access_defs redemptions_def
        List.map_filter_def route_row_ok_def grant_row_ok_def tag_length_ok_def route_live_def max_safe_integer_def
        is_hex_digit_def PUBLISHER_NONCE_CAPACITY_def)
qed

lemma example_mutation_ok: "mutation_ok example_revocation example_secrets 1000"
  by (simp add: mutation_ok_def payload_ok_def example_access_defs is_hex_digit_def max_safe_integer_def
      RETENTION_SECONDS_def uint64_sequence_def canonical_sequence_def is_digit_def uint64_value digit_value_def)

lemma example_commit_fresh: "fresh_commit (ms_commit example_secrets) example_database"
  by (simp add: fresh_commit_def example_access_defs)

subsection \<open>Properties\<close>



text \<open>
  C25: The first revocation of a live route is never refused for lack of room, however full
  the receipt and nonce tables are: a signature that advances the replay row makes the
  route revoked, deletes its grants and answers \<open>revoked\<close>.
\<close>

theorem revocation_never_refused:
  assumes "access_ok d" "mutation_ok m k now" "fresh_commit (ms_commit k) d"
    and "q \<in> set (db_replay d)" "replay_of (sm_payload m) q" "sql_newer (sm_sequence m) (rp_sequence q)"
    and "\<not> nonce_seen m d" "\<not> has_receipt (sm_payload m) d"
    and "ap_operation (sm_payload m) = Revoke"
    and "r \<in> set (db_routes d)" "names_route (sm_payload m) r" "route_live r"
  shows "\<exists>a d'. mutateAccessRoute m k now fr d = (Inr a, d') \<and> ares_outcome a = OutRevoked \<and> access_ok d' \<and>
    (\<forall>r' \<in> set (db_routes d'). rt_index r' = rt_index r \<longrightarrow> rt_state r' = RouteRevoked) \<and>
    (\<forall>g \<in> set (db_grants d'). gr_index g \<noteq> rt_index r)"
proof -
  let ?p = "sm_payload m"
  have tab: "tables_ok d" using assms(1) by (simp add: access_ok_def)
  have "nonce_growth ?p d = 0"
    using tab assms(8-12) by (auto simp: nonce_growth_def tables_ok_def list_ex_iff)
  from accepted_if[OF assms(1-7) this, of fr] obtain d2 where d2:
    "mutateAccessRoute m k now fr d = (Inr (route_answer m k (decided m k now fr d2)), decided m k now fr d2)"
    "same_access d d2" "access_ok (decided m k now fr d2)" "tables_ok d2" by blast
  have same: "db_routes d2 = db_routes d" "\<not> has_receipt ?p d2" "r \<in> set (db_routes d2)"
    using d2(2) assms(8,10) same_access_frame[OF d2(2)] by (simp_all add: same_access_def)
  note dec = decided_revokes[OF d2(4) assms(9) same(2,3) assms(11,12), of k now fr]
  have "receipt_at ?p (decided m k now fr d2) = Some (receipt_for m k now fr d2)"
    by (rule receipt_at_new[OF same(2)]) (simp add: dec)
  then have "ares_outcome (route_answer m k (decided m k now fr d2)) = OutRevoked"
    using dec assms(9) by (simp add: route_answer_def Let_def receipt_for_def)
  moreover have "rt_index r = ap_index ?p" using assms(11) by (simp add: names_route_def)
  ultimately show ?thesis
    using d2(1,3) dec by (auto simp: set_update_where revoke_row_def)
qed

theorem revocation_never_refused_witness:
  "\<exists>a d'. mutateAccessRoute example_revocation example_secrets 1000 14400 example_database = (Inr a, d') \<and>
     ares_outcome a = OutRevoked \<and> access_ok d'"
proof -
  have "\<exists>a d'. mutateAccessRoute example_revocation example_secrets 1000 14400 example_database = (Inr a, d') \<and>
      ares_outcome a = OutRevoked \<and> access_ok d' \<and>
      (\<forall>r' \<in> set (db_routes d'). rt_index r' = rt_index example_route \<longrightarrow> rt_state r' = RouteRevoked) \<and>
      (\<forall>g \<in> set (db_grants d'). gr_index g \<noteq> rt_index example_route)"
    by (rule revocation_never_refused[OF example_access_ok example_mutation_ok example_commit_fresh, where q = "hd (db_replay example_database)"])
      (simp_all add: example_access_defs replay_of_def sql_newer_def nonce_seen_def has_receipt_def names_route_def route_live_def)
  then show ?thesis by blast
qed

text \<open>
  C26: Revocation is final for a connected client: once a live route is revoked, no
  redemption that was drawn on it is ever reported live again, whatever the database does
  afterwards and whichever way the clock moves.
\<close>

theorem revocation_is_final:
  assumes "access_ok d" "mutation_ok m k now" "fresh_commit (ms_commit k) d"
    and "ap_operation (sm_payload m) = Revoke" "\<not> has_receipt (sm_payload m) d"
    and "r \<in> set (db_routes d)" "names_route (sm_payload m) r" "route_live r"
    and "g \<in> set (db_grants d)" "gr_index g = rt_index r" "gr_redemption g = Some x"
    and "mutateAccessRoute m k now fr d = (Inr a, d1)" "(access_step x t)\<^sup>*\<^sup>* d1 d2"
  shows "\<not> isAccessRedemptionLive x gen now' fr' d2"
  using assms(1-3)
proof (cases rule: mutate_cases[where fr = fr])
  case (refused d')
  with assms(12) show ?thesis by simp
next
  case (accepted d')
  then have d1: "d1 = decided m k now fr d'" using assms(12) by simp
  have same: "db_routes d' = db_routes d" "db_grants d' = db_grants d" "\<not> has_receipt (sm_payload m) d'"
    using accepted(2) assms(5) same_access_frame[OF accepted(2)] by (simp_all add: same_access_def)
  have "db_grants d1 = filter (\<lambda>g. gr_index g \<noteq> ap_index (sm_payload m)) (db_grants d)"
    unfolding d1
    using decided_revokes[OF accepted(4) assms(4) same(3) _ assms(7,8), of k now fr] assms(6) same by simp
  moreover have "g' = g" if "g' \<in> set (db_grants d)" "gr_redemption g' = Some x" for g'
  proof -
    have "distinct (redemptions gs) \<Longrightarrow> g' \<in> set gs \<Longrightarrow> g \<in> set gs \<Longrightarrow> g' = g" for gs
      using that(2) assms(11) by (induction gs) (auto simp: set_redemptions split: option.splits)
    from this[of "db_grants d"] that(1) assms(1,9) show ?thesis by (auto simp: access_ok_def tables_ok_def)
  qed
  ultimately have "dead x d1"
    using assms(7,10) by (auto simp: dead_def names_route_def)
  then show ?thesis
    using access_steps_keep[OF assms(13)] accepted(3) d1 by (intro dead_not_live) simp
qed

theorem revocation_is_final_witness:
  "\<not> isAccessRedemptionLive (replicate 64 (CHR ''9'')) (replicate 64 (CHR ''e'')) 1000 14400
     (snd (mutateAccessRoute example_revocation example_secrets 1000 14400
       (example_database\<lparr>db_grants := [example_grant\<lparr>gr_redemption := Some (replicate 64 (CHR ''9''))\<rparr>]\<rparr>)))"
proof -
  let ?g = "example_grant\<lparr>gr_redemption := Some (replicate 64 (CHR ''9''))\<rparr>"
  let ?d = "example_database\<lparr>db_grants := [?g]\<rparr>"
  have tab: "tables_ok example_database" "nonces_ok example_database"
    using example_access_ok by (simp_all add: access_ok_def)
  have "grant_row_ok example_grant" using tab(1) by (simp add: tables_ok_def example_database_def)
  then have "grant_row_ok ?g" by (simp add: grant_row_ok_def is_hex_digit_def)
  then have "tables_ok ?d"
    using tab(1)
    by (simp add: tables_ok_def live_routes_def owner_receipts_def owner_live_def)
      (simp add: example_database_def example_grant_def example_route_def)
  moreover have "nonces_ok ?d" using tab(2) by (simp add: nonces_ok_def live_routes_def)
  ultimately have ok: "access_ok ?d" by (simp add: access_ok_def)
  have fresh: "fresh_commit (ms_commit example_secrets) ?d" using example_commit_fresh by (simp add: fresh_commit_def)
  have "\<exists>a d'. mutateAccessRoute example_revocation example_secrets 1000 14400 ?d = (Inr a, d')"
    using accepted_if[OF ok example_mutation_ok fresh, where q = "hd (db_replay example_database)" and fr = 14400]
    by (force simp: example_access_defs replay_of_def sql_newer_def nonce_seen_def nonce_growth_def has_receipt_def
        names_route_def route_live_def live_routes_def owner_receipts_def owner_live_def)
  then obtain a d' where run: "mutateAccessRoute example_revocation example_secrets 1000 14400 ?d = (Inr a, d')" by blast
  have "\<not> isAccessRedemptionLive (replicate 64 (CHR ''9'')) (replicate 64 (CHR ''e'')) 1000 14400 d'"
    by (rule revocation_is_final[OF ok example_mutation_ok fresh _ _ _ _ _ _ _ _ run rtranclp.rtrancl_refl, where r = example_route and g = ?g])
      (simp_all add: example_access_defs has_receipt_def names_route_def route_live_def)
  then show ?thesis by (simp add: run)
qed


text \<open>
  C27: A grant is redeemed at most once: after a successful redemption its row stays as it
  is, or is gone, through every later operation, and no redemption can take it again.
\<close>

theorem redeemed_grant_closed:
  assumes "access_ok d" "redeemAccessGrant profile server gen nonce tags x now fr d = (Inr (Some rd), d1)"
    and "gr_current ` set (db_grants d1) \<subseteq> t" "(access_step y t)\<^sup>*\<^sup>* d1 d2"
  shows "\<exists>g \<in> set (db_grants d1). gr_redemption g = Some x \<and> gr_index g = rd_index rd \<and>
    (\<forall>g' \<in> set (db_grants d2). gr_current g' = gr_current g \<longrightarrow>
       g' = g \<and> \<not> redeemable profile' server' gen' nonce' tags' now' fr' d2 g')"
proof -
  from assms(2) obtain g where g: "find (\<lambda>g. gr_redemption g = Some x) (db_grants d1) = Some g" "rd = redemption_of x g"
    by (auto simp: redeemAccessGrant_def split: option.splits if_splits)
  then have mem: "g \<in> set (db_grants d1)" "gr_redemption g = Some x" by (auto simp: find_Some_iff)
  have "quiet (CHR ''x'' # x) t d d1"
    using quiet_redeem[of x "CHR ''x'' # x" t d profile server gen nonce tags now fr] assms(2) by simp
  then have ok1: "access_ok d1" using quiet_access_ok assms(1) by blast
  then have "sealed g d1" using mem(1) by (intro sealed_stored) (simp_all add: access_ok_def)
  then have "sealed g d2"
    using access_steps_keep[OF assms(4) ok1, of g] mem assms(3) by auto
  with mem g(2) show ?thesis
    by (intro bexI[of _ g]) (auto simp: sealed_def redemption_of_def redeemable_def)
qed

lemma example_redemption:
  "\<exists>rd d1. redeemAccessGrant ClassicAccess (replicate 64 (CHR ''a'')) (replicate 64 (CHR ''e'')) (replicate 64 (CHR ''f''))
     (replicate 48 (CHR ''p''), replicate 48 (CHR ''q'')) (replicate 64 (CHR ''9'')) 1000 14400 example_database =
       (Inr (Some rd), d1) \<and> rd_index rd = replicate 64 (CHR ''b'') \<and> db_grants d1 = [example_grant\<lparr>gr_redemption := Some (replicate 64 (CHR ''9''))\<rparr>]"
proof -
  have "uint64_sequence ''7''"
    by (simp add: uint64_sequence_def canonical_sequence_def is_digit_def uint64_value digit_value_def)
  then show ?thesis
    by (simp add: redeemAccessGrant_def redeem_statements_def expire_observed_def update_routes_def delete_grants_def
        update_grants_def redeemable_def example_access_defs tags_match_def current_target_def unexpired_route_def denied_def
        joins_def protected_presence_def grant_row_ok_def tag_length_ok_def is_hex_digit_def redemption_of_def Let_def)
qed

theorem redeemed_grant_closed_witness:
  "\<exists>rd d1. redeemAccessGrant ClassicAccess (replicate 64 (CHR ''a'')) (replicate 64 (CHR ''e'')) (replicate 64 (CHR ''f''))
     (replicate 48 (CHR ''p''), replicate 48 (CHR ''q'')) (replicate 64 (CHR ''9'')) 1000 14400 example_database =
       (Inr (Some rd), d1) \<and>
     \<not> redeemable ClassicAccess (replicate 64 (CHR ''a'')) (replicate 64 (CHR ''e'')) (replicate 64 (CHR ''f''))
       (replicate 48 (CHR ''p''), replicate 48 (CHR ''q'')) 1000 14400 d1 (hd (db_grants d1))"
proof -
  obtain rd d1 where run: "redeemAccessGrant ClassicAccess (replicate 64 (CHR ''a'')) (replicate 64 (CHR ''e''))
      (replicate 64 (CHR ''f'')) (replicate 48 (CHR ''p''), replicate 48 (CHR ''q'')) (replicate 64 (CHR ''9'')) 1000 14400
      example_database = (Inr (Some rd), d1)"
    and gs: "db_grants d1 = [example_grant\<lparr>gr_redemption := Some (replicate 64 (CHR ''9''))\<rparr>]"
    using example_redemption by blast
  have "\<not> redeemable ClassicAccess (replicate 64 (CHR ''a'')) (replicate 64 (CHR ''e'')) (replicate 64 (CHR ''f''))
       (replicate 48 (CHR ''p''), replicate 48 (CHR ''q'')) 1000 14400 d1 (hd (db_grants d1))"
    using redeemed_grant_closed[OF example_access_ok run subset_UNIV rtranclp.rtrancl_refl, where
        profile' = ClassicAccess and server' = "replicate 64 (CHR ''a'')" and gen' = "replicate 64 (CHR ''e'')" and
        nonce' = "replicate 64 (CHR ''f'')" and tags' = "(replicate 48 (CHR ''p''), replicate 48 (CHR ''q''))" and
        now' = 1000 and fr' = 14400]
    by (simp add: gs)
  with run show ?thesis by blast
qed



end
