(* ===== verification/PublicationProperties.thy ===== *)
theory PublicationProperties
  imports PublicationBatch AccessProperties
begin

text \<open>
  The contract of publication: the abstract directory \<open>listing\<close> that the tables represent, the
  invariant over sequences of publications, and what the exact matcher decides after a D1 call
  whose answer was lost.
\<close>

subsection \<open>The abstract directory\<close>

record listing =
  li_generation :: "directory_profile \<times> string \<Rightarrow> string option"
  li_entry :: "directory_profile \<times> string \<Rightarrow> entry_row option"
  li_revision :: "directory_profile \<Rightarrow> int option"
  li_pending :: "directory_profile \<Rightarrow> int option"

text \<open>What the tables say: generations of the rooms, entries, revisions, and the revision to build.\<close>

definition listing_of :: "directory \<Rightarrow> listing" where
  "listing_of w =
     \<lparr>li_generation = (\<lambda>(q, s). map_option ps_generation (presence_at q s w)),
      li_entry = (\<lambda>(q, s). entry_of q s w),
      li_revision = (\<lambda>q. revision_of q w),
      li_pending = (\<lambda>q. map_option ob_revision (lookup ob_profile q (dr_outbox w)))\<rparr>"

text \<open>One publication: a new generation, the entry replaced or withdrawn, and a new revision to
  build exactly when the visible content changed.\<close>

definition publish_listing :: "publication \<Rightarrow> bool \<Rightarrow> listing \<Rightarrow> listing" where
  "publish_listing p changed l =
     (let next = map_option (\<lambda>v. v + 1) (li_revision l (pb_profile p)) in
      l\<lparr>li_generation := (li_generation l)((pb_profile p, pb_server p) := Some (pb_generation p)),
        li_entry := (li_entry l)((pb_profile p, pb_server p) := (if pb_public p then Some (entry_row_of p) else None)),
        li_revision := (if changed then (li_revision l)(pb_profile p := next) else li_revision l),
        li_pending := (if changed then (li_pending l)(pb_profile p := next) else li_pending l)\<rparr>)"

lemma published_pending:
  "map_option ob_revision (lookup ob_profile q (dr_outbox (published p w))) =
   (if q = pb_profile p \<and> visibleContentChanged p w then Some (base_revision p w + 1)
    else map_option ob_revision (lookup ob_profile q (dr_outbox w)))"
proof -
  have flt: "lookup ob_profile x (filter (\<lambda>o1. ob_profile o1 \<noteq> k) os) = (if x = k then None else lookup ob_profile x os)"
    for x k os by (induction os) auto
  show ?thesis
    by (cases "lookup ob_profile q (dr_outbox w)") (simp_all add: published_def published_outbox_def queued_outbox_def flt)
qed

lemma published_listing:
  assumes "listing_ok w" "publication_ok p" "revision_of (pb_profile p) w \<noteq> None"
  shows "listing_of (published p w) = publish_listing p (visibleContentChanged p w) (listing_of w)"
proof -
  have "base_revision p w + 1 = the (map_option (\<lambda>v. v + 1) (revision_of (pb_profile p) w))"
    using assms(3) by (auto simp: base_revision_def)
  with assms show ?thesis
    by (auto simp: listing_of_def publish_listing_def Let_def fun_eq_iff published_presence published_entry
        published_revision published_pending new_presence_def presence_row_of_def)
qed

lemma reclaimed_listing: "listing_of (reclaimed now w) = listing_of w"
  by (simp add: listing_of_def presence_at_def entry_of_def revision_of_def reclaimed_frames)

subsection \<open>The invariant over publications\<close>

lemma advanced_lookup:
  "map_option rv_revision (lookup rv_profile k (advanced_revisions c q now rs)) =
   map_option (\<lambda>r. if c \<and> k = q then rv_revision r + 1 else rv_revision r) (lookup rv_profile k rs)"
  by (induction rs) (auto simp: advanced_revisions_def)

lemma advanced_revision_of:
  "dr_revisions v = advanced_revisions c q now (dr_revisions w) \<Longrightarrow>
   revision_of k v = map_option (\<lambda>x. if c \<and> k = q then x + 1 else x) (revision_of k w)"
  by (simp add: revision_of_def advanced_lookup option.map_comp o_def)

lemma advanced_revisions_ok:
  assumes ok: "revisions_ok w" and base: "revision_of q w = Some base"
    and v: "dr_revisions v = advanced_revisions c q now (dr_revisions w)"
      "dr_outbox v = queued_outbox c q (base + 1) now (dr_outbox w)"
  shows "revisions_ok v"
proof -
  have profs: "map rv_profile (dr_revisions v) = map rv_profile (dr_revisions w)"
    by (simp add: v(1) advanced_revisions_def map_update_where)
  have "list_all (\<lambda>r. 0 \<le> rv_revision r) (dr_revisions v)"
    using ok by (auto simp: revisions_ok_def v(1) advanced_revisions_def set_update_where list_all_iff)
  moreover have "distinct (map ob_profile (dr_outbox v))"
    using ok by (auto simp: revisions_ok_def v(2) queued_outbox_def intro: distinct_map_filterI)
  moreover have "0 < ob_revision o1 \<and>
      (case revision_of (ob_profile o1) v of None \<Rightarrow> False | Some x \<Rightarrow> ob_revision o1 \<le> x)"
    if "o1 \<in> set (dr_outbox v)" for o1
  proof (cases "o1 \<in> set (dr_outbox w) \<and> (c \<longrightarrow> ob_profile o1 \<noteq> q)")
    case True
    then show ?thesis using ok by (force simp: revisions_ok_def list_all_iff advanced_revision_of[OF v(1)] split: option.splits)
  next
    case False
    then have "c" "o1 = \<lparr>ob_profile = q, ob_revision = base + 1, ob_created = now\<rparr>"
      using that by (auto simp: v(2) queued_outbox_def split: if_splits)
    then show ?thesis
      using base revisions_ok_base(1)[OF ok base] by (simp add: advanced_revision_of[OF v(1)])
  qed
  ultimately show ?thesis using ok profs by (simp add: revisions_ok_def list_all_iff)
qed

lemma published_revisions_ok:
  assumes "revisions_ok w" "revision_of (pb_profile p) w = Some base"
  shows "revisions_ok (published p w)"
  by (rule advanced_revisions_ok[OF assms])
    (simp_all add: published_def published_revisions_def published_outbox_def base_revision_Some[OF assms(2)])

lemma published_listing_ok:
  assumes "listing_ok w" "publication_ok p"
  shows "listing_ok (published p w)"
proof -
  have "list_all entry_row_ok (published_entries p w)"
  proof (cases "pb_public p")
    case True
    with assms show ?thesis
      by (simp add: published_entries_def listing_ok_def publication_ok_def entry_table.upsert_all entry_merge_same)
  next
    case False
    with assms show ?thesis by (simp add: published_entries_def listing_ok_def list_all_iff)
  qed
  moreover have "distinct (map entry_key (published_entries p w))"
    using assms(1)
    by (simp add: published_entries_def listing_ok_def entry_table.upsert_distinct distinct_map_filterI)
  moreover have "entry_key ` set (published_entries p w) \<subseteq> insert (pb_profile p, pb_server p) (presence_key ` set (db_presence (dr_base w)))"
  proof -
    have "entry_key ` set (published_entries p w) \<subseteq> insert (pb_profile p, pb_server p) (entry_key ` set (dr_entries w))"
      by (auto simp: published_entries_def entry_table.upsert_key_set)
    then show ?thesis using assms(1) unfolding listing_ok_def by blast
  qed
  moreover have "distinct (map presence_key (db_presence (dr_base (published p w))))"
    using assms(1) by (simp add: published_def published_base_def Let_def listing_ok_def presence_table.upsert_distinct)
  moreover have "presence_key ` set (db_presence (dr_base (published p w))) =
      insert (pb_profile p, pb_server p) (presence_key ` set (db_presence (dr_base w)))"
    by (simp add: published_def published_base_def Let_def presence_table.upsert_key_set new_presence_def)
  ultimately show ?thesis by (simp add: listing_ok_def published_def)
qed

lemma published_activity_ok:
  assumes "activity_ok w" "publication_ok p"
  shows "activity_ok (published p w)"
proof -
  have prev: "case activity_of p w of None \<Rightarrow> True | Some a \<Rightarrow> activity_row_ok a"
    using assms(1) by (auto simp: activity_of_def activity_ok_def list_all_iff split: option.split dest!: lookup_Some)
  have "list_all activity_row_ok (published_activity p w)"
  proof (cases "pb_public p")
    case True
    with assms activity_row_of_ok[OF assms(2)] show ?thesis
      by (simp add: published_activity_def activity_ok_def activity_table.upsert_all activity_merge_ok)
  next
    case False
    with assms show ?thesis by (simp add: published_activity_def activity_ok_def list_all_iff)
  qed
  moreover have "list_all bucket_row_ok (published_buckets p w)"
  proof (cases "pb_public p")
    case True
    with bucket_row_of_ok[OF assms(2) prev] kept_buckets_facts[OF assms(1), of p] show ?thesis
      by (simp add: published_buckets_def bucket_table.upsert_all bucket_merge_ok)
  next
    case False
    with assms show ?thesis by (simp add: published_buckets_def activity_ok_def list_all_iff)
  qed
  moreover have "distinct (map activity_key (published_activity p w))" "distinct (map bucket_key (published_buckets p w))"
    using assms(1) kept_buckets_facts[OF assms(1), of p]
    by (simp_all add: published_activity_def published_buckets_def activity_ok_def activity_table.upsert_distinct
        bucket_table.upsert_distinct distinct_map_filterI)
  ultimately show ?thesis by (simp add: activity_ok_def published_def)
qed

lemma published_nonces_ok:
  assumes "nonces_ok (dr_base w)" "accepts p (dr_base w)"
  shows "nonces_ok (dr_base (published p w))"
proof -
  let ?d = "dr_base w"
  have "nonce_key (nonce_row_of p) \<notin> nonce_key ` set (db_nonces ?d)"
    using assms(2) own_profile(1)[of p]
    by (auto simp: accepts_def lineage_nonce_def list_ex_iff nonce_key_def nonce_row_of_def)
  moreover have "length (db_nonces ?d) + live_routes ?d + 1 \<le> db_nonce_max ?d"
    using assms by (auto simp: accepts_def publisherNonceCapacity_def nonces_ok_def)
  ultimately show ?thesis
    using assms(1) replay_table.upsert_distinct[of "db_replay ?d"]
    by (auto simp: nonces_ok_def published_def published_base_def Let_def live_routes_def replay_key_fun)
qed

lemma published_ok:
  assumes "directory_ok w" "publication_ok p" "accepts p (dr_base w)" "publishable p w"
  shows "directory_ok (published p w)"
  using assms published_revisions_ok published_listing_ok published_activity_ok published_nonces_ok
  by (auto simp: directory_ok_def publishable_def split: option.splits)

lemma published_observed:
  assumes "observed_by p w"
  shows "observed_by p (published p w)"
proof (cases "pb_public p")
  case True
  have row: "activity_of p (published p w) =
      Some (case activity_of p w of None \<Rightarrow> activity_row_of p | Some x \<Rightarrow> activity_merge x (activity_row_of p))"
    using True by (simp add: activity_of_def published_def published_activity_def activity_table.upsert_lookup cong: option.case_cong)
  have new: "case ac_positive (activity_row_of p) of None \<Rightarrow> True | Some u \<Rightarrow> u \<le> pb_now p"
    by (simp add: activity_row_of_def)
  have "case activity_of p (published p w) of None \<Rightarrow> True
      | Some a \<Rightarrow> (case ac_positive a of None \<Rightarrow> True | Some u \<Rightarrow> u \<le> pb_now p)"
  proof (cases "activity_of p w")
    case None
    with row new show ?thesis by simp
  next
    case (Some x)
    with assms True have "case ac_positive x of None \<Rightarrow> True | Some u \<Rightarrow> u \<le> pb_now p" by (simp add: observed_by_def)
    moreover have "ac_observed (activity_row_of p) = pb_now p" by (simp add: activity_row_of_def)
    ultimately show ?thesis using row Some by (simp add: activity_merge_def)
  qed
  moreover have "list_all (\<lambda>b. bucket_of p b \<longrightarrow> bk_start b \<le> pb_now p) (published_buckets p w)"
    unfolding list_all_iff
  proof (intro ballI impI)
    fix b assume b: "b \<in> set (published_buckets p w)" "bucket_of p b"
    have old: "bk_start x \<le> pb_now p" if "x \<in> set (kept_buckets p w)" "bucket_of p x" for x
      using that assms True by (simp add: observed_by_def kept_buckets_def list_all_iff)
    from b(1) True have "b \<in> set (snd (upsert_rows bucket_key always bucket_merge
        (bucket_row_of p (activity_of p w)) (kept_buckets p w)))" by (simp add: published_buckets_def)
    then consider "b \<in> set (kept_buckets p w)" | "b = bucket_row_of p (activity_of p w)"
      | x where "x \<in> set (kept_buckets p w)" "b = bucket_merge x (bucket_row_of p (activity_of p w))"
      using bucket_table.upsert_set[of "bucket_row_of p (activity_of p w)" "kept_buckets p w"] by blast
    then show "bk_start b \<le> pb_now p"
    proof cases
      case 1 with old b(2) show ?thesis by blast
    next
      case 2 then show ?thesis using bucketStart_bounds(1)[of p] by (simp add: bucket_row_of_def)
    next
      case (3 x) with old[of x] b(2) show ?thesis by (simp add: bucket_merge_def)
    qed
  qed
  ultimately show ?thesis by (simp add: observed_by_def published_def)
qed (simp add: observed_by_def)

lemma published_matches:
  assumes "directory_ok w" "publication_ok p" "accepts p (dr_base w)" "publishable p w" "observed_by p w"
  shows "rendezvousPublicationMatches p (published p w)"
proof -
  let ?v = "published p w"
  note parts = assms(1)[unfolded directory_ok_def]
  obtain base where base: "revision_of (pb_profile p) w = Some base"
    using assms(4) by (auto simp: publishable_def split: option.splits)
  have keys: "distinct (map replay_key (db_replay (dr_base ?v)))"
    using published_nonces_ok[OF _ assms(3)] parts by (simp add: nonces_ok_def replay_key_fun)
  have row: "lookup replay_key (pb_server p, pb_profile p) (db_replay (dr_base ?v)) = Some (replay_row_of p)"
    using signed_run(2)[OF assms(1-3)] by (simp add: published_def published_base_signed)
  let ?P = "\<lambda>r. rp_server r = pb_server p \<and> rp_profile r = pb_profile p \<and> rp_sequence r = pb_sequence p \<and>
        rp_nonce r = pb_nonce p \<and> rp_commit r = pb_commit p \<and>
        list_ex (\<lambda>n. nn_server n = rp_server r \<and> nn_profile n = rp_profile r \<and> nn_nonce n = rp_nonce r)
          (db_nonces (dr_base ?v))"
  have "?P (replay_row_of p)"
    by (auto simp: replay_row_of_def list_ex_iff published_def published_base_def Let_def nonce_row_of_def)
  then have "count ?P (db_replay (dr_base ?v)) = 1"
  proof (intro count_unique[OF keys])
    show "replay_row_of p \<in> set (db_replay (dr_base ?v))" using lookup_Some[OF row] by simp
    show "?P y \<longleftrightarrow> replay_key y = replay_key (replay_row_of p)"
      if "?P (replay_row_of p)" "y \<in> set (db_replay (dr_base ?v))" for y
    proof
      assume "replay_key y = replay_key (replay_row_of p)"
      then have "lookup replay_key (pb_server p, pb_profile p) (db_replay (dr_base ?v)) = Some y"
        using that(2) lookup_distinct[OF keys, of "(pb_server p, pb_profile p)" y] by simp
      with row have "y = replay_row_of p" by simp
      from this that(1) show "?P y" by (rule ssubst)
    qed (simp add: replay_key_def replay_row_of_def)
  qed
  then show ?thesis
    using presence_predicate_published[OF base] entry_predicate_published[OF _ assms(2)]
      activity_predicate_published[OF _ assms(5,2)] parts
    by (simp add: rendezvousPublicationMatches_def)
qed

lemma fresh_unmatched: "fresh_publication p w \<Longrightarrow> \<not> rendezvousPublicationMatches p w"
proof -
  assume "fresh_publication p w"
  then have "count (\<lambda>r. rp_server r = pb_server p \<and> rp_profile r = pb_profile p \<and> rp_sequence r = pb_sequence p \<and>
        rp_nonce r = pb_nonce p \<and> rp_commit r = pb_commit p \<and>
        list_ex (\<lambda>n. nn_server n = rp_server r \<and> nn_profile n = rp_profile r \<and> nn_nonce n = rp_nonce r)
          (db_nonces (dr_base w))) (db_replay (dr_base w)) = 0"
    by (auto simp: count_zero_iff fresh_publication_def image_iff)
  then show ?thesis by (simp add: rendezvousPublicationMatches_def)
qed

subsection \<open>Publication among the other operations\<close>

lemma reclaimed_access:
  "nonces_ok (dr_base w) \<Longrightarrow> access_step x t (dr_base w) (dr_base (reclaimed now w))"
  using reclaimed_base[of now w] by (auto simp: same_access_def intro!: access_step.elsewhere)

text \<open>For the access tables a publication is one of the transactions that leave them alone.\<close>

lemma publication_elsewhere:
  assumes "directory_ok w" "publication_ok p" "observed_by p w" "fresh_publication p w"
  shows "access_step x t (dr_base w) (dr_base (snd (persistRendezvousPublication tc p w)))"
proof -
  let ?w0 = "reclaimed (pb_now p) w"
  have n: "nonces_ok (dr_base w)" using assms(1) by (simp add: directory_ok_def)
  have n0: "nonces_ok (dr_base ?w0)" using reclaimed_ok(1)[OF assms(1)] by (simp add: directory_ok_def)
  obtain d0 where d0: "dr_base ?w0 = d0" "same_access (dr_base w) d0" using reclaimed_base[of "pb_now p" w] by auto
  have "access_step x t (dr_base w) (dr_base (published p ?w0))" if "accepts p (dr_base ?w0)"
    using published_nonces_ok[OF n0 that] d0
    by (intro access_step.elsewhere) (simp_all add: published_def published_base_def Let_def same_access_def)
  then show ?thesis
    using reclaimed_access[OF n] access_step.elsewhere[OF refl refl refl n]
    by (auto simp: publication_cases[OF assms] Let_def)
qed

lemma publication_keeps:
  assumes "directory_ok w" "publication_ok p" "observed_by p w" "fresh_publication p w"
  shows "directory_ok (snd (persistRendezvousPublication tc p w))"
    "observed_by p (snd (persistRendezvousPublication tc p w))"
proof -
  let ?w0 = "reclaimed (pb_now p) w"
  note r0 = reclaimed_ok[where now = "pb_now p" and w = w]
  have ok0: "directory_ok ?w0" using r0(1) assms(1) by blast
  have seen0: "observed_by p ?w0" using assms(3) r0(2) by blast
  show "directory_ok (snd (persistRendezvousPublication tc p w))"
    using ok0 assms(1) published_ok[OF ok0 assms(2)] r0(5)
    by (auto simp: publication_cases[OF assms] Let_def)
  show "observed_by p (snd (persistRendezvousPublication tc p w))"
    using seen0 assms(3) published_observed[OF seen0] by (auto simp: publication_cases[OF assms] Let_def)
qed

text \<open>What the fence means for the numbers that the sequences denote.\<close>

definition sequence_advances :: "publication \<Rightarrow> directory \<Rightarrow> bool" where
  "sequence_advances p w \<longleftrightarrow>
     (\<forall>r \<in> set (db_replay (dr_base w)).
        rp_server r = pb_server p \<and> lineage (pb_profile p) (rp_profile r) \<longrightarrow>
        decimal_value (rp_sequence r) < decimal_value (pb_sequence p))"

lemma reached_value:
  assumes "list_all replay_row_ok (db_replay (dr_base w))" "uint64_sequence (pb_sequence p)"
  shows "\<not> lineage_reached (\<lambda>_. True) p (dr_base w) \<longleftrightarrow> sequence_advances p w"
proof -
  have "canonical_sequence (pb_sequence p)" using assms(2) by (simp add: uint64_sequence_def)
  moreover have "canonical_sequence (rp_sequence r)" if "r \<in> set (db_replay (dr_base w))" for r
    using that assms(1) by (simp add: list_all_iff replay_row_ok_def uint64_sequence_def)
  ultimately have "(length (rp_sequence r) > length (pb_sequence p) \<or>
         length (rp_sequence r) = length (pb_sequence p) \<and> rp_sequence r \<ge> pb_sequence p) \<longleftrightarrow>
      \<not> decimal_value (rp_sequence r) < decimal_value (pb_sequence p)"
    if "r \<in> set (db_replay (dr_base w))" for r
    using that sql_newer_value[of "pb_sequence p" "rp_sequence r"] by (auto simp: sql_newer_def)
  then show ?thesis unfolding lineage_reached_def sequence_advances_def list_ex_iff by blast
qed

subsection \<open>A concrete directory\<close>

definition example_directory :: directory where
  "example_directory =
     \<lparr>dr_base = example_database,
      dr_revisions = [\<lparr>rv_profile = ClassicV3, rv_revision = 4, rv_updated = 900\<rparr>],
      dr_outbox = [\<lparr>ob_profile = ClassicV3, ob_revision = 4, ob_created = 900\<rparr>],
      dr_entries = [], dr_activity = [], dr_buckets = []\<rparr>"

definition example_publication :: publication where
  "example_publication =
     \<lparr>pb_certificate = ''AAAA'', pb_server = replicate 64 (CHR ''a''), pb_sequence = ''6'',
      pb_nonce = replicate 32 (CHR ''7''), pb_nonce_expires = 87400, pb_commit = replicate 64 (CHR ''9''),
      pb_expected = Some (replicate 64 (CHR ''e'')), pb_generation = replicate 64 (CHR ''c''),
      pb_token_hash = replicate 64 (CHR ''3''), pb_now = 1000, pb_cutoff = 0, pb_name = ''Server'',
      pb_public = True, pb_host = [], pb_port = 1, pb_cert = replicate 64 (CHR ''a''), pb_auth = True,
      pb_fingerprint = replicate 64 (CHR ''d''), pb_body = ClassicBody 3 ''1.0'' []\<rparr>"

lemma example_sequences: "uint64_sequence ''6''" "uint64_sequence ''5''"
  by (simp_all add: uint64_sequence_def canonical_sequence_def is_digit_def uint64_value digit_value_def)

lemma example_directory_ok: "directory_ok example_directory"
  using example_access_ok
  by (simp add: directory_ok_def access_ok_def revisions_ok_def listing_ok_def activity_ok_def example_directory_def
      revision_of_def) (simp add: example_access_defs)

lemma example_text_ok: "sql_text_ok False ''Server1.0''"
  by code_simp

lemma example_publication_ok: "publication_ok example_publication"
  using example_sequences example_text_ok
  by (simp add: publication_ok_def example_publication_def replay_row_ok_def replay_row_of_def nonce_row_ok_def
      nonce_row_of_def presence_row_ok_def presence_row_of_def entry_row_ok_def entry_row_of_def pb_profile_def
      published_host_def published_port_def stored_integer_def max_safe_integer_def is_hex_digit_def
      sql_certificate_ok_def base64_char_def upper_letters_def sql_name_ok_def current_profile_def
      sql_endpoint_ok_def classic_columns_ok_def entry_text_def publicationPopulation_def)

lemma example_observed: "observed_by example_publication example_directory"
  by (simp add: observed_by_def activity_of_def example_directory_def)

lemma example_publication_fresh: "fresh_publication example_publication example_directory"
  by (simp add: fresh_publication_def example_directory_def example_publication_def example_access_defs)

lemma example_reclaimed: "reclaimed t example_directory = example_directory"
  by (simp add: reclaimed_def on_base_def cleanupPublisherNonces_def example_directory_def)
    (simp add: example_access_defs)

lemma example_changed: "visibleContentChanged example_publication example_directory"
  by (simp add: visibleContentChanged_def entry_of_def example_directory_def) (simp add: example_publication_def)

lemma example_publishable: "publishable example_publication example_directory"
  by (simp add: publishable_def example_changed)
    (simp add: revision_of_def example_directory_def example_publication_def pb_profile_def max_safe_integer_def
      presence_capacity_ok_def presence_row_of_def json_budget_ok_def entry_row_of_def example_access_defs)

lemma example_accepts: "accepts example_publication example_database"
  by (simp add: accepts_def lineage_nonce_def lineage_reached_def publisherNonceCapacity_def live_routes_def
      example_access_defs PUBLISHER_NONCE_CAPACITY_def)
    (simp add: example_publication_def)

subsection \<open>Properties\<close>

text \<open>
  C30: A publication replaces the publisher's generation and entry, and opens a new directory
  revision to build exactly when the visible content changed; a refused or aborted one leaves
  the directory as it was. Every outcome of the batch passes the handler's checks of the change
  counts, so that an exception means that nothing was committed, and only for lack of room.
  The clock of the publication is not behind the publisher's own stored activity
  (\<open>observed_by\<close>): behind it the batch's activity assertion may abort a publication that this
  theorem would commit.
\<close>

theorem publication_refines_listing:
  assumes "directory_ok w" "publication_ok p" "observed_by p w" "fresh_publication p w"
  shows "case persistRendezvousPublication tc p w of (res, w') \<Rightarrow>
    directory_ok w' \<and>
    (case res of
       Inr (True, changed) \<Rightarrow>
         changed = visibleContentChanged p w \<and> listing_of w' = publish_listing p changed (listing_of w)
     | Inr (False, changed) \<Rightarrow> \<not> changed \<and> listing_of w' = listing_of w
     | Inl e \<Rightarrow> e = BatchFailed \<and> \<not> publishable p w \<and> w' = w)"
proof -
  let ?w0 = "reclaimed (pb_now p) w"
  note r0 = reclaimed_ok[where now = "pb_now p" and w = w]
  have ok0: "directory_ok ?w0" using r0(1) assms(1) by blast
  have "listing_of (published p ?w0) = publish_listing p (visibleContentChanged p w) (listing_of w)"
    if "publishable p w"
  proof -
    have "revision_of (pb_profile p) ?w0 \<noteq> None"
      using that by (auto simp: publishable_def revision_of_def reclaimed_frames split: option.splits)
    moreover have "listing_ok ?w0" using ok0 by (simp add: directory_ok_def)
    ultimately show ?thesis
      using published_listing[OF _ assms(2), of ?w0] r0(4) by (simp add: reclaimed_listing)
  qed
  then show ?thesis
    using publication_keeps(1)[OF assms, of tc]
    by (auto simp: publication_cases[OF assms] Let_def reclaimed_listing split: prod.split)
qed

theorem publication_refines_listing_witness:
  "fst (persistRendezvousPublication True example_publication example_directory) = Inr (True, True) \<and>
   li_revision (listing_of (snd (persistRendezvousPublication True example_publication example_directory))) ClassicV3 = Some 5"
proof -
  let ?r = "persistRendezvousPublication True example_publication example_directory"
  have base: "dr_base example_directory = example_database" by (simp add: example_directory_def)
  have res: "fst ?r = Inr (True, True)"
    using example_accepts example_publishable example_changed
    by (simp add: publication_cases[OF example_directory_ok example_publication_ok example_observed
          example_publication_fresh] Let_def example_reclaimed base)
  moreover from res publication_refines_listing[OF example_directory_ok example_publication_ok example_observed
      example_publication_fresh, of True]
  have "listing_of (snd ?r) = publish_listing example_publication True (listing_of example_directory)"
    by (cases ?r) simp
  moreover have "li_revision (listing_of example_directory) ClassicV3 = Some 4" "pb_profile example_publication = ClassicV3"
    by (simp_all add: listing_of_def revision_of_def example_directory_def pb_profile_def example_publication_def)
  ultimately show ?thesis by (simp add: publish_listing_def Let_def)
qed

text \<open>
  C31: For a publication whose clock is not behind the publisher's own stored activity
  (\<open>observed_by\<close>), on well-formed tables and with a fresh commit token: it is accepted exactly when its sequence is a greater number than every
  sequence stored for its publisher in its lineage of profiles, its nonce is not stored there,
  a nonce slot is free, and the directory has room for it; then the exact matcher confirms it,
  and before it did not, so that a lost answer of D1 is decided by reading back.
\<close>

theorem publication_accepted_iff:
  assumes "directory_ok w" "publication_ok p" "observed_by p w" "fresh_publication p w"
    and "list_all replay_row_ok (db_replay (dr_base w))"
  shows "case persistRendezvousPublication tc p w of (res, w') \<Rightarrow>
    ((\<exists>changed. res = Inr (True, changed)) \<longleftrightarrow>
       sequence_advances p w \<and> \<not> lineage_nonce p (dr_base (reclaimed (pb_now p) w)) \<and>
       publisherNonceCapacity 1 (dr_base (reclaimed (pb_now p) w)) \<and> publishable p w) \<and>
    (rendezvousPublicationMatches p w' \<longleftrightarrow> (\<exists>changed. res = Inr (True, changed))) \<and>
    \<not> rendezvousPublicationMatches p w"
proof -
  let ?w0 = "reclaimed (pb_now p) w"
  note r0 = reclaimed_ok[where now = "pb_now p" and w = w]
  have ok0: "directory_ok ?w0" using r0(1) assms(1) by blast
  have seq: "uint64_sequence (pb_sequence p)"
    using publication_ok_rows(1)[OF assms(2)] by (simp add: replay_row_ok_def replay_row_of_def)
  have acc: "accepts p (dr_base ?w0) \<longleftrightarrow> sequence_advances p w \<and> \<not> lineage_nonce p (dr_base ?w0) \<and>
      publisherNonceCapacity 1 (dr_base ?w0)"
    using reached_value[of ?w0 p] assms(5) seq
    by (auto simp: accepts_def reclaimed_frames sequence_advances_def)
  have m: "rendezvousPublicationMatches p (published p ?w0)" if "accepts p (dr_base ?w0)" "publishable p w"
    using published_matches[OF ok0 assms(2) that(1)] that(2) assms(3) r0(2,5) by blast
  have u: "\<not> rendezvousPublicationMatches p w" "\<not> rendezvousPublicationMatches p ?w0"
    using fresh_unmatched assms(4) r0(3) by blast+
  show ?thesis
    unfolding publication_cases[OF assms(1-4)] Let_def using acc m u by auto
qed

theorem publication_accepted_iff_witness:
  "\<exists>w'. persistRendezvousPublication False example_publication example_directory = (Inr (True, True), w') \<and>
     rendezvousPublicationMatches example_publication w' \<and>
     \<not> rendezvousPublicationMatches example_publication example_directory"
proof -
  have base: "dr_base example_directory = example_database" by (simp add: example_directory_def)
  have rows: "list_all replay_row_ok (db_replay (dr_base example_directory))"
    using example_sequences by (simp add: base example_access_defs replay_row_ok_def is_hex_digit_def)
  have adv: "sequence_advances example_publication example_directory"
    by (simp add: sequence_advances_def base example_access_defs) (simp add: example_publication_def digit_value_def)
  note t = publication_accepted_iff[OF example_directory_ok example_publication_ok example_observed
      example_publication_fresh rows, where tc = False]
  obtain res w' where run: "persistRendezvousPublication False example_publication example_directory = (res, w')"
    by fastforce
  have "\<exists>changed. res = Inr (True, changed)"
    using t example_accepts adv example_publishable unfolding run prod.case example_reclaimed base accepts_def by blast
  moreover have "res = Inr (True, changed) \<Longrightarrow> changed" for changed
    using run example_changed example_accepts example_publishable
    by (simp add: publication_cases[OF example_directory_ok example_publication_ok example_observed
          example_publication_fresh] Let_def example_reclaimed base split: if_splits)
  ultimately have "res = Inr (True, True)" by auto
  with t run show ?thesis by auto
qed

end
