(* ===== verification/PublicationRoom.thy ===== *)
theory PublicationRoom
  imports PublicationProperties RoomAlarm
begin

text \<open>
  The room's side of a publication: \<open>commitPublication\<close> and \<open>signedPublicationConflict\<close> of
  \<open>src/src/rendezvous-room.ts\<close>, composed with the batch of \<open>rendezvous-publication.ts\<close> and the
  room's \<open>rotateTokenGeneration\<close>. The room operation is serialized, the database is shared:
  before each of its D1 calls other transactions may run (\<open>ce_others\<close>), and each call may fail.
  A batch whose answer is lost may have committed or not.
\<close>

subsection \<open>The database as the room sees it\<close>

datatype batch_answer = Acknowledged | LostAfterCommit | LostBeforeCommit

text \<open>
  The environment of one commit, by the number of the D1 call: what other transactions do before
  it, whether a read is answered; what becomes of the batch; the clock and the replay ledger of
  the room at each rotation.
\<close>

record commit_environment =
  ce_others :: "nat \<Rightarrow> directory \<Rightarrow> directory"
  ce_answers :: "nat \<Rightarrow> bool"
  ce_batch :: batch_answer
  ce_clock :: "nat \<Rightarrow> int"
  ce_ledger :: "nat \<Rightarrow> ledger"

datatype commit_reply = Committed bool | ReplayRefused string | SequenceExhausted | GenerationConflict

datatype commit_failure = D1Failed | InvalidGeneration | RoomFailed failure | BatchError publication_error | Unexplained

text \<open>One read of D1 on the tables as the other transactions left them.\<close>

definition d1_read :: "commit_environment \<Rightarrow> nat \<Rightarrow> (directory \<Rightarrow> 'a) \<Rightarrow> directory \<Rightarrow> (commit_failure + 'a) \<times> directory" where
  "d1_read e k query w =
     (let w1 = ce_others e k w in (if ce_answers e k then Inr (query w1) else Inl D1Failed, w1))"

datatype replay_conflict = Exhausted | MinimumNext string

definition signedPublicationConflict :: "publication \<Rightarrow> directory \<Rightarrow> replay_conflict option" where
  "signedPublicationConflict p w =
     (case readPublisherReplayState p w of
        None \<Rightarrow> None
      | Some (lastSequence, nonceSeen) \<Rightarrow>
          if lastSequence = UINT64_MAXIMUM_SEQUENCE then Some Exhausted
          else if \<not> nonceSeen \<and> comparePublishSequences (pb_sequence p) lastSequence > 0 then None
          else Some (MinimumNext (minimumNextPublishSequence lastSequence)))"

fun conflict_reply :: "replay_conflict \<Rightarrow> commit_reply" where
  "conflict_reply Exhausted = SequenceExhausted"
| "conflict_reply (MinimumNext s) = ReplayRefused s"

definition rotate_to :: "commit_environment \<Rightarrow> nat \<Rightarrow> string option \<Rightarrow> room \<Rightarrow> (commit_failure + unit) \<times> room" where
  "rotate_to e k gen r =
     (case rotateTokenGeneration (ce_clock e k) gen (ce_ledger e k) r of
        (Inl f, r1) \<Rightarrow> (Inl (RoomFailed f), r1) | (Inr _, r1) \<Rightarrow> (Inr (), r1))"

text \<open>\<open>reconcilePublishedGeneration\<close>: read the published generation and fence the room at it.\<close>

definition reconcile_generation ::
  "commit_environment \<Rightarrow> nat \<Rightarrow> directory_profile \<Rightarrow> string \<Rightarrow> room \<times> directory \<Rightarrow>
   (commit_failure + string option) \<times> room \<times> directory" where
  "reconcile_generation e k profile server s =
     (case d1_read e k (readPublishedGeneration profile server) (snd s) of
        (Inl f, w) \<Rightarrow> (Inl f, fst s, w)
      | (Inr (Inl _), w) \<Rightarrow> (Inl InvalidGeneration, fst s, w)
      | (Inr (Inr gen), w) \<Rightarrow>
          (case rotate_to e k gen (fst s) of (Inl f, r) \<Rightarrow> (Inl f, r, w) | (Inr _, r) \<Rightarrow> (Inr gen, r, w)))"

abbreviation reconcile_published ::
  "commit_environment \<Rightarrow> nat \<Rightarrow> publication \<Rightarrow> room \<times> directory \<Rightarrow> (commit_failure + string option) \<times> room \<times> directory" where
  "reconcile_published e k p \<equiv> reconcile_generation e k (pb_profile p) (pb_server p)"

text \<open>\<open>publicationRoomName\<close>, and what an upgrade request finds when it asks for a generation.\<close>

definition game_room_prefix :: string where "game_room_prefix = ''game-v2:''"

definition publicationRoomName :: "publication \<Rightarrow> string" where
  "publicationRoomName p = (if pb_profile p = GameV2 then game_room_prefix @ pb_server p else pb_server p)"

definition reconcileUpgradeGeneration ::
  "commit_environment \<Rightarrow> nat \<Rightarrow> string \<Rightarrow> string \<Rightarrow> room \<times> directory \<Rightarrow> (commit_failure + bool) \<times> room \<times> directory" where
  "reconcileUpgradeGeneration e k name gen s =
     (let game = take 8 name = game_room_prefix; serverId = (if game then drop 8 name else name) in
      if \<not> is_hex64 serverId
      then (Inr (currentGeneration (fst s) = None \<or> currentGeneration (fst s) = Some gen), s)
      else
        (case reconcile_generation e k (if game then GameV2 else ClassicV3) serverId s of
           (Inl f, t) \<Rightarrow> (Inl f, t)
         | (Inr found, t) \<Rightarrow> (Inr (found = Some gen), t)))"

definition persist_call ::
  "bool \<Rightarrow> commit_environment \<Rightarrow> publication \<Rightarrow> directory \<Rightarrow> (commit_failure + (bool \<times> bool)) \<times> directory" where
  "persist_call tc e p w =
     (let w1 = ce_others e 2 w in
      case ce_batch e of
        LostBeforeCommit \<Rightarrow> (Inl D1Failed, w1)
      | LostAfterCommit \<Rightarrow> (Inl D1Failed, snd (persistRendezvousPublication tc p w1))
      | Acknowledged \<Rightarrow>
          (case persistRendezvousPublication tc p w1 of
             (Inl f, w2) \<Rightarrow> (Inl (BatchError f), w2) | (Inr a, w2) \<Rightarrow> (Inr a, w2)))"

text \<open>The \<open>catch\<close> of the commit: the exact matcher first, else D1 says where the room is fenced.\<close>

definition recover ::
  "commit_environment \<Rightarrow> publication \<Rightarrow> commit_failure \<Rightarrow> room \<times> directory \<Rightarrow> (commit_failure + commit_reply) \<times> room \<times> directory" where
  "recover e p err s =
     (case d1_read e 5 (rendezvousPublicationMatches p) (snd s) of
        (Inl f, w) \<Rightarrow> (Inl f, fst s, w)
      | (Inr True, w) \<Rightarrow> (Inr (Committed True), fst s, w)
      | (Inr False, w) \<Rightarrow>
          (case reconcile_published e 6 p (fst s, w) of
             (Inl f, t) \<Rightarrow> (Inl f, t)
           | (Inr _, t) \<Rightarrow> (Inl err, t)))"

definition after_rejection ::
  "commit_environment \<Rightarrow> publication \<Rightarrow> room \<times> directory \<Rightarrow> (commit_failure + commit_reply) \<times> room \<times> directory" where
  "after_rejection e p s =
     (case reconcile_published e 3 p s of
        (Inl f, t) \<Rightarrow> recover e p f t
      | (Inr _, t) \<Rightarrow>
          (case d1_read e 4 (signedPublicationConflict p) (snd t) of
             (Inl f, w) \<Rightarrow> recover e p f (fst t, w)
           | (Inr None, w) \<Rightarrow> recover e p Unexplained (fst t, w)
           | (Inr (Some c), w) \<Rightarrow> (Inr (conflict_reply c), fst t, w)))"

definition commit_batch ::
  "bool \<Rightarrow> commit_environment \<Rightarrow> publication \<Rightarrow> room \<times> directory \<Rightarrow> (commit_failure + commit_reply) \<times> room \<times> directory" where
  "commit_batch tc e p s =
     (case persist_call tc e p (snd s) of
        (Inl f, w) \<Rightarrow> recover e p f (fst s, w)
      | (Inr (accepted, visibleChanged), w) \<Rightarrow>
          if accepted then (Inr (Committed visibleChanged), fst s, w) else after_rejection e p (fst s, w))"

definition commitPublication ::
  "bool \<Rightarrow> commit_environment \<Rightarrow> publication \<Rightarrow> room \<times> directory \<Rightarrow> (commit_failure + commit_reply) \<times> room \<times> directory" where
  "commitPublication tc e p s =
     (case d1_read e 0 (signedPublicationConflict p) (snd s) of
        (Inl f, w) \<Rightarrow> (Inl f, fst s, w)
      | (Inr (Some c), w) \<Rightarrow> (Inr (conflict_reply c), fst s, w)
      | (Inr None, w) \<Rightarrow>
          (case reconcile_published e 1 p (fst s, w) of
             (Inl f, t) \<Rightarrow> (Inl f, t)
           | (Inr gen, t) \<Rightarrow>
               if gen \<noteq> pb_expected p then (Inr GenerationConflict, t)
               else
                 (case rotate_to e 2 (Some (pb_generation p)) (fst t) of
                    (Inl f, r) \<Rightarrow> (Inl f, r, snd t)
                  | (Inr _, r) \<Rightarrow> commit_batch tc e p (r, snd t))))"

subsection \<open>Fencing\<close>

text \<open>The room accepts control and client sockets of exactly the generation that D1 publishes.\<close>

definition fenced :: "publication \<Rightarrow> room \<times> directory \<Rightarrow> bool" where
  "fenced p s \<longleftrightarrow>
     currentGeneration (fst s) = map_option ps_generation (presence_at (pb_profile p) (pb_server p) (snd s))"

text \<open>Other transactions keep the tables well formed and leave this publisher's presence alone.\<close>

definition harmless :: "publication \<Rightarrow> (directory \<Rightarrow> directory) \<Rightarrow> bool" where
  "harmless p f \<longleftrightarrow>
     (\<forall>w. (directory_ok w \<longrightarrow> directory_ok (f w)) \<and>
        (observed_by p w \<longrightarrow> observed_by p (f w)) \<and>
        (fresh_publication p w \<longrightarrow> fresh_publication p (f w)) \<and>
        presence_at (pb_profile p) (pb_server p) (f w) = presence_at (pb_profile p) (pb_server p) w)"

lemma rotate_to_fences: "rotate_to e k gen r = (Inr (), r') \<Longrightarrow> currentGeneration r' = gen"
proof -
  assume run: "rotate_to e k gen r = (Inr (), r')"
  then obtain res where rot: "rotateTokenGeneration (ce_clock e k) gen (ce_ledger e k) r = (Inr res, r')"
    by (auto simp: rotate_to_def split: prod.splits sum.splits)
  show ?thesis
  proof (cases "currentGeneration r = gen")
    case True
    with rot show ?thesis by (simp add: rotateTokenGeneration_def)
  next
    case False
    from rotate_outcome(1)[OF this rot] show ?thesis by simp
  qed
qed

lemma reconcile_generation_fences:
  assumes "reconcile_generation e k q sv s = (Inr gen, t)"
  shows "currentGeneration (fst t) = gen \<and> gen = map_option ps_generation (presence_at q sv (snd t)) \<and>
    snd t = ce_others e k (snd s)"
proof -
  let ?w = "ce_others e k (snd s)"
  from assms have "readPublishedGeneration q sv ?w = Inr gen" "\<exists>r. rotate_to e k gen (fst s) = (Inr (), r) \<and> t = (r, ?w)"
    by (auto simp: reconcile_generation_def d1_read_def Let_def split: prod.splits sum.splits if_splits)
  moreover from this(1) have "gen = map_option ps_generation (presence_at q sv ?w)"
    by (auto simp: readPublishedGeneration_def split: option.splits if_splits)
  ultimately show ?thesis using rotate_to_fences by fastforce
qed

lemma reconcile_fences:
  "reconcile_published e k p s = (Inr gen, t) \<Longrightarrow> fenced p t \<and>
   gen = map_option ps_generation (presence_at (pb_profile p) (pb_server p) (snd t)) \<and> snd t = ce_others e k (snd s)"
  using reconcile_generation_fences[of e k "pb_profile p" "pb_server p" s gen t] by (simp add: fenced_def)

text \<open>An upgrade passes in the room of a publication only for the generation that D1 publishes.\<close>

lemma hex_not_prefixed: "is_hex64 sv \<Longrightarrow> take 8 sv \<noteq> game_room_prefix"
proof
  assume hex: "is_hex64 sv" and pre: "take 8 sv = game_room_prefix"
  have "CHR ''g'' \<in> set game_room_prefix" by (simp add: game_room_prefix_def)
  then have "CHR ''g'' \<in> set (take 8 sv)" by (simp only: pre)
  then have "CHR ''g'' \<in> set sv" by (rule in_set_takeD)
  with hex have "is_hex_digit (CHR ''g'')" unfolding is_hex_def list_all_iff by blast
  then show False by (simp add: is_hex_digit_def)
qed

lemma upgrade_of_publication:
  assumes "is_hex64 (pb_server p)" "reconcileUpgradeGeneration e k (publicationRoomName p) gen s = (Inr True, t)"
  shows "fenced p t" "currentGeneration (fst t) = Some gen"
proof -
  have eight: "length game_room_prefix = 8" by (simp add: game_room_prefix_def)
  have "(case reconcile_published e k p s of (Inl f, t) \<Rightarrow> (Inl f, t)
         | (Inr found, t) \<Rightarrow> (Inr (found = Some gen), t)) = (Inr True, t)"
  proof (cases "pb_profile p = GameV2")
    case True
    with assms eight show ?thesis by (simp add: reconcileUpgradeGeneration_def publicationRoomName_def Let_def)
  next
    case False
    then have "pb_profile p = ClassicV3" by (simp add: pb_profile_def split: publication_body.splits)
    with False assms hex_not_prefixed[OF assms(1)] show ?thesis
      by (simp add: reconcileUpgradeGeneration_def publicationRoomName_def Let_def)
  qed
  then obtain g where g: "reconcile_published e k p s = (Inr g, t)" "g = Some gen"
    by (auto split: prod.splits sum.splits)
  from reconcile_fences[OF g(1)] show "fenced p t" by blast
  from reconcile_generation_fences[OF g(1)] g(2) show "currentGeneration (fst t) = Some gen" by simp
qed

lemma matches_presence:
  "rendezvousPublicationMatches p w \<Longrightarrow>
   map_option ps_generation (presence_at (pb_profile p) (pb_server p) w) = Some (pb_generation p)"
  by (auto simp: rendezvousPublicationMatches_def publicationPresencePredicate_def split: option.splits)

text \<open>A failure that leaves the fence unknown: the room or the stored generation is broken.\<close>

definition room_broken :: "commit_failure \<Rightarrow> bool" where
  "room_broken f \<longleftrightarrow> f = InvalidGeneration \<or> (\<exists>g. f = RoomFailed g)"

lemma reconcile_failure:
  "reconcile_published e k p s = (Inl f, t) \<Longrightarrow> ce_answers e k \<Longrightarrow> room_broken f \<and> snd t = ce_others e k (snd s)"
  by (auto simp: reconcile_generation_def d1_read_def Let_def rotate_to_def room_broken_def
      split: prod.splits sum.splits if_splits)

lemma recover_cases:
  assumes run: "recover e p err s = (res, t)" and answered: "\<And>k. ce_answers e k"
  shows "(res = Inr (Committed True) \<and> rendezvousPublicationMatches p (ce_others e 5 (snd s)) \<and>
        t = (fst s, ce_others e 5 (snd s))) \<or>
    (\<not> rendezvousPublicationMatches p (ce_others e 5 (snd s)) \<and>
       (res = Inl err \<and> fenced p t \<or> (\<exists>f. res = Inl f \<and> room_broken f)))"
proof -
  let ?w = "ce_others e 5 (snd s)"
  have read: "d1_read e 5 (rendezvousPublicationMatches p) (snd s) = (Inr (rendezvousPublicationMatches p ?w), ?w)"
    using answered by (simp add: d1_read_def Let_def)
  show ?thesis
  proof (cases "rendezvousPublicationMatches p ?w")
    case True
    with run read show ?thesis by (simp add: recover_def)
  next
    case False
    obtain x u where rec: "reconcile_published e 6 p (fst s, ?w) = (x, u)"
      by (cases "reconcile_published e 6 p (fst s, ?w)")
    from run read False rec have res: "(res, t) = (case x of Inl f \<Rightarrow> (Inl f, u) | Inr _ \<Rightarrow> (Inl err, u))"
      by (simp add: recover_def)
    show ?thesis
    proof (cases x)
      case (Inl f)
      with rec have "room_broken f" using reconcile_failure answered by blast
      with False res Inl show ?thesis by auto
    next
      case (Inr g)
      with rec have "fenced p u" using reconcile_fences by blast
      with False res Inr show ?thesis by auto
    qed
  qed
qed

lemma harmless_keeps:
  assumes "harmless p f"
  shows "directory_ok w \<Longrightarrow> directory_ok (f w)" "observed_by p w \<Longrightarrow> observed_by p (f w)"
    "fresh_publication p w \<Longrightarrow> fresh_publication p (f w)"
    "presence_at (pb_profile p) (pb_server p) (f w) = presence_at (pb_profile p) (pb_server p) w"
  using assms by (simp_all add: harmless_def)

definition settled :: "publication \<Rightarrow> (commit_failure + commit_reply) \<Rightarrow> room \<times> directory \<Rightarrow> bool" where
  "settled p res t \<longleftrightarrow>
     (case res of
        Inr (Committed _) \<Rightarrow> fenced p t \<and> currentGeneration (fst t) = Some (pb_generation p)
      | Inr _ \<Rightarrow> fenced p t
      | Inl f \<Rightarrow> fenced p t \<or> room_broken f)"

lemma recover_unmatched:
  assumes "recover e p err s = (res, t)" "\<And>k. ce_answers e k" "harmless p (ce_others e 5)" "fresh_publication p (snd s)"
  shows "settled p res t"
proof -
  have "\<not> rendezvousPublicationMatches p (ce_others e 5 (snd s))"
    using harmless_keeps(3)[OF assms(3,4)] by (rule fresh_unmatched)
  with recover_cases[OF assms(1,2)] show ?thesis by (auto simp: settled_def)
qed

lemma recover_own:
  assumes "recover e p err s = (res, t)" "\<And>k. ce_answers e k" "currentGeneration (fst s) = Some (pb_generation p)"
  shows "settled p res t"
  using recover_cases[OF assms(1,2)] assms(3) matches_presence[of p "ce_others e 5 (snd s)"]
  by (auto simp: settled_def fenced_def)

lemma after_rejection_settled:
  assumes run: "after_rejection e p s = (res, t)" and answered: "\<And>k. ce_answers e k"
    and others: "\<And>k. harmless p (ce_others e k)" and fresh: "fresh_publication p (snd s)"
  shows "settled p res t"
proof -
  obtain x u where rec: "reconcile_published e 3 p s = (x, u)" by (cases "reconcile_published e 3 p s")
  have u: "snd u = ce_others e 3 (snd s)"
    using rec reconcile_fences[where e = e and k = 3] reconcile_failure[where e = e and k = 3, OF _ answered] by (cases x) auto
  then have fresh_u: "fresh_publication p (snd u)" using harmless_keeps(3)[OF others fresh] by simp
  let ?w = "ce_others e 4 (snd u)"
  have fresh_w: "fresh_publication p ?w" by (rule harmless_keeps(3)[OF others fresh_u])
  show ?thesis
  proof (cases x)
    case (Inl f)
    with run rec have "recover e p f u = (res, t)" by (simp add: after_rejection_def)
    then show ?thesis by (rule recover_unmatched[OF _ answered others fresh_u])
  next
    case (Inr g)
    with rec have fen: "fenced p u" using reconcile_fences by blast
    have read: "d1_read e 4 (signedPublicationConflict p) (snd u) = (Inr (signedPublicationConflict p ?w), ?w)"
      using answered by (simp add: d1_read_def Let_def)
    show ?thesis
    proof (cases "signedPublicationConflict p ?w")
      case None
      with run rec Inr read have "recover e p Unexplained (fst u, ?w) = (res, t)" by (simp add: after_rejection_def)
      then show ?thesis by (rule recover_unmatched[OF _ answered others]) (simp add: fresh_w)
    next
      case (Some c)
      with run rec Inr read have "res = Inr (conflict_reply c)" "t = (fst u, ?w)" by (simp_all add: after_rejection_def)
      with fen harmless_keeps(4)[OF others] show ?thesis by (cases c) (simp_all add: settled_def fenced_def)
    qed
  qed
qed

lemma persisted_generation:
  assumes "directory_ok w" "publication_ok p" "observed_by p w" "fresh_publication p w"
    and "persistRendezvousPublication tc p w = (Inr (accepted, changed), w')"
  shows "if accepted
    then map_option ps_generation (presence_at (pb_profile p) (pb_server p) w') = Some (pb_generation p)
    else fresh_publication p w'"
  using assms(5) reclaimed_ok(3)[of p "pb_now p" w] assms(4)
  by (auto simp: publication_cases[OF assms(1-4)] Let_def published_presence new_presence_def presence_row_of_def
      split: if_splits)

lemma commit_batch_settled:
  assumes run: "commit_batch tc e p s = (res, t)" and answered: "\<And>k. ce_answers e k"
    and others: "\<And>k. harmless p (ce_others e k)"
    and ok: "directory_ok (snd s)" "publication_ok p" "observed_by p (snd s)" "fresh_publication p (snd s)"
    and gen: "currentGeneration (fst s) = Some (pb_generation p)"
  shows "settled p res t"
proof -
  let ?w = "ce_others e 2 (snd s)"
  have ok': "directory_ok ?w" "observed_by p ?w" "fresh_publication p ?w"
    using harmless_keeps(1-3)[OF others] ok by blast+
  obtain x u where call: "persist_call tc e p (snd s) = (x, u)" by (cases "persist_call tc e p (snd s)")
  show ?thesis
  proof (cases x)
    case (Inl f)
    with run call have "recover e p f (fst s, u) = (res, t)" by (simp add: commit_batch_def)
    then show ?thesis by (rule recover_own[OF _ answered]) (simp add: gen)
  next
    case (Inr a)
    obtain accepted changed where a: "a = (accepted, changed)" by (cases a)
    with call Inr have pers: "persistRendezvousPublication tc p ?w = (Inr (accepted, changed), u)"
      by (auto simp: persist_call_def Let_def split: batch_answer.splits prod.splits sum.splits)
    note g = persisted_generation[OF ok'(1) ok(2) ok'(2,3) pers]
    show ?thesis
    proof (cases accepted)
      case True
      with run call Inr a have "res = Inr (Committed changed)" "t = (fst s, u)" by (simp_all add: commit_batch_def)
      with g True gen show ?thesis by (auto simp: settled_def fenced_def)
    next
      case False
      with run call Inr a have "after_rejection e p (fst s, u) = (res, t)" by (simp add: commit_batch_def)
      then show ?thesis by (rule after_rejection_settled[OF _ answered others]) (use g False in simp)
    qed
  qed
qed

subsection \<open>Properties\<close>

text \<open>Once the generation that D1 publishes is the expected one: the rotation, then the batch.\<close>

lemma rotated_commit_settled:
  assumes "directory_ok w" "publication_ok p" "observed_by p w" "fresh_publication p w"
    and others: "\<And>k. harmless p (ce_others e k)" and answered: "\<And>k. ce_answers e k"
    and rot: "rotate_to e 2 (Some (pb_generation p)) r1 = (y, r2)"
    and run: "(case y of Inl f \<Rightarrow> (Inl f, r2, w) | Inr _ \<Rightarrow> commit_batch tc e p (r2, w)) = (res, t)"
  shows "settled p res t"
proof (cases y)
  case (Inl f)
  with rot run show ?thesis by (auto simp: rotate_to_def settled_def room_broken_def split: prod.splits sum.splits)
next
  case (Inr v)
  then have "currentGeneration r2 = Some (pb_generation p)" using rot by (auto dest: rotate_to_fences)
  then show ?thesis
    using run Inr assms(1-4) commit_batch_settled[where s = "(r2, w)", OF _ answered others] by simp
qed

text \<open>
  C32: However the batch of a publication ends -- acknowledged, refused, aborted, or with an
  answer that was lost after or before the commit -- the room ends fenced at exactly the
  generation that D1 publishes, on every reply and on every failure but one of the room
  itself; it claims success only for the generation it serves, and a refusal before the batch
  leaves the room as it was. This is under two conditions: every read that the handler makes of
  D1 is answered (a lost batch followed by a failed read leaves the room where its rotation put
  it), and the transactions that run in between keep the tables well formed and leave this
  publisher's presence, commit token and activity clock alone (\<open>harmless\<close>).
\<close>

theorem commit_leaves_room_fenced:
  assumes "directory_ok w" "publication_ok p" "observed_by p w" "fresh_publication p w"
    and others: "\<And>k. harmless p (ce_others e k)" and answered: "\<And>k. ce_answers e k"
    and run: "commitPublication tc e p (r, w) = (res, t)"
  shows "fst t = r \<and> (\<exists>c. res = Inr (conflict_reply c)) \<or>
    (case res of
       Inr (Committed _) \<Rightarrow> fenced p t \<and> currentGeneration (fst t) = Some (pb_generation p)
     | Inr _ \<Rightarrow> fenced p t
     | Inl f \<Rightarrow> fenced p t \<or> room_broken f)"
proof -
  let ?w0 = "ce_others e 0 w"
  have read: "d1_read e 0 (signedPublicationConflict p) w = (Inr (signedPublicationConflict p ?w0), ?w0)"
    using answered by (simp add: d1_read_def Let_def)
  show ?thesis
  proof (cases "signedPublicationConflict p ?w0")
    case (Some c)
    with run read have "res = Inr (conflict_reply c)" "fst t = r" by (auto simp: commitPublication_def)
    then show ?thesis by blast
  next
    case None
    obtain x u where rec: "reconcile_published e 1 p (r, ?w0) = (x, u)" by (cases "reconcile_published e 1 p (r, ?w0)")
    have "settled p res t"
    proof (cases x)
      case (Inl f)
      with run read None rec have "res = Inl f" by (auto simp: commitPublication_def)
      with rec Inl reconcile_failure[OF _ answered] show ?thesis by (auto simp: settled_def)
    next
      case (Inr g)
      with rec have u: "fenced p u" "snd u = ce_others e 1 ?w0" using reconcile_fences by fastforce+
      show ?thesis
      proof (cases "g = pb_expected p")
        case False
        with run read None rec Inr have "res = Inr GenerationConflict" "t = u" by (simp_all add: commitPublication_def)
        with u show ?thesis by (simp add: settled_def)
      next
        case True
        obtain y r2 where rot: "rotate_to e 2 (Some (pb_generation p)) (fst u) = (y, r2)"
          by (cases "rotate_to e 2 (Some (pb_generation p)) (fst u)")
        have "directory_ok (snd u)" "observed_by p (snd u)" "fresh_publication p (snd u)"
          unfolding u(2) using assms(1,3,4) harmless_keeps(1-3)[OF others] by blast+
        moreover have "(case y of Inl f \<Rightarrow> (Inl f, r2, snd u) | Inr _ \<Rightarrow> commit_batch tc e p (r2, snd u)) = (res, t)"
          using run read None rec \<open>x = Inr g\<close> True rot by (cases y) (simp_all add: commitPublication_def)
        ultimately show ?thesis using rotated_commit_settled[OF _ assms(2) _ _ others answered rot] by blast
      qed
    qed
    then show ?thesis unfolding settled_def by blast
  qed
qed

definition example_environment :: commit_environment where
  "example_environment =
     \<lparr>ce_others = (\<lambda>_ w. w), ce_answers = (\<lambda>_. True), ce_batch = LostAfterCommit, ce_clock = (\<lambda>_. 900),
      ce_ledger = (\<lambda>_. [])\<rparr>"

theorem commit_leaves_room_fenced_witness:
  "\<exists>t. commitPublication True example_environment example_publication
       ((example_room (\<lambda>_. True))\<lparr>currentGeneration := Some (replicate 64 (CHR ''e''))\<rparr>, example_directory) =
       (Inr (Committed True), t) \<and>
     fenced example_publication t \<and> currentGeneration (fst t) = Some (replicate 64 (CHR ''c''))"
proof -
  let ?p = example_publication and ?w = example_directory and ?e = example_environment
  let ?r = "(example_room (\<lambda>_. True))\<lparr>currentGeneration := Some (replicate 64 (CHR ''e''))\<rparr>"
  have env: "harmless ?p (ce_others ?e k)" "ce_answers ?e k" for k
    by (simp_all add: harmless_def example_environment_def)
  obtain res t where run: "commitPublication True ?e ?p (?r, ?w) = (res, t)" by (metis surj_pair)
  have gen: "pb_generation ?p = replicate 64 (CHR ''c'')" by (simp add: example_publication_def)
  have base: "dr_base ?w = example_database" by (simp add: example_directory_def)
  have first: "signedPublicationConflict ?p ?w = None"
    by (simp add: signedPublicationConflict_def readPublisherReplayState_def newest_replay_def base example_access_defs
        js_sort_Cons lineage_nonce_def)
      (simp add: example_publication_def pb_profile_def lineage_def UINT64_MAXIMUM_SEQUENCE_def comparePublishSequences_def)
  have read: "readPublishedGeneration (pb_profile ?p) (pb_server ?p) ?w = Inr (Some (replicate 64 (CHR ''e'')))"
    by (simp add: readPublishedGeneration_def presence_at_def base)
      (simp add: example_access_defs example_publication_def pb_profile_def presence_key_def is_hex_digit_def)
  have rec: "reconcile_published ?e 1 ?p (?r, ?w) = (Inr (Some (replicate 64 (CHR ''e''))), ?r, ?w)"
  proof -
    have "d1_read ?e 1 (readPublishedGeneration (pb_profile ?p) (pb_server ?p)) ?w = (Inr (Inr (Some (replicate 64 (CHR ''e'')))), ?w)"
      by (simp add: d1_read_def Let_def) (simp add: example_environment_def read)
    moreover have "rotate_to ?e 1 (Some (replicate 64 (CHR ''e''))) ?r = (Inr (), ?r)"
      by (simp add: rotate_to_def rotateTokenGeneration_def)
    ultimately show ?thesis by (simp add: reconcile_generation_def)
  qed
  obtain y r2 where rot: "rotate_to ?e 2 (Some (pb_generation ?p)) ?r = (y, r2)" by fastforce
  have "y = Inr ()"
  proof -
    obtain res' r' where go: "rotateTokenGeneration 900 (Some (pb_generation ?p)) [] ?r = (res', r')" by fastforce
    have "no_faults ?r" by (simp add: no_faults_def example_room_def)
    moreover have "earliestRetainedExpiryMs [] = Inr None" by code_simp
    ultimately have "res' = Inr ()"
      using rotate_outcome(2)[OF _ go] by (simp add: gen)
    with rot go show ?thesis by (simp add: rotate_to_def) (simp add: example_environment_def)
  qed
  with rot have cur: "currentGeneration r2 = Some (pb_generation ?p)" by (auto dest: rotate_to_fences)
  have exp: "pb_expected ?p = Some (replicate 64 (CHR ''e''))" by (simp add: example_publication_def)
  let ?w2 = "published ?p ?w"
  have pers: "persistRendezvousPublication True ?p ?w = (Inr (True, True), ?w2)"
    using example_accepts example_publishable example_changed
    by (simp add: publication_cases[OF example_directory_ok example_publication_ok example_observed
          example_publication_fresh] Let_def example_reclaimed base)
  have m: "rendezvousPublicationMatches ?p ?w2"
    using published_matches[OF example_directory_ok example_publication_ok _ example_publishable example_observed]
      example_accepts base by simp
  have "persist_call True ?e ?p ?w = (Inl D1Failed, ?w2)"
    by (simp add: persist_call_def Let_def) (simp add: example_environment_def pers)
  moreover have "recover ?e ?p D1Failed (r2, ?w2) = (Inr (Committed True), r2, ?w2)"
    by (simp add: recover_def d1_read_def Let_def) (simp add: example_environment_def m)
  ultimately have "commit_batch True ?e ?p (r2, ?w) = (Inr (Committed True), r2, ?w2)"
    by (simp add: commit_batch_def)
  moreover have "d1_read ?e 0 (signedPublicationConflict ?p) ?w = (Inr None, ?w)"
    by (simp add: d1_read_def Let_def) (simp add: example_environment_def first)
  ultimately have "res = Inr (Committed True)"
    using run rec rot \<open>y = Inr ()\<close> exp by (simp add: commitPublication_def)
  moreover have "Committed True \<noteq> conflict_reply c" for c by (cases c) simp_all
  ultimately show ?thesis
    using run gen commit_leaves_room_fenced[OF example_directory_ok example_publication_ok example_observed
      example_publication_fresh env run] by auto
qed

end
