(* ===== verification/DirectoryState.thy ===== *)
theory DirectoryState
  imports PublicationProperties
begin

text \<open>
  The directory as builders and maintenance see it: \<open>expireDirectoryEntries\<close>,
  \<open>commitDirectoryArtifactPublication\<close> and the validated reads of \<open>src/src/directory-state.ts\<close>,
  over the directory tables and the artifact tables of \<open>0013_access_token_profiles.sql\<close>. Each
  operation is one D1 batch that ends with an assertion; commit tokens are arguments.
\<close>

subsection \<open>Tables\<close>

record artifact_row =
  af_profile :: directory_profile
  af_revision :: int
  af_generation :: int
  af_generated :: int
  af_expires :: int
  af_model :: string
  af_html :: string
  af_xml :: string
  af_json :: string
  af_manifest :: string
  af_html_bytes :: int
  af_xml_bytes :: int
  af_json_bytes :: int
  af_manifest_bytes :: int
  af_published :: int

record marker_row =
  mk_profile :: directory_profile
  mk_token :: string
  mk_revision :: int
  mk_generation :: int
  mk_at :: int

record history_row =
  hs_profile :: directory_profile
  hs_generation :: int
  hs_at :: int

record expiry_row =
  ex_profile :: directory_profile
  ex_token :: string
  ex_cutoff :: int
  ex_at :: int
  ex_base :: int
  ex_visible :: "int option"
  ex_entries :: int
  ex_presence :: int

record directory_state =
  st_directory :: directory
  st_artifacts :: "artifact_row list"
  st_markers :: "marker_row list"
  st_history :: "history_row list"
  st_expiry :: "expiry_row list"

definition LAST_TIMESTAMP :: int where "LAST_TIMESTAMP = 253402300799"

definition ZERO_SHA256 :: string where "ZERO_SHA256 = replicate 64 (CHR ''0'')"

definition artifact_row_ok :: "artifact_row \<Rightarrow> bool" where
  "artifact_row_ok a \<longleftrightarrow>
     stored_integer (af_revision a) \<and> stored_integer (af_generation a) \<and>
     list_all (\<lambda>t. 0 \<le> t \<and> t \<le> LAST_TIMESTAMP) [af_generated a, af_expires a, af_published a] \<and>
     list_all is_hex64 [af_model a, af_html a, af_xml a, af_json a, af_manifest a] \<and>
     list_all (\<lambda>n. 0 \<le> n \<and> n \<le> 4194304) [af_html_bytes a, af_xml_bytes a, af_json_bytes a] \<and>
     0 \<le> af_manifest_bytes a \<and> af_manifest_bytes a \<le> 262144 \<and>
     (if af_generation a = 0
      then list_all (\<lambda>n. n = 0) [af_revision a, af_generated a, af_expires a, af_published a,
             af_html_bytes a, af_xml_bytes a, af_json_bytes a, af_manifest_bytes a] \<and>
           list_all (\<lambda>h. h = ZERO_SHA256) [af_model a, af_html a, af_xml a, af_json a, af_manifest a]
      else af_generated a \<le> af_published a \<and> af_published a < af_expires a \<and>
           list_all (\<lambda>n. 0 < n) [af_html_bytes a, af_xml_bytes a, af_json_bytes a, af_manifest_bytes a])"

definition marker_row_ok :: "marker_row \<Rightarrow> bool" where
  "marker_row_ok m \<longleftrightarrow>
     is_hex64 (mk_token m) \<and> stored_integer (mk_revision m) \<and> 1 \<le> mk_generation m \<and>
     mk_generation m \<le> max_safe_integer \<and> 0 \<le> mk_at m \<and> mk_at m \<le> LAST_TIMESTAMP"

definition history_row_ok :: "history_row \<Rightarrow> bool" where
  "history_row_ok h \<longleftrightarrow>
     1 \<le> hs_generation h \<and> hs_generation h \<le> max_safe_integer \<and> 0 \<le> hs_at h \<and> hs_at h \<le> LAST_TIMESTAMP"

definition expiry_row_ok :: "expiry_row \<Rightarrow> bool" where
  "expiry_row_ok x \<longleftrightarrow>
     is_hex64 (ex_token x) \<and> stored_integer (ex_cutoff x) \<and> stored_integer (ex_at x) \<and>
     stored_integer (ex_base x) \<and>
     (case ex_visible x of None \<Rightarrow> True | Some v \<Rightarrow> v = ex_base x + 1 \<and> 1 \<le> v \<and> v \<le> max_safe_integer) \<and>
     0 \<le> ex_entries x \<and> ex_entries x \<le> 512 \<and> ex_entries x \<le> ex_presence x \<and> ex_presence x \<le> 512 \<and>
     (ex_visible x = None \<longleftrightarrow> ex_entries x = 0)"

definition on_directory :: "directory statement \<Rightarrow> directory_state statement" where
  "on_directory s w = map_option (\<lambda>(n, d). (n, w\<lparr>st_directory := d\<rparr>)) (s (st_directory w))"

subsection \<open>Expiry\<close>

definition stale_presence :: "directory_profile \<Rightarrow> int \<Rightarrow> presence_row \<Rightarrow> bool" where
  "stale_presence q cutoff x \<longleftrightarrow> ps_profile x = q \<and> ps_seen x \<le> cutoff"

definition stale_entry :: "directory_profile \<Rightarrow> int \<Rightarrow> directory \<Rightarrow> entry_row \<Rightarrow> bool" where
  "stale_entry q cutoff d e \<longleftrightarrow>
     en_profile e = q \<and>
     (case presence_at q (en_server e) d of None \<Rightarrow> False | Some x \<Rightarrow> ps_seen x \<le> cutoff)"

definition expired_entries :: "directory_profile \<Rightarrow> int \<Rightarrow> directory \<Rightarrow> int" where
  "expired_entries q cutoff d = int (count (stale_entry q cutoff d) (dr_entries d))"

definition expired_presence :: "directory_profile \<Rightarrow> int \<Rightarrow> directory \<Rightarrow> int" where
  "expired_presence q cutoff d = int (count (stale_presence q cutoff) (db_presence (dr_base d)))"

definition expiry_row_of :: "directory_profile \<Rightarrow> string \<Rightarrow> int \<Rightarrow> int \<Rightarrow> int \<Rightarrow> directory \<Rightarrow> expiry_row" where
  "expiry_row_of q token cutoff now base d =
     \<lparr>ex_profile = q, ex_token = token, ex_cutoff = cutoff, ex_at = now, ex_base = base,
      ex_visible = (if expired_entries q cutoff d > 0 then Some (base + 1) else None),
      ex_entries = expired_entries q cutoff d, ex_presence = expired_presence q cutoff d\<rparr>"

definition expiry_merge :: "expiry_row \<Rightarrow> expiry_row \<Rightarrow> expiry_row" where
  "expiry_merge old new =
     old\<lparr>ex_token := ex_token new, ex_cutoff := ex_cutoff new, ex_at := ex_at new, ex_base := ex_base new,
         ex_visible := ex_visible new, ex_entries := ex_entries new, ex_presence := ex_presence new\<rparr>"

definition markExpiry :: "directory_profile \<Rightarrow> string \<Rightarrow> int \<Rightarrow> int \<Rightarrow> directory_state statement" where
  "markExpiry q token cutoff now w =
     (case revision_of q (st_directory w) of
        None \<Rightarrow> Some (0, w)
      | Some base \<Rightarrow>
          let x = expiry_row_of q token cutoff now base (st_directory w) in
          if \<not> upsert_ok expiry_row_ok ex_profile always expiry_merge x (st_expiry w) then None
          else
            let (n, xs) = upsert_rows ex_profile always expiry_merge x (st_expiry w) in
            Some (n, w\<lparr>st_expiry := xs\<rparr>))"

definition expiry_of :: "directory_profile \<Rightarrow> string \<Rightarrow> directory_state \<Rightarrow> expiry_row option" where
  "expiry_of q token w =
     (case lookup ex_profile q (st_expiry w) of
        None \<Rightarrow> None | Some x \<Rightarrow> if ex_token x = token then Some x else None)"

definition bumpExpired :: "directory_profile \<Rightarrow> string \<Rightarrow> int \<Rightarrow> directory_state statement" where
  "bumpExpired q token now w =
     (let hit = (\<lambda>r. rv_profile r = q \<and>
            (case expiry_of q token w of None \<Rightarrow> False | Some x \<Rightarrow> ex_visible x = Some (rv_revision r + 1)));
          bump = (\<lambda>r. r\<lparr>rv_revision := (case expiry_of q token w of
                      None \<Rightarrow> rv_revision r
                    | Some x \<Rightarrow> (case ex_visible x of None \<Rightarrow> rv_revision r | Some v \<Rightarrow> v)),
                  rv_updated := max (rv_updated r) now\<rparr>);
          d = st_directory w in
      if list_ex (\<lambda>r. hit r \<and> rv_revision (bump r) < 0) (dr_revisions d) then None
      else Some (count hit (dr_revisions d),
                 w\<lparr>st_directory := d\<lparr>dr_revisions := update_where hit bump (dr_revisions d)\<rparr>\<rparr>))"

definition queueExpired :: "bool \<Rightarrow> directory_profile \<Rightarrow> string \<Rightarrow> int \<Rightarrow> directory_state statement" where
  "queueExpired tc q token now w =
     (case (revision_of q (st_directory w), expiry_of q token w) of
        (Some revision, Some x) \<Rightarrow>
          if ex_visible x = Some revision \<and> ex_visible x = Some (ex_base x + 1)
          then on_directory (insert_outbox tc \<lparr>ob_profile = q, ob_revision = revision, ob_created = now\<rparr>) w
          else Some (0, w)
      | _ \<Rightarrow> Some (0, w))"

definition deleteExpiredEntries :: "directory_profile \<Rightarrow> int \<Rightarrow> directory statement" where
  "deleteExpiredEntries q cutoff d =
     Some (count (stale_entry q cutoff d) (dr_entries d),
           d\<lparr>dr_entries := filter (\<lambda>e. \<not> stale_entry q cutoff d e) (dr_entries d)\<rparr>)"

text \<open>DELETE from \<open>server_presence\<close> cascades to the entries and the activity of the deleted rows.\<close>

definition deleteExpiredPresence :: "directory_profile \<Rightarrow> int \<Rightarrow> directory statement" where
  "deleteExpiredPresence q cutoff d =
     (let rows = db_presence (dr_base d); stale = stale_presence q cutoff;
          gone = map presence_key (filter stale rows) in
      Some (count stale rows,
        d\<lparr>dr_base := (dr_base d)\<lparr>db_presence := filter (\<lambda>x. \<not> stale x) rows\<rparr>,
          dr_entries := filter (\<lambda>e. entry_key e \<notin> set gone) (dr_entries d),
          dr_activity := filter (\<lambda>a. activity_key a \<notin> set gone) (dr_activity d),
          dr_buckets := filter (\<lambda>b. (bk_profile b, bk_server b) \<notin> set gone) (dr_buckets d)\<rparr>))"

definition expiryPredicate :: "directory_profile \<Rightarrow> string \<Rightarrow> int \<Rightarrow> int \<Rightarrow> directory_state \<Rightarrow> bool" where
  "expiryPredicate q token cutoff now w \<longleftrightarrow>
     (let d = st_directory w in
      case (expiry_of q token w, revision_of q d) of
        (Some x, Some revision) \<Rightarrow>
          ex_cutoff x = cutoff \<and> ex_at x = now \<and>
          \<not> list_ex (stale_presence q cutoff) (db_presence (dr_base d)) \<and>
          \<not> list_ex (stale_entry q cutoff d) (dr_entries d) \<and>
          (case ex_visible x of
             None \<Rightarrow> ex_entries x = 0 \<and> revision = ex_base x
           | Some v \<Rightarrow>
               v = ex_base x + 1 \<and> ex_entries x > 0 \<and> revision = v \<and>
               list_ex (\<lambda>o1. ob_profile o1 = q \<and> ob_revision o1 = v \<and> ob_created o1 = ex_at x) (dr_outbox d) \<and>
               \<not> list_ex (\<lambda>o1. ob_profile o1 = q \<and> ob_revision o1 \<noteq> v) (dr_outbox d))
      | _ \<Rightarrow> False)"

definition expiryAssertion :: "directory_profile \<Rightarrow> string \<Rightarrow> int \<Rightarrow> int \<Rightarrow> directory_state statement" where
  "expiryAssertion q token cutoff now w = (if expiryPredicate q token cutoff now w then Some (0, w) else None)"

definition expiry_batch :: "bool \<Rightarrow> directory_profile \<Rightarrow> string \<Rightarrow> int \<Rightarrow> int \<Rightarrow> directory_state statement list" where
  "expiry_batch tc q token cutoff now =
     [markExpiry q token cutoff now, bumpExpired q token now, queueExpired tc q token now,
      on_directory (deleteExpiredEntries q cutoff), on_directory (deleteExpiredPresence q cutoff),
      expiryAssertion q token cutoff now, (\<lambda>w. Some (0, w))]"

datatype directory_error = InvalidArgument | TransactionFailed | InvalidMarker | InvariantsViolated | InvalidState

definition MAX_DIRECTORY_ENTRIES_PER_PROFILE :: int where "MAX_DIRECTORY_ENTRIES_PER_PROFILE = 512"

text \<open>The last statement of the batch reads the marker that the first one wrote.\<close>

definition expiry_outcome :: "nat list \<Rightarrow> expiry_row option \<Rightarrow> directory_error + (int \<times> bool)" where
  "expiry_outcome results marker =
     (case marker of
        None \<Rightarrow> Inl InvalidMarker
      | Some x \<Rightarrow>
          let revision = results ! 1; outbox = results ! 2 in
          if length results \<noteq> 7 then Inl TransactionFailed
          else if revision > 1 \<or> revision = 0 \<and> outbox \<noteq> 0 \<or> revision = 1 \<and> (outbox < 1 \<or> outbox > 2) \<or>
             results ! 5 \<noteq> 0 \<or> (ex_entries x = 0) \<noteq> (revision = 0) \<or>
             ex_entries x > MAX_DIRECTORY_ENTRIES_PER_PROFILE
          then Inl InvariantsViolated
          else Inr (ex_entries x, ex_visible x \<noteq> None))"

definition expireDirectoryEntries ::
  "bool \<Rightarrow> directory_profile \<Rightarrow> string \<Rightarrow> int \<Rightarrow> int \<Rightarrow> directory_state \<Rightarrow>
   (directory_error + (int \<times> bool)) \<times> directory_state" where
  "expireDirectoryEntries tc q token cutoff now w =
     (if \<not> stored_integer cutoff \<or> \<not> stored_integer now \<or> cutoff > now then (Inl InvalidArgument, w)
      else case run_batch (expiry_batch tc q token cutoff now) w of
        None \<Rightarrow> (Inl TransactionFailed, w)
      | Some (results, w1) \<Rightarrow> (expiry_outcome results (expiry_of q token w1), w1))"

subsection \<open>Checkpoints\<close>

definition validateArtifactCommit :: "artifact_row \<Rightarrow> bool" where
  "validateArtifactCommit c \<longleftrightarrow>
     current_profile (af_profile c) \<and>
     list_all stored_integer [af_revision c, af_generation c, af_generated c, af_expires c, af_html_bytes c,
       af_xml_bytes c, af_json_bytes c, af_manifest_bytes c, af_published c] \<and>
     1 \<le> af_generation c \<and> af_generated c \<le> af_published c \<and> af_published c < af_expires c \<and>
     list_all is_hex64 [af_model c, af_html c, af_xml c, af_json c, af_manifest c] \<and>
     list_all (\<lambda>n. 1 \<le> n \<and> n \<le> 4194304) [af_html_bytes c, af_xml_bytes c, af_json_bytes c] \<and>
     1 \<le> af_manifest_bytes c \<and> af_manifest_bytes c \<le> 262144"

definition marker_merge :: "marker_row \<Rightarrow> marker_row \<Rightarrow> marker_row" where
  "marker_merge old new =
     old\<lparr>mk_token := mk_token new, mk_revision := mk_revision new, mk_generation := mk_generation new, mk_at := mk_at new\<rparr>"

definition marker_of :: "artifact_row \<Rightarrow> string \<Rightarrow> marker_row" where
  "marker_of c token =
     \<lparr>mk_profile = af_profile c, mk_token = token, mk_revision = af_revision c, mk_generation = af_generation c,
      mk_at = af_published c\<rparr>"

definition markCommit :: "artifact_row \<Rightarrow> string \<Rightarrow> directory_state statement" where
  "markCommit c token w =
     (let m = marker_of c token in
      if \<not> upsert_ok marker_row_ok mk_profile always marker_merge m (st_markers w) then None
      else
        let (n, ms) = upsert_rows mk_profile always marker_merge m (st_markers w) in
        Some (n, w\<lparr>st_markers := ms\<rparr>))"

text \<open>A newer generation of a revision not older, or exactly the artifact already published.\<close>

definition supersedes :: "artifact_row \<Rightarrow> directory_state \<Rightarrow> artifact_row \<Rightarrow> bool" where
  "supersedes c w a \<longleftrightarrow>
     af_profile a = af_profile c \<and> revision_of (af_profile a) (st_directory w) = Some (af_revision c) \<and>
     (af_generation a < af_generation c \<and> af_revision a \<le> af_revision c \<or> a = c)"

definition updateArtifact :: "artifact_row \<Rightarrow> directory_state statement" where
  "updateArtifact c w =
     (if list_ex (\<lambda>a. supersedes c w a \<and> \<not> artifact_row_ok c) (st_artifacts w) then None
      else Some (count (supersedes c w) (st_artifacts w),
                 w\<lparr>st_artifacts := update_where (supersedes c w) (\<lambda>_. c) (st_artifacts w)\<rparr>))"

definition recorded :: "artifact_row \<Rightarrow> directory_state \<Rightarrow> bool" where
  "recorded c w \<longleftrightarrow>
     list_ex (\<lambda>a. af_profile a = af_profile c \<and> af_generation a = af_generation c \<and> af_revision a = af_revision c)
       (st_artifacts w)"

text \<open>\<open>ORDER BY generation DESC LIMIT 7\<close>.\<close>

definition retained :: "directory_profile \<Rightarrow> history_row list \<Rightarrow> int list" where
  "retained q hs =
     take 7 (map hs_generation (js_sort (\<lambda>a b. hs_generation b - hs_generation a) (filter (\<lambda>h. hs_profile h = q) hs)))"

definition dropHistory :: "artifact_row \<Rightarrow> directory_state \<Rightarrow> history_row \<Rightarrow> bool" where
  "dropHistory c w h \<longleftrightarrow>
     hs_profile h = af_profile c \<and>
     \<not> list_ex (\<lambda>x. hs_profile x = af_profile c \<and> hs_generation x = af_generation c) (st_history w) \<and>
     hs_generation h \<notin> set (retained (af_profile c) (st_history w)) \<and> recorded c w"

definition pruneHistory :: "artifact_row \<Rightarrow> directory_state statement" where
  "pruneHistory c w =
     Some (count (dropHistory c w) (st_history w),
           w\<lparr>st_history := filter (\<lambda>h. \<not> dropHistory c w h) (st_history w)\<rparr>)"

definition history_key :: "history_row \<Rightarrow> directory_profile \<times> int" where
  "history_key h = (hs_profile h, hs_generation h)"

definition history_capacity_ok :: "history_row \<Rightarrow> history_row list \<Rightarrow> bool" where
  "history_capacity_ok h hs \<longleftrightarrow>
     history_key h \<in> set (map history_key hs) \<or> count (\<lambda>x. hs_profile x = hs_profile h) hs < 8"

definition history_merge :: "history_row \<Rightarrow> history_row \<Rightarrow> history_row" where
  "history_merge old new = old\<lparr>hs_at := hs_at new\<rparr>"

definition history_of :: "artifact_row \<Rightarrow> history_row" where
  "history_of c = \<lparr>hs_profile = af_profile c, hs_generation = af_generation c, hs_at = af_published c\<rparr>"

definition recordHistory :: "artifact_row \<Rightarrow> directory_state statement" where
  "recordHistory c w =
     (if \<not> recorded c w then Some (0, w)
      else
        let h = history_of c in
        if \<not> upsert_ok history_row_ok history_key always history_merge h (st_history w) \<or>
           \<not> history_capacity_ok h (st_history w) then None
        else
          let (n, hs) = upsert_rows history_key always history_merge h (st_history w) in
          Some (n, w\<lparr>st_history := hs\<rparr>))"

definition acknowledged :: "artifact_row \<Rightarrow> outbox_row \<Rightarrow> bool" where
  "acknowledged c o1 \<longleftrightarrow> ob_profile o1 = af_profile c \<and> ob_revision o1 \<le> af_revision c"

definition acknowledgeOutbox :: "artifact_row \<Rightarrow> directory_state statement" where
  "acknowledgeOutbox c w =
     (if \<not> recorded c w then Some (0, w)
      else
        let d = st_directory w in
        Some (count (acknowledged c) (dr_outbox d),
              w\<lparr>st_directory := d\<lparr>dr_outbox := filter (\<lambda>o1. \<not> acknowledged c o1) (dr_outbox d)\<rparr>\<rparr>))"

definition commitPredicate :: "artifact_row \<Rightarrow> string \<Rightarrow> directory_state \<Rightarrow> bool" where
  "commitPredicate c token w \<longleftrightarrow>
     (let d = st_directory w in
      list_ex (\<lambda>m. mk_profile m = af_profile c \<and> mk_token m = token \<and> mk_revision m = af_revision c \<and>
        mk_generation m = af_generation c) (st_markers w) \<and>
      c \<in> set (st_artifacts w) \<and> revision_of (af_profile c) d = Some (af_revision c) \<and>
      list_ex (\<lambda>h. hs_profile h = af_profile c \<and> hs_generation h = af_generation c \<and> hs_at h = af_published c)
        (st_history w) \<and>
      count (\<lambda>h. hs_profile h = af_profile c) (st_history w) \<le> 8 \<and>
      \<not> list_ex (acknowledged c) (dr_outbox d))"

definition commitAssertion :: "artifact_row \<Rightarrow> string \<Rightarrow> directory_state statement" where
  "commitAssertion c token w = (if commitPredicate c token w then Some (0, w) else None)"

definition checkpoint_batch :: "artifact_row \<Rightarrow> string \<Rightarrow> directory_state statement list" where
  "checkpoint_batch c token =
     [markCommit c token, updateArtifact c, pruneHistory c, recordHistory c, acknowledgeOutbox c,
      commitAssertion c token]"

definition commitDirectoryArtifactPublication ::
  "artifact_row \<Rightarrow> string \<Rightarrow> directory_state \<Rightarrow> (directory_error + unit) \<times> directory_state" where
  "commitDirectoryArtifactPublication c token w =
     (if \<not> validateArtifactCommit c then (Inl InvalidArgument, w)
      else case run_batch (checkpoint_batch c token) w of
        None \<Rightarrow> (Inl TransactionFailed, w)
      | Some (results, w1) \<Rightarrow>
          (if length results \<noteq> 6 \<or> results ! 0 \<noteq> 1 \<or> results ! 1 > 1 \<or> results ! 5 \<noteq> 0
           then Inl InvariantsViolated else Inr (), w1))"

subsection \<open>Reads\<close>

definition readDirectoryRevision :: "directory_profile \<Rightarrow> directory_state \<Rightarrow> directory_error + (int \<times> int)" where
  "readDirectoryRevision q w =
     (case lookup rv_profile q (dr_revisions (st_directory w)) of
        None \<Rightarrow> Inl InvalidState
      | Some r \<Rightarrow>
          if stored_integer (rv_revision r) \<and> stored_integer (rv_updated r)
          then Inr (rv_revision r, rv_updated r) else Inl InvalidState)"

definition exactArtifactPublication :: "artifact_row option \<Rightarrow> directory_error + artifact_row" where
  "exactArtifactPublication record =
     (case record of
        None \<Rightarrow> Inl InvalidState
      | Some a \<Rightarrow>
          if list_all stored_integer [af_revision a, af_generation a, af_generated a, af_expires a,
               af_html_bytes a, af_xml_bytes a, af_json_bytes a, af_manifest_bytes a, af_published a] \<and>
             list_all is_hex64 [af_model a, af_html a, af_xml a, af_json a, af_manifest a] \<and>
             (af_generation a = 0 \<longrightarrow>
                list_all (\<lambda>n. n = 0) [af_revision a, af_generated a, af_expires a, af_published a,
                  af_html_bytes a, af_xml_bytes a, af_json_bytes a, af_manifest_bytes a] \<and>
                list_all (\<lambda>h. h = ZERO_SHA256) [af_model a, af_html a, af_xml a, af_json a, af_manifest a]) \<and>
             (af_generation a > 0 \<longrightarrow>
                af_generated a \<le> af_published a \<and> af_published a < af_expires a \<and>
                list_all (\<lambda>n. n \<noteq> 0) [af_html_bytes a, af_xml_bytes a, af_json_bytes a, af_manifest_bytes a])
          then Inr a else Inl InvalidState)"

definition readDirectoryArtifactPublication :: "directory_profile \<Rightarrow> directory_state \<Rightarrow> directory_error + artifact_row" where
  "readDirectoryArtifactPublication q w = exactArtifactPublication (lookup af_profile q (st_artifacts w))"

fun ascending :: "int list \<Rightarrow> bool" where
  "ascending (x # y # zs) = (x < y \<and> ascending (y # zs))"
| "ascending _ = True"

definition readDirectoryArtifactHistory :: "directory_profile \<Rightarrow> directory_state \<Rightarrow> directory_error + int list" where
  "readDirectoryArtifactHistory q w =
     (let generations = map hs_generation (js_sort (\<lambda>a b. hs_generation a - hs_generation b)
            (filter (\<lambda>h. hs_profile h = q) (st_history w))) in
      if length generations \<le> 8 \<and> list_all (\<lambda>g. 1 \<le> g \<and> g \<le> max_safe_integer) generations \<and> ascending generations
      then Inr generations else Inl InvalidState)"

end
