(* ===== verification/DirectoryRuns.thy ===== *)
theory DirectoryRuns
  imports DirectoryState
begin

text \<open>
  What the expiry and checkpoint batches of \<open>DirectoryState\<close> do, as exact equations: \<open>expired\<close>
  and \<open>checkpointed\<close> are their effects as functions of the tables, \<open>expire_cases\<close> and
  \<open>commit_cases\<close> say when a batch commits them and when it aborts without a trace.
\<close>

interpretation expiry_table: keyed_table ex_profile always expiry_merge
  by unfold_locales (simp add: expiry_merge_def)

interpretation marker_table: keyed_table mk_profile always marker_merge
  by unfold_locales (simp add: marker_merge_def)

interpretation history_table: keyed_table history_key always history_merge
  by unfold_locales (simp add: history_key_def history_merge_def)

lemma expiry_merge_same: "ex_profile new = ex_profile old \<Longrightarrow> expiry_merge old new = new"
  by (simp add: expiry_merge_def)

lemma marker_merge_same: "mk_profile new = mk_profile old \<Longrightarrow> marker_merge old new = new"
  by (simp add: marker_merge_def)

lemma history_merge_same: "history_key new = history_key old \<Longrightarrow> history_merge old new = new"
  by (simp add: history_key_def history_merge_def)

subsection \<open>Expired rows\<close>

definition presence_capped :: "directory \<Rightarrow> bool" where
  "presence_capped d \<longleftrightarrow>
     list_all (\<lambda>x. count (\<lambda>y. ps_profile y = ps_profile x) (db_presence (dr_base d)) \<le> 512) (db_presence (dr_base d))"

lemma count_card: "distinct (map key xs) \<Longrightarrow> count P xs = card (key ` {x \<in> set xs. P x})"
proof (induction xs)
  case (Cons x xs)
  have "key x \<notin> key ` {y \<in> set xs. P y}" using Cons.prems by auto
  moreover have "{y \<in> set (x # xs). P y} = (if P x then insert x {y \<in> set xs. P y} else {y \<in> set xs. P y})" by auto
  ultimately show ?case using Cons by simp
qed simp

lemma count_mono_on: "(\<And>x. x \<in> set xs \<Longrightarrow> P x \<Longrightarrow> Q x) \<Longrightarrow> count P xs \<le> count Q xs"
  by (induction xs) (auto simp: le_SucI)

lemma capped_count:
  assumes "list_all (\<lambda>x. count (\<lambda>y. f y = f x) xs \<le> n) xs" shows "count (\<lambda>y. f y = q) xs \<le> n"
proof (cases "\<exists>x \<in> set xs. f x = q")
  case True
  with assms show ?thesis by (auto simp: list_all_iff)
next
  case False
  then have "count (\<lambda>y. f y = q) xs = 0" by (auto simp: count_zero_iff)
  then show ?thesis by simp
qed

lemma presence_cap: "presence_capped d \<Longrightarrow> count (\<lambda>y. ps_profile y = q) (db_presence (dr_base d)) \<le> 512"
  unfolding presence_capped_def by (rule capped_count)

lemma stale_entry_iff:
  assumes "listing_ok d" "e \<in> set (dr_entries d)"
  shows "stale_entry q cutoff d e \<longleftrightarrow>
    entry_key e \<in> presence_key ` {x \<in> set (db_presence (dr_base d)). stale_presence q cutoff x}"
proof -
  have dist: "distinct (map presence_key (db_presence (dr_base d)))" using assms(1) by (simp add: listing_ok_def)
  have own: "entry_key e = presence_key y \<and> stale_presence q cutoff y \<longleftrightarrow>
      presence_key y = (q, en_server e) \<and> en_profile e = q \<and> ps_seen y \<le> cutoff" for y
    by (auto simp: stale_presence_def entry_key_def presence_key_def)
  have "entry_key e \<in> presence_key ` {x \<in> set (db_presence (dr_base d)). stale_presence q cutoff x} \<longleftrightarrow>
      (\<exists>y \<in> set (db_presence (dr_base d)). entry_key e = presence_key y \<and> stale_presence q cutoff y)" by blast
  also have "\<dots> \<longleftrightarrow> (\<exists>y. (y \<in> set (db_presence (dr_base d)) \<and> presence_key y = (q, en_server e)) \<and>
      en_profile e = q \<and> ps_seen y \<le> cutoff)"
    unfolding own by blast
  also have "\<dots> \<longleftrightarrow> (\<exists>y. lookup presence_key (q, en_server e) (db_presence (dr_base d)) = Some y \<and>
      en_profile e = q \<and> ps_seen y \<le> cutoff)"
    unfolding lookup_distinct[OF dist] by (rule refl)
  also have "\<dots> \<longleftrightarrow> stale_entry q cutoff d e"
    by (cases "lookup presence_key (q, en_server e) (db_presence (dr_base d))")
      (simp_all add: stale_entry_def presence_at_def)
  finally show ?thesis by (rule sym)
qed

lemma expired_counts:
  assumes "listing_ok d" "presence_capped d"
  shows "expired_entries q cutoff d \<le> expired_presence q cutoff d" "expired_presence q cutoff d \<le> 512"
    "0 \<le> expired_entries q cutoff d"
proof -
  let ?ps = "db_presence (dr_base d)"
  have "count (stale_entry q cutoff d) (dr_entries d) = card (entry_key ` {e \<in> set (dr_entries d). stale_entry q cutoff d e})"
    using assms(1) by (intro count_card) (simp add: listing_ok_def)
  also have "\<dots> \<le> card (presence_key ` {x \<in> set ?ps. stale_presence q cutoff x})"
    using stale_entry_iff[OF assms(1)] by (intro card_mono) auto
  also have "\<dots> = count (stale_presence q cutoff) ?ps"
    using assms(1) by (intro count_card[symmetric]) (simp add: listing_ok_def)
  finally show "expired_entries q cutoff d \<le> expired_presence q cutoff d"
    by (simp add: expired_entries_def expired_presence_def)
  have "count (stale_presence q cutoff) ?ps \<le> count (\<lambda>y. ps_profile y = q) ?ps"
    by (rule count_mono_on) (simp add: stale_presence_def)
  also have "\<dots> \<le> 512" by (rule presence_cap[OF assms(2)])
  finally show "expired_presence q cutoff d \<le> 512" by (simp add: expired_presence_def)
  show "0 \<le> expired_entries q cutoff d" by (simp add: expired_entries_def)
qed

subsection \<open>The effect of an expiry\<close>

definition expires_visible :: "directory_profile \<Rightarrow> int \<Rightarrow> directory \<Rightarrow> bool" where
  "expires_visible q cutoff d \<longleftrightarrow> list_ex (stale_entry q cutoff d) (dr_entries d)"

lemma expires_visible_iff: "expires_visible q cutoff d \<longleftrightarrow> expired_entries q cutoff d > 0"
  using count_zero_iff[of "stale_entry q cutoff d" "dr_entries d"]
  by (auto simp: expires_visible_def expired_entries_def list_ex_iff)

definition stale_keys :: "directory_profile \<Rightarrow> int \<Rightarrow> directory \<Rightarrow> (directory_profile \<times> string) set" where
  "stale_keys q cutoff d = presence_key ` set (filter (stale_presence q cutoff) (db_presence (dr_base d)))"

definition expired :: "directory_profile \<Rightarrow> int \<Rightarrow> int \<Rightarrow> int \<Rightarrow> directory \<Rightarrow> directory" where
  "expired q cutoff now base d =
     d\<lparr>dr_base := (dr_base d)\<lparr>db_presence := filter (\<lambda>x. \<not> stale_presence q cutoff x) (db_presence (dr_base d))\<rparr>,
       dr_revisions := advanced_revisions (expires_visible q cutoff d) q now (dr_revisions d),
       dr_outbox := queued_outbox (expires_visible q cutoff d) q (base + 1) now (dr_outbox d),
       dr_entries := filter (\<lambda>e. entry_key e \<notin> stale_keys q cutoff d) (dr_entries d),
       dr_activity := filter (\<lambda>a. activity_key a \<notin> stale_keys q cutoff d) (dr_activity d),
       dr_buckets := filter (\<lambda>b. (bk_profile b, bk_server b) \<notin> stale_keys q cutoff d) (dr_buckets d)\<rparr>"

definition marked :: "directory_profile \<Rightarrow> string \<Rightarrow> int \<Rightarrow> int \<Rightarrow> int \<Rightarrow> directory_state \<Rightarrow> directory_state" where
  "marked q token cutoff now base w =
     w\<lparr>st_expiry := snd (upsert_rows ex_profile always expiry_merge
        (expiry_row_of q token cutoff now base (st_directory w)) (st_expiry w))\<rparr>"

definition next_revision :: "directory_profile \<Rightarrow> int \<Rightarrow> int \<Rightarrow> directory \<Rightarrow> int" where
  "next_revision q cutoff base d = (if expires_visible q cutoff d then base + 1 else base)"

lemma expiry_profile [simp]: "ex_profile (expiry_row_of q token cutoff now base d) = q"
  by (simp add: expiry_row_of_def)

lemma marked_expiry: "expiry_of q token (marked q token cutoff now base w) = Some (expiry_row_of q token cutoff now base (st_directory w))"
proof -
  have "lookup ex_profile q (st_expiry (marked q token cutoff now base w)) = Some (expiry_row_of q token cutoff now base (st_directory w))"
    by (auto simp: marked_def expiry_table.upsert_lookup expiry_merge_same split: option.split dest!: lookup_Some)
  then show ?thesis by (simp add: expiry_of_def expiry_row_of_def)
qed

lemma expiry_row_of_ok:
  assumes "listing_ok d" "presence_capped d" "is_hex64 token" "stored_integer cutoff" "stored_integer now" "0 \<le> base"
  shows "expiry_row_ok (expiry_row_of q token cutoff now base d) \<longleftrightarrow> next_revision q cutoff base d \<le> max_safe_integer"
  using expired_counts[OF assms(1,2), of q cutoff] assms(3-6) expires_visible_iff[of q cutoff d]
  by (auto simp: expiry_row_ok_def expiry_row_of_def next_revision_def stored_integer_def)

lemma markExpiry_run:
  assumes "listing_ok (st_directory w)" "presence_capped (st_directory w)" "is_hex64 token" "stored_integer cutoff"
    "stored_integer now" "0 \<le> base" "revision_of q (st_directory w) = Some base"
  shows "\<exists>n. markExpiry q token cutoff now w =
    (if next_revision q cutoff base (st_directory w) \<le> max_safe_integer
     then Some (n, marked q token cutoff now base w) else None)"
proof -
  let ?x = "expiry_row_of q token cutoff now base (st_directory w)"
  have "upsert_ok expiry_row_ok ex_profile always expiry_merge ?x (st_expiry w) \<longleftrightarrow>
      next_revision q cutoff base (st_directory w) \<le> max_safe_integer"
    using expiry_row_of_ok[OF assms(1-6), of q] by (auto simp: upsert_ok_def list_all_iff expiry_merge_same)
  then show ?thesis
    by (cases "upsert_rows ex_profile always expiry_merge ?x (st_expiry w)")
      (simp add: markExpiry_def assms(7) marked_def)
qed

lemma bumpExpired_run:
  assumes "revisions_ok d" "revision_of q d = Some base"
    and x: "expiry_of q token w = Some (expiry_row_of q token cutoff now base d)"
    and w: "st_directory w = d"
  shows "bumpExpired q token now w = Some (if expires_visible q cutoff d then 1 else 0,
    w\<lparr>st_directory := d\<lparr>dr_revisions := advanced_revisions (expires_visible q cutoff d) q now (dr_revisions d)\<rparr>\<rparr>)"
proof -
  let ?c = "expires_visible q cutoff d"
  obtain row where row: "lookup rv_profile q (dr_revisions d) = Some row" "rv_revision row = base"
    using assms(2) by (auto simp: revision_of_def)
  have dist: "distinct (map rv_profile (dr_revisions d))" and nonneg: "0 \<le> rv_revision row"
    using assms(1) row by (auto simp: revisions_ok_def list_all_iff dest!: lookup_Some)
  have vis: "ex_visible (expiry_row_of q token cutoff now base d) = (if ?c then Some (base + 1) else None)"
    by (simp add: expiry_row_of_def expires_visible_iff)
  define hit where "hit = (\<lambda>r :: revision_row. rv_profile r = q \<and>
    (case expiry_of q token w of None \<Rightarrow> False | Some x \<Rightarrow> ex_visible x = Some (rv_revision r + 1)))"
  define bump where "bump = (\<lambda>r :: revision_row. r\<lparr>rv_revision := (case expiry_of q token w of None \<Rightarrow> rv_revision r
      | Some x \<Rightarrow> (case ex_visible x of None \<Rightarrow> rv_revision r | Some v \<Rightarrow> v)), rv_updated := max (rv_updated r) now\<rparr>)"
  have hit: "hit r \<longleftrightarrow> ?c \<and> rv_profile r = q" if "rv_revision r = rv_revision row \<or> rv_profile r \<noteq> q" for r
    using that row(2) by (auto simp: hit_def x vis)
  have bump: "bump r = r\<lparr>rv_revision := rv_revision r + 1, rv_updated := max (rv_updated r) now\<rparr>"
    if ?c "rv_revision r = rv_revision row" for r
    using that row(2) by (simp add: bump_def x vis)
  note run = advance_run[OF row(1) dist, of hit ?c bump now, OF hit bump]
  have "bumpExpired q token now w = (if list_ex (\<lambda>r. hit r \<and> rv_revision (bump r) < 0) (dr_revisions d) then None
      else Some (count hit (dr_revisions d), w\<lparr>st_directory := d\<lparr>dr_revisions := update_where hit bump (dr_revisions d)\<rparr>\<rparr>))"
    unfolding bumpExpired_def hit_def bump_def Let_def w by (rule refl)
  then show ?thesis using run nonneg by (simp only: if_False)
qed

lemma queueExpired_run:
  assumes "revisions_ok d" "revision_of q d = Some base"
    and x: "expiry_of q token w = Some (expiry_row_of q token cutoff now base d)"
    and w: "st_directory w = d\<lparr>dr_revisions := advanced_revisions (expires_visible q cutoff d) q now (dr_revisions d)\<rparr>"
  shows "\<exists>n. queueExpired tc q token now w = Some (n, w\<lparr>st_directory := (st_directory w)\<lparr>dr_outbox :=
      queued_outbox (expires_visible q cutoff d) q (base + 1) now (dr_outbox d)\<rparr>\<rparr>) \<and>
    (if expires_visible q cutoff d then n = 1 \<or> n = 2 else n = 0)"
proof -
  let ?c = "expires_visible q cutoff d"
  have rev: "revision_of q (st_directory w) = Some (if ?c then base + 1 else base)"
    by (simp add: advanced_revision_of[of _ _ q now d] w assms(2))
  show ?thesis
  proof (cases ?c)
    case True
    have "q \<in> set (map rv_profile (dr_revisions (st_directory w)))"
      using rev by (auto simp: revision_of_def dest!: lookup_Some intro: rev_image_eqI)
    moreover have "0 \<le> base" "distinct (map ob_profile (dr_outbox (st_directory w)))"
      "\<And>o1. o1 \<in> set (dr_outbox (st_directory w)) \<Longrightarrow> ob_profile o1 = q \<Longrightarrow> ob_revision o1 \<le> base"
      using assms(1) revisions_ok_base[OF assms(1,2)] assms(2) by (auto simp: w revisions_ok_def list_all_iff)
    ultimately show ?thesis
      using True rev insert_outbox_run[where q = q and base = base and now = now and tc = tc and w = "st_directory w"]
      by (auto simp: queueExpired_def x on_directory_def w expiry_row_of_def expires_visible_iff)
  next
    case False
    then show ?thesis
      using rev by (simp add: queueExpired_def x w expiry_row_of_def expires_visible_iff queued_outbox_def)
  qed
qed

lemma deletes_run:
  assumes "listing_ok d" "dr_entries v = dr_entries d" "dr_base v = dr_base d"
  shows "\<exists>n m. run_batch [on_directory (deleteExpiredEntries q cutoff), on_directory (deleteExpiredPresence q cutoff)]
      (w\<lparr>st_directory := v\<rparr>) = Some ([n, m], w\<lparr>st_directory :=
      v\<lparr>dr_base := (dr_base d)\<lparr>db_presence := filter (\<lambda>x. \<not> stale_presence q cutoff x) (db_presence (dr_base d))\<rparr>,
        dr_entries := filter (\<lambda>e. entry_key e \<notin> stale_keys q cutoff d) (dr_entries d),
        dr_activity := filter (\<lambda>a. activity_key a \<notin> stale_keys q cutoff d) (dr_activity v),
        dr_buckets := filter (\<lambda>b. (bk_profile b, bk_server b) \<notin> stale_keys q cutoff d) (dr_buckets v)\<rparr>\<rparr>)"
proof -
  have "stale_entry q cutoff v e \<longleftrightarrow> entry_key e \<in> stale_keys q cutoff d" if "e \<in> set (dr_entries d)" for e
  proof -
    have "stale_entry q cutoff v e = stale_entry q cutoff d e"
      by (simp add: stale_entry_def presence_at_def assms(3))
    with stale_entry_iff[OF assms(1) that] show ?thesis by (simp add: stale_keys_def)
  qed
  then have flt: "filter (\<lambda>e. \<not> stale_entry q cutoff v e) (dr_entries d) =
      filter (\<lambda>e. entry_key e \<notin> stale_keys q cutoff d) (dr_entries d)"
    by (intro filter_cong) auto
  have keys: "presence_key ` {x \<in> set (db_presence (dr_base d)). stale_presence q cutoff x} = stale_keys q cutoff d"
    by (simp add: stale_keys_def)
  show ?thesis
    by (simp add: on_directory_def deleteExpiredEntries_def deleteExpiredPresence_def Let_def assms(2,3) flt keys)
qed

lemma expired_facts:
  assumes "directory_ok d" "revision_of q d = Some base"
  shows "revision_of q (expired q cutoff now base d) = Some (next_revision q cutoff base d)"
    "\<not> list_ex (stale_presence q cutoff) (db_presence (dr_base (expired q cutoff now base d)))"
    "\<not> list_ex (stale_entry q cutoff (expired q cutoff now base d)) (dr_entries (expired q cutoff now base d))"
proof -
  show "revision_of q (expired q cutoff now base d) = Some (next_revision q cutoff base d)"
    using assms(2) by (simp add: expired_def revision_of_def advanced_lookup next_revision_def)
  show "\<not> list_ex (stale_presence q cutoff) (db_presence (dr_base (expired q cutoff now base d)))"
    by (simp add: expired_def list_ex_iff)
  show "\<not> list_ex (stale_entry q cutoff (expired q cutoff now base d)) (dr_entries (expired q cutoff now base d))"
    by (auto simp: list_ex_iff stale_entry_def presence_at_def expired_def stale_presence_def presence_key_def
        split: option.splits dest!: lookup_Some)
qed

lemma expiry_batch_run:
  assumes ok: "directory_ok (st_directory w)" "presence_capped (st_directory w)" and token: "is_hex64 token"
    and times: "stored_integer cutoff" "stored_integer now" and rev: "revision_of q (st_directory w) = Some base"
    and fits: "next_revision q cutoff base (st_directory w) \<le> max_safe_integer"
  shows "\<exists>n0 n2 n3 n4. run_batch (expiry_batch tc q token cutoff now) w =
    Some ([n0, if expires_visible q cutoff (st_directory w) then 1 else 0, n2, n3, n4, 0, 0],
      (marked q token cutoff now base w)\<lparr>st_directory := expired q cutoff now base (st_directory w)\<rparr>) \<and>
    (if expires_visible q cutoff (st_directory w) then n2 = 1 \<or> n2 = 2 else n2 = 0)"
proof -
  let ?d = "st_directory w" let ?c = "expires_visible q cutoff ?d" let ?x = "expiry_row_of q token cutoff now base ?d"
  note parts = ok(1)[unfolded directory_ok_def]
  have nonneg: "0 \<le> base" using revisions_ok_base(1)[OF _ rev] parts by blast
  define w1 where "w1 = marked q token cutoff now base w"
  have d1: "st_directory w1 = ?d" by (simp add: w1_def marked_def)
  have x1: "expiry_of q token (w1\<lparr>st_directory := v\<rparr>) = Some ?x" for v
    using marked_expiry[of q token cutoff now base w] by (simp add: w1_def expiry_of_def)
  define d2 where "d2 = ?d\<lparr>dr_revisions := advanced_revisions ?c q now (dr_revisions ?d)\<rparr>"
  define d3 where "d3 = d2\<lparr>dr_outbox := queued_outbox ?c q (base + 1) now (dr_outbox ?d)\<rparr>"
  obtain n0 where s1: "markExpiry q token cutoff now w = Some (n0, w1)"
    using markExpiry_run[OF _ ok(2) token times nonneg rev] parts fits by (auto simp: w1_def)
  have s2: "bumpExpired q token now w1 = Some (if ?c then 1 else 0, w1\<lparr>st_directory := d2\<rparr>)"
    using bumpExpired_run[OF _ rev _ d1, of token cutoff now] x1[of ?d] d1 parts by (simp add: d2_def marked_def w1_def)
  obtain n2 where s3: "queueExpired tc q token now (w1\<lparr>st_directory := d2\<rparr>) = Some (n2, w1\<lparr>st_directory := d3\<rparr>)"
      "if ?c then n2 = 1 \<or> n2 = 2 else n2 = 0"
    using queueExpired_run[OF _ rev x1[of d2], of tc] parts by (auto simp: d2_def d3_def)
  have d3: "dr_entries d3 = dr_entries ?d" "dr_base d3 = dr_base ?d" by (simp_all add: d3_def d2_def)
  obtain n3 n4 where s4: "run_batch [on_directory (deleteExpiredEntries q cutoff), on_directory (deleteExpiredPresence q cutoff)]
      (w1\<lparr>st_directory := d3\<rparr>) = Some ([n3, n4], w1\<lparr>st_directory := expired q cutoff now base ?d\<rparr>)"
    using deletes_run[OF _ d3, of q cutoff w1] parts by (auto simp: d3_def d2_def expired_def)
  note facts = expired_facts[OF ok(1) rev, of cutoff now]
  have "expiryPredicate q token cutoff now (w1\<lparr>st_directory := expired q cutoff now base ?d\<rparr>)"
  proof -
    have "list_ex (\<lambda>o1. ob_profile o1 = q \<and> ob_revision o1 = base + 1 \<and> ob_created o1 = now)
        (dr_outbox (expired q cutoff now base ?d)) \<and>
      \<not> list_ex (\<lambda>o1. ob_profile o1 = q \<and> ob_revision o1 \<noteq> base + 1) (dr_outbox (expired q cutoff now base ?d))" if ?c
      using that by (auto simp: expired_def queued_outbox_def list_ex_iff)
    then show ?thesis
      using facts expires_visible_iff[of q cutoff ?d] expired_counts(3)[OF _ ok(2), of q cutoff] parts
      by (auto simp: expiryPredicate_def Let_def x1 expiry_row_of_def next_revision_def)
  qed
  then have s5: "run_batch [expiryAssertion q token cutoff now, (\<lambda>w. Some (0, w))]
      (w1\<lparr>st_directory := expired q cutoff now base ?d\<rparr>) = Some ([0, 0], w1\<lparr>st_directory := expired q cutoff now base ?d\<rparr>)"
    by (simp add: expiryAssertion_def)
  have split: "expiry_batch tc q token cutoff now =
      [markExpiry q token cutoff now, bumpExpired q token now, queueExpired tc q token now] @
      [on_directory (deleteExpiredEntries q cutoff), on_directory (deleteExpiredPresence q cutoff)] @
      [expiryAssertion q token cutoff now, (\<lambda>w. Some (0, w))]"
    by (simp add: expiry_batch_def)
  have "run_batch (expiry_batch tc q token cutoff now) w =
      Some ([n0, if ?c then 1 else 0, n2] @ [n3, n4] @ [0, 0], w1\<lparr>st_directory := expired q cutoff now base ?d\<rparr>)"
    unfolding split by (intro run_batch_chain[OF _ run_batch_chain[OF s4 s5]]) (simp add: s1 s2 s3(1))
  with s3(2) show ?thesis by (auto simp: w1_def)
qed

lemma expire_cases:
  assumes "directory_ok (st_directory w)" "presence_capped (st_directory w)" "is_hex64 token"
  shows "expireDirectoryEntries tc q token cutoff now w =
    (if \<not> stored_integer cutoff \<or> \<not> stored_integer now \<or> cutoff > now then (Inl InvalidArgument, w)
     else case revision_of q (st_directory w) of
       None \<Rightarrow> (Inl TransactionFailed, w)
     | Some base \<Rightarrow>
         if next_revision q cutoff base (st_directory w) > max_safe_integer then (Inl TransactionFailed, w)
         else (Inr (expired_entries q cutoff (st_directory w), expires_visible q cutoff (st_directory w)),
               (marked q token cutoff now base w)\<lparr>st_directory := expired q cutoff now base (st_directory w)\<rparr>))"
proof (cases "stored_integer cutoff \<and> stored_integer now \<and> \<not> cutoff > now")
  case times: True
  let ?d = "st_directory w"
  note parts = assms(1)[unfolded directory_ok_def]
  show ?thesis
  proof (cases "revision_of q ?d")
    case None
    then have "lookup rv_profile q (dr_revisions ?d) = None" by (simp add: revision_of_def)
    then have no: "rv_profile r \<noteq> q" if "r \<in> set (dr_revisions ?d)" for r using that by (auto simp: lookup_None)
    then have s2: "bumpExpired q token now w = Some (0, w)"
      by (simp add: bumpExpired_def Let_def list_ex_iff update_where_none count_zero_iff)
    have "run_batch (expiry_batch tc q token cutoff now) w = None"
      using None
      by (simp add: expiry_batch_def markExpiry_def s2 queueExpired_def on_directory_def deleteExpiredEntries_def
          deleteExpiredPresence_def Let_def expiryAssertion_def expiryPredicate_def revision_of_def split: option.split)
    with None times show ?thesis by (simp add: expireDirectoryEntries_def)
  next
    case (Some base)
    note run = markExpiry_run[OF _ assms(2,3) _ _ _ Some, of cutoff now]
    have nonneg: "0 \<le> base" using revisions_ok_base(1)[OF _ Some] parts by blast
    show ?thesis
    proof (cases "next_revision q cutoff base ?d \<le> max_safe_integer")
      case True
      let ?w1 = "(marked q token cutoff now base w)\<lparr>st_directory := expired q cutoff now base ?d\<rparr>"
      have marker: "expiry_of q token ?w1 = Some (expiry_row_of q token cutoff now base ?d)"
        using marked_expiry[of q token cutoff now base w] by (simp add: expiry_of_def)
      obtain n0 n2 n3 n4 where batch: "run_batch (expiry_batch tc q token cutoff now) w =
          Some ([n0, if expires_visible q cutoff ?d then 1 else 0, n2, n3, n4, 0, 0], ?w1)"
          "if expires_visible q cutoff ?d then n2 = 1 \<or> n2 = 2 else n2 = 0"
        using expiry_batch_run[OF assms _ _ Some True] times by blast
      have "expired_entries q cutoff ?d \<le> 512" "expired_entries q cutoff ?d > 0 \<longleftrightarrow> expires_visible q cutoff ?d"
          "0 \<le> expired_entries q cutoff ?d"
        using expired_counts[OF _ assms(2), of q cutoff] parts by (auto simp: expires_visible_iff)
      then show ?thesis
        using batch(2) times Some True
        by (auto simp: expireDirectoryEntries_def batch(1) marker expiry_outcome_def expiry_row_of_def Let_def
            MAX_DIRECTORY_ENTRIES_PER_PROFILE_def)
    next
      case False
      then have "run_batch (expiry_batch tc q token cutoff now) w = None"
        using run nonneg times parts by (simp add: expiry_batch_def)
      with False Some times show ?thesis by (simp add: expireDirectoryEntries_def)
    qed
  qed
qed (auto simp: expireDirectoryEntries_def)

subsection \<open>The effect of a checkpoint\<close>

definition new_generation :: "artifact_row \<Rightarrow> history_row list \<Rightarrow> bool" where
  "new_generation c hs \<longleftrightarrow> history_key (history_of c) \<notin> set (map history_key hs)"

definition kept_history :: "artifact_row \<Rightarrow> history_row list \<Rightarrow> history_row list" where
  "kept_history c hs =
     (if new_generation c hs
      then filter (\<lambda>h. hs_profile h = af_profile c \<longrightarrow> hs_generation h \<in> set (retained (af_profile c) hs)) hs
      else hs)"

definition checkpointed :: "artifact_row \<Rightarrow> string \<Rightarrow> directory_state \<Rightarrow> directory_state" where
  "checkpointed c token w =
     w\<lparr>st_markers := snd (upsert_rows mk_profile always marker_merge (marker_of c token) (st_markers w)),
       st_artifacts := update_where (\<lambda>a. af_profile a = af_profile c) (\<lambda>_. c) (st_artifacts w),
       st_history := snd (upsert_rows history_key always history_merge (history_of c) (kept_history c (st_history w))),
       st_directory := (st_directory w)\<lparr>dr_outbox := filter (\<lambda>o1. ob_profile o1 \<noteq> af_profile c) (dr_outbox (st_directory w))\<rparr>\<rparr>"

definition rows_ok :: "directory_state \<Rightarrow> bool" where
  "rows_ok w \<longleftrightarrow>
     distinct (map af_profile (st_artifacts w)) \<and> list_all artifact_row_ok (st_artifacts w) \<and>
     distinct (map mk_profile (st_markers w)) \<and>
     distinct (map history_key (st_history w)) \<and> list_all history_row_ok (st_history w) \<and>
     list_all (\<lambda>h. count (\<lambda>x. hs_profile x = hs_profile h) (st_history w) \<le> 8) (st_history w)"

lemma retained_count: "card (set (retained q hs)) \<le> 7"
  by (rule order_trans[OF card_length]) (simp add: retained_def)

lemma kept_history_facts:
  assumes "distinct (map history_key hs)"
  shows "distinct (map history_key (kept_history c hs))" "set (kept_history c hs) \<subseteq> set hs"
    "new_generation c hs \<Longrightarrow> count (\<lambda>h. hs_profile h = af_profile c) (kept_history c hs) \<le> 7"
    "history_key (history_of c) \<in> set (map history_key (kept_history c hs)) \<longleftrightarrow> \<not> new_generation c hs"
    "q \<noteq> af_profile c \<Longrightarrow> filter (\<lambda>h. hs_profile h = q) (kept_history c hs) = filter (\<lambda>h. hs_profile h = q) hs"
proof -
  let ?q = "af_profile c" and ?ks = "kept_history c hs"
  show dist: "distinct (map history_key ?ks)" using assms by (simp add: kept_history_def distinct_map_filterI)
  show "set ?ks \<subseteq> set hs" by (auto simp: kept_history_def)
  show "count (\<lambda>h. hs_profile h = ?q) ?ks \<le> 7" if new: "new_generation c hs"
  proof -
    have "count (\<lambda>h. hs_profile h = ?q) ?ks = card (history_key ` {h \<in> set ?ks. hs_profile h = ?q})"
      by (rule count_card[OF dist])
    also have "\<dots> \<le> card ((\<lambda>g. (?q, g)) ` set (retained ?q hs))"
      by (rule card_mono) (use new in \<open>auto simp: kept_history_def history_key_def\<close>)
    also have "\<dots> \<le> 7" using card_image_le[of "set (retained ?q hs)" "\<lambda>g. (?q, g)"] retained_count[of ?q hs] by simp
    finally show ?thesis .
  qed
  show "history_key (history_of c) \<in> set (map history_key ?ks) \<longleftrightarrow> \<not> new_generation c hs"
    by (auto simp: kept_history_def new_generation_def)
  show "filter (\<lambda>h. hs_profile h = q) ?ks = filter (\<lambda>h. hs_profile h = q) hs" if "q \<noteq> ?q"
    using that by (auto simp: kept_history_def intro!: filter_cong)
qed

definition checkpoint_ok :: "artifact_row \<Rightarrow> directory_state \<Rightarrow> bool" where
  "checkpoint_ok c w \<longleftrightarrow> af_expires c \<le> LAST_TIMESTAMP \<and> list_ex (supersedes c w) (st_artifacts w)"

lemma validated_rows:
  assumes "validateArtifactCommit c" "is_hex64 token"
  shows "af_expires c \<le> LAST_TIMESTAMP \<longleftrightarrow> artifact_row_ok c"
    "af_published c \<le> LAST_TIMESTAMP \<longleftrightarrow> marker_row_ok (marker_of c token)"
    "af_published c \<le> LAST_TIMESTAMP \<longleftrightarrow> history_row_ok (history_of c)"
    "af_expires c \<le> LAST_TIMESTAMP \<Longrightarrow> af_published c \<le> LAST_TIMESTAMP"
  using assms
  by (auto simp: validateArtifactCommit_def artifact_row_ok_def marker_row_ok_def marker_of_def history_row_ok_def
      history_of_def stored_integer_def)

lemma upsert_same:
  assumes "\<And>old. key r = key old \<Longrightarrow> merge old r = r"
  shows "upsert_ok ok key always merge r rs \<longleftrightarrow> ok r"
proof
  assume "ok r"
  moreover have "ok (merge x r)" if "key x = key r" for x using assms[OF that[symmetric]] \<open>ok r\<close> by simp
  ultimately show "upsert_ok ok key always merge r rs" unfolding upsert_ok_def list_all_iff by blast
qed (simp add: upsert_ok_def)

lemma markCommit_run:
  assumes "validateArtifactCommit c" "is_hex64 token" "distinct (map mk_profile (st_markers w))"
  shows "markCommit c token w =
    (if af_published c \<le> LAST_TIMESTAMP
     then Some (1, w\<lparr>st_markers := snd (upsert_rows mk_profile always marker_merge (marker_of c token) (st_markers w))\<rparr>)
     else None)"
proof -
  let ?u = "upsert_rows mk_profile always marker_merge (marker_of c token) (st_markers w)"
  have "fst ?u = 1" using assms(3) by (simp add: marker_table.upsert_count split: option.split)
  then have u: "?u = (1, snd ?u)" by (metis prod.collapse)
  have "upsert_ok marker_row_ok mk_profile always marker_merge (marker_of c token) (st_markers w) \<longleftrightarrow>
      af_published c \<le> LAST_TIMESTAMP"
    using validated_rows(2)[OF assms(1,2)] by (simp add: upsert_same marker_merge_same)
  then show ?thesis unfolding markCommit_def Let_def by (subst u) simp
qed

lemma own_supersedes: "supersedes c w c \<longleftrightarrow> revision_of (af_profile c) (st_directory w) = Some (af_revision c)"
  by (simp add: supersedes_def)

lemma updateArtifact_run:
  assumes "distinct (map af_profile (st_artifacts w))" "artifact_row_ok c" "list_ex (supersedes c w) (st_artifacts w)"
  shows "updateArtifact c w = Some (1, w\<lparr>st_artifacts := update_where (\<lambda>a. af_profile a = af_profile c) (\<lambda>_. c) (st_artifacts w)\<rparr>)"
proof -
  obtain a where a: "a \<in> set (st_artifacts w)" "supersedes c w a" using assms(3) by (auto simp: list_ex_iff)
  have only: "supersedes c w x \<longleftrightarrow> af_profile x = af_profile c" if "x \<in> set (st_artifacts w)" for x
  proof
    assume "af_profile x = af_profile c"
    with a assms(1) that have "x = a" by (auto simp: distinct_map inj_on_def supersedes_def)
    with a show "supersedes c w x" by simp
  qed (simp add: supersedes_def)
  have "count (supersedes c w) (st_artifacts w) = count (\<lambda>x. af_profile x = af_profile c) (st_artifacts w)"
    by (rule count_cong) (rule only)
  also have "\<dots> = 1"
  proof -
    have "af_profile c \<in> af_profile ` set (st_artifacts w)" using a by (auto simp: supersedes_def intro: rev_image_eqI)
    then have "lookup af_profile (af_profile c) (st_artifacts w) \<noteq> None" by (simp add: lookup_None)
    then show ?thesis by (auto simp: count_same_key[OF assms(1)])
  qed
  finally have "count (supersedes c w) (st_artifacts w) = 1" .
  moreover have "update_where (supersedes c w) (\<lambda>_. c) (st_artifacts w) =
      update_where (\<lambda>a. af_profile a = af_profile c) (\<lambda>_. c) (st_artifacts w)"
    by (rule update_where_cong) (simp add: only)
  ultimately show ?thesis using assms(2) by (simp add: updateArtifact_def list_ex_iff)
qed

lemma history_run:
  assumes hs: "distinct (map history_key (st_history w))" and rec: "recorded c w" and row: "history_row_ok (history_of c)"
  shows "\<exists>n. run_batch [pruneHistory c, recordHistory c] w = Some ([n, 1],
    w\<lparr>st_history := snd (upsert_rows history_key always history_merge (history_of c) (kept_history c (st_history w)))\<rparr>)"
proof -
  let ?hs = "st_history w" let ?ks = "kept_history c ?hs"
  let ?u = "upsert_rows history_key always history_merge (history_of c) ?ks"
  note facts = kept_history_facts[where c = c, OF hs]
  have here: "list_ex (\<lambda>x. hs_profile x = af_profile c \<and> hs_generation x = af_generation c) ?hs \<longleftrightarrow> \<not> new_generation c ?hs"
    by (force simp: list_ex_iff new_generation_def history_key_def history_of_def)
  have "filter (\<lambda>h. \<not> dropHistory c w h) ?hs = ?ks"
    using rec by (auto simp: kept_history_def dropHistory_def here intro!: filter_cong)
  then have s1: "\<exists>n. pruneHistory c w = Some (n, w\<lparr>st_history := ?ks\<rparr>)" by (simp add: pruneHistory_def)
  have u: "fst ?u = 1" using facts(1) by (simp add: history_table.upsert_count split: option.split)
  have "upsert_ok history_row_ok history_key always history_merge (history_of c) ?ks"
    using row by (simp add: upsert_same history_merge_same)
  moreover have "history_capacity_ok (history_of c) ?ks"
  proof (cases "new_generation c ?hs")
    case True
    then have "count (\<lambda>h. hs_profile h = af_profile c) ?ks < 8" using facts(3) by simp
    then show ?thesis by (simp add: history_capacity_ok_def history_of_def)
  next
    case False
    then show ?thesis using facts(4) unfolding history_capacity_ok_def by blast
  qed
  moreover have "recorded c (w\<lparr>st_history := ?ks\<rparr>)" using rec by (simp add: recorded_def)
  ultimately have "recordHistory c (w\<lparr>st_history := ?ks\<rparr>) = Some (1, w\<lparr>st_history := snd ?u\<rparr>)"
    unfolding recordHistory_def Let_def by (simp add: split_beta u)
  with s1 show ?thesis by auto
qed

lemma checkpointed_history:
  shows "history_of c \<in> set (st_history (checkpointed c token w))"
    and "\<lbrakk>distinct (map history_key (st_history w));
      list_all (\<lambda>h. count (\<lambda>x. hs_profile x = hs_profile h) (st_history w) \<le> 8) (st_history w)\<rbrakk> \<Longrightarrow>
      count (\<lambda>h. hs_profile h = q) (st_history (checkpointed c token w)) \<le> 8"
proof -
  let ?ks = "kept_history c (st_history w)"
  let ?us = "snd (upsert_rows history_key always history_merge (history_of c) ?ks)"
  have us: "st_history (checkpointed c token w) = ?us" by (simp add: checkpointed_def)
  have "lookup history_key (history_key (history_of c)) ?us = Some (history_of c)"
    by (auto simp: history_table.upsert_lookup history_merge_same split: option.split dest!: lookup_Some)
  then show "history_of c \<in> set (st_history (checkpointed c token w))" unfolding us by (auto dest: lookup_Some)
  assume dist: "distinct (map history_key (st_history w))"
    and cap: "list_all (\<lambda>h. count (\<lambda>x. hs_profile x = hs_profile h) (st_history w) \<le> 8) (st_history w)"
  note facts = kept_history_facts[where c = c, OF dist]
  have kept: "count (\<lambda>h. hs_profile h = q) ?ks \<le> 8"
    using order_trans[OF count_filter_le capped_count[OF cap, of q]] capped_count[OF cap, of q] by (simp add: kept_history_def)
  show "count (\<lambda>h. hs_profile h = q) (st_history (checkpointed c token w)) \<le> 8"
  proof (cases "new_generation c (st_history w)")
    case True
    then have "?us = ?ks @ [history_of c]" using facts(4) by (auto simp: upsert_rows_def)
    with True kept facts(3) show ?thesis unfolding us by (cases "q = af_profile c") (auto simp: history_of_def)
  next
    case False
    then have "?us = update_where (\<lambda>x. history_key x = history_key (history_of c)) (\<lambda>x. history_merge x (history_of c)) ?ks"
      using facts(4) by (auto simp: upsert_rows_def)
    with kept show ?thesis unfolding us by (simp add: count_update_where_eq history_merge_def)
  qed
qed

lemma commit_batch_run:
  assumes ok: "revisions_ok (st_directory w)" "rows_ok w" and c: "validateArtifactCommit c" "is_hex64 token"
    and accepted: "checkpoint_ok c w"
  shows "\<exists>n2 n4. run_batch (checkpoint_batch c token) w = Some ([1, 1, n2, 1, n4, 0], checkpointed c token w)"
proof -
  let ?q = "af_profile c"
  note rows = ok(2)[unfolded rows_ok_def] and valid = validated_rows[OF c]
  have expires: "af_expires c \<le> LAST_TIMESTAMP" and sup: "list_ex (supersedes c w) (st_artifacts w)"
    using accepted by (auto simp: checkpoint_ok_def)
  have rev: "revision_of ?q (st_directory w) = Some (af_revision c)" and mem: "?q \<in> af_profile ` set (st_artifacts w)"
    using sup by (auto simp: list_ex_iff supersedes_def intro: rev_image_eqI)
  define w1 where "w1 = w\<lparr>st_markers := snd (upsert_rows mk_profile always marker_merge (marker_of c token) (st_markers w))\<rparr>"
  define w2 where "w2 = w1\<lparr>st_artifacts := update_where (\<lambda>a. af_profile a = ?q) (\<lambda>_. c) (st_artifacts w)\<rparr>"
  define w4 where "w4 = w2\<lparr>st_history := snd (upsert_rows history_key always history_merge (history_of c) (kept_history c (st_history w)))\<rparr>"
  have s1: "markCommit c token w = Some (1, w1)"
    using markCommit_run[OF c, of w] rows valid(4)[OF expires] by (simp add: w1_def)
  have s2: "updateArtifact c w1 = Some (1, w2)"
    using updateArtifact_run[of w1 c] rows valid(1) expires sup
    by (simp add: w1_def w2_def supersedes_def[abs_def])
  have c_in: "c \<in> set (st_artifacts w2)" using mem by (auto simp: w2_def set_update_where)
  then have rec: "recorded c w2" by (auto simp: recorded_def list_ex_iff)
  obtain n where s4: "run_batch [pruneHistory c, recordHistory c] w2 = Some ([n, 1], w4)"
    using history_run[OF _ rec] rows valid(3) valid(4)[OF expires] by (auto simp: w2_def w1_def w4_def)
  have ack: "acknowledged c o1 \<longleftrightarrow> ob_profile o1 = ?q" if "o1 \<in> set (dr_outbox (st_directory w))" for o1
    using revisions_ok_base(2)[OF ok(1) rev that] by (auto simp: acknowledged_def)
  have d4: "st_directory w4 = st_directory w" by (simp add: w4_def w2_def w1_def)
  have "filter (\<lambda>o1. \<not> acknowledged c o1) (dr_outbox (st_directory w)) =
      filter (\<lambda>o1. ob_profile o1 \<noteq> ?q) (dr_outbox (st_directory w))"
    using ack by (intro filter_cong) auto
  moreover have "w4\<lparr>st_directory := (st_directory w)\<lparr>dr_outbox := filter (\<lambda>o1. ob_profile o1 \<noteq> ?q) (dr_outbox (st_directory w))\<rparr>\<rparr> = checkpointed c token w"
    by (simp add: w4_def w2_def w1_def checkpointed_def)
  moreover have "recorded c w4" using rec by (simp add: recorded_def w4_def)
  ultimately obtain m where s5: "acknowledgeOutbox c w4 = Some (m, checkpointed c token w)"
    by (simp add: acknowledgeOutbox_def Let_def d4)
  have "commitPredicate c token (checkpointed c token w)"
  proof -
    let ?v = "checkpointed c token w"
    have "list_ex (\<lambda>m. mk_profile m = ?q \<and> mk_token m = token \<and> mk_revision m = af_revision c \<and>
        mk_generation m = af_generation c) (st_markers ?v)"
    proof -
      have "lookup mk_profile ?q (st_markers ?v) = Some (marker_of c token)"
        by (auto simp: checkpointed_def marker_table.upsert_lookup marker_merge_same marker_of_def
            split: option.split dest!: lookup_Some)
      from lookup_Some[OF this] show ?thesis
        unfolding list_ex_iff by (intro bexI[of _ "marker_of c token"]) (simp_all add: marker_of_def)
    qed
    moreover have "c \<in> set (st_artifacts ?v)" using c_in by (simp add: w2_def checkpointed_def)
    moreover have "revision_of ?q (st_directory ?v) = Some (af_revision c)"
      using rev by (simp add: checkpointed_def revision_of_def)
    moreover have "list_ex (\<lambda>h. hs_profile h = ?q \<and> hs_generation h = af_generation c \<and> hs_at h = af_published c) (st_history ?v)"
      using checkpointed_history(1)[where c = c and token = token and w = w] by (auto simp: list_ex_iff history_of_def intro!: bexI)
    moreover have "count (\<lambda>h. hs_profile h = ?q) (st_history ?v) \<le> 8"
      using checkpointed_history(2)[where w = w and c = c and token = token] rows by blast
    moreover have "\<not> list_ex (acknowledged c) (dr_outbox (st_directory ?v))"
      by (auto simp: list_ex_iff checkpointed_def acknowledged_def)
    ultimately show ?thesis by (simp add: commitPredicate_def Let_def)
  qed
  then have s6: "run_batch [acknowledgeOutbox c, commitAssertion c token] w4 = Some ([m, 0], checkpointed c token w)"
    by (simp add: s5 commitAssertion_def)
  have split: "checkpoint_batch c token = [markCommit c token, updateArtifact c] @
      [pruneHistory c, recordHistory c] @ [acknowledgeOutbox c, commitAssertion c token]"
    by (simp add: checkpoint_batch_def)
  have "run_batch (checkpoint_batch c token) w = Some ([1, 1] @ [n, 1] @ [m, 0], checkpointed c token w)"
    unfolding split by (intro run_batch_chain[OF _ run_batch_chain[OF s4 s6]]) (simp add: s1 s2)
  then show ?thesis by auto
qed

text \<open>A batch whose condition every statement keeps, and under which the last one aborts, aborts.\<close>

lemma batch_stuck:
  assumes "\<And>s v n v'. s \<in> set ss \<Longrightarrow> P v \<Longrightarrow> s v = Some (n, v') \<Longrightarrow> P v'" "\<And>v. P v \<Longrightarrow> last_one v = None" "P w"
  shows "run_batch (ss @ [last_one]) w = None"
  using assms(1,3)
proof (induction ss arbitrary: w)
  case Nil
  then show ?case using assms(2) by simp
next
  case (Cons s ss)
  show ?case
  proof (cases "s w")
    case (Some r)
    then obtain n v where r: "s w = Some (n, v)" by (cases r) simp
    have "P v" by (rule Cons.prems(1)[of s w n v]) (use Cons.prems(2) r in simp_all)
    moreover have "P x'" if "t \<in> set ss" "P x" "t x = Some (m, x')" for t x m x'
      by (rule Cons.prems(1)[of t x m x']) (use that in simp_all)
    ultimately have "run_batch (ss @ [last_one]) v = None" by (rule Cons.IH[rotated])
    with r show ?thesis by simp
  qed simp
qed

definition unmatched :: "artifact_row \<Rightarrow> directory_state \<Rightarrow> bool" where
  "unmatched c w \<longleftrightarrow> \<not> list_ex (supersedes c w) (st_artifacts w)"

lemma unmatched_aborts: "unmatched c w \<Longrightarrow> commitAssertion c token w = None"
  by (auto simp: unmatched_def commitAssertion_def commitPredicate_def Let_def list_ex_iff own_supersedes)

lemma unmatched_frame:
  "st_artifacts v = st_artifacts w \<Longrightarrow> dr_revisions (st_directory v) = dr_revisions (st_directory w) \<Longrightarrow>
   unmatched c v = unmatched c w"
  by (simp add: unmatched_def supersedes_def[abs_def] revision_of_def)

lemma unmatched_keeps:
  assumes "s \<in> set [markCommit c token, updateArtifact c, pruneHistory c, recordHistory c, acknowledgeOutbox c]"
    "unmatched c w" "s w = Some (n, w')"
  shows "unmatched c w'"
proof -
  have up: "updateArtifact c w = Some (0, w)"
    using assms(2) by (simp add: unmatched_def updateArtifact_def list_ex_iff count_zero_iff update_where_none)
  have "st_artifacts w' = st_artifacts w \<and> dr_revisions (st_directory w') = dr_revisions (st_directory w)"
  proof (cases "s = updateArtifact c")
    case True
    with assms(3) up show ?thesis by simp
  next
    case False
    then have "s \<in> set [markCommit c token, pruneHistory c, recordHistory c, acknowledgeOutbox c]" using assms(1) by auto
    with assms(3) show ?thesis
      by (auto simp: markCommit_def pruneHistory_def recordHistory_def acknowledgeOutbox_def Let_def
          split: if_splits prod.splits)
  qed
  then show ?thesis using assms(2) unmatched_frame by blast
qed

lemma commit_cases:
  assumes "revisions_ok (st_directory w)" "rows_ok w" "is_hex64 token"
  shows "commitDirectoryArtifactPublication c token w =
    (if \<not> validateArtifactCommit c then (Inl InvalidArgument, w)
     else if checkpoint_ok c w then (Inr (), checkpointed c token w)
     else (Inl TransactionFailed, w))"
proof (cases "validateArtifactCommit c")
  case valid: True
  show ?thesis
  proof (cases "checkpoint_ok c w")
    case True
    then obtain n2 n4 where "run_batch (checkpoint_batch c token) w = Some ([1, 1, n2, 1, n4, 0], checkpointed c token w)"
      using commit_batch_run[OF assms(1,2) valid assms(3)] by blast
    with valid True show ?thesis by (simp add: commitDirectoryArtifactPublication_def)
  next
    case False
    have "run_batch (checkpoint_batch c token) w = None"
    proof (cases "unmatched c w")
      case True
      have "run_batch ([markCommit c token, updateArtifact c, pruneHistory c, recordHistory c, acknowledgeOutbox c] @
          [commitAssertion c token]) w = None"
        by (rule batch_stuck[where P = "unmatched c", OF unmatched_keeps unmatched_aborts True])
      then show ?thesis by (simp add: checkpoint_batch_def)
    next
      case matched: False
      let ?w1 = "w\<lparr>st_markers := snd (upsert_rows mk_profile always marker_merge (marker_of c token) (st_markers w))\<rparr>"
      have late: "\<not> artifact_row_ok c"
        using False matched validated_rows(1)[OF valid assms(3)] by (simp add: checkpoint_ok_def unmatched_def)
      have "unmatched c ?w1 = unmatched c w" by (rule unmatched_frame) simp_all
      then have "list_ex (supersedes c ?w1) (st_artifacts ?w1)" using matched by (simp add: unmatched_def)
      then have "updateArtifact c ?w1 = None" using late by (auto simp: updateArtifact_def list_ex_iff)
      moreover have "distinct (map mk_profile (st_markers w))" using assms(2) by (simp add: rows_ok_def)
      ultimately show ?thesis using markCommit_run[OF valid assms(3), of w] by (simp add: checkpoint_batch_def)
    qed
    with valid False show ?thesis by (simp add: commitDirectoryArtifactPublication_def)
  qed
qed (simp add: commitDirectoryArtifactPublication_def)

end
