(* ===== verification/DirectoryBuilds.thy ===== *)
theory DirectoryBuilds
  imports DirectoryRuns
begin

text \<open>
  The directory as a state machine: \<open>directory_step\<close> is one D1 transaction of any handler, and
  the invariant \<open>builds_ok\<close> over every sequence of steps is that no visible change is lost for
  the artifact builder and that the validated reads of \<open>directory-state.ts\<close> succeed.
\<close>

subsection \<open>The state machine\<close>

definition pending_revision :: "directory_profile \<Rightarrow> directory_state \<Rightarrow> int option" where
  "pending_revision q w = map_option ob_revision (lookup ob_profile q (dr_outbox (st_directory w)))"

text \<open>Work is queued exactly when the published artifact is older than the directory, and then for its newest revision.\<close>

definition artifact_current :: "directory_state \<Rightarrow> artifact_row \<Rightarrow> bool" where
  "artifact_current w a \<longleftrightarrow>
     (case revision_of (af_profile a) (st_directory w) of
        None \<Rightarrow> False
      | Some v \<Rightarrow> af_revision a \<le> v \<and> pending_revision (af_profile a) w = (if af_revision a = v then None else Some v)) \<and>
     list_all (\<lambda>h. hs_profile h = af_profile a \<longrightarrow> hs_generation h \<le> af_generation a) (st_history w) \<and>
     (af_generation a = 0 \<or> (af_profile a, af_generation a) \<in> history_key ` set (st_history w))"

definition builds_ok :: "directory_state \<Rightarrow> bool" where
  "builds_ok w \<longleftrightarrow>
     directory_ok (st_directory w) \<and> presence_capped (st_directory w) \<and> rows_ok w \<and>
     list_all (\<lambda>a. current_profile (af_profile a) \<longrightarrow> artifact_current w a) (st_artifacts w)"

text \<open>
  One D1 transaction of any of the handlers, in any order: a publication, an expiry, a
  checkpoint, or a transaction on the tables of the access routes.
\<close>

inductive directory_step :: "directory_state \<Rightarrow> directory_state \<Rightarrow> bool" where
  publishes: "publication_ok p \<Longrightarrow> fresh_publication p (st_directory w) \<Longrightarrow> observed_by p (st_directory w) \<Longrightarrow>
    directory_step w (w\<lparr>st_directory := snd (persistRendezvousPublication tc p (st_directory w))\<rparr>)"
| expires: "is_hex64 token \<Longrightarrow> directory_step w (snd (expireDirectoryEntries tc q token cutoff now w))"
| checkpoints: "is_hex64 token \<Longrightarrow> directory_step w (snd (commitDirectoryArtifactPublication c token w))"
| elsewhere: "nonces_ok d \<Longrightarrow> db_presence d = db_presence (dr_base (st_directory w)) \<Longrightarrow>
    directory_step w (w\<lparr>st_directory := (st_directory w)\<lparr>dr_base := d\<rparr>\<rparr>)"

inductive_cases directory_stepE: "directory_step w w'"

subsection \<open>Every step keeps the invariant\<close>

lemma lookup_drop: "lookup key k (filter (\<lambda>x. key x \<noteq> k') xs) = (if k = k' then None else lookup key k xs)"
  by (induction xs) auto

lemma frame_artifacts:
  assumes "st_artifacts v = st_artifacts w" "st_history v = st_history w" "st_markers v = st_markers w"
  shows "rows_ok v = rows_ok w"
    "(\<And>q. revision_of q (st_directory v) = revision_of q (st_directory w)) \<Longrightarrow>
     (\<And>q. pending_revision q v = pending_revision q w) \<Longrightarrow> artifact_current v a = artifact_current w a"
  using assms by (simp_all add: rows_ok_def artifact_current_def cong: option.case_cong)

lemma advanced_current:
  assumes "artifact_current w a" "revision_of q (st_directory w) = Some base" "st_history v = st_history w"
    "dr_revisions (st_directory v) = advanced_revisions c q now (dr_revisions (st_directory w))"
    "dr_outbox (st_directory v) = queued_outbox c q (base + 1) now (dr_outbox (st_directory w))"
  shows "artifact_current v a"
proof -
  have "pending_revision k v = (if c \<and> k = q then Some (base + 1) else pending_revision k w)" for k
    by (cases "lookup ob_profile k (dr_outbox (st_directory w))")
      (simp_all add: pending_revision_def assms(5) queued_outbox_def lookup_drop)
  then show ?thesis
    using assms(1-3) advanced_revision_of[OF assms(4)]
    by (auto simp: artifact_current_def split: option.splits if_splits)
qed

lemma presence_capped_upsert:
  assumes "presence_capped d" "presence_capacity_ok x (db_presence (dr_base d))"
    "db_presence (dr_base v) = snd (upsert_rows presence_key always presence_merge x (db_presence (dr_base d)))"
  shows "presence_capped v"
proof -
  let ?rs = "db_presence (dr_base d)"
  have "count (\<lambda>y. ps_profile y = q) (db_presence (dr_base v)) \<le> 512" for q
  proof (cases "presence_key x \<in> presence_key ` set ?rs")
    case True
    have "count (\<lambda>y. ps_profile y = q) (update_where (\<lambda>y. presence_key y = presence_key x) (\<lambda>y. presence_merge y x) ?rs)
        = count (\<lambda>y. ps_profile y = q) ?rs"
      by (rule count_update_where_eq) (simp add: presence_merge_def)
    with True presence_cap[OF assms(1), of q] show ?thesis by (simp add: assms(3) upsert_rows_def)
  next
    case False
    then show ?thesis
      using presence_cap[OF assms(1), of q] assms(2) by (auto simp: assms(3) upsert_rows_def presence_capacity_ok_def)
  qed
  then show ?thesis by (simp add: presence_capped_def list_all_iff)
qed

lemma persist_effect:
  assumes "directory_ok d" "publication_ok p" "observed_by p d" "fresh_publication p d"
  shows "publishable p d \<and> snd (persistRendezvousPublication tc p d) = published p (reclaimed (pb_now p) d) \<or>
    snd (persistRendezvousPublication tc p d) = reclaimed (pb_now p) d \<or> snd (persistRendezvousPublication tc p d) = d"
  unfolding publication_cases[OF assms] Let_def by simp

lemma published_capped:
  assumes "presence_capped d" "publishable p d" "db_presence (dr_base re) = db_presence (dr_base d)"
  shows "presence_capped (published p re)"
proof (rule presence_capped_upsert[OF assms(1)])
  show "presence_capacity_ok (new_presence p re) (db_presence (dr_base d))"
    unfolding new_presence_def by (rule iffD2[OF presence_capacity_row]) (use assms(2) in \<open>simp add: publishable_def\<close>)
  show "db_presence (dr_base (published p re)) =
      snd (upsert_rows presence_key always presence_merge (new_presence p re) (db_presence (dr_base d)))"
    by (simp add: published_def published_base_def Let_def assms(3))
qed

lemma builds_frame:
  assumes ok: "builds_ok w" and v: "st_artifacts v = st_artifacts w" "st_history v = st_history w" "rows_ok v = rows_ok w"
    and d: "directory_ok (st_directory v)" "presence_capped (st_directory v)"
    and cur: "\<And>a. artifact_current w a \<Longrightarrow> artifact_current v a"
  shows "builds_ok v"
  using ok cur d v(3) unfolding builds_ok_def v(1) list_all_iff by blast

lemma builds_publish:
  assumes ok: "builds_ok w" and p: "publication_ok p" "fresh_publication p (st_directory w)" "observed_by p (st_directory w)"
  shows "builds_ok (w\<lparr>st_directory := snd (persistRendezvousPublication tc p (st_directory w))\<rparr>)"
proof -
  let ?d = "st_directory w" let ?re = "reclaimed (pb_now p) ?d" let ?d' = "snd (persistRendezvousPublication tc p ?d)"
  let ?v = "w\<lparr>st_directory := ?d'\<rparr>"
  have dok: "directory_ok ?d" and cap: "presence_capped ?d" using ok by (simp_all add: builds_ok_def)
  note fr = reclaimed_frames[of "pb_now p" ?d]
  have rows: "rows_ok ?v = rows_ok w" by (rule frame_artifacts) simp_all
  have "presence_capped ?d' \<and> (\<forall>a. artifact_current w a \<longrightarrow> artifact_current ?v a)"
    using persist_effect[OF dok p(1,3,2), of tc]
  proof (elim disjE conjE)
    assume pub: "publishable p ?d" and d': "?d' = published p ?re"
    obtain base where base: "revision_of (pb_profile p) ?d = Some base"
      using pub by (auto simp: publishable_def split: option.splits)
    then have "revision_of (pb_profile p) ?re = Some base" by (simp add: revision_of_def fr)
    then have base0: "base_revision p ?re = base" by (rule base_revision_Some)
    have "artifact_current ?v a" if "artifact_current w a" for a
      using that base
      by (rule advanced_current[where c = "visibleContentChanged p ?re" and now = "pb_now p"])
        (simp_all only: d', simp_all add: published_def published_revisions_def published_outbox_def base0 fr)
    then show ?thesis using published_capped[OF cap pub fr(6)] by (simp add: d')
  next
    assume d': "?d' = ?re"
    have "artifact_current ?v a = artifact_current w a" for a
      by (rule frame_artifacts(2)) (simp_all add: d' revision_of_def pending_revision_def fr)
    moreover have "presence_capped ?d'" using cap by (simp add: d' presence_capped_def fr)
    ultimately show ?thesis by blast
  next
    assume "?d' = ?d"
    then have "artifact_current ?v a = artifact_current w a" "presence_capped ?d'" for a
      using cap by (simp_all add: frame_artifacts(2)[where v = ?v and w = w] pending_revision_def)
    then show ?thesis by blast
  qed
  then show ?thesis
    using publication_keeps(1)[OF dok p(1,3,2), of tc] rows by (intro builds_frame[OF ok]) simp_all
qed

lemma expired_directory_ok:
  assumes ok: "directory_ok d" and base: "revision_of q d = Some base"
  shows "directory_ok (expired q cutoff now base d)"
proof -
  let ?v = "expired q cutoff now base d"
  note parts = ok[unfolded directory_ok_def]
  have "revisions_ok ?v"
    by (rule advanced_revisions_ok[OF _ base]) (use parts in \<open>simp_all add: expired_def\<close>)
  moreover have "listing_ok ?v"
  proof -
    have sub: "entry_key e \<in> presence_key ` {x \<in> set (db_presence (dr_base d)). \<not> stale_presence q cutoff x}"
      if "e \<in> set (dr_entries d)" "entry_key e \<notin> stale_keys q cutoff d" for e
    proof -
      have "entry_key e \<in> presence_key ` set (db_presence (dr_base d))"
        using that(1) parts unfolding listing_ok_def by blast
      then obtain x where "x \<in> set (db_presence (dr_base d))" "entry_key e = presence_key x" by blast
      with that(2) show ?thesis by (auto simp: stale_keys_def)
    qed
    have "entry_key ` set (dr_entries ?v) \<subseteq> presence_key ` set (db_presence (dr_base ?v))"
      using sub by (auto simp: expired_def)
    then show ?thesis
      using parts by (auto simp: listing_ok_def expired_def list_all_iff intro: distinct_map_filterI)
  qed
  moreover have "activity_ok ?v"
    using parts by (auto simp: activity_ok_def expired_def list_all_iff intro: distinct_map_filterI)
  moreover have "nonces_ok (dr_base ?v)"
    using parts by (simp add: nonces_ok_def expired_def live_routes_def)
  ultimately show ?thesis by (simp add: directory_ok_def)
qed

lemma builds_expire:
  assumes ok: "builds_ok w" and token: "is_hex64 token"
  shows "builds_ok (snd (expireDirectoryEntries tc q token cutoff now w))"
proof -
  let ?d = "st_directory w" let ?v = "snd (expireDirectoryEntries tc q token cutoff now w)"
  note parts = ok[unfolded builds_ok_def]
  show ?thesis
  proof (cases "?v = w")
    case False
    then obtain base where base: "revision_of q ?d = Some base"
        and v: "?v = (marked q token cutoff now base w)\<lparr>st_directory := expired q cutoff now base ?d\<rparr>"
      using expire_cases[OF _ _ token, of w tc q cutoff now] parts by (auto split: if_splits option.splits)
    show ?thesis
    proof (rule builds_frame[OF ok])
      have "count (\<lambda>y. ps_profile y = r) (db_presence (dr_base (expired q cutoff now base ?d))) \<le> 512" for r
        using order_trans[OF count_filter_le presence_cap, of ?d] parts by (simp add: expired_def)
      then show "presence_capped (st_directory ?v)" by (simp add: v presence_capped_def list_all_iff)
      show "artifact_current ?v a" if "artifact_current w a" for a
        using that base by (rule advanced_current) (simp_all add: v expired_def marked_def)
      show "rows_ok ?v = rows_ok w" by (rule frame_artifacts) (simp_all add: v marked_def)
      show "directory_ok (st_directory ?v)" using expired_directory_ok[OF _ base] parts by (simp add: v)
    qed (simp_all add: v marked_def)
  qed (simp add: ok)
qed

lemma checkpointed_rows_ok:
  assumes ok: "rows_ok w" and c: "artifact_row_ok c" "history_row_ok (history_of c)"
  shows "rows_ok (checkpointed c token w)"
proof -
  let ?v = "checkpointed c token w"
  note rows = ok[unfolded rows_ok_def]
  note facts = kept_history_facts[where c = c and hs = "st_history w"]
  have "map af_profile (st_artifacts ?v) = map af_profile (st_artifacts w)"
    by (simp add: checkpointed_def) (rule map_update_where, simp)
  moreover have "list_all artifact_row_ok (st_artifacts ?v)"
    using rows c(1) by (auto simp: checkpointed_def list_all_iff set_update_where)
  moreover have "distinct (map mk_profile (st_markers ?v))"
    using rows by (simp add: checkpointed_def marker_table.upsert_distinct)
  moreover have "distinct (map history_key (st_history ?v))"
    using rows facts(1) by (simp add: checkpointed_def history_table.upsert_distinct)
  moreover have "list_all history_row_ok (st_history ?v)"
  proof -
    have "list_all history_row_ok (kept_history c (st_history w))" using rows facts(2) by (auto simp: list_all_iff)
    then show ?thesis using c(2) by (simp add: checkpointed_def history_table.upsert_all history_merge_same)
  qed
  moreover have "list_all (\<lambda>h. count (\<lambda>x. hs_profile x = hs_profile h) (st_history ?v) \<le> 8) (st_history ?v)"
    using checkpointed_history(2)[where w = w and c = c and token = token] rows by (simp add: list_all_iff)
  ultimately show ?thesis using rows by (simp add: rows_ok_def)
qed

lemma checkpointed_history_elsewhere:
  assumes "distinct (map history_key (st_history w))" "q \<noteq> af_profile c"
  shows "filter (\<lambda>h. hs_profile h = q) (st_history (checkpointed c token w)) = filter (\<lambda>h. hs_profile h = q) (st_history w)"
proof -
  have upd: "filter (\<lambda>h. hs_profile h = q) (update_where (\<lambda>x. history_key x = history_key (history_of c))
      (\<lambda>x. history_merge x (history_of c)) hs) = filter (\<lambda>h. hs_profile h = q) hs" for hs
    using assms(2) by (induction hs) (auto simp: history_key_def history_of_def history_merge_def)
  have "filter (\<lambda>h. hs_profile h = q) (snd (upsert_rows history_key always history_merge (history_of c) hs)) =
      filter (\<lambda>h. hs_profile h = q) hs" for hs
    using assms(2) upd[of hs] by (simp add: upsert_rows_def history_of_def)
  then show ?thesis using kept_history_facts(5)[OF assms] by (simp add: checkpointed_def)
qed

lemma same_profile_history:
  assumes "filter (\<lambda>h. hs_profile h = q) xs = filter (\<lambda>h. hs_profile h = q) ys"
  shows "list_all (\<lambda>h. hs_profile h = q \<longrightarrow> P h) xs = list_all (\<lambda>h. hs_profile h = q \<longrightarrow> P h) ys"
    "(q, g) \<in> history_key ` set xs \<longleftrightarrow> (q, g) \<in> history_key ` set ys"
proof -
  have set: "{h \<in> set xs. hs_profile h = q} = {h \<in> set ys. hs_profile h = q}"
    using arg_cong[OF assms, of set] by simp
  then show "list_all (\<lambda>h. hs_profile h = q \<longrightarrow> P h) xs = list_all (\<lambda>h. hs_profile h = q \<longrightarrow> P h) ys"
    by (auto simp: list_all_iff)
  have key: "(q, g) \<in> history_key ` set zs \<longleftrightarrow> (\<exists>h \<in> {h \<in> set zs. hs_profile h = q}. hs_generation h = g)" for zs
    by (auto simp: history_key_def image_iff)
  show "(q, g) \<in> history_key ` set xs \<longleftrightarrow> (q, g) \<in> history_key ` set ys" unfolding key set by (rule refl)
qed

lemma checkpointed_current:
  assumes ok: "builds_ok w" and c: "current_profile (af_profile c)" "checkpoint_ok c w"
    and a: "a \<in> set (st_artifacts (checkpointed c token w))" "current_profile (af_profile a)"
  shows "artifact_current (checkpointed c token w) a"
proof -
  let ?v = "checkpointed c token w" let ?q = "af_profile c"
  obtain b where b: "b \<in> set (st_artifacts w)" "supersedes c w b" using c(2) by (auto simp: checkpoint_ok_def list_ex_iff)
  have dist: "distinct (map history_key (st_history w))" using ok by (simp add: builds_ok_def rows_ok_def)
  have old: "artifact_current w x" if "x \<in> set (st_artifacts w)" "current_profile (af_profile x)" for x
    using ok that by (simp add: builds_ok_def list_all_iff)
  have rev: "revision_of k (st_directory ?v) = revision_of k (st_directory w)" for k
    by (simp add: checkpointed_def revision_of_def)
  have pend: "pending_revision k ?v = (if k = ?q then None else pending_revision k w)" for k
    by (simp add: pending_revision_def checkpointed_def lookup_drop)
  show ?thesis
  proof (cases "af_profile a = ?q")
    case True
    then have "a = c" using a(1) by (auto simp: checkpointed_def set_update_where split: if_splits)
    moreover have "hs_generation h \<le> af_generation c" if "h \<in> set (st_history ?v)" "hs_profile h = ?q" for h
    proof -
      have "set (st_history ?v) \<subseteq> insert (history_of c) (set (kept_history c (st_history w)) \<union> {history_of c})"
        using history_table.upsert_set[of "history_of c" "kept_history c (st_history w)"]
        by (auto simp: checkpointed_def history_merge_same)
      then have "h = history_of c \<or> h \<in> set (st_history w)" using that(1) kept_history_facts(2)[OF dist, of c] by auto
      moreover have "hs_generation h \<le> af_generation b" if "h \<in> set (st_history w)"
        using that \<open>hs_profile h = ?q\<close> old[OF b(1)] b(2) c(1) by (auto simp: artifact_current_def supersedes_def list_all_iff)
      moreover have "af_generation b \<le> af_generation c" using b(2) by (auto simp: supersedes_def)
      ultimately show ?thesis by (auto simp: history_of_def)
    qed
    moreover have "(?q, af_generation c) \<in> history_key ` set (st_history ?v)"
      using checkpointed_history(1)[where w = w and c = c and token = token]
      by (intro image_eqI[of _ _ "history_of c"]) (simp_all add: history_key_def history_of_def)
    moreover have "revision_of ?q (st_directory w) = Some (af_revision c)" using b(2) by (auto simp: supersedes_def)
    ultimately show ?thesis by (auto simp: artifact_current_def rev pend list_all_iff)
  next
    case False
    then have "a \<in> set (st_artifacts w)" using a(1) by (auto simp: checkpointed_def set_update_where split: if_splits)
    then have "artifact_current w a" using old a(2) by blast
    then show ?thesis
      using False same_profile_history[OF checkpointed_history_elsewhere[OF dist False]]
      by (simp add: artifact_current_def rev pend cong: option.case_cong)
  qed
qed

lemma builds_checkpoint:
  assumes ok: "builds_ok w" and token: "is_hex64 token"
  shows "builds_ok (snd (commitDirectoryArtifactPublication c token w))"
proof -
  let ?d = "st_directory w" let ?v = "checkpointed c token w"
  note parts = ok[unfolded builds_ok_def directory_ok_def]
  show ?thesis
  proof (cases "validateArtifactCommit c \<and> checkpoint_ok c w")
    case True
    note valid = validated_rows[OF _ token, of c]
    have "rows_ok ?v"
      using checkpointed_rows_ok[of w c token] valid True parts by (simp add: checkpoint_ok_def)
    moreover have "directory_ok (st_directory ?v)"
      using parts by (auto simp: directory_ok_def checkpointed_def revisions_ok_def listing_ok_def activity_ok_def
          revision_of_def list_all_iff intro: distinct_map_filterI)
    moreover have "presence_capped (st_directory ?v)" using parts by (simp add: checkpointed_def presence_capped_def)
    moreover have "current_profile (af_profile c)" using True by (simp add: validateArtifactCommit_def)
    ultimately have "builds_ok ?v" using checkpointed_current[OF ok] True by (simp add: builds_ok_def list_all_iff)
    then show ?thesis using True commit_cases[OF _ _ token, of w c] parts by simp
  next
    case False
    then show ?thesis using commit_cases[OF _ _ token, of w c] parts ok by auto
  qed
qed

lemma builds_elsewhere:
  assumes ok: "builds_ok w" and d: "nonces_ok d" "db_presence d = db_presence (dr_base (st_directory w))"
  shows "builds_ok (w\<lparr>st_directory := (st_directory w)\<lparr>dr_base := d\<rparr>\<rparr>)" (is "builds_ok ?v")
proof (rule builds_frame[OF ok])
  note parts = ok[unfolded builds_ok_def directory_ok_def]
  show "directory_ok (st_directory ?v)"
    using parts d by (simp add: directory_ok_def revisions_ok_def listing_ok_def activity_ok_def revision_of_def)
  show "presence_capped (st_directory ?v)" using parts by (simp add: presence_capped_def d(2))
  show "rows_ok ?v = rows_ok w" by (rule frame_artifacts) simp_all
  have "artifact_current ?v a = artifact_current w a" for a
    by (rule frame_artifacts(2)) (simp_all add: revision_of_def pending_revision_def)
  then show "artifact_current ?v a" if "artifact_current w a" for a using that by simp
qed simp_all

lemma builds_step: "directory_step w w' \<Longrightarrow> builds_ok w \<Longrightarrow> builds_ok w'"
  by (induction rule: directory_step.induct) (simp_all add: builds_publish builds_expire builds_checkpoint builds_elsewhere)

lemma builds_reachable: "rtranclp directory_step w w' \<Longrightarrow> builds_ok w \<Longrightarrow> builds_ok w'"
  by (induction rule: rtranclp_induct) (simp_all add: builds_step)

subsection \<open>Reads\<close>

interpretation generation_order: comparator "\<lambda>a b. hs_generation a - hs_generation b"
  by unfold_locales auto

lemma ascending_iff: "ascending xs \<longleftrightarrow> sorted_wrt (<) xs"
proof (induction xs rule: ascending.induct)
  case (1 x y zs)
  then show ?case by (auto dest: less_trans)
qed simp_all

lemma sorted_last: "sorted (xs :: int list) \<Longrightarrow> x \<in> set xs \<Longrightarrow> x \<le> last xs"
  by (induction xs) auto

lemma history_read:
  assumes "rows_ok w"
  shows "\<exists>gs. readDirectoryArtifactHistory q w = Inr gs \<and> length gs \<le> 8 \<and> sorted gs \<and>
    set gs = hs_generation ` {h \<in> set (st_history w). hs_profile h = q}"
proof -
  let ?hs = "filter (\<lambda>h. hs_profile h = q) (st_history w)"
  let ?gs = "map hs_generation (js_sort (\<lambda>a b. hs_generation a - hs_generation b) ?hs)"
  note rows = assms[unfolded rows_ok_def]
  have "sorted ?gs"
    using generation_order.ordered_js_sort[of ?hs] by (simp add: sorted_wrt_map)
  moreover have "distinct ?gs"
  proof -
    have "mset ?gs = mset (map hs_generation ?hs)" by simp
    moreover have "distinct (map hs_generation ?hs)"
      using rows by (auto simp: distinct_map inj_on_def history_key_def)
    ultimately show ?thesis by (rule mset_eq_imp_distinct_iff[THEN iffD2])
  qed
  ultimately have "ascending ?gs" by (simp add: ascending_iff strict_sorted_iff)
  moreover have "length ?gs \<le> 8"
    using capped_count[of hs_profile "st_history w" 8 q] rows by (simp add: count_def)
  moreover have "set ?gs = hs_generation ` {h \<in> set (st_history w). hs_profile h = q}" by simp
  moreover have "list_all (\<lambda>g. 1 \<le> g \<and> g \<le> max_safe_integer) ?gs"
    using rows by (auto simp: list_all_iff history_row_ok_def)
  ultimately show ?thesis using \<open>sorted ?gs\<close> by (simp add: readDirectoryArtifactHistory_def Let_def)
qed

lemma artifact_read:
  assumes "rows_ok w" "a \<in> set (st_artifacts w)"
  shows "readDirectoryArtifactPublication (af_profile a) w = Inr a"
proof -
  have "artifact_row_ok a" "lookup af_profile (af_profile a) (st_artifacts w) = Some a"
    using assms by (simp_all add: rows_ok_def list_all_iff lookup_distinct)
  then show ?thesis
    by (auto simp: readDirectoryArtifactPublication_def exactArtifactPublication_def artifact_row_ok_def
        stored_integer_def LAST_TIMESTAMP_def max_safe_integer_def split: if_splits)
qed

text \<open>
  C33: No visible change is lost. After any interleaving of publications, expiries, checkpoints
  and transactions on the access tables, the published artifact of a profile is either the one
  of the current revision, and then nothing is queued, or the current revision is queued for
  the builder; both reads succeed, and the newest retained generation is the published one.
\<close>

theorem visible_changes_are_built:
  assumes "builds_ok w" "rtranclp directory_step w w'" "a \<in> set (st_artifacts w')" "current_profile (af_profile a)"
  shows "\<exists>v gs. revision_of (af_profile a) (st_directory w') = Some v \<and> af_revision a \<le> v \<and>
    pending_revision (af_profile a) w' = (if af_revision a = v then None else Some v) \<and>
    readDirectoryArtifactPublication (af_profile a) w' = Inr a \<and>
    readDirectoryArtifactHistory (af_profile a) w' = Inr gs \<and> length gs \<le> 8 \<and>
    (if gs = [] then af_generation a = 0 else last gs \<le> af_generation a) \<and>
    (af_generation a > 0 \<longrightarrow> gs \<noteq> [] \<and> last gs = af_generation a)"
proof -
  have ok: "builds_ok w'" using builds_reachable assms(1,2) by blast
  then have rows: "rows_ok w'" and cur: "artifact_current w' a"
    using assms(3,4) by (simp_all add: builds_ok_def list_all_iff)
  obtain gs where gs: "readDirectoryArtifactHistory (af_profile a) w' = Inr gs" "length gs \<le> 8" "sorted gs"
      "set gs = hs_generation ` {h \<in> set (st_history w'). hs_profile h = af_profile a}"
    using history_read[OF rows] by blast
  have le: "g \<le> af_generation a" if "g \<in> set gs" for g
    using that cur by (auto simp: gs(4) artifact_current_def list_all_iff)
  have mem: "af_generation a \<in> set gs" if "af_generation a \<noteq> 0"
    using that cur by (auto simp: gs(4) artifact_current_def history_key_def)
  have "last gs = af_generation a" if "af_generation a \<noteq> 0"
  proof -
    have "gs \<noteq> []" using mem[OF that] by auto
    then have "last gs \<in> set gs" by simp
    with sorted_last[OF gs(3) mem[OF that]] le show ?thesis by (meson order_antisym)
  qed
  moreover have "last gs \<le> af_generation a" if "gs \<noteq> []" using le that by simp
  moreover have "gs \<noteq> []" if "af_generation a \<noteq> 0" using mem[OF that] by auto
  ultimately have history: "(if gs = [] then af_generation a = 0 else last gs \<le> af_generation a) \<and>
      (af_generation a > 0 \<longrightarrow> gs \<noteq> [] \<and> last gs = af_generation a)" by auto
  obtain v where v: "revision_of (af_profile a) (st_directory w') = Some v" "af_revision a \<le> v"
      "pending_revision (af_profile a) w' = (if af_revision a = v then None else Some v)"
    using cur by (cases "revision_of (af_profile a) (st_directory w')") (auto simp: artifact_current_def)
  show ?thesis
    using v gs(1,2) artifact_read[OF rows assms(3)] history by blast
qed

definition example_artifact :: artifact_row where
  "example_artifact =
     \<lparr>af_profile = ClassicV3, af_revision = 0, af_generation = 0, af_generated = 0, af_expires = 0,
      af_model = ZERO_SHA256, af_html = ZERO_SHA256, af_xml = ZERO_SHA256, af_json = ZERO_SHA256,
      af_manifest = ZERO_SHA256, af_html_bytes = 0, af_xml_bytes = 0, af_json_bytes = 0, af_manifest_bytes = 0,
      af_published = 0\<rparr>"

definition example_commit :: artifact_row where
  "example_commit = example_artifact\<lparr>af_revision := 4, af_generation := 1, af_generated := 1000, af_expires := 2000,
     af_html_bytes := 10, af_xml_bytes := 10, af_json_bytes := 10, af_manifest_bytes := 10, af_published := 1001\<rparr>"

definition example_state :: directory_state where
  "example_state = \<lparr>st_directory = example_directory, st_artifacts = [example_artifact], st_markers = [],
     st_history = [], st_expiry = []\<rparr>"

lemma example_zero: "is_hex64 ZERO_SHA256" by (simp add: ZERO_SHA256_def is_hex_digit_def)

lemma example_builds_ok: "builds_ok example_state"
proof -
  have "artifact_row_ok example_artifact"
    using example_zero
    by (simp add: artifact_row_ok_def example_artifact_def stored_integer_def LAST_TIMESTAMP_def max_safe_integer_def)
  moreover have "presence_capped example_directory"
    by (simp add: presence_capped_def example_directory_def) (simp add: example_access_defs)
  moreover have "artifact_current example_state example_artifact"
    by (simp add: artifact_current_def example_artifact_def example_state_def revision_of_def pending_revision_def
        example_directory_def)
  ultimately show ?thesis
    using example_directory_ok by (simp add: builds_ok_def rows_ok_def example_state_def)
qed

lemma example_commit_ok:
  "commitDirectoryArtifactPublication example_commit (replicate 64 (CHR ''a'')) example_state =
   (Inr (), checkpointed example_commit (replicate 64 (CHR ''a'')) example_state)"
proof -
  have "validateArtifactCommit example_commit"
    using example_zero
    by (simp add: validateArtifactCommit_def example_commit_def example_artifact_def current_profile_def
        stored_integer_def max_safe_integer_def)
  moreover have "checkpoint_ok example_commit example_state"
    by (simp add: checkpoint_ok_def supersedes_def example_state_def example_commit_def example_artifact_def
        LAST_TIMESTAMP_def revision_of_def example_directory_def)
  ultimately show ?thesis
    using commit_cases[of example_state "replicate 64 (CHR ''a'')" example_commit] example_builds_ok
    by (simp add: builds_ok_def directory_ok_def is_hex_digit_def)
qed

theorem visible_changes_are_built_witness:
  "pending_revision ClassicV3 example_state = Some 4 \<and>
   pending_revision ClassicV3
     (snd (commitDirectoryArtifactPublication example_commit (replicate 64 (CHR ''a'')) example_state)) = None"
proof -
  let ?v = "snd (commitDirectoryArtifactPublication example_commit (replicate 64 (CHR ''a'')) example_state)"
  have "rtranclp directory_step example_state ?v"
    by (rule r_into_rtranclp) (rule directory_step.checkpoints, simp add: is_hex_digit_def)
  moreover have "example_commit \<in> set (st_artifacts ?v)"
    by (simp add: example_commit_ok checkpointed_def) (simp add: example_state_def example_commit_def example_artifact_def)
  moreover have "af_profile example_commit = ClassicV3" "af_revision example_commit = 4"
    by (simp_all add: example_commit_def example_artifact_def)
  moreover have "revision_of ClassicV3 (st_directory ?v) = Some 4"
    by (simp add: example_commit_ok checkpointed_def) (simp add: example_state_def revision_of_def example_directory_def)
  ultimately have "pending_revision ClassicV3 ?v = None"
    using visible_changes_are_built[OF example_builds_ok, of ?v example_commit] by (auto simp: current_profile_def)
  moreover have "pending_revision ClassicV3 example_state = Some 4"
    by (simp add: pending_revision_def example_state_def example_directory_def)
  ultimately show ?thesis by simp
qed

end
