(* ===== verification/DirectoryText.thy ===== *)
theory DirectoryText
  imports DirectoryTables "HOL-Library.Word"
begin

text \<open>
  JavaScript strings as UTF-16 code units, \<open>TextEncoder\<close>, the results of \<open>JSON.parse\<close>, and the
  display-text rules of \<open>directory-state.ts\<close>. The theorem of this theory is that a text the
  Worker accepts satisfies, byte for byte, the size and content rules of the directory tables.
\<close>

subsection \<open>Strings and JSON values\<close>

type_synonym text16 = "16 word list"

definition ascii16 :: "string \<Rightarrow> text16" where
  "ascii16 s = map (\<lambda>c. of_nat (of_char c)) s"

text \<open>A pattern of the source admits ASCII characters only; a string with another code unit fails it.\<close>

fun to_ascii :: "text16 \<Rightarrow> string option" where
  "to_ascii [] = Some []"
| "to_ascii (u # us) =
     (if unat u < 128 then map_option (\<lambda>s. char_of (unat u) # s) (to_ascii us) else None)"

definition matches :: "(string \<Rightarrow> bool) \<Rightarrow> text16 \<Rightarrow> bool" where
  "matches P v = (case to_ascii v of None \<Rightarrow> False | Some s \<Rightarrow> P s)"

definition high_surrogate :: "nat \<Rightarrow> bool" where "high_surrogate n \<longleftrightarrow> 0xD800 \<le> n \<and> n \<le> 0xDBFF"
definition low_surrogate :: "nat \<Rightarrow> bool" where "low_surrogate n \<longleftrightarrow> 0xDC00 \<le> n \<and> n \<le> 0xDFFF"

definition pair_scalar :: "nat \<Rightarrow> nat \<Rightarrow> nat" where
  "pair_scalar hi lo = 0x10000 + (hi - 0xD800) * 1024 + (lo - 0xDC00)"

text \<open>The scalar values that \<open>TextEncoder\<close> encodes: a lone surrogate becomes U+FFFD.\<close>

fun code_points :: "text16 \<Rightarrow> nat list" where
  "code_points [] = []"
| "code_points [u] = [if high_surrogate (unat u) \<or> low_surrogate (unat u) then 0xFFFD else unat u]"
| "code_points (u # v # us) =
     (if high_surrogate (unat u)
      then if low_surrogate (unat v) then pair_scalar (unat u) (unat v) # code_points us
           else 0xFFFD # code_points (v # us)
      else (if low_surrogate (unat u) then 0xFFFD else unat u) # code_points (v # us))"

definition utf8_scalar :: "nat \<Rightarrow> nat list" where
  "utf8_scalar n =
     (if n < 0x80 then [n]
      else if n < 0x800 then [192 + n div 64, 128 + n mod 64]
      else if n < 0x10000 then [224 + n div 4096, 128 + n div 64 mod 64, 128 + n mod 64]
      else [240 + n div 262144, 128 + n div 4096 mod 64, 128 + n div 64 mod 64, 128 + n mod 64])"

definition utf8_of :: "nat list \<Rightarrow> nat list" where
  "utf8_of ns = concat (map utf8_scalar ns)"

definition utf8 :: "text16 \<Rightarrow> string" where
  "utf8 v = map byte (utf8_of (code_points v))"

text \<open>An object is its own enumerable properties; \<open>JSON.parse\<close> keeps the last of equal names.\<close>

datatype json = JsNull | JsBool bool | JsInt int | JsOther | JsText text16 | JsArray "json list"
  | JsObject "(text16 \<times> json) list"

fun is_json_object :: "json \<Rightarrow> bool" where
  "is_json_object (JsObject _) = True"
| "is_json_object _ = False"

subsection \<open>Display texts (\<open>isProfileDirectoryText\<close>)\<close>

definition game_scalar_ok :: "bool \<Rightarrow> nat \<Rightarrow> bool" where
  "game_scalar_ok game n \<longleftrightarrow> \<not> (game \<and> (0x80 \<le> n \<and> n \<le> 0x9F \<or> n = 0x2028 \<or> n = 0x2029))"

fun scalars_ok :: "bool \<Rightarrow> text16 \<Rightarrow> bool" where
  "scalars_ok game [] = True"
| "scalars_ok game [u] =
     (\<not> high_surrogate (unat u) \<and> \<not> low_surrogate (unat u) \<and> game_scalar_ok game (unat u))"
| "scalars_ok game (u # v # us) =
     (if high_surrogate (unat u)
      then low_surrogate (unat v) \<and> game_scalar_ok game (pair_scalar (unat u) (unat v)) \<and> scalars_ok game us
      else \<not> low_surrogate (unat u) \<and> game_scalar_ok game (unat u) \<and> scalars_ok game (v # us))"

definition excluded_unit :: "nat \<Rightarrow> bool" where
  "excluded_unit n \<longleftrightarrow> n \<le> 0x1F \<or> n = 0x7F \<or> n = 0xFFFE \<or> n = 0xFFFF"

definition isProfileDirectoryText :: "json \<Rightarrow> nat \<Rightarrow> bool \<Rightarrow> bool \<Rightarrow> bool" where
  "isProfileDirectoryText value maximumBytes allowEmpty gameProfile =
     (case value of
        JsText v \<Rightarrow>
          (if \<not> allowEmpty \<and> v = [] \<or> length v > maximumBytes \<or> length (utf8 v) > maximumBytes \<or>
              list_ex (\<lambda>u. excluded_unit (unat u)) v
           then False else scalars_ok gameProfile v)
      | _ \<Rightarrow> False)"

definition isDirectoryText :: "json \<Rightarrow> nat \<Rightarrow> bool \<Rightarrow> bool" where
  "isDirectoryText value maximumBytes allowEmpty = isProfileDirectoryText value maximumBytes allowEmpty False"

definition isGameDirectoryText :: "json \<Rightarrow> nat \<Rightarrow> bool \<Rightarrow> bool" where
  "isGameDirectoryText value maximumBytes allowEmpty = isProfileDirectoryText value maximumBytes allowEmpty True"

subsection \<open>The encoding\<close>

definition scalar_value :: "nat \<Rightarrow> bool" where
  "scalar_value n \<longleftrightarrow> n < 0x110000 \<and> \<not> high_surrogate n \<and> \<not> low_surrogate n"

lemma unat16: "unat (u :: 16 word) < 65536"
proof -
  have "unat u < 2 ^ LENGTH(16)" by (rule unsigned_less)
  then show ?thesis by simp
qed

lemma code_points_scalar: "list_all scalar_value (code_points v)"
proof (induction v rule: code_points.induct)
  case (2 u)
  then show ?case using unat16[of u] by (simp add: scalar_value_def high_surrogate_def low_surrogate_def)
next
  case (3 u v us)
  then show ?case
    using unat16[of u]
    by (auto simp: scalar_value_def high_surrogate_def low_surrogate_def pair_scalar_def)
qed simp

lemma utf8_of_simps [simp]:
  "utf8_of [] = []" "utf8_of (n # ns) = utf8_scalar n @ utf8_of ns" "utf8_of (ms @ ns) = utf8_of ms @ utf8_of ns"
  by (simp_all add: utf8_of_def)

lemma utf8_scalar_bytes:
  assumes "n < 0x110000" "b \<in> set (utf8_scalar n)"
  shows "b < 256" "b < 128 \<Longrightarrow> n = b"
  using assms by (auto simp: utf8_scalar_def split: if_splits)

text \<open>UTF-8 is self-synchronizing: a three-byte sequence occurs only as the encoding of one scalar.\<close>

lemma utf8_scalar_lead:
  assumes "n < 0x110000" "utf8_scalar n = u @ x # r" "224 \<le> x" "x < 240"
  shows "u = [] \<and> length r = 2"
  using assms
  by (cases u) (auto simp: utf8_scalar_def append_eq_Cons_conv Cons_eq_append_conv split: if_splits)

lemma three_byte_part:
  assumes "list_all (\<lambda>n. n < 0x110000) ns" "utf8_of ns = u @ [x, y, z] @ w" "224 \<le> x" "x < 240"
  shows "\<exists>n \<in> set ns. utf8_scalar n = [x, y, z]"
  using assms(1,2)
proof (induction ns arbitrary: u)
  case (Cons n ns)
  from Cons.prems(2) have eq: "utf8_scalar n @ utf8_of ns = u @ [x, y, z] @ w" by simp
  then obtain us where us: "utf8_scalar n = u @ us \<and> us @ utf8_of ns = [x, y, z] @ w \<or>
      utf8_scalar n @ us = u \<and> utf8_of ns = us @ [x, y, z] @ w"
    unfolding append_eq_append_conv2 by blast
  consider t where "u = utf8_scalar n @ t" "utf8_of ns = t @ [x, y, z] @ w"
    | t where "utf8_scalar n = u @ t" "t \<noteq> []" "t @ utf8_of ns = [x, y, z] @ w"
  proof (cases "us = []")
    case True
    then show ?thesis using us that(1)[of "[]"] by auto
  next
    case False
    then show ?thesis using us that by blast
  qed
  then show ?case
  proof cases
    case 1
    then show ?thesis using Cons.IH[of t] Cons.prems(1) by auto
  next
    case 2
    then obtain r where t: "t = x # r" by (cases t) auto
    with 2 utf8_scalar_lead[of n u x r] assms(3,4) Cons.prems(1) have "u = []" "length r = 2" by auto
    with 2 t have "utf8_scalar n = [x, y, z]" by (auto simp: length_Suc_conv numeral_2_eq_2)
    then show ?thesis by auto
  qed
qed simp

lemma utf8_scalar_inj:
  assumes "utf8_scalar n = [x, y, z]" shows "n = (x - 224) * 4096 + (y - 128) * 64 + (z - 128)"
proof -
  have "x = 224 + n div 4096" "y = 128 + n div 64 mod 64" "z = 128 + n mod 64"
    using assms by (auto simp: utf8_scalar_def split: if_splits)
  then have "(x - 224) * 4096 + (y - 128) * 64 + (z - 128) = n div 4096 * 4096 + n div 64 mod 64 * 64 + n mod 64" by simp
  also have "n div 4096 * 4096 + n div 64 mod 64 * 64 + n mod 64 = n"
  proof -
    have "n div 4096 = n div 64 div 64" by (simp add: div_mult2_eq[symmetric])
    then show ?thesis using div_mult_mod_eq[of n 64] div_mult_mod_eq[of "n div 64" 64] by linarith
  qed
  finally show ?thesis by (rule sym)
qed

lemma has_part_iff: "has_part p s \<longleftrightarrow> (\<exists>u w. s = u @ p @ w)"
proof
  assume "has_part p s"
  then obtain i where "take (length p) (drop i s) = p" by (auto simp: has_part_def list_ex_iff)
  then have "s = take i s @ p @ drop (length p) (drop i s)" by (metis append_take_drop_id)
  then show "\<exists>u w. s = u @ p @ w" by blast
next
  assume "\<exists>u w. s = u @ p @ w"
  then obtain u w where "s = u @ p @ w" by blast
  then show "has_part p s" by (auto simp: has_part_def list_ex_iff intro!: bexI[of _ "length u"])
qed

lemma byte_eq: "m < 256 \<Longrightarrow> n < 256 \<Longrightarrow> byte m = byte n \<longleftrightarrow> m = n"
  by (metis byte_def of_char_of mod_less)

lemma utf8_bytes: "list_all scalar_value ns \<Longrightarrow> b \<in> set (utf8_of ns) \<Longrightarrow> b < 256 \<and> (b < 128 \<longrightarrow> b \<in> set ns)"
  by (induction ns) (auto dest: utf8_scalar_bytes simp: scalar_value_def)

lemma no_three_bytes:
  assumes "list_all scalar_value ns" "has_part [byte x, byte y, byte z] (map byte (utf8_of ns))"
    "224 \<le> x" "x < 240" "y < 256" "z < 256"
  shows "(x - 224) * 4096 + (y - 128) * 64 + (z - 128) \<in> set ns"
proof -
  obtain u w where "map byte (utf8_of ns) = u @ [byte x, byte y, byte z] @ w"
    using assms(2) by (auto simp: has_part_iff)
  then obtain us xs ws where split: "utf8_of ns = us @ xs @ ws" "map byte xs = [byte x, byte y, byte z]"
    by (metis append_eq_map_conv map_eq_append_conv)
  then obtain a b c where xs: "xs = [a, b, c]" "byte a = byte x" "byte b = byte y" "byte c = byte z"
    by (auto simp: map_eq_Cons_conv)
  have "k < 256" if "k \<in> set xs" for k using utf8_bytes[OF assms(1), of k] that split(1) by simp
  then have "xs = [x, y, z]" using xs assms(3-6) by (simp add: byte_eq)
  moreover have "list_all (\<lambda>n. n < 0x110000) ns" using assms(1) by (auto simp: list_all_iff scalar_value_def)
  ultimately obtain n where "n \<in> set ns" "utf8_scalar n = [x, y, z]"
    using three_byte_part[of ns us x y z ws] split(1) assms(3,4) by auto
  then show ?thesis using utf8_scalar_inj by metis
qed

subsection \<open>Accepted texts satisfy the constraints of the tables\<close>

definition text_scalar_ok :: "bool \<Rightarrow> nat \<Rightarrow> bool" where
  "text_scalar_ok game n \<longleftrightarrow> scalar_value n \<and> \<not> excluded_unit n \<and> game_scalar_ok game n"

lemma pair_scalar_ok:
  assumes "high_surrogate hi" "low_surrogate lo"
  shows "scalar_value (pair_scalar hi lo)" "\<not> excluded_unit (pair_scalar hi lo)"
proof -
  have "hi - 0xD800 \<le> 1023" "lo - 0xDC00 \<le> 1023"
    using assms unfolding high_surrogate_def low_surrogate_def by linarith+
  then have "0x10000 \<le> pair_scalar hi lo" "pair_scalar hi lo < 0x110000" by (simp_all add: pair_scalar_def)
  then show "scalar_value (pair_scalar hi lo)" "\<not> excluded_unit (pair_scalar hi lo)"
    by (auto simp: scalar_value_def high_surrogate_def low_surrogate_def excluded_unit_def)
qed

lemma unit_scalar: "\<not> high_surrogate (unat (u :: 16 word)) \<Longrightarrow> \<not> low_surrogate (unat u) \<Longrightarrow> scalar_value (unat u)"
  using unat16[of u] by (simp add: scalar_value_def)

lemma scalars_accepted:
  "scalars_ok game v \<Longrightarrow> \<not> list_ex (\<lambda>u. excluded_unit (unat u)) v \<Longrightarrow> list_all (text_scalar_ok game) (code_points v)"
proof (induction game v rule: scalars_ok.induct)
  case (2 game u)
  then show ?case by (simp add: text_scalar_ok_def unit_scalar)
next
  case (3 game u v us)
  show ?case
  proof (cases "high_surrogate (unat u)")
    case True
    with 3 show ?thesis by (simp add: text_scalar_ok_def pair_scalar_ok)
  next
    case False
    with 3 show ?thesis by (simp add: text_scalar_ok_def unit_scalar)
  qed
qed simp

lemma sql_text_scalars:
  assumes "list_all (text_scalar_ok game) ns"
  shows "sql_text_ok game (map byte (utf8_of ns))"
proof -
  have sv: "list_all scalar_value ns" using assms by (auto simp: list_all_iff text_scalar_ok_def)
  have bytes: "31 < (of_char (byte b) :: nat) \<and> (of_char (byte b) :: nat) \<noteq> 127" if "b \<in> set (utf8_of ns)" for b
  proof -
    have "b < 256" "b < 128 \<longrightarrow> b \<in> set ns" using utf8_bytes[OF sv that] by auto
    moreover have "\<not> excluded_unit b" if "b \<in> set ns" using assms that by (auto simp: list_all_iff text_scalar_ok_def)
    ultimately show ?thesis by (auto simp: byte_def excluded_unit_def)
  qed
  have no: "m \<notin> set ns" if "excluded_unit m \<or> game \<and> (m = 0x2028 \<or> m = 0x2029)" for m
    using assms that by (auto simp: list_all_iff text_scalar_ok_def game_scalar_ok_def)
  have "65534 \<notin> set ns" "65535 \<notin> set ns" by (rule no, simp add: excluded_unit_def)+
  moreover have "8232 \<notin> set ns" "8233 \<notin> set ns" if game using that by (intro no; simp)+
  ultimately show ?thesis
    using no_three_bytes[OF sv, of 239 191 190] no_three_bytes[OF sv, of 239 191 191]
      no_three_bytes[OF sv, of 226 128 168] no_three_bytes[OF sv, of 226 128 169] bytes
    by (auto simp: sql_text_ok_def list_all_iff)
qed

lemma accepted_text:
  assumes "isProfileDirectoryText (JsText v) n e game"
  shows "list_all (text_scalar_ok game) (code_points v)" "length (utf8 v) \<le> n" "\<not> e \<Longrightarrow> utf8 v \<noteq> []"
proof -
  show "list_all (text_scalar_ok game) (code_points v)" "length (utf8 v) \<le> n"
    using assms scalars_accepted[of game v] by (simp_all add: isProfileDirectoryText_def split: if_splits)
  have "utf8_scalar k \<noteq> []" for k by (simp add: utf8_scalar_def)
  then have "utf8_of ns \<noteq> []" if "ns \<noteq> []" for ns using that by (cases ns) simp_all
  moreover have "code_points w \<noteq> []" if "w \<noteq> []" for w using that by (induction w rule: code_points.induct) auto
  ultimately show "\<not> e \<Longrightarrow> utf8 v \<noteq> []" using assms by (auto simp: isProfileDirectoryText_def utf8_def split: if_splits)
qed

end
