(* ===== verification/Hostname.thy ===== *)
theory Hostname
  imports DirectoryText
begin

text \<open>
  Explicit hostnames (\<open>src/src/hostname.ts\<close>) and their agreement with the constraints of the
  directory tables. The IDNA library is the argument \<open>idna\<close>.
\<close>

definition hostname_label :: "string \<Rightarrow> bool" where
  "hostname_label l \<longleftrightarrow>
     1 \<le> length l \<and> length l \<le> 63 \<and> list_all (\<lambda>c. alphanumeric c \<or> c = CHR ''-'') l \<and>
     alphanumeric (hd l) \<and> alphanumeric (last l)"

definition canonical_hostname_pattern :: "string \<Rightarrow> bool" where
  "canonical_hostname_pattern h \<longleftrightarrow>
     length h \<le> 253 \<and> 2 \<le> length (split_on (CHR ''.'') h) \<and> list_all hostname_label (split_on (CHR ''.'') h)"

definition decimal_label :: "string \<Rightarrow> bool" where
  "decimal_label l \<longleftrightarrow> l \<noteq> [] \<and> list_all is_digit l"

definition hexadecimal_label :: "string \<Rightarrow> bool" where
  "hexadecimal_label l \<longleftrightarrow> take 2 l = ''0x'' \<and> drop 2 l \<noteq> [] \<and> list_all is_hex_digit (drop 2 l)"

definition isCanonicalHostname :: "(string \<Rightarrow> string option) \<Rightarrow> string \<Rightarrow> bool" where
  "isCanonicalHostname idna h =
     (if \<not> canonical_hostname_pattern h \<or> \<not> list_ex is_lower h \<or>
         list_ex (\<lambda>l. take 4 l = ''xn--'' \<and> idna l \<noteq> Some l) (split_on (CHR ''.'') h)
      then False
      else list_ex (\<lambda>l. \<not> decimal_label l \<and> \<not> hexadecimal_label l) (split_on (CHR ''.'') h))"

subsection \<open>Splitting a text\<close>

lemma split_on_nonempty: "split_on c s \<noteq> []"
  by (cases s) (auto split: list.split)

lemma split_on_hd: "hd (split_on c s) = takeWhile (\<lambda>x. x \<noteq> c) s"
proof (induction s)
  case (Cons x s)
  then show ?case using split_on_nonempty[of c s] by (cases "split_on c s") auto
qed simp

lemma split_on_Cons:
  "split_on c (x # s) =
   (if x = c then [] # split_on c s else (x # hd (split_on c s)) # tl (split_on c s))"
  using split_on_nonempty[of c s] by (cases "split_on c s") auto

lemma split_on_sets: "set s \<subseteq> insert c (\<Union>l \<in> set (split_on c s). set l)" "l \<in> set (split_on c s) \<Longrightarrow> set l \<subseteq> set s - {c}"
proof -
  have "set s \<subseteq> insert c (\<Union>l \<in> set (split_on c s). set l) \<and> (\<forall>l \<in> set (split_on c s). set l \<subseteq> set s - {c})"
  proof (induction s)
    case (Cons x s)
    obtain l ls where "split_on c s = l # ls" using split_on_nonempty[of c s] by (cases "split_on c s") auto
    with Cons show ?case by (auto split: if_splits)
  qed simp
  then show "set s \<subseteq> insert c (\<Union>l \<in> set (split_on c s). set l)" "l \<in> set (split_on c s) \<Longrightarrow> set l \<subseteq> set s - {c}"
    by blast+
qed

lemma split_on_length: "length (split_on c s) = Suc (count_list s c)"
proof (induction s)
  case (Cons x s)
  then show ?case using split_on_nonempty[of c s] by (simp add: split_on_Cons del: split_on.simps(2))
qed simp

lemma has_pair_Cons: "has_part [a, b] (x # s) \<longleftrightarrow> x = a \<and> s \<noteq> [] \<and> hd s = b \<or> has_part [a, b] s"
proof -
  have "has_part [a, b] (x # s) \<longleftrightarrow> (\<exists>w. x # s = a # b # w) \<or> (\<exists>u w. s = u @ [a, b] @ w)"
    by (auto simp: has_part_iff Cons_eq_append_conv)
  moreover have "(\<exists>w. x # s = a # b # w) \<longleftrightarrow> x = a \<and> s \<noteq> [] \<and> hd s = b" by (cases s) auto
  ultimately show ?thesis by (simp add: has_part_iff)
qed

lemma has_pair_Nil [simp]: "\<not> has_part [a, b] []"
  by (simp add: has_part_def)

text \<open>Empty labels, and the first and last characters of labels, as parts of the whole text.\<close>

lemma split_on_empty: "[] \<in> set (tl (split_on c s)) \<longleftrightarrow> has_part [c, c] s \<or> s \<noteq> [] \<and> last s = c"
proof (induction s)
  case (Cons x s)
  show ?case
  proof (cases "x = c")
    case True
    obtain l ls where ls: "split_on c s = l # ls" using split_on_nonempty[of c s] by (cases "split_on c s") auto
    then have "l = [] \<longleftrightarrow> s = [] \<or> hd s = c" using split_on_hd[of c s] by (cases s) auto
    with True Cons ls show ?thesis by (auto simp: has_pair_Cons)
  next
    case False
    with Cons show ?thesis by (cases "s = []") (auto simp: split_on_Cons has_pair_Cons simp del: split_on.simps(2))
  qed
qed simp

lemma split_on_first:
  assumes "d \<noteq> c"
  shows "(\<exists>l \<in> set (tl (split_on c s)). l \<noteq> [] \<and> hd l = d) \<longleftrightarrow> has_part [c, d] s"
proof (induction s)
  case (Cons x s)
  show ?case
  proof (cases "x = c")
    case True
    obtain l ls where ls: "split_on c s = l # ls" using split_on_nonempty[of c s] by (cases "split_on c s") auto
    then have "l \<noteq> [] \<and> hd l = d \<longleftrightarrow> s \<noteq> [] \<and> hd s = d" using split_on_hd[of c s] assms by (cases s) auto
    with True Cons ls show ?thesis by (auto simp: has_pair_Cons)
  next
    case False
    with Cons show ?thesis by (auto simp: split_on_Cons has_pair_Cons simp del: split_on.simps(2))
  qed
qed simp

lemma split_on_last:
  assumes "d \<noteq> c"
  shows "(\<exists>l \<in> set (split_on c s). l \<noteq> [] \<and> last l = d) \<longleftrightarrow> s \<noteq> [] \<and> last s = d \<or> has_part [d, c] s"
proof (induction s)
  case (Cons x s)
  obtain l ls where ls: "split_on c s = l # ls" using split_on_nonempty[of c s] by (cases "split_on c s") auto
  have l: "l = [] \<longleftrightarrow> s = [] \<or> hd s = c" using split_on_hd[of c s] ls by (cases s) auto
  show ?case
  proof (cases "x = c")
    case True
    with Cons assms show ?thesis by (auto simp: has_pair_Cons)
  next
    case False
    show ?thesis
    proof (cases "l = []")
      case True
      with False Cons ls l show ?thesis by (auto simp: has_pair_Cons)
    next
      case nonempty: False
      with False Cons ls l show ?thesis by (auto simp: has_pair_Cons)
    qed
  qed
qed simp

subsection \<open>The validator and the tables agree\<close>

lemma label_chars: "\<not> alphanumeric (CHR ''.'')" "\<not> alphanumeric (CHR ''-'')"
  by (simp_all add: alphanumeric_def is_lower_def lower_letters_def is_digit_def)

lemma labels_iff:
  "list_all hostname_label ls \<longleftrightarrow>
   list_all (\<lambda>l. 1 \<le> length l \<and> length l \<le> 63) ls \<and> list_all (list_all (\<lambda>c. alphanumeric c \<or> c = CHR ''-'')) ls \<and>
   \<not> (\<exists>l \<in> set ls. l \<noteq> [] \<and> hd l = CHR ''-'') \<and> \<not> (\<exists>l \<in> set ls. l \<noteq> [] \<and> last l = CHR ''-'')"
proof -
  have one: "hostname_label l \<longleftrightarrow> (1 \<le> length l \<and> length l \<le> 63) \<and> list_all (\<lambda>c. alphanumeric c \<or> c = CHR ''-'') l \<and>
      \<not> (l \<noteq> [] \<and> hd l = CHR ''-'') \<and> \<not> (l \<noteq> [] \<and> last l = CHR ''-'')" for l
  proof (cases "l = []")
    case False
    then have "hd l \<in> set l" "last l \<in> set l" by simp_all
    then have "list_all (\<lambda>c. alphanumeric c \<or> c = CHR ''-'') l \<Longrightarrow>
        (alphanumeric (hd l) \<longleftrightarrow> hd l \<noteq> CHR ''-'') \<and> (alphanumeric (last l) \<longleftrightarrow> last l \<noteq> CHR ''-'')"
      using label_chars(2) unfolding list_all_iff by metis
    with False show ?thesis unfolding hostname_label_def by blast
  qed (simp add: hostname_label_def)
  show ?thesis unfolding list_all_iff one by blast
qed

abbreviation labels :: "string \<Rightarrow> string list" where
  "labels h \<equiv> split_on (CHR ''.'') h"

lemma label_sets: "(\<forall>l \<in> set (split_on c h). \<forall>x \<in> set l. P x) \<longleftrightarrow> (\<forall>x \<in> set h. x = c \<or> P x)"
  using split_on_sets(1)[of h c] split_on_sets(2)[of _ c h] by blast

lemma labels_chars:
  "list_all (list_all (\<lambda>c. alphanumeric c \<or> c = CHR ''-'')) (labels h) \<longleftrightarrow>
   list_all (\<lambda>c. is_lower c \<or> is_digit c \<or> c = CHR ''.'' \<or> c = CHR ''-'') h"
  unfolding list_all_iff label_sets alphanumeric_def by blast

lemma labels_two: "2 \<le> length (labels h) \<longleftrightarrow> CHR ''.'' \<in> set h"
  using count_list_0_iff[of h "CHR ''.''"] by (cases "count_list h (CHR ''.'')") (auto simp: split_on_length)

lemma first_label: "hd (split_on c h) = [] \<longleftrightarrow> h = [] \<or> hd h = c"
  unfolding split_on_hd by (cases h) simp_all

lemma hd_label: "hd (split_on c h) \<noteq> [] \<Longrightarrow> hd (hd (split_on c h)) = hd h"
  unfolding split_on_hd by (cases h) (simp_all split: if_splits)

lemma in_labels: "(\<exists>l \<in> set (split_on c h). P l) \<longleftrightarrow> P (hd (split_on c h)) \<or> (\<exists>l \<in> set (tl (split_on c h)). P l)"
  using split_on_nonempty[of c h] by (cases "split_on c h") auto

lemma labels_hyphen_first:
  "(\<exists>l \<in> set (labels h). l \<noteq> [] \<and> hd l = CHR ''-'') \<longleftrightarrow> h \<noteq> [] \<and> hd h = CHR ''-'' \<or> has_part ''.-'' h"
proof -
  have "hd (labels h) \<noteq> [] \<and> hd (hd (labels h)) = CHR ''-'' \<longleftrightarrow> h \<noteq> [] \<and> hd h = CHR ''-''"
    using first_label[of "CHR ''.''" h] hd_label[of "CHR ''.''" h] by auto
  then show ?thesis unfolding in_labels[where c = "CHR ''.''"] split_on_first[of "CHR ''-''" "CHR ''.''" h, simplified] by blast
qed

lemma labels_hyphen_last:
  "(\<exists>l \<in> set (labels h). l \<noteq> [] \<and> last l = CHR ''-'') \<longleftrightarrow> h \<noteq> [] \<and> last h = CHR ''-'' \<or> has_part ''-.'' h"
  by (rule split_on_last) simp

lemma labels_empty:
  "[] \<in> set (labels h) \<longleftrightarrow> h = [] \<or> hd h = CHR ''.'' \<or> last h = CHR ''.'' \<or> has_part ''..'' h"
proof -
  have "[] \<in> set (labels h) \<longleftrightarrow> hd (labels h) = [] \<or> [] \<in> set (tl (labels h))"
    using in_labels[of "CHR ''.''" h "\<lambda>l. l = []"] by auto
  then show ?thesis unfolding first_label split_on_empty by blast
qed

lemma labels_numeric: "1 \<le> length l \<Longrightarrow> \<not> decimal_label l \<and> \<not> hexadecimal_label l \<longleftrightarrow> \<not> numeric_label l"
  by (cases "length l \<le> 2") (auto simp: decimal_label_def hexadecimal_label_def numeric_label_def)

lemma labels_length: "CHR ''.'' \<in> set h \<Longrightarrow> [] \<notin> set (labels h) \<Longrightarrow> 3 \<le> length h"
proof -
  assume dot: "CHR ''.'' \<in> set h" and nonempty: "[] \<notin> set (labels h)"
  then obtain u w where h: "h = u @ CHR ''.'' # w" by (auto dest: split_list)
  with nonempty have "u \<noteq> [] \<and> w \<noteq> []" unfolding labels_empty by auto
  then show ?thesis using h by (cases u; cases w) auto
qed

text \<open>The two rules agree, up to the punycode labels that only the library can judge.\<close>

lemma canonical_hostname_iff:
  "isCanonicalHostname idna h \<longleftrightarrow>
   sql_hostname_ok h \<and> list_all (\<lambda>l. take 4 l = ''xn--'' \<longrightarrow> idna l = Some l) (labels h)"
proof (cases "CHR ''.'' \<in> set h \<and> list_all (\<lambda>l. 1 \<le> length l \<and> length l \<le> 63) (labels h)")
  case True
  then have nonempty: "[] \<notin> set (labels h)" by (auto simp: list_all_iff)
  then have h: "h \<noteq> []" "hd h \<noteq> CHR ''.''" "last h \<noteq> CHR ''.''" "\<not> has_part ''..'' h" unfolding labels_empty by auto
  have len: "3 \<le> length h" using labels_length nonempty True by blast
  have num: "list_ex (\<lambda>l. \<not> decimal_label l \<and> \<not> hexadecimal_label l) (labels h) = list_ex (\<lambda>l. \<not> numeric_label l) (labels h)"
    using labels_numeric True unfolding list_ex_iff list_all_iff by blast
  show ?thesis
    using True h len
    unfolding isCanonicalHostname_def canonical_hostname_pattern_def labels_iff labels_chars labels_two
      labels_hyphen_first labels_hyphen_last num sql_hostname_ok_def
    by (auto simp: list_ex_iff list_all_iff)
next
  case False
  then show ?thesis
    unfolding isCanonicalHostname_def canonical_hostname_pattern_def labels_iff labels_two sql_hostname_ok_def by auto
qed


text \<open>
  C35: The two independent descriptions of an explicit hostname agree: the Worker's test (pattern, a
  letter somewhere, no numeric IPv4 spelling) accepts a name exactly when it satisfies the GLOB
  constraints of the directory tables, a punycode label being left to the IDNA library. A host
  name that the Worker validated never aborts a publication, and the tables hold no other names.
\<close>

theorem hostname_rules_agree:
  assumes "\<And>l. l \<in> set (labels h) \<Longrightarrow> take 4 l = ''xn--'' \<Longrightarrow> idna l = Some l"
  shows "isCanonicalHostname idna h \<longleftrightarrow> sql_hostname_ok h"
  using assms by (auto simp: canonical_hostname_iff list_all_iff)

theorem hostname_rules_agree_witness:
  "isCanonicalHostname (\<lambda>_. None) ''play.example.org'' = sql_hostname_ok ''play.example.org''"
  by (rule hostname_rules_agree) auto

end
