(* ===== verification/JsonText.thy ===== *)
theory JsonText
  imports DirectoryText Publication "HOL-Library.Log_Nat"
begin

text \<open>
  \<open>JSON.parse\<close> on UTF-16 texts. A number is rounded to the nearest double, to even on ties, so
  that \<open>JsInt\<close> is what \<open>Number.isInteger\<close> accepts; every other number is \<open>JsOther\<close>. The
  recursion is bounded by fuel, and the length of the text is always enough fuel.
\<close>

subsection \<open>Characters and strings\<close>

definition json_space :: "nat \<Rightarrow> bool" where
  "json_space u \<longleftrightarrow> u \<in> {9, 10, 13, 32}"

definition skip_space :: "nat list \<Rightarrow> nat list" where
  "skip_space = dropWhile json_space"

definition digit_unit :: "nat \<Rightarrow> bool" where
  "digit_unit u \<longleftrightarrow> 48 \<le> u \<and> u \<le> 57"

definition hex_unit :: "nat \<Rightarrow> nat option" where
  "hex_unit u =
     (if digit_unit u then Some (u - 48) else if 65 \<le> u \<and> u \<le> 70 then Some (u - 55)
      else if 97 \<le> u \<and> u \<le> 102 then Some (u - 87) else None)"

definition escaped_unit :: "nat \<Rightarrow> nat option" where
  "escaped_unit u = map_of [(34, 34), (92, 92), (47, 47), (98, 8), (102, 12), (110, 10), (114, 13), (116, 9)] u"

text \<open>The code units of a string after its opening quotation mark, and the rest of the text.\<close>

fun json_chars :: "nat list \<Rightarrow> (nat list \<times> nat list) option" where
  "json_chars [] = None"
| "json_chars (u # s) =
     (if u = 34 then Some ([], s)
      else if u < 32 then None
      else if u \<noteq> 92 then map_option (\<lambda>(us, r). (u # us, r)) (json_chars s)
      else case s of
        [] \<Rightarrow> None
      | e # t \<Rightarrow>
          if e = 117 then
            (case t of
               a # b # c # d # r \<Rightarrow>
                 (case those (map hex_unit [a, b, c, d]) of
                    Some [h, i, j, k] \<Rightarrow> map_option (\<lambda>(us, q). ((((h * 16 + i) * 16 + j) * 16 + k) # us, q)) (json_chars r)
                  | _ \<Rightarrow> None)
             | _ \<Rightarrow> None)
          else case escaped_unit e of
            None \<Rightarrow> None
          | Some x \<Rightarrow> map_option (\<lambda>(us, r). (x # us, r)) (json_chars t))"

definition json_text :: "nat list \<Rightarrow> text16" where
  "json_text us = map of_nat us"

subsection \<open>Numbers\<close>

definition units_value :: "nat list \<Rightarrow> nat" where
  "units_value us = foldl (\<lambda>n u. n * 10 + (u - 48)) 0 us"

definition round_half_even :: "nat \<Rightarrow> nat \<Rightarrow> nat" where
  "round_half_even a b =
     (let q = a div b; r = a mod b in if 2 * r < b \<or> 2 * r = b \<and> even q then q else q + 1)"

text \<open>
  The double nearest to \<open>num / den\<close>, as a fraction \<open>m * 2^e\<close> of 53 bits, \<open>e \<ge> -1074\<close>. Powers with
  a negative exponent are kept on the side of the denominator.
\<close>

definition double_exponent :: "nat \<Rightarrow> nat \<Rightarrow> int" where
  "double_exponent num den =
     (let k = int (floorlog 2 num) - int (floorlog 2 den);
          low = (if 0 \<le> k then den * 2 ^ nat k \<le> num else den \<le> num * 2 ^ nat (- k)) in
      max (- 1074) ((if low then k else k - 1) - 52))"

definition json_double :: "bool \<Rightarrow> nat \<Rightarrow> nat \<Rightarrow> json" where
  "json_double negative num den =
     (let e = double_exponent num den;
          m = round_half_even (num * 2 ^ nat (- e)) (den * 2 ^ nat e);
          sign = (if negative then - 1 else 1 :: int) in
      if 0 \<le> e then (if m * 2 ^ nat e \<ge> 2 ^ 1024 then JsOther else JsInt (sign * int (m * 2 ^ nat e)))
      else if m mod 2 ^ nat (- e) = 0 then JsInt (sign * int (m div 2 ^ nat (- e)))
      else JsOther)"

definition json_decimal :: "bool \<Rightarrow> nat \<Rightarrow> int \<Rightarrow> json" where
  "json_decimal negative mantissa exponent =
     (if mantissa = 0 then JsInt 0
      else if 0 \<le> exponent then json_double negative (mantissa * 10 ^ nat exponent) 1
      else json_double negative mantissa (10 ^ nat (- exponent)))"

definition json_fraction :: "nat list \<Rightarrow> (nat list \<times> nat list) option" where
  "json_fraction s =
     (case s of
        u # t \<Rightarrow>
          if u \<noteq> 46 then Some ([], s)
          else if takeWhile digit_unit t = [] then None
          else Some (takeWhile digit_unit t, dropWhile digit_unit t)
      | [] \<Rightarrow> Some ([], s))"

definition json_exponent :: "nat list \<Rightarrow> (int \<times> nat list) option" where
  "json_exponent s =
     (case s of
        u # t \<Rightarrow>
          if u \<noteq> 101 \<and> u \<noteq> 69 then Some (0, s)
          else let r = (case t of v # w \<Rightarrow> if v = 43 \<or> v = 45 then w else t | [] \<Rightarrow> t);
                   negative = (t \<noteq> [] \<and> hd t = 45) in
            if takeWhile digit_unit r = [] then None
            else Some ((if negative then - 1 else 1) * int (units_value (takeWhile digit_unit r)), dropWhile digit_unit r)
      | [] \<Rightarrow> Some (0, s))"

definition json_number :: "nat list \<Rightarrow> (json \<times> nat list) option" where
  "json_number s =
     (let negative = (s \<noteq> [] \<and> hd s = 45); t = (if negative then tl s else s); ds = takeWhile digit_unit t in
      if ds = [] \<or> hd ds = 48 \<and> 1 < length ds then None
      else case json_fraction (dropWhile digit_unit t) of
        None \<Rightarrow> None
      | Some (fs, u) \<Rightarrow>
          (case json_exponent u of
             None \<Rightarrow> None
           | Some (x, r) \<Rightarrow> Some (json_decimal negative (units_value (ds @ fs)) (x - int (length fs)), r)))"

subsection \<open>Values\<close>

text \<open>Of equal names the last member stays.\<close>

fun own_properties :: "(text16 \<times> json) list \<Rightarrow> (text16 \<times> json) list" where
  "own_properties [] = []"
| "own_properties ((k, v) # kvs) =
     (if k \<in> set (map fst kvs) then own_properties kvs else (k, v) # own_properties kvs)"

definition json_literal :: "nat list \<Rightarrow> (json \<times> nat list) option" where
  "json_literal s =
     (if take 4 s = [110, 117, 108, 108] then Some (JsNull, drop 4 s)
      else if take 4 s = [116, 114, 117, 101] then Some (JsBool True, drop 4 s)
      else if take 5 s = [102, 97, 108, 115, 101] then Some (JsBool False, drop 5 s)
      else json_number s)"

fun json_value :: "nat \<Rightarrow> nat list \<Rightarrow> (json \<times> nat list) option"
  and json_members :: "nat \<Rightarrow> nat list \<Rightarrow> ((text16 \<times> json) list \<times> nat list) option"
  and json_elements :: "nat \<Rightarrow> nat list \<Rightarrow> (json list \<times> nat list) option" where
  "json_value 0 s = None"
| "json_value (Suc n) s =
     (case skip_space s of
        [] \<Rightarrow> None
      | u # r \<Rightarrow>
          if u = 123 then
            (if skip_space r \<noteq> [] \<and> hd (skip_space r) = 125 then Some (JsObject [], tl (skip_space r))
             else map_option (\<lambda>(kvs, q). (JsObject (own_properties kvs), q)) (json_members n r))
          else if u = 91 then
            (if skip_space r \<noteq> [] \<and> hd (skip_space r) = 93 then Some (JsArray [], tl (skip_space r))
             else map_option (\<lambda>(vs, q). (JsArray vs, q)) (json_elements n r))
          else if u = 34 then map_option (\<lambda>(us, q). (JsText (json_text us), q)) (json_chars r)
          else json_literal (u # r))"
| "json_members 0 s = None"
| "json_members (Suc n) s =
     (case skip_space s of
        [] \<Rightarrow> None
      | u # r \<Rightarrow>
          if u \<noteq> 34 then None
          else case json_chars r of
            None \<Rightarrow> None
          | Some (us, t) \<Rightarrow>
              (case skip_space t of
                 [] \<Rightarrow> None
               | c # p \<Rightarrow>
                   if c \<noteq> 58 then None
                   else case json_value n p of
                     None \<Rightarrow> None
                   | Some (v, q) \<Rightarrow>
                       (case skip_space q of
                          [] \<Rightarrow> None
                        | d # w \<Rightarrow>
                            if d = 125 then Some ([(json_text us, v)], w)
                            else if d = 44 then map_option (\<lambda>(kvs, z). ((json_text us, v) # kvs, z)) (json_members n w)
                            else None)))"
| "json_elements 0 s = None"
| "json_elements (Suc n) s =
     (case json_value n s of
        None \<Rightarrow> None
      | Some (v, q) \<Rightarrow>
          (case skip_space q of
             [] \<Rightarrow> None
           | d # w \<Rightarrow>
               if d = 93 then Some ([v], w)
               else if d = 44 then map_option (\<lambda>(vs, z). (v # vs, z)) (json_elements n w)
               else None))"

definition JSON_parse :: "text16 \<Rightarrow> json option" where
  "JSON_parse v =
     (case json_value (2 * length v + 2) (map unat v) of
        Some (j, r) \<Rightarrow> if skip_space r = [] then Some j else None
      | None \<Rightarrow> None)"

subsection \<open>Fuel\<close>

lemma skip_space_length: "length (skip_space s) \<le> length s"
  by (simp add: skip_space_def length_dropWhile_le)

lemma skip_space_Cons: "skip_space s = u # r \<Longrightarrow> length r < length s"
  using skip_space_length[of s] by simp

lemma json_chars_length: "json_chars s = Some (us, r) \<Longrightarrow> length r < length s"
proof (induction s arbitrary: us r rule: json_chars.induct)
  case (2 u s)
  then show ?case
    by (fastforce split: if_splits list.splits option.splits)
qed simp

lemma json_number_length: "json_number s = Some (j, r) \<Longrightarrow> length r < length s"
proof -
  assume s: "json_number s = Some (j, r)"
  define t where "t = (if s \<noteq> [] \<and> hd s = 45 then tl s else s)"
  have digits: "takeWhile digit_unit t \<noteq> []"
    using s by (auto simp: json_number_def Let_def t_def[symmetric] split: if_splits)
  obtain fs u x where parts: "json_fraction (dropWhile digit_unit t) = Some (fs, u)" "json_exponent u = Some (x, r)"
    using s by (auto simp: json_number_def Let_def t_def[symmetric] split: if_splits option.splits)
  have "length r \<le> length u" using parts(2) length_dropWhile_le[of digit_unit "tl u"] length_dropWhile_le[of digit_unit "tl (tl u)"]
    by (auto simp: json_exponent_def Let_def split: list.splits if_splits)
  moreover have "length u \<le> length (dropWhile digit_unit t)"
  proof -
    have "json_fraction w = Some (fs, u) \<Longrightarrow> length u \<le> length w" for w
      using length_dropWhile_le[of digit_unit "tl w"] by (auto simp: json_fraction_def split: list.splits if_splits)
    then show ?thesis using parts(1) by blast
  qed
  moreover have "length (dropWhile digit_unit t) < length t"
    using digits by (cases t) (auto simp: le_imp_less_Suc length_dropWhile_le split: if_splits)
  moreover have "length t \<le> length s" by (simp add: t_def)
  ultimately show ?thesis by linarith
qed

lemma json_literal_length: "json_literal s = Some (j, r) \<Longrightarrow> length r < length s"
proof -
  assume s: "json_literal s = Some (j, r)"
  then have "s \<noteq> []" by (auto simp: json_literal_def json_number_def)
  then have "length (drop 4 s) < length s" "length (drop 5 s) < length s" by (cases s; simp)+
  then show ?thesis using s json_number_length[of s j r] by (auto simp only: json_literal_def split: if_splits)
qed

lemma json_length:
  "json_value n s = Some (j, r) \<Longrightarrow> length r < length s"
  "json_members n s = Some (kvs, r) \<Longrightarrow> length r < length s"
  "json_elements n s = Some (vs, r) \<Longrightarrow> length r < length s"
proof (induction n arbitrary: s j r kvs vs)
  case (Suc n)
  {
    case 1
    then obtain u t where t: "skip_space s = u # t" by (auto split: list.splits)
    have short: "length t < length s" using skip_space_Cons[OF t] .
    have "length (tl (skip_space t)) \<le> length t" using skip_space_length[of t] by simp
    then show ?case
      using 1 t short Suc(2)[of t] Suc(3)[of t] json_chars_length[of t] json_literal_length[of "u # t" j r]
      by (fastforce split: if_splits)
  next
    case 2
    then obtain u t us w c p v q d z where steps: "skip_space s = u # t" "json_chars t = Some (us, w)" "skip_space w = c # p"
        "json_value n p = Some (v, q)" "skip_space q = d # z"
      by (auto split: list.splits if_splits option.splits)
    have "length z < length s"
      using skip_space_Cons[OF steps(1)] json_chars_length[OF steps(2)] skip_space_Cons[OF steps(3)] Suc(1)[OF steps(4)]
        skip_space_Cons[OF steps(5)] by linarith
    then show ?case using 2 steps Suc(2)[of z] by (fastforce split: if_splits)
  next
    case 3
    then obtain v q d z where steps: "json_value n s = Some (v, q)" "skip_space q = d # z"
      by (auto split: list.splits option.splits)
    have "length z < length s" using Suc(1)[OF steps(1)] skip_space_Cons[OF steps(2)] by linarith
    then show ?case using 3 steps Suc(3)[of z] by (fastforce split: if_splits)
  }
qed simp_all

lemma members_step:
  assumes inner: "\<And>p. length p < length s \<Longrightarrow> json_value n p = json_value k p"
    and rest: "\<And>p. length p < length s \<Longrightarrow> json_members n p = json_members k p"
  shows "json_members (Suc n) s = json_members (Suc k) s"
proof -
  show ?thesis
  proof (cases "skip_space s")
    case (Cons u t)
    show ?thesis
    proof (cases "json_chars t")
      case (Some x)
      obtain us w where x: "x = (us, w)" by (cases x)
      show ?thesis
      proof (cases "skip_space w")
        case (Cons c p)
        have p: "length p < length s"
          using skip_space_Cons[OF \<open>skip_space s = u # t\<close>] json_chars_length[OF Some[unfolded x]] skip_space_Cons[OF Cons] by linarith
        show ?thesis
        proof (cases "json_value k p")
          case None
          then show ?thesis using Some x \<open>skip_space s = u # t\<close> Cons inner[OF p] by simp
        next
          case (Some y)
          obtain v q where y: "y = (v, q)" by (cases y)
          show ?thesis
          proof (cases "skip_space q")
            case (Cons d z)
            have "length z < length s" using p json_length(1)[OF Some[unfolded y]] skip_space_Cons[OF Cons] by linarith
            then show ?thesis
              using \<open>json_chars t = Some x\<close> x \<open>skip_space s = u # t\<close> \<open>skip_space w = c # p\<close> Some y Cons inner[OF p] rest[of z]
              by simp
          qed (use \<open>json_chars t = Some x\<close> x \<open>skip_space s = u # t\<close> \<open>skip_space w = c # p\<close> Some y inner[OF p] in simp)
        qed
      qed (use Some x \<open>skip_space s = u # t\<close> in simp)
    qed (use Cons in simp)
  qed simp
qed

text \<open>With fuel beyond twice the length, the result does not depend on it.\<close>

lemma json_fuel:
  "2 * length s < n \<Longrightarrow> 2 * length s < m \<Longrightarrow> json_value n s = json_value m s"
  "2 * length s + 1 < n \<Longrightarrow> 2 * length s + 1 < m \<Longrightarrow> json_members n s = json_members m s"
  "2 * length s + 1 < n \<Longrightarrow> 2 * length s + 1 < m \<Longrightarrow> json_elements n s = json_elements m s"
proof (induction n arbitrary: s m)
  case (Suc n)
  {
    case 1
    then obtain k where m: "m = Suc k" by (cases m) auto
    show ?case
    proof (cases "skip_space s")
      case (Cons u t)
      then have "length t < length s" by (rule skip_space_Cons)
      then show ?thesis using 1 m Cons Suc(2)[of t k] Suc(3)[of t k] by simp
    qed (simp add: m)
  next
    case 2
    then obtain k where m: "m = Suc k" by (cases m) auto
    have "json_value n p = json_value k p" "json_members n p = json_members k p" if "length p < length s" for p
      using 2 m that by (intro Suc(1) Suc(2); simp)+
    then show ?case unfolding m by (rule members_step)
  next
    case 3
    then obtain k where m: "m = Suc k" by (cases m) auto
    have inner: "json_value n s = json_value k s" using 3 m by (intro Suc(1)) auto
    show ?case
    proof (cases "json_value k s")
      case (Some x)
      obtain v q where x: "x = (v, q)" by (cases x)
      show ?thesis
      proof (cases "skip_space q")
        case (Cons d z)
        have z: "length z < length s" using json_length(1)[OF Some[unfolded x]] skip_space_Cons[OF Cons] by linarith
        have "json_elements n z = json_elements k z" using 3 m z by (intro Suc(3)) auto
        then show ?thesis using Some x inner Cons by (simp add: m)
      qed (use Some x inner in \<open>simp add: m\<close>)
    qed (use inner in \<open>simp add: m\<close>)
  }
qed simp_all

lemma JSON_parse_fuel:
  "2 * length v < n \<Longrightarrow>
   JSON_parse v = (case json_value n (map unat v) of
     Some (j, r) \<Rightarrow> if skip_space r = [] then Some j else None | None \<Rightarrow> None)"
  unfolding JSON_parse_def using json_fuel(1)[of "map unat v" n "2 * length v + 2"] by simp

subsection \<open>Numbers that are integers\<close>

lemma to_decimal_nonempty: "to_decimal n \<noteq> []"
  by (subst to_decimal.simps) simp

lemma units_decimal: "units_value (map of_char s) = decimal_value s"
proof -
  have "foldl (\<lambda>n u. n * 10 + (u - 48)) k (map of_char s) = foldl (\<lambda>n c. n * 10 + digit_value c) k s" for k
    by (induction s arbitrary: k) (simp_all add: digit_value_def)
  then show ?thesis by (simp add: units_value_def decimal_value_def)
qed

lemma json_double_integer: "0 < n \<Longrightarrow> n < 2 ^ 53 \<Longrightarrow> json_double False n 1 = JsInt (int n)"
proof -
  assume n: "0 < n" "n < 2 ^ 53"
  let ?f = "floorlog 2 n"
  have bounds: "2 ^ (?f - 1) \<le> n" using floorlog_bounds[of n 2] n(1) by simp
  have f: "0 < ?f" using n(1) by (simp add: floorlog_def)
  have "(2 :: nat) ^ (?f - 1) < 2 ^ 53" using bounds n(2) by (rule le_less_trans)
  then have small: "?f \<le> 53" using power_less_imp_less_exp[of "2 :: nat" "?f - 1" 53] by simp
  have "floorlog 2 1 = 1" by (simp add: floorlog_def)
  moreover have "nat (int ?f - 1) = ?f - 1" using f by simp
  ultimately have e: "double_exponent n 1 = int ?f - 53"
    using bounds f small by (simp add: double_exponent_def Let_def)
  have round: "round_half_even m (Suc 0) = m" for m by (simp add: round_half_even_def)
  show ?thesis
  proof (cases "?f = 53")
    case True
    have "n < 2 ^ 1024" using n(2) by (rule less_trans) simp
    then show ?thesis unfolding json_double_def e Let_def True by (simp add: round)
  next
    case False
    define d where "d = 53 - ?f"
    have "int ?f - 53 < 0" "nat (- (int ?f - 53)) = d" "nat (int ?f - 53) = 0"
      using small False by (simp_all add: d_def nat_diff_distrib)
    then show ?thesis unfolding json_double_def e Let_def by (simp add: round)
  qed
qed

lemma is_digit_unit: "is_digit c \<Longrightarrow> digit_unit (of_char c)"
proof -
  assume "is_digit c"
  then obtain d where "d < 10" "c = digit_char d" using is_digit_cases by blast
  then show ?thesis by (auto simp: less_Suc_eq numeral_eq_Suc digit_char_def digit_unit_def)
qed

lemma json_number_decimal:
  assumes "n < 2 ^ 53" "r = [] \<or> \<not> digit_unit (hd r) \<and> hd r \<notin> {46, 69, 101}"
  shows "json_number (map of_char (to_decimal n) @ r) = Some (JsInt (int n), r)"
proof -
  let ?ds = "map of_char (to_decimal n) :: nat list"
  have digits: "list_all digit_unit ?ds" using to_decimal_digits[of n] by (auto simp: list_all_iff is_digit_unit)
  have split: "takeWhile digit_unit (?ds @ r) = ?ds" "dropWhile digit_unit (?ds @ r) = r"
    using digits assms(2) by (cases r; auto simp: list_all_iff takeWhile_append dropWhile_append takeWhile_eq_all_conv)+
  have nonempty: "?ds \<noteq> []" using to_decimal_nonempty by simp
  then have "hd (?ds @ r) \<noteq> 45" using digits by (cases ?ds) (auto simp: digit_unit_def)
  moreover have "\<not> (hd ?ds = 48 \<and> 1 < length ?ds)"
  proof (cases "n = 0")
    case True
    then show ?thesis by (simp add: to_decimal.simps)
  next
    case False
    then have head: "to_decimal n \<noteq> [] \<and> hd (to_decimal n) \<noteq> CHR ''0''" using to_decimal_head by simp
    have "(of_char c :: nat) = 48 \<longleftrightarrow> c = CHR ''0''" for c
      using of_char_eq_iff[where c = c and d = "CHR ''0''"] by simp
    then show ?thesis using head by (cases "to_decimal n") auto
  qed
  moreover have "json_decimal False n 0 = JsInt (int n)"
    using json_double_integer[OF _ assms(1)] by (simp add: json_decimal_def)
  moreover have "json_fraction r = Some ([], r)" "json_exponent r = Some (0, r)"
    using assms(2) by (auto simp: json_fraction_def json_exponent_def split: list.split)
  ultimately show ?thesis using nonempty
    by (auto simp: json_number_def Let_def split units_decimal)
qed

subsection \<open>Parsed objects\<close>

text \<open>A property of the parsed object; \<open>None\<close> is \<open>undefined\<close>.\<close>

fun field :: "json \<Rightarrow> string \<Rightarrow> json option" where
  "field (JsObject kvs) k = map_of kvs (ascii16 k)"
| "field _ k = None"

definition exact_keys :: "json \<Rightarrow> string list \<Rightarrow> bool" where
  "exact_keys v expected \<longleftrightarrow>
     (case v of
        JsObject kvs \<Rightarrow>
          length (remdups (map fst kvs)) = length expected \<and> list_all (\<lambda>k. ascii16 k \<in> set (map fst kvs)) expected
      | _ \<Rightarrow> False)"

lemma ascii16_inj: "inj ascii16"
proof (rule injI)
  fix s t assume eq: "ascii16 s = ascii16 t"
  have "c = d" if "(of_nat (of_char c) :: 16 word) = of_nat (of_char d)" for c d :: char
  proof -
    have small: "unat (of_nat (of_char x) :: 16 word) = of_char x" for x :: char
      using less_trans[OF nat_of_char_less_256[of x], of 65536] by (simp add: unat_of_nat)
    then show ?thesis using that small[of c] small[of d] by (metis of_char_eq_iff)
  qed
  then have "inj (\<lambda>c. of_nat (of_char c) :: 16 word)" by (intro injI)
  then show "s = t" using eq by (simp add: ascii16_def inj_map_eq_map)
qed

lemma to_ascii16: "list_all (\<lambda>c. (of_char c :: nat) < 128) s \<Longrightarrow> to_ascii (ascii16 s) = Some s"
  by (induction s) (simp_all add: ascii16_def unat_of_nat)

definition ascii_object :: "(string \<times> json) list \<Rightarrow> json" where
  "ascii_object kvs = JsObject (map (\<lambda>(k, v). (ascii16 k, v)) kvs)"

lemma field_ascii_object: "field (ascii_object kvs) k = map_of kvs k"
  unfolding ascii_object_def by (induction kvs) (auto simp: inj_eq[OF ascii16_inj])

lemma keys_ascii_object:
  "distinct (map fst kvs) \<Longrightarrow> length kvs = length ks \<Longrightarrow> list_all (\<lambda>k. k \<in> set (map fst kvs)) ks \<Longrightarrow> exact_keys (ascii_object kvs) ks"
proof -
  assume keys: "distinct (map fst kvs)" "length kvs = length ks" "list_all (\<lambda>k. k \<in> set (map fst kvs)) ks"
  have eq: "map fst (map (\<lambda>(k, v). (ascii16 k, v)) kvs) = map ascii16 (map fst kvs)" by (induction kvs) auto
  have "distinct (map ascii16 (map fst kvs))"
    unfolding distinct_map[of ascii16] using keys(1) inj_on_subset[OF ascii16_inj subset_UNIV] by (rule conjI)
  then show ?thesis using keys(2,3)
    unfolding exact_keys_def ascii_object_def json.case eq
    by (simp only: distinct_remdups_id length_map set_map) (auto simp: list_all_iff)
qed

subsection \<open>Parsing what was printed\<close>

definition plain_char :: "char \<Rightarrow> bool" where
  "plain_char c \<longleftrightarrow> (let n = of_char c :: nat in 32 \<le> n \<and> n < 128 \<and> n \<noteq> 34 \<and> n \<noteq> 92)"

lemma json_string_plain: "list_all plain_char s \<Longrightarrow> map of_char (json_string s) = 34 # map of_char s @ [34 :: nat]"
proof -
  assume s: "list_all plain_char s"
  then have "concat (map json_escape s) = s" by (induction s) (auto simp: plain_char_def json_escape_def Let_def)
  then show ?thesis by (simp add: json_string_def byte_def)
qed

lemma json_chars_plain: "list_all plain_char s \<Longrightarrow> json_chars (map of_char s @ 34 # r) = Some (map of_char s, r)"
  by (induction s) (simp_all add: plain_char_def Let_def)

lemma json_text_plain: "json_text (map of_char s) = ascii16 s"
  by (simp add: json_text_def ascii16_def)

datatype json_atom = AtomText string | AtomInt nat | AtomBool bool | AtomNull

fun atom_text :: "json_atom \<Rightarrow> string" where
  "atom_text (AtomText s) = json_string s"
| "atom_text (AtomInt n) = json_int (int n)"
| "atom_text (AtomBool b) = json_bool b"
| "atom_text AtomNull = ''null''"

fun atom_json :: "json_atom \<Rightarrow> json" where
  "atom_json (AtomText s) = JsText (ascii16 s)"
| "atom_json (AtomInt n) = JsInt (int n)"
| "atom_json (AtomBool b) = JsBool b"
| "atom_json AtomNull = JsNull"

fun atom_ok :: "json_atom \<Rightarrow> bool" where
  "atom_ok (AtomText s) \<longleftrightarrow> list_all plain_char s"
| "atom_ok (AtomInt n) \<longleftrightarrow> n < 2 ^ 53"
| "atom_ok _ \<longleftrightarrow> True"

lemma skip_nonspace: "\<not> json_space u \<Longrightarrow> skip_space (u # r) = u # r"
  by (simp add: skip_space_def)

lemma atom_parse:
  assumes "atom_ok a" "u = 44 \<or> u = 125"
  shows "json_value (Suc n) (map of_char (atom_text a) @ u # r) = Some (atom_json a, u # r)"
proof (cases a)
  case (AtomText s)
  then show ?thesis using assms
    by (simp add: json_string_plain skip_nonspace json_space_def json_chars_plain json_text_plain)
next
  case (AtomInt k)
  let ?ds = "map of_char (to_decimal k) :: nat list"
  obtain d ds where ds: "to_decimal k = d # ds" using to_decimal_nonempty[of k] by (cases "to_decimal k") auto
  then have d: "48 \<le> (of_char d :: nat)" "(of_char d :: nat) \<le> 57"
    using to_decimal_digits[of k] is_digit_unit[of d] by (simp_all add: digit_unit_def)
  have num: "json_number (?ds @ u # r) = Some (JsInt (int k), u # r)"
    using AtomInt assms by (intro json_number_decimal) (auto simp: digit_unit_def)
  have "json_literal (?ds @ u # r) = json_number (?ds @ u # r)" using d by (auto simp: json_literal_def ds)
  then show ?thesis using num d by (auto simp: AtomInt json_int_def ds skip_nonspace json_space_def)
next
  case (AtomBool b)
  then show ?thesis by (cases b) (simp_all add: json_bool_def skip_nonspace json_space_def json_literal_def)
next
  case AtomNull
  then show ?thesis by (simp add: skip_nonspace json_space_def json_literal_def)
qed

definition member_text :: "string \<times> json_atom \<Rightarrow> string" where
  "member_text m = json_string (fst m) @ CHR '':'' # atom_text (snd m)"

definition atom_object_text :: "(string \<times> json_atom) list \<Rightarrow> string" where
  "atom_object_text ms = json_object (map (\<lambda>(k, a). (k, atom_text a)) ms)"

definition members_ok :: "(string \<times> json_atom) list \<Rightarrow> bool" where
  "members_ok ms \<longleftrightarrow> ms \<noteq> [] \<and> distinct (map fst ms) \<and> list_all (\<lambda>(k, a). list_all plain_char k \<and> atom_ok a) ms"

lemma json_join_Cons: "ys \<noteq> [] \<Longrightarrow> json_join (x # ys) = x @ CHR '','' # json_join ys"
  by (cases ys) (simp_all add: json_join_def)

lemma members_parse:
  "ms \<noteq> [] \<Longrightarrow> list_all (\<lambda>(k, a). list_all plain_char k \<and> atom_ok a) ms \<Longrightarrow> length ms < n \<Longrightarrow>
   json_members n (map of_char (json_join (map member_text ms)) @ 125 # r) =
   Some (map (\<lambda>(k, a). (ascii16 k, atom_json a)) ms, r)"
proof (induction ms arbitrary: n)
  case (Cons m ms)
  obtain k a where m: "m = (k, a)" by (cases m)
  obtain l where n: "n = Suc (Suc l)" "length ms < Suc l" using Cons.prems(3) by (cases n; cases "n - 1") auto
  have ok: "list_all plain_char k" "atom_ok a" using Cons.prems(2) m by simp_all
  define rest where "rest = (if ms = [] then 125 # r else 44 # map of_char (json_join (map member_text ms)) @ 125 # r)"
  have printed: "map of_char (json_join (map member_text (m # ms))) @ 125 # r =
      34 # map of_char k @ 34 # 58 # map of_char (atom_text a) @ rest"
    using json_string_plain[OF ok(1)]
    by (cases "ms = []") (simp_all add: rest_def m member_text_def json_join_Cons json_join_def[of "[_]"])
  have "json_value (Suc l) (map of_char (atom_text a) @ rest) = Some (atom_json a, rest)"
    using atom_parse[OF ok(2)] by (auto simp: rest_def)
  moreover have "json_members (Suc l) (map of_char (json_join (map member_text ms)) @ 125 # r) =
      Some (map (\<lambda>(k, a). (ascii16 k, atom_json a)) ms, r)" if "ms \<noteq> []"
    using Cons.IH[OF that _ n(2)] Cons.prems(2) by simp
  ultimately show ?case
    unfolding n(1) printed
    by (cases "ms = []")
      (simp_all add: rest_def m skip_nonspace json_space_def json_chars_plain[OF ok(1)] json_text_plain)
qed simp

lemma own_distinct: "distinct (map fst kvs) \<Longrightarrow> own_properties kvs = kvs"
  by (induction kvs rule: own_properties.induct) (simp_all add: image_iff)

lemma to_ascii_units: "map unat (ascii16 s) = (map of_char s :: nat list)"
proof -
  have "unat (of_nat (of_char c) :: 16 word) = of_char c" for c :: char
    using less_trans[OF nat_of_char_less_256[of c], of 65536] by (simp add: unat_of_nat)
  then show ?thesis by (simp add: ascii16_def)
qed

lemma atom_object_parse:
  assumes "members_ok ms"
  shows "JSON_parse (ascii16 (atom_object_text ms)) = Some (ascii_object (map (\<lambda>(k, a). (k, atom_json a)) ms))"
proof -
  let ?t = "ascii16 (atom_object_text ms)" and ?body = "json_join (map member_text ms)"
  define n where "n = Suc (2 * length ?t + length ms)"
  have ms: "ms \<noteq> []" "distinct (map fst ms)" "list_all (\<lambda>(k, a). list_all plain_char k \<and> atom_ok a) ms"
    using assms by (simp_all add: members_ok_def)
  have "map (\<lambda>(k, v). json_string k @ CHR '':'' # v) (map (\<lambda>(k, a). (k, atom_text a)) ms) = map member_text ms"
    by (auto simp: member_text_def)
  then have printed: "atom_object_text ms = CHR ''{'' # ?body @ ''}''"
    unfolding atom_object_text_def json_object_def by (rule arg_cong)
  obtain k a ms' where first: "ms = (k, a) # ms'" using ms(1) by (cases ms) auto
  have head: "\<exists>z. map of_char ?body @ [125] = 34 # (z :: nat list)"
    using ms(3) json_string_plain[of k] by (cases "ms' = []") (simp_all add: first member_text_def json_join_Cons json_join_def[of "[_]"])
  have "json_members (2 * length ?t + length ms) (map of_char ?body @ [125]) =
      Some (map (\<lambda>(k, a). (ascii16 k, atom_json a)) ms, [])"
  proof (rule members_parse[where r = "[]"])
    show "length ms < 2 * length ?t + length ms" by (simp add: printed ascii16_def)
  qed (use ms in simp_all)
  moreover have "map fst (map (\<lambda>(k, a). (ascii16 k, atom_json a)) ms) = map ascii16 (map fst ms)" by (induction ms) auto
  then have "distinct (map fst (map (\<lambda>(k, a). (ascii16 k, atom_json a)) ms))"
    using ms(2) inj_on_subset[OF ascii16_inj subset_UNIV] by (simp only: distinct_map)
  ultimately have "json_value n (map unat ?t) = Some (JsObject (map (\<lambda>(k, a). (ascii16 k, atom_json a)) ms), [])"
    using head by (auto simp: n_def to_ascii_units printed skip_nonspace json_space_def own_distinct)
  moreover have "JsObject (map (\<lambda>(k, a). (ascii16 k, atom_json a)) ms) = ascii_object (map (\<lambda>(k, a). (k, atom_json a)) ms)"
    by (auto simp: ascii_object_def)
  ultimately show ?thesis using JSON_parse_fuel[of ?t n] by (simp add: n_def skip_space_def)
qed

subsection \<open>The size of what was printed\<close>

lemma json_join_length: "length (json_join xs) \<le> sum_list (map (\<lambda>x. Suc (length x)) xs)"
  by (cases xs) (simp_all add: json_join_def length_concat o_def)

lemma code_points_Cons:
  "\<not> high_surrogate (unat u) \<Longrightarrow> \<not> low_surrogate (unat u) \<Longrightarrow> code_points (u # us) = unat u # code_points us"
  by (cases us) simp_all

lemma utf8_ascii: "list_all (\<lambda>c. (of_char c :: nat) < 128) s \<Longrightarrow> length (utf8 (ascii16 s)) = length s"
proof -
  assume s: "list_all (\<lambda>c. (of_char c :: nat) < 128) s"
  then have "code_points (ascii16 s) = map of_char s"
  proof (induction s)
    case (Cons c s)
    have "unat (of_nat (of_char c) :: 16 word) = of_char c" using to_ascii_units[of "[c]"] by (simp add: ascii16_def)
    then show ?case using Cons by (simp add: ascii16_def code_points_Cons high_surrogate_def low_surrogate_def)
  qed (simp add: ascii16_def)
  moreover have "utf8_of (map of_char s) = map of_char s" using s by (induction s) (simp_all add: utf8_scalar_def)
  ultimately show ?thesis by (simp add: utf8_def)
qed

lemma plain_ascii: "list_all plain_char s \<Longrightarrow> list_all (\<lambda>c. (of_char c :: nat) < 128) s"
  by (auto simp: list_all_iff plain_char_def Let_def)

lemma plain_string_length: "list_all plain_char s \<Longrightarrow> length (json_string s) = length s + 2"
  using json_string_plain[of s] by (metis One_nat_def add_Suc_right length_Cons length_append length_map list.size(3) numeral_2_eq_2)

fun atom_size :: "json_atom \<Rightarrow> nat" where
  "atom_size (AtomText s) = length s + 2"
| "atom_size (AtomInt n) = 16"
| "atom_size _ = 5"

lemma atom_size: "atom_ok a \<Longrightarrow> length (atom_text a) \<le> atom_size a"
  using to_decimal_length[of _ 15] by (cases a) (auto simp: plain_string_length json_int_def json_bool_def)

lemma atom_object_length:
  "members_ok ms \<Longrightarrow> length (atom_object_text ms) \<le> 2 + (\<Sum>(k, a) \<leftarrow> ms. length k + atom_size a + 4)"
proof -
  assume "members_ok ms"
  then have ms: "list_all (\<lambda>(k, a). list_all plain_char k \<and> atom_ok a) ms" by (simp add: members_ok_def)
  then have "sum_list (map (\<lambda>x. Suc (length x)) (map (\<lambda>(k, v). json_string k @ CHR '':'' # v) (map (\<lambda>(k, a). (k, atom_text a)) ms))) \<le>
      (\<Sum>(k, a) \<leftarrow> ms. length k + atom_size a + 4)"
  proof (induction ms)
    case (Cons m ms)
    obtain k a where "m = (k, a)" by (cases m)
    then show ?case using Cons atom_size[of a] by (simp add: plain_string_length)
  qed simp
  then show ?thesis
    using json_join_length[of "map (\<lambda>(k, v). json_string k @ CHR '':'' # v) (map (\<lambda>(k, a). (k, atom_text a)) ms)"]
    by (simp add: atom_object_text_def json_object_def)
qed

lemma atom_object_ascii: "members_ok ms \<Longrightarrow> list_all (\<lambda>c. (of_char c :: nat) < 128) (atom_object_text ms)"
proof -
  assume ok: "members_ok ms"
  have "\<forall>c \<in> set (concat (map json_escape t)). (of_char c :: nat) < 128" if "list_all plain_char t" for t
    using that by (induction t) (auto simp: plain_char_def json_escape_def Let_def)
  then have str: "\<forall>c \<in> set (json_string t). (of_char c :: nat) < 128" if "list_all plain_char t" for t
    using that by (auto simp: json_string_def byte_def)
  have num: "\<forall>c \<in> set (json_int (int n)). (of_char c :: nat) < 128" for n
  proof -
    have "(of_char c :: nat) < 128" if "is_digit c" for c using is_digit_unit[OF that] by (simp add: digit_unit_def)
    then show ?thesis using to_decimal_digits[of n] by (auto simp: json_int_def list_all_iff)
  qed
  have atom: "\<forall>c \<in> set (atom_text a). (of_char c :: nat) < 128" if "atom_ok a" for a
    using that str num by (cases a) (auto simp: json_bool_def)
  have join: "set (json_join xs) \<subseteq> insert (CHR '','') (\<Union>x \<in> set xs. set x)" for xs
    by (cases xs) (auto simp: json_join_def)
  have "\<forall>x \<in> set (map (\<lambda>(k, v). json_string k @ CHR '':'' # v) (map (\<lambda>(k, a). (k, atom_text a)) ms)). \<forall>c \<in> set x. (of_char c :: nat) < 128"
    using ok str atom by (fastforce simp: members_ok_def list_all_iff)
  then show ?thesis
    using join[of "map (\<lambda>(k, v). json_string k @ CHR '':'' # v) (map (\<lambda>(k, a). (k, atom_text a)) ms)"]
    by (fastforce simp: atom_object_text_def json_object_def list_all_iff)
qed

end
