(* ===== verification/PublicationContract.thy ===== *)
theory PublicationContract
  imports PublicationBatch Hostname JsonText
begin

text \<open>
  The private request by which the Worker asks a room to publish
  (\<open>validateInternalRendezvousPublication\<close> of \<open>src/src/rendezvous-contract.ts\<close>) as a function of
  the parsed JSON body, and the theorem that an accepted publication satisfies every row
  constraint of the directory tables, which the publication theories assume as \<open>publication_ok\<close>.
\<close>

subsection \<open>Base64 (\<open>atob\<close>, \<open>btoa\<close>)\<close>

definition base64_alphabet :: string where
  "base64_alphabet = ''ABCDEFGHIJKLMNOPQRSTUVWXYZabcdefghijklmnopqrstuvwxyz0123456789+/''"

definition base64_digit :: "nat \<Rightarrow> char" where "base64_digit n = base64_alphabet ! n"

definition base64_value :: "char \<Rightarrow> nat option" where
  "base64_value c = map_option fst (find (\<lambda>(i, x). x = c) (enumerate 0 base64_alphabet))"

fun btoa :: "string \<Rightarrow> string" where
  "btoa [] = []"
| "btoa [a] = (let x = of_char a in [base64_digit (x div 4), base64_digit (x mod 4 * 16), CHR ''='', CHR ''=''])"
| "btoa [a, b] =
     (let x = of_char a; y = of_char b in
      [base64_digit (x div 4), base64_digit (x mod 4 * 16 + y div 16), base64_digit (y mod 16 * 4), CHR ''=''])"
| "btoa (a # b # c # r) =
     (let x = of_char a; y = of_char b; z = of_char c in
      [base64_digit (x div 4), base64_digit (x mod 4 * 16 + y div 16),
       base64_digit (y mod 16 * 4 + z div 64), base64_digit (z mod 64)] @ btoa r)"

fun base64_bytes :: "nat list \<Rightarrow> string" where
  "base64_bytes (a # b # c # d # r) =
     [byte (a * 4 + b div 16), byte (b mod 16 * 16 + c div 4), byte (c mod 4 * 64 + d)] @ base64_bytes r"
| "base64_bytes [a, b, c] = [byte (a * 4 + b div 16), byte (b mod 16 * 16 + c div 4)]"
| "base64_bytes [a, b] = [byte (a * 4 + b div 16)]"
| "base64_bytes _ = []"

text \<open>The forgiving decoder: white space is ignored and the padding is optional.\<close>

definition base64_space :: "char \<Rightarrow> bool" where
  "base64_space c \<longleftrightarrow> (of_char c :: nat) \<in> {9, 10, 12, 13, 32}"

definition strip_padding :: "string \<Rightarrow> string" where
  "strip_padding s =
     (if length s mod 4 \<noteq> 0 then s
      else if length s \<ge> 2 \<and> drop (length s - 2) s = ''=='' then take (length s - 2) s
      else if length s \<ge> 1 \<and> last s = CHR ''='' then butlast s else s)"

definition atob :: "string \<Rightarrow> string option" where
  "atob s =
     (let t = strip_padding (filter (\<lambda>c. \<not> base64_space c) s) in
      if length t mod 4 = 1 then None
      else map_option base64_bytes (those (map base64_value t)))"

subsection \<open>The body\<close>

definition text_matches :: "(string \<Rightarrow> bool) \<Rightarrow> json option \<Rightarrow> bool" where
  "text_matches P x = (case x of Some (JsText v) \<Rightarrow> matches P v | _ \<Rightarrow> False)"

definition bounded_integer :: "json option \<Rightarrow> int \<Rightarrow> int \<Rightarrow> bool" where
  "bounded_integer x lo hi = (case x of Some (JsInt n) \<Rightarrow> is_safe_integer n \<and> lo \<le> n \<and> n \<le> hi | _ \<Rightarrow> False)"

definition is_boolean :: "json option \<Rightarrow> bool" where
  "is_boolean x = (case x of Some (JsBool _) \<Rightarrow> True | _ \<Rightarrow> False)"

text \<open>Reading a tested property; the defaults are never reached behind the tests.\<close>

definition the_ascii :: "json option \<Rightarrow> string" where
  "the_ascii x = (case x of Some (JsText v) \<Rightarrow> (case to_ascii v of Some s \<Rightarrow> s | None \<Rightarrow> []) | _ \<Rightarrow> [])"

definition the_utf8 :: "json option \<Rightarrow> string" where
  "the_utf8 x = (case x of Some (JsText v) \<Rightarrow> utf8 v | _ \<Rightarrow> [])"

definition the_int :: "json option \<Rightarrow> int" where
  "the_int x = (case x of Some (JsInt n) \<Rightarrow> n | _ \<Rightarrow> 0)"

definition the_bool :: "json option \<Rightarrow> bool" where
  "the_bool x = (case x of Some (JsBool b) \<Rightarrow> b | _ \<Rightarrow> False)"

definition isPublicationCertificate :: "json option \<Rightarrow> bool" where
  "isPublicationCertificate x =
     text_matches (\<lambda>s. s \<noteq> [] \<and> length s \<le> 2732 \<and>
       (case atob s of None \<Rightarrow> False | Some bytes \<Rightarrow> 0 < length bytes \<and> length bytes \<le> 2048 \<and> btoa bytes = s)) x"

definition isPort :: "json option \<Rightarrow> bool" where
  "isPort x = (case x of Some (JsInt n) \<Rightarrow> 1 \<le> n \<and> n \<le> 65535 | _ \<Rightarrow> False)"

definition isCanonicalPublicationEndpoint :: "(string \<Rightarrow> string option) \<Rightarrow> json option \<Rightarrow> int \<Rightarrow> bool" where
  "isCanonicalPublicationEndpoint idna host port =
     (if host = Some (JsText []) then port = 1 else text_matches (isCanonicalHostname idna) host)"

definition PUBLISH_NONCE_RETENTION_SECONDS :: int where "PUBLISH_NONCE_RETENTION_SECONDS = 86400"

definition isPublisherReplayMetadata :: "json \<Rightarrow> bool" where
  "isPublisherReplayMetadata v \<longleftrightarrow>
     (if \<not> text_matches canonical_sequence (field v ''publisherSequence'') \<or>
         \<not> text_matches is_hex32 (field v ''publisherNonce'') \<or>
         text_matches (list_all (\<lambda>c. c = CHR ''0'')) (field v ''publisherNonce'') \<or>
         \<not> bounded_integer (field v ''now'') 0 max_safe_integer \<or>
         \<not> bounded_integer (field v ''publisherNonceExpiresAt'') (the_int (field v ''now'')) max_safe_integer \<or>
         the_int (field v ''publisherNonceExpiresAt'') \<noteq> the_int (field v ''now'') + PUBLISH_NONCE_RETENTION_SECONDS
      then False
      else
        let sequence = decimal_value (the_ascii (field v ''publisherSequence'')) in
        sequence > 0 \<and> sequence \<le> decimal_value UINT64_MAXIMUM_SEQUENCE)"

definition INTERNAL_PUBLICATION_BASE_KEYS :: "string list" where
  "INTERNAL_PUBLICATION_BASE_KEYS =
     [''certificate'', ''serverId'', ''directoryProfile'', ''publisherSequence'', ''publisherNonce'',
      ''publisherNonceExpiresAt'', ''commitToken'', ''expectedGeneration'', ''generation'', ''tokenHash'', ''now'',
      ''visibilityCutoff'', ''name'', ''isPublic'', ''quicHost'', ''quicPort'', ''quicCertSha256'',
      ''authorizationRequired'', ''directoryFingerprint'']"

definition INTERNAL_CLASSIC_PUBLICATION_KEYS :: "string list" where
  "INTERNAL_CLASSIC_PUBLICATION_KEYS = INTERNAL_PUBLICATION_BASE_KEYS @ [''playersCount'', ''version'', ''textComment'']"

definition INTERNAL_GAME_PUBLICATION_KEYS :: "string list" where
  "INTERNAL_GAME_PUBLICATION_KEYS = INTERNAL_PUBLICATION_BASE_KEYS @
     [''description'', ''region'', ''protocolMajor'', ''protocolMinor'', ''contentId'', ''contentRevisionSha256'',
      ''playersOnline'', ''playersCapacity'', ''status'']"

definition game_region :: "string \<Rightarrow> bool" where
  "game_region r \<longleftrightarrow>
     1 \<le> length r \<and> length r \<le> 32 \<and> list_all region_char r \<and> alphanumeric (hd r) \<and> alphanumeric (last r)"

definition game_content_id :: "string \<Rightarrow> bool" where
  "game_content_id c \<longleftrightarrow>
     1 \<le> length c \<and> length c \<le> 64 \<and> list_all content_char c \<and> alphanumeric (hd c) \<and> alphanumeric (last c)"

definition text_is :: "string \<Rightarrow> json option \<Rightarrow> bool" where
  "text_is s x \<longleftrightarrow> x = Some (JsText (ascii16 s))"

definition text_equals :: "json option \<Rightarrow> json option \<Rightarrow> bool" where
  "text_equals x y = (case (x, y) of (Some (JsText s), Some (JsText t)) \<Rightarrow> s = t | _ \<Rightarrow> False)"

definition directory_text :: "json option \<Rightarrow> nat \<Rightarrow> bool \<Rightarrow> bool" where
  "directory_text x n e = (case x of None \<Rightarrow> False | Some v \<Rightarrow> isDirectoryText v n e)"

definition game_directory_text :: "json option \<Rightarrow> nat \<Rightarrow> bool \<Rightarrow> bool" where
  "game_directory_text x n e = (case x of None \<Rightarrow> False | Some v \<Rightarrow> isGameDirectoryText v n e)"

definition base_fields_ok :: "(string \<Rightarrow> string option) \<Rightarrow> json \<Rightarrow> bool" where
  "base_fields_ok idna v \<longleftrightarrow>
     is_json_object v \<and> text_matches is_hex64 (field v ''serverId'') \<and>
     (text_is ''classic-v3'' (field v ''directoryProfile'') \<or> text_is ''game-v2'' (field v ''directoryProfile'')) \<and>
     isPublicationCertificate (field v ''certificate'') \<and> isPublisherReplayMetadata v \<and>
     text_matches is_hex64 (field v ''commitToken'') \<and>
     (field v ''expectedGeneration'' = Some JsNull \<or> text_matches is_hex64 (field v ''expectedGeneration'')) \<and>
     text_matches is_hex64 (field v ''generation'') \<and> text_matches is_hex64 (field v ''tokenHash'') \<and>
     bounded_integer (field v ''now'') 0 max_safe_integer \<and>
     bounded_integer (field v ''visibilityCutoff'') 0 (the_int (field v ''now'')) \<and>
     directory_text (field v ''name'') 80 False \<and> is_boolean (field v ''isPublic'') \<and> isPort (field v ''quicPort'') \<and>
     isCanonicalPublicationEndpoint idna (field v ''quicHost'') (the_int (field v ''quicPort'')) \<and>
     text_equals (field v ''quicCertSha256'') (field v ''serverId'') \<and>
     is_boolean (field v ''authorizationRequired'') \<and> text_matches is_hex64 (field v ''directoryFingerprint'')"

definition common_publication :: "json \<Rightarrow> publication_body \<Rightarrow> publication" where
  "common_publication v body =
     \<lparr>pb_certificate = the_ascii (field v ''certificate''), pb_server = the_ascii (field v ''serverId''),
      pb_sequence = the_ascii (field v ''publisherSequence''), pb_nonce = the_ascii (field v ''publisherNonce''),
      pb_nonce_expires = the_int (field v ''publisherNonceExpiresAt''), pb_commit = the_ascii (field v ''commitToken''),
      pb_expected = (if field v ''expectedGeneration'' = Some JsNull then None
                     else Some (the_ascii (field v ''expectedGeneration''))),
      pb_generation = the_ascii (field v ''generation''), pb_token_hash = the_ascii (field v ''tokenHash''),
      pb_now = the_int (field v ''now''), pb_cutoff = the_int (field v ''visibilityCutoff''),
      pb_name = the_utf8 (field v ''name''), pb_public = the_bool (field v ''isPublic''),
      pb_host = the_ascii (field v ''quicHost''), pb_port = the_int (field v ''quicPort''),
      pb_cert = the_ascii (field v ''quicCertSha256''), pb_auth = the_bool (field v ''authorizationRequired''),
      pb_fingerprint = the_ascii (field v ''directoryFingerprint''), pb_body = body\<rparr>"

definition classic_fields_ok :: "json \<Rightarrow> bool" where
  "classic_fields_ok v \<longleftrightarrow>
     exact_keys v INTERNAL_CLASSIC_PUBLICATION_KEYS \<and> bounded_integer (field v ''playersCount'') 0 4294967295 \<and>
     directory_text (field v ''version'') 32 False \<and> directory_text (field v ''textComment'') 256 True"

definition status_of :: "json option \<Rightarrow> game_status option" where
  "status_of x =
     (if text_is ''online'' x then Some StatusOnline else if text_is ''full'' x then Some StatusFull
      else if text_is ''maintenance'' x then Some StatusMaintenance else None)"

definition game_fields_ok :: "json \<Rightarrow> bool" where
  "game_fields_ok v \<longleftrightarrow>
     exact_keys v INTERNAL_GAME_PUBLICATION_KEYS \<and> game_directory_text (field v ''name'') 80 False \<and>
     game_directory_text (field v ''description'') 512 True \<and>
     (field v ''region'' = Some JsNull \<or> text_matches game_region (field v ''region'')) \<and>
     field v ''protocolMajor'' = Some (JsInt 1) \<and> bounded_integer (field v ''protocolMinor'') 0 65535 \<and>
     text_matches game_content_id (field v ''contentId'') \<and> text_matches is_hex64 (field v ''contentRevisionSha256'') \<and>
     bounded_integer (field v ''playersOnline'') 0 100000 \<and> bounded_integer (field v ''playersCapacity'') 1 100000 \<and>
     the_int (field v ''playersOnline'') \<le> the_int (field v ''playersCapacity'') \<and>
     (case status_of (field v ''status'') of
        None \<Rightarrow> False
      | Some StatusOnline \<Rightarrow> the_int (field v ''playersOnline'') < the_int (field v ''playersCapacity'')
      | Some StatusFull \<Rightarrow> the_int (field v ''playersOnline'') = the_int (field v ''playersCapacity'')
      | Some StatusMaintenance \<Rightarrow> the_int (field v ''playersOnline'') = 0)"

definition validatePublicationBody :: "(string \<Rightarrow> string option) \<Rightarrow> json \<Rightarrow> publication option" where
  "validatePublicationBody idna v =
     (if \<not> base_fields_ok idna v then None
      else if text_is ''classic-v3'' (field v ''directoryProfile'') then
        if \<not> classic_fields_ok v then None
        else Some (common_publication v (ClassicBody (the_int (field v ''playersCount'')) (the_utf8 (field v ''version''))
               (the_utf8 (field v ''textComment''))))
      else if \<not> game_fields_ok v then None
      else Some (common_publication v (GameBody (the_utf8 (field v ''description''))
             (if field v ''region'' = Some JsNull then None else Some (the_ascii (field v ''region'')))
             (the_int (field v ''protocolMinor'')) (the_ascii (field v ''contentId''))
             (the_ascii (field v ''contentRevisionSha256'')) (the_int (field v ''playersOnline''))
             (the_int (field v ''playersCapacity'')) (the (status_of (field v ''status''))))))"

subsection \<open>The request\<close>

text \<open>
  A request: header names as \<open>Headers\<close> stores them, in lower case and each once; the body as
  the text that \<open>request.text()\<close> decodes.
\<close>

record http_request =
  rq_url :: string
  rq_method :: string
  rq_headers :: "(string \<times> string) list"
  rq_body :: "text16 option"

definition header :: "http_request \<Rightarrow> string \<Rightarrow> string option" where
  "header r name = map_of (rq_headers r) name"

definition has_header :: "http_request \<Rightarrow> string \<Rightarrow> bool" where
  "has_header r name \<longleftrightarrow> name \<in> set (map fst (rq_headers r))"

definition role_header :: string where "role_header = ''x-atrinik-rendezvous-v5-role''"
definition protocol_header :: string where "protocol_header = ''x-atrinik-rendezvous-v5-protocol''"
definition authorization_header :: string where "authorization_header = ''x-atrinik-rendezvous-v5-authorization''"
definition generation_header :: string where "generation_header = ''x-atrinik-rendezvous-v5-generation''"
definition admission_header :: string where "admission_header = ''x-atrinik-rendezvous-v5-admission''"
definition ticket_header :: string where "ticket_header = ''x-atrinik-rendezvous-v5-ticket''"
definition expiry_header :: string where "expiry_header = ''x-atrinik-rendezvous-v5-admission-expires''"
definition nonce_header :: string where "nonce_header = ''x-atrinik-rendezvous-v5-client-nonce''"

definition LEGACY_HEADERS :: "string list" where
  "LEGACY_HEADERS = [''x-atrinik-role'', ''x-atrinik-rendezvous-v1-role'', ''x-atrinik-rendezvous-v2-role'',
     ''x-atrinik-rendezvous-v2-protocol'', ''x-atrinik-rendezvous-v2-authorization'', ''x-atrinik-rendezvous-v2-generation'']"

definition MAX_INTERNAL_PUBLICATION_BYTES :: nat where "MAX_INTERNAL_PUBLICATION_BYTES = 8192"

definition validateInternalRendezvousPublication ::
  "(string \<Rightarrow> string option) \<Rightarrow> http_request \<Rightarrow> publication option" where
  "validateInternalRendezvousPublication idna r =
     (if rq_url r \<noteq> ''https://rendezvous.internal/v5/publish'' \<or> rq_method r \<noteq> ''POST'' \<or>
         header r ''content-type'' \<noteq> Some ''application/json'' \<or>
         list_ex (has_header r) ([''upgrade'', role_header, protocol_header, authorization_header, generation_header] @
           LEGACY_HEADERS @ [''content-encoding'', ''transfer-encoding''])
      then None
      else case rq_body r of
        None \<Rightarrow> None
      | Some body \<Rightarrow>
          if length body > MAX_INTERNAL_PUBLICATION_BYTES \<or> length (utf8 body) > MAX_INTERNAL_PUBLICATION_BYTES then None
          else case JSON_parse body of None \<Rightarrow> None | Some v \<Rightarrow> validatePublicationBody idna v)"

subsection \<open>Certificates\<close>

fun base64_digits :: "string \<Rightarrow> nat list" where
  "base64_digits [] = []"
| "base64_digits [a] = [of_char a div 4, of_char a mod 4 * 16]"
| "base64_digits [a, b] = [of_char a div 4, of_char a mod 4 * 16 + of_char b div 16, of_char b mod 16 * 4]"
| "base64_digits (a # b # c # r) =
     [of_char a div 4, of_char a mod 4 * 16 + of_char b div 16, of_char b mod 16 * 4 + of_char c div 64,
      of_char c mod 64] @ base64_digits r"

definition base64_padding :: "string \<Rightarrow> nat" where
  "base64_padding s = (3 - length s mod 3) mod 3"

lemma btoa_digits: "btoa s = map base64_digit (base64_digits s) @ replicate (base64_padding s) (CHR ''='')"
proof (induction s rule: btoa.induct)
  case (4 a b c r)
  then show ?case by (simp add: Let_def base64_padding_def)
qed (simp_all add: base64_padding_def Let_def numeral_2_eq_2)

lemma sixtyfour: "x < 256 \<Longrightarrow> y < 256 \<Longrightarrow> x div 4 < 64 \<and> x mod 4 * 16 + y div 16 < 64 \<and> x mod 16 * 4 + y div 64 < 64"
  for x y :: nat
proof -
  assume "x < 256" "y < 256"
  then have "x div 4 < 64" "y div 16 < 16" "y div 64 < 4" by (simp_all add: less_mult_imp_div_less)
  moreover have "x mod 4 \<le> 3" "x mod 16 \<le> 15" using mod_less_divisor[of 4 x] mod_less_divisor[of 16 x] by linarith+
  ultimately show ?thesis by linarith
qed

lemma pack_div: "b < m \<Longrightarrow> (a * m + b) div m = a" "b < m \<Longrightarrow> (a * m + b) mod m = b" for a b m :: nat
  by simp_all

lemma base64_digits_bound: "list_all (\<lambda>n. n < 64) (base64_digits s)"
proof (induction s rule: base64_digits.induct)
  case (2 a)
  then show ?case using sixtyfour[of "of_char a" 0] nat_of_char_less_256[of a] by simp
next
  case (3 a b)
  then show ?case
    using sixtyfour[of "of_char a" "of_char b"] sixtyfour[of "of_char b" 0] nat_of_char_less_256 by simp
next
  case (4 a b c r)
  then show ?case
    using sixtyfour[of "of_char a" "of_char b"] sixtyfour[of "of_char b" "of_char c"] nat_of_char_less_256 by simp
qed simp

lemma base64_digits_length: "length (base64_digits s) + base64_padding s = 4 * ((length s + 2) div 3)"
proof (induction s rule: base64_digits.induct)
  case (4 a b c r)
  have "(length (a # b # c # r) + 2) div 3 = (length r + 2) div 3 + 1" by simp
  with 4 show ?case by (simp add: base64_padding_def)
qed (simp_all add: base64_padding_def)

lemma group_bytes:
  assumes "x < 256" "y < 256" "z < (256 :: nat)"
  shows "byte (x div 4 * 4 + (x mod 4 * 16 + y div 16) div 16) = byte x"
    "byte ((x mod 4 * 16 + y div 16) mod 16 * 16 + (y mod 16 * 4 + z div 64) div 4) = byte y"
    "byte ((y mod 16 * 4 + z div 64) mod 4 * 64 + z mod 64) = byte z"
proof -
  have small: "y div 16 < 16" "z div 64 < 4" using assms by (simp_all add: less_mult_imp_div_less)
  have "x div 4 * 4 + (x mod 4 * 16 + y div 16) div 16 = x"
    unfolding pack_div(1)[OF small(1)] by (rule div_mult_mod_eq)
  moreover have "(x mod 4 * 16 + y div 16) mod 16 * 16 + (y mod 16 * 4 + z div 64) div 4 = y"
    unfolding pack_div[OF small(1)] pack_div[OF small(2)] by (rule div_mult_mod_eq)
  moreover have "(y mod 16 * 4 + z div 64) mod 4 * 64 + z mod 64 = z"
    unfolding pack_div[OF small(2)] by (rule div_mult_mod_eq)
  ultimately show "byte (x div 4 * 4 + (x mod 4 * 16 + y div 16) div 16) = byte x"
    "byte ((x mod 4 * 16 + y div 16) mod 16 * 16 + (y mod 16 * 4 + z div 64) div 4) = byte y"
    "byte ((y mod 16 * 4 + z div 64) mod 4 * 64 + z mod 64) = byte z" by simp_all
qed

lemma byte_of_char: "byte (of_char c) = c"
  by (simp add: byte_def)

lemma base64_bytes_digits: "base64_bytes (base64_digits s) = s"
proof (induction s rule: base64_digits.induct)
  case (2 a)
  then show ?case using group_bytes(1)[of "of_char a" 0 0] nat_of_char_less_256[of a] by (simp add: byte_of_char)
next
  case (3 a b)
  then show ?case
    using group_bytes(1,2)[of "of_char a" "of_char b" 0] nat_of_char_less_256 by (simp add: byte_of_char)
next
  case (4 a b c r)
  then show ?case
    using group_bytes[of "of_char a" "of_char b" "of_char c"] nat_of_char_less_256 by (simp add: byte_of_char)
qed simp

lemma digits_sixtyfour: "list_all (\<lambda>n. base64_value (base64_digit n) = Some n \<and> base64_char (base64_digit n) \<and>
    \<not> base64_space (base64_digit n) \<and> base64_digit n \<noteq> CHR ''='') [0..<64]"
  by code_simp

lemma base64_digit_facts:
  assumes "n < 64"
  shows "base64_value (base64_digit n) = Some n" "base64_char (base64_digit n)" "\<not> base64_space (base64_digit n)"
    "base64_digit n \<noteq> CHR ''=''"
  using digits_sixtyfour assms by (simp_all add: list_all_iff)

lemma those_values: "list_all (\<lambda>n. n < 64) ns \<Longrightarrow> those (map base64_value (map base64_digit ns)) = Some ns"
  by (induction ns) (simp_all add: base64_digit_facts)

lemma btoa_length: "length (btoa s) = 4 * ((length s + 2) div 3)"
  using base64_digits_length[of s] by (simp add: btoa_digits)

lemma group_count: "0 < n \<Longrightarrow> n \<le> 2048 \<Longrightarrow> 1 \<le> (n + 2) div 3 \<and> (n + 2) div 3 \<le> 683" for n :: nat
  using div_le_mono[of 3 "n + 2" 3] div_le_mono[of "n + 2" 2050 3] by simp

lemma btoa_chars: "list_all (\<lambda>c. base64_char c \<and> \<not> base64_space c) (btoa s)"
proof -
  have "base64_char (CHR ''='')" "\<not> base64_space (CHR ''='')" by (simp_all add: base64_char_def base64_space_def)
  then show ?thesis
    using base64_digits_bound[of s] by (auto simp: btoa_digits list_all_iff base64_digit_facts)
qed

lemma strip_padding_btoa: "strip_padding (btoa s) = map base64_digit (base64_digits s)"
proof -
  let ?ds = "map base64_digit (base64_digits s)" let ?p = "base64_padding s"
  have len: "length (btoa s) mod 4 = 0" by (simp add: btoa_length)
  have digit: "c \<noteq> CHR ''=''" if "c \<in> set ?ds" for c
    using that base64_digits_bound[of s] by (auto simp: list_all_iff base64_digit_facts)
  have "?p < 3" by (simp add: base64_padding_def)
  then have "?p = 0 \<or> ?p = 1 \<or> ?p = 2" by linarith
  then consider (none) "btoa s = ?ds" | (one) "btoa s = ?ds @ ''=''" | (two) "btoa s = ?ds @ ''==''"
  proof (elim disjE)
    assume "?p = 0" then show ?thesis using btoa_digits[of s] by (intro that(1)) simp
  next
    assume "?p = 1" then show ?thesis using btoa_digits[of s] by (intro that(2)) simp
  next
    assume "?p = 2" then show ?thesis using btoa_digits[of s] by (intro that(3)) (simp add: numeral_2_eq_2)
  qed
  then show ?thesis
  proof cases
    case none
    have "\<not> (length ?ds \<ge> 2 \<and> drop (length ?ds - 2) ?ds = ''=='')"
    proof
      assume "length ?ds \<ge> 2 \<and> drop (length ?ds - 2) ?ds = ''==''"
      then have "CHR ''='' \<in> set (drop (length ?ds - 2) ?ds)" by simp
      then have "CHR ''='' \<in> set ?ds" by (rule in_set_dropD)
      then show False using digit by blast
    qed
    moreover have "\<not> (length ?ds \<ge> 1 \<and> last ?ds = CHR ''='')"
    proof
      assume "length ?ds \<ge> 1 \<and> last ?ds = CHR ''=''"
      moreover from this have "last ?ds \<in> set ?ds" by (intro last_in_set) auto
      ultimately show False using digit by metis
    qed
    ultimately show ?thesis using len unfolding strip_padding_def none by argo
  next
    case one
    have "?ds \<noteq> []" using len one by auto
    then have "drop (length (?ds @ ''='') - 2) (?ds @ ''='') = [last ?ds, CHR ''='']"
      by (cases ?ds rule: rev_cases) simp_all
    moreover have "last ?ds \<noteq> CHR ''=''" by (rule digit) (rule last_in_set[OF \<open>?ds \<noteq> []\<close>])
    ultimately show ?thesis using len unfolding strip_padding_def one by simp
  next
    case two
    then show ?thesis using len unfolding strip_padding_def two by simp
  qed
qed

lemma atob_btoa: "atob (btoa s) = Some s"
proof -
  have "filter (\<lambda>c. \<not> base64_space c) (btoa s) = btoa s"
    using btoa_chars[of s] by (intro filter_True) (auto simp: list_all_iff)
  moreover have "length (base64_digits s) mod 4 \<noteq> 1"
  proof -
    have "base64_padding s < 3" by (simp add: base64_padding_def)
    moreover obtain k where "length (base64_digits s) + base64_padding s = 4 * k" using base64_digits_length[of s] by blast
    ultimately show ?thesis by presburger
  qed
  ultimately show ?thesis
    by (simp only: atob_def Let_def strip_padding_btoa those_values[OF base64_digits_bound] base64_bytes_digits
        length_map if_False option.map)
qed

lemma certificate_iff:
  "isPublicationCertificate x \<longleftrightarrow>
   text_matches (\<lambda>s. \<exists>bytes. 0 < length bytes \<and> length bytes \<le> 2048 \<and> s = btoa bytes) x"
proof -
  have "(s \<noteq> [] \<and> length s \<le> 2732 \<and>
       (case atob s of None \<Rightarrow> False | Some bytes \<Rightarrow> 0 < length bytes \<and> length bytes \<le> 2048 \<and> btoa bytes = s)) \<longleftrightarrow>
      (\<exists>bytes. 0 < length bytes \<and> length bytes \<le> 2048 \<and> s = btoa bytes)" (is "?a \<longleftrightarrow> ?b") for s
  proof
    assume ?b
    then obtain bytes where b: "0 < length bytes" "length bytes \<le> 2048" "s = btoa bytes" by blast
    from group_count[OF b(1,2)] have "0 < length s \<and> length s \<le> 2732" unfolding b(3) btoa_length by linarith
    with b show ?a by (auto simp: atob_btoa)
  qed (auto split: option.splits)
  then show ?thesis by (simp add: isPublicationCertificate_def)
qed

lemma sql_certificate_btoa: "0 < length bytes \<Longrightarrow> length bytes \<le> 2048 \<Longrightarrow> sql_certificate_ok (btoa bytes)"
proof -
  assume b: "0 < length bytes" "length bytes \<le> 2048"
  from group_count[OF b] have "4 \<le> length (btoa bytes) \<and> length (btoa bytes) \<le> 2732" unfolding btoa_length by linarith
  then show ?thesis using btoa_chars[of bytes] by (auto simp: sql_certificate_ok_def btoa_length list_all_iff)
qed

subsection \<open>The size of a game entry\<close>

lemma to_decimal_short: "n < 10 ^ k \<Longrightarrow> 0 < k \<Longrightarrow> length (to_decimal n) \<le> k"
  using to_decimal_length[of n "k - 1"] by (cases k) auto

lemma json_int_length: "0 \<le> n \<Longrightarrow> n < 10 ^ 6 \<Longrightarrow> length (json_int n) \<le> 6"
  using to_decimal_short[of "nat n" 6] by (simp add: json_int_def nat_less_iff)

lemma json_string_length: "length (json_string s) \<le> 6 * length s + 2"
proof -
  have "length (json_escape c) \<le> 6" for c by (simp add: json_escape_def Let_def)
  then have "length (concat (map json_escape s)) \<le> 6 * length s"
    by (induction s) (auto intro: add_mono)
  then show ?thesis by (simp add: json_string_def)
qed

lemma json_object_length:
  "length (json_object ms) \<le> 2 + (\<Sum>(k, v) \<leftarrow> ms. 6 * length k + length v + 4)"
proof -
  have "sum_list (map (\<lambda>x. Suc (length x)) (map (\<lambda>(k, v). json_string k @ CHR '':'' # v) ms))
      \<le> (\<Sum>(k, v) \<leftarrow> ms. 6 * length k + length v + 4)"
  proof (induction ms)
    case (Cons m ms)
    obtain k v where m: "m = (k, v)" by (cases m)
    show ?case using Cons json_string_length[of k] by (simp add: m)
  qed simp
  then show ?thesis using json_join_length[of "map (\<lambda>(k, v). json_string k @ CHR '':'' # v) ms"]
    by (simp add: json_object_def)
qed

definition game_parts_ok :: "publication \<Rightarrow> bool" where
  "game_parts_ok p \<longleftrightarrow>
     length (pb_server p) = 64 \<and> length (pb_cert p) = 64 \<and> length (pb_name p) \<le> 80 \<and> length (pb_host p) \<le> 253 \<and>
     0 \<le> pb_port p \<and> pb_port p \<le> 65535 \<and>
     (case pb_body p of
        ClassicBody _ _ _ \<Rightarrow> False
      | GameBody description region minor content revision online capacity status \<Rightarrow>
          length description \<le> 512 \<and> (case region of None \<Rightarrow> True | Some r \<Rightarrow> length r \<le> 32) \<and> 0 \<le> minor \<and> minor \<le> 65535 \<and>
          length content \<le> 64 \<and> length revision = 64 \<and> 0 \<le> online \<and> online \<le> 100000 \<and> 0 \<le> capacity \<and> capacity \<le> 100000)"

lemma game_json_bounds:
  assumes "game_parts_ok p"
  shows "1 \<le> gamePublicationJsonByteLength p" "gamePublicationJsonByteLength p \<le> 262005"
proof -
  obtain description region minor content revision online capacity status where
    body: "pb_body p = GameBody description region minor content revision online capacity status"
    using assms by (cases "pb_body p") (simp_all add: game_parts_ok_def)
  note parts = assms[unfolded game_parts_ok_def body publication_body.case]
  have ints: "length (json_int 1) \<le> 6" "length (json_int minor) \<le> 6" "length (json_int online) \<le> 6"
      "length (json_int capacity) \<le> 6" "length (json_int (pb_port p)) \<le> 6"
    using parts by (auto intro!: json_int_length)
  have texts: "length (json_string (pb_server p)) \<le> 386" "length (json_string (pb_cert p)) \<le> 386"
      "length (json_string (pb_name p)) \<le> 482" "length (json_string description) \<le> 3074"
      "length (json_string content) \<le> 386" "length (json_string revision) \<le> 386" "length (json_string (pb_host p)) \<le> 1520"
    using parts json_string_length[of "pb_server p"] json_string_length[of "pb_cert p"] json_string_length[of "pb_name p"]
      json_string_length[of description] json_string_length[of content] json_string_length[of revision]
      json_string_length[of "pb_host p"] by linarith+
  have protocol: "length (json_object [(''major'', json_int 1), (''minor'', json_int minor)]) \<le> 100"
    using json_object_length[of "[(''major'', json_int 1), (''minor'', json_int minor)]"] ints by simp
  have content: "length (json_object [(''id'', json_string content), (''revisionSha256'', json_string revision)]) \<le> 1000"
    using json_object_length[of "[(''id'', json_string content), (''revisionSha256'', json_string revision)]"] texts by simp
  have players: "length (json_object [(''online'', json_int online), (''capacity'', json_int capacity)]) \<le> 200"
    using json_object_length[of "[(''online'', json_int online), (''capacity'', json_int capacity)]"] ints by simp
  have endpoint: "length (json_object [(''hostname'', json_string (pb_host p)), (''port'', json_int (pb_port p))]) \<le> 2000"
    using json_object_length[of "[(''hostname'', json_string (pb_host p)), (''port'', json_int (pb_port p))]"] ints texts by simp
  have status: "length (json_string (status_name status)) \<le> 70"
    using json_string_length[of "status_name status"] by (cases status) (simp_all add: status_name_def)
  have access: "length (json_bool (pb_auth p)) \<le> 5" by (simp add: json_bool_def)
  have region: "(\<Sum>(k, v) \<leftarrow> (case region of None \<Rightarrow> [] | Some r \<Rightarrow> [(''region'', json_string r)]). 6 * length k + length v + 4) \<le> 300"
  proof (cases region)
    case (Some r)
    then show ?thesis using parts json_string_length[of r] by simp
  qed simp
  have optional: "(\<Sum>(k, v) \<leftarrow> (if pb_host p = '''' then []
      else [(''endpoint'', json_object [(''hostname'', json_string (pb_host p)), (''port'', json_int (pb_port p))])]).
      6 * length k + length v + 4) \<le> 2100"
    using endpoint by simp
  show "1 \<le> gamePublicationJsonByteLength p"
    by (simp add: gamePublicationJsonByteLength_def gameJsonServer_def body json_object_def)
  have "length (gameJsonServer p) \<le> 2 + 20000"
    unfolding gameJsonServer_def body publication_body.case
    by (rule order_trans[OF json_object_length], rule add_left_mono)
      (use texts protocol content players status access region optional in simp)
  then show "gamePublicationJsonByteLength p \<le> 262005" by (simp add: gamePublicationJsonByteLength_def)
qed

subsection \<open>An accepted publication\<close>

lemma text_matchesD: "text_matches P x \<Longrightarrow> P (the_ascii x)"
  by (auto simp: text_matches_def matches_def the_ascii_def split: option.splits json.splits)

lemma bounded_integerD: "bounded_integer x lo hi \<Longrightarrow> is_safe_integer (the_int x) \<and> lo \<le> the_int x \<and> the_int x \<le> hi"
  by (auto simp: bounded_integer_def the_int_def split: option.splits json.splits)

lemma isPortD: "isPort x \<Longrightarrow> 1 \<le> the_int x \<and> the_int x \<le> 65535"
  by (auto simp: isPort_def the_int_def split: option.splits json.splits)

text \<open>A display text as the scalars it consists of.\<close>

lemma directory_textD:
  assumes "(case x of None \<Rightarrow> False | Some v \<Rightarrow> isProfileDirectoryText v n e game)"
  shows "\<exists>ns. the_utf8 x = map byte (utf8_of ns) \<and> list_all (text_scalar_ok game) ns \<and> length (the_utf8 x) \<le> n \<and>
    (e \<or> the_utf8 x \<noteq> [])"
proof -
  obtain v where "x = Some (JsText v)" "isProfileDirectoryText (JsText v) n e game"
    using assms by (auto simp: isProfileDirectoryText_def split: option.splits json.splits)
  with accepted_text[of v n e game] show ?thesis by (auto simp: the_utf8_def utf8_def)
qed

lemma joined_text_ok:
  assumes "a = map byte (utf8_of ms)" "list_all (text_scalar_ok game) ms"
    "b = map byte (utf8_of ns)" "list_all (text_scalar_ok game) ns"
  shows "\<exists>ks. a @ b = map byte (utf8_of ks) \<and> list_all (text_scalar_ok game) ks"
  by (rule exI[of _ "ms @ ns"]) (use assms in simp)

lemma text_matches_not: "text_matches P x \<Longrightarrow> \<not> text_matches Q x \<Longrightarrow> \<not> Q (the_ascii x)"
  by (auto simp: text_matches_def matches_def the_ascii_def split: option.splits json.splits)

lemma text_equalsD: "text_equals x y \<Longrightarrow> the_ascii x = the_ascii y"
  by (auto simp: text_equals_def the_ascii_def split: option.splits json.splits)

lemma replay_metadataD:
  assumes "isPublisherReplayMetadata v"
  shows "uint64_sequence (the_ascii (field v ''publisherSequence''))" "is_hex32 (the_ascii (field v ''publisherNonce''))"
    "the_ascii (field v ''publisherNonce'') \<noteq> replicate 32 (CHR ''0'')"
    "the_int (field v ''publisherNonceExpiresAt'') = the_int (field v ''now'') + 86400"
proof -
  have seq: "text_matches canonical_sequence (field v ''publisherSequence'')"
    and nonce: "text_matches is_hex32 (field v ''publisherNonce'')"
      "\<not> text_matches (list_all (\<lambda>c. c = CHR ''0'')) (field v ''publisherNonce'')"
    and rest: "decimal_value (the_ascii (field v ''publisherSequence'')) \<le> decimal_value UINT64_MAXIMUM_SEQUENCE"
      "the_int (field v ''publisherNonceExpiresAt'') = the_int (field v ''now'') + 86400"
    using assms by (simp_all add: isPublisherReplayMetadata_def Let_def PUBLISH_NONCE_RETENTION_SECONDS_def split: if_splits)
  show "uint64_sequence (the_ascii (field v ''publisherSequence''))"
    using text_matchesD[OF seq] rest(1) by (simp add: uint64_sequence_def)
  show "is_hex32 (the_ascii (field v ''publisherNonce''))" by (rule text_matchesD[OF nonce(1)])
  show "the_ascii (field v ''publisherNonce'') \<noteq> replicate 32 (CHR ''0'')"
    using text_matches_not[OF nonce] by (auto simp: list_all_iff)
  show "the_int (field v ''publisherNonceExpiresAt'') = the_int (field v ''now'') + 86400" by (rule rest(2))
qed

lemma endpointD:
  assumes "isCanonicalPublicationEndpoint idna host port"
  shows "the_ascii host = '''' \<and> port = 1 \<or> the_ascii host \<noteq> '''' \<and> sql_hostname_ok (the_ascii host)"
proof (cases "host = Some (JsText [])")
  case True
  with assms show ?thesis by (simp add: isCanonicalPublicationEndpoint_def the_ascii_def)
next
  case False
  with assms have "isCanonicalHostname idna (the_ascii host)"
    by (auto simp: isCanonicalPublicationEndpoint_def dest: text_matchesD)
  then have "sql_hostname_ok (the_ascii host)" by (simp add: canonical_hostname_iff)
  then show ?thesis by (auto simp: sql_hostname_ok_def)
qed

lemma common_rows_ok:
  assumes ok: "base_fields_ok idna v" and p_def: "p = common_publication v body"
  shows "replay_row_ok (replay_row_of p)" "nonce_row_ok (nonce_row_of p)" "presence_row_ok (presence_row_of p 0 False)"
    "sql_endpoint_ok (published_host p) (published_port p)" "is_hex64 (pb_server p)" "pb_cert p = pb_server p"
    "is_hex64 (pb_fingerprint p)" "length (pb_host p) \<le> 253" "1 \<le> pb_port p" "pb_port p \<le> 65535"
proof -
  note parts = ok[unfolded base_fields_ok_def]
  have replay: "isPublisherReplayMetadata v" using parts by blast
  have hex: "is_hex64 (pb_server p)" "is_hex64 (pb_commit p)" "is_hex64 (pb_generation p)" "is_hex64 (pb_token_hash p)"
      "is_hex64 (pb_fingerprint p)"
    using parts by (auto simp: p_def common_publication_def dest!: text_matchesD)
  then show "is_hex64 (pb_server p)" "is_hex64 (pb_fingerprint p)" by blast+
  show "pb_cert p = pb_server p" using parts text_equalsD by (simp add: p_def common_publication_def)
  have port: "1 \<le> pb_port p" "pb_port p \<le> 65535" using parts isPortD by (simp_all add: p_def common_publication_def)
  then show "1 \<le> pb_port p" "pb_port p \<le> 65535" .
  have host: "pb_host p = '''' \<or> pb_host p \<noteq> '''' \<and> sql_hostname_ok (pb_host p)"
    using parts endpointD[of idna "field v ''quicHost''" "the_int (field v ''quicPort'')"]
    by (auto simp: p_def common_publication_def)
  then show endpoint: "sql_endpoint_ok (published_host p) (published_port p)"
    using port by (auto simp: sql_endpoint_ok_def published_host_def published_port_def)
  show "length (pb_host p) \<le> 253" using host by (auto simp: sql_hostname_ok_def)
  show "replay_row_ok (replay_row_of p)" "nonce_row_ok (nonce_row_of p)"
    using replay_metadataD[OF replay] hex
    by (simp_all add: replay_row_ok_def replay_row_of_def nonce_row_ok_def nonce_row_of_def p_def common_publication_def)
  have now: "stored_integer (pb_now p)"
    using parts bounded_integerD[of "field v ''now''"] by (auto simp: p_def common_publication_def stored_integer_def)
  have cert: "sql_certificate_ok (pb_certificate p)"
  proof -
    have "isPublicationCertificate (field v ''certificate'')" using parts by blast
    from text_matchesD[OF this[unfolded certificate_iff]] show ?thesis
      using sql_certificate_btoa by (auto simp: p_def common_publication_def)
  qed
  have name: "sql_name_ok (pb_name p)"
  proof -
    have "directory_text (field v ''name'') 80 False" using parts by blast
    from directory_textD[OF this[unfolded directory_text_def isDirectoryText_def]] show ?thesis
      by (auto simp: p_def common_publication_def sql_name_ok_def Suc_le_eq)
  qed
  show "presence_row_ok (presence_row_of p 0 False)"
    using hex now cert name endpoint own_profile(2)
    by (simp add: presence_row_ok_def presence_row_of_def stored_integer_def max_safe_integer_def)
qed

lemma classic_publication_ok:
  assumes ok: "base_fields_ok idna v" and fields: "classic_fields_ok v"
  shows "publication_ok (common_publication v (ClassicBody (the_int (field v ''playersCount''))
    (the_utf8 (field v ''version'')) (the_utf8 (field v ''textComment''))))" (is "publication_ok ?p")
proof -
  note rows = common_rows_ok[OF ok refl, where body = "ClassicBody (the_int (field v ''playersCount''))
    (the_utf8 (field v ''version'')) (the_utf8 (field v ''textComment''))"]
  have players: "0 \<le> the_int (field v ''playersCount'')" "the_int (field v ''playersCount'') \<le> 4294967295"
    using fields bounded_integerD by (auto simp: classic_fields_ok_def)
  have texts: "directory_text (field v ''name'') 80 False" "directory_text (field v ''version'') 32 False"
      "directory_text (field v ''textComment'') 256 True"
    using ok fields by (auto simp: base_fields_ok_def classic_fields_ok_def)
  obtain ns where ns: "the_utf8 (field v ''name'') = map byte (utf8_of ns)" "list_all (text_scalar_ok False) ns"
      "length (the_utf8 (field v ''name'')) \<le> 80" "the_utf8 (field v ''name'') \<noteq> []"
    using directory_textD[OF texts(1)[unfolded directory_text_def isDirectoryText_def]] by auto
  obtain vs where vs: "the_utf8 (field v ''version'') = map byte (utf8_of vs)" "list_all (text_scalar_ok False) vs"
      "length (the_utf8 (field v ''version'')) \<le> 32" "the_utf8 (field v ''version'') \<noteq> []"
    using directory_textD[OF texts(2)[unfolded directory_text_def isDirectoryText_def]] by auto
  obtain cs where cs: "the_utf8 (field v ''textComment'') = map byte (utf8_of cs)" "list_all (text_scalar_ok False) cs"
      "length (the_utf8 (field v ''textComment'')) \<le> 256"
    using directory_textD[OF texts(3)[unfolded directory_text_def isDirectoryText_def]] by auto
  have "sql_text_ok False (the_utf8 (field v ''name'') @ the_utf8 (field v ''version'') @ the_utf8 (field v ''textComment''))"
  proof -
    obtain ks where "the_utf8 (field v ''version'') @ the_utf8 (field v ''textComment'') = map byte (utf8_of ks)"
        "list_all (text_scalar_ok False) ks"
      using joined_text_ok[OF vs(1,2) cs(1,2)] by blast
    from joined_text_ok[OF ns(1,2) this] sql_text_scalars show ?thesis by metis
  qed
  then have "entry_row_ok (entry_row_of ?p)"
    using rows players ns(3,4) vs(3,4) cs(3)
    by (simp add: entry_row_ok_def entry_row_of_def classic_columns_ok_def entry_text_def sql_name_ok_def pb_profile_def
        common_publication_def Suc_le_eq)
  moreover have "0 \<le> publicationPopulation ?p"
    using players by (simp add: publicationPopulation_def common_publication_def)
  ultimately show ?thesis using rows(1-3) unfolding publication_ok_def by blast
qed

lemma entry_game_ok:
  assumes body: "pb_body p = GameBody description region minor content revision online capacity status"
    and base: "is_hex64 (pb_server p)" "pb_cert p = pb_server p" "is_hex64 (pb_fingerprint p)"
      "sql_endpoint_ok (published_host p) (published_port p)"
    and texts: "sql_name_ok (pb_name p)" "sql_text_ok True (pb_name p @ description)" "length description \<le> 512"
    and columns: "case region of None \<Rightarrow> True | Some r \<Rightarrow> sql_region_ok r" "0 \<le> minor" "minor \<le> 65535" "sql_content_ok content"
      "is_hex64 revision" "0 \<le> online" "online \<le> 100000" "1 \<le> capacity" "capacity \<le> 100000" "status_fits status online capacity"
      "online \<le> capacity" "1 \<le> gamePublicationJsonByteLength p" "gamePublicationJsonByteLength p \<le> 262005"
  shows "entry_row_ok (entry_row_of p)"
proof -
  have "game_columns_ok (entry_row_of p)" using texts(3) columns by (simp add: game_columns_ok_def entry_row_of_def body)
  moreover have "entry_text (entry_row_of p) = pb_name p @ description" by (simp add: entry_text_def entry_row_of_def body)
  moreover have "pb_profile p = GameV2" by (simp add: pb_profile_def body)
  ultimately show ?thesis
    using base texts(1,2) by (simp add: entry_row_ok_def) (simp add: entry_row_of_def body)
qed

lemma game_publication_ok:
  assumes ok: "base_fields_ok idna v" and fields: "game_fields_ok v"
  shows "publication_ok (common_publication v (GameBody (the_utf8 (field v ''description''))
             (if field v ''region'' = Some JsNull then None else Some (the_ascii (field v ''region'')))
             (the_int (field v ''protocolMinor'')) (the_ascii (field v ''contentId''))
             (the_ascii (field v ''contentRevisionSha256'')) (the_int (field v ''playersOnline''))
             (the_int (field v ''playersCapacity'')) (the (status_of (field v ''status'')))))"
    (is "publication_ok (common_publication v ?body)")
proof -
  let ?p = "common_publication v ?body"
  note rows = common_rows_ok[OF ok refl, where body = ?body]
  note parts = fields[unfolded game_fields_ok_def]
  have ints: "0 \<le> the_int (field v ''protocolMinor'')" "the_int (field v ''protocolMinor'') \<le> 65535"
      "0 \<le> the_int (field v ''playersOnline'')" "the_int (field v ''playersOnline'') \<le> 100000"
      "1 \<le> the_int (field v ''playersCapacity'')" "the_int (field v ''playersCapacity'') \<le> 100000"
    using parts bounded_integerD by blast+
  have patterns: "game_content_id (the_ascii (field v ''contentId''))" "is_hex64 (the_ascii (field v ''contentRevisionSha256''))"
    using parts text_matchesD by blast+
  have region: "case (if field v ''region'' = Some JsNull then None else Some (the_ascii (field v ''region''))) of
      None \<Rightarrow> True | Some r \<Rightarrow> game_region r"
    using parts text_matchesD by auto
  have region_ok: "sql_region_ok r" if "game_region r" for r
    using that label_chars(2) by (auto simp: game_region_def sql_region_ok_def)
  have texts: "game_directory_text (field v ''name'') 80 False" "game_directory_text (field v ''description'') 512 True"
    using parts by blast+
  obtain ns where ns: "the_utf8 (field v ''name'') = map byte (utf8_of ns)" "list_all (text_scalar_ok True) ns"
      "length (the_utf8 (field v ''name'')) \<le> 80" "the_utf8 (field v ''name'') \<noteq> []"
    using directory_textD[OF texts(1)[unfolded game_directory_text_def isGameDirectoryText_def]] by auto
  obtain ds where ds: "the_utf8 (field v ''description'') = map byte (utf8_of ds)" "list_all (text_scalar_ok True) ds"
      "length (the_utf8 (field v ''description'')) \<le> 512"
    using directory_textD[OF texts(2)[unfolded game_directory_text_def isGameDirectoryText_def]] by auto
  have joined: "sql_text_ok True (the_utf8 (field v ''name'') @ the_utf8 (field v ''description''))"
    using joined_text_ok[OF ns(1,2) ds(1,2)] sql_text_scalars by metis
  obtain st where st: "status_of (field v ''status'') = Some st"
      "status_fits st (the_int (field v ''playersOnline'')) (the_int (field v ''playersCapacity''))"
    using parts by (cases "status_of (field v ''status'')") (auto split: game_status.splits)
  have "game_parts_ok ?p"
  proof -
    have "length r \<le> 32" if "game_region r" for r using that by (simp add: game_region_def)
    with region have "case (if field v ''region'' = Some JsNull then None else Some (the_ascii (field v ''region''))) of
        None \<Rightarrow> True | Some r \<Rightarrow> length r \<le> 32" by (auto split: option.split)
    then show ?thesis
      using rows(5,6,8-10) ints patterns ns(3) ds(3) is_hex_length
      by (simp add: game_parts_ok_def common_publication_def game_content_id_def)
  qed
  note json = game_json_bounds[OF this]
  have "entry_row_ok (entry_row_of ?p)"
  proof (rule entry_game_ok[where p = ?p])
    show "pb_body ?p = ?body" by (simp add: common_publication_def)
    show "sql_name_ok (pb_name ?p)" "sql_text_ok True (pb_name ?p @ the_utf8 (field v ''description''))"
      using ns(3,4) joined by (simp_all add: common_publication_def sql_name_ok_def Suc_le_eq)
    show "case (if field v ''region'' = Some JsNull then None else Some (the_ascii (field v ''region''))) of
        None \<Rightarrow> True | Some r \<Rightarrow> sql_region_ok r"
      using region region_ok by (auto split: option.split)
    show "sql_content_ok (the_ascii (field v ''contentId''))"
      using patterns(1) by (simp add: game_content_id_def sql_content_ok_def)
    show "status_fits (the (status_of (field v ''status''))) (the_int (field v ''playersOnline'')) (the_int (field v ''playersCapacity''))"
      using st by simp
    show "the_int (field v ''playersOnline'') \<le> the_int (field v ''playersCapacity'')" using parts by blast
  qed (use rows ints patterns(2) ds(3) json in simp_all)
  moreover have "0 \<le> publicationPopulation ?p"
    using ints by (simp add: publicationPopulation_def common_publication_def)
  ultimately show ?thesis using rows(1-3) unfolding publication_ok_def by blast
qed

lemma validated_body_ok:
  assumes "validatePublicationBody idna v = Some p"
  shows "publication_ok p \<and> pb_nonce_expires p = pb_now p + 86400 \<and> pb_cutoff p \<le> pb_now p \<and>
    (case pb_expected p of None \<Rightarrow> True | Some g \<Rightarrow> is_hex64 g)"
proof -
  have base: "base_fields_ok idna v" using assms by (simp add: validatePublicationBody_def split: if_splits)
  obtain body where p: "p = common_publication v body" "publication_ok p"
    using assms classic_publication_ok[OF base] game_publication_ok[OF base]
    by (auto simp: validatePublicationBody_def split: if_splits)
  have "pb_nonce_expires p = pb_now p + 86400" "pb_cutoff p \<le> pb_now p"
    using base replay_metadataD(4)[of v] bounded_integerD[of "field v ''visibilityCutoff''"]
    by (auto simp: p(1) common_publication_def base_fields_ok_def)
  moreover have "case pb_expected p of None \<Rightarrow> True | Some g \<Rightarrow> is_hex64 g"
    using base text_matchesD by (auto simp: p(1) common_publication_def base_fields_ok_def)
  ultimately show ?thesis using p(2) by simp
qed

text \<open>
  C34: A publication that passes the room's validation of the private request fits the tables,
  whatever its texts: its replay, nonce, presence, entry and activity rows, and its activity
  bucket after any stored activity, satisfy the CHECK constraints and the text and hostname
  triggers. So on well-formed tables, with a fresh commit token and a clock that is not behind
  the publisher's stored activity, the batch aborts only where a revision, the presence
  capacity or the budget of the listing is exhausted (\<open>publishable\<close>).
\<close>

theorem validated_publication_fits:
  assumes "validateInternalRendezvousPublication idna r = Some p"
  shows "replay_row_ok (replay_row_of p) \<and> nonce_row_ok (nonce_row_of p) \<and>
    presence_row_ok (presence_row_of p 0 False) \<and> (pb_public p \<longrightarrow> entry_row_ok (entry_row_of p)) \<and>
    activity_row_ok (activity_row_of p) \<and>
    (\<forall>previous. pred_option activity_row_ok previous \<longrightarrow> bucket_row_ok (bucket_row_of p previous)) \<and>
    publication_ok p \<and> pb_nonce_expires p = pb_now p + PUBLISH_NONCE_RETENTION_SECONDS \<and> pb_cutoff p \<le> pb_now p \<and>
    (case pb_expected p of None \<Rightarrow> True | Some g \<Rightarrow> is_hex64 g) \<and>
    (\<forall>tc w. directory_ok w \<and> observed_by p w \<and> fresh_publication p w \<and> publishable p w \<longrightarrow>
       (\<exists>accepted changed. fst (persistRendezvousPublication tc p w) = Inr (accepted, changed)))"
proof -
  obtain v where "validatePublicationBody idna v = Some p"
    using assms by (auto simp: validateInternalRendezvousPublication_def split: if_splits option.splits)
  note ok = validated_body_ok[OF this]
  have "\<exists>accepted changed. fst (persistRendezvousPublication tc p w) = Inr (accepted, changed)"
    if "directory_ok w" "observed_by p w" "fresh_publication p w" "publishable p w" for tc w
    using publication_cases[OF that(1) conjunct1[OF ok] that(2,3), of tc] that(4) by (auto simp: Let_def)
  moreover have "bucket_row_ok (bucket_row_of p previous)" if "pred_option activity_row_ok previous" for previous
    using that ok by (intro bucket_row_of_ok) (auto split: option.split)
  ultimately show ?thesis
    using ok activity_row_of_ok[of p] by (simp add: PUBLISH_NONCE_RETENTION_SECONDS_def publication_ok_def)
qed

definition example_text :: "string \<Rightarrow> json" where
  "example_text s = JsText (ascii16 s)"

definition example_body :: json where
  "example_body = ascii_object
     [(''certificate'', example_text ''AAAA''), (''serverId'', example_text (replicate 64 (CHR ''a''))),
      (''directoryProfile'', example_text ''classic-v3''), (''publisherSequence'', example_text ''7''),
      (''publisherNonce'', example_text (replicate 32 (CHR ''1''))), (''publisherNonceExpiresAt'', JsInt 87400),
      (''commitToken'', example_text (replicate 64 (CHR ''9''))), (''expectedGeneration'', JsNull),
      (''generation'', example_text (replicate 64 (CHR ''c''))), (''tokenHash'', example_text (replicate 64 (CHR ''3''))),
      (''now'', JsInt 1000), (''visibilityCutoff'', JsInt 900), (''name'', example_text ''Cafe''),
      (''isPublic'', JsBool True), (''quicHost'', example_text ''''), (''quicPort'', JsInt 1),
      (''quicCertSha256'', example_text (replicate 64 (CHR ''a''))), (''authorizationRequired'', JsBool False),
      (''directoryFingerprint'', example_text (replicate 64 (CHR ''d''))), (''playersCount'', JsInt 3),
      (''version'', example_text ''1.0''), (''textComment'', example_text '''')]"

definition example_members :: "(string \<times> json_atom) list" where
  "example_members =
     [(''certificate'', AtomText ''AAAA''), (''serverId'', AtomText (replicate 64 (CHR ''a''))),
      (''directoryProfile'', AtomText ''classic-v3''), (''publisherSequence'', AtomText ''7''),
      (''publisherNonce'', AtomText (replicate 32 (CHR ''1''))), (''publisherNonceExpiresAt'', AtomInt 87400),
      (''commitToken'', AtomText (replicate 64 (CHR ''9''))), (''expectedGeneration'', AtomNull),
      (''generation'', AtomText (replicate 64 (CHR ''c''))), (''tokenHash'', AtomText (replicate 64 (CHR ''3''))),
      (''now'', AtomInt 1000), (''visibilityCutoff'', AtomInt 900), (''name'', AtomText ''Cafe''),
      (''isPublic'', AtomBool True), (''quicHost'', AtomText ''''), (''quicPort'', AtomInt 1),
      (''quicCertSha256'', AtomText (replicate 64 (CHR ''a''))), (''authorizationRequired'', AtomBool False),
      (''directoryFingerprint'', AtomText (replicate 64 (CHR ''d''))), (''playersCount'', AtomInt 3),
      (''version'', AtomText ''1.0''), (''textComment'', AtomText '''')]"

definition example_request :: http_request where
  "example_request = \<lparr>rq_url = ''https://rendezvous.internal/v5/publish'', rq_method = ''POST'',
     rq_headers = [(''content-type'', ''application/json'')], rq_body = Some (ascii16 (atom_object_text example_members))\<rparr>"

lemma example_field: "field example_body k = map_of
     [(''certificate'', example_text ''AAAA''), (''serverId'', example_text (replicate 64 (CHR ''a''))),
      (''directoryProfile'', example_text ''classic-v3''), (''publisherSequence'', example_text ''7''),
      (''publisherNonce'', example_text (replicate 32 (CHR ''1''))), (''publisherNonceExpiresAt'', JsInt 87400),
      (''commitToken'', example_text (replicate 64 (CHR ''9''))), (''expectedGeneration'', JsNull),
      (''generation'', example_text (replicate 64 (CHR ''c''))), (''tokenHash'', example_text (replicate 64 (CHR ''3''))),
      (''now'', JsInt 1000), (''visibilityCutoff'', JsInt 900), (''name'', example_text ''Cafe''),
      (''isPublic'', JsBool True), (''quicHost'', example_text ''''), (''quicPort'', JsInt 1),
      (''quicCertSha256'', example_text (replicate 64 (CHR ''a''))), (''authorizationRequired'', JsBool False),
      (''directoryFingerprint'', example_text (replicate 64 (CHR ''d''))), (''playersCount'', JsInt 3),
      (''version'', example_text ''1.0''), (''textComment'', example_text '''')] k"
  unfolding example_body_def by (rule field_ascii_object)

lemma example_matches:
  "list_all (\<lambda>c. (of_char c :: nat) < 128) s \<Longrightarrow> text_matches P (Some (example_text s)) = P s"
  by (simp add: text_matches_def matches_def example_text_def to_ascii16)

lemma example_digits: "canonical_sequence ''7''" "digit_value (CHR ''7'') = 7"
    "decimal_value UINT64_MAXIMUM_SEQUENCE = 18446744073709551615"
  by (simp_all add: canonical_sequence_def is_digit_def digit_value_def UINT64_MAXIMUM_SEQUENCE_def)

lemmas example_rules = isDirectoryText_def isProfileDirectoryText_def utf8_def utf8_of_def utf8_scalar_def
  ascii16_def high_surrogate_def low_surrogate_def excluded_unit_def game_scalar_ok_def

lemma example_name: "isDirectoryText (example_text ''Cafe'') 80 False"
  by (simp add: example_rules example_text_def)

lemma example_version: "isDirectoryText (example_text ''1.0'') 32 False" "isDirectoryText (example_text '''') 256 True"
  by (simp_all add: example_rules example_text_def)

lemma example_base64: "atob ''AAAA'' = Some [CHR 0x00, CHR 0x00, CHR 0x00]" "btoa [CHR 0x00, CHR 0x00, CHR 0x00] = ''AAAA''"
  by (simp_all add: atob_def strip_padding_def base64_space_def base64_value_def base64_digit_def base64_alphabet_def
      byte_def char_of_def)

lemma example_certificate: "isPublicationCertificate (Some (example_text ''AAAA''))"
  by (simp add: isPublicationCertificate_def example_matches example_base64 base64_digit_def base64_alphabet_def)

lemma example_keys: "exact_keys example_body INTERNAL_CLASSIC_PUBLICATION_KEYS"
  unfolding example_body_def INTERNAL_CLASSIC_PUBLICATION_KEYS_def INTERNAL_PUBLICATION_BASE_KEYS_def
  by (rule keys_ascii_object) simp_all

lemma list_all_replicate: "list_all P (replicate n x) \<longleftrightarrow> n = 0 \<or> P x"
  by (auto simp: list_all_iff)

lemma example_ascii: "list_all (\<lambda>c. (of_char c :: nat) < 128) s \<Longrightarrow> the_ascii (Some (example_text s)) = s"
  by (simp add: the_ascii_def example_text_def to_ascii16)

lemmas example_fields = bounded_integer_def the_int_def is_boolean_def isPort_def directory_text_def is_safe_integer_def
  max_safe_integer_def

lemma example_replay: "isPublisherReplayMetadata example_body"
  by (simp add: isPublisherReplayMetadata_def example_field PUBLISH_NONCE_RETENTION_SECONDS_def example_matches
      example_ascii example_digits list_all_replicate example_fields is_hex_digit_def Let_def)

lemma example_object: "is_json_object example_body"
  by (simp add: example_body_def ascii_object_def)

lemma example_base: "base_fields_ok (\<lambda>_. None) example_body"
  using example_name example_certificate example_replay
  by (simp add: base_fields_ok_def example_field example_matches list_all_replicate example_fields is_hex_digit_def
      text_is_def text_equals_def isCanonicalPublicationEndpoint_def example_object)
    (simp add: example_text_def ascii16_def)

lemma example_body_valid:
  "validatePublicationBody (\<lambda>_. None) example_body = Some (common_publication example_body (ClassicBody 3 ''1.0'' []))"
proof -
  have "classic_fields_ok example_body"
    using example_keys example_version by (simp add: classic_fields_ok_def example_field example_fields)
  moreover have "text_is ''classic-v3'' (field example_body ''directoryProfile'')"
    by (simp add: example_field text_is_def example_text_def)
  moreover have "common_publication example_body (ClassicBody (the_int (field example_body ''playersCount''))
      (the_utf8 (field example_body ''version'')) (the_utf8 (field example_body ''textComment''))) =
      common_publication example_body (ClassicBody 3 ''1.0'' [])"
    by (simp add: example_field the_int_def the_utf8_def example_text_def example_rules byte_def char_of_def bit_Suc_0_iff)
  ultimately show ?thesis using example_base by (simp add: validatePublicationBody_def)
qed

lemma example_members_ok: "members_ok example_members"
  unfolding members_ok_def example_members_def
  by (intro conjI) (simp_all add: list_all_replicate, simp_all add: plain_char_def)

lemma example_parsed: "JSON_parse (ascii16 (atom_object_text example_members)) = Some example_body"
proof -
  have "ascii_object (map (\<lambda>(k, a). (k, atom_json a)) example_members) = example_body"
    by (simp add: example_members_def example_body_def example_text_def)
  then show ?thesis using atom_object_parse[OF example_members_ok] by simp
qed

lemma example_short: "length (atom_object_text example_members) \<le> 8192"
  using atom_object_length[OF example_members_ok] by (rule order_trans) (simp add: example_members_def)

lemma example_accepted:
  "validateInternalRendezvousPublication (\<lambda>_. None) example_request =
   Some (common_publication example_body (ClassicBody 3 ''1.0'' []))"
proof -
  have "length (ascii16 (atom_object_text example_members)) \<le> 8192" "length (utf8 (ascii16 (atom_object_text example_members))) \<le> 8192"
    using example_short utf8_ascii[OF atom_object_ascii[OF example_members_ok]] by (simp_all add: ascii16_def)
  then show ?thesis
    by (simp add: validateInternalRendezvousPublication_def example_request_def header_def has_header_def LEGACY_HEADERS_def
        role_header_def protocol_header_def authorization_header_def generation_header_def MAX_INTERNAL_PUBLICATION_BYTES_def
        example_parsed example_body_valid)
qed

text \<open>On a directory without servers the example is committed.\<close>

definition empty_directory :: directory where
  "empty_directory =
     \<lparr>dr_base = \<lparr>db_replay = [], db_nonces = [], db_nonce_max = 131072, db_routes = [], db_receipts = [],
        db_grants = [], db_budgets = [], db_presence = [], db_denials = []\<rparr>,
      dr_revisions = [\<lparr>rv_profile = ClassicV3, rv_revision = 4, rv_updated = 900\<rparr>],
      dr_outbox = [\<lparr>ob_profile = ClassicV3, ob_revision = 4, ob_created = 900\<rparr>],
      dr_entries = [], dr_activity = [], dr_buckets = []\<rparr>"

lemma empty_directory_ok: "directory_ok empty_directory"
  by (simp add: directory_ok_def nonces_ok_def revisions_ok_def listing_ok_def activity_ok_def
      empty_directory_def revision_of_def max_safe_integer_def live_routes_def PUBLISHER_NONCE_CAPACITY_def)

theorem validated_publication_fits_witness:
  "publication_ok (common_publication example_body (ClassicBody 3 ''1.0'' [])) \<and>
   (\<exists>accepted changed. fst (persistRendezvousPublication True
      (common_publication example_body (ClassicBody 3 ''1.0'' [])) empty_directory) = Inr (accepted, changed))"
proof -
  let ?p = "common_publication example_body (ClassicBody 3 ''1.0'' [])"
  note fits = validated_publication_fits[OF example_accepted]
  have profile: "pb_profile ?p = ClassicV3" by (simp add: common_publication_def pb_profile_def)
  have "en_profile (entry_row_of ?p) = ClassicV3"
    by (simp add: entry_row_of_def profile split: publication_body.split)
  moreover have "observed_by ?p empty_directory" "fresh_publication ?p empty_directory"
    by (simp_all add: observed_by_def activity_of_def fresh_publication_def empty_directory_def)
  ultimately have "publishable ?p empty_directory" "observed_by ?p empty_directory"
      "fresh_publication ?p empty_directory"
    by (simp_all add: publishable_def profile revision_of_def empty_directory_def max_safe_integer_def
        presence_capacity_ok_def json_budget_ok_def presence_row_of_def)
  then show ?thesis using fits empty_directory_ok by blast
qed

end
