(* ===== verification/IpAddress.thy ===== *)
theory IpAddress
  imports PublicationContract
begin

text \<open>
  \<open>normalizeIpAddress\<close> of \<open>src/src/protocol.ts\<close>, against the addresses that the texts
  denote. The function of the source trims and lower-cases the text first; every white-space
  character it trims is listed below, and no other character beyond ASCII is part of an accepted
  address (none lower-cases to a digit, a letter from a to f, a dot, a colon or a bracket).
\<close>

subsection \<open>The source\<close>

definition js_space :: "16 word \<Rightarrow> bool" where
  "js_space u \<longleftrightarrow>
     (let n = unat u in
      9 \<le> n \<and> n \<le> 13 \<or> n \<in> {0x20, 0xA0, 0x1680, 0x2028, 0x2029, 0x202F, 0x205F, 0x3000, 0xFEFF} \<or>
      0x2000 \<le> n \<and> n \<le> 0x200A)"

definition trim16 :: "text16 \<Rightarrow> text16" where
  "trim16 v = rev (dropWhile js_space (rev (dropWhile js_space v)))"

definition to_lower :: "char \<Rightarrow> char" where
  "to_lower c = (let n = of_char c in if 65 \<le> n \<and> n \<le> (90 :: nat) then char_of (n + 32) else c)"

text \<open>\<open>toString\<close> with base 16.\<close>

fun to_hex :: "nat \<Rightarrow> string" where
  "to_hex n = (if n < 16 then [hex_char n] else to_hex (n div 16) @ [hex_char (n mod 16)])"

declare to_hex.simps [simp del]

definition octet_text :: "string \<Rightarrow> bool" where
  "octet_text s \<longleftrightarrow> 1 \<le> length s \<and> length s \<le> 3 \<and> list_all is_digit s"

fun join :: "char \<Rightarrow> string list \<Rightarrow> string" where
  "join c [] = []"
| "join c [x] = x"
| "join c (x # y # xs) = x @ c # join c (y # xs)"

definition normalizeIpv4 :: "string \<Rightarrow> string option" where
  "normalizeIpv4 s =
     (let octets = split_on (CHR ''.'') s in
      if length octets \<noteq> 4 \<or> list_ex (\<lambda>octet. \<not> octet_text octet \<or> decimal_value octet > 255) octets
      then None
      else Some (join (CHR ''.'') (map (\<lambda>octet. to_decimal (decimal_value octet)) octets)))"

definition word_text :: "string \<Rightarrow> bool" where
  "word_text s \<longleftrightarrow> 1 \<le> length s \<and> length s \<le> 4 \<and> list_all is_hex_digit s"

definition strip_zeros :: "string \<Rightarrow> string" where
  "strip_zeros s = (let t = dropWhile (\<lambda>c. c = CHR ''0'') s in if t = [] then ''0'' else t)"

text \<open>The two words of a dotted tail: \<open>((a << 8) | b).toString(16)\<close> on octets.\<close>

definition dotted_words :: "string \<Rightarrow> string list" where
  "dotted_words ipv4 =
     (let o4 = map decimal_value (split_on (CHR ''.'') ipv4) in
      [to_hex (o4 ! 0 * 256 + o4 ! 1), to_hex (o4 ! 2 * 256 + o4 ! 3)])"

fun collect_words :: "bool \<Rightarrow> string list \<Rightarrow> string list option" where
  "collect_words allowFinalIpv4 [] = Some []"
| "collect_words allowFinalIpv4 (word # rest) =
     (if CHR ''.'' \<in> set word then
        if \<not> allowFinalIpv4 \<or> rest \<noteq> [] then None
        else map_option dotted_words (normalizeIpv4 word)
      else if \<not> word_text word then None
      else map_option ((#) (strip_zeros word)) (collect_words allowFinalIpv4 rest))"

definition parseIpv6Words :: "string \<Rightarrow> bool \<Rightarrow> string list option" where
  "parseIpv6Words part allowFinalIpv4 =
     (if part = '''' then Some [] else collect_words allowFinalIpv4 (split_on (CHR '':'') part))"

text \<open>\<open>split("::")\<close>.\<close>

fun split_double :: "string \<Rightarrow> string list" where
  "split_double [] = [[]]"
| "split_double [a] = [[a]]"
| "split_double (a # b # s) =
     (if a = CHR '':'' \<and> b = CHR '':'' then [] # split_double s
      else case split_double (b # s) of [] \<Rightarrow> [[a]] | h # t \<Rightarrow> (a # h) # t)"

definition pad_start :: "nat \<Rightarrow> string \<Rightarrow> string" where
  "pad_start n s = replicate (n - length s) (CHR ''0'') @ s"

definition normalizeIpv6 :: "string \<Rightarrow> string option" where
  "normalizeIpv6 address =
     (let halves = split_double address in
      if length halves > 2 then None
      else case parseIpv6Words (halves ! 0) (length halves = 1) of
        None \<Rightarrow> None
      | Some left \<Rightarrow>
          (case if length halves = 2 then parseIpv6Words (halves ! 1) True else Some [] of
             None \<Rightarrow> None
           | Some right \<Rightarrow>
               let missing = 8 - int (length left) - int (length right) in
               if length halves = 1 \<and> missing \<noteq> 0 \<or> length halves = 2 \<and> missing < 1 then None
               else Some (join (CHR '':'')
                 (map (pad_start 4) (left @ replicate (nat missing) ''0'' @ right)))))"

definition strip_brackets :: "string \<Rightarrow> string option" where
  "strip_brackets address =
     (let open_bracket = (address \<noteq> [] \<and> hd address = CHR ''[''); closed = (address \<noteq> [] \<and> last address = CHR '']'') in
      if open_bracket \<or> closed then
        if \<not> open_bracket \<or> \<not> closed then None
        else let inner = butlast (tl address) in
          if CHR '':'' \<notin> set inner \<or> CHR ''['' \<in> set inner \<or> CHR '']'' \<in> set inner then None else Some inner
      else if CHR ''['' \<in> set address \<or> CHR '']'' \<in> set address then None
      else Some address)"

definition normalizePlainAddress :: "string \<Rightarrow> string option" where
  "normalizePlainAddress address =
     (if CHR ''%'' \<in> set address then None
      else if CHR '':'' \<notin> set address then normalizeIpv4 address
      else normalizeIpv6 address)"

definition normalizeIpAddress :: "text16 \<Rightarrow> string option" where
  "normalizeIpAddress v =
     Option.bind (Option.bind (map_option (map to_lower) (to_ascii (trim16 v))) strip_brackets) normalizePlainAddress"

subsection \<open>What a text denotes\<close>

text \<open>
  The reference: an address is four octets or eight words; a text denotes it in dotted form, in
  full, or with \<open>::\<close> for one or more zero words, the last two words possibly in dotted form.
\<close>

datatype ip_address = V4 "nat list" | V6 "nat list"

fun ip_ok :: "ip_address \<Rightarrow> bool" where
  "ip_ok (V4 os) \<longleftrightarrow> length os = 4 \<and> list_all (\<lambda>n. n < 256) os"
| "ip_ok (V6 ws) \<longleftrightarrow> length ws = 8 \<and> list_all (\<lambda>n. n < 65536) ws"

definition hex_word :: "nat \<Rightarrow> string" where
  "hex_word n = map hex_char [n div 4096, n div 256 mod 16, n div 16 mod 16, n mod 16]"

fun ip_text :: "ip_address \<Rightarrow> string" where
  "ip_text (V4 os) = join (CHR ''.'') (map to_decimal os)"
| "ip_text (V6 ws) = join (CHR '':'') (map hex_word ws)"

definition hex_digit_value :: "char \<Rightarrow> nat" where
  "hex_digit_value c = (if is_digit c then of_char c - 48 else of_char c - 87)"

definition hex_value :: "string \<Rightarrow> nat" where
  "hex_value s = foldl (\<lambda>n c. n * 16 + hex_digit_value c) 0 s"

definition octets_ok :: "string list \<Rightarrow> bool" where
  "octets_ok os \<longleftrightarrow> length os = 4 \<and> list_all (\<lambda>s. octet_text s \<and> decimal_value s \<le> 255) os"

definition octet_words :: "nat list \<Rightarrow> nat list" where
  "octet_words os = [os ! 0 * 256 + os ! 1, os ! 2 * 256 + os ! 3]"

inductive groups :: "bool \<Rightarrow> string list \<Rightarrow> nat list \<Rightarrow> bool" where
  groups_Nil: "groups final [] []"
| groups_word: "word_text w \<Longrightarrow> groups final gs ws \<Longrightarrow> groups final (w # gs) (hex_value w # ws)"
| groups_dotted: "octets_ok os \<Longrightarrow> groups True [join (CHR ''.'') os] (octet_words (map decimal_value os))"

inductive denotes :: "string \<Rightarrow> ip_address \<Rightarrow> bool" where
  denotes_dotted: "octets_ok os \<Longrightarrow> denotes (join (CHR ''.'') os) (V4 (map decimal_value os))"
| denotes_full: "groups True gs ws \<Longrightarrow> length ws = 8 \<Longrightarrow> denotes (join (CHR '':'') gs) (V6 ws)"
| denotes_gap:
    "groups False gs us \<Longrightarrow> groups True hs ws \<Longrightarrow> length us + length ws < 8 \<Longrightarrow>
     denotes (join (CHR '':'') gs @ ''::'' @ join (CHR '':'') hs)
       (V6 (us @ replicate (8 - length us - length ws) 0 @ ws))"

subsection \<open>Splitting and joining\<close>

lemma join_split: "join c (split_on c s) = s"
proof (induction s)
  case (Cons x s)
  obtain l ls where ls: "split_on c s = l # ls" using split_on_nonempty[of c s] by (cases "split_on c s") auto
  then show ?case using Cons by (cases ls) auto
qed simp

lemma split_append: "c \<notin> set x \<Longrightarrow> split_on c (x @ c # s) = x # split_on c s" "c \<notin> set x \<Longrightarrow> split_on c x = [x]"
  by (induction x) auto

lemma split_join: "xs \<noteq> [] \<Longrightarrow> list_all (\<lambda>x. c \<notin> set x) xs \<Longrightarrow> split_on c (join c xs) = xs"
  by (induction c xs rule: join.induct) (auto simp: split_append)

lemma split_parts: "list_all (\<lambda>x. c \<notin> set x) (split_on c s)"
  using split_on_sets(2)[of _ c s] by (auto simp: list_all_iff)

lemma join_set: "set (join c xs) \<subseteq> insert c (\<Union>x \<in> set xs. set x)"
  by (induction c xs rule: join.induct) auto

lemma join_nonempty: "xs \<noteq> [] \<Longrightarrow> [] \<notin> set xs \<Longrightarrow> join c xs \<noteq> []"
  by (induction c xs rule: join.induct) auto

lemma octet_chars: "octet_text s \<Longrightarrow> CHR ''.'' \<notin> set s \<and> CHR '':'' \<notin> set s \<and> CHR ''%'' \<notin> set s"
proof -
  assume "octet_text s"
  then have "\<And>c. c \<in> set s \<Longrightarrow> is_digit c" by (auto simp: octet_text_def list_all_iff)
  moreover have "\<not> is_digit (CHR ''.'')" "\<not> is_digit (CHR '':'')" "\<not> is_digit (CHR ''%'')" by (simp_all add: is_digit_def)
  ultimately show ?thesis by blast
qed

lemma octets_split: "octets_ok os \<Longrightarrow> split_on (CHR ''.'') (join (CHR ''.'') os) = os"
  by (rule split_join) (auto simp: octets_ok_def list_all_iff octet_chars)

lemma normalizeIpv4_iff:
  "normalizeIpv4 s = Some a \<longleftrightarrow>
   (\<exists>os. octets_ok os \<and> s = join (CHR ''.'') os \<and> a = ip_text (V4 (map decimal_value os)))" (is "?l \<longleftrightarrow> ?r")
proof
  assume l: ?l
  have "octets_ok (split_on (CHR ''.'') s)"
    using l by (auto simp: normalizeIpv4_def octets_ok_def Let_def list_all_iff list_ex_iff not_less split: if_splits)
  moreover have "a = ip_text (V4 (map decimal_value (split_on (CHR ''.'') s)))"
    using l by (auto simp: normalizeIpv4_def Let_def o_def split: if_splits)
  ultimately show ?r using join_split[of "CHR ''.''" s] by metis
next
  assume ?r
  then obtain os where os: "octets_ok os" "s = join (CHR ''.'') os" "a = ip_text (V4 (map decimal_value os))" by blast
  have "\<not> list_ex (\<lambda>octet. \<not> octet_text octet \<or> decimal_value octet > 255) os"
    using os(1) by (auto simp: octets_ok_def list_all_iff list_ex_iff)
  then show ?l using os(1,3) octets_split[OF os(1)] by (simp add: normalizeIpv4_def os(2) octets_ok_def o_def)
qed

subsection \<open>Hexadecimal texts\<close>

lemma hex_value_snoc: "hex_value (s @ [c]) = hex_value s * 16 + hex_digit_value c" "hex_value [] = 0"
  by (simp_all add: hex_value_def)

lemma hex_digit_cases: "is_hex_digit c \<Longrightarrow> \<exists>d < 16. c = hex_char d"
proof -
  assume "is_hex_digit c"
  then obtain i where "i < length ''0123456789abcdef''" "''0123456789abcdef'' ! i = c"
    unfolding is_hex_digit_def in_set_conv_nth by blast
  then show ?thesis by (intro exI[of _ i]) (simp add: hex_char_def)
qed

lemma hex_char_facts: "d < 16 \<Longrightarrow> hex_digit_value (hex_char d) = d \<and> is_hex_digit (hex_char d) \<and> (hex_char d = CHR ''0'' \<longleftrightarrow> d = 0)"
  by (auto simp: less_Suc_eq numeral_eq_Suc hex_digit_value_def hex_char_def is_digit_def is_hex_digit_def)

lemma hex_char_value: "is_hex_digit c \<Longrightarrow> hex_char (hex_digit_value c) = c \<and> hex_digit_value c < 16"
  using hex_digit_cases hex_char_facts by metis

lemma hex_value_zero: "list_all is_hex_digit s \<Longrightarrow> hex_value s = 0 \<longleftrightarrow> list_all (\<lambda>c. c = CHR ''0'') s"
proof (induction s rule: rev_induct)
  case (snoc c s)
  have "hex_digit_value c = 0 \<longleftrightarrow> c = CHR ''0''" using snoc.prems hex_digit_cases[of c] hex_char_facts by auto
  then show ?case using snoc by (simp add: hex_value_snoc)
qed (simp add: hex_value_snoc)

lemma hex_value_bound: "list_all is_hex_digit s \<Longrightarrow> hex_value s < 16 ^ length s"
proof (induction s rule: rev_induct)
  case (snoc c s)
  then have "hex_value s < 16 ^ length s" "hex_digit_value c < 16" using hex_char_value by auto
  then show ?case by (simp add: hex_value_snoc)
qed (simp add: hex_value_snoc)

lemma to_hex_step: "d < 16 \<Longrightarrow> to_hex (n * 16 + d) = (if n = 0 then [hex_char d] else to_hex n @ [hex_char d])"
  by (subst to_hex.simps) simp

lemma strip_zeros_hex: "s \<noteq> [] \<Longrightarrow> list_all is_hex_digit s \<Longrightarrow> strip_zeros s = to_hex (hex_value s)"
proof (induction s rule: rev_induct)
  case (snoc c s)
  have c: "hex_digit_value c < 16" "hex_char (hex_digit_value c) = c" using snoc.prems hex_char_value by auto
  have s: "list_all is_hex_digit s" using snoc.prems by simp
  show ?case
  proof (cases "list_all (\<lambda>c. c = CHR ''0'') s")
    case True
    then have "hex_value s = 0" using hex_value_zero[OF s] by simp
    moreover have "dropWhile (\<lambda>c. c = CHR ''0'') (s @ [c]) = (if c = CHR ''0'' then [] else [c])"
      using True by (simp add: dropWhile_append list_all_iff dropWhile_eq_Nil_conv)
    ultimately show ?thesis using c to_hex_step[OF c(1), of 0] by (simp add: strip_zeros_def hex_value_snoc)
  next
    case False
    then have "hex_value s \<noteq> 0" "s \<noteq> []" using hex_value_zero[OF s] by auto
    moreover have "dropWhile (\<lambda>c. c = CHR ''0'') (s @ [c]) = dropWhile (\<lambda>c. c = CHR ''0'') s @ [c]"
      "dropWhile (\<lambda>c. c = CHR ''0'') s \<noteq> []"
      using False by (auto simp: dropWhile_append list_all_iff dropWhile_eq_Nil_conv)
    ultimately show ?thesis using c snoc.IH s to_hex_step[OF c(1), of "hex_value s"]
      by (auto simp: strip_zeros_def hex_value_snoc Let_def dropWhile_eq_Nil_conv split: if_splits)
  qed
qed simp

lemma pad_to_hex: "n < 65536 \<Longrightarrow> pad_start 4 (to_hex n) = hex_word n"
proof -
  assume n: "n < 65536"
  have zero: "hex_char 0 = CHR ''0''" by (simp add: hex_char_def)
  consider "n < 16" | "16 \<le> n" "n < 256" | "256 \<le> n" "n < 4096" | "4096 \<le> n" by linarith
  then show ?thesis
  proof cases
    case 1
    then show ?thesis by (simp add: to_hex.simps[of n] pad_start_def hex_word_def zero numeral_3_eq_3)
  next
    case 2
    then show ?thesis
      by (simp add: to_hex.simps[of n] to_hex.simps[of "n div 16"] pad_start_def hex_word_def zero numeral_2_eq_2 div_less
          less_mult_imp_div_less)
  next
    case 3
    then have "n div 16 < 256" "n div 256 < 16" "16 \<le> n div 16" by (auto simp: less_mult_imp_div_less)
    with 3 show ?thesis
      by (simp add: to_hex.simps[of n] to_hex.simps[of "n div 16"] to_hex.simps[of "n div 256"] pad_start_def hex_word_def zero
          div_mult2_eq[symmetric])
  next
    case 4
    then have "n div 4096 < 16" "16 \<le> n div 256" "16 \<le> n div 16" using n by (auto simp: less_mult_imp_div_less)
    with 4 show ?thesis
      by (simp add: to_hex.simps[of n] to_hex.simps[of "n div 16"] to_hex.simps[of "n div 256"] to_hex.simps[of "n div 4096"]
          pad_start_def hex_word_def div_mult2_eq[symmetric])
  qed
qed

subsection \<open>Words\<close>

lemma word_text_chars:
  assumes "word_text s"
  shows "s \<noteq> []" "CHR ''.'' \<notin> set s" "CHR '':'' \<notin> set s" "CHR ''%'' \<notin> set s" "strip_zeros s = to_hex (hex_value s)"
    "hex_value s < 65536"
proof -
  have s: "list_all is_hex_digit s" "s \<noteq> []" "length s \<le> 4" using assms by (auto simp: word_text_def)
  have "\<not> is_hex_digit (CHR ''.'')" "\<not> is_hex_digit (CHR '':'')" "\<not> is_hex_digit (CHR ''%'')" by (simp_all add: is_hex_digit_def)
  with s show "s \<noteq> []" "CHR ''.'' \<notin> set s" "CHR '':'' \<notin> set s" "CHR ''%'' \<notin> set s"
    "strip_zeros s = to_hex (hex_value s)"
    by (auto simp: list_all_iff strip_zeros_hex)
  have "(16 :: nat) ^ length s \<le> 16 ^ 4" using s(3) by (intro power_increasing) simp_all
  then show "hex_value s < 65536" using hex_value_bound[OF s(1)] by simp
qed

lemma octets_ip: "octets_ok os \<Longrightarrow> ip_ok (V4 (map decimal_value os))"
  by (auto simp: octets_ok_def list_all_iff)

lemma dotted_chars:
  assumes "octets_ok os"
  shows "CHR ''.'' \<in> set (join (CHR ''.'') os)" "CHR '':'' \<notin> set (join (CHR ''.'') os)" "CHR ''%'' \<notin> set (join (CHR ''.'') os)"
proof -
  obtain a b r where "os = a # b # r" using assms by (auto simp: octets_ok_def numeral_eq_Suc length_Suc_conv)
  then show "CHR ''.'' \<in> set (join (CHR ''.'') os)" by simp
  have "\<forall>s \<in> set os. CHR '':'' \<notin> set s \<and> CHR ''%'' \<notin> set s" using assms octet_chars by (auto simp: octets_ok_def list_all_iff)
  then show "CHR '':'' \<notin> set (join (CHR ''.'') os)" "CHR ''%'' \<notin> set (join (CHR ''.'') os)"
    using join_set[of "CHR ''.''" os] by auto
qed

lemma canonical_octet: "n < 256 \<Longrightarrow> octet_text (to_decimal n)"
proof -
  assume "n < 256"
  then have "length (to_decimal n) \<le> 3" by (intro to_decimal_short) simp_all
  moreover have "to_decimal n \<noteq> []" by (subst to_decimal.simps) simp
  ultimately show ?thesis by (simp add: octet_text_def to_decimal_digits Suc_le_eq)
qed

lemma canonical_octets: "ip_ok (V4 os) \<Longrightarrow> octets_ok (map to_decimal os)"
  by (auto simp: octets_ok_def list_all_iff canonical_octet)

lemma dotted_words_octets:
  assumes "octets_ok os"
  shows "dotted_words (ip_text (V4 (map decimal_value os))) = map to_hex (octet_words (map decimal_value os))"
proof -
  have "split_on (CHR ''.'') (ip_text (V4 (map decimal_value os))) = map to_decimal (map decimal_value os)"
    using octets_split[OF canonical_octets[OF octets_ip[OF assms]]] by simp
  then show ?thesis by (simp add: dotted_words_def octet_words_def o_def Let_def)
qed

text \<open>The words that the source collects are those of the groups, in lower case without leading zeros.\<close>

lemma collect_words_iff: "collect_words final gs = Some ts \<longleftrightarrow> (\<exists>ws. groups final gs ws \<and> ts = map to_hex ws)"
proof (induction gs arbitrary: ts)
  case Nil
  then show ?case by (auto intro: groups_Nil elim: groups.cases)
next
  case (Cons w gs)
  show ?case
  proof (cases "CHR ''.'' \<in> set w")
    case True
    have "groups final (w # gs) ws \<longleftrightarrow> final \<and> gs = [] \<and> (\<exists>os. octets_ok os \<and> w = join (CHR ''.'') os \<and> ws = octet_words (map decimal_value os))" for ws
      using True word_text_chars(2) by (auto intro: groups_dotted elim: groups.cases)
    then show ?thesis using True by (auto simp: normalizeIpv4_iff dotted_words_octets simp del: ip_text.simps)
  next
    case False
    have "groups final (w # gs) ws \<longleftrightarrow> word_text w \<and> (\<exists>us. groups final gs us \<and> ws = hex_value w # us)" for ws
      using False dotted_chars(1) by (auto intro: groups_word elim: groups.cases)
    then show ?thesis using False by (auto simp: Cons word_text_chars(5))
  qed
qed

lemma groups_parts: "groups final gs ws \<Longrightarrow> [] \<notin> set gs \<and> list_all (\<lambda>g. CHR '':'' \<notin> set g \<and> CHR ''%'' \<notin> set g) gs"
proof (induction rule: groups.induct)
  case (groups_dotted os)
  then have "join (CHR ''.'') os \<noteq> []" using dotted_chars(1) by (metis empty_iff empty_set)
  then show ?case using groups_dotted dotted_chars by simp
qed (auto dest: word_text_chars(1,3,4))

lemma groups_bound: "groups final gs ws \<Longrightarrow> list_all (\<lambda>n. n < 65536) ws \<and> length ws \<le> Suc (length gs)"
proof (induction rule: groups.induct)
  case (groups_dotted os)
  obtain a b c d where os: "map decimal_value os = [a, b, c, d]" "a < 256" "b < 256" "c < 256" "d < 256"
    using octets_ip[OF groups_dotted] by (auto simp: numeral_eq_Suc length_Suc_conv)
  then show ?case by (simp add: octet_words_def)
qed (auto dest: word_text_chars(6))

lemma parseIpv6Words_iff:
  "parseIpv6Words part final = Some ts \<longleftrightarrow>
   (\<exists>gs ws. groups final gs ws \<and> part = join (CHR '':'') gs \<and> ts = map to_hex ws)" (is "?l \<longleftrightarrow> ?r")
proof
  assume l: ?l
  show ?r
  proof (cases "part = ''''")
    case True
    with l show ?thesis by (intro exI[of _ "[]"]) (auto simp: parseIpv6Words_def intro: groups_Nil)
  next
    case False
    with l show ?thesis
      by (auto simp: parseIpv6Words_def collect_words_iff join_split intro!: exI[of _ "split_on (CHR '':'') part"])
  qed
next
  assume ?r
  then obtain gs ws where g: "groups final gs ws" "part = join (CHR '':'') gs" "ts = map to_hex ws" by blast
  show ?l
  proof (cases "gs = []")
    case True
    with g show ?thesis by (auto simp: parseIpv6Words_def elim: groups.cases)
  next
    case False
    have "[] \<notin> set gs" "list_all (\<lambda>g. CHR '':'' \<notin> set g) gs" using groups_parts[OF g(1)] by (auto simp: list_all_iff)
    then have "split_on (CHR '':'') part = gs" "part \<noteq> []" using split_join[OF False] join_nonempty[OF False] g(2) by auto
    then show ?thesis using g by (auto simp: parseIpv6Words_def collect_words_iff)
  qed
qed

subsection \<open>The two halves\<close>

lemma split_double_nonempty: "split_double s \<noteq> []"
  by (induction s rule: split_double.induct) (auto split: list.split)

lemma split_double_Cons:
  "\<not> (a = CHR '':'' \<and> s \<noteq> [] \<and> hd s = CHR '':'') \<Longrightarrow> split_double (a # s) = (a # hd (split_double s)) # tl (split_double s)"
  using split_double_nonempty[of s] by (cases s) (auto split: list.split)

lemma split_double_rest:
  "split_double s = p # r \<Longrightarrow> if r = [] then s = p else \<exists>t. s = p @ ''::'' @ t \<and> split_double t = r"
proof (induction s arbitrary: p r rule: split_double.induct)
  case (3 a b s)
  show ?case
  proof (cases "a = CHR '':'' \<and> b = CHR '':''")
    case True
    with 3 show ?thesis using split_double_nonempty[of s] by auto
  next
    case False
    obtain h t where ht: "split_double (b # s) = h # t" using split_double_nonempty[of "b # s"] by (cases "split_double (b # s)") auto
    have "if t = [] then b # s = h else \<exists>u. b # s = h @ ''::'' @ u \<and> split_double u = t"
      using 3(2)[OF _ ht] False by blast
    moreover have "p = a # h" "r = t" using 3(3) False ht by auto
    ultimately show ?thesis by (auto split: if_splits)
  qed
qed auto

lemma split_double_plain:
  "\<not> has_part ''::'' p \<Longrightarrow> split_double p = [p]"
proof (induction p)
  case (Cons a p)
  then have "\<not> (a = CHR '':'' \<and> p \<noteq> [] \<and> hd p = CHR '':'')" "\<not> has_part ''::'' p" by (auto simp: has_pair_Cons)
  then show ?case using Cons.IH split_double_Cons by simp
qed simp

lemma split_double_gap:
  "\<not> has_part ''::'' p \<Longrightarrow> p = [] \<or> last p \<noteq> CHR '':'' \<Longrightarrow> split_double (p @ ''::'' @ q) = p # split_double q"
proof (induction p)
  case (Cons a p)
  then have "\<not> (a = CHR '':'' \<and> p \<noteq> [] \<and> hd p = CHR '':'')" "\<not> has_part ''::'' p" by (auto simp: has_pair_Cons)
  moreover have "p = [] \<Longrightarrow> a \<noteq> CHR '':''" "p \<noteq> [] \<Longrightarrow> last p \<noteq> CHR '':''" using Cons.prems(2) by (auto split: if_splits)
  ultimately have "split_double (p @ ''::'' @ q) = p # split_double q"
    "\<not> (a = CHR '':'' \<and> p @ ''::'' @ q \<noteq> [] \<and> hd (p @ ''::'' @ q) = CHR '':'')"
    using Cons.IH by (auto simp: hd_append)
  then show ?case using split_double_Cons[of a "p @ ''::'' @ q"] by simp
qed simp

lemma groups_join:
  assumes "groups final gs ws"
  shows "\<not> has_part ''::'' (join (CHR '':'') gs)" "join (CHR '':'') gs = [] \<or> last (join (CHR '':'') gs) \<noteq> CHR '':''"
proof -
  have "\<not> has_part ''::'' (join (CHR '':'') gs) \<and> (join (CHR '':'') gs = [] \<or> last (join (CHR '':'') gs) \<noteq> CHR '':'')"
  proof (cases "gs = []")
    case False
    have "split_on (CHR '':'') (join (CHR '':'') gs) = gs"
      using groups_parts[OF assms] by (intro split_join[OF False]) (auto simp: list_all_iff)
    moreover have "[] \<notin> set (tl gs)" using groups_parts[OF assms] False by (cases gs) auto
    ultimately show ?thesis using split_on_empty[of "CHR '':''" "join (CHR '':'') gs"] by auto
  qed simp
  then show "\<not> has_part ''::'' (join (CHR '':'') gs)" "join (CHR '':'') gs = [] \<or> last (join (CHR '':'') gs) \<noteq> CHR '':''" by blast+
qed

lemma padded_words: "list_all (\<lambda>n. n < 65536) ws \<Longrightarrow> map (pad_start 4) (map to_hex ws) = map hex_word ws"
  by (auto simp: list_all_iff pad_to_hex)

lemma padded_zeros: "map (pad_start 4) (replicate n ''0'') = map hex_word (replicate n 0)"
proof -
  have "to_hex 0 = ''0''" by (simp add: to_hex.simps hex_char_def)
  then show ?thesis using pad_to_hex[of 0] by simp
qed

lemma normalizeIpv6_iff: "normalizeIpv6 s = Some a \<longleftrightarrow> (\<exists>ws. denotes s (V6 ws) \<and> a = ip_text (V6 ws))" (is "?l \<longleftrightarrow> ?r")
proof
  assume l: ?l
  obtain p r where split: "split_double s = p # r" using split_double_nonempty[of s] by (cases "split_double s") auto
  consider "r = []" | q where "r = [q]" using l split by (cases r rule: remdups_adj.cases) (auto simp: normalizeIpv6_def)
  then show ?r
  proof cases
    case 1
    then have s: "s = p" using split_double_rest[OF split] by simp
    from l split 1 obtain ts where ts: "parseIpv6Words p True = Some ts" "length ts = 8" "a = join (CHR '':'') (map (pad_start 4) ts)"
      by (auto simp: normalizeIpv6_def Let_def split: option.splits if_splits)
    then obtain gs ws where g: "groups True gs ws" "p = join (CHR '':'') gs" "ts = map to_hex ws" by (auto simp: parseIpv6Words_iff)
    then have "denotes s (V6 ws)" using ts(2) s by (auto intro: denotes_full)
    moreover have "a = ip_text (V6 ws)"
      using groups_bound[OF g(1)] by (simp only: g(3) ts(3) padded_words ip_text.simps)
    ultimately show ?thesis by blast
  next
    case 2
    then obtain t where "s = p @ ''::'' @ t" "split_double t = [q]" using split_double_rest[OF split] by auto
    then have s: "s = p @ ''::'' @ q" using split_double_rest[of t q "[]"] by simp
    from l split 2 obtain us vs where parts: "parseIpv6Words p False = Some us" "parseIpv6Words q True = Some vs"
        "length us + length vs < 8"
        "a = join (CHR '':'') (map (pad_start 4) (us @ replicate (nat (8 - int (length us) - int (length vs))) ''0'' @ vs))"
      by (auto simp: normalizeIpv6_def Let_def split: option.splits if_splits)
    then obtain gs uns hs vns where g: "groups False gs uns" "p = join (CHR '':'') gs" "us = map to_hex uns"
        "groups True hs vns" "q = join (CHR '':'') hs" "vs = map to_hex vns"
      by (auto simp: parseIpv6Words_iff)
    let ?ws = "uns @ replicate (8 - length uns - length vns) 0 @ vns"
    have "denotes s (V6 ?ws)" unfolding s g(2,5) using parts(3) g(1,3,4,6) by (intro denotes_gap) simp_all
    moreover have "nat (8 - int (length us) - int (length vs)) = 8 - length uns - length vns" using g(3,6) by simp
    then have "a = ip_text (V6 ?ws)"
      using parts(4) groups_bound[OF g(1)] groups_bound[OF g(4)] by (simp only: map_append g(3,6) padded_words padded_zeros ip_text.simps)
    ultimately show ?thesis by blast
  qed
next
  assume ?r
  then obtain ws where d: "denotes s (V6 ws)" "a = ip_text (V6 ws)" by blast
  from d(1) show ?l
  proof (cases rule: denotes.cases)
    case (denotes_full gs)
    have "parseIpv6Words s True = Some (map to_hex ws)" using denotes_full by (auto simp: parseIpv6Words_iff)
    moreover have "split_double s = [s]" using groups_join(1)[OF denotes_full(2)] split_double_plain denotes_full(1) by simp
    ultimately show ?thesis using denotes_full(3) groups_bound[OF denotes_full(2)] d(2)
      by (simp add: normalizeIpv6_def Let_def padded_words del: map_map)
  next
    case (denotes_gap gs us hs vs)
    have "parseIpv6Words (join (CHR '':'') gs) False = Some (map to_hex us)" "parseIpv6Words (join (CHR '':'') hs) True = Some (map to_hex vs)"
      using denotes_gap by (auto simp: parseIpv6Words_iff)
    moreover have "split_double s = [join (CHR '':'') gs, join (CHR '':'') hs]"
      unfolding denotes_gap(1) split_double_gap[OF groups_join[OF denotes_gap(3)]]
        split_double_plain[OF groups_join(1)[OF denotes_gap(4)]] by (rule refl)
    moreover have "nat (8 - int (length us) - int (length vs)) = 8 - length us - length vs" "int (length us) + int (length vs) < 8"
      using denotes_gap(5) by linarith+
    ultimately show ?thesis
      using groups_bound[OF denotes_gap(3)] groups_bound[OF denotes_gap(4)] d(2) denotes_gap(2)
      by (simp add: normalizeIpv6_def Let_def padded_words padded_zeros del: map_map map_replicate)
  qed
qed

lemma denotes_colon: "denotes s (V6 ws) \<Longrightarrow> CHR '':'' \<in> set s \<and> CHR ''%'' \<notin> set s"
proof (cases rule: denotes.cases, assumption)
  fix gs us assume s: "s = join (CHR '':'') gs" "V6 ws = V6 us" "groups True gs us" "length us = 8"
  then have "7 \<le> length gs" using groups_bound[OF s(3)] by simp
  then obtain g h r where "gs = g # h # r" by (cases gs rule: remdups_adj.cases) auto
  then show ?thesis using s(1) groups_parts[OF s(3)] join_set[of "CHR '':''" gs] by (auto simp: list_all_iff)
next
  fix gs us hs vs
  assume s: "s = join (CHR '':'') gs @ ''::'' @ join (CHR '':'') hs" "groups False gs us" "groups True hs vs"
  then show ?thesis
    using groups_parts[OF s(2)] groups_parts[OF s(3)] join_set[of "CHR '':''" gs] join_set[of "CHR '':''" hs]
    by (auto simp: list_all_iff)
qed auto

lemma denotes_dotted_iff: "denotes s (V4 ns) \<longleftrightarrow> (\<exists>os. octets_ok os \<and> s = join (CHR ''.'') os \<and> ns = map decimal_value os)"
  by (auto intro: denotes_dotted elim: denotes.cases)

lemma normalizePlainAddress_iff: "normalizePlainAddress s = Some a \<longleftrightarrow> (\<exists>ip. denotes s ip \<and> a = ip_text ip)" (is "?l \<longleftrightarrow> ?r")
proof
  assume l: ?l
  then show ?r
  proof (cases "CHR '':'' \<in> set s")
    case True
    with l have "normalizeIpv6 s = Some a" by (simp add: normalizePlainAddress_def split: if_splits)
    then show ?thesis unfolding normalizeIpv6_iff by blast
  next
    case False
    with l have "normalizeIpv4 s = Some a" by (simp add: normalizePlainAddress_def split: if_splits)
    then show ?thesis unfolding normalizeIpv4_iff using denotes_dotted by blast
  qed
next
  assume ?r
  then obtain ip where d: "denotes s ip" "a = ip_text ip" by blast
  show ?l
  proof (cases ip)
    case (V4 ns)
    with d obtain os where "octets_ok os" "s = join (CHR ''.'') os" "ns = map decimal_value os" by (auto simp: denotes_dotted_iff)
    then show ?thesis using d V4 dotted_chars[of os] normalizeIpv4_iff[of s a] by (auto simp: normalizePlainAddress_def)
  next
    case (V6 ws)
    then show ?thesis using d denotes_colon[of s ws] normalizeIpv6_iff[of s a] by (auto simp: normalizePlainAddress_def)
  qed
qed

subsection \<open>Canonical texts\<close>

lemma denotes_ok: "denotes s ip \<Longrightarrow> ip_ok ip"
proof (induction rule: denotes.induct)
  case (denotes_dotted os)
  then show ?case by (rule octets_ip)
next
  case (denotes_gap gs us hs ws)
  then show ?case using groups_bound[of False gs us] groups_bound[of True hs ws] by (auto simp: list_all_iff)
qed (auto dest: groups_bound)

lemma hex_word_text: "n < 65536 \<Longrightarrow> word_text (hex_word n) \<and> hex_value (hex_word n) = n"
proof -
  assume n: "n < 65536"
  have d: "n div 4096 < 16" "n div 256 mod 16 < 16" "n div 16 mod 16 < 16" "n mod 16 < 16"
    using n by (simp_all add: less_mult_imp_div_less)
  have "hex_value (hex_word n) = ((n div 4096 * 16 + n div 256 mod 16) * 16 + n div 16 mod 16) * 16 + n mod 16"
    using d by (simp add: hex_value_def hex_word_def hex_char_facts)
  also have "n div 4096 * 16 + n div 256 mod 16 = n div 256"
    using div_mult_mod_eq[of "n div 256" 16] by (simp add: div_mult2_eq[symmetric])
  also have "n div 256 * 16 + n div 16 mod 16 = n div 16"
    using div_mult_mod_eq[of "n div 16" 16] by (simp add: div_mult2_eq[symmetric])
  also have "n div 16 * 16 + n mod 16 = n" by (rule div_mult_mod_eq)
  finally show ?thesis using d by (simp add: word_text_def hex_word_def hex_char_facts)
qed

lemma groups_canonical: "list_all (\<lambda>n. n < 65536) ws \<Longrightarrow> groups final (map hex_word ws) ws"
proof (induction ws)
  case (Cons n ws)
  then have "groups final (hex_word n # map hex_word ws) (hex_value (hex_word n) # ws)"
    using hex_word_text[of n] by (intro groups_word) simp_all
  then show ?case using Cons.prems hex_word_text[of n] by simp
qed (simp add: groups_Nil)

lemma canonical_denotes: "ip_ok ip \<Longrightarrow> denotes (ip_text ip) ip"
proof (cases ip)
  case (V4 os)
  assume ok: "ip_ok ip"
  then have "denotes (join (CHR ''.'') (map to_decimal os)) (V4 (map decimal_value (map to_decimal os)))"
    using canonical_octets[of os] V4 by (intro denotes_dotted) simp
  then show ?thesis by (simp add: V4 o_def)
next
  case (V6 ws)
  assume "ip_ok ip"
  then show ?thesis using groups_canonical[of ws True] V6 by (auto intro: denotes_full)
qed

lemma ip_text_inj: "ip_ok x \<Longrightarrow> ip_ok y \<Longrightarrow> ip_text x = ip_text y \<Longrightarrow> x = y"
proof -
  assume ok: "ip_ok x" "ip_ok y" and eq: "ip_text x = ip_text y"
  have four: "os = map decimal_value (split_on (CHR ''.'') (ip_text (V4 os)))" if "ip_ok (V4 os)" for os
    using octets_split[OF canonical_octets[OF that]] by (simp add: o_def)
  have six: "ws = map hex_value (split_on (CHR '':'') (ip_text (V6 ws)))" if "ip_ok (V6 ws)" for ws
  proof -
    have bound: "list_all (\<lambda>n. n < 65536) ws" using that by simp
    have "map hex_word ws \<noteq> []" using that by auto
    moreover have "list_all (\<lambda>g. CHR '':'' \<notin> set g) (map hex_word ws)"
      using groups_parts[OF groups_canonical[OF bound, of True]] by (auto simp: list_all_iff)
    ultimately have "split_on (CHR '':'') (ip_text (V6 ws)) = map hex_word ws"
      unfolding ip_text.simps by (rule split_join)
    moreover have "map hex_value (map hex_word ws) = ws"
      using bound hex_word_text by (auto simp: list_all_iff intro: map_idI)
    ultimately show ?thesis by simp
  qed
  have colon: "(CHR '':'' \<in> set (ip_text z)) = (case z of V4 _ \<Rightarrow> False | V6 _ \<Rightarrow> True)" if "ip_ok z" for z
    using that canonical_denotes[OF that] denotes_colon dotted_chars(2)[OF canonical_octets] by (cases z) auto
  show "x = y"
  proof (cases x)
    case (V4 os)
    then obtain ps where "y = V4 ps" using colon[OF ok(1)] colon[OF ok(2)] eq by (cases y) auto
    then show ?thesis using V4 four[of os] four[of ps] ok eq by simp
  next
    case (V6 us)
    then obtain ws where "y = V6 ws" using colon[OF ok(1)] colon[OF ok(2)] eq by (cases y) auto
    then show ?thesis using V6 six[of us] six[of ws] ok eq by simp
  qed
qed

definition address_char :: "char \<Rightarrow> bool" where
  "address_char c \<longleftrightarrow> c \<in> set ''0123456789abcdef.:''"

lemma address_chars:
  "list_all (\<lambda>c. (of_char c :: nat) < 128 \<and> to_lower c = c \<and> \<not> js_space (of_nat (of_char c)) \<and> c \<noteq> CHR ''['' \<and> c \<noteq> CHR '']'')
     ''0123456789abcdef.:''"
  by (simp add: to_lower_def js_space_def)

lemma address_charD:
  assumes "address_char c"
  shows "(of_char c :: nat) < 128" "to_lower c = c" "\<not> js_space (of_nat (of_char c))" "c \<noteq> CHR ''[''" "c \<noteq> CHR '']''"
  using assms address_chars unfolding address_char_def list_all_iff by blast+

lemma hex_address_char: "is_hex_digit c \<Longrightarrow> address_char c" "is_digit c \<Longrightarrow> address_char c"
  by (auto simp: is_hex_digit_def is_digit_def address_char_def)

lemma ip_text_chars: "ip_ok ip \<Longrightarrow> c \<in> set (ip_text ip) \<Longrightarrow> address_char c"
proof -
  assume ok: "ip_ok ip" and c: "c \<in> set (ip_text ip)"
  have punct: "address_char (CHR ''.'')" "address_char (CHR '':'')" by (simp_all add: address_char_def)
  show ?thesis
  proof (cases ip)
    case (V4 os)
    then have "c = CHR ''.'' \<or> (\<exists>n. c \<in> set (to_decimal n))" using c join_set[of "CHR ''.''" "map to_decimal os"] by auto
    then show ?thesis using punct hex_address_char(2) to_decimal_digits by (metis list_all_iff)
  next
    case (V6 ws)
    then have "c = CHR '':'' \<or> (\<exists>n \<in> set ws. c \<in> set (hex_word n))" using c join_set[of "CHR '':''" "map hex_word ws"] by auto
    moreover have "list_all is_hex_digit (hex_word n)" if "n \<in> set ws" for n
      using ok V6 that hex_word_text[of n] by (auto simp: list_all_iff word_text_def)
    ultimately show ?thesis using punct hex_address_char(1) by (metis list_all_iff)
  qed
qed

lemma plain_source:
  assumes "\<And>c. c \<in> set s \<Longrightarrow> address_char c"
  shows "normalizeIpAddress (ascii16 s) = normalizePlainAddress s"
proof -
  have "dropWhile js_space (ascii16 t) = ascii16 t" if "set t \<subseteq> set s" for t
    using that assms address_charD(3) by (cases t) (auto simp: ascii16_def)
  note this[of s] this[of "rev s"]
  moreover have "rev (ascii16 t) = ascii16 (rev t)" for t by (simp add: ascii16_def rev_map)
  ultimately have "trim16 (ascii16 s) = ascii16 s" by (simp add: trim16_def)
  moreover have "to_ascii (ascii16 s) = Some s"
    using assms address_charD(1) by (intro to_ascii16) (auto simp: list_all_iff)
  moreover have "map to_lower s = s" using assms address_charD(2) by (auto intro: map_idI)
  moreover have "strip_brackets s = Some s"
  proof -
    have "CHR ''['' \<notin> set s" "CHR '']'' \<notin> set s" using assms address_charD(4,5) by blast+
    moreover from this have "s = [] \<or> hd s \<noteq> CHR ''['' \<and> last s \<noteq> CHR '']''" using hd_in_set[of s] last_in_set[of s] by metis
    ultimately show ?thesis by (auto simp: strip_brackets_def Let_def)
  qed
  ultimately show ?thesis by (simp add: normalizeIpAddress_def)
qed

text \<open>The text that remains of the input once it is trimmed, in lower case and without brackets.\<close>

definition ip_source :: "text16 \<Rightarrow> string option" where
  "ip_source v = Option.bind (map_option (map to_lower) (to_ascii (trim16 v))) strip_brackets"

lemma canonical_address: "ip_ok ip \<Longrightarrow> normalizeIpAddress (ascii16 (ip_text ip)) = Some (ip_text ip)"
  using plain_source[of "ip_text ip"] ip_text_chars[of ip] canonical_denotes[of ip] by (auto simp: normalizePlainAddress_iff)

lemma address_canonical: "normalizeIpAddress v = Some a \<Longrightarrow> \<exists>ip. ip_ok ip \<and> a = ip_text ip"
  by (cases "ip_source v")
    (auto simp: normalizeIpAddress_def ip_source_def[symmetric] normalizePlainAddress_iff dest: denotes_ok)

text \<open>
  C37: \<open>normalizeIpAddress\<close> computes the canonical text of the address that its input denotes, and
  accepts exactly the texts that denote one (dotted, full, with a gap for zeros, with a dotted tail;
  in brackets only when it has a colon). Two inputs have the same result exactly when they denote
  the same address, and a canonical text is its own result.
\<close>

theorem normalized_address_denotes:
  "(normalizeIpAddress v = Some a) = (\<exists>s ip. ip_source v = Some s \<and> denotes s ip \<and> a = ip_text ip) \<and>
   (normalizeIpAddress (ascii16 a) = Some a) = (\<exists>!ip. ip_ok ip \<and> a = ip_text ip)"
proof -
  have iff: "(normalizeIpAddress v = Some a) = (\<exists>s ip. ip_source v = Some s \<and> denotes s ip \<and> a = ip_text ip)" for v a
    by (cases "ip_source v") (auto simp: normalizeIpAddress_def ip_source_def[symmetric] normalizePlainAddress_iff)
  have "(normalizeIpAddress (ascii16 a) = Some a) = (\<exists>!ip. ip_ok ip \<and> a = ip_text ip)"
  proof
    assume "\<exists>!ip. ip_ok ip \<and> a = ip_text ip"
    then show "normalizeIpAddress (ascii16 a) = Some a" using canonical_address by blast
  next
    assume "normalizeIpAddress (ascii16 a) = Some a"
    then obtain s ip where "denotes s ip" "a = ip_text ip" unfolding iff by blast
    then show "\<exists>!ip. ip_ok ip \<and> a = ip_text ip" using denotes_ok ip_text_inj by blast
  qed
  with iff show ?thesis by blast
qed

end
