(* ===== verification/SignalContract.thy ===== *)
theory SignalContract
  imports IpAddress RoomInvariant
begin

text \<open>
  The signaling frames and the private upgrade of \<open>src/src/rendezvous-contract.ts\<close>: what the
  parser accepts, what it relays, and what an upgrade must say before a room opens a socket.
\<close>

subsection \<open>Signals\<close>

datatype signal_error = BinaryFrame | TooLarge | InvalidJson | UnsupportedSignal

datatype frame_data = TextFrame text16 | BinaryData "nat list"

definition SERVER_SIGNAL_CANDIDATE_KINDS :: "string list" where
  "SERVER_SIGNAL_CANDIDATE_KINDS = [''lan'', ''ipv6'', ''mapped'', ''srflx'']"

definition CLIENT_CANDIDATE_KEYS :: "string list" where
  "CLIENT_CANDIDATE_KEYS = [''type'', ''host'', ''port'', ''ticket'']"

definition SERVER_CANDIDATE_KEYS :: "string list" where
  "SERVER_CANDIDATE_KEYS = [''type'', ''host'', ''port'', ''kind'', ''ticket'']"

definition COMPLETE_KEYS :: "string list" where
  "COMPLETE_KEYS = [''type'', ''ticket'']"

definition isTicket :: "json option \<Rightarrow> bool" where
  "isTicket x = text_matches is_hex64 x"

definition isServerSignalCandidateKind :: "json option \<Rightarrow> bool" where
  "isServerSignalCandidateKind x = text_matches (\<lambda>s. s \<in> set SERVER_SIGNAL_CANDIDATE_KINDS) x"

definition parseSignalObject :: "json \<Rightarrow> signal option" where
  "parseSignalObject v =
     (if text_is ''complete'' (field v ''type'') then
        if \<not> exact_keys v COMPLETE_KEYS \<or> \<not> isTicket (field v ''ticket'') then None
        else Some (Complete (the_ascii (field v ''ticket'')))
      else if \<not> text_is ''client_candidate'' (field v ''type'') \<and> \<not> text_is ''server_candidate'' (field v ''type'') then None
      else case field v ''host'' of
        Some (JsText h) \<Rightarrow>
          if \<not> isPort (field v ''port'') \<or> \<not> isTicket (field v ''ticket'') then None
          else (case normalizeIpAddress h of
                  None \<Rightarrow> None
                | Some host \<Rightarrow>
                    if text_is ''client_candidate'' (field v ''type'') then
                      if \<not> exact_keys v CLIENT_CANDIDATE_KEYS then None
                      else Some (ClientCandidate host (the_int (field v ''port'')) (the_ascii (field v ''ticket'')))
                    else if \<not> exact_keys v SERVER_CANDIDATE_KEYS \<or> \<not> isServerSignalCandidateKind (field v ''kind'') then None
                    else Some (ServerCandidate host (the_int (field v ''port'')) (the_ascii (field v ''kind''))
                           (the_ascii (field v ''ticket''))))
      | _ \<Rightarrow> None)"

fun serializeRendezvousSignal :: "signal \<Rightarrow> string" where
  "serializeRendezvousSignal (ClientCandidate host port t) =
     json_object [(''type'', json_string ''client_candidate''), (''host'', json_string host), (''port'', json_int port),
       (''ticket'', json_string t)]"
| "serializeRendezvousSignal (ServerCandidate host port k t) =
     json_object [(''type'', json_string ''server_candidate''), (''host'', json_string host), (''port'', json_int port),
       (''kind'', json_string k), (''ticket'', json_string t)]"
| "serializeRendezvousSignal (Complete t) =
     json_object [(''type'', json_string ''complete''), (''ticket'', json_string t)]"

text \<open>\<open>parsed.type\<close> is a string that starts with \<open>auth_\<close>.\<close>

definition starts_with_auth :: "json option \<Rightarrow> bool" where
  "starts_with_auth x = (case x of Some (JsText v) \<Rightarrow> take 5 v = ascii16 ''auth_'' | _ \<Rightarrow> False)"

definition parseRendezvousSignal :: "frame_data \<Rightarrow> signal_error + parsed_signal" where
  "parseRendezvousSignal message =
     (case message of
        BinaryData _ \<Rightarrow> Inl BinaryFrame
      | TextFrame m \<Rightarrow>
          if int (length m) > MAX_SIGNAL_BYTES then Inl TooLarge
          else let bytes = int (length (utf8 m)) in
            if bytes > MAX_SIGNAL_BYTES then Inl TooLarge
            else (case JSON_parse m of
                    None \<Rightarrow> Inl InvalidJson
                  | Some parsed \<Rightarrow>
                      if \<not> is_json_object parsed then Inl UnsupportedSignal
                      else if starts_with_auth (field parsed ''type'') then Inl UnsupportedSignal
                      else (case parseSignalObject parsed of
                              None \<Rightarrow> Inl UnsupportedSignal
                            | Some signal \<Rightarrow>
                                Inr \<lparr>ps_signal = signal, ps_serialized = serializeRendezvousSignal signal, ps_bytes = bytes\<rparr>)))"

subsection \<open>The private upgrade\<close>

text \<open>\<open>ValidatedAdmission\<close>: the ticket, its expiry in seconds, the client's nonce.\<close>

record validated_admission =
  va_ticket :: string
  va_expiresAt :: int
  va_clientNonce :: "string option"

record internal_upgrade =
  iu_role :: role
  iu_accessProtocol :: bool
  iu_authorizationRequired :: bool
  iu_generation :: string
  iu_admission :: "validated_admission option"

definition FORBIDDEN_BODY_HEADERS :: "string list" where
  "FORBIDDEN_BODY_HEADERS = [''content-length'', ''content-type'', ''content-encoding'', ''transfer-encoding'']"

text \<open>The pattern \<open>/^[1-9][0-9]{0,11}$/\<close>.\<close>

definition expiry_text :: "string \<Rightarrow> bool" where
  "expiry_text s \<longleftrightarrow> s \<noteq> '''' \<and> length s \<le> 12 \<and> list_all is_digit s \<and> hd s \<noteq> CHR ''0''"

definition header_is :: "http_request \<Rightarrow> string \<Rightarrow> (string \<Rightarrow> bool) \<Rightarrow> bool" where
  "header_is r name P = (case header r name of None \<Rightarrow> False | Some s \<Rightarrow> P s)"

text \<open>The block of a client: the admission, and the names it adds to the allowed ones.\<close>

definition upgrade_admission :: "int \<Rightarrow> bool \<Rightarrow> http_request \<Rightarrow> (validated_admission \<times> string list) option" where
  "upgrade_admission nowMs authorizationRequired r =
     (let expires = (case header r expiry_header of None \<Rightarrow> '''' | Some s \<Rightarrow> s); now = nowMs div 1000 in
      if header r admission_header \<noteq> Some ''work-v1-24'' \<or> \<not> header_is r ticket_header is_hex64 \<or> \<not> expiry_text expires \<or>
         int (decimal_value expires) \<le> now \<or> int (decimal_value expires) > now + 60 then None
      else if authorizationRequired \<and> \<not> header_is r nonce_header is_hex64 then None
      else Some (\<lparr>va_ticket = the (header r ticket_header), va_expiresAt = int (decimal_value expires),
                   va_clientNonce = (if authorizationRequired then header r nonce_header else None)\<rparr>,
                 [admission_header, ticket_header, expiry_header] @ (if authorizationRequired then [nonce_header] else [])))"

definition validateInternalRendezvousUpgrade :: "int \<Rightarrow> http_request \<Rightarrow> internal_upgrade option" where
  "validateInternalRendezvousUpgrade nowMs r =
     (if rq_url r \<noteq> ''https://rendezvous.internal/v5'' \<or> rq_method r \<noteq> ''GET'' \<or> rq_body r \<noteq> None \<or>
         header r ''upgrade'' \<noteq> Some ''websocket'' \<or>
         list_ex (has_header r) (LEGACY_HEADERS @ FORBIDDEN_BODY_HEADERS) then None
      else if \<not> header_is r role_header (\<lambda>s. s \<in> {''client'', ''server''}) \<or>
         \<not> header_is r protocol_header (\<lambda>s. s \<in> {''none'', ''access-tokens-v1''}) \<or>
         \<not> header_is r authorization_header (\<lambda>s. s \<in> {''not-required'', ''required''}) \<or>
         \<not> header_is r generation_header is_hex64 then None
      else
        let client = (header r role_header = Some ''client''); accessProtocol = (header r protocol_header = Some ''access-tokens-v1'');
            authorizationRequired = (header r authorization_header = Some ''required'');
            base = [''upgrade'', role_header, protocol_header, authorization_header, generation_header] in
        if \<not> client \<and> authorizationRequired \<or> client \<and> accessProtocol \<noteq> authorizationRequired then None
        else case (if client then map_option (\<lambda>(a, names). (Some a, names)) (upgrade_admission nowMs authorizationRequired r)
                   else Some (None, [])) of
          None \<Rightarrow> None
        | Some (admission, names) \<Rightarrow>
            if list_ex (\<lambda>name. name \<notin> set (base @ names)) (map fst (rq_headers r)) then None
            else Some \<lparr>iu_role = (if client then ClientRole else ServerRole), iu_accessProtocol = accessProtocol,
                        iu_authorizationRequired = authorizationRequired, iu_generation = the (header r generation_header),
                        iu_admission = admission\<rparr>)"

subsection \<open>Canonical frames\<close>

definition signal_ok :: "signal \<Rightarrow> bool" where
  "signal_ok s \<longleftrightarrow>
     is_hex64 (signal_ticket s) \<and>
     (case s of
        ClientCandidate host port _ \<Rightarrow> (\<exists>ip. ip_ok ip \<and> host = ip_text ip) \<and> 1 \<le> port \<and> port \<le> 65535
      | ServerCandidate host port kind _ \<Rightarrow>
          (\<exists>ip. ip_ok ip \<and> host = ip_text ip) \<and> 1 \<le> port \<and> port \<le> 65535 \<and> kind \<in> set SERVER_SIGNAL_CANDIDATE_KINDS
      | Complete _ \<Rightarrow> True)"

fun signal_members :: "signal \<Rightarrow> (string \<times> json_atom) list" where
  "signal_members (ClientCandidate host port t) =
     [(''type'', AtomText ''client_candidate''), (''host'', AtomText host), (''port'', AtomInt (nat port)), (''ticket'', AtomText t)]"
| "signal_members (ServerCandidate host port k t) =
     [(''type'', AtomText ''server_candidate''), (''host'', AtomText host), (''port'', AtomInt (nat port)),
      (''kind'', AtomText k), (''ticket'', AtomText t)]"
| "signal_members (Complete t) = [(''type'', AtomText ''complete''), (''ticket'', AtomText t)]"

lemma serialize_members: "signal_ok s \<Longrightarrow> serializeRendezvousSignal s = atom_object_text (signal_members s)"
  by (cases s) (auto simp: signal_ok_def atom_object_text_def)

lemma plain_chars: "list_all plain_char ''0123456789abcdef.:''"
  by (simp add: plain_char_def)

lemma address_plain: "address_char c \<Longrightarrow> plain_char c"
  using plain_chars unfolding address_char_def list_all_iff by blast

lemma hex_plain: "is_hex n t \<Longrightarrow> list_all plain_char t"
  using hex_address_char(1) address_plain by (auto simp: is_hex_def list_all_iff)

lemma host_plain: "ip_ok ip \<Longrightarrow> list_all plain_char (ip_text ip)"
  using ip_text_chars[of ip] address_plain by (auto simp: list_all_iff)

lemma kind_plain: "list_all (\<lambda>k. list_all plain_char k \<and> length k \<le> 6) SERVER_SIGNAL_CANDIDATE_KINDS"
  by (simp add: SERVER_SIGNAL_CANDIDATE_KINDS_def plain_char_def)

lemma kind_facts: "k \<in> set SERVER_SIGNAL_CANDIDATE_KINDS \<Longrightarrow> list_all plain_char k \<and> length k \<le> 6"
  using kind_plain unfolding list_all_iff by blast

lemma port_ok: "p \<le> 65535 \<Longrightarrow> nat p < 2 ^ 53" for p :: int
  by (simp add: nat_less_iff)

lemma members_okI: "signal_ok s \<Longrightarrow> members_ok (signal_members s)"
proof (cases s)
  case (ClientCandidate host p t)
  moreover assume "signal_ok s"
  ultimately have "list_all plain_char t" "list_all plain_char host" "nat p < 2 ^ 53"
    using hex_plain host_plain port_ok by (auto simp: signal_ok_def simp del: power_numeral)
  then show ?thesis by (simp add: members_ok_def ClientCandidate del: power_numeral) (simp add: plain_char_def)
next
  case (ServerCandidate host p k t)
  moreover assume "signal_ok s"
  ultimately have "list_all plain_char t" "list_all plain_char host" "nat p < 2 ^ 53" "list_all plain_char k"
    using hex_plain host_plain port_ok kind_facts by (auto simp: signal_ok_def simp del: power_numeral)
  then show ?thesis by (simp add: members_ok_def ServerCandidate del: power_numeral) (simp add: plain_char_def)
next
  case (Complete t)
  moreover assume "signal_ok s"
  ultimately have "list_all plain_char t" using hex_plain by (simp add: signal_ok_def)
  then show ?thesis by (simp add: members_ok_def Complete) (simp add: plain_char_def)
qed

subsection \<open>Lengths\<close>

lemma join_length: "list_all (\<lambda>x. length x \<le> m) xs \<Longrightarrow> length (join c xs) \<le> length xs * Suc m"
  by (induction c xs rule: join.induct) auto

lemma host_length: "ip_ok ip \<Longrightarrow> length (ip_text ip) \<le> 40"
proof (cases ip)
  case (V4 os)
  assume "ip_ok ip"
  then have "list_all (\<lambda>x. length x \<le> 3) (map to_decimal os)" "length os = 4"
    using V4 to_decimal_short[of _ 3] by (auto simp: list_all_iff)
  then show ?thesis using V4 join_length[of 3 "map to_decimal os" "CHR ''.''"] by simp
next
  case (V6 ws)
  assume "ip_ok ip"
  moreover have "list_all (\<lambda>x. length x \<le> 4) (map hex_word ws)" by (auto simp: list_all_iff hex_word_def)
  ultimately show ?thesis using V6 join_length[of 4 "map hex_word ws" "CHR '':''"] by simp
qed

lemma canonical_frame_short: "signal_ok s \<Longrightarrow> length (serializeRendezvousSignal s) \<le> 512"
proof -
  assume ok: "signal_ok s"
  have short: "length (atom_object_text (signal_members s)) \<le> 2 + (\<Sum>(k, a) \<leftarrow> signal_members s. length k + atom_size a + 4)"
    by (rule atom_object_length[OF members_okI[OF ok]])
  have ticket: "length (signal_ticket s) = 64" using ok is_hex_length by (simp add: signal_ok_def)
  show ?thesis
    using ok short ticket host_length kind_facts unfolding serialize_members[OF ok]
    by (cases s) (fastforce simp: signal_ok_def)+
qed

subsection \<open>Accepted frames\<close>

lemma ascii_eq: "ascii16 a = ascii16 b \<longleftrightarrow> a = b"
  by (rule inj_eq[OF ascii16_inj])

lemma ascii_matches:
  assumes "list_all plain_char s"
  shows "text_matches P (Some (JsText (ascii16 s))) = P s" "the_ascii (Some (JsText (ascii16 s))) = s"
  using to_ascii16[OF plain_ascii[OF assms]] by (simp_all add: text_matches_def matches_def the_ascii_def)

definition signal_object :: "signal \<Rightarrow> json" where
  "signal_object s = ascii_object (map (\<lambda>(k, a). (k, atom_json a)) (signal_members s))"

lemma parse_signal_object: "signal_ok s \<Longrightarrow> parseSignalObject (signal_object s) = Some s"
proof (cases s)
  case (ClientCandidate host p t)
  moreover assume "signal_ok s"
  ultimately obtain ip where ok: "is_hex64 t" "ip_ok ip" "host = ip_text ip" "1 \<le> p" "p \<le> 65535"
    by (auto simp: signal_ok_def)
  have "exact_keys (signal_object s) CLIENT_CANDIDATE_KEYS"
    unfolding signal_object_def ClientCandidate CLIENT_CANDIDATE_KEYS_def by (rule keys_ascii_object) simp_all
  then show ?thesis using ok ascii_matches[OF hex_plain[OF ok(1)]] canonical_address[OF ok(2)]
    by (simp add: parseSignalObject_def ClientCandidate signal_object_def field_ascii_object text_is_def ascii_eq isPort_def
        isTicket_def the_int_def)
next
  case (ServerCandidate host p k t)
  moreover assume "signal_ok s"
  ultimately obtain ip where ok: "is_hex64 t" "ip_ok ip" "host = ip_text ip" "1 \<le> p" "p \<le> 65535" "k \<in> set SERVER_SIGNAL_CANDIDATE_KINDS"
    by (auto simp: signal_ok_def)
  have k: "list_all plain_char k" using kind_facts[OF ok(6)] by blast
  have "exact_keys (signal_object s) SERVER_CANDIDATE_KEYS"
    unfolding signal_object_def ServerCandidate SERVER_CANDIDATE_KEYS_def by (rule keys_ascii_object) simp_all
  then show ?thesis using ok ascii_matches[OF hex_plain[OF ok(1)]] ascii_matches[OF k] canonical_address[OF ok(2)]
    by (simp add: parseSignalObject_def ServerCandidate signal_object_def field_ascii_object text_is_def ascii_eq isPort_def
        isTicket_def the_int_def isServerSignalCandidateKind_def)
next
  case (Complete t)
  moreover assume "signal_ok s"
  ultimately have ok: "is_hex64 t" by (simp add: signal_ok_def)
  have "exact_keys (signal_object s) COMPLETE_KEYS"
    unfolding signal_object_def Complete COMPLETE_KEYS_def by (rule keys_ascii_object) simp_all
  then show ?thesis using ok ascii_matches[OF hex_plain[OF ok(1)]]
    by (simp add: parseSignalObject_def Complete signal_object_def field_ascii_object text_is_def isTicket_def)
qed

lemma parsed_signal_ok: "parseSignalObject v = Some s \<Longrightarrow> signal_ok s"
  by (auto simp: parseSignalObject_def signal_ok_def isTicket_def isServerSignalCandidateKind_def
      dest!: text_matchesD isPortD address_canonical split: if_splits option.splits json.splits)

lemma signal_not_auth: "\<not> starts_with_auth (field (signal_object s) ''type'')"
proof -
  have "take 5 (ascii16 t) = ascii16 (take 5 t)" for t by (simp add: ascii16_def take_map)
  then show ?thesis
    by (cases s) (simp_all add: starts_with_auth_def signal_object_def field_ascii_object ascii_eq)
qed

lemma utf8_nonempty: "v \<noteq> [] \<Longrightarrow> 0 < length (utf8 v)"
proof -
  assume "v \<noteq> []"
  then have "code_points v \<noteq> []" by (induction v rule: code_points.induct) auto
  moreover have "utf8_of ns \<noteq> []" if "ns \<noteq> []" for ns using that by (cases ns) (simp_all add: utf8_scalar_def)
  ultimately show ?thesis by (simp add: utf8_def)
qed

lemma serialized_plain: "signal_ok s \<Longrightarrow> list_all (\<lambda>c. (of_char c :: nat) < 128) (serializeRendezvousSignal s)"
  using atom_object_ascii[OF members_okI] by (simp add: serialize_members)

lemma canonical_frame:
  assumes "signal_ok s"
  shows "parseRendezvousSignal (TextFrame (ascii16 (serializeRendezvousSignal s))) =
    Inr \<lparr>ps_signal = s, ps_serialized = serializeRendezvousSignal s, ps_bytes = int (length (serializeRendezvousSignal s))\<rparr>"
proof -
  let ?t = "serializeRendezvousSignal s"
  have "JSON_parse (ascii16 ?t) = Some (signal_object s)"
    unfolding serialize_members[OF assms] signal_object_def by (rule atom_object_parse[OF members_okI[OF assms]])
  moreover have "is_json_object (signal_object s)" by (simp add: signal_object_def ascii_object_def)
  moreover have "length (utf8 (ascii16 ?t)) = length ?t" by (rule utf8_ascii[OF serialized_plain[OF assms]])
  moreover have "length (ascii16 ?t) = length ?t" by (simp add: ascii16_def)
  ultimately show ?thesis
    using canonical_frame_short[OF assms] signal_not_auth[of s] parse_signal_object[OF assms]
    by (simp add: parseRendezvousSignal_def MAX_SIGNAL_BYTES_def)
qed

text \<open>
  C36: What the room relays is canonical and its own reading. A frame that the parser accepts meets
  everything the room assumes of frames (ticket, size), carries a canonical address, a valid port
  and a kind of the contract; the text relayed in its place is within the frame limit, and the
  parser at the other end reads from it the same signal and relays the same text. \<open>JSON.parse\<close>
  and the printing of the frame are both modelled.
\<close>

theorem relayed_frame_canonical:
  assumes "parseRendezvousSignal frame = Inr p"
  shows "frame_ok p \<and> signal_ok (ps_signal p) \<and> length (ps_serialized p) \<le> 512 \<and>
    parseRendezvousSignal (TextFrame (ascii16 (ps_serialized p))) = Inr (p\<lparr>ps_bytes := int (length (ps_serialized p))\<rparr>)"
proof -
  obtain m v s where m: "frame = TextFrame m" "JSON_parse m = Some v" "int (length (utf8 m)) \<le> MAX_SIGNAL_BYTES"
      "parseSignalObject v = Some s"
    and p: "p = \<lparr>ps_signal = s, ps_serialized = serializeRendezvousSignal s, ps_bytes = int (length (utf8 m))\<rparr>"
    using assms by (auto simp: parseRendezvousSignal_def Let_def split: frame_data.splits if_splits option.splits)
  have ok: "signal_ok s" by (rule parsed_signal_ok[OF m(4)])
  have "m \<noteq> []" using m(2) by (auto simp: JSON_parse_def skip_space_def)
  then have "1 \<le> int (length (utf8 m))" using utf8_nonempty[of m] by linarith
  then have "frame_ok p" using ok m(3) by (simp add: frame_ok_def p signal_ok_def del: int_nat_eq)
  then show ?thesis using ok canonical_frame[OF ok] canonical_frame_short[OF ok] by (simp add: p)
qed

definition example_signal :: signal where
  "example_signal = ServerCandidate (ip_text (V4 [198, 51, 100, 7])) 13327 ''srflx'' (replicate 64 (CHR ''a''))"

lemma example_signal_ok: "signal_ok example_signal"
proof -
  have "\<exists>ip. ip_ok ip \<and> ip_text (V4 [198, 51, 100, 7]) = ip_text ip"
    by (rule exI[of _ "V4 [198, 51, 100, 7]"]) simp
  then show ?thesis
    by (simp add: signal_ok_def example_signal_def SERVER_SIGNAL_CANDIDATE_KINDS_def is_hex_digit_def del: ip_text.simps)
qed

theorem relayed_frame_canonical_witness:
  "frame_ok \<lparr>ps_signal = example_signal, ps_serialized = serializeRendezvousSignal example_signal,
     ps_bytes = int (length (serializeRendezvousSignal example_signal))\<rparr>"
  using relayed_frame_canonical[OF canonical_frame[OF example_signal_ok]] by blast

subsection \<open>Accepted upgrades\<close>

definition upgrade_ok :: "int \<Rightarrow> internal_upgrade \<Rightarrow> bool" where
  "upgrade_ok nowMs u \<longleftrightarrow>
     is_hex64 (iu_generation u) \<and>
     (case iu_role u of
        ServerRole \<Rightarrow> \<not> iu_authorizationRequired u \<and> iu_admission u = None
      | ClientRole \<Rightarrow>
          iu_accessProtocol u = iu_authorizationRequired u \<and>
          (case iu_admission u of
             None \<Rightarrow> False
           | Some a \<Rightarrow>
               is_hex64 (va_ticket a) \<and> nowMs < va_expiresAt a * 1000 \<and> va_expiresAt a * 1000 \<le> nowMs + 60000 \<and>
               (case va_clientNonce a of None \<Rightarrow> \<not> iu_authorizationRequired u | Some n \<Rightarrow> iu_authorizationRequired u \<and> is_hex64 n)))"

lemma accepted_admission:
  assumes "upgrade_admission nowMs authorizationRequired r = Some (a, names)"
  shows "is_hex64 (va_ticket a)" "nowMs < va_expiresAt a * 1000" "va_expiresAt a * 1000 \<le> nowMs + 60000"
    "case va_clientNonce a of None \<Rightarrow> \<not> authorizationRequired | Some n \<Rightarrow> authorizationRequired \<and> is_hex64 n"
proof -
  have a: "header_is r ticket_header is_hex64" "va_ticket a = the (header r ticket_header)"
      "nowMs div 1000 < va_expiresAt a" "va_expiresAt a \<le> nowMs div 1000 + 60"
      "va_clientNonce a = (if authorizationRequired then header r nonce_header else None)"
      "authorizationRequired \<Longrightarrow> header_is r nonce_header is_hex64"
    using assms by (auto simp: upgrade_admission_def Let_def split: if_splits)
  show "is_hex64 (va_ticket a)" using a(1,2) by (auto simp: header_is_def split: option.splits)
  have "nowMs = nowMs div 1000 * 1000 + nowMs mod 1000" "0 \<le> nowMs mod 1000" "nowMs mod 1000 < 1000" by simp_all
  then show "nowMs < va_expiresAt a * 1000" "va_expiresAt a * 1000 \<le> nowMs + 60000" using a(3,4) by linarith+
  show "case va_clientNonce a of None \<Rightarrow> \<not> authorizationRequired | Some n \<Rightarrow> authorizationRequired \<and> is_hex64 n"
    using a(5,6) by (auto simp: header_is_def split: option.splits)
qed

lemma accepted_upgrade:
  assumes "validateInternalRendezvousUpgrade nowMs r = Some u"
  shows "upgrade_ok nowMs u"
proof -
  define client where "client = (header r role_header = Some ''client'')"
  define required where "required = (header r authorization_header = Some ''required'')"
  have gen: "header_is r generation_header is_hex64" "iu_generation u = the (header r generation_header)"
      and role: "iu_role u = (if client then ClientRole else ServerRole)" "iu_authorizationRequired u = required"
      "\<not> (\<not> client \<and> required \<or> client \<and> iu_accessProtocol u \<noteq> required)"
      and adm: "if client then \<exists>a names. upgrade_admission nowMs required r = Some (a, names) \<and> iu_admission u = Some a
        else iu_admission u = None"
    using assms
    by (auto simp: validateInternalRendezvousUpgrade_def Let_def client_def[symmetric] required_def[symmetric]
        split: if_splits option.splits)
  have "is_hex64 (iu_generation u)" using gen by (auto simp: header_is_def split: option.splits)
  then show ?thesis
    using role adm accepted_admission by (fastforce simp: upgrade_ok_def split: if_splits)
qed

end
