(* ===== verification/RendezvousEntry.thy ===== *)
theory RendezvousEntry
  imports SignalContract PublicationProperties
begin

text \<open>
  How a WebSocket reaches a room: the admission challenge and its verification
  (\<open>src/src/rendezvous-work.ts\<close>) and the opening of a rendezvous (\<open>src/src/rendezvous.ts\<close>).
  The digest, the signatures of the key ring, the random bytes and the clock are arguments.
\<close>

subsection \<open>The admission challenge\<close>

text \<open>
  \<open>ne_digest\<close> is the SHA-256 of a byte string in lower-case hexadecimal digits; \<open>ne_ring\<close> is the
  key ring with the identifier of its current key, \<open>None\<close> when its configuration is refused;
  \<open>ne_clock\<close> answers the readings of the clock in seconds, in their order.
\<close>

record key_ring =
  kr_key :: string
  kr_sign :: "string \<Rightarrow> string \<Rightarrow> string \<Rightarrow> string"
  kr_verify :: "string \<Rightarrow> string \<Rightarrow> string \<Rightarrow> string \<Rightarrow> string \<Rightarrow> bool"

record entry_environment =
  ne_digest :: "string \<Rightarrow> string"
  ne_ring :: "key_ring option"
  ne_clock :: "nat \<Rightarrow> int"

definition ADMISSION_HEADER :: string where "ADMISSION_HEADER = ''x-atrinik-rendezvous-admission''"
definition TICKET_HEADER :: string where "TICKET_HEADER = ''x-atrinik-rendezvous-ticket''"
definition CLIENT_NONCE_HEADER :: string where "CLIENT_NONCE_HEADER = ''x-atrinik-access-client-nonce''"
definition ADMISSION_SCHEMA :: string where "ADMISSION_SCHEMA = ''atrinik-rendezvous-admission-v1''"
definition ADMISSION_DIFFICULTY :: nat where "ADMISSION_DIFFICULTY = 24"

fun hex_bytes :: "string \<Rightarrow> string" where
  "hex_bytes (a # b # r) = byte (hex_digit_value a * 16 + hex_digit_value b) # hex_bytes r"
| "hex_bytes _ = []"

definition ticketHash :: "entry_environment \<Rightarrow> string \<Rightarrow> string" where
  "ticketHash e t = ne_digest e (hex_bytes t)"

text \<open>The body is the canonical object with a ticket hash, character for character.\<close>

definition challenge_hash :: "string \<Rightarrow> string option" where
  "challenge_hash body =
     (let h = take 64 (drop 58 body) in
      if is_hex64 h \<and> body = json_object [(''schema'', json_string ADMISSION_SCHEMA), (''ticketHash'', json_string h)]
      then Some h else None)"

definition challenge_prefix :: "string \<Rightarrow> int \<Rightarrow> string \<Rightarrow> string \<Rightarrow> string" where
  "challenge_prefix keyId now h random =
     join (CHR ''.'') [''v1'', keyId, to_decimal (nat now), h, random]"

datatype challenge_reply = BadRequest | RingRefused | Challenge string

definition issueRendezvousChallenge ::
  "entry_environment \<Rightarrow> string \<Rightarrow> string \<Rightarrow> string \<Rightarrow> int \<Rightarrow> string \<Rightarrow> challenge_reply" where
  "issueRendezvousChallenge e body authority serverId now random =
     (case challenge_hash body of
        None \<Rightarrow> BadRequest
      | Some h \<Rightarrow>
          (case ne_ring e of
             None \<Rightarrow> RingRefused
           | Some ring \<Rightarrow>
               let prefix = challenge_prefix (kr_key ring) now h random;
                   challenge = prefix @ CHR ''.'' # kr_sign ring authority serverId prefix in
               Challenge (json_object
                 [(''schema'', json_string ADMISSION_SCHEMA), (''challenge'', json_string challenge),
                  (''difficulty'', json_int (int ADMISSION_DIFFICULTY)), (''expiresAt'', json_string (json_int (now + 60)))])))"

definition key_id_char :: "char \<Rightarrow> bool" where
  "key_id_char c \<longleftrightarrow> is_digit c \<or> is_lower (to_lower c) \<or> c = CHR ''_'' \<or> c = CHR ''-''"

definition key_id :: "string \<Rightarrow> bool" where
  "key_id s \<longleftrightarrow> 1 \<le> length s \<and> length s \<le> 32 \<and> list_all key_id_char s"

text \<open>\<open>slice(0, lastIndexOf(c))\<close> and \<open>slice(lastIndexOf(c) + 1)\<close>.\<close>

definition before_last :: "char \<Rightarrow> string \<Rightarrow> string" where
  "before_last c s = (if c \<in> set s then rev (tl (dropWhile (\<lambda>x. x \<noteq> c) (rev s))) else butlast s)"

definition after_last :: "char \<Rightarrow> string \<Rightarrow> string" where
  "after_last c s = rev (takeWhile (\<lambda>x. x \<noteq> c) (rev s))"

record admission_token =
  at_keyId :: string
  at_issuedAt :: int
  at_expiresAt :: int
  at_ticketHash :: string
  at_prefix :: string
  at_mac :: string

definition parseAdmissionToken :: "string \<Rightarrow> admission_token option" where
  "parseAdmissionToken token =
     (case split_on (CHR ''.'') token of
        [version, keyId, issued, h, random, mac] \<Rightarrow>
          if version \<noteq> ''v1'' \<or> \<not> key_id keyId \<or> \<not> expiry_text issued \<or> \<not> is_hex64 h \<or> \<not> is_hex32 random \<or> \<not> is_hex64 mac
          then None
          else let issuedAt = int (decimal_value issued) in
            if \<not> is_safe_integer issuedAt \<or> issuedAt > 253402300739 then None
            else Some \<lparr>at_keyId = keyId, at_issuedAt = issuedAt, at_expiresAt = issuedAt + 60, at_ticketHash = h,
                       at_prefix = before_last (CHR ''.'') token, at_mac = mac\<rparr>
      | _ \<Rightarrow> None)"

text \<open>The patterns \<open>/^Bearer ([0-9a-f]{64})$/\<close>, with and without the flag \<open>i\<close>.\<close>

definition bearer_token :: "string \<Rightarrow> string option" where
  "bearer_token s = (if take 7 s = ''Bearer '' \<and> is_hex64 (drop 7 s) then Some (drop 7 s) else None)"

definition bearer_token_i :: "string \<Rightarrow> string option" where
  "bearer_token_i s =
     (if map to_lower (take 7 s) = ''bearer '' \<and> is_hex64 (map to_lower (drop 7 s)) then Some (drop 7 s) else None)"

definition header_or_empty :: "http_request \<Rightarrow> string \<Rightarrow> string" where
  "header_or_empty r name = (case header r name of None \<Rightarrow> '''' | Some s \<Rightarrow> s)"

text \<open>The ticket and the client's nonce that the request presents.\<close>

definition presented_ticket :: "http_request \<Rightarrow> bool \<Rightarrow> (string \<times> string option) option" where
  "presented_ticket r protectedClient =
     (if protectedClient then
        (case bearer_token (header_or_empty r ''authorization'') of
           None \<Rightarrow> None
         | Some t \<Rightarrow>
             if \<not> header_is r CLIENT_NONCE_HEADER is_hex64 \<or> has_header r TICKET_HEADER then None
             else Some (t, header r CLIENT_NONCE_HEADER))
      else
        let t = header_or_empty r TICKET_HEADER in
        if \<not> is_hex64 t \<or> has_header r ''authorization'' \<or> has_header r CLIENT_NONCE_HEADER then None
        else Some (t, None))"

text \<open>The first three bytes of the digest are zero: 24 bits of work.\<close>

definition work_done :: "entry_environment \<Rightarrow> string \<Rightarrow> string \<Rightarrow> bool" where
  "work_done e token solution \<longleftrightarrow>
     take 6 (ne_digest e (''atrinik-rendezvous-work-v1'' @ [CHR 0x00] @ token @ [CHR 0x00] @ solution)) = ''000000''"

definition solution_text :: "string \<Rightarrow> bool" where
  "solution_text s \<longleftrightarrow> is_hex 16 s"

text \<open>\<open>Inl ()\<close> is the exception of a refused key ring.\<close>

definition verifyRendezvousAdmission ::
  "entry_environment \<Rightarrow> http_request \<Rightarrow> string \<Rightarrow> string \<Rightarrow> bool \<Rightarrow> unit + validated_admission option" where
  "verifyRendezvousAdmission e r authority serverId protectedClient =
     (case header r ADMISSION_HEADER of
        None \<Rightarrow> Inr None
      | Some proof_text \<Rightarrow>
          if length proof_text > 256 then Inr None
          else let token = before_last (CHR ''.'') proof_text; solution = after_last (CHR ''.'') proof_text in
            if \<not> solution_text solution then Inr None
            else (case parseAdmissionToken token of
                    None \<Rightarrow> Inr None
                  | Some parsed \<Rightarrow>
                      if ne_clock e 0 < at_issuedAt parsed \<or> ne_clock e 0 \<ge> at_expiresAt parsed then Inr None
                      else (case presented_ticket r protectedClient of
                              None \<Rightarrow> Inr None
                            | Some (t, nonce) \<Rightarrow>
                                if ticketHash e t \<noteq> at_ticketHash parsed then Inr None
                                else (case ne_ring e of
                                        None \<Rightarrow> Inl ()
                                      | Some ring \<Rightarrow>
                                          if \<not> kr_verify ring authority serverId (at_prefix parsed) (at_keyId parsed) (at_mac parsed)
                                          then Inr None
                                          else if \<not> work_done e token solution \<or> ne_clock e 1 \<ge> at_expiresAt parsed then Inr None
                                          else Inr (Some \<lparr>va_ticket = t, va_expiresAt = at_expiresAt parsed,
                                                          va_clientNonce = nonce\<rparr>)))))"

subsection \<open>Opening a rendezvous\<close>

datatype entry_error =
    AdmissionRequired | AdmissionInvalid | InvalidServerId | UpgradeRequired | InvalidSubprotocol | ServerOffline
  | InvalidToken | AuthorizationUnavailable

fun entry_status :: "entry_error \<Rightarrow> int" where
  "entry_status AdmissionRequired = 428"
| "entry_status AdmissionInvalid = 403"
| "entry_status InvalidServerId = 400"
| "entry_status UpgradeRequired = 426"
| "entry_status InvalidSubprotocol = 400"
| "entry_status ServerOffline = 404"
| "entry_status InvalidToken = 401"
| "entry_status AuthorizationUnavailable = 503"

text \<open>A fixed error, an exception of a hook or of the key ring, or the room and the request it receives.\<close>

datatype entry_reply = FixedError entry_error | Thrown | ToRoom string http_request

definition ACCESS_RENDEZVOUS_SUBPROTOCOL :: string where
  "ACCESS_RENDEZVOUS_SUBPROTOCOL = ''atrinik-access-rendezvous-v1''"

definition rendezvous_server :: "directory \<Rightarrow> string \<Rightarrow> int \<Rightarrow> role \<Rightarrow> bool \<Rightarrow> presence_row option" where
  "rendezvous_server w serverId cutoff rl accessProtocol =
     (case presence_at ClassicV3 serverId w of
        None \<Rightarrow> None
      | Some x \<Rightarrow>
          if ps_seen x > cutoff \<and> serverId \<notin> set (db_denials (dr_base w)) \<and>
             (rl = ServerRole \<or> accessProtocol \<or>
              list_ex (\<lambda>en. en_profile en = ClassicV3 \<and> en_server en = serverId) (dr_entries w))
          then Some x else None)"

definition internal_upgrade_request :: "internal_upgrade \<Rightarrow> http_request" where
  "internal_upgrade_request u =
     \<lparr>rq_url = ''https://rendezvous.internal/v5'', rq_method = ''GET'',
      rq_headers =
        (''upgrade'', ''websocket'') #
        (case iu_admission u of
           None \<Rightarrow> []
         | Some a \<Rightarrow>
             [(admission_header, ''work-v1-24''), (ticket_header, va_ticket a), (expiry_header, json_int (va_expiresAt a))] @
             (case va_clientNonce a of None \<Rightarrow> [] | Some n \<Rightarrow> [(nonce_header, n)])) @
        [(role_header, if iu_role u = ClientRole then ''client'' else ''server''),
         (protocol_header, if iu_accessProtocol u then ''access-tokens-v1'' else ''none''),
         (authorization_header, if iu_authorizationRequired u then ''required'' else ''not-required''),
         (generation_header, iu_generation u)],
      rq_body = None\<rparr>"

text \<open>
  The path is that of the parsed URL; \<open>ttl\<close>, \<open>clientEligible\<close> and \<open>serverAuthenticated\<close> are the
  hooks of the caller (a rate limit that throws is \<open>False\<close>); \<open>w\<close> is the directory at the read.
\<close>

definition openRendezvous ::
  "entry_environment \<Rightarrow> directory \<Rightarrow> string \<Rightarrow> int \<Rightarrow> bool \<Rightarrow> bool \<Rightarrow> string \<Rightarrow> http_request \<Rightarrow> string \<Rightarrow> role \<Rightarrow> entry_reply" where
  "openRendezvous e w authority ttl clientEligible serverAuthenticated path r serverId rl =
     (if \<not> is_hex64 serverId then FixedError InvalidServerId
      else if \<not> header_is r ''upgrade'' (\<lambda>s. map to_lower s = ''websocket'') then FixedError UpgradeRequired
      else
        let requested = header r ''sec-websocket-protocol'' in
        if requested \<noteq> None \<and> requested \<noteq> Some ACCESS_RENDEZVOUS_SUBPROTOCOL then FixedError InvalidSubprotocol
        else
          let accessProtocol = (requested = Some ACCESS_RENDEZVOUS_SUBPROTOCOL) in
          if rl = ClientRole \<and> accessProtocol \<and> take 30 path \<noteq> ''/v1/access/rendezvous/classic/'' then FixedError InvalidSubprotocol
          else if rl = ServerRole \<and> list_ex (has_header r) [ADMISSION_HEADER, TICKET_HEADER, CLIENT_NONCE_HEADER]
          then FixedError AdmissionInvalid
          else if rl = ClientRole \<and> \<not> has_header r ADMISSION_HEADER then FixedError AdmissionRequired
          else
            (case if rl = ClientRole then verifyRendezvousAdmission e r authority serverId accessProtocol else Inr None of
               Inl _ \<Rightarrow> Thrown
             | Inr admission \<Rightarrow>
                 if rl = ClientRole \<and> admission = None then FixedError AdmissionInvalid
                 else
                   (case rendezvous_server w serverId (ne_clock e 2 - ttl) rl accessProtocol of
                      None \<Rightarrow> FixedError ServerOffline
                    | Some server \<Rightarrow>
                        let required = (ps_access server = Some True);
                            forward = ToRoom serverId (internal_upgrade_request
                              \<lparr>iu_role = rl, iu_accessProtocol = accessProtocol,
                               iu_authorizationRequired = (rl = ClientRole \<and> required),
                               iu_generation = ps_generation server, iu_admission = admission\<rparr>) in
                        if rl = ServerRole then
                          if required \<and> \<not> accessProtocol then FixedError InvalidSubprotocol
                          else
                            let token = (case bearer_token_i (header_or_empty r ''authorization'') of None \<Rightarrow> '''' | Some t \<Rightarrow> t) in
                            if ne_digest e (ne_digest e token) \<noteq> ne_digest e (ps_token_hash server) then FixedError InvalidToken
                            else if \<not> serverAuthenticated then Thrown
                            else forward
                        else if required then
                          if \<not> accessProtocol then FixedError AuthorizationUnavailable
                          else if \<not> clientEligible then Thrown else forward
                        else if accessProtocol then FixedError InvalidSubprotocol
                        else if \<not> clientEligible then Thrown
                        else forward)))"

subsection \<open>The words of a token\<close>

lemma canonical_decimal: "list_all is_digit s \<Longrightarrow> s \<noteq> [] \<Longrightarrow> hd s \<noteq> CHR ''0'' \<Longrightarrow> to_decimal (decimal_value s) = s"
proof (induction s rule: rev_induct)
  case (snoc c s)
  have c: "digit_value c < 10" "digit_char (digit_value c) = c"
    using snoc.prems(1) is_digit_cases[of c] digit_value_char digit_value_bound by auto
  show ?case
  proof (cases "s = []")
    case True
    then show ?thesis using c by (simp add: to_decimal.simps)
  next
    case False
    then have "to_decimal (decimal_value s) = s" using snoc by simp
    moreover have "0 < decimal_value s"
      using False snoc.prems digit_value_zero[of "hd s"] by (cases s) simp_all
    ultimately show ?thesis using c by (subst to_decimal.simps) simp
  qed
qed simp

lemma expiry_text_iff: "expiry_text s \<longleftrightarrow> (\<exists>n. 0 < n \<and> n < 10 ^ 12 \<and> s = to_decimal n)"
proof
  assume s: "expiry_text s"
  then have "to_decimal (decimal_value s) = s" by (intro canonical_decimal) (auto simp: expiry_text_def)
  moreover have "decimal_value s < 10 ^ 12"
  proof -
    have "decimal_value s < 10 ^ length s" using s decimal_value_bound by (simp add: expiry_text_def)
    also have "(10 :: nat) ^ length s \<le> 10 ^ 12" using s by (intro power_increasing) (auto simp: expiry_text_def)
    finally show ?thesis .
  qed
  moreover have "0 < decimal_value s" using s digit_value_zero[of "hd s"] by (cases s) (auto simp: expiry_text_def)
  ultimately show "\<exists>n. 0 < n \<and> n < 10 ^ 12 \<and> s = to_decimal n" by metis
next
  assume "\<exists>n. 0 < n \<and> n < 10 ^ 12 \<and> s = to_decimal n"
  then show "expiry_text s"
    using to_decimal_short[of _ 12] to_decimal_digits to_decimal_head by (auto simp: expiry_text_def)
qed

lemma last_split: "c \<notin> set m \<Longrightarrow> before_last c (p @ c # m) = p" "c \<notin> set m \<Longrightarrow> after_last c (p @ c # m) = m"
proof -
  assume m: "c \<notin> set m"
  then have "dropWhile (\<lambda>x. x \<noteq> c) (rev m @ c # rev p) = c # rev p" "takeWhile (\<lambda>x. x \<noteq> c) (rev m @ c # rev p) = rev m"
    by (auto simp: dropWhile_append takeWhile_append)
  then show "before_last c (p @ c # m) = p" "after_last c (p @ c # m) = m" by (simp_all add: before_last_def after_last_def)
qed

lemma last_join: "c \<in> set s \<Longrightarrow> s = before_last c s @ c # after_last c s \<and> c \<notin> set (after_last c s)"
proof -
  assume "c \<in> set s"
  then obtain u v where "s = u @ c # v" "c \<notin> set v" using split_list_last by metis
  then show ?thesis using last_split[of c v u] by simp
qed

lemma hex_no_dot: "is_hex n s \<Longrightarrow> CHR ''.'' \<notin> set s"
proof -
  have "\<not> is_hex_digit (CHR ''.'')" by (simp add: is_hex_digit_def)
  then show "is_hex n s \<Longrightarrow> CHR ''.'' \<notin> set s" by (auto simp: is_hex_def list_all_iff)
qed

lemma key_id_no_dot: "key_id s \<Longrightarrow> CHR ''.'' \<notin> set s"
proof -
  assume "key_id s"
  moreover have "\<not> key_id_char (CHR ''.'')" by (simp add: key_id_char_def is_digit_def is_lower_def lower_letters_def to_lower_def)
  ultimately show ?thesis by (auto simp: key_id_def list_all_iff)
qed

lemma decimal_no_dot: "CHR ''.'' \<notin> set (to_decimal n)"
proof -
  have "\<not> is_digit (CHR ''.'')" by (simp add: is_digit_def)
  then show ?thesis using to_decimal_digits[of n] by (auto simp: list_all_iff)
qed

definition token_text :: "string \<Rightarrow> nat \<Rightarrow> string \<Rightarrow> string \<Rightarrow> string \<Rightarrow> string" where
  "token_text keyId n h random mac = challenge_prefix keyId (int n) h random @ CHR ''.'' # mac"

definition token_parts_ok :: "string \<Rightarrow> nat \<Rightarrow> string \<Rightarrow> string \<Rightarrow> string \<Rightarrow> bool" where
  "token_parts_ok keyId n h random mac \<longleftrightarrow>
     key_id keyId \<and> 0 < n \<and> n \<le> 253402300739 \<and> is_hex64 h \<and> is_hex32 random \<and> is_hex64 mac"

lemma parse_token_iff:
  "parseAdmissionToken token = Some a \<longleftrightarrow>
   (\<exists>keyId n h random mac. token_parts_ok keyId n h random mac \<and> token = token_text keyId n h random mac \<and>
      a = \<lparr>at_keyId = keyId, at_issuedAt = int n, at_expiresAt = int n + 60, at_ticketHash = h,
           at_prefix = challenge_prefix keyId (int n) h random, at_mac = mac\<rparr>)" (is "?l \<longleftrightarrow> ?r")
proof
  assume l: ?l
  then obtain keyId issued h random mac where parts: "split_on (CHR ''.'') token = [''v1'', keyId, issued, h, random, mac]"
      "key_id keyId" "expiry_text issued" "is_hex64 h" "is_hex32 random" "is_hex64 mac" "int (decimal_value issued) \<le> 253402300739"
      "a = \<lparr>at_keyId = keyId, at_issuedAt = int (decimal_value issued), at_expiresAt = int (decimal_value issued) + 60, at_ticketHash = h,
            at_prefix = before_last (CHR ''.'') token, at_mac = mac\<rparr>"
    by (auto simp: parseAdmissionToken_def Let_def split: list.splits if_splits)
  obtain n where n: "0 < n" "issued = to_decimal n" using parts(3) by (auto simp: expiry_text_iff)
  have token: "token = token_text keyId n h random mac"
    using join_split[of "CHR ''.''" token] by (simp add: parts(1) n(2) token_text_def challenge_prefix_def)
  then have "before_last (CHR ''.'') token = challenge_prefix keyId (int n) h random"
    using last_split(1)[OF hex_no_dot[OF parts(6)]] by (simp add: token_text_def)
  then show ?r using parts n token unfolding token_parts_ok_def by auto
next
  assume ?r
  then obtain keyId n h random mac where t: "token_parts_ok keyId n h random mac" "token = token_text keyId n h random mac"
      "a = \<lparr>at_keyId = keyId, at_issuedAt = int n, at_expiresAt = int n + 60, at_ticketHash = h,
           at_prefix = challenge_prefix keyId (int n) h random, at_mac = mac\<rparr>"
    by blast
  then have parts: "key_id keyId" "0 < n" "n \<le> 253402300739" "is_hex64 h" "is_hex32 random" "is_hex64 mac"
    by (simp_all add: token_parts_ok_def)
  have "token = join (CHR ''.'') [''v1'', keyId, to_decimal n, h, random, mac]"
    by (simp add: t(2) token_text_def challenge_prefix_def)
  moreover have "split_on (CHR ''.'') (join (CHR ''.'') [''v1'', keyId, to_decimal n, h, random, mac]) =
      [''v1'', keyId, to_decimal n, h, random, mac]"
    using key_id_no_dot[OF parts(1)] decimal_no_dot hex_no_dot[OF parts(4)] hex_no_dot[OF parts(5)] hex_no_dot[OF parts(6)]
    by (intro split_join) simp_all
  moreover have "expiry_text (to_decimal n)" unfolding expiry_text_iff using parts(2,3) by (intro exI[of _ n]) simp
  moreover have "before_last (CHR ''.'') token = challenge_prefix keyId (int n) h random"
    using last_split(1)[OF hex_no_dot[OF parts(6)]] by (simp add: t(2) token_text_def)
  ultimately show ?l using parts t(3)
    by (simp add: parseAdmissionToken_def is_safe_integer_def max_safe_integer_def Let_def)
qed

lemma token_length: "token_parts_ok keyId n h random mac \<Longrightarrow> length (token_text keyId n h random mac) \<le> 211"
proof -
  assume ok: "token_parts_ok keyId n h random mac"
  then have "length keyId \<le> 32" "length h = 64" "length random = 32" "length mac = 64" "length (to_decimal n) \<le> 12"
    using is_hex_length to_decimal_short[of n 12] by (auto simp: token_parts_ok_def key_id_def)
  then show ?thesis by (simp add: token_text_def challenge_prefix_def)
qed

lemma verify_token:
  assumes "ne_ring e = Some ring" "token_parts_ok keyId n (ticketHash e t) random mac" "solution_text solution"
    "header r ADMISSION_HEADER = Some (token_text keyId n (ticketHash e t) random mac @ CHR ''.'' # solution)"
    "presented_ticket r prot = Some (t, nonce)"
    "kr_verify ring authority serverId (challenge_prefix keyId (int n) (ticketHash e t) random) keyId mac"
    "int n \<le> ne_clock e 0" "ne_clock e 0 < int n + 60" "ne_clock e 1 < int n + 60"
  shows "verifyRendezvousAdmission e r authority serverId prot =
    Inr (if work_done e (token_text keyId n (ticketHash e t) random mac) solution
         then Some \<lparr>va_ticket = t, va_expiresAt = int n + 60, va_clientNonce = nonce\<rparr> else None)"
proof -
  let ?token = "token_text keyId n (ticketHash e t) random mac"
  let ?parsed = "\<lparr>at_keyId = keyId, at_issuedAt = int n, at_expiresAt = int n + 60, at_ticketHash = ticketHash e t,
         at_prefix = challenge_prefix keyId (int n) (ticketHash e t) random, at_mac = mac\<rparr>"
  have dot: "CHR ''.'' \<notin> set solution" using assms(3) by (simp add: solution_text_def hex_no_dot)
  have "length solution = 16" using assms(3) by (simp add: solution_text_def is_hex_length)
  then have short: "length (?token @ CHR ''.'' # solution) \<le> 256" using token_length[OF assms(2)] by simp
  have parsed: "parseAdmissionToken ?token = Some ?parsed" unfolding parse_token_iff using assms(2) by blast
  show ?thesis
    using assms short parsed by (simp add: verifyRendezvousAdmission_def last_split[OF dot] Let_def)
qed

text \<open>
  C38: The admission of a client is decided exactly by its proof of work: it is admitted, with the
  ticket it presents and the expiry of its token, if and only if the token is one that the key ring
  signed for this authority and server, is in force at both readings of the clock, binds the hash
  of that ticket, and the solution yields 24 zero bits. The limit on the header's length refuses no
  valid proof.
\<close>

theorem admission_accepted_iff:
  "(verifyRendezvousAdmission e r authority serverId prot = Inr (Some a)) =
   (\<exists>ring keyId n random mac solution t nonce.
      ne_ring e = Some ring \<and> token_parts_ok keyId n (ticketHash e t) random mac \<and> solution_text solution \<and>
      header r ADMISSION_HEADER = Some (token_text keyId n (ticketHash e t) random mac @ CHR ''.'' # solution) \<and>
      presented_ticket r prot = Some (t, nonce) \<and>
      kr_verify ring authority serverId (challenge_prefix keyId (int n) (ticketHash e t) random) keyId mac \<and>
      work_done e (token_text keyId n (ticketHash e t) random mac) solution \<and>
      int n \<le> ne_clock e 0 \<and> ne_clock e 0 < int n + 60 \<and> ne_clock e 1 < int n + 60 \<and>
      a = \<lparr>va_ticket = t, va_expiresAt = int n + 60, va_clientNonce = nonce\<rparr>)" (is "?l = ?r")
proof
  assume l: ?l
  then obtain pt where pt: "header r ADMISSION_HEADER = Some pt"
    by (auto simp: verifyRendezvousAdmission_def split: option.splits)
  let ?token = "before_last (CHR ''.'') pt" and ?solution = "after_last (CHR ''.'') pt"
  obtain parsed t nonce ring where v: "solution_text ?solution" "parseAdmissionToken ?token = Some parsed"
      "at_issuedAt parsed \<le> ne_clock e 0" "ne_clock e 0 < at_expiresAt parsed" "presented_ticket r prot = Some (t, nonce)"
      "ticketHash e t = at_ticketHash parsed" "ne_ring e = Some ring"
      "kr_verify ring authority serverId (at_prefix parsed) (at_keyId parsed) (at_mac parsed)"
      "work_done e ?token ?solution" "ne_clock e 1 < at_expiresAt parsed"
      "a = \<lparr>va_ticket = t, va_expiresAt = at_expiresAt parsed, va_clientNonce = nonce\<rparr>"
    using l by (auto simp: verifyRendezvousAdmission_def pt Let_def split: option.splits if_splits)
  obtain keyId n h random mac where p: "token_parts_ok keyId n h random mac" "?token = token_text keyId n h random mac"
      "parsed = \<lparr>at_keyId = keyId, at_issuedAt = int n, at_expiresAt = int n + 60, at_ticketHash = h,
         at_prefix = challenge_prefix keyId (int n) h random, at_mac = mac\<rparr>"
    using v(2) unfolding parse_token_iff by blast
  have "CHR ''.'' \<in> set ?token" by (simp add: p(2) token_text_def)
  then have "CHR ''.'' \<in> set pt"
    by (cases "CHR ''.'' \<in> set pt") (auto simp: before_last_def dest: in_set_butlastD)
  from last_join[OF this] have hdr: "header r ADMISSION_HEADER = Some (token_text keyId n h random mac @ CHR ''.'' # ?solution)"
    using p(2) pt by simp
  have h: "h = ticketHash e t" using v(6) p(3) by simp
  show ?r
    by (rule exI[of _ ring], rule exI[of _ keyId], rule exI[of _ n], rule exI[of _ random], rule exI[of _ mac],
        rule exI[of _ ?solution], rule exI[of _ t], rule exI[of _ nonce])
      (use v(1,3-5,7-11) p hdr in \<open>simp add: h\<close>)
next
  assume ?r
  then obtain ring keyId n random mac solution t nonce where ok: "ne_ring e = Some ring"
      "token_parts_ok keyId n (ticketHash e t) random mac" "solution_text solution"
      "header r ADMISSION_HEADER = Some (token_text keyId n (ticketHash e t) random mac @ CHR ''.'' # solution)"
      "presented_ticket r prot = Some (t, nonce)"
      "kr_verify ring authority serverId (challenge_prefix keyId (int n) (ticketHash e t) random) keyId mac"
      "work_done e (token_text keyId n (ticketHash e t) random mac) solution"
      "int n \<le> ne_clock e 0" "ne_clock e 0 < int n + 60" "ne_clock e 1 < int n + 60"
      "a = \<lparr>va_ticket = t, va_expiresAt = int n + 60, va_clientNonce = nonce\<rparr>"
    by blast
  show ?l using verify_token[OF ok(1-6,8-10)] ok(7,11) by simp
qed

subsection \<open>From the entry to the room\<close>

lemma legacy_absent:
  "set (LEGACY_HEADERS @ FORBIDDEN_BODY_HEADERS) \<inter> set [''upgrade'', admission_header, ticket_header, expiry_header, nonce_header,
     role_header, protocol_header, authorization_header, generation_header] = {}"
  by (simp add: LEGACY_HEADERS_def FORBIDDEN_BODY_HEADERS_def admission_header_def ticket_header_def expiry_header_def
      nonce_header_def role_header_def protocol_header_def authorization_header_def generation_header_def)

definition upgrade_names :: "internal_upgrade \<Rightarrow> string list" where
  "upgrade_names u = map fst (rq_headers (internal_upgrade_request u))"

lemma upgrade_names_eq:
  "upgrade_names u = [''upgrade''] @
     (case iu_admission u of None \<Rightarrow> []
      | Some a \<Rightarrow> [admission_header, ticket_header, expiry_header] @ (if va_clientNonce a = None then [] else [nonce_header])) @
     [role_header, protocol_header, authorization_header, generation_header]"
  by (auto simp: upgrade_names_def internal_upgrade_request_def split: option.split)

lemma upgrade_headers:
  "header (internal_upgrade_request u) ''upgrade'' = Some ''websocket''"
  "header (internal_upgrade_request u) role_header = Some (if iu_role u = ClientRole then ''client'' else ''server'')"
  "header (internal_upgrade_request u) protocol_header = Some (if iu_accessProtocol u then ''access-tokens-v1'' else ''none'')"
  "header (internal_upgrade_request u) authorization_header = Some (if iu_authorizationRequired u then ''required'' else ''not-required'')"
  "header (internal_upgrade_request u) generation_header = Some (iu_generation u)"
  "iu_admission u = Some a \<Longrightarrow> header (internal_upgrade_request u) admission_header = Some ''work-v1-24''"
  "iu_admission u = Some a \<Longrightarrow> header (internal_upgrade_request u) ticket_header = Some (va_ticket a)"
  "iu_admission u = Some a \<Longrightarrow> header (internal_upgrade_request u) expiry_header = Some (json_int (va_expiresAt a))"
  "iu_admission u = Some a \<Longrightarrow> header (internal_upgrade_request u) nonce_header = va_clientNonce a"
  by (simp_all add: internal_upgrade_request_def header_def role_header_def protocol_header_def authorization_header_def
      generation_header_def admission_header_def ticket_header_def expiry_header_def nonce_header_def split: option.split)

lemma upgrade_no_legacy: "\<not> list_ex (has_header (internal_upgrade_request u)) (LEGACY_HEADERS @ FORBIDDEN_BODY_HEADERS)"
proof -
  have "set (upgrade_names u) \<subseteq> set [''upgrade'', admission_header, ticket_header, expiry_header, nonce_header, role_header,
      protocol_header, authorization_header, generation_header]"
    by (auto simp: upgrade_names_eq split: option.splits if_splits)
  then have "set (LEGACY_HEADERS @ FORBIDDEN_BODY_HEADERS) \<inter> set (upgrade_names u) = {}" using legacy_absent by blast
  then show ?thesis unfolding list_ex_iff has_header_def upgrade_names_def[symmetric] by blast
qed

text \<open>What an upgrade has to say, the clock left aside.\<close>

definition upgrade_shape :: "internal_upgrade \<Rightarrow> bool" where
  "upgrade_shape u \<longleftrightarrow>
     is_hex64 (iu_generation u) \<and>
     (case iu_role u of
        ServerRole \<Rightarrow> \<not> iu_authorizationRequired u \<and> iu_admission u = None
      | ClientRole \<Rightarrow>
          iu_accessProtocol u = iu_authorizationRequired u \<and>
          (case iu_admission u of
             None \<Rightarrow> False
           | Some a \<Rightarrow>
               is_hex64 (va_ticket a) \<and> 0 < va_expiresAt a \<and> va_expiresAt a < 10 ^ 12 \<and>
               (case va_clientNonce a of None \<Rightarrow> \<not> iu_authorizationRequired u | Some n \<Rightarrow> iu_authorizationRequired u \<and> is_hex64 n)))"

definition upgrade_timely :: "int \<Rightarrow> internal_upgrade \<Rightarrow> bool" where
  "upgrade_timely nowMs u \<longleftrightarrow>
     (case iu_admission u of
        None \<Rightarrow> True
      | Some a \<Rightarrow> nowMs div 1000 < va_expiresAt a \<and> va_expiresAt a \<le> nowMs div 1000 + 60)"

lemma expiry_header_text:
  "0 < n \<Longrightarrow> n < 10 ^ 12 \<Longrightarrow> expiry_text (json_int n) \<and> int (decimal_value (json_int n)) = n"
proof -
  assume n: "0 < n" "n < 10 ^ 12"
  then have "0 < nat n" "nat n < 10 ^ 12" by (auto simp: nat_less_iff)
  then have "expiry_text (to_decimal (nat n))" unfolding expiry_text_iff by (intro exI[of _ "nat n"] conjI refl)
  then show ?thesis using n by (simp add: json_int_def)
qed

lemma admission_forwarded:
  assumes "upgrade_shape u" "iu_role u = ClientRole" "iu_admission u = Some a"
  shows "upgrade_admission nowMs (iu_authorizationRequired u) (internal_upgrade_request u) =
    (if upgrade_timely nowMs u then
       Some (a, [admission_header, ticket_header, expiry_header] @ (if va_clientNonce a = None then [] else [nonce_header]))
     else None)"
proof -
  have shape: "is_hex64 (va_ticket a)" "0 < va_expiresAt a" "va_expiresAt a < 10 ^ 12"
      "case va_clientNonce a of None \<Rightarrow> \<not> iu_authorizationRequired u | Some n \<Rightarrow> iu_authorizationRequired u \<and> is_hex64 n"
    using assms by (simp_all add: upgrade_shape_def)
  note [simp] = upgrade_headers[of u, simplified] upgrade_headers(6-9)[OF assms(3)]
  show ?thesis
    using shape expiry_header_text[OF shape(2,3)] assms(3)
    by (auto simp: upgrade_admission_def Let_def header_is_def upgrade_timely_def split: option.splits)
qed

lemma forwarded_upgrade:
  assumes "upgrade_shape u"
  shows "validateInternalRendezvousUpgrade nowMs (internal_upgrade_request u) =
    (if upgrade_timely nowMs u then Some u else None)"
proof -
  let ?q = "internal_upgrade_request u"
  have names: "map fst (rq_headers ?q) = upgrade_names u" by (simp add: upgrade_names_def)
  have line: "rq_url ?q = ''https://rendezvous.internal/v5''" "rq_method ?q = ''GET''" "rq_body ?q = None"
    by (simp_all add: internal_upgrade_request_def)
  have gen: "is_hex64 (iu_generation u)" using assms by (simp add: upgrade_shape_def)
  show ?thesis
  proof (cases "iu_role u")
    case ServerRole
    then have "\<not> iu_authorizationRequired u" "iu_admission u = None" using assms by (simp_all add: upgrade_shape_def)
    then show ?thesis using ServerRole gen upgrade_no_legacy[of u]
      by (simp add: validateInternalRendezvousUpgrade_def line names upgrade_headers header_is_def upgrade_timely_def
          upgrade_names_eq)
  next
    case ClientRole
    then obtain a where a: "iu_admission u = Some a" "iu_accessProtocol u = iu_authorizationRequired u"
      using assms by (auto simp: upgrade_shape_def split: option.splits)
    have u: "\<lparr>iu_role = ClientRole, iu_accessProtocol = iu_authorizationRequired u,
        iu_authorizationRequired = iu_authorizationRequired u, iu_generation = iu_generation u, iu_admission = Some a\<rparr> = u"
      using ClientRole a by (intro internal_upgrade.equality) simp_all
    have allowed: "\<not> list_ex (\<lambda>name. name \<notin> set ([''upgrade'', role_header, protocol_header, authorization_header,
        generation_header] @ [admission_header, ticket_header, expiry_header] @
        (if va_clientNonce a = None then [] else [nonce_header]))) (upgrade_names u)"
      by (auto simp: upgrade_names_eq a(1) list_ex_iff)
    have "validateInternalRendezvousUpgrade nowMs ?q =
        (case upgrade_admission nowMs (iu_authorizationRequired u) ?q of
           None \<Rightarrow> None
         | Some (b, names) \<Rightarrow>
             if list_ex (\<lambda>name. name \<notin> set ([''upgrade'', role_header, protocol_header, authorization_header, generation_header] @ names))
               (upgrade_names u) then None
             else Some \<lparr>iu_role = ClientRole, iu_accessProtocol = iu_authorizationRequired u,
               iu_authorizationRequired = iu_authorizationRequired u, iu_generation = iu_generation u, iu_admission = Some b\<rparr>)"
      unfolding validateInternalRendezvousUpgrade_def Let_def line names header_is_def upgrade_headers(1-5)
      using ClientRole gen upgrade_no_legacy[of u] a
      by (cases "iu_authorizationRequired u") (auto split: option.split)
    then show ?thesis unfolding admission_forwarded[OF assms ClientRole a(1)] using allowed u by simp
  qed
qed

lemma presented_shape:
  "presented_ticket r prot = Some (t, nonce) \<Longrightarrow>
   is_hex64 t \<and> (case nonce of None \<Rightarrow> \<not> prot | Some n \<Rightarrow> prot \<and> is_hex64 n)"
  by (auto simp: presented_ticket_def bearer_token_def Let_def header_is_def split: if_splits option.splits)

lemma admission_shape:
  assumes "verifyRendezvousAdmission e r authority serverId prot = Inr (Some a)"
  shows "is_hex64 (va_ticket a)" "0 < va_expiresAt a" "va_expiresAt a < 10 ^ 12" "va_expiresAt a \<le> ne_clock e 0 + 60"
    "case va_clientNonce a of None \<Rightarrow> \<not> prot | Some n \<Rightarrow> prot \<and> is_hex64 n"
proof -
  obtain pt where pt: "header r ADMISSION_HEADER = Some pt"
    using assms by (auto simp: verifyRendezvousAdmission_def split: option.splits)
  obtain parsed t nonce where v: "parseAdmissionToken (before_last (CHR ''.'') pt) = Some parsed"
      "at_issuedAt parsed \<le> ne_clock e 0" "presented_ticket r prot = Some (t, nonce)"
      "a = \<lparr>va_ticket = t, va_expiresAt = at_expiresAt parsed, va_clientNonce = nonce\<rparr>"
    using assms by (auto simp: verifyRendezvousAdmission_def pt Let_def split: option.splits if_splits)
  obtain n where n: "at_issuedAt parsed = int n" "at_expiresAt parsed = int n + 60" "n \<le> 253402300739"
    using v(1) unfolding parse_token_iff token_parts_ok_def by force
  then show "0 < va_expiresAt a" "va_expiresAt a < 10 ^ 12" "va_expiresAt a \<le> ne_clock e 0 + 60" using v(2) by (simp_all add: v(4))
  show "is_hex64 (va_ticket a)" "case va_clientNonce a of None \<Rightarrow> \<not> prot | Some n \<Rightarrow> prot \<and> is_hex64 n"
    using presented_shape[OF v(3)] by (simp_all add: v(4))
qed

text \<open>Who is let through: a server with the token of its presence, or a client with a verified admission.\<close>

definition entry_granted ::
  "entry_environment \<Rightarrow> directory \<Rightarrow> string \<Rightarrow> int \<Rightarrow> bool \<Rightarrow> bool \<Rightarrow> http_request \<Rightarrow> string \<Rightarrow> internal_upgrade \<Rightarrow> bool" where
  "entry_granted e w authority ttl clientEligible serverAuthenticated r serverId u \<longleftrightarrow>
     (case presence_at ClassicV3 serverId w of
        None \<Rightarrow> False
      | Some x \<Rightarrow>
          ps_seen x > ne_clock e 2 - ttl \<and> serverId \<notin> set (db_denials (dr_base w)) \<and> iu_generation u = ps_generation x \<and>
          (case iu_role u of
             ServerRole \<Rightarrow>
               iu_admission u = None \<and> \<not> iu_authorizationRequired u \<and> serverAuthenticated \<and>
               (ps_access x = Some True \<longrightarrow> iu_accessProtocol u) \<and>
               ne_digest e (ne_digest e (case bearer_token_i (header_or_empty r ''authorization'') of None \<Rightarrow> '''' | Some t \<Rightarrow> t)) =
                 ne_digest e (ps_token_hash x)
           | ClientRole \<Rightarrow>
               clientEligible \<and> iu_authorizationRequired u = (ps_access x = Some True) \<and>
               iu_accessProtocol u = iu_authorizationRequired u \<and>
               (iu_accessProtocol u \<or> list_ex (\<lambda>en. en_profile en = ClassicV3 \<and> en_server en = serverId) (dr_entries w)) \<and>
               verifyRendezvousAdmission e r authority serverId (iu_accessProtocol u) = Inr (iu_admission u) \<and>
               iu_admission u \<noteq> None))"

lemma openRendezvous_granted:
  assumes "openRendezvous e w authority ttl clientEligible serverAuthenticated path r serverId rl = ToRoom room q"
  shows "\<exists>u. room = serverId \<and> q = internal_upgrade_request u \<and> iu_role u = rl \<and>
    entry_granted e w authority ttl clientEligible serverAuthenticated r serverId u"
proof -
  define access where "access = (header r ''sec-websocket-protocol'' = Some ACCESS_RENDEZVOUS_SUBPROTOCOL)"
  obtain admission where adm: "(if rl = ClientRole then verifyRendezvousAdmission e r authority serverId access else Inr None) = Inr admission"
      "\<not> (rl = ClientRole \<and> admission = None)"
    and tail: "(case rendezvous_server w serverId (ne_clock e 2 - ttl) rl access of
       None \<Rightarrow> FixedError ServerOffline
     | Some server \<Rightarrow>
         let required = (ps_access server = Some True);
             forward = ToRoom serverId (internal_upgrade_request
               \<lparr>iu_role = rl, iu_accessProtocol = access, iu_authorizationRequired = (rl = ClientRole \<and> required),
                iu_generation = ps_generation server, iu_admission = admission\<rparr>) in
         if rl = ServerRole then
           if required \<and> \<not> access then FixedError InvalidSubprotocol
           else
             let token = (case bearer_token_i (header_or_empty r ''authorization'') of None \<Rightarrow> '''' | Some t \<Rightarrow> t) in
             if ne_digest e (ne_digest e token) \<noteq> ne_digest e (ps_token_hash server) then FixedError InvalidToken
             else if \<not> serverAuthenticated then Thrown
             else forward
         else if required then
           if \<not> access then FixedError AuthorizationUnavailable
           else if \<not> clientEligible then Thrown else forward
         else if access then FixedError InvalidSubprotocol
         else if \<not> clientEligible then Thrown
         else forward) = ToRoom room q"
    using assms
    by (simp add: openRendezvous_def Let_def access_def[symmetric] split: if_splits sum.splits)
  then obtain x where x: "rendezvous_server w serverId (ne_clock e 2 - ttl) rl access = Some x" by (auto split: option.splits)
  let ?u = "\<lparr>iu_role = rl, iu_accessProtocol = access, iu_authorizationRequired = (rl = ClientRole \<and> ps_access x = Some True),
      iu_generation = ps_generation x, iu_admission = admission\<rparr>"
  have room: "room = serverId" "q = internal_upgrade_request ?u"
    using tail x by (auto simp: Let_def split: if_splits)
  have "presence_at ClassicV3 serverId w = Some x" "ps_seen x > ne_clock e 2 - ttl" "serverId \<notin> set (db_denials (dr_base w))"
      "rl = ServerRole \<or> access \<or> list_ex (\<lambda>en. en_profile en = ClassicV3 \<and> en_server en = serverId) (dr_entries w)"
    using x by (auto simp: rendezvous_server_def split: option.splits if_splits)
  then have "entry_granted e w authority ttl clientEligible serverAuthenticated r serverId ?u"
    using tail x adm by (cases rl) (auto simp: entry_granted_def Let_def split: if_splits)
  with room show ?thesis by (intro exI[of _ ?u]) simp
qed

text \<open>
  C39: Entry and room agree. For a request that the Worker forwards, over presences that satisfy
  their constraints and to a room whose clock is not behind the Worker's first reading of its own,
  the room's validation answers with exactly the role, protocol, generation and admission that the
  Worker granted, unless the admission has expired by the room's clock: then, and only then, it
  refuses. The Worker grants a server only with the token of its live presence and a client only
  with a verified admission, under the access rules of the presence.
\<close>

theorem entry_and_room_agree:
  assumes "openRendezvous e w authority ttl clientEligible serverAuthenticated path r serverId rl = ToRoom room q"
    and "list_all presence_row_ok (db_presence (dr_base w))"
    and "ne_clock e 0 * 1000 \<le> nowMs"
  shows "\<exists>u. room = serverId \<and> iu_role u = rl \<and>
    entry_granted e w authority ttl clientEligible serverAuthenticated r serverId u \<and>
    validateInternalRendezvousUpgrade nowMs q =
      (if (case iu_admission u of None \<Rightarrow> True | Some a \<Rightarrow> nowMs < va_expiresAt a * 1000) then Some u else None)"
proof -
  obtain u where u: "room = serverId" "q = internal_upgrade_request u" "iu_role u = rl"
      "entry_granted e w authority ttl clientEligible serverAuthenticated r serverId u"
    using openRendezvous_granted[OF assms(1)] by blast
  obtain x where x: "presence_at ClassicV3 serverId w = Some x" "iu_generation u = ps_generation x"
    using u(4) by (auto simp: entry_granted_def split: option.splits)
  have "presence_row_ok x" using x(1) assms(2) lookup_Some by (fastforce simp: presence_at_def list_all_iff)
  then have gen: "is_hex64 (iu_generation u)" by (simp add: x(2) presence_row_ok_def)
  have clock: "nowMs = nowMs div 1000 * 1000 + nowMs mod 1000" "0 \<le> nowMs mod 1000" "nowMs mod 1000 < 1000" by simp_all
  have "upgrade_shape u \<and> (upgrade_timely nowMs u \<longleftrightarrow>
      (case iu_admission u of None \<Rightarrow> True | Some a \<Rightarrow> nowMs < va_expiresAt a * 1000))"
  proof (cases rl)
    case ServerRole
    then show ?thesis using u(3,4) x gen by (auto simp: entry_granted_def upgrade_shape_def upgrade_timely_def)
  next
    case ClientRole
    then obtain a where a: "iu_admission u = Some a" "iu_accessProtocol u = iu_authorizationRequired u"
        "verifyRendezvousAdmission e r authority serverId (iu_accessProtocol u) = Inr (Some a)"
      using u(3,4) x by (auto simp: entry_granted_def)
    note shape = admission_shape[OF a(3)]
    have "upgrade_shape u" using ClientRole u(3) gen a(1,2) shape(1-3) shape(5)[unfolded a(2)] by (simp add: upgrade_shape_def)
    moreover have "va_expiresAt a \<le> nowMs div 1000 + 60" using shape(4) assms(3) clock by linarith
    moreover have "nowMs div 1000 < va_expiresAt a \<longleftrightarrow> nowMs < va_expiresAt a * 1000" using clock by linarith
    ultimately show ?thesis by (simp add: upgrade_timely_def a(1))
  qed
  then show ?thesis using u forwarded_upgrade[of u nowMs] by (intro exI[of _ u]) simp
qed

subsection \<open>A challenge that was issued\<close>

definition challenge_token :: "key_ring \<Rightarrow> string \<Rightarrow> string \<Rightarrow> nat \<Rightarrow> string \<Rightarrow> string \<Rightarrow> string" where
  "challenge_token ring authority serverId n h random =
     token_text (kr_key ring) n h random (kr_sign ring authority serverId (challenge_prefix (kr_key ring) (int n) h random))"

definition challenge_body :: "string \<Rightarrow> string" where
  "challenge_body h = json_object [(''schema'', json_string ADMISSION_SCHEMA), (''ticketHash'', json_string h)]"

lemma challenge_hash_body: "is_hex64 h \<Longrightarrow> challenge_hash (challenge_body h) = Some h"
proof -
  assume h: "is_hex64 h"
  have plain: "concat (map json_escape h) = h"
    using hex_plain[OF h] by (induction h) (auto simp: plain_char_def json_escape_def Let_def)
  have "\<exists>pre post. length pre = 58 \<and> challenge_body h = pre @ h @ post"
    by (rule exI[of _ "CHR ''{'' # json_string ''schema'' @ CHR '':'' # json_string ADMISSION_SCHEMA @ CHR '','' # json_string ''ticketHash'' @ CHR '':'' # [byte 34]"],
        rule exI[of _ "byte 34 # ''}''"])
      (simp add: challenge_body_def json_object_def json_join_def json_string_def plain ADMISSION_SCHEMA_def json_escape_def)
  then obtain pre post where body: "length pre = 58" "challenge_body h = pre @ h @ post" by blast
  then have "take 64 (drop 58 (challenge_body h)) = h" using h is_hex_length[of 64 h] by simp
  then show ?thesis using h unfolding challenge_hash_def Let_def by (simp add: challenge_body_def)
qed

lemma key_char_plain: "key_id_char c \<Longrightarrow> plain_char c"
proof (cases "65 \<le> (of_char c :: nat) \<and> (of_char c :: nat) \<le> 90")
  case False
  assume "key_id_char c"
  moreover have "to_lower c = c" using False by (auto simp: to_lower_def Let_def)
  moreover have "list_all plain_char lower_letters" "list_all plain_char ''_-''" by (simp_all add: plain_char_def lower_letters_def)
  ultimately show ?thesis
    using is_digit_unit[of c] by (auto simp: key_id_char_def is_lower_def list_all_iff) (simp add: digit_unit_def plain_char_def)
qed (simp add: plain_char_def)

text \<open>
  C40: A challenge is worth its work: the reply to the canonical body is a JSON object whose
  challenge, with any solution of 16 digits, admits the holder of the ticket for 60 seconds if and
  only if the solution does the work; a ring that does not accept its own signature aside.
\<close>

theorem issued_challenge_admits:
  assumes ring: "ne_ring e = Some ring" "key_id (kr_key ring)" "\<And>p. is_hex64 (kr_sign ring authority serverId p)"
      "\<And>p. kr_verify ring authority serverId p (kr_key ring) (kr_sign ring authority serverId p)"
    and vals: "is_hex64 (ticketHash e t)" "is_hex32 random" "0 < n" "n \<le> 253402300739"
    and request: "solution_text solution" "presented_ticket r prot = Some (t, nonce)"
      "header r ADMISSION_HEADER = Some (challenge_token ring authority serverId n (ticketHash e t) random @ CHR ''.'' # solution)"
    and clock: "int n \<le> ne_clock e' 0" "ne_clock e' 0 < int n + 60" "ne_clock e' 1 < int n + 60"
      "ne_digest e' = ne_digest e" "ne_ring e' = ne_ring e"
  shows "\<exists>reply v. issueRendezvousChallenge e (challenge_body (ticketHash e t)) authority serverId (int n) random = Challenge reply \<and>
    JSON_parse (ascii16 reply) = Some v \<and>
    the_ascii (field v ''challenge'') = challenge_token ring authority serverId n (ticketHash e t) random \<and>
    verifyRendezvousAdmission e' r authority serverId prot =
      Inr (if work_done e (challenge_token ring authority serverId n (ticketHash e t) random) solution
           then Some \<lparr>va_ticket = t, va_expiresAt = int n + 60, va_clientNonce = nonce\<rparr> else None)"
proof -
  let ?h = "ticketHash e t" and ?prefix = "challenge_prefix (kr_key ring) (int n) (ticketHash e t) random"
  let ?mac = "kr_sign ring authority serverId ?prefix" and ?token = "challenge_token ring authority serverId n (ticketHash e t) random"
  have token: "?token = token_text (kr_key ring) n ?h random ?mac" by (simp add: challenge_token_def)
  have parts: "token_parts_ok (kr_key ring) n ?h random ?mac" using ring vals by (simp add: token_parts_ok_def)
  have plain: "list_all plain_char ?token"
  proof -
    have dash: "list_all plain_char ''v1.''" by (simp add: plain_char_def)
    have "list_all plain_char (kr_key ring)" using ring(2) key_char_plain by (auto simp: key_id_def list_all_iff)
    moreover have "list_all plain_char (to_decimal n)"
      using to_decimal_digits[of n] hex_address_char(2) address_plain by (auto simp: list_all_iff)
    ultimately show ?thesis
      using dash hex_plain[OF vals(1)] hex_plain[OF vals(2)] hex_plain[OF ring(3)]
      by (simp add: token token_text_def challenge_prefix_def)
  qed
  let ?reply = "atom_object_text [(''schema'', AtomText ADMISSION_SCHEMA), (''challenge'', AtomText ?token),
      (''difficulty'', AtomInt ADMISSION_DIFFICULTY), (''expiresAt'', AtomText (to_decimal (n + 60)))]"
  have issue: "issueRendezvousChallenge e (challenge_body ?h) authority serverId (int n) random = Challenge ?reply"
    using ring(1) challenge_hash_body[OF vals(1)]
    by (simp add: issueRendezvousChallenge_def challenge_token_def token_text_def atom_object_text_def json_int_def nat_add_distrib Let_def)
  have "members_ok [(''schema'', AtomText ADMISSION_SCHEMA), (''challenge'', AtomText ?token),
      (''difficulty'', AtomInt ADMISSION_DIFFICULTY), (''expiresAt'', AtomText (to_decimal (n + 60)))]"
  proof -
    have "list_all plain_char (to_decimal (n + 60))"
      using to_decimal_digits[of "n + 60"] hex_address_char(2) address_plain by (auto simp: list_all_iff)
    then show ?thesis using plain by (simp add: members_ok_def ADMISSION_SCHEMA_def ADMISSION_DIFFICULTY_def) (simp add: plain_char_def)
  qed
  from atom_object_parse[OF this] have parse: "JSON_parse (ascii16 ?reply) =
      Some (ascii_object [(''schema'', JsText (ascii16 ADMISSION_SCHEMA)), (''challenge'', JsText (ascii16 ?token)),
        (''difficulty'', JsInt (int ADMISSION_DIFFICULTY)), (''expiresAt'', JsText (ascii16 (to_decimal (n + 60))))])"
    by simp
  have "verifyRendezvousAdmission e' r authority serverId prot =
      Inr (if work_done e' ?token solution then Some \<lparr>va_ticket = t, va_expiresAt = int n + 60, va_clientNonce = nonce\<rparr> else None)"
  proof -
    have same: "ticketHash e' t = ?h" using clock(4) by (simp add: ticketHash_def)
    show ?thesis
      using verify_token[of e' ring "kr_key ring" n t random ?mac solution r prot nonce authority serverId] ring request clock parts
      by (simp add: same token)
  qed
  moreover have "work_done e' ?token solution = work_done e ?token solution" using clock(4) by (simp add: work_done_def)
  ultimately show ?thesis
    using issue parse ascii_matches(2)[OF plain] by (intro exI[of _ ?reply] exI conjI) (auto simp: field_ascii_object)
qed

subsection \<open>Examples\<close>

definition example_ring :: key_ring where
  "example_ring = \<lparr>kr_key = ''k1'', kr_sign = (\<lambda>_ _ _. replicate 64 (CHR ''f'')),
     kr_verify = (\<lambda>_ _ _ k m. k = ''k1'' \<and> m = replicate 64 (CHR ''f''))\<rparr>"

definition example_entry :: entry_environment where
  "example_entry = \<lparr>ne_digest = (\<lambda>_. replicate 64 (CHR ''0'')), ne_ring = Some example_ring, ne_clock = (\<lambda>_. 1000)\<rparr>"

definition example_challenge :: string where
  "example_challenge = challenge_token example_ring ''rendezvous.example'' (replicate 64 (CHR ''a'')) 990
     (replicate 64 (CHR ''0'')) (replicate 32 (CHR ''7''))"

definition example_client_request :: http_request where
  "example_client_request = \<lparr>rq_url = '''', rq_method = ''GET'',
     rq_headers = [(TICKET_HEADER, replicate 64 (CHR ''b'')),
       (ADMISSION_HEADER, example_challenge @ CHR ''.'' # replicate 16 (CHR ''5''))], rq_body = None\<rparr>"

lemma example_key: "key_id (kr_key example_ring)"
  by (simp add: example_ring_def key_id_def key_id_char_def is_digit_def is_lower_def lower_letters_def to_lower_def)

theorem issued_challenge_admits_witness:
  "verifyRendezvousAdmission example_entry example_client_request ''rendezvous.example'' (replicate 64 (CHR ''a'')) False =
   Inr (Some \<lparr>va_ticket = replicate 64 (CHR ''b''), va_expiresAt = 1050, va_clientNonce = None\<rparr>)"
proof -
  have h: "ticketHash example_entry (replicate 64 (CHR ''b'')) = replicate 64 (CHR ''0'')"
    by (simp add: ticketHash_def example_entry_def)
  have "presented_ticket example_client_request False = Some (replicate 64 (CHR ''b''), None)"
    by (simp add: presented_ticket_def header_or_empty_def header_def has_header_def example_client_request_def Let_def
        TICKET_HEADER_def ADMISSION_HEADER_def CLIENT_NONCE_HEADER_def is_hex_digit_def)
  moreover have "header example_client_request ADMISSION_HEADER = Some (example_challenge @ CHR ''.'' # replicate 16 (CHR ''5''))"
    by (simp add: header_def example_client_request_def TICKET_HEADER_def ADMISSION_HEADER_def)
  moreover have "work_done example_entry x y" for x y by (simp add: work_done_def example_entry_def numeral_eq_Suc)
  moreover have "ne_ring example_entry = Some example_ring" "is_hex64 (kr_sign example_ring a s p)"
      "kr_verify example_ring a s p (kr_key example_ring) (kr_sign example_ring a s p)" for a s p
    by (simp_all add: example_entry_def example_ring_def is_hex_digit_def)
  moreover have "ne_clock example_entry k = 1000" for k by (simp add: example_entry_def)
  ultimately show ?thesis
    using issued_challenge_admits[of example_entry example_ring "''rendezvous.example''" "replicate 64 (CHR ''a'')"
        "replicate 64 (CHR ''b'')" "replicate 32 (CHR ''7'')" 990 "replicate 16 (CHR ''5'')" example_client_request False None example_entry]
      example_key
    by (auto simp: h example_challenge_def solution_text_def is_hex_digit_def)
qed

definition example_server_row :: presence_row where
  "example_server_row = \<lparr>ps_profile = ClassicV3, ps_server = replicate 64 (CHR ''a''), ps_seen = 990,
     ps_token_hash = replicate 64 (CHR ''0''), ps_generation = replicate 64 (CHR ''c''), ps_commit = replicate 64 (CHR ''9''),
     ps_base = 0, ps_visible = None, ps_certificate = Some ''AAAA'', ps_name = Some ''n'', ps_hostname = None, ps_port = None,
     ps_access = Some False\<rparr>"

definition example_listing :: directory where
  "example_listing = example_directory\<lparr>dr_base := (dr_base example_directory)\<lparr>db_presence := [example_server_row], db_denials := []\<rparr>\<rparr>"

definition example_server_request :: http_request where
  "example_server_request = \<lparr>rq_url = '''', rq_method = ''GET'',
     rq_headers = [(''upgrade'', ''websocket''), (''authorization'', ''Bearer '' @ replicate 64 (CHR ''b''))], rq_body = None\<rparr>"

lemma example_row_ok: "presence_row_ok example_server_row"
  by (simp add: presence_row_ok_def example_server_row_def stored_integer_def is_safe_integer_def max_safe_integer_def
      is_hex_digit_def current_profile_def sql_certificate_ok_def sql_name_ok_def sql_text_ok_def sql_endpoint_ok_def
      base64_char_def has_part_def upper_letters_def)

lemma example_admission:
  "verifyRendezvousAdmission example_entry example_client_request ''rendezvous.example'' (replicate 64 (CHR ''a'')) False =
   Inr (Some \<lparr>va_ticket = replicate 64 (CHR ''b''), va_expiresAt = 1050, va_clientNonce = None\<rparr>)"
proof -
  have h: "ticketHash example_entry (replicate 64 (CHR ''b'')) = replicate 64 (CHR ''0'')"
    by (simp add: ticketHash_def example_entry_def)
  have pt: "presented_ticket example_client_request False = Some (replicate 64 (CHR ''b''), None)"
    by (simp add: presented_ticket_def header_or_empty_def header_def has_header_def example_client_request_def Let_def
        TICKET_HEADER_def ADMISSION_HEADER_def CLIENT_NONCE_HEADER_def is_hex_digit_def)
  have sent: "header example_client_request ADMISSION_HEADER = Some (token_text ''k1'' 990
      (ticketHash example_entry (replicate 64 (CHR ''b''))) (replicate 32 (CHR ''7'')) (replicate 64 (CHR ''f'')) @
      CHR ''.'' # replicate 16 (CHR ''5''))"
    by (simp add: h header_def example_client_request_def TICKET_HEADER_def ADMISSION_HEADER_def example_challenge_def
        challenge_token_def example_ring_def)
  have parts: "token_parts_ok ''k1'' 990 (ticketHash example_entry (replicate 64 (CHR ''b''))) (replicate 32 (CHR ''7''))
      (replicate 64 (CHR ''f''))"
    using example_key by (simp add: token_parts_ok_def h is_hex_digit_def) (simp add: example_ring_def)
  have "work_done example_entry x y" for x y by (simp add: work_done_def example_entry_def numeral_eq_Suc)
  then show ?thesis
    using verify_token[OF _ parts _ sent pt, of example_ring "''rendezvous.example''" "replicate 64 (CHR ''a'')"]
    by (simp add: solution_text_def is_hex_digit_def) (simp add: example_entry_def example_ring_def)
qed

lemma example_row_found:
  "presence_row_ok example_server_row \<Longrightarrow> list_all presence_row_ok (db_presence (dr_base example_listing))"
  by (simp add: example_listing_def)

lemma example_server_forwarded:
  "\<exists>q. openRendezvous example_entry example_listing ''rendezvous.example'' 300 True True ''/'' example_server_request
     (replicate 64 (CHR ''a'')) ServerRole = ToRoom (replicate 64 (CHR ''a'')) q"
proof -
  have found: "rendezvous_server example_listing (replicate 64 (CHR ''a'')) 700 ServerRole False = Some example_server_row"
    by (simp add: rendezvous_server_def presence_at_def example_listing_def example_server_row_def presence_key_def)
  have upgrade: "header_is example_server_request ''upgrade'' (\<lambda>s. map to_lower s = ''websocket'')"
    by (simp add: header_is_def header_def example_server_request_def to_lower_def)
  have headers: "header example_server_request ''sec-websocket-protocol'' = None"
      "\<not> list_ex (has_header example_server_request) [ADMISSION_HEADER, TICKET_HEADER, CLIENT_NONCE_HEADER]"
    by (simp_all add: header_def has_header_def example_server_request_def ADMISSION_HEADER_def TICKET_HEADER_def CLIENT_NONCE_HEADER_def)
  show ?thesis
    using found upgrade headers
    by (simp add: openRendezvous_def Let_def example_entry_def is_hex_digit_def) (simp add: example_server_row_def)
qed

text \<open>The listed server's client, with the admission of the example challenge.\<close>

definition example_entry_row :: entry_row where
  "example_entry_row = (entry_row_of example_publication)\<lparr>en_server := replicate 64 (CHR ''a'')\<rparr>"

definition example_listed :: directory where
  "example_listed = example_listing\<lparr>dr_entries := [example_entry_row]\<rparr>"

definition example_join_request :: http_request where
  "example_join_request = example_client_request\<lparr>rq_headers := (''upgrade'', ''websocket'') # rq_headers example_client_request\<rparr>"

lemma example_join_headers:
  "k \<in> {TICKET_HEADER, ADMISSION_HEADER, CLIENT_NONCE_HEADER, ''authorization'', ''sec-websocket-protocol''} \<Longrightarrow>
   header example_join_request k = header example_client_request k \<and>
   has_header example_join_request k = has_header example_client_request k"
  by (auto simp: header_def has_header_def example_join_request_def example_client_request_def
      TICKET_HEADER_def ADMISSION_HEADER_def CLIENT_NONCE_HEADER_def)

lemma example_join_verified:
  "verifyRendezvousAdmission example_entry example_join_request ''rendezvous.example'' (replicate 64 (CHR ''a'')) False =
   verifyRendezvousAdmission example_entry example_client_request ''rendezvous.example'' (replicate 64 (CHR ''a'')) False"
proof -
  have same: "presented_ticket example_join_request False = presented_ticket example_client_request False"
      "header example_join_request ADMISSION_HEADER = header example_client_request ADMISSION_HEADER"
    using example_join_headers by (simp_all add: presented_ticket_def header_or_empty_def)
  show ?thesis unfolding verifyRendezvousAdmission_def same by (rule refl)
qed

lemma example_client_forwarded:
  "\<exists>q. openRendezvous example_entry example_listed ''rendezvous.example'' 300 True True ''/'' example_join_request
     (replicate 64 (CHR ''a'')) ClientRole = ToRoom (replicate 64 (CHR ''a'')) q"
proof -
  have found: "rendezvous_server example_listed (replicate 64 (CHR ''a'')) 700 ClientRole False = Some example_server_row"
    by (simp add: rendezvous_server_def presence_at_def example_listed_def example_listing_def example_server_row_def
        presence_key_def) (simp add: example_entry_row_def entry_row_of_def example_publication_def pb_profile_def)
  have upgrade: "header_is example_join_request ''upgrade'' (\<lambda>s. map to_lower s = ''websocket'')"
    by (simp add: header_is_def header_def example_join_request_def to_lower_def)
  have headers: "header example_join_request ''sec-websocket-protocol'' = None" "has_header example_join_request ADMISSION_HEADER"
    by (simp_all add: header_def has_header_def example_join_request_def example_client_request_def ADMISSION_HEADER_def
        TICKET_HEADER_def)
  show ?thesis
    using found upgrade headers example_join_verified example_admission
    by (simp add: openRendezvous_def Let_def is_hex_digit_def)
      (simp add: example_entry_def example_server_row_def)
qed

theorem entry_and_room_agree_witness:
  "(\<exists>q u. openRendezvous example_entry example_listing ''rendezvous.example'' 300 True True ''/'' example_server_request
       (replicate 64 (CHR ''a'')) ServerRole = ToRoom (replicate 64 (CHR ''a'')) q \<and>
     validateInternalRendezvousUpgrade 1000000 q = Some u) \<and>
   (\<exists>q u a. openRendezvous example_entry example_listed ''rendezvous.example'' 300 True True ''/'' example_join_request
       (replicate 64 (CHR ''a'')) ClientRole = ToRoom (replicate 64 (CHR ''a'')) q \<and>
     iu_admission u = Some a \<and> va_expiresAt a = 1050 \<and>
     validateInternalRendezvousUpgrade 1049999 q = Some u \<and> validateInternalRendezvousUpgrade 1050000 q = None)"
proof
  have rows: "list_all presence_row_ok (db_presence (dr_base example_listing))"
      "list_all presence_row_ok (db_presence (dr_base example_listed))"
    using example_row_found[OF example_row_ok] by (simp_all add: example_listed_def)
  have clock: "ne_clock example_entry 0 = 1000" by (simp add: example_entry_def)
  obtain q where q: "openRendezvous example_entry example_listing ''rendezvous.example'' 300 True True ''/''
      example_server_request (replicate 64 (CHR ''a'')) ServerRole = ToRoom (replicate 64 (CHR ''a'')) q"
    using example_server_forwarded by blast
  have "\<exists>u. validateInternalRendezvousUpgrade 1000000 q = Some u"
    using entry_and_room_agree[OF q rows(1), of 1000000] by (auto simp: clock entry_granted_def split: option.splits)
  with q show "\<exists>q u. openRendezvous example_entry example_listing ''rendezvous.example'' 300 True True ''/'' example_server_request
       (replicate 64 (CHR ''a'')) ServerRole = ToRoom (replicate 64 (CHR ''a'')) q \<and>
     validateInternalRendezvousUpgrade 1000000 q = Some u" by blast
  obtain q where q: "openRendezvous example_entry example_listed ''rendezvous.example'' 300 True True ''/''
      example_join_request (replicate 64 (CHR ''a'')) ClientRole = ToRoom (replicate 64 (CHR ''a'')) q"
    using example_client_forwarded by blast
  have granted: "va_expiresAt a = 1050"
    if "entry_granted example_entry example_listed ''rendezvous.example'' 300 True True example_join_request
      (replicate 64 (CHR ''a'')) u" "iu_role u = ClientRole" "iu_admission u = Some a" for u a
  proof -
    have "\<not> iu_accessProtocol u"
      using that(1,2) by (auto simp: entry_granted_def example_listed_def example_listing_def example_server_row_def
          presence_at_def presence_key_def split: if_splits)
    with that show ?thesis
      by (auto simp: entry_granted_def example_join_verified example_admission split: option.splits)
  qed
  obtain u where u: "iu_role u = ClientRole" "entry_granted example_entry example_listed ''rendezvous.example'' 300 True True
      example_join_request (replicate 64 (CHR ''a'')) u"
      "validateInternalRendezvousUpgrade 1049999 q =
        (if (case iu_admission u of None \<Rightarrow> True | Some a \<Rightarrow> 1049999 < va_expiresAt a * 1000) then Some u else None)"
    using entry_and_room_agree[OF q rows(2), of 1049999] by (auto simp: clock)
  obtain u' where u': "iu_role u' = ClientRole" "entry_granted example_entry example_listed ''rendezvous.example'' 300 True True
      example_join_request (replicate 64 (CHR ''a'')) u'"
      "validateInternalRendezvousUpgrade 1050000 q =
        (if (case iu_admission u' of None \<Rightarrow> True | Some a \<Rightarrow> 1050000 < va_expiresAt a * 1000) then Some u' else None)"
    using entry_and_room_agree[OF q rows(2), of 1050000] by (auto simp: clock)
  have "\<exists>a. iu_admission u = Some a" "\<exists>a. iu_admission u' = Some a"
    using u(1,2) u'(1,2) by (auto simp: entry_granted_def split: option.splits)
  then obtain a a' where a: "iu_admission u = Some a" "iu_admission u' = Some a'" by blast
  have "va_expiresAt a = 1050" "va_expiresAt a' = 1050"
    using granted[OF u(2,1) a(1)] granted[OF u'(2,1) a(2)] by simp_all
  with q u(3) u'(3) a show "\<exists>q u a. openRendezvous example_entry example_listed ''rendezvous.example'' 300 True True ''/'' example_join_request
       (replicate 64 (CHR ''a'')) ClientRole = ToRoom (replicate 64 (CHR ''a'')) q \<and>
     iu_admission u = Some a \<and> va_expiresAt a = 1050 \<and>
     validateInternalRendezvousUpgrade 1049999 q = Some u \<and> validateInternalRendezvousUpgrade 1050000 q = None"
    by (intro exI[of _ q] exI[of _ u] exI[of _ a]) simp
qed

end
