(* ===== verification/TextCodec.thy ===== *)
theory TextCodec
  imports JsonText IpAddress JsValue
begin

text \<open>
  \<open>TextDecoder\<close> in its fatal mode, the inverse of \<open>TextEncoder\<close> on well-formed texts, and
  \<open>JSON.stringify\<close>, which \<open>JSON.parse\<close> inverts. The interface \<open>canonical_codec\<close> is what the
  signed formats promise: a text is accepted exactly when it is the one print of what it means.
\<close>

subsection \<open>Canonical formats\<close>

locale canonical_format =
  fixes enc :: "'a \<Rightarrow> 'b" and dec :: "'b \<Rightarrow> 'a option" and wf :: "'a \<Rightarrow> bool"
  assumes reads_back: "wf a \<Longrightarrow> dec (enc a) = Some a"
    and canonical: "dec v = Some a \<Longrightarrow> wf a \<and> enc a = v"
begin

lemma dec_iff: "dec v = Some a \<longleftrightarrow> wf a \<and> v = enc a"
  using reads_back canonical by auto

lemma dec_inj: "dec v = Some a \<Longrightarrow> dec w = Some a \<Longrightarrow> v = w"
  by (simp add: dec_iff)

end

subsection \<open>UTF-8\<close>

definition continuation :: "nat \<Rightarrow> bool" where
  "continuation b \<longleftrightarrow> 0x80 \<le> b \<and> b \<le> 0xBF"

text \<open>The scalar value that a well-formed sequence starts with, and the rest of the bytes.\<close>

fun utf8_step :: "nat list \<Rightarrow> (nat \<times> nat list) option" where
  "utf8_step [] = None"
| "utf8_step (a # r) =
     (if a < 0x80 then Some (a, r)
      else if 0xC2 \<le> a \<and> a \<le> 0xDF then
        (case r of
           b # q \<Rightarrow> if continuation b then Some ((a - 192) * 64 + (b - 128), q) else None
         | _ \<Rightarrow> None)
      else if 0xE0 \<le> a \<and> a \<le> 0xEF then
        (case r of
           b # c # q \<Rightarrow>
             if continuation b \<and> continuation c \<and> (a = 0xE0 \<longrightarrow> 0xA0 \<le> b) \<and> (a = 0xED \<longrightarrow> b \<le> 0x9F)
             then Some ((a - 224) * 4096 + (b - 128) * 64 + (c - 128), q) else None
         | _ \<Rightarrow> None)
      else if 0xF0 \<le> a \<and> a \<le> 0xF4 then
        (case r of
           b # c # d # q \<Rightarrow>
             if continuation b \<and> continuation c \<and> continuation d \<and> (a = 0xF0 \<longrightarrow> 0x90 \<le> b) \<and> (a = 0xF4 \<longrightarrow> b \<le> 0x8F)
             then Some ((a - 240) * 262144 + (b - 128) * 4096 + (c - 128) * 64 + (d - 128), q) else None
         | _ \<Rightarrow> None)
      else None)"

lemma utf8_step_length: "utf8_step s = Some (n, r) \<Longrightarrow> length r < length s"
  by (cases s) (auto split: if_splits list.splits)

function utf8_scalars :: "nat list \<Rightarrow> nat list option" where
  "utf8_scalars s =
     (if s = [] then Some []
      else case utf8_step s of
        None \<Rightarrow> None
      | Some (n, r) \<Rightarrow> map_option ((#) n) (utf8_scalars r))"
  by pat_completeness auto
termination by (relation "measure length") (auto dest: utf8_step_length)

declare utf8_scalars.simps [simp del]

definition utf16_scalar :: "nat \<Rightarrow> text16" where
  "utf16_scalar n =
     (if n < 0x10000 then [of_nat n]
      else [of_nat (0xD800 + (n - 0x10000) div 1024), of_nat (0xDC00 + (n - 0x10000) mod 1024)])"

definition utf16 :: "nat list \<Rightarrow> text16" where
  "utf16 ns = concat (map utf16_scalar ns)"

text \<open>\<open>new TextDecoder("utf-8", { fatal: true, ignoreBOM: true })\<close>: \<open>None\<close> is its exception.\<close>

definition decode_utf8 :: "string \<Rightarrow> text16 option" where
  "decode_utf8 bytes = map_option utf16 (utf8_scalars (map of_char bytes))"

fun well_formed :: "text16 \<Rightarrow> bool" where
  "well_formed [] = True"
| "well_formed [u] = (\<not> high_surrogate (unat u) \<and> \<not> low_surrogate (unat u))"
| "well_formed (u # v # us) =
     (if high_surrogate (unat u) then low_surrogate (unat v) \<and> well_formed us
      else \<not> low_surrogate (unat u) \<and> well_formed (v # us))"

lemma base64_digits3: "n div 4096 * 4096 + n div 64 mod 64 * 64 + n mod 64 = (n :: nat)"
proof -
  have "n div 4096 = n div 64 div 64" by (simp add: div_mult2_eq[symmetric])
  then show ?thesis using div_mult_mod_eq[of "n div 64" 64] div_mult_mod_eq[of n 64] by linarith
qed

lemma base64_digits4: "n div 262144 * 262144 + n div 4096 mod 64 * 4096 + n div 64 mod 64 * 64 + n mod 64 = (n :: nat)"
proof -
  have "n div 262144 = n div 4096 div 64" by (simp add: div_mult2_eq[symmetric])
  then show ?thesis using div_mult_mod_eq[of "n div 4096" 64] base64_digits3[of n] by linarith
qed

lemma base64_parts3:
  "y < 64 \<Longrightarrow> z < 64 \<Longrightarrow> (x * 4096 + y * 64 + z) div 4096 = x \<and> (x * 4096 + y * 64 + z) div 64 mod 64 = y \<and>
   (x * 4096 + y * 64 + z) mod 64 = (z :: nat)"
proof -
  assume yz: "y < 64" "z < 64"
  let ?n = "x * 4096 + y * 64 + z"
  have low: "?n div 64 = x * 64 + y" using yz(2) by (simp add: div_add1_eq[of "x * 4096 + y * 64" z 64]) 
  moreover have "?n mod 64 = z" using yz(2) by (simp add: mod_add_eq[of "x * 4096 + y * 64" 64 z, symmetric])
  moreover have "?n div 4096 = ?n div 64 div 64" by (simp add: div_mult2_eq[symmetric])
  ultimately show ?thesis using yz(1) by simp
qed

lemma base64_parts4:
  "x < 64 \<Longrightarrow> y < 64 \<Longrightarrow> z < 64 \<Longrightarrow>
   (w * 262144 + x * 4096 + y * 64 + z) div 262144 = w \<and> (w * 262144 + x * 4096 + y * 64 + z) div 4096 mod 64 = x \<and>
   (w * 262144 + x * 4096 + y * 64 + z) div 64 mod 64 = y \<and> (w * 262144 + x * 4096 + y * 64 + z) mod 64 = (z :: nat)"
proof -
  assume b: "x < 64" "y < 64" "z < 64"
  let ?n = "w * 262144 + x * 4096 + y * 64 + z"
  have eq: "?n = (w * 64 + x) * 4096 + y * 64 + z" by simp
  have "?n div 4096 = w * 64 + x" "?n div 64 mod 64 = y" "?n mod 64 = z" using base64_parts3[OF b(2,3), of "w * 64 + x"] unfolding eq by auto
  moreover have "?n div 262144 = ?n div 4096 div 64" by (simp add: div_mult2_eq[symmetric])
  ultimately show ?thesis using b(1) by simp
qed

lemma utf8_step_scalar: "scalar_value n \<Longrightarrow> utf8_step (utf8_scalar n @ r) = Some (n, r)"
proof -
  assume n: "scalar_value n"
  then have bound: "n < 0x110000" by (simp add: scalar_value_def)
  have digit: "k mod 64 \<le> 63" for k :: nat using mod_less_divisor[of 64 k] by linarith
  consider "n < 0x80" | "0x80 \<le> n" "n < 0x800" | "0x800 \<le> n" "n < 0x10000" | "0x10000 \<le> n" by linarith
  then show ?thesis
  proof cases
    case 1 then show ?thesis by (simp add: utf8_scalar_def)
  next
    case 2
    have eq: "n div 64 * 64 + n mod 64 = n" by simp
    define x y where "x = n div 64" and "y = n mod 64"
    have v: "n = x * 64 + y" "2 \<le> x" "x \<le> 31" "y \<le> 63" using 2 eq digit[of n] unfolding x_def y_def by linarith+
    have "utf8_scalar n = [192 + x, 128 + y]" using 2 by (simp add: utf8_scalar_def x_def y_def)
    then show ?thesis using v by (simp add: continuation_def)
  next
    case 3
    note eq = base64_digits3[of n]
    have "n div 4096 \<le> 15" "n div 4096 = 0 \<longrightarrow> 32 \<le> n div 64 mod 64" using 3 eq digit[of n] by linarith+
    moreover have "n div 4096 = 13 \<longrightarrow> n div 64 mod 64 \<le> 31"
    proof (rule impI)
      assume d: "n div 4096 = 13"
      have "n < 0xD800 \<or> 0xDFFF < n" using n by (auto simp: scalar_value_def high_surrogate_def low_surrogate_def)
      then show "n div 64 mod 64 \<le> 31" using eq digit[of n] digit[of "n div 64"] d by linarith
    qed
    ultimately show ?thesis using 3 eq digit[of n] digit[of "n div 64"] by (simp add: utf8_scalar_def continuation_def)
  next
    case 4
    note eq = base64_digits4[of n] and small = digit[of n] digit[of "n div 64"] digit[of "n div 4096"]
    have "n div 262144 \<le> 4" "n div 262144 = 0 \<longrightarrow> 16 \<le> n div 4096 mod 64" "n div 262144 = 4 \<longrightarrow> n div 4096 mod 64 \<le> 15"
      using 4 bound eq small by linarith+
    then show ?thesis using 4 eq small by (simp add: utf8_scalar_def continuation_def)
  qed
qed

lemma utf8_scalars_of: "list_all scalar_value ns \<Longrightarrow> utf8_scalars (utf8_of ns) = Some ns"
proof (induction ns)
  case Nil then show ?case by (simp add: utf8_scalars.simps)
next
  case (Cons n ns)
  have "utf8_scalar n \<noteq> []" by (simp add: utf8_scalar_def)
  then show ?case using Cons utf8_step_scalar[of n "utf8_of ns"] by (subst utf8_scalars.simps) simp
qed

lemma scalar_step: "utf8_step s = Some (n, r) \<Longrightarrow> scalar_value n \<and> s = utf8_scalar n @ r"
proof -
  assume step: "utf8_step s = Some (n, r)"
  obtain a q where s: "s = a # q" using step by (cases s) auto
  consider "a < 0x80" | "0xC2 \<le> a" "a \<le> 0xDF" | "0xE0 \<le> a" "a \<le> 0xEF" | "0xF0 \<le> a" "a \<le> 0xF4"
    using step s by (auto split: if_splits)
  then show ?thesis
  proof cases
    case 1 then show ?thesis
      using step s by (simp add: utf8_scalar_def scalar_value_def high_surrogate_def low_surrogate_def)
  next
    case 2
    then obtain b where b: "q = b # r" "continuation b" "n = (a - 192) * 64 + (b - 128)"
      using step s by (auto split: list.splits if_splits)
    define x y where "x = a - 192" and "y = b - 128"
    have "a = 192 + x" "b = 128 + y" "2 \<le> x" "x \<le> 31" "y < 64" using 2 b(2) by (auto simp: x_def y_def continuation_def)
    then show ?thesis using s b by (simp add: utf8_scalar_def scalar_value_def high_surrogate_def low_surrogate_def)
  next
    case 3
    then obtain b c where b: "q = b # c # r" "continuation b" "continuation c" "a = 0xE0 \<longrightarrow> 0xA0 \<le> b" "a = 0xED \<longrightarrow> b \<le> 0x9F"
        "n = (a - 224) * 4096 + (b - 128) * 64 + (c - 128)"
      using step s by (auto split: list.splits if_splits)
    define x y z where "x = a - 224" and "y = b - 128" and "z = c - 128"
    have v: "a = 224 + x" "b = 128 + y" "c = 128 + z" "x \<le> 15" "y < 64" "z < 64" "x = 0 \<longrightarrow> 32 \<le> y" "x = 13 \<longrightarrow> y \<le> 31"
      using 3 b(2-5) by (auto simp: x_def y_def z_def continuation_def)
    have n: "n = x * 4096 + y * 64 + z" by (simp add: b(6) x_def y_def z_def)
    have "0x800 \<le> n" "n < 0x10000" using v n by linarith+
    moreover have "n div 4096 = x" "n div 64 mod 64 = y" "n mod 64 = z" using base64_parts3[of y z x] v n by auto
    moreover have "\<not> high_surrogate n" "\<not> low_surrogate n"
    proof -
      have "n < 0xD800 \<or> 0xE000 \<le> n"
      proof (cases "x = 13")
        case True then show ?thesis using v n by simp
      next
        case False
        then have "x \<le> 12 \<or> 14 \<le> x" by linarith
        then show ?thesis using v(5,6) n by auto
      qed
      then show "\<not> high_surrogate n" "\<not> low_surrogate n" by (auto simp: high_surrogate_def low_surrogate_def)
    qed
    ultimately show ?thesis using s b(1) v by (simp add: utf8_scalar_def scalar_value_def)
  next
    case 4
    then obtain b c d where b: "q = b # c # d # r" "continuation b" "continuation c" "continuation d"
        "a = 0xF0 \<longrightarrow> 0x90 \<le> b" "a = 0xF4 \<longrightarrow> b \<le> 0x8F"
        "n = (a - 240) * 262144 + (b - 128) * 4096 + (c - 128) * 64 + (d - 128)"
      using step s by (auto split: list.splits if_splits)
    define w x y z where "w = a - 240" and "x = b - 128" and "y = c - 128" and "z = d - 128"
    have v: "a = 240 + w" "b = 128 + x" "c = 128 + y" "d = 128 + z" "w \<le> 4" "x < 64" "y < 64" "z < 64"
        "w = 0 \<longrightarrow> 16 \<le> x" "w = 4 \<longrightarrow> x \<le> 15"
      using 4 b(2-6) by (auto simp: w_def x_def y_def z_def continuation_def)
    have n: "n = w * 262144 + x * 4096 + y * 64 + z" by (simp add: b(7) w_def x_def y_def z_def)
    have "0x10000 \<le> n" "n < 0x110000" using v n by linarith+
    moreover have "n div 262144 = w" "n div 4096 mod 64 = x" "n div 64 mod 64 = y" "n mod 64 = z"
      using base64_parts4[of x y z w] v n by auto
    ultimately show ?thesis
      using s b(1) v by (simp add: utf8_scalar_def scalar_value_def high_surrogate_def low_surrogate_def)
  qed
qed

lemma utf8_scalars_sound: "utf8_scalars s = Some ns \<Longrightarrow> list_all scalar_value ns \<and> s = utf8_of ns"
proof (induction s arbitrary: ns rule: utf8_scalars.induct)
  case (1 s)
  show ?case
  proof (cases "s = []")
    case False
    then obtain n r ms where "utf8_step s = Some (n, r)" "utf8_scalars r = Some ms" "ns = n # ms"
      using "1.prems" by (subst (asm) utf8_scalars.simps) (auto split: option.splits)
    then show ?thesis using 1 scalar_step[of s n r] False by simp
  qed (use "1.prems" in \<open>simp add: utf8_scalars.simps\<close>)
qed

lemma word16: "n < 65536 \<Longrightarrow> unat (of_nat n :: 16 word) = n"
  by (simp add: unat_of_nat)

lemma surrogate_pair:
  assumes "0x10000 \<le> n" "n < 0x110000"
  shows "high_surrogate (0xD800 + (n - 0x10000) div 1024)" "low_surrogate (0xDC00 + (n - 0x10000) mod 1024)"
    "pair_scalar (0xD800 + (n - 0x10000) div 1024) (0xDC00 + (n - 0x10000) mod 1024) = n"
proof -
  define m where "m = n - 0x10000"
  have "m div 1024 < 1024" by (rule less_mult_imp_div_less) (use assms in \<open>simp add: m_def\<close>)
  moreover have "m mod 1024 < 1024" "m div 1024 * 1024 + m mod 1024 = m" by simp_all
  ultimately have "(n - 0x10000) div 1024 \<le> 1023" "(n - 0x10000) mod 1024 \<le> 1023"
    "(n - 0x10000) div 1024 * 1024 + (n - 0x10000) mod 1024 = n - 0x10000"
    unfolding m_def by linarith+
  then show "high_surrogate (0xD800 + (n - 0x10000) div 1024)" "low_surrogate (0xDC00 + (n - 0x10000) mod 1024)"
    "pair_scalar (0xD800 + (n - 0x10000) div 1024) (0xDC00 + (n - 0x10000) mod 1024) = n"
    using assms by (simp_all add: high_surrogate_def low_surrogate_def pair_scalar_def)
qed

lemma utf16_scalar_append:
  assumes "scalar_value n"
  shows "code_points (utf16_scalar n @ us) = n # code_points us" "well_formed (utf16_scalar n @ us) = well_formed us"
proof -
  have n: "n < 0x110000" "\<not> high_surrogate n" "\<not> low_surrogate n" using assms by (simp_all add: scalar_value_def)
  have "code_points (utf16_scalar n @ us) = n # code_points us \<and> well_formed (utf16_scalar n @ us) = well_formed us"
  proof (cases "n < 0x10000")
    case True
    then have "utf16_scalar n = [of_nat n]" "unat (of_nat n :: 16 word) = n" by (simp_all add: utf16_scalar_def word16)
    then show ?thesis using n by (cases us) simp_all
  next
    case False
    define hi lo where "hi = 0xD800 + (n - 0x10000) div 1024" and "lo = 0xDC00 + (n - 0x10000) mod 1024"
    have pair: "high_surrogate hi" "low_surrogate lo" "pair_scalar hi lo = n"
      using surrogate_pair[of n] False n(1) by (simp_all add: hi_def lo_def)
    then have "unat (of_nat hi :: 16 word) = hi" "unat (of_nat lo :: 16 word) = lo"
      by (simp_all add: word16 high_surrogate_def low_surrogate_def)
    moreover have "utf16_scalar n = [of_nat hi, of_nat lo]" using False by (simp add: utf16_scalar_def hi_def lo_def)
    ultimately show ?thesis using pair by simp
  qed
  then show "code_points (utf16_scalar n @ us) = n # code_points us" "well_formed (utf16_scalar n @ us) = well_formed us"
    by simp_all
qed

lemma code_points_utf16: "list_all scalar_value ns \<Longrightarrow> code_points (utf16 ns) = ns \<and> well_formed (utf16 ns)"
  by (induction ns) (simp_all add: utf16_def utf16_scalar_append)

lemma utf16_unit: "\<not> high_surrogate (unat u) \<Longrightarrow> \<not> low_surrogate (unat u) \<Longrightarrow> utf16_scalar (unat u) = [u]"
  using unat16[of u] by (simp add: utf16_scalar_def)

lemma utf16_pair: "high_surrogate (unat u) \<Longrightarrow> low_surrogate (unat v) \<Longrightarrow> utf16_scalar (pair_scalar (unat u) (unat v)) = [u, v]"
proof -
  assume uv: "high_surrogate (unat u)" "low_surrogate (unat v)"
  define a b where "a = unat u - 0xD800" and "b = unat v - 0xDC00"
  have v: "unat u = 0xD800 + a" "unat v = 0xDC00 + b" "a < 1024" "b < 1024"
    using uv by (auto simp: a_def b_def high_surrogate_def low_surrogate_def)
  have "pair_scalar (unat u) (unat v) = 0x10000 + (a * 1024 + b)" by (simp add: pair_scalar_def a_def b_def)
  moreover have "(a * 1024 + b) div 1024 = a" "(a * 1024 + b) mod 1024 = b" using v by simp_all
  ultimately have "utf16_scalar (pair_scalar (unat u) (unat v)) = [of_nat (unat u), of_nat (unat v)]"
    using v by (simp add: utf16_scalar_def)
  then show ?thesis by simp
qed

lemma utf16_code_points: "well_formed v \<Longrightarrow> utf16 (code_points v) = v"
proof (induction v rule: well_formed.induct)
  case (2 u)
  then show ?case by (simp add: utf16_def utf16_unit)
next
  case (3 u v us)
  then show ?case
    by (cases "high_surrogate (unat u)") (simp_all add: utf16_def utf16_unit utf16_pair)
qed (simp add: utf16_def)

interpretation utf8_format: canonical_format utf8 decode_utf8 well_formed
proof
  fix v :: text16 assume "well_formed v"
  moreover have "map of_char (utf8 v) = utf8_of (code_points v)"
    using utf8_bytes[OF code_points_scalar[of v]] by (auto simp: utf8_def byte_def intro!: map_idI)
  ultimately show "decode_utf8 (utf8 v) = Some v"
    using utf8_scalars_of[OF code_points_scalar[of v]] by (simp add: decode_utf8_def utf16_code_points)
next
  fix s v assume "decode_utf8 s = Some v"
  then obtain ns where ns: "utf8_scalars (map of_char s) = Some ns" "v = utf16 ns" by (auto simp: decode_utf8_def)
  then have "list_all scalar_value ns" "map of_char s = utf8_of ns" using utf8_scalars_sound by auto
  moreover have "map byte (map of_char s) = s" by (simp add: byte_def o_def)
  ultimately show "well_formed v \<and> utf8 v = s" using ns(2) code_points_utf16[of ns] by (simp add: utf8_def)
qed

subsection \<open>\<open>JSON.stringify\<close>\<close>

definition escape_unit :: "nat \<Rightarrow> nat list" where
  "escape_unit u =
     (if u = 34 then [92, 34] else if u = 92 then [92, 92] else if u = 8 then [92, 98] else if u = 9 then [92, 116]
      else if u = 10 then [92, 110] else if u = 12 then [92, 102] else if u = 13 then [92, 114]
      else if u < 32 \<or> high_surrogate u \<or> low_surrogate u then 92 # 117 # map of_char (hex_word u)
      else [u])"

fun quoted_units :: "nat list \<Rightarrow> nat list" where
  "quoted_units [] = []"
| "quoted_units [u] = escape_unit u"
| "quoted_units (u # v # us) =
     (if high_surrogate u \<and> low_surrogate v then u # v # quoted_units us else escape_unit u @ quoted_units (v # us))"

definition text_units :: "text16 \<Rightarrow> nat list" where
  "text_units v = 34 # quoted_units (map unat v) @ [34]"

text \<open>
  Of the numbers, \<open>JsOther\<close> stands for all that are not integers; the code prints none of them,
  and the theorems are about values without it.
\<close>

fun json_units :: "json \<Rightarrow> nat list" and member_units :: "(text16 \<times> json) list \<Rightarrow> nat list"
  and element_units :: "json list \<Rightarrow> nat list" where
  "json_units JsNull = map of_char ''null''"
| "json_units (JsBool b) = map of_char (json_bool b)"
| "json_units (JsInt n) = map of_char (json_int n)"
| "json_units JsOther = []"
| "json_units (JsText v) = text_units v"
| "json_units (JsArray vs) = 91 # element_units vs @ [93]"
| "json_units (JsObject kvs) = 123 # member_units kvs @ [125]"
| "member_units [] = []"
| "member_units ((k, v) # kvs) =
     text_units k @ 58 # json_units v @ (if kvs = [] then [] else 44 # member_units kvs)"
| "element_units [] = []"
| "element_units (v # vs) = json_units v @ (if vs = [] then [] else 44 # element_units vs)"

definition JSON_stringify :: "json \<Rightarrow> text16" where
  "JSON_stringify j = map of_nat (json_units j)"

fun printable :: "json \<Rightarrow> bool" and printable_members :: "(text16 \<times> json) list \<Rightarrow> bool"
  and printable_elements :: "json list \<Rightarrow> bool" where
  "printable JsNull = True"
| "printable (JsBool b) = True"
| "printable (JsInt n) = (0 \<le> n \<and> n < 2 ^ 53)"
| "printable JsOther = False"
| "printable (JsText v) = True"
| "printable (JsArray vs) = printable_elements vs"
| "printable (JsObject kvs) = (distinct (map fst kvs) \<and> printable_members kvs)"
| "printable_members [] = True"
| "printable_members ((k, v) # kvs) = (printable v \<and> printable_members kvs)"
| "printable_elements [] = True"
| "printable_elements (v # vs) = (printable v \<and> printable_elements vs)"

lemma hex_unit_char: "d < 16 \<Longrightarrow> hex_unit (of_char (hex_char d)) = Some d"
proof -
  assume "d < 16"
  then have "d \<in> set (upt 0 16)" by simp
  moreover have "list_all (\<lambda>d. hex_unit (of_char (hex_char d)) = Some d) (upt 0 16)" by code_simp
  ultimately show ?thesis by (auto simp: list_all_iff)
qed

lemma hex_word_value: "((u div 4096 * 16 + u div 256 mod 16) * 16 + u div 16 mod 16) * 16 + u mod 16 = (u :: nat)"
proof -
  have "u div 256 = u div 16 div 16" using div_mult2_eq[of u 16 16] by simp
  moreover have "u div 4096 = u div 256 div 16" using div_mult2_eq[of u 256 16] by simp
  ultimately show ?thesis
    using div_mult_mod_eq[of u 16] div_mult_mod_eq[of "u div 16" 16] div_mult_mod_eq[of "u div 256" 16] by simp
qed

lemma escape_parse: "u < 65536 \<Longrightarrow> json_chars (escape_unit u @ s) = map_option (\<lambda>(us, r). (u # us, r)) (json_chars s)"
proof (cases "u < 32 \<and> u \<notin> {8, 9, 10, 12, 13} \<or> high_surrogate u \<or> low_surrogate u")
  case True
  assume u: "u < 65536"
  have "u div 4096 < 16" using u by (simp add: less_mult_imp_div_less)
  moreover have "escape_unit u = 92 # 117 # map of_char (hex_word u)"
    using True by (auto simp: escape_unit_def high_surrogate_def low_surrogate_def)
  ultimately show ?thesis by (simp add: hex_word_def hex_unit_char hex_word_value del: distrib_right_numeral)
next
  case False
  then show ?thesis by (auto simp: escape_unit_def escaped_unit_def)
qed

lemma quoted_parse: "list_all (\<lambda>u. u < 65536) us \<Longrightarrow> json_chars (quoted_units us @ 34 # r) = Some (us, r)"
proof (induction us rule: quoted_units.induct)
  case (3 u v us)
  show ?case
  proof (cases "high_surrogate u \<and> low_surrogate v")
    case True
    then have "34 < u" "u \<noteq> 92" "34 < v" "v \<noteq> 92" by (auto simp: high_surrogate_def low_surrogate_def)
    then show ?thesis using 3 True by simp
  next
    case False
    then show ?thesis using 3 by (auto simp: escape_parse)
  qed
qed (simp_all add: escape_parse)

lemma text_parse: "json_chars (quoted_units (map unat v) @ 34 # r) = Some (map unat v, r)" "json_text (map unat v) = v"
  using quoted_parse[of "map unat v" r] unat16 by (auto simp: json_text_def list_all_iff intro: map_idI)

definition delimited :: "nat list \<Rightarrow> bool" where
  "delimited r \<longleftrightarrow> r = [] \<or> hd r \<in> {44, 93, 125}"

lemma member_units_head: "kvs \<noteq> [] \<Longrightarrow> \<exists>z. member_units kvs = 34 # z"
  by (cases kvs) (auto simp: text_units_def)

lemma json_units_head: "printable j \<Longrightarrow> \<exists>u z. json_units j = u # z \<and> \<not> json_space u \<and> u \<notin> {93, 125}"
proof (cases j)
  case (JsInt n)
  moreover assume "printable j"
  moreover obtain d ds where ds: "to_decimal (nat n) = d # ds" using to_decimal_nonempty[of "nat n"] by (cases "to_decimal (nat n)") auto
  moreover have "digit_unit (of_char d)" using to_decimal_digits[of "nat n"] is_digit_unit[of d] ds by simp
  ultimately show ?thesis by (auto simp: json_int_def json_space_def digit_unit_def)
qed (auto simp: json_space_def json_bool_def text_units_def)

lemma element_units_head:
  "vs \<noteq> [] \<Longrightarrow> printable_elements vs \<Longrightarrow> \<exists>u z. element_units vs = u # z \<and> \<not> json_space u \<and> u \<notin> {93, 125}"
  by (cases vs) (use json_units_head in fastforce)+

lemma skip_head: "\<not> json_space u \<Longrightarrow> skip_space (u # z) = u # z"
  by (simp add: skip_space_def)

lemma number_parse: "printable (JsInt k) \<Longrightarrow> delimited r \<Longrightarrow> json_value (Suc n) (json_units (JsInt k) @ r) = Some (JsInt k, r)"
proof -
  assume k: "printable (JsInt k)" and r: "delimited r"
  let ?ds = "map of_char (to_decimal (nat k)) :: nat list"
  obtain d ds where ds: "to_decimal (nat k) = d # ds" using to_decimal_nonempty[of "nat k"] by (cases "to_decimal (nat k)") auto
  then have d: "48 \<le> (of_char d :: nat)" "(of_char d :: nat) \<le> 57"
    using to_decimal_digits[of "nat k"] is_digit_unit[of d] by (simp_all add: digit_unit_def)
  have "json_number (?ds @ r) = Some (JsInt k, r)"
    using k r json_number_decimal[of "nat k" r] by (auto simp: delimited_def digit_unit_def)
  moreover have "json_literal (?ds @ r) = json_number (?ds @ r)" using d by (auto simp: json_literal_def ds)
  ultimately show ?thesis using k d by (auto simp: json_int_def ds skip_head json_space_def)
qed

lemma print_parse:
  "printable j \<Longrightarrow> delimited r \<Longrightarrow> 2 * length (json_units j @ r) < n \<Longrightarrow> json_value n (json_units j @ r) = Some (j, r)"
  "printable_members kvs \<Longrightarrow> kvs \<noteq> [] \<Longrightarrow> 2 * length (member_units kvs @ 125 # r) + 1 < n \<Longrightarrow>
     json_members n (member_units kvs @ 125 # r) = Some (kvs, r)"
  "printable_elements vs \<Longrightarrow> vs \<noteq> [] \<Longrightarrow> 2 * length (element_units vs @ 93 # r) + 1 < n \<Longrightarrow>
     json_elements n (element_units vs @ 93 # r) = Some (vs, r)"
proof (induction j and kvs and vs arbitrary: n r and n r and n r rule: json_units_member_units_element_units.induct)
  case 1
  then obtain m where "n = Suc m" by (cases n) auto
  then show ?case by (simp add: skip_head json_space_def json_literal_def)
next
  case (2 b)
  then obtain m where "n = Suc m" by (cases n) auto
  then show ?case by (cases b) (simp_all add: json_bool_def skip_head json_space_def json_literal_def)
next
  case (3 k)
  then obtain m where "n = Suc m" by (cases n) auto
  then show ?case using 3 number_parse by simp
next
  case (5 v)
  then obtain m where "n = Suc m" by (cases n) auto
  then show ?case by (simp add: text_units_def skip_head json_space_def text_parse)
next
  case (6 vs)
  then obtain m where n: "n = Suc m" by (cases n) auto
  show ?case
  proof (cases "vs = []")
    case True
    then show ?thesis by (simp add: n skip_head json_space_def)
  next
    case False
    have "printable_elements vs" using 6(2) by simp
    from element_units_head[OF False this]
    obtain u z where u: "element_units vs = u # z" "\<not> json_space u" "u \<notin> {93, 125}" by blast
    have "json_elements m (element_units vs @ 93 # r) = Some (vs, r)" using 6 False n by simp
    then show ?thesis using u by (simp add: n skip_head json_space_def[of 91])
  qed
next
  case (7 kvs)
  then obtain m where n: "n = Suc m" by (cases n) auto
  show ?case
  proof (cases "kvs = []")
    case True
    then show ?thesis by (simp add: n skip_head json_space_def)
  next
    case False
    then obtain z where u: "member_units kvs = 34 # z" using member_units_head by auto
    have "json_members m (member_units kvs @ 125 # r) = Some (kvs, r)" using 7 False n by simp
    moreover have "own_properties kvs = kvs" using 7(2) own_distinct by simp
    ultimately show ?thesis using u by (simp add: n skip_head json_space_def)
  qed
next
  case (9 k v kvs)
  then obtain m where n: "n = Suc m" by (cases n) auto
  define rest where "rest = (if kvs = [] then 125 # r else 44 # member_units kvs @ 125 # r)"
  have first: "json_value m (json_units v @ rest) = Some (v, rest)"
    using 9 n by (intro "9.IH"(1)) (auto simp: rest_def delimited_def text_units_def)
  have others: "kvs \<noteq> [] \<Longrightarrow> json_members m (member_units kvs @ 125 # r) = Some (kvs, r)"
    using 9 n by (intro "9.IH"(2)) (auto simp: text_units_def)
  show ?case
    using first others
    by (cases "kvs = []") (simp_all add: n rest_def text_units_def skip_head json_space_def text_parse)
next
  case (11 v vs)
  then obtain m where n: "n = Suc m" by (cases n) auto
  define rest where "rest = (if vs = [] then 93 # r else 44 # element_units vs @ 93 # r)"
  have first: "json_value m (json_units v @ rest) = Some (v, rest)"
    using 11 n by (intro "11.IH"(1)) (auto simp: rest_def delimited_def)
  have others: "vs \<noteq> [] \<Longrightarrow> json_elements m (element_units vs @ 93 # r) = Some (vs, r)"
    using 11 n json_units_head[of v] by (intro "11.IH"(2)) auto
  show ?case using first others by (cases "vs = []") (simp_all add: n rest_def skip_head json_space_def)
qed simp_all

lemma units_bound:
  "\<forall>u \<in> set (json_units j). u < 65536" "\<forall>u \<in> set (member_units kvs). u < 65536" "\<forall>u \<in> set (element_units vs). u < 65536"
proof -
  have char: "of_char c < (65536 :: nat)" for c :: char using nat_of_char_less_256[of c] by linarith
  have escape: "u < 65536 \<Longrightarrow> \<forall>x \<in> set (escape_unit u). x < 65536" for u by (simp add: escape_unit_def char)
  have units: "list_all (\<lambda>u. u < 65536) us \<Longrightarrow> \<forall>x \<in> set (quoted_units us). x < 65536" for us
    by (induction us rule: quoted_units.induct) (use escape in auto)
  then have quoted: "\<forall>x \<in> set (text_units v). x < 65536" for v :: text16
  proof -
    have "list_all (\<lambda>u. u < 65536) (map unat v)" by (simp add: list_all_iff unat16)
    then have "\<forall>x \<in> set (quoted_units (map unat v)). x < 65536" by (rule units)
    then show ?thesis by (auto simp: text_units_def)
  qed
  show "\<forall>u \<in> set (json_units j). u < 65536" "\<forall>u \<in> set (member_units kvs). u < 65536" "\<forall>u \<in> set (element_units vs). u < 65536"
    by (induction j and kvs and vs rule: json_units_member_units_element_units.induct) (use char quoted in auto)
qed

theorem parse_stringify: "printable j \<Longrightarrow> JSON_parse (JSON_stringify j) = Some j"
proof -
  assume j: "printable j"
  have "map unat (JSON_stringify j) = json_units j"
    using units_bound(1)[of j] by (auto simp: JSON_stringify_def word16 intro: map_idI)
  then show ?thesis
    using print_parse(1)[OF j, of "[]" "2 * length (json_units j) + 2"]
    by (simp add: JSON_parse_def JSON_stringify_def delimited_def skip_space_def)
qed

end
