(* ===== verification/Http.thy ===== *)
theory Http
  imports TextCodec PublicationContract
begin

text \<open>
  The public errors of \<open>http.ts\<close> and the translation of exceptions into them
  (\<open>request-errors.ts\<close>). Messages, statuses and headers come from fixed tables; the only number
  that leaves the Worker is a retry delay between one second and one day.
\<close>

subsection \<open>Responses\<close>

record http_response =
  rs_status :: int
  rs_headers :: "(string \<times> string) list"
  rs_body :: string

datatype http_code =
    E_ambiguous_header | E_bad_request | E_body_required | E_invalid_server_id | E_invalid_target | E_unexpected_body
  | E_unexpected_query | E_unauthorized | E_forbidden | E_not_found | E_method_not_allowed | E_conflict
  | E_payload_too_large | E_unsupported_media_type | E_misdirected_request | E_rate_limited | E_upgrade_required
  | E_service_disabled | E_request_control_unavailable | E_internal_error

fun code_name :: "http_code \<Rightarrow> string" where
  "code_name E_ambiguous_header = ''ambiguous_header''"
| "code_name E_bad_request = ''bad_request''"
| "code_name E_body_required = ''body_required''"
| "code_name E_invalid_server_id = ''invalid_server_id''"
| "code_name E_invalid_target = ''invalid_target''"
| "code_name E_unexpected_body = ''unexpected_body''"
| "code_name E_unexpected_query = ''unexpected_query''"
| "code_name E_unauthorized = ''unauthorized''"
| "code_name E_forbidden = ''forbidden''"
| "code_name E_not_found = ''not_found''"
| "code_name E_method_not_allowed = ''method_not_allowed''"
| "code_name E_conflict = ''conflict''"
| "code_name E_payload_too_large = ''payload_too_large''"
| "code_name E_unsupported_media_type = ''unsupported_media_type''"
| "code_name E_misdirected_request = ''misdirected_request''"
| "code_name E_rate_limited = ''rate_limited''"
| "code_name E_upgrade_required = ''upgrade_required''"
| "code_name E_service_disabled = ''service_disabled''"
| "code_name E_request_control_unavailable = ''request_control_unavailable''"
| "code_name E_internal_error = ''internal_error''"

fun code_status :: "http_code \<Rightarrow> int" where
  "code_status E_ambiguous_header = 400"
| "code_status E_bad_request = 400"
| "code_status E_body_required = 400"
| "code_status E_invalid_server_id = 400"
| "code_status E_invalid_target = 400"
| "code_status E_unexpected_body = 400"
| "code_status E_unexpected_query = 400"
| "code_status E_unauthorized = 401"
| "code_status E_forbidden = 403"
| "code_status E_not_found = 404"
| "code_status E_method_not_allowed = 405"
| "code_status E_conflict = 409"
| "code_status E_payload_too_large = 413"
| "code_status E_unsupported_media_type = 415"
| "code_status E_misdirected_request = 421"
| "code_status E_rate_limited = 429"
| "code_status E_upgrade_required = 426"
| "code_status E_service_disabled = 503"
| "code_status E_request_control_unavailable = 503"
| "code_status E_internal_error = 500"

fun code_message :: "http_code \<Rightarrow> string" where
  "code_message E_ambiguous_header = ''A security-critical request header is ambiguous.''"
| "code_message E_bad_request = ''The request is invalid.''"
| "code_message E_body_required = ''A request body is required.''"
| "code_message E_invalid_server_id = ''The server ID is invalid.''"
| "code_message E_invalid_target = ''The request target is invalid.''"
| "code_message E_unexpected_body = ''A request body is not allowed.''"
| "code_message E_unexpected_query = ''The request query is invalid.''"
| "code_message E_unauthorized = ''Authentication failed.''"
| "code_message E_forbidden = ''The request is forbidden.''"
| "code_message E_not_found = ''The requested resource does not exist.''"
| "code_message E_method_not_allowed = ''The request method is not allowed.''"
| "code_message E_conflict = ''The request conflicts with existing state.''"
| "code_message E_payload_too_large = ''The request body is too large.''"
| "code_message E_unsupported_media_type = ''The request content type is not supported.''"
| "code_message E_misdirected_request = ''The request authority is not served here.''"
| "code_message E_rate_limited = ''The request budget has been exhausted.''"
| "code_message E_upgrade_required = ''A WebSocket upgrade is required.''"
| "code_message E_service_disabled = ''This service is temporarily unavailable.''"
| "code_message E_request_control_unavailable = ''Request admission is temporarily unavailable.''"
| "code_message E_internal_error = ''An internal error occurred.''"

definition HTTP_ERROR_CODES :: "http_code list" where
  "HTTP_ERROR_CODES =
     [E_ambiguous_header, E_bad_request, E_body_required, E_invalid_server_id, E_invalid_target, E_unexpected_body,
      E_unexpected_query, E_unauthorized, E_forbidden, E_not_found, E_method_not_allowed, E_conflict, E_payload_too_large,
      E_unsupported_media_type, E_misdirected_request, E_rate_limited, E_upgrade_required, E_service_disabled,
      E_request_control_unavailable, E_internal_error]"

datatype allowed_method = GET | HEAD | POST

fun method_name :: "allowed_method \<Rightarrow> string" where
  "method_name GET = ''GET''"
| "method_name HEAD = ''HEAD''"
| "method_name POST = ''POST''"

datatype rate_reason =
    GlobalBurst | RendezvousClientBurst | RendezvousServerBurst | RendezvousServerDaily | PublishBurst | PublishDaily
  | RequestBudget

fun reason_name :: "rate_reason \<Rightarrow> string" where
  "reason_name GlobalBurst = ''global_burst''"
| "reason_name RendezvousClientBurst = ''rendezvous_client_burst''"
| "reason_name RendezvousServerBurst = ''rendezvous_server_burst''"
| "reason_name RendezvousServerDaily = ''rendezvous_server_daily''"
| "reason_name PublishBurst = ''publish_burst''"
| "reason_name PublishDaily = ''publish_daily''"
| "reason_name RequestBudget = ''request_budget_exceeded''"

definition HTTP_RATE_LIMIT_REASONS :: "rate_reason list" where
  "HTTP_RATE_LIMIT_REASONS =
     [GlobalBurst, RendezvousClientBurst, RendezvousServerBurst, RendezvousServerDaily, PublishBurst, PublishDaily,
      RequestBudget]"

subsection \<open>\<open>HttpError\<close>\<close>

definition MAX_RETRY_AFTER_SECONDS :: int where "MAX_RETRY_AFTER_SECONDS = 86400"
definition DEFAULT_RETRY_AFTER_SECONDS :: int where "DEFAULT_RETRY_AFTER_SECONDS = 60"

text \<open>Every delay that the code passes is an integer, so \<open>Math.ceil\<close> is the identity.\<close>

definition boundedRetryAfter :: "int option \<Rightarrow> int" where
  "boundedRetryAfter v =
     (case v of None \<Rightarrow> DEFAULT_RETRY_AFTER_SECONDS | Some n \<Rightarrow> min MAX_RETRY_AFTER_SECONDS (max 1 n))"

definition shouldIncludeRetryAfter :: "http_code \<Rightarrow> bool" where
  "shouldIncludeRetryAfter c \<longleftrightarrow> c \<in> {E_rate_limited, E_service_disabled, E_request_control_unavailable}"

definition normalizeAllowedMethods :: "allowed_method list \<Rightarrow> allowed_method list" where
  "normalizeAllowedMethods methods = filter (\<lambda>m. m \<in> set methods) [GET, HEAD, POST]"

record http_error =
  he_code :: http_code
  he_allow :: "allowed_method list"
  he_reason :: "rate_reason option"
  he_retry :: "int option"

definition HttpError :: "http_code \<Rightarrow> allowed_method list \<Rightarrow> rate_reason option \<Rightarrow> int option \<Rightarrow> http_error" where
  "HttpError code allow reason retry =
     \<lparr>he_code = code,
      he_allow = (if code = E_method_not_allowed then normalizeAllowedMethods allow else []),
      he_reason = (if code = E_rate_limited then Some (case reason of None \<Rightarrow> RequestBudget | Some x \<Rightarrow> x) else None),
      he_retry = (if shouldIncludeRetryAfter code then Some (boundedRetryAfter retry) else None)\<rparr>"

abbreviation "plain_error code \<equiv> HttpError code [] None None"

fun join_text :: "string \<Rightarrow> string list \<Rightarrow> string" where
  "join_text sep [] = []"
| "join_text sep [x] = x"
| "join_text sep (x # y # xs) = x @ sep @ join_text sep (y # xs)"

definition error_body :: "http_error \<Rightarrow> json" where
  "error_body e =
     ascii_object [(''error'', ascii_object (
       [(''code'', JsText (ascii16 (code_name (he_code e)))), (''message'', JsText (ascii16 (code_message (he_code e))))] @
       (case (he_reason e, he_retry e) of
          (Some x, Some n) \<Rightarrow> [(''reason'', JsText (ascii16 (reason_name x))), (''retry_after_seconds'', JsInt n)]
        | _ \<Rightarrow> [])))]"

definition httpErrorResponse :: "http_error \<Rightarrow> http_response" where
  "httpErrorResponse e =
     \<lparr>rs_status = code_status (he_code e),
      rs_headers =
        [(''cache-control'', ''no-store''), (''content-type'', ''application/json; charset=utf-8''),
         (''x-content-type-options'', ''nosniff'')] @
        (if he_allow e = [] then [] else [(''allow'', join_text '', '' (map method_name (he_allow e)))]) @
        (case he_retry e of None \<Rightarrow> [] | Some n \<Rightarrow> [(''retry-after'', json_int n)]) @
        (if he_code e = E_upgrade_required then [(''upgrade'', ''websocket'')] else []),
      rs_body = utf8 (JSON_stringify (error_body e))\<rparr>"

definition circuitBreakerEnabled :: "string option \<Rightarrow> bool" where
  "circuitBreakerEnabled v \<longleftrightarrow> v = Some ''enabled''"

text \<open>\<open>Inl\<close> is the exception.\<close>

definition enforceCircuitBreaker :: "string option \<Rightarrow> int \<Rightarrow> http_error + unit" where
  "enforceCircuitBreaker v retry =
     (if circuitBreakerEnabled v then Inr () else Inl (HttpError E_service_disabled [] None (Some retry)))"

subsection \<open>Exceptions\<close>

datatype control_scope = GlobalScope | RendezvousClientScope | PublishServerScope | PublishGameServerScope | RendezvousServerScope

datatype limit_reason = BurstLimit | BudgetLimit

record budget_exceeded =
  be_scope :: control_scope
  be_reason :: limit_reason
  be_retry :: int
  be_resetAt :: "int option"
  be_limit :: "int option"

text \<open>
  What a handler may throw: the classes that \<open>handleRequestError\<close> tells apart; \<open>OtherError\<close> is
  every other exception. A \<open>RequestError\<close> carries its status.
\<close>

datatype request_exception =
    BudgetExceeded budget_exceeded | HttpFailure http_error | ControlUnavailable | ControlConfiguration
  | TagConfiguration | RequestFailure int | OtherError

definition rateLimitReason :: "budget_exceeded \<Rightarrow> rate_reason" where
  "rateLimitReason e =
     (let burst = (be_reason e = BurstLimit) in
      case be_scope e of
        GlobalScope \<Rightarrow> GlobalBurst
      | PublishServerScope \<Rightarrow> if burst then PublishBurst else PublishDaily
      | PublishGameServerScope \<Rightarrow> if burst then PublishBurst else PublishDaily
      | RendezvousClientScope \<Rightarrow> RendezvousClientBurst
      | RendezvousServerScope \<Rightarrow> if burst then RendezvousServerBurst else RendezvousServerDaily)"

definition requestErrorToHttpError :: "int \<Rightarrow> http_error" where
  "requestErrorToHttpError status =
     (if status = 400 then plain_error E_bad_request
      else if status = 401 then plain_error E_unauthorized
      else if status = 403 then plain_error E_forbidden
      else if status = 404 then plain_error E_not_found
      else if status = 409 then plain_error E_conflict
      else if status = 413 then plain_error E_payload_too_large
      else plain_error E_internal_error)"

fun public_error :: "request_exception \<Rightarrow> http_error" where
  "public_error (BudgetExceeded e) = HttpError E_rate_limited [] (Some (rateLimitReason e)) (Some (be_retry e))"
| "public_error (HttpFailure e) = e"
| "public_error ControlUnavailable = HttpError E_request_control_unavailable [] None (Some 60)"
| "public_error ControlConfiguration = HttpError E_request_control_unavailable [] None (Some 60)"
| "public_error TagConfiguration = HttpError E_request_control_unavailable [] None (Some 60)"
| "public_error (RequestFailure status) = requestErrorToHttpError status"
| "public_error OtherError = plain_error E_internal_error"

definition handleRequestError :: "request_exception \<Rightarrow> http_response" where
  "handleRequestError x = httpErrorResponse (public_error x)"

end
