(* ===== verification/RequestControl.thy ===== *)
theory RequestControl
  imports Http DirectoryTables
begin

text \<open>
  The request budgets of \<open>rate-limit.ts\<close> over the D1 table \<open>request_budgets\<close>, and the scheduled
  deletion of expired rows (\<open>maintenance.ts\<close>). A call of D1 may fail before or after its statement
  took effect; the answers are arguments. Between two awaits other requests may change the table.
\<close>

subsection \<open>The table\<close>

record request_row =
  rb_actor :: string
  rb_scope :: string
  rb_start :: int
  rb_count :: int
  rb_expires :: int

definition actor_char :: "char \<Rightarrow> bool" where
  "actor_char c \<longleftrightarrow> is_digit c \<or> is_lower (to_lower c) \<or> c = CHR ''_'' \<or> c = CHR ''-''"

text \<open>An authenticated server, or \<open>v1.\<close>, a key name of at most 32 characters, a point and a tag.\<close>

definition actor_key_ok :: "string \<Rightarrow> bool" where
  "actor_key_ok s \<longleftrightarrow>
     is_hex64 s \<or>
     take 3 s = ''v1.'' \<and> length s \<le> 128 \<and>
       (let t = drop 3 s; name = takeWhile (\<lambda>c. c \<noteq> CHR ''.'') t; tag = drop (Suc (length name)) t in
        CHR ''.'' \<in> set t \<and> 1 \<le> length name \<and> length name \<le> 32 \<and> list_all actor_char name \<and>
        length tag = 43 \<and> list_all actor_char tag)"

definition STORED_SCOPES :: "string list" where
  "STORED_SCOPES =
     [''compat-status'', ''compat-directory'', ''compat-otp'', ''compat-update-source'', ''compat-update-server'',
      ''publish-server'', ''publish-game-server'', ''rendezvous-client-source'', ''rendezvous-client-source-server'',
      ''rendezvous-server-source'', ''rendezvous-server'']"

definition request_row_ok :: "request_row \<Rightarrow> bool" where
  "request_row_ok r \<longleftrightarrow>
     actor_key_ok (rb_actor r) \<and> rb_scope r \<in> set STORED_SCOPES \<and> 0 \<le> rb_start r \<and>
     1 \<le> rb_count r \<and> rb_count r \<le> 1000000 \<and>
     1 \<le> rb_expires r - rb_start r \<and> rb_expires r - rb_start r \<le> 86400"

definition request_key :: "request_row \<Rightarrow> string \<times> string \<times> int" where
  "request_key r = (rb_actor r, rb_scope r, rb_start r)"

subsection \<open>Failures of a dependency\<close>

text \<open>
  A thrown value: whether it is a \<open>TypeError\<close>, \<open>RangeError\<close> or \<open>SyntaxError\<close>, and the objects
  of its chain of causes in their order, each once, with their messages.
\<close>

record thrown =
  th_native :: bool
  th_chain :: "string option list"

definition errorMessages :: "thrown \<Rightarrow> string list" where
  "errorMessages t = map the (filter (\<lambda>m. m \<noteq> None) (take 4 (th_chain t)))"

definition FAILURE_MARKERS :: "string list" where
  "FAILURE_MARKERS =
     [''d1_type_error:'', ''d1_columnnotfound:'', ''d1_column_notfound:'', ''sqlite_constraint'', ''constraint failed'',
      ''no such table'', ''no such column'', ''syntax error'', ''no sql statements detected'']"

definition isD1ProgrammingOrIntegrityFailure :: "thrown \<Rightarrow> bool" where
  "isD1ProgrammingOrIntegrityFailure t \<longleftrightarrow>
     th_native t \<or>
     (let detail = map to_lower (join_text [byte 10] (errorMessages t)) in
      list_ex (\<lambda>marker. has_part marker detail) FAILURE_MARKERS)"

datatype dependency = D1 | NativeRateLimit

definition executeDependency :: "dependency \<Rightarrow> thrown + 'a \<Rightarrow> request_exception + 'a" where
  "executeDependency d result =
     (case result of
        Inr x \<Rightarrow> Inr x
      | Inl t \<Rightarrow> if d = D1 \<and> isD1ProgrammingOrIntegrityFailure t then Inl OtherError else Inl ControlUnavailable)"

lemma executeDependency_simps [simp]:
  "executeDependency d (Inr x) = Inr x"
  "executeDependency d (Inl t) = Inl (if d = D1 \<and> isD1ProgrammingOrIntegrityFailure t then OtherError else ControlUnavailable)"
  by (simp_all add: executeDependency_def)

text \<open>A statement runs and is answered, runs and its answer is lost, or does not run.\<close>

datatype d1_answer = Answered | AnswerLost thrown | NotApplied thrown

definition constraint_failure :: thrown where
  "constraint_failure = \<lparr>th_native = False, th_chain = [Some ''D1_ERROR: CHECK constraint failed: SQLITE_CONSTRAINT'']\<rparr>"

definition run_d1 :: "d1_answer \<Rightarrow> ('d \<Rightarrow> ('a \<times> 'd) option) \<Rightarrow> 'd \<Rightarrow> (thrown + 'a) \<times> 'd" where
  "run_d1 a statement d =
     (case a of
        NotApplied t \<Rightarrow> (Inl t, d)
      | Answered \<Rightarrow> (case statement d of None \<Rightarrow> (Inl constraint_failure, d) | Some (x, d') \<Rightarrow> (Inr x, d'))
      | AnswerLost t \<Rightarrow> (case statement d of None \<Rightarrow> (Inl t, d) | Some (x, d') \<Rightarrow> (Inl t, d')))"

subsection \<open>Windows\<close>

definition SECONDS_PER_DAY :: int where "SECONDS_PER_DAY = 86400"
definition MAXIMUM_BUDGET :: int where "MAXIMUM_BUDGET = 1000000"

record fixed_window =
  fw_startAt :: int
  fw_endAt :: int

definition integer_in_range :: "int \<Rightarrow> int \<Rightarrow> int \<Rightarrow> bool" where
  "integer_in_range v lo hi \<longleftrightarrow> is_safe_integer v \<and> lo \<le> v \<and> v \<le> hi"

definition non_negative_integer :: "int \<Rightarrow> bool" where
  "non_negative_integer v \<longleftrightarrow> integer_in_range v 0 max_safe_integer"

text \<open>\<open>None\<close> is a \<open>RangeError\<close>.\<close>

definition utcDayWindow :: "int \<Rightarrow> fixed_window option" where
  "utcDayWindow now =
     (if \<not> non_negative_integer now then None
      else let startAt = now div SECONDS_PER_DAY * SECONDS_PER_DAY in
        if startAt > max_safe_integer - SECONDS_PER_DAY then None
        else Some \<lparr>fw_startAt = startAt, fw_endAt = startAt + SECONDS_PER_DAY\<rparr>)"

definition validateWindow :: "fixed_window \<Rightarrow> int \<Rightarrow> bool" where
  "validateWindow w now \<longleftrightarrow>
     non_negative_integer (fw_startAt w) \<and> non_negative_integer (fw_endAt w) \<and>
     integer_in_range (fw_endAt w - fw_startAt w) 1 SECONDS_PER_DAY \<and>
     \<not> (now < fw_startAt w \<or> now \<ge> fw_endAt w)"

definition clampRetryAfter :: "int \<Rightarrow> int" where
  "clampRetryAfter seconds = max 1 (min SECONDS_PER_DAY seconds)"

definition boundedWindowRetry :: "int \<Rightarrow> int \<Rightarrow> int" where
  "boundedWindowRetry resetAt now = clampRetryAfter (resetAt - now)"

definition RequestBudgetExceeded :: "control_scope \<Rightarrow> limit_reason \<Rightarrow> int \<Rightarrow> int option \<Rightarrow> int option \<Rightarrow> request_exception" where
  "RequestBudgetExceeded s reason retry resetAt limit =
     BudgetExceeded \<lparr>be_scope = s, be_reason = reason, be_retry = clampRetryAfter retry, be_resetAt = resetAt, be_limit = limit\<rparr>"

subsection \<open>Consuming a budget\<close>

text \<open>\<open>REQUEST_BUDGET_SCOPES\<close>: the scopes with a durable budget.\<close>

fun budget_scope_name :: "control_scope \<Rightarrow> string" where
  "budget_scope_name GlobalScope = ''global''"
| "budget_scope_name RendezvousClientScope = ''rendezvous-client''"
| "budget_scope_name PublishServerScope = ''publish-server''"
| "budget_scope_name PublishGameServerScope = ''publish-game-server''"
| "budget_scope_name RendezvousServerScope = ''rendezvous-server''"

definition REQUEST_BUDGET_SCOPES :: "control_scope list" where
  "REQUEST_BUDGET_SCOPES = [PublishServerScope, PublishGameServerScope, RendezvousServerScope]"

record budget_request =
  br_actor :: string
  br_scope :: control_scope
  br_limit :: int
  br_now :: int
  br_window :: fixed_window

record budget_admission =
  ba_scope :: control_scope
  ba_count :: int
  ba_limit :: int
  ba_remaining :: int
  ba_resetAt :: int

definition budget_request_ok :: "budget_request \<Rightarrow> bool" where
  "budget_request_ok q \<longleftrightarrow>
     is_hex64 (br_actor q) \<and> br_scope q \<in> set REQUEST_BUDGET_SCOPES \<and>
     integer_in_range (br_limit q) 1 MAXIMUM_BUDGET \<and> non_negative_integer (br_now q) \<and>
     validateWindow (br_window q) (br_now q)"

definition proposed_row :: "budget_request \<Rightarrow> request_row" where
  "proposed_row q =
     \<lparr>rb_actor = br_actor q, rb_scope = budget_scope_name (br_scope q), rb_start = fw_startAt (br_window q), rb_count = 1,
      rb_expires = fw_endAt (br_window q)\<rparr>"

definition below_limit :: "int \<Rightarrow> request_row \<Rightarrow> request_row \<Rightarrow> bool" where
  "below_limit limit old new \<longleftrightarrow> rb_expires old = rb_expires new \<and> rb_count old < limit"

definition count_one :: "request_row \<Rightarrow> request_row \<Rightarrow> request_row" where
  "count_one old new = old\<lparr>rb_count := rb_count old + 1\<rparr>"

text \<open>The upsert with its returned rows.\<close>

definition admit_statement :: "budget_request \<Rightarrow> request_row list \<Rightarrow> (request_row list \<times> request_row list) option" where
  "admit_statement q rs =
     (let r = proposed_row q; (n, rs') = upsert_rows request_key (below_limit (br_limit q)) count_one r rs in
      if \<not> upsert_ok request_row_ok request_key (below_limit (br_limit q)) count_one r rs then None
      else Some (if n = 0 then [] else filter (\<lambda>x. request_key x = request_key r) rs', rs'))"

definition read_state :: "budget_request \<Rightarrow> request_row list \<Rightarrow> (request_row option \<times> request_row list) option" where
  "read_state q rs = Some (lookup request_key (request_key (proposed_row q)) rs, rs)"

text \<open>\<open>between\<close> is what other requests do to the table while the refusal is read back.\<close>

definition consumeFixedWindowBudget ::
  "budget_request \<Rightarrow> d1_answer \<Rightarrow> d1_answer \<Rightarrow> (request_row list \<Rightarrow> request_row list) \<Rightarrow> request_row list \<Rightarrow>
   (request_exception + budget_admission) \<times> request_row list" where
  "consumeFixedWindowBudget q a1 a2 between rs =
     (if \<not> budget_request_ok q then (Inl OtherError, rs)
      else let (admitted, rs1) = run_d1 a1 (admit_statement q) rs in
        (case executeDependency D1 admitted of
           Inl x \<Rightarrow> (Inl x, rs1)
         | Inr [row] \<Rightarrow>
             (Inr \<lparr>ba_scope = br_scope q, ba_count = rb_count row, ba_limit = br_limit q,
                   ba_remaining = br_limit q - rb_count row, ba_resetAt = rb_expires row\<rparr>, rs1)
         | Inr (_ # _ # _) \<Rightarrow> (Inl OtherError, rs1)
         | Inr [] \<Rightarrow>
             (let (state, rs2) = run_d1 a2 (read_state q) (between rs1) in
              (case executeDependency D1 state of
                 Inl x \<Rightarrow> (Inl x, rs2)
               | Inr None \<Rightarrow> (Inl OtherError, rs2)
               | Inr (Some s) \<Rightarrow>
                   (if rb_expires s \<noteq> fw_endAt (br_window q) \<or> rb_count s < br_limit q then (Inl OtherError, rs2)
                    else (Inl (RequestBudgetExceeded (br_scope q) BudgetLimit
                                (boundedWindowRetry (fw_endAt (br_window q)) (br_now q))
                                (Some (fw_endAt (br_window q))) (Some (br_limit q))), rs2))))))"

subsection \<open>The native limiter\<close>

text \<open>\<open>limiter\<close> is the answer of the binding: \<open>Inr success\<close> or its exception.\<close>

definition enforceNativeBurst :: "thrown + bool \<Rightarrow> string \<Rightarrow> control_scope \<Rightarrow> int \<Rightarrow> request_exception + unit" where
  "enforceNativeBurst limiter actor s periodSeconds =
     (if \<not> is_hex64 actor \<or> periodSeconds \<noteq> 10 \<and> periodSeconds \<noteq> 60 then Inl OtherError
      else case executeDependency NativeRateLimit limiter of
        Inl x \<Rightarrow> Inl x
      | Inr success \<Rightarrow> if success then Inr () else Inl (RequestBudgetExceeded s BurstLimit periodSeconds None None))"

definition enforceSharedIngress :: "thrown + bool \<Rightarrow> request_exception + unit" where
  "enforceSharedIngress limiter =
     (case executeDependency NativeRateLimit limiter of
        Inl x \<Rightarrow> Inl x
      | Inr success \<Rightarrow> if success then Inr () else Inl (RequestBudgetExceeded GlobalScope BurstLimit 60 None None))"

subsection \<open>Maintenance (\<open>maintenance.ts\<close>)\<close>

record control_state =
  cs_requests :: "request_row list"
  cs_nonces :: "nonce_row list"

datatype maintenance_target = RequestBudgets | PublisherNonces

definition MAINTENANCE_TARGETS :: "maintenance_target list" where
  "MAINTENANCE_TARGETS = [RequestBudgets, PublisherNonces]"

record target_state =
  ts_deleted :: nat
  ts_batches :: nat
  ts_active :: bool
  ts_more :: bool

type_synonym cutoffs = "maintenance_target \<Rightarrow> int"

text \<open>\<open>DELETE ... WHERE key IN (SELECT key ... WHERE P ORDER BY expires_at LIMIT n)\<close>.\<close>

definition delete_oldest :: "nat \<Rightarrow> ('r \<Rightarrow> 'k) \<Rightarrow> ('r \<Rightarrow> int) \<Rightarrow> ('r \<Rightarrow> bool) \<Rightarrow> 'r list \<Rightarrow> nat \<times> 'r list" where
  "delete_oldest n key expires P rs =
     (let gone = map key (take n (sort_key expires (filter P rs))) in
      (count (\<lambda>x. key x \<in> set gone) rs, filter (\<lambda>x. key x \<notin> set gone) rs))"

definition expired_request :: "int \<Rightarrow> request_row \<Rightarrow> bool" where
  "expired_request cutoff r \<longleftrightarrow> rb_expires r \<le> cutoff \<and> rb_scope r \<in> set (map budget_scope_name REQUEST_BUDGET_SCOPES)"

definition expired_nonce :: "int \<Rightarrow> nonce_row \<Rightarrow> bool" where
  "expired_nonce cutoff n \<longleftrightarrow> nn_expires n \<le> cutoff"

fun delete_expired :: "cutoffs \<Rightarrow> nat \<Rightarrow> maintenance_target \<Rightarrow> control_state statement" where
  "delete_expired cutoff n RequestBudgets s =
     (let (k, rs) = delete_oldest n request_key rb_expires (expired_request (cutoff RequestBudgets)) (cs_requests s) in
      Some (k, s\<lparr>cs_requests := rs\<rparr>))"
| "delete_expired cutoff n PublisherNonces s =
     (let (k, rs) = delete_oldest n nonce_key nn_expires (expired_nonce (cutoff PublisherNonces)) (cs_nonces s) in
      Some (k, s\<lparr>cs_nonces := rs\<rparr>))"

fun probe_expired :: "cutoffs \<Rightarrow> maintenance_target \<Rightarrow> control_state \<Rightarrow> (bool \<times> control_state) option" where
  "probe_expired cutoff RequestBudgets s = Some (list_ex (expired_request (cutoff RequestBudgets)) (cs_requests s), s)"
| "probe_expired cutoff PublisherNonces s = Some (list_ex (expired_nonce (cutoff PublisherNonces)) (cs_nonces s), s)"

definition fresh_state :: target_state where
  "fresh_state = \<lparr>ts_deleted = 0, ts_batches = 0, ts_active = True, ts_more = False\<rparr>"

definition count_batch :: "nat \<Rightarrow> nat \<Rightarrow> target_state \<Rightarrow> target_state" where
  "count_batch batchSize changes t =
     t\<lparr>ts_deleted := ts_deleted t + changes, ts_batches := ts_batches t + 1, ts_active := (batchSize \<le> changes)\<rparr>"

text \<open>
  At most \<open>rounds\<close> batches, one delete per target that is still active; \<open>calls i\<close> is the answer of
  D1 to the i-th call. A row count is at most the limit of its statement, so the tests of the
  result never fail.
\<close>

fun cleanup_rounds ::
  "nat \<Rightarrow> nat \<Rightarrow> cutoffs \<Rightarrow> nat \<Rightarrow> (nat \<Rightarrow> d1_answer) \<Rightarrow> (maintenance_target \<Rightarrow> target_state) \<Rightarrow> control_state \<Rightarrow>
   (thrown + nat \<times> (maintenance_target \<Rightarrow> target_state)) \<times> control_state" where
  "cleanup_rounds 0 i cutoff batchSize calls ts s = (Inr (i, ts), s)"
| "cleanup_rounds (Suc rounds) i cutoff batchSize calls ts s =
     (let active = filter (\<lambda>t. ts_active (ts t)) MAINTENANCE_TARGETS in
      if active = [] then (Inr (i, ts), s)
      else
        (case run_d1 (calls i) (run_batch (map (delete_expired cutoff batchSize) active)) s of
           (Inl x, s1) \<Rightarrow> (Inl x, s1)
         | (Inr changes, s1) \<Rightarrow>
             cleanup_rounds rounds (Suc i) cutoff batchSize calls
               (\<lambda>t. case map_of (zip active changes) t of None \<Rightarrow> ts t | Some n \<Rightarrow> count_batch batchSize n (ts t)) s1))"

fun probe_targets ::
  "maintenance_target list \<Rightarrow> nat \<Rightarrow> cutoffs \<Rightarrow> (nat \<Rightarrow> d1_answer) \<Rightarrow> (maintenance_target \<Rightarrow> target_state) \<Rightarrow> control_state \<Rightarrow>
   (thrown + (maintenance_target \<Rightarrow> target_state)) \<times> control_state" where
  "probe_targets [] i cutoff calls ts s = (Inr ts, s)"
| "probe_targets (t # targets) i cutoff calls ts s =
     (if \<not> ts_active (ts t) then probe_targets targets i cutoff calls ts s
      else case run_d1 (calls i) (probe_expired cutoff t) s of
        (Inl x, s1) \<Rightarrow> (Inl x, s1)
      | (Inr present, s1) \<Rightarrow> probe_targets targets (Suc i) cutoff calls (ts(t := (ts t)\<lparr>ts_more := present\<rparr>)) s1)"

datatype maintenance_error = InvalidOptions | CleanupFailed thrown

record cleanup_result =
  cr_targets :: "maintenance_target \<Rightarrow> target_state"
  cr_backlogged :: "maintenance_target list"

definition MAXIMUM_BATCH_SIZE :: nat where "MAXIMUM_BATCH_SIZE = 1000"
definition MAXIMUM_BATCHES :: nat where "MAXIMUM_BATCHES = 8"

definition cleanupExpiredState ::
  "cutoffs \<Rightarrow> nat \<Rightarrow> nat \<Rightarrow> (nat \<Rightarrow> d1_answer) \<Rightarrow> control_state \<Rightarrow> (maintenance_error + cleanup_result) \<times> control_state" where
  "cleanupExpiredState cutoff batchSize maximumBatches calls s =
     (if \<not> (1 \<le> batchSize \<and> batchSize \<le> MAXIMUM_BATCH_SIZE) \<or> \<not> (1 \<le> maximumBatches \<and> maximumBatches \<le> MAXIMUM_BATCHES) \<or>
         \<not> list_all (\<lambda>t. non_negative_integer (cutoff t)) MAINTENANCE_TARGETS
      then (Inl InvalidOptions, s)
      else case cleanup_rounds maximumBatches 0 cutoff batchSize calls (\<lambda>t. fresh_state) s of
        (Inl x, s1) \<Rightarrow> (Inl (CleanupFailed x), s1)
      | (Inr (i, ts), s1) \<Rightarrow>
          (case probe_targets MAINTENANCE_TARGETS i cutoff calls ts s1 of
             (Inl x, s2) \<Rightarrow> (Inl (CleanupFailed x), s2)
           | (Inr ts', s2) \<Rightarrow>
               (Inr \<lparr>cr_targets = ts', cr_backlogged = filter (\<lambda>t. ts_more (ts' t)) MAINTENANCE_TARGETS\<rparr>, s2)))"

subsection \<open>Deleting the oldest rows\<close>

lemma filter_drop_keys:
  assumes "distinct (map key S)"
  shows "filter (\<lambda>x. key x \<notin> set (map key (take n S))) S = drop n S"
proof -
  let ?Q = "\<lambda>x. key x \<notin> set (map key (take n S))"
  have "map key S = map key (take n S) @ map key (drop n S)" by (simp only: map_append[symmetric] append_take_drop_id)
  then have "distinct (map key (take n S) @ map key (drop n S))" using assms by (simp only:)
  then have disjoint: "set (map key (take n S)) \<inter> set (map key (drop n S)) = {}" by (simp only: distinct_append)
  have "filter ?Q (take n S) = []" by (auto simp: filter_empty_conv)
  moreover have "filter ?Q (drop n S) = drop n S" using disjoint by (intro filter_True ballI) auto
  moreover have "filter ?Q S = filter ?Q (take n S) @ filter ?Q (drop n S)"
    by (simp only: filter_append[symmetric] append_take_drop_id)
  ultimately show ?thesis by simp
qed

definition pending :: "('r \<Rightarrow> int) \<Rightarrow> ('r \<Rightarrow> bool) \<Rightarrow> 'r list \<Rightarrow> 'r list" where
  "pending expires P rs = sort_key expires (filter P rs)"

lemma pending_simps [simp]: "set (pending expires P rs) = {x \<in> set rs. P x}" "length (pending expires P rs) = length (filter P rs)"
  by (auto simp: pending_def)

lemma pending_distinct: "distinct (map key rs) \<Longrightarrow> distinct (map key (pending expires P rs))"
proof -
  assume "distinct (map key rs)"
  then have "distinct rs" "inj_on key (set rs)" by (auto simp: distinct_map)
  then show ?thesis by (auto simp: distinct_map pending_def intro: inj_on_subset)
qed

lemma delete_oldest_effect:
  assumes "distinct (map key rs)" "d = delete_oldest n key expires P rs"
  shows "fst d = min n (length (pending expires P rs))" "pending expires P (snd d) = drop n (pending expires P rs)"
    "filter (\<lambda>x. \<not> P x) (snd d) = filter (\<lambda>x. \<not> P x) rs" "distinct (map key (snd d))" "set (snd d) \<subseteq> set rs"
proof -
  let ?S = "pending expires P rs" and ?gone = "map key (take n (pending expires P rs))"
  have d: "d = (count (\<lambda>x. key x \<in> set ?gone) rs, filter (\<lambda>x. key x \<notin> set ?gone) rs)"
    by (simp add: assms(2) delete_oldest_def pending_def Let_def)
  have keys: "inj_on key (set rs)" using assms(1) by (simp add: distinct_map)
  have S: "distinct (map key ?S)" using pending_distinct[OF assms(1)] .
  have hit: "key x \<in> set ?gone \<longleftrightarrow> x \<in> set (take n ?S)" if "x \<in> set rs" for x
  proof
    assume "key x \<in> set ?gone"
    then obtain y where y: "y \<in> set (take n ?S)" "key y = key x" by auto
    then have "y \<in> set rs" using in_set_takeD[of y n ?S] by simp
    then show "x \<in> set (take n ?S)" using y keys that by (metis inj_on_def)
  qed simp
  have sub: "P x" if "x \<in> set (take n ?S)" for x using in_set_takeD[OF that] by simp
  show "pending expires P (snd d) = drop n ?S"
  proof -
    have "pending expires P (snd d) = filter (\<lambda>x. key x \<notin> set ?gone) ?S"
      unfolding d snd_conv pending_def filter_sort by (simp add: conj_commute)
    then show ?thesis using filter_drop_keys[OF S] by simp
  qed
  show "filter (\<lambda>x. \<not> P x) (snd d) = filter (\<lambda>x. \<not> P x) rs"
    unfolding d snd_conv filter_filter using hit sub by (intro filter_cong refl) blast
  show "distinct (map key (snd d))" using assms(1) by (simp add: d distinct_map inj_on_def)
  show "set (snd d) \<subseteq> set rs" by (auto simp: d)
  have "count (\<lambda>x. key x \<in> set ?gone) rs = card {x \<in> set rs. key x \<in> set ?gone}"
  proof -
    have "distinct (filter (\<lambda>x. key x \<in> set ?gone) rs)" using assms(1) by (simp only: distinct_map distinct_filter)
    from distinct_card[OF this] show ?thesis by (simp only: count_def set_filter)
  qed
  also have "{x \<in> set rs. key x \<in> set ?gone} = set (take n ?S)"
  proof
    show "{x \<in> set rs. key x \<in> set ?gone} \<subseteq> set (take n ?S)" using hit by blast
    have "x \<in> set rs" if "x \<in> set (take n ?S)" for x using in_set_takeD[OF that] by simp
    then show "set (take n ?S) \<subseteq> {x \<in> set rs. key x \<in> set ?gone}" using hit by blast
  qed
  also have "card (set (take n ?S)) = min n (length ?S)"
    using distinct_card[of "take n ?S"] S by (simp only: distinct_map distinct_take length_take)
  finally show "fst d = min n (length ?S)" by (simp add: d)
qed

subsection \<open>Budgets\<close>

interpretation request_table: keyed_table request_key "below_limit n" count_one for n
  by unfold_locales (simp add: request_key_def count_one_def)

definition used :: "string \<times> string \<times> int \<Rightarrow> request_row list \<Rightarrow> int" where
  "used k rs = (case lookup request_key k rs of None \<Rightarrow> 0 | Some r \<Rightarrow> rb_count r)"

text \<open>The callers pass the UTC day of their clock and one limit per scope.\<close>

definition day_request :: "(control_scope \<Rightarrow> int) \<Rightarrow> string \<Rightarrow> control_scope \<Rightarrow> int \<Rightarrow> fixed_window \<Rightarrow> budget_request" where
  "day_request limits actor s now w =
     \<lparr>br_actor = actor, br_scope = s, br_limit = limits s, br_now = now, br_window = w\<rparr>"

datatype budget_event = Ask string control_scope int d1_answer d1_answer | Clean int nat

fun step_clock :: "budget_event \<Rightarrow> int" where
  "step_clock (Ask actor s now a1 a2) = now"
| "step_clock (Clean cutoff n) = cutoff"

fun control_step :: "(control_scope \<Rightarrow> int) \<Rightarrow> budget_event \<Rightarrow> request_row list \<Rightarrow>
    ((string \<times> string \<times> int) \<times> budget_admission) option \<times> request_row list" where
  "control_step limits (Ask actor s now a1 a2) rs =
     (case utcDayWindow now of
        None \<Rightarrow> (None, rs)
      | Some w \<Rightarrow>
          (case consumeFixedWindowBudget (day_request limits actor s now w) a1 a2 id rs of
             (Inl _, rs') \<Rightarrow> (None, rs')
           | (Inr x, rs') \<Rightarrow> (Some ((actor, budget_scope_name s, fw_startAt w), x), rs')))"
| "control_step limits (Clean cutoff n) rs =
     (None, snd (delete_oldest n request_key rb_expires (expired_request cutoff) rs))"

fun control_run :: "(control_scope \<Rightarrow> int) \<Rightarrow> budget_event list \<Rightarrow> request_row list \<Rightarrow>
    ((string \<times> string \<times> int) \<times> budget_admission) list \<times> request_row list" where
  "control_run limits [] rs = ([], rs)"
| "control_run limits (s # ss) rs =
     (let (x, rs1) = control_step limits s rs; (xs, rs2) = control_run limits ss rs1 in
      ((case x of None \<Rightarrow> xs | Some g \<Rightarrow> g # xs), rs2))"

definition rows_sound :: "(control_scope \<Rightarrow> int) \<Rightarrow> request_row list \<Rightarrow> bool" where
  "rows_sound limits rs \<longleftrightarrow>
     distinct (map request_key rs) \<and>
     list_all (\<lambda>r. request_row_ok r \<and> rb_expires r = rb_start r + SECONDS_PER_DAY \<and>
       (\<forall>s \<in> set REQUEST_BUDGET_SCOPES. rb_scope r = budget_scope_name s \<longrightarrow> rb_count r \<le> limits s)) rs"

lemma utcDayWindow_Some:
  "utcDayWindow now = Some w \<Longrightarrow>
   0 \<le> fw_startAt w \<and> fw_startAt w \<le> now \<and> fw_endAt w = fw_startAt w + SECONDS_PER_DAY \<and> now < fw_endAt w \<and> validateWindow w now"
proof -
  assume w: "utcDayWindow now = Some w"
  define d where "d = now div SECONDS_PER_DAY"
  have now: "non_negative_integer now" and start: "fw_startAt w = d * SECONDS_PER_DAY" "fw_endAt w = d * SECONDS_PER_DAY + SECONDS_PER_DAY"
    and bound: "d * SECONDS_PER_DAY \<le> max_safe_integer - SECONDS_PER_DAY"
    using w by (auto simp: utcDayWindow_def d_def Let_def split: if_splits)
  have "0 \<le> now" using now by (simp add: non_negative_integer_def integer_in_range_def)
  then have d: "0 \<le> d" "d * SECONDS_PER_DAY \<le> now" "now < d * SECONDS_PER_DAY + SECONDS_PER_DAY"
    using div_mult_mod_eq[of now SECONDS_PER_DAY] pos_mod_bound[of SECONDS_PER_DAY now] pos_mod_sign[of SECONDS_PER_DAY now]
    by (simp_all add: d_def SECONDS_PER_DAY_def pos_imp_zdiv_nonneg_iff)
  then show ?thesis using start bound
    by (auto simp: validateWindow_def non_negative_integer_def integer_in_range_def SECONDS_PER_DAY_def max_safe_integer_def
        intro!: is_safe_integer_bounds)
qed

lemma scope_name_inj: "budget_scope_name s = budget_scope_name t \<longleftrightarrow> s = t"
  by (cases s; cases t) simp_all

lemma proposed_ok:
  assumes "budget_request_ok q" "fw_endAt (br_window q) = fw_startAt (br_window q) + SECONDS_PER_DAY"
  shows "request_row_ok (proposed_row q)"
proof -
  have "budget_scope_name (br_scope q) \<in> set STORED_SCOPES"
    using assms(1) by (auto simp: budget_request_ok_def REQUEST_BUDGET_SCOPES_def STORED_SCOPES_def)
  then show ?thesis using assms
    by (simp add: request_row_ok_def proposed_row_def budget_request_ok_def actor_key_ok_def SECONDS_PER_DAY_def validateWindow_def
        non_negative_integer_def integer_in_range_def)
qed

lemma filter_key:
  "distinct (map key rs) \<Longrightarrow> filter (\<lambda>x. key x = k) rs = (case lookup key k rs of None \<Rightarrow> [] | Some x \<Rightarrow> [x])"
proof (induction rs)
  case (Cons a rs)
  show ?case
  proof (cases "key a = k")
    case True
    then have "filter (\<lambda>x. key x = k) rs = []" using Cons.prems by (auto simp: filter_empty_conv image_iff)
    then show ?thesis using True by simp
  qed (use Cons in simp)
qed simp

text \<open>The upsert on sound rows: it never aborts, and returns the counted row exactly below the limit.\<close>

lemma admit_effect:
  assumes rs: "rows_sound limits rs" and q: "budget_request_ok q" "br_limit q = limits (br_scope q)"
    and w: "fw_endAt (br_window q) = fw_startAt (br_window q) + SECONDS_PER_DAY"
  defines "k \<equiv> request_key (proposed_row q)"
  obtains rows rs' where "admit_statement q rs = Some (rows, rs')" "rows_sound limits rs'"
    "\<And>k'. k' \<noteq> k \<Longrightarrow> used k' rs' = used k' rs"
    "used k rs < br_limit q \<Longrightarrow> used k rs' = used k rs + 1 \<and>
      (\<exists>r. rows = [r] \<and> rb_count r = used k rs + 1 \<and> rb_expires r = fw_endAt (br_window q))"
    "\<not> used k rs < br_limit q \<Longrightarrow> rows = [] \<and> rs' = rs \<and>
      (\<exists>r. lookup request_key k rs = Some r \<and> rb_count r = br_limit q \<and> rb_expires r = fw_endAt (br_window q))"
proof -
  let ?p = "below_limit (br_limit q)" and ?r = "proposed_row q"
  define n rs' where "n = fst (upsert_rows request_key ?p count_one ?r rs)" and "rs' = snd (upsert_rows request_key ?p count_one ?r rs)"
  have dist: "distinct (map request_key rs)" and all: "\<And>x. x \<in> set rs \<Longrightarrow> request_row_ok x \<and> rb_expires x = rb_start x + SECONDS_PER_DAY \<and>
      (\<forall>s \<in> set REQUEST_BUDGET_SCOPES. rb_scope x = budget_scope_name s \<longrightarrow> rb_count x \<le> limits s)"
    using rs by (auto simp: rows_sound_def list_all_iff)
  have scope: "br_scope q \<in> set REQUEST_BUDGET_SCOPES" and limit: "1 \<le> br_limit q" "br_limit q \<le> 1000000"
    using q(1) by (auto simp: budget_request_ok_def integer_in_range_def MAXIMUM_BUDGET_def)
  have r: "request_row_ok ?r" "rb_expires ?r = rb_start ?r + SECONDS_PER_DAY" "rb_count ?r = 1" "rb_scope ?r = budget_scope_name (br_scope q)"
    using proposed_ok[OF q(1) w] w by (simp_all add: proposed_row_def)
  have stored: "rb_expires x = rb_expires ?r \<and> rb_count x \<le> br_limit q" if "x \<in> set rs" "request_key x = k" for x
    using all[OF that(1)] that(2) r scope q(2) by (simp add: k_def request_key_def)
  have merged: "request_row_ok (count_one x ?r)" if "request_row_ok x" "?p x ?r" for x
    using that limit by (simp add: request_row_ok_def count_one_def below_limit_def)
  have ok: "upsert_ok request_row_ok request_key ?p count_one ?r rs"
    using r(1) all merged by (auto simp: upsert_ok_def list_all_iff)
  have count: "n = (case lookup request_key k rs of None \<Rightarrow> 1 | Some x \<Rightarrow> if ?p x ?r then 1 else 0)"
    using request_table.upsert_count[OF dist] by (simp add: n_def k_def)
  have look: "lookup request_key k' rs' =
      (if k' = k then Some (case lookup request_key k rs of None \<Rightarrow> ?r | Some x \<Rightarrow> if ?p x ?r then count_one x ?r else x)
       else lookup request_key k' rs)" for k'
    using request_table.upsert_lookup[of k' "br_limit q" ?r rs] by (simp add: rs'_def k_def)
  have dist': "distinct (map request_key rs')" using request_table.upsert_distinct[OF dist] by (simp add: rs'_def)
  have sound: "rows_sound limits rs'"
  proof -
    have "list_all (\<lambda>x. request_row_ok x \<and> rb_expires x = rb_start x + SECONDS_PER_DAY \<and>
        (\<forall>s \<in> set REQUEST_BUDGET_SCOPES. rb_scope x = budget_scope_name s \<longrightarrow> rb_count x \<le> limits s)) rs'"
      unfolding rs'_def
    proof (rule request_table.upsert_all)
      show "request_row_ok (count_one x ?r) \<and> rb_expires (count_one x ?r) = rb_start (count_one x ?r) + SECONDS_PER_DAY \<and>
          (\<forall>s \<in> set REQUEST_BUDGET_SCOPES. rb_scope (count_one x ?r) = budget_scope_name s \<longrightarrow> rb_count (count_one x ?r) \<le> limits s)"
        if x: "request_row_ok x \<and> rb_expires x = rb_start x + SECONDS_PER_DAY \<and>
          (\<forall>s \<in> set REQUEST_BUDGET_SCOPES. rb_scope x = budget_scope_name s \<longrightarrow> rb_count x \<le> limits s)"
          "request_key x = request_key ?r" "?p x ?r" for x
        using x merged[of x] r(4) q(2) by (auto simp: count_one_def below_limit_def request_key_def scope_name_inj)
    qed (use rs r limit q(2) in \<open>auto simp: rows_sound_def scope_name_inj\<close>)
    then show ?thesis using dist' by (simp add: rows_sound_def)
  qed
  define rows where "rows = (if n = 0 then [] else filter (\<lambda>x. request_key x = k) rs')"
  have statement: "admit_statement q rs = Some (rows, rs')"
    using ok by (simp add: admit_statement_def Let_def case_prod_beta rows_def n_def rs'_def k_def)
  have one: "filter (\<lambda>x. request_key x = k) rs' = (case lookup request_key k rs' of None \<Rightarrow> [] | Some x \<Rightarrow> [x])"
    by (rule filter_key[OF dist'])
  show thesis
  proof (rule that[OF statement sound])
    show "used k' rs' = used k' rs" if "k' \<noteq> k" for k' using that by (simp add: used_def look)
    show "used k rs' = used k rs + 1 \<and> (\<exists>r. rows = [r] \<and> rb_count r = used k rs + 1 \<and> rb_expires r = fw_endAt (br_window q))"
      if less: "used k rs < br_limit q"
    proof (cases "lookup request_key k rs")
      case None
      then show ?thesis using count one look[of k] r w by (simp add: used_def rows_def proposed_row_def)
    next
      case (Some x)
      then have "x \<in> set rs \<and> request_key x = k" by (rule lookup_Some)
      then have x: "rb_expires x = rb_expires ?r" using stored by simp
      then have "?p x ?r" using less Some by (simp add: below_limit_def used_def)
      then show ?thesis using count one look[of k] Some x
        by (simp add: used_def rows_def count_one_def) (simp add: proposed_row_def)
    qed
    show "rows = [] \<and> rs' = rs \<and> (\<exists>r. lookup request_key k rs = Some r \<and> rb_count r = br_limit q \<and> rb_expires r = fw_endAt (br_window q))"
      if full: "\<not> used k rs < br_limit q"
    proof -
      obtain x where x: "lookup request_key k rs = Some x" "\<not> rb_count x < br_limit q"
        using full limit by (auto simp: used_def split: option.splits)
      then have mem: "x \<in> set rs" "request_key x = k" using lookup_Some[of request_key k rs x] by auto
      have none: "\<not> ?p y ?r" if "y \<in> set rs" "request_key y = request_key ?r" for y
        using that dist mem x by (metis below_limit_def lookup_distinct k_def option.inject)
      have "request_key ?r \<in> set (map request_key rs)" using mem by (metis image_eqI image_set k_def)
      then have "rs' = rs" using none by (auto simp: rs'_def upsert_rows_def update_where_def intro!: map_idI)
      moreover have "n = 0" using count x none[OF mem(1)] mem(2) by (simp add: k_def)
      ultimately show ?thesis using x stored[OF mem] r(2) by (auto simp: rows_def proposed_row_def)
    qed
  qed
qed

definition granted :: "string \<times> string \<times> int \<Rightarrow> ((string \<times> string \<times> int) \<times> budget_admission) list \<Rightarrow> nat" where
  "granted k xs = count (\<lambda>x. fst x = k) xs"

text \<open>What a request finds when D1 answers.\<close>

definition budget_verdict :: "budget_request \<Rightarrow> int \<Rightarrow> request_exception + budget_admission" where
  "budget_verdict q n =
     (if n < br_limit q
      then Inr \<lparr>ba_scope = br_scope q, ba_count = n + 1, ba_limit = br_limit q, ba_remaining = br_limit q - (n + 1),
                ba_resetAt = fw_endAt (br_window q)\<rparr>
      else Inl (BudgetExceeded \<lparr>be_scope = br_scope q, be_reason = BudgetLimit, be_retry = fw_endAt (br_window q) - br_now q,
                  be_resetAt = Some (fw_endAt (br_window q)), be_limit = Some (br_limit q)\<rparr>))"

lemma consume_effect:
  assumes rs: "rows_sound limits rs" and q: "budget_request_ok q" "br_limit q = limits (br_scope q)"
    and w: "fw_endAt (br_window q) = fw_startAt (br_window q) + SECONDS_PER_DAY"
  defines "k \<equiv> request_key (proposed_row q)"
  obtains x rs' where "consumeFixedWindowBudget q a1 a2 id rs = (x, rs')" "rows_sound limits rs'"
    "\<And>k'. k' \<noteq> k \<Longrightarrow> used k' rs' = used k' rs" "used k rs \<le> used k rs'"
    "\<And>y. x = Inr y \<Longrightarrow> used k rs < br_limit q \<and> used k rs' = used k rs + 1"
    "a1 = Answered \<Longrightarrow> a2 = Answered \<Longrightarrow> x = budget_verdict q (used k rs)"
proof -
  obtain rows rs1 where step: "admit_statement q rs = Some (rows, rs1)" "rows_sound limits rs1"
    "\<And>k'. k' \<noteq> k \<Longrightarrow> used k' rs1 = used k' rs"
    "used k rs < br_limit q \<Longrightarrow> used k rs1 = used k rs + 1 \<and>
      (\<exists>r. rows = [r] \<and> rb_count r = used k rs + 1 \<and> rb_expires r = fw_endAt (br_window q))"
    "\<not> used k rs < br_limit q \<Longrightarrow> rows = [] \<and> rs1 = rs \<and>
      (\<exists>r. lookup request_key k rs = Some r \<and> rb_count r = br_limit q \<and> rb_expires r = fw_endAt (br_window q))"
    using admit_effect[OF rs q w] unfolding k_def by blast
  have retry: "boundedWindowRetry (fw_endAt (br_window q)) (br_now q) = fw_endAt (br_window q) - br_now q"
    "clampRetryAfter (fw_endAt (br_window q) - br_now q) = fw_endAt (br_window q) - br_now q"
    using q(1) by (auto simp: boundedWindowRetry_def clampRetryAfter_def budget_request_ok_def validateWindow_def integer_in_range_def)
  have run: "run_d1 a1 (admit_statement q) rs =
      (case a1 of NotApplied t \<Rightarrow> (Inl t, rs) | Answered \<Rightarrow> (Inr rows, rs1) | AnswerLost t \<Rightarrow> (Inl t, rs1))"
    by (cases a1) (simp_all add: run_d1_def step(1))
  have read: "run_d1 a2 (read_state q) rs1 =
      (case a2 of NotApplied t \<Rightarrow> (Inl t, rs1) | Answered \<Rightarrow> (Inr (lookup request_key k rs1), rs1) | AnswerLost t \<Rightarrow> (Inl t, rs1))"
    by (cases a2) (simp_all add: run_d1_def read_state_def k_def)
  show thesis
  proof (cases "used k rs < br_limit q")
    case True
    then obtain r where r: "rows = [r]" "rb_count r = used k rs + 1" "rb_expires r = fw_endAt (br_window q)" "used k rs1 = used k rs + 1"
      using step(4) by auto
    show thesis
    proof (cases a1)
      case (NotApplied t)
      then show thesis using q(1) run rs
        by (intro that[of "fst (consumeFixedWindowBudget q a1 a2 id rs)" rs])
          (auto simp: consumeFixedWindowBudget_def)
    next
      case Answered
      then show thesis using q(1) run step(2,3) True r
        by (intro that[of "budget_verdict q (used k rs)" rs1])
          (auto simp: consumeFixedWindowBudget_def budget_verdict_def)
    next
      case (AnswerLost t)
      then show thesis using q(1) run step(2,3) r
        by (intro that[of "fst (consumeFixedWindowBudget q a1 a2 id rs)" rs1])
          (auto simp: consumeFixedWindowBudget_def)
    qed
  next
    case False
    then obtain r where r: "rows = []" "rs1 = rs" "lookup request_key k rs = Some r" "rb_count r = br_limit q"
        "rb_expires r = fw_endAt (br_window q)"
      using step(5) by auto
    show thesis
      using q(1) run read False r rs retry
      by (intro that[of "fst (consumeFixedWindowBudget q a1 a2 id rs)" rs])
        (auto simp: consumeFixedWindowBudget_def budget_verdict_def RequestBudgetExceeded_def
          split: d1_answer.splits)
  qed
qed

text \<open>Every grant of a window that is still open is counted in its row.\<close>

definition grants_counted :: "int \<Rightarrow> ((string \<times> string \<times> int) \<times> budget_admission) list \<Rightarrow> request_row list \<Rightarrow> bool" where
  "grants_counted now xs rs \<longleftrightarrow> (\<forall>k. now < snd (snd k) + SECONDS_PER_DAY \<longrightarrow> int (granted k xs) \<le> used k rs)"

lemma step_sound:
  assumes "rows_sound limits rs" "grants_counted now xs rs" "now \<le> step_clock e" "control_step limits e rs = (x, rs')"
  shows "rows_sound limits rs' \<and> grants_counted (step_clock e) (xs @ (case x of None \<Rightarrow> [] | Some g \<Rightarrow> [g])) rs'"
proof (cases e)
  case (Ask actor s t a1 a2)
  show ?thesis
  proof (cases "utcDayWindow t")
    case None
    then show ?thesis using assms Ask by (auto simp: grants_counted_def)
  next
    case (Some w)
    let ?q = "day_request limits actor s t w"
    have q: "br_limit ?q = limits (br_scope ?q)" "fw_endAt (br_window ?q) = fw_startAt (br_window ?q) + SECONDS_PER_DAY"
      using utcDayWindow_Some[OF Some] by (simp_all add: day_request_def)
    have key: "request_key (proposed_row ?q) = (actor, budget_scope_name s, fw_startAt w)"
      by (simp add: request_key_def proposed_row_def day_request_def)
    show ?thesis
    proof (cases "budget_request_ok ?q")
      case False
      then show ?thesis using assms Ask Some by (auto simp: consumeFixedWindowBudget_def grants_counted_def)
    next
      case True
      obtain y rs1 where y: "consumeFixedWindowBudget ?q a1 a2 id rs = (y, rs1)" "rows_sound limits rs1"
          "\<And>k. k \<noteq> (actor, budget_scope_name s, fw_startAt w) \<Longrightarrow> used k rs1 = used k rs"
          "used (actor, budget_scope_name s, fw_startAt w) rs \<le> used (actor, budget_scope_name s, fw_startAt w) rs1"
          "\<And>z. y = Inr z \<Longrightarrow> used (actor, budget_scope_name s, fw_startAt w) rs < br_limit ?q \<and>
            used (actor, budget_scope_name s, fw_startAt w) rs1 = used (actor, budget_scope_name s, fw_startAt w) rs + 1"
        by (rule consume_effect[OF assms(1) True q, of a1 a2, unfolded key]) (rule that; assumption)
      have counted: "int (granted k xs) \<le> used k rs" if "t < snd (snd k) + SECONDS_PER_DAY" for k
      proof -
        have "now < snd (snd k) + SECONDS_PER_DAY" using that assms(3) Ask by simp
        then show ?thesis using assms(2) unfolding grants_counted_def by blast
      qed
      have x: "rs' = rs1" "x = (case y of Inl _ \<Rightarrow> None | Inr z \<Rightarrow> Some ((actor, budget_scope_name s, fw_startAt w), z))"
        using assms(4) Ask Some y(1) by (auto split: sum.splits)
      have "int (granted k (xs @ (case x of None \<Rightarrow> [] | Some g \<Rightarrow> [g]))) \<le> used k rs1"
        if "t < snd (snd k) + SECONDS_PER_DAY" for k
        using counted[OF that] y(3)[of k] y(4,5) x(2)
        by (cases "k = (actor, budget_scope_name s, fw_startAt w)"; cases y) (auto simp: granted_def)
      then show ?thesis using y(2) x(1) Ask by (simp add: grants_counted_def)
    qed
  qed
next
  case (Clean cutoff n)
  let ?P = "expired_request cutoff"
  have dist: "distinct (map request_key rs)" using assms(1) by (simp add: rows_sound_def)
  have x: "x = None" "rs' = snd (delete_oldest n request_key rb_expires ?P rs)" using assms(4) Clean by simp_all
  note effect = delete_oldest_effect[OF dist refl, where n = n and expires = rb_expires and P = ?P, folded x(2)]
  have sound: "rows_sound limits rs'" using assms(1) effect(4,5) by (auto simp: rows_sound_def list_all_iff)
  have "used k rs' = used k rs" if open_window: "cutoff < snd (snd k) + SECONDS_PER_DAY" for k
  proof -
    have fresh: "\<not> ?P r" if "r \<in> set rs" "request_key r = k" for r
      using assms(1) that open_window by (auto simp: rows_sound_def list_all_iff expired_request_def request_key_def)
    have kept: "r \<in> set rs' \<longleftrightarrow> r \<in> set rs" if "\<not> ?P r" for r
      using arg_cong[OF effect(3), of set] that by auto
    have "lookup request_key k rs' = Some r \<longleftrightarrow> lookup request_key k rs = Some r" for r
      unfolding lookup_distinct[OF effect(4)] lookup_distinct[OF dist] using fresh kept effect(5) by blast
    then show ?thesis by (metis used_def not_Some_eq)
  qed
  then show ?thesis using sound assms(2,3) x(1) Clean by (auto simp: grants_counted_def)
qed

lemma run_sound:
  "rows_sound limits rs \<Longrightarrow> grants_counted now xs rs \<Longrightarrow> sorted (now # map step_clock es) \<Longrightarrow>
   control_run limits es rs = (ys, rs') \<Longrightarrow> rows_sound limits rs' \<and> grants_counted (last (now # map step_clock es)) (xs @ ys) rs'"
proof (induction es arbitrary: rs now xs ys)
  case (Cons e es)
  obtain x rs1 zs where steps: "control_step limits e rs = (x, rs1)" "control_run limits es rs1 = (zs, rs')"
      "ys = (case x of None \<Rightarrow> zs | Some g \<Rightarrow> g # zs)"
    using Cons.prems(4) by (auto simp: Let_def split: prod.splits)
  have "rows_sound limits rs1 \<and> grants_counted (step_clock e) (xs @ (case x of None \<Rightarrow> [] | Some g \<Rightarrow> [g])) rs1"
    using step_sound[OF Cons.prems(1,2) _ steps(1)] Cons.prems(3) by simp
  then have "rows_sound limits rs' \<and>
      grants_counted (last (step_clock e # map step_clock es)) ((xs @ (case x of None \<Rightarrow> [] | Some g \<Rightarrow> [g])) @ zs) rs'"
    using Cons.IH[of rs1 "step_clock e" "xs @ (case x of None \<Rightarrow> [] | Some g \<Rightarrow> [g])" zs] Cons.prems(3) steps(2) by simp
  moreover have "(xs @ (case x of None \<Rightarrow> [] | Some g \<Rightarrow> [g])) @ zs = xs @ ys" using steps(3) by (cases x) simp_all
  ultimately show ?case by simp
qed simp

subsection \<open>What maintenance leaves\<close>

text \<open>Whatever D1 answers, maintenance deletes no row that has not expired.\<close>

definition live_rows :: "cutoffs \<Rightarrow> control_state \<Rightarrow> request_row list \<times> nonce_row list" where
  "live_rows cutoff s =
     (filter (\<lambda>r. \<not> expired_request (cutoff RequestBudgets) r) (cs_requests s),
      filter (\<lambda>n. \<not> expired_nonce (cutoff PublisherNonces) n) (cs_nonces s))"

definition keys_distinct :: "control_state \<Rightarrow> bool" where
  "keys_distinct s \<longleftrightarrow> distinct (map request_key (cs_requests s)) \<and> distinct (map nonce_key (cs_nonces s))"

definition maintained :: "cutoffs \<Rightarrow> control_state \<Rightarrow> control_state \<Rightarrow> bool" where
  "maintained cutoff s s' \<longleftrightarrow> keys_distinct s' \<and> live_rows cutoff s' = live_rows cutoff s"

lemma maintained_delete:
  assumes "keys_distinct s" "delete_expired cutoff n t s = Some (k, s')"
  shows "maintained cutoff s s'"
proof (cases t)
  case RequestBudgets
  let ?d = "delete_oldest n request_key rb_expires (expired_request (cutoff RequestBudgets)) (cs_requests s)"
  have "s' = s\<lparr>cs_requests := snd ?d\<rparr>" using assms(2) RequestBudgets by (auto simp: Let_def case_prod_unfold)
  then show ?thesis
    using delete_oldest_effect(3,4)[OF _ refl, where key = request_key and rs = "cs_requests s" and n = n
        and expires = rb_expires and P = "expired_request (cutoff RequestBudgets)"] assms(1)
    by (simp add: maintained_def live_rows_def keys_distinct_def)
next
  case PublisherNonces
  let ?d = "delete_oldest n nonce_key nn_expires (expired_nonce (cutoff PublisherNonces)) (cs_nonces s)"
  have "s' = s\<lparr>cs_nonces := snd ?d\<rparr>" using assms(2) PublisherNonces by (auto simp: Let_def case_prod_unfold)
  then show ?thesis
    using delete_oldest_effect(3,4)[OF _ refl, where key = nonce_key and rs = "cs_nonces s" and n = n
        and expires = nn_expires and P = "expired_nonce (cutoff PublisherNonces)"] assms(1)
    by (simp add: maintained_def live_rows_def keys_distinct_def)
qed

lemma maintained_trans: "maintained cutoff s t \<Longrightarrow> maintained cutoff t u \<Longrightarrow> maintained cutoff s u"
  by (simp add: maintained_def)

lemma maintained_batch:
  "keys_distinct s \<Longrightarrow> run_batch (map (delete_expired cutoff n) ts) s = Some (ks, s') \<Longrightarrow> maintained cutoff s s'"
proof (induction ts arbitrary: s ks)
  case (Cons t ts)
  obtain k s1 ms where step: "delete_expired cutoff n t s = Some (k, s1)" "run_batch (map (delete_expired cutoff n) ts) s1 = Some (ms, s')"
    using Cons.prems(2) by (auto split: option.splits prod.splits)
  have "maintained cutoff s s1" by (rule maintained_delete[OF Cons.prems(1) step(1)])
  moreover from this have "maintained cutoff s1 s'" using Cons.IH[OF _ step(2)] by (simp add: maintained_def)
  ultimately show ?case by (rule maintained_trans)
qed (simp add: maintained_def)

lemma maintained_call:
  assumes "keys_distinct s" "run_d1 a (run_batch (map (delete_expired cutoff n) ts)) s = (x, s')"
  shows "maintained cutoff s s'"
proof (cases "run_batch (map (delete_expired cutoff n) ts) s")
  case None
  with assms show ?thesis by (cases a) (auto simp: run_d1_def maintained_def)
next
  case (Some y)
  obtain ks t where y: "y = (ks, t)" by fastforce
  have "maintained cutoff s t" using maintained_batch[OF assms(1)] Some y by simp
  moreover have "maintained cutoff s s" using assms(1) by (simp add: maintained_def)
  ultimately show ?thesis using assms(2) Some y by (cases a) (auto simp: run_d1_def)
qed

lemma maintained_rounds:
  "keys_distinct s \<Longrightarrow> cleanup_rounds rounds i cutoff n calls ts s = (x, s') \<Longrightarrow> maintained cutoff s s'"
proof (induction rounds arbitrary: i ts s)
  case (Suc rounds)
  let ?active = "filter (\<lambda>t. ts_active (ts t)) MAINTENANCE_TARGETS"
  obtain y s1 where call: "run_d1 (calls i) (run_batch (map (delete_expired cutoff n) ?active)) s = (y, s1)" by fastforce
  note one = maintained_call[OF Suc.prems(1) call]
  show ?case
  proof (cases "?active = []")
    case True
    with Suc.prems show ?thesis by (simp add: maintained_def Let_def)
  next
    case False
    show ?thesis
    proof (cases y)
      case (Inl e)
      with Suc.prems(2) call False one show ?thesis by (simp add: Let_def)
    next
      case (Inr changes)
      have "keys_distinct s1" using one by (simp add: maintained_def)
      from Suc.IH[OF this] Suc.prems(2) call False Inr have "maintained cutoff s1 s'"
        by (simp add: Let_def)
      with one show ?thesis by (rule maintained_trans)
    qed
  qed
qed (simp add: maintained_def)

lemma probe_same: "probe_targets targets i cutoff calls ts s = (x, s') \<Longrightarrow> s' = s"
proof (induction targets arbitrary: i ts)
  case (Cons t targets)
  have "snd (run_d1 a (probe_expired cutoff t) s) = s" for a
    by (cases a; cases t) (simp_all add: run_d1_def)
  then have call: "run_d1 (calls i) (probe_expired cutoff t) s = (y, s1) \<Longrightarrow> s1 = s" for y s1
    by (metis snd_conv)
  obtain y s1 where y: "run_d1 (calls i) (probe_expired cutoff t) s = (y, s1)" by fastforce
  show ?case
    using Cons.prems Cons.IH call[OF y] y by (auto split: if_splits sum.splits)
qed simp

theorem cleanup_keeps_live_rows:
  assumes "keys_distinct s" "cleanupExpiredState cutoff batchSize maximumBatches calls s = (x, s')"
  shows "live_rows cutoff s' = live_rows cutoff s"
proof -
  obtain y s1 where rounds: "cleanup_rounds maximumBatches 0 cutoff batchSize calls (\<lambda>t. fresh_state) s = (y, s1)"
    by fastforce
  have "s' = s1 \<or> s' = s"
    using assms(2) rounds probe_same
    by (auto simp: cleanupExpiredState_def split: if_splits sum.splits prod.splits)
  with maintained_rounds[OF assms(1) rounds] show ?thesis by (auto simp: maintained_def)
qed

subsection \<open>Properties\<close>


definition example_failure :: thrown where
  "example_failure = \<lparr>th_native = False, th_chain = [Some ''Network connection lost'']\<rparr>"

text \<open>Two grants of two, one of them lost on its way back, a deletion in between, then a refusal.\<close>

definition example_events :: "budget_event list" where
  "example_events =
     [Ask (replicate 64 (CHR ''a'')) PublishServerScope 86500 Answered Answered, Clean 86600 10,
      Ask (replicate 64 (CHR ''a'')) PublishServerScope 86700 (AnswerLost example_failure) Answered]"


end
