(* ===== verification/Spec2Isabelle.thy ===== *)
theory Spec2Isabelle
  imports RoomAlarm PublicationRoom DirectoryBuilds RendezvousEntry RequestControl
begin

text \<open>
  A verification development for the metaserver worker of the Atrinik directory
  (TypeScript sources under \<open>src/src/\<close>, SQL schema under \<open>src/migrations/\<close>).

  \<^bold>\<open>The program.\<close> Game servers publish themselves to a directory and keep one control WebSocket
  to a rendezvous room; a player's client obtains a proof-of-work admission, opens a
  short-lived WebSocket to the same room, and the room relays one candidate of the client and
  a bounded number of candidates of the server, then closes the client. A room
  (\<open>RendezvousRoom\<close>, \<open>rendezvous-room.ts\<close>) is a Durable Object: it may be evicted between two
  events, and what survives are the attachments serialized on its sockets and its storage.
  Everything shared is in the SQL database D1: presences, the signed replay state, access
  routes and grants, the listing with its revisions, and the request budgets. A publication
  goes through the room of its server, which fences itself at the new token generation before
  the batch of D1 statements commits.

  \<^bold>\<open>The theories: values and texts.\<close>
  \<^item> \<open>Prelude\<close>, \<open>JsValue\<close>: list facts, stable sorting with a comparator, JavaScript values and
    the type tests of the source, and two interfaces (\<open>codec\<close>, \<open>comparator\<close>).
  \<^item> \<open>Sequences\<close>: publication sequences as texts and as 64-bit numbers, in the room's and in
    SQL's comparison.
  \<^item> \<open>DirectoryText\<close>, \<open>Hostname\<close>: \<open>directory-state.ts\<close>'s display texts over UTF-16 units and
    the text triggers over UTF-8 bytes; \<open>hostname.ts\<close> and the GLOB constraints.
  \<^item> \<open>JsonText\<close>, \<open>TextCodec\<close>: \<open>JSON.parse\<close> on 16-bit units with fuel (\<open>2 * length + 2\<close> is
    enough, since every call consumes a unit or ends), \<open>JSON.stringify\<close>, UTF-8.
  \<^item> \<open>IpAddress\<close>: the address normalizer of \<open>protocol.ts\<close> against a denotation of addresses.

  \<^bold>\<open>The room.\<close>
  \<^item> \<open>Attachments\<close>: \<open>rendezvous-attachments.ts\<close>, the strict decoder and the encoder.
  \<^item> \<open>RoomState\<close>: the room as a record (sockets, instance memory, storage, and logs of what
    left the room), the platform calls, and the pure helpers.
  \<^item> \<open>RoomTeardown\<close>: failing clients and controls, the sweeps, reconciliation.
    \<open>RoomProgress\<close> shows that they only take away (\<open>tears\<close>), \<open>RoomOutcomes\<close> the room's
    invariant \<open>room_inv\<close>, the contracts of \<open>failClient\<close> and \<open>reconcileActiveServer\<close>, outcomes
    and metrics over sequences of teardowns, and the behaviour without platform faults.
  \<^item> \<open>RoomSessions\<close>: the message handlers; \<open>RoomInvariant\<close>: they keep the invariant.
  \<^item> \<open>Admission\<close>: the replay ledger of \<open>rendezvous-admission.ts\<close> in the room's own SQL storage.
  \<^item> \<open>RoomLifecycle\<close>: construction, upgrades, rotation, alarm, the end of a socket, dispatch and
    queues. \<open>RoomControls\<close> proves the replacement of a control, \<open>RoomClients\<close> the admission and
    delivery of a client, \<open>RoomEvents\<close> the step relation \<open>room_step\<close> over every event of a room
    and its invariant, \<open>RoomRelay\<close> when a frame is relayed, \<open>RoomAlarm\<close> rotation without faults,
    the alarm's deadlines and the message queues.

  \<^bold>\<open>The database.\<close>
  \<^item> \<open>Database\<close>, \<open>DirectoryTables\<close>: tables as lists of rows, statements as partial functions
    (\<open>None\<close> is an aborting constraint or trigger), a batch as their composition with rollback,
    upserts as an interface (\<open>keyed_table\<close>), the rows with their CHECK constraints.
  \<^item> \<open>AccessRoutes\<close>, \<open>AccessMutation\<close>, \<open>AccessGrants\<close>: \<open>access-route-state.ts\<close>,
    \<open>publisher-nonces.ts\<close>, \<open>access-grants.ts\<close>, \<open>access-budget.ts\<close>; \<open>AccessRuns\<close> and
    \<open>AccessProperties\<close> their reachable tables.
  \<^item> \<open>Publication\<close>: the batch of \<open>rendezvous-publication.ts\<close>. \<open>PublicationBatch\<close> runs it to a
    closed form, \<open>PublicationProperties\<close> relates it to the abstract listing, \<open>PublicationRoom\<close>
    composes it with the room's \<open>commitPublication\<close>.
  \<^item> \<open>DirectoryState\<close>: the expiry and checkpoint batches and the validated reads of
    \<open>directory-state.ts\<close>; \<open>DirectoryRuns\<close> and \<open>DirectoryBuilds\<close> their effects and the invariant
    over all writers.
  \<^item> \<open>RequestControl\<close>: the budgets of \<open>rate-limit.ts\<close> and the deletions of \<open>maintenance.ts\<close>.

  \<^bold>\<open>Requests.\<close>
  \<^item> \<open>PublicationContract\<close>, \<open>SignalContract\<close>: \<open>rendezvous-contract.ts\<close>, the private publication
    and upgrade requests and the signals; what passes fits the tables, what is relayed is canonical.
  \<^item> \<open>RendezvousEntry\<close>: \<open>rendezvous.ts\<close> and \<open>rendezvous-work.ts\<close>, challenges, admissions and the
    upgrade that reaches the room.
  \<^item> \<open>Http\<close>: \<open>http.ts\<close> and \<open>request-errors.ts\<close>, the public errors.

  \<^bold>\<open>Conventions.\<close> A TypeScript class or interface is a record, a union of string literals a
  datatype, \<open>null\<close> and \<open>undefined\<close> are \<open>None\<close>. Numbers that the source tests to be safe
  integers are \<open>int\<close>; strings are character lists where the source has restricted them to ASCII
  or where they are the UTF-8 bytes the database stores, and lists of 16-bit words where their
  UTF-16 units matter. A platform call that can throw (\<open>serializeAttachment\<close>, \<open>close\<close>, \<open>send\<close>,
  storage) takes its answer from the schedule \<open>platform\<close>, so that a theorem about every room is a
  theorem about every pattern of faults; a call that throws has no effect, and \<open>close\<close> that
  returns leaves the open state. A thrown \<open>RendezvousTeardownIntegrityError\<close> is
  \<open>Inl TeardownIntegrity\<close> or the boolean \<open>False\<close>, any other exception \<open>Inl PlatformFault\<close>. A
  handler that awaits is split into segments; each segment takes the room as other events left
  it, and the clock is read once per segment. Every socket has exactly the tag it was accepted
  with. A D1 batch is one transaction; between two D1 calls other transactions may run.

  \<^bold>\<open>Hypotheses that recur.\<close> \<open>no_faults\<close>: no platform call of the schedule fails; only liveness
  rests on it. Fresh identities: a random UUID, commit token, redemption or grant id is not
  stored yet (\<open>fresh_control\<close>, \<open>fresh_connection\<close>, \<open>fresh_commit\<close>, \<open>fresh_publication\<close>).
  \<open>observed_by p w\<close>: the clock of a public publication is not behind the stored activity of its
  own publisher; behind it the batch's activity assertion may abort. \<open>harmless\<close>: the transactions
  that run inside a commit leave this publisher alone; \<open>ce_answers\<close>: its reads are answered.
  The flag \<open>tc\<close> of the publication batch says whether SQLite counts the rows a trigger
  deletes; both answers are covered.

  \<^bold>\<open>Arguments of the model.\<close> Digests, HMAC tags, key rings, randomness, clocks, the answers of
  access checks inside a room, the ledger's integrity answer, and the IDNA library. Where a
  theorem needs a law of one of them it is a named hypothesis with an instance in its witness.

  \<^bold>\<open>Not modelled.\<close> Signature checks and Web Crypto (external code); the rendering of the directory
  files and R2; routing and HTTP framing other than the private requests; telemetry, health and
  log lines (best effort, never read back); configuration (its values are arguments); scripts.

  \<^bold>\<open>What modelling showed.\<close> \<open>stale_second_metric\<close> (in \<open>RoomRelay\<close>) derives a run in which one
  connection is counted with two outcomes, and \<open>suppressed_failure_unnoticed\<close> (in
  \<open>RoomInvariant\<close>) a teardown that fails silently.
\<close>

end
